(* ===== verification/Prelude.thy ===== *)
theory Prelude
  imports Main "HOL-Library.Word" "HOL-Library.Monad_Syntax"
begin

text \<open>
  Shared vocabulary of the development: the kernel's fixed-width integer types
  (include/vkernel/types.h), generic facts that move unsigned machine words to
  natural numbers, the list abstraction of singly linked nodes that both
  allocators of src/core/memory.cpp are built from, and searches over tables.
  The collection \<open>word_nat\<close> holds the facts that read a word expression as a
  natural number once the absence of wrap-around is known; \<open>chain_simps\<close> the
  rewrite rules of linked chains.
\<close>

unbundle bit_operations_syntax

named_theorems word_nat
named_theorems chain_simps

type_synonym u8 = "8 word"
type_synonym u16 = "16 word"
type_synonym u32 = "32 word"
type_synonym u64 = "64 word"

section \<open>Words as natural numbers\<close>

lemma unat_lt_64 [simp]: "unat (x :: u64) < 18446744073709551616"
  using unsigned_less [of x] by simp

lemma unat_less_exp: "unat (x :: 'a::len word) < 2 ^ LENGTH('a)"
  by (rule unsigned_less)

lemma unat_ucast_up:
  assumes "LENGTH('a) \<le> LENGTH('b)"
  shows "unat (ucast (x :: 'a::len word) :: 'b::len word) = unat x"
proof -
  have "unat x < 2 ^ LENGTH('b)"
    using unat_less_exp [of x] power_increasing [OF assms, of "2::nat"] by (rule order.strict_trans2) simp
  then show ?thesis by (simp add: unsigned_ucast_eq take_bit_nat_eq_self)
qed

lemma word_eq_unatI: "unat x = unat y \<Longrightarrow> x = (y :: 'a::len word)"
  by (rule unsigned_word_eqI)

lemma unat_plus_nw [word_nat]:
  "unat x + unat y < 2 ^ LENGTH('a) \<Longrightarrow> unat (x + y) = unat x + unat (y :: 'a::len word)"
  by (simp add: unat_add_lem)

lemma unat_plus64:
  "unat x + unat y < 18446744073709551616 \<Longrightarrow> unat (x + y) = unat x + unat (y :: u64)"
  by (rule unat_plus_nw) simp

lemma unat_minus_nw [word_nat]:
  "unat y \<le> unat x \<Longrightarrow> unat (x - y) = unat x - unat (y :: 'a::len word)"
  by (simp add: unat_sub word_le_nat_alt)

lemma unat_pow2:
  "k < LENGTH('a) \<Longrightarrow> unat (2 ^ k :: 'a::len word) = 2 ^ k"
proof -
  assume k: "k < LENGTH('a)"
  have "unat (2 ^ k :: 'a word) = unat (word_of_nat (2 ^ k) :: 'a word)" by simp
  also have "\<dots> = 2 ^ k mod 2 ^ LENGTH('a)" by (rule unat_of_nat)
  also have "\<dots> = 2 ^ k" using k by simp
  finally show ?thesis .
qed

lemma unat_and_mask: "unat (x AND mask k :: 'a::len word) = unat x mod 2 ^ k"
  unfolding take_bit_eq_mask [symmetric] unsigned_take_bit_eq by (rule take_bit_eq_mod)

lemma and_not_mask_plus: "(x AND NOT (mask k)) + (x AND mask k) = (x :: 'a::len word)"
proof -
  have "x AND NOT (mask k) = push_bit k (drop_bit k x)"
    by (rule bit_word_eqI) (auto simp: bit_simps)
  then show ?thesis by (simp only: take_bit_eq_mask [symmetric] bits_ident)
qed

lemma unat_and_not_mask:
  "unat (x AND NOT (mask k) :: 'a::len word) = unat x div 2 ^ k * 2 ^ k"
proof -
  have le: "x AND mask k \<le> x" by (rule word_and_le2)
  have "x AND NOT (mask k) = x - (x AND mask k)"
    by (metis and_not_mask_plus add_diff_cancel_right')
  then have "unat (x AND NOT (mask k)) = unat x - unat x mod 2 ^ k"
    using le by (simp add: unat_sub unat_and_mask)
  then show ?thesis by (simp add: minus_mod_eq_div_mult)
qed

lemma pow2_minus_1_mask: "(2 ^ k :: 'a::len word) - 1 = mask k"
  by (simp add: mask_eq_exp_minus_1)

section \<open>Chains of linked nodes\<close>

text \<open>
  \<open>chain nx p ns q\<close>: following the link \<open>nx\<close> from the pointer \<open>p\<close> visits
  exactly the nodes \<open>ns\<close> and arrives at the pointer \<open>q\<close>; \<open>None\<close> is the null
  pointer. A null-terminated list of the source is \<open>chain nx p ns None\<close>.
\<close>

fun chain :: "('a \<Rightarrow> 'a option) \<Rightarrow> 'a option \<Rightarrow> 'a list \<Rightarrow> 'a option \<Rightarrow> bool" where
  "chain nx p [] q \<longleftrightarrow> p = q"
| "chain nx p (n # ns) q \<longleftrightarrow> p = Some n \<and> chain nx (nx n) ns q"

lemma chain_append [chain_simps]:
  "chain nx p (xs @ ys) q \<longleftrightarrow> (\<exists>r. chain nx p xs r \<and> chain nx r ys q)"
  by (induction xs arbitrary: p) auto

lemma chain_cong:
  "(\<And>n. n \<in> set ns \<Longrightarrow> nx n = nx' n) \<Longrightarrow> chain nx p ns q = chain nx' p ns q"
  by (induction ns arbitrary: p) auto

lemma chain_fun_upd [chain_simps]:
  "n \<notin> set ns \<Longrightarrow> chain (nx(n := v)) p ns q = chain nx p ns q"
  by (rule chain_cong) auto

lemma chain_None_unique:
  "chain nx p xs None \<Longrightarrow> chain nx p ys None \<Longrightarrow> xs = ys"
proof (induction xs arbitrary: p ys)
  case Nil
  then show ?case by (cases ys) auto
next
  case (Cons x xs)
  then show ?case by (cases ys) auto
qed

lemma chain_head_not_in_tail:
  assumes "chain nx (Some n) (n # ns) None"
  shows "n \<notin> set ns"
proof
  assume "n \<in> set ns"
  then obtain us vs where ns: "ns = us @ n # vs" by (auto dest: split_list)
  with assms have "chain nx (Some n) (n # vs) None"
    by (auto simp: chain_append)
  with assms have "n # ns = n # vs" by (rule chain_None_unique)
  then show False using ns by simp
qed

lemma chain_None_distinct: "chain nx p ns None \<Longrightarrow> distinct ns"
proof (induction ns arbitrary: p)
  case (Cons n ns)
  then have "n \<notin> set ns" using chain_head_not_in_tail [of nx n ns] by auto
  with Cons show ?case by auto
qed simp

lemma chain_hd: "chain nx p (n # ns) q \<Longrightarrow> p = Some n"
  by simp

section \<open>Tables\<close>

text \<open>
  The kernel searches its fixed-size tables with a counting loop that stops at
  the first matching slot. \<open>first_index P xs\<close> is that loop: the least index
  whose entry satisfies \<open>P\<close>, \<open>None\<close> when the loop runs off the table.
\<close>

fun first_index :: "('a \<Rightarrow> bool) \<Rightarrow> 'a list \<Rightarrow> nat option" where
  "first_index P [] = None"
| "first_index P (x # xs) = (if P x then Some 0 else map_option Suc (first_index P xs))"

lemma first_index_Some:
  "first_index P xs = Some i \<longleftrightarrow>
     i < length xs \<and> P (xs ! i) \<and> (\<forall>j < i. \<not> P (xs ! j))"
proof (induction xs arbitrary: i)
  case (Cons x xs)
  show ?case
  proof (cases i)
    case (Suc k)
    then show ?thesis using Cons.IH [of k]
      by (auto simp: less_Suc_eq_0_disj)
  qed (auto simp: less_Suc_eq_0_disj)
qed simp

lemma first_index_None: "first_index P xs = None \<longleftrightarrow> (\<forall>x \<in> set xs. \<not> P x)"
  by (induction xs) auto

lemma first_index_SomeD:
  assumes "first_index P xs = Some i"
  shows "i < length xs" and "P (xs ! i)"
  using assms by (auto simp: first_index_Some)

lemma first_index_exists:
  "i < length xs \<Longrightarrow> P (xs ! i) \<Longrightarrow> \<exists>j. first_index P xs = Some j"
  by (cases "first_index P xs") (auto simp: first_index_None dest: nth_mem)

section \<open>Ordered layouts\<close>

lemma sorted_wrt_append_Cons:
  "sorted_wrt P (xs @ x # ys) \<longleftrightarrow>
     sorted_wrt P xs \<and> sorted_wrt P ys \<and> (\<forall>a \<in> set xs. P a x) \<and> (\<forall>b \<in> set ys. P x b) \<and>
     (\<forall>a \<in> set xs. \<forall>b \<in> set ys. P a b)"
  by (auto simp: sorted_wrt_append)

lemma sorted_wrt_cong_on:
  assumes "sorted_wrt P xs" and "\<And>a b. a \<in> set xs \<Longrightarrow> b \<in> set xs \<Longrightarrow> P a b \<Longrightarrow> Q a b"
  shows "sorted_wrt Q xs"
  using assms by (auto intro: sorted_wrt_mono_rel)

end
