(* ===== verification/Types.thy ===== *)
theory Types
  imports Prelude
begin

text \<open>
  The freestanding helpers of include/vkernel/types.h: alignment of addresses
  (\<open>align_up\<close>, \<open>align_down\<close>, \<open>is_aligned\<close> on 64-bit values), \<open>min\<close> and \<open>max\<close>,
  the status codes, and the string helpers: a \<open>string_view\<close> is a character
  list, a \<open>static_string<Capacity>\<close> a character list shorter than its capacity.
\<close>

section \<open>Status codes\<close>

datatype status_code =
    success | error | no_memory | invalid_param | not_implemented | not_ready | busy

section \<open>Alignment\<close>

definition PAGE_SIZE_4K :: u64 where "PAGE_SIZE_4K = 0x1000"

definition align_up :: "u64 \<Rightarrow> u64 \<Rightarrow> u64" where
  "align_up val align = (val + align - 1) AND NOT (align - 1)"

definition align_down :: "u64 \<Rightarrow> u64 \<Rightarrow> u64" where
  "align_down val align = val AND NOT (align - 1)"

definition is_aligned :: "u64 \<Rightarrow> u64 \<Rightarrow> bool" where
  "is_aligned val align \<longleftrightarrow> val AND (align - 1) = 0"

definition max_u64 :: "u64 \<Rightarrow> u64 \<Rightarrow> u64" where
  "max_u64 a b = (if a > b then a else b)"

definition min_u64 :: "u64 \<Rightarrow> u64 \<Rightarrow> u64" where
  "min_u64 a b = (if a < b then a else b)"

lemma unat_align_up:
  assumes "a = 2 ^ k" and "k < 64" and "unat v + 2 ^ k \<le> 2 ^ 64"
  shows "unat (align_up v a) = (unat v + 2 ^ k - 1) div 2 ^ k * 2 ^ k"
proof -
  have a0: "a \<noteq> 0" using assms(1,2) by auto
  then have a1: "unat (a - 1) = 2 ^ k - 1"
    using assms(1,2) by (simp add: unat_minus_one unat_pow2)
  have "unat v + unat (a - 1) < 2 ^ LENGTH(64)" using assms(3) a1 by simp
  then have "unat (v + (a - 1)) = unat v + (2 ^ k - 1)"
    using a1 by (simp add: unat_plus_nw)
  moreover have "align_up v a = (v + (a - 1)) AND NOT (mask k)"
    unfolding align_up_def using assms(1) by (simp add: pow2_minus_1_mask [symmetric] add_diff_eq)
  ultimately show ?thesis by (simp add: unat_and_not_mask)
qed

lemma unat_align_down:
  "a = 2 ^ k \<Longrightarrow> k < 64 \<Longrightarrow> unat (align_down v a) = unat v div 2 ^ k * 2 ^ k"
  by (simp add: align_down_def pow2_minus_1_mask unat_and_not_mask)

lemma is_aligned_iff: "a = 2 ^ k \<Longrightarrow> is_aligned v a \<longleftrightarrow> 2 ^ k dvd unat v"
proof -
  assume "a = 2 ^ k"
  then have "is_aligned v a \<longleftrightarrow> unat (v AND mask k) = 0"
    unfolding is_aligned_def by (simp add: pow2_minus_1_mask unat_eq_zero)
  then show ?thesis by (simp add: unat_and_mask dvd_eq_mod_eq_0)
qed

text \<open>The three facts about \<open>align_up\<close> the allocators rest on.\<close>

lemma align_up_dvd:
  "a = 2 ^ k \<Longrightarrow> k < 64 \<Longrightarrow> unat v + 2 ^ k \<le> 2 ^ 64 \<Longrightarrow> 2 ^ k dvd unat (align_up v a)"
  by (simp only: unat_align_up) simp

lemma div_mult_ceiling:
  assumes "0 < (m::nat)"
  shows "n \<le> (n + m - 1) div m * m" and "(n + m - 1) div m * m < n + m"
proof -
  have "(n + m - 1) div m * m + (n + m - 1) mod m = n + m - 1"
    by (rule div_mult_mod_eq)
  moreover have "(n + m - 1) mod m < m" using assms by simp
  ultimately show "n \<le> (n + m - 1) div m * m" and "(n + m - 1) div m * m < n + m"
    using assms by linarith+
qed

lemma align_up_bounds:
  assumes "a = 2 ^ k" and "k < 64" and "unat v + 2 ^ k \<le> 2 ^ 64"
  shows "unat v \<le> unat (align_up v a)" and "unat (align_up v a) < unat v + 2 ^ k"
  using unat_align_up [OF assms] div_mult_ceiling [of "2 ^ k" "unat v"] by simp_all

lemma align_up_id:
  assumes "a = 2 ^ k" and "k < 64" and "2 ^ k dvd unat v"
  shows "align_up v a = v"
proof -
  have le: "unat v + 2 ^ k \<le> 2 ^ 64"
  proof -
    obtain m where m: "unat v = 2 ^ k * m" using assms(3) by auto
    have pk: "(2::nat) ^ 64 = 2 ^ k * 2 ^ (64 - k)"
      using assms(2) by (simp add: power_add [symmetric])
    have "2 ^ k * m < 2 ^ k * 2 ^ (64 - k)" using unat_lt_64 [of v] m pk by simp
    then have "m < 2 ^ (64 - k)" by simp
    then have "2 ^ k * (m + 1) \<le> 2 ^ k * 2 ^ (64 - k)"
      by (intro mult_le_mono2) simp
    then show ?thesis using m pk by (simp add: algebra_simps)
  qed
  note b = align_up_bounds [OF assms(1,2) le]
  have "2 ^ k dvd unat (align_up v a) - unat v"
    using align_up_dvd [OF assms(1,2) le] assms(3) by (rule dvd_diff_nat)
  moreover have "unat (align_up v a) - unat v < 2 ^ k" using b by simp
  ultimately have "unat (align_up v a) - unat v = 0" by (meson nat_dvd_not_less gr0I)
  then have "unat (align_up v a) = unat v" using b(1) by simp
  then show ?thesis by (rule unsigned_word_eqI)
qed

section \<open>Strings\<close>

text \<open>\<open>string_view::compare\<close>: equal sizes, then character by character.\<close>

fun sv_equal_from :: "string \<Rightarrow> string \<Rightarrow> bool" where
  "sv_equal_from (a # as) (b # bs) \<longleftrightarrow> a = b \<and> sv_equal_from as bs"
| "sv_equal_from _ _ \<longleftrightarrow> True"

definition sv_compare :: "string \<Rightarrow> string \<Rightarrow> bool" where
  "sv_compare s other = (if length s \<noteq> length other then False else sv_equal_from s other)"

fun sv_starts_with :: "string \<Rightarrow> string \<Rightarrow> bool" where
  "sv_starts_with s prefix =
     (if length prefix > length s then False
      else sv_equal_from (take (length prefix) s) prefix)"

definition sv_remove_prefix :: "string \<Rightarrow> nat \<Rightarrow> string" where
  "sv_remove_prefix s count = drop (if count > length s then length s else count) s"

text \<open>\<open>static_string<Capacity>::assign\<close>: the success flag and the new content.\<close>

definition ss_assign :: "nat \<Rightarrow> string \<Rightarrow> bool \<times> string" where
  "ss_assign capacity str = (if length str \<ge> capacity then (False, []) else (True, str))"

lemma sv_equal_from_iff: "length s = length t \<Longrightarrow> sv_equal_from s t \<longleftrightarrow> s = t"
  by (induction s t rule: sv_equal_from.induct) auto

lemma sv_compare_eq [simp]: "sv_compare s t \<longleftrightarrow> s = t"
  by (auto simp: sv_compare_def sv_equal_from_iff)

lemma sv_starts_with_iff: "sv_starts_with s p \<longleftrightarrow> (\<exists>t. s = p @ t)"
proof
  assume "sv_starts_with s p"
  then have "length p \<le> length s" "take (length p) s = p"
    by (auto simp: sv_equal_from_iff split: if_splits)
  then have "s = p @ drop (length p) s" by (metis append_take_drop_id)
  then show "\<exists>t. s = p @ t" ..
qed (auto simp: sv_equal_from_iff)

end
