(* ===== verification/PhysAlloc.thy ===== *)
theory PhysAlloc
  imports Types
begin

text \<open>
  The physical page allocator of src/core/memory.cpp (class \<open>phys_allocator\<close>,
  include/vkernel/memory.h) and the memory map it is built from. The node pool
  \<open>g_region_pool\<close> is a list of regions; a \<open>memory_region*\<close> is an index into it,
  \<open>None\<close> for null. Every operation runs under the allocator's spinlock, so it is
  one step. The list walks follow \<open>next\<close> pointers and are
  \<^theory_text>\<open>partial_function (option)\<close>: \<open>None\<close> is a walk that never ends, which the
  invariant \<open>pa_inv\<close> excludes. Lines written to the log are not modelled.
\<close>

section \<open>Memory map\<close>

datatype memory_type =
    mt_reserved | loader_code | loader_data | boot_services_code | boot_services_data
  | runtime_services_code | runtime_services_data | conventional | unusable
  | acpi_reclaimable | nvs | memory_mapped_io | memory_mapped_io_port_space
  | pal_code | persistent

definition uefi_type_to_kernel :: "u32 \<Rightarrow> memory_type" where
  "uefi_type_to_kernel uefi_type =
     (if uefi_type = 0 then mt_reserved
      else if uefi_type = 1 then loader_code
      else if uefi_type = 2 then loader_data
      else if uefi_type = 3 then boot_services_code
      else if uefi_type = 4 then boot_services_data
      else if uefi_type = 5 then runtime_services_code
      else if uefi_type = 6 then runtime_services_data
      else if uefi_type = 7 then conventional
      else if uefi_type = 8 then unusable
      else if uefi_type = 9 then acpi_reclaimable
      else if uefi_type = 10 then nvs
      else if uefi_type = 11 then memory_mapped_io
      else if uefi_type = 12 then memory_mapped_io_port_space
      else if uefi_type = 13 then pal_code
      else if uefi_type = 14 then persistent
      else mt_reserved)"

fun type_string :: "memory_type \<Rightarrow> string" where
  "type_string mt_reserved = ''Reserved''"
| "type_string loader_code = ''Loader Code''"
| "type_string loader_data = ''Loader Data''"
| "type_string boot_services_code = ''Boot Services Code''"
| "type_string boot_services_data = ''Boot Services Data''"
| "type_string runtime_services_code = ''Runtime Services Code''"
| "type_string runtime_services_data = ''Runtime Services Data''"
| "type_string conventional = ''Conventional''"
| "type_string unusable = ''Unusable''"
| "type_string acpi_reclaimable = ''ACPI Reclaimable''"
| "type_string nvs = ''NVS''"
| "type_string memory_mapped_io = ''Memory Mapped I/O''"
| "type_string memory_mapped_io_port_space = ''MMIO Port Space''"
| "type_string pal_code = ''PAL Code''"
| "type_string persistent = ''Persistent''"

record memory_map_entry =
  physical_start :: u64
  virtual_start :: u64
  number_of_pages :: u64
  mtype :: memory_type
  attribute :: u64

definition end_address :: "memory_map_entry \<Rightarrow> u64" where
  "end_address e = physical_start e + number_of_pages e * PAGE_SIZE_4K"

definition entry_contains :: "memory_map_entry \<Rightarrow> u64 \<Rightarrow> bool" where
  "entry_contains e addr \<longleftrightarrow> addr \<ge> physical_start e \<and> addr < end_address e"

section \<open>State\<close>

record memory_region =
  mr_start :: u64
  mr_size :: u64
  mr_used :: bool
  mr_next :: "nat option"

type_synonym region_pool = "memory_region list"

record phys_allocator =
  pa_free_list :: "nat option"
  pa_total_pages :: u64
  pa_used_pages :: u64
  pa_free_pages :: u64
  pa_pool :: region_pool

definition REGION_POOL_SIZE :: nat where "REGION_POOL_SIZE = 512"

definition empty_region :: memory_region where
  "empty_region = \<lparr>mr_start = 0, mr_size = 0, mr_used = False, mr_next = None\<rparr>"

text \<open>The statically zero-initialised globals \<open>g_region_pool\<close> and \<open>g_phys_alloc\<close>.\<close>

definition pa_boot :: phys_allocator where
  "pa_boot = \<lparr>pa_free_list = None, pa_total_pages = 0, pa_used_pages = 0,
              pa_free_pages = 0, pa_pool = replicate REGION_POOL_SIZE empty_region\<rparr>"

definition alloc_region_node :: "region_pool \<Rightarrow> nat option" where
  "alloc_region_node pool = first_index (\<lambda>r. mr_size r = 0) pool"

definition free_region_node :: "region_pool \<Rightarrow> nat \<Rightarrow> region_pool" where
  "free_region_node pool node = pool[node := empty_region]"

section \<open>Initialisation\<close>

definition entry_is_free :: "memory_map_entry \<Rightarrow> bool" where
  "entry_is_free e \<longleftrightarrow>
     mtype e = conventional \<or> mtype e = boot_services_code \<or> mtype e = boot_services_data"

text \<open>The loop of \<open>phys_allocator::init\<close>; \<open>tail\<close> is the loop's local variable.\<close>

fun pa_init_loop :: "memory_map_entry list \<Rightarrow> nat option \<Rightarrow> phys_allocator \<Rightarrow> phys_allocator" where
  "pa_init_loop [] tail pa = pa"
| "pa_init_loop (entry # es) tail pa =
     (let pa = pa\<lparr>pa_total_pages := pa_total_pages pa + number_of_pages entry\<rparr> in
      if \<not> entry_is_free entry then pa_init_loop es tail pa
      else if number_of_pages entry = 0 then pa_init_loop es tail pa
      else (case alloc_region_node (pa_pool pa) of
          None \<Rightarrow> pa
        | Some node \<Rightarrow>
            (let start = physical_start entry;
                 size = number_of_pages entry * PAGE_SIZE_4K in
             if start = 0 \<and> size \<le> PAGE_SIZE_4K then
               pa_init_loop es tail
                 (pa\<lparr>pa_pool := free_region_node (pa_pool pa) node\<rparr>)
             else
               let start' = (if start = 0 then PAGE_SIZE_4K else start);
                   size' = (if start = 0 then size - PAGE_SIZE_4K else size);
                   pool = (pa_pool pa)[node := \<lparr>mr_start = start', mr_size = size',
                                               mr_used = False, mr_next = None\<rparr>];
                   pool' = (case tail of None \<Rightarrow> pool
                            | Some t \<Rightarrow> pool[t := (pool ! t)\<lparr>mr_next := Some node\<rparr>]) in
               pa_init_loop es (Some node)
                 (pa\<lparr>pa_pool := pool',
                     pa_free_list := (if tail = None then Some node else pa_free_list pa),
                     pa_free_pages := pa_free_pages pa + number_of_pages entry\<rparr>))))"

definition pa_init :: "phys_allocator \<Rightarrow> memory_map_entry list \<Rightarrow> phys_allocator \<times> status_code" where
  "pa_init pa mmap =
     (pa_init_loop mmap None
        (pa\<lparr>pa_free_list := None, pa_total_pages := 0, pa_used_pages := 0,
            pa_free_pages := 0\<rparr>), success)"

section \<open>Allocation\<close>

text \<open>The branch of \<open>allocate_pages\<close> whose aligned chunk starts the region.\<close>

definition pa_take_front :: "region_pool \<Rightarrow> nat \<Rightarrow> u64 \<Rightarrow> u64 \<Rightarrow> u64 \<Rightarrow> region_pool" where
  "pa_take_front pool i aligned_start req_size post_size =
     (let pool' =
        (if post_size > 0 then
           (case alloc_region_node pool of
              None \<Rightarrow> pool
            | Some t \<Rightarrow>
                pool[t := \<lparr>mr_start = aligned_start + req_size, mr_size = post_size,
                           mr_used = False, mr_next = mr_next (pool ! i)\<rparr>,
                     i := (pool ! i)\<lparr>mr_next := Some t, mr_size := req_size\<rparr>])
         else pool)
      in pool'[i := (pool' ! i)\<lparr>mr_used := True\<rparr>])"

text \<open>The branch that splits the chunk out of the region; \<open>None\<close> is its \<open>continue\<close>.\<close>

definition pa_take_middle ::
  "region_pool \<Rightarrow> nat \<Rightarrow> u64 \<Rightarrow> u64 \<Rightarrow> u64 \<Rightarrow> u64 \<Rightarrow> region_pool option" where
  "pa_take_middle pool i aligned_start req_size pre_size post_size =
     (case alloc_region_node pool of
        None \<Rightarrow> None
      | Some n \<Rightarrow>
          let pool1 = pool[n := \<lparr>mr_start = aligned_start, mr_size = req_size,
                                 mr_used = True, mr_next = mr_next (pool ! i)\<rparr>,
                           i := (pool ! i)\<lparr>mr_size := pre_size, mr_next := Some n\<rparr>]
          in Some (if post_size > 0 then
                (case alloc_region_node pool1 of
                   None \<Rightarrow> pool1
                 | Some t \<Rightarrow>
                     pool1[t := \<lparr>mr_start = aligned_start + req_size, mr_size = post_size,
                                 mr_used = False, mr_next = mr_next (pool1 ! n)\<rparr>,
                           n := (pool1 ! n)\<lparr>mr_next := Some t\<rparr>])
              else pool1))"

text \<open>One iteration of the loop: \<open>None\<close> moves on to the next region.\<close>

definition pa_try_region ::
  "phys_allocator \<Rightarrow> u32 \<Rightarrow> u32 \<Rightarrow> u64 \<Rightarrow> nat \<Rightarrow> (phys_allocator \<times> u64) option" where
  "pa_try_region pa page_count alignment max_addr i =
     (let region = pa_pool pa ! i;
          req_size = ucast page_count * PAGE_SIZE_4K;
          aligned_start = align_up (mr_start region) (ucast alignment);
          region_end = mr_start region + mr_size region in
      if mr_used region then None
      else if aligned_start + req_size > region_end then None
      else if max_addr \<noteq> 0 \<and> aligned_start + req_size > max_addr then None
      else
        let pre_size = aligned_start - mr_start region;
            post_size = region_end - (aligned_start + req_size) in
        map_option (\<lambda>pool.
            (pa\<lparr>pa_pool := pool,
                pa_used_pages := pa_used_pages pa + ucast page_count,
                pa_free_pages := pa_free_pages pa - ucast page_count\<rparr>, aligned_start))
          (if pre_size = 0
           then Some (pa_take_front (pa_pool pa) i aligned_start req_size post_size)
           else pa_take_middle (pa_pool pa) i aligned_start req_size pre_size post_size))"

partial_function (option) pa_alloc_walk ::
  "phys_allocator \<Rightarrow> u32 \<Rightarrow> u32 \<Rightarrow> u64 \<Rightarrow> nat option \<Rightarrow> (phys_allocator \<times> u64) option" where
  "pa_alloc_walk pa page_count alignment max_addr region =
     (case region of
        None \<Rightarrow> Some (pa, 0)
      | Some i \<Rightarrow>
          (case pa_try_region pa page_count alignment max_addr i of
             Some res \<Rightarrow> Some res
           | None \<Rightarrow> pa_alloc_walk pa page_count alignment max_addr (mr_next (pa_pool pa ! i))))"

declare pa_alloc_walk.simps [code]

definition allocate_pages ::
  "phys_allocator \<Rightarrow> u32 \<Rightarrow> u32 \<Rightarrow> u64 \<Rightarrow> (phys_allocator \<times> u64) option" where
  "allocate_pages pa page_count alignment max_addr =
     (if page_count = 0 then Some (pa, 0)
      else pa_alloc_walk pa page_count alignment max_addr (pa_free_list pa))"

section \<open>Release\<close>

text \<open>
  Both merges of \<open>free_pages\<close> fold the node \<open>n\<close> into its predecessor \<open>i\<close>:
  \<open>i->size += n->size; i->next = n->next; free_region_node(n)\<close>.
\<close>

definition pa_merge :: "region_pool \<Rightarrow> nat \<Rightarrow> nat \<Rightarrow> region_pool" where
  "pa_merge pool i n =
     free_region_node
       (pool[i := (pool ! i)\<lparr>mr_size := mr_size (pool ! i) + mr_size (pool ! n),
                             mr_next := mr_next (pool ! n)\<rparr>]) n"

definition pa_mergeable :: "region_pool \<Rightarrow> nat \<Rightarrow> nat \<Rightarrow> bool" where
  "pa_mergeable pool i n \<longleftrightarrow>
     mr_start (pool ! i) + mr_size (pool ! i) = mr_start (pool ! n)"

definition pa_release :: "phys_allocator \<Rightarrow> u32 \<Rightarrow> nat option \<Rightarrow> nat \<Rightarrow> phys_allocator" where
  "pa_release pa page_count prev i =
     (let pool1 = (pa_pool pa)[i := (pa_pool pa ! i)\<lparr>mr_used := False\<rparr>];
          pool2 = (case mr_next (pool1 ! i) of
                     None \<Rightarrow> pool1
                   | Some n \<Rightarrow> if \<not> mr_used (pool1 ! n) \<and> pa_mergeable pool1 i n
                               then pa_merge pool1 i n else pool1);
          pool3 = (case prev of
                     None \<Rightarrow> pool2
                   | Some p \<Rightarrow> if \<not> mr_used (pool2 ! p) \<and> pa_mergeable pool2 p i
                               then pa_merge pool2 p i else pool2)
      in pa\<lparr>pa_pool := pool3,
             pa_used_pages := pa_used_pages pa - ucast page_count,
             pa_free_pages := pa_free_pages pa + ucast page_count\<rparr>)"

partial_function (option) pa_free_walk ::
  "phys_allocator \<Rightarrow> u64 \<Rightarrow> u32 \<Rightarrow> nat option \<Rightarrow> nat option \<Rightarrow> phys_allocator option" where
  "pa_free_walk pa addr page_count prev region =
     (case region of
        None \<Rightarrow> Some pa
      | Some i \<Rightarrow>
          (if mr_start (pa_pool pa ! i) = addr \<and> mr_used (pa_pool pa ! i)
           then Some (pa_release pa page_count prev i)
           else pa_free_walk pa addr page_count (Some i) (mr_next (pa_pool pa ! i))))"

declare pa_free_walk.simps [code]

definition free_pages :: "phys_allocator \<Rightarrow> u64 \<Rightarrow> u32 \<Rightarrow> phys_allocator option" where
  "free_pages pa addr page_count =
     (if addr = 0 \<or> page_count = 0 then Some pa
      else pa_free_walk pa addr page_count None (pa_free_list pa))"

end
