(* ===== verification/PhysAllocInv.thy ===== *)
theory PhysAllocInv
  imports PhysAlloc
begin

text \<open>
  The invariant of the physical page allocator and what its two operations do
  to the node pool. \<open>pool_rel\<close> ties the pool to the list of node indices the
  \<open>next\<close> pointers spell out from \<open>free_list_\<close>: the nodes are distinct, in address
  order, do not overlap, and every node that is off the list has size 0, which
  is what \<open>alloc_region_node\<close> takes for a spare node. \<open>pool_took\<close> and \<open>pool_gave\<close>
  say what allocation and release do to the sets of free and used bytes.
\<close>

section \<open>Invariant\<close>

definition region_bytes :: "memory_region \<Rightarrow> nat set" where
  "region_bytes r = {unat (mr_start r) ..< unat (mr_start r) + unat (mr_size r)}"

definition region_ok :: "memory_region \<Rightarrow> bool" where
  "region_ok r \<longleftrightarrow> mr_start r \<noteq> 0 \<and> mr_size r \<noteq> 0 \<and>
     4096 dvd unat (mr_start r) \<and> 4096 dvd unat (mr_size r) \<and>
     unat (mr_start r) + unat (mr_size r) \<le> 2 ^ 52"

definition region_before :: "region_pool \<Rightarrow> nat \<Rightarrow> nat \<Rightarrow> bool" where
  "region_before pool i j \<longleftrightarrow>
     unat (mr_start (pool ! i)) + unat (mr_size (pool ! i)) \<le> unat (mr_start (pool ! j))"

definition pool_rel :: "region_pool \<Rightarrow> nat option \<Rightarrow> nat list \<Rightarrow> bool" where
  "pool_rel pool fl ns \<longleftrightarrow>
     chain (\<lambda>i. mr_next (pool ! i)) fl ns None \<and> set ns \<subseteq> {..<length pool} \<and>
     (\<forall>i < length pool. i \<notin> set ns \<longrightarrow> mr_size (pool ! i) = 0) \<and>
     (\<forall>i \<in> set ns. region_ok (pool ! i)) \<and> sorted_wrt (region_before pool) ns"

definition pa_inv :: "phys_allocator \<Rightarrow> bool" where
  "pa_inv pa \<longleftrightarrow> length (pa_pool pa) = REGION_POOL_SIZE \<and>
     (\<exists>ns. pool_rel (pa_pool pa) (pa_free_list pa) ns)"

definition pool_bytes :: "bool \<Rightarrow> region_pool \<Rightarrow> nat set" where
  "pool_bytes u pool =
     (\<Union>i \<in> {i. i < length pool \<and> mr_used (pool ! i) = u}. region_bytes (pool ! i))"

abbreviation pa_free_bytes :: "phys_allocator \<Rightarrow> nat set" where
  "pa_free_bytes pa \<equiv> pool_bytes False (pa_pool pa)"

abbreviation pa_used_bytes :: "phys_allocator \<Rightarrow> nat set" where
  "pa_used_bytes pa \<equiv> pool_bytes True (pa_pool pa)"

lemma sorted_wrt_either:
  assumes "sorted_wrt P xs" and "a \<in> set xs" and "b \<in> set xs" and "a \<noteq> b"
  shows "P a b \<or> P b a"
  using assms by (auto simp: sorted_wrt_iff_nth_less in_set_conv_nth) (metis nat_neq_iff)

lemma region_bytes_empty [simp]: "mr_size r = 0 \<Longrightarrow> region_bytes r = {}"
  by (simp add: region_bytes_def)

lemma pool_rel_distinct: "pool_rel pool fl ns \<Longrightarrow> distinct ns"
  by (auto simp: pool_rel_def intro: chain_None_distinct)

lemma pool_rel_disjoint:
  assumes "pool_rel pool fl ns" and "i \<in> set ns" and "j < length pool" and "i \<noteq> j"
  shows "region_bytes (pool ! i) \<inter> region_bytes (pool ! j) = {}"
proof (cases "j \<in> set ns")
  case True
  then have "region_before pool i j \<or> region_before pool j i"
    using assms sorted_wrt_either [of "region_before pool" ns i j] by (auto simp: pool_rel_def)
  then show ?thesis by (auto simp: region_before_def region_bytes_def)
next
  case False
  then show ?thesis using assms by (simp add: pool_rel_def)
qed

text \<open>
  An allocation replaces the node \<open>i\<close> of the list by \<open>i\<close> followed by the fresh
  nodes \<open>new\<close>, which together cover a part of what \<open>i\<close> covered.
\<close>

definition region_within :: "memory_region \<Rightarrow> memory_region \<Rightarrow> bool" where
  "region_within r R \<longleftrightarrow> region_ok r \<and> unat (mr_start R) \<le> unat (mr_start r) \<and>
     unat (mr_start r) + unat (mr_size r) \<le> unat (mr_start R) + unat (mr_size R)"

definition splices :: "region_pool \<Rightarrow> nat \<Rightarrow> nat list \<Rightarrow> region_pool \<Rightarrow> bool" where
  "splices pool i new pool' \<longleftrightarrow>
     length pool' = length pool \<and> set new \<subseteq> {..<length pool} \<and>
     (\<forall>j. j \<notin> set (i # new) \<longrightarrow> pool' ! j = pool ! j) \<and>
     chain (\<lambda>j. mr_next (pool' ! j)) (Some i) (i # new) (mr_next (pool ! i)) \<and>
     (\<forall>j \<in> set (i # new). region_within (pool' ! j) (pool ! i)) \<and>
     sorted_wrt (region_before pool') (i # new)"

lemma splices_same: "splices pool i new pool' \<Longrightarrow> j \<notin> set (i # new) \<Longrightarrow> pool' ! j = pool ! j"
  by (simp add: splices_def)

lemma splice_chain:
  assumes rel: "pool_rel pool fl (xs @ i # ys)" and sp: "splices pool i new pool'"
    and same: "\<And>j. j \<in> set xs \<union> set ys \<Longrightarrow> pool' ! j = pool ! j"
  shows "chain (\<lambda>j. mr_next (pool' ! j)) fl (xs @ i # new @ ys) None"
proof -
  have ch: "chain (\<lambda>j. mr_next (pool ! j)) fl xs (Some i)"
    "chain (\<lambda>j. mr_next (pool ! j)) (mr_next (pool ! i)) ys None"
    using rel by (auto simp: pool_rel_def chain_append)
  have "chain (\<lambda>j. mr_next (pool' ! j)) fl xs (Some i)"
    using ch(1) chain_cong [of xs "\<lambda>j. mr_next (pool' ! j)" "\<lambda>j. mr_next (pool ! j)"] same by simp
  moreover have "chain (\<lambda>j. mr_next (pool' ! j)) (mr_next (pool ! i)) ys None"
    using ch(2) chain_cong [of ys "\<lambda>j. mr_next (pool' ! j)" "\<lambda>j. mr_next (pool ! j)"] same by simp
  moreover have "chain (\<lambda>j. mr_next (pool' ! j)) (Some i) (i # new) (mr_next (pool ! i))"
    using sp by (simp add: splices_def)
  ultimately have "chain (\<lambda>j. mr_next (pool' ! j)) fl (xs @ (i # new) @ ys) None"
    unfolding chain_append by blast
  then show ?thesis by simp
qed

lemma splice_sorted:
  assumes rel: "pool_rel pool fl (xs @ i # ys)" and sp: "splices pool i new pool'"
    and same: "\<And>j. j \<in> set xs \<union> set ys \<Longrightarrow> pool' ! j = pool ! j"
  shows "sorted_wrt (region_before pool') (xs @ i # new @ ys)"
proof -
  have srt0: "sorted_wrt (region_before pool) (xs @ i # ys)" using rel by (simp add: pool_rel_def)
  have within: "region_within (pool' ! j) (pool ! i)" if "j \<in> set (i # new)" for j
    using sp that by (auto simp: splices_def)
  have "sorted_wrt (region_before pool') xs" "sorted_wrt (region_before pool') ys"
    using srt0 same by (auto simp: sorted_wrt_append region_before_def elim!: sorted_wrt_cong_on)
  moreover have "region_before pool' a b" if "a \<in> set xs" "b \<in> set (i # new) \<union> set ys" for a b
  proof -
    have "region_before pool a i" "b \<in> set ys \<Longrightarrow> region_before pool a b"
      using srt0 that(1) by (auto simp: sorted_wrt_append)
    then show ?thesis using that same [of a] same [of b] within [of b]
      by (auto simp: region_before_def region_within_def intro: order_trans)
  qed
  moreover have "region_before pool' a b" if "a \<in> set (i # new)" "b \<in> set ys" for a b
  proof -
    have "region_before pool i b" using srt0 that(2) by (auto simp: sorted_wrt_append)
    then show ?thesis using within [OF that(1)] same [of b] that(2)
      by (auto simp: region_before_def region_within_def)
  qed
  ultimately have "sorted_wrt (region_before pool') (xs @ (i # new) @ ys)"
    using sp by (auto simp: sorted_wrt_append splices_def)
  then show ?thesis by simp
qed

lemma pool_rel_splice:
  assumes rel: "pool_rel pool fl (xs @ i # ys)" and sp: "splices pool i new pool'"
    and fresh: "set new \<inter> set (xs @ i # ys) = {}"
  shows "pool_rel pool' fl (xs @ i # new @ ys)"
proof -
  have dist: "distinct (xs @ i # ys)" using rel by (rule pool_rel_distinct)
  have same: "pool' ! j = pool ! j" if "j \<in> set xs \<union> set ys" for j
    using that dist fresh by (intro splices_same [OF sp]) auto
  have "region_ok (pool' ! j)" if "j \<in> set (xs @ i # new @ ys)" for j
    using that rel sp same [of j] by (auto simp: pool_rel_def splices_def region_within_def)
  moreover have "mr_size (pool' ! j) = 0" if "j < length pool'" "j \<notin> set (xs @ i # new @ ys)" for j
    using that rel sp by (auto simp: pool_rel_def splices_def)
  moreover have "set (xs @ i # new @ ys) \<subseteq> {..<length pool'}"
    using rel sp by (auto simp: pool_rel_def splices_def)
  ultimately show ?thesis
    using splice_chain [OF rel sp same] splice_sorted [OF rel sp same] unfolding pool_rel_def by simp
qed

definition pieces :: "bool \<Rightarrow> region_pool \<Rightarrow> nat list \<Rightarrow> nat set" where
  "pieces u pool js = (\<Union>j \<in> {j \<in> set js. mr_used (pool ! j) = u}. region_bytes (pool ! j))"

lemma pieces_simps:
  "pieces u pool [] = {}"
  "pieces u pool (j # js) =
     (if mr_used (pool ! j) = u then region_bytes (pool ! j) else {}) \<union> pieces u pool js"
  by (auto simp: pieces_def)

lemma pool_bytes_splice:
  assumes rel: "pool_rel pool fl ns" and i: "i \<in> set ns" and sp: "splices pool i new pool'"
    and fresh: "set new \<inter> set ns = {}"
  shows "pool_bytes u pool' = (pool_bytes u pool - region_bytes (pool ! i)) \<union> pieces u pool' (i # new)"
    (is "_ = ?A \<union> ?B")
proof -
  have il: "i < length pool" and len: "length pool' = length pool"
    using rel i sp by (auto simp: pool_rel_def splices_def)
  have empty: "region_bytes (pool ! j) = {}" if "j \<in> set new" for j
    using rel that fresh sp by (auto simp: pool_rel_def splices_def)
  have disj: "region_bytes (pool ! i) \<inter> region_bytes (pool ! j) = {}" if "j < length pool" "j \<noteq> i" for j
    using pool_rel_disjoint [OF rel i that(1)] that(2) by auto
  note same = splices_same [OF sp]
  show ?thesis
  proof (intro equalityI subsetI)
    fix x assume "x \<in> pool_bytes u pool'"
    then obtain j where j: "j < length pool" "mr_used (pool' ! j) = u" "x \<in> region_bytes (pool' ! j)"
      using len by (auto simp: pool_bytes_def)
    show "x \<in> ?A \<union> ?B"
    proof (cases "j \<in> set (i # new)")
      case False
      then have "x \<notin> region_bytes (pool ! i)" using j same [OF False] disj [of j] by auto
      then show ?thesis using j same [OF False] by (auto simp: pool_bytes_def)
    qed (use j in \<open>auto simp: pieces_def\<close>)
  next
    fix x assume "x \<in> ?A \<union> ?B"
    then consider (a) j where "j < length pool" "mr_used (pool ! j) = u"
        "x \<in> region_bytes (pool ! j)" "x \<notin> region_bytes (pool ! i)"
      | (b) j where "j \<in> set (i # new)" "mr_used (pool' ! j) = u" "x \<in> region_bytes (pool' ! j)"
      by (auto simp: pool_bytes_def pieces_def)
    then show "x \<in> pool_bytes u pool'"
    proof cases
      case a
      then have "j \<notin> set (i # new)" using empty [of j] by auto
      then show ?thesis using a same [of j] len by (auto simp: pool_bytes_def)
    next
      case b
      then have "j < length pool'" using il sp by (auto simp: splices_def)
      then show ?thesis using b by (auto simp: pool_bytes_def)
    qed
  qed
qed

lemma alloc_region_node_fresh:
  assumes "pool_rel pool fl ns" and "alloc_region_node pool = Some t"
  shows "t < length pool" and "t \<notin> set ns"
  using assms first_index_SomeD [of "\<lambda>r. mr_size r = 0" pool t]
  by (auto simp: alloc_region_node_def pool_rel_def region_ok_def)

lemma pool_rel_node:
  assumes "pool_rel pool fl (xs @ i # ys)"
  shows "i < length pool" and "region_ok (pool ! i)"
  using assms by (auto simp: pool_rel_def)

text \<open>What an allocation of the bytes \<open>Q\<close> does to the pool.\<close>

definition pool_took :: "region_pool \<Rightarrow> nat option \<Rightarrow> nat set \<Rightarrow> region_pool \<Rightarrow> bool" where
  "pool_took pool fl Q pool' \<longleftrightarrow>
     length pool' = length pool \<and> (\<exists>ns'. pool_rel pool' fl ns') \<and>
     Q \<subseteq> pool_bytes False pool \<and> pool_bytes False pool' \<subseteq> pool_bytes False pool - Q \<and>
     pool_bytes True pool \<union> Q \<subseteq> pool_bytes True pool'"

definition pool_took_exactly :: "region_pool \<Rightarrow> nat set \<Rightarrow> region_pool \<Rightarrow> bool" where
  "pool_took_exactly pool Q pool' \<longleftrightarrow>
     pool_bytes False pool' = pool_bytes False pool - Q \<and>
     pool_bytes True pool' = pool_bytes True pool \<union> Q"

lemma splice_took:
  assumes rel: "pool_rel pool fl (xs @ i # ys)" and free: "\<not> mr_used (pool ! i)"
    and sp: "splices pool i new pool'" and fresh: "set new \<inter> set (xs @ i # ys) = {}"
    and Q: "Q \<subseteq> pieces True pool' (i # new)" "Q \<subseteq> region_bytes (pool ! i)"
      "pieces False pool' (i # new) \<subseteq> region_bytes (pool ! i) - Q"
  shows "pool_took pool fl Q pool'"
    and "pieces True pool' (i # new) = Q \<Longrightarrow> pieces False pool' (i # new) = region_bytes (pool ! i) - Q
       \<Longrightarrow> pool_took_exactly pool Q pool'"
proof -
  have i: "i \<in> set (xs @ i # ys)" "i < length pool" and len: "length pool' = length pool"
    using rel sp by (auto simp: pool_rel_def splices_def)
  note rel' = pool_rel_splice [OF rel sp fresh] and b = pool_bytes_splice [OF rel i(1) sp fresh]
  have R: "region_bytes (pool ! i) \<subseteq> pool_bytes False pool"
    using i(2) free by (auto simp: pool_bytes_def)
  have disj: "region_bytes (pool ! i) \<inter> pool_bytes True pool = {}"
    using pool_rel_disjoint [OF rel i(1)] free by (fastforce simp: pool_bytes_def)
  show "pool_took pool fl Q pool'"
    unfolding pool_took_def b using len rel' R Q disj by auto
  assume "pieces True pool' (i # new) = Q" "pieces False pool' (i # new) = region_bytes (pool ! i) - Q"
  then show "pool_took_exactly pool Q pool'"
    unfolding pool_took_exactly_def b using R Q disj by auto
qed

lemma take_whole_took:
  assumes rel: "pool_rel pool fl (xs @ i # ys)" and free: "\<not> mr_used (pool ! i)"
    and p': "pool' = pool[i := (pool ! i)\<lparr>mr_used := True\<rparr>]"
    and Q: "Q \<subseteq> region_bytes (pool ! i)"
  shows "pool_took pool fl Q pool'" and "Q = region_bytes (pool ! i) \<Longrightarrow> pool_took_exactly pool Q pool'"
proof -
  note node = pool_rel_node [OF rel]
  have sp: "splices pool i [] pool'"
    using node by (auto simp: splices_def p' region_within_def region_ok_def)
  have pc: "pieces True pool' [i] = region_bytes (pool ! i)" "pieces False pool' [i] = {}"
    using node(1) by (auto simp: pieces_simps p' region_bytes_def)
  show "pool_took pool fl Q pool'" and "Q = region_bytes (pool ! i) \<Longrightarrow> pool_took_exactly pool Q pool'"
    using splice_took [OF rel free sp, of Q] pc Q by auto
qed

lemma take_prefix_took:
  assumes rel: "pool_rel pool fl (xs @ i # ys)" and free: "\<not> mr_used (pool ! i)"
    and t: "alloc_region_node pool = Some t"
    and p': "pool' = pool[t := \<lparr>mr_start = tl_start, mr_size = post, mr_used = False,
          mr_next = mr_next (pool ! i)\<rparr>,
        i := (pool ! i)\<lparr>mr_next := Some t, mr_size := req, mr_used := True\<rparr>]"
    and tl: "unat tl_start = unat (mr_start (pool ! i)) + unat req" "4096 dvd unat req" "req \<noteq> 0"
    and sum: "unat req + unat post = unat (mr_size (pool ! i))" "post \<noteq> 0"
    and Q: "Q = {unat (mr_start (pool ! i)) ..< unat (mr_start (pool ! i)) + unat req}"
  shows "pool_took pool fl Q pool'" and "pool_took_exactly pool Q pool'"
proof -
  note node = pool_rel_node [OF rel] and tf = alloc_region_node_fresh [OF rel t]
  have ti: "t \<noteq> i" using tf by auto
  have p'i: "pool' ! i = (pool ! i)\<lparr>mr_next := Some t, mr_size := req, mr_used := True\<rparr>"
    and p't: "pool' ! t = \<lparr>mr_start = tl_start, mr_size = post, mr_used = False, mr_next = mr_next (pool ! i)\<rparr>"
    using p' node(1) tf ti by simp_all
  have dpost: "4096 dvd unat post"
    using sum(1) tl(2) node(2) by (metis dvd_add_right_iff region_ok_def)
  have tl0: "tl_start \<noteq> 0" using tl(1,3) by (auto simp: unat_gt_0 [symmetric])
  have within: "region_within (pool' ! i) (pool ! i)" "region_within (pool' ! t) (pool ! i)"
    using node(2) tl tl0 sum dpost by (auto simp: region_within_def region_ok_def p'i p't)
  have sp: "splices pool i [t] pool'"
    using tf tl(1) within p'i p't by (auto simp: splices_def p' region_before_def)
  have pc: "pieces True pool' [i, t] = Q" "pieces False pool' [i, t] = region_bytes (pool ! i) - Q"
    "Q \<subseteq> region_bytes (pool ! i)"
    using tl(1) sum(1) by (auto simp: pieces_simps p'i p't region_bytes_def Q)
  show "pool_took pool fl Q pool'" and "pool_took_exactly pool Q pool'"
    using splice_took [OF rel free sp, of Q] pc tf by auto
qed

lemma take_suffix_took:
  assumes rel: "pool_rel pool fl (xs @ i # ys)" and free: "\<not> mr_used (pool ! i)"
    and n: "alloc_region_node pool = Some n"
    and p': "pool' = pool[n := \<lparr>mr_start = aligned, mr_size = req, mr_used = True,
          mr_next = mr_next (pool ! i)\<rparr>,
        i := (pool ! i)\<lparr>mr_size := pre, mr_next := Some n\<rparr>]"
    and pre: "unat aligned = unat (mr_start (pool ! i)) + unat pre" "4096 dvd unat pre" "pre \<noteq> 0"
    and fit: "unat pre + unat req \<le> unat (mr_size (pool ! i))" "4096 dvd unat req" "req \<noteq> 0"
    and Q: "Q = {unat aligned ..< unat aligned + unat req}"
  shows "splices pool i [n] pool'" and "pool_took pool fl Q pool'"
    and "unat pre + unat req = unat (mr_size (pool ! i)) \<Longrightarrow> pool_took_exactly pool Q pool'"
proof -
  note node = pool_rel_node [OF rel] and nf = alloc_region_node_fresh [OF rel n]
  have ni: "n \<noteq> i" using nf by auto
  have p'i: "pool' ! i = (pool ! i)\<lparr>mr_size := pre, mr_next := Some n\<rparr>"
    and p'n: "pool' ! n = \<lparr>mr_start = aligned, mr_size = req, mr_used = True, mr_next = mr_next (pool ! i)\<rparr>"
    using p' node(1) nf ni by simp_all
  have al: "aligned \<noteq> 0" "4096 dvd unat aligned"
    using pre node(2) by (auto simp: unat_gt_0 [symmetric] region_ok_def)
  have within: "region_within (pool' ! i) (pool ! i)" "region_within (pool' ! n) (pool ! i)"
    using node(2) pre fit al by (auto simp: region_within_def region_ok_def p'i p'n)
  show sp: "splices pool i [n] pool'"
    using nf pre(1) within p'i p'n by (auto simp: splices_def p' region_before_def)
  have pc: "pieces True pool' [i, n] = Q" "pieces False pool' [i, n] \<subseteq> region_bytes (pool ! i) - Q"
    "Q \<subseteq> region_bytes (pool ! i)"
    using pre(1) fit(1) free by (auto simp: pieces_simps p'i p'n region_bytes_def Q)
  show "pool_took pool fl Q pool'" using splice_took(1) [OF rel free sp, of Q] pc nf by auto
  assume "unat pre + unat req = unat (mr_size (pool ! i))"
  then have "pieces False pool' [i, n] = region_bytes (pool ! i) - Q"
    using pre(1) free by (auto simp: pieces_simps p'i p'n region_bytes_def Q)
  then show "pool_took_exactly pool Q pool'" using splice_took(2) [OF rel free sp, of Q] pc nf by auto
qed

lemma take_interior_took:
  assumes rel: "pool_rel pool fl (xs @ i # ys)" and free: "\<not> mr_used (pool ! i)"
    and nt: "n < length pool" "t < length pool" "n \<notin> set (xs @ i # ys)" "t \<notin> set (xs @ i # ys)" "n \<noteq> t"
    and same: "length pool' = length pool" "\<And>j. j \<notin> {i, n, t} \<Longrightarrow> pool' ! j = pool ! j"
    and p': "pool' ! i = (pool ! i)\<lparr>mr_size := pre, mr_next := Some n\<rparr>"
      "pool' ! n = \<lparr>mr_start = aligned, mr_size = req, mr_used = True, mr_next = Some t\<rparr>"
      "pool' ! t = \<lparr>mr_start = tl_start, mr_size = post, mr_used = False, mr_next = mr_next (pool ! i)\<rparr>"
    and pre: "unat aligned = unat (mr_start (pool ! i)) + unat pre" "4096 dvd unat pre" "pre \<noteq> 0"
    and tl: "unat tl_start = unat aligned + unat req" "4096 dvd unat req" "req \<noteq> 0"
    and sum: "unat pre + unat req + unat post = unat (mr_size (pool ! i))" "post \<noteq> 0"
    and Q: "Q = {unat aligned ..< unat aligned + unat req}"
  shows "pool_took pool fl Q pool'" and "pool_took_exactly pool Q pool'"
proof -
  note node = pool_rel_node [OF rel]
  have al: "aligned \<noteq> 0" "4096 dvd unat aligned" "tl_start \<noteq> 0" "4096 dvd unat tl_start"
    using pre tl node(2) by (auto simp: unat_gt_0 [symmetric] region_ok_def)
  have dpost: "4096 dvd unat post"
    using sum(1) tl(2) pre(2) node(2) by (metis dvd_add dvd_add_right_iff region_ok_def)
  have within: "region_within (pool' ! i) (pool ! i)" "region_within (pool' ! n) (pool ! i)"
      "region_within (pool' ! t) (pool ! i)"
    using node(2) pre tl sum dpost al by (auto simp: region_within_def region_ok_def p')
  have sp: "splices pool i [n, t] pool'"
    using nt within same pre(1) tl(1) by (auto simp: splices_def region_before_def p')
  have pc: "pieces True pool' [i, n, t] = Q" "pieces False pool' [i, n, t] = region_bytes (pool ! i) - Q"
    "Q \<subseteq> region_bytes (pool ! i)"
    using pre(1) tl(1) sum(1) free by (auto simp: pieces_simps p' region_bytes_def Q)
  show "pool_took pool fl Q pool'" and "pool_took_exactly pool Q pool'"
    using splice_took [OF rel free sp, of Q] pc nt by auto
qed

definition pool_spare :: "region_pool \<Rightarrow> nat" where
  "pool_spare pool = length (filter (\<lambda>r. mr_size r = 0) pool)"

lemma alloc_region_node_None: "alloc_region_node pool = None \<longleftrightarrow> pool_spare pool = 0"
  by (simp add: alloc_region_node_def first_index_None pool_spare_def filter_empty_conv)

lemma pool_spare_update:
  assumes "i < length pool"
  shows "pool_spare (pool[i := r]) + (if mr_size (pool ! i) = 0 then 1 else 0) =
         pool_spare pool + (if mr_size r = 0 then 1 else 0)"
proof -
  have "pool = take i pool @ pool ! i # drop (Suc i) pool"
    using assms by (rule id_take_nth_drop)
  then have "pool_spare pool = pool_spare (take i pool @ pool ! i # drop (Suc i) pool)" by simp
  moreover have "pool[i := r] = take i pool @ r # drop (Suc i) pool"
    using assms by (rule upd_conv_take_nth_drop)
  ultimately show ?thesis by (simp add: pool_spare_def)
qed

lemma pool_spare_take:
  assumes "n < length pool" "i < length pool" "n \<noteq> i" "mr_size (pool ! n) = 0"
    "mr_size (pool ! i) \<noteq> 0" "mr_size r \<noteq> 0" "mr_size s \<noteq> 0"
  shows "Suc (pool_spare (pool[n := r, i := s])) = pool_spare pool"
  using assms pool_spare_update [of n pool r] pool_spare_update [of i "pool[n := r]" s] by simp

lemma take_front_took:
  assumes rel: "pool_rel pool fl (xs @ i # ys)" and free: "\<not> mr_used (pool ! i)"
    and aligned: "aligned = mr_start (pool ! i)"
    and sum: "unat req + unat post = unat (mr_size (pool ! i))" "4096 dvd unat req" "req \<noteq> 0"
    and Q: "Q = {unat aligned ..< unat aligned + unat req}"
  shows "pool_took pool fl Q (pa_take_front pool i aligned req post)"
    and "pool_spare pool \<noteq> 0 \<Longrightarrow> pool_took_exactly pool Q (pa_take_front pool i aligned req post)"
proof -
  note node = pool_rel_node [OF rel]
  let ?p = "pa_take_front pool i aligned req post"
  have QR: "Q \<subseteq> region_bytes (pool ! i)" using sum(1) by (auto simp: Q aligned region_bytes_def)
  have "pool_took pool fl Q ?p \<and> (pool_spare pool \<noteq> 0 \<longrightarrow> pool_took_exactly pool Q ?p)"
  proof (cases "post = 0 \<or> alloc_region_node pool = None")
    case True
    then have p: "?p = pool[i := (pool ! i)\<lparr>mr_used := True\<rparr>]"
      by (auto simp: pa_take_front_def)
    have "Q = region_bytes (pool ! i)" if "pool_spare pool \<noteq> 0"
      using True that sum(1) by (auto simp: alloc_region_node_None Q aligned region_bytes_def)
    then show ?thesis using take_whole_took [OF rel free p QR] by blast
  next
    case False
    then obtain t where t: "alloc_region_node pool = Some t" by auto
    have p: "?p = pool[t := \<lparr>mr_start = aligned + req, mr_size = post, mr_used = False,
          mr_next = mr_next (pool ! i)\<rparr>,
        i := (pool ! i)\<lparr>mr_next := Some t, mr_size := req, mr_used := True\<rparr>]"
      using t False node(1) by (simp add: pa_take_front_def Let_def word_gt_0)
    have "unat (aligned + req) = unat (mr_start (pool ! i)) + unat req"
      using node(2) sum(1) unfolding aligned by (intro unat_plus64) (auto simp: region_ok_def)
    then show ?thesis using take_prefix_took [OF rel free t p] sum False Q aligned by blast
  qed
  then show "pool_took pool fl Q ?p" and "pool_spare pool \<noteq> 0 \<Longrightarrow> pool_took_exactly pool Q ?p"
    by blast+
qed

lemma take_middle_took:
  assumes rel: "pool_rel pool fl (xs @ i # ys)" and free: "\<not> mr_used (pool ! i)"
    and pre: "unat aligned = unat (mr_start (pool ! i)) + unat pre" "4096 dvd unat pre" "pre \<noteq> 0"
    and sum: "unat pre + unat req + unat post = unat (mr_size (pool ! i))" "4096 dvd unat req" "req \<noteq> 0"
    and Q: "Q = {unat aligned ..< unat aligned + unat req}"
    and take: "pa_take_middle pool i aligned req pre post = Some pool'"
  shows "pool_took pool fl Q pool'" and "2 \<le> pool_spare pool \<Longrightarrow> pool_took_exactly pool Q pool'"
proof -
  note node = pool_rel_node [OF rel]
  from take obtain n where n: "alloc_region_node pool = Some n"
    by (auto simp: pa_take_middle_def split: option.splits)
  note nf = alloc_region_node_fresh [OF rel n]
  define p1 where "p1 = pool[n := \<lparr>mr_start = aligned, mr_size = req, mr_used = True,
      mr_next = mr_next (pool ! i)\<rparr>, i := (pool ! i)\<lparr>mr_size := pre, mr_next := Some n\<rparr>]"
  note S = take_suffix_took [OF rel free n p1_def pre _ sum(2,3) Q]
  have ni: "n \<noteq> i" using nf by auto
  have p1: "p1 ! i = (pool ! i)\<lparr>mr_size := pre, mr_next := Some n\<rparr>" "length p1 = length pool"
    "p1 ! n = \<lparr>mr_start = aligned, mr_size = req, mr_used = True, mr_next = mr_next (pool ! i)\<rparr>"
    using node(1) nf ni by (auto simp: p1_def)
  have "pool_took pool fl Q pool' \<and> (2 \<le> pool_spare pool \<longrightarrow> pool_took_exactly pool Q pool')"
  proof (cases "post = 0 \<or> alloc_region_node p1 = None")
    case True
    then have "pool' = p1" using take n by (auto simp: pa_take_middle_def p1_def Let_def)
    moreover have "post = 0" if "2 \<le> pool_spare pool"
    proof -
      have "mr_size (pool ! n) = 0" using n nf rel by (auto simp: pool_rel_def)
      then have "Suc (pool_spare p1) = pool_spare pool"
        unfolding p1_def using nf(1) node ni pre(3) sum(3)
        by (intro pool_spare_take) (auto simp: region_ok_def)
      then show ?thesis using True that by (simp add: alloc_region_node_None)
    qed
    ultimately show ?thesis using S sum(1) by auto
  next
    case False
    then obtain t where t: "alloc_region_node p1 = Some t" by auto
    have t1: "t < length pool" "mr_size (p1 ! t) = 0"
      using t first_index_SomeD [of "\<lambda>r. mr_size r = 0" p1 t] p1 by (auto simp: alloc_region_node_def)
    have tn: "t \<noteq> n" "t \<noteq> i" using t1 sum(3) pre(3) p1 by auto
    have tfr: "t \<notin> set (xs @ i # ys)"
      using t1 tn rel by (auto simp: pool_rel_def region_ok_def p1_def)
    have p': "pool' = p1[t := \<lparr>mr_start = aligned + req, mr_size = post, mr_used = False,
        mr_next = mr_next (p1 ! n)\<rparr>, n := (p1 ! n)\<lparr>mr_next := Some t\<rparr>]"
      using take n t False by (auto simp: pa_take_middle_def p1_def Let_def word_gt_0)
    have ar: "unat (aligned + req) = unat aligned + unat req"
      using node(2) pre(1) sum(1) by (intro unat_plus64) (auto simp: region_ok_def)
    have len: "length pool' = length pool" by (simp add: p' p1)
    have same: "pool' ! j = pool ! j" if "j \<notin> {i, n, t}" for j
      using that by (simp add: p' p1_def)
    have nodes: "pool' ! i = (pool ! i)\<lparr>mr_size := pre, mr_next := Some n\<rparr>"
      "pool' ! n = \<lparr>mr_start = aligned, mr_size = req, mr_used = True, mr_next = Some t\<rparr>"
      "pool' ! t = \<lparr>mr_start = aligned + req, mr_size = post, mr_used = False,
        mr_next = mr_next (pool ! i)\<rparr>"
      using p1 tn ni t1 nf by (simp_all add: p')
    note I = take_interior_took [OF rel free nf(1) t1(1) nf(2) tfr _ len same nodes pre ar sum(2,3,1) _ Q]
    have "pool_took pool fl Q pool'" "pool_took_exactly pool Q pool'"
      using I tn(1) False by auto
    then show ?thesis by blast
  qed
  then show "pool_took pool fl Q pool'" and "2 \<le> pool_spare pool \<Longrightarrow> pool_took_exactly pool Q pool'"
    by blast+
qed

lemma unat_ucast_u32: "unat (ucast (x :: u32) :: u64) = unat x"
  by (simp add: unat_ucast_up)

lemma ucast_pow2_u32: "k < 32 \<Longrightarrow> (ucast (2 ^ k :: u32) :: u64) = 2 ^ k"
  by (rule word_eq_unatI) (simp add: unat_ucast_u32 unat_pow2)

lemma unat_req_size: "unat (ucast (pc :: u32) * PAGE_SIZE_4K) = unat pc * 4096"
proof -
  have "unat pc < 4294967296" using unat_less_exp [of pc] by simp
  then show ?thesis by (simp add: unat_word_ariths PAGE_SIZE_4K_def unat_ucast_u32)
qed

lemma try_region_fits:
  fixes pc alignment :: u32
  assumes ok: "region_ok r" and al: "alignment = 2 ^ k" "12 \<le> k" "k < 32"
  defines "aligned \<equiv> align_up (mr_start r) (ucast alignment)"
    and "req \<equiv> ucast pc * PAGE_SIZE_4K"
  shows "unat (mr_start r) \<le> unat aligned" "2 ^ k dvd unat aligned" "4096 dvd unat aligned"
    and "unat (aligned + req) = unat aligned + unat pc * 4096"
    and "unat (mr_start r + mr_size r) = unat (mr_start r) + unat (mr_size r)"
proof -
  have a: "ucast alignment = (2 :: u64) ^ k" using al by (simp add: ucast_pow2_u32)
  have k32: "(2::nat) ^ k \<le> 2 ^ 32" using al(3) by (intro power_increasing) auto
  have sz: "unat (mr_start r) + unat (mr_size r) \<le> 2 ^ 52" using ok by (simp add: region_ok_def)
  have w: "unat (mr_start r) + 2 ^ k \<le> 2 ^ 64" using sz k32 by simp
  have k64: "k < 64" using al(3) by simp
  note b = align_up_bounds [OF a k64 w]
  show "unat (mr_start r) \<le> unat aligned" using b by (simp add: aligned_def)
  show d: "2 ^ k dvd unat aligned" using align_up_dvd [OF a k64 w] by (simp add: aligned_def)
  have "(2::nat) ^ 12 dvd 2 ^ k" using al(2) by (rule le_imp_power_dvd)
  then show "4096 dvd unat aligned" using d dvd_trans by fastforce
  have "unat pc < 4294967296" using unat_less_exp [of pc] by simp
  then have "unat aligned + unat req < 18446744073709551616"
    using b(2) k32 sz unat_req_size [of pc] by (simp add: aligned_def req_def)
  then show "unat (aligned + req) = unat aligned + unat pc * 4096"
    using unat_req_size [of pc] by (simp add: unat_plus64 req_def)
  show "unat (mr_start r + mr_size r) = unat (mr_start r) + unat (mr_size r)"
    using sz by (intro unat_plus64) simp
qed

definition region_hosts :: "memory_region \<Rightarrow> u32 \<Rightarrow> u32 \<Rightarrow> u64 \<Rightarrow> bool" where
  "region_hosts r page_count alignment max_addr \<longleftrightarrow> \<not> mr_used r \<and>
     (let a = unat (align_up (mr_start r) (ucast alignment)) + unat page_count * 4096
      in a \<le> unat (mr_start r) + unat (mr_size r) \<and> (max_addr \<noteq> 0 \<longrightarrow> a \<le> unat max_addr))"

lemma try_region_Some:
  assumes rel: "pool_rel (pa_pool pa) (pa_free_list pa) (xs @ i # ys)"
    and al: "alignment = 2 ^ k" "12 \<le> k" "k < 32" and pc: "page_count \<noteq> 0"
    and tr: "pa_try_region pa page_count alignment max_addr i = Some (pa', a)"
  defines "Q \<equiv> {unat a ..< unat a + unat page_count * 4096}"
  shows "pool_took (pa_pool pa) (pa_free_list pa) Q (pa_pool pa')"
    and "2 \<le> pool_spare (pa_pool pa) \<Longrightarrow> pool_took_exactly (pa_pool pa) Q (pa_pool pa')"
    and "pa_free_list pa' = pa_free_list pa" and "a \<noteq> 0" and "2 ^ k dvd unat a"
    and "max_addr \<noteq> 0 \<Longrightarrow> unat a + unat page_count * 4096 \<le> unat max_addr"
proof -
  let ?r = "pa_pool pa ! i" and ?req = "ucast page_count * PAGE_SIZE_4K :: u64"
  note node = pool_rel_node [OF rel]
  note f = try_region_fits [OF node(2) al]
  have pc0: "0 < unat page_count" using pc by (simp add: unat_gt_0)
  have req0: "?req \<noteq> 0" "4096 dvd unat ?req"
    using unat_req_size [of page_count] pc0 by (auto simp: unat_gt_0 [symmetric])
  from tr have a: "a = align_up (mr_start ?r) (ucast alignment)" and free: "\<not> mr_used ?r"
    and fit: "unat a + unat page_count * 4096 \<le> unat (mr_start ?r) + unat (mr_size ?r)"
    and mx: "max_addr \<noteq> 0 \<Longrightarrow> unat a + unat page_count * 4096 \<le> unat max_addr"
    and fl: "pa_free_list pa' = pa_free_list pa"
    using f(4,5) by (auto simp: pa_try_region_def Let_def word_less_nat_alt not_less split: if_splits)
  show "pa_free_list pa' = pa_free_list pa" "max_addr \<noteq> 0 \<Longrightarrow> unat a + unat page_count * 4096 \<le> unat max_addr"
    "2 ^ k dvd unat a" using fl mx f(2) a by auto
  show "a \<noteq> 0" using f(1) a node(2) by (auto simp: region_ok_def unat_gt_0 [symmetric])
  let ?pre = "a - mr_start ?r" and ?post = "mr_start ?r + mr_size ?r - (a + ?req)"
  have pre: "unat a = unat (mr_start ?r) + unat ?pre" "4096 dvd unat ?pre"
    using f(1,3) a node(2) by (auto simp: unat_minus_nw region_ok_def)
  have "unat ?post = unat (mr_start ?r) + unat (mr_size ?r) - (unat a + unat page_count * 4096)"
    using f(4,5) fit a by (simp add: unat_minus_nw)
  then have sum: "unat ?pre + unat ?req + unat ?post = unat (mr_size ?r)"
    using fit pre(1) unat_req_size [of page_count] by simp
  have Q: "Q = {unat a ..< unat a + unat ?req}" by (simp add: Q_def unat_req_size)
  have pool: "(if ?pre = 0 then Some (pa_take_front (pa_pool pa) i a ?req ?post)
       else pa_take_middle (pa_pool pa) i a ?req ?pre ?post) = Some (pa_pool pa')"
    using tr free by (auto simp: pa_try_region_def Let_def a split: if_splits)
  have "pool_took (pa_pool pa) (pa_free_list pa) Q (pa_pool pa') \<and>
    (2 \<le> pool_spare (pa_pool pa) \<longrightarrow> pool_took_exactly (pa_pool pa) Q (pa_pool pa'))"
  proof (cases "?pre = 0")
    case True
    then have "a = mr_start ?r" "unat ?req + unat ?post = unat (mr_size ?r)" using sum by auto
    from take_front_took [OF rel free this req0(2,1) Q] show ?thesis using pool True by auto
  next
    case False
    from take_middle_took [OF rel free pre False sum req0(2,1) Q] show ?thesis using pool False by auto
  qed
  then show "pool_took (pa_pool pa) (pa_free_list pa) Q (pa_pool pa')"
    and "2 \<le> pool_spare (pa_pool pa) \<Longrightarrow> pool_took_exactly (pa_pool pa) Q (pa_pool pa')" by blast+
qed

lemma try_region_None:
  assumes rel: "pool_rel (pa_pool pa) (pa_free_list pa) (xs @ i # ys)"
    and al: "alignment = 2 ^ k" "12 \<le> k" "k < 32"
    and tr: "pa_try_region pa page_count alignment max_addr i = None"
    and spare: "pool_spare (pa_pool pa) \<noteq> 0"
  shows "\<not> region_hosts (pa_pool pa ! i) page_count alignment max_addr"
proof -
  note node = pool_rel_node [OF rel]
  note f = try_region_fits [OF node(2) al]
  have "alloc_region_node (pa_pool pa) \<noteq> None" using spare by (simp add: alloc_region_node_None)
  then have mid: "(pa_take_middle (pa_pool pa) i a q p1 p2 = None) = False" for a q p1 p2
    by (auto simp: pa_take_middle_def Let_def)
  show ?thesis using tr f(4,5)
    by (auto simp: mid pa_try_region_def region_hosts_def Let_def word_less_nat_alt not_less split: if_splits)
qed

text \<open>The walk over the free list ends with the first region that hosts the request.\<close>

lemma alloc_walk_cases:
  assumes rel: "pool_rel (pa_pool pa) (pa_free_list pa) (ps @ ns)"
    and ch: "chain (\<lambda>i. mr_next (pa_pool pa ! i)) region ns None"
  shows "pa_alloc_walk pa pc al mx region = Some (pa, 0) \<and>
           (\<forall>i \<in> set ns. pa_try_region pa pc al mx i = None) \<or>
         (\<exists>xs i ys res. ps @ ns = xs @ i # ys \<and> pa_try_region pa pc al mx i = Some res \<and>
           pa_alloc_walk pa pc al mx region = Some res)"
  using assms
proof (induction ns arbitrary: ps region)
  case Nil
  then show ?case by (simp add: pa_alloc_walk.simps)
next
  case (Cons n ns)
  show ?case
  proof (cases "pa_try_region pa pc al mx n")
    case None
    have "pool_rel (pa_pool pa) (pa_free_list pa) ((ps @ [n]) @ ns)" using Cons.prems(1) by simp
    moreover have "chain (\<lambda>i. mr_next (pa_pool pa ! i)) (mr_next (pa_pool pa ! n)) ns None"
      using Cons.prems(2) by simp
    moreover have "pa_alloc_walk pa pc al mx region =
        pa_alloc_walk pa pc al mx (mr_next (pa_pool pa ! n))"
      using Cons.prems(2) None by (simp add: pa_alloc_walk.simps [of pa pc al mx "Some n"])
    ultimately show ?thesis using Cons.IH [of "ps @ [n]" "mr_next (pa_pool pa ! n)"] None by auto
  next
    case (Some res)
    then have "pa_alloc_walk pa pc al mx region = Some res"
      using Cons.prems(2) by (simp add: pa_alloc_walk.simps)
    then show ?thesis using Some by blast
  qed
qed

lemma allocate_pages_cases:
  assumes inv: "pa_inv pa" and pc: "page_count \<noteq> 0"
  obtains (fail) "allocate_pages pa page_count al mx = Some (pa, 0)"
      "\<And>ns i. pool_rel (pa_pool pa) (pa_free_list pa) ns \<Longrightarrow> i \<in> set ns \<Longrightarrow> pa_try_region pa page_count al mx i = None"
    | (ok) xs i ys pa' a where "pool_rel (pa_pool pa) (pa_free_list pa) (xs @ i # ys)"
      "pa_try_region pa page_count al mx i = Some (pa', a)"
      "allocate_pages pa page_count al mx = Some (pa', a)"
proof -
  from inv obtain ns where rel: "pool_rel (pa_pool pa) (pa_free_list pa) ns"
    by (auto simp: pa_inv_def)
  then have ch: "chain (\<lambda>i. mr_next (pa_pool pa ! i)) (pa_free_list pa) ns None"
    by (simp add: pool_rel_def)
  have uniq: "ms = ns" if "pool_rel (pa_pool pa) (pa_free_list pa) ms" for ms
    using that ch by (auto simp: pool_rel_def intro: chain_None_unique)
  have walk: "allocate_pages pa page_count al mx =
      pa_alloc_walk pa page_count al mx (pa_free_list pa)"
    using pc by (simp add: allocate_pages_def)
  from alloc_walk_cases [of pa "[]" ns "pa_free_list pa" page_count al mx] rel ch
  consider (f) "pa_alloc_walk pa page_count al mx (pa_free_list pa) = Some (pa, 0)"
      "\<forall>i \<in> set ns. pa_try_region pa page_count al mx i = None"
    | (o) xs i ys res where "ns = xs @ i # ys" "pa_try_region pa page_count al mx i = Some res"
      "pa_alloc_walk pa page_count al mx (pa_free_list pa) = Some res"
    by auto
  then show thesis
  proof cases
    case f
    show ?thesis by (rule fail) (use f walk uniq in auto)
  next
    case o
    then show ?thesis using ok [of xs i ys "fst res" "snd res"] rel walk by simp
  qed
qed

lemma allocate_pages_sound:
  assumes "pa_inv pa" and "page_count \<noteq> 0" and "alignment = 2 ^ k" "12 \<le> k" "k < 32"
  shows "\<exists>pa' a. allocate_pages pa page_count alignment max_addr = Some (pa', a) \<and> pa_inv pa' \<and>
     (a = 0 \<longrightarrow> pa' = pa) \<and>
     (a \<noteq> 0 \<longrightarrow> 2 ^ k dvd unat a \<and>
        (max_addr \<noteq> 0 \<longrightarrow> unat a + unat page_count * 4096 \<le> unat max_addr) \<and>
        {unat a ..< unat a + unat page_count * 4096} \<subseteq> pa_free_bytes pa \<and>
        pa_free_bytes pa' \<subseteq> pa_free_bytes pa - {unat a ..< unat a + unat page_count * 4096} \<and>
        pa_used_bytes pa \<union> {unat a ..< unat a + unat page_count * 4096} \<subseteq> pa_used_bytes pa')"
  using assms(1,2)
proof (cases rule: allocate_pages_cases [where al = alignment and mx = max_addr])
  case fail
  then show ?thesis using assms(1) by auto
next
  case (ok xs i ys pa' a)
  note T = try_region_Some [OF ok(1) assms(3-5,2) ok(2)]
  have "pa_inv pa'" using T(1,3) assms(1) by (auto simp: pa_inv_def pool_took_def)
  then show ?thesis using T ok(3) unfolding pool_took_def by blast
qed

lemma allocate_pages_exhausts:
  assumes "pa_inv pa" and "page_count \<noteq> 0" and "alignment = 2 ^ k" "12 \<le> k" "k < 32"
    and "pool_spare (pa_pool pa) \<noteq> 0" and "allocate_pages pa page_count alignment max_addr = Some (pa', 0)"
    and "i < length (pa_pool pa)" and "mr_size (pa_pool pa ! i) \<noteq> 0"
  shows "\<not> region_hosts (pa_pool pa ! i) page_count alignment max_addr"
  using assms(1,2)
proof (cases rule: allocate_pages_cases [where al = alignment and mx = max_addr])
  case fail
  from assms(1) obtain ns where rel: "pool_rel (pa_pool pa) (pa_free_list pa) ns"
    by (auto simp: pa_inv_def)
  then have "i \<in> set ns" using assms(8,9) by (auto simp: pool_rel_def)
  then obtain xs ys where "ns = xs @ i # ys" by (auto dest: split_list)
  then show ?thesis
    using try_region_None [of pa xs i ys, OF _ assms(3-5) _ assms(6)] fail(2) [OF rel \<open>i \<in> set ns\<close>] rel by simp
next
  case (ok xs i ys pa' a)
  then show ?thesis using try_region_Some(4) [OF ok(1) assms(3-5,2) ok(2)] assms(7) by simp
qed

lemma merge_nodes:
  assumes rel: "pool_rel pool fl (xs @ i # n # ys)" and adj: "pa_mergeable pool i n"
  defines "m \<equiv> pa_merge pool i n"
  shows "m ! i = (pool ! i)\<lparr>mr_size := mr_size (pool ! i) + mr_size (pool ! n),
           mr_next := mr_next (pool ! n)\<rparr>"
    and "m ! n = empty_region" and "j \<noteq> i \<Longrightarrow> j \<noteq> n \<Longrightarrow> m ! j = pool ! j"
    and "unat (mr_size (pool ! i) + mr_size (pool ! n)) = unat (mr_size (pool ! i)) + unat (mr_size (pool ! n))"
    and "unat (mr_start (pool ! n)) = unat (mr_start (pool ! i)) + unat (mr_size (pool ! i))"
    and "i \<noteq> n" and "length m = length pool"
proof -
  have d: "distinct (xs @ i # n # ys)" using rel by (rule pool_rel_distinct)
  then show "i \<noteq> n" by auto
  have l: "i < length pool" "n < length pool" and ok: "region_ok (pool ! i)" "region_ok (pool ! n)"
    using rel by (auto simp: pool_rel_def)
  show "m ! i = (pool ! i)\<lparr>mr_size := mr_size (pool ! i) + mr_size (pool ! n),
           mr_next := mr_next (pool ! n)\<rparr>" "m ! n = empty_region" "length m = length pool"
    "j \<noteq> i \<Longrightarrow> j \<noteq> n \<Longrightarrow> m ! j = pool ! j"
    using l \<open>i \<noteq> n\<close> by (simp_all add: m_def pa_merge_def free_region_node_def)
  have "unat (mr_start (pool ! i) + mr_size (pool ! i)) = unat (mr_start (pool ! i)) + unat (mr_size (pool ! i))"
    using ok(1) by (intro unat_plus64) (auto simp: region_ok_def)
  then show s: "unat (mr_start (pool ! n)) = unat (mr_start (pool ! i)) + unat (mr_size (pool ! i))"
    using adj by (simp add: pa_mergeable_def)
  then show "unat (mr_size (pool ! i) + mr_size (pool ! n)) = unat (mr_size (pool ! i)) + unat (mr_size (pool ! n))"
    using ok by (intro unat_plus64) (auto simp: region_ok_def)
qed

lemma pool_rel_merge:
  assumes rel: "pool_rel pool fl (xs @ i # n # ys)" and adj: "pa_mergeable pool i n"
  shows "pool_rel (pa_merge pool i n) fl (xs @ i # ys)"
proof -
  let ?m = "pa_merge pool i n"
  note M = merge_nodes [OF rel adj]
  have d: "distinct (xs @ i # n # ys)" using rel by (rule pool_rel_distinct)
  have same: "?m ! j = pool ! j" if "j \<in> set xs \<union> set ys" for j
    using that d by (intro M(3)) auto
  have ch: "chain (\<lambda>j. mr_next (pool ! j)) fl xs (Some i)"
    "chain (\<lambda>j. mr_next (pool ! j)) (mr_next (pool ! n)) ys None"
    using rel by (auto simp: pool_rel_def chain_append)
  have "chain (\<lambda>j. mr_next (?m ! j)) fl xs (Some i)"
    using ch(1) chain_cong [of xs "\<lambda>j. mr_next (?m ! j)" "\<lambda>j. mr_next (pool ! j)"] same by simp
  moreover have "chain (\<lambda>j. mr_next (?m ! j)) (mr_next (pool ! n)) ys None"
    using ch(2) chain_cong [of ys "\<lambda>j. mr_next (?m ! j)" "\<lambda>j. mr_next (pool ! j)"] same by simp
  ultimately have c: "chain (\<lambda>j. mr_next (?m ! j)) fl (xs @ i # ys) None"
    using M(1) by (auto simp: chain_append)
  have srt: "sorted_wrt (region_before pool) (xs @ i # n # ys)" using rel by (simp add: pool_rel_def)
  then have "sorted_wrt (region_before ?m) xs" "sorted_wrt (region_before ?m) ys"
    using same by (auto simp: sorted_wrt_append region_before_def elim!: sorted_wrt_cong_on)
  moreover have "region_before ?m a i" "b \<in> set ys \<Longrightarrow> region_before ?m a b" if "a \<in> set xs" for a b
    using srt that same [of a] same [of b] M(1)
    by (auto simp: sorted_wrt_append region_before_def)
  moreover have "region_before ?m i b" if "b \<in> set ys" for b
    using srt that same [of b] M(1,4,5) by (auto simp: sorted_wrt_append region_before_def)
  ultimately have s: "sorted_wrt (region_before ?m) (xs @ i # ys)"
    by (auto simp: sorted_wrt_append)
  have oks: "region_ok (pool ! i)" "region_ok (pool ! n)" using rel by (auto simp: pool_rel_def)
  have "mr_size (pool ! i) + mr_size (pool ! n) \<noteq> 0"
    using M(4) oks by (auto simp: region_ok_def unat_gt_0 [symmetric])
  then have "region_ok (?m ! i)" using oks M(1,4,5) by (auto simp: region_ok_def)
  then have "region_ok (?m ! j)" if "j \<in> set (xs @ i # ys)" for j
    using that rel same [of j] by (auto simp: pool_rel_def)
  moreover have "mr_size (?m ! j) = 0" if "j < length ?m" "j \<notin> set (xs @ i # ys)" for j
    using that rel M(2,3,7) by (cases "j = n") (auto simp: pool_rel_def empty_region_def)
  ultimately show ?thesis using c s rel M(7) unfolding pool_rel_def by auto
qed

lemma in_pool_bytesI:
  "x \<in> region_bytes (pool ! i) \<Longrightarrow> i < length pool \<Longrightarrow> mr_used (pool ! i) = u \<Longrightarrow> x \<in> pool_bytes u pool"
  by (auto simp: pool_bytes_def)

lemma pool_bytes_merge:
  assumes rel: "pool_rel pool fl (xs @ i # n # ys)" and adj: "pa_mergeable pool i n"
    and used: "mr_used (pool ! i) = mr_used (pool ! n)"
  shows "pool_bytes u (pa_merge pool i n) = pool_bytes u pool"
proof -
  let ?m = "pa_merge pool i n"
  note M = merge_nodes [OF rel adj]
  have l: "i < length pool" "n < length pool" using rel by (auto simp: pool_rel_def)
  have b: "region_bytes (?m ! i) = region_bytes (pool ! i) \<union> region_bytes (pool ! n)"
    "region_bytes (?m ! n) = {}" "mr_used (?m ! i) = mr_used (pool ! i)"
    using M(1,2,4,5) by (auto simp: region_bytes_def empty_region_def)
  show ?thesis
  proof (intro equalityI subsetI)
    fix x assume "x \<in> pool_bytes u ?m"
    then obtain j where j: "j < length pool" "mr_used (?m ! j) = u" "x \<in> region_bytes (?m ! j)"
      using M(7) by (auto simp: pool_bytes_def)
    have "j \<noteq> n" using j b(2) by auto
    show "x \<in> pool_bytes u pool"
    proof (cases "j = i")
      case True
      then show ?thesis using j b l used
        by (auto intro: in_pool_bytesI [of _ _ i] in_pool_bytesI [of _ _ n])
    next
      case False
      then show ?thesis using j M(3) [OF False \<open>j \<noteq> n\<close>] by (auto intro: in_pool_bytesI)
    qed
  next
    fix x assume "x \<in> pool_bytes u pool"
    then obtain j where j: "j < length pool" "mr_used (pool ! j) = u" "x \<in> region_bytes (pool ! j)"
      by (auto simp: pool_bytes_def)
    show "x \<in> pool_bytes u ?m"
    proof (cases "j = i \<or> j = n")
      case True
      then have "x \<in> region_bytes (?m ! i)" "mr_used (?m ! i) = u" using j b used by auto
      then show ?thesis using l(1) M(7) by (auto intro: in_pool_bytesI)
    next
      case False
      then have "?m ! j = pool ! j" by (intro M(3)) auto
      then show ?thesis using j M(7) by (intro in_pool_bytesI [of _ _ j]) auto
    qed
  qed
qed

definition pool_gave :: "region_pool \<Rightarrow> nat option \<Rightarrow> nat set \<Rightarrow> region_pool \<Rightarrow> bool" where
  "pool_gave pool fl R pool' \<longleftrightarrow> length pool' = length pool \<and> (\<exists>ns'. pool_rel pool' fl ns') \<and>
     pool_bytes False pool' = pool_bytes False pool \<union> R \<and>
     pool_bytes True pool' = pool_bytes True pool - R"

lemma release_mark:
  assumes rel: "pool_rel pool fl (xs @ i # ys)" and used: "mr_used (pool ! i)"
  defines "p1 \<equiv> pool[i := (pool ! i)\<lparr>mr_used := False\<rparr>]"
  shows "pool_rel p1 fl (xs @ i # ys)"
    and "pool_bytes False p1 = pool_bytes False pool \<union> region_bytes (pool ! i)"
    and "pool_bytes True p1 = pool_bytes True pool - region_bytes (pool ! i)"
proof -
  note node = pool_rel_node [OF rel]
  have sp: "splices pool i [] p1"
    using node by (auto simp: splices_def p1_def region_within_def region_ok_def)
  show "pool_rel p1 fl (xs @ i # ys)" using pool_rel_splice [OF rel sp] by simp
  have b: "pool_bytes u p1 = pool_bytes u pool - region_bytes (pool ! i) \<union> pieces u p1 [i]" for u
    using pool_bytes_splice [OF rel _ sp] by simp
  have pc: "pieces False p1 [i] = region_bytes (pool ! i)" "pieces True p1 [i] = {}"
    using node(1) by (auto simp: pieces_simps p1_def region_bytes_def)
  show "pool_bytes False p1 = pool_bytes False pool \<union> region_bytes (pool ! i)"
    and "pool_bytes True p1 = pool_bytes True pool - region_bytes (pool ! i)"
    unfolding b pc by auto
qed

lemma merge_next_step:
  assumes rel: "pool_rel pool fl (xs @ i # ys)" and free: "\<not> mr_used (pool ! i)"
  defines "p2 \<equiv> (case mr_next (pool ! i) of None \<Rightarrow> pool
      | Some n \<Rightarrow> if \<not> mr_used (pool ! n) \<and> pa_mergeable pool i n then pa_merge pool i n else pool)"
  shows "\<exists>zs. pool_rel p2 fl (xs @ i # zs)" and "pool_bytes u p2 = pool_bytes u pool"
    and "length p2 = length pool" and "\<not> mr_used (p2 ! i)"
proof -
  have "(\<exists>zs. pool_rel p2 fl (xs @ i # zs)) \<and> pool_bytes u p2 = pool_bytes u pool \<and>
      length p2 = length pool \<and> \<not> mr_used (p2 ! i)" for u
  proof (cases ys)
    case Nil
    then have "mr_next (pool ! i) = None" using rel by (auto simp: pool_rel_def chain_append)
    then show ?thesis using rel free by (auto simp: p2_def)
  next
    case (Cons n zs)
    then have nx: "mr_next (pool ! i) = Some n" using rel by (auto simp: pool_rel_def chain_append)
    show ?thesis
    proof (cases "\<not> mr_used (pool ! n) \<and> pa_mergeable pool i n")
      case True
      then have rel': "pool_rel pool fl (xs @ i # n # zs)" and adj: "pa_mergeable pool i n"
        using rel Cons by auto
      show ?thesis
        using True nx free pool_rel_merge [OF rel' adj] pool_bytes_merge [OF rel' adj]
          merge_nodes(1,7) [OF rel' adj] by (auto simp: p2_def)
    qed (use rel nx free in \<open>auto simp: p2_def\<close>)
  qed
  then show "\<exists>zs. pool_rel p2 fl (xs @ i # zs)" and "pool_bytes u p2 = pool_bytes u pool"
    and "length p2 = length pool" and "\<not> mr_used (p2 ! i)" by blast+
qed

lemma merge_prev_step:
  assumes rel: "pool_rel pool fl (xs @ i # ys)" and free: "\<not> mr_used (pool ! i)"
  defines "p3 \<equiv> (case (if xs = [] then None else Some (last xs)) of None \<Rightarrow> pool
      | Some p \<Rightarrow> if \<not> mr_used (pool ! p) \<and> pa_mergeable pool p i then pa_merge pool p i else pool)"
  shows "\<exists>ns. pool_rel p3 fl ns" and "pool_bytes u p3 = pool_bytes u pool" and "length p3 = length pool"
proof -
  have "(\<exists>ns. pool_rel p3 fl ns) \<and> pool_bytes u p3 = pool_bytes u pool \<and> length p3 = length pool" for u
  proof (cases xs rule: rev_cases)
    case Nil
    then show ?thesis using rel by (auto simp: p3_def)
  next
    case (snoc zs p)
    show ?thesis
    proof (cases "\<not> mr_used (pool ! p) \<and> pa_mergeable pool p i")
      case True
      then have rel': "pool_rel pool fl (zs @ p # i # ys)" and adj: "pa_mergeable pool p i"
        using rel snoc by auto
      show ?thesis using True snoc free pool_rel_merge [OF rel' adj] pool_bytes_merge [OF rel' adj]
          merge_nodes(7) [OF rel' adj] by (auto simp: p3_def)
    qed (use rel snoc in \<open>auto simp: p3_def\<close>)
  qed
  then show "\<exists>ns. pool_rel p3 fl ns" and "pool_bytes u p3 = pool_bytes u pool" and "length p3 = length pool"
    by blast+
qed

lemma release_gave:
  fixes pc :: u32
  assumes rel: "pool_rel (pa_pool pa) (pa_free_list pa) (xs @ i # ys)" and used: "mr_used (pa_pool pa ! i)"
  defines "pa' \<equiv> pa_release pa pc (if xs = [] then None else Some (last xs)) i"
  shows "pool_gave (pa_pool pa) (pa_free_list pa) (region_bytes (pa_pool pa ! i)) (pa_pool pa')"
    and "pa_free_list pa' = pa_free_list pa"
proof -
  define p1 where "p1 = (pa_pool pa)[i := (pa_pool pa ! i)\<lparr>mr_used := False\<rparr>]"
  define p2 where "p2 = (case mr_next (p1 ! i) of None \<Rightarrow> p1
      | Some n \<Rightarrow> if \<not> mr_used (p1 ! n) \<and> pa_mergeable p1 i n then pa_merge p1 i n else p1)"
  define p3 where "p3 = (case (if xs = [] then None else Some (last xs)) of None \<Rightarrow> p2
      | Some p \<Rightarrow> if \<not> mr_used (p2 ! p) \<and> pa_mergeable p2 p i then pa_merge p2 p i else p2)"
  note m1 = release_mark [OF rel used, folded p1_def]
  have f1: "\<not> mr_used (p1 ! i)" using pool_rel_node(1) [OF rel] by (simp add: p1_def)
  note m2 = merge_next_step [OF m1(1) f1, folded p2_def]
  then obtain zs where rel2: "pool_rel p2 (pa_free_list pa) (xs @ i # zs)" by blast
  note m3 = merge_prev_step [OF rel2 m2(4), folded p3_def]
  have "pa_pool pa' = p3"
    unfolding pa'_def pa_release_def p3_def p2_def p1_def Let_def by simp
  then show "pool_gave (pa_pool pa) (pa_free_list pa) (region_bytes (pa_pool pa ! i)) (pa_pool pa')"
    using m1(2,3) m2(2,3) m3 by (auto simp: pool_gave_def p1_def)
  show "pa_free_list pa' = pa_free_list pa" by (simp add: pa'_def pa_release_def Let_def)
qed

lemma free_walk_finds:
  assumes ch: "chain (\<lambda>j. mr_next (pa_pool pa ! j)) region (xs @ i # ys) None"
    and hit: "mr_start (pa_pool pa ! i) = addr" "mr_used (pa_pool pa ! i)"
    and miss: "\<And>j. j \<in> set xs \<Longrightarrow> mr_start (pa_pool pa ! j) \<noteq> addr"
  shows "pa_free_walk pa addr pc prev region =
     Some (pa_release pa pc (if xs = [] then prev else Some (last xs)) i)"
  using ch miss
proof (induction xs arbitrary: region prev)
  case Nil
  then show ?case using hit by (simp add: pa_free_walk.simps)
next
  case (Cons x xs)
  then have "pa_free_walk pa addr pc prev region = pa_free_walk pa addr pc (Some x) (mr_next (pa_pool pa ! x))"
    by (auto simp: pa_free_walk.simps [of pa addr pc prev "Some x"])
  also have "\<dots> = Some (pa_release pa pc (if xs = [] then Some x else Some (last xs)) i)"
    using Cons by (intro Cons.IH) auto
  finally show ?case by simp
qed

lemma free_walk_misses:
  assumes "chain (\<lambda>j. mr_next (pa_pool pa ! j)) region ns None"
    and "\<And>j. j \<in> set ns \<Longrightarrow> mr_start (pa_pool pa ! j) \<noteq> addr \<or> \<not> mr_used (pa_pool pa ! j)"
  shows "pa_free_walk pa addr pc prev region = Some pa"
  using assms
proof (induction ns arbitrary: region prev)
  case Nil
  then show ?case by (simp add: pa_free_walk.simps)
next
  case (Cons n ns)
  then have "pa_free_walk pa addr pc prev region = pa_free_walk pa addr pc (Some n) (mr_next (pa_pool pa ! n))"
    by (auto simp: pa_free_walk.simps [of pa addr pc prev "Some n"])
  also have "\<dots> = Some pa" using Cons by (intro Cons.IH) auto
  finally show ?case .
qed

lemma pool_rel_start_inj:
  assumes "pool_rel pool fl ns" "i \<in> set ns" "j \<in> set ns" "mr_start (pool ! i) = mr_start (pool ! j)"
  shows "i = j"
proof (rule ccontr)
  assume "i \<noteq> j"
  then have "region_before pool i j \<or> region_before pool j i"
    using assms sorted_wrt_either [of "region_before pool" ns i j] by (auto simp: pool_rel_def)
  moreover have "0 < unat (mr_size (pool ! i))" "0 < unat (mr_size (pool ! j))"
    using assms by (auto simp: pool_rel_def region_ok_def unat_gt_0)
  ultimately show False using assms(4) by (auto simp: region_before_def)
qed

lemma free_pages_release:
  assumes rel: "pool_rel (pa_pool pa) (pa_free_list pa) (xs @ i # ys)" and pc: "page_count \<noteq> 0"
    and used: "mr_used (pa_pool pa ! i)"
  shows "free_pages pa (mr_start (pa_pool pa ! i)) page_count =
     Some (pa_release pa page_count (if xs = [] then None else Some (last xs)) i)"
proof -
  have start: "mr_start (pa_pool pa ! i) \<noteq> 0" using rel by (auto simp: pool_rel_def region_ok_def)
  have "mr_start (pa_pool pa ! j) \<noteq> mr_start (pa_pool pa ! i)" if "j \<in> set xs" for j
    using pool_rel_start_inj [OF rel, of j i] that pool_rel_distinct [OF rel] by auto
  then show ?thesis
    using start pc rel used unfolding free_pages_def
    by (simp add: free_walk_finds [of pa "pa_free_list pa" xs i ys] pool_rel_def)
qed

lemma free_pages_gives:
  assumes inv: "pa_inv pa" and pc: "page_count \<noteq> 0"
    and i: "i < length (pa_pool pa)" "mr_used (pa_pool pa ! i)" "mr_size (pa_pool pa ! i) \<noteq> 0"
  shows "\<exists>pa'. free_pages pa (mr_start (pa_pool pa ! i)) page_count = Some pa' \<and> pa_inv pa' \<and>
     pa_free_bytes pa' = pa_free_bytes pa \<union> region_bytes (pa_pool pa ! i) \<and>
     pa_used_bytes pa' = pa_used_bytes pa - region_bytes (pa_pool pa ! i)"
proof -
  from inv obtain ns where rel: "pool_rel (pa_pool pa) (pa_free_list pa) ns" by (auto simp: pa_inv_def)
  then have "i \<in> set ns" using i by (auto simp: pool_rel_def)
  then obtain xs ys where ns: "ns = xs @ i # ys" by (auto dest: split_list)
  show ?thesis
    using free_pages_release [OF rel [unfolded ns] pc i(2)]
      release_gave [OF rel [unfolded ns] i(2), of page_count] inv
    by (auto simp: pool_gave_def pa_inv_def)
qed

end
