(* ===== verification/Blocks.thy ===== *)
theory Blocks
  imports Prelude
begin

text \<open>
  The contract the kernel's allocators share, as a locale. \<open>live s a\<close> is the set of
  bytes held by the live block at address \<open>a\<close> (empty when there is none), \<open>valid\<close>
  the requests a client may make and \<open>len\<close> the number of bytes a request asks for.
  A client's run takes blocks and gives back blocks it holds; the lemmas of the
  locale say that what it holds is always pairwise disjoint.
\<close>

inductive block_run ::
  "('s \<Rightarrow> 'r \<Rightarrow> ('s \<times> u64) option) \<Rightarrow> ('s \<Rightarrow> u64 \<Rightarrow> 'r \<Rightarrow> 's option) \<Rightarrow> ('r \<Rightarrow> bool) \<Rightarrow>
   's \<Rightarrow> 's \<Rightarrow> (u64 \<times> 'r) set \<Rightarrow> bool" for alloc release valid s0 where
  run_start: "block_run alloc release valid s0 s0 {}"
| run_take: "block_run alloc release valid s0 s L \<Longrightarrow> valid r \<Longrightarrow> alloc s r = Some (s', a) \<Longrightarrow>
    block_run alloc release valid s0 s' (if a = 0 then L else insert (a, r) L)"
| run_give: "block_run alloc release valid s0 s L \<Longrightarrow> (a, r) \<in> L \<Longrightarrow> release s a r = Some s' \<Longrightarrow>
    block_run alloc release valid s0 s' (L - {(a, r)})"

locale block_allocator =
  fixes inv :: "'s \<Rightarrow> bool" and live :: "'s \<Rightarrow> u64 \<Rightarrow> nat set"
    and alloc :: "'s \<Rightarrow> 'r \<Rightarrow> ('s \<times> u64) option" and release :: "'s \<Rightarrow> u64 \<Rightarrow> 'r \<Rightarrow> 's option"
    and valid :: "'r \<Rightarrow> bool" and len :: "'r \<Rightarrow> nat"
  assumes live_disjoint: "inv s \<Longrightarrow> a \<noteq> b \<Longrightarrow> live s a \<inter> live s b = {}"
    and valid_len: "valid r \<Longrightarrow> 0 < len r"
    and alloc_total: "inv s \<Longrightarrow> valid r \<Longrightarrow> \<exists>s' a. alloc s r = Some (s', a)"
    and alloc_none: "inv s \<Longrightarrow> valid r \<Longrightarrow> alloc s r = Some (s', 0) \<Longrightarrow> inv s' \<and> live s' = live s"
    and alloc_some: "inv s \<Longrightarrow> valid r \<Longrightarrow> alloc s r = Some (s', a) \<Longrightarrow> a \<noteq> 0 \<Longrightarrow>
      inv s' \<and> live s a = {} \<and> {unat a ..< unat a + len r} \<subseteq> live s' a \<and> (\<forall>b. b \<noteq> a \<longrightarrow> live s' b = live s b)"
    and release_live: "inv s \<Longrightarrow> valid r \<Longrightarrow> a \<noteq> 0 \<Longrightarrow> live s a \<noteq> {} \<Longrightarrow>
      \<exists>s'. release s a r = Some s' \<and> inv s' \<and> live s' a = {} \<and> (\<forall>b. b \<noteq> a \<longrightarrow> live s' b = live s b)"
begin

lemma block_nonempty: "valid r \<Longrightarrow> {unat a ..< unat a + len r} \<noteq> {}"
  using valid_len [of r] by simp

lemma alloc_inv: "inv s \<Longrightarrow> valid r \<Longrightarrow> alloc s r = Some (s', a) \<Longrightarrow> inv s'"
  using alloc_none [of s r s'] alloc_some [of s r s' a] by (cases "a = 0") auto

lemma alloc_fresh:
  assumes "inv s" "valid r" "alloc s r = Some (s', a)" "a \<noteq> 0"
  shows "{unat a ..< unat a + len r} \<inter> live s b = {}"
proof (cases "b = a")
  case False
  note A = alloc_some [OF assms]
  then have "live s' a \<inter> live s' b = {}" using live_disjoint [of s' a b] False by blast
  then show ?thesis using A False by blast
qed (use alloc_some [OF assms] in auto)

definition holds :: "'s \<Rightarrow> (u64 \<times> 'r) set \<Rightarrow> bool" where
  "holds s L \<longleftrightarrow> inv s \<and>
     (\<forall>a r. (a, r) \<in> L \<longrightarrow> a \<noteq> 0 \<and> valid r \<and> {unat a ..< unat a + len r} \<subseteq> live s a) \<and>
     (\<forall>a r q. (a, r) \<in> L \<longrightarrow> (a, q) \<in> L \<longrightarrow> r = q)"

lemma holds_take:
  assumes H: "holds s L" and r: "valid r" and al: "alloc s r = Some (s', a)"
  shows "holds s' (if a = 0 then L else insert (a, r) L)"
proof (cases "a = 0")
  case True
  then show ?thesis using alloc_none [of s r s'] assms by (simp add: holds_def)
next
  case False
  have I: "inv s" and L: "\<And>b q. (b, q) \<in> L \<Longrightarrow> b \<noteq> 0 \<and> valid q \<and> {unat b ..< unat b + len q} \<subseteq> live s b"
    and u: "\<And>b q q'. (b, q) \<in> L \<Longrightarrow> (b, q') \<in> L \<Longrightarrow> q = q'" using H unfolding holds_def by blast+
  note A = alloc_some [OF I r al False]
  have fresh: "b \<noteq> a" if "(b, q) \<in> L" for b q
    using L [OF that] block_nonempty [of q b] A by blast
  have old: "{unat b ..< unat b + len q} \<subseteq> live s' b" if "(b, q) \<in> L" for b q
    using L [OF that] fresh [OF that] A by metis
  have "b \<noteq> 0 \<and> valid q \<and> {unat b ..< unat b + len q} \<subseteq> live s' b" if "(b, q) \<in> insert (a, r) L" for b q
    using that A L [of b q] old [of b q] r False by blast
  moreover have "q = q'" if "(b, q) \<in> insert (a, r) L" "(b, q') \<in> insert (a, r) L" for b q q'
    using that u [of b q q'] fresh [of b q] fresh [of b q'] by blast
  ultimately show ?thesis using A False unfolding holds_def by auto
qed

lemma holds_give:
  assumes H: "holds s L" and ar: "(a, r) \<in> L" and rl: "release s a r = Some s'"
  shows "holds s' (L - {(a, r)})"
proof -
  have I: "inv s" and L: "\<And>b q. (b, q) \<in> L \<Longrightarrow> b \<noteq> 0 \<and> valid q \<and> {unat b ..< unat b + len q} \<subseteq> live s b"
    and u: "\<And>b q q'. (b, q) \<in> L \<Longrightarrow> (b, q') \<in> L \<Longrightarrow> q = q'" using H unfolding holds_def by blast+
  have "live s a \<noteq> {}" using L [OF ar] block_nonempty [of r a] by blast
  then have R: "inv s'" "\<And>b. b \<noteq> a \<Longrightarrow> live s' b = live s b"
    using release_live [OF I, of r a] L [OF ar] rl by auto
  have ne: "b \<noteq> a" if "(b, q) \<in> L - {(a, r)}" for b q using that u [OF ar, of q] by auto
  have "b \<noteq> 0 \<and> valid q \<and> {unat b ..< unat b + len q} \<subseteq> live s' b" if "(b, q) \<in> L - {(a, r)}" for b q
    using that L [of b q] R(2) [OF ne [OF that]] by blast
  then show ?thesis using R(1) u unfolding holds_def by blast
qed

lemma run_holds:
  assumes "block_run alloc release valid s0 s L" and "inv s0" shows "holds s L"
  using assms
proof (induction rule: block_run.induct)
  case run_start
  then show ?case by (simp add: holds_def)
next
  case (run_take s L r s' a)
  then show ?case by (intro holds_take) auto
next
  case (run_give s L a r s')
  then show ?case by (intro holds_give) auto
qed

lemma run_disjoint:
  assumes "block_run alloc release valid s0 s L" and "inv s0" and "(a, r) \<in> L" "(b, q) \<in> L" "(a, r) \<noteq> (b, q)"
  shows "{unat a ..< unat a + len r} \<inter> {unat b ..< unat b + len q} = {}"
proof -
  note H = run_holds [OF assms(1,2), unfolded holds_def]
  then have "a \<noteq> b" using assms(3-5) by blast
  then have "live s a \<inter> live s b = {}" using H live_disjoint [of s a b] by blast
  then show ?thesis using H assms(3,4) by blast
qed

lemma run_release_defined:
  assumes "block_run alloc release valid s0 s L" and "inv s0" and "(a, r) \<in> L"
  shows "\<exists>s'. release s a r = Some s'"
proof -
  have "inv s" "a \<noteq> 0" "valid r" "{unat a ..< unat a + len r} \<subseteq> live s a"
    using run_holds [OF assms(1,2)] assms(3) unfolding holds_def by blast+
  then show ?thesis using release_live [of s r a] block_nonempty [of r a] by blast
qed

end

end
