(* ===== verification/PhysAllocSpec.thy ===== *)
theory PhysAllocSpec
  imports PhysAllocInv Blocks
begin

text \<open>
  The contract of the physical page allocator. The first part shows that
  \<open>phys_allocator::init\<close> establishes the invariant from a firmware memory map;
  the second follows the blocks that are handed out; the locale \<open>page_allocator\<close>
  states the contract the rest of the kernel relies on, with a client's run as
  its main lemma, and is interpreted on the allocator's own operations.
\<close>

section \<open>Initialisation\<close>

definition entry_bytes :: "memory_map_entry \<Rightarrow> nat set" where
  "entry_bytes e = {unat (physical_start e) ..< unat (physical_start e) + unat (number_of_pages e) * 4096}"

definition memory_map_ok :: "memory_map_entry list \<Rightarrow> bool" where
  "memory_map_ok es \<longleftrightarrow>
     sorted_wrt (\<lambda>e f. unat (physical_start e) + unat (number_of_pages e) * 4096 \<le> unat (physical_start f)) es \<and>
     (\<forall>e \<in> set es. 4096 dvd unat (physical_start e) \<and>
        unat (physical_start e) + unat (number_of_pages e) * 4096 \<le> 2 ^ 52)"

definition free_map_bytes :: "memory_map_entry list \<Rightarrow> nat set" where
  "free_map_bytes es = (\<Union>e \<in> {e \<in> set es. entry_is_free e}. entry_bytes e) - {..<4096}"

lemma pool_bytes_two_updates:
  assumes "n < length pool" "mr_size (pool ! n) = 0" "n \<noteq> t"
    and "t < length pool \<Longrightarrow> region_bytes s = region_bytes (pool ! t) \<and> mr_used s = mr_used (pool ! t)"
  shows "pool_bytes u (pool[n := r, t := s]) = pool_bytes u pool \<union> (if mr_used r = u then region_bytes r else {})"
proof -
  let ?p = "pool[n := r, t := s]"
  have j: "mr_used (?p ! j) = mr_used (pool ! j) \<and> region_bytes (?p ! j) = region_bytes (pool ! j)"
    if "j < length pool" "j \<noteq> n" for j using that assms by (cases "j = t") auto
  have n: "?p ! n = r" using assms(1,3) by simp
  have "region_bytes (pool ! n) = {}" using assms(2) by simp
  then show ?thesis using j n assms(1) unfolding pool_bytes_def
    by (auto split: if_splits) (metis empty_iff)+
qed

lemma pool_rel_link_last:
  assumes rel: "pool_rel pool fl (zs @ [t])" and node: "alloc_region_node pool = Some node"
    and r: "region_ok r" "mr_next r = None"
    and above: "\<And>i. i \<in> set (zs @ [t]) \<Longrightarrow>
      unat (mr_start (pool ! i)) + unat (mr_size (pool ! i)) \<le> unat (mr_start r)"
    and p: "pool' = pool[node := r, t := (pool ! t)\<lparr>mr_next := Some node\<rparr>]"
  shows "pool_rel pool' fl (zs @ [t, node])"
proof -
  note nf = alloc_region_node_fresh [OF rel node]
  have tn: "t \<noteq> node" "t < length pool" "t \<notin> set zs"
    using nf rel pool_rel_distinct [OF rel] by (auto simp: pool_rel_def)
  have pt: "pool' ! t = (pool ! t)\<lparr>mr_next := Some node\<rparr>" "pool' ! node = r"
    using tn nf by (auto simp: p)
  have same: "pool' ! j = pool ! j" if "j \<noteq> t" "j \<noteq> node" for j using that by (simp add: p)
  have data: "mr_start (pool' ! j) = mr_start (pool ! j)" "mr_size (pool' ! j) = mr_size (pool ! j)"
    if "j \<noteq> node" for j using pt(1) same that by (cases "j = t"; simp)+
  have nn: "j \<noteq> node" if "j \<in> set (zs @ [t])" for j using nf(2) that by auto
  have zs: "pool' ! j = pool ! j" if "j \<in> set zs" for j using nf tn that by (intro same) auto
  have "chain (\<lambda>j. mr_next (pool ! j)) fl zs (Some t)"
    using rel by (auto simp: pool_rel_def chain_append)
  then have "chain (\<lambda>j. mr_next (pool' ! j)) fl zs (Some t)"
    using chain_cong [of zs "\<lambda>j. mr_next (pool' ! j)" "\<lambda>j. mr_next (pool ! j)"] zs by simp
  then have c: "chain (\<lambda>j. mr_next (pool' ! j)) fl (zs @ [t, node]) None"
    using pt r(2) by (auto simp: chain_append)
  have "sorted_wrt (region_before pool) (zs @ [t])" using rel by (simp add: pool_rel_def)
  then have "sorted_wrt (region_before pool') (zs @ [t])"
    by (elim sorted_wrt_cong_on) (simp add: region_before_def data nn)
  moreover have "region_before pool' j node" if "j \<in> set (zs @ [t])" for j
    using above [OF that] pt(2) data [OF nn [OF that]] by (simp add: region_before_def)
  ultimately have s: "sorted_wrt (region_before pool') (zs @ [t, node])" by (auto simp: sorted_wrt_append)
  have "region_ok (pool' ! j)" if "j \<in> set (zs @ [t, node])" for j
  proof (cases "j = node")
    case False
    then have "region_ok (pool ! j)" using that rel by (auto simp: pool_rel_def)
    then show ?thesis using data [OF False] by (simp add: region_ok_def)
  qed (use r pt in simp)
  moreover have "mr_size (pool' ! j) = 0" if "j < length pool'" "j \<notin> set (zs @ [t, node])" for j
    using that rel data [of j] by (auto simp: pool_rel_def p)
  ultimately show ?thesis using c s rel nf by (auto simp: pool_rel_def p)
qed

text \<open>The node the loop of \<open>init\<close> appends; \<open>tail\<close> is the last node of the list.\<close>

definition link_node :: "region_pool \<Rightarrow> nat option \<Rightarrow> nat \<Rightarrow> memory_region \<Rightarrow> region_pool" where
  "link_node pool tail node r =
     (case tail of None \<Rightarrow> pool[node := r]
      | Some t \<Rightarrow> (pool[node := r])[t := (pool[node := r] ! t)\<lparr>mr_next := Some node\<rparr>])"

definition last_node :: "nat list \<Rightarrow> nat option" where
  "last_node ns = (if ns = [] then None else Some (last ns))"

lemma last_node_simps [simp]: "last_node [] = None" "last_node (ns @ [n]) = Some n"
  "last_node ns = None \<longleftrightarrow> ns = []"
  by (auto simp: last_node_def)

lemma link_node_correct:
  assumes rel: "pool_rel pool fl ns" and node: "alloc_region_node pool = Some node"
    and r: "region_ok r" "mr_next r = None"
    and above: "\<And>i. i \<in> set ns \<Longrightarrow>
      unat (mr_start (pool ! i)) + unat (mr_size (pool ! i)) \<le> unat (mr_start r)"
  defines "pool' \<equiv> link_node pool (last_node ns) node r"
  shows "pool_rel pool' (if ns = [] then Some node else fl) (ns @ [node])"
    and "pool_bytes u pool' = pool_bytes u pool \<union> (if mr_used r = u then region_bytes r else {})"
    and "length pool' = length pool" and "Suc (pool_spare pool') = pool_spare pool"
    and "j \<in> set ns \<Longrightarrow> mr_start (pool' ! j) = mr_start (pool ! j) \<and> mr_size (pool' ! j) = mr_size (pool ! j)"
    and "pool' ! node = r"
proof -
  note nf = alloc_region_node_fresh [OF rel node]
  have sz: "mr_size (pool ! node) = 0" using rel nf by (auto simp: pool_rel_def)
  have rs: "mr_size r \<noteq> 0" using r by (simp add: region_ok_def)
  define Q where "Q u q \<longleftrightarrow> pool_rel q (if ns = [] then Some node else fl) (ns @ [node]) \<and>
     pool_bytes u q = pool_bytes u pool \<union> (if mr_used r = u then region_bytes r else {}) \<and>
     length q = length pool \<and> Suc (pool_spare q) = pool_spare pool \<and> q ! node = r \<and>
     (\<forall>j \<in> set ns. mr_start (q ! j) = mr_start (pool ! j) \<and> mr_size (q ! j) = mr_size (pool ! j))" for u q
  have "Q u pool'" for u
  proof (cases ns rule: rev_cases)
    case Nil
    then have p: "pool' = pool[node := r]" by (simp add: pool'_def link_node_def last_node_def)
    have "pool[node := r, length pool := r] = pool[node := r]" by (simp add: list_update_beyond)
    then have "pool_bytes u pool' = pool_bytes u pool \<union> (if mr_used r = u then region_bytes r else {})"
      using pool_bytes_two_updates [of node pool "length pool" r u r] nf sz by (simp add: p)
    then show ?thesis using Nil rel nf r sz rs pool_spare_update [OF nf(1), of r]
      by (auto simp: Q_def pool_rel_def p)
  next
    case (snoc zs t)
    have tn: "t \<noteq> node" "t < length pool" using nf rel snoc by (auto simp: pool_rel_def)
    have p: "pool' = pool[node := r, t := (pool ! t)\<lparr>mr_next := Some node\<rparr>]"
      using tn snoc by (simp add: pool'_def link_node_def last_node_def)
    have ts: "mr_size (pool ! t) \<noteq> 0" using rel snoc by (auto simp: pool_rel_def region_ok_def)
    have "pool_bytes u pool' = pool_bytes u pool \<union> (if mr_used r = u then region_bytes r else {})"
      unfolding p using nf sz tn by (intro pool_bytes_two_updates) (auto simp: region_bytes_def)
    moreover have "Suc (pool_spare pool') = pool_spare pool"
      unfolding p using nf tn sz ts rs by (intro pool_spare_take) auto
    moreover have "pool_rel pool' fl (zs @ [t, node])"
      using pool_rel_link_last [OF rel [unfolded snoc] node r _ p] above snoc by simp
    ultimately show ?thesis using nf tn snoc
      by (auto simp: Q_def p nth_list_update)
  qed
  then show "pool_rel pool' (if ns = [] then Some node else fl) (ns @ [node])"
    "pool_bytes u pool' = pool_bytes u pool \<union> (if mr_used r = u then region_bytes r else {})"
    "length pool' = length pool" "Suc (pool_spare pool') = pool_spare pool" "pool' ! node = r"
    "j \<in> set ns \<Longrightarrow> mr_start (pool' ! j) = mr_start (pool ! j) \<and> mr_size (pool' ! j) = mr_size (pool ! j)"
    unfolding Q_def by blast+
qed

definition entry_region :: "memory_map_entry \<Rightarrow> memory_region" where
  "entry_region e =
     (let size = number_of_pages e * PAGE_SIZE_4K in
      if physical_start e = 0
      then \<lparr>mr_start = PAGE_SIZE_4K, mr_size = size - PAGE_SIZE_4K, mr_used = False, mr_next = None\<rparr>
      else \<lparr>mr_start = physical_start e, mr_size = size, mr_used = False, mr_next = None\<rparr>)"

lemma unat_pages_bytes:
  "unat (n :: u64) * 4096 \<le> 2 ^ 52 \<Longrightarrow> unat (n * PAGE_SIZE_4K) = unat n * 4096"
  by (simp add: unat_word_ariths PAGE_SIZE_4K_def)

lemma entry_region_correct:
  assumes e: "4096 dvd unat (physical_start e)"
      "unat (physical_start e) + unat (number_of_pages e) * 4096 \<le> 2 ^ 52"
    and n: "number_of_pages e \<noteq> 0" "\<not> (physical_start e = 0 \<and> number_of_pages e * PAGE_SIZE_4K \<le> PAGE_SIZE_4K)"
  shows "region_ok (entry_region e)" and "region_bytes (entry_region e) = entry_bytes e - {..<4096}"
    and "unat (physical_start e) \<le> unat (mr_start (entry_region e))"
    and "unat (mr_start (entry_region e)) + unat (mr_size (entry_region e))
       \<le> unat (physical_start e) + unat (number_of_pages e) * 4096"
proof -
  have b: "unat (number_of_pages e * PAGE_SIZE_4K) = unat (number_of_pages e) * 4096"
    using e(2) by (intro unat_pages_bytes) simp
  have n0: "0 < unat (number_of_pages e)" using n(1) by (simp add: unat_gt_0)
  have P: "unat PAGE_SIZE_4K = 4096" by (simp add: PAGE_SIZE_4K_def)
  have "region_ok (entry_region e) \<and> region_bytes (entry_region e) = entry_bytes e - {..<4096} \<and>
    unat (physical_start e) \<le> unat (mr_start (entry_region e)) \<and>
    unat (mr_start (entry_region e)) + unat (mr_size (entry_region e))
       \<le> unat (physical_start e) + unat (number_of_pages e) * 4096"
  proof (cases "physical_start e = 0")
    case True
    then have gt: "1 < unat (number_of_pages e)" using n(2) b P by (simp add: word_le_nat_alt)
    then have m: "unat (number_of_pages e * PAGE_SIZE_4K - PAGE_SIZE_4K) = (unat (number_of_pages e) - 1) * 4096"
      using b P by (simp add: unat_minus_nw diff_mult_distrib)
    then have "number_of_pages e * PAGE_SIZE_4K - PAGE_SIZE_4K \<noteq> 0"
      using gt by (auto simp: unat_gt_0 [symmetric])
    then show ?thesis using True m P gt e(2)
      by (auto simp: entry_region_def Let_def region_ok_def region_bytes_def entry_bytes_def PAGE_SIZE_4K_def)
  next
    case False
    then have "4096 \<le> unat (physical_start e)" using e(1) by (simp add: dvd_imp_le unat_gt_0)
    moreover have "number_of_pages e * PAGE_SIZE_4K \<noteq> 0" using b n0 by (auto simp: unat_gt_0 [symmetric])
    ultimately show ?thesis using False b e
      by (auto simp: entry_region_def Let_def region_ok_def region_bytes_def entry_bytes_def)
  qed
  then show "region_ok (entry_region e)" and "region_bytes (entry_region e) = entry_bytes e - {..<4096}"
    and "unat (physical_start e) \<le> unat (mr_start (entry_region e))"
    and "unat (mr_start (entry_region e)) + unat (mr_size (entry_region e))
       \<le> unat (physical_start e) + unat (number_of_pages e) * 4096" by blast+
qed

lemma init_loop_step:
  assumes "alloc_region_node (pa_pool pa) = Some node" "entry_is_free e" "number_of_pages e \<noteq> 0"
    "\<not> (physical_start e = 0 \<and> number_of_pages e * PAGE_SIZE_4K \<le> PAGE_SIZE_4K)"
  shows "pa_init_loop (e # es) tail pa = pa_init_loop es (Some node)
     (pa\<lparr>pa_total_pages := pa_total_pages pa + number_of_pages e,
         pa_pool := link_node (pa_pool pa) tail node (entry_region e),
         pa_free_list := (if tail = None then Some node else pa_free_list pa),
         pa_free_pages := pa_free_pages pa + number_of_pages e\<rparr>)"
  using assms by (auto simp: Let_def entry_region_def link_node_def)

lemma init_loop_skip:
  assumes "alloc_region_node (pa_pool pa) = Some node" "mr_size (pa_pool pa ! node) = 0"
    "entry_is_free e" "number_of_pages e \<noteq> 0"
    "physical_start e = 0 \<and> number_of_pages e * PAGE_SIZE_4K \<le> PAGE_SIZE_4K"
  shows "pa_init_loop (e # es) tail pa = pa_init_loop es tail
     (pa\<lparr>pa_total_pages := pa_total_pages pa + number_of_pages e,
         pa_pool := (pa_pool pa)[node := empty_region]\<rparr>)"
  using assms by (auto simp: Let_def free_region_node_def)

lemma pool_rel_clear_spare:
  assumes rel: "pool_rel pool fl ns" and n: "alloc_region_node pool = Some node"
  shows "pool_rel (pool[node := empty_region]) fl ns"
    and "pool_bytes u (pool[node := empty_region]) = pool_bytes u pool"
    and "pool_spare (pool[node := empty_region]) = pool_spare pool"
    and "j \<in> set ns \<Longrightarrow> pool[node := empty_region] ! j = pool ! j"
proof -
  note nf = alloc_region_node_fresh [OF rel n]
  have sz: "mr_size (pool ! node) = 0" using rel nf by (auto simp: pool_rel_def)
  have same: "pool[node := empty_region] ! j = pool ! j" if "j \<in> set ns" for j
    using that nf by (cases "j = node") auto
  show "j \<in> set ns \<Longrightarrow> pool[node := empty_region] ! j = pool ! j" by (rule same)
  have "chain (\<lambda>i. mr_next (pool[node := empty_region] ! i)) fl ns None =
      chain (\<lambda>i. mr_next (pool ! i)) fl ns None"
    by (rule chain_cong) (simp add: same)
  moreover have "sorted_wrt (region_before (pool[node := empty_region])) ns"
    using rel by (auto simp: pool_rel_def region_before_def same elim!: sorted_wrt_cong_on)
  ultimately show "pool_rel (pool[node := empty_region]) fl ns"
    using rel nf same by (auto simp: pool_rel_def nth_list_update empty_region_def)
  have "pool[node := empty_region, length pool := empty_region] = pool[node := empty_region]"
    by (simp add: list_update_beyond)
  then show "pool_bytes u (pool[node := empty_region]) = pool_bytes u pool"
    using pool_bytes_two_updates [of node pool "length pool" empty_region u empty_region] nf sz
    by (simp add: empty_region_def)
  show "pool_spare (pool[node := empty_region]) = pool_spare pool"
    using pool_spare_update [OF nf(1), of empty_region] sz by (simp add: empty_region_def)
qed

definition init_result :: "phys_allocator \<Rightarrow> memory_map_entry list \<Rightarrow> phys_allocator \<Rightarrow> bool" where
  "init_result pa es pa' \<longleftrightarrow> (\<exists>ns. pool_rel (pa_pool pa') (pa_free_list pa') ns) \<and>
     length (pa_pool pa') = length (pa_pool pa) \<and> pa_used_bytes pa' = pa_used_bytes pa \<and>
     pa_free_bytes pa' \<subseteq> pa_free_bytes pa \<union> free_map_bytes es \<and>
     (length (filter entry_is_free es) \<le> pool_spare (pa_pool pa) \<longrightarrow>
        pa_free_bytes pa' = pa_free_bytes pa \<union> free_map_bytes es)"

lemma free_map_bytes_simps:
  "free_map_bytes [] = {}"
  "free_map_bytes (e # es) = (if entry_is_free e then entry_bytes e - {..<4096} else {}) \<union> free_map_bytes es"
  by (auto simp: free_map_bytes_def)

lemma init_result_skip:
  assumes "init_result pa1 es pa'" and "pa_used_bytes pa1 = pa_used_bytes pa"
    and "pa_free_bytes pa1 = pa_free_bytes pa" and "pool_spare (pa_pool pa1) = pool_spare (pa_pool pa)"
    and "length (pa_pool pa1) = length (pa_pool pa)" and "entry_is_free e \<Longrightarrow> entry_bytes e \<subseteq> {..<4096}"
  shows "init_result pa (e # es) pa'"
proof -
  have "free_map_bytes (e # es) = free_map_bytes es" using assms(6) by (auto simp: free_map_bytes_simps)
  then show ?thesis using assms by (auto simp: init_result_def split: if_splits)
qed

lemma init_loop_correct:
  assumes "pool_rel (pa_pool pa) (pa_free_list pa) ns" and "memory_map_ok es"
    and "\<And>i e. i \<in> set ns \<Longrightarrow> e \<in> set es \<Longrightarrow>
      unat (mr_start (pa_pool pa ! i)) + unat (mr_size (pa_pool pa ! i)) \<le> unat (physical_start e)"
  shows "init_result pa es (pa_init_loop es (last_node ns) pa)"
  using assms
proof (induction es arbitrary: pa ns)
  case Nil
  then show ?case by (auto simp: init_result_def free_map_bytes_simps)
next
  case (Cons e es)
  have mo: "memory_map_ok es" "4096 dvd unat (physical_start e)"
      "unat (physical_start e) + unat (number_of_pages e) * 4096 \<le> 2 ^ 52"
      "\<And>f. f \<in> set es \<Longrightarrow> unat (physical_start e) + unat (number_of_pages e) * 4096 \<le> unat (physical_start f)"
    using Cons.prems(2) by (auto simp: memory_map_ok_def)
  let ?pa1 = "pa\<lparr>pa_total_pages := pa_total_pages pa + number_of_pages e\<rparr>"
  consider (skip) "\<not> entry_is_free e \<or> number_of_pages e = 0"
    | (full) "entry_is_free e" "number_of_pages e \<noteq> 0" "alloc_region_node (pa_pool pa) = None"
    | (page0) node where "entry_is_free e" "number_of_pages e \<noteq> 0" "alloc_region_node (pa_pool pa) = Some node"
        "physical_start e = 0 \<and> number_of_pages e * PAGE_SIZE_4K \<le> PAGE_SIZE_4K"
    | (add) node where "entry_is_free e" "number_of_pages e \<noteq> 0" "alloc_region_node (pa_pool pa) = Some node"
        "\<not> (physical_start e = 0 \<and> number_of_pages e * PAGE_SIZE_4K \<le> PAGE_SIZE_4K)"
    by (cases "alloc_region_node (pa_pool pa)") auto
  then show ?case
  proof cases
    case skip
    then have eq: "pa_init_loop (e # es) (last_node ns) pa = pa_init_loop es (last_node ns) ?pa1"
      by (auto simp: Let_def)
    have "init_result ?pa1 es (pa_init_loop es (last_node ns) ?pa1)"
      using Cons.prems mo(1) by (intro Cons.IH) auto
    then show ?thesis unfolding eq
      by (rule init_result_skip) (use skip in \<open>auto simp: entry_bytes_def\<close>)
  next
    case full
    then have "pa_init_loop (e # es) (last_node ns) pa = ?pa1" by (simp add: Let_def)
    then show ?thesis using Cons.prems(1) full
      by (auto simp: init_result_def alloc_region_node_None simp del: pa_init_loop.simps)
  next
    case page0
    note C = pool_rel_clear_spare [OF Cons.prems(1) page0(3)]
    have sz: "mr_size (pa_pool pa ! node) = 0"
      using alloc_region_node_fresh [OF Cons.prems(1) page0(3)] Cons.prems(1) by (auto simp: pool_rel_def)
    let ?pa2 = "?pa1\<lparr>pa_pool := (pa_pool pa)[node := empty_region]\<rparr>"
    have R: "init_result ?pa2 es (pa_init_loop es (last_node ns) ?pa2)"
      using Cons.prems mo(1) C by (intro Cons.IH) auto
    have "entry_bytes e \<subseteq> {..<4096}"
      using page0(4) mo(3) unat_pages_bytes [of "number_of_pages e"]
      by (auto simp: entry_bytes_def word_le_nat_alt PAGE_SIZE_4K_def)
    then show ?thesis
      unfolding init_loop_skip [OF page0(3) sz page0(1,2,4)]
      by (intro init_result_skip [OF R]) (use C in auto)
  next
    case add
    note E = entry_region_correct [OF mo(2,3) add(2,4)]
    have above: "unat (mr_start (pa_pool pa ! i)) + unat (mr_size (pa_pool pa ! i)) \<le> unat (mr_start (entry_region e))"
      if "i \<in> set ns" for i using Cons.prems(3) [OF that, of e] E(3) by simp
    have nx: "mr_next (entry_region e) = None" "\<not> mr_used (entry_region e)"
      by (auto simp: entry_region_def Let_def)
    note L = link_node_correct [OF Cons.prems(1) add(3) E(1) nx(1) above]
    let ?pa3 = "pa\<lparr>pa_total_pages := pa_total_pages pa + number_of_pages e,
         pa_pool := link_node (pa_pool pa) (last_node ns) node (entry_region e),
         pa_free_list := (if last_node ns = None then Some node else pa_free_list pa),
         pa_free_pages := pa_free_pages pa + number_of_pages e\<rparr>"
    have "init_result ?pa3 es (pa_init_loop es (last_node (ns @ [node])) ?pa3)"
    proof (rule Cons.IH)
      show "pool_rel (pa_pool ?pa3) (pa_free_list ?pa3) (ns @ [node])"
        using L(1) by simp
      fix i f assume "i \<in> set (ns @ [node])" "f \<in> set es"
      then show "unat (mr_start (pa_pool ?pa3 ! i)) + unat (mr_size (pa_pool ?pa3 ! i)) \<le> unat (physical_start f)"
        using L(5) [of i] L(6) E(4) mo(4) [of f] Cons.prems(3) [of i f] by auto
    qed (rule mo(1))
    moreover have "pa_init_loop (e # es) (last_node ns) pa = pa_init_loop es (last_node (ns @ [node])) ?pa3"
      unfolding init_loop_step [OF add(3,1,2,4)] by simp
    ultimately show ?thesis
      unfolding init_result_def free_map_bytes_simps
      using L(2) [of True] L(2) [of False] L(3,4) nx E(2) add(1)
      by (auto simp del: pa_init_loop.simps)
  qed
qed

lemma pa_init_establishes:
  assumes "memory_map_ok es" and "pa_init pa_boot es = (pa, st)"
  shows "st = success \<and> pa_inv pa \<and> pa_used_bytes pa = {} \<and> pa_free_bytes pa \<subseteq> free_map_bytes es \<and>
     (length (filter entry_is_free es) \<le> REGION_POOL_SIZE \<longrightarrow> pa_free_bytes pa = free_map_bytes es)"
proof -
  have b: "pool_bytes u (replicate n empty_region) = {}" for u n
    by (auto simp: pool_bytes_def region_bytes_def empty_region_def)
  have "pool_rel (pa_pool pa_boot) None []"
    by (simp add: pool_rel_def pa_boot_def empty_region_def)
  moreover have "pool_spare (pa_pool pa_boot) = REGION_POOL_SIZE"
    by (simp add: pool_spare_def pa_boot_def empty_region_def)
  ultimately show ?thesis
    using init_loop_correct [of pa_boot "[]" es] assms b
    by (auto simp: pa_init_def init_result_def pa_inv_def pa_boot_def)
qed

text \<open>The node that carries a successful allocation, and the page counters.\<close>

lemma take_middle_node:
  assumes "pa_take_middle pool i a req pre post = Some pool'" and "alloc_region_node pool = Some n"
    and "n \<noteq> i" and "n < length pool"
  shows "n < length pool' \<and> mr_used (pool' ! n) \<and> mr_start (pool' ! n) = a \<and> mr_size (pool' ! n) = req"
proof -
  define p1 where "p1 = pool[n := \<lparr>mr_start = a, mr_size = req, mr_used = True, mr_next = mr_next (pool ! i)\<rparr>,
      i := (pool ! i)\<lparr>mr_size := pre, mr_next := Some n\<rparr>]"
  have p1: "n < length p1" "mr_used (p1 ! n)" "mr_start (p1 ! n) = a" "mr_size (p1 ! n) = req"
    using assms(3,4) by (auto simp: p1_def)
  have "pool' = (if post > 0 then (case alloc_region_node p1 of None \<Rightarrow> p1
      | Some t \<Rightarrow> p1[t := \<lparr>mr_start = a + req, mr_size = post, mr_used = False, mr_next = mr_next (p1 ! n)\<rparr>,
                     n := (p1 ! n)\<lparr>mr_next := Some t\<rparr>]) else p1)"
    using assms(1) unfolding pa_take_middle_def assms(2) option.case Let_def p1_def by simp
  then show ?thesis using p1 by (cases "alloc_region_node p1") (simp_all split: if_splits)
qed

lemma try_region_node:
  assumes rel: "pool_rel (pa_pool pa) (pa_free_list pa) (xs @ i # ys)"
    and al: "alignment = 2 ^ k" "12 \<le> k" "k < 32" and pc: "page_count \<noteq> 0"
    and tr: "pa_try_region pa page_count alignment max_addr i = Some (pa', a)"
    and spare: "2 \<le> pool_spare (pa_pool pa)"
  shows "\<exists>j < length (pa_pool pa'). mr_used (pa_pool pa' ! j) \<and> mr_start (pa_pool pa' ! j) = a \<and>
     mr_size (pa_pool pa' ! j) = ucast page_count * PAGE_SIZE_4K"
proof -
  let ?r = "pa_pool pa ! i" and ?req = "ucast page_count * PAGE_SIZE_4K :: u64"
  note node = pool_rel_node [OF rel]
  note f = try_region_fits [OF node(2) al]
  from tr have a: "a = align_up (mr_start ?r) (ucast alignment)" and free: "\<not> mr_used ?r"
    and fit: "unat a + unat page_count * 4096 \<le> unat (mr_start ?r) + unat (mr_size ?r)"
    using f(4,5) by (auto simp: pa_try_region_def Let_def word_less_nat_alt not_less split: if_splits)
  let ?pre = "a - mr_start ?r" and ?post = "mr_start ?r + mr_size ?r - (a + ?req)"
  have pool: "(if ?pre = 0 then Some (pa_take_front (pa_pool pa) i a ?req ?post)
       else pa_take_middle (pa_pool pa) i a ?req ?pre ?post) = Some (pa_pool pa')"
    using tr free by (auto simp: pa_try_region_def Let_def a split: if_splits)
  obtain n where n: "alloc_region_node (pa_pool pa) = Some n"
    using spare alloc_region_node_None [of "pa_pool pa"] by fastforce
  note nf = alloc_region_node_fresh [OF rel n]
  show ?thesis
  proof (cases "?pre = 0")
    case True
    then have p': "pa_pool pa' = pa_take_front (pa_pool pa) i a ?req ?post" using pool by simp
    have sr: "mr_start ?r = a" using True by simp
    show ?thesis
    proof (cases "?post = 0")
      case True
      then have "mr_size ?r = ?req" using sr by (simp add: algebra_simps)
      moreover have "pa_pool pa' = (pa_pool pa)[i := ?r\<lparr>mr_used := True\<rparr>]"
        using p' True by (simp add: pa_take_front_def Let_def)
      ultimately show ?thesis using node(1) sr by (intro exI [of _ i]) simp
    next
      case False
      then have post: "0 < ?post" by (simp add: word_gt_0)
      have "n \<noteq> i" using nf by auto
      then show ?thesis using p' n node(1) sr post
        by (intro exI [of _ i]) (simp add: pa_take_front_def Let_def)
    qed
  next
    case False
    then have "pa_take_middle (pa_pool pa) i a ?req ?pre ?post = Some (pa_pool pa')" using pool by simp
    moreover have "n \<noteq> i" using nf by auto
    ultimately show ?thesis using take_middle_node [OF _ n] nf(1) by blast
  qed
qed

lemma try_region_counters:
  "pa_try_region pa page_count alignment max_addr i = Some (pa', a) \<Longrightarrow>
     pa_used_pages pa' = pa_used_pages pa + ucast page_count \<and>
     pa_free_pages pa' = pa_free_pages pa - ucast page_count"
  by (auto simp: pa_try_region_def Let_def split: if_splits)

lemma free_walk_counters:
  assumes "chain (\<lambda>j. mr_next (pa_pool pa ! j)) region ns None" and "pa_free_walk pa addr pc prev region = Some pa'"
  shows "pa' = pa \<or> pa_used_pages pa' = pa_used_pages pa - ucast pc \<and> pa_free_pages pa' = pa_free_pages pa + ucast pc"
  using assms
proof (induction ns arbitrary: prev region)
  case (Cons n ns)
  then show ?case
    by (cases "mr_start (pa_pool pa ! n) = addr \<and> mr_used (pa_pool pa ! n)")
      (auto simp: pa_free_walk.simps [of pa addr pc prev "Some n"] pa_release_def Let_def)
qed (simp add: pa_free_walk.simps)

lemma pool_bytes_disjoint:
  assumes rel: "pool_rel pool fl ns"
  shows "pool_bytes False pool \<inter> pool_bytes True pool = {}"
proof -
  have "region_bytes (pool ! i) \<inter> region_bytes (pool ! j) = {}"
    if "i < length pool" "j < length pool" "i \<noteq> j" for i j
    using pool_rel_disjoint [OF rel] that rel by (cases "i \<in> set ns") (auto simp: pool_rel_def)
  then show ?thesis by (fastforce simp: pool_bytes_def)
qed

lemma allocate_free_restores:
  assumes "pa_inv pa" and "page_count \<noteq> 0" and "alignment = 2 ^ k" "12 \<le> k" "k < 32"
    and "2 \<le> pool_spare (pa_pool pa)"
    and "allocate_pages pa page_count alignment max_addr = Some (pa', a)" and "a \<noteq> 0"
  shows "\<exists>pa''. free_pages pa' a page_count = Some pa'' \<and> pa_inv pa'' \<and>
     pa_free_bytes pa'' = pa_free_bytes pa \<and> pa_used_bytes pa'' = pa_used_bytes pa \<and>
     pa_used_pages pa'' = pa_used_pages pa \<and> pa_free_pages pa'' = pa_free_pages pa"
  using assms(1,2)
proof (cases rule: allocate_pages_cases [where al = alignment and mx = max_addr])
  case fail
  then show ?thesis using assms(7,8) by simp
next
  case (ok xs i ys pb b)
  then have eq: "pb = pa'" "b = a" using assms(7) by auto
  note ok = ok(1) ok(2) [unfolded eq]
  note T = try_region_Some [OF ok(1) assms(3-5,2) ok(2)] and K = try_region_counters [OF ok(2)]
  obtain j where j: "j < length (pa_pool pa')" "mr_used (pa_pool pa' ! j)" "mr_start (pa_pool pa' ! j) = a"
      "mr_size (pa_pool pa' ! j) = ucast page_count * PAGE_SIZE_4K"
    using try_region_node [OF ok(1) assms(3-5,2) ok(2) assms(6)] by blast
  let ?Q = "{unat a ..< unat a + unat page_count * 4096}"
  have Q: "region_bytes (pa_pool pa' ! j) = ?Q"
    using j by (simp add: region_bytes_def unat_req_size)
  have sz: "mr_size (pa_pool pa' ! j) \<noteq> 0"
    using j(4) assms(2) by (auto simp: unat_gt_0 [symmetric] unat_req_size)
  have inv': "pa_inv pa'" using T(1,3) assms(1) by (auto simp: pa_inv_def pool_took_def)
  from free_pages_gives [OF inv' assms(2) j(1,2) sz] obtain pa'' where F:
    "free_pages pa' a page_count = Some pa''" "pa_inv pa''"
    "pa_free_bytes pa'' = pa_free_bytes pa' \<union> ?Q" "pa_used_bytes pa'' = pa_used_bytes pa' - ?Q"
    using Q j(3) by auto
  have ex: "pa_free_bytes pa' = pa_free_bytes pa - ?Q" "pa_used_bytes pa' = pa_used_bytes pa \<union> ?Q"
    using T(2) assms(6) by (auto simp: pool_took_exactly_def)
  have sub: "?Q \<subseteq> pa_free_bytes pa" using T(1) by (simp add: pool_took_def)
  from assms(1) obtain ns where rel0: "pool_rel (pa_pool pa) (pa_free_list pa) ns" by (auto simp: pa_inv_def)
  have disj: "pa_free_bytes pa \<inter> pa_used_bytes pa = {}" by (rule pool_bytes_disjoint [OF rel0])
  have "unat a \<in> ?Q" using assms(2) by (simp add: unat_gt_0)
  then have "pa'' \<noteq> pa'" using F(3) ex(1) by blast
  then have "pa_used_pages pa'' = pa_used_pages pa \<and> pa_free_pages pa'' = pa_free_pages pa"
    using free_walk_counters [of pa' "pa_free_list pa'" _ a page_count None pa''] F(1) inv' assms(2,8) K
    by (auto simp: free_pages_def pa_inv_def pool_rel_def)
  then show ?thesis using F ex sub disj by auto
qed

section \<open>Live blocks and the contract of the page allocator\<close>

definition live_of :: "memory_region \<Rightarrow> (u64 \<times> u64) set" where
  "live_of r = (if mr_used r \<and> mr_size r \<noteq> 0 then {(mr_start r, mr_size r)} else {})"

definition live_blocks :: "region_pool \<Rightarrow> (u64 \<times> u64) set" where
  "live_blocks pool = (\<Union>j \<in> {..<length pool}. live_of (pool ! j))"

lemma live_update:
  assumes "j < length pool" and "live_of (pool ! j) = {}"
  shows "live_blocks (pool[j := r]) = live_of r \<union> live_blocks pool"
proof -
  have "live_of (pool[j := r] ! k) = (if k = j then live_of r else live_of (pool ! k))" if "k < length pool" for k
    using that by (simp add: nth_list_update)
  then show ?thesis using assms unfolding live_blocks_def by (auto split: if_splits)
qed

lemma live_update_same:
  assumes "live_of r = live_of (pool ! j)"
  shows "live_blocks (pool[j := r]) = live_blocks pool"
proof -
  have "live_of (pool[j := r] ! k) = live_of (pool ! k)" if "k < length pool" for k
    using that assms by (cases "k = j") auto
  then show ?thesis unfolding live_blocks_def by simp
qed

lemma live_of_simps [simp]:
  "mr_size r = 0 \<Longrightarrow> live_of r = {}" "\<not> mr_used r \<Longrightarrow> live_of r = {}"
  "live_of (r\<lparr>mr_next := x\<rparr>) = live_of r"
  by (auto simp: live_of_def)

lemma live_take_front:
  assumes rel: "pool_rel pool fl (xs @ i # ys)" and free: "\<not> mr_used (pool ! i)" and st: "mr_start (pool ! i) = a"
    and req: "req \<noteq> 0" "unat req \<le> unat (mr_size (pool ! i))"
  shows "\<exists>sz. unat req \<le> unat sz \<and> live_blocks (pa_take_front pool i a req post) = insert (a, sz) (live_blocks pool)"
proof (cases "post > 0 \<and> alloc_region_node pool \<noteq> None")
  case True
  then obtain t where t: "alloc_region_node pool = Some t" by auto
  have ti: "t \<noteq> i" "t < length pool" and i: "i < length pool"
    using alloc_region_node_fresh [OF rel t] pool_rel_node [OF rel] by auto
  have tz: "mr_size (pool ! t) = 0"
    using alloc_region_node_fresh [OF rel t] rel by (auto simp: pool_rel_def)
  let ?r = "\<lparr>mr_start = a + req, mr_size = post, mr_used = False, mr_next = mr_next (pool ! i)\<rparr>"
  have "pa_take_front pool i a req post = pool[t := ?r, i := (pool ! i)\<lparr>mr_next := Some t, mr_size := req, mr_used := True\<rparr>]"
    using True t i ti by (simp add: pa_take_front_def Let_def)
  moreover have "live_blocks (pool[t := ?r]) = live_blocks pool" using tz by (simp add: live_update_same)
  ultimately show ?thesis using i ti free req st
    by (intro exI [of _ req]) (simp add: live_update, simp add: live_of_def)
next
  case False
  then have "pa_take_front pool i a req post = pool[i := (pool ! i)\<lparr>mr_used := True\<rparr>]"
    by (auto simp: pa_take_front_def Let_def)
  moreover have "mr_size (pool ! i) \<noteq> 0" using pool_rel_node [OF rel] by (simp add: region_ok_def)
  ultimately show ?thesis using pool_rel_node [OF rel] free st req
    by (intro exI [of _ "mr_size (pool ! i)"]) (simp add: live_update, simp add: live_of_def)
qed

lemma live_take_middle:
  assumes rel: "pool_rel pool fl (xs @ i # ys)" and free: "\<not> mr_used (pool ! i)" and req: "req \<noteq> 0"
    and tm: "pa_take_middle pool i a req pre post = Some pool'"
  shows "live_blocks pool' = insert (a, req) (live_blocks pool)"
proof -
  obtain n where n: "alloc_region_node pool = Some n" using tm by (auto simp: pa_take_middle_def split: option.splits)
  have ni: "n \<noteq> i" "n < length pool" "i < length pool" and nz: "mr_size (pool ! n) = 0"
    using alloc_region_node_fresh [OF rel n] pool_rel_node [OF rel] rel by (auto simp: pool_rel_def)
  define p1 where "p1 = pool[n := \<lparr>mr_start = a, mr_size = req, mr_used = True, mr_next = mr_next (pool ! i)\<rparr>,
      i := (pool ! i)\<lparr>mr_size := pre, mr_next := Some n\<rparr>]"
  have l1: "live_blocks p1 = insert (a, req) (live_blocks pool)"
    unfolding p1_def using ni nz free req
    by (subst live_update_same) (auto simp: live_update live_of_def)
  have p': "pool' = (if post > 0 then (case alloc_region_node p1 of None \<Rightarrow> p1
      | Some t \<Rightarrow> p1[t := \<lparr>mr_start = a + req, mr_size = post, mr_used = False, mr_next = mr_next (p1 ! n)\<rparr>,
                     n := (p1 ! n)\<lparr>mr_next := Some t\<rparr>]) else p1)"
    using tm unfolding pa_take_middle_def n option.case Let_def p1_def by simp
  show ?thesis
  proof (cases "post > 0 \<and> alloc_region_node p1 \<noteq> None")
    case True
    then obtain t where t: "alloc_region_node p1 = Some t" by auto
    have tz: "t < length p1" "mr_size (p1 ! t) = 0"
      using first_index_SomeD [OF t [unfolded alloc_region_node_def]] by auto
    have "mr_size (p1 ! n) = req" using ni by (simp add: p1_def)
    then have tn: "t \<noteq> n" using tz req by auto
    let ?p2 = "p1[t := \<lparr>mr_start = a + req, mr_size = post, mr_used = False, mr_next = mr_next (p1 ! n)\<rparr>]"
    have "pool' = ?p2[n := (?p2 ! n)\<lparr>mr_next := Some t\<rparr>]" using p' True t tn by simp
    moreover have "live_blocks ?p2 = live_blocks p1" using tz by (simp add: live_update_same)
    ultimately show ?thesis using l1 live_update_same [of "(?p2 ! n)\<lparr>mr_next := Some t\<rparr>" ?p2 n] by simp
  qed (use p' l1 in auto)
qed

lemma live_try_region:
  assumes rel: "pool_rel (pa_pool pa) (pa_free_list pa) (xs @ i # ys)" and pc: "page_count \<noteq> 0"
    and al: "alignment = 2 ^ k" "12 \<le> k" "k < 32"
    and tr: "pa_try_region pa page_count alignment max_addr i = Some (pa', a)"
  shows "\<exists>sz. unat page_count * 4096 \<le> unat sz \<and> live_blocks (pa_pool pa') = insert (a, sz) (live_blocks (pa_pool pa))"
proof -
  let ?r = "pa_pool pa ! i" and ?req = "ucast page_count * PAGE_SIZE_4K :: u64"
  have req: "?req \<noteq> 0" using pc by (auto simp: unat_gt_0 [symmetric] unat_req_size)
  let ?pre = "a - mr_start ?r" and ?post = "mr_start ?r + mr_size ?r - (a + ?req)"
  note f = try_region_fits [OF pool_rel_node(2) [OF rel] al]
  from tr have a: "a = align_up (mr_start ?r) (ucast alignment)" and free: "\<not> mr_used ?r"
    and fit: "unat a + unat page_count * 4096 \<le> unat (mr_start ?r) + unat (mr_size ?r)"
    using f(4,5) by (auto simp: pa_try_region_def Let_def word_less_nat_alt not_less split: if_splits)
  have pool: "(if ?pre = 0 then Some (pa_take_front (pa_pool pa) i a ?req ?post)
       else pa_take_middle (pa_pool pa) i a ?req ?pre ?post) = Some (pa_pool pa')"
    using tr free by (auto simp: pa_try_region_def Let_def a split: if_splits)
  show ?thesis
  proof (cases "?pre = 0")
    case True
    then have st: "mr_start ?r = a" by simp
    then have "unat ?req \<le> unat (mr_size ?r)" using fit by (simp add: unat_req_size)
    from live_take_front [OF rel free st req this, of ?post] True pool show ?thesis by (simp add: unat_req_size)
  next
    case False
    then show ?thesis using live_take_middle [OF rel free req] pool
      by (intro exI [of _ ?req]) (auto simp: unat_req_size)
  qed
qed

lemma live_merge:
  assumes "\<not> mr_used (pool ! i)" "\<not> mr_used (pool ! n)"
  shows "live_blocks (pa_merge pool i n) = live_blocks pool"
proof -
  let ?p = "pool[i := (pool ! i)\<lparr>mr_size := mr_size (pool ! i) + mr_size (pool ! n), mr_next := mr_next (pool ! n)\<rparr>]"
  have "live_of (?p ! n) = {}" using assms by (cases "n = i"; cases "i < length pool") (auto simp: nth_list_update list_update_beyond)
  then show ?thesis
    unfolding pa_merge_def free_region_node_def using assms
    by (simp add: live_update_same empty_region_def)
qed

lemma live_release:
  assumes rel: "pool_rel (pa_pool pa) (pa_free_list pa) (xs @ i # ys)" and used: "mr_used (pa_pool pa ! i)"
  shows "live_blocks (pa_pool (pa_release pa pc prev i)) =
    live_blocks (pa_pool pa) - {(mr_start (pa_pool pa ! i), mr_size (pa_pool pa ! i))}"
proof -
  let ?pool = "pa_pool pa"
  define p1 where "p1 = ?pool[i := (?pool ! i)\<lparr>mr_used := False\<rparr>]"
  define p2 where "p2 = (case mr_next (p1 ! i) of None \<Rightarrow> p1
      | Some n \<Rightarrow> if \<not> mr_used (p1 ! n) \<and> pa_mergeable p1 i n then pa_merge p1 i n else p1)"
  have i: "i < length ?pool" using pool_rel_node [OF rel] by simp
  have l1: "live_blocks p1 = live_blocks ?pool - {(mr_start (?pool ! i), mr_size (?pool ! i))}"
  proof -
    have "live_of (?pool ! j) \<inter> {(mr_start (?pool ! i), mr_size (?pool ! i))} = {}"
      if "j < length ?pool" "j \<noteq> i" for j
      using pool_rel_start_inj [OF rel, of j i] that rel by (auto simp: live_of_def pool_rel_def split: if_splits)
    moreover have "live_of (p1 ! i) = {}" "\<And>j. j \<noteq> i \<Longrightarrow> p1 ! j = ?pool ! j"
      using i by (auto simp: p1_def)
    moreover have "live_of (?pool ! i) \<subseteq> {(mr_start (?pool ! i), mr_size (?pool ! i))}"
      by (auto simp: live_of_def)
    ultimately have "live_of (p1 ! j) = live_of (?pool ! j) - {(mr_start (?pool ! i), mr_size (?pool ! i))}"
      if "j < length ?pool" for j using that by (cases "j = i") auto
    then show ?thesis unfolding live_blocks_def by (auto simp: p1_def)
  qed
  have u1: "\<not> mr_used (p1 ! i)" using i by (simp add: p1_def)
  have l2: "live_blocks p2 = live_blocks p1"
    using u1 by (auto simp: p2_def live_merge split: option.splits)
  have u2: "\<not> mr_used (p2 ! i)"
    using u1 by (auto simp: p2_def pa_merge_def free_region_node_def empty_region_def nth_list_update p1_def i
        split: option.splits)
  have "pa_pool (pa_release pa pc prev i) = (case prev of None \<Rightarrow> p2
      | Some p \<Rightarrow> if \<not> mr_used (p2 ! p) \<and> pa_mergeable p2 p i then pa_merge p2 p i else p2)"
    unfolding pa_release_def p2_def p1_def Let_def by simp
  then show ?thesis using u2 l2 l1 by (auto simp: live_merge split: option.splits)
qed

definition page_block :: "u64 \<Rightarrow> u32 \<Rightarrow> nat set" where
  "page_block a n = {unat a ..< unat a + unat n * 4096}"

text \<open>A request to the page allocator: page count, alignment and address limit.\<close>

type_synonym page_request = "u32 \<times> u32 \<times> u64"

definition page_valid :: "page_request \<Rightarrow> bool" where
  "page_valid r \<longleftrightarrow> (case r of (n, al, mx) \<Rightarrow> n \<noteq> 0 \<and> (\<exists>k. al = 2 ^ k \<and> 12 \<le> k \<and> k < 32))"

locale page_allocator =
  fixes pinv :: "'s \<Rightarrow> bool" and plive :: "'s \<Rightarrow> u64 \<Rightarrow> nat set"
    and palloc :: "'s \<Rightarrow> u32 \<Rightarrow> u32 \<Rightarrow> u64 \<Rightarrow> ('s \<times> u64) option" and prelease :: "'s \<Rightarrow> u64 \<Rightarrow> u32 \<Rightarrow> 's option"
  assumes plive_disjoint: "pinv s \<Longrightarrow> a \<noteq> b \<Longrightarrow> plive s a \<inter> plive s b = {}"
    and palloc_total: "pinv s \<Longrightarrow> page_valid (n, al, mx) \<Longrightarrow> \<exists>s' a. palloc s n al mx = Some (s', a)"
    and palloc_none: "pinv s \<Longrightarrow> page_valid (n, al, mx) \<Longrightarrow> palloc s n al mx = Some (s', 0) \<Longrightarrow> s' = s"
    and palloc_some: "pinv s \<Longrightarrow> page_valid (n, al, mx) \<Longrightarrow> palloc s n al mx = Some (s', a) \<Longrightarrow> a \<noteq> 0 \<Longrightarrow>
      pinv s' \<and> plive s a = {} \<and> page_block a n \<subseteq> plive s' a \<and> (\<forall>b. b \<noteq> a \<longrightarrow> plive s' b = plive s b)"
    and palloc_placed: "pinv s \<Longrightarrow> page_valid (n, al, mx) \<Longrightarrow> palloc s n al mx = Some (s', a) \<Longrightarrow> a \<noteq> 0 \<Longrightarrow>
      unat al dvd unat a \<and> unat a + unat n * 4096 \<le> 2 ^ 52 \<and> (mx \<noteq> 0 \<longrightarrow> unat a + unat n * 4096 \<le> unat mx)"
    and prelease_live: "pinv s \<Longrightarrow> n \<noteq> 0 \<Longrightarrow> a \<noteq> 0 \<Longrightarrow> plive s a \<noteq> {} \<Longrightarrow>
      \<exists>s'. prelease s a n = Some s' \<and> pinv s' \<and> plive s' a = {} \<and> (\<forall>b. b \<noteq> a \<longrightarrow> plive s' b = plive s b)"
begin

lemma palloc_page_aligned:
  assumes "pinv s" "page_valid (n, al, mx)" "palloc s n al mx = Some (s', a)" "a \<noteq> 0"
  shows "4096 dvd unat a"
proof -
  from assms(2) obtain k where k: "al = 2 ^ k" "12 \<le> k" "k < 32" by (auto simp: page_valid_def)
  then have "unat al = 2 ^ k" by (simp add: unat_pow2)
  moreover have "(2::nat) ^ 12 dvd 2 ^ k" using k(2) by (rule le_imp_power_dvd)
  ultimately show ?thesis using palloc_placed [OF assms] dvd_trans by fastforce
qed

end

sublocale page_allocator \<subseteq> pages: block_allocator pinv plive "\<lambda>s (n, al, mx). palloc s n al mx"
  "\<lambda>s a (n, al, mx). prelease s a n" page_valid "\<lambda>(n, al, mx). unat n * 4096"
proof unfold_locales
  fix s s' :: 's and r :: page_request and a
  obtain n al mx where r: "r = (n, al, mx)" by (cases r)
  show "0 < (case r of (n, al, mx) \<Rightarrow> unat n * 4096)" if "page_valid r"
    using that by (auto simp: r page_valid_def unat_gt_0)
  assume inv: "pinv s" and v: "page_valid r"
  show "\<exists>s' a. (case r of (n, al, mx) \<Rightarrow> palloc s n al mx) = Some (s', a)"
    using palloc_total [OF inv, of n al mx] v by (simp add: r)
  show "pinv s' \<and> plive s' = plive s" if "(case r of (n, al, mx) \<Rightarrow> palloc s n al mx) = Some (s', 0)"
    using palloc_none [OF inv, of n al mx s'] inv v that by (simp add: r)
  show "pinv s' \<and> plive s a = {} \<and> {unat a ..< unat a + (case r of (n, al, mx) \<Rightarrow> unat n * 4096)} \<subseteq> plive s' a \<and>
      (\<forall>b. b \<noteq> a \<longrightarrow> plive s' b = plive s b)"
    if "(case r of (n, al, mx) \<Rightarrow> palloc s n al mx) = Some (s', a)" "a \<noteq> 0"
    using palloc_some [OF inv, of n al mx s' a] v that by (simp add: r page_block_def)
  show "\<exists>s'. (case r of (n, al, mx) \<Rightarrow> prelease s a n) = Some s' \<and> pinv s' \<and> plive s' a = {} \<and>
      (\<forall>b. b \<noteq> a \<longrightarrow> plive s' b = plive s b)" if "a \<noteq> 0" "plive s a \<noteq> {}"
    using prelease_live [OF inv, of n a] v that by (simp add: r page_valid_def)
qed (use plive_disjoint in blast)

definition live_at :: "phys_allocator \<Rightarrow> u64 \<Rightarrow> nat set" where
  "live_at pa a = {x. \<exists>sz. (a, sz) \<in> live_blocks (pa_pool pa) \<and> unat a \<le> x \<and> x < unat a + unat sz}"

lemma live_blocks_iff:
  "(a, sz) \<in> live_blocks pool \<longleftrightarrow>
     (\<exists>j < length pool. mr_used (pool ! j) \<and> mr_start (pool ! j) = a \<and> mr_size (pool ! j) = sz \<and> sz \<noteq> 0)"
  unfolding live_blocks_def live_of_def by (auto split: if_splits)

lemma live_block_node:
  assumes "pool_rel pool fl ns" and "(a, sz) \<in> live_blocks pool"
  shows "\<exists>j \<in> set ns. mr_used (pool ! j) \<and> mr_start (pool ! j) = a \<and> mr_size (pool ! j) = sz"
proof -
  from assms(2) obtain j where "j < length pool" "mr_used (pool ! j)" "mr_start (pool ! j) = a"
      "mr_size (pool ! j) = sz" "sz \<noteq> 0" unfolding live_blocks_iff by blast
  moreover then have "j \<in> set ns" using assms(1) by (auto simp: pool_rel_def)
  ultimately show ?thesis by blast
qed

lemma live_block_unique:
  assumes rel: "pool_rel pool fl ns" and "(a, sz) \<in> live_blocks pool" "(a, sz') \<in> live_blocks pool"
  shows "sz = sz'"
  using live_block_node [OF rel assms(2)] live_block_node [OF rel assms(3)] pool_rel_start_inj [OF rel] by metis

lemma live_at_disjoint:
  assumes "pa_inv pa" "a \<noteq> b" shows "live_at pa a \<inter> live_at pa b = {}"
proof -
  from assms(1) obtain ns where rel: "pool_rel (pa_pool pa) (pa_free_list pa) ns" by (auto simp: pa_inv_def)
  have node: "\<exists>j \<in> set ns. mr_start (pa_pool pa ! j) = c \<and> x \<in> region_bytes (pa_pool pa ! j)"
    if "x \<in> live_at pa c" for x c
  proof -
    from that obtain sz where "(c, sz) \<in> live_blocks (pa_pool pa)" "unat c \<le> x" "x < unat c + unat sz"
      unfolding live_at_def by blast
    then show ?thesis using live_block_node [OF rel] by (fastforce simp: region_bytes_def)
  qed
  { fix x assume x: "x \<in> live_at pa a" "x \<in> live_at pa b"
    from node [OF x(1)] obtain i where
      i: "i \<in> set ns" "mr_start (pa_pool pa ! i) = a" "x \<in> region_bytes (pa_pool pa ! i)" by blast
    from node [OF x(2)] obtain j where
      j: "j \<in> set ns" "mr_start (pa_pool pa ! j) = b" "x \<in> region_bytes (pa_pool pa ! j)" by blast
    have "i \<noteq> j" using i(2) j(2) assms(2) by blast
    moreover have "j < length (pa_pool pa)" using j(1) rel by (auto simp: pool_rel_def)
    ultimately have False using pool_rel_disjoint [OF rel i(1), of j] i(3) j(3) by blast }
  then show ?thesis by blast
qed

lemma live_block_start_used:
  assumes "(a, sz) \<in> live_blocks (pa_pool pa)" shows "unat a \<in> pa_used_bytes pa"
proof -
  from assms obtain j where "j < length (pa_pool pa)" "mr_used (pa_pool pa ! j)" "mr_start (pa_pool pa ! j) = a"
      "mr_size (pa_pool pa ! j) \<noteq> 0" unfolding live_blocks_iff by blast
  then show ?thesis unfolding pool_bytes_def region_bytes_def by (auto simp: unat_gt_0)
qed

lemma allocate_pages_contract:
  assumes "pa_inv pa" "n \<noteq> 0" "al = 2 ^ k" "12 \<le> k" "k < 32" "allocate_pages pa n al mx = Some (pa', a)" "a \<noteq> 0"
  shows "live_at pa a = {} \<and> page_block a n \<subseteq> live_at pa' a \<and> (\<forall>b. b \<noteq> a \<longrightarrow> live_at pa' b = live_at pa b)"
  using assms(1,2)
proof (cases rule: allocate_pages_cases [where al = al and mx = mx])
  case fail
  then show ?thesis using assms(6,7) by simp
next
  case (ok xs i ys pb b)
  then have eq: "pb = pa'" "b = a" using assms(6) by auto
  note ok = ok(1) ok(2) [unfolded eq]
  note T = try_region_Some [OF ok(1) assms(3-5,2) ok(2)]
  from live_try_region [OF ok(1) assms(2-5) ok(2)] obtain sz where
    sz: "unat n * 4096 \<le> unat sz" "live_blocks (pa_pool pa') = insert (a, sz) (live_blocks (pa_pool pa))" by blast
  have sub: "page_block a n \<subseteq> pa_free_bytes pa" using T(1) by (simp add: pool_took_def page_block_def)
  have "unat a \<in> page_block a n" using assms(2) by (simp add: page_block_def unat_gt_0)
  then have "unat a \<notin> pa_used_bytes pa" using sub pool_bytes_disjoint [OF ok(1)] by blast
  then have none: "(a, x) \<notin> live_blocks (pa_pool pa)" for x using live_block_start_used by blast
  have "page_block a n \<subseteq> live_at pa' a"
    unfolding live_at_def sz(2) page_block_def using sz(1) by fastforce
  moreover have "live_at pa' b = live_at pa b" if "b \<noteq> a" for b
    using that unfolding live_at_def sz(2) by simp
  ultimately show ?thesis using none unfolding live_at_def by simp
qed

lemma free_pages_contract:
  assumes "pa_inv pa" "n \<noteq> 0" "live_at pa a \<noteq> {}"
  shows "\<exists>pa'. free_pages pa a n = Some pa' \<and> pa_inv pa' \<and> live_at pa' a = {} \<and>
    (\<forall>b. b \<noteq> a \<longrightarrow> live_at pa' b = live_at pa b)"
proof -
  from assms(1) obtain ns where rel: "pool_rel (pa_pool pa) (pa_free_list pa) ns" by (auto simp: pa_inv_def)
  from assms(3) obtain sz where lb: "(a, sz) \<in> live_blocks (pa_pool pa)" unfolding live_at_def by blast
  from live_block_node [OF rel lb] obtain i where
    i: "i \<in> set ns" "mr_used (pa_pool pa ! i)" "mr_start (pa_pool pa ! i) = a" "mr_size (pa_pool pa ! i) = sz" by blast
  then obtain xs ys where ns: "ns = xs @ i # ys" by (auto dest: split_list)
  from free_pages_release [OF rel [unfolded ns] assms(2) i(2)]
  have fp: "free_pages pa a n = Some (pa_release pa n (if xs = [] then None else Some (last xs)) i)" (is "_ = Some ?pa'")
    using i(3) by simp
  have "pa_inv ?pa'"
    using release_gave [OF rel [unfolded ns] i(2), of n] assms(1) by (auto simp: pool_gave_def pa_inv_def)
  moreover have L: "live_blocks (pa_pool ?pa') = live_blocks (pa_pool pa) - {(a, sz)}"
    using live_release [OF rel [unfolded ns] i(2)] i(3,4) by simp
  moreover have "live_at ?pa' a = {}"
    unfolding live_at_def L using live_block_unique [OF rel lb] by auto
  moreover have "live_at ?pa' b = live_at pa b" if "b \<noteq> a" for b
    using that unfolding live_at_def L by auto
  ultimately show ?thesis using fp by blast
qed

lemma pool_bytes_bound:
  assumes "pool_rel pool fl ns" and "x \<in> pool_bytes u pool"
  shows "x < 2 ^ 52"
proof -
  from assms(2) obtain i where i: "i < length pool" "x \<in> region_bytes (pool ! i)" by (auto simp: pool_bytes_def)
  then have "mr_size (pool ! i) \<noteq> 0" by auto
  then have "region_ok (pool ! i)" using assms(1) i(1) by (auto simp: pool_rel_def)
  then show ?thesis using i(2) by (auto simp: region_ok_def region_bytes_def)
qed

lemma allocate_pages_bound:
  assumes "pa_inv pa" "n \<noteq> 0" "al = 2 ^ k" "12 \<le> k" "k < 32" "allocate_pages pa n al mx = Some (pa', a)" "a \<noteq> 0"
  shows "unat a + unat n * 4096 \<le> 2 ^ 52"
proof -
  from assms(1) obtain ns where rel: "pool_rel (pa_pool pa) (pa_free_list pa) ns" by (auto simp: pa_inv_def)
  have n0: "0 < unat n" using assms(2) by (simp add: unat_gt_0)
  then have "unat a + unat n * 4096 - 1 \<in> {unat a ..< unat a + unat n * 4096}" by simp
  then have "unat a + unat n * 4096 - 1 \<in> pa_free_bytes pa"
    using allocate_pages_sound [OF assms(1-5), of mx] assms(6,7) by auto
  then show ?thesis using pool_bytes_bound [OF rel] n0 by fastforce
qed

interpretation phys: page_allocator pa_inv live_at allocate_pages free_pages
proof unfold_locales
  fix s s' :: phys_allocator and n al :: u32 and mx a
  assume inv: "pa_inv s" and v: "page_valid (n, al, mx)"
  then obtain k where n: "n \<noteq> 0" and k: "al = 2 ^ k" "12 \<le> k" "k < 32" by (auto simp: page_valid_def)
  note S = allocate_pages_sound [OF inv n k, of mx]
  show "\<exists>s' a. allocate_pages s n al mx = Some (s', a)" using S by blast
  show "s' = s" if "allocate_pages s n al mx = Some (s', 0)" using S that by auto
  assume B: "allocate_pages s n al mx = Some (s', a)" "a \<noteq> 0"
  show "pa_inv s' \<and> live_at s a = {} \<and> page_block a n \<subseteq> live_at s' a \<and> (\<forall>b. b \<noteq> a \<longrightarrow> live_at s' b = live_at s b)"
    using S B allocate_pages_contract [OF inv n k B] by simp
  show "unat al dvd unat a \<and> unat a + unat n * 4096 \<le> 2 ^ 52 \<and> (mx \<noteq> 0 \<longrightarrow> unat a + unat n * 4096 \<le> unat mx)"
    using S B allocate_pages_bound [OF inv n k B] k by (simp add: unat_pow2)
qed (use live_at_disjoint free_pages_contract in blast)+

section \<open>Properties\<close>

text \<open>A memory map for the witnesses: two free ranges, one of them holding page 0.\<close>

definition example_map :: "memory_map_entry list" where
  "example_map = [\<lparr>physical_start = 0, virtual_start = 0, number_of_pages = 0x9F, mtype = conventional, attribute = 0\<rparr>,
     \<lparr>physical_start = 0x100000, virtual_start = 0, number_of_pages = 0x10, mtype = boot_services_data, attribute = 0\<rparr>,
     \<lparr>physical_start = 0x200000, virtual_start = 0, number_of_pages = 0x10, mtype = runtime_services_data, attribute = 0\<rparr>]"

definition example_pa :: phys_allocator where
  "example_pa = fst (pa_init pa_boot example_map)"

definition example_taken :: phys_allocator where
  "example_taken = fst (the (allocate_pages example_pa 2 4096 0))"

lemma example_map_ok: "memory_map_ok example_map"
  by (simp add: memory_map_ok_def example_map_def)

lemma example_pa_inv: "pa_inv example_pa"
  using pa_init_establishes [OF example_map_ok, of "fst (pa_init pa_boot example_map)"]
  by (simp add: example_pa_def pa_init_def)

lemma example_alloc: "allocate_pages example_pa 2 4096 0 = Some (example_taken, 0x1000)"
proof -
  have "map_option snd (allocate_pages example_pa 2 4096 0) = Some 0x1000" by code_simp
  then show ?thesis by (auto simp: example_taken_def)
qed

lemma example_taken_inv: "pa_inv example_taken"
  using allocate_pages_sound [OF example_pa_inv, of 2 4096 12 0] example_alloc by simp

lemma example_spare: "2 \<le> pool_spare (pa_pool example_pa)"
  unfolding pool_spare_def by code_simp

text \<open>
  C1. From any well-formed firmware memory map, however a client takes and gives back pages,
  the blocks it holds at any moment are pairwise disjoint, the allocator's invariant holds, and
  giving back any held block returns.
\<close>

theorem page_runs_are_safe:
  assumes "memory_map_ok es"
    and "block_run (\<lambda>pa (n, al, mx). allocate_pages pa n al mx) (\<lambda>pa a (n, al, mx). free_pages pa a n)
           page_valid (fst (pa_init pa_boot es)) pa L"
  shows "pa_inv pa \<and> (\<forall>a n al mx b m al' mx'. (a, n, al, mx) \<in> L \<longrightarrow> (b, m, al', mx') \<in> L \<longrightarrow>
            (a, n, al, mx) \<noteq> (b, m, al', mx') \<longrightarrow> page_block a n \<inter> page_block b m = {}) \<and>
         (\<forall>a n al mx. (a, n, al, mx) \<in> L \<longrightarrow> (\<exists>pa'. free_pages pa a n = Some pa'))"
proof -
  have inv: "pa_inv (fst (pa_init pa_boot es))"
    using pa_init_establishes [OF assms(1), of "fst (pa_init pa_boot es)"] by (simp add: pa_init_def)
  have "pa_inv pa" using phys.pages.run_holds [OF assms(2) inv] unfolding phys.pages.holds_def by blast
  moreover have "page_block a n \<inter> page_block b m = {}"
    if "(a, n, al, mx) \<in> L" "(b, m, al', mx') \<in> L" "(a, n, al, mx) \<noteq> (b, m, al', mx')" for a n al mx b m al' mx'
    using phys.pages.run_disjoint [OF assms(2) inv that(1,2)] that(3) by (simp add: page_block_def)
  moreover have "\<exists>pa'. free_pages pa a n = Some pa'" if "(a, n, al, mx) \<in> L" for a n al mx
    using phys.pages.run_release_defined [OF assms(2) inv that] by simp
  ultimately show ?thesis by blast
qed

lemma page_runs_are_safe_witness:
  "memory_map_ok example_map \<and>
   block_run (\<lambda>pa (n, al, mx). allocate_pages pa n al mx) (\<lambda>pa a (n, al, mx). free_pages pa a n)
     page_valid (fst (pa_init pa_boot example_map)) example_taken {(0x1000, 2, 4096, 0)} \<and>
   pa_inv example_taken"
proof -
  have v: "page_valid (2, 4096, 0)" unfolding page_valid_def by (simp, intro exI [of _ 12]) simp
  have "block_run (\<lambda>pa (n, al, mx). allocate_pages pa n al mx) (\<lambda>pa a (n, al, mx). free_pages pa a n)
     page_valid (fst (pa_init pa_boot example_map)) example_taken
     (if (0x1000 :: u64) = 0 then {} else insert (0x1000, 2, 4096, 0) {})"
    by (rule run_take [OF run_start]) (use example_alloc v in \<open>simp_all add: example_pa_def\<close>)
  then show ?thesis using page_runs_are_safe [OF example_map_ok] example_map_ok by simp
qed

text \<open>
  C3. \<open>allocate_pages\<close> always returns; a block it returns is aligned, ends below \<open>max_addr\<close>
  when one is given, was free before the call, is used afterwards, and no other byte becomes free.
\<close>

theorem allocate_pages_safe:
  assumes "pa_inv pa" and "page_count \<noteq> 0" and "alignment = 2 ^ k" "12 \<le> k" "k < 32"
  shows "\<exists>pa' a. allocate_pages pa page_count alignment max_addr = Some (pa', a) \<and> pa_inv pa' \<and>
     (a = 0 \<longrightarrow> pa' = pa) \<and>
     (a \<noteq> 0 \<longrightarrow> 2 ^ k dvd unat a \<and>
        (max_addr \<noteq> 0 \<longrightarrow> unat a + unat page_count * 4096 \<le> unat max_addr) \<and>
        page_block a page_count \<subseteq> pa_free_bytes pa \<and>
        pa_free_bytes pa' \<subseteq> pa_free_bytes pa - page_block a page_count \<and>
        pa_used_bytes pa \<union> page_block a page_count \<subseteq> pa_used_bytes pa')"
  using allocate_pages_sound [OF assms] unfolding page_block_def .

lemma allocate_pages_safe_witness:
  "\<exists>pa' a. allocate_pages example_pa 2 4096 0 = Some (pa', a) \<and> pa_inv pa'"
  using allocate_pages_safe [OF example_pa_inv, of 2 4096 12 0] by (simp, blast)

text \<open>
  An allocation fails only when no free region can host it, as long as the node pool has a
  spare node.
\<close>

lemma allocate_pages_complete:
  assumes "pa_inv pa" and "page_count \<noteq> 0" and "alignment = 2 ^ k" "12 \<le> k" "k < 32"
    and "pool_spare (pa_pool pa) \<noteq> 0" and "allocate_pages pa page_count alignment max_addr = Some (pa', 0)"
    and "i < length (pa_pool pa)" and "mr_size (pa_pool pa ! i) \<noteq> 0"
  shows "\<not> region_hosts (pa_pool pa ! i) page_count alignment max_addr"
  using allocate_pages_exhausts [OF assms] .

text \<open>
  \<open>free_pages\<close> on the start of a used region returns, makes exactly that region's bytes free
  and keeps the invariant, whatever it coalesces.
\<close>

lemma free_pages_correct:
  assumes "pa_inv pa" and "page_count \<noteq> 0"
    and "i < length (pa_pool pa)" "mr_used (pa_pool pa ! i)" "mr_size (pa_pool pa ! i) \<noteq> 0"
  shows "\<exists>pa'. free_pages pa (mr_start (pa_pool pa ! i)) page_count = Some pa' \<and> pa_inv pa' \<and>
     pa_free_bytes pa' = pa_free_bytes pa \<union> region_bytes (pa_pool pa ! i) \<and>
     pa_used_bytes pa' = pa_used_bytes pa - region_bytes (pa_pool pa ! i)"
  using free_pages_gives [OF assms] .

text \<open>
  Freeing what was just allocated restores the sets of free and used bytes and both page
  counters, when two spare nodes were available.
\<close>

lemma allocate_free_roundtrip:
  assumes "pa_inv pa" and "page_count \<noteq> 0" and "alignment = 2 ^ k" "12 \<le> k" "k < 32"
    and "2 \<le> pool_spare (pa_pool pa)"
    and "allocate_pages pa page_count alignment max_addr = Some (pa', a)" and "a \<noteq> 0"
  shows "\<exists>pa''. free_pages pa' a page_count = Some pa'' \<and> pa_inv pa'' \<and>
     pa_free_bytes pa'' = pa_free_bytes pa \<and> pa_used_bytes pa'' = pa_used_bytes pa \<and>
     pa_used_pages pa'' = pa_used_pages pa \<and> pa_free_pages pa'' = pa_free_pages pa"
  using allocate_free_restores [OF assms] .

text \<open>
  \<open>init\<close> on a sorted, page-aligned memory map establishes the invariant with nothing
  used; the free bytes are bytes of conventional and boot-services entries above page 0, and all
  of them when the node pool is large enough.
\<close>

lemma pa_init_correct:
  assumes "memory_map_ok es" and "pa_init pa_boot es = (pa, st)"
  shows "st = success \<and> pa_inv pa \<and> pa_used_bytes pa = {} \<and> pa_free_bytes pa \<subseteq> free_map_bytes es \<and>
     (length (filter entry_is_free es) \<le> REGION_POOL_SIZE \<longrightarrow> pa_free_bytes pa = free_map_bytes es)"
  using pa_init_establishes [OF assms] .

end
