(* ===== verification/MemUtil.thy ===== *)
theory MemUtil
  imports Types
begin

text \<open>
  The byte routines \<open>memory::set\<close>, \<open>copy\<close>, \<open>compare\<close> and \<open>move\<close> of
  src/core/memory.cpp. Memory is a store of bytes indexed by 64-bit addresses;
  the loops run over the index \<open>i\<close> of the source, with the number of iterations
  left as a natural number. Addresses wrap at \<open>2 ^ 64\<close>, as pointers do on the
  machine.
\<close>

type_synonym store = "u64 \<Rightarrow> u8"

fun set_loop :: "store \<Rightarrow> u64 \<Rightarrow> u8 \<Rightarrow> u64 \<Rightarrow> nat \<Rightarrow> store" where
  "set_loop mem d c i 0 = mem"
| "set_loop mem d c i (Suc k) = set_loop (mem(d + i := c)) d c (i + 1) k"

definition mem_set :: "store \<Rightarrow> u64 \<Rightarrow> u32 \<Rightarrow> u64 \<Rightarrow> store" where
  "mem_set mem dest c n = set_loop mem dest (ucast c) 0 (unat n)"

fun copy_loop :: "store \<Rightarrow> u64 \<Rightarrow> u64 \<Rightarrow> u64 \<Rightarrow> nat \<Rightarrow> store" where
  "copy_loop mem d s i 0 = mem"
| "copy_loop mem d s i (Suc k) = copy_loop (mem(d + i := mem (s + i))) d s (i + 1) k"

definition mem_copy :: "store \<Rightarrow> u64 \<Rightarrow> u64 \<Rightarrow> u64 \<Rightarrow> store" where
  "mem_copy mem dest src n = copy_loop mem dest src 0 (unat n)"

fun compare_loop :: "store \<Rightarrow> u64 \<Rightarrow> u64 \<Rightarrow> u64 \<Rightarrow> nat \<Rightarrow> u32" where
  "compare_loop mem p1 p2 i 0 = 0"
| "compare_loop mem p1 p2 i (Suc k) =
     (if mem (p1 + i) \<noteq> mem (p2 + i) then ucast (mem (p1 + i)) - ucast (mem (p2 + i))
      else compare_loop mem p1 p2 (i + 1) k)"

definition mem_compare :: "store \<Rightarrow> u64 \<Rightarrow> u64 \<Rightarrow> u64 \<Rightarrow> u32" where
  "mem_compare mem s1 s2 n = compare_loop mem s1 s2 0 (unat n)"

text \<open>\<open>while (i-- > 0) d[i] = s[i]\<close>: the body runs with the decremented index.\<close>

fun move_back_loop :: "store \<Rightarrow> u64 \<Rightarrow> u64 \<Rightarrow> nat \<Rightarrow> store" where
  "move_back_loop mem d s 0 = mem"
| "move_back_loop mem d s (Suc i) =
     move_back_loop (mem(d + of_nat i := mem (s + of_nat i))) d s i"

definition mem_move :: "store \<Rightarrow> u64 \<Rightarrow> u64 \<Rightarrow> u64 \<Rightarrow> store" where
  "mem_move mem dest src n =
     (if dest < src then mem_copy mem dest src n
      else if dest > src then move_back_loop mem dest src (unat n)
      else mem)"

section \<open>What they compute\<close>

lemma at_index_iff:
  fixes a d :: u64
  assumes "j < 2 ^ 64"
  shows "a = d + word_of_nat j \<longleftrightarrow> unat (a - d) = j"
proof -
  have u: "unat (word_of_nat j :: u64) = j" using assms by (simp add: unat_of_nat)
  have "a = d + word_of_nat j \<longleftrightarrow> a - d = word_of_nat j" by (auto simp: algebra_simps)
  then show ?thesis using u by (metis word_unat_eq_iff)
qed

lemma index_Suc: "(word_of_nat j :: u64) + 1 = word_of_nat (Suc j)"
  by simp

lemma set_loop_at:
  assumes "j + k \<le> 2 ^ 64"
  shows "set_loop mem d c (word_of_nat j) k a =
     (if j \<le> unat (a - d) \<and> unat (a - d) < j + k then c else mem a)"
  using assms
proof (induction k arbitrary: j mem)
  case (Suc k)
  have "set_loop mem d c (word_of_nat j) (Suc k) a =
      (if Suc j \<le> unat (a - d) \<and> unat (a - d) < Suc j + k then c else (mem(d + word_of_nat j := c)) a)"
    unfolding set_loop.simps index_Suc using Suc.prems by (intro Suc.IH) simp
  then show ?case using at_index_iff [of j a d] Suc.prems by auto
qed auto

lemma mem_set_at:
  "mem_set mem dest c n a = (if a - dest < n then ucast c else mem a)"
proof -
  have "unat n \<le> 2 ^ 64" using unat_lt_64 [of n] by (simp add: less_imp_le)
  then show ?thesis
    using set_loop_at [of 0 "unat n" mem dest "ucast c" a] by (simp add: mem_set_def word_less_nat_alt)
qed

lemma mem_set_code [code]: "mem_set mem dest c n = (\<lambda>a. if a - dest < n then ucast c else mem a)"
  by (rule ext) (rule mem_set_at)

text \<open>Little-endian integers in a list of bytes, as a cast of a packed structure reads them.\<close>

definition le16 :: "u8 list \<Rightarrow> nat \<Rightarrow> u16" where
  "le16 bs i = ucast (bs ! i) OR push_bit 8 (ucast (bs ! (i + 1)))"

definition le32 :: "u8 list \<Rightarrow> nat \<Rightarrow> u32" where
  "le32 bs i = ucast (le16 bs i) OR push_bit 16 (ucast (le16 bs (i + 2)))"

definition le64 :: "u8 list \<Rightarrow> nat \<Rightarrow> u64" where
  "le64 bs i = ucast (le32 bs i) OR push_bit 32 (ucast (le32 bs (i + 4)))"

text \<open>Storing a list of bytes, the effect of a copy from a buffer that does not overlap the destination.\<close>

fun write_bytes :: "(u64 \<Rightarrow> u8) \<Rightarrow> u64 \<Rightarrow> u8 list \<Rightarrow> (u64 \<Rightarrow> u8)" where
  "write_bytes mem a [] = mem"
| "write_bytes mem a (b # bs) = write_bytes (mem(a := b)) (a + 1) bs"

lemma write_bytes_at:
  assumes "length bs \<le> 2 ^ 64"
  shows "write_bytes mem a bs x = (if unat (x - a) < length bs then bs ! unat (x - a) else mem x)"
  using assms
proof (induction bs arbitrary: mem a)
  case (Cons b bs)
  show ?case
  proof (cases "x = a")
    case True
    have "unat ((-1) :: u64) = 2 ^ 64 - 1" by (simp add: unsigned_minus_1_eq_mask mask_eq_exp_minus_1)
    then have "\<not> unat (a - (a + 1)) < length bs" using Cons.prems by simp
    then show ?thesis using Cons True by simp
  next
    case False
    then have "x - a \<noteq> 0" by simp
    then have "unat (x - (a + 1)) = unat (x - a) - 1" using unat_minus_one [of "x - a"] by (simp add: diff_diff_eq)
    moreover have "0 < unat (x - a)" using \<open>x - a \<noteq> 0\<close> by (simp add: unat_gt_0)
    ultimately show ?thesis using Cons False by (auto simp: nth_Cons')
  qed
qed simp

lemma copy_loop_at:
  assumes "j + k \<le> 2 ^ 64" and "d = s \<or> j + k \<le> unat (d - s)"
  shows "copy_loop mem d s (word_of_nat j) k a =
     (if j \<le> unat (a - d) \<and> unat (a - d) < j + k then mem (s + (a - d)) else mem a)"
  using assms
proof (induction k arbitrary: j mem)
  case (Suc k)
  let ?m = "mem(d + word_of_nat j := mem (s + word_of_nat j))"
  have IH: "copy_loop mem d s (word_of_nat j) (Suc k) a =
      (if Suc j \<le> unat (a - d) \<and> unat (a - d) < Suc j + k then ?m (s + (a - d)) else ?m a)"
    unfolding copy_loop.simps index_Suc using Suc.prems by (intro Suc.IH) auto
  have "?m (s + (a - d)) = mem (s + (a - d))" if r: "Suc j \<le> unat (a - d)" "unat (a - d) < Suc j + k"
  proof (cases "d = s")
    case False
    have "s + (a - d) \<noteq> d + word_of_nat j"
    proof
      assume e: "s + (a - d) = d + word_of_nat j"
      have jj: "unat (word_of_nat j :: u64) = j" using Suc.prems by (simp add: unat_of_nat)
      have "d - s = (a - d) - word_of_nat j" using e by (simp add: algebra_simps)
      moreover have "unat ((a - d) - word_of_nat j) = unat (a - d) - j"
        using r jj by (subst unat_minus_nw) simp_all
      ultimately have "unat (d - s) = unat (a - d) - j" by metis
      then show False using Suc.prems(2) False r by simp
    qed
    then show ?thesis by simp
  qed (use Suc.prems in auto)
  moreover have "a = d + word_of_nat j \<Longrightarrow> s + (a - d) = s + word_of_nat j" by simp
  ultimately show ?case using IH at_index_iff [of j a d] Suc.prems by auto
qed auto

lemma move_back_loop_at:
  assumes "k \<le> 2 ^ 64" and "d = s \<or> k \<le> unat (s - d)"
  shows "move_back_loop mem d s k a = (if unat (a - d) < k then mem (s + (a - d)) else mem a)"
  using assms
proof (induction k arbitrary: mem)
  case (Suc k)
  let ?m = "mem(d + word_of_nat k := mem (s + word_of_nat k))"
  have IH: "move_back_loop mem d s (Suc k) a = (if unat (a - d) < k then ?m (s + (a - d)) else ?m a)"
    unfolding move_back_loop.simps using Suc.prems by (intro Suc.IH) auto
  have "?m (s + (a - d)) = mem (s + (a - d))" if r: "unat (a - d) < k"
  proof (cases "d = s")
    case False
    have "s + (a - d) \<noteq> d + word_of_nat k"
    proof
      assume e: "s + (a - d) = d + word_of_nat k"
      have kk: "unat (word_of_nat k :: u64) = k" using Suc.prems by (simp add: unat_of_nat)
      have "s - d = word_of_nat k - (a - d)" using e by (simp add: algebra_simps)
      moreover have "unat (word_of_nat k - (a - d)) = k - unat (a - d)"
        using r kk by (subst unat_minus_nw) simp_all
      ultimately have "unat (s - d) = k - unat (a - d)" by metis
      then show False using Suc.prems(2) False r by simp
    qed
    then show ?thesis by simp
  qed (use Suc.prems in auto)
  moreover have "a = d + word_of_nat k \<Longrightarrow> s + (a - d) = s + word_of_nat k" by simp
  ultimately show ?case using IH at_index_iff [of k a d] Suc.prems by auto
qed simp

lemma mem_copy_at:
  assumes "dest = src \<or> n \<le> dest - src"
  shows "mem_copy mem dest src n a = (if a - dest < n then mem (src + (a - dest)) else mem a)"
proof -
  have "unat n \<le> 2 ^ 64" using unat_lt_64 [of n] by (simp add: less_imp_le)
  then show ?thesis
    using copy_loop_at [of 0 "unat n" dest src mem a] assms
    by (simp add: mem_copy_def word_less_nat_alt word_le_nat_alt)
qed

lemma wrap_distance:
  fixes x y n :: u64
  assumes "x < y" and "unat y + unat n \<le> 2 ^ 64"
  shows "unat n \<le> unat (x - y)"
proof -
  have xy: "unat x < unat y" using assms(1) by (simp add: word_less_nat_alt)
  have y: "unat y < 2 ^ 64" using unat_lt_64 [of y] by simp
  have "unat (x - y) = 2 ^ 64 + unat x - unat y"
    using xy by (simp add: unat_sub_if_size word_size word_le_nat_alt)
  then show ?thesis using assms(2) xy by linarith
qed

lemma mem_move_at:
  assumes "unat src + unat n \<le> 2 ^ 64" and "unat dest + unat n \<le> 2 ^ 64"
  shows "mem_move mem dest src n a = (if a - dest < n then mem (src + (a - dest)) else mem a)"
proof -
  consider "dest < src" | "src < dest" | "dest = src" by fastforce
  then show ?thesis
  proof cases
    case 1
    then show ?thesis using wrap_distance [OF 1 assms(1)]
      by (simp add: mem_move_def mem_copy_at word_le_nat_alt)
  next
    case 2
    have "unat n \<le> 2 ^ 64" using unat_lt_64 [of n] by (simp add: less_imp_le)
    then show ?thesis using 2 wrap_distance [OF 2 assms(2)] move_back_loop_at [of "unat n" dest src mem a]
      by (auto simp: mem_move_def word_less_nat_alt)
  next
    case 3
    then show ?thesis by (simp add: mem_move_def)
  qed
qed

lemma byte_diff_sint:
  "sint (ucast (x :: u8) - ucast (y :: u8) :: u32) = int (unat x) - int (unat y)"
proof -
  have "uint x < 256" "uint y < 256" using uint_lt2p [of x] uint_lt2p [of y] by auto
  then have b: "- 256 < uint x - uint y" "uint x - uint y < 256"
    using uint_ge_0 [of x] uint_ge_0 [of y] by linarith+
  have eq: "(ucast x - ucast y :: u32) = word_of_int (uint x - uint y)"
    by (simp add: word_of_int_uint flip: ucast_eq)
  have "sint (word_of_int (uint x - uint y) :: u32) = uint x - uint y"
    using b by (subst signed_of_int, subst signed_take_bit_int_eq_self) simp_all
  then show ?thesis unfolding eq by simp
qed

lemma compare_loop_spec:
  assumes "j + k \<le> 2 ^ 64"
  shows "(\<forall>i. j \<le> i \<and> i < j + k \<longrightarrow> mem (p + word_of_nat i) = mem (q + word_of_nat i)) \<and>
           compare_loop mem p q (word_of_nat j) k = 0 \<or>
         (\<exists>i. j \<le> i \<and> i < j + k \<and> mem (p + word_of_nat i) \<noteq> mem (q + word_of_nat i) \<and>
           (\<forall>l. j \<le> l \<and> l < i \<longrightarrow> mem (p + word_of_nat l) = mem (q + word_of_nat l)) \<and>
           sint (compare_loop mem p q (word_of_nat j) k) =
             int (unat (mem (p + word_of_nat i))) - int (unat (mem (q + word_of_nat i))))"
  using assms
proof (induction k arbitrary: j)
  case (Suc k)
  show ?case
  proof (cases "mem (p + word_of_nat j) = mem (q + word_of_nat j)")
    case True
    then have "compare_loop mem p q (word_of_nat j) (Suc k) = compare_loop mem p q (word_of_nat (Suc j)) k"
      by (simp add: add.commute)
    moreover have "Suc j + k \<le> 2 ^ 64" using Suc.prems by simp
    note Suc.IH [OF this]
    ultimately show ?thesis using True
      by (metis (no_types, lifting) Suc_leD Suc_leI add_Suc_shift le_eq_less_or_eq)
  next
    case False
    then show ?thesis by (intro disjI2 exI [of _ j]) (auto simp: byte_diff_sint)
  qed
qed auto

section \<open>Properties\<close>

text \<open>
  \<open>memory::move\<close> copies correctly however the two ranges overlap: every destination byte
  is the byte the source range held before the call, every other byte is unchanged.
\<close>

lemma mem_move_correct:
  assumes "unat src + unat n \<le> 2 ^ 64" and "unat dest + unat n \<le> 2 ^ 64"
  shows "mem_move mem dest src n a = (if a - dest < n then mem (src + (a - dest)) else mem a)"
  using mem_move_at [OF assms] .

text \<open>
  \<open>memory::compare\<close> returns 0 exactly when the two ranges are equal, and otherwise the
  difference of the first two bytes that differ.
\<close>

lemma mem_compare_correct:
  "(\<forall>i < unat n. mem (s1 + word_of_nat i) = mem (s2 + word_of_nat i)) \<and> mem_compare mem s1 s2 n = 0 \<or>
   (\<exists>i < unat n. mem (s1 + word_of_nat i) \<noteq> mem (s2 + word_of_nat i) \<and>
      (\<forall>l < i. mem (s1 + word_of_nat l) = mem (s2 + word_of_nat l)) \<and>
      sint (mem_compare mem s1 s2 n) = int (unat (mem (s1 + word_of_nat i))) - int (unat (mem (s2 + word_of_nat i))))"
proof -
  have "0 + unat n \<le> 2 ^ 64" using unat_lt_64 [of n] by (simp add: less_imp_le)
  from compare_loop_spec [OF this, of mem s1 s2] show ?thesis by (simp add: mem_compare_def)
qed

end
