(* ===== verification/KHeap.thy ===== *)
theory KHeap
  imports PhysAllocSpec MemUtil
begin

text \<open>
  The kernel heap of src/core/memory.cpp (class \<open>kernel_heap\<close>,
  include/vkernel/memory.h) and \<open>memory::init\<close>, which builds it on top of the
  page allocator. A \<open>heap_block*\<close> is its address, 0 for null. Headers live in the
  field \<open>kh_hdr\<close>, a store of header records keyed by header address, and payload
  bytes in \<open>kh_mem\<close>: that the two never overlap is part of what is proved.
  A section under \<open>lock_\<close> is one step. The loops that follow \<open>next\<close> pointers,
  and the retry loops of the allocation functions, are
  \<^theory_text>\<open>partial_function (option)\<close>: \<open>None\<close> is a call that never returns (a
  cyclic list, or a wait for \<open>expanding_\<close> that nobody clears).
  \<open>arch::make_region_writable\<close> changes page permissions only and has no effect
  on this state.
\<close>

section \<open>State\<close>

record heap_block =
  hb_size :: u64
  hb_used :: bool
  hb_next :: u64
  hb_prev :: u64

record kernel_heap =
  kh_free_list :: u64
  kh_total_bytes :: u64
  kh_subheap_count :: u32
  kh_expanding :: bool
  kh_hdr :: "u64 \<Rightarrow> heap_block"
  kh_mem :: store

record kmemory =
  km_heap :: kernel_heap
  km_phys :: phys_allocator
  km_map :: "memory_map_entry list"

definition HEAP_MIN_ALIGNMENT :: u64 where "HEAP_MIN_ALIGNMENT = 16"
definition HEAP_MIN_SPLIT_DATA_SIZE :: u64 where "HEAP_MIN_SPLIT_DATA_SIZE = 16"
definition sizeof_heap_block :: u64 where "sizeof_heap_block = 32"
definition kernel_heap_min_subheap_size :: u64 where "kernel_heap_min_subheap_size = 1 * 1024 * 1024"
definition initial_kernel_heap_size :: u64 where "initial_kernel_heap_size = 64 * 1024 * 1024"
definition max_memory_map_entries :: nat where "max_memory_map_entries = 1024"

definition hb_data :: "u64 \<Rightarrow> u64" where
  "hb_data block = block + sizeof_heap_block"

definition hb_end :: "(u64 \<Rightarrow> heap_block) \<Rightarrow> u64 \<Rightarrow> u64" where
  "hb_end hdr block = block + sizeof_heap_block + hb_size (hdr block)"

abbreviation hdr_upd :: "u64 \<Rightarrow> (heap_block \<Rightarrow> heap_block) \<Rightarrow> (u64 \<Rightarrow> heap_block) \<Rightarrow> u64 \<Rightarrow> heap_block" where
  "hdr_upd a f hdr \<equiv> hdr(a := f (hdr a))"

text \<open>\<open>if (block != null) block->prev = p\<close>\<close>

definition set_prev :: "u64 \<Rightarrow> u64 \<Rightarrow> (u64 \<Rightarrow> heap_block) \<Rightarrow> u64 \<Rightarrow> heap_block" where
  "set_prev block p hdr = (if block \<noteq> 0 then hdr_upd block (hb_prev_update (\<lambda>_. p)) hdr else hdr)"

section \<open>Initialisation and growth\<close>

definition kh_init :: "kernel_heap \<Rightarrow> u64 \<Rightarrow> u64 \<Rightarrow> kernel_heap \<times> status_code" where
  "kh_init kh base sz =
     (if base = 0 \<or> sz \<le> sizeof_heap_block then (kh, invalid_param)
      else (kh\<lparr>kh_free_list := base,
               kh_hdr := (kh_hdr kh)(base := \<lparr>hb_size = sz - sizeof_heap_block, hb_used = False,
                                              hb_next = 0, hb_prev = 0\<rparr>),
               kh_total_bytes := sz, kh_subheap_count := 1, kh_expanding := False\<rparr>, success))"

text \<open>The loop of \<open>add_region\<close> that finds the node to insert behind.\<close>

partial_function (option) insert_pos :: "(u64 \<Rightarrow> heap_block) \<Rightarrow> u64 \<Rightarrow> u64 \<Rightarrow> u64 option" where
  "insert_pos hdr block current =
     (if hb_next (hdr current) \<noteq> 0 \<and> hb_next (hdr current) < block
      then insert_pos hdr block (hb_next (hdr current)) else Some current)"

declare insert_pos.simps [code]

definition add_link :: "kernel_heap \<Rightarrow> u64 \<Rightarrow> kernel_heap option" where
  "add_link kh block =
     (let fl = kh_free_list kh; hdr = kh_hdr kh in
      if fl = 0 \<or> block < fl then
        Some (kh\<lparr>kh_hdr := set_prev fl block (hdr_upd block (hb_next_update (\<lambda>_. fl)) hdr),
                 kh_free_list := block\<rparr>)
      else
        map_option (\<lambda>current.
          let nxt = hb_next (hdr current);
              hdr = hdr_upd block (\<lambda>b. b\<lparr>hb_next := nxt, hb_prev := current\<rparr>) hdr;
              hdr = hdr_upd current (hb_next_update (\<lambda>_. block)) hdr
          in kh\<lparr>kh_hdr := set_prev (hb_next (hdr block)) block hdr\<rparr>)
          (insert_pos hdr block fl))"

text \<open>
  \<open>a->size += b->size + sizeof(heap_block); a->next = b->next\<close> and the fix of the
  successor's \<open>prev\<close>: the merge step of \<open>add_region\<close> and \<open>free\<close>.
\<close>

definition absorb :: "u64 \<Rightarrow> u64 \<Rightarrow> (u64 \<Rightarrow> heap_block) \<Rightarrow> u64 \<Rightarrow> heap_block" where
  "absorb a b hdr =
     (let hdr = hdr_upd a (\<lambda>h. h\<lparr>hb_size := hb_size h + (hb_size (hdr b) + sizeof_heap_block)\<rparr>) hdr;
          hdr = hdr_upd a (\<lambda>h. h\<lparr>hb_next := hb_next (hdr b)\<rparr>) hdr
      in set_prev (hb_next (hdr a)) a hdr)"

definition absorbs_prev :: "(u64 \<Rightarrow> heap_block) \<Rightarrow> u64 \<Rightarrow> bool" where
  "absorbs_prev hdr block \<longleftrightarrow>
     (let p = hb_prev (hdr block) in p \<noteq> 0 \<and> \<not> hb_used (hdr p) \<and> hb_end hdr p = block)"

definition absorbs_next :: "(u64 \<Rightarrow> heap_block) \<Rightarrow> u64 \<Rightarrow> bool" where
  "absorbs_next hdr block \<longleftrightarrow>
     (let n = hb_next (hdr block) in n \<noteq> 0 \<and> \<not> hb_used (hdr n) \<and> hb_end hdr block = n)"

definition add_region :: "kernel_heap \<Rightarrow> u64 \<Rightarrow> u64 \<Rightarrow> (kernel_heap \<times> status_code) option" where
  "add_region kh base sz =
     (if base = 0 \<or> sz \<le> sizeof_heap_block then Some (kh, invalid_param)
      else
        map_option (\<lambda>kh.
          let hdr = kh_hdr kh;
              (hdr, block) = (if absorbs_prev hdr base
                              then (absorb (hb_prev (hdr base)) base hdr, hb_prev (hdr base))
                              else (hdr, base));
              hdr = (if absorbs_next hdr block then absorb block (hb_next (hdr block)) hdr else hdr)
          in (kh\<lparr>kh_hdr := hdr, kh_total_bytes := kh_total_bytes kh + sz,
                 kh_subheap_count := kh_subheap_count kh + 1\<rparr>, success))
        (add_link (kh\<lparr>kh_hdr := (kh_hdr kh)(base := \<lparr>hb_size = sz - sizeof_heap_block, hb_used = False,
                                                      hb_next = 0, hb_prev = 0\<rparr>)\<rparr>) base))"

text \<open>The size computation of \<open>expand\<close>: \<open>None\<close> where it returns false before allocating.\<close>

definition expand_request :: "u64 \<Rightarrow> u64 \<Rightarrow> (u64 \<times> u32 \<times> u32) option" where
  "expand_request sz alignment =
     (let max_size = NOT 0 :: u64;
          effective_alignment = max_u64 alignment HEAP_MIN_ALIGNMENT;
          alignment_slack = max_u64 effective_alignment PAGE_SIZE_4K in
      if sz = 0 then None
      else if sz > max_size - sizeof_heap_block - alignment_slack then None
      else
        let minimum_bytes = sz + sizeof_heap_block + alignment_slack in
        if minimum_bytes > (max_size - PAGE_SIZE_4K) div 2 then None
        else
          let grow = align_up (minimum_bytes * 2 + PAGE_SIZE_4K) PAGE_SIZE_4K;
              grow_bytes = (if grow < kernel_heap_min_subheap_size then kernel_heap_min_subheap_size else grow);
              page_count64 = grow_bytes div PAGE_SIZE_4K in
          if page_count64 = 0 \<or> page_count64 > 0xFFFFFFFF then None
          else
            let req_al = max_u64 alignment PAGE_SIZE_4K;
                phys_alignment = (if req_al \<le> 0xFFFFFFFF then ucast req_al else ucast PAGE_SIZE_4K) in
            Some (grow_bytes, ucast page_count64, phys_alignment))"

definition expand :: "kmemory \<Rightarrow> u64 \<Rightarrow> u64 \<Rightarrow> (kmemory \<times> bool) option" where
  "expand km sz alignment =
     (case expand_request sz alignment of
        None \<Rightarrow> Some (km, False)
      | Some (grow_bytes, page_count, phys_alignment) \<Rightarrow>
          do {
            (pa, phys) \<leftarrow> allocate_pages (km_phys km) page_count phys_alignment 0;
            let km = km\<lparr>km_phys := pa\<rparr>;
            if phys = 0 then Some (km, False)
            else do {
              let kh = (km_heap km)\<lparr>kh_mem := mem_set (kh_mem (km_heap km)) phys 0 grow_bytes\<rparr>;
              (kh, st) \<leftarrow> add_region kh phys grow_bytes;
              let km = km\<lparr>km_heap := kh\<rparr>;
              if st \<noteq> success then do {
                pa \<leftarrow> free_pages (km_phys km) phys page_count;
                Some (km\<lparr>km_phys := pa\<rparr>, False)
              } else Some (km, True)
            }
          })"

section \<open>Allocation\<close>

partial_function (option) find_heap_block :: "(u64 \<Rightarrow> heap_block) \<Rightarrow> u64 \<Rightarrow> u64 \<Rightarrow> u64 option" where
  "find_heap_block hdr block sz =
     (if block = 0 then Some 0
      else if \<not> hb_used (hdr block) \<and> hb_size (hdr block) \<ge> sz then Some block
      else find_heap_block hdr (hb_next (hdr block)) sz)"

declare find_heap_block.simps [code]

text \<open>What \<open>allocate\<close> does to the block it found: mark it used and split off the rest.\<close>

definition take_block :: "(u64 \<Rightarrow> heap_block) \<Rightarrow> u64 \<Rightarrow> u64 \<Rightarrow> u64 \<Rightarrow> heap_block" where
  "take_block hdr block sz =
     (let hdr = hdr_upd block (hb_used_update (\<lambda>_. True)) hdr in
      if hb_size (hdr block) > sz + sizeof_heap_block + HEAP_MIN_SPLIT_DATA_SIZE then
        let new_block = block + sizeof_heap_block + sz;
            hdr = hdr(new_block := \<lparr>hb_size = hb_size (hdr block) - sz - sizeof_heap_block,
                                    hb_used = False, hb_next = hb_next (hdr block), hb_prev = block\<rparr>);
            hdr = set_prev (hb_next (hdr block)) new_block hdr
        in hdr_upd block (\<lambda>b. b\<lparr>hb_next := new_block, hb_size := sz\<rparr>) hdr
      else hdr)"

partial_function (option) allocate_loop :: "kmemory \<Rightarrow> u64 \<Rightarrow> (kmemory \<times> u64) option" where
  "allocate_loop km sz =
     do {
       let kh = km_heap km;
       block \<leftarrow> find_heap_block (kh_hdr kh) (kh_free_list kh) sz;
       if block \<noteq> 0 then
         Some (km\<lparr>km_heap := kh\<lparr>kh_hdr := take_block (kh_hdr kh) block sz\<rparr>\<rparr>, hb_data block)
       else if \<not> kh_expanding kh then
         do {
           (km, expanded) \<leftarrow> expand (km\<lparr>km_heap := kh\<lparr>kh_expanding := True\<rparr>\<rparr>) sz HEAP_MIN_ALIGNMENT;
           let km = km\<lparr>km_heap := (km_heap km)\<lparr>kh_expanding := False\<rparr>\<rparr>;
           if \<not> expanded then Some (km, 0) else allocate_loop km sz
         }
       else allocate_loop km sz
     }"

declare allocate_loop.simps [code]

definition kh_allocate :: "kmemory \<Rightarrow> u64 \<Rightarrow> (kmemory \<times> u64) option" where
  "kh_allocate km sz =
     (if sz = 0 then Some (km, 0) else allocate_loop km (align_up sz HEAP_MIN_ALIGNMENT))"

definition allocate_zero :: "kmemory \<Rightarrow> u64 \<Rightarrow> (kmemory \<times> u64) option" where
  "allocate_zero km sz =
     do {
       (km, ptr) \<leftarrow> kh_allocate km sz;
       if ptr \<noteq> 0 then
         Some (km\<lparr>km_heap := (km_heap km)\<lparr>kh_mem := mem_set (kh_mem (km_heap km)) ptr 0 sz\<rparr>\<rparr>, ptr)
       else Some (km, ptr)
     }"

text \<open>The inner loop of \<open>find_aligned_heap_block\<close>.\<close>

partial_function (option) aligned_probe ::
  "u64 \<Rightarrow> u64 \<Rightarrow> u64 \<Rightarrow> u64 \<Rightarrow> u64 \<Rightarrow> u64 \<Rightarrow> u64 option" where
  "aligned_probe block_addr data_start block_end sz alignment aligned_data =
     (let used_header_addr = aligned_data - sizeof_heap_block in
      if used_header_addr = block_addr then Some aligned_data
      else if used_header_addr \<ge> data_start \<and> used_header_addr - data_start \<ge> HEAP_MIN_SPLIT_DATA_SIZE
      then Some aligned_data
      else if aligned_data + sz > block_end then Some aligned_data
      else aligned_probe block_addr data_start block_end sz alignment (aligned_data + alignment))"

declare aligned_probe.simps [code]

record aligned_heap_candidate =
  ac_block :: u64
  ac_aligned_data :: u64
  ac_used_header_addr :: u64
  ac_prefix_data_size :: u64
  ac_suffix_total :: u64

partial_function (option) find_aligned_heap_block ::
  "(u64 \<Rightarrow> heap_block) \<Rightarrow> u64 \<Rightarrow> u64 \<Rightarrow> u64 \<Rightarrow> aligned_heap_candidate option" where
  "find_aligned_heap_block hdr block sz alignment =
     (if block = 0 then Some \<lparr>ac_block = 0, ac_aligned_data = 0, ac_used_header_addr = 0,
                              ac_prefix_data_size = 0, ac_suffix_total = 0\<rparr>
      else if hb_used (hdr block) then find_aligned_heap_block hdr (hb_next (hdr block)) sz alignment
      else
        do {
          let data_start = block + sizeof_heap_block;
          let block_end = data_start + hb_size (hdr block);
          aligned_data \<leftarrow> aligned_probe block data_start block_end sz alignment (align_up data_start alignment);
          let used_header_addr = aligned_data - sizeof_heap_block;
          if aligned_data < data_start \<or> used_header_addr < block \<or> aligned_data + sz > block_end
          then find_aligned_heap_block hdr (hb_next (hdr block)) sz alignment
          else Some \<lparr>ac_block = block, ac_aligned_data = aligned_data,
                     ac_used_header_addr = used_header_addr,
                     ac_prefix_data_size = used_header_addr - data_start,
                     ac_suffix_total = block_end - (aligned_data + sz)\<rparr>
        })"

declare find_aligned_heap_block.simps [code]

text \<open>What \<open>allocate_zero_aligned\<close> does to the headers once it has a candidate.\<close>

definition take_aligned :: "(u64 \<Rightarrow> heap_block) \<Rightarrow> aligned_heap_candidate \<Rightarrow> u64 \<Rightarrow> u64 \<Rightarrow> heap_block" where
  "take_aligned hdr fit sz =
     (let block = ac_block fit;
          old_next = hb_next (hdr block);
          whole = (ac_prefix_data_size fit = 0 \<and> ac_used_header_addr fit = block);
          used_block = (if whole then block else ac_used_header_addr fit);
          hdr = (if whole then hdr
                 else
                   let hdr = hdr_upd block (hb_size_update (\<lambda>_. ac_prefix_data_size fit)) hdr;
                       hdr = hdr_upd used_block (\<lambda>b. b\<lparr>hb_prev := block, hb_next := old_next\<rparr>) hdr;
                       hdr = hdr_upd block (hb_next_update (\<lambda>_. used_block)) hdr
                   in set_prev old_next used_block hdr);
          hdr = hdr_upd used_block (hb_used_update (\<lambda>_. True)) hdr in
      if ac_suffix_total fit > sizeof_heap_block + HEAP_MIN_SPLIT_DATA_SIZE then
        let suffix = ac_aligned_data fit + sz;
            hdr = hdr(suffix := \<lparr>hb_size = ac_suffix_total fit - sizeof_heap_block, hb_used = False,
                                 hb_next = old_next, hb_prev = used_block\<rparr>);
            hdr = hdr_upd used_block (\<lambda>b. b\<lparr>hb_size := sz, hb_next := suffix\<rparr>) hdr
        in set_prev old_next suffix hdr
      else
        let hdr = hdr_upd used_block (\<lambda>b. b\<lparr>hb_size := sz + ac_suffix_total fit, hb_next := old_next\<rparr>) hdr
        in set_prev old_next used_block hdr)"

partial_function (option) aligned_loop :: "kmemory \<Rightarrow> u64 \<Rightarrow> u64 \<Rightarrow> (kmemory \<times> u64) option" where
  "aligned_loop km sz alignment =
     do {
       let kh = km_heap km;
       fit \<leftarrow> find_aligned_heap_block (kh_hdr kh) (kh_free_list kh) sz alignment;
       if ac_block fit \<noteq> 0 then
         Some (km\<lparr>km_heap := kh\<lparr>kh_hdr := take_aligned (kh_hdr kh) fit sz,
                                kh_mem := mem_set (kh_mem kh) (ac_aligned_data fit) 0 sz\<rparr>\<rparr>,
               ac_aligned_data fit)
       else if \<not> kh_expanding kh then
         do {
           (km, expanded) \<leftarrow> expand (km\<lparr>km_heap := kh\<lparr>kh_expanding := True\<rparr>\<rparr>) sz alignment;
           let km = km\<lparr>km_heap := (km_heap km)\<lparr>kh_expanding := False\<rparr>\<rparr>;
           if \<not> expanded then Some (km, 0) else aligned_loop km sz alignment
         }
       else aligned_loop km sz alignment
     }"

declare aligned_loop.simps [code]

definition allocate_zero_aligned :: "kmemory \<Rightarrow> u64 \<Rightarrow> u64 \<Rightarrow> (kmemory \<times> u64) option" where
  "allocate_zero_aligned km sz alignment =
     (if sz = 0 then Some (km, 0)
      else if alignment \<le> HEAP_MIN_ALIGNMENT then allocate_zero km sz
      else if alignment AND (alignment - 1) \<noteq> 0 then Some (km, 0)
      else aligned_loop km (align_up sz HEAP_MIN_ALIGNMENT) alignment)"

section \<open>Release\<close>

definition release_block :: "(u64 \<Rightarrow> heap_block) \<Rightarrow> u64 \<Rightarrow> u64 \<Rightarrow> heap_block" where
  "release_block hdr block =
     (let hdr = hdr_upd block (hb_used_update (\<lambda>_. False)) hdr;
          hdr = (if absorbs_next hdr block then absorb block (hb_next (hdr block)) hdr else hdr)
      in if absorbs_prev hdr block then absorb (hb_prev (hdr block)) block hdr else hdr)"

definition kh_free :: "kmemory \<Rightarrow> u64 \<Rightarrow> kmemory" where
  "kh_free km ptr =
     (if ptr = 0 then km
      else km\<lparr>km_heap := (km_heap km)\<lparr>kh_hdr :=
                release_block (kh_hdr (km_heap km)) (ptr - sizeof_heap_block)\<rparr>\<rparr>)"

section \<open>The memory subsystem\<close>

text \<open>
  \<open>memory::init\<close>: \<open>heap_base\<close> is the address the linker gives \<open>g_initial_kernel_heap\<close>.
\<close>

definition memory_init :: "u64 \<Rightarrow> kmemory \<Rightarrow> memory_map_entry list \<Rightarrow> kmemory \<times> status_code" where
  "memory_init heap_base km mmap =
     (if mmap = [] then (km, invalid_param)
      else
        let km = km\<lparr>km_map := take max_memory_map_entries mmap\<rparr>;
            (pa, status) = pa_init (km_phys km) mmap;
            km = km\<lparr>km_phys := pa\<rparr> in
        if status \<noteq> success then (km, status)
        else
          let kh = (km_heap km)\<lparr>kh_mem := mem_set (kh_mem (km_heap km)) heap_base 0 initial_kernel_heap_size\<rparr>;
              (kh, st) = kh_init kh heap_base initial_kernel_heap_size;
              km = km\<lparr>km_heap := kh\<rparr> in
          if st \<noteq> success then (km, no_memory) else (km, success))"

definition find_entry :: "kmemory \<Rightarrow> u64 \<Rightarrow> nat option" where
  "find_entry km addr = first_index (\<lambda>e. entry_contains e addr) (km_map km)"

end
