(* ===== verification/KHeapInv.thy ===== *)
theory KHeapInv
  imports KHeap
begin

text \<open>
  The invariant of the kernel heap's block list and what the list operations do to
  it. \<open>kh_rel\<close> ties the headers to the list of block addresses reachable from
  \<open>free_list_\<close>: in address order, not overlapping, 16-byte aligned, with backward
  pointers that are right or point to the block itself. Every operation is shown
  to be a \<open>hb_splice\<close>, the replacement of a stretch of the list; \<open>used_in\<close> and
  \<open>cover\<close> follow the used blocks and the bytes of the list through it.
\<close>

section \<open>Invariant of the block list\<close>

abbreviation ptr :: "u64 \<Rightarrow> u64 option" where
  "ptr a \<equiv> (if a = 0 then None else Some a)"

abbreviation hb_succ :: "(u64 \<Rightarrow> heap_block) \<Rightarrow> u64 \<Rightarrow> u64 option" where
  "hb_succ hdr \<equiv> \<lambda>a. ptr (hb_next (hdr a))"

definition span_end :: "(u64 \<Rightarrow> heap_block) \<Rightarrow> u64 \<Rightarrow> nat" where
  "span_end hdr a = unat a + 32 + unat (hb_size (hdr a))"

definition hb_ok :: "(u64 \<Rightarrow> heap_block) \<Rightarrow> u64 \<Rightarrow> bool" where
  "hb_ok hdr a \<longleftrightarrow> a \<noteq> 0 \<and> 16 dvd unat a \<and> 16 dvd unat (hb_size (hdr a)) \<and> span_end hdr a \<le> 2 ^ 52"

definition hb_before :: "(u64 \<Rightarrow> heap_block) \<Rightarrow> u64 \<Rightarrow> u64 \<Rightarrow> bool" where
  "hb_before hdr a b \<longleftrightarrow> span_end hdr a \<le> unat b"

text \<open>
  The backward pointers: each node points to its predecessor, or to itself, which is
  what \<open>allocate_zero_aligned\<close> leaves behind when the aligned data starts the block.
\<close>

fun prev_ok :: "(u64 \<Rightarrow> heap_block) \<Rightarrow> u64 \<Rightarrow> u64 list \<Rightarrow> bool" where
  "prev_ok hdr p [] \<longleftrightarrow> True"
| "prev_ok hdr p (a # as) \<longleftrightarrow> (hb_prev (hdr a) = p \<or> hb_prev (hdr a) = a) \<and> prev_ok hdr a as"

definition kh_rel :: "(u64 \<Rightarrow> heap_block) \<Rightarrow> u64 \<Rightarrow> u64 list \<Rightarrow> bool" where
  "kh_rel hdr fl ns \<longleftrightarrow> chain (hb_succ hdr) (ptr fl) ns None \<and> (\<forall>a \<in> set ns. hb_ok hdr a) \<and>
     sorted_wrt (hb_before hdr) ns \<and> prev_ok hdr 0 ns"

lemma prev_ok_append:
  "prev_ok hdr p (xs @ ys) \<longleftrightarrow> prev_ok hdr p xs \<and> prev_ok hdr (last (p # xs)) ys"
  by (induction xs arbitrary: p) auto

lemma prev_ok_cong: "(\<And>a. a \<in> set xs \<Longrightarrow> hb_prev (hdr' a) = hb_prev (hdr a)) \<Longrightarrow> prev_ok hdr' p xs = prev_ok hdr p xs"
  by (induction xs arbitrary: p) auto

lemma kh_rel_distinct: "kh_rel hdr fl ns \<Longrightarrow> distinct ns"
  by (auto simp: kh_rel_def intro: chain_None_distinct)

lemma kh_rel_unique: "kh_rel hdr fl ns \<Longrightarrow> kh_rel hdr fl ms \<Longrightarrow> ns = ms"
  by (auto simp: kh_rel_def intro: chain_None_unique)

text \<open>Every update of the list replaces a stretch \<open>mid\<close> by \<open>mid'\<close> with the same first node.\<close>

definition hb_splice :: "(u64 \<Rightarrow> heap_block) \<Rightarrow> u64 list \<Rightarrow> u64 \<Rightarrow> u64 list \<Rightarrow> u64 list \<Rightarrow> (u64 \<Rightarrow> heap_block) \<Rightarrow> bool" where
  "hb_splice hdr xs m new ys hdr' \<longleftrightarrow>
     (\<forall>a \<in> set xs. hdr' a = hdr a) \<and>
     (\<forall>a \<in> set ys. hb_size (hdr' a) = hb_size (hdr a) \<and> hb_used (hdr' a) = hb_used (hdr a) \<and>
        hb_next (hdr' a) = hb_next (hdr a)) \<and>
     (\<forall>a \<in> set (tl ys). hdr' a = hdr a) \<and>
     (ys \<noteq> [] \<longrightarrow> hb_prev (hdr' (hd ys)) = last (m # new) \<or> hb_prev (hdr' (hd ys)) = hd ys) \<and>
     chain (hb_succ hdr') (Some m) (m # new) (case ys of [] \<Rightarrow> None | y # _ \<Rightarrow> Some y) \<and>
     (\<forall>a \<in> set (m # new). hb_ok hdr' a \<and> unat m \<le> unat a \<and> (ys \<noteq> [] \<longrightarrow> hb_before hdr' a (hd ys))) \<and>
     sorted_wrt (hb_before hdr') (m # new) \<and> prev_ok hdr' (last (0 # xs)) (m # new)"

lemma kh_rel_splice:
  assumes rel: "kh_rel hdr fl (xs @ m # mid @ ys)" and sp: "hb_splice hdr xs m new ys hdr'"
  shows "kh_rel hdr' fl (xs @ m # new @ ys)"
proof -
  have ch: "chain (hb_succ hdr) (ptr fl) xs (Some m)"
    using rel by (auto simp: kh_rel_def chain_append)
  have ch_ys: "chain (hb_succ hdr) (case ys of [] \<Rightarrow> None | y # _ \<Rightarrow> Some y) ys None"
    using rel by (cases ys) (auto simp: kh_rel_def chain_append)
  have ex: "\<And>a. a \<in> set xs \<Longrightarrow> hdr' a = hdr a"
    and ey: "\<And>a. a \<in> set ys \<Longrightarrow> hb_size (hdr' a) = hb_size (hdr a) \<and> hb_next (hdr' a) = hb_next (hdr a)"
    using sp by (auto simp: hb_splice_def)
  have "chain (hb_succ hdr') (ptr fl) xs (Some m)"
    using ch chain_cong [of xs "hb_succ hdr'" "hb_succ hdr"] ex by simp
  moreover have "chain (hb_succ hdr') (case ys of [] \<Rightarrow> None | y # _ \<Rightarrow> Some y) ys None"
    using ch_ys chain_cong [of ys "hb_succ hdr'" "hb_succ hdr"] ey by simp
  ultimately have chain': "chain (hb_succ hdr') (ptr fl) (xs @ (m # new) @ ys) None"
    using sp unfolding chain_append hb_splice_def by blast
  have srt0: "sorted_wrt (hb_before hdr) (xs @ m # mid @ ys)" using rel by (simp add: kh_rel_def)
  have se: "span_end hdr' a = span_end hdr a" if "a \<in> set xs \<union> set ys" for a
    using that ex ey by (auto simp: span_end_def)
  have ok: "hb_ok hdr' a" if "a \<in> set (xs @ (m # new) @ ys)" for a
  proof (cases "a \<in> set (m # new)")
    case True
    then show ?thesis using sp unfolding hb_splice_def by blast
  next
    case False
    then have "a \<in> set xs \<union> set ys" using that by auto
    moreover have "hb_ok hdr a" using rel calculation by (auto simp: kh_rel_def)
    ultimately show ?thesis using se [of a] ex [of a] ey [of a] unfolding hb_ok_def by auto
  qed
  have xs_m: "hb_before hdr a m" if "a \<in> set xs" for a using srt0 that by (auto simp: sorted_wrt_append)
  have srtm: "sorted_wrt (hb_before hdr') (m # new)" using sp by (simp add: hb_splice_def)
  have s1: "sorted_wrt (hb_before hdr') xs" "sorted_wrt (hb_before hdr') ys"
    using srt0 se by (auto simp: sorted_wrt_append hb_before_def elim!: sorted_wrt_cong_on)
  have s2: "hb_before hdr' a b" if "a \<in> set xs" "b \<in> set (m # new)" for a b
    using xs_m [OF that(1)] sp that se [of a] by (auto simp: hb_before_def hb_splice_def)
  have s3: "hb_before hdr' a b" if "a \<in> set xs" "b \<in> set ys" for a b
    using srt0 that se [of a] by (auto simp: sorted_wrt_append hb_before_def)
  have s4: "hb_before hdr' a b" if "a \<in> set (m # new)" "b \<in> set ys" for a b
  proof (cases ys)
    case (Cons y zs)
    have "span_end hdr' a \<le> unat y" using sp that(1) Cons by (auto simp: hb_splice_def hb_before_def)
    moreover have "b \<in> set zs \<Longrightarrow> hb_before hdr y b" using srt0 Cons by (auto simp: sorted_wrt_append)
    ultimately show ?thesis using that(2) Cons by (auto simp: hb_before_def span_end_def)
  qed (use that in auto)
  have "sorted_wrt (hb_before hdr') (xs @ (m # new) @ ys)"
    using s1 s2 s3 s4 srtm unfolding sorted_wrt_append set_append by blast
  moreover have "prev_ok hdr' 0 (xs @ (m # new) @ ys)"
  proof -
    have "prev_ok hdr' 0 xs" using rel prev_ok_cong [of xs hdr' hdr] ex by (auto simp: kh_rel_def prev_ok_append)
    moreover have "prev_ok hdr' (last (m # new)) ys"
    proof (cases ys)
      case (Cons y zs)
      have "prev_ok hdr y zs" using rel Cons by (auto simp: kh_rel_def prev_ok_append)
      then have "prev_ok hdr' y zs" using prev_ok_cong [of zs hdr' hdr] sp Cons by (auto simp: hb_splice_def)
      then show ?thesis using sp Cons by (auto simp: hb_splice_def)
    qed simp
    ultimately show ?thesis using sp by (auto simp: hb_splice_def prev_ok_append)
  qed
  ultimately show ?thesis using chain' ok unfolding kh_rel_def by simp
qed

lemma kh_rel_node:
  assumes "kh_rel hdr fl (xs @ m # ys)"
  shows "hb_ok hdr m" and "hb_next (hdr m) = (case ys of [] \<Rightarrow> 0 | y # _ \<Rightarrow> y)"
    and "hb_prev (hdr m) = last (0 # xs) \<or> hb_prev (hdr m) = m"
    and "m \<notin> set xs" "m \<notin> set ys" "ys \<noteq> [] \<Longrightarrow> hd ys \<noteq> 0 \<and> hb_before hdr m (hd ys)"
proof -
  show "hb_ok hdr m" using assms by (simp add: kh_rel_def)
  show "hb_prev (hdr m) = last (0 # xs) \<or> hb_prev (hdr m) = m" using assms by (auto simp: kh_rel_def prev_ok_append)
  show "m \<notin> set xs" "m \<notin> set ys" using kh_rel_distinct [OF assms] by auto
  have ch: "chain (hb_succ hdr) (hb_succ hdr m) ys None" using assms by (auto simp: kh_rel_def chain_append)
  show "hb_next (hdr m) = (case ys of [] \<Rightarrow> 0 | y # _ \<Rightarrow> y)"
    using ch by (cases ys) (auto split: if_splits)
  show "hd ys \<noteq> 0 \<and> hb_before hdr m (hd ys)" if "ys \<noteq> []"
    using that assms by (cases ys) (auto simp: kh_rel_def hb_ok_def sorted_wrt_append)
qed

lemma inside_fresh:
  assumes rel: "kh_rel hdr fl (xs @ m # ys)" and a: "unat m < unat a" "unat a < span_end hdr m"
  shows "a \<notin> set (xs @ m # ys)"
proof
  assume "a \<in> set (xs @ m # ys)"
  then consider "a \<in> set xs" | "a = m" | "a \<in> set ys" by auto
  then show False
  proof cases
    case 1
    then have "hb_before hdr a m" using rel by (auto simp: kh_rel_def sorted_wrt_append)
    then show False using a by (simp add: hb_before_def span_end_def)
  next
    case 2
    then show False using a by simp
  next
    case 3
    then have "hb_before hdr m a" using rel by (auto simp: kh_rel_def sorted_wrt_append)
    then show False using a by (simp add: hb_before_def)
  qed
qed

text \<open>
  The frame of an update: nodes outside \<open>m # new\<close> keep their headers, apart from the
  backward pointer of the node that follows.
\<close>

definition hb_frame :: "(u64 \<Rightarrow> heap_block) \<Rightarrow> u64 list \<Rightarrow> u64 list \<Rightarrow> (u64 \<Rightarrow> heap_block) \<Rightarrow> bool" where
  "hb_frame hdr ms ys hdr' \<longleftrightarrow>
     (\<forall>a. a \<notin> set ms \<longrightarrow> a \<noteq> (case ys of [] \<Rightarrow> 0 | y # _ \<Rightarrow> y) \<longrightarrow> hdr' a = hdr a) \<and>
     (ys \<noteq> [] \<longrightarrow> hdr' (hd ys) = hdr (hd ys) \<or> hdr' (hd ys) = (hdr (hd ys))\<lparr>hb_prev := last ms\<rparr>)"

lemma hb_spliceI:
  assumes rel: "kh_rel hdr fl (xs @ m # mid @ ys)" and fr: "hb_frame hdr (m # new) ys hdr'"
    and fresh: "set new \<inter> (set xs \<union> set ys) = {}"
    and prv: "ys \<noteq> [] \<Longrightarrow> hb_prev (hdr' (hd ys)) = last (m # new) \<or> hb_prev (hdr' (hd ys)) = hd ys"
    and ch: "chain (hb_succ hdr') (Some m) (m # new) (case ys of [] \<Rightarrow> None | y # _ \<Rightarrow> Some y)"
    and ok: "\<And>a. a \<in> set (m # new) \<Longrightarrow> hb_ok hdr' a \<and> unat m \<le> unat a \<and> (ys \<noteq> [] \<longrightarrow> hb_before hdr' a (hd ys))"
    and srt: "sorted_wrt (hb_before hdr') (m # new)" and pok: "prev_ok hdr' (last (0 # xs)) (m # new)"
  shows "hb_splice hdr xs m new ys hdr'"
proof -
  have d: "distinct (xs @ m # mid @ ys)" using rel by (rule kh_rel_distinct)
  have nz: "0 \<notin> set (xs @ m # mid @ ys)" using rel by (auto simp: kh_rel_def hb_ok_def)
  have same: "hdr' a = hdr a" if "a \<in> set xs \<union> set (tl ys)" for a
    using that fr d fresh nz by (cases ys) (auto simp: hb_frame_def)
  have hd: "hb_size (hdr' a) = hb_size (hdr a) \<and> hb_used (hdr' a) = hb_used (hdr a) \<and> hb_next (hdr' a) = hb_next (hdr a)"
    if "a \<in> set ys" for a
    using that fr same [of a] by (cases ys) (auto simp: hb_frame_def)
  show ?thesis unfolding hb_splice_def using same hd prv ch ok srt pok by auto
qed

lemma set_prev_simps:
  "hb_size (set_prev n p hdr a) = hb_size (hdr a)" "hb_used (set_prev n p hdr a) = hb_used (hdr a)"
  "hb_next (set_prev n p hdr a) = hb_next (hdr a)"
  "hb_prev (set_prev n p hdr a) = (if n \<noteq> 0 \<and> a = n then p else hb_prev (hdr a))"
  "a \<noteq> n \<Longrightarrow> set_prev n p hdr a = hdr a" "set_prev 0 p hdr = hdr"
  "n \<noteq> 0 \<Longrightarrow> set_prev n p hdr n = (hdr n)\<lparr>hb_prev := p\<rparr>"
  by (auto simp: set_prev_def)

lemma unat_hdr32 [simp]: "unat (sizeof_heap_block) = 32"
  by (simp add: sizeof_heap_block_def)

lemma dvd_unat_add:
  fixes a b :: u64
  assumes "(16::nat) dvd unat a" "16 dvd unat b" "unat a + unat b < 2 ^ 64" shows "16 dvd unat (a + b)"
  using assms by (simp add: unat_plus64)

lemma take_block_splice:
  assumes rel: "kh_rel hdr fl (xs @ m # ys)" and fit: "unat sz \<le> unat (hb_size (hdr m))" and al: "16 dvd unat sz"
  shows "\<exists>new. hb_splice hdr xs m new ys (take_block hdr m sz) \<and> hb_used (take_block hdr m sz m) \<and>
     unat sz \<le> unat (hb_size (take_block hdr m sz m)) \<and> (\<forall>a \<in> set new. \<not> hb_used (take_block hdr m sz a)) \<and>
     set new \<inter> (set xs \<union> set ys) = {} \<and>
     (\<forall>a \<in> set (m # new). unat m \<le> unat a \<and> span_end (take_block hdr m sz) a \<le> span_end hdr m)"
    (is "\<exists>new. ?P new")
proof (cases "hb_size (hdr m) > sz + sizeof_heap_block + HEAP_MIN_SPLIT_DATA_SIZE")
  case False
  then have tb: "take_block hdr m sz = hdr_upd m (hb_used_update (\<lambda>_. True)) hdr"
    by (simp add: take_block_def)
  note N = kh_rel_node [OF rel]
  have "hb_splice hdr xs m [] ys (take_block hdr m sz)"
  proof (rule hb_spliceI [where mid = "[]"])
    show "kh_rel hdr fl (xs @ m # [] @ ys)" using rel by simp
    show "hb_frame hdr [m] ys (take_block hdr m sz)" using N(5) by (cases ys) (auto simp: tb hb_frame_def)
    show "hb_prev (take_block hdr m sz (hd ys)) = last [m] \<or> hb_prev (take_block hdr m sz (hd ys)) = hd ys" if "ys \<noteq> []"
      using rel that N(5) by (cases ys) (auto simp: tb kh_rel_def prev_ok_append)
    show "chain (hb_succ (take_block hdr m sz)) (Some m) [m] (case ys of [] \<Rightarrow> None | y # _ \<Rightarrow> Some y)"
      using N(2) N(6) by (cases ys) (auto simp: tb)
    fix a assume "a \<in> set [m]"
    then show "hb_ok (take_block hdr m sz) a \<and> unat m \<le> unat a \<and> (ys \<noteq> [] \<longrightarrow> hb_before (take_block hdr m sz) a (hd ys))"
      using N(1,6) by (auto simp: tb hb_ok_def span_end_def hb_before_def)
  qed (use N(3) in \<open>auto simp: tb\<close>)
  then show ?thesis using fit by (intro exI [of _ "[]"]) (simp add: tb span_end_def)
next
  case True
  let ?s = "hb_size (hdr m)" and ?nb = "m + sizeof_heap_block + sz" and ?nx = "hb_next (hdr m)"
  note N = kh_rel_node [OF rel]
  have m52: "unat m + 32 + unat ?s \<le> 2 ^ 52" "m \<noteq> 0" "16 dvd unat m" "16 dvd unat ?s"
    using N(1) by (auto simp: hb_ok_def span_end_def)
  have "unat (sz + sizeof_heap_block + HEAP_MIN_SPLIT_DATA_SIZE) = unat sz + 48"
    using fit m52 by (simp add: unat_plus64 HEAP_MIN_SPLIT_DATA_SIZE_def)
  then have big: "unat sz + 48 < unat ?s" using True by (simp add: word_less_nat_alt)
  have nb: "unat ?nb = unat m + 32 + unat sz" using m52 fit by (simp add: unat_plus64)
  have ns: "unat (?s - sz - sizeof_heap_block) = unat ?s - unat sz - 32"
    using big by (simp add: unat_minus_nw)
  have nb0: "?nb \<noteq> 0" using nb by (metis add_gr_0 add.commute unsigned_0 less_numeral_extra(3) zero_less_numeral)
  define hdr' where "hdr' = take_block hdr m sz"
  have "unat ?nb \<noteq> unat m" using nb by linarith
  then have nbm: "?nb \<noteq> m" by metis
  have fresh: "?nb \<notin> set (xs @ m # ys)"
    by (rule inside_fresh [OF rel]) (use nb big in \<open>auto simp: span_end_def\<close>)
  then have nxn: "?nx \<noteq> ?nb \<or> ?nx = 0" using N(2) by (cases ys) auto
  have nxm: "?nx \<noteq> m" using N(2,5) m52(2) by (cases ys) auto
  define h1 where "h1 = (hdr_upd m (hb_used_update (\<lambda>_. True)) hdr)(?nb := \<lparr>hb_size = ?s - sz - sizeof_heap_block,
      hb_used = False, hb_next = ?nx, hb_prev = m\<rparr>)"
  have h': "hdr' = hdr_upd m (\<lambda>b. b\<lparr>hb_next := ?nb, hb_size := sz\<rparr>) (set_prev ?nx ?nb h1)"
    unfolding hdr'_def take_block_def h1_def using True nbm by (simp add: Let_def)
  have at_m: "hdr' m = (hdr m)\<lparr>hb_used := True, hb_next := ?nb, hb_size := sz\<rparr>"
    using nbm nxm by (simp add: h' h1_def set_prev_simps)
  have at_nb: "hdr' ?nb = \<lparr>hb_size = ?s - sz - sizeof_heap_block, hb_used = False, hb_next = ?nx, hb_prev = m\<rparr>"
    using nbm nxn by (auto simp: h' h1_def set_prev_def)
  have else_: "hdr' a = (if a = ?nx \<and> ?nx \<noteq> 0 then (hdr a)\<lparr>hb_prev := ?nb\<rparr> else hdr a)" if "a \<noteq> m" "a \<noteq> ?nb" for a
    using that by (auto simp: h' h1_def set_prev_def)
  have "hb_splice hdr xs m [?nb] ys hdr'"
  proof (rule hb_spliceI [where mid = "[]"])
    show "kh_rel hdr fl (xs @ m # [] @ ys)" using rel by simp
    show "set [?nb] \<inter> (set xs \<union> set ys) = {}" using fresh by auto
    show "hb_frame hdr [m, ?nb] ys hdr'"
      using N(2,5,6) fresh else_ by (cases ys) (auto simp: hb_frame_def)
    show "hb_prev (hdr' (hd ys)) = last [m, ?nb] \<or> hb_prev (hdr' (hd ys)) = hd ys" if "ys \<noteq> []"
      using that N(2,5,6) fresh else_ by (cases ys) auto
    show "chain (hb_succ hdr') (Some m) [m, ?nb] (case ys of [] \<Rightarrow> None | y # _ \<Rightarrow> Some y)"
      using N(2,6) nb0 at_m at_nb by (cases ys) auto
    have sm: "span_end hdr' m = unat m + 32 + unat sz" and sn: "span_end hdr' ?nb = span_end hdr m"
      using at_m at_nb nb ns big by (auto simp: span_end_def)
    have "16 dvd unat ?nb" using nb m52(3) al by simp
    moreover have "16 dvd unat (hb_size (hdr' ?nb))" using at_nb ns m52(4) al big by (simp add: dvd_diff_nat)
    moreover have "16 dvd unat (hb_size (hdr' m))" using at_m al by simp
    ultimately have okk: "hb_ok hdr' m" "hb_ok hdr' ?nb"
      using sm sn m52 nb0 big by (auto simp: hb_ok_def span_end_def)
    fix a assume "a \<in> set [m, ?nb]"
    then show "hb_ok hdr' a \<and> unat m \<le> unat a \<and> (ys \<noteq> [] \<longrightarrow> hb_before hdr' a (hd ys))"
      using okk sm sn nb N(6) big by (auto simp: hb_before_def span_end_def)
  next
    show "sorted_wrt (hb_before hdr') [m, ?nb]" using at_m nb by (simp add: hb_before_def span_end_def)
    show "prev_ok hdr' (last (0 # xs)) [m, ?nb]" using N(3) at_m at_nb by auto
  qed
  moreover have "\<forall>a \<in> set [m, ?nb]. unat m \<le> unat a \<and> span_end hdr' a \<le> span_end hdr m"
    using at_m at_nb nb ns big by (auto simp: span_end_def)
  ultimately show ?thesis using at_m at_nb fresh unfolding hdr'_def by (intro exI [of _ "[?nb]"]) auto
qed

text \<open>The used blocks of a list and the bytes it covers, headers included.\<close>

definition used_in :: "(u64 \<Rightarrow> heap_block) \<Rightarrow> u64 list \<Rightarrow> (u64 \<times> u64) set" where
  "used_in hdr ns = {(a, hb_size (hdr a)) | a. a \<in> set ns \<and> hb_used (hdr a)}"

definition cover :: "(u64 \<Rightarrow> heap_block) \<Rightarrow> u64 list \<Rightarrow> nat set" where
  "cover hdr ns = (\<Union>a \<in> set ns. {unat a ..< span_end hdr a})"

lemma used_in_simps [simp]:
  "used_in hdr [] = {}"
  "used_in hdr (a # ns) = (if hb_used (hdr a) then {(a, hb_size (hdr a))} else {}) \<union> used_in hdr ns"
  "used_in hdr (xs @ ys) = used_in hdr xs \<union> used_in hdr ys"
  by (auto simp: used_in_def)

lemma cover_simps [simp]:
  "cover hdr [] = {}" "cover hdr (a # ns) = {unat a ..< span_end hdr a} \<union> cover hdr ns"
  "cover hdr (xs @ ys) = cover hdr xs \<union> cover hdr ys"
  by (auto simp: cover_def)

lemma splice_used:
  assumes "hb_splice hdr xs m new ys hdr'"
  shows "used_in hdr' (xs @ m # new @ ys) = used_in hdr xs \<union> used_in hdr' (m # new) \<union> used_in hdr ys"
proof -
  have "used_in hdr' xs = used_in hdr xs" "used_in hdr' ys = used_in hdr ys"
    using assms by (auto simp: used_in_def hb_splice_def)
  then show ?thesis by auto
qed

lemma splice_cover:
  assumes "hb_splice hdr xs m new ys hdr'"
  shows "cover hdr' (xs @ m # new @ ys) = cover hdr xs \<union> cover hdr' (m # new) \<union> cover hdr ys"
proof -
  have "cover hdr' xs = cover hdr xs" "cover hdr' ys = cover hdr ys"
    using assms by (auto simp: cover_def span_end_def hb_splice_def)
  then show ?thesis by auto
qed

lemma hb_end_iff:
  assumes "hb_ok hdr a" shows "hb_end hdr a = b \<longleftrightarrow> span_end hdr a = unat b"
proof -
  have "unat (hb_end hdr a) = span_end hdr a"
    using assms by (simp add: hb_end_def hb_ok_def span_end_def unat_plus64)
  then show ?thesis by (metis word_eq_unatI)
qed

lemma absorb_splice:
  assumes rel: "kh_rel hdr fl (xs @ a # b # ys)" and adj: "hb_end hdr a = b"
  shows "hb_splice hdr xs a [] ys (absorb a b hdr)"
    and "hb_used (absorb a b hdr a) = hb_used (hdr a)" and "span_end (absorb a b hdr) a = span_end hdr b"
proof -
  note A = kh_rel_node [OF rel] and B = kh_rel_node [of hdr fl "xs @ [a]" b ys, simplified, OF rel]
  have se: "span_end hdr a = unat b" using adj A(1) hb_end_iff by blast
  have ab: "a \<noteq> b" using A(5) by auto
  let ?sz = "hb_size (hdr a) + (hb_size (hdr b) + sizeof_heap_block)" and ?nx = "hb_next (hdr b)"
  have nxa: "?nx \<noteq> a" using B(2) A(1,5) by (cases ys) (auto simp: hb_ok_def)
  have h: "absorb a b hdr = set_prev ?nx a (hdr(a := (hdr a)\<lparr>hb_size := ?sz, hb_next := ?nx\<rparr>))"
    using ab by (auto simp: absorb_def Let_def)
  have szn: "unat ?sz = unat (hb_size (hdr a)) + unat (hb_size (hdr b)) + 32"
    using se B(1) by (simp add: hb_ok_def span_end_def unat_plus64)
  have at_a: "absorb a b hdr a = (hdr a)\<lparr>hb_size := ?sz, hb_next := ?nx\<rparr>"
    using nxa by (simp add: h set_prev_simps)
  have else_: "absorb a b hdr c = (if c = ?nx \<and> ?nx \<noteq> 0 then (hdr c)\<lparr>hb_prev := a\<rparr> else hdr c)" if "c \<noteq> a" for c
    using that by (auto simp: h set_prev_def)
  show "hb_used (absorb a b hdr a) = hb_used (hdr a)" by (simp add: at_a)
  show sp: "span_end (absorb a b hdr) a = span_end hdr b" using at_a szn se by (simp add: span_end_def)
  show "hb_splice hdr xs a [] ys (absorb a b hdr)"
  proof (rule hb_spliceI [where mid = "[b]"])
    show "kh_rel hdr fl (xs @ a # [b] @ ys)" using rel by simp
    show "hb_frame hdr [a] ys (absorb a b hdr)" using B(2) else_ A(5) by (cases ys) (auto simp: hb_frame_def)
    show "hb_prev (absorb a b hdr (hd ys)) = last [a] \<or> hb_prev (absorb a b hdr (hd ys)) = hd ys" if "ys \<noteq> []"
      using that B(2,6) else_ A(5) by (cases ys) auto
    show "chain (hb_succ (absorb a b hdr)) (Some a) [a] (case ys of [] \<Rightarrow> None | y # _ \<Rightarrow> Some y)"
      using B(2,6) at_a by (cases ys) auto
    have "16 dvd unat (hb_size (absorb a b hdr a))" using at_a szn A(1) B(1) by (simp add: hb_ok_def)
    then have "hb_ok (absorb a b hdr) a" using A(1) B(1) sp by (simp add: hb_ok_def)
    then show "\<And>c. c \<in> set [a] \<Longrightarrow> hb_ok (absorb a b hdr) c \<and> unat a \<le> unat c \<and> (ys \<noteq> [] \<longrightarrow> hb_before (absorb a b hdr) c (hd ys))"
      using B(6) sp by (simp add: hb_before_def)
  qed (use A(3) at_a in auto)
qed

lemma absorb_correct:
  assumes rel: "kh_rel hdr fl (xs @ a # b # ys)" and adj: "hb_end hdr a = b"
    and free: "\<not> hb_used (hdr a)" "\<not> hb_used (hdr b)"
  shows "kh_rel (absorb a b hdr) fl (xs @ a # ys)"
    and "used_in (absorb a b hdr) (xs @ a # ys) = used_in hdr (xs @ a # b # ys)"
    and "cover (absorb a b hdr) (xs @ a # ys) = cover hdr (xs @ a # b # ys)"
    and "\<not> hb_used (absorb a b hdr a)" and "unat (hb_size (hdr a)) \<le> unat (hb_size (absorb a b hdr a))"
proof -
  note S = absorb_splice [OF rel adj]
  note A = kh_rel_node [OF rel] and B = kh_rel_node [of hdr fl "xs @ [a]" b ys, simplified, OF rel]
  have se: "span_end hdr a = unat b" using adj A(1) hb_end_iff by blast
  show "kh_rel (absorb a b hdr) fl (xs @ a # ys)" using kh_rel_splice [of hdr fl xs a "[b]" ys "[]" "absorb a b hdr"] rel S(1) by simp
  show "\<not> hb_used (absorb a b hdr a)" using S(2) free by simp
  show "used_in (absorb a b hdr) (xs @ a # ys) = used_in hdr (xs @ a # b # ys)"
    using splice_used [OF S(1)] S(2) free by simp
  have "{unat a ..< span_end hdr b} = {unat a ..< span_end hdr a} \<union> {unat b ..< span_end hdr b}"
    using se by (auto simp: span_end_def)
  then show "cover (absorb a b hdr) (xs @ a # ys) = cover hdr (xs @ a # b # ys)"
    using splice_cover [OF S(1)] S(3) by auto
  show "unat (hb_size (hdr a)) \<le> unat (hb_size (absorb a b hdr a))"
    using S(3) se by (simp add: span_end_def)
qed

text \<open>The two coalescing steps of \<open>free\<close> and \<open>add_region\<close>, taken or not.\<close>

definition same_heap :: "u64 \<Rightarrow> (u64 \<Rightarrow> heap_block) \<Rightarrow> u64 list \<Rightarrow> (u64 \<Rightarrow> heap_block) \<Rightarrow> u64 list \<Rightarrow> bool" where
  "same_heap fl hdr ns hdr' ns' \<longleftrightarrow> kh_rel hdr' fl ns' \<and> used_in hdr' ns' = used_in hdr ns \<and> cover hdr' ns' = cover hdr ns"

lemma absorb_next_step:
  assumes rel: "kh_rel hdr fl (xs @ m # ys)" and free: "\<not> hb_used (hdr m)"
  defines "hdr' \<equiv> if absorbs_next hdr m then absorb m (hb_next (hdr m)) hdr else hdr"
  shows "\<exists>ys'. same_heap fl hdr (xs @ m # ys) hdr' (xs @ m # ys') \<and> \<not> hb_used (hdr' m) \<and>
    unat (hb_size (hdr m)) \<le> unat (hb_size (hdr' m))"
proof (cases "absorbs_next hdr m")
  case True
  note N = kh_rel_node [OF rel]
  from True have nz: "hb_next (hdr m) \<noteq> 0" and nf: "\<not> hb_used (hdr (hb_next (hdr m)))"
    and adj: "hb_end hdr m = hb_next (hdr m)" by (auto simp: absorbs_next_def Let_def)
  then obtain y zs where y: "ys = y # zs" "hb_next (hdr m) = y" using N(2) by (cases ys) auto
  then show ?thesis
    using True absorb_correct [of hdr fl xs m y zs] rel adj free nf
    by (intro exI [of _ zs]) (simp add: hdr'_def same_heap_def)
next
  case False
  then show ?thesis using rel free by (intro exI [of _ ys]) (simp add: hdr'_def same_heap_def)
qed

lemma absorb_prev_step:
  assumes rel: "kh_rel hdr fl (xs @ m # ys)" and free: "\<not> hb_used (hdr m)"
  shows "absorbs_prev hdr m \<Longrightarrow>
      \<exists>zs. xs = zs @ [hb_prev (hdr m)] \<and>
        same_heap fl hdr (xs @ m # ys) (absorb (hb_prev (hdr m)) m hdr) (zs @ hb_prev (hdr m) # ys) \<and>
        \<not> hb_used (absorb (hb_prev (hdr m)) m hdr (hb_prev (hdr m))) \<and>
        unat (hb_size (hdr m)) \<le> unat (hb_size (absorb (hb_prev (hdr m)) m hdr (hb_prev (hdr m))))"
proof -
  assume ap: "absorbs_prev hdr m"
  note N = kh_rel_node [OF rel]
  let ?p = "hb_prev (hdr m)"
  from ap have nz: "?p \<noteq> 0" and pf: "\<not> hb_used (hdr ?p)" and adj: "hb_end hdr ?p = m"
    by (auto simp: absorbs_prev_def Let_def)
  have "?p \<noteq> m"
  proof
    assume "?p = m"
    then have "span_end hdr m = unat m" using adj N(1) hb_end_iff [of hdr m m] by simp
    then show False by (simp add: span_end_def)
  qed
  then have "?p = last (0 # xs)" using N(3) by blast
  then obtain zs where zs: "xs = zs @ [?p]" using nz by (cases xs rule: rev_cases) auto
  have rel': "kh_rel hdr fl (zs @ ?p # m # ys)"
    using rel unfolding arg_cong [OF zs, of "\<lambda>l. l @ m # ys"] by simp
  note C = absorb_correct [OF rel' adj pf free] and S = absorb_splice(3) [OF rel' adj]
  have "hb_ok hdr ?p" using rel' by (simp add: kh_rel_def)
  then have "span_end hdr ?p = unat m" using adj hb_end_iff by blast
  then have "unat (hb_size (hdr m)) \<le> unat (hb_size (absorb ?p m hdr ?p))"
    using S by (simp add: span_end_def)
  moreover have "same_heap fl hdr (xs @ m # ys) (absorb ?p m hdr) (zs @ ?p # ys)"
    using C(1-3) arg_cong [OF zs, of "\<lambda>l. l @ m # ys"] by (simp add: same_heap_def)
  ultimately show ?thesis using zs C(4) by blast
qed

lemma same_heap_trans:
  "same_heap fl h1 n1 h2 n2 \<Longrightarrow> same_heap fl h2 n2 h3 n3 \<Longrightarrow> same_heap fl h1 n1 h3 n3"
  by (simp add: same_heap_def)

lemma kh_rel_cong:
  assumes "\<And>a. hb_size (h a) = hb_size (hdr a) \<and> hb_next (h a) = hb_next (hdr a) \<and> hb_prev (h a) = hb_prev (hdr a)"
  shows "kh_rel h fl ns = kh_rel hdr fl ns"
proof -
  have "hb_succ h = hb_succ hdr" "hb_before h = hb_before hdr" "hb_ok h = hb_ok hdr"
    using assms by (auto simp: fun_eq_iff hb_before_def hb_ok_def span_end_def)
  moreover have "prev_ok h 0 ns = prev_ok hdr 0 ns" using assms by (intro prev_ok_cong) auto
  ultimately show ?thesis unfolding kh_rel_def by metis
qed

lemma release_block_correct:
  assumes rel: "kh_rel hdr fl (xs @ m # ys)" and used: "hb_used (hdr m)"
  shows "\<exists>ns'. kh_rel (release_block hdr m) fl ns' \<and>
     used_in (release_block hdr m) ns' = used_in hdr (xs @ m # ys) - {(m, hb_size (hdr m))} \<and>
     cover (release_block hdr m) ns' = cover hdr (xs @ m # ys)"
proof -
  note N = kh_rel_node [OF rel]
  define h1 where "h1 = hdr_upd m (hb_used_update (\<lambda>_. False)) hdr"
  define h2 where "h2 = (if absorbs_next h1 m then absorb m (hb_next (h1 m)) h1 else h1)"
  have fields: "hb_size (h1 a) = hb_size (hdr a)" "hb_next (h1 a) = hb_next (hdr a)" "hb_prev (h1 a) = hb_prev (hdr a)" for a
    by (auto simp: h1_def)
  have rel1: "kh_rel h1 fl (xs @ m # ys)"
    using rel kh_rel_cong [of h1 hdr fl] fields by blast
  have f1: "\<not> hb_used (h1 m)" by (simp add: h1_def)
  have u1: "used_in h1 (xs @ m # ys) = used_in hdr (xs @ m # ys) - {(m, hb_size (hdr m))}"
    using N(4,5) by (auto simp: used_in_def h1_def split: if_splits)
  have c1: "cover h1 (xs @ m # ys) = cover hdr (xs @ m # ys)" by (simp add: cover_def span_end_def fields)
  from absorb_next_step [OF rel1 f1] obtain ys' where
    s2: "same_heap fl h1 (xs @ m # ys) h2 (xs @ m # ys')" and f2: "\<not> hb_used (h2 m)" unfolding h2_def by blast
  have rel2: "kh_rel h2 fl (xs @ m # ys')" using s2 by (simp add: same_heap_def)
  have rb: "release_block hdr m = (if absorbs_prev h2 m then absorb (hb_prev (h2 m)) m h2 else h2)"
    unfolding release_block_def h2_def h1_def Let_def by simp
  have "\<exists>ns'. same_heap fl h2 (xs @ m # ys') (release_block hdr m) ns'"
  proof (cases "absorbs_prev h2 m")
    case True
    then show ?thesis using absorb_prev_step [OF rel2 f2] rb by auto
  next
    case False
    then show ?thesis using rel2 rb by (auto simp: same_heap_def)
  qed
  then obtain ns' where "same_heap fl h2 (xs @ m # ys') (release_block hdr m) ns'" by blast
  then show ?thesis using same_heap_trans [OF s2] u1 c1 by (auto simp: same_heap_def)
qed

lemma find_heap_block_cases:
  assumes "chain (hb_succ hdr) (ptr fl) ns None" and "0 \<notin> set ns"
  shows "find_heap_block hdr fl sz = Some 0 \<and> (\<forall>a \<in> set ns. hb_used (hdr a) \<or> hb_size (hdr a) < sz) \<or>
     (\<exists>xs b ys. ns = xs @ b # ys \<and> find_heap_block hdr fl sz = Some b \<and> \<not> hb_used (hdr b) \<and> sz \<le> hb_size (hdr b))"
  using assms
proof (induction ns arbitrary: fl)
  case Nil
  then have "fl = 0" by (simp split: if_splits)
  then show ?case by (subst find_heap_block.simps) simp
next
  case (Cons n ns)
  then have n: "n = fl" "fl \<noteq> 0" by (auto split: if_splits)
  show ?case
  proof (cases "\<not> hb_used (hdr n) \<and> sz \<le> hb_size (hdr n)")
    case True
    then have "find_heap_block hdr fl sz = Some n" using n by (subst find_heap_block.simps) simp
    then show ?thesis using True by (intro disjI2 exI [of _ "[]"] exI [of _ n] exI [of _ ns]) auto
  next
    case False
    then have f: "find_heap_block hdr fl sz = find_heap_block hdr (hb_next (hdr n)) sz"
      using n by (subst find_heap_block.simps) auto
    have "chain (hb_succ hdr) (ptr (hb_next (hdr n))) ns None" using Cons.prems by simp
    from Cons.IH [OF this] Cons.prems(2) False f show ?thesis
      by (fastforce simp: not_le intro: exI [of _ "n # _"])
  qed
qed

lemma insert_pos_finds:
  assumes "chain (hb_succ hdr) (Some cur) (cur # zs) None" and "cur < block"
  shows "\<exists>us c vs. cur # zs = us @ c # vs \<and> insert_pos hdr block cur = Some c \<and>
     (\<forall>a \<in> set us \<union> {c}. a < block) \<and> (vs \<noteq> [] \<longrightarrow> \<not> hd vs < block)"
  using assms
proof (induction zs arbitrary: cur)
  case Nil
  then have "hb_next (hdr cur) = 0" by (simp split: if_splits)
  then have "insert_pos hdr block cur = Some cur" by (subst insert_pos.simps) simp
  then show ?case using Nil by (intro exI [of _ "[]"] exI [of _ cur]) auto
next
  case (Cons z zs)
  then have nx: "hb_next (hdr cur) = z" "z \<noteq> 0" and ch: "chain (hb_succ hdr) (Some z) (z # zs) None"
    by (auto split: if_splits)
  show ?case
  proof (cases "z < block")
    case True
    then have "insert_pos hdr block cur = insert_pos hdr block z" using nx by (subst insert_pos.simps) auto
    moreover from Cons.IH [OF ch True] obtain us c vs where "z # zs = us @ c # vs"
      "insert_pos hdr block z = Some c" "\<forall>a \<in> set us \<union> {c}. a < block" "vs \<noteq> [] \<longrightarrow> \<not> hd vs < block" by blast
    ultimately show ?thesis using Cons.prems(2) by (intro exI [of _ "cur # us"] exI [of _ c] exI [of _ vs]) auto
  next
    case False
    then have "insert_pos hdr block cur = Some cur" using nx by (subst insert_pos.simps) simp
    then show ?thesis using False Cons.prems(2) by (intro exI [of _ "[]"] exI [of _ cur] exI [of _ "z # zs"]) auto
  qed
qed

lemma kh_rel_upd_other:
  assumes "a \<notin> set ns" shows "kh_rel (hdr(a := r)) fl ns = kh_rel hdr fl ns"
proof -
  define h where "h = hdr(a := r)"
  have eq: "\<And>b. b \<in> set ns \<Longrightarrow> h b = hdr b" using assms by (auto simp: h_def)
  have b: "hb_before h x y = hb_before hdr x y" if "x \<in> set ns" for x y
    using eq [OF that] by (simp add: hb_before_def span_end_def)
  have c1: "chain (hb_succ h) (ptr fl) ns None = chain (hb_succ hdr) (ptr fl) ns None"
    using eq by (intro chain_cong) simp
  have c2: "(\<forall>b \<in> set ns. hb_ok h b) = (\<forall>b \<in> set ns. hb_ok hdr b)"
    using eq by (simp add: hb_ok_def span_end_def)
  have c3: "sorted_wrt (hb_before h) ns = sorted_wrt (hb_before hdr) ns"
    using b sorted_wrt_cong_on [of "hb_before h" ns "hb_before hdr"] sorted_wrt_cong_on [of "hb_before hdr" ns "hb_before h"]
    by blast
  have c4: "prev_ok h 0 ns = prev_ok hdr 0 ns" using eq by (intro prev_ok_cong) simp
  show ?thesis unfolding kh_rel_def h_def [symmetric] c1 c2 c3 c4 ..
qed

lemma span_disjoint_order:
  assumes "{unat a ..< unat a + l} \<inter> {unat b ..< span_end hdr b} = {}" and "0 < l"
  shows "unat a < unat b \<Longrightarrow> unat a + l \<le> unat b" and "unat b < unat a \<Longrightarrow> span_end hdr b \<le> unat a" and "a \<noteq> b"
proof -
  have l: "unat b < span_end hdr b" by (simp add: span_end_def)
  show "unat a + l \<le> unat b" if "unat a < unat b"
  proof (rule ccontr)
    assume "\<not> unat a + l \<le> unat b"
    then have "unat b \<in> {unat a ..< unat a + l} \<inter> {unat b ..< span_end hdr b}" using that l by auto
    then show False using assms by blast
  qed
  show "span_end hdr b \<le> unat a" if "unat b < unat a"
  proof (rule ccontr)
    assume "\<not> span_end hdr b \<le> unat a"
    then have "unat a \<in> {unat a ..< unat a + l} \<inter> {unat b ..< span_end hdr b}" using that assms(2) by auto
    then show False using assms by blast
  qed
  show "a \<noteq> b" using assms l by auto
qed

text \<open>A region about to be added: its header is written, its bytes are those of no node.\<close>

definition region_fresh :: "(u64 \<Rightarrow> heap_block) \<Rightarrow> u64 list \<Rightarrow> u64 \<Rightarrow> bool" where
  "region_fresh hdr ns block \<longleftrightarrow> hb_ok hdr block \<and> \<not> hb_used (hdr block) \<and>
     hb_next (hdr block) = 0 \<and> hb_prev (hdr block) = 0 \<and> {unat block ..< span_end hdr block} \<inter> cover hdr ns = {}"

lemma region_fresh_order:
  assumes "region_fresh hdr ns block" and "b \<in> set ns"
  shows "block < b \<Longrightarrow> span_end hdr block \<le> unat b" and "b < block \<Longrightarrow> span_end hdr b \<le> unat block" and "block \<noteq> b"
proof -
  let ?l = "32 + unat (hb_size (hdr block))"
  have se: "span_end hdr block = unat block + ?l" by (simp add: span_end_def)
  have "{unat block ..< unat block + ?l} \<inter> {unat b ..< span_end hdr b} = {}"
    using assms unfolding region_fresh_def cover_def se by blast
  from span_disjoint_order [OF this]
  show "block < b \<Longrightarrow> span_end hdr block \<le> unat b" and "b < block \<Longrightarrow> span_end hdr b \<le> unat block" and "block \<noteq> b"
    unfolding se by (auto simp: word_less_nat_alt)
qed

lemma add_link_head:
  assumes rel: "kh_rel (kh_hdr kh) (kh_free_list kh) ns" and fresh: "region_fresh (kh_hdr kh) ns block"
    and front: "kh_free_list kh = 0 \<or> block < kh_free_list kh"
  defines "hdr' \<equiv> set_prev (kh_free_list kh) block (hdr_upd block (hb_next_update (\<lambda>_. kh_free_list kh)) (kh_hdr kh))"
  shows "kh_rel hdr' block (block # ns)"
proof -
  let ?hdr = "kh_hdr kh" and ?fl = "kh_free_list kh"
  have b0: "block \<noteq> 0" "hb_ok ?hdr block" using fresh by (auto simp: region_fresh_def hb_ok_def)
  have bn: "block \<notin> set ns" using region_fresh_order(3) [OF fresh] by blast
  have hd: "(ns = [] \<and> ?fl = 0) \<or> (\<exists>zs. ns = ?fl # zs \<and> ?fl \<noteq> 0)"
    using rel by (cases ns) (auto simp: kh_rel_def split: if_splits)
  have flb: "?fl \<noteq> block" using hd bn b0 by auto
  have at: "hdr' block = (?hdr block)\<lparr>hb_next := ?fl\<rparr>" using flb by (simp add: hdr'_def set_prev_simps)
  have else_: "hdr' a = (if a = ?fl \<and> ?fl \<noteq> 0 then (?hdr a)\<lparr>hb_prev := block\<rparr> else ?hdr a)" if "a \<noteq> block" for a
    using that by (auto simp: hdr'_def set_prev_def)
  have same: "hb_size (hdr' a) = hb_size (?hdr a)" "a \<noteq> block \<Longrightarrow> hb_next (hdr' a) = hb_next (?hdr a)" for a
    using at else_ [of a] by (cases "a = block"; simp)+
  have "chain (hb_succ hdr') (ptr ?fl) ns None"
  proof (subst chain_cong [of ns _ "hb_succ ?hdr"])
    show "hb_succ hdr' n = hb_succ ?hdr n" if "n \<in> set ns" for n
    proof -
      have "n \<noteq> block" using bn that by blast
      then show ?thesis using same(2) [of n] by simp
    qed
  qed (use rel in \<open>simp add: kh_rel_def\<close>)
  then have "chain (hb_succ hdr') (ptr block) (block # ns) None" using at b0 by (cases "?fl = 0") simp_all
  moreover have "span_end hdr' = span_end ?hdr" using same by (auto simp: span_end_def)
  then have eq: "hb_ok hdr' = hb_ok ?hdr" "hb_before hdr' = hb_before ?hdr"
    using same by (auto simp: hb_ok_def hb_before_def fun_eq_iff)
  moreover have "hb_before ?hdr block a" if "a \<in> set ns" for a
  proof -
    from that hd obtain zs where zs: "ns = ?fl # zs" by auto
    then have "a = ?fl \<or> hb_before ?hdr ?fl a" using rel that by (auto simp: kh_rel_def)
    moreover have "block < ?fl" using front hd zs by auto
    then have "span_end ?hdr block \<le> unat ?fl" using region_fresh_order(1) [OF fresh] zs by simp
    ultimately show ?thesis by (auto simp: hb_before_def span_end_def)
  qed
  moreover have "prev_ok hdr' 0 (block # ns)"
  proof -
    have "hb_prev (hdr' block) = 0" using at fresh by (simp add: region_fresh_def)
    moreover have "prev_ok hdr' block ns"
    proof (cases ns)
      case (Cons z zs)
      then have z: "z = ?fl" "?fl \<noteq> 0" using hd by auto
      have "z \<notin> set zs" using kh_rel_distinct [OF rel] Cons by simp
      then have "hdr' a = ?hdr a" if "a \<in> set zs" for a
        using that z bn Cons else_ [of a] by (cases "a = ?fl") auto
      then have "prev_ok hdr' z zs = prev_ok ?hdr z zs" by (intro prev_ok_cong) simp
      then show ?thesis using rel Cons z else_ [of z] flb by (auto simp: kh_rel_def)
    qed simp
    ultimately show ?thesis by simp
  qed
  ultimately show ?thesis using rel b0 unfolding kh_rel_def eq by auto
qed

lemma add_link_middle:
  assumes rel: "kh_rel hdr fl (xs @ c # ys)" and fresh: "region_fresh hdr (xs @ c # ys) block"
    and c: "c < block" and ys: "ys \<noteq> [] \<Longrightarrow> \<not> hd ys < block"
  defines "h1 \<equiv> hdr_upd block (\<lambda>b. b\<lparr>hb_next := hb_next (hdr c), hb_prev := c\<rparr>) hdr"
  defines "hdr' \<equiv> set_prev (hb_next (hdr c)) block (hdr_upd c (hb_next_update (\<lambda>_. block)) h1)"
  shows "hb_splice hdr xs c [block] ys hdr'" and "hdr' block = (hdr block)\<lparr>hb_next := hb_next (hdr c), hb_prev := c\<rparr>"
    and "span_end hdr' = span_end hdr" and "hb_used (hdr' c) = hb_used (hdr c)" "hb_size (hdr' c) = hb_size (hdr c)"
proof -
  let ?nx = "hb_next (hdr c)"
  note N = kh_rel_node [OF rel]
  have b0: "block \<noteq> 0" "hb_ok hdr block" using fresh by (auto simp: region_fresh_def hb_ok_def)
  have bn: "block \<notin> set (xs @ c # ys)" using region_fresh_order(3) [OF fresh] by blast
  have nxb: "?nx \<noteq> block" "?nx \<noteq> c" using N(1,2,5) bn b0 by (cases ys; auto simp: hb_ok_def)+
  show at_b: "hdr' block = (hdr block)\<lparr>hb_next := ?nx, hb_prev := c\<rparr>"
    using nxb bn by (auto simp: hdr'_def h1_def set_prev_simps)
  have at_c: "hdr' c = (hdr c)\<lparr>hb_next := block\<rparr>" using nxb bn by (auto simp: hdr'_def h1_def set_prev_simps)
  have else_: "hdr' a = (if a = ?nx \<and> ?nx \<noteq> 0 then (hdr a)\<lparr>hb_prev := block\<rparr> else hdr a)" if "a \<noteq> block" "a \<noteq> c" for a
    using that by (auto simp: hdr'_def h1_def set_prev_def)
  have sz: "hb_size (hdr' a) = hb_size (hdr a)" for a
    using at_b at_c else_ [of a] by (cases "a = block"; cases "a = c"; simp)
  then show se: "span_end hdr' = span_end hdr" by (auto simp: span_end_def)
  then have eq: "hb_ok hdr' = hb_ok hdr" "hb_before hdr' = hb_before hdr"
    using sz by (auto simp: hb_ok_def hb_before_def fun_eq_iff)
  show "hb_used (hdr' c) = hb_used (hdr c)" "hb_size (hdr' c) = hb_size (hdr c)" using at_c by auto
  have cb: "hb_before hdr c block" using region_fresh_order(2) [OF fresh _ c] by (simp add: hb_before_def)
  show "hb_splice hdr xs c [block] ys hdr'"
  proof (rule hb_spliceI [where mid = "[]"])
    show "kh_rel hdr fl (xs @ c # [] @ ys)" using rel by simp
    show "set [block] \<inter> (set xs \<union> set ys) = {}" using bn by auto
    show "hb_frame hdr [c, block] ys hdr'" using N(2,5,6) bn else_ by (cases ys) (auto simp: hb_frame_def)
    show "hb_prev (hdr' (hd ys)) = last [c, block] \<or> hb_prev (hdr' (hd ys)) = hd ys" if "ys \<noteq> []"
      using that N(2,5,6) bn else_ by (cases ys) auto
    show "chain (hb_succ hdr') (Some c) [c, block] (case ys of [] \<Rightarrow> None | y # _ \<Rightarrow> Some y)"
      using N(2,6) b0 at_b at_c by (cases ys) auto
    have "hb_before hdr block (hd ys)" if "ys \<noteq> []"
    proof -
      have "hd ys \<in> set (xs @ c # ys)" using that by simp
      moreover have "block < hd ys" using ys that region_fresh_order(3) [OF fresh calculation] by auto
      ultimately show ?thesis using region_fresh_order(1) [OF fresh] by (simp add: hb_before_def)
    qed
    then show "\<And>a. a \<in> set [c, block] \<Longrightarrow> hb_ok hdr' a \<and> unat c \<le> unat a \<and> (ys \<noteq> [] \<longrightarrow> hb_before hdr' a (hd ys))"
      using eq N(1,6) b0 c by (auto simp: word_less_nat_alt)
    show "sorted_wrt (hb_before hdr') [c, block]" using cb eq by simp
    show "prev_ok hdr' (last (0 # xs)) [c, block]" using N(3) at_b at_c by auto
  qed
qed

lemma add_link_correct:
  assumes rel: "kh_rel (kh_hdr kh) (kh_free_list kh) ns" and fresh: "region_fresh (kh_hdr kh) ns block"
  shows "\<exists>h f xs ys. add_link kh block = Some (kh\<lparr>kh_hdr := h, kh_free_list := f\<rparr>) \<and> kh_rel h f (xs @ block # ys) \<and>
     used_in h (xs @ block # ys) = used_in (kh_hdr kh) ns \<and>
     cover h (xs @ block # ys) = cover (kh_hdr kh) ns \<union> {unat block ..< span_end (kh_hdr kh) block} \<and>
     \<not> hb_used (h block) \<and> hb_size (h block) = hb_size (kh_hdr kh block)"
proof (cases "kh_free_list kh = 0 \<or> block < kh_free_list kh")
  case True
  let ?hdr = "kh_hdr kh" and ?fl = "kh_free_list kh"
  define h where "h = set_prev ?fl block (hdr_upd block (hb_next_update (\<lambda>_. ?fl)) ?hdr)"
  have al: "add_link kh block = Some (kh\<lparr>kh_hdr := h, kh_free_list := block\<rparr>)"
    using True by (simp add: add_link_def h_def Let_def)
  have fields: "hb_size (h a) = hb_size (?hdr a)" "hb_used (h a) = hb_used (?hdr a)" for a
    by (auto simp: h_def set_prev_simps)
  have u: "used_in h ms = used_in ?hdr ms" "cover h ms = cover ?hdr ms" for ms
    by (auto simp: used_in_def cover_def span_end_def fields)
  have "used_in h ([] @ block # ns) = used_in ?hdr ns" "cover h ([] @ block # ns) = cover ?hdr ns \<union> {unat block ..< span_end ?hdr block}"
    using fresh unfolding u by (auto simp: region_fresh_def)
  moreover have "kh_rel h block ([] @ block # ns)" using add_link_head [OF rel fresh True] by (simp add: h_def)
  moreover have "\<not> hb_used (?hdr block)" using fresh by (simp add: region_fresh_def)
  ultimately show ?thesis
    using al fields by blast
next
  case False
  let ?hdr = "kh_hdr kh" and ?fl = "kh_free_list kh"
  obtain zs where zs: "ns = ?fl # zs"
    using rel False by (cases ns) (auto simp: kh_rel_def split: if_splits)
  have "block \<noteq> ?fl" using region_fresh_order(3) [OF fresh] zs by simp
  then have lt: "?fl < block" using False by auto
  have "chain (hb_succ ?hdr) (Some ?fl) (?fl # zs) None" using rel zs False by (simp add: kh_rel_def)
  from insert_pos_finds [OF this lt] obtain xs c ys where
    ns: "ns = xs @ c # ys" "insert_pos ?hdr block ?fl = Some c" "c < block" "ys \<noteq> [] \<Longrightarrow> \<not> hd ys < block"
    using zs by auto
  note M = add_link_middle [OF rel [unfolded ns(1)] fresh [unfolded ns(1)] ns(3,4)]
  let ?nx = "hb_next (?hdr c)"
  define h where "h = set_prev ?nx block (hdr_upd c (hb_next_update (\<lambda>_. block))
      (hdr_upd block (\<lambda>b. b\<lparr>hb_next := ?nx, hb_prev := c\<rparr>) ?hdr))"
  note M = M [folded h_def]
  have bc: "block \<noteq> c" using ns(3) by auto
  have "add_link kh block = Some (kh\<lparr>kh_hdr := h\<rparr>)"
    using False ns(2) bc by (simp add: add_link_def Let_def h_def)
  then have al: "add_link kh block = Some (kh\<lparr>kh_hdr := h, kh_free_list := ?fl\<rparr>)" by simp
  have R: "kh_rel h ?fl ((xs @ [c]) @ block # ys)"
    using kh_rel_splice [of ?hdr ?fl xs c "[]" ys "[block]" h] rel ns(1) M(1) by simp
  have free: "\<not> hb_used (?hdr block)" using fresh by (simp add: region_fresh_def)
  have "used_in h ((xs @ [c]) @ block # ys) = used_in ?hdr ns"
    using splice_used [OF M(1)] M(2,4,5) free ns(1) by simp
  moreover have "cover h ((xs @ [c]) @ block # ys) = cover ?hdr ns \<union> {unat block ..< span_end ?hdr block}"
    using splice_cover [OF M(1)] M(3) ns(1) by auto
  moreover have "\<not> hb_used (h block)" "hb_size (h block) = hb_size (?hdr block)" using M(2) free by auto
  ultimately show ?thesis using al R by blast
qed

lemma add_region_correct:
  assumes rel: "kh_rel (kh_hdr kh) (kh_free_list kh) ns" and base: "base \<noteq> 0" "16 dvd unat base"
    and sz: "32 < unat sz" "16 dvd unat sz" "unat base + unat sz \<le> 2 ^ 52"
    and disj: "{unat base ..< unat base + unat sz} \<inter> cover (kh_hdr kh) ns = {}"
  shows "\<exists>h f ns' m. add_region kh base sz = Some (kh\<lparr>kh_free_list := f, kh_hdr := h,
        kh_total_bytes := kh_total_bytes kh + sz, kh_subheap_count := kh_subheap_count kh + 1\<rparr>, success) \<and>
     kh_rel h f ns' \<and> used_in h ns' = used_in (kh_hdr kh) ns \<and>
     cover h ns' = cover (kh_hdr kh) ns \<union> {unat base ..< unat base + unat sz} \<and>
     m \<in> set ns' \<and> \<not> hb_used (h m) \<and> unat sz \<le> unat (hb_size (h m)) + 32"
proof -
  define h0 where "h0 = (kh_hdr kh)(base := \<lparr>hb_size = sz - sizeof_heap_block, hb_used = False, hb_next = 0, hb_prev = 0\<rparr>)"
  define kh0 where "kh0 = kh\<lparr>kh_hdr := h0\<rparr>"
  have bs: "unat (hb_size (h0 base)) = unat sz - 32" using sz(1) by (simp add: h0_def unat_minus_nw)
  have se: "span_end h0 base = unat base + unat sz" using bs sz(1) by (simp add: span_end_def)
  have bn: "base \<notin> set ns"
  proof
    assume "base \<in> set ns"
    then have "unat base \<in> cover (kh_hdr kh) ns" by (auto simp: cover_def span_end_def)
    moreover have "unat base \<in> {unat base ..< unat base + unat sz}" using sz(1) by simp
    ultimately show False using disj by blast
  qed
  have rel0: "kh_rel h0 (kh_free_list kh) ns" using rel bn by (simp add: h0_def kh_rel_upd_other)
  have same: "h0 a = kh_hdr kh a" if "a \<in> set ns" for a using that bn by (auto simp: h0_def)
  have uc: "used_in h0 ns = used_in (kh_hdr kh) ns" "cover h0 ns = cover (kh_hdr kh) ns"
    using same by (auto simp: used_in_def cover_def span_end_def)
  have fresh: "region_fresh h0 ns base"
    using base sz bs se disj uc unfolding region_fresh_def hb_ok_def by (simp add: h0_def dvd_diff_nat)
  from add_link_correct [of kh0 ns base] rel0 fresh obtain h f xs ys where
    L: "add_link kh0 base = Some (kh0\<lparr>kh_hdr := h, kh_free_list := f\<rparr>)" "kh_rel h f (xs @ base # ys)"
      "used_in h (xs @ base # ys) = used_in h0 ns"
      "cover h (xs @ base # ys) = cover h0 ns \<union> {unat base ..< span_end h0 base}"
      "\<not> hb_used (h base)" "hb_size (h base) = hb_size (h0 base)"
    by (auto simp: kh0_def)
  define p where "p = (if absorbs_prev h base then (absorb (hb_prev (h base)) base h, hb_prev (h base)) else (h, base))"
  have "\<exists>us. same_heap f h (xs @ base # ys) (fst p) (us @ snd p # ys) \<and> \<not> hb_used (fst p (snd p)) \<and>
      unat (hb_size (h base)) \<le> unat (hb_size (fst p (snd p)))"
  proof (cases "absorbs_prev h base")
    case True
    then show ?thesis using absorb_prev_step [OF L(2,5) True] by (auto simp: p_def)
  next
    case False
    then show ?thesis using L(2,5) by (auto simp: p_def same_heap_def)
  qed
  then obtain us where P: "same_heap f h (xs @ base # ys) (fst p) (us @ snd p # ys)" "\<not> hb_used (fst p (snd p))"
      "unat (hb_size (h base)) \<le> unat (hb_size (fst p (snd p)))" by blast
  define h3 where "h3 = (if absorbs_next (fst p) (snd p) then absorb (snd p) (hb_next (fst p (snd p))) (fst p) else fst p)"
  have "kh_rel (fst p) f (us @ snd p # ys)" using P(1) by (simp add: same_heap_def)
  from absorb_next_step [OF this P(2), folded h3_def] obtain vs where
    Q: "same_heap f (fst p) (us @ snd p # ys) h3 (us @ snd p # vs)" "\<not> hb_used (h3 (snd p))"
      "unat (hb_size (fst p (snd p))) \<le> unat (hb_size (h3 (snd p)))" by blast
  have "same_heap f h (xs @ base # ys) h3 (us @ snd p # vs)" by (rule same_heap_trans [OF P(1) Q(1)])
  then have S: "kh_rel h3 f (us @ snd p # vs)" "used_in h3 (us @ snd p # vs) = used_in (kh_hdr kh) ns"
    "cover h3 (us @ snd p # vs) = cover (kh_hdr kh) ns \<union> {unat base ..< unat base + unat sz}"
    using L(3,4) uc se unfolding same_heap_def by metis+
  have guard: "\<not> (base = 0 \<or> sz \<le> sizeof_heap_block)" using base sz(1) by (simp add: word_le_nat_alt)
  have "add_region kh base sz = Some (kh\<lparr>kh_free_list := f, kh_hdr := h3,
        kh_total_bytes := kh_total_bytes kh + sz, kh_subheap_count := kh_subheap_count kh + 1\<rparr>, success)"
    unfolding add_region_def if_not_P [OF guard] h0_def [symmetric] kh0_def [symmetric] L(1)
    by (simp add: Let_def kh0_def h3_def p_def)
  moreover have "unat sz \<le> unat (hb_size (h3 (snd p))) + 32" using P(3) Q(3) L(6) bs sz(1) by simp
  ultimately show ?thesis using S Q(2)
    by (intro exI [of _ h3] exI [of _ f] exI [of _ "us @ snd p # vs"] exI [of _ "snd p"]) auto
qed

section \<open>Growing the heap\<close>

lemma unat_max_u64: "unat (max_u64 a b) = max (unat a) (unat b)"
  by (simp add: max_u64_def word_less_nat_alt max_def)

lemma div_page: "unat (g div PAGE_SIZE_4K) = unat g div 4096"
  by (simp add: PAGE_SIZE_4K_def unat_div)

lemma pow2_bounds: "4 \<le> k \<Longrightarrow> k \<le> 61 \<Longrightarrow> (16::nat) \<le> 2 ^ k \<and> (2::nat) ^ k \<le> 2 ^ 61"
  using power_increasing [of 4 k "2::nat"] power_increasing [of k 61 "2::nat"] by simp

lemma grow_bytes_correct:
  fixes v :: u64
  assumes v: "unat v \<le> 2 ^ 63 + 2 ^ 20"
  defines "g \<equiv> (if align_up v PAGE_SIZE_4K < kernel_heap_min_subheap_size then kernel_heap_min_subheap_size
               else align_up v PAGE_SIZE_4K)"
  shows "unat v \<le> unat g" and "4096 dvd unat g" and "0 < unat g"
proof -
  have P: "PAGE_SIZE_4K = 2 ^ 12" by (simp add: PAGE_SIZE_4K_def)
  have w: "unat v + 2 ^ 12 \<le> 2 ^ 64" using v by simp
  note b = align_up_bounds [OF P _ w] and d = align_up_dvd [OF P _ w]
  have m: "unat kernel_heap_min_subheap_size = 1048576" by (simp add: kernel_heap_min_subheap_size_def)
  show "unat v \<le> unat g" using b m by (auto simp: g_def word_less_nat_alt)
  show "4096 dvd unat g" using d m by (auto simp: g_def)
  show "0 < unat g" using m by (auto simp: g_def word_less_nat_alt)
qed

lemma phys_alignment_correct:
  assumes "al = 2 ^ k" "k < 64"
  shows "\<exists>j. (if max_u64 al PAGE_SIZE_4K \<le> 0xFFFFFFFF then ucast (max_u64 al PAGE_SIZE_4K) else ucast PAGE_SIZE_4K)
    = (2 ^ j :: u32) \<and> 12 \<le> j \<and> j < 32"
proof (cases "max_u64 al PAGE_SIZE_4K \<le> 0xFFFFFFFF")
  case False
  then show ?thesis by (intro exI [of _ 12]) (simp add: PAGE_SIZE_4K_def)
next
  case True
  have al: "unat al = 2 ^ k" using assms by (simp add: unat_pow2)
  have "(2::nat) ^ k \<le> 4294967295" using True al
    by (simp add: word_le_nat_alt unat_max_u64)
  then have k: "k < 32" using power_increasing [of 32 k "2::nat"] by (cases "k < 32") auto
  have "unat (max_u64 al PAGE_SIZE_4K) = 2 ^ max k 12"
    using al power_increasing_iff [of "2::nat" k 12] by (simp add: unat_max_u64 PAGE_SIZE_4K_def max_def)
  then have "unat (ucast (max_u64 al PAGE_SIZE_4K) :: u32) = 2 ^ max k 12"
    using k by (simp add: unsigned_ucast_eq take_bit_nat_eq_self power_strict_increasing)
  then have "(ucast (max_u64 al PAGE_SIZE_4K) :: u32) = 2 ^ max k 12"
    using k by (intro word_eq_unatI) (simp add: unat_pow2)
  then show ?thesis using True k by (intro exI [of _ "max k 12"]) auto
qed

lemma expand_request_Some:
  assumes rq: "expand_request sz al = Some (g, pc, pal)" and al: "al = 2 ^ k" "4 \<le> k" "k \<le> 61"
    and sz: "unat sz \<le> 2 ^ 61"
  shows "pc \<noteq> 0" and "unat g = unat pc * 4096" and "\<exists>j. pal = 2 ^ j \<and> 12 \<le> j \<and> j < 32"
    and "2 * (unat sz + 32 + max (2 ^ k) 4096) + 4096 \<le> unat g"
proof -
  let ?slack = "max_u64 (max_u64 al HEAP_MIN_ALIGNMENT) PAGE_SIZE_4K"
  let ?min = "sz + sizeof_heap_block + ?slack" and ?v = "(sz + sizeof_heap_block + ?slack) * 2 + PAGE_SIZE_4K"
  let ?g = "if align_up ?v PAGE_SIZE_4K < kernel_heap_min_subheap_size then kernel_heap_min_subheap_size
      else align_up ?v PAGE_SIZE_4K"
  have ual: "unat al = 2 ^ k" using al by (simp add: unat_pow2)
  have kb: "16 \<le> (2::nat) ^ k" "(2::nat) ^ k \<le> 2 ^ 61" using pow2_bounds al by auto
  have sl: "unat ?slack = max (2 ^ k) 4096"
    using ual kb by (simp add: unat_max_u64 HEAP_MIN_ALIGNMENT_def PAGE_SIZE_4K_def)
  have slb: "unat ?slack \<le> 2 ^ 61" using sl kb by simp
  have mn: "unat ?min = unat sz + 32 + unat ?slack" using sz slb by (simp add: unat_plus64)
  have tw: "unat (?min * 2) = unat ?min * 2" using mn sz slb by (simp add: unat_word_ariths)
  have v: "unat ?v = 2 * unat ?min + 4096" using mn tw sz slb by (simp add: unat_plus64 PAGE_SIZE_4K_def)
  have "unat ?v \<le> 2 ^ 63 + 2 ^ 20" using v mn sz slb by simp
  note G = grow_bytes_correct [OF this]
  from rq have eq: "g = ?g" "pc = ucast (?g div PAGE_SIZE_4K)" and cnt: "?g div PAGE_SIZE_4K \<noteq> 0" "?g div PAGE_SIZE_4K \<le> 0xFFFFFFFF"
    and pal: "pal = (if max_u64 al PAGE_SIZE_4K \<le> 0xFFFFFFFF then ucast (max_u64 al PAGE_SIZE_4K) else ucast PAGE_SIZE_4K)"
    by (auto simp: expand_request_def Let_def not_less split: if_splits)
  have c: "unat (?g div PAGE_SIZE_4K) = unat ?g div 4096" "unat (?g div PAGE_SIZE_4K) \<le> 4294967295"
    using cnt(2) by (simp_all only: div_page word_le_nat_alt) simp
  have upc: "unat pc = unat ?g div 4096"
    using c unfolding eq(2) by (simp add: unsigned_ucast_eq take_bit_nat_eq_self)
  show "unat g = unat pc * 4096" using upc G(2) eq(1) by simp
  then show "pc \<noteq> 0" using G(3) eq(1) by auto
  show "\<exists>j. pal = 2 ^ j \<and> 12 \<le> j \<and> j < 32" using phys_alignment_correct [OF al(1)] al(3) pal by simp
  show "2 * (unat sz + 32 + max (2 ^ k) 4096) + 4096 \<le> unat g" using G(1) v mn sl eq(1) by simp
qed

definition live_data :: "(u64 \<Rightarrow> heap_block) \<Rightarrow> u64 list \<Rightarrow> nat set" where
  "live_data hdr ns = (\<Union>(a, s) \<in> used_in hdr ns. {unat a + 32 ..< unat a + 32 + unat s})"

text \<open>
  The memory subsystem's invariant: both allocators are well formed, and no byte of the heap,
  header or payload, is free in the page allocator.
\<close>

definition km_ok :: "kmemory \<Rightarrow> u64 list \<Rightarrow> bool" where
  "km_ok km ns \<longleftrightarrow> pa_inv (km_phys km) \<and> kh_rel (kh_hdr (km_heap km)) (kh_free_list (km_heap km)) ns \<and>
     cover (kh_hdr (km_heap km)) ns \<inter> pa_free_bytes (km_phys km) = {}"

abbreviation km_used :: "kmemory \<Rightarrow> u64 list \<Rightarrow> (u64 \<times> u64) set" where
  "km_used km ns \<equiv> used_in (kh_hdr (km_heap km)) ns"

text \<open>The payload of every used block is as it was.\<close>

definition data_kept :: "kmemory \<Rightarrow> u64 list \<Rightarrow> kmemory \<Rightarrow> bool" where
  "data_kept km ns km' \<longleftrightarrow>
     (\<forall>x. unat x \<in> live_data (kh_hdr (km_heap km)) ns \<longrightarrow> kh_mem (km_heap km') x = kh_mem (km_heap km) x)"

lemma live_data_cover: "live_data hdr ns \<subseteq> cover hdr ns"
  by (auto simp: live_data_def used_in_def cover_def span_end_def)

lemma set_outside:
  assumes "unat phys + unat g \<le> 2 ^ 64" and "unat x \<notin> {unat phys ..< unat phys + unat g}"
  shows "mem_set mem phys c g x = mem x"
proof -
  have "\<not> x - phys < g"
  proof
    assume l: "x - phys < g"
    have "unat (x - phys) < unat g" using l by (simp add: word_less_nat_alt)
    then have "unat (phys + (x - phys)) = unat phys + unat (x - phys)"
      using assms(1) by (intro unat_plus64) simp
    then show False using assms(2) \<open>unat (x - phys) < unat g\<close> by auto
  qed
  then show ?thesis by (simp add: mem_set_at)
qed

lemma expand_correct:
  assumes ok: "km_ok km ns" and al: "al = 2 ^ k" "4 \<le> k" "k \<le> 61" and sz: "unat sz \<le> 2 ^ 61"
  shows "expand km sz al = Some (km, False) \<or>
    (\<exists>km' ns' m. expand km sz al = Some (km', True) \<and> km_ok km' ns' \<and> km_used km' ns' = km_used km ns \<and>
       kh_expanding (km_heap km') = kh_expanding (km_heap km) \<and> data_kept km ns km' \<and>
       m \<in> set ns' \<and> \<not> hb_used (kh_hdr (km_heap km') m) \<and>
       2 * (unat sz + max (2 ^ k) 4096) + 4096 \<le> unat (hb_size (kh_hdr (km_heap km') m)))"
proof (cases "expand_request sz al")
  case None
  then show ?thesis by (simp add: expand_def)
next
  case (Some r)
  obtain g pc pal where r: "r = (g, pc, pal)" by (cases r)
  note E = expand_request_Some [OF Some [unfolded r] al sz]
  obtain j where j: "pal = 2 ^ j" "12 \<le> j" "j < 32" using E(3) by blast
  have inv: "pa_inv (km_phys km)" and rel: "kh_rel (kh_hdr (km_heap km)) (kh_free_list (km_heap km)) ns"
    and sep: "cover (kh_hdr (km_heap km)) ns \<inter> pa_free_bytes (km_phys km) = {}"
    using ok by (auto simp: km_ok_def)
  from allocate_pages_sound [OF inv E(1) j, of 0] obtain pa phys where
    A: "allocate_pages (km_phys km) pc pal 0 = Some (pa, phys)" "pa_inv pa" "phys = 0 \<Longrightarrow> pa = km_phys km"
      "phys \<noteq> 0 \<Longrightarrow> {unat phys ..< unat phys + unat pc * 4096} \<subseteq> pa_free_bytes (km_phys km) \<and>
         2 ^ j dvd unat phys \<and>
         pa_free_bytes pa \<subseteq> pa_free_bytes (km_phys km) - {unat phys ..< unat phys + unat pc * 4096}" by auto
  show ?thesis
  proof (cases "phys = 0")
    case True
    then show ?thesis using Some r A(1,3) by (simp add: expand_def)
  next
    case False
    note B = A(4) [OF False] and bnd = allocate_pages_bound [OF inv E(1) j A(1) False]
    let ?R = "{unat phys ..< unat phys + unat g}"
    have R: "?R = {unat phys ..< unat phys + unat pc * 4096}" using E(2) by simp
    define kh where "kh = (km_heap km)\<lparr>kh_mem := mem_set (kh_mem (km_heap km)) phys 0 g\<rparr>"
    have disj: "?R \<inter> cover (kh_hdr kh) ns = {}" using B sep R by (auto simp: kh_def)
    have "(2::nat) ^ 4 dvd 2 ^ j" using j(2) by (intro le_imp_power_dvd) simp
    then have "16 dvd unat phys" using B dvd_trans [of 16 "2 ^ j" "unat phys"] by simp
    moreover have "16 dvd unat g" using E(2) by simp
    moreover have g32: "32 < unat g" using E(4) by simp
    ultimately obtain h f ns' m where
      F: "add_region kh phys g = Some (kh\<lparr>kh_free_list := f, kh_hdr := h, kh_total_bytes := kh_total_bytes kh + g,
            kh_subheap_count := kh_subheap_count kh + 1\<rparr>, success)" (is "_ = Some (?kh', success)")
        "kh_rel h f ns'" "used_in h ns' = used_in (kh_hdr kh) ns" "cover h ns' = cover (kh_hdr kh) ns \<union> ?R"
        "m \<in> set ns'" "\<not> hb_used (h m)" "unat g \<le> unat (hb_size (h m)) + 32"
      using add_region_correct [of kh ns phys g] rel False disj bnd E(2) by (auto simp: kh_def)
    let ?km' = "km\<lparr>km_phys := pa, km_heap := ?kh'\<rparr>"
    have "expand km sz al = Some (?km', True)"
      using Some r A(1) False F(1) by (simp add: expand_def kh_def Let_def)
    moreover have "km_ok ?km' ns'"
      using A(2) F(2,4) B sep R by (auto simp: km_ok_def kh_def)
    moreover have "data_kept km ns ?km'"
    proof -
      have "mem_set (kh_mem (km_heap km)) phys 0 g x = kh_mem (km_heap km) x"
        if "unat x \<in> live_data (kh_hdr (km_heap km)) ns" for x
      proof (rule set_outside)
        show "unat phys + unat g \<le> 2 ^ 64" using bnd E(2) by simp
        have "unat x \<in> cover (kh_hdr kh) ns" using that live_data_cover by (auto simp: kh_def)
        then show "unat x \<notin> ?R" using disj by blast
      qed
      then show ?thesis by (simp add: data_kept_def kh_def)
    qed
    moreover have "2 * (unat sz + max (2 ^ k) 4096) + 4096 \<le> unat (hb_size (h m))" using E(4) F(7) by simp
    ultimately show ?thesis using F(3,5,6) by (intro disjI2 exI [of _ ?km'] exI [of _ ns'] exI [of _ m]) (auto simp: kh_def)
  qed
qed

section \<open>Allocation\<close>

text \<open>What a successful or failed allocation of at least \<open>sz\<close> bytes at \<open>p\<close> does.\<close>

definition km_alloced :: "kmemory \<Rightarrow> u64 list \<Rightarrow> u64 \<Rightarrow> kmemory \<Rightarrow> u64 \<Rightarrow> bool" where
  "km_alloced km ns sz km' p \<longleftrightarrow> \<not> kh_expanding (km_heap km') \<and> data_kept km ns km' \<and>
     (\<exists>ns'. km_ok km' ns' \<and>
        (p = 0 \<longrightarrow> km_used km' ns' = km_used km ns) \<and>
        (p \<noteq> 0 \<longrightarrow> (\<exists>m s. p = hb_data m \<and> unat sz \<le> unat s \<and> (\<forall>t. (m, t) \<notin> km_used km ns) \<and>
           km_used km' ns' = insert (m, s) (km_used km ns) \<and> (m, s) \<in> km_used km' ns')))"

lemma not_used_in: "\<not> hb_used (hdr m) \<Longrightarrow> (m, t) \<notin> used_in hdr ns"
  by (simp add: used_in_def)

lemma hb_data_nonzero: "hb_ok hdr m \<Longrightarrow> hb_data m \<noteq> 0"
proof -
  assume "hb_ok hdr m"
  then have "unat (hb_data m) = unat m + 32" by (simp add: hb_data_def hb_ok_def span_end_def unat_plus64)
  then show ?thesis by (metis add_is_0 unsigned_0 zero_neq_numeral)
qed

lemma take_found:
  assumes ok: "km_ok km (xs @ m # ys)" and free: "\<not> hb_used (kh_hdr (km_heap km) m)"
    and fit: "sz \<le> hb_size (kh_hdr (km_heap km) m)" and al: "16 dvd unat sz" and ex: "\<not> kh_expanding (km_heap km)"
  defines "km' \<equiv> km\<lparr>km_heap := (km_heap km)\<lparr>kh_hdr := take_block (kh_hdr (km_heap km)) m sz\<rparr>\<rparr>"
  shows "km_alloced km (xs @ m # ys) sz km' (hb_data m)"
proof -
  let ?hdr = "kh_hdr (km_heap km)"
  have rel: "kh_rel ?hdr (kh_free_list (km_heap km)) (xs @ m # ys)" using ok by (simp add: km_ok_def)
  from take_block_splice [OF rel _ al] fit obtain new where
    T: "hb_splice ?hdr xs m new ys (take_block ?hdr m sz)" "hb_used (take_block ?hdr m sz m)"
      "unat sz \<le> unat (hb_size (take_block ?hdr m sz m))" "\<forall>a \<in> set new. \<not> hb_used (take_block ?hdr m sz a)"
      "\<forall>a \<in> set (m # new). unat m \<le> unat a \<and> span_end (take_block ?hdr m sz) a \<le> span_end ?hdr m"
    by (auto simp: word_le_nat_alt)
  let ?ns' = "xs @ m # new @ ys" and ?s = "hb_size (take_block ?hdr m sz m)"
  have rel': "kh_rel (take_block ?hdr m sz) (kh_free_list (km_heap km)) ?ns'"
    using kh_rel_splice [of ?hdr _ xs m "[]" ys] rel T(1) by simp
  have "cover (take_block ?hdr m sz) (m # new) \<subseteq> {unat m ..< span_end ?hdr m}"
    using T(5) by (fastforce simp: cover_def)
  then have "cover (take_block ?hdr m sz) ?ns' \<subseteq> cover ?hdr (xs @ m # ys)"
    using splice_cover [OF T(1)] by auto
  then have ok': "km_ok km' ?ns'" using ok rel' by (auto simp: km_ok_def km'_def)
  have "used_in (take_block ?hdr m sz) new = {}" using T(4) by (auto simp: used_in_def)
  then have used: "km_used km' ?ns' = insert (m, ?s) (km_used km (xs @ m # ys))"
    using splice_used [OF T(1)] T(2) free by (auto simp: km'_def)
  have "data_kept km (xs @ m # ys) km'" by (simp add: data_kept_def km'_def)
  then show ?thesis
    using ok' used T(3) ex not_used_in [of ?hdr m] free hb_data_nonzero [OF kh_rel_node(1) [OF rel]]
    unfolding km_alloced_def km'_def by (intro conjI exI [of _ ?ns']) auto
qed

lemma km_alloced_mono:
  assumes "km_alloced km1 ns1 sz km' p" and "km_used km1 ns1 = km_used km ns" and "data_kept km ns km1"
  shows "km_alloced km ns sz km' p"
proof -
  have "live_data (kh_hdr (km_heap km1)) ns1 = live_data (kh_hdr (km_heap km)) ns"
    using assms(2) by (simp add: live_data_def)
  then have "data_kept km ns km'" using assms(1,3) by (auto simp: km_alloced_def data_kept_def)
  then show ?thesis using assms(1,2) unfolding km_alloced_def by simp
qed

lemma km_flag: "km_ok (km\<lparr>km_heap := (km_heap km)\<lparr>kh_expanding := b\<rparr>\<rparr>) ns = km_ok km ns"
  by (simp add: km_ok_def)

lemma chain_of_km_ok: "km_ok km ns \<Longrightarrow> chain (hb_succ (kh_hdr (km_heap km))) (ptr (kh_free_list (km_heap km))) ns None \<and> 0 \<notin> set ns"
  by (auto simp: km_ok_def kh_rel_def hb_ok_def)

lemma allocate_loop_found:
  assumes ok: "km_ok km ns" and ex: "\<not> kh_expanding (km_heap km)" and al: "16 dvd unat sz"
    and m: "m \<in> set ns" "\<not> hb_used (kh_hdr (km_heap km) m)" "sz \<le> hb_size (kh_hdr (km_heap km) m)"
  shows "\<exists>km' p. allocate_loop km sz = Some (km', p) \<and> p \<noteq> 0 \<and> km_alloced km ns sz km' p"
proof -
  let ?hdr = "kh_hdr (km_heap km)" and ?fl = "kh_free_list (km_heap km)"
  from find_heap_block_cases [of ?hdr ?fl ns sz] chain_of_km_ok [OF ok] m
  obtain xs b ys where b: "ns = xs @ b # ys" "find_heap_block ?hdr ?fl sz = Some b" "\<not> hb_used (?hdr b)" "sz \<le> hb_size (?hdr b)"
    by (auto simp: not_less)
  have bok: "hb_ok ?hdr b" using ok b(1) by (auto simp: km_ok_def kh_rel_def)
  then have "b \<noteq> 0" by (simp add: hb_ok_def)
  then have "allocate_loop km sz = Some (km\<lparr>km_heap := (km_heap km)\<lparr>kh_hdr := take_block ?hdr b sz\<rparr>\<rparr>, hb_data b)"
    using b(2) by (subst allocate_loop.simps) (simp add: Let_def)
  then show ?thesis using take_found [OF ok [unfolded b(1)] b(3,4) al ex] hb_data_nonzero [OF bok] b(1) by auto
qed

lemma allocate_loop_correct:
  assumes ok: "km_ok km ns" and ex: "\<not> kh_expanding (km_heap km)" and sz: "16 dvd unat sz" "unat sz \<le> 2 ^ 61"
  shows "\<exists>km' p. allocate_loop km sz = Some (km', p) \<and> km_alloced km ns sz km' p"
proof (cases "\<exists>m \<in> set ns. \<not> hb_used (kh_hdr (km_heap km) m) \<and> sz \<le> hb_size (kh_hdr (km_heap km) m)")
  case True
  then show ?thesis using allocate_loop_found [OF ok ex sz(1)] by blast
next
  case False
  let ?hdr = "kh_hdr (km_heap km)" and ?fl = "kh_free_list (km_heap km)"
  have none: "find_heap_block ?hdr ?fl sz = Some 0"
    using find_heap_block_cases [of ?hdr ?fl ns sz] chain_of_km_ok [OF ok] False by auto
  let ?km1 = "km\<lparr>km_heap := (km_heap km)\<lparr>kh_expanding := True\<rparr>\<rparr>"
  have step: "allocate_loop km sz = do {
           (km, expanded) \<leftarrow> expand ?km1 sz HEAP_MIN_ALIGNMENT;
           let km = km\<lparr>km_heap := (km_heap km)\<lparr>kh_expanding := False\<rparr>\<rparr>;
           if \<not> expanded then Some (km, 0) else allocate_loop km sz
         }" using none ex by (subst allocate_loop.simps) (simp add: Let_def)
  have ok1: "km_ok ?km1 ns" using ok by (simp add: km_flag)
  have A: "HEAP_MIN_ALIGNMENT = 2 ^ 4" by (simp add: HEAP_MIN_ALIGNMENT_def)
  from expand_correct [OF ok1 A _ _ sz(2)]
  consider (no) "expand ?km1 sz HEAP_MIN_ALIGNMENT = Some (?km1, False)"
    | (yes) km2 ns' m where "expand ?km1 sz HEAP_MIN_ALIGNMENT = Some (km2, True)" "km_ok km2 ns'"
      "km_used km2 ns' = km_used km ns" "data_kept ?km1 ns km2" "m \<in> set ns'"
      "\<not> hb_used (kh_hdr (km_heap km2) m)" "unat sz \<le> unat (hb_size (kh_hdr (km_heap km2) m))"
    by fastforce
  then show ?thesis
  proof cases
    case no
    have "km\<lparr>km_heap := (km_heap km)\<lparr>kh_expanding := False\<rparr>\<rparr> = km" using ex by simp
    then have "allocate_loop km sz = Some (km, 0)" using step no by simp
    then show ?thesis using ok ex by (auto simp: km_alloced_def data_kept_def)
  next
    case yes
    let ?km3 = "km2\<lparr>km_heap := (km_heap km2)\<lparr>kh_expanding := False\<rparr>\<rparr>"
    have "allocate_loop km sz = allocate_loop ?km3 sz" using step yes by simp
    moreover have "\<exists>km' p. allocate_loop ?km3 sz = Some (km', p) \<and> p \<noteq> 0 \<and> km_alloced ?km3 ns' sz km' p"
      using yes sz(1) by (intro allocate_loop_found [of _ _ _ m]) (auto simp: km_flag word_le_nat_alt)
    moreover have "km_used ?km3 ns' = km_used km ns" "data_kept km ns ?km3"
      using yes by (auto simp: data_kept_def)
    ultimately show ?thesis using km_alloced_mono by metis
  qed
qed

lemma kh_allocate_correct:
  assumes ok: "km_ok km ns" and ex: "\<not> kh_expanding (km_heap km)" and sz: "unat sz \<le> 2 ^ 60"
  shows "\<exists>km' p. kh_allocate km sz = Some (km', p) \<and> km_alloced km ns sz km' p"
proof (cases "sz = 0")
  case True
  then show ?thesis using ok ex by (auto simp: kh_allocate_def km_alloced_def data_kept_def)
next
  case False
  have A: "HEAP_MIN_ALIGNMENT = 2 ^ 4" by (simp add: HEAP_MIN_ALIGNMENT_def)
  have w: "unat sz + 2 ^ 4 \<le> 2 ^ 64" using sz by simp
  note b = align_up_bounds [OF A _ w] and d = align_up_dvd [OF A _ w]
  let ?s = "align_up sz HEAP_MIN_ALIGNMENT"
  have "16 dvd unat ?s" "unat ?s \<le> 2 ^ 61" using b d sz by auto
  from allocate_loop_correct [OF ok ex this] obtain km' p where
    "allocate_loop km ?s = Some (km', p)" "km_alloced km ns ?s km' p" by blast
  moreover then have "km_alloced km ns sz km' p" using b(1) unfolding km_alloced_def by fastforce
  ultimately show ?thesis using False by (auto simp: kh_allocate_def)
qed

section \<open>Aligned allocation\<close>

definition probe_stop :: "nat \<Rightarrow> nat \<Rightarrow> nat \<Rightarrow> nat \<Rightarrow> bool" where
  "probe_stop ds be sz d \<longleftrightarrow> d = ds \<or> ds + 48 \<le> d \<or> be < d + sz"

lemma aligned_probe_step:
  fixes m a sz al :: u64
  assumes m: "unat m + 32 \<le> 2 ^ 52" and a: "unat m + 32 \<le> unat a" and as: "unat a + unat sz < 2 ^ 64"
  shows "aligned_probe m (m + sizeof_heap_block) be sz al a =
     (if probe_stop (unat m + 32) (unat be) (unat sz) (unat a) then Some a
      else aligned_probe m (m + sizeof_heap_block) be sz al (a + al))"
proof -
  have ds: "unat (m + sizeof_heap_block) = unat m + 32" using m by (simp add: unat_plus64)
  have u: "unat (a - sizeof_heap_block) = unat a - 32" using a by (simp add: unat_minus_nw)
  have c1: "a - sizeof_heap_block = m \<longleftrightarrow> unat a = unat m + 32"
  proof
    assume "unat a = unat m + 32"
    then have "unat (a - sizeof_heap_block) = unat m" using u by simp
    then show "a - sizeof_heap_block = m" by (rule word_eq_unatI)
  qed (use u a in auto)
  have c2: "m + sizeof_heap_block \<le> a - sizeof_heap_block \<and>
      HEAP_MIN_SPLIT_DATA_SIZE \<le> a - sizeof_heap_block - (m + sizeof_heap_block) \<longleftrightarrow> unat m + 32 + 48 \<le> unat a"
  proof (cases "unat m + 64 \<le> unat a")
    case True
    then have "unat (a - sizeof_heap_block - (m + sizeof_heap_block)) = unat a - 32 - (unat m + 32)"
      using u ds by (subst unat_minus_nw) auto
    then show ?thesis using True u ds by (auto simp: word_le_nat_alt HEAP_MIN_SPLIT_DATA_SIZE_def)
  next
    case False
    then show ?thesis using u ds a by (auto simp: word_le_nat_alt)
  qed
  have c3: "be < a + sz \<longleftrightarrow> unat be < unat a + unat sz"
    using as by (simp add: word_less_nat_alt unat_plus64)
  show ?thesis
    by (subst aligned_probe.simps) (simp only: Let_def c1 c2 c3 probe_stop_def, simp)
qed

lemma aligned_probe_returns:
  fixes m a sz al be :: u64
  assumes m: "unat m + 32 \<le> 2 ^ 52" and sz: "unat sz \<le> 2 ^ 61" and al: "al = 2 ^ k" "5 \<le> k" "k \<le> 61"
    and a: "unat m + 32 \<le> unat a" "2 ^ k dvd unat a" "unat a < unat m + 80 + 2 ^ k" "unat m + 80 \<le> unat a + 32 * n"
  shows "\<exists>d. aligned_probe m (m + sizeof_heap_block) be sz al a = Some d \<and> unat m + 32 \<le> unat d \<and>
     2 ^ k dvd unat d \<and> unat d < unat m + 80 + 2 ^ k \<and> probe_stop (unat m + 32) (unat be) (unat sz) (unat d)"
  using a
proof (induction n arbitrary: a)
  case 0
  have kb: "(2::nat) ^ k \<le> 2 ^ 61" using pow2_bounds [of k] al by simp
  then show ?case using 0 m sz aligned_probe_step [of m a sz be al] by (simp add: probe_stop_def)
next
  case (Suc n)
  have kb: "(2::nat) ^ k \<le> 2 ^ 61" using pow2_bounds [of k] al by simp
  note step = aligned_probe_step [of m a sz be al]
  show ?case
  proof (cases "probe_stop (unat m + 32) (unat be) (unat sz) (unat a)")
    case True
    then show ?thesis using step Suc.prems m sz kb by simp
  next
    case False
    then have lt: "unat a < unat m + 80" by (simp add: probe_stop_def)
    have ual: "unat al = 2 ^ k" using al by (simp add: unat_pow2)
    have k32: "(32::nat) \<le> 2 ^ k" using power_increasing [OF al(2), of "2::nat"] by simp
    have s: "unat (a + al) = unat a + 2 ^ k" using ual lt m kb by (simp add: unat_plus64)
    have "aligned_probe m (m + sizeof_heap_block) be sz al a = aligned_probe m (m + sizeof_heap_block) be sz al (a + al)"
      using step False Suc.prems m sz kb by simp
    moreover have "\<exists>d. aligned_probe m (m + sizeof_heap_block) be sz al (a + al) = Some d \<and> unat m + 32 \<le> unat d \<and>
     2 ^ k dvd unat d \<and> unat d < unat m + 80 + 2 ^ k \<and> probe_stop (unat m + 32) (unat be) (unat sz) (unat d)"
      using s lt Suc.prems k32 by (intro Suc.IH) auto
    ultimately show ?thesis by simp
  qed
qed

text \<open>A candidate that \<open>find_aligned_heap_block\<close> may return for the block \<open>m\<close>.\<close>

definition fit_ok :: "(u64 \<Rightarrow> heap_block) \<Rightarrow> u64 \<Rightarrow> u64 \<Rightarrow> nat \<Rightarrow> aligned_heap_candidate \<Rightarrow> bool" where
  "fit_ok hdr m sz k fit \<longleftrightarrow> (let d = ac_aligned_data fit in
     ac_block fit = m \<and> ac_used_header_addr fit = d - sizeof_heap_block \<and>
     ac_prefix_data_size fit = d - sizeof_heap_block - (m + sizeof_heap_block) \<and>
     ac_suffix_total fit = m + sizeof_heap_block + hb_size (hdr m) - (d + sz) \<and>
     2 ^ k dvd unat d \<and> unat d + unat sz \<le> span_end hdr m \<and> (unat d = unat m + 32 \<or> unat m + 80 \<le> unat d))"

lemma find_aligned_at:
  assumes ok: "hb_ok hdr m" and free: "\<not> hb_used (hdr m)" and sz: "unat sz \<le> 2 ^ 61" and al: "al = 2 ^ k" "5 \<le> k" "k \<le> 61"
  shows "(\<exists>fit. find_aligned_heap_block hdr m sz al = Some fit \<and> fit_ok hdr m sz k fit) \<or>
    find_aligned_heap_block hdr m sz al = find_aligned_heap_block hdr (hb_next (hdr m)) sz al \<and>
    unat (hb_size (hdr m)) < unat sz + 48 + 2 ^ k"
proof -
  have kb: "(2::nat) ^ k \<le> 2 ^ 61" using pow2_bounds [of k] al by simp
  have m: "m \<noteq> 0" "unat m + 32 + unat (hb_size (hdr m)) \<le> 2 ^ 52" using ok by (auto simp: hb_ok_def span_end_def)
  let ?ds = "m + sizeof_heap_block" and ?be = "m + sizeof_heap_block + hb_size (hdr m)"
  have ds: "unat ?ds = unat m + 32" and be: "unat ?be = span_end hdr m"
    using m by (simp_all add: unat_plus64 span_end_def)
  have w: "unat ?ds + 2 ^ k \<le> 2 ^ 64" using ds m kb by simp
  have k64: "k < 64" using al by simp
  note b = align_up_bounds [OF al(1) k64 w] and dv = align_up_dvd [OF al(1) k64 w]
  from aligned_probe_returns [of m sz al k "align_up ?ds al" 2 ?be] obtain d where
    d: "aligned_probe m ?ds ?be sz al (align_up ?ds al) = Some d" "unat m + 32 \<le> unat d" "2 ^ k dvd unat d"
      "unat d < unat m + 80 + 2 ^ k" "probe_stop (unat m + 32) (unat ?be) (unat sz) (unat d)"
    using b dv ds m sz al by auto
  have dsz: "unat (d + sz) = unat d + unat sz" using d(4) m sz kb by (simp add: unat_plus64)
  have du: "unat (d - sizeof_heap_block) = unat d - 32" using d(2) by (simp add: unat_minus_nw)
  have nc: "\<not> d < ?ds" "\<not> d - sizeof_heap_block < m" using d(2) ds du by (auto simp: word_less_nat_alt)
  have gt: "d + sz > ?be \<longleftrightarrow> span_end hdr m < unat d + unat sz" using dsz be by (simp add: word_less_nat_alt)
  show ?thesis
  proof (cases "d + sz > ?be")
    case True
    then have "find_aligned_heap_block hdr m sz al = find_aligned_heap_block hdr (hb_next (hdr m)) sz al"
      using m free d(1) by (subst find_aligned_heap_block.simps) (simp add: Let_def)
    moreover have "unat (hb_size (hdr m)) < unat sz + 48 + 2 ^ k" using True gt d(4) by (simp add: span_end_def)
    ultimately show ?thesis by blast
  next
    case False
    let ?fit = "\<lparr>ac_block = m, ac_aligned_data = d, ac_used_header_addr = d - sizeof_heap_block,
        ac_prefix_data_size = d - sizeof_heap_block - ?ds, ac_suffix_total = ?be - (d + sz)\<rparr>"
    have "find_aligned_heap_block hdr m sz al = Some ?fit"
      using m free d(1) False nc by (subst find_aligned_heap_block.simps) (simp add: Let_def)
    moreover have "fit_ok hdr m sz k ?fit"
      using d(3,5) False gt be by (auto simp: fit_ok_def probe_stop_def not_less)
    ultimately show ?thesis by blast
  qed
qed

lemma find_aligned_cases:
  assumes "chain (hb_succ hdr) (ptr fl) ns None" and "\<And>a. a \<in> set ns \<Longrightarrow> hb_ok hdr a"
    and sz: "unat sz \<le> 2 ^ 61" and al: "al = 2 ^ k" "5 \<le> k" "k \<le> 61"
  shows "(\<exists>fit. find_aligned_heap_block hdr fl sz al = Some fit \<and> ac_block fit = 0 \<and>
            (\<forall>a \<in> set ns. hb_used (hdr a) \<or> unat (hb_size (hdr a)) < unat sz + 48 + 2 ^ k)) \<or>
     (\<exists>xs b ys fit. ns = xs @ b # ys \<and> find_aligned_heap_block hdr fl sz al = Some fit \<and> \<not> hb_used (hdr b) \<and> fit_ok hdr b sz k fit)"
  using assms(1,2)
proof (induction ns arbitrary: fl)
  case Nil
  then have "fl = 0" by (simp split: if_splits)
  then show ?case by (subst (1) find_aligned_heap_block.simps) simp
next
  case (Cons n ns)
  then have n: "n = fl" "fl \<noteq> 0" and nok: "hb_ok hdr n" by (auto split: if_splits)
  have "chain (hb_succ hdr) (ptr (hb_next (hdr n))) ns None" using Cons.prems by simp
  note IH = Cons.IH [OF this Cons.prems(2)]
  have skip: ?case if f: "find_aligned_heap_block hdr fl sz al = find_aligned_heap_block hdr (hb_next (hdr n)) sz al"
    and p: "hb_used (hdr n) \<or> unat (hb_size (hdr n)) < unat sz + 48 + 2 ^ k"
  proof -
    from IH consider (none) fit where "find_aligned_heap_block hdr (hb_next (hdr n)) sz al = Some fit" "ac_block fit = 0"
        "\<forall>a \<in> set ns. hb_used (hdr a) \<or> unat (hb_size (hdr a)) < unat sz + 48 + 2 ^ k"
      | (some) xs b ys fit where "ns = xs @ b # ys" "find_aligned_heap_block hdr (hb_next (hdr n)) sz al = Some fit"
        "\<not> hb_used (hdr b)" "fit_ok hdr b sz k fit" by auto
    then show ?thesis
    proof cases
      case none
      then show ?thesis using f p by auto
    next
      case some
      then show ?thesis using f by (intro disjI2 exI [of _ "n # xs"] exI [of _ b] exI [of _ ys] exI [of _ fit]) auto
    qed
  qed
  show ?case
  proof (cases "hb_used (hdr n)")
    case True
    then have "find_aligned_heap_block hdr fl sz al = find_aligned_heap_block hdr (hb_next (hdr n)) sz al"
      using n by (subst find_aligned_heap_block.simps) simp
    then show ?thesis using skip True by blast
  next
    case False
    from find_aligned_at [OF nok False sz al] show ?thesis
    proof
      assume "\<exists>fit. find_aligned_heap_block hdr n sz al = Some fit \<and> fit_ok hdr n sz k fit"
      then show ?thesis using False n by (intro disjI2 exI [of _ "[]"] exI [of _ n] exI [of _ ns]) auto
    qed (use skip n in blast)
  qed
qed

text \<open>
  \<open>take_aligned\<close> is \<open>take_block\<close> on a list in which the aligned part \<open>u\<close> of the free block
  \<open>m\<close> has become a block of its own; \<open>carve\<close> is that list.
\<close>

definition carve :: "(u64 \<Rightarrow> heap_block) \<Rightarrow> u64 \<Rightarrow> u64 \<Rightarrow> u64 \<Rightarrow> heap_block" where
  "carve hdr m d =
     (let u = d - sizeof_heap_block; nx = hb_next (hdr m) in
      if u = m then set_prev nx m (hdr_upd m (hb_prev_update (\<lambda>_. m)) hdr)
      else set_prev nx u (hdr(m := (hdr m)\<lparr>hb_size := u - (m + sizeof_heap_block), hb_next := u\<rparr>,
             u := \<lparr>hb_size = m + sizeof_heap_block + hb_size (hdr m) - d, hb_used = False, hb_next = nx, hb_prev = m\<rparr>)))"

lemma carve_facts:
  assumes rel: "kh_rel hdr fl (xs @ m # ys)" and fit: "fit_ok hdr m sz k fit" and free: "\<not> hb_used (hdr m)"
    and al: "5 \<le> k"
  defines "d \<equiv> ac_aligned_data fit" and "u \<equiv> ac_used_header_addr fit"
  shows "unat d = unat u + 32" and "d = hb_data u" and "u \<noteq> m \<Longrightarrow> unat m + 48 \<le> unat u \<and> u \<notin> set (xs @ m # ys)"
    and "u = d - sizeof_heap_block" and "unat d + unat sz \<le> span_end hdr m" and "16 dvd unat u"
    and "hb_next (hdr m) \<noteq> m" and "hb_next (hdr m) = u \<Longrightarrow> False" and "u \<noteq> 0" and "unat m \<le> unat u"
proof -
  have F: "u = d - sizeof_heap_block" "2 ^ k dvd unat d" "unat d + unat sz \<le> span_end hdr m"
    "unat d = unat m + 32 \<or> unat m + 80 \<le> unat d"
    using fit by (auto simp: fit_ok_def Let_def d_def u_def)
  show "u = d - sizeof_heap_block" "unat d + unat sz \<le> span_end hdr m" by fact+
  have uu: "unat u = unat d - 32" using F(1,4) by (auto simp: unat_minus_nw)
  then show du: "unat d = unat u + 32" using F(4) by auto
  show "d = hb_data u" using F(1) by (simp add: hb_data_def)
  have "(2::nat) ^ 5 dvd unat d" using F(2) al le_imp_power_dvd dvd_trans by blast
  then have "16 dvd unat d" using dvd_trans [of 16 32 "unat d"] by simp
  then have "16 dvd unat d - 32" by (simp add: dvd_diff_nat)
  then show "16 dvd unat u" unfolding uu .
  note N = kh_rel_node [OF rel]
  show um: "unat m \<le> unat u" using F(4) uu by auto
  have "0 < unat m" using N(1) by (simp add: hb_ok_def unat_gt_0)
  then show u0: "u \<noteq> 0" using um by auto
  show nm: "hb_next (hdr m) \<noteq> m" using N(1,2,5) by (cases ys) (auto simp: hb_ok_def)
  show fr: "unat m + 48 \<le> unat u \<and> u \<notin> set (xs @ m # ys)" if "u \<noteq> m"
  proof -
    have "unat d \<noteq> unat m + 32" using that du by (metis add_right_cancel word_eq_unatI)
    then have l: "unat m + 48 \<le> unat u" using F(4) du by auto
    moreover have "u \<notin> set (xs @ m # ys)" using l F(3) du by (intro inside_fresh [OF rel]) auto
    ultimately show ?thesis by blast
  qed
  show False if "hb_next (hdr m) = u"
    using that nm fr u0 N(2) by (cases "u = m"; cases ys) auto
qed

lemma carve_heap:
  assumes rel: "kh_rel hdr fl (xs @ m # ys)" and fit: "fit_ok hdr m sz k fit" and free: "\<not> hb_used (hdr m)"
    and al: "5 \<le> k"
  defines "u \<equiv> ac_used_header_addr fit" and "hdr' \<equiv> carve hdr m (ac_aligned_data fit)"
  shows "\<exists>us. kh_rel hdr' fl (us @ u # ys) \<and> used_in hdr' (us @ u # ys) = used_in hdr (xs @ m # ys) \<and>
     cover hdr' (us @ u # ys) \<subseteq> cover hdr (xs @ m # ys)"
    and "\<not> hb_used (hdr' u)" and "unat (hb_size (hdr' u)) + unat u + 32 = span_end hdr m"
proof -
  note F = carve_facts [OF rel fit free al, folded u_def] and N = kh_rel_node [OF rel]
  let ?d = "ac_aligned_data fit" and ?nx = "hb_next (hdr m)"
  have m52: "unat m + 32 + unat (hb_size (hdr m)) \<le> 2 ^ 52" using N(1) by (simp add: hb_ok_def span_end_def)
  have "(\<exists>us. kh_rel hdr' fl (us @ u # ys) \<and> used_in hdr' (us @ u # ys) = used_in hdr (xs @ m # ys) \<and>
     cover hdr' (us @ u # ys) \<subseteq> cover hdr (xs @ m # ys)) \<and> \<not> hb_used (hdr' u) \<and>
     unat (hb_size (hdr' u)) + unat u + 32 = span_end hdr m"
  proof (cases "u = m")
    case True
    have h: "hdr' = set_prev ?nx m (hdr_upd m (hb_prev_update (\<lambda>_. m)) hdr)"
      using True F(4) by (simp add: hdr'_def carve_def Let_def)
    have at: "hdr' m = (hdr m)\<lparr>hb_prev := m\<rparr>" using F(7) by (simp add: h set_prev_simps)
    have else_: "hdr' a = (if a = ?nx \<and> ?nx \<noteq> 0 then (hdr a)\<lparr>hb_prev := m\<rparr> else hdr a)" if "a \<noteq> m" for a
      using that by (auto simp: h set_prev_def)
    have sp: "hb_splice hdr xs m [] ys hdr'"
    proof (rule hb_spliceI [where mid = "[]"])
      show "kh_rel hdr fl (xs @ m # [] @ ys)" using rel by simp
      show "hb_frame hdr [m] ys hdr'" using N(2,5) else_ by (cases ys) (auto simp: hb_frame_def)
      show "hb_prev (hdr' (hd ys)) = last [m] \<or> hb_prev (hdr' (hd ys)) = hd ys" if "ys \<noteq> []"
        using that N(2,5,6) else_ by (cases ys) auto
      show "chain (hb_succ hdr') (Some m) [m] (case ys of [] \<Rightarrow> None | y # _ \<Rightarrow> Some y)"
        using N(2,6) at by (cases ys) auto
      show "\<And>a. a \<in> set [m] \<Longrightarrow> hb_ok hdr' a \<and> unat m \<le> unat a \<and> (ys \<noteq> [] \<longrightarrow> hb_before hdr' a (hd ys))"
        using N(1,6) at by (auto simp: hb_ok_def span_end_def hb_before_def)
    qed (use at in auto)
    have "kh_rel hdr' fl (xs @ m # ys)" using kh_rel_splice [of hdr fl xs m "[]" ys "[]" hdr'] rel sp by simp
    moreover have "used_in hdr' (xs @ m # ys) = used_in hdr (xs @ m # ys)" "cover hdr' (xs @ m # ys) = cover hdr (xs @ m # ys)"
      using splice_used [OF sp] splice_cover [OF sp] at by (auto simp: span_end_def)
    ultimately show ?thesis using True at free by (auto simp: span_end_def)
  next
    case False
    note U = F(3) [OF False]
    let ?hu = "\<lparr>hb_size = m + sizeof_heap_block + hb_size (hdr m) - ?d, hb_used = False, hb_next = ?nx, hb_prev = m\<rparr>"
    let ?hm = "(hdr m)\<lparr>hb_size := u - (m + sizeof_heap_block), hb_next := u\<rparr>"
    have h: "hdr' = set_prev ?nx u (hdr(m := ?hm, u := ?hu))"
      using False F(4) by (simp add: hdr'_def carve_def Let_def)
    have nxu: "?nx \<noteq> u" using F(8) by blast
    have at_u: "hdr' u = ?hu" using nxu by (simp add: h set_prev_simps)
    have at_m: "hdr' m = ?hm" using F(7) False by (simp add: h set_prev_simps)
    have else_: "hdr' a = (if a = ?nx \<and> ?nx \<noteq> 0 then (hdr a)\<lparr>hb_prev := u\<rparr> else hdr a)" if "a \<noteq> m" "a \<noteq> u" for a
      using that by (auto simp: h set_prev_def)
    have be: "unat (m + sizeof_heap_block + hb_size (hdr m)) = span_end hdr m"
      using m52 by (simp add: unat_plus64 span_end_def)
    have su: "unat (hb_size (hdr' u)) = span_end hdr m - (unat u + 32)"
      using F(1,5) be at_u by (simp add: unat_minus_nw)
    have sm: "unat (hb_size (hdr' m)) = unat u - (unat m + 32)"
      using U m52 at_m by (simp add: unat_minus_nw unat_plus64)
    have eu: "span_end hdr' u = span_end hdr m" using su F(1,5) by (simp add: span_end_def)
    have em: "span_end hdr' m = unat u" using sm U by (simp add: span_end_def)
    have md: "16 dvd unat m" "16 dvd span_end hdr m" using N(1) by (auto simp: hb_ok_def span_end_def)
    have oks: "hb_ok hdr' m" "hb_ok hdr' u"
      using N(1) em eu F(6,9) md U F(5,1) sm su unfolding hb_ok_def by (auto simp: dvd_diff_nat)
    have sp: "hb_splice hdr xs m [u] ys hdr'"
    proof (rule hb_spliceI [where mid = "[]"])
      show "kh_rel hdr fl (xs @ m # [] @ ys)" using rel by simp
      show "set [u] \<inter> (set xs \<union> set ys) = {}" using U by auto
      show "hb_frame hdr [m, u] ys hdr'" using N(2,5) U else_ by (cases ys) (auto simp: hb_frame_def)
      show "hb_prev (hdr' (hd ys)) = last [m, u] \<or> hb_prev (hdr' (hd ys)) = hd ys" if "ys \<noteq> []"
        using that N(2,5,6) U else_ by (cases ys) auto
      show "chain (hb_succ hdr') (Some m) [m, u] (case ys of [] \<Rightarrow> None | y # _ \<Rightarrow> Some y)"
        using N(2,6) at_m at_u F(9) by (cases ys) auto
      show "\<And>a. a \<in> set [m, u] \<Longrightarrow> hb_ok hdr' a \<and> unat m \<le> unat a \<and> (ys \<noteq> [] \<longrightarrow> hb_before hdr' a (hd ys))"
        using oks N(6) em eu U F(1,5) by (auto simp: hb_before_def)
      show "sorted_wrt (hb_before hdr') [m, u]" using em by (simp add: hb_before_def)
      show "prev_ok hdr' (last (0 # xs)) [m, u]" using N(3) at_m at_u by auto
    qed
    have R: "kh_rel hdr' fl ((xs @ [m]) @ u # ys)" using kh_rel_splice [of hdr fl xs m "[]" ys "[u]" hdr'] rel sp by simp
    moreover have "used_in hdr' ((xs @ [m]) @ u # ys) = used_in hdr (xs @ m # ys)"
      using splice_used [OF sp] at_m at_u free by simp
    moreover have "cover hdr' ((xs @ [m]) @ u # ys) \<subseteq> cover hdr (xs @ m # ys)"
      using splice_cover [OF sp] em eu U F(1,5) by auto
    ultimately show ?thesis using at_u su F(1,5) by (intro conjI exI [of _ "xs @ [m]"]) auto
  qed
  then show "\<exists>us. kh_rel hdr' fl (us @ u # ys) \<and> used_in hdr' (us @ u # ys) = used_in hdr (xs @ m # ys) \<and>
     cover hdr' (us @ u # ys) \<subseteq> cover hdr (xs @ m # ys)"
    and "\<not> hb_used (hdr' u)" and "unat (hb_size (hdr' u)) + unat u + 32 = span_end hdr m" by blast+
qed

lemma take_block_big:
  assumes "hb_size (hdr b) > sz + sizeof_heap_block + HEAP_MIN_SPLIT_DATA_SIZE" and "b + sizeof_heap_block + sz \<noteq> b"
  shows "take_block hdr b sz = hdr_upd b (\<lambda>x. x\<lparr>hb_next := b + sizeof_heap_block + sz, hb_size := sz\<rparr>)
      (set_prev (hb_next (hdr b)) (b + sizeof_heap_block + sz)
         ((hdr_upd b (hb_used_update (\<lambda>_. True)) hdr)(b + sizeof_heap_block + sz :=
            \<lparr>hb_size = hb_size (hdr b) - sz - sizeof_heap_block, hb_used = False, hb_next = hb_next (hdr b), hb_prev = b\<rparr>)))"
  using assms by (simp add: take_block_def Let_def)

lemma take_aligned_eq:
  assumes rel: "kh_rel hdr fl (xs @ m # ys)" and fit: "fit_ok hdr m sz k fit" and free: "\<not> hb_used (hdr m)"
    and al: "5 \<le> k"
  shows "take_aligned hdr fit sz = take_block (carve hdr m (ac_aligned_data fit)) (ac_used_header_addr fit) sz"
proof -
  let ?d = "ac_aligned_data fit" and ?u = "ac_used_header_addr fit" and ?nx = "hb_next (hdr m)"
  let ?be = "m + sizeof_heap_block + hb_size (hdr m)"
  note F = carve_facts [OF rel fit free al] and N = kh_rel_node [OF rel] and C = carve_heap [OF rel fit free al]
  have A: "ac_block fit = m" "ac_prefix_data_size fit = ?u - (m + sizeof_heap_block)" "ac_suffix_total fit = ?be - (?d + sz)"
    using fit by (auto simp: fit_ok_def Let_def)
  have pre: "\<not> (ac_prefix_data_size fit = 0 \<and> ?u = m)" by (simp add: A sizeof_heap_block_def)
  have m52: "unat m + 32 + unat (hb_size (hdr m)) \<le> 2 ^ 52" using N(1) by (simp add: hb_ok_def span_end_def)
  have be: "unat ?be = span_end hdr m" using m52 by (simp add: unat_plus64 span_end_def)
  have dsz: "unat (?d + sz) = unat ?d + unat sz" using F(5) m52 by (simp add: unat_plus64 span_end_def)
  have sfx: "unat (ac_suffix_total fit) = span_end hdr m - (unat ?d + unat sz)"
    using F(5) be dsz by (simp add: A unat_minus_nw)
  let ?c = "carve hdr m ?d"
  have csz: "hb_size (?c ?u) = ac_suffix_total fit + sz"
    using C(3) sfx F(1,5) m52 by (intro word_eq_unatI) (simp add: unat_plus64 span_end_def)
  have c48: "unat (sz + sizeof_heap_block + HEAP_MIN_SPLIT_DATA_SIZE) = unat sz + 48"
    "unat (sizeof_heap_block + HEAP_MIN_SPLIT_DATA_SIZE) = 48"
    using F(5) m52 by (simp_all add: unat_plus64 HEAP_MIN_SPLIT_DATA_SIZE_def span_end_def)
  have cond: "hb_size (?c ?u) > sz + sizeof_heap_block + HEAP_MIN_SPLIT_DATA_SIZE \<longleftrightarrow>
      ac_suffix_total fit > sizeof_heap_block + HEAP_MIN_SPLIT_DATA_SIZE"
    using c48 C(3) sfx F(1,5) by (auto simp: word_less_nat_alt)
  have new: "?u + sizeof_heap_block + sz = ?d + sz" using F(2) by (simp add: hb_data_def)
  have cnx: "hb_next (?c ?u) = ?nx"
    using F(4,7,8) by (auto simp: carve_def Let_def set_prev_simps)
  have sub: "ac_suffix_total fit + sz - sz - sizeof_heap_block = ac_suffix_total fit - sizeof_heap_block" by simp
  have nxu: "?nx \<noteq> ?u" "?nx \<noteq> m" using F(7,8) by auto
  let ?K = "set_prev ?nx ?u (hdr_upd m (hb_next_update (\<lambda>_. ?u))
      (hdr_upd ?u (\<lambda>b. b\<lparr>hb_prev := m, hb_next := ?nx\<rparr>) (hdr_upd m (hb_size_update (\<lambda>_. ac_prefix_data_size fit)) hdr)))"
  let ?r = "\<lparr>hb_size = ac_suffix_total fit - sizeof_heap_block, hb_used = False, hb_next = ?nx, hb_prev = ?u\<rparr>"
  show ?thesis
  proof (cases "ac_suffix_total fit > sizeof_heap_block + HEAP_MIN_SPLIT_DATA_SIZE")
    case True
    let ?s = "?d + sz"
    have lt: "unat ?s < span_end hdr m" using True c48(2) sfx by (simp add: word_less_nat_alt dsz)
    have gt: "unat m < unat ?s" "unat ?u < unat ?s" using dsz F(1,10) by auto
    have sn: "?s \<noteq> ?u" "?s \<noteq> m" using gt by auto
    have "?s \<notin> set (xs @ m # ys)" by (rule inside_fresh [OF rel gt(1) lt])
    then have snx: "?s \<noteq> ?nx \<or> ?nx = 0" using N(2) by (cases ys) auto
    have L: "take_aligned hdr fit sz = set_prev ?nx ?s (hdr_upd ?u (\<lambda>b. b\<lparr>hb_size := sz, hb_next := ?s\<rparr>)
        ((hdr_upd ?u (hb_used_update (\<lambda>_. True)) ?K)(?s := ?r)))"
      unfolding take_aligned_def Let_def A(1) if_not_P [OF pre] if_P [OF True] by (rule refl)
    have R: "take_block ?c ?u sz = hdr_upd ?u (\<lambda>b. b\<lparr>hb_next := ?s, hb_size := sz\<rparr>)
        (set_prev ?nx ?s ((hdr_upd ?u (hb_used_update (\<lambda>_. True)) ?c)(?s := ?r)))"
      using take_block_big [of sz ?c ?u] cond True new cnx csz sn(1) by simp
    show ?thesis
    proof (rule ext)
      fix a
      show "take_aligned hdr fit sz a = take_block ?c ?u sz a"
        unfolding L R using nxu sn snx F(4) unfolding carve_def Let_def
        by (cases "?u = m") (auto simp: set_prev_def A(2))
    qed
  next
    case False
    have L: "take_aligned hdr fit sz = set_prev ?nx ?u (hdr_upd ?u (\<lambda>b. b\<lparr>hb_size := sz + ac_suffix_total fit, hb_next := ?nx\<rparr>)
        (hdr_upd ?u (hb_used_update (\<lambda>_. True)) ?K))"
      unfolding take_aligned_def Let_def A(1) if_not_P [OF pre] if_not_P [OF False] by (rule refl)
    have nc: "\<not> hb_size (?c ?u) > sz + sizeof_heap_block + HEAP_MIN_SPLIT_DATA_SIZE" using False cond by blast
    have R: "take_block ?c ?u sz = hdr_upd ?u (hb_used_update (\<lambda>_. True)) ?c"
      using nc unfolding take_block_def Let_def by simp
    show ?thesis
    proof (rule ext)
      fix a
      show "take_aligned hdr fit sz a = take_block ?c ?u sz a"
        unfolding L R using nxu F(4) csz unfolding carve_def Let_def
        by (cases "?u = m") (auto simp: set_prev_def A(2) add.commute)
    qed
  qed
qed

end
