(* ===== verification/KHeapSpec.thy ===== *)
theory KHeapSpec
  imports KHeapInv
begin

text \<open>
  The contract of the kernel heap: the allocation functions return, hand out
  payloads that are disjoint from everything live, and \<open>free\<close> gives back exactly
  one block. The heap is interpreted as a \<open>block_allocator\<close>, with its three
  allocation functions as the requests, from which the safety of every sequence of
  calls follows.
\<close>

section \<open>Payloads\<close>

lemma used_block_bounds:
  assumes rel: "kh_rel hdr fl ns" and u: "(m, s) \<in> used_in hdr ns"
  shows "m \<in> set ns" "hb_used (hdr m)" "s = hb_size (hdr m)" "unat (hb_data m) = unat m + 32"
    "unat m + 32 + unat s \<le> 2 ^ 52" "hb_data m \<noteq> 0" "16 dvd unat (hb_data m)"
proof -
  show m: "m \<in> set ns" "hb_used (hdr m)" "s = hb_size (hdr m)" using u by (auto simp: used_in_def)
  then have ok: "hb_ok hdr m" using rel by (simp add: kh_rel_def)
  then show "unat m + 32 + unat s \<le> 2 ^ 52" using m(3) by (simp add: hb_ok_def span_end_def)
  show dm: "unat (hb_data m) = unat m + 32" using ok by (simp add: hb_data_def hb_ok_def span_end_def unat_plus64)
  show "hb_data m \<noteq> 0" by (rule hb_data_nonzero [OF ok])
  show "16 dvd unat (hb_data m)" using dm ok by (simp add: hb_ok_def)
qed

lemma kh_rel_spans_disjoint:
  assumes "kh_rel hdr fl ns" "a \<in> set ns" "b \<in> set ns" "a \<noteq> b"
  shows "{unat a ..< span_end hdr a} \<inter> {unat b ..< span_end hdr b} = {}"
proof -
  have "hb_before hdr a b \<or> hb_before hdr b a"
    using assms sorted_wrt_either [of "hb_before hdr" ns a b] by (auto simp: kh_rel_def)
  then show ?thesis by (auto simp: hb_before_def)
qed

lemma used_blocks_disjoint:
  assumes "kh_rel hdr fl ns" "(a, s) \<in> used_in hdr ns" "(b, t) \<in> used_in hdr ns" "a \<noteq> b"
  shows "{unat a + 32 ..< unat a + 32 + unat s} \<inter> {unat b + 32 ..< unat b + 32 + unat t} = {}"
  using kh_rel_spans_disjoint [OF assms(1) _ _ assms(4)] used_block_bounds [OF assms(1,2)] used_block_bounds [OF assms(1,3)]
  unfolding span_end_def by fastforce

text \<open>Zeroing the new block leaves every older block alone.\<close>

lemma km_alloced_zeroed:
  assumes al: "km_alloced km ns sz km1 p" and p: "p \<noteq> 0" and n: "unat n \<le> unat sz"
  defines "km' \<equiv> km1\<lparr>km_heap := (km_heap km1)\<lparr>kh_mem := mem_set (kh_mem (km_heap km1)) p 0 n\<rparr>\<rparr>"
  shows "km_alloced km ns sz km' p" and "\<forall>i < n. kh_mem (km_heap km') (p + i) = 0"
proof -
  show "\<forall>i < n. kh_mem (km_heap km') (p + i) = 0" by (simp add: km'_def mem_set_at)
  from al p obtain ns' m s where K: "km_ok km1 ns'" "p = hb_data m" "unat sz \<le> unat s"
      "\<forall>t. (m, t) \<notin> km_used km ns" "km_used km1 ns' = insert (m, s) (km_used km ns)" "(m, s) \<in> km_used km1 ns'"
    unfolding km_alloced_def by blast
  have rel: "kh_rel (kh_hdr (km_heap km1)) (kh_free_list (km_heap km1)) ns'" using K(1) by (simp add: km_ok_def)
  note U = used_block_bounds [OF rel K(6)]
  have "mem_set (kh_mem (km_heap km1)) p 0 n x = kh_mem (km_heap km1) x"
    if x: "unat x \<in> live_data (kh_hdr (km_heap km)) ns" for x
  proof (rule set_outside)
    show "unat p + unat n \<le> 2 ^ 64" using U(4,5) K(2,3) n by simp
    from x obtain b t where b: "(b, t) \<in> km_used km ns" "unat x \<in> {unat b + 32 ..< unat b + 32 + unat t}"
      by (auto simp: live_data_def)
    have "b \<noteq> m" using b(1) K(4) by blast
    then have "{unat m + 32 ..< unat m + 32 + unat s} \<inter> {unat b + 32 ..< unat b + 32 + unat t} = {}"
      using used_blocks_disjoint [OF rel K(6), of b t] b(1) K(5) by auto
    then show "unat x \<notin> {unat p ..< unat p + unat n}" using b(2) U(4) K(2,3) n by auto
  qed
  then have "data_kept km ns km'" using al by (simp add: km_alloced_def data_kept_def km'_def)
  moreover have "km_ok km' ns'" using K(1) by (simp add: km_ok_def km'_def)
  moreover have "km_used km' ns' = km_used km1 ns'" "kh_expanding (km_heap km') = kh_expanding (km_heap km1)"
    by (simp_all add: km'_def)
  ultimately show "km_alloced km ns sz km' p"
    using al p K unfolding km_alloced_def by metis
qed

lemma allocate_zero_correct:
  assumes ok: "km_ok km ns" and ex: "\<not> kh_expanding (km_heap km)" and sz: "unat sz \<le> 2 ^ 60"
  shows "\<exists>km' p. allocate_zero km sz = Some (km', p) \<and> km_alloced km ns sz km' p \<and>
     (p \<noteq> 0 \<longrightarrow> (\<forall>i < sz. kh_mem (km_heap km') (p + i) = 0))"
proof -
  from kh_allocate_correct [OF ok ex sz] obtain km1 p where
    A: "kh_allocate km sz = Some (km1, p)" "km_alloced km ns sz km1 p" by blast
  show ?thesis
  proof (cases "p = 0")
    case True
    then show ?thesis using A by (simp add: allocate_zero_def)
  next
    case False
    then show ?thesis using A km_alloced_zeroed [OF A(2) False order_refl] by (simp add: allocate_zero_def)
  qed
qed

lemma take_aligned_found:
  assumes ok: "km_ok km (xs @ m # ys)" and free: "\<not> hb_used (kh_hdr (km_heap km) m)" and ex: "\<not> kh_expanding (km_heap km)"
    and fit: "fit_ok (kh_hdr (km_heap km)) m sz k fit" and k: "5 \<le> k" and al: "16 dvd unat sz"
  defines "km' \<equiv> km\<lparr>km_heap := (km_heap km)\<lparr>kh_hdr := take_aligned (kh_hdr (km_heap km)) fit sz\<rparr>\<rparr>"
  shows "km_alloced km (xs @ m # ys) sz km' (ac_aligned_data fit)" and "ac_aligned_data fit \<noteq> 0"
proof -
  let ?hdr = "kh_hdr (km_heap km)" and ?u = "ac_used_header_addr fit"
  have rel: "kh_rel ?hdr (kh_free_list (km_heap km)) (xs @ m # ys)" using ok by (simp add: km_ok_def)
  note F = carve_facts [OF rel fit free k] and C = carve_heap [OF rel fit free k] and E = take_aligned_eq [OF rel fit free k]
  from C(1) obtain us where us: "kh_rel (carve ?hdr m (ac_aligned_data fit)) (kh_free_list (km_heap km)) (us @ ?u # ys)"
      "used_in (carve ?hdr m (ac_aligned_data fit)) (us @ ?u # ys) = used_in ?hdr (xs @ m # ys)"
      "cover (carve ?hdr m (ac_aligned_data fit)) (us @ ?u # ys) \<subseteq> cover ?hdr (xs @ m # ys)" by blast
  let ?km1 = "km\<lparr>km_heap := (km_heap km)\<lparr>kh_hdr := carve ?hdr m (ac_aligned_data fit)\<rparr>\<rparr>"
  have ok1: "km_ok ?km1 (us @ ?u # ys)" using ok us by (auto simp: km_ok_def)
  have "km_alloced ?km1 (us @ ?u # ys) sz (?km1\<lparr>km_heap := (km_heap ?km1)\<lparr>kh_hdr := take_block (kh_hdr (km_heap ?km1)) ?u sz\<rparr>\<rparr>) (hb_data ?u)"
    by (rule take_found [OF ok1]) (use C(2,3) F(1,5) ex al in \<open>auto simp: word_le_nat_alt\<close>)
  moreover have "?km1\<lparr>km_heap := (km_heap ?km1)\<lparr>kh_hdr := take_block (kh_hdr (km_heap ?km1)) ?u sz\<rparr>\<rparr> = km'"
    using E by (simp add: km'_def)
  ultimately have "km_alloced ?km1 (us @ ?u # ys) sz km' (ac_aligned_data fit)" using F(2) by simp
  then show "km_alloced km (xs @ m # ys) sz km' (ac_aligned_data fit)"
    by (rule km_alloced_mono) (use us(2) in \<open>auto simp: data_kept_def\<close>)
  show "ac_aligned_data fit \<noteq> 0" using F(1) by auto
qed

definition aligned_result :: "kmemory \<Rightarrow> u64 list \<Rightarrow> u64 \<Rightarrow> nat \<Rightarrow> kmemory \<Rightarrow> u64 \<Rightarrow> bool" where
  "aligned_result km ns sz k km' p \<longleftrightarrow> km_alloced km ns sz km' p \<and>
     (p \<noteq> 0 \<longrightarrow> 2 ^ k dvd unat p \<and> (\<forall>i < sz. kh_mem (km_heap km') (p + i) = 0))"

text \<open>No free block is large enough for the size and the worst placement, and the heap cannot grow.\<close>

definition aligned_refused :: "kmemory \<Rightarrow> u64 list \<Rightarrow> u64 \<Rightarrow> nat \<Rightarrow> bool" where
  "aligned_refused km ns sz k \<longleftrightarrow>
     (\<forall>a \<in> set ns. hb_used (kh_hdr (km_heap km) a) \<or> unat (hb_size (kh_hdr (km_heap km) a)) < unat sz + 48 + 2 ^ k) \<and>
     (\<exists>km1. expand (km\<lparr>km_heap := (km_heap km)\<lparr>kh_expanding := True\<rparr>\<rparr>) sz (2 ^ k) = Some (km1, False))"

lemma aligned_loop_fit:
  assumes ok: "km_ok km (xs @ b # ys)" and ex: "\<not> kh_expanding (km_heap km)" and sz: "16 dvd unat sz" and k: "5 \<le> k"
    and f: "find_aligned_heap_block (kh_hdr (km_heap km)) (kh_free_list (km_heap km)) sz al = Some fit"
    and b: "\<not> hb_used (kh_hdr (km_heap km) b)" "fit_ok (kh_hdr (km_heap km)) b sz k fit"
  shows "\<exists>km' p. p \<noteq> 0 \<and> aligned_loop km sz al = Some (km', p) \<and> aligned_result km (xs @ b # ys) sz k km' p"
proof -
  let ?hdr = "kh_hdr (km_heap km)"
  note T = take_aligned_found [OF ok b(1) ex b(2) k sz]
  have "b \<noteq> 0" using ok by (auto simp: km_ok_def kh_rel_def hb_ok_def)
  moreover have d: "ac_block fit = b" "2 ^ k dvd unat (ac_aligned_data fit)" using b(2) by (auto simp: fit_ok_def Let_def)
  ultimately have "aligned_loop km sz al = Some (km\<lparr>km_heap := (km_heap km)\<lparr>kh_hdr := take_aligned ?hdr fit sz,
        kh_mem := mem_set (kh_mem (km_heap km)) (ac_aligned_data fit) 0 sz\<rparr>\<rparr>, ac_aligned_data fit)"
    using f by (subst aligned_loop.simps) (simp add: Let_def)
  then show ?thesis using km_alloced_zeroed [OF T order_refl] d(2) T(2) by (auto simp: aligned_result_def)
qed

lemma aligned_search:
  assumes ok: "km_ok km ns" and ex: "\<not> kh_expanding (km_heap km)" and sz: "16 dvd unat sz" "unat sz \<le> 2 ^ 61"
    and al: "al = 2 ^ k" "5 \<le> k" "k \<le> 61"
  obtains (found) "\<exists>km' p. p \<noteq> 0 \<and> aligned_loop km sz al = Some (km', p) \<and> aligned_result km ns sz k km' p"
    | (none) fit where "find_aligned_heap_block (kh_hdr (km_heap km)) (kh_free_list (km_heap km)) sz al = Some fit"
        "ac_block fit = 0" "\<forall>a \<in> set ns. hb_used (kh_hdr (km_heap km) a) \<or>
           unat (hb_size (kh_hdr (km_heap km) a)) < unat sz + 48 + 2 ^ k"
proof -
  let ?hdr = "kh_hdr (km_heap km)" and ?fl = "kh_free_list (km_heap km)"
  have oks: "\<And>a. a \<in> set ns \<Longrightarrow> hb_ok ?hdr a" using ok by (auto simp: km_ok_def kh_rel_def)
  have ch: "chain (hb_succ ?hdr) (ptr ?fl) ns None" using chain_of_km_ok [OF ok] by blast
  from find_aligned_cases [OF ch oks sz(2) al]
  consider (n) fit where "find_aligned_heap_block ?hdr ?fl sz al = Some fit" "ac_block fit = 0"
      "\<forall>a \<in> set ns. hb_used (?hdr a) \<or> unat (hb_size (?hdr a)) < unat sz + 48 + 2 ^ k"
    | (s) xs b ys fit where "ns = xs @ b # ys" "find_aligned_heap_block ?hdr ?fl sz al = Some fit" "\<not> hb_used (?hdr b)"
      "fit_ok ?hdr b sz k fit" by blast
  then show thesis
  proof cases
    case s
    then show thesis using found aligned_loop_fit [OF ok [unfolded s(1)] ex sz(1) al(2) s(2-4)] by blast
  qed (rule none)
qed

lemma aligned_loop_correct:
  assumes ok: "km_ok km ns" and ex: "\<not> kh_expanding (km_heap km)" and sz: "16 dvd unat sz" "unat sz \<le> 2 ^ 61"
    and al: "al = 2 ^ k" "5 \<le> k" "k \<le> 61"
  shows "\<exists>km' p. aligned_loop km sz al = Some (km', p) \<and> aligned_result km ns sz k km' p \<and> (p = 0 \<longrightarrow> aligned_refused km ns sz k)"
  using ok ex sz al
proof (cases rule: aligned_search)
  case found
  then show ?thesis by blast
next
  case none
  let ?km1 = "km\<lparr>km_heap := (km_heap km)\<lparr>kh_expanding := True\<rparr>\<rparr>"
  have step: "aligned_loop km sz al = do {
         (km, expanded) \<leftarrow> expand ?km1 sz al;
         let km = km\<lparr>km_heap := (km_heap km)\<lparr>kh_expanding := False\<rparr>\<rparr>;
         if \<not> expanded then Some (km, 0) else aligned_loop km sz al
       }" using none ex by (subst aligned_loop.simps) (simp add: Let_def)
  have ok1: "km_ok ?km1 ns" using ok by (simp add: km_flag)
  have k4: "4 \<le> k" using al(2) by simp
  from expand_correct [OF ok1 al(1) k4 al(3) sz(2)]
  consider (no) "expand ?km1 sz al = Some (?km1, False)"
    | (yes) km2 ns' m where "expand ?km1 sz al = Some (km2, True)" "km_ok km2 ns'"
      "km_used km2 ns' = km_used km ns" "data_kept ?km1 ns km2" "m \<in> set ns'"
      "\<not> hb_used (kh_hdr (km_heap km2) m)" "2 * (unat sz + max (2 ^ k) 4096) + 4096 \<le> unat (hb_size (kh_hdr (km_heap km2) m))"
    by fastforce
  then show ?thesis
  proof cases
    case no
    have "km\<lparr>km_heap := (km_heap km)\<lparr>kh_expanding := False\<rparr>\<rparr> = km" using ex by simp
    then have "aligned_loop km sz al = Some (km, 0)" using step no by simp
    then show ?thesis using ok ex no none(3) al(1) by (auto simp: aligned_result_def km_alloced_def data_kept_def aligned_refused_def)
  next
    case yes
    let ?km3 = "km2\<lparr>km_heap := (km_heap km2)\<lparr>kh_expanding := False\<rparr>\<rparr>"
    have fits: "unat sz + 48 + 2 ^ k \<le> unat (hb_size (kh_hdr (km_heap ?km3) m))" using yes(7) by simp
    have "aligned_loop km sz al = aligned_loop ?km3 sz al" using step yes by simp
    moreover have "\<exists>km' p. p \<noteq> 0 \<and> aligned_loop ?km3 sz al = Some (km', p) \<and> aligned_result ?km3 ns' sz k km' p"
    proof -
      have "km_ok ?km3 ns'" "\<not> kh_expanding (km_heap ?km3)" using yes(2) by (simp_all add: km_flag)
      from this sz al show ?thesis
      proof (cases rule: aligned_search)
        case (none fit)
        then show ?thesis using yes(5,6) fits by auto
      qed
    qed
    moreover have "km_used ?km3 ns' = km_used km ns" "data_kept km ns ?km3"
      using yes by (auto simp: data_kept_def)
    ultimately show ?thesis unfolding aligned_result_def using km_alloced_mono by metis
  qed
qed

lemma km_alloced_less:
  assumes al: "km_alloced km ns sz km' p" and n: "unat n \<le> unat sz"
  shows "km_alloced km ns n km' p"
proof -
  have "unat n \<le> unat s" if "unat sz \<le> unat s" for s :: u64 using that n by simp
  then show ?thesis using al unfolding km_alloced_def by blast
qed

lemma km_alloced_nothing: "km_ok km ns \<Longrightarrow> \<not> kh_expanding (km_heap km) \<Longrightarrow> km_alloced km ns sz km 0"
  by (auto simp: km_alloced_def data_kept_def)

lemma km_alloced_16:
  assumes "km_alloced km ns sz km' p" and "p \<noteq> 0" shows "16 dvd unat p"
proof -
  from assms obtain ns' m s where K: "km_ok km' ns'" "p = hb_data m" "(m, s) \<in> km_used km' ns'"
    unfolding km_alloced_def by blast
  then show ?thesis using used_block_bounds(7) [of "kh_hdr (km_heap km')" _ ns' m s] by (auto simp: km_ok_def)
qed

lemma align16:
  assumes "unat sz \<le> 2 ^ 60"
  shows "16 dvd unat (align_up sz HEAP_MIN_ALIGNMENT)" "unat (align_up sz HEAP_MIN_ALIGNMENT) \<le> 2 ^ 61"
    "unat sz \<le> unat (align_up sz HEAP_MIN_ALIGNMENT)"
proof -
  have A: "HEAP_MIN_ALIGNMENT = 2 ^ 4" by (simp add: HEAP_MIN_ALIGNMENT_def)
  have w: "unat sz + 2 ^ 4 \<le> 2 ^ 64" using assms by simp
  note b = align_up_bounds [OF A _ w] and d = align_up_dvd [OF A _ w]
  show "16 dvd unat (align_up sz HEAP_MIN_ALIGNMENT)" "unat (align_up sz HEAP_MIN_ALIGNMENT) \<le> 2 ^ 61"
    "unat sz \<le> unat (align_up sz HEAP_MIN_ALIGNMENT)" using b d assms by auto
qed

lemma pow2_le_16: "k < 64 \<Longrightarrow> (2 ^ k :: u64) \<le> HEAP_MIN_ALIGNMENT \<longleftrightarrow> k \<le> 4"
proof -
  assume "k < 64"
  then have e: "(2 ^ k :: u64) \<le> HEAP_MIN_ALIGNMENT \<longleftrightarrow> (2::nat) ^ k \<le> 2 ^ 4"
    by (simp add: word_le_nat_alt unat_pow2 HEAP_MIN_ALIGNMENT_def)
  show ?thesis unfolding e by (rule power_increasing_iff) simp
qed

lemma pow2_and_pred: "k < 64 \<Longrightarrow> (2 ^ k :: u64) AND (2 ^ k - 1) = 0"
proof -
  assume k: "k < 64"
  have "is_aligned (2 ^ k) (2 ^ k :: u64)" using k by (subst is_aligned_iff [OF refl]) (simp add: unat_pow2)
  then show ?thesis by (simp add: is_aligned_def)
qed

lemma allocate_zero_aligned_large:
  assumes ok: "km_ok km ns" and ex: "\<not> kh_expanding (km_heap km)" and sz: "sz \<noteq> 0" "unat sz \<le> 2 ^ 60" and k: "5 \<le> k" "k \<le> 60"
  shows "\<exists>km' p. allocate_zero_aligned km sz (2 ^ k) = Some (km', p) \<and> aligned_result km ns sz k km' p \<and>
     (p = 0 \<longrightarrow> aligned_refused km ns (align_up sz HEAP_MIN_ALIGNMENT) k)"
proof -
  note A = align16 [OF sz(2)]
  have k61: "k \<le> 61" using k by simp
  from aligned_loop_correct [OF ok ex A(1,2) refl k(1) k61] obtain km' p where
    L: "aligned_loop km (align_up sz HEAP_MIN_ALIGNMENT) (2 ^ k) = Some (km', p)"
      "aligned_result km ns (align_up sz HEAP_MIN_ALIGNMENT) k km' p" "p = 0 \<longrightarrow> aligned_refused km ns (align_up sz HEAP_MIN_ALIGNMENT) k" by blast
  have "i < align_up sz HEAP_MIN_ALIGNMENT" if "i < sz" for i using that A(3) by (simp add: word_less_nat_alt)
  then have "aligned_result km ns sz k km' p"
    using L(2) km_alloced_less [OF _ A(3)] unfolding aligned_result_def by blast
  moreover have "allocate_zero_aligned km sz (2 ^ k) = aligned_loop km (align_up sz HEAP_MIN_ALIGNMENT) (2 ^ k)"
    using sz(1) k pow2_and_pred [of k] by (simp add: allocate_zero_aligned_def pow2_le_16)
  ultimately show ?thesis using L(1,3) by auto
qed

lemma allocate_zero_aligned_correct:
  assumes ok: "km_ok km ns" and ex: "\<not> kh_expanding (km_heap km)" and sz: "unat sz \<le> 2 ^ 60" and k: "k \<le> 60"
  shows "\<exists>km' p. allocate_zero_aligned km sz (2 ^ k) = Some (km', p) \<and> aligned_result km ns sz k km' p"
proof -
  consider "sz = 0" | "sz \<noteq> 0" "k \<le> 4" | "sz \<noteq> 0" "5 \<le> k" by linarith
  then show ?thesis
  proof cases
    case 1
    then show ?thesis using km_alloced_nothing [OF ok ex, of 0]
      by (intro exI [of _ km] exI [of _ 0]) (simp add: allocate_zero_aligned_def aligned_result_def)
  next
    case 2
    have dv: "2 ^ k dvd unat p" if "16 dvd unat p" for p :: u64
    proof -
      have "(2::nat) ^ k dvd 2 ^ 4" using 2(2) by (rule le_imp_power_dvd)
      then have "(2::nat) ^ k dvd 16" by simp
      then show ?thesis using that by (rule dvd_trans)
    qed
    from allocate_zero_correct [OF ok ex sz] obtain km' p where
      Z: "allocate_zero km sz = Some (km', p)" "km_alloced km ns sz km' p"
        "p \<noteq> 0 \<Longrightarrow> \<forall>i < sz. kh_mem (km_heap km') (p + i) = 0" by blast
    then have "aligned_result km ns sz k km' p" using dv km_alloced_16 unfolding aligned_result_def by blast
    then show ?thesis using 2 k Z(1) by (auto simp: allocate_zero_aligned_def pow2_le_16)
  next
    case 3
    then show ?thesis using allocate_zero_aligned_large [OF ok ex _ sz _ k] by blast
  qed
qed

lemma kh_free_correct:
  assumes ok: "km_ok km ns" and u: "(m, s) \<in> km_used km ns"
  shows "\<exists>ns'. km_ok (kh_free km (hb_data m)) ns' \<and> km_used (kh_free km (hb_data m)) ns' = km_used km ns - {(m, s)} \<and>
     kh_mem (km_heap (kh_free km (hb_data m))) = kh_mem (km_heap km) \<and>
     kh_expanding (km_heap (kh_free km (hb_data m))) = kh_expanding (km_heap km)"
proof -
  let ?hdr = "kh_hdr (km_heap km)"
  have rel: "kh_rel ?hdr (kh_free_list (km_heap km)) ns" using ok by (simp add: km_ok_def)
  note U = used_block_bounds [OF rel u]
  obtain xs ys where ns: "ns = xs @ m # ys" using U(1) by (auto dest: split_list)
  have bk: "hb_data m - sizeof_heap_block = m" by (simp add: hb_data_def)
  from release_block_correct [OF rel [unfolded ns] U(2)] obtain ns' where
    "kh_rel (release_block ?hdr m) (kh_free_list (km_heap km)) ns'"
    "used_in (release_block ?hdr m) ns' = used_in ?hdr ns - {(m, s)}" "cover (release_block ?hdr m) ns' = cover ?hdr ns"
    using ns U(3) by blast
  then show ?thesis using ok U(6) bk by (intro exI [of _ ns']) (simp add: kh_free_def km_ok_def)
qed

section \<open>The heap as a block allocator\<close>

definition km_inv :: "kmemory \<Rightarrow> bool" where
  "km_inv km \<longleftrightarrow> \<not> kh_expanding (km_heap km) \<and> (\<exists>ns. km_ok km ns)"

definition kh_live :: "kmemory \<Rightarrow> u64 \<Rightarrow> nat set" where
  "kh_live km p = {x. \<exists>ns m s. km_ok km ns \<and> (m, s) \<in> km_used km ns \<and> p = hb_data m \<and>
      unat m + 32 \<le> x \<and> x < unat m + 32 + unat s}"

datatype heap_request = Plain u64 | Zeroed u64 | Aligned u64 nat

fun heap_len :: "heap_request \<Rightarrow> u64" where
  "heap_len (Plain n) = n" | "heap_len (Zeroed n) = n" | "heap_len (Aligned n k) = n"

fun heap_valid :: "heap_request \<Rightarrow> bool" where
  "heap_valid (Aligned n k) \<longleftrightarrow> n \<noteq> 0 \<and> unat n \<le> 2 ^ 60 \<and> k \<le> 60"
| "heap_valid r \<longleftrightarrow> heap_len r \<noteq> 0 \<and> unat (heap_len r) \<le> 2 ^ 60"

fun heap_alloc :: "kmemory \<Rightarrow> heap_request \<Rightarrow> (kmemory \<times> u64) option" where
  "heap_alloc km (Plain n) = kh_allocate km n"
| "heap_alloc km (Zeroed n) = allocate_zero km n"
| "heap_alloc km (Aligned n k) = allocate_zero_aligned km n (2 ^ k)"

definition heap_release :: "kmemory \<Rightarrow> u64 \<Rightarrow> heap_request \<Rightarrow> kmemory option" where
  "heap_release km p r = Some (kh_free km p)"

lemma km_ok_unique: "km_ok km ns \<Longrightarrow> km_ok km ms \<Longrightarrow> ns = ms"
  by (auto simp: km_ok_def intro: kh_rel_unique)

lemma kh_live_eq:
  assumes "km_ok km ns"
  shows "kh_live km p = {x. \<exists>m s. (m, s) \<in> km_used km ns \<and> p = hb_data m \<and> unat m + 32 \<le> x \<and> x < unat m + 32 + unat s}"
  unfolding kh_live_def using assms km_ok_unique [OF assms] by blast

lemma hb_data_inj: "hb_data m = hb_data m' \<longleftrightarrow> m = m'"
  by (simp add: hb_data_def)

lemma kh_live_disjoint:
  assumes "km_inv km" "p \<noteq> q" shows "kh_live km p \<inter> kh_live km q = {}"
proof -
  from assms(1) obtain ns where ok: "km_ok km ns" by (auto simp: km_inv_def)
  then have rel: "kh_rel (kh_hdr (km_heap km)) (kh_free_list (km_heap km)) ns" by (simp add: km_ok_def)
  { fix x assume "x \<in> kh_live km p" "x \<in> kh_live km q"
    then obtain a s b t where u: "(a, s) \<in> km_used km ns" "p = hb_data a" "x \<in> {unat a + 32 ..< unat a + 32 + unat s}"
        "(b, t) \<in> km_used km ns" "q = hb_data b" "x \<in> {unat b + 32 ..< unat b + 32 + unat t}"
      unfolding kh_live_eq [OF ok] by auto
    then have "a \<noteq> b" using assms(2) by auto
    then have False using used_blocks_disjoint [OF rel u(1,4)] u(3,6) by blast }
  then show ?thesis by blast
qed

lemma heap_alloc_correct:
  assumes "km_ok km ns" "\<not> kh_expanding (km_heap km)" "heap_valid r"
  shows "\<exists>km' p. heap_alloc km r = Some (km', p) \<and> km_alloced km ns (heap_len r) km' p"
proof (cases r)
  case (Plain n)
  then show ?thesis using kh_allocate_correct [OF assms(1,2)] assms(3) by simp
next
  case (Zeroed n)
  then show ?thesis using allocate_zero_correct [OF assms(1,2), of n] assms(3) by auto
next
  case (Aligned n k)
  then show ?thesis using allocate_zero_aligned_correct [OF assms(1,2), of n k] assms(3) by (auto simp: aligned_result_def)
qed

lemma km_alloced_live:
  assumes ok: "km_ok km ns" and al: "km_alloced km ns n km' p"
  shows "km_inv km'" and "p = 0 \<Longrightarrow> kh_live km' = kh_live km"
    and "p \<noteq> 0 \<Longrightarrow> kh_live km p = {} \<and> {unat p ..< unat p + unat n} \<subseteq> kh_live km' p \<and>
      (\<forall>q. q \<noteq> p \<longrightarrow> kh_live km' q = kh_live km q)"
proof -
  from al obtain ns' where K: "km_ok km' ns'" "\<not> kh_expanding (km_heap km')"
    "p = 0 \<Longrightarrow> km_used km' ns' = km_used km ns"
    "p \<noteq> 0 \<Longrightarrow> \<exists>m s. p = hb_data m \<and> unat n \<le> unat s \<and> (\<forall>t. (m, t) \<notin> km_used km ns) \<and>
           km_used km' ns' = insert (m, s) (km_used km ns) \<and> (m, s) \<in> km_used km' ns'"
    unfolding km_alloced_def by blast
  show "km_inv km'" using K(1,2) by (auto simp: km_inv_def)
  show "kh_live km' = kh_live km" if "p = 0"
    using K(3) [OF that] by (auto simp: fun_eq_iff kh_live_eq [OF ok] kh_live_eq [OF K(1)])
  assume "p \<noteq> 0"
  then obtain m s where M: "p = hb_data m" "unat n \<le> unat s" "\<forall>t. (m, t) \<notin> km_used km ns"
      "km_used km' ns' = insert (m, s) (km_used km ns)" "(m, s) \<in> km_used km' ns'" using K(4) by blast
  have rel': "kh_rel (kh_hdr (km_heap km')) (kh_free_list (km_heap km')) ns'" using K(1) by (simp add: km_ok_def)
  note U = used_block_bounds(4) [OF rel' M(5)]
  have "kh_live km p = {}" using M(1,3) unfolding kh_live_eq [OF ok] by (auto simp: hb_data_inj)
  moreover have "{unat p ..< unat p + unat n} \<subseteq> kh_live km' p"
  proof
    fix x assume "x \<in> {unat p ..< unat p + unat n}"
    then have "unat m + 32 \<le> x \<and> x < unat m + 32 + unat s" using M(1,2) U by auto
    then show "x \<in> kh_live km' p" unfolding kh_live_eq [OF K(1)] using M(1,5) by blast
  qed
  moreover have "kh_live km' q = kh_live km q" if "q \<noteq> p" for q
    using that M(1,4) unfolding kh_live_eq [OF ok] kh_live_eq [OF K(1)] by auto
  ultimately show "kh_live km p = {} \<and> {unat p ..< unat p + unat n} \<subseteq> kh_live km' p \<and>
      (\<forall>q. q \<noteq> p \<longrightarrow> kh_live km' q = kh_live km q)" by blast
qed

lemma kh_free_live:
  assumes inv: "km_inv km" and p: "kh_live km p \<noteq> {}"
  shows "km_inv (kh_free km p)" and "kh_live (kh_free km p) p = {}" and "q \<noteq> p \<Longrightarrow> kh_live (kh_free km p) q = kh_live km q"
proof -
  from inv obtain ns where ok: "km_ok km ns" and ex: "\<not> kh_expanding (km_heap km)" by (auto simp: km_inv_def)
  from p obtain m s where m: "(m, s) \<in> km_used km ns" "p = hb_data m" unfolding kh_live_eq [OF ok] by blast
  from kh_free_correct [OF ok m(1)] obtain ns' where F: "km_ok (kh_free km p) ns'"
      "km_used (kh_free km p) ns' = km_used km ns - {(m, s)}"
      "kh_expanding (km_heap (kh_free km p)) = kh_expanding (km_heap km)" using m(2) by blast
  show "km_inv (kh_free km p)" using F(1,3) ex by (auto simp: km_inv_def)
  have only: "t = s" if "(m, t) \<in> km_used km ns" for t using that m(1) by (auto simp: used_in_def)
  show "kh_live (kh_free km p) p = {}"
    using F(2) m(2) only unfolding kh_live_eq [OF F(1)] by (auto simp: hb_data_inj)
  show "kh_live (kh_free km p) q = kh_live km q" if "q \<noteq> p"
    using that F(2) m(2) unfolding kh_live_eq [OF F(1)] kh_live_eq [OF ok] by auto
qed

interpretation heap: block_allocator km_inv kh_live heap_alloc heap_release heap_valid "\<lambda>r. unat (heap_len r)"
proof unfold_locales
  fix s s' :: kmemory and r a b
  show "kh_live s a \<inter> kh_live s b = {}" if "km_inv s" "a \<noteq> b" by (rule kh_live_disjoint [OF that])
  show "0 < unat (heap_len r)" if "heap_valid r" using that by (cases r) (auto simp: unat_gt_0)
  assume inv: "km_inv s" and v: "heap_valid r"
  from inv obtain ns where ok: "km_ok s ns" and ex: "\<not> kh_expanding (km_heap s)" by (auto simp: km_inv_def)
  note A = heap_alloc_correct [OF ok ex v]
  then show "\<exists>s' a. heap_alloc s r = Some (s', a)" by blast
  show "km_inv s' \<and> kh_live s' = kh_live s" if "heap_alloc s r = Some (s', 0)"
    using A that km_alloced_live(1,2) [OF ok] by fastforce
  show "km_inv s' \<and> kh_live s a = {} \<and> {unat a ..< unat a + unat (heap_len r)} \<subseteq> kh_live s' a \<and>
      (\<forall>b. b \<noteq> a \<longrightarrow> kh_live s' b = kh_live s b)" if "heap_alloc s r = Some (s', a)" "a \<noteq> 0"
    using A that km_alloced_live(1,3) [OF ok, of "heap_len r" s' a] by auto
  show "\<exists>s'. heap_release s a r = Some s' \<and> km_inv s' \<and> kh_live s' a = {} \<and> (\<forall>b. b \<noteq> a \<longrightarrow> kh_live s' b = kh_live s b)"
    if "kh_live s a \<noteq> {}"
    using kh_free_live [OF inv that] by (simp add: heap_release_def)
qed

section \<open>Bringing the memory subsystem up\<close>

definition km_boot :: kmemory where
  "km_boot = \<lparr>km_heap = \<lparr>kh_free_list = 0, kh_total_bytes = 0, kh_subheap_count = 0, kh_expanding = False,
      kh_hdr = (\<lambda>_. \<lparr>hb_size = 0, hb_used = False, hb_next = 0, hb_prev = 0\<rparr>), kh_mem = (\<lambda>_. 0)\<rparr>,
      km_phys = pa_boot, km_map = []\<rparr>"

text \<open>What the linker script gives for \<open>g_initial_kernel_heap\<close>: page aligned, outside the free memory.\<close>

definition heap_base_ok :: "u64 \<Rightarrow> memory_map_entry list \<Rightarrow> bool" where
  "heap_base_ok base es \<longleftrightarrow> base \<noteq> 0 \<and> 4096 dvd unat base \<and> unat base + unat initial_kernel_heap_size \<le> 2 ^ 52 \<and>
     {unat base ..< unat base + unat initial_kernel_heap_size} \<inter> free_map_bytes es = {}"

lemma memory_init_establishes:
  assumes es: "memory_map_ok es" "es \<noteq> []" and base: "heap_base_ok base es"
  shows "\<exists>km. memory_init base km_boot es = (km, success) \<and> km_ok km [base] \<and> km_inv km \<and> km_used km [base] = {} \<and>
     cover (kh_hdr (km_heap km)) [base] = {unat base ..< unat base + unat initial_kernel_heap_size} \<and>
     km_map km = take max_memory_map_entries es"
proof -
  let ?sz = initial_kernel_heap_size
  have szv: "unat ?sz = 67108864" by (simp add: initial_kernel_heap_size_def)
  obtain pa where pa: "pa_init pa_boot es = (pa, success)" by (simp add: pa_init_def)
  note P = pa_init_establishes [OF es(1) pa]
  let ?h = "\<lparr>hb_size = ?sz - sizeof_heap_block, hb_used = False, hb_next = 0, hb_prev = 0\<rparr>"
  let ?km = "km_boot\<lparr>km_map := take max_memory_map_entries es, km_phys := pa,
      km_heap := (km_heap km_boot)\<lparr>kh_mem := mem_set (kh_mem (km_heap km_boot)) base 0 ?sz, kh_free_list := base,
        kh_hdr := (kh_hdr (km_heap km_boot))(base := ?h), kh_total_bytes := ?sz, kh_subheap_count := 1, kh_expanding := False\<rparr>\<rparr>"
  have b: "base \<noteq> 0" "4096 dvd unat base" "unat base + 67108864 \<le> 2 ^ 52"
    "{unat base ..< unat base + 67108864} \<inter> free_map_bytes es = {}" using base szv by (auto simp: heap_base_ok_def)
  have hs: "unat (?sz - sizeof_heap_block) = 67108832" by (simp add: initial_kernel_heap_size_def sizeof_heap_block_def)
  have "memory_init base km_boot es = (?km, success)"
    using es(2) pa b(1) szv by (simp add: memory_init_def kh_init_def word_le_nat_alt km_boot_def Let_def)
  moreover have "16 dvd unat base" using b(2) dvd_trans [of 16 4096 "unat base"] by simp
  then have "kh_rel (kh_hdr (km_heap ?km)) base [base]"
    using b hs by (simp add: kh_rel_def hb_ok_def span_end_def)
  moreover have c: "cover (kh_hdr (km_heap ?km)) [base] = {unat base ..< unat base + unat ?sz}"
    using hs szv by (simp add: span_end_def add.commute)
  moreover have "cover (kh_hdr (km_heap ?km)) [base] \<inter> pa_free_bytes pa = {}" using P b(4) szv unfolding c by auto
  ultimately show ?thesis using P
    by (intro exI [of _ ?km]) (auto simp: km_ok_def km_inv_def intro!: exI [of _ "[base]"])
qed

section \<open>Properties\<close>

definition example_heap :: kmemory where
  "example_heap = fst (memory_init 0x400000 km_boot example_map)"

definition example_heap_taken :: kmemory where
  "example_heap_taken = fst (the (kh_allocate example_heap 100))"

lemma example_free_bytes: "free_map_bytes example_map \<subseteq> {..< 0x400000}"
  by (auto simp: free_map_bytes_def example_map_def entry_bytes_def entry_is_free_def)

lemma example_base_ok: "heap_base_ok 0x400000 example_map"
proof -
  have "{unat (0x400000 :: u64) ..< unat (0x400000 :: u64) + unat initial_kernel_heap_size} \<inter> {..< 0x400000} = {}" by auto
  then have "{unat (0x400000 :: u64) ..< unat (0x400000 :: u64) + unat initial_kernel_heap_size} \<inter> free_map_bytes example_map = {}"
    using example_free_bytes by blast
  then show ?thesis by (simp add: heap_base_ok_def initial_kernel_heap_size_def)
qed

lemma example_map_nonempty: "example_map \<noteq> []"
  by (simp add: example_map_def)

lemma example_heap_facts:
  shows "memory_init 0x400000 km_boot example_map = (example_heap, success)" and "km_ok example_heap [0x400000]"
    and "km_inv example_heap" and "km_used example_heap [0x400000] = {}"
  using memory_init_establishes [OF example_map_ok example_map_nonempty example_base_ok]
  by (auto simp: example_heap_def)

lemma example_heap_idle: "\<not> kh_expanding (km_heap example_heap)"
  using example_heap_facts(3) by (simp add: km_inv_def)

lemma example_heap_alloc: "kh_allocate example_heap 100 = Some (example_heap_taken, 0x400020)"
proof -
  have "map_option snd (kh_allocate example_heap 100) = Some 0x400020" by code_simp
  then show ?thesis by (auto simp: example_heap_taken_def)
qed

text \<open>
  C2. Once \<open>memory::init\<close> has run on a well-formed memory map, however the kernel mixes
  \<open>allocate\<close>, \<open>allocate_zero\<close>, \<open>allocate_zero_aligned\<close> and \<open>free\<close> of blocks it holds, every
  call returns, the invariant holds, and the payloads held at any moment are pairwise disjoint.
\<close>

theorem heap_runs_are_safe:
  assumes "memory_map_ok es" "es \<noteq> []" "heap_base_ok base es" "memory_init base km_boot es = (km0, st)"
    and "block_run heap_alloc heap_release heap_valid km0 km L"
  shows "km_inv km \<and> (\<forall>r. heap_valid r \<longrightarrow> (\<exists>km' p. heap_alloc km r = Some (km', p))) \<and>
    (\<forall>p r q r'. (p, r) \<in> L \<longrightarrow> (q, r') \<in> L \<longrightarrow> (p, r) \<noteq> (q, r') \<longrightarrow>
       {unat p ..< unat p + unat (heap_len r)} \<inter> {unat q ..< unat q + unat (heap_len r')} = {})"
proof -
  have inv: "km_inv km0" using memory_init_establishes [OF assms(1-3)] assms(4) by auto
  have "km_inv km" using heap.run_holds [OF assms(5) inv] unfolding heap.holds_def by blast
  then show ?thesis using heap.run_disjoint [OF assms(5) inv] heap.alloc_total by blast
qed

lemma heap_runs_are_safe_witness:
  "block_run heap_alloc heap_release heap_valid example_heap example_heap_taken {(0x400020, Plain 100)} \<and> km_inv example_heap_taken"
proof -
  have "block_run heap_alloc heap_release heap_valid example_heap example_heap_taken
      (if (0x400020 :: u64) = 0 then {} else insert (0x400020, Plain 100) {})"
    by (rule run_take [OF run_start]) (use example_heap_alloc in simp_all)
  then have r: "block_run heap_alloc heap_release heap_valid example_heap example_heap_taken {(0x400020, Plain 100)}" by simp
  show ?thesis
    using r heap_runs_are_safe [OF example_map_ok example_map_nonempty example_base_ok example_heap_facts(1) r] by blast
qed

text \<open>
  \<open>kernel_heap::allocate\<close> always returns (growing the heap from the page allocator when no
  block fits, at most once); on success a block that was not in use and is large enough becomes
  the one new used block, its payload is 16-byte aligned, and no other block's payload changes.
\<close>

lemma kh_allocate_safe:
  assumes "km_ok km ns" and "\<not> kh_expanding (km_heap km)" and "unat sz \<le> 2 ^ 60"
  shows "\<exists>km' p. kh_allocate km sz = Some (km', p) \<and> km_alloced km ns sz km' p \<and> (p \<noteq> 0 \<longrightarrow> 16 dvd unat p)"
  using kh_allocate_correct [OF assms] km_alloced_16 by blast

text \<open>
  C4. \<open>kernel_heap::free\<close> of a used block removes exactly that block from the used blocks and
  keeps the invariant, whichever neighbours it coalesces with.
\<close>

theorem kh_free_safe:
  assumes "km_ok km ns" and "(m, s) \<in> km_used km ns"
  shows "\<exists>ns'. km_ok (kh_free km (hb_data m)) ns' \<and> km_used (kh_free km (hb_data m)) ns' = km_used km ns - {(m, s)} \<and>
     kh_mem (km_heap (kh_free km (hb_data m))) = kh_mem (km_heap km)"
  using kh_free_correct [OF assms] by blast

lemma kh_free_safe_witness: "\<exists>ns ns'. km_ok example_heap_taken ns \<and> km_ok (kh_free example_heap_taken 0x400020) ns'"
proof -
  have "km_alloced example_heap [0x400000] 100 example_heap_taken 0x400020"
    using kh_allocate_correct [OF example_heap_facts(2) example_heap_idle, of 100] example_heap_alloc by simp
  then obtain ns m s where "km_ok example_heap_taken ns" "0x400020 = hb_data m" "(m, s) \<in> km_used example_heap_taken ns"
    unfolding km_alloced_def by auto
  then show ?thesis using kh_free_safe [of example_heap_taken ns m s] by auto
qed

text \<open>
  \<open>memory::init\<close> on a well-formed memory map succeeds and establishes the invariant: one
  free block over the whole reserved heap, none of whose bytes the page allocator can hand out.
\<close>

lemma memory_init_correct:
  assumes "memory_map_ok es" "es \<noteq> []" "heap_base_ok base es"
  shows "\<exists>km. memory_init base km_boot es = (km, success) \<and> km_inv km \<and> km_ok km [base] \<and> km_used km [base] = {} \<and>
     cover (kh_hdr (km_heap km)) [base] = {unat base ..< unat base + unat initial_kernel_heap_size}"
  using memory_init_establishes [OF assms] by blast

text \<open>A live payload overlaps no block header and no page the page allocator considers free.\<close>

lemma heap_payload_isolated:
  assumes "km_ok km ns"
  shows "\<forall>a \<in> set ns. kh_live km p \<inter> {unat a ..< unat a + 32} = {}" "kh_live km p \<inter> pa_free_bytes (km_phys km) = {}"
proof -
  have rel: "kh_rel (kh_hdr (km_heap km)) (kh_free_list (km_heap km)) ns"
    and sep: "cover (kh_hdr (km_heap km)) ns \<inter> pa_free_bytes (km_phys km) = {}" using assms(1) by (auto simp: km_ok_def)
  have node: "\<exists>m \<in> set ns. unat m + 32 \<le> x \<and> x < span_end (kh_hdr (km_heap km)) m" if "x \<in> kh_live km p" for x
    using that unfolding kh_live_eq [OF assms(1)] by (auto simp: used_in_def span_end_def)
  have "x \<notin> {unat a ..< unat a + 32}" if a: "a \<in> set ns" and x: "x \<in> kh_live km p" for a x
  proof -
    from node [OF x] obtain m where m: "m \<in> set ns" "unat m + 32 \<le> x" "x < span_end (kh_hdr (km_heap km)) m" by blast
    show ?thesis
    proof (cases "m = a")
      case False
      then show ?thesis using kh_rel_spans_disjoint [OF rel m(1) a False] m(2,3) by (auto simp: span_end_def)
    qed (use m in auto)
  qed
  then show "\<forall>a \<in> set ns. kh_live km p \<inter> {unat a ..< unat a + 32} = {}" by blast
  have "x \<in> cover (kh_hdr (km_heap km)) ns" if x: "x \<in> kh_live km p" for x
  proof -
    from node [OF x] obtain m where "m \<in> set ns" "unat m \<le> x" "x < span_end (kh_hdr (km_heap km)) m" by force
    then show ?thesis by (auto simp: cover_def)
  qed
  then show "kh_live km p \<inter> pa_free_bytes (km_phys km) = {}" using sep by blast
qed

text \<open>
  C5. \<open>allocate_zero_aligned\<close> of a power-of-two alignment above 16 always returns. On success a block
  that was not in use is the one new used block; its payload is aligned as asked, has at least the
  requested size, is zero, and overlaps no block header and no page the page allocator considers
  free. It fails only when no free block can hold the request at its worst placement and the heap
  cannot grow, and then the used blocks are as before. No byte of an older payload changes.
\<close>

theorem allocate_zero_aligned_safe:
  assumes "km_ok km ns" "\<not> kh_expanding (km_heap km)" "sz \<noteq> 0" "unat sz \<le> 2 ^ 60" "5 \<le> k" "k \<le> 60"
  shows "\<exists>km' p ns'. allocate_zero_aligned km sz (2 ^ k) = Some (km', p) \<and> data_kept km ns km' \<and> km_ok km' ns' \<and>
     (p = 0 \<longrightarrow> km_used km' ns' = km_used km ns \<and> aligned_refused km ns (align_up sz HEAP_MIN_ALIGNMENT) k) \<and>
     (p \<noteq> 0 \<longrightarrow> 2 ^ k dvd unat p \<and> (\<forall>i < sz. kh_mem (km_heap km') (p + i) = 0) \<and>
        (\<exists>m s. p = hb_data m \<and> sz \<le> s \<and> (\<forall>t. (m, t) \<notin> km_used km ns) \<and> km_used km' ns' = insert (m, s) (km_used km ns)) \<and>
        (\<forall>a \<in> set ns'. {unat p ..< unat p + unat sz} \<inter> {unat a ..< unat a + 32} = {}) \<and>
        {unat p ..< unat p + unat sz} \<inter> pa_free_bytes (km_phys km') = {})"
proof -
  obtain km' p where r: "allocate_zero_aligned km sz (2 ^ k) = Some (km', p)" "p = 0 \<longrightarrow> aligned_refused km ns (align_up sz HEAP_MIN_ALIGNMENT) k"
    and a: "km_alloced km ns sz km' p" "p \<noteq> 0 \<longrightarrow> 2 ^ k dvd unat p \<and> (\<forall>i < sz. kh_mem (km_heap km') (p + i) = 0)"
    using allocate_zero_aligned_large [OF assms] unfolding aligned_result_def by blast
  from a(1) obtain ns' where n: "km_ok km' ns'" "data_kept km ns km'" "p = 0 \<longrightarrow> km_used km' ns' = km_used km ns"
    and m: "p \<noteq> 0 \<longrightarrow> (\<exists>m s. p = hb_data m \<and> unat sz \<le> unat s \<and> (\<forall>t. (m, t) \<notin> km_used km ns) \<and>
        km_used km' ns' = insert (m, s) (km_used km ns) \<and> (m, s) \<in> km_used km' ns')" unfolding km_alloced_def by blast
  have live: "{unat p ..< unat p + unat sz} \<subseteq> kh_live km' p" if "p \<noteq> 0"
    using km_alloced_live(3) [OF assms(1) a(1) that] by blast
  have "(\<forall>a \<in> set ns'. {unat p ..< unat p + unat sz} \<inter> {unat a ..< unat a + 32} = {}) \<and>
      {unat p ..< unat p + unat sz} \<inter> pa_free_bytes (km_phys km') = {}" if "p \<noteq> 0"
    using heap_payload_isolated [OF n(1), of p] live [OF that] by blast
  then show ?thesis
    using r a(2) n m [folded word_le_nat_alt] by (intro exI [of _ km'] exI [of _ p] exI [of _ ns']) blast
qed

lemma allocate_zero_aligned_safe_witness:
  "\<exists>km'. allocate_zero_aligned example_heap 100 4096 = Some (km', 0x401000) \<and> (\<forall>i < 100. kh_mem (km_heap km') (0x401000 + i) = 0) \<and>
     {0x401000 ..< 0x401000 + 100} \<inter> pa_free_bytes (km_phys km') = {}"
proof -
  have "map_option snd (allocate_zero_aligned example_heap 100 4096) = Some 0x401000" by code_simp
  then obtain km' where km': "allocate_zero_aligned example_heap 100 4096 = Some (km', 0x401000)" by auto
  have "\<exists>km' p ns'. allocate_zero_aligned example_heap 100 (2 ^ 12) = Some (km', p) \<and> (p \<noteq> 0 \<longrightarrow>
      (\<forall>i < 100. kh_mem (km_heap km') (p + i) = 0) \<and> {unat p ..< unat p + unat (100 :: u64)} \<inter> pa_free_bytes (km_phys km') = {})"
    using allocate_zero_aligned_safe [OF example_heap_facts(2) example_heap_idle, of 100 12] by fastforce
  then show ?thesis using km' by auto
qed

section \<open>Behaviour at the edges\<close>

text \<open>A request above \<open>2 ^ 64 - 16\<close> wraps to size 0 in \<open>allocate\<close> and is granted.\<close>

lemma allocate_wraps_near_max: "map_option snd (kh_allocate example_heap 0xFFFFFFFFFFFFFFFF) = Some 0x400020"
  by code_simp

text \<open>
  When the aligned data starts the block, \<open>prefix_data_size\<close> has wrapped below zero, the test
  for using the whole block fails, and the block's \<open>prev\<close> ends up pointing to the block itself.
\<close>

lemma aligned_block_links_to_itself:
  "map_option (\<lambda>(km, p). (p, hb_prev (kh_hdr (km_heap km) 0x400000))) (allocate_zero_aligned example_heap 64 32)
     = Some (0x400020, 0x400000)"
  by code_simp

end
