(* ===== verification/VirtMem.thy ===== *)
theory VirtMem
  imports KHeapSpec
begin

text \<open>
  The x86-64 page-table manager of src/core/virtual_memory.cpp and
  \<open>arch::make_region_writable\<close> of src/arch/x86_64/arch_init.cpp, which edits the
  active page tables. Physical memory is seen as the manager sees it, through
  \<open>u64*\<close> pointers into the identity map: \<open>vm_mem\<close> gives the 64-bit word at an
  address, and \<open>table[index]\<close> is the word at \<open>table + 8 * index\<close>. Address-space
  structures live on the kernel heap; \<open>vm_spaces\<close> holds them by address, 0 being
  null. Pages are zeroed and copied a page at a time. The TLB (\<open>invlpg\<close>) and log
  output are not modelled.
\<close>

type_synonym words = "u64 \<Rightarrow> u64"

record address_space =
  pml4_phys :: u64
  heap_next :: u64
  map_next :: u64

record vm_state =
  vm_km :: kmemory
  vm_mem :: words
  vm_kernel_cr3 :: u64
  vm_cr3 :: u64
  vm_spaces :: "u64 \<Rightarrow> address_space"

definition PTE_PRESENT :: u64 where "PTE_PRESENT = 1"
definition PTE_WRITABLE :: u64 where "PTE_WRITABLE = 2"
definition PTE_USER :: u64 where "PTE_USER = 4"
definition PTE_HUGE :: u64 where "PTE_HUGE = 0x80"
definition PTE_XD :: u64 where "PTE_XD = 0x8000000000000000"
definition PA_MASK :: u64 where "PA_MASK = 0x000FFFFFFFFFF000"
definition MAP_WRITABLE :: u64 where "MAP_WRITABLE = 1"
definition MAP_USER :: u64 where "MAP_USER = 2"
definition MAP_EXECUTABLE :: u64 where "MAP_EXECUTABLE = 4"
definition USER_IMAGE_BASE :: u64 where "USER_IMAGE_BASE = 0x0000400000000000"
definition USER_HEAP_BASE :: u64 where "USER_HEAP_BASE = 0x0000410000000000"
definition USER_MMAP_BASE :: u64 where "USER_MMAP_BASE = 0x0000500000000000"
definition USER_MAP_LIMIT :: u64 where "USER_MAP_LIMIT = 0x0000800000000000"
definition IDENTITY_BRIDGE_ALLOC_MAX :: u64 where "IDENTITY_BRIDGE_ALLOC_MAX = 0x80000000"
definition ENTRIES_PER_TABLE :: nat where "ENTRIES_PER_TABLE = 512"
definition sizeof_address_space :: u64 where "sizeof_address_space = 24"

text \<open>The four table indices of a virtual address, \<open>(virt >> shift) & 0x1FF\<close>.\<close>

definition index_at :: "nat \<Rightarrow> u64 \<Rightarrow> nat" where
  "index_at shift virt = unat (drop_bit shift virt AND 0x1FF)"

definition USER_PML4_FIRST :: nat where "USER_PML4_FIRST = index_at 39 USER_IMAGE_BASE"
definition USER_PML4_LIMIT :: nat where "USER_PML4_LIMIT = index_at 39 USER_MAP_LIMIT"

definition table_from_phys :: "u64 \<Rightarrow> u64" where
  "table_from_phys phys = phys AND PA_MASK"

definition slot :: "u64 \<Rightarrow> nat \<Rightarrow> u64" where
  "slot table index = table + word_of_nat (8 * index)"

definition entry :: "words \<Rightarrow> u64 \<Rightarrow> nat \<Rightarrow> u64" where
  "entry mem table index = mem (slot table index)"

definition is_present :: "u64 \<Rightarrow> bool" where "is_present e \<longleftrightarrow> e AND PTE_PRESENT \<noteq> 0"
definition is_huge :: "u64 \<Rightarrow> bool" where "is_huge e \<longleftrightarrow> e AND PTE_HUGE \<noteq> 0"

definition page_flags :: "u64 \<Rightarrow> u64" where
  "page_flags flags =
     (let entry = PTE_PRESENT;
          entry = (if flags AND MAP_WRITABLE \<noteq> 0 then entry OR PTE_WRITABLE else entry);
          entry = (if flags AND MAP_USER \<noteq> 0 then entry OR PTE_USER else entry)
      in if flags AND MAP_EXECUTABLE = 0 then entry OR PTE_XD else entry)"

text \<open>\<open>memory::set(p, 0, n)\<close> and \<open>memory::copy(d, s, n)\<close> as seen through 64-bit words.\<close>

definition zero_words :: "words \<Rightarrow> u64 \<Rightarrow> u64 \<Rightarrow> words" where
  "zero_words mem p n = (\<lambda>a. if a - p < n then 0 else mem a)"

definition copy_words :: "words \<Rightarrow> u64 \<Rightarrow> u64 \<Rightarrow> u64 \<Rightarrow> words" where
  "copy_words mem d s n = (\<lambda>a. if a - d < n then mem (s + (a - d)) else mem a)"

section \<open>Permissions of the identity map\<close>

text \<open>\<open>table[index] |= PTE_WRITABLE\<close>\<close>

definition or_writable :: "words \<Rightarrow> u64 \<Rightarrow> nat \<Rightarrow> words" where
  "or_writable mem table index = mem(slot table index := entry mem table index OR PTE_WRITABLE)"

text \<open>One iteration of \<open>make_region_writable\<close>: the new memory and the next address.\<close>

definition writable_step :: "words \<Rightarrow> u64 \<Rightarrow> u64 \<Rightarrow> words \<times> u64" where
  "writable_step mem cr3 addr =
     (let pml4 = cr3 AND PA_MASK; i4 = index_at 39 addr; i3 = index_at 30 addr;
          i2 = index_at 21 addr; i1 = index_at 12 addr in
      if \<not> is_present (entry mem pml4 i4) then (mem, align_down addr 0x8000000000 + 0x8000000000)
      else
        let mem = or_writable mem pml4 i4;
            pdpt = entry mem pml4 i4 AND PA_MASK in
        if \<not> is_present (entry mem pdpt i3) then (mem, align_down addr 0x40000000 + 0x40000000)
        else if is_huge (entry mem pdpt i3)
        then (or_writable mem pdpt i3, align_down addr 0x40000000 + 0x40000000)
        else
          let mem = or_writable mem pdpt i3;
              pd = entry mem pdpt i3 AND PA_MASK in
          if \<not> is_present (entry mem pd i2) then (mem, align_down addr 0x200000 + 0x200000)
          else if is_huge (entry mem pd i2)
          then (or_writable mem pd i2, align_down addr 0x200000 + 0x200000)
          else
            let mem = or_writable mem pd i2;
                pt = entry mem pd i2 AND PA_MASK in
            (if is_present (entry mem pt i1) then or_writable mem pt i1 else mem, addr + PAGE_SIZE_4K))"

partial_function (option) writable_loop :: "words \<Rightarrow> u64 \<Rightarrow> u64 \<Rightarrow> u64 \<Rightarrow> words option" where
  "writable_loop mem cr3 addr end_addr =
     (if addr < end_addr
      then writable_loop (fst (writable_step mem cr3 addr)) cr3 (snd (writable_step mem cr3 addr)) end_addr
      else Some mem)"

declare writable_loop.simps [code]

definition make_region_writable :: "vm_state \<Rightarrow> u64 \<Rightarrow> u64 \<Rightarrow> vm_state option" where
  "make_region_writable s base sz =
     (if sz = 0 then Some s
      else map_option (\<lambda>m. s\<lparr>vm_mem := m\<rparr>)
        (writable_loop (vm_mem s) (vm_cr3 s) (align_down base PAGE_SIZE_4K) (base + sz)))"

section \<open>Tables\<close>

abbreviation vm_phys :: "vm_state \<Rightarrow> phys_allocator" where
  "vm_phys s \<equiv> km_phys (vm_km s)"

definition set_phys :: "vm_state \<Rightarrow> phys_allocator \<Rightarrow> vm_state" where
  "set_phys s pa = s\<lparr>vm_km := (vm_km s)\<lparr>km_phys := pa\<rparr>\<rparr>"

definition alloc_table_page :: "vm_state \<Rightarrow> (vm_state \<times> u64) option" where
  "alloc_table_page s =
     do {
       (pa, phys) \<leftarrow> allocate_pages (vm_phys s) 1 (ucast PAGE_SIZE_4K) IDENTITY_BRIDGE_ALLOC_MAX;
       let s = set_phys s pa;
       if phys = 0 then Some (s, 0)
       else do {
         s \<leftarrow> make_region_writable s phys PAGE_SIZE_4K;
         Some (s\<lparr>vm_mem := zero_words (vm_mem s) phys PAGE_SIZE_4K\<rparr>, phys)
       }
     }"

definition ensure_next_table :: "vm_state \<Rightarrow> u64 \<Rightarrow> nat \<Rightarrow> u64 \<Rightarrow> (vm_state \<times> u64) option" where
  "ensure_next_table s table index flags =
     (if \<not> is_present (entry (vm_mem s) table index) then
        do {
          (s, child) \<leftarrow> alloc_table_page s;
          if child = 0 then Some (s, 0)
          else
            let e = child OR PTE_PRESENT OR PTE_WRITABLE OR (flags AND PTE_USER) in
            Some (s\<lparr>vm_mem := (vm_mem s)(slot table index := e)\<rparr>, table_from_phys e)
        }
      else if is_huge (entry (vm_mem s) table index) then Some (s, 0)
      else
        let e = entry (vm_mem s) table index OR PTE_WRITABLE OR (flags AND PTE_USER) in
        Some (s\<lparr>vm_mem := (vm_mem s)(slot table index := e)\<rparr>, table_from_phys e))"

text \<open>A loop over table indices whose body may not return.\<close>

fun each_index :: "('s \<Rightarrow> nat \<Rightarrow> 's option) \<Rightarrow> nat list \<Rightarrow> 's \<Rightarrow> 's option" where
  "each_index f [] s = Some s"
| "each_index f (i # is) s = (case f s i of None \<Rightarrow> None | Some s' \<Rightarrow> each_index f is s')"

primrec free_page_table_tree :: "nat \<Rightarrow> vm_state \<Rightarrow> u64 \<Rightarrow> vm_state option" where
  "free_page_table_tree 0 = (\<lambda>s table. Some s)"
| "free_page_table_tree (Suc level) = (\<lambda>s table.
     if table = 0 then Some s
     else each_index (\<lambda>s index.
       let e = entry (vm_mem s) table index in
       if \<not> is_present e \<or> is_huge e then Some s
       else do {
         s \<leftarrow> free_page_table_tree level s (table_from_phys e);
         s \<leftarrow> (if Suc level > 1 then map_option (set_phys s) (free_pages (vm_phys s) (e AND PA_MASK) 1)
                else Some s);
         Some (s\<lparr>vm_mem := (vm_mem s)(slot table index := 0)\<rparr>)
       }) [0..<ENTRIES_PER_TABLE] s)"

section \<open>Address spaces\<close>

definition vm_init :: "vm_state \<Rightarrow> vm_state" where
  "vm_init s = s\<lparr>vm_kernel_cr3 := vm_cr3 s AND PA_MASK\<rparr>"

definition create_address_space :: "vm_state \<Rightarrow> (vm_state \<times> u64) option" where
  "create_address_space s =
     do {
       let s = (if vm_kernel_cr3 s = 0 then vm_init s else s);
       (km, as) \<leftarrow> allocate_zero (vm_km s) sizeof_address_space;
       let s = s\<lparr>vm_km := km\<rparr>;
       if as = 0 then Some (s, 0)
       else do {
         (s, pml4) \<leftarrow> alloc_table_page s;
         if pml4 = 0 then Some (s\<lparr>vm_km := kh_free (vm_km s) as\<rparr>, 0)
         else do {
           let dst = table_from_phys pml4;
           let mem = copy_words (vm_mem s) dst (table_from_phys (vm_kernel_cr3 s)) PAGE_SIZE_4K;
           let mem = fold (\<lambda>index m. m(slot dst index := 0)) [USER_PML4_FIRST..<USER_PML4_LIMIT] mem;
           Some (s\<lparr>vm_mem := mem,
                   vm_spaces := (vm_spaces s)(as := \<lparr>pml4_phys = pml4, heap_next = USER_HEAP_BASE,
                                                     map_next = USER_MMAP_BASE\<rparr>)\<rparr>, as)
         }
       }
     }"

definition destroy_address_space :: "vm_state \<Rightarrow> u64 \<Rightarrow> vm_state option" where
  "destroy_address_space s as =
     (if as = 0 then Some s
      else do {
        let root = pml4_phys (vm_spaces s as);
        s \<leftarrow> (if root \<noteq> 0 then do {
               let pml4 = table_from_phys root;
               s \<leftarrow> each_index (\<lambda>s index.
                 let e = entry (vm_mem s) pml4 index in
                 if is_present e \<and> \<not> is_huge e then do {
                   s \<leftarrow> free_page_table_tree 3 s (table_from_phys e);
                   pa \<leftarrow> free_pages (vm_phys s) (entry (vm_mem s) pml4 index AND PA_MASK) 1;
                   let s = set_phys s pa;
                   Some (s\<lparr>vm_mem := (vm_mem s)(slot pml4 index := 0)\<rparr>)
                 } else Some s) [USER_PML4_FIRST..<USER_PML4_LIMIT] s;
               map_option (set_phys s) (free_pages (vm_phys s) root 1)
             } else Some s);
        Some (s\<lparr>vm_km := kh_free (vm_km s) as\<rparr>)
      })"

definition active_cr3 :: "vm_state \<Rightarrow> u64" where
  "active_cr3 s = vm_cr3 s AND PA_MASK"

definition activate_kernel :: "vm_state \<Rightarrow> vm_state" where
  "activate_kernel s =
     (if vm_kernel_cr3 s \<noteq> 0 \<and> active_cr3 s \<noteq> vm_kernel_cr3 s then s\<lparr>vm_cr3 := vm_kernel_cr3 s\<rparr> else s)"

definition activate :: "vm_state \<Rightarrow> u64 \<Rightarrow> vm_state" where
  "activate s as =
     (let cr3 = (if as \<noteq> 0 \<and> pml4_phys (vm_spaces s as) \<noteq> 0 then pml4_phys (vm_spaces s as) else vm_kernel_cr3 s)
      in if cr3 \<noteq> 0 \<and> active_cr3 s \<noteq> cr3 then s\<lparr>vm_cr3 := cr3\<rparr> else s)"

section \<open>Translation\<close>

text \<open>\<open>debug_resolve\<close> on a root table: the physical address and the flag bits, or false.\<close>

definition resolve_root :: "words \<Rightarrow> u64 \<Rightarrow> u64 \<Rightarrow> (u64 \<times> u64) option" where
  "resolve_root mem root virt =
     (let pml4e = entry mem (table_from_phys root) (index_at 39 virt) in
      if \<not> is_present pml4e \<or> is_huge pml4e then None
      else
        let pdpte = entry mem (table_from_phys pml4e) (index_at 30 virt) in
        if \<not> is_present pdpte then None
        else if is_huge pdpte
        then Some ((pdpte AND PA_MASK) + (virt AND (push_bit 30 1 - 1)), pdpte AND NOT PA_MASK)
        else
          let pde = entry mem (table_from_phys pdpte) (index_at 21 virt) in
          if \<not> is_present pde then None
          else if is_huge pde
          then Some ((pde AND PA_MASK) + (virt AND (push_bit 21 1 - 1)), pde AND NOT PA_MASK)
          else
            let pte = entry mem (table_from_phys pde) (index_at 12 virt) in
            if \<not> is_present pte then None
            else Some ((pte AND PA_MASK) + (virt AND (PAGE_SIZE_4K - 1)), pte AND NOT PA_MASK))"

definition debug_resolve :: "vm_state \<Rightarrow> u64 \<Rightarrow> u64 \<Rightarrow> (u64 \<times> u64) option" where
  "debug_resolve s as virt =
     (if as = 0 \<or> pml4_phys (vm_spaces s as) = 0 then None
      else resolve_root (vm_mem s) (pml4_phys (vm_spaces s as)) virt)"

section \<open>Mapping\<close>

definition map_page :: "vm_state \<Rightarrow> u64 \<Rightarrow> u64 \<Rightarrow> u64 \<Rightarrow> u64 \<Rightarrow> (vm_state \<times> bool) option" where
  "map_page s as virt phys flags =
     (if as = 0 \<or> pml4_phys (vm_spaces s as) = 0 \<or> phys = 0 then Some (s, False)
      else if \<not> is_aligned virt PAGE_SIZE_4K \<or> \<not> is_aligned phys PAGE_SIZE_4K then Some (s, False)
      else do {
        let user = (if flags AND MAP_USER \<noteq> 0 then PTE_USER else 0);
        (s, pdpt) \<leftarrow> ensure_next_table s (table_from_phys (pml4_phys (vm_spaces s as))) (index_at 39 virt) user;
        if pdpt = 0 then Some (s, False)
        else do {
          (s, pd) \<leftarrow> ensure_next_table s pdpt (index_at 30 virt) user;
          if pd = 0 then Some (s, False)
          else do {
            (s, pt) \<leftarrow> ensure_next_table s pd (index_at 21 virt) user;
            if pt = 0 then Some (s, False)
            else Some (s\<lparr>vm_mem := (vm_mem s)(slot pt (index_at 12 virt) := (phys AND PA_MASK) OR page_flags flags)\<rparr>, True)
          }
        }
      })"

text \<open>The loop of \<open>map_contiguous\<close>, with the number of pages left.\<close>

fun map_pages :: "vm_state \<Rightarrow> u64 \<Rightarrow> u64 \<Rightarrow> u64 \<Rightarrow> u64 \<Rightarrow> u64 \<Rightarrow> nat \<Rightarrow> (vm_state \<times> bool) option" where
  "map_pages s as virt phys flags offset 0 = Some (s, True)"
| "map_pages s as virt phys flags offset (Suc n) =
     (case map_page s as (virt + offset) (phys + offset) flags of
        None \<Rightarrow> None
      | Some (s', ok) \<Rightarrow> if \<not> ok then Some (s', False)
                          else map_pages s' as virt phys flags (offset + PAGE_SIZE_4K) n)"

definition map_contiguous :: "vm_state \<Rightarrow> u64 \<Rightarrow> u64 \<Rightarrow> u64 \<Rightarrow> u64 \<Rightarrow> u64 \<Rightarrow> (vm_state \<times> bool) option" where
  "map_contiguous s as virt phys sz flags =
     (let bytes = align_up sz PAGE_SIZE_4K
      in map_pages s as virt phys flags 0 (unat bytes div unat PAGE_SIZE_4K))"

definition unmap_page :: "words \<Rightarrow> u64 \<Rightarrow> u64 \<Rightarrow> words" where
  "unmap_page mem pml4 addr =
     (let e4 = entry mem pml4 (index_at 39 addr) in
      if \<not> is_present e4 then mem
      else
        let e3 = entry mem (table_from_phys e4) (index_at 30 addr) in
        if \<not> is_present e3 \<or> is_huge e3 then mem
        else
          let e2 = entry mem (table_from_phys e3) (index_at 21 addr) in
          if \<not> is_present e2 \<or> is_huge e2 then mem
          else mem(slot (table_from_phys e2) (index_at 12 addr) := 0))"

text \<open>The loop of \<open>unmap_range\<close>, with the number of pages left.\<close>

fun unmap_pages :: "words \<Rightarrow> u64 \<Rightarrow> u64 \<Rightarrow> nat \<Rightarrow> words" where
  "unmap_pages mem pml4 addr 0 = mem"
| "unmap_pages mem pml4 addr (Suc n) = unmap_pages (unmap_page mem pml4 addr) pml4 (addr + PAGE_SIZE_4K) n"

definition unmap_range :: "vm_state \<Rightarrow> u64 \<Rightarrow> u64 \<Rightarrow> u64 \<Rightarrow> vm_state" where
  "unmap_range s as virt sz =
     (if as = 0 \<or> pml4_phys (vm_spaces s as) = 0 \<or> sz = 0 then s
      else
        let start = align_down virt PAGE_SIZE_4K;
            end_addr = align_up (virt + sz) PAGE_SIZE_4K
        in s\<lparr>vm_mem := unmap_pages (vm_mem s) (table_from_phys (pml4_phys (vm_spaces s as))) start
                          ((unat end_addr - unat start) div unat PAGE_SIZE_4K)\<rparr>)"

definition allocate_user_pages :: "vm_state \<Rightarrow> u64 \<Rightarrow> u64 \<Rightarrow> u64 \<Rightarrow> u64 \<Rightarrow> (vm_state \<times> u64 option) option" where
  "allocate_user_pages s as virt sz flags =
     (if as = 0 \<or> sz = 0 \<or> \<not> is_aligned virt PAGE_SIZE_4K then Some (s, None)
      else do {
        let bytes = align_up sz PAGE_SIZE_4K;
        let page_count = (ucast (bytes div PAGE_SIZE_4K) :: u32);
        (pa, phys) \<leftarrow> allocate_pages (vm_phys s) page_count (ucast PAGE_SIZE_4K) IDENTITY_BRIDGE_ALLOC_MAX;
        let s = set_phys s pa;
        if phys = 0 then Some (s, None)
        else do {
          s \<leftarrow> make_region_writable s phys bytes;
          let s = s\<lparr>vm_mem := zero_words (vm_mem s) phys bytes\<rparr>;
          (s, ok) \<leftarrow> map_contiguous s as virt phys bytes flags;
          if \<not> ok then do {
            pa \<leftarrow> free_pages (vm_phys s) phys page_count;
            Some (set_phys s pa, None)
          } else Some (s, Some phys)
        }
      })"

text \<open>The result is \<open>out_phys\<close> and \<open>out_virt\<close>; \<open>None\<close> is the return value false.\<close>

definition allocate_user_heap :: "vm_state \<Rightarrow> u64 \<Rightarrow> u64 \<Rightarrow> u64 \<Rightarrow> (vm_state \<times> (u64 \<times> u64) option) option" where
  "allocate_user_heap s as sz flags =
     (if as = 0 \<or> sz = 0 then Some (s, None)
      else do {
        let bytes = align_up sz PAGE_SIZE_4K;
        let virt = align_up (heap_next (vm_spaces s as)) PAGE_SIZE_4K;
        if virt < USER_HEAP_BASE \<or> virt + bytes > USER_MAP_LIMIT \<or> virt + bytes < virt then Some (s, None)
        else do {
          (s, r) \<leftarrow> allocate_user_pages s as virt bytes flags;
          (case r of
             None \<Rightarrow> Some (s, None)
           | Some phys \<Rightarrow>
               Some (s\<lparr>vm_spaces := (vm_spaces s)(as := (vm_spaces s as)\<lparr>heap_next := virt + bytes\<rparr>)\<rparr>,
                     Some (phys, virt)))
        }
      })"

end
