(* ===== verification/VirtMemInv.thy ===== *)
theory VirtMemInv
  imports VirtMem
begin

text \<open>
  The invariant of an address space and what it carries: walks of the table tree, the
  entries translation reads, permission updates of the identity map (which keep every walk),
  pages taken from the page allocator, and one level of \<open>ensure_next_table\<close>.
\<close>

section \<open>Walking the tables\<close>

definition next_table :: "words \<Rightarrow> u64 \<Rightarrow> nat \<Rightarrow> u64 option" where
  "next_table mem t i = (let e = entry mem t i in if is_present e \<and> \<not> is_huge e then Some (table_from_phys e) else None)"

fun walk :: "words \<Rightarrow> u64 \<Rightarrow> nat list \<Rightarrow> u64 option" where
  "walk mem t [] = Some t"
| "walk mem t (i # is) = (case next_table mem t i of None \<Rightarrow> None | Some t' \<Rightarrow> walk mem t' is)"

text \<open>What the processor reads at the end of a walk: the last entry and how many levels it skipped.\<close>

fun rpath :: "words \<Rightarrow> u64 \<Rightarrow> nat list \<Rightarrow> (u64 \<times> nat) option" where
  "rpath mem t [] = None"
| "rpath mem t (i # is) =
     (let e = entry mem t i in
      if \<not> is_present e then None
      else if is = [] \<or> is_huge e then Some (e, length is)
      else rpath mem (table_from_phys e) is)"

definition vpath :: "u64 \<Rightarrow> nat list" where
  "vpath virt = [index_at 39 virt, index_at 30 virt, index_at 21 virt, index_at 12 virt]"

definition page_shift :: "nat \<Rightarrow> nat" where
  "page_shift k = 12 + 9 * k"

lemma resolve_root_rpath:
  "resolve_root mem root virt =
     (case rpath mem (table_from_phys root) (vpath virt) of
        None \<Rightarrow> None
      | Some (e, k) \<Rightarrow> if k = 3 then None
          else Some ((e AND PA_MASK) + (virt AND (push_bit (page_shift k) 1 - 1)), e AND NOT PA_MASK))"
  by (simp add: resolve_root_def vpath_def Let_def page_shift_def PAGE_SIZE_4K_def)

lemma walk_append: "walk mem t (p @ q) = (case walk mem t p of None \<Rightarrow> None | Some t' \<Rightarrow> walk mem t' q)"
  by (induction p arbitrary: t) (auto split: option.splits)

lemma walk_snoc: "walk mem t (p @ [i]) = (case walk mem t p of None \<Rightarrow> None | Some t' \<Rightarrow> next_table mem t' i)"
  by (simp add: walk_append split: option.splits)

definition user_path :: "nat list \<Rightarrow> bool" where
  "user_path q \<longleftrightarrow> length q \<le> 3 \<and> (\<forall>i \<in> set q. i < 512) \<and> (q \<noteq> [] \<longrightarrow> 128 \<le> hd q \<and> hd q < 256)"

definition kernel_path :: "nat list \<Rightarrow> bool" where
  "kernel_path q \<longleftrightarrow> q \<noteq> [] \<and> length q \<le> 3 \<and> (\<forall>i \<in> set q. i < 512) \<and> hd q = 0"

text \<open>A slot the user half of the tables consists of.\<close>

definition user_index :: "nat list \<Rightarrow> nat \<Rightarrow> bool" where
  "user_index q i \<longleftrightarrow> i < 512 \<and> (q = [] \<longrightarrow> 128 \<le> i \<and> i < 256)"

definition user_addr :: "u64 \<Rightarrow> bool" where
  "user_addr virt \<longleftrightarrow> 128 \<le> index_at 39 virt \<and> index_at 39 virt < 256"

lemma index_at_less [simp]: "index_at k v < 512"
proof -
  have "unat (drop_bit k v AND mask 9) = unat (drop_bit k v) mod 2 ^ 9" by (rule unat_and_mask)
  then show ?thesis by (simp add: index_at_def mask_eq_exp_minus_1)
qed

lemma user_path_snoc: "user_path (q @ [i]) \<longleftrightarrow> user_path q \<and> length q \<le> 2 \<and> user_index q i"
  by (cases q) (auto simp: user_path_def user_index_def)

lemma user_path_prefix: "user_path (p @ q) \<Longrightarrow> user_path p"
  by (cases p) (auto simp: user_path_def)

definition page_of :: "u64 \<Rightarrow> nat set" where
  "page_of t = {unat t ..< unat t + 4096}"

definition table_page :: "phys_allocator \<Rightarrow> u64 \<Rightarrow> bool" where
  "table_page pa t \<longleftrightarrow> t \<noteq> 0 \<and> 4096 dvd unat t \<and> unat t + 4096 \<le> 2 ^ 52 \<and> page_of t \<inter> pa_free_bytes pa = {}"

lemma unat_slot:
  assumes "unat t + 4096 \<le> 2 ^ 52" "i < 512" shows "unat (slot t i) = unat t + 8 * i"
proof -
  have "unat (word_of_nat (8 * i) :: u64) = 8 * i" using assms(2) by (subst unat_of_nat) simp
  then show ?thesis using assms by (simp add: slot_def unat_plus64)
qed

lemma slot_page:
  assumes "unat t + 4096 \<le> 2 ^ 52" "i < 512" shows "unat (slot t i) \<in> page_of t"
  using unat_slot [OF assms] assms(2) by (simp add: page_of_def)

lemma aligned_pages_disjoint:
  assumes "4096 dvd unat t" "4096 dvd unat u" "t \<noteq> u" shows "page_of t \<inter> page_of u = {}"
proof -
  obtain a b where ab: "unat t = 4096 * a" "unat u = 4096 * b" using assms(1,2) by (auto simp: dvd_def)
  then have "a \<noteq> b" using assms(3) by (metis word_eq_unatI)
  then have "4096 * a + 4096 \<le> 4096 * b \<or> 4096 * b + 4096 \<le> 4096 * a" by linarith
  then show ?thesis using ab by (auto simp: page_of_def)
qed

lemma slot_eq_iff:
  assumes "table_page pa t" "table_page pa' u" "i < 512" "j < 512"
  shows "slot t i = slot u j \<longleftrightarrow> t = u \<and> i = j"
proof
  assume e: "slot t i = slot u j"
  have s: "unat (slot t i) = unat t + 8 * i" "unat (slot u j) = unat u + 8 * j"
    using assms unat_slot by (auto simp: table_page_def)
  have "t = u"
  proof (rule ccontr)
    assume "t \<noteq> u"
    then have "page_of t \<inter> page_of u = {}" using assms aligned_pages_disjoint by (auto simp: table_page_def)
    moreover have "unat (slot t i) \<in> page_of t" "unat (slot t i) \<in> page_of u"
      using slot_page [of t i] slot_page [of u j] assms unfolding table_page_def e by auto
    ultimately show False by blast
  qed
  moreover have "unat t + 8 * i = unat u + 8 * j" using s unfolding e by simp
  ultimately show "t = u \<and> i = j" by simp
qed auto

section \<open>Invariant of an address space\<close>

text \<open>
  \<open>vm_inv s root\<close>: the user half below \<open>root\<close> is a tree of distinct page-aligned table pages
  that the page allocator does not consider free; the tables of the active root's identity map
  (slot 0) are such pages too, and are none of the tree's.
\<close>

definition vm_tree :: "phys_allocator \<Rightarrow> words \<Rightarrow> u64 \<Rightarrow> bool" where
  "vm_tree pa mem root \<longleftrightarrow>
     (\<forall>q t. user_path q \<longrightarrow> walk mem root q = Some t \<longrightarrow> table_page pa t) \<and>
     (\<forall>q q' t. user_path q \<longrightarrow> user_path q' \<longrightarrow> walk mem root q = Some t \<longrightarrow> walk mem root q' = Some t \<longrightarrow> q = q')"

definition kernel_sep :: "phys_allocator \<Rightarrow> words \<Rightarrow> u64 \<Rightarrow> u64 \<Rightarrow> bool" where
  "kernel_sep pa mem c root \<longleftrightarrow> table_page pa c \<and> \<not> is_huge (entry mem c 0) \<and>
     (\<forall>q t. kernel_path q \<longrightarrow> walk mem c q = Some t \<longrightarrow> table_page pa t \<and> (\<forall>q'. user_path q' \<longrightarrow> walk mem root q' \<noteq> Some t)) \<and>
     (\<forall>q'. user_path q' \<longrightarrow> walk mem root q' = Some c \<longrightarrow> q' = [])"

definition vm_inv :: "vm_state \<Rightarrow> u64 \<Rightarrow> bool" where
  "vm_inv s root \<longleftrightarrow> pa_inv (vm_phys s) \<and> vm_tree (vm_phys s) (vm_mem s) root \<and>
     kernel_sep (vm_phys s) (vm_mem s) (vm_cr3 s AND PA_MASK) root"

lemma vm_tree_page: "vm_tree pa mem root \<Longrightarrow> user_path q \<Longrightarrow> walk mem root q = Some t \<Longrightarrow> table_page pa t"
  by (simp add: vm_tree_def)

lemma vm_tree_inj:
  "vm_tree pa mem root \<Longrightarrow> user_path q \<Longrightarrow> user_path q' \<Longrightarrow> walk mem root q = Some t \<Longrightarrow> walk mem root q' = Some t \<Longrightarrow> q = q'"
  by (simp add: vm_tree_def)

lemma vm_tree_slot:
  assumes "vm_tree pa mem root" "user_path q" "user_path q'" "walk mem root q = Some t" "walk mem root q' = Some t'"
    "i < 512" "j < 512" "slot t i = slot t' j"
  shows "q = q' \<and> i = j"
proof -
  have "t = t' \<and> i = j"
    using slot_eq_iff [OF vm_tree_page [OF assms(1,2,4)] vm_tree_page [OF assms(1,3,5)] assms(6,7)] assms(8) by blast
  then show ?thesis using vm_tree_inj [OF assms(1-4)] assms(5) by blast
qed

section \<open>Permission updates keep every walk\<close>

definition same_bits :: "u64 \<Rightarrow> u64 \<Rightarrow> bool" where
  "same_bits e e' \<longleftrightarrow> is_present e' = is_present e \<and> is_huge e' = is_huge e \<and> e' AND PA_MASK = e AND PA_MASK"

lemma same_bits_refl [simp]: "same_bits e e"
  by (simp add: same_bits_def)

lemma same_bits_trans: "same_bits a b \<Longrightarrow> same_bits b c \<Longrightarrow> same_bits a c"
  by (simp add: same_bits_def)

lemma same_bits_or:
  assumes "f AND PTE_PRESENT = 0" "f AND PTE_HUGE = 0" "f AND PA_MASK = 0"
  shows "same_bits e (e OR f)"
  using assms by (simp add: same_bits_def is_present_def is_huge_def bit.conj_disj_distrib2)

lemma same_bits_writable [simp]: "same_bits e (e OR PTE_WRITABLE)"
  by (rule same_bits_or) (simp_all add: PTE_PRESENT_def PTE_HUGE_def PTE_WRITABLE_def PA_MASK_def)

lemma next_table_same: "(\<And>a. same_bits (mem a) (mem' a)) \<Longrightarrow> next_table mem' t i = next_table mem t i"
  by (simp add: next_table_def entry_def same_bits_def table_from_phys_def Let_def)

lemma walk_same:
  assumes "\<And>a. same_bits (mem a) (mem' a)" shows "walk mem' t q = walk mem t q"
  by (induction q arbitrary: t) (simp_all add: next_table_same [of mem mem', OF assms] split: option.split)

lemma same_or_writable: "same_bits (mem a) (or_writable mem t i a)"
  by (simp add: or_writable_def entry_def)

text \<open>The slots a permission update of low addresses may touch.\<close>

definition kernel_slot :: "words \<Rightarrow> u64 \<Rightarrow> u64 \<Rightarrow> bool" where
  "kernel_slot mem c a \<longleftrightarrow> a = slot c 0 \<or> (\<exists>q t i. kernel_path q \<and> walk mem c q = Some t \<and> i < 512 \<and> a = slot t i)"

definition perm_update :: "words \<Rightarrow> u64 \<Rightarrow> words \<Rightarrow> bool" where
  "perm_update mem c mem' \<longleftrightarrow> (\<forall>a. same_bits (mem a) (mem' a)) \<and> (\<forall>a. mem' a \<noteq> mem a \<longrightarrow> kernel_slot mem c a)"

lemma kernel_slot_same:
  assumes "\<And>a. same_bits (mem a) (mem' a)" shows "kernel_slot mem' c a = kernel_slot mem c a"
  by (simp add: kernel_slot_def walk_same [of mem mem', OF assms])

lemma perm_update_refl [simp]: "perm_update mem c mem"
  by (simp add: perm_update_def)

lemma perm_update_trans:
  assumes "perm_update m1 c m2" and "perm_update m2 c m3" shows "perm_update m1 c m3"
proof -
  have "kernel_slot m2 c a = kernel_slot m1 c a" for a
    using assms(1) by (intro kernel_slot_same) (simp add: perm_update_def)
  then show ?thesis using assms unfolding perm_update_def by (metis same_bits_trans)
qed

lemma perm_update_or: "kernel_slot mem c (slot t i) \<Longrightarrow> perm_update mem c (or_writable mem t i)"
  by (auto simp: perm_update_def same_or_writable) (simp add: or_writable_def split: if_splits)

lemma kernel_slot_child:
  assumes "walk mem c q = Some t" "kernel_path (q @ [i])" "next_table mem t i = Some u" "j < 512"
  shows "kernel_slot mem c (slot u j)"
  using assms unfolding kernel_slot_def by (intro disjI2 exI [of _ "q @ [i]"] exI [of _ u] exI [of _ j]) (simp add: walk_snoc)

lemma index_39_low: "unat addr < 2 ^ 39 \<Longrightarrow> index_at 39 addr = 0"
proof -
  assume "unat addr < 2 ^ 39"
  then have "unat (drop_bit 39 addr) = 0" by (simp add: drop_bit_eq_div unat_div)
  then have "drop_bit 39 addr = 0" by (simp add: unat_eq_zero)
  then show ?thesis by (simp add: index_at_def)
qed

lemma next_table_or:
  assumes "is_present (entry mem t i)" "\<not> is_huge (entry mem t i)"
  shows "next_table mem t i = Some (entry (or_writable mem t i) t i AND PA_MASK)"
  using assms same_bits_writable [of "entry mem t i"]
  by (simp add: next_table_def Let_def or_writable_def entry_def table_from_phys_def same_bits_def)

lemma same_bits_entry: "perm_update mem c mem' \<Longrightarrow> same_bits (entry mem t i) (entry mem' t i)"
  by (simp add: perm_update_def entry_def)

lemma perm_update_next: "perm_update mem c mem' \<Longrightarrow> next_table mem' t i = next_table mem t i"
  by (rule next_table_same) (simp add: perm_update_def)

lemma perm_update_walk: "perm_update mem c mem' \<Longrightarrow> walk mem' t q = walk mem t q"
  by (rule walk_same) (simp add: perm_update_def)

text \<open>Making one more entry on the walk writable, when the walk so far is known.\<close>

lemma perm_update_step:
  assumes pu: "perm_update mem c m" and w: "walk mem c q = Some t" and k: "kernel_path q" "i < 512"
  shows "perm_update mem c (or_writable m t i)"
    and "length q < 3 \<Longrightarrow> is_present (entry m t i) \<Longrightarrow> \<not> is_huge (entry m t i) \<Longrightarrow>
      walk mem c (q @ [i]) = Some (entry (or_writable m t i) t i AND PA_MASK) \<and> kernel_path (q @ [i])"
proof -
  have "kernel_slot m c (slot t i)"
    unfolding kernel_slot_def perm_update_walk [OF pu] using w k by blast
  then have "perm_update m c (or_writable m t i)" by (rule perm_update_or)
  then show "perm_update mem c (or_writable m t i)" using pu perm_update_trans by blast
  assume "length q < 3" "is_present (entry m t i)" "\<not> is_huge (entry m t i)"
  then show "walk mem c (q @ [i]) = Some (entry (or_writable m t i) t i AND PA_MASK) \<and> kernel_path (q @ [i])"
    using w k next_table_or [of m t i] perm_update_next [OF pu] by (auto simp: walk_snoc kernel_path_def)
qed

lemma writable_step_perm:
  assumes low: "unat addr < 2 ^ 39" and nh: "\<not> is_huge (entry mem (cr3 AND PA_MASK) 0)"
  shows "perm_update mem (cr3 AND PA_MASK) (fst (writable_step mem cr3 addr))"
proof -
  let ?c = "cr3 AND PA_MASK" and ?i3 = "index_at 30 addr" and ?i2 = "index_at 21 addr" and ?i1 = "index_at 12 addr"
  have i0: "index_at 39 addr = 0" using low by (rule index_39_low)
  show ?thesis
  proof (cases "is_present (entry mem ?c 0)")
    case False
    then show ?thesis by (simp add: writable_step_def i0 Let_def)
  next
    case p4: True
    define m1 where "m1 = or_writable mem ?c 0"
    define t3 where "t3 = entry m1 ?c 0 AND PA_MASK"
    have pu1: "perm_update mem ?c m1" unfolding m1_def by (rule perm_update_or) (simp add: kernel_slot_def)
    have w3: "walk mem ?c [0] = Some t3" using next_table_or [OF p4 nh] by (simp add: m1_def t3_def)
    have k3: "kernel_path [0]" by (simp add: kernel_path_def)
    note S3 = perm_update_step [OF pu1 w3 k3, of ?i3, simplified]
    define m2 where "m2 = or_writable m1 t3 ?i3"
    define t2 where "t2 = entry m2 t3 ?i3 AND PA_MASK"
    define m3 where "m3 = or_writable m2 t2 ?i2"
    define t1 where "t1 = entry m3 t2 ?i2 AND PA_MASK"
    have step: "fst (writable_step mem cr3 addr) =
       (if \<not> is_present (entry m1 t3 ?i3) then m1
        else if is_huge (entry m1 t3 ?i3) then m2
        else if \<not> is_present (entry m2 t2 ?i2) then m2
        else if is_huge (entry m2 t2 ?i2) then m3
        else if is_present (entry m3 t1 ?i1) then or_writable m3 t1 ?i1 else m3)"
      using p4 unfolding writable_step_def i0 Let_def m1_def [symmetric] t3_def [symmetric] m2_def [symmetric]
        t2_def [symmetric] m3_def [symmetric] t1_def [symmetric] by simp
    have pu2: "perm_update mem ?c m2" using S3(1) by (simp add: m2_def)
    have pu3: "perm_update mem ?c m3 \<and> perm_update mem ?c (or_writable m3 t1 ?i1)"
      if "is_present (entry m1 t3 ?i3)" "\<not> is_huge (entry m1 t3 ?i3)" "is_present (entry m2 t2 ?i2)" "\<not> is_huge (entry m2 t2 ?i2)"
    proof -
      have w2: "walk mem ?c [0, ?i3] = Some t2" "kernel_path [0, ?i3]" using S3(2) that by (auto simp: m2_def t2_def)
      note S2 = perm_update_step [OF pu2 w2, of ?i2, simplified]
      have p3: "perm_update mem ?c m3" using S2(1) by (simp add: m3_def)
      have w1: "walk mem ?c [0, ?i3, ?i2] = Some t1" "kernel_path [0, ?i3, ?i2]" using S2(2) that by (auto simp: m3_def t1_def)
      show ?thesis using p3 perm_update_step(1) [OF p3 w1, of ?i1] by simp
    qed
    have pu3': "perm_update mem ?c m3"
      if "is_present (entry m1 t3 ?i3)" "\<not> is_huge (entry m1 t3 ?i3)"
    proof -
      have w2: "walk mem ?c [0, ?i3] = Some t2" "kernel_path [0, ?i3]" using S3(2) that by (auto simp: m2_def t2_def)
      show ?thesis using perm_update_step(1) [OF pu2 w2, of ?i2] by (simp add: m3_def)
    qed
    show ?thesis unfolding step using pu1 pu2 pu3 pu3' by auto
  qed
qed

lemma align_down_next:
  fixes addr :: u64
  assumes "b = 2 ^ k" "k < 40" "unat addr < 2 ^ 39"
  shows "unat addr < unat (align_down addr b + b)" and "unat (align_down addr b + b) \<le> unat addr + 2 ^ k"
proof -
  have d: "unat (align_down addr b) = unat addr div 2 ^ k * 2 ^ k" using assms by (intro unat_align_down) auto
  have bu: "unat b = 2 ^ k" using assms by (simp add: unat_pow2)
  have k40: "(2::nat) ^ k \<le> 2 ^ 39" using assms(2) by (intro power_increasing) auto
  have le: "unat addr div 2 ^ k * 2 ^ k \<le> unat addr" by simp
  have lt: "unat addr < unat addr div 2 ^ k * 2 ^ k + 2 ^ k"
  proof -
    have "unat addr mod 2 ^ k < 2 ^ k" by simp
    then show ?thesis using div_mult_mod_eq [of "unat addr" "2 ^ k"] by linarith
  qed
  have s: "unat (align_down addr b + b) = unat addr div 2 ^ k * 2 ^ k + 2 ^ k"
  proof -
    have "(2::nat) ^ k \<le> 549755813888" "unat addr < 549755813888" using k40 assms(3) by simp_all
    then have "unat (align_down addr b) + unat b < 18446744073709551616" unfolding d bu using le by linarith
    then show ?thesis using unat_plus64 [of "align_down addr b" b] unfolding d bu by simp
  qed
  show "unat addr < unat (align_down addr b + b)" "unat (align_down addr b + b) \<le> unat addr + 2 ^ k"
    using s lt le by auto
qed

lemma writable_step_advances:
  assumes "unat addr < 2 ^ 39"
  shows "unat addr < unat (snd (writable_step mem cr3 addr))"
proof -
  have "unat addr < unat (align_down addr 0x8000000000 + 0x8000000000)"
    "unat addr < unat (align_down addr 0x40000000 + 0x40000000)" "unat addr < unat (align_down addr 0x200000 + 0x200000)"
    using align_down_next(1) [of "0x8000000000" 39] align_down_next(1) [of "0x40000000" 30]
      align_down_next(1) [of "0x200000" 21] assms by auto
  moreover have "unat addr < unat (addr + PAGE_SIZE_4K)" using assms by (simp add: PAGE_SIZE_4K_def unat_plus64)
  ultimately show ?thesis by (simp add: writable_step_def Let_def)
qed

lemma writable_loop_correct:
  assumes "unat e \<le> 2 ^ 39" and "\<not> is_huge (entry mem (cr3 AND PA_MASK) 0)"
  shows "\<exists>mem'. writable_loop mem cr3 addr e = Some mem' \<and> perm_update mem (cr3 AND PA_MASK) mem'"
  using assms
proof (induction "unat e - unat addr" arbitrary: mem addr rule: less_induct)
  case less
  show ?case
  proof (cases "addr < e")
    case False
    then show ?thesis by (subst writable_loop.simps) simp
  next
    case True
    let ?m = "fst (writable_step mem cr3 addr)" and ?a = "snd (writable_step mem cr3 addr)"
    have low: "unat addr < 2 ^ 39" "unat addr < unat e" using True less.prems(1) by (auto simp: word_less_nat_alt)
    have pu: "perm_update mem (cr3 AND PA_MASK) ?m" by (rule writable_step_perm [OF low(1) less.prems(2)])
    have adv: "unat addr < unat ?a" by (rule writable_step_advances [OF low(1)])
    have nh: "\<not> is_huge (entry ?m (cr3 AND PA_MASK) 0)"
      using same_bits_entry [OF pu] less.prems(2) by (simp add: same_bits_def)
    have "unat e - unat ?a < unat e - unat addr" using adv low(2) by simp
    from less.hyps [OF this less.prems(1) nh] obtain mem' where
      "writable_loop ?m cr3 ?a e = Some mem'" "perm_update ?m (cr3 AND PA_MASK) mem'" by blast
    moreover have "writable_loop mem cr3 addr e = writable_loop ?m cr3 ?a e"
      using True by (subst writable_loop.simps) simp
    ultimately show ?thesis using perm_update_trans [OF pu] by auto
  qed
qed

lemma make_region_writable_correct:
  assumes "unat base + unat sz \<le> 2 ^ 39" and "\<not> is_huge (entry (vm_mem s) (vm_cr3 s AND PA_MASK) 0)"
  shows "\<exists>mem'. make_region_writable s base sz = Some (s\<lparr>vm_mem := mem'\<rparr>) \<and> perm_update (vm_mem s) (vm_cr3 s AND PA_MASK) mem'"
proof (cases "sz = 0")
  case True
  then show ?thesis by (intro exI [of _ "vm_mem s"]) (simp add: make_region_writable_def)
next
  case False
  have "unat (base + sz) \<le> 2 ^ 39" using assms(1) by (simp add: unat_plus64)
  from writable_loop_correct [OF this assms(2), of "align_down base PAGE_SIZE_4K"] obtain mem' where
    "writable_loop (vm_mem s) (vm_cr3 s) (align_down base PAGE_SIZE_4K) (base + sz) = Some mem'"
    "perm_update (vm_mem s) (vm_cr3 s AND PA_MASK) mem'" by blast
  then show ?thesis using False by (intro exI [of _ mem']) (simp add: make_region_writable_def)
qed

section \<open>What a change of the tables does to translation\<close>

definition uvpath :: "nat list \<Rightarrow> bool" where
  "uvpath p \<longleftrightarrow> length p = 4 \<and> (\<forall>i \<in> set p. i < 512) \<and> 128 \<le> hd p \<and> hd p < 256"

lemma uvpath_split: "uvpath (q @ i # is) \<Longrightarrow> user_path q \<and> user_index q i \<and> length q = 3 - length is"
  by (cases q) (auto simp: uvpath_def user_path_def user_index_def)

lemma uvpath_vpath: "user_addr v \<Longrightarrow> uvpath (vpath v)"
  by (auto simp: uvpath_def vpath_def user_addr_def)

definition rsame :: "words \<Rightarrow> u64 \<Rightarrow> words \<Rightarrow> bool" where
  "rsame mem root mem' \<longleftrightarrow> (\<forall>p. uvpath p \<longrightarrow> rpath mem' root p = rpath mem root p)"

lemma rsame_refl [simp]: "rsame mem root mem" by (simp add: rsame_def)

lemma rsame_trans: "rsame m1 r m2 \<Longrightarrow> rsame m2 r m3 \<Longrightarrow> rsame m1 r m3" by (simp add: rsame_def)

lemma walk_cong_on:
  assumes "\<And>q' t i r. q = q' @ i # r \<Longrightarrow> walk mem c q' = Some t \<Longrightarrow> next_table mem' t i = next_table mem t i"
  shows "walk mem' c q = walk mem c q"
  using assms
proof (induction q rule: rev_induct)
  case (snoc j q)
  have "walk mem' c q = walk mem c q" by (rule snoc.IH) (use snoc.prems in fastforce)
  then show ?case using snoc.prems [of q j "[]"] by (cases "walk mem c q") (simp_all add: walk_snoc)
qed simp

text \<open>Entries that translation does not tell apart: equal, or two links to the same table.\<close>

definition sim_entry :: "nat list \<Rightarrow> u64 \<Rightarrow> u64 \<Rightarrow> bool" where
  "sim_entry q e e' \<longleftrightarrow> e' = e \<or> length q \<le> 2 \<and> is_present e \<and> \<not> is_huge e \<and> same_bits e e'"

definition user_sim :: "words \<Rightarrow> u64 \<Rightarrow> words \<Rightarrow> bool" where
  "user_sim mem root mem' \<longleftrightarrow>
     (\<forall>q t i. user_path q \<longrightarrow> walk mem root q = Some t \<longrightarrow> user_index q i \<longrightarrow> sim_entry q (entry mem t i) (entry mem' t i))"

lemma sim_entry_next: "sim_entry q (entry mem t i) (entry mem' t i) \<Longrightarrow> next_table mem' t i = next_table mem t i"
  by (auto simp: sim_entry_def next_table_def Let_def same_bits_def table_from_phys_def)

lemma user_sim_walk:
  assumes "user_sim mem root mem'" "user_path q" shows "walk mem' root q = walk mem root q"
proof (rule walk_cong_on)
  fix q' t i r assume q: "q = q' @ i # r" and w: "walk mem root q' = Some t"
  have "user_path (q' @ [i])" using assms(2) q user_path_prefix [of "q' @ [i]" r] by simp
  then show "next_table mem' t i = next_table mem t i"
    using assms(1) w by (intro sim_entry_next [of q']) (auto simp: user_sim_def user_path_snoc)
qed

lemma user_sim_rpath:
  assumes sim: "user_sim mem root mem'" and "uvpath (q @ is)" "is \<noteq> []" "walk mem root q = Some t"
  shows "rpath mem' t is = rpath mem t is"
  using assms(2-)
proof (induction "is" arbitrary: q t)
  case (Cons i "is")
  have u: "user_path q" "user_index q i" "length q = 3 - length is" using uvpath_split [OF Cons.prems(1)] by auto
  have se: "sim_entry q (entry mem t i) (entry mem' t i)" using sim u Cons.prems(3) by (simp add: user_sim_def)
  show ?case
  proof (cases "is_present (entry mem t i) \<and> \<not> is_huge (entry mem t i) \<and> is \<noteq> []")
    case True
    then have "walk mem root (q @ [i]) = Some (table_from_phys (entry mem t i))"
      using Cons.prems(3) by (simp add: walk_snoc next_table_def)
    then have "rpath mem' (table_from_phys (entry mem t i)) is = rpath mem (table_from_phys (entry mem t i)) is"
      using Cons.prems(1) True by (intro Cons.IH [of "q @ [i]"]) auto
    moreover have "is_present (entry mem' t i)" "\<not> is_huge (entry mem' t i)"
      "table_from_phys (entry mem' t i) = table_from_phys (entry mem t i)"
      using se True by (auto simp: sim_entry_def same_bits_def table_from_phys_def)
    ultimately show ?thesis using True by (simp add: Let_def)
  next
    case False
    then have "entry mem' t i = entry mem t i" if "is_present (entry mem t i)"
      using that se u(3) by (auto simp: sim_entry_def)
    moreover have "is_present (entry mem' t i) = is_present (entry mem t i)"
      using se by (auto simp: sim_entry_def same_bits_def)
    ultimately show ?thesis using False by (auto simp: Let_def)
  qed
qed simp

lemma user_sim_rsame: "user_sim mem root mem' \<Longrightarrow> rsame mem root mem'"
  unfolding rsame_def
proof (intro allI impI)
  fix p assume s: "user_sim mem root mem'" and p: "uvpath p"
  then have "p \<noteq> []" by (auto simp: uvpath_def)
  then show "rpath mem' root p = rpath mem root p" using user_sim_rpath [OF s, of "[]" p root] p by simp
qed

text \<open>Writing one slot of the user tree.\<close>

lemma entry_upd_user:
  assumes tree: "vm_tree pa mem root" and q: "user_path q" "walk mem root q = Some t" "i < 512"
    and q': "user_path q'" "walk mem root q' = Some t'" "j < 512"
  shows "entry (mem(slot t i := x)) t' j = (if q' = q \<and> j = i then x else entry mem t' j)"
proof -
  have "slot t' j = slot t i \<longleftrightarrow> q' = q \<and> j = i"
    using vm_tree_slot [OF tree q'(1) q(1) q'(2) q(2) q'(3) q(3)] q(2) q'(2) by auto
  then show ?thesis by (simp add: entry_def)
qed

lemma user_sim_link:
  assumes tree: "vm_tree pa mem root" and q: "user_path q" "walk mem root q = Some t" "i < 512" "length q \<le> 2"
    and e: "is_present (entry mem t i)" "\<not> is_huge (entry mem t i)" "same_bits (entry mem t i) e'"
  shows "user_sim mem root (mem(slot t i := e'))"
  unfolding user_sim_def sim_entry_def
  using entry_upd_user [OF tree q(1-3), of _ _ _ e'] q e by (auto simp: user_index_def)

text \<open>Hanging a fresh, empty table below a slot that was not present.\<close>

lemma rsame_new:
  assumes tree: "vm_tree pa mem root" and q: "user_path q" "walk mem root q = Some t" "i < 512" "length q \<le> 2"
    and np: "\<not> is_present (entry mem t i)" and e: "is_present e" "\<not> is_huge e"
    and zero: "\<And>j. j < 512 \<Longrightarrow> entry (mem(slot t i := e)) (table_from_phys e) j = 0"
  shows "rsame mem root (mem(slot t i := e))"
proof -
  define m where "m = mem(slot t i := e)"
  have "rpath m t' is = rpath mem t' is" if "uvpath (q' @ is)" "is \<noteq> []" "walk mem root q' = Some t'" for q' "is" t'
    using that
  proof (induction "is" arbitrary: q' t')
    case (Cons k "is")
    have u: "user_path q'" "user_index q' k" "length q' = 3 - length is" using uvpath_split [OF Cons.prems(1)] by auto
    have k: "k < 512" using u(2) by (simp add: user_index_def)
    note en = entry_upd_user [OF tree q(1-3) u(1) Cons.prems(3) k, of e, folded m_def]
    show ?case
    proof (cases "q' = q \<and> k = i")
      case True
      then have tt: "t' = t" using q(2) Cons.prems(3) by simp
      have "is \<noteq> []" using True u(3) q(4) Cons.prems(1) by (auto simp: uvpath_def)
      then obtain j js where js: "is = j # js" by (cases "is") auto
      have "j < 512" using Cons.prems(1) js by (simp add: uvpath_def)
      then have "\<not> is_present (entry m (table_from_phys e) j)" using zero unfolding m_def by (simp add: is_present_def)
      then show ?thesis using True en np e js tt by (simp add: Let_def)
    next
      case False
      then have same: "entry m t' k = entry mem t' k" using en by auto
      show ?thesis
      proof (cases "is_present (entry mem t' k) \<and> \<not> is_huge (entry mem t' k) \<and> is \<noteq> []")
        case True
        then have "walk mem root (q' @ [k]) = Some (table_from_phys (entry mem t' k))"
          using Cons.prems(3) by (simp add: walk_snoc next_table_def)
        then have "rpath m (table_from_phys (entry mem t' k)) is = rpath mem (table_from_phys (entry mem t' k)) is"
          using Cons.prems(1) True by (intro Cons.IH [of "q' @ [k]"]) auto
        then show ?thesis using same True by (simp add: Let_def)
      qed (use same in \<open>auto simp: Let_def\<close>)
    qed
  qed simp
  note all = this
  have "rpath m root p = rpath mem root p" if "uvpath p" for p
  proof -
    have "p \<noteq> []" using that by (auto simp: uvpath_def)
    then show ?thesis using all [of "[]" p root] that by simp
  qed
  then show ?thesis unfolding rsame_def m_def by blast
qed

text \<open>Writing a leaf entry.\<close>

lemma rpath_leaf:
  assumes tree: "vm_tree pa mem root" and q: "user_path q" "walk mem root q = Some t" "i < 512" "length q = 3"
    and p: "uvpath p"
  shows "rpath (mem(slot t i := e)) root p =
    (if p = q @ [i] then (if is_present e then Some (e, 0) else None) else rpath mem root p)"
proof -
  define m where "m = mem(slot t i := e)"
  have "rpath m t' is = (if q' @ is = q @ [i] then (if is_present e then Some (e, 0) else None) else rpath mem t' is)"
    if "uvpath (q' @ is)" "is \<noteq> []" "walk mem root q' = Some t'" for q' "is" t'
    using that
  proof (induction "is" arbitrary: q' t')
    case (Cons k "is")
    have u: "user_path q'" "user_index q' k" "length q' = 3 - length is" using uvpath_split [OF Cons.prems(1)] by auto
    have k: "k < 512" using u(2) by (simp add: user_index_def)
    note en = entry_upd_user [OF tree q(1-3) u(1) Cons.prems(3) k, of e, folded m_def]
    have len: "length q' + length is = 3" using Cons.prems(1) by (simp add: uvpath_def)
    show ?case
    proof (cases "q' = q \<and> k = i")
      case True
      then have "is = []" using len q(4) by simp
      then show ?thesis using True en by (simp add: Let_def)
    next
      case False
      then have same: "entry m t' k = entry mem t' k" using en by auto
      show ?thesis
      proof (cases "is_present (entry mem t' k) \<and> \<not> is_huge (entry mem t' k) \<and> is \<noteq> []")
        case True
        then have "walk mem root (q' @ [k]) = Some (table_from_phys (entry mem t' k))"
          using Cons.prems(3) by (simp add: walk_snoc next_table_def)
        then have "rpath m (table_from_phys (entry mem t' k)) is =
            (if (q' @ [k]) @ is = q @ [i] then (if is_present e then Some (e, 0) else None) else rpath mem (table_from_phys (entry mem t' k)) is)"
          using Cons.prems(1) True by (intro Cons.IH) auto
        then show ?thesis using same True by (simp add: Let_def)
      next
        case stop: False
        have "q' @ k # is \<noteq> q @ [i]"
        proof
          assume eq: "q' @ k # is = q @ [i]"
          show False
          proof (cases "is = []")
            case True
            then show False using eq False by simp
          next
            case ne: False
            obtain r where r: "q = (q' @ [k]) @ r" using eq ne by (cases "is" rule: rev_cases) auto
            have "walk mem root (q' @ [k]) \<noteq> None" using q(2) unfolding r by (auto simp: walk_append split: option.splits)
            then have "next_table mem t' k \<noteq> None" using Cons.prems(3) by (simp add: walk_snoc)
            then show False using stop ne by (auto simp: next_table_def Let_def split: if_splits)
          qed
        qed
        then show ?thesis using same stop by (auto simp: Let_def)
      qed
    qed
  qed simp
  note all = this
  have "p \<noteq> []" using p by (auto simp: uvpath_def)
  then have "rpath m root p =
    (if p = q @ [i] then (if is_present e then Some (e, 0) else None) else rpath mem root p)"
    using all [of "[]" p root] p by simp
  then show ?thesis unfolding m_def .
qed

section \<open>Keeping the invariant\<close>

lemma table_page_mono: "table_page pa t \<Longrightarrow> pa_free_bytes pa' \<subseteq> pa_free_bytes pa \<Longrightarrow> table_page pa' t"
  by (auto simp: table_page_def)

lemma kernel_slot_bits_walk:
  assumes "\<And>a. kernel_slot mem c a \<Longrightarrow> same_bits (mem a) (mem' a)" and "kernel_path q"
  shows "walk mem' c q = walk mem c q"
proof (rule walk_cong_on)
  fix q' t i r assume q: "q = q' @ i # r" and w: "walk mem c q' = Some t"
  have "kernel_slot mem c (slot t i)"
  proof (cases "q' = []")
    case True
    then show ?thesis using assms(2) q w by (simp add: kernel_slot_def kernel_path_def)
  next
    case False
    then have "kernel_path q'" "i < 512" using assms(2) q by (auto simp: kernel_path_def)
    then show ?thesis using w unfolding kernel_slot_def by blast
  qed
  from assms(1) [OF this] show "next_table mem' t i = next_table mem t i"
    by (simp add: next_table_def entry_def Let_def same_bits_def table_from_phys_def)
qed

lemma kernel_sep_keep:
  assumes ks: "kernel_sep pa mem c root" and b: "\<And>a. kernel_slot mem c a \<Longrightarrow> same_bits (mem a) (mem' a)"
    and w: "\<And>q. user_path q \<Longrightarrow> walk mem' root q = walk mem root q" and fr: "pa_free_bytes pa' \<subseteq> pa_free_bytes pa"
  shows "kernel_sep pa' mem' c root"
proof -
  have "same_bits (entry mem c 0) (entry mem' c 0)" using b [of "slot c 0"] by (simp add: kernel_slot_def entry_def)
  then have "\<not> is_huge (entry mem' c 0)" using ks by (simp add: kernel_sep_def same_bits_def)
  moreover have "walk mem' c q = walk mem c q" if "kernel_path q" for q by (rule kernel_slot_bits_walk [OF b that])
  ultimately show ?thesis using ks w table_page_mono [OF _ fr] unfolding kernel_sep_def by (metis (no_types, lifting))
qed

lemma vm_tree_keep:
  assumes "vm_tree pa mem root" and "\<And>q. user_path q \<Longrightarrow> walk mem' root q = walk mem root q"
    and "pa_free_bytes pa' \<subseteq> pa_free_bytes pa"
  shows "vm_tree pa' mem' root"
  using assms table_page_mono [OF _ assms(3)] unfolding vm_tree_def by (metis (no_types, lifting))

lemma user_slot_not_kernel:
  assumes tree: "vm_tree pa mem root" and ks: "kernel_sep pa mem c root"
    and q: "user_path q" "walk mem root q = Some t" "user_index q i"
  shows "\<not> kernel_slot mem c (slot t i)"
proof
  have tp: "table_page pa t" using vm_tree_page [OF tree q(1,2)] .
  have i: "i < 512" using q(3) by (simp add: user_index_def)
  assume "kernel_slot mem c (slot t i)"
  then consider (a) "slot t i = slot c 0"
    | (b) q' t' j where "kernel_path q'" "walk mem c q' = Some t'" "j < 512" "slot t i = slot t' j"
    unfolding kernel_slot_def by blast
  then show False
  proof cases
    case a
    have "table_page pa c" using ks by (simp add: kernel_sep_def)
    then have "t = c \<and> i = 0" using slot_eq_iff [OF tp _ i, of pa c 0] a by simp
    then have "q = []" using ks q(1,2) unfolding kernel_sep_def by blast
    then show False using q(3) \<open>t = c \<and> i = 0\<close> by (simp add: user_index_def)
  next
    case b
    then have "table_page pa t'" "walk mem root q \<noteq> Some t'" using ks q(1) by (auto simp: kernel_sep_def)
    then show False using slot_eq_iff [OF tp _ i b(3)] b(4) q(2) by blast
  qed
qed

lemma kernel_slot_page:
  assumes ks: "kernel_sep pa mem c root" and a: "kernel_slot mem c a"
  shows "unat a \<notin> pa_free_bytes pa"
proof -
  from a obtain t i where t: "table_page pa t" "i < 512" "a = slot t i"
    using ks unfolding kernel_slot_def kernel_sep_def by (metis zero_less_numeral)
  then have "unat a \<in> page_of t" using slot_page by (simp add: table_page_def)
  then show ?thesis using t(1) by (auto simp: table_page_def)
qed

lemma user_slot_page:
  assumes "vm_tree pa mem root" "user_path q" "walk mem root q = Some t" "i < 512"
  shows "unat (slot t i) \<notin> pa_free_bytes pa"
proof -
  have tp: "table_page pa t" using vm_tree_page [OF assms(1-3)] .
  then have "unat (slot t i) \<in> page_of t" using slot_page [OF _ assms(4)] by (simp add: table_page_def)
  then show ?thesis using tp by (auto simp: table_page_def)
qed

lemma zero_words_outside:
  assumes "unat p + unat n \<le> 2 ^ 64" "unat a \<notin> {unat p ..< unat p + unat n}" shows "zero_words mem p n a = mem a"
proof -
  have "\<not> a - p < n"
  proof
    assume "a - p < n"
    then have l: "unat (a - p) < unat n" by (simp add: word_less_nat_alt)
    then have "unat (p + (a - p)) = unat p + unat (a - p)" using assms(1) by (intro unat_plus64) simp
    then show False using assms(2) l by auto
  qed
  then show ?thesis by (simp add: zero_words_def)
qed

text \<open>
  Pages just taken from the page allocator, made writable and zeroed: nothing of the tables
  changes apart from permission bits of the identity map.
\<close>

lemma fresh_pages_keep:
  assumes inv: "vm_inv s root" and pu: "perm_update (vm_mem s) (vm_cr3 s AND PA_MASK) mem1"
    and blk: "{unat p ..< unat p + unat n} \<subseteq> pa_free_bytes (vm_phys s)" "unat p + unat n \<le> 2 ^ 64"
    and pa: "pa_inv pa" "pa_free_bytes pa \<subseteq> pa_free_bytes (vm_phys s)"
  defines "mem' \<equiv> zero_words mem1 p n"
  defines "s' \<equiv> (set_phys s pa)\<lparr>vm_mem := mem'\<rparr>"
  shows "user_sim (vm_mem s) root mem'" and "vm_inv s' root"
    and "\<And>a. kernel_slot (vm_mem s) (vm_cr3 s AND PA_MASK) a \<Longrightarrow> same_bits (vm_mem s a) (mem' a)"
    and "\<And>q t i. user_path q \<Longrightarrow> walk (vm_mem s) root q = Some t \<Longrightarrow> user_index q i \<Longrightarrow> mem' (slot t i) = vm_mem s (slot t i)"
proof -
  let ?mem = "vm_mem s" and ?c = "vm_cr3 s AND PA_MASK"
  have tree: "vm_tree (vm_phys s) ?mem root" and ks: "kernel_sep (vm_phys s) ?mem ?c root"
    using inv by (auto simp: vm_inv_def)
  have out: "mem' a = mem1 a" if "unat a \<notin> pa_free_bytes (vm_phys s)" for a
    unfolding mem'_def using that blk by (intro zero_words_outside) auto
  have us: "mem' (slot t i) = ?mem (slot t i)" if "user_path q" "walk ?mem root q = Some t" "user_index q i" for q t i
  proof -
    have "i < 512" using that(3) by (simp add: user_index_def)
    then have "mem' (slot t i) = mem1 (slot t i)" using out user_slot_page [OF tree that(1,2)] by blast
    moreover have "mem1 (slot t i) = ?mem (slot t i)"
      using user_slot_not_kernel [OF tree ks that] pu by (auto simp: perm_update_def)
    ultimately show ?thesis by simp
  qed
  then show us': "\<And>q t i. user_path q \<Longrightarrow> walk ?mem root q = Some t \<Longrightarrow> user_index q i \<Longrightarrow> mem' (slot t i) = ?mem (slot t i)" .
  show sim: "user_sim ?mem root mem'" using us by (auto simp: user_sim_def sim_entry_def entry_def)
  show kb: "same_bits (?mem a) (mem' a)" if "kernel_slot ?mem ?c a" for a
    using out [of a] kernel_slot_page [OF ks that] pu by (simp add: perm_update_def)
  have w: "\<And>q. user_path q \<Longrightarrow> walk mem' root q = walk ?mem root q" by (rule user_sim_walk [OF sim])
  show "vm_inv s' root"
    using pa(1) vm_tree_keep [OF tree w pa(2)] kernel_sep_keep [OF ks kb w pa(2)]
    by (simp add: vm_inv_def s'_def set_phys_def)
qed

lemma kernel_slot_bits:
  assumes "\<And>a. kernel_slot mem c a \<Longrightarrow> same_bits (mem a) (mem' a)"
  shows "kernel_slot mem' c a = kernel_slot mem c a"
proof -
  have "kernel_path q \<Longrightarrow> walk mem' c q = walk mem c q" for q by (rule kernel_slot_bits_walk [OF assms])
  then show ?thesis by (simp add: kernel_slot_def cong: conj_cong)
qed

lemma page_bits:
  assumes "4096 dvd unat p" "unat p < 2 ^ 52" shows "(p :: u64) AND PA_MASK = p"
proof -
  have m: "PA_MASK = mask 52 AND NOT (mask 12)" by (simp add: PA_MASK_def mask_eq_exp_minus_1)
  have "unat (p AND mask 52) = unat p" using assms(2) by (simp add: unat_and_mask)
  then have "p AND mask 52 = p" by (rule word_eq_unatI)
  moreover have "unat (p AND NOT (mask 12)) = unat p" using assms(1) by (simp add: unat_and_not_mask dvd_div_mult_self)
  then have "p AND NOT (mask 12) = p" by (rule word_eq_unatI)
  ultimately show ?thesis unfolding m by (simp add: and.assoc [symmetric])
qed

lemma page_low_bits:
  assumes "(p :: u64) AND PA_MASK = p" "PA_MASK AND f = 0" shows "p AND f = 0"
  using assms by (metis and.assoc and_zero_eq)

lemma link_entry:
  assumes p: "(p :: u64) AND PA_MASK = p" and f: "f = 0 \<or> f = PTE_USER"
  defines "e \<equiv> p OR PTE_PRESENT OR PTE_WRITABLE OR (f AND PTE_USER)"
  shows "is_present e" "\<not> is_huge e" "table_from_phys e = p"
proof -
  have z: "p AND PTE_HUGE = 0" by (rule page_low_bits [OF p]) (simp add: PA_MASK_def PTE_HUGE_def)
  have h: "e AND PTE_HUGE = 0"
    using z f unfolding e_def by (auto simp: bit.conj_disj_distrib2 PTE_PRESENT_def PTE_HUGE_def PTE_WRITABLE_def PTE_USER_def)
  then show "\<not> is_huge e" by (simp add: is_huge_def)
  have "e AND PA_MASK = p"
    using p f unfolding e_def
    by (auto simp: bit.conj_disj_distrib2 PTE_PRESENT_def PTE_WRITABLE_def PTE_USER_def PA_MASK_def)
  then show "table_from_phys e = p" by (simp add: table_from_phys_def)
  have "bit e 0" unfolding e_def by (simp add: bit_or_iff PTE_PRESENT_def)
  then show "is_present e" unfolding is_present_def PTE_PRESENT_def
    by (metis and_one_eq bit_0 odd_iff_mod_2_eq_one zero_neq_one)
qed

text \<open>A word that belongs to no table and to no free page.\<close>

definition untouched :: "vm_state \<Rightarrow> u64 \<Rightarrow> u64 \<Rightarrow> bool" where
  "untouched s root a \<longleftrightarrow> unat a \<notin> pa_free_bytes (vm_phys s) \<and> \<not> kernel_slot (vm_mem s) (vm_cr3 s AND PA_MASK) a \<and>
     (\<forall>q t. user_path q \<longrightarrow> walk (vm_mem s) root q = Some t \<longrightarrow> unat a \<notin> page_of t)"

text \<open>What the table operations keep.\<close>

definition vm_keeps :: "vm_state \<Rightarrow> u64 \<Rightarrow> vm_state \<Rightarrow> bool" where
  "vm_keeps s root s' \<longleftrightarrow> vm_inv s' root \<and> vm_spaces s' = vm_spaces s \<and> vm_cr3 s' = vm_cr3 s \<and>
     vm_kernel_cr3 s' = vm_kernel_cr3 s \<and> km_heap (vm_km s') = km_heap (vm_km s) \<and>
     pa_free_bytes (vm_phys s') \<subseteq> pa_free_bytes (vm_phys s) \<and>
     (\<forall>a. untouched s root a \<longrightarrow> untouched s' root a \<and> vm_mem s' a = vm_mem s a)"

lemma vm_keeps_refl: "vm_inv s root \<Longrightarrow> vm_keeps s root s"
  by (simp add: vm_keeps_def)

lemma vm_keeps_trans: "vm_keeps s1 r s2 \<Longrightarrow> vm_keeps s2 r s3 \<Longrightarrow> vm_keeps s1 r s3"
  unfolding vm_keeps_def by (metis order_trans)

lemma page_alloc_one:
  assumes "pa_inv pa"
  shows "allocate_pages pa 1 (ucast PAGE_SIZE_4K) IDENTITY_BRIDGE_ALLOC_MAX = Some (pa, 0) \<or>
    (\<exists>pa' p. allocate_pages pa 1 (ucast PAGE_SIZE_4K) IDENTITY_BRIDGE_ALLOC_MAX = Some (pa', p) \<and> p \<noteq> 0 \<and> pa_inv pa' \<and>
       4096 dvd unat p \<and> unat p + 4096 \<le> 2 ^ 31 \<and> page_of p \<subseteq> pa_free_bytes pa \<and>
       pa_free_bytes pa' \<subseteq> pa_free_bytes pa - page_of p)"
proof -
  have A: "(ucast PAGE_SIZE_4K :: u32) = 2 ^ 12" by (simp add: PAGE_SIZE_4K_def)
  from allocate_pages_sound [OF assms _ A, of 1 IDENTITY_BRIDGE_ALLOC_MAX] show ?thesis
    by (fastforce simp: page_of_def IDENTITY_BRIDGE_ALLOC_MAX_def)
qed

text \<open>
  A block just taken from the page allocator, made writable and zeroed: nothing the address
  space relies on changes, and every word of the block is zero and belongs to no table.
\<close>

lemma fresh_block:
  assumes inv: "vm_inv s root" and pa: "pa_inv pa'"
    and blk: "{unat p ..< unat p + unat n} \<subseteq> pa_free_bytes (vm_phys s)" "unat p + unat n \<le> 2 ^ 31"
      "pa_free_bytes pa' \<subseteq> pa_free_bytes (vm_phys s) - {unat p ..< unat p + unat n}"
  shows "\<exists>mem1. make_region_writable (set_phys s pa') p n = Some ((set_phys s pa')\<lparr>vm_mem := mem1\<rparr>) \<and>
    vm_keeps s root ((set_phys s pa')\<lparr>vm_mem := zero_words mem1 p n\<rparr>) \<and> user_sim (vm_mem s) root (zero_words mem1 p n) \<and>
    (\<forall>a. kernel_slot (vm_mem s) (vm_cr3 s AND PA_MASK) a \<longrightarrow> same_bits (vm_mem s a) (zero_words mem1 p n a)) \<and>
    (\<forall>a. unat a \<in> {unat p ..< unat p + unat n} \<longrightarrow>
      untouched ((set_phys s pa')\<lparr>vm_mem := zero_words mem1 p n\<rparr>) root a \<and> zero_words mem1 p n a = 0)"
proof -
  let ?c = "vm_cr3 s AND PA_MASK"
  have tree: "vm_tree (vm_phys s) (vm_mem s) root" and ks: "kernel_sep (vm_phys s) (vm_mem s) ?c root"
    using inv by (auto simp: vm_inv_def)
  have nh: "\<not> is_huge (entry (vm_mem (set_phys s pa')) (vm_cr3 (set_phys s pa') AND PA_MASK) 0)"
    using ks by (simp add: kernel_sep_def set_phys_def)
  have b39: "unat p + unat n \<le> 2 ^ 39" and bnd: "unat p + unat n \<le> 2 ^ 64" using blk(2) by simp_all
  from make_region_writable_correct [OF b39 nh] obtain mem1 where
    M0: "make_region_writable (set_phys s pa') p n = Some ((set_phys s pa')\<lparr>vm_mem := mem1\<rparr>)"
      "perm_update (vm_mem (set_phys s pa')) (vm_cr3 (set_phys s pa') AND PA_MASK) mem1" by blast
  have M: "perm_update (vm_mem s) ?c mem1" using M0(2) by (simp add: set_phys_def)
  define m where "m = zero_words mem1 p n"
  have fr: "pa_free_bytes pa' \<subseteq> pa_free_bytes (vm_phys s)" using blk(3) by blast
  note K = fresh_pages_keep [OF inv M blk(1) bnd pa fr, folded m_def]
  have kk: "kernel_slot m ?c a = kernel_slot (vm_mem s) ?c a" for a by (rule kernel_slot_bits [OF K(3)])
  have w: "walk m root q = walk (vm_mem s) root q" if "user_path q" for q by (rule user_sim_walk [OF K(1) that])
  have "untouched ((set_phys s pa')\<lparr>vm_mem := m\<rparr>) root a \<and> m a = vm_mem s a" if u: "untouched s root a" for a
  proof -
    have na: "unat a \<notin> pa_free_bytes (vm_phys s)" "\<not> kernel_slot (vm_mem s) ?c a" using u by (auto simp: untouched_def)
    have "m a = mem1 a" unfolding m_def using na(1) blk(1) bnd by (intro zero_words_outside) auto
    then have e: "m a = vm_mem s a" using na(2) M by (auto simp: perm_update_def)
    then show ?thesis using u fr kk w by (auto simp: untouched_def set_phys_def)
  qed
  then have kp: "vm_keeps s root ((set_phys s pa')\<lparr>vm_mem := m\<rparr>)" using K(2) fr by (simp add: vm_keeps_def set_phys_def)
  have z: "untouched ((set_phys s pa')\<lparr>vm_mem := m\<rparr>) root a \<and> m a = 0" if a: "unat a \<in> {unat p ..< unat p + unat n}" for a
  proof -
    have f: "unat a \<in> pa_free_bytes (vm_phys s)" using a blk(1) by blast
    have "unat (a - p) < unat n" using a by (simp add: unat_minus_nw less_diff_conv2 word_le_nat_alt)
    then have "m a = 0" by (simp add: m_def zero_words_def word_less_nat_alt)
    moreover have "\<not> kernel_slot (vm_mem s) ?c a" using kernel_slot_page [OF ks] f by blast
    moreover have "unat a \<notin> page_of t" if "user_path q" "walk (vm_mem s) root q = Some t" for q t
      using vm_tree_page [OF tree that] f by (auto simp: table_page_def)
    moreover have "unat a \<notin> pa_free_bytes pa'" using a blk(3) by blast
    ultimately show ?thesis using kk w by (auto simp: untouched_def set_phys_def)
  qed
  show ?thesis using M0(1) kp K(1,3) z unfolding m_def by blast
qed

lemma alloc_table_page_correct:
  assumes inv: "vm_inv s root"
  shows "alloc_table_page s = Some (s, 0) \<or>
    (\<exists>s' p. alloc_table_page s = Some (s', p) \<and> p \<noteq> 0 \<and> vm_keeps s root s' \<and> user_sim (vm_mem s) root (vm_mem s') \<and>
       table_page (vm_phys s') p \<and> p AND PA_MASK = p \<and> page_of p \<subseteq> pa_free_bytes (vm_phys s) \<and>
       (\<forall>i < 512. entry (vm_mem s') p i = 0) \<and>
       (\<forall>a. kernel_slot (vm_mem s) (vm_cr3 s AND PA_MASK) a \<longrightarrow> same_bits (vm_mem s a) (vm_mem s' a)))"
proof -
  have pa: "pa_inv (vm_phys s)" using inv by (auto simp: vm_inv_def)
  from page_alloc_one [OF pa] show ?thesis
  proof (elim disjE exE conjE)
    assume "allocate_pages (vm_phys s) 1 (ucast PAGE_SIZE_4K) IDENTITY_BRIDGE_ALLOC_MAX = Some (vm_phys s, 0)"
    then show ?thesis by (simp add: alloc_table_page_def set_phys_def)
  next
    fix pa' p
    assume A: "allocate_pages (vm_phys s) 1 (ucast PAGE_SIZE_4K) IDENTITY_BRIDGE_ALLOC_MAX = Some (pa', p)" "p \<noteq> 0"
      "pa_inv pa'" "4096 dvd unat p" "unat p + 4096 \<le> 2 ^ 31" "page_of p \<subseteq> pa_free_bytes (vm_phys s)"
      "pa_free_bytes pa' \<subseteq> pa_free_bytes (vm_phys s) - page_of p"
    have P: "unat PAGE_SIZE_4K = 4096" by (simp add: PAGE_SIZE_4K_def)
    have blk: "{unat p ..< unat p + unat PAGE_SIZE_4K} = page_of p" by (simp add: page_of_def P)
    have bnd: "unat p + unat PAGE_SIZE_4K \<le> 2 ^ 31" using A(5) P by simp
    from fresh_block [of s root pa' p PAGE_SIZE_4K, unfolded blk, OF inv A(3,6) bnd A(7)] obtain mem1 where
      F: "make_region_writable (set_phys s pa') p PAGE_SIZE_4K = Some ((set_phys s pa')\<lparr>vm_mem := mem1\<rparr>)"
        "vm_keeps s root ((set_phys s pa')\<lparr>vm_mem := zero_words mem1 p PAGE_SIZE_4K\<rparr>)"
        "user_sim (vm_mem s) root (zero_words mem1 p PAGE_SIZE_4K)"
        "\<forall>a. kernel_slot (vm_mem s) (vm_cr3 s AND PA_MASK) a \<longrightarrow> same_bits (vm_mem s a) (zero_words mem1 p PAGE_SIZE_4K a)"
        "\<forall>a. unat a \<in> page_of p \<longrightarrow> zero_words mem1 p PAGE_SIZE_4K a = 0" by blast
    let ?s' = "(set_phys s pa')\<lparr>vm_mem := zero_words mem1 p PAGE_SIZE_4K\<rparr>"
    have al: "alloc_table_page s = Some (?s', p)" using A(1,2) F(1) by (simp add: alloc_table_page_def set_phys_def)
    have tp: "table_page pa' p" using A(2,4,5,7) by (auto simp: table_page_def)
    have z: "entry (zero_words mem1 p PAGE_SIZE_4K) p i = 0" if "i < 512" for i
      using F(5) slot_page [of p i] that A(5) by (simp add: entry_def)
    have pm: "p AND PA_MASK = p" using A(4,5) by (intro page_bits) auto
    show ?thesis using al A(2,6) F(2-4) tp pm z by (intro disjI2 exI [of _ ?s'] exI [of _ p]) (auto simp: set_phys_def)
  qed
qed

section \<open>One level of the walk\<close>

lemma link_fresh:
  assumes tree: "vm_tree pa mem root" and q: "user_path q" "walk mem root q = Some t" "user_index q i" "length q \<le> 2"
    and np: "\<not> is_present (entry mem t i)" and e: "is_present e" "\<not> is_huge e" "table_from_phys e = p"
    and p: "table_page pa p" "\<And>q'. user_path q' \<Longrightarrow> walk mem root q' \<noteq> Some p" "\<And>j. j < 512 \<Longrightarrow> entry mem p j = 0"
  defines "m \<equiv> mem(slot t i := e)"
  shows "\<And>j. j < 512 \<Longrightarrow> entry m p j = 0"
    and "\<And>q'. user_path q' \<Longrightarrow> walk m root q' = (if q' = q @ [i] then Some p else walk mem root q')"
    and "vm_tree pa m root"
proof -
  have i: "i < 512" using q(3) by (simp add: user_index_def)
  have tp: "table_page pa t" using vm_tree_page [OF tree q(1,2)] .
  have "t \<noteq> p" using p(2) [OF q(1)] q(2) by auto
  then show z: "entry m p j = 0" if "j < 512" for j
    using slot_eq_iff [OF p(1) tp that i] p(3) [OF that] by (auto simp: m_def entry_def)
  have none: "walk mem root (q @ [i]) = None" using q(2) np by (simp add: walk_snoc next_table_def)
  show w: "walk m root q' = (if q' = q @ [i] then Some p else walk mem root q')" if "user_path q'" for q'
    using that
  proof (induction q' rule: rev_induct)
    case (snoc j q')
    have u: "user_path q'" "user_index q' j" using snoc.prems by (auto simp: user_path_snoc)
    have j: "j < 512" using u(2) by (simp add: user_index_def)
    note IH = snoc.IH [OF u(1)]
    show ?case
    proof (cases "q' = q @ [i]")
      case True
      have "next_table m p j = None" using z [OF j] by (simp add: next_table_def is_present_def)
      then have "walk m root (q' @ [j]) = None" using True IH by (simp add: walk_append [of m _ "q @ [i]" "[j]", simplified])
      moreover have "walk mem root (q' @ [j]) = None" using True none by (simp add: walk_append [of mem _ "q @ [i]" "[j]", simplified])
      ultimately show ?thesis using True by simp
    next
      case False
      show ?thesis
      proof (cases "walk mem root q'")
        case None
        then have "q' \<noteq> q" using q(2) by auto
        then show ?thesis using False None IH by (simp add: walk_snoc)
      next
        case (Some t')
        have "entry m t' j = (if q' = q \<and> j = i then e else entry mem t' j)"
          unfolding m_def by (rule entry_upd_user [OF tree q(1,2) i u(1) Some j])
        then show ?thesis using False Some IH e by (auto simp: walk_snoc next_table_def Let_def)
      qed
    qed
  qed simp
  show "vm_tree pa m root"
    unfolding vm_tree_def
  proof (intro conjI allI impI)
    fix q' t' assume "user_path q'" "walk m root q' = Some t'"
    then show "table_page pa t'" using w p(1) vm_tree_page [OF tree] by (auto split: if_splits)
  next
    fix q1 q2 t' assume a: "user_path q1" "user_path q2" "walk m root q1 = Some t'" "walk m root q2 = Some t'"
    show "q1 = q2"
      using a w [OF a(1)] w [OF a(2)] p(2) [OF a(1)] p(2) [OF a(2)] vm_tree_inj [OF tree a(1,2)] by (auto split: if_splits)
  qed
qed

lemma kernel_sep_link:
  assumes ks: "kernel_sep pa mem c root" and b: "\<And>a. kernel_slot mem c a \<Longrightarrow> same_bits (mem a) (m a)"
    and w: "\<And>q'. user_path q' \<Longrightarrow> walk m root q' = (if q' = r then Some p else walk mem root q')"
    and p: "p \<noteq> c" "\<And>k. kernel_path k \<Longrightarrow> walk mem c k \<noteq> Some p"
  shows "kernel_sep pa m c root"
proof -
  have "same_bits (entry mem c 0) (entry m c 0)" using b [of "slot c 0"] by (simp add: kernel_slot_def entry_def)
  then have h: "\<not> is_huge (entry m c 0)" using ks by (simp add: kernel_sep_def same_bits_def)
  have k: "walk m c q = walk mem c q" if "kernel_path q" for q by (rule kernel_slot_bits_walk [OF b that])
  show ?thesis
    unfolding kernel_sep_def
  proof (intro conjI allI impI)
    show "table_page pa c" using ks by (simp add: kernel_sep_def)
    show "\<not> is_huge (entry m c 0)" by (rule h)
  next
    fix q t assume a: "kernel_path q" "walk m c q = Some t"
    then have a': "walk mem c q = Some t" using k by simp
    then show "table_page pa t" using ks a(1) by (simp add: kernel_sep_def)
    fix q' assume q': "user_path q'"
    then have "walk mem root q' \<noteq> Some t" using ks a(1) a' by (simp add: kernel_sep_def)
    then show "walk m root q' \<noteq> Some t" using w [OF q'] p(2) [OF a(1)] a' by auto
  next
    fix q' assume a: "user_path q'" "walk m root q' = Some c"
    then have "walk mem root q' = Some c" using w [OF a(1)] p(1) by (auto split: if_splits)
    then show "q' = []" using ks a(1) by (simp add: kernel_sep_def)
  qed
qed

lemma page_of_self [simp]: "unat t \<in> page_of t" by (simp add: page_of_def)

lemma fresh_not_table: "page_of p \<subseteq> pa_free_bytes pa \<Longrightarrow> table_page pa t \<Longrightarrow> t \<noteq> p"
  unfolding table_page_def using page_of_self [of p] by blast

text \<open>Writing a slot of the user tree touches no other word and no slot of the identity map.\<close>

lemma user_write_keeps:
  fixes e :: u64
  assumes inv: "vm_inv s root" and q: "user_path q" "walk (vm_mem s) root q = Some t" "user_index q i"
  defines "m \<equiv> (vm_mem s)(slot t i := e)"
  shows "\<And>a. kernel_slot (vm_mem s) (vm_cr3 s AND PA_MASK) a \<Longrightarrow> same_bits (vm_mem s a) (m a)"
    and "\<And>a. untouched s root a \<Longrightarrow> m a = vm_mem s a"
proof -
  have tree: "vm_tree (vm_phys s) (vm_mem s) root" and ks: "kernel_sep (vm_phys s) (vm_mem s) (vm_cr3 s AND PA_MASK) root"
    using inv by (auto simp: vm_inv_def)
  show "same_bits (vm_mem s a) (m a)" if "kernel_slot (vm_mem s) (vm_cr3 s AND PA_MASK) a" for a
    using user_slot_not_kernel [OF tree ks q] that by (auto simp: m_def)
  have "unat (slot t i) \<in> page_of t"
    using vm_tree_page [OF tree q(1,2)] q(3) by (intro slot_page) (auto simp: table_page_def user_index_def)
  then show "m a = vm_mem s a" if "untouched s root a" for a
    using that q(1,2) by (auto simp: m_def untouched_def)
qed

lemma user_write_sim:
  assumes inv: "vm_inv s root" and q: "user_path q" "walk (vm_mem s) root q = Some t" "user_index q i"
    and w: "\<And>q'. user_path q' \<Longrightarrow> walk ((vm_mem s)(slot t i := e)) root q' = walk (vm_mem s) root q'"
  shows "vm_keeps s root (s\<lparr>vm_mem := (vm_mem s)(slot t i := e)\<rparr>)"
proof -
  define m where "m = (vm_mem s)(slot t i := e)"
  let ?c = "vm_cr3 s AND PA_MASK"
  note K = user_write_keeps [OF inv q, of _ e, folded m_def]
  note w = w [folded m_def]
  have tree: "vm_tree (vm_phys s) (vm_mem s) root" and ks: "kernel_sep (vm_phys s) (vm_mem s) ?c root" and pa: "pa_inv (vm_phys s)"
    using inv by (auto simp: vm_inv_def)
  have i: "vm_inv (s\<lparr>vm_mem := m\<rparr>) root"
    using vm_tree_keep [OF tree w order_refl] kernel_sep_keep [OF ks K(1) w order_refl] pa by (simp add: vm_inv_def)
  have k: "kernel_slot m ?c a = kernel_slot (vm_mem s) ?c a" for a by (rule kernel_slot_bits [OF K(1)])
  have "untouched (s\<lparr>vm_mem := m\<rparr>) root a" if "untouched s root a" for a
    using that w k by (simp add: untouched_def)
  then have "vm_keeps s root (s\<lparr>vm_mem := m\<rparr>)" using i K(2) by (simp add: vm_keeps_def)
  then show ?thesis by (simp add: m_def)
qed

lemma user_flag [simp]: "(0 :: u64) AND PTE_USER = 0" "PTE_USER AND PTE_USER = PTE_USER"
  by (simp_all add: PTE_USER_def)

lemma same_bits_link:
  assumes "f = 0 \<or> f = PTE_USER" shows "same_bits e (e OR PTE_WRITABLE OR (f AND PTE_USER))"
proof -
  have "same_bits e (e OR (PTE_WRITABLE OR (f AND PTE_USER)))"
    using assms by (intro same_bits_or) (auto simp: PTE_PRESENT_def PTE_HUGE_def PTE_WRITABLE_def PA_MASK_def PTE_USER_def)
  then show ?thesis by (simp add: or.assoc)
qed

text \<open>Linking a fresh table keeps the invariant and every translation.\<close>

lemma link_fresh_keeps:
  assumes inv: "vm_inv s root" and q: "user_path q" "walk (vm_mem s) root q = Some t" "user_index q i" "length q \<le> 2"
    and np: "\<not> is_present (entry (vm_mem s) t i)" and e: "is_present e" "\<not> is_huge e" "table_from_phys e = p"
    and p: "table_page (vm_phys s) p" "\<And>q'. user_path q' \<Longrightarrow> walk (vm_mem s) root q' \<noteq> Some p"
      "\<And>j. j < 512 \<Longrightarrow> entry (vm_mem s) p j = 0"
    and k: "p \<noteq> vm_cr3 s AND PA_MASK" "\<And>k. kernel_path k \<Longrightarrow> walk (vm_mem s) (vm_cr3 s AND PA_MASK) k \<noteq> Some p"
  defines "m \<equiv> (vm_mem s)(slot t i := e)"
  shows "vm_inv (s\<lparr>vm_mem := m\<rparr>) root" and "rsame (vm_mem s) root m" and "walk m root (q @ [i]) = Some p"
    and "\<And>a. untouched s root a \<Longrightarrow> unat a \<notin> page_of p \<Longrightarrow> untouched (s\<lparr>vm_mem := m\<rparr>) root a \<and> m a = vm_mem s a"
proof -
  let ?c = "vm_cr3 s AND PA_MASK"
  have tree: "vm_tree (vm_phys s) (vm_mem s) root" and ks: "kernel_sep (vm_phys s) (vm_mem s) ?c root" and pa: "pa_inv (vm_phys s)"
    using inv by (auto simp: vm_inv_def)
  note L = link_fresh [OF tree q np e p, folded m_def]
  note K = user_write_keeps [OF inv q(1-3), of _ e, folded m_def]
  have ks': "kernel_sep (vm_phys s) m ?c root" by (rule kernel_sep_link [OF ks K(1) L(2) k])
  then show "vm_inv (s\<lparr>vm_mem := m\<rparr>) root" using pa L(3) by (simp add: vm_inv_def)
  have i: "i < 512" using q(3) by (simp add: user_index_def)
  show "rsame (vm_mem s) root m"
    unfolding m_def by (rule rsame_new [OF tree q(1,2) i q(4) np e(1,2)]) (use L(1) e(3) in \<open>simp add: m_def\<close>)
  have "user_path (q @ [i])" using q by (simp add: user_path_snoc)
  then show "walk m root (q @ [i]) = Some p" using L(2) by simp
  have kk: "kernel_slot m ?c a = kernel_slot (vm_mem s) ?c a" for a by (rule kernel_slot_bits [OF K(1)])
  show "untouched (s\<lparr>vm_mem := m\<rparr>) root a \<and> m a = vm_mem s a" if "untouched s root a" "unat a \<notin> page_of p" for a
    using that K(2) [OF that(1)] kk L(2) by (auto simp: untouched_def split: if_splits)
qed

lemma ensure_next_table_correct:
  assumes inv: "vm_inv s root" and q: "user_path q" "walk (vm_mem s) root q = Some t" "user_index q i" "length q \<le> 2"
    and f: "f = 0 \<or> f = PTE_USER"
  shows "\<exists>s' u. ensure_next_table s t i f = Some (s', u) \<and> vm_keeps s root s' \<and> rsame (vm_mem s) root (vm_mem s') \<and>
    (u \<noteq> 0 \<longrightarrow> walk (vm_mem s') root (q @ [i]) = Some u)"
proof -
  have tree: "vm_tree (vm_phys s) (vm_mem s) root" and ks: "kernel_sep (vm_phys s) (vm_mem s) (vm_cr3 s AND PA_MASK) root"
    using inv by (auto simp: vm_inv_def)
  have i: "i < 512" using q(3) by (simp add: user_index_def)
  consider (present) "is_present (entry (vm_mem s) t i)" "\<not> is_huge (entry (vm_mem s) t i)"
    | (huge) "is_present (entry (vm_mem s) t i)" "is_huge (entry (vm_mem s) t i)"
    | (null) "\<not> is_present (entry (vm_mem s) t i)" "alloc_table_page s = Some (s, 0)"
    | (new) s1 p where "\<not> is_present (entry (vm_mem s) t i)" "alloc_table_page s = Some (s1, p)" "p \<noteq> 0" "vm_keeps s root s1"
       "user_sim (vm_mem s) root (vm_mem s1)" "table_page (vm_phys s1) p" "p AND PA_MASK = p"
       "page_of p \<subseteq> pa_free_bytes (vm_phys s)" "\<forall>i < 512. entry (vm_mem s1) p i = 0"
       "\<forall>a. kernel_slot (vm_mem s) (vm_cr3 s AND PA_MASK) a \<longrightarrow> same_bits (vm_mem s a) (vm_mem s1 a)"
    using alloc_table_page_correct [OF inv] by blast
  then show ?thesis
  proof cases
    case present
    let ?e = "entry (vm_mem s) t i OR PTE_WRITABLE OR (f AND PTE_USER)"
    let ?m = "(vm_mem s)(slot t i := ?e)"
    have sm: "user_sim (vm_mem s) root ?m" by (rule user_sim_link [OF tree q(1,2) i q(4) present same_bits_link [OF f]])
    have w: "walk ?m root q' = walk (vm_mem s) root q'" if "user_path q'" for q' by (rule user_sim_walk [OF sm that])
    have "walk (vm_mem s) root (q @ [i]) = Some (table_from_phys ?e)"
      using q(2) present same_bits_link [OF f, of "entry (vm_mem s) t i"]
      by (simp add: walk_snoc next_table_def Let_def same_bits_def table_from_phys_def)
    moreover have "user_path (q @ [i])" using q by (simp add: user_path_snoc)
    ultimately have "walk ?m root (q @ [i]) = Some (table_from_phys ?e)" using w by simp
    then show ?thesis
      using present user_write_sim [OF inv q(1-3) w] user_sim_rsame [OF sm]
      by (intro exI [of _ "s\<lparr>vm_mem := ?m\<rparr>"] exI [of _ "table_from_phys ?e"]) (simp add: ensure_next_table_def Let_def)
  next
    case huge
    then show ?thesis using vm_keeps_refl [OF inv]
      by (intro exI [of _ s] exI [of _ 0]) (simp add: ensure_next_table_def)
  next
    case null
    then show ?thesis using vm_keeps_refl [OF inv]
      by (intro exI [of _ s] exI [of _ 0]) (simp add: ensure_next_table_def)
  next
    case new
    let ?e = "p OR PTE_PRESENT OR PTE_WRITABLE OR (f AND PTE_USER)"
    let ?m = "(vm_mem s1)(slot t i := ?e)"
    note E = link_entry [OF new(7) f]
    have inv1: "vm_inv s1 root" and c: "vm_cr3 s1 = vm_cr3 s" using new(4) by (auto simp: vm_keeps_def)
    have w: "walk (vm_mem s1) root q' = walk (vm_mem s) root q'" if "user_path q'" for q' by (rule user_sim_walk [OF new(5) that])
    have q1: "walk (vm_mem s1) root q = Some t" using w q(1,2) by simp
    have "sim_entry q (entry (vm_mem s) t i) (entry (vm_mem s1) t i)" using new(5) q by (simp add: user_sim_def)
    then have np: "\<not> is_present (entry (vm_mem s1) t i)" using new(1) by (auto simp: sim_entry_def)
    have fresh: "walk (vm_mem s1) root q' \<noteq> Some p" if "user_path q'" for q'
      using fresh_not_table [OF new(8)] vm_tree_page [OF tree that] w [OF that] by auto
    have kc: "p \<noteq> vm_cr3 s1 AND PA_MASK" using fresh_not_table [OF new(8)] ks c by (auto simp: kernel_sep_def)
    have kw: "walk (vm_mem s1) (vm_cr3 s1 AND PA_MASK) k \<noteq> Some p" if "kernel_path k" for k
      using kernel_slot_bits_walk [of "vm_mem s" "vm_cr3 s AND PA_MASK" "vm_mem s1", OF _ that] new(10) c
        fresh_not_table [OF new(8)] ks that by (auto simp: kernel_sep_def)
    note L = link_fresh_keeps [OF inv1 q(1) q1 q(3,4) np E new(6) fresh _ kc kw]
    have L': "vm_inv (s1\<lparr>vm_mem := ?m\<rparr>) root" "rsame (vm_mem s1) root ?m" "walk ?m root (q @ [i]) = Some p"
      "\<And>a. untouched s1 root a \<Longrightarrow> unat a \<notin> page_of p \<Longrightarrow> untouched (s1\<lparr>vm_mem := ?m\<rparr>) root a \<and> ?m a = vm_mem s1 a"
      using L new(9) by blast+
    have "untouched (s1\<lparr>vm_mem := ?m\<rparr>) root a \<and> ?m a = vm_mem s a" if u: "untouched s root a" for a
    proof -
      have "untouched s1 root a" "vm_mem s1 a = vm_mem s a" using new(4) u by (auto simp: vm_keeps_def)
      moreover have "unat a \<notin> page_of p" using u new(8) by (auto simp: untouched_def)
      ultimately show ?thesis using L'(4) by simp
    qed
    then have "vm_keeps s root (s1\<lparr>vm_mem := ?m\<rparr>)" using new(4) L'(1) by (simp add: vm_keeps_def)
    then show ?thesis
      using new(1-3) L'(3) E(3) rsame_trans [OF user_sim_rsame [OF new(5)] L'(2)]
      by (intro exI [of _ "s1\<lparr>vm_mem := ?m\<rparr>"] exI [of _ p]) (simp add: ensure_next_table_def Let_def)
  qed
qed

section \<open>Mapping one page\<close>

lemma leaf_walk:
  assumes tree: "vm_tree pa mem root" and q: "user_path q" "walk mem root q = Some t" "i < 512" "length q = 3"
    and q': "user_path q'"
  shows "walk (mem(slot t i := e)) root q' = walk mem root q'"
proof (rule walk_cong_on)
  fix r t' j r' assume s: "q' = r @ j # r'" and w: "walk mem root r = Some t'"
  have "user_path (r @ [j])" using q' s user_path_prefix [of "r @ [j]" r'] by simp
  then have u: "user_path r" "length r \<le> 2" "j < 512" by (auto simp: user_path_snoc user_index_def)
  have "entry (mem(slot t i := e)) t' j = entry mem t' j"
    using entry_upd_user [OF tree q(1-3) u(1) w u(3), of e] u(2) q(4) by auto
  then show "next_table (mem(slot t i := e)) t' j = next_table mem t' j" by (simp add: next_table_def)
qed

text \<open>The leaf entry \<open>map_page\<close> writes.\<close>

definition leaf :: "u64 \<Rightarrow> u64 \<Rightarrow> u64" where
  "leaf phys flags = (phys AND PA_MASK) OR page_flags flags"

lemma page_flags_bits:
  "page_flags flags AND PA_MASK = 0" "page_flags flags AND NOT PA_MASK = page_flags flags" "is_present (page_flags flags)"
  by (simp_all add: page_flags_def Let_def PTE_PRESENT_def PTE_WRITABLE_def PTE_USER_def PTE_XD_def PA_MASK_def is_present_def)

lemma leaf_bits:
  "leaf phys flags AND PA_MASK = phys AND PA_MASK" "leaf phys flags AND NOT PA_MASK = page_flags flags" "is_present (leaf phys flags)"
proof -
  show "leaf phys flags AND PA_MASK = phys AND PA_MASK" by (simp add: leaf_def bit.conj_disj_distrib2 page_flags_bits(1) and.assoc)
  show "leaf phys flags AND NOT PA_MASK = page_flags flags"
    by (simp add: leaf_def bit.conj_disj_distrib2 page_flags_bits(2) and.assoc)
  have "(phys AND PA_MASK) AND PTE_PRESENT = 0" by (simp add: and.assoc PTE_PRESENT_def PA_MASK_def)
  then show "is_present (leaf phys flags)"
    using page_flags_bits(3) [of flags] by (simp add: is_present_def leaf_def bit.conj_disj_distrib2)
qed

abbreviation space_root :: "vm_state \<Rightarrow> u64 \<Rightarrow> u64" where
  "space_root s as \<equiv> table_from_phys (pml4_phys (vm_spaces s as))"

lemma map_page_correct:
  assumes inv: "vm_inv s (space_root s as)" and v: "user_addr virt"
  shows "\<exists>s' ok. map_page s as virt phys flags = Some (s', ok) \<and> vm_keeps s (space_root s as) s' \<and>
    (ok \<longrightarrow> as \<noteq> 0 \<and> pml4_phys (vm_spaces s as) \<noteq> 0 \<and> is_aligned virt PAGE_SIZE_4K \<and> is_aligned phys PAGE_SIZE_4K) \<and>
    (\<forall>p. uvpath p \<longrightarrow> rpath (vm_mem s') (space_root s as) p =
       (if ok \<and> p = vpath virt then Some (leaf phys flags, 0) else rpath (vm_mem s) (space_root s as) p))"
proof (cases "as = 0 \<or> pml4_phys (vm_spaces s as) = 0 \<or> phys = 0 \<or> \<not> is_aligned virt PAGE_SIZE_4K \<or> \<not> is_aligned phys PAGE_SIZE_4K")
  case True
  then have "map_page s as virt phys flags = Some (s, False)" by (auto simp: map_page_def)
  then show ?thesis using vm_keeps_refl [OF inv] by auto
next
  case guards: False
  let ?root = "space_root s as"
  define user where "user = (if flags AND MAP_USER \<noteq> 0 then PTE_USER else 0)"
  let ?a = "index_at 39 virt" and ?b = "index_at 30 virt" and ?c = "index_at 21 virt" and ?d = "index_at 12 virt"
  have user: "user = 0 \<or> user = PTE_USER" by (simp add: user_def)
  have paths: "user_path []" "user_path [?a]" "user_path [?a, ?b]" "user_path [?a, ?b, ?c]"
    and idx: "user_index [] ?a" "user_index [?a] ?b" "user_index [?a, ?b] ?c" "user_index [?a, ?b, ?c] ?d"
    using v by (auto simp: user_path_def user_index_def user_addr_def)
  from ensure_next_table_correct [OF inv paths(1) _ idx(1) _ user] obtain s1 t1 where
    E1: "ensure_next_table s ?root ?a user = Some (s1, t1)" "vm_keeps s ?root s1" "rsame (vm_mem s) ?root (vm_mem s1)"
      "t1 \<noteq> 0 \<Longrightarrow> walk (vm_mem s1) ?root [?a] = Some t1" by auto
  have inv1: "vm_inv s1 ?root" using E1(2) by (simp add: vm_keeps_def)
  have m1: "map_page s as virt phys flags = (if t1 = 0 then Some (s1, False) else do {
          (s, pd) \<leftarrow> ensure_next_table s1 t1 ?b user;
          if pd = 0 then Some (s, False)
          else do {
            (s, pt) \<leftarrow> ensure_next_table s pd ?c user;
            if pt = 0 then Some (s, False)
            else Some (s\<lparr>vm_mem := (vm_mem s)(slot pt ?d := leaf phys flags)\<rparr>, True) } })"
    using guards E1(1) unfolding map_page_def Let_def user_def [symmetric] leaf_def [symmetric] by simp
  show ?thesis
  proof (cases "t1 = 0")
    case True
    then show ?thesis using m1 E1(2,3) by (auto simp: rsame_def)
  next
    case t1: False
    from ensure_next_table_correct [OF inv1 paths(2) E1(4) idx(2) _ user] t1 obtain s2 t2 where
      E2: "ensure_next_table s1 t1 ?b user = Some (s2, t2)" "vm_keeps s1 ?root s2" "rsame (vm_mem s1) ?root (vm_mem s2)"
        "t2 \<noteq> 0 \<Longrightarrow> walk (vm_mem s2) ?root [?a, ?b] = Some t2" by auto
    have inv2: "vm_inv s2 ?root" using E2(2) by (simp add: vm_keeps_def)
    have k2: "vm_keeps s ?root s2" and r2: "rsame (vm_mem s) ?root (vm_mem s2)"
      using vm_keeps_trans [OF E1(2) E2(2)] rsame_trans [OF E1(3) E2(3)] .
    show ?thesis
    proof (cases "t2 = 0")
      case True
      then show ?thesis using m1 t1 E2(1) k2 r2 by (auto simp: rsame_def)
    next
      case t2: False
      from ensure_next_table_correct [OF inv2 paths(3) E2(4) idx(3) _ user] t2 obtain s3 t3 where
        E3: "ensure_next_table s2 t2 ?c user = Some (s3, t3)" "vm_keeps s2 ?root s3" "rsame (vm_mem s2) ?root (vm_mem s3)"
          "t3 \<noteq> 0 \<Longrightarrow> walk (vm_mem s3) ?root [?a, ?b, ?c] = Some t3" by auto
      have inv3: "vm_inv s3 ?root" and tree3: "vm_tree (vm_phys s3) (vm_mem s3) ?root"
        using E3(2) by (auto simp: vm_keeps_def vm_inv_def)
      have k3: "vm_keeps s ?root s3" and r3: "rsame (vm_mem s) ?root (vm_mem s3)"
        using vm_keeps_trans [OF k2 E3(2)] rsame_trans [OF r2 E3(3)] .
      show ?thesis
      proof (cases "t3 = 0")
        case True
        then show ?thesis using m1 t1 t2 E2(1) E3(1) k3 r3 by (auto simp: rsame_def)
      next
        case t3: False
        let ?m = "(vm_mem s3)(slot t3 ?d := leaf phys flags)"
        let ?s = "s3\<lparr>vm_mem := ?m\<rparr>"
        note w3 = E3(4) [OF t3]
        have "vm_keeps s3 ?root ?s"
          by (rule user_write_sim [OF inv3 paths(4) w3 idx(4)], rule leaf_walk [OF tree3 paths(4) w3]) simp_all
        then have k4: "vm_keeps s ?root ?s" using vm_keeps_trans [OF k3] by blast
        have "rpath ?m ?root p = (if p = vpath virt then Some (leaf phys flags, 0) else rpath (vm_mem s) ?root p)" if "uvpath p" for p
          using rpath_leaf [OF tree3 paths(4) w3 index_at_less _ that, where e = "leaf phys flags"] leaf_bits(3) r3 that
          by (simp add: vpath_def rsame_def)
        then show ?thesis using m1 t1 t2 t3 E2(1) E3(1) k4 guards
          by (intro exI [of _ ?s] exI [of _ True]) simp
      qed
    qed
  qed
qed

end
