(* ===== verification/VirtMemSpec.thy ===== *)
theory VirtMemSpec
  imports VirtMemInv
begin

text \<open>
  The contract of the page-table manager: mapping, unmapping and allocation of user pages,
  stated on \<open>debug_resolve\<close>, the translation the processor performs.
\<close>

section \<open>Virtual addresses and their paths\<close>

lemma index_at_nat: "index_at k v = unat v div 2 ^ k mod 512"
proof -
  have "unat (drop_bit k v AND mask 9) = unat (drop_bit k v) mod 2 ^ 9" by (rule unat_and_mask)
  moreover have "unat (drop_bit k v) = unat v div 2 ^ k" by (simp only: unat_drop_bit_eq) (simp add: drop_bit_eq_div)
  ultimately show ?thesis by (simp add: index_at_def mask_eq_exp_minus_1)
qed

lemma div_512_step: "(a :: nat) div 512 = b div 512 \<Longrightarrow> a mod 512 = b mod 512 \<Longrightarrow> a = b"
  by (metis div_mult_mod_eq)

lemma vpath_eq_iff:
  assumes "unat v < 2 ^ 48" "unat w < 2 ^ 48"
  shows "vpath v = vpath w \<longleftrightarrow> unat v div 4096 = unat w div 4096"
proof
  define a b where "a = unat v" and "b = unat w"
  have d: "n div 2 ^ 21 = n div 2 ^ 12 div 512" "n div 2 ^ 30 = n div 2 ^ 21 div 512" "n div 2 ^ 39 = n div 2 ^ 30 div 512" for n :: nat
    by (simp_all add: div_mult2_eq [symmetric])
  {
    assume "vpath v = vpath w"
    then have i: "a div 2 ^ 39 mod 512 = b div 2 ^ 39 mod 512" "a div 2 ^ 30 mod 512 = b div 2 ^ 30 mod 512"
      "a div 2 ^ 21 mod 512 = b div 2 ^ 21 mod 512" "a div 2 ^ 12 mod 512 = b div 2 ^ 12 mod 512"
      by (simp_all add: vpath_def index_at_nat a_def b_def)
    have "a div 2 ^ 39 < 512" "b div 2 ^ 39 < 512" using assms by (simp_all add: a_def b_def)
    then have "a div 2 ^ 39 = b div 2 ^ 39" using i(1) by (simp del: power_numeral)
    then have "a div 2 ^ 30 = b div 2 ^ 30" using i(2) d(3) by (metis div_512_step)
    then have "a div 2 ^ 21 = b div 2 ^ 21" using i(3) d(2) by (metis div_512_step)
    then have "a div 2 ^ 12 = b div 2 ^ 12" using i(4) d(1) by (metis div_512_step)
    then show "unat v div 4096 = unat w div 4096" by (simp add: a_def b_def)
  next
    assume "unat v div 4096 = unat w div 4096"
    then have 0: "a div 2 ^ 12 = b div 2 ^ 12" by (simp add: a_def b_def)
    then have 1: "a div 2 ^ 21 = b div 2 ^ 21" by (simp only: d)
    then have 2: "a div 2 ^ 30 = b div 2 ^ 30" by (simp only: d(2))
    then have 3: "a div 2 ^ 39 = b div 2 ^ 39" by (simp only: d(3))
    show "vpath v = vpath w" using 0 1 2 3 by (simp add: vpath_def index_at_nat a_def [symmetric] b_def [symmetric])
  }
qed

text \<open>A whole range of user pages.\<close>

definition page_nth :: "u64 \<Rightarrow> nat \<Rightarrow> u64" where
  "page_nth v k = v + word_of_nat (k * 4096)"

definition user_range :: "u64 \<Rightarrow> nat \<Rightarrow> bool" where
  "user_range v n \<longleftrightarrow> USER_IMAGE_BASE \<le> v \<and> unat v + n * 4096 \<le> unat USER_MAP_LIMIT"

lemma unat_page_nth:
  assumes "unat v + k * 4096 < 2 ^ 64" shows "unat (page_nth v k) = unat v + k * 4096"
proof -
  have "unat (word_of_nat (k * 4096) :: u64) = k * 4096" using assms by (subst unat_of_nat) simp
  then show ?thesis using assms unat_plus64 by (simp add: page_nth_def)
qed

lemma user_range_bounds: "user_range v n \<Longrightarrow> 2 ^ 46 \<le> unat v \<and> unat v + n * 4096 \<le> 2 ^ 47"
  by (simp add: user_range_def USER_IMAGE_BASE_def USER_MAP_LIMIT_def word_le_nat_alt)

lemma user_addr_range: "2 ^ 46 \<le> unat v \<Longrightarrow> unat v < 2 ^ 47 \<Longrightarrow> user_addr v"
  by (auto simp: user_addr_def index_at_nat less_eq_div_iff_mult_less_eq div_less_iff_less_mult)

lemma user_range_page:
  assumes "user_range v n" "k < n"
  shows "unat (page_nth v k) = unat v + k * 4096" "user_addr (page_nth v k)" "unat (page_nth v k) < 2 ^ 47"
proof -
  note b = user_range_bounds [OF assms(1)]
  show u: "unat (page_nth v k) = unat v + k * 4096" using b assms(2) by (intro unat_page_nth) simp
  have "unat v + k * 4096 < 2 ^ 47" using b assms(2) by simp
  then show l: "unat (page_nth v k) < 2 ^ 47" using u by simp
  show "user_addr (page_nth v k)" using b u l by (intro user_addr_range) auto
qed

lemma user_range_inj:
  assumes r: "user_range v n" and "j < n" "k < n" "vpath (page_nth v j) = vpath (page_nth v k)" shows "j = k"
proof -
  note J = user_range_page [OF r assms(2)] and K = user_range_page [OF r assms(3)]
  have "unat (page_nth v j) div 4096 = unat (page_nth v k) div 4096"
    using vpath_eq_iff [of "page_nth v j" "page_nth v k"] J(3) K(3) assms(4) by simp
  then show ?thesis by (simp add: J(1) K(1))
qed

lemma page_nth_Suc: "page_nth (v + PAGE_SIZE_4K) k = page_nth v (Suc k)"
  by (simp add: page_nth_def PAGE_SIZE_4K_def algebra_simps)

lemma page_nth_0 [simp]: "page_nth v 0 = v" by (simp add: page_nth_def)

section \<open>Mapping and unmapping ranges\<close>

text \<open>\<open>pages_mapped mem root mem' v phys flags m\<close>: \<open>mem'\<close> maps the first \<open>m\<close> pages from \<open>v\<close> to those from \<open>phys\<close> and the others as \<open>mem\<close>.\<close>

definition pages_mapped :: "words \<Rightarrow> u64 \<Rightarrow> words \<Rightarrow> u64 \<Rightarrow> u64 \<Rightarrow> u64 \<Rightarrow> nat \<Rightarrow> bool" where
  "pages_mapped mem root mem' v phys flags m \<longleftrightarrow>
     (\<forall>k < m. rpath mem' root (vpath (page_nth v k)) = Some (leaf (page_nth phys k) flags, 0)) \<and>
     (\<forall>p. uvpath p \<longrightarrow> (\<forall>k < m. p \<noteq> vpath (page_nth v k)) \<longrightarrow> rpath mem' root p = rpath mem root p)"

lemma map_pages_correct:
  assumes "vm_inv s (space_root s as)" "\<And>k. k < n \<Longrightarrow> user_addr (page_nth (virt + off) k)"
    "\<And>j k. j < n \<Longrightarrow> k < n \<Longrightarrow> vpath (page_nth (virt + off) j) = vpath (page_nth (virt + off) k) \<Longrightarrow> j = k"
  shows "\<exists>s' ok m. map_pages s as virt phys flags off n = Some (s', ok) \<and> vm_keeps s (space_root s as) s' \<and>
    m \<le> n \<and> (ok \<longleftrightarrow> m = n) \<and> pages_mapped (vm_mem s) (space_root s as) (vm_mem s') (virt + off) (phys + off) flags m"
  using assms
proof (induction n arbitrary: s off)
  case 0
  then show ?case using vm_keeps_refl by (auto simp: pages_mapped_def)
next
  case (Suc n)
  let ?root = "space_root s as" and ?v = "virt + off" and ?f = "phys + off"
  have u0: "user_addr ?v" using Suc.prems(2) [of 0] by simp
  from map_page_correct [OF Suc.prems(1) u0, of ?f flags] obtain s1 ok where
    M: "map_page s as ?v ?f flags = Some (s1, ok)" "vm_keeps s ?root s1"
      "\<And>p. uvpath p \<Longrightarrow> rpath (vm_mem s1) ?root p = (if ok \<and> p = vpath ?v then Some (leaf ?f flags, 0) else rpath (vm_mem s) ?root p)"
    by blast
  show ?case
  proof (cases ok)
    case False
    then have "pages_mapped (vm_mem s) ?root (vm_mem s1) ?v ?f flags 0" using M(3) by (simp add: pages_mapped_def)
    then show ?thesis using M(1,2) False by (intro exI [of _ s1] exI [of _ False] exI [of _ 0]) simp
  next
    case True
    have sp: "vm_spaces s1 = vm_spaces s" "vm_inv s1 ?root" using M(2) by (auto simp: vm_keeps_def)
    have a: "page_nth (virt + (off + PAGE_SIZE_4K)) k = page_nth ?v (Suc k)"
      "page_nth (phys + (off + PAGE_SIZE_4K)) k = page_nth ?f (Suc k)" for k
      using page_nth_Suc [of ?v k] page_nth_Suc [of ?f k] by (simp_all add: add.assoc)
    have "\<exists>s' ok m. map_pages s1 as virt phys flags (off + PAGE_SIZE_4K) n = Some (s', ok) \<and> vm_keeps s1 (space_root s1 as) s' \<and>
        m \<le> n \<and> (ok \<longleftrightarrow> m = n) \<and>
        pages_mapped (vm_mem s1) (space_root s1 as) (vm_mem s') (virt + (off + PAGE_SIZE_4K)) (phys + (off + PAGE_SIZE_4K)) flags m"
    proof (rule Suc.IH)
      show "vm_inv s1 (space_root s1 as)" using sp by simp
      show "user_addr (page_nth (virt + (off + PAGE_SIZE_4K)) k)" if "k < n" for k
        using Suc.prems(2) [of "Suc k"] that by (simp add: a)
      show "j = k" if "j < n" "k < n" "vpath (page_nth (virt + (off + PAGE_SIZE_4K)) j) = vpath (page_nth (virt + (off + PAGE_SIZE_4K)) k)" for j k
        using Suc.prems(3) [of "Suc j" "Suc k"] that by (simp add: a)
    qed
    then obtain s' ok' m where R: "map_pages s1 as virt phys flags (off + PAGE_SIZE_4K) n = Some (s', ok')" "vm_keeps s1 ?root s'"
        "m \<le> n" "ok' \<longleftrightarrow> m = n" "\<And>k. k < m \<Longrightarrow> rpath (vm_mem s') ?root (vpath (page_nth ?v (Suc k))) = Some (leaf (page_nth ?f (Suc k)) flags, 0)"
        "\<And>p. uvpath p \<Longrightarrow> (\<And>k. k < m \<Longrightarrow> p \<noteq> vpath (page_nth ?v (Suc k))) \<Longrightarrow> rpath (vm_mem s') ?root p = rpath (vm_mem s1) ?root p"
      unfolding sp(1) pages_mapped_def a by blast
    have first: "rpath (vm_mem s') ?root (vpath ?v) = Some (leaf ?f flags, 0)"
    proof -
      have "vpath ?v \<noteq> vpath (page_nth ?v (Suc k))" if "k < m" for k
        using Suc.prems(3) [of 0 "Suc k"] that R(3) by auto
      then show ?thesis using R(6) [OF uvpath_vpath [OF u0]] M(3) [OF uvpath_vpath [OF u0]] True by simp
    qed
    have "pages_mapped (vm_mem s) ?root (vm_mem s') ?v ?f flags (Suc m)"
      unfolding pages_mapped_def
    proof (intro conjI allI impI)
      fix k assume "k < Suc m"
      then show "rpath (vm_mem s') ?root (vpath (page_nth ?v k)) = Some (leaf (page_nth ?f k) flags, 0)"
        using first R(5) by (cases k) simp_all
    next
      fix p assume p: "uvpath p" "\<forall>k<Suc m. p \<noteq> vpath (page_nth ?v k)"
      have "p \<noteq> vpath (page_nth ?v (Suc k))" if "k < m" for k using p(2) that by blast
      then have "rpath (vm_mem s') ?root p = rpath (vm_mem s1) ?root p" using R(6) [OF p(1)] by blast
      moreover have "p \<noteq> vpath ?v" using p(2) by (metis page_nth_0 zero_less_Suc)
      ultimately show "rpath (vm_mem s') ?root p = rpath (vm_mem s) ?root p" using M(3) [OF p(1)] by simp
    qed
    moreover have "map_pages s as virt phys flags off (Suc n) = Some (s', ok')" using M(1) True R(1) by simp
    ultimately show ?thesis using vm_keeps_trans [OF M(2) R(2)] R(3,4)
      by (intro exI [of _ s'] exI [of _ ok'] exI [of _ "Suc m"]) simp
  qed
qed

lemma map_contiguous_correct:
  assumes inv: "vm_inv s (space_root s as)" and n: "unat sz = n * 4096" and r: "user_range virt n"
  shows "\<exists>s' ok m. map_contiguous s as virt phys sz flags = Some (s', ok) \<and> vm_keeps s (space_root s as) s' \<and>
    m \<le> n \<and> (ok \<longleftrightarrow> m = n) \<and> pages_mapped (vm_mem s) (space_root s as) (vm_mem s') virt phys flags m"
proof -
  have "align_up sz PAGE_SIZE_4K = sz" using n by (intro align_up_id [of _ 12]) (simp_all add: PAGE_SIZE_4K_def)
  then have e: "map_contiguous s as virt phys sz flags = map_pages s as virt phys flags 0 n"
    using n by (simp add: map_contiguous_def PAGE_SIZE_4K_def)
  show ?thesis
    using map_pages_correct [OF inv, of n virt 0 phys flags] user_range_page(2) [OF r] user_range_inj [OF r] unfolding e by simp
qed

lemma free_walk_returns:
  assumes "chain (\<lambda>j. mr_next (pa_pool pa ! j)) region ns None"
  shows "\<exists>pa'. pa_free_walk pa addr pc prev region = Some pa'"
  using assms
proof (induction ns arbitrary: region prev)
  case (Cons n ns)
  then show ?case by (auto simp: pa_free_walk.simps [of pa addr pc prev "Some n"])
qed (simp add: pa_free_walk.simps)

lemma free_pages_returns: "pa_inv pa \<Longrightarrow> \<exists>pa'. free_pages pa a n = Some pa'"
  using free_walk_returns by (auto simp: free_pages_def pa_inv_def pool_rel_def)

section \<open>Unmapping\<close>

text \<open>The address of path \<open>p\<close> is not translated by a huge page.\<close>

definition not_huge_at :: "words \<Rightarrow> u64 \<Rightarrow> nat list \<Rightarrow> bool" where
  "not_huge_at mem root p \<longleftrightarrow> (\<forall>e k. rpath mem root p = Some (e, k) \<longrightarrow> k = 0)"

lemma not_huge_at_cong: "rpath mem' root p = rpath mem root p \<Longrightarrow> not_huge_at mem' root p = not_huge_at mem root p"
  by (simp add: not_huge_at_def)

lemma unmap_page_correct:
  assumes inv: "vm_inv s root" and v: "user_addr addr" and nh: "\<not> is_huge (entry (vm_mem s) root (index_at 39 addr))"
  defines "mem' \<equiv> unmap_page (vm_mem s) root addr"
  shows "vm_keeps s root (s\<lparr>vm_mem := mem'\<rparr>)"
    and "\<And>p. uvpath p \<Longrightarrow> rpath mem' root p =
      (if p = vpath addr \<and> not_huge_at (vm_mem s) root p then None else rpath (vm_mem s) root p)"
    and "\<And>i. user_index [] i \<Longrightarrow> entry mem' root i = entry (vm_mem s) root i"
proof -
  let ?mem = "vm_mem s"
  let ?a = "index_at 39 addr" and ?b = "index_at 30 addr" and ?c = "index_at 21 addr" and ?d = "index_at 12 addr"
  have tree: "vm_tree (vm_phys s) ?mem root" using inv by (simp add: vm_inv_def)
  define t1 where "t1 = table_from_phys (entry ?mem root ?a)"
  define t2 where "t2 = table_from_phys (entry ?mem t1 ?b)"
  define t3 where "t3 = table_from_phys (entry ?mem t2 ?c)"
  define reach where "reach \<longleftrightarrow> is_present (entry ?mem root ?a) \<and> is_present (entry ?mem t1 ?b) \<and> \<not> is_huge (entry ?mem t1 ?b) \<and>
    is_present (entry ?mem t2 ?c) \<and> \<not> is_huge (entry ?mem t2 ?c)"
  have m: "mem' = (if reach then ?mem(slot t3 ?d := 0) else ?mem)"
    by (simp add: mem'_def unmap_page_def Let_def reach_def t1_def t2_def t3_def)
  have stop: "rpath ?mem root (vpath addr) = None \<or> (\<exists>e k. rpath ?mem root (vpath addr) = Some (e, k) \<and> k \<noteq> 0)" if "\<not> reach"
    using that nh by (auto simp: vpath_def Let_def reach_def t1_def t2_def t3_def)
  have lv: "rpath ?mem root (vpath addr) = Some (e, k) \<Longrightarrow> k = 0" if reach for e k
    using that nh by (auto simp: vpath_def Let_def reach_def t1_def t2_def t3_def split: if_splits)
  have paths: "user_path [?a, ?b, ?c]" "user_index [?a, ?b, ?c] ?d" using v by (auto simp: user_path_def user_index_def user_addr_def)
  have w3: "walk ?mem root [?a, ?b, ?c] = Some t3" if reach
    using that nh by (simp add: reach_def next_table_def t1_def t2_def t3_def)
  show "vm_keeps s root (s\<lparr>vm_mem := mem'\<rparr>)"
  proof (cases reach)
    case True
    have "vm_keeps s root (s\<lparr>vm_mem := ?mem(slot t3 ?d := 0)\<rparr>)"
      by (rule user_write_sim [OF inv paths(1) w3 [OF True] paths(2)], rule leaf_walk [OF tree paths(1) w3 [OF True]]) simp_all
    then show ?thesis using True m by simp
  qed (use m vm_keeps_refl [OF inv] in simp)
  show "rpath mem' root p =
      (if p = vpath addr \<and> not_huge_at ?mem root p then None else rpath ?mem root p)" if p: "uvpath p" for p
  proof (cases reach)
    case True
    have "rpath (?mem(slot t3 ?d := 0)) root p = (if p = vpath addr then None else rpath ?mem root p)"
      using rpath_leaf [OF tree paths(1) w3 [OF True] index_at_less _ p, where e = 0] by (simp add: vpath_def is_present_def)
    then show ?thesis using True m lv by (auto simp: not_huge_at_def)
  next
    case False
    then show ?thesis using m stop by (cases "p = vpath addr") (auto simp: not_huge_at_def)
  qed
  show "entry mem' root i = entry ?mem root i" if "user_index [] i" for i
  proof (cases reach)
    case True
    have "i < 512" "user_path []" using that by (auto simp: user_index_def user_path_def)
    then have "entry (?mem(slot t3 ?d := 0)) root i = entry ?mem root i"
      using entry_upd_user [OF tree paths(1) w3 [OF True] index_at_less, where q' = "[]" and t' = root and j = i and x = 0] by simp
    then show ?thesis using True m by simp
  qed (use m in simp)
qed

lemma unmap_pages_correct:
  assumes "vm_inv s root" "\<And>k. k < n \<Longrightarrow> user_addr (page_nth addr k)" "\<And>i. user_index [] i \<Longrightarrow> \<not> is_huge (entry (vm_mem s) root i)"
  shows "vm_keeps s root (s\<lparr>vm_mem := unmap_pages (vm_mem s) root addr n\<rparr>) \<and>
    (\<forall>p. uvpath p \<longrightarrow> rpath (unmap_pages (vm_mem s) root addr n) root p =
      (if (\<exists>k < n. p = vpath (page_nth addr k)) \<and> not_huge_at (vm_mem s) root p
       then None else rpath (vm_mem s) root p))"
  using assms
proof (induction n arbitrary: s addr)
  case 0
  then show ?case using vm_keeps_refl by simp
next
  case (Suc n)
  have u: "user_addr addr" using Suc.prems(2) [of 0] by simp
  have i: "user_index [] (index_at 39 addr)" using u by (simp add: user_index_def user_addr_def)
  define m1 where "m1 = unmap_page (vm_mem s) root addr"
  note P = unmap_page_correct [OF Suc.prems(1) u Suc.prems(3) [OF i], folded m1_def]
  define s1 where "s1 = s\<lparr>vm_mem := m1\<rparr>"
  have s1: "vm_mem s1 = m1" "s1\<lparr>vm_mem := x\<rparr> = s\<lparr>vm_mem := x\<rparr>" for x by (simp_all add: s1_def)
  have inv1: "vm_inv s1 root" using P(1) by (simp add: s1_def vm_keeps_def)
  have "vm_keeps s1 root (s1\<lparr>vm_mem := unmap_pages (vm_mem s1) root (addr + PAGE_SIZE_4K) n\<rparr>) \<and>
    (\<forall>p. uvpath p \<longrightarrow> rpath (unmap_pages (vm_mem s1) root (addr + PAGE_SIZE_4K) n) root p =
      (if (\<exists>k < n. p = vpath (page_nth (addr + PAGE_SIZE_4K) k)) \<and> not_huge_at (vm_mem s1) root p
       then None else rpath (vm_mem s1) root p))"
  proof (rule Suc.IH [OF inv1])
    show "user_addr (page_nth (addr + PAGE_SIZE_4K) k)" if "k < n" for k
      using Suc.prems(2) [of "Suc k"] that by (simp add: page_nth_Suc)
    show "\<not> is_huge (entry (vm_mem s1) root i)" if "user_index [] i" for i using P(3) [OF that] Suc.prems(3) [OF that] by (simp add: s1)
  qed
  then have R: "vm_keeps s1 root (s\<lparr>vm_mem := unmap_pages m1 root (addr + PAGE_SIZE_4K) n\<rparr>)"
    "\<And>p. uvpath p \<Longrightarrow> rpath (unmap_pages m1 root (addr + PAGE_SIZE_4K) n) root p =
      (if (\<exists>k < n. p = vpath (page_nth addr (Suc k))) \<and> not_huge_at m1 root p
       then None else rpath m1 root p)" by (auto simp: s1 page_nth_Suc)
  have e: "unmap_pages (vm_mem s) root addr (Suc n) = unmap_pages m1 root (addr + PAGE_SIZE_4K) n" by (simp add: m1_def)
  have "vm_keeps s root (s\<lparr>vm_mem := unmap_pages m1 root (addr + PAGE_SIZE_4K) n\<rparr>)"
    using vm_keeps_trans [OF P(1) R(1) [unfolded s1_def]] .
  moreover have ex: "(\<exists>k < Suc n. p = vpath (page_nth addr k)) \<longleftrightarrow> p = vpath addr \<or> (\<exists>k < n. p = vpath (page_nth addr (Suc k)))" for p
    by (auto simp: less_Suc_eq_0_disj)
  moreover have "rpath (unmap_pages m1 root (addr + PAGE_SIZE_4K) n) root p =
      (if (p = vpath addr \<or> (\<exists>k < n. p = vpath (page_nth addr (Suc k)))) \<and> not_huge_at (vm_mem s) root p
       then None else rpath (vm_mem s) root p)" if p: "uvpath p" for p
  proof (cases "p = vpath addr \<and> not_huge_at (vm_mem s) root p")
    case True
    then have "rpath m1 root p = None" using P(2) [OF p] by auto
    then have "rpath (unmap_pages m1 root (addr + PAGE_SIZE_4K) n) root p = None" using R(2) [OF p] by simp
    then show ?thesis using True by auto
  next
    case False
    then have "rpath m1 root p = rpath (vm_mem s) root p" using P(2) [OF p] by auto
    then show ?thesis using R(2) [OF p] False not_huge_at_cong [of m1 root p "vm_mem s"] by auto
  qed
  ultimately show ?case unfolding e ex by blast
qed

section \<open>Translation after an operation\<close>

lemma rpath_resolve:
  "rpath mem (table_from_phys root) (vpath w) = rpath mem' (table_from_phys root) (vpath w) \<Longrightarrow>
   resolve_root mem root w = resolve_root mem' root w"
  by (simp only: resolve_root_rpath)

lemma resolve_leaf:
  assumes "rpath mem (table_from_phys root) (vpath w) = Some (leaf f flags, 0)" "4096 dvd unat f" "unat f < 2 ^ 52"
  shows "resolve_root mem root w = Some (f + (w AND 0xFFF), page_flags flags)"
  unfolding resolve_root_rpath assms(1) using page_bits [OF assms(2,3)] leaf_bits [of f flags] by (simp add: page_shift_def)

lemma low_bits_nat: "unat (w AND 0xFFF :: u64) = unat w mod 4096"
  using unat_and_mask [of w 12] by (simp add: mask_eq_exp_minus_1)

lemma user_page_of:
  assumes r: "user_range v n" "4096 dvd unat v" and w: "unat v \<le> unat w" "unat w < unat v + n * 4096"
  defines "k \<equiv> (unat w - unat v) div 4096"
  shows "k < n" "vpath w = vpath (page_nth v k)" "unat w = unat v + k * 4096 + unat w mod 4096"
proof -
  obtain a where a: "unat v = 4096 * a" using r(2) by (auto simp: dvd_def)
  have wk: "unat w div 4096 = a + k" using a w by (simp add: k_def div_add1_eq [of "4096 * a" "unat w - 4096 * a" 4096, simplified])
  show k: "k < n" unfolding k_def using w by (simp add: div_less_iff_less_mult)
  show e: "unat w = unat v + k * 4096 + unat w mod 4096" using wk a div_mult_mod_eq [of "unat w" 4096] by simp
  note P = user_range_page [OF r(1) k]
  have "unat w < 2 ^ 48" using user_range_bounds [OF r(1)] w by simp
  moreover have "unat w div 4096 = unat (page_nth v k) div 4096" using wk P(1) a by simp
  ultimately show "vpath w = vpath (page_nth v k)" using vpath_eq_iff [of w "page_nth v k"] P(3) by simp
qed

lemma vpath_outside:
  assumes r: "user_range v n" "4096 dvd unat v" and w: "2 ^ 46 \<le> unat w" "unat w < 2 ^ 47"
    and out: "unat w < unat v \<or> unat v + n * 4096 \<le> unat w" and k: "k < n"
  shows "vpath w \<noteq> vpath (page_nth v k)"
proof
  obtain a where a: "unat v = 4096 * a" using r(2) by (auto simp: dvd_def)
  note P = user_range_page [OF r(1) k]
  assume "vpath w = vpath (page_nth v k)"
  then have "unat w div 4096 = a + k" using vpath_eq_iff [of w "page_nth v k"] P(1,3) w(2) a by simp
  then have "unat w = (a + k) * 4096 + unat w mod 4096" using div_mult_mod_eq [of "unat w" 4096] by simp
  moreover have "unat w mod 4096 < 4096" by simp
  ultimately have "4096 * (a + k) \<le> unat w" "unat w < 4096 * (a + k) + 4096" by linarith+
  then show False using out a k by auto
qed

lemma pages_mapped_resolve:
  assumes pm: "pages_mapped mem (table_from_phys root) mem' v f flags n" and r: "user_range v n" "4096 dvd unat v"
    and f: "4096 dvd unat f" "unat f + n * 4096 \<le> 2 ^ 52"
  shows "unat v \<le> unat w \<Longrightarrow> unat w < unat v + n * 4096 \<Longrightarrow> resolve_root mem' root w = Some (f + (w - v), page_flags flags)"
    and "2 ^ 46 \<le> unat w \<Longrightarrow> unat w < 2 ^ 47 \<Longrightarrow> unat w < unat v \<or> unat v + n * 4096 \<le> unat w \<Longrightarrow>
      resolve_root mem' root w = resolve_root mem root w"
proof -
  assume w: "unat v \<le> unat w" "unat w < unat v + n * 4096"
  define k where "k = (unat w - unat v) div 4096"
  note K = user_page_of [OF r w, folded k_def]
  have fk: "unat (page_nth f k) = unat f + k * 4096" using K(1) f(2) by (intro unat_page_nth) simp
  have dv: "4096 dvd unat (page_nth f k)" unfolding fk using f(1) by simp
  have lt: "unat (page_nth f k) < 2 ^ 52" unfolding fk using K(1) f(2) by simp
  have rp: "rpath mem' (table_from_phys root) (vpath w) = Some (leaf (page_nth f k) flags, 0)"
    using pm K(1,2) by (simp add: pages_mapped_def)
  have "page_nth f k + (w AND 0xFFF) = f + (w - v)"
  proof (rule word_eq_unatI)
    have s: "unat (w - v) = unat w - unat v" using w(1) by (simp add: unat_minus_nw word_le_nat_alt)
    have "unat w - unat v < n * 4096" using w by simp
    then have "unat (f + (w - v)) = unat f + (unat w - unat v)" using f(2) s by (simp add: unat_plus64)
    moreover have "unat (page_nth f k + (w AND 0xFFF)) = unat f + k * 4096 + unat w mod 4096"
      using lt fk unat_plus64 [of "page_nth f k" "w AND 0xFFF"] mod_less_divisor [of 4096 "unat w"]
      by (simp add: low_bits_nat)
    ultimately show "unat (page_nth f k + (w AND 0xFFF)) = unat (f + (w - v))" using K(3) by simp
  qed
  then show "resolve_root mem' root w = Some (f + (w - v), page_flags flags)" using resolve_leaf [OF rp dv lt] by simp
next
  assume w: "2 ^ 46 \<le> unat w" "unat w < 2 ^ 47" and out: "unat w < unat v \<or> unat v + n * 4096 \<le> unat w"
  have "vpath w \<noteq> vpath (page_nth v k)" if "k < n" for k by (rule vpath_outside [OF r w out that])
  then show "resolve_root mem' root w = resolve_root mem root w"
    using pm uvpath_vpath [OF user_addr_range [OF w]] by (intro rpath_resolve) (simp add: pages_mapped_def)
qed

lemma in_user_bounds:
  "USER_IMAGE_BASE \<le> w \<and> w < USER_MAP_LIMIT \<longleftrightarrow> 2 ^ 46 \<le> unat w \<and> unat w < 2 ^ 47"
  by (simp add: USER_IMAGE_BASE_def USER_MAP_LIMIT_def word_le_nat_alt word_less_nat_alt)

lemma page_aligned_iff: "is_aligned v PAGE_SIZE_4K \<longleftrightarrow> 4096 dvd unat v"
  using is_aligned_iff [of PAGE_SIZE_4K 12 v] by (simp add: PAGE_SIZE_4K_def)

text \<open>
  \<open>maps_range s as s' virt n phys flags\<close>: in \<open>s'\<close> every address of the \<open>n\<close> pages from \<open>virt\<close>
  translates to the corresponding address from \<open>phys\<close> with the permissions \<open>flags\<close> asks for, and
  every other user address translates as in \<open>s\<close>.
\<close>

definition maps_range :: "vm_state \<Rightarrow> u64 \<Rightarrow> vm_state \<Rightarrow> u64 \<Rightarrow> nat \<Rightarrow> u64 \<Rightarrow> u64 \<Rightarrow> bool" where
  "maps_range s as s' virt n phys flags \<longleftrightarrow>
     (\<forall>w. unat virt \<le> unat w \<and> unat w < unat virt + n * 4096 \<longrightarrow> debug_resolve s' as w = Some (phys + (w - virt), page_flags flags)) \<and>
     (\<forall>w. USER_IMAGE_BASE \<le> w \<and> w < USER_MAP_LIMIT \<and> (unat w < unat virt \<or> unat virt + n * 4096 \<le> unat w) \<longrightarrow>
        debug_resolve s' as w = debug_resolve s as w)"

lemma pages_mapped_maps_range:
  assumes pm: "pages_mapped (vm_mem s) (space_root s as) (vm_mem s') virt phys flags n"
    and sp: "pml4_phys (vm_spaces s' as) = pml4_phys (vm_spaces s as)" "as \<noteq> 0" "pml4_phys (vm_spaces s as) \<noteq> 0"
    and r: "user_range virt n" "4096 dvd unat virt" "4096 dvd unat phys" "unat phys + n * 4096 \<le> 2 ^ 52"
  shows "maps_range s as s' virt n phys flags"
proof -
  have dr: "debug_resolve s' as w = resolve_root (vm_mem s') (pml4_phys (vm_spaces s as)) w"
    "debug_resolve s as w = resolve_root (vm_mem s) (pml4_phys (vm_spaces s as)) w" for w
    using sp by (simp_all add: debug_resolve_def)
  show ?thesis
    unfolding maps_range_def dr
  proof (intro conjI allI impI; elim conjE)
    fix w :: u64 assume w: "unat virt \<le> unat w" "unat w < unat virt + n * 4096"
    show "resolve_root (vm_mem s') (pml4_phys (vm_spaces s as)) w = Some (phys + (w - virt), page_flags flags)"
      by (rule pages_mapped_resolve(1) [OF pm r w])
  next
    fix w assume w: "USER_IMAGE_BASE \<le> w" "w < USER_MAP_LIMIT" "unat w < unat virt \<or> unat virt + n * 4096 \<le> unat w"
    show "resolve_root (vm_mem s') (pml4_phys (vm_spaces s as)) w = resolve_root (vm_mem s) (pml4_phys (vm_spaces s as)) w"
      by (rule pages_mapped_resolve(2) [OF pm r _ _ w(3)]) (use w in_user_bounds in blast)+
  qed
qed

section \<open>User pages\<close>

lemma allocate_user_pages_correct:
  assumes inv: "vm_inv s (space_root s as)" and n: "unat (align_up sz PAGE_SIZE_4K) = n * 4096" "0 < n" "n < 2 ^ 32"
    and r: "user_range virt n"
  defines "root \<equiv> space_root s as"
  shows "\<exists>s' res. allocate_user_pages s as virt sz flags = Some (s', res) \<and>
    (\<forall>phys. res = Some phys \<longrightarrow> as \<noteq> 0 \<and> 4096 dvd unat virt \<and> 4096 dvd unat phys \<and> phys \<noteq> 0 \<and> unat phys + n * 4096 \<le> 2 ^ 31 \<and>
       {unat phys ..< unat phys + n * 4096} \<subseteq> pa_free_bytes (vm_phys s) - pa_free_bytes (vm_phys s') \<and>
       vm_keeps s root s' \<and> pages_mapped (vm_mem s) root (vm_mem s') virt phys flags n \<and>
       (\<forall>a. unat a \<in> {unat phys ..< unat phys + n * 4096} \<longrightarrow> vm_mem s' a = 0))"
proof (cases "as = 0 \<or> sz = 0 \<or> \<not> is_aligned virt PAGE_SIZE_4K")
  case True
  then show ?thesis by (auto simp: allocate_user_pages_def)
next
  case guards: False
  define bytes where "bytes = align_up sz PAGE_SIZE_4K"
  define count where "count = (ucast (bytes div PAGE_SIZE_4K) :: u32)"
  have ub: "unat bytes = n * 4096" using n(1) by (simp add: bytes_def)
  have q: "unat (bytes div PAGE_SIZE_4K) = n" using ub by (simp add: unat_div PAGE_SIZE_4K_def)
  have uc: "unat count = n" unfolding count_def using q n(3) by (simp add: unsigned_ucast_eq take_bit_nat_eq_self)
  have c0: "count \<noteq> 0" using uc n(2) by auto
  have pa: "pa_inv (vm_phys s)" using inv by (simp add: vm_inv_def)
  have A: "(ucast PAGE_SIZE_4K :: u32) = 2 ^ 12" by (simp add: PAGE_SIZE_4K_def)
  from allocate_pages_sound [OF pa c0 A, of IDENTITY_BRIDGE_ALLOC_MAX] obtain pa' phys where
    AP: "allocate_pages (vm_phys s) count (ucast PAGE_SIZE_4K) IDENTITY_BRIDGE_ALLOC_MAX = Some (pa', phys)" "pa_inv pa'"
      "phys \<noteq> 0 \<Longrightarrow> 4096 dvd unat phys \<and> unat phys + n * 4096 \<le> 2 ^ 31 \<and> {unat phys ..< unat phys + n * 4096} \<subseteq> pa_free_bytes (vm_phys s) \<and>
         pa_free_bytes pa' \<subseteq> pa_free_bytes (vm_phys s) - {unat phys ..< unat phys + n * 4096}"
    by (auto simp: uc IDENTITY_BRIDGE_ALLOC_MAX_def)
  have ev: "allocate_user_pages s as virt sz flags = (if phys = 0 then Some (set_phys s pa', None) else do {
          s \<leftarrow> make_region_writable (set_phys s pa') phys bytes;
          (s, ok) \<leftarrow> map_contiguous (s\<lparr>vm_mem := zero_words (vm_mem s) phys bytes\<rparr>) as virt phys bytes flags;
          if \<not> ok then do {
            pa \<leftarrow> free_pages (vm_phys s) phys count;
            Some (set_phys s pa, None)
          } else Some (s, Some phys) })"
    using guards AP(1) unfolding allocate_user_pages_def Let_def bytes_def [symmetric] count_def [symmetric] by simp
  show ?thesis
  proof (cases "phys = 0")
    case True
    then show ?thesis using ev by auto
  next
    case p0: False
    note B = AP(3) [OF p0]
    from fresh_block [OF inv AP(2), of phys bytes] B ub obtain mem1 where
      F: "make_region_writable (set_phys s pa') phys bytes = Some ((set_phys s pa')\<lparr>vm_mem := mem1\<rparr>)"
        "vm_keeps s root ((set_phys s pa')\<lparr>vm_mem := zero_words mem1 phys bytes\<rparr>)" "user_sim (vm_mem s) root (zero_words mem1 phys bytes)"
        "\<forall>a. unat a \<in> {unat phys ..< unat phys + n * 4096} \<longrightarrow>
           untouched ((set_phys s pa')\<lparr>vm_mem := zero_words mem1 phys bytes\<rparr>) root a \<and> zero_words mem1 phys bytes a = 0"
      unfolding root_def by auto
    define s1 where "s1 = (set_phys s pa')\<lparr>vm_mem := zero_words mem1 phys bytes\<rparr>"
    have s1: "vm_mem s1 = zero_words mem1 phys bytes" "space_root s1 as = root" "vm_inv s1 root" "vm_phys s1 = pa'"
      using F(2) by (auto simp: s1_def set_phys_def root_def vm_keeps_def)
    from map_contiguous_correct [of s1 as bytes n virt phys flags] obtain s2 ok m where
      M: "map_contiguous s1 as virt phys bytes flags = Some (s2, ok)" "vm_keeps s1 root s2" "ok \<longleftrightarrow> m = n"
        "pages_mapped (vm_mem s1) root (vm_mem s2) virt phys flags m" using s1 ub r by auto
    have ev2: "allocate_user_pages s as virt sz flags = (if \<not> ok then do {
            pa \<leftarrow> free_pages (vm_phys s2) phys count;
            Some (set_phys s2 pa, None)
          } else Some (s2, Some phys))" using ev p0 F(1) M(1) by (simp add: s1_def)
    show ?thesis
    proof (cases ok)
      case False
      have "pa_inv (vm_phys s2)" using M(2) by (simp add: vm_keeps_def vm_inv_def)
      then obtain pa2 where "free_pages (vm_phys s2) phys count = Some pa2" using free_pages_returns by blast
      then show ?thesis using ev2 False by auto
    next
      case True
      have rs: "rsame (vm_mem s) root (vm_mem s1)" using user_sim_rsame [OF F(3)] s1(1) by simp
      have pm: "pages_mapped (vm_mem s) root (vm_mem s2) virt phys flags n"
        using M(3,4) True rs unfolding pages_mapped_def rsame_def by simp
      have kp: "vm_keeps s root s2" using vm_keeps_trans [OF F(2) [folded s1_def] M(2)] .
      have fr: "pa_free_bytes (vm_phys s2) \<subseteq> pa_free_bytes pa'" using M(2) s1(4) by (simp add: vm_keeps_def)
      have z: "vm_mem s2 a = 0" if "unat a \<in> {unat phys ..< unat phys + n * 4096}" for a
        using F(4) that M(2) s1(1) unfolding vm_keeps_def s1_def [symmetric] by simp
      have al: "4096 dvd unat virt" using guards is_aligned_iff [of PAGE_SIZE_4K 12 virt] by (simp add: PAGE_SIZE_4K_def)
      have "{unat phys ..< unat phys + n * 4096} \<subseteq> pa_free_bytes (vm_phys s) - pa_free_bytes (vm_phys s2)"
        using B fr by blast
      then show ?thesis using ev2 True pm kp z B guards p0 al by auto
    qed
  qed
qed

section \<open>Properties\<close>

definition example_vm :: vm_state where
  "example_vm = \<lparr>vm_km = km_boot\<lparr>km_phys := example_pa\<rparr>, vm_mem = (\<lambda>a. 0), vm_kernel_cr3 = 0x200000, vm_cr3 = 0x200000,
     vm_spaces = (\<lambda>a. \<lparr>pml4_phys = 0x201000, heap_next = USER_HEAP_BASE, map_next = USER_MMAP_BASE\<rparr>)\<rparr>"

lemma example_table_page: "table_page example_pa 0x200000" "table_page example_pa 0x201000"
proof -
  have "pa_free_bytes example_pa \<subseteq> free_map_bytes example_map"
    using pa_init_establishes [OF example_map_ok, of "fst (pa_init pa_boot example_map)"]
    by (simp add: example_pa_def pa_init_def)
  moreover have "free_map_bytes example_map \<subseteq> {..< 0x200000}"
    by (auto simp: free_map_bytes_def example_map_def entry_bytes_def entry_is_free_def)
  ultimately have f: "pa_free_bytes example_pa \<subseteq> {..< 0x200000}" by blast
  show "table_page example_pa 0x200000" "table_page example_pa 0x201000"
    using f by (auto simp: table_page_def page_of_def)
qed

lemma walk_zero: "walk (\<lambda>a. 0) r q = (if q = [] then Some r else None)"
  by (cases q) (simp_all add: next_table_def entry_def is_present_def)

lemma example_vm_inv: "vm_inv example_vm 0x201000"
  using example_table_page example_pa_inv
  by (auto simp: vm_inv_def vm_tree_def kernel_sep_def example_vm_def walk_zero kernel_path_def
      is_huge_def entry_def PA_MASK_def split: if_splits)

lemma example_space: "vm_inv example_vm (space_root example_vm 1)" "pml4_phys (vm_spaces example_vm 1) \<noteq> 0"
  using example_vm_inv by (simp_all add: example_vm_def table_from_phys_def PA_MASK_def)

text \<open>
  C19. \<open>map_contiguous\<close> returns, keeps the invariant of the address space, and on success every
  address of the range translates to the corresponding physical address with the requested
  permissions, while every other user address translates as before.
\<close>

theorem map_contiguous_roundtrip:
  assumes "vm_inv s (space_root s as)" and "as \<noteq> 0" "pml4_phys (vm_spaces s as) \<noteq> 0" and "unat sz = n * 4096"
    and "user_range virt n" "is_aligned virt PAGE_SIZE_4K" "is_aligned phys PAGE_SIZE_4K" "unat phys + n * 4096 \<le> 2 ^ 52"
  shows "\<exists>s' ok. map_contiguous s as virt phys sz flags = Some (s', ok) \<and> vm_inv s' (space_root s as) \<and>
    (ok \<longrightarrow> maps_range s as s' virt n phys flags)"
proof -
  from map_contiguous_correct [OF assms(1,4,5), of phys flags] obtain s' ok m where
    M: "map_contiguous s as virt phys sz flags = Some (s', ok)" "vm_keeps s (space_root s as) s'" "ok \<longleftrightarrow> m = n"
      "pages_mapped (vm_mem s) (space_root s as) (vm_mem s') virt phys flags m" by blast
  have al: "4096 dvd unat virt" "4096 dvd unat phys" using assms(6,7) by (simp_all add: page_aligned_iff)
  have sp: "vm_spaces s' = vm_spaces s" "vm_inv s' (space_root s as)" using M(2) by (auto simp: vm_keeps_def)
  have "maps_range s as s' virt n phys flags" if ok
    using M(3,4) that sp(1) by (intro pages_mapped_maps_range [OF _ _ assms(2,3,5) al assms(8)]) simp_all
  then show ?thesis using M(1) sp(2) by blast
qed

lemma map_contiguous_roundtrip_witness:
  "\<exists>s' ok. map_contiguous example_vm 1 USER_IMAGE_BASE 0x100000 0x2000 3 = Some (s', ok) \<and> vm_inv s' 0x201000"
  using map_contiguous_roundtrip [of example_vm 1 "0x2000" 2 USER_IMAGE_BASE "0x100000" 3] example_vm_inv
  by (auto simp: example_vm_def table_from_phys_def PA_MASK_def user_range_def USER_IMAGE_BASE_def USER_MAP_LIMIT_def
      is_aligned_def PAGE_SIZE_4K_def)

text \<open>
  After \<open>unmap_range\<close> no address of a page the range touches is translated by a 4K mapping,
  every other user address translates as before, and the invariant holds.
\<close>

lemma unmap_range_correct:
  assumes "vm_inv s (space_root s as)" and "as \<noteq> 0" "pml4_phys (vm_spaces s as) \<noteq> 0" and "sz \<noteq> 0"
    and "USER_IMAGE_BASE \<le> virt" "unat virt + unat sz \<le> unat USER_MAP_LIMIT"
    and "\<And>i. 128 \<le> i \<Longrightarrow> i < 256 \<Longrightarrow> \<not> is_huge (entry (vm_mem s) (space_root s as) i)"
  shows "vm_inv (unmap_range s as virt sz) (space_root s as) \<and>
    (\<forall>w. align_down virt PAGE_SIZE_4K \<le> w \<and> w < align_up (virt + sz) PAGE_SIZE_4K \<longrightarrow>
       not_huge_at (vm_mem s) (space_root s as) (vpath w) \<longrightarrow> debug_resolve (unmap_range s as virt sz) as w = None) \<and>
    (\<forall>w. USER_IMAGE_BASE \<le> w \<and> w < USER_MAP_LIMIT \<and> \<not> (align_down virt PAGE_SIZE_4K \<le> w \<and> w < align_up (virt + sz) PAGE_SIZE_4K) \<longrightarrow>
       debug_resolve (unmap_range s as virt sz) as w = debug_resolve s as w)"
proof -
  let ?root = "space_root s as" and ?st = "align_down virt PAGE_SIZE_4K" and ?en = "align_up (virt + sz) PAGE_SIZE_4K"
  have P: "PAGE_SIZE_4K = 2 ^ 12" by (simp add: PAGE_SIZE_4K_def)
  have lim: "unat USER_MAP_LIMIT = 2 ^ 47" by (simp add: USER_MAP_LIMIT_def)
  have u: "unat (virt + sz) = unat virt + unat sz" using assms(6) lim by (simp add: unat_plus64)
  obtain a where a: "unat ?st = a * 4096" using unat_align_down [OF P, of virt] by simp
  obtain b where b: "unat ?en = b * 4096" using unat_align_up [OF P, of "virt + sz"] u assms(6) lim by simp
  have e1: "unat virt + unat sz \<le> unat ?en" "unat ?en < unat virt + unat sz + 4096"
    using align_up_bounds [OF P, of "virt + sz"] u assms(6) lim by simp_all
  have en: "unat ?en \<le> 2 ^ 47"
  proof -
    have "b * 4096 < 34359738368 * 4096 + 4096" using e1(2) assms(6) lim b by simp
    then show ?thesis using b by simp
  qed
  have st: "unat ?st \<le> unat virt" "2 ^ 46 \<le> unat ?st"
  proof -
    have v: "2 ^ 46 \<le> unat virt" using assms(5) by (simp add: USER_IMAGE_BASE_def word_le_nat_alt)
    have d: "unat ?st = unat virt div 4096 * 4096" using unat_align_down [OF P, of virt] by simp
    then show "unat ?st \<le> unat virt" by simp
    have "17179869184 \<le> unat virt div 4096" using v div_le_mono [OF v, of 4096] by simp
    then show "2 ^ 46 \<le> unat ?st" using d by simp
  qed
  have ab: "a \<le> b" using a b st(1) e1(1) by linarith
  define n where "n = b - a"
  have nn: "(unat ?en - unat ?st) div unat PAGE_SIZE_4K = n" unfolding a b n_def using ab
    by (simp add: P unat_pow2 diff_mult_distrib [symmetric])
  have rn: "unat ?st + n * 4096 = unat ?en" using a b ab by (simp add: n_def algebra_simps)
  have "unat USER_IMAGE_BASE = 2 ^ 46" by (simp add: USER_IMAGE_BASE_def)
  then have r: "user_range ?st n" unfolding user_range_def rn lim word_le_nat_alt using st(2) en by simp
  have ur: "unmap_range s as virt sz = s\<lparr>vm_mem := unmap_pages (vm_mem s) ?root ?st n\<rparr>"
    using assms(2-4) nn by (simp add: unmap_range_def Let_def)
  define m where "m = unmap_pages (vm_mem s) ?root ?st n"
  have U: "vm_keeps s ?root (s\<lparr>vm_mem := m\<rparr>)"
    "\<And>p. uvpath p \<Longrightarrow> rpath m ?root p = (if (\<exists>k < n. p = vpath (page_nth ?st k)) \<and> not_huge_at (vm_mem s) ?root p then None
       else rpath (vm_mem s) ?root p)"
    unfolding m_def using unmap_pages_correct [OF assms(1), of n ?st] user_range_page(2) [OF r] assms(7)
    by (auto simp: user_index_def)
  have al: "4096 dvd unat ?st" using a by simp
  have dr: "debug_resolve (s\<lparr>vm_mem := x\<rparr>) as w = resolve_root x (pml4_phys (vm_spaces s as)) w"
    "debug_resolve s as w = resolve_root (vm_mem s) (pml4_phys (vm_spaces s as)) w" for w x
    using assms(2,3) by (simp_all add: debug_resolve_def)
  have inside: "resolve_root m (pml4_phys (vm_spaces s as)) w = None"
    if w: "?st \<le> w" "w < ?en" "not_huge_at (vm_mem s) ?root (vpath w)" for w
  proof -
    note that = w(1) [unfolded word_le_nat_alt] w(2) [unfolded word_less_nat_alt] w(3)
    note K = user_page_of [OF r al that(1) that(2) [folded rn]]
    have "user_addr w" using that(1,2) st(2) en by (intro user_addr_range) auto
    moreover have "\<exists>k < n. vpath w = vpath (page_nth ?st k)" using K(1,2) by blast
    ultimately have "rpath m ?root (vpath w) = None" using U(2) [OF uvpath_vpath [of w]] that(3) by simp
    then show ?thesis by (simp add: resolve_root_rpath)
  qed
  have outside: "resolve_root m (pml4_phys (vm_spaces s as)) w = resolve_root (vm_mem s) (pml4_phys (vm_spaces s as)) w"
    if u: "USER_IMAGE_BASE \<le> w" "w < USER_MAP_LIMIT" and n: "\<not> (?st \<le> w \<and> w < ?en)" for w
  proof (rule rpath_resolve)
    have w: "2 ^ 46 \<le> unat w" "unat w < 2 ^ 47" using u in_user_bounds by blast+
    have o: "unat w < unat ?st \<or> unat ?en \<le> unat w" using n by (auto simp: word_le_nat_alt word_less_nat_alt)
    have "vpath w \<noteq> vpath (page_nth ?st k)" if "k < n" for k
      using vpath_outside [OF r al w, unfolded rn, OF o that] .
    then show "rpath m ?root (vpath w) = rpath (vm_mem s) ?root (vpath w)"
      using U(2) [OF uvpath_vpath [OF user_addr_range [OF w]]] by auto
  qed
  have "vm_inv (s\<lparr>vm_mem := m\<rparr>) ?root" using U(1) by (simp add: vm_keeps_def)
  then show ?thesis unfolding ur m_def [symmetric] dr using inside outside by blast
qed

lemma page_count_bytes:
  assumes "unat sz + 4096 \<le> 2 ^ 44" shows "unat (align_up sz PAGE_SIZE_4K) = (unat sz + 4095) div 4096 * 4096"
  using unat_align_up [of PAGE_SIZE_4K 12 sz] assms by (simp add: PAGE_SIZE_4K_def)

text \<open>
  \<open>allocate_user_pages\<close> returns; on success the backing pages were free, are no longer
  free, lie below 2 GiB and are zero; the range maps to them, every other user address
  translates as before, and the invariant holds.
\<close>

lemma allocate_user_pages_fresh:
  assumes "vm_inv s (space_root s as)" and "pml4_phys (vm_spaces s as) \<noteq> 0" and "unat sz + 4096 \<le> 2 ^ 44" "sz \<noteq> 0"
    and "n = (unat sz + 4095) div 4096" and "user_range virt n"
  shows "\<exists>s' r. allocate_user_pages s as virt sz flags = Some (s', r) \<and>
    (\<forall>phys. r = Some phys \<longrightarrow> vm_inv s' (space_root s as) \<and> maps_range s as s' virt n phys flags \<and>
       is_aligned phys PAGE_SIZE_4K \<and> unat phys + n * 4096 \<le> unat IDENTITY_BRIDGE_ALLOC_MAX \<and>
       {unat phys ..< unat phys + n * 4096} \<subseteq> pa_free_bytes (vm_phys s) - pa_free_bytes (vm_phys s') \<and>
       (\<forall>a. unat phys \<le> unat a \<and> unat a < unat phys + n * 4096 \<longrightarrow> vm_mem s' a = 0))"
proof -
  have b: "unat (align_up sz PAGE_SIZE_4K) = n * 4096" using page_count_bytes [OF assms(3)] assms(5) by simp
  have "0 < unat sz" using assms(4) by (simp add: unat_gt_0)
  then have n0: "0 < n" using assms(5) by (simp add: div_greater_zero_iff)
  have nb: "n < 2 ^ 32" using assms(3,5) by (simp add: div_less_iff_less_mult)
  from allocate_user_pages_correct [OF assms(1) b n0 nb assms(6), of flags] obtain s' r where
    A: "allocate_user_pages s as virt sz flags = Some (s', r)"
      "\<And>phys. r = Some phys \<Longrightarrow> as \<noteq> 0 \<and> 4096 dvd unat virt \<and> 4096 dvd unat phys \<and> phys \<noteq> 0 \<and> unat phys + n * 4096 \<le> 2 ^ 31 \<and>
       {unat phys ..< unat phys + n * 4096} \<subseteq> pa_free_bytes (vm_phys s) - pa_free_bytes (vm_phys s') \<and>
       vm_keeps s (space_root s as) s' \<and> pages_mapped (vm_mem s) (space_root s as) (vm_mem s') virt phys flags n \<and>
       (\<forall>a. unat a \<in> {unat phys ..< unat phys + n * 4096} \<longrightarrow> vm_mem s' a = 0)" by blast
  have "maps_range s as s' virt n phys flags \<and> vm_inv s' (space_root s as)" if "r = Some phys" for phys
    using A(2) [OF that] assms(2,6) by (auto simp: vm_keeps_def intro!: pages_mapped_maps_range)
  then show ?thesis using A by (intro exI [of _ s'] exI [of _ r]) (auto simp: page_aligned_iff IDENTITY_BRIDGE_ALLOC_MAX_def)
qed

text \<open>
  C20. \<open>allocate_user_heap\<close> returns. On success the range starts at the end of the previous heap
  range rounded up to a page, so successive heap ranges never overlap; it lies between
  \<open>USER_HEAP_BASE\<close> and \<open>USER_MAP_LIMIT\<close>, the bound the code checks. The pages behind it were free in
  the page allocator and no longer are, and they are zeroed; every address of the range translates
  to them with the permissions asked for and every other user address as before; \<open>heap_next\<close> is the
  end of the range.
\<close>

theorem allocate_user_heap_advances:
  assumes "vm_inv s (space_root s as)" and "pml4_phys (vm_spaces s as) \<noteq> 0" and "unat sz + 4096 \<le> 2 ^ 44" "sz \<noteq> 0"
    and "unat (heap_next (vm_spaces s as)) \<le> unat USER_MAP_LIMIT" and "n = (unat sz + 4095) div 4096"
  shows "\<exists>s' r. allocate_user_heap s as sz flags = Some (s', r) \<and>
    (\<forall>phys virt. r = Some (phys, virt) \<longrightarrow> vm_inv s' (space_root s as) \<and> maps_range s as s' virt n phys flags \<and>
       unat virt = (unat (heap_next (vm_spaces s as)) + 4095) div 4096 * 4096 \<and>
       USER_HEAP_BASE \<le> virt \<and> unat virt + n * 4096 \<le> unat USER_MAP_LIMIT \<and>
       unat (heap_next (vm_spaces s' as)) = unat virt + n * 4096 \<and>
       {unat phys ..< unat phys + n * 4096} \<subseteq> pa_free_bytes (vm_phys s) - pa_free_bytes (vm_phys s') \<and>
       (\<forall>a. unat phys \<le> unat a \<and> unat a < unat phys + n * 4096 \<longrightarrow> vm_mem s' a = 0))"
proof -
  define bytes where "bytes = align_up sz PAGE_SIZE_4K"
  define v where "v = align_up (heap_next (vm_spaces s as)) PAGE_SIZE_4K"
  have lim: "unat USER_MAP_LIMIT = 2 ^ 47" by (simp add: USER_MAP_LIMIT_def)
  have b: "unat bytes = n * 4096" using page_count_bytes [OF assms(3)] assms(6) by (simp add: bytes_def)
  have "0 < unat sz" using assms(4) by (simp add: unat_gt_0)
  then have n0: "0 < n" using assms(6) by (simp add: div_greater_zero_iff)
  have nb: "n < 2 ^ 32" using assms(3,6) by (simp add: div_less_iff_less_mult)
  have P: "PAGE_SIZE_4K = 2 ^ 12" by (simp add: PAGE_SIZE_4K_def)
  have vu: "unat v = (unat (heap_next (vm_spaces s as)) + 4095) div 4096 * 4096"
    unfolding v_def using unat_align_up [OF P, of "heap_next (vm_spaces s as)"] assms(5) lim by simp
  then have "unat v < unat (heap_next (vm_spaces s as)) + 4096" by linarith
  then have sum: "unat (v + bytes) = unat v + n * 4096" using b nb assms(5) lim by (simp add: unat_plus64)
  define ok where "ok \<longleftrightarrow> as \<noteq> 0 \<and> \<not> (v < USER_HEAP_BASE \<or> v + bytes > USER_MAP_LIMIT \<or> v + bytes < v)"
  have ev: "allocate_user_heap s as sz flags = (if ok then do {
          (s, r) \<leftarrow> allocate_user_pages s as v bytes flags;
          (case r of
             None \<Rightarrow> Some (s, None)
           | Some phys \<Rightarrow>
               Some (s\<lparr>vm_spaces := (vm_spaces s)(as := (vm_spaces s as)\<lparr>heap_next := v + bytes\<rparr>)\<rparr>, Some (phys, v))) } else Some (s, None))"
    using assms(4) unfolding allocate_user_heap_def Let_def bytes_def [symmetric] v_def [symmetric] ok_def by auto
  show ?thesis
  proof (cases ok)
    case False
    then show ?thesis using ev by auto
  next
    case True
    then have vb: "USER_HEAP_BASE \<le> v" "unat v + n * 4096 \<le> unat USER_MAP_LIMIT"
      using sum by (simp_all add: ok_def word_less_nat_alt not_less word_le_nat_alt)
    have r: "user_range v n" using vb order_trans [of USER_IMAGE_BASE USER_HEAP_BASE v]
      by (simp add: user_range_def USER_IMAGE_BASE_def USER_HEAP_BASE_def)
    have bb: "unat bytes + 4096 \<le> 2 ^ 44" "bytes \<noteq> 0" "n = (unat bytes + 4095) div 4096" using b nb n0 by (auto simp: unat_gt_0 [symmetric])
    from allocate_user_pages_fresh [OF assms(1,2) bb r, of flags] obtain s1 res where
      A: "allocate_user_pages s as v bytes flags = Some (s1, res)"
        "\<And>phys. res = Some phys \<Longrightarrow> vm_inv s1 (space_root s as) \<and> maps_range s as s1 v n phys flags \<and>
         {unat phys ..< unat phys + n * 4096} \<subseteq> pa_free_bytes (vm_phys s) - pa_free_bytes (vm_phys s1) \<and>
         (\<forall>a. unat phys \<le> unat a \<and> unat a < unat phys + n * 4096 \<longrightarrow> vm_mem s1 a = 0)" by blast
    show ?thesis
    proof (cases res)
      case None
      then show ?thesis using ev True A(1) by auto
    next
      case (Some phys)
      note B = A(2) [OF Some]
      let ?s = "s1\<lparr>vm_spaces := (vm_spaces s1)(as := (vm_spaces s1 as)\<lparr>heap_next := v + bytes\<rparr>)\<rparr>"
      have "vm_inv ?s (space_root s as)" using B by (simp add: vm_inv_def)
      moreover have "debug_resolve ?s as = debug_resolve s1 as" by (simp add: debug_resolve_def fun_eq_iff)
      then have "maps_range s as ?s v n phys flags" using B by (simp add: maps_range_def)
      ultimately show ?thesis using ev True A(1) Some B vu vb sum by (intro exI [of _ ?s] exI [of _ "Some (phys, v)"]) simp
    qed
  qed
qed

lemma allocate_user_heap_advances_witness:
  "\<exists>s'. allocate_user_heap example_vm 1 0x1800 3 = Some (s', Some (0x1000, USER_HEAP_BASE)) \<and>
    unat (heap_next (vm_spaces s' 1)) = unat USER_HEAP_BASE + 8192 \<and>
    {0x1000 ..< 0x3000} \<subseteq> pa_free_bytes (vm_phys example_vm) - pa_free_bytes (vm_phys s')"
proof -
  have l: "unat (heap_next (vm_spaces example_vm 1)) \<le> unat USER_MAP_LIMIT"
    by (simp add: example_vm_def USER_HEAP_BASE_def USER_MAP_LIMIT_def)
  have z: "unat (0x1800 :: u64) + 4096 \<le> 2 ^ 44" "(0x1800 :: u64) \<noteq> 0" "(2 :: nat) = (unat (0x1800 :: u64) + 4095) div 4096" by simp_all
  have "map_option (map_option fst \<circ> snd) (allocate_user_heap example_vm 1 0x1800 3) = Some (Some 0x1000)"
    "map_option (map_option snd \<circ> snd) (allocate_user_heap example_vm 1 0x1800 3) = Some (Some USER_HEAP_BASE)" by code_simp+
  then obtain s' where c: "allocate_user_heap example_vm 1 0x1800 3 = Some (s', Some (0x1000, USER_HEAP_BASE))" by auto
  from allocate_user_heap_advances [OF example_space z(1,2) l z(3), of 3] c show ?thesis by auto
qed

end
