(* ===== verification/NetWire.thy ===== *)
theory NetWire
  imports Types
begin

text \<open>
  The shared vocabulary of the network stack: include/vkernel/net.h (addresses, byte order,
  formatting, the Internet checksum) and the packed wire structures of
  include/vkernel/net_wire.h. A structure in memory is the list of its bytes; a \<open>u16\<close> field
  is stored little-endian, as the machine does, and \<open>bswap16\<close> converts it.
\<close>

section \<open>Addresses\<close>

datatype mac_address = Mac u8 u8 u8 u8 u8 u8
datatype ipv4_address = Ipv4 u8 u8 u8 u8

fun mac_bytes :: "mac_address \<Rightarrow> u8 list" where
  "mac_bytes (Mac b0 b1 b2 b3 b4 b5) = [b0, b1, b2, b3, b4, b5]"

fun ipv4_bytes :: "ipv4_address \<Rightarrow> u8 list" where
  "ipv4_bytes (Ipv4 a b c d) = [a, b, c, d]"

definition zero_ipv4 :: ipv4_address where "zero_ipv4 = Ipv4 0 0 0 0"
definition broadcast_mac :: mac_address where "broadcast_mac = Mac 0xFF 0xFF 0xFF 0xFF 0xFF 0xFF"
definition zero_mac :: mac_address where "zero_mac = Mac 0 0 0 0 0 0"

definition bswap16 :: "u16 \<Rightarrow> u16" where
  "bswap16 value = push_bit 8 value OR drop_bit 8 value"

fun bytes_equal :: "u8 list \<Rightarrow> u8 list \<Rightarrow> bool" where
  "bytes_equal (a # as) (b # bs) = (if a \<noteq> b then False else bytes_equal as bs)"
| "bytes_equal _ _ = True"

definition ipv4_equal :: "ipv4_address \<Rightarrow> ipv4_address \<Rightarrow> bool" where
  "ipv4_equal lhs rhs = bytes_equal (ipv4_bytes lhs) (ipv4_bytes rhs)"

lemma ipv4_equal_iff [simp]: "ipv4_equal a b \<longleftrightarrow> a = b"
  by (cases a; cases b) (simp add: ipv4_equal_def)

section \<open>Formatting\<close>

definition hex_digits :: string where "hex_digits = ''0123456789ABCDEF''"

fun format_mac_from :: "u8 list \<Rightarrow> string" where
  "format_mac_from [] = []"
| "format_mac_from (byte # rest) =
     hex_digits ! unat (drop_bit 4 byte) # hex_digits ! unat (byte AND 0x0F) # (if rest \<noteq> [] then [CHR '':''] else []) @ format_mac_from rest"

definition digit :: "u8 \<Rightarrow> char" where
  "digit v = char_of (unat (48 + v))"

definition format_octet :: "u8 \<Rightarrow> string" where
  "format_octet octet =
     (if octet \<ge> 100 then
        let v = octet mod 100 in [digit (octet div 100), digit (v div 10), digit (v mod 10)]
      else if octet \<ge> 10 then [digit (octet div 10), digit (octet mod 10)]
      else [digit octet])"

fun format_ipv4_from :: "u8 list \<Rightarrow> string" where
  "format_ipv4_from [] = []"
| "format_ipv4_from (octet # rest) = format_octet octet @ (if rest \<noteq> [] then [CHR ''.''] else []) @ format_ipv4_from rest"

text \<open>The text written to \<open>out\<close> (without its terminating NUL), or \<open>None\<close> when the buffer is left alone.\<close>

definition format_mac :: "mac_address \<Rightarrow> nat \<Rightarrow> string option" where
  "format_mac mac out_size = (if out_size < 18 then None else Some (format_mac_from (mac_bytes mac)))"

definition format_ipv4 :: "ipv4_address \<Rightarrow> nat \<Rightarrow> string option" where
  "format_ipv4 ip out_size = (if out_size < 16 then None else Some (format_ipv4_from (ipv4_bytes ip)))"

section \<open>The Internet checksum\<close>

text \<open>One addition with its end-around carry.\<close>

definition csum_add :: "u32 \<Rightarrow> u16 \<Rightarrow> u32" where
  "csum_add acc word =
     (let acc = acc + ucast word
      in if acc > 0xFFFF then (acc AND 0xFFFF) + 1 else acc)"

fun csum_words :: "u32 \<Rightarrow> u8 list \<Rightarrow> u32" where
  "csum_words acc (a # b # rest) = csum_words (csum_add acc (push_bit 8 (ucast a) OR ucast b)) rest"
| "csum_words acc _ = acc"

definition internet_checksum :: "u8 list \<Rightarrow> u16" where
  "internet_checksum bytes =
     (let acc = csum_words 0 bytes;
          acc = (if odd (length bytes) then csum_add acc (push_bit 8 (ucast (last bytes))) else acc)
      in ucast (NOT acc))"

section \<open>Wire structures\<close>

definition ETHERNET_HEADER_BYTES :: nat where "ETHERNET_HEADER_BYTES = 14"
definition IPV4_HEADER_BYTES :: nat where "IPV4_HEADER_BYTES = 20"
definition ARP_ETHERNET_IPV4_BYTES :: nat where "ARP_ETHERNET_IPV4_BYTES = 28"
definition ICMP_HEADER_BYTES :: nat where "ICMP_HEADER_BYTES = 4"
definition ICMP_ECHO_HEADER_BYTES :: nat where "ICMP_ECHO_HEADER_BYTES = 8"

definition u16_bytes :: "u16 \<Rightarrow> u8 list" where
  "u16_bytes v = [ucast v, ucast (drop_bit 8 v)]"

definition u16_at :: "u8 list \<Rightarrow> nat \<Rightarrow> u16" where
  "u16_at bs i = ucast (bs ! i) OR push_bit 8 (ucast (bs ! (i + 1)))"

definition mac_at :: "u8 list \<Rightarrow> nat \<Rightarrow> mac_address" where
  "mac_at bs i = Mac (bs ! i) (bs ! (i + 1)) (bs ! (i + 2)) (bs ! (i + 3)) (bs ! (i + 4)) (bs ! (i + 5))"

definition ipv4_at :: "u8 list \<Rightarrow> nat \<Rightarrow> ipv4_address" where
  "ipv4_at bs i = Ipv4 (bs ! i) (bs ! (i + 1)) (bs ! (i + 2)) (bs ! (i + 3))"

record ethernet_header =
  eth_dst :: mac_address
  eth_src :: mac_address
  ether_type_be :: u16

record arp_ethernet_ipv4_packet =
  hardware_type_be :: u16
  protocol_type_be :: u16
  hardware_len :: u8
  protocol_len :: u8
  operation_be :: u16
  sender_mac :: mac_address
  sender_ip :: ipv4_address
  target_mac :: mac_address
  target_ip :: ipv4_address

record ipv4_header =
  version_ihl :: u8
  dscp_ecn :: u8
  total_length_be :: u16
  identification_be :: u16
  flags_fragment_be :: u16
  ttl :: u8
  ip_protocol :: u8
  header_checksum_be :: u16
  src_ip :: ipv4_address
  dst_ip :: ipv4_address

record icmp_header =
  icmp_type :: u8
  icmp_code :: u8
  icmp_checksum_be :: u16

record icmp_echo_header = icmp_header +
  identifier_be :: u16
  sequence_be :: u16

definition ethernet_bytes :: "ethernet_header \<Rightarrow> u8 list" where
  "ethernet_bytes h = mac_bytes (eth_dst h) @ mac_bytes (eth_src h) @ u16_bytes (ether_type_be h)"

definition ethernet_at :: "u8 list \<Rightarrow> nat \<Rightarrow> ethernet_header" where
  "ethernet_at bs i = \<lparr>eth_dst = mac_at bs i, eth_src = mac_at bs (i + 6), ether_type_be = u16_at bs (i + 12)\<rparr>"

definition arp_bytes :: "arp_ethernet_ipv4_packet \<Rightarrow> u8 list" where
  "arp_bytes p = u16_bytes (hardware_type_be p) @ u16_bytes (protocol_type_be p) @ [hardware_len p, protocol_len p] @
     u16_bytes (operation_be p) @ mac_bytes (sender_mac p) @ ipv4_bytes (sender_ip p) @ mac_bytes (target_mac p) @ ipv4_bytes (target_ip p)"

definition arp_at :: "u8 list \<Rightarrow> nat \<Rightarrow> arp_ethernet_ipv4_packet" where
  "arp_at bs i = \<lparr>hardware_type_be = u16_at bs i, protocol_type_be = u16_at bs (i + 2), hardware_len = bs ! (i + 4),
     protocol_len = bs ! (i + 5), operation_be = u16_at bs (i + 6), sender_mac = mac_at bs (i + 8), sender_ip = ipv4_at bs (i + 14),
     target_mac = mac_at bs (i + 18), target_ip = ipv4_at bs (i + 24)\<rparr>"

definition ipv4_header_bytes :: "ipv4_header \<Rightarrow> u8 list" where
  "ipv4_header_bytes h = [version_ihl h, dscp_ecn h] @ u16_bytes (total_length_be h) @ u16_bytes (identification_be h) @
     u16_bytes (flags_fragment_be h) @ [ttl h, ip_protocol h] @ u16_bytes (header_checksum_be h) @ ipv4_bytes (src_ip h) @ ipv4_bytes (dst_ip h)"

definition ipv4_header_at :: "u8 list \<Rightarrow> nat \<Rightarrow> ipv4_header" where
  "ipv4_header_at bs i = \<lparr>version_ihl = bs ! i, dscp_ecn = bs ! (i + 1), total_length_be = u16_at bs (i + 2),
     identification_be = u16_at bs (i + 4), flags_fragment_be = u16_at bs (i + 6), ttl = bs ! (i + 8), ip_protocol = bs ! (i + 9),
     header_checksum_be = u16_at bs (i + 10), src_ip = ipv4_at bs (i + 12), dst_ip = ipv4_at bs (i + 16)\<rparr>"

definition icmp_header_at :: "u8 list \<Rightarrow> nat \<Rightarrow> icmp_header" where
  "icmp_header_at bs i = \<lparr>icmp_type = bs ! i, icmp_code = bs ! (i + 1), icmp_checksum_be = u16_at bs (i + 2)\<rparr>"

definition icmp_echo_bytes :: "icmp_echo_header \<Rightarrow> u8 list" where
  "icmp_echo_bytes h = [icmp_type h, icmp_code h] @ u16_bytes (icmp_checksum_be h) @ u16_bytes (identifier_be h) @ u16_bytes (sequence_be h)"

definition icmp_echo_at :: "u8 list \<Rightarrow> nat \<Rightarrow> icmp_echo_header" where
  "icmp_echo_at bs i = \<lparr>icmp_type = bs ! i, icmp_code = bs ! (i + 1), icmp_checksum_be = u16_at bs (i + 2),
     identifier_be = u16_at bs (i + 4), sequence_be = u16_at bs (i + 6)\<rparr>"

section \<open>Byte order and wire structures round trip\<close>

lemma bswap16_bswap16 [simp]: "bswap16 (bswap16 v) = v"
  by (rule bit_word_eqI) (auto simp: bswap16_def bit_or_iff bit_push_bit_iff bit_drop_bit_eq)

lemma bswap16_eq_iff [simp]: "bswap16 a = bswap16 b \<longleftrightarrow> a = b"
  by (metis bswap16_bswap16)

lemma u16_join: "(ucast (ucast v :: u8) :: u16) OR push_bit 8 (ucast (ucast (drop_bit 8 v) :: u8)) = v"
  by (rule bit_word_eqI) (auto simp: bit_or_iff bit_push_bit_iff bit_ucast_iff bit_drop_bit_eq)

lemma u16_at_bytes [simp]: "bs ! i = ucast v \<Longrightarrow> bs ! Suc i = ucast (drop_bit 8 v) \<Longrightarrow> u16_at bs i = v"
  by (simp add: u16_at_def u16_join)

lemma length_addresses [simp]: "length (mac_bytes m) = 6" "length (ipv4_bytes a) = 4" "length (u16_bytes v) = 2"
  by (cases m, simp) (cases a, simp, simp add: u16_bytes_def)

lemma length_wire [simp]:
  "length (ethernet_bytes e) = 14" "length (arp_bytes p) = 28" "length (ipv4_header_bytes h) = 20" "length (icmp_echo_bytes x) = 8"
  by (simp_all add: ethernet_bytes_def arp_bytes_def ipv4_header_bytes_def icmp_echo_bytes_def)

end
