(* ===== verification/Bindings.thy ===== *)
theory Bindings
  imports Prelude
begin

text \<open>
  Two interfaces the kernel's tables share. \<open>bindings\<close>: a table that binds keys to values in
  bounded space, where a binding may be refused or may displace another one (the ARP cache, the
  IPv4 configuration). \<open>bounded_queue\<close>: a ring buffer seen as a first-in first-out queue of
  bounded length. What clients rely on is proved once, for every sequence of operations.
\<close>

section \<open>Bounded tables of bindings\<close>

locale bindings =
  fixes inv :: "'c \<Rightarrow> bool" and look :: "'c \<Rightarrow> 'k \<Rightarrow> 'v option" and bind :: "'c \<Rightarrow> 'k \<Rightarrow> 'v \<Rightarrow> 'c \<times> bool"
  assumes bind_inv: "inv c \<Longrightarrow> bind c k v = (c', ok) \<Longrightarrow> inv c'"
    and bind_ok: "inv c \<Longrightarrow> bind c k v = (c', True) \<Longrightarrow> look c' k = Some v"
    and bind_refused: "inv c \<Longrightarrow> bind c k v = (c', False) \<Longrightarrow> look c' k' = look c k'"
    and bind_other: "inv c \<Longrightarrow> bind c k v = (c', ok) \<Longrightarrow> k' \<noteq> k \<Longrightarrow> look c' k' = look c k' \<or> look c' k' = None"
begin

fun bind_all :: "'c \<Rightarrow> ('k \<times> 'v) list \<Rightarrow> 'c" where
  "bind_all c [] = c"
| "bind_all c ((k, v) # kvs) = bind_all (fst (bind c k v)) kvs"

lemma bind_all_inv: "inv c \<Longrightarrow> inv (bind_all c kvs)"
proof (induction c kvs rule: bind_all.induct)
  case (2 c k v kvs)
  then show ?case using bind_inv [of c k v] by (metis bind_all.simps(2) prod.collapse)
qed simp

lemma bind_all_other:
  assumes "inv c" "k \<notin> fst ` set kvs" shows "look (bind_all c kvs) k = look c k \<or> look (bind_all c kvs) k = None"
  using assms
proof (induction c kvs rule: bind_all.induct)
  case (2 c k' v kvs)
  obtain c' ok where b: "bind c k' v = (c', ok)" by fastforce
  have "inv c'" using bind_inv [OF 2(2) b] .
  then have "look (bind_all c' kvs) k = look c' k \<or> look (bind_all c' kvs) k = None" using 2(1,3) b by simp
  moreover have "look c' k = look c k \<or> look c' k = None" using bind_other [OF 2(2) b] 2(3) by auto
  ultimately show ?case using b by auto
qed simp

text \<open>A binding, once made, is either what a later lookup returns or has been displaced: never another value.\<close>

lemma latest_binding:
  assumes "inv c" "bind c k v = (c', True)" "k \<notin> fst ` set kvs" "look (bind_all c' kvs) k = Some w"
  shows "w = v"
proof -
  have "look c' k = Some v" using bind_ok [OF assms(1,2)] .
  then show ?thesis using bind_all_other [OF bind_inv [OF assms(1,2)] assms(3)] assms(4) by auto
qed

end

section \<open>Bounded queues\<close>

inductive queue_run ::
  "('a \<Rightarrow> bool) \<Rightarrow> ('s \<Rightarrow> 'a \<Rightarrow> 's \<times> bool) \<Rightarrow> ('s \<Rightarrow> 's \<times> 'a option) \<Rightarrow> 's \<Rightarrow> 's \<Rightarrow> 'a list \<Rightarrow> 'a list \<Rightarrow> bool"
  for valid enq deq s0 where
  queue_start: "queue_run valid enq deq s0 s0 [] []"
| queue_put: "queue_run valid enq deq s0 s ins outs \<Longrightarrow> valid x \<Longrightarrow> enq s x = (s', b) \<Longrightarrow>
    queue_run valid enq deq s0 s' (if b then ins @ [x] else ins) outs"
| queue_get: "queue_run valid enq deq s0 s ins outs \<Longrightarrow> deq s = (s', r) \<Longrightarrow>
    queue_run valid enq deq s0 s' ins (case r of None \<Rightarrow> outs | Some x \<Rightarrow> outs @ [x])"

locale bounded_queue =
  fixes inv :: "'s \<Rightarrow> bool" and contents :: "'s \<Rightarrow> 'a list" and cap :: nat and valid :: "'a \<Rightarrow> bool"
    and enq :: "'s \<Rightarrow> 'a \<Rightarrow> 's \<times> bool" and deq :: "'s \<Rightarrow> 's \<times> 'a option"
  assumes enq_inv: "inv s \<Longrightarrow> valid x \<Longrightarrow> enq s x = (s', b) \<Longrightarrow> inv s' \<and> (b \<longleftrightarrow> length (contents s) < cap) \<and>
      contents s' = (if b then contents s @ [x] else contents s)"
    and deq_inv: "inv s \<Longrightarrow> deq s = (s', r) \<Longrightarrow> inv s' \<and> contents s = (case r of None \<Rightarrow> [] | Some x \<Rightarrow> x # contents s') \<and>
      (r = None \<longrightarrow> contents s' = [])"
    and within: "inv s \<Longrightarrow> length (contents s) \<le> cap"
begin

text \<open>Whatever the interleaving, what was taken followed by what is still queued is what was accepted, in order.\<close>

lemma run_fifo:
  assumes "queue_run valid enq deq s0 s ins outs" and "inv s0" "contents s0 = []"
  shows "inv s \<and> ins = outs @ contents s \<and> length (contents s) \<le> cap"
  using assms
proof (induction rule: queue_run.induct)
  case (queue_put s ins outs x s' b)
  then show ?case using enq_inv [of s x s' b] within [of s'] by auto
next
  case (queue_get s ins outs s' r)
  then show ?case using deq_inv [of s s' r] within [of s'] by (auto split: option.splits)
qed simp

end

end
