(* ===== verification/ArpCache.thy ===== *)
theory ArpCache
  imports NetWire Bindings
begin

text \<open>
  The ARP cache of src/net/arp.cpp: sixteen entries, refreshed in place, filled in order and
  then replaced round-robin. Its lock makes each operation one step.
\<close>

definition MAX_CACHE_ENTRIES :: nat where "MAX_CACHE_ENTRIES = 16"

record arp_cache_entry =
  ace_valid :: bool
  ace_ip :: ipv4_address
  ace_mac :: mac_address

record arp_cache =
  s_cache :: "arp_cache_entry list"
  s_next_replace :: nat
  arp_initialised :: bool

definition empty_arp_entry :: arp_cache_entry where
  "empty_arp_entry = \<lparr>ace_valid = False, ace_ip = Ipv4 0 0 0 0, ace_mac = Mac 0 0 0 0 0 0\<rparr>"

definition arp_boot :: arp_cache where
  "arp_boot = \<lparr>s_cache = replicate MAX_CACHE_ENTRIES empty_arp_entry, s_next_replace = 0, arp_initialised = False\<rparr>"

definition cache_insert_locked :: "arp_cache \<Rightarrow> ipv4_address \<Rightarrow> mac_address \<Rightarrow> arp_cache" where
  "cache_insert_locked c ip mac =
     (case first_index (\<lambda>e. ace_valid e \<and> ipv4_equal (ace_ip e) ip) (s_cache c) of
        Some i \<Rightarrow> c\<lparr>s_cache := (s_cache c)[i := (s_cache c ! i)\<lparr>ace_mac := mac\<rparr>]\<rparr>
      | None \<Rightarrow>
          (case first_index (\<lambda>e. \<not> ace_valid e) (s_cache c) of
             Some i \<Rightarrow> c\<lparr>s_cache := (s_cache c)[i := \<lparr>ace_valid = True, ace_ip = ip, ace_mac = mac\<rparr>]\<rparr>
           | None \<Rightarrow>
               c\<lparr>s_cache := (s_cache c)[s_next_replace c := \<lparr>ace_valid = True, ace_ip = ip, ace_mac = mac\<rparr>],
                 s_next_replace := (s_next_replace c + 1) mod MAX_CACHE_ENTRIES\<rparr>))"

definition cache_lookup_locked :: "arp_cache \<Rightarrow> ipv4_address \<Rightarrow> mac_address option" where
  "cache_lookup_locked c ip =
     (case first_index (\<lambda>e. ace_valid e \<and> ipv4_equal (ace_ip e) ip) (s_cache c) of
        None \<Rightarrow> None
      | Some i \<Rightarrow> Some (ace_mac (s_cache c ! i)))"

definition arp_init :: "arp_cache \<Rightarrow> arp_cache" where
  "arp_init c =
     (if arp_initialised c then c
      else \<lparr>s_cache = replicate MAX_CACHE_ENTRIES empty_arp_entry, s_next_replace = 0, arp_initialised = True\<rparr>)"

definition arp_lookup :: "arp_cache \<Rightarrow> ipv4_address \<Rightarrow> arp_cache \<times> mac_address option" where
  "arp_lookup c ip = (let c = (if \<not> arp_initialised c then arp_init c else c) in (c, cache_lookup_locked c ip))"

definition arp_insert :: "arp_cache \<Rightarrow> ipv4_address \<Rightarrow> mac_address \<Rightarrow> arp_cache" where
  "arp_insert c ip mac = (let c = (if \<not> arp_initialised c then arp_init c else c) in cache_insert_locked c ip mac)"

definition cache_entry_count :: "arp_cache \<Rightarrow> arp_cache \<times> nat" where
  "cache_entry_count c =
     (let c = (if \<not> arp_initialised c then arp_init c else c)
      in (c, fold (\<lambda>e count. if ace_valid e then count + 1 else count) (s_cache c) 0))"

fun nth_valid :: "arp_cache_entry list \<Rightarrow> nat \<Rightarrow> nat \<Rightarrow> (ipv4_address \<times> mac_address) option" where
  "nth_valid [] visible index = None"
| "nth_valid (e # es) visible index =
     (if \<not> ace_valid e then nth_valid es visible index
      else if visible = index then Some (ace_ip e, ace_mac e)
      else nth_valid es (visible + 1) index)"

definition cache_entry :: "arp_cache \<Rightarrow> nat \<Rightarrow> arp_cache \<times> (ipv4_address \<times> mac_address) option" where
  "cache_entry c index =
     (let c = (if \<not> arp_initialised c then arp_init c else c) in (c, nth_valid (s_cache c) 0 index))"

section \<open>The cache as a table of bindings\<close>

definition arp_ok :: "arp_cache \<Rightarrow> bool" where
  "arp_ok c \<longleftrightarrow> length (s_cache c) = MAX_CACHE_ENTRIES \<and> s_next_replace c < MAX_CACHE_ENTRIES \<and>
     (\<forall>i j. i < MAX_CACHE_ENTRIES \<longrightarrow> j < MAX_CACHE_ENTRIES \<longrightarrow> ace_valid (s_cache c ! i) \<longrightarrow> ace_valid (s_cache c ! j) \<longrightarrow>
        ace_ip (s_cache c ! i) = ace_ip (s_cache c ! j) \<longrightarrow> i = j)"

lemma arp_boot_ok: "arp_ok arp_boot"
  by (simp add: arp_ok_def arp_boot_def empty_arp_entry_def MAX_CACHE_ENTRIES_def)

lemma arp_init_ok: "arp_ok c \<Longrightarrow> arp_ok (arp_init c)"
  by (simp add: arp_ok_def arp_init_def empty_arp_entry_def MAX_CACHE_ENTRIES_def)

lemma cache_lookup_iff:
  assumes "arp_ok c"
  shows "cache_lookup_locked c ip = Some mac \<longleftrightarrow>
    (\<exists>i < MAX_CACHE_ENTRIES. ace_valid (s_cache c ! i) \<and> ace_ip (s_cache c ! i) = ip \<and> ace_mac (s_cache c ! i) = mac)"
proof
  assume "cache_lookup_locked c ip = Some mac"
  then obtain j where j: "first_index (\<lambda>e. ace_valid e \<and> ipv4_equal (ace_ip e) ip) (s_cache c) = Some j" "ace_mac (s_cache c ! j) = mac"
    by (auto simp: cache_lookup_locked_def split: option.splits)
  then show "\<exists>i < MAX_CACHE_ENTRIES. ace_valid (s_cache c ! i) \<and> ace_ip (s_cache c ! i) = ip \<and> ace_mac (s_cache c ! i) = mac"
    using assms first_index_SomeD [OF j(1)] by (auto simp: arp_ok_def)
next
  assume "\<exists>i < MAX_CACHE_ENTRIES. ace_valid (s_cache c ! i) \<and> ace_ip (s_cache c ! i) = ip \<and> ace_mac (s_cache c ! i) = mac"
  then obtain i where i: "i < MAX_CACHE_ENTRIES" "ace_valid (s_cache c ! i)" "ace_ip (s_cache c ! i) = ip" "ace_mac (s_cache c ! i) = mac"
    by blast
  have len: "length (s_cache c) = MAX_CACHE_ENTRIES" using assms by (simp add: arp_ok_def)
  have "first_index (\<lambda>e. ace_valid e \<and> ipv4_equal (ace_ip e) ip) (s_cache c) \<noteq> None"
    using i len by (auto simp: first_index_None)
  then obtain j where j: "first_index (\<lambda>e. ace_valid e \<and> ipv4_equal (ace_ip e) ip) (s_cache c) = Some j" by blast
  then have "j < MAX_CACHE_ENTRIES" "ace_valid (s_cache c ! j)" "ace_ip (s_cache c ! j) = ip" using first_index_SomeD [OF j] len by auto
  then have "j = i" using assms i by (auto simp: arp_ok_def)
  then show "cache_lookup_locked c ip = Some mac" using j i(4) by (simp add: cache_lookup_locked_def)
qed

text \<open>Writing a binding into slot \<open>i\<close>, when no other slot binds the same address.\<close>

lemma arp_store:
  fixes mac :: mac_address
  assumes ok: "arp_ok c" and i: "i < MAX_CACHE_ENTRIES"
    and other: "\<And>j. j < MAX_CACHE_ENTRIES \<Longrightarrow> j \<noteq> i \<Longrightarrow> ace_valid (s_cache c ! j) \<Longrightarrow> ace_ip (s_cache c ! j) \<noteq> ip"
    and n: "n < MAX_CACHE_ENTRIES"
  defines "c' \<equiv> c\<lparr>s_cache := (s_cache c)[i := \<lparr>ace_valid = True, ace_ip = ip, ace_mac = mac\<rparr>], s_next_replace := n\<rparr>"
  shows "arp_ok c'" "cache_lookup_locked c' ip = Some mac"
    "ip' \<noteq> ip \<Longrightarrow> cache_lookup_locked c' ip' =
       (if ace_valid (s_cache c ! i) \<and> ace_ip (s_cache c ! i) = ip' then None else cache_lookup_locked c ip')"
proof -
  have len: "length (s_cache c) = MAX_CACHE_ENTRIES" using ok by (simp add: arp_ok_def)
  have nth: "s_cache c' ! j = (if j = i then \<lparr>ace_valid = True, ace_ip = ip, ace_mac = mac\<rparr> else s_cache c ! j)"
    if "j < MAX_CACHE_ENTRIES" for j using that len by (simp add: c'_def nth_list_update)
  have uniq: "j = k" if "j < MAX_CACHE_ENTRIES" "k < MAX_CACHE_ENTRIES" "ace_valid (s_cache c ! j)" "ace_valid (s_cache c ! k)"
    "ace_ip (s_cache c ! j) = ace_ip (s_cache c ! k)" for j k using ok that by (simp add: arp_ok_def)
  have "j = k" if "j < MAX_CACHE_ENTRIES" "k < MAX_CACHE_ENTRIES" "ace_valid (s_cache c' ! j)" "ace_valid (s_cache c' ! k)"
    "ace_ip (s_cache c' ! j) = ace_ip (s_cache c' ! k)" for j k
    using that other [of j] other [of k] uniq [of j k] nth [of j] nth [of k] by (auto split: if_splits)
  then show ok': "arp_ok c'" using len n by (auto simp: arp_ok_def c'_def)
  show "cache_lookup_locked c' ip = Some mac" unfolding cache_lookup_iff [OF ok'] using i nth by auto
  assume ne: "ip' \<noteq> ip"
  have iff: "cache_lookup_locked c' ip' = Some m \<longleftrightarrow> \<not> (ace_valid (s_cache c ! i) \<and> ace_ip (s_cache c ! i) = ip') \<and>
      cache_lookup_locked c ip' = Some m" for m
  proof -
    have "cache_lookup_locked c' ip' = Some m \<longleftrightarrow> (\<exists>j < MAX_CACHE_ENTRIES. j \<noteq> i \<and> ace_valid (s_cache c ! j) \<and>
        ace_ip (s_cache c ! j) = ip' \<and> ace_mac (s_cache c ! j) = m)"
      unfolding cache_lookup_iff [OF ok'] using nth ne by (metis arp_cache_entry.select_convs(2))
    moreover have "cache_lookup_locked c ip' = Some m \<longleftrightarrow> (\<exists>j < MAX_CACHE_ENTRIES. ace_valid (s_cache c ! j) \<and>
        ace_ip (s_cache c ! j) = ip' \<and> ace_mac (s_cache c ! j) = m)" by (rule cache_lookup_iff [OF ok])
    ultimately show ?thesis using uniq i by blast
  qed
  show "cache_lookup_locked c' ip' =
      (if ace_valid (s_cache c ! i) \<and> ace_ip (s_cache c ! i) = ip' then None else cache_lookup_locked c ip')"
  proof (cases "cache_lookup_locked c' ip'")
    case None
    then show ?thesis using iff by (metis not_None_eq)
  next
    case (Some m)
    then have "\<not> (ace_valid (s_cache c ! i) \<and> ace_ip (s_cache c ! i) = ip') \<and> cache_lookup_locked c ip' = Some m" using iff by blast
    then show ?thesis using Some by simp
  qed
qed

definition arp_full :: "arp_cache \<Rightarrow> bool" where
  "arp_full c \<longleftrightarrow> (\<forall>e \<in> set (s_cache c). ace_valid e)"

lemma cache_insert_correct:
  fixes mac :: mac_address and ip :: ipv4_address
  assumes ok: "arp_ok c"
  defines "c' \<equiv> cache_insert_locked c ip mac"
  shows "arp_ok c'" "cache_lookup_locked c' ip = Some mac" "arp_initialised c' = arp_initialised c"
    "ip' \<noteq> ip \<Longrightarrow> cache_lookup_locked c' ip' = cache_lookup_locked c ip' \<or>
       arp_full c \<and> ace_ip (s_cache c ! s_next_replace c) = ip' \<and> cache_lookup_locked c' ip' = None"
proof -
  have len: "length (s_cache c) = MAX_CACHE_ENTRIES" and nr: "s_next_replace c < MAX_CACHE_ENTRIES"
    and uniq: "\<And>i j. i < MAX_CACHE_ENTRIES \<Longrightarrow> j < MAX_CACHE_ENTRIES \<Longrightarrow> ace_valid (s_cache c ! i) \<Longrightarrow> ace_valid (s_cache c ! j) \<Longrightarrow>
      ace_ip (s_cache c ! i) = ace_ip (s_cache c ! j) \<Longrightarrow> i = j" using ok by (auto simp: arp_ok_def)
  show "arp_initialised c' = arp_initialised c" by (simp add: c'_def cache_insert_locked_def split: option.split)
  have "\<exists>i n. i < MAX_CACHE_ENTRIES \<and> n < MAX_CACHE_ENTRIES \<and>
      (\<forall>j < MAX_CACHE_ENTRIES. j \<noteq> i \<longrightarrow> ace_valid (s_cache c ! j) \<longrightarrow> ace_ip (s_cache c ! j) \<noteq> ip) \<and>
      c' = c\<lparr>s_cache := (s_cache c)[i := \<lparr>ace_valid = True, ace_ip = ip, ace_mac = mac\<rparr>], s_next_replace := n\<rparr> \<and>
      (ace_valid (s_cache c ! i) \<longrightarrow> ace_ip (s_cache c ! i) = ip \<or> arp_full c \<and> i = s_next_replace c)"
  proof (cases "first_index (\<lambda>e. ace_valid e \<and> ipv4_equal (ace_ip e) ip) (s_cache c)")
    case (Some i)
    note I = first_index_SomeD [OF Some]
    have "(s_cache c ! i)\<lparr>ace_mac := mac\<rparr> = \<lparr>ace_valid = True, ace_ip = ip, ace_mac = mac\<rparr>" using I by simp
    then have "c' = c\<lparr>s_cache := (s_cache c)[i := \<lparr>ace_valid = True, ace_ip = ip, ace_mac = mac\<rparr>], s_next_replace := s_next_replace c\<rparr>"
      using Some by (simp add: c'_def cache_insert_locked_def)
    moreover have "ace_ip (s_cache c ! j) \<noteq> ip" if "j < MAX_CACHE_ENTRIES" "j \<noteq> i" "ace_valid (s_cache c ! j)" for j
      using uniq [of i j] that I len by auto
    ultimately show ?thesis using I len nr by (intro exI [of _ i] exI [of _ "s_next_replace c"]) simp
  next
    case None
    have nv: "ace_valid (s_cache c ! j) \<longrightarrow> ace_ip (s_cache c ! j) \<noteq> ip" if "j < MAX_CACHE_ENTRIES" for j
      using None that len by (auto simp: first_index_None)
    show ?thesis
    proof (cases "first_index (\<lambda>e. \<not> ace_valid e) (s_cache c)")
      case (Some i)
      note I = first_index_SomeD [OF Some]
      have "c' = c\<lparr>s_cache := (s_cache c)[i := \<lparr>ace_valid = True, ace_ip = ip, ace_mac = mac\<rparr>], s_next_replace := s_next_replace c\<rparr>"
        using None Some by (simp add: c'_def cache_insert_locked_def)
      then show ?thesis using I len nr nv by (intro exI [of _ i] exI [of _ "s_next_replace c"]) auto
    next
      case full: None
      then have "arp_full c" by (simp add: arp_full_def first_index_None)
      moreover have "c' = c\<lparr>s_cache := (s_cache c)[s_next_replace c := \<lparr>ace_valid = True, ace_ip = ip, ace_mac = mac\<rparr>],
          s_next_replace := (s_next_replace c + 1) mod MAX_CACHE_ENTRIES\<rparr>"
        using None full by (simp add: c'_def cache_insert_locked_def)
      moreover have "(s_next_replace c + 1) mod MAX_CACHE_ENTRIES < MAX_CACHE_ENTRIES" by (simp add: MAX_CACHE_ENTRIES_def)
      ultimately show ?thesis using nr nv
        by (intro exI [of _ "s_next_replace c"] exI [of _ "(s_next_replace c + 1) mod MAX_CACHE_ENTRIES"] conjI allI impI) simp_all
    qed
  qed
  then obtain i n where S: "i < MAX_CACHE_ENTRIES" "n < MAX_CACHE_ENTRIES"
      "\<And>j. j < MAX_CACHE_ENTRIES \<Longrightarrow> j \<noteq> i \<Longrightarrow> ace_valid (s_cache c ! j) \<Longrightarrow> ace_ip (s_cache c ! j) \<noteq> ip"
      "c' = c\<lparr>s_cache := (s_cache c)[i := \<lparr>ace_valid = True, ace_ip = ip, ace_mac = mac\<rparr>], s_next_replace := n\<rparr>"
      "ace_valid (s_cache c ! i) \<longrightarrow> ace_ip (s_cache c ! i) = ip \<or> arp_full c \<and> i = s_next_replace c" by blast
  note A = arp_store [OF ok S(1,3,2), where mac = mac, folded S(4)]
  show "arp_ok c'" "cache_lookup_locked c' ip = Some mac" using A(1,2) by auto
  show "ip' \<noteq> ip \<Longrightarrow> cache_lookup_locked c' ip' = cache_lookup_locked c ip' \<or>
       arp_full c \<and> ace_ip (s_cache c ! s_next_replace c) = ip' \<and> cache_lookup_locked c' ip' = None"
    using A(3) [of ip'] S(5) by (cases "ace_valid (s_cache c ! i) \<and> ace_ip (s_cache c ! i) = ip'") auto
qed

text \<open>The cache as the rest of the stack sees it: the binding of every address.\<close>

definition arp_look :: "arp_cache \<Rightarrow> ipv4_address \<Rightarrow> mac_address option" where
  "arp_look c ip = snd (arp_lookup c ip)"

lemma arp_look_boot: "arp_look arp_boot ip = None"
proof -
  have "first_index (\<lambda>e. ace_valid e \<and> ipv4_equal (ace_ip e) ip) (replicate MAX_CACHE_ENTRIES empty_arp_entry) = None"
    by (simp add: first_index_None empty_arp_entry_def)
  then show ?thesis by (simp add: arp_look_def arp_lookup_def Let_def arp_init_def arp_boot_def cache_lookup_locked_def)
qed

lemma arp_lookup_state: "arp_ok c \<Longrightarrow> arp_ok (fst (arp_lookup c ip)) \<and> arp_look (fst (arp_lookup c ip)) = arp_look c"
  using arp_init_ok [of c] by (cases "arp_initialised c") (auto simp: arp_lookup_def arp_look_def Let_def arp_init_def fun_eq_iff)

lemma arp_insert_look:
  assumes ok: "arp_ok c"
  shows "arp_ok (arp_insert c ip mac)" "arp_look (arp_insert c ip mac) ip = Some mac"
    "ip' \<noteq> ip \<Longrightarrow> arp_look (arp_insert c ip mac) ip' = arp_look c ip' \<or>
       arp_full c \<and> ace_ip (s_cache c ! s_next_replace c) = ip' \<and> arp_look (arp_insert c ip mac) ip' = None"
proof -
  define d where "d = (if \<not> arp_initialised c then arp_init c else c)"
  have d: "arp_ok d" "arp_initialised d" using arp_init_ok [OF ok] ok by (auto simp: d_def arp_init_def)
  have ins: "arp_insert c ip mac = cache_insert_locked d ip mac" by (simp add: arp_insert_def d_def Let_def)
  note I = cache_insert_correct [OF d(1), where ip = ip and mac = mac]
  have lk: "arp_look (arp_insert c ip mac) x = cache_lookup_locked (cache_insert_locked d ip mac) x" for x
    using I(3) d(2) by (simp add: arp_look_def arp_lookup_def ins Let_def)
  have ld: "arp_look c x = cache_lookup_locked d x" for x by (simp add: arp_look_def arp_lookup_def d_def Let_def)
  show "arp_ok (arp_insert c ip mac)" "arp_look (arp_insert c ip mac) ip = Some mac" using I lk ins by simp_all
  have nf: "\<not> arp_full d" if "\<not> arp_initialised c"
    using that by (simp add: d_def arp_init_def arp_full_def empty_arp_entry_def MAX_CACHE_ENTRIES_def)
  show "ip' \<noteq> ip \<Longrightarrow> arp_look (arp_insert c ip mac) ip' = arp_look c ip' \<or>
       arp_full c \<and> ace_ip (s_cache c ! s_next_replace c) = ip' \<and> arp_look (arp_insert c ip mac) ip' = None"
    using I(4) [of ip'] nf unfolding lk ld by (cases "arp_initialised c") (auto simp: d_def)
qed

interpretation arp: bindings arp_ok arp_look "\<lambda>c ip mac. (arp_insert c ip mac, True)"
proof unfold_locales
  fix c c' :: arp_cache and ip ip' :: ipv4_address and mac :: mac_address and ok
  assume a: "arp_ok c"
  show "(arp_insert c ip mac, True) = (c', ok) \<Longrightarrow> arp_ok c'" using arp_insert_look(1) [OF a] by auto
  show "(arp_insert c ip mac, True) = (c', True) \<Longrightarrow> arp_look c' ip = Some mac" using arp_insert_look(2) [OF a] by auto
  show "(arp_insert c ip mac, True) = (c', ok) \<Longrightarrow> ip' \<noteq> ip \<Longrightarrow> arp_look c' ip' = arp_look c ip' \<or> arp_look c' ip' = None"
    using arp_insert_look(3) [OF a, of ip' ip mac] by auto
qed auto

end
