(* ===== verification/Net.thy ===== *)
theory Net
  imports ArpCache KHeapSpec
begin

text \<open>
  The network device registry and the transmit queue of src/net/net.cpp. A \<open>net_device*\<close> is the
  index of its slot in \<open>s_devices\<close>, or null. The driver functions a device carries are parameters
  of the model: what a driver answers may depend on everything it was given before. \<open>net_sent\<close>
  records the frames handed to drivers, \<open>net_polls\<close> how often each was polled. A buffer taken from
  the kernel heap is its address together with the bytes written to it.
\<close>

record net_ops =
  send_packet_op :: "(u8 list list \<Rightarrow> u8 list \<Rightarrow> bool) option"
  poll_packet_op :: "(nat \<Rightarrow> nat \<Rightarrow> u8 list option) option"

record net_device =
  nd_name :: string
  nd_mac :: mac_address
  nd_mtu :: u16
  nd_link_up :: bool
  nd_ops :: "net_ops option"

record queued_packet =
  qp_dev :: "nat option"
  qp_buffer :: u64
  qp_length :: nat
  qp_bytes :: "u8 list"

record tx_ring =
  tx_queue :: "queued_packet list"
  tx_head :: nat
  tx_tail :: nat

record device_ipv4_config =
  cfg_dev :: "nat option"
  cfg_valid :: bool
  cfg_local_ip :: ipv4_address

record ipv4_configs =
  s_device_configs :: "device_ipv4_config list"
  s_configs_initialised :: bool

record net_state =
  net_km :: kmemory
  net_devices :: "net_device list"
  net_device_count :: nat
  net_initialised :: bool
  net_ring :: tx_ring
  net_tx_started :: bool
  net_rx_started :: bool
  net_arp :: arp_cache
  net_configs :: ipv4_configs
  net_next_id :: u16
  net_ticks :: u64
  net_sent :: "(nat \<times> u8 list) list"
  net_polls :: "nat \<Rightarrow> nat"

definition MAX_NET_DEVICES :: nat where "MAX_NET_DEVICES = 8"
definition NET_TX_QUEUE_CAPACITY :: nat where "NET_TX_QUEUE_CAPACITY = 64"
definition NET_RX_FRAME_BUFFER_BYTES :: nat where "NET_RX_FRAME_BUFFER_BYTES = 2048"

definition empty_device :: net_device where
  "empty_device = \<lparr>nd_name = [], nd_mac = Mac 0 0 0 0 0 0, nd_mtu = 0, nd_link_up = False, nd_ops = None\<rparr>"

definition empty_packet :: queued_packet where
  "empty_packet = \<lparr>qp_dev = None, qp_buffer = 0, qp_length = 0, qp_bytes = []\<rparr>"

definition ring_boot :: tx_ring where
  "ring_boot = \<lparr>tx_queue = replicate NET_TX_QUEUE_CAPACITY empty_packet, tx_head = 0, tx_tail = 0\<rparr>"

section \<open>Registry\<close>

definition net_init :: "net_state \<Rightarrow> net_state" where
  "net_init s =
     (if net_initialised s then s
      else s\<lparr>net_devices := replicate MAX_NET_DEVICES empty_device, net_device_count := 0, net_initialised := True\<rparr>)"

definition register_device :: "net_state \<Rightarrow> net_device \<Rightarrow> net_state \<times> int" where
  "register_device s dev =
     (let s = (if \<not> net_initialised s then net_init s else s) in
      if net_device_count s \<ge> MAX_NET_DEVICES then (s, -1)
      else if nd_name dev = [] then (s, -1)
      else
        let s = s\<lparr>net_devices := (net_devices s)[net_device_count s := dev]\<rparr>;
            s = s\<lparr>net_device_count := net_device_count s + 1\<rparr>
        in (s, int (net_device_count s) - 1))"

definition device_count :: "net_state \<Rightarrow> nat" where
  "device_count s = net_device_count s"

definition get_device :: "net_state \<Rightarrow> nat \<Rightarrow> nat option" where
  "get_device s index = (if index \<ge> net_device_count s then None else Some index)"

definition net_find :: "net_state \<Rightarrow> string \<Rightarrow> nat option" where
  "net_find s name = first_index (\<lambda>d. sv_compare (nd_name d) name) (take (net_device_count s) (net_devices s))"

fun primary_from :: "net_device list \<Rightarrow> nat \<Rightarrow> nat option \<Rightarrow> nat option" where
  "primary_from [] i first = first"
| "primary_from (d # ds) i first =
     (let first = (if first = None then Some i else first)
      in if nd_link_up d then Some i else primary_from ds (i + 1) first)"

definition primary_device :: "net_state \<Rightarrow> nat option" where
  "primary_device s = primary_from (take (net_device_count s) (net_devices s)) 0 None"

abbreviation device :: "net_state \<Rightarrow> nat \<Rightarrow> net_device" where
  "device s d \<equiv> net_devices s ! d"

section \<open>Transmission\<close>

definition send_packet :: "net_state \<Rightarrow> nat option \<Rightarrow> u8 list \<Rightarrow> net_state \<times> bool" where
  "send_packet s dev packet =
     (case dev of
        None \<Rightarrow> (s, False)
      | Some d \<Rightarrow>
          if packet = [] then (s, False)
          else
            (case nd_ops (device s d) of
               None \<Rightarrow> (s, False)
             | Some ops \<Rightarrow>
                 (case send_packet_op ops of
                    None \<Rightarrow> (s, False)
                  | Some send \<Rightarrow>
                      (s\<lparr>net_sent := net_sent s @ [(d, packet)]\<rparr>,
                       send (map snd (filter (\<lambda>p. fst p = d) (net_sent s))) packet))))"

definition net_send_default :: "net_state \<Rightarrow> u8 list \<Rightarrow> net_state \<times> bool" where
  "net_send_default s packet =
     (case primary_device s of None \<Rightarrow> (s, False) | Some d \<Rightarrow> send_packet s (Some d) packet)"

definition tx_queue_empty :: "tx_ring \<Rightarrow> bool" where
  "tx_queue_empty r \<longleftrightarrow> tx_head r = tx_tail r"

definition tx_queue_full :: "tx_ring \<Rightarrow> bool" where
  "tx_queue_full r \<longleftrightarrow> (tx_head r + 1) mod NET_TX_QUEUE_CAPACITY = tx_tail r"

text \<open>The two critical sections of the ring: the end of \<open>queue_packet\<close> and the start of a worker iteration.\<close>

definition tx_push :: "tx_ring \<Rightarrow> queued_packet \<Rightarrow> tx_ring \<times> bool" where
  "tx_push r p =
     (if tx_queue_full r then (r, False)
      else (r\<lparr>tx_queue := (tx_queue r)[tx_head r := p], tx_head := (tx_head r + 1) mod NET_TX_QUEUE_CAPACITY\<rparr>, True))"

definition tx_pop :: "tx_ring \<Rightarrow> tx_ring \<times> queued_packet" where
  "tx_pop r =
     (if \<not> tx_queue_empty r
      then (r\<lparr>tx_queue := (tx_queue r)[tx_tail r := empty_packet], tx_tail := (tx_tail r + 1) mod NET_TX_QUEUE_CAPACITY\<rparr>,
            tx_queue r ! tx_tail r)
      else (r, empty_packet))"

definition queue_packet :: "net_state \<Rightarrow> nat option \<Rightarrow> u8 list \<Rightarrow> (net_state \<times> bool) option" where
  "queue_packet s dev packet =
     (if dev = None \<or> packet = [] then Some (s, False)
      else if \<not> net_tx_started s then Some (send_packet s dev packet)
      else do {
        (km, buffer) \<leftarrow> kh_allocate (net_km s) (word_of_nat (length packet));
        let s = s\<lparr>net_km := km\<rparr>;
        if buffer = 0 then Some (s, False)
        else
          let (ring, ok) = tx_push (net_ring s) \<lparr>qp_dev = dev, qp_buffer = buffer, qp_length = length packet, qp_bytes = packet\<rparr> in
          if \<not> ok then Some (s\<lparr>net_km := kh_free (net_km s) buffer\<rparr>, False)
          else Some (s\<lparr>net_ring := ring\<rparr>, True)
      })"

definition queue_default :: "net_state \<Rightarrow> u8 list \<Rightarrow> (net_state \<times> bool) option" where
  "queue_default s packet =
     (case primary_device s of None \<Rightarrow> Some (s, False) | Some d \<Rightarrow> queue_packet s (Some d) packet)"

text \<open>One iteration of \<open>background_tx_task\<close>; the flag tells whether it sent a packet (otherwise it sleeps).\<close>

definition tx_step :: "net_state \<Rightarrow> net_state \<times> bool" where
  "tx_step s =
     (let (ring, e) = tx_pop (net_ring s);
          s = s\<lparr>net_ring := ring\<rparr> in
      if qp_buffer e = 0 then (s, False)
      else
        let (s, ok) = send_packet s (qp_dev e) (qp_bytes e)
        in (s\<lparr>net_km := kh_free (net_km s) (qp_buffer e)\<rparr>, True))"

definition poll_packet :: "net_state \<Rightarrow> nat option \<Rightarrow> nat \<Rightarrow> net_state \<times> u8 list option" where
  "poll_packet s dev packet_capacity =
     (case dev of
        None \<Rightarrow> (s, None)
      | Some d \<Rightarrow>
          if packet_capacity = 0 then (s, None)
          else
            (case nd_ops (device s d) of
               None \<Rightarrow> (s, None)
             | Some ops \<Rightarrow>
                 (case poll_packet_op ops of
                    None \<Rightarrow> (s, None)
                  | Some poll \<Rightarrow> (s\<lparr>net_polls := (net_polls s)(d := net_polls s d + 1)\<rparr>, poll (net_polls s d) packet_capacity))))"

text \<open>\<open>start_background_worker\<close>, given the ids \<open>create_task\<close> returns.\<close>

definition start_background_worker :: "net_state \<Rightarrow> int \<Rightarrow> int \<Rightarrow> net_state \<times> bool" where
  "start_background_worker s tx_task_id rx_task_id =
     (if device_count s = 0 then (s, False)
      else if \<not> net_tx_started s \<and> tx_task_id < 0 then (s, False)
      else
        let s = s\<lparr>net_tx_started := True\<rparr> in
        if \<not> net_rx_started s \<and> rx_task_id < 0 then (s, False)
        else
          let s = s\<lparr>net_rx_started := True\<rparr>
          in (s, net_rx_started s \<and> net_tx_started s))"

definition background_rx_running :: "net_state \<Rightarrow> bool" where
  "background_rx_running s = net_rx_started s"

end
