(* ===== verification/NetProto.thy ===== *)
theory NetProto
  imports Net
begin

text \<open>
  The protocols: frame construction (src/net/net_packet.cpp), ARP requests, replies and the
  blocking resolver (src/net/arp.cpp), IPv4 (src/net/ipv4.cpp), ICMP echo (src/net/icmp.cpp) and
  the receive side of src/net/net.cpp. A packet argument is the list of its bytes, which carries
  its length. \<open>sleep\<close>, the effect of \<open>sched::sleep(1)\<close> on the network state (the other tasks run
  and the tick counter moves), is a parameter of the functions that block.
\<close>

datatype ether_type = ether_ipv4 | ether_arp
datatype arp_operation = arp_request | arp_reply
datatype ip_protocol_no = proto_icmp | proto_tcp | proto_udp
datatype icmp_message = echo_reply | echo_request

primrec ether_type_value :: "ether_type \<Rightarrow> u16" where
  "ether_type_value ether_ipv4 = 0x0800"
| "ether_type_value ether_arp = 0x0806"

primrec arp_operation_value :: "arp_operation \<Rightarrow> u16" where
  "arp_operation_value arp_request = 1"
| "arp_operation_value arp_reply = 2"

primrec protocol_value :: "ip_protocol_no \<Rightarrow> u8" where
  "protocol_value proto_icmp = 1"
| "protocol_value proto_tcp = 6"
| "protocol_value proto_udp = 17"

primrec icmp_message_value :: "icmp_message \<Rightarrow> u8" where
  "icmp_message_value echo_reply = 0"
| "icmp_message_value echo_request = 8"

definition ETHERNET_MIN_FRAME_BYTES :: nat where "ETHERNET_MIN_FRAME_BYTES = 60"
definition ARP_ETHERNET_HTYPE :: u16 where "ARP_ETHERNET_HTYPE = 1"
definition ARP_HLEN_ETHERNET :: u8 where "ARP_HLEN_ETHERNET = 6"
definition ARP_PLEN_IPV4 :: u8 where "ARP_PLEN_IPV4 = 4"
definition ARP_RESOLVE_TIMEOUT_TICKS :: u64 where "ARP_RESOLVE_TIMEOUT_TICKS = 50"
definition IPV4_VERSION :: u8 where "IPV4_VERSION = 4"
definition IPV4_IHL_WORDS :: u8 where "IPV4_IHL_WORDS = 5"
definition IPV4_FLAG_DF :: u16 where "IPV4_FLAG_DF = 0x4000"
definition IPV4_MAX_HEADER_BYTES :: nat where "IPV4_MAX_HEADER_BYTES = 60"

section \<open>Frames\<close>

text \<open>The frame \<open>transmit_ethernet\<close> builds: header, payload, zero padding to the minimum length.\<close>

definition ethernet_frame :: "mac_address \<Rightarrow> mac_address \<Rightarrow> ether_type \<Rightarrow> u8 list \<Rightarrow> u8 list" where
  "ethernet_frame dst src etype payload =
     (let unpadded_frame_length = ETHERNET_HEADER_BYTES + length payload;
          frame_length = (if unpadded_frame_length < ETHERNET_MIN_FRAME_BYTES then ETHERNET_MIN_FRAME_BYTES else unpadded_frame_length)
      in ethernet_bytes \<lparr>eth_dst = dst, eth_src = src, ether_type_be = bswap16 (ether_type_value etype)\<rparr> @ payload @
         replicate (frame_length - unpadded_frame_length) 0)"

definition transmit_ethernet :: "net_state \<Rightarrow> nat option \<Rightarrow> mac_address \<Rightarrow> ether_type \<Rightarrow> u8 list \<Rightarrow> bool \<Rightarrow> (net_state \<times> bool) option" where
  "transmit_ethernet s dev dst etype payload queued =
     (case dev of
        None \<Rightarrow> Some (s, False)
      | Some d \<Rightarrow>
          if length payload > unat (nd_mtu (device s d)) then Some (s, False)
          else do {
            let bytes = ethernet_frame dst (nd_mac (device s d)) etype payload;
            (km, frame) \<leftarrow> kh_allocate (net_km s) (word_of_nat (length bytes));
            let s = s\<lparr>net_km := km\<rparr>;
            if frame = 0 then Some (s, False)
            else do {
              (s, ok) \<leftarrow> (if queued then queue_packet s dev bytes else Some (send_packet s dev bytes));
              Some (s\<lparr>net_km := kh_free (net_km s) frame\<rparr>, ok)
            }
          })"

definition arp_message :: "net_state \<Rightarrow> nat \<Rightarrow> arp_operation \<Rightarrow> mac_address \<Rightarrow> ipv4_address \<Rightarrow> ipv4_address \<Rightarrow> arp_ethernet_ipv4_packet" where
  "arp_message s d op t_mac s_ip t_ip =
     \<lparr>hardware_type_be = bswap16 ARP_ETHERNET_HTYPE, protocol_type_be = bswap16 (ether_type_value ether_ipv4),
      hardware_len = ARP_HLEN_ETHERNET, protocol_len = ARP_PLEN_IPV4, operation_be = bswap16 (arp_operation_value op),
      sender_mac = nd_mac (device s d), sender_ip = s_ip, target_mac = t_mac, target_ip = t_ip\<rparr>"

definition send_arp_impl :: "net_state \<Rightarrow> nat option \<Rightarrow> arp_operation \<Rightarrow> mac_address \<Rightarrow> ipv4_address \<Rightarrow> ipv4_address \<Rightarrow> bool \<Rightarrow> (net_state \<times> bool) option" where
  "send_arp_impl s dev op t_mac s_ip t_ip queued =
     (case dev of
        None \<Rightarrow> Some (s, False)
      | Some d \<Rightarrow>
          let packet = arp_message s d op t_mac s_ip t_ip;
              eth_dst = (if op = arp_request then broadcast_mac else t_mac)
          in transmit_ethernet s dev eth_dst ether_arp (arp_bytes packet) queued)"

definition send_ethernet :: "net_state \<Rightarrow> nat option \<Rightarrow> mac_address \<Rightarrow> ether_type \<Rightarrow> u8 list \<Rightarrow> (net_state \<times> bool) option" where
  "send_ethernet s dev dst etype payload = transmit_ethernet s dev dst etype payload False"

definition send_ethernet_default :: "net_state \<Rightarrow> mac_address \<Rightarrow> ether_type \<Rightarrow> u8 list \<Rightarrow> (net_state \<times> bool) option" where
  "send_ethernet_default s dst etype payload =
     (case primary_device s of None \<Rightarrow> Some (s, False) | Some d \<Rightarrow> send_ethernet s (Some d) dst etype payload)"

definition queue_ethernet :: "net_state \<Rightarrow> nat option \<Rightarrow> mac_address \<Rightarrow> ether_type \<Rightarrow> u8 list \<Rightarrow> (net_state \<times> bool) option" where
  "queue_ethernet s dev dst etype payload = transmit_ethernet s dev dst etype payload True"

definition queue_ethernet_default :: "net_state \<Rightarrow> mac_address \<Rightarrow> ether_type \<Rightarrow> u8 list \<Rightarrow> (net_state \<times> bool) option" where
  "queue_ethernet_default s dst etype payload =
     (case primary_device s of None \<Rightarrow> Some (s, False) | Some d \<Rightarrow> queue_ethernet s (Some d) dst etype payload)"

definition send_arp :: "net_state \<Rightarrow> nat option \<Rightarrow> arp_operation \<Rightarrow> mac_address \<Rightarrow> ipv4_address \<Rightarrow> ipv4_address \<Rightarrow> (net_state \<times> bool) option" where
  "send_arp s dev op t_mac s_ip t_ip = send_arp_impl s dev op t_mac s_ip t_ip False"

definition send_arp_request :: "net_state \<Rightarrow> nat option \<Rightarrow> ipv4_address \<Rightarrow> ipv4_address \<Rightarrow> (net_state \<times> bool) option" where
  "send_arp_request s dev s_ip t_ip = send_arp s dev arp_request zero_mac s_ip t_ip"

definition send_arp_reply :: "net_state \<Rightarrow> nat option \<Rightarrow> mac_address \<Rightarrow> ipv4_address \<Rightarrow> ipv4_address \<Rightarrow> (net_state \<times> bool) option" where
  "send_arp_reply s dev t_mac s_ip t_ip = send_arp s dev arp_reply t_mac s_ip t_ip"

definition queue_arp_reply :: "net_state \<Rightarrow> nat option \<Rightarrow> mac_address \<Rightarrow> ipv4_address \<Rightarrow> ipv4_address \<Rightarrow> (net_state \<times> bool) option" where
  "queue_arp_reply s dev t_mac s_ip t_ip = send_arp_impl s dev arp_reply t_mac s_ip t_ip True"

section \<open>IPv4 configuration\<close>

definition MAX_IPV4_DEVICE_CONFIGS :: nat where "MAX_IPV4_DEVICE_CONFIGS = MAX_NET_DEVICES"

definition empty_config :: device_ipv4_config where
  "empty_config = \<lparr>cfg_dev = None, cfg_valid = False, cfg_local_ip = Ipv4 0 0 0 0\<rparr>"

definition next_identification :: "net_state \<Rightarrow> net_state \<times> u16" where
  "next_identification s =
     (let ident = net_next_id s;
          s = s\<lparr>net_next_id := net_next_id s + 1\<rparr>
      in (if net_next_id s = 0 then s\<lparr>net_next_id := 1\<rparr> else s, ident))"

definition init_configs :: "ipv4_configs \<Rightarrow> ipv4_configs" where
  "init_configs c =
     (if s_configs_initialised c then c
      else \<lparr>s_device_configs = replicate MAX_IPV4_DEVICE_CONFIGS empty_config, s_configs_initialised = True\<rparr>)"

definition configured_address_locked :: "ipv4_configs \<Rightarrow> nat option \<Rightarrow> ipv4_address option" where
  "configured_address_locked c dev =
     (if dev = None then None
      else
        case first_index (\<lambda>e. cfg_valid e \<and> cfg_dev e = dev) (s_device_configs c) of
          None \<Rightarrow> None
        | Some i \<Rightarrow> Some (cfg_local_ip (s_device_configs c ! i)))"

definition configured_address :: "ipv4_configs \<Rightarrow> nat option \<Rightarrow> ipv4_configs \<times> ipv4_address option" where
  "configured_address c dev = (let c = init_configs c in (c, configured_address_locked c dev))"

definition configure_device :: "ipv4_configs \<Rightarrow> nat option \<Rightarrow> ipv4_address \<Rightarrow> ipv4_configs \<times> bool" where
  "configure_device c dev local_ip =
     (if dev = None then (c, False)
      else
        let c = init_configs c in
        case first_index (\<lambda>e. cfg_valid e \<and> cfg_dev e = dev) (s_device_configs c) of
          Some i \<Rightarrow> (c\<lparr>s_device_configs := (s_device_configs c)[i := (s_device_configs c ! i)\<lparr>cfg_local_ip := local_ip\<rparr>]\<rparr>, True)
        | None \<Rightarrow>
            (case first_index (\<lambda>e. \<not> cfg_valid e) (s_device_configs c) of
               Some i \<Rightarrow> (c\<lparr>s_device_configs := (s_device_configs c)[i := \<lparr>cfg_dev = dev, cfg_valid = True, cfg_local_ip = local_ip\<rparr>]\<rparr>, True)
             | None \<Rightarrow> (c, False)))"

definition configure_default :: "net_state \<Rightarrow> ipv4_address \<Rightarrow> net_state \<times> bool" where
  "configure_default s local_ip =
     (case primary_device s of
        None \<Rightarrow> (s, False)
      | Some d \<Rightarrow> let (c, ok) = configure_device (net_configs s) (Some d) local_ip in (s\<lparr>net_configs := c\<rparr>, ok))"

definition owns_address :: "ipv4_configs \<Rightarrow> nat option \<Rightarrow> ipv4_address \<Rightarrow> ipv4_configs \<times> bool" where
  "owns_address c dev ip =
     (let (c, local_ip) = configured_address c dev
      in (c, case local_ip of None \<Rightarrow> False | Some a \<Rightarrow> ipv4_equal a ip))"

section \<open>ARP\<close>

record parsed_arp_frame =
  pf_sender_ip :: ipv4_address
  pf_sender_mac :: mac_address
  pf_target_ip :: ipv4_address
  pf_operation :: u16

definition parse_arp_frame :: "u8 list \<Rightarrow> parsed_arp_frame option" where
  "parse_arp_frame frame =
     (if length frame < ETHERNET_HEADER_BYTES + ARP_ETHERNET_IPV4_BYTES then None
      else if bswap16 (ether_type_be (ethernet_at frame 0)) \<noteq> ether_type_value ether_arp then None
      else
        let arp = arp_at frame ETHERNET_HEADER_BYTES in
        if bswap16 (hardware_type_be arp) \<noteq> ARP_ETHERNET_HTYPE \<or> bswap16 (protocol_type_be arp) \<noteq> ether_type_value ether_ipv4 \<or>
           hardware_len arp \<noteq> ARP_HLEN_ETHERNET \<or> protocol_len arp \<noteq> ARP_PLEN_IPV4
        then None
        else Some \<lparr>pf_sender_ip = sender_ip arp, pf_sender_mac = sender_mac arp, pf_target_ip = target_ip arp,
                   pf_operation = bswap16 (operation_be arp)\<rparr>)"

definition arp_observe_frame :: "net_state \<Rightarrow> nat option \<Rightarrow> u8 list \<Rightarrow> (net_state \<times> bool) option" where
  "arp_observe_frame s dev frame =
     (let s = (if \<not> arp_initialised (net_arp s) then s\<lparr>net_arp := arp_init (net_arp s)\<rparr> else s) in
      case parse_arp_frame frame of
        None \<Rightarrow> Some (s, False)
      | Some parsed \<Rightarrow>
          let s = s\<lparr>net_arp := arp_insert (net_arp s) (pf_sender_ip parsed) (pf_sender_mac parsed)\<rparr> in
          if dev \<noteq> None \<and> pf_operation parsed = arp_operation_value arp_request then
            let (c, mine) = owns_address (net_configs s) dev (pf_target_ip parsed);
                s = s\<lparr>net_configs := c\<rparr> in
            if mine then
              do {
                (s, ok) \<leftarrow> queue_arp_reply s dev (pf_sender_mac parsed) (pf_target_ip parsed) (pf_sender_ip parsed);
                Some (s, True)
              }
            else Some (s, True)
          else Some (s, True))"

definition net_lookup :: "net_state \<Rightarrow> ipv4_address \<Rightarrow> net_state \<times> mac_address option" where
  "net_lookup s ip = (let (c, m) = arp_lookup (net_arp s) ip in (s\<lparr>net_arp := c\<rparr>, m))"

partial_function (option) resolve_wait ::
  "(net_state \<Rightarrow> net_state) \<Rightarrow> net_state \<Rightarrow> u64 \<Rightarrow> ipv4_address \<Rightarrow> (net_state \<times> mac_address option) option" where
  "resolve_wait sleep s start_tick ip =
     (if net_ticks s - start_tick < ARP_RESOLVE_TIMEOUT_TICKS then
        (case net_lookup s ip of
           (s, Some mac) \<Rightarrow> Some (s, Some mac)
         | (s, None) \<Rightarrow> resolve_wait sleep (sleep s) start_tick ip)
      else Some (s, None))"

declare resolve_wait.simps [code]

definition arp_resolve ::
  "(net_state \<Rightarrow> net_state) \<Rightarrow> net_state \<Rightarrow> nat option \<Rightarrow> ipv4_address \<Rightarrow> ipv4_address \<Rightarrow> (net_state \<times> mac_address option) option" where
  "arp_resolve sleep s dev s_ip t_ip =
     (if dev = None then Some (s, None)
      else
        (case net_lookup s t_ip of
           (s, Some mac) \<Rightarrow> Some (s, Some mac)
         | (s, None) \<Rightarrow>
             do {
               (s, ok) \<leftarrow> send_arp_request s dev s_ip t_ip;
               if \<not> ok then Some (s, None) else resolve_wait sleep s (net_ticks s) t_ip
             }))"

definition resolve_default ::
  "(net_state \<Rightarrow> net_state) \<Rightarrow> net_state \<Rightarrow> ipv4_address \<Rightarrow> ipv4_address \<Rightarrow> (net_state \<times> mac_address option) option" where
  "resolve_default sleep s s_ip t_ip =
     (case primary_device s of None \<Rightarrow> Some (s, None) | Some d \<Rightarrow> arp_resolve sleep s (Some d) s_ip t_ip)"

section \<open>IPv4 transmission\<close>

record send_params =
  sp_src_ip :: ipv4_address
  sp_dst_ip :: ipv4_address
  sp_proto :: ip_protocol_no
  sp_ttl :: u8

text \<open>The header \<open>send_impl\<close> fills in, with its checksum field.\<close>

definition ipv4_header_without_checksum :: "send_params \<Rightarrow> ipv4_address \<Rightarrow> u16 \<Rightarrow> u16 \<Rightarrow> ipv4_header" where
  "ipv4_header_without_checksum params src total_length ident =
     \<lparr>version_ihl = push_bit 4 IPV4_VERSION OR IPV4_IHL_WORDS, dscp_ecn = 0, total_length_be = bswap16 total_length,
      identification_be = bswap16 ident, flags_fragment_be = bswap16 IPV4_FLAG_DF, ttl = sp_ttl params,
      ip_protocol = protocol_value (sp_proto params), header_checksum_be = 0, src_ip = src, dst_ip = sp_dst_ip params\<rparr>"

definition ipv4_fill_checksum :: "ipv4_header \<Rightarrow> ipv4_header" where
  "ipv4_fill_checksum h = h\<lparr>header_checksum_be := bswap16 (internet_checksum (ipv4_header_bytes h))\<rparr>"

definition ipv4_send_impl ::
  "(net_state \<Rightarrow> net_state) \<Rightarrow> net_state \<Rightarrow> nat option \<Rightarrow> send_params \<Rightarrow> u8 list \<Rightarrow> bool \<Rightarrow> (net_state \<times> bool) option" where
  "ipv4_send_impl sleep s dev params payload queued =
     (case dev of
        None \<Rightarrow> Some (s, False)
      | Some d \<Rightarrow>
          if IPV4_HEADER_BYTES + length payload > unat (nd_mtu (device s d)) then Some (s, False)
          else do {
            let total_length = (word_of_nat (IPV4_HEADER_BYTES + length payload) :: u16);
            (km, packet_buf) \<leftarrow> kh_allocate (net_km s) (ucast total_length);
            let s = s\<lparr>net_km := km\<rparr>;
            if packet_buf = 0 then Some (s, False)
            else do {
              let (s, src) = (if ipv4_equal (sp_src_ip params) zero_ipv4
                              then (let (c, a) = configured_address (net_configs s) dev in (s\<lparr>net_configs := c\<rparr>, a))
                              else (s, Some (sp_src_ip params)));
              (case src of
                 None \<Rightarrow> Some (s\<lparr>net_km := kh_free (net_km s) packet_buf\<rparr>, False)
               | Some src \<Rightarrow>
                   do {
                     (s, dst_mac) \<leftarrow> arp_resolve sleep s dev src (sp_dst_ip params);
                     (case dst_mac of
                        None \<Rightarrow> Some (s\<lparr>net_km := kh_free (net_km s) packet_buf\<rparr>, False)
                      | Some mac \<Rightarrow>
                          do {
                            let (s, ident) = next_identification s;
                            let header = ipv4_fill_checksum (ipv4_header_without_checksum params src total_length ident);
                            let packet = ipv4_header_bytes header @ payload;
                            (s, ok) \<leftarrow> (if queued then queue_ethernet s dev mac ether_ipv4 packet
                                         else send_ethernet s dev mac ether_ipv4 packet);
                            Some (s\<lparr>net_km := kh_free (net_km s) packet_buf\<rparr>, ok)
                          })
                   })
            }
          })"

definition ipv4_send :: "(net_state \<Rightarrow> net_state) \<Rightarrow> net_state \<Rightarrow> nat option \<Rightarrow> send_params \<Rightarrow> u8 list \<Rightarrow> (net_state \<times> bool) option" where
  "ipv4_send sleep s dev params payload = ipv4_send_impl sleep s dev params payload False"

definition ipv4_send_default :: "(net_state \<Rightarrow> net_state) \<Rightarrow> net_state \<Rightarrow> send_params \<Rightarrow> u8 list \<Rightarrow> (net_state \<times> bool) option" where
  "ipv4_send_default sleep s params payload =
     (case primary_device s of None \<Rightarrow> Some (s, False) | Some d \<Rightarrow> ipv4_send sleep s (Some d) params payload)"

definition queue_send :: "(net_state \<Rightarrow> net_state) \<Rightarrow> net_state \<Rightarrow> nat option \<Rightarrow> send_params \<Rightarrow> u8 list \<Rightarrow> (net_state \<times> bool) option" where
  "queue_send sleep s dev params payload = ipv4_send_impl sleep s dev params payload True"

definition queue_send_default :: "(net_state \<Rightarrow> net_state) \<Rightarrow> net_state \<Rightarrow> send_params \<Rightarrow> u8 list \<Rightarrow> (net_state \<times> bool) option" where
  "queue_send_default sleep s params payload =
     (case primary_device s of None \<Rightarrow> Some (s, False) | Some d \<Rightarrow> queue_send sleep s (Some d) params payload)"

section \<open>ICMP\<close>

definition icmp_echo_packet :: "icmp_message \<Rightarrow> u16 \<Rightarrow> u16 \<Rightarrow> u16 \<Rightarrow> u8 list \<Rightarrow> u8 list" where
  "icmp_echo_packet msg checksum_be identifier sequence payload =
     icmp_echo_bytes \<lparr>icmp_type = icmp_message_value msg, icmp_code = 0, icmp_checksum_be = checksum_be,
       identifier_be = bswap16 identifier, sequence_be = bswap16 sequence\<rparr> @ payload"

text \<open>
  \<open>packet_length\<close> is computed in 16 bits. When it wraps, the copy of the payload runs past the
  allocated buffer, which is outside the model: the result is \<open>None\<close>.
\<close>

definition send_echo ::
  "(net_state \<Rightarrow> net_state) \<Rightarrow> net_state \<Rightarrow> nat option \<Rightarrow> icmp_message \<Rightarrow> ipv4_address \<Rightarrow> ipv4_address \<Rightarrow> u16 \<Rightarrow> u16 \<Rightarrow>
   u8 list \<Rightarrow> bool \<Rightarrow> (net_state \<times> bool) option" where
  "send_echo sleep s dev msg src dst identifier sequence payload queued =
     (if dev = None then Some (s, False)
      else do {
        let packet_length = (word_of_nat (ICMP_ECHO_HEADER_BYTES + length payload) :: u16);
        (km, packet) \<leftarrow> kh_allocate (net_km s) (ucast packet_length);
        let s = s\<lparr>net_km := km\<rparr>;
        if packet = 0 then Some (s, False)
        else if unat packet_length < ICMP_ECHO_HEADER_BYTES + length payload then None
        else do {
          let checksum_be = bswap16 (internet_checksum (icmp_echo_packet msg 0 identifier sequence payload));
          let params = \<lparr>sp_src_ip = src, sp_dst_ip = dst, sp_proto = proto_icmp, sp_ttl = 64\<rparr>;
          let bytes = icmp_echo_packet msg checksum_be identifier sequence payload;
          (s, ok) \<leftarrow> (if queued then queue_send sleep s dev params bytes else ipv4_send sleep s dev params bytes);
          Some (s\<lparr>net_km := kh_free (net_km s) packet\<rparr>, ok)
        }
      })"

definition send_echo_request ::
  "(net_state \<Rightarrow> net_state) \<Rightarrow> net_state \<Rightarrow> nat option \<Rightarrow> ipv4_address \<Rightarrow> u16 \<Rightarrow> u16 \<Rightarrow> u8 list \<Rightarrow> (net_state \<times> bool) option" where
  "send_echo_request sleep s dev dst identifier sequence payload =
     send_echo sleep s dev echo_request zero_ipv4 dst identifier sequence payload False"

definition send_echo_request_default ::
  "(net_state \<Rightarrow> net_state) \<Rightarrow> net_state \<Rightarrow> ipv4_address \<Rightarrow> u16 \<Rightarrow> u16 \<Rightarrow> u8 list \<Rightarrow> (net_state \<times> bool) option" where
  "send_echo_request_default sleep s dst identifier sequence payload =
     (case primary_device s of None \<Rightarrow> Some (s, False) | Some d \<Rightarrow> send_echo_request sleep s (Some d) dst identifier sequence payload)"

definition icmp_observe_packet ::
  "(net_state \<Rightarrow> net_state) \<Rightarrow> net_state \<Rightarrow> nat option \<Rightarrow> ipv4_address \<Rightarrow> ipv4_address \<Rightarrow> u8 list \<Rightarrow> (net_state \<times> bool) option" where
  "icmp_observe_packet sleep s dev src dst packet =
     (if dev = None \<or> length packet < ICMP_HEADER_BYTES then Some (s, False)
      else
        let header = icmp_header_at packet 0 in
        if internet_checksum packet \<noteq> 0 then Some (s, True)
        else if icmp_type header = icmp_message_value echo_request then
          (if icmp_code header \<noteq> 0 \<or> length packet < ICMP_ECHO_HEADER_BYTES then Some (s, True)
           else
             let echo = icmp_echo_at packet 0 in
             do {
               (s, ok) \<leftarrow> send_echo sleep s dev echo_reply dst src (bswap16 (identifier_be echo)) (bswap16 (sequence_be echo))
                            (drop ICMP_ECHO_HEADER_BYTES packet) True;
               Some (s, True)
             })
        else Some (s, True))"

section \<open>Reception\<close>

text \<open>The checks of \<open>ipv4::observe_frame\<close> up to the header's destination, as one predicate.\<close>

definition ipv4_frame_accepted :: "u8 list \<Rightarrow> bool" where
  "ipv4_frame_accepted frame \<longleftrightarrow>
     ETHERNET_HEADER_BYTES + IPV4_HEADER_BYTES \<le> length frame \<and>
     bswap16 (ether_type_be (ethernet_at frame 0)) = ether_type_value ether_ipv4 \<and>
     (let header = ipv4_header_at frame ETHERNET_HEADER_BYTES;
          ihl_words = version_ihl header AND 0x0F;
          header_bytes = unat ihl_words * 4;
          total_length = unat (bswap16 (total_length_be header)) in
      drop_bit 4 (version_ihl header) = IPV4_VERSION \<and> IPV4_IHL_WORDS \<le> ihl_words \<and> header_bytes \<le> IPV4_MAX_HEADER_BYTES \<and>
      ETHERNET_HEADER_BYTES + header_bytes \<le> length frame \<and> header_bytes \<le> total_length \<and>
      ETHERNET_HEADER_BYTES + total_length \<le> length frame)"

definition ipv4_observe_frame ::
  "(net_state \<Rightarrow> net_state) \<Rightarrow> net_state \<Rightarrow> nat option \<Rightarrow> u8 list \<Rightarrow> (net_state \<times> bool) option" where
  "ipv4_observe_frame sleep s dev frame =
     (if dev = None \<or> \<not> ipv4_frame_accepted frame then Some (s, False)
      else
        let eth = ethernet_at frame 0;
            header = ipv4_header_at frame ETHERNET_HEADER_BYTES;
            header_bytes = unat (version_ihl header AND 0x0F) * 4;
            total_length = unat (bswap16 (total_length_be header));
            (c, local_ip) = configured_address (net_configs s) dev;
            s = s\<lparr>net_configs := c\<rparr> in
        if local_ip \<noteq> Some (dst_ip header) then Some (s, False)
        else
          let header_checksum = bswap16 (header_checksum_be header);
              header_copy = take header_bytes (drop ETHERNET_HEADER_BYTES frame);
              computed_checksum = internet_checksum (header_copy[10 := 0, 11 := 0]) in
          if computed_checksum \<noteq> header_checksum then Some (s, True)
          else
            let s = s\<lparr>net_arp := arp_insert (net_arp s) (src_ip header) (eth_src eth)\<rparr>;
                payload = take (total_length - header_bytes) (drop (ETHERNET_HEADER_BYTES + header_bytes) frame) in
            if ip_protocol header = protocol_value proto_icmp then
              do {
                (s, ok) \<leftarrow> icmp_observe_packet sleep s dev (src_ip header) (dst_ip header) payload;
                Some (s, True)
              }
            else Some (s, True))"

definition dispatch_frame :: "(net_state \<Rightarrow> net_state) \<Rightarrow> net_state \<Rightarrow> nat option \<Rightarrow> u8 list \<Rightarrow> net_state option" where
  "dispatch_frame sleep s dev frame =
     (if dev = None \<or> length frame < ETHERNET_HEADER_BYTES then Some s
      else
        let etype = bswap16 (ether_type_be (ethernet_at frame 0)) in
        if etype = ether_type_value ether_arp then map_option fst (arp_observe_frame s dev frame)
        else if etype = ether_type_value ether_ipv4 then map_option fst (ipv4_observe_frame sleep s dev frame)
        else Some s)"

text \<open>The inner loop of \<open>background_rx_task\<close>: poll one device until it has nothing more.\<close>

partial_function (option) rx_drain :: "(net_state \<Rightarrow> net_state) \<Rightarrow> net_state \<Rightarrow> nat \<Rightarrow> bool \<Rightarrow> (net_state \<times> bool) option" where
  "rx_drain sleep s d any_packets =
     (case poll_packet s (Some d) NET_RX_FRAME_BUFFER_BYTES of
        (s, None) \<Rightarrow> Some (s, any_packets)
      | (s, Some frame) \<Rightarrow>
          Option.bind (dispatch_frame sleep s (Some d) frame) (\<lambda>s. rx_drain sleep s d True))"

declare rx_drain.simps [code]

fun rx_devices :: "(net_state \<Rightarrow> net_state) \<Rightarrow> nat list \<Rightarrow> net_state \<Rightarrow> bool \<Rightarrow> (net_state \<times> bool) option" where
  "rx_devices sleep [] s any_packets = Some (s, any_packets)"
| "rx_devices sleep (i # is) s any_packets =
     (case get_device s i of
        None \<Rightarrow> rx_devices sleep is s any_packets
      | Some d \<Rightarrow>
          (case rx_drain sleep s d any_packets of
             None \<Rightarrow> None
           | Some (s, any) \<Rightarrow> rx_devices sleep is s any))"

text \<open>One iteration of the outer loop of \<open>background_rx_task\<close>.\<close>

definition rx_pass :: "(net_state \<Rightarrow> net_state) \<Rightarrow> net_state \<Rightarrow> net_state option" where
  "rx_pass sleep s =
     do {
       (s, any) \<leftarrow> rx_devices sleep [0..<device_count s] s False;
       Some (if any then s else sleep s)
     }"

end
