(* ===== verification/NetWireSpec.thy ===== *)
theory NetWireSpec
  imports NetWire
begin

text \<open>
  Facts of the wire formats: every structure reads back from the bytes written for it, and the
  Internet checksum is a sum in ones'-complement arithmetic, so a packet with its checksum
  filled in sums to zero.
\<close>

section \<open>Round trips\<close>

lemma at_shift:
  "u16_at (pre @ bs) (length pre + i) = u16_at bs i" "mac_at (pre @ bs) (length pre + i) = mac_at bs i"
  "ipv4_at (pre @ bs) (length pre + i) = ipv4_at bs i"
  by (simp_all add: u16_at_def mac_at_def ipv4_at_def nth_append)

lemma mac_at_0 [simp]: "mac_at (mac_bytes m @ rest) 0 = m"
  by (cases m) (simp add: mac_at_def eval_nat_numeral)

lemma ipv4_at_0 [simp]: "ipv4_at (ipv4_bytes a @ rest) 0 = a"
  by (cases a) (simp add: ipv4_at_def eval_nat_numeral)

lemma u16_at_0 [simp]: "u16_at (u16_bytes v @ rest) 0 = v"
  by (simp add: u16_bytes_def)

lemma at_len:
  "length pre = k \<Longrightarrow> u16_at (pre @ u16_bytes v @ rest) k = v"
  "length pre = k \<Longrightarrow> mac_at (pre @ mac_bytes m @ rest) k = m"
  "length pre = k \<Longrightarrow> ipv4_at (pre @ ipv4_bytes a @ rest) k = a"
  using at_shift [of pre _ 0] by auto

lemma ethernet_roundtrip [simp]: "ethernet_at (ethernet_bytes e @ rest) 0 = e"
  using at_len(2) [of "mac_bytes (eth_dst e)" 6 "eth_src e"] at_len(1) [of "mac_bytes (eth_dst e) @ mac_bytes (eth_src e)" 12]
  by (simp add: ethernet_at_def ethernet_bytes_def)

lemma shift_at:
  "ethernet_at (pre @ bs) (length pre) = ethernet_at bs 0" "arp_at (pre @ bs) (length pre) = arp_at bs 0"
  "ipv4_header_at (pre @ bs) (length pre) = ipv4_header_at bs 0"
  by (simp_all add: ethernet_at_def arp_at_def ipv4_header_at_def u16_at_def mac_at_def ipv4_at_def nth_append numeral_2_eq_2 numeral_3_eq_3)

lemma arp_roundtrip [simp]: "arp_at (arp_bytes p @ rest) 0 = p"
proof -
  obtain a b c d e f where s: "sender_mac p = Mac a b c d e f" by (cases "sender_mac p")
  obtain g h i j where si: "sender_ip p = Ipv4 g h i j" by (cases "sender_ip p")
  obtain k l m n q r where t: "target_mac p = Mac k l m n q r" by (cases "target_mac p")
  obtain u v w x where ti: "target_ip p = Ipv4 u v w x" by (cases "target_ip p")
  show ?thesis
    by (simp add: arp_at_def arp_bytes_def s si t ti u16_bytes_def mac_at_def ipv4_at_def)
qed

lemma ipv4_header_roundtrip [simp]: "ipv4_header_at (ipv4_header_bytes h @ rest) 0 = h"
proof -
  obtain a b c d where s: "src_ip h = Ipv4 a b c d" by (cases "src_ip h")
  obtain e f g i where t: "dst_ip h = Ipv4 e f g i" by (cases "dst_ip h")
  show ?thesis by (simp add: ipv4_header_at_def ipv4_header_bytes_def s t u16_bytes_def ipv4_at_def)
qed

lemma icmp_echo_roundtrip [simp]: "icmp_echo_at (icmp_echo_bytes x @ rest) 0 = x"
  by (simp add: icmp_echo_at_def icmp_echo_bytes_def u16_bytes_def)

section \<open>The checksum in ones'-complement arithmetic\<close>

definition be_word :: "u8 \<Rightarrow> u8 \<Rightarrow> nat" where
  "be_word a b = 256 * unat a + unat b"

fun be_words :: "u8 list \<Rightarrow> nat list" where
  "be_words (a # b # rest) = be_word a b # be_words rest"
| "be_words [a] = [be_word a 0]"
| "be_words [] = []"

text \<open>The representative of \<open>n\<close> modulo 65535 that ones'-complement addition yields.\<close>

definition ones_rep :: "nat \<Rightarrow> nat" where
  "ones_rep n = (if n = 0 then 0 else (n - 1) mod 65535 + 1)"

lemma ones_rep_le: "ones_rep n \<le> 65535"
  using mod_less_divisor [of 65535 "n - 1"] by (simp add: ones_rep_def Suc_le_eq)

lemma ones_rep_add: "ones_rep (ones_rep n + m) = ones_rep (n + m)"
proof (cases "n = 0")
  case False
  then obtain k where k: "n = Suc k" by (cases n) auto
  have "(k mod 65535 + m) mod 65535 = (k + m) mod 65535" by (simp add: mod_add_left_eq)
  then show ?thesis using k by (simp add: ones_rep_def)
qed (simp add: ones_rep_def)

lemma ones_rep_id: "n \<le> 65535 \<Longrightarrow> ones_rep n = n"
  by (auto simp: ones_rep_def)

lemma csum_add_nat:
  assumes "unat s \<le> 65535" shows "unat (csum_add s w) = ones_rep (unat s + unat w)"
proof -
  have w: "unat (ucast w :: u32) = unat w" by (rule unat_ucast_up) simp
  have wl: "unat w < 65536" using unat_less_exp [of w] by simp
  have a: "unat (s + ucast w) = unat s + unat w" using assms w wl by (simp add: unat_plus_nw)
  have m: "unat ((s + ucast w) AND 0xFFFF) = (unat s + unat w) mod 65536"
    using unat_and_mask [of "s + ucast w" 16] a by (simp add: mask_eq_exp_minus_1)
  show ?thesis
  proof (cases "unat s + unat w \<le> 65535")
    case True
    then have "\<not> s + ucast w > 0xFFFF" using a by (simp add: word_less_nat_alt)
    then show ?thesis using a True ones_rep_id by (simp add: csum_add_def)
  next
    case False
    have "unat s + unat w - 65536 < 65536" using wl assms by simp
    then have md: "(unat s + unat w) mod 65536 = unat s + unat w - 65536" using False by (simp add: mod_if)
    have g: "s + ucast w > 0xFFFF" using a False by (simp add: word_less_nat_alt)
    have "unat (((s + ucast w) AND 0xFFFF) + 1) = unat s + unat w - 65536 + 1"
      using m md wl assms by (subst unat_plus_nw) simp_all
    moreover have "ones_rep (unat s + unat w) = unat s + unat w - 65536 + 1"
    proof -
      have "(unat s + unat w - 1) mod 65535 = unat s + unat w - 1 - 65535"
        using False wl assms by (simp add: mod_if)
      then show ?thesis using False by (auto simp: ones_rep_def)
    qed
    ultimately show ?thesis using g by (simp add: csum_add_def)
  qed
qed

lemma unat_be_word: "unat ((push_bit 8 (ucast (a :: u8)) OR ucast (b :: u8)) :: u16) = be_word a b"
proof -
  have al: "unat (ucast a :: u16) = unat a" and bl: "unat (ucast b :: u16) = unat b" by (rule unat_ucast_up; simp)+
  have a8: "unat a < 256" and b8: "unat b < 256" using unat_less_exp [of a] unat_less_exp [of b] by simp_all
  have "(push_bit 8 (ucast a) AND ucast b :: u16) = 0"
    by (rule bit_word_eqI) (auto simp: bit_and_iff bit_push_bit_iff bit_ucast_iff dest: bit_imp_le_length)
  then have "(push_bit 8 (ucast a) OR ucast b :: u16) = push_bit 8 (ucast a) + ucast b" by (simp add: disjunctive_add_eq_or)
  moreover have "unat (push_bit 8 (ucast a) :: u16) = 256 * unat a"
    using al a8 by (simp add: push_bit_eq_mult unat_word_ariths mult.commute)
  ultimately show ?thesis using bl a8 b8 by (simp add: unat_plus_nw be_word_def)
qed

lemma csum_words_nat:
  assumes "unat s \<le> 65535" "even (length bs)" shows "unat (csum_words s bs) = ones_rep (unat s + sum_list (be_words bs))"
  using assms
proof (induction s bs rule: csum_words.induct)
  case (1 s a b rest)
  let ?w = "push_bit 8 (ucast a) OR ucast b :: u16"
  have n: "unat (csum_add s ?w) = ones_rep (unat s + be_word a b)" using csum_add_nat [OF 1(2)] unat_be_word by simp
  have "unat (csum_words (csum_add s ?w) rest) = ones_rep (ones_rep (unat s + be_word a b) + sum_list (be_words rest))"
    using 1(1) 1(3) n ones_rep_le by simp
  then show ?case using ones_rep_add [of "unat s + be_word a b" "sum_list (be_words rest)"] by (simp add: add.assoc)
qed (auto simp: ones_rep_id)

lemma be_words_snoc: "even (length bs) \<Longrightarrow> be_words (bs @ cs) = be_words bs @ be_words cs"
  by (induction bs rule: be_words.induct) auto

lemma csum_words_snoc: "even (length bs) \<Longrightarrow> csum_words s (bs @ [a]) = csum_words s bs"
  by (induction s bs rule: csum_words.induct) auto

lemma unat_not16: "unat s \<le> 65535 \<Longrightarrow> unat (ucast (NOT (s :: u32)) :: u16) = 65535 - unat s"
proof -
  assume s: "unat s \<le> 65535"
  have "(ucast (NOT s) :: u16) = NOT (ucast s)" by (rule bit_word_eqI) (auto simp: bit_ucast_iff bit_not_iff)
  moreover have "unat (ucast s :: u16) = unat s" using s by (simp add: unsigned_ucast_eq take_bit_nat_eq_self)
  moreover have "NOT x = - 1 - x" for x :: u16 by (simp add: not_eq_complement)
  moreover have "unat (- 1 - x :: u16) = 65535 - unat x" for x :: u16
  proof -
    have m: "unat (- 1 :: u16) = 65535" by (simp add: unsigned_minus_1_eq_mask mask_eq_exp_minus_1)
    have "unat x \<le> 65535" using unat_less_exp [of x] by simp
    then have "x \<le> - 1" using m by (simp add: word_le_nat_alt)
    then have "unat (- 1 - x) = unat (- 1 :: u16) - unat x" by (simp only: unat_sub)
    then show ?thesis using m by simp
  qed
  ultimately show ?thesis by simp
qed

lemma internet_checksum_nat: "unat (internet_checksum bs) = 65535 - ones_rep (sum_list (be_words bs))"
proof (cases "even (length bs)")
  case True
  have u: "unat (csum_words 0 bs) = ones_rep (sum_list (be_words bs))" using csum_words_nat [OF _ True, of 0] by simp
  then show ?thesis using True unat_not16 [of "csum_words 0 bs"] ones_rep_le by (simp add: internet_checksum_def)
next
  case False
  then have "bs \<noteq> []" by auto
  then obtain cs a where bs: "bs = cs @ [a]" by (cases bs rule: rev_cases) auto
  have ev: "even (length cs)" using False bs by simp
  have u: "unat (csum_words 0 cs) = ones_rep (sum_list (be_words cs))" using csum_words_nat [OF _ ev, of 0] by simp
  have w: "unat (push_bit 8 (ucast a) :: u16) = be_word a 0" using unat_be_word [of a 0] by simp
  have le: "unat (csum_words 0 cs) \<le> 65535" using u ones_rep_le by simp
  have "unat (csum_add (csum_words 0 cs) (push_bit 8 (ucast a))) = ones_rep (sum_list (be_words cs) + be_word a 0)"
    using csum_add_nat [OF le] u w ones_rep_add by simp
  then show ?thesis
    using ev bs False unat_not16 [of "csum_add (csum_words 0 cs) (push_bit 8 (ucast a))"] ones_rep_le
    by (simp add: internet_checksum_def csum_words_snoc be_words_snoc)
qed

text \<open>A packet whose checksum word holds the checksum of the rest sums to zero.\<close>

lemma checksum_filled:
  assumes c: "unat c = 65535 - ones_rep n" and s: "sum_list (be_words bs) = n + unat c"
  shows "internet_checksum bs = 0"
proof -
  have "ones_rep (n + (65535 - ones_rep n)) = 65535"
  proof (cases "n = 0")
    case False
    then obtain k where k: "n = Suc k" by (cases n) auto
    define q m where "q = k div 65535" and "m = k mod 65535"
    have qm: "k = q * 65535 + m" "m < 65535" by (simp_all add: q_def m_def)
    have "ones_rep n = m + 1" using k by (simp add: ones_rep_def m_def)
    then have e: "n + (65535 - ones_rep n) - 1 = k div 65535 * 65535 + 65534" using k qm by (simp add: q_def [symmetric])
    have "(k div 65535 * 65535 + 65534) mod 65535 = 65534" using mod_mult_self3 [of "k div 65535" 65535 65534] by simp
    then show ?thesis using k e by (simp add: ones_rep_def)
  qed (simp add: ones_rep_def)
  then have "unat (internet_checksum bs) = 0" using internet_checksum_nat [of bs] s c by simp
  then show ?thesis by (simp add: unat_eq_zero)
qed

lemma be_word_bswap: "be_word (ucast (bswap16 v)) (ucast (drop_bit 8 (bswap16 v))) = unat v"
proof -
  have a: "(ucast (bswap16 v) :: u8) = ucast (drop_bit 8 v)" "(ucast (drop_bit 8 (bswap16 v)) :: u8) = ucast v"
    by (rule bit_word_eqI; auto simp: bswap16_def bit_ucast_iff bit_or_iff bit_push_bit_iff bit_drop_bit_eq)+
  have "(push_bit 8 (ucast (ucast (drop_bit 8 v) :: u8)) OR ucast (ucast v :: u8)) = v" using u16_join [of v] by (simp add: or.commute)
  then show ?thesis unfolding a using unat_be_word [of "ucast (drop_bit 8 v)" "ucast v"] by simp
qed

end
