(* ===== verification/Ring.thy ===== *)
theory Ring
  imports Prelude
begin

text \<open>
  Circular buffers: an array with the index of the next slot to write (\<open>h\<close>) and of the next slot to
  read (\<open>t\<close>), where one slot stays unused so that equal indices mean empty. The contents as a list,
  and what writing at \<open>h\<close> and advancing \<open>t\<close> do to it.
\<close>

definition ring_size :: "nat \<Rightarrow> nat \<Rightarrow> nat \<Rightarrow> nat" where
  "ring_size n h t = (h + n - t) mod n"

definition ring_list :: "nat \<Rightarrow> 'a list \<Rightarrow> nat \<Rightarrow> nat \<Rightarrow> 'a list" where
  "ring_list n q h t = map (\<lambda>k. q ! ((t + k) mod n)) [0..<ring_size n h t]"

lemma length_ring_list [simp]: "length (ring_list n q h t) = ring_size n h t"
  by (simp add: ring_list_def)

lemma mod_once: "(x :: nat) < 2 * n \<Longrightarrow> x mod n = (if x < n then x else x - n)"
  by (simp add: mod_if)

lemma ring_size_cases: "h < n \<Longrightarrow> t < n \<Longrightarrow> ring_size n h t = (if t \<le> h then h - t else h + n - t)"
  by (auto simp: ring_size_def mod_once)

lemma ring_size_0: "h < n \<Longrightarrow> t < n \<Longrightarrow> ring_size n h t = 0 \<longleftrightarrow> h = t"
  by (auto simp: ring_size_cases)

lemma ring_size_less: "h < n \<Longrightarrow> t < n \<Longrightarrow> ring_size n h t < n"
  by (auto simp: ring_size_cases)

lemma ring_full: "h < n \<Longrightarrow> t < n \<Longrightarrow> (h + 1) mod n = t \<longleftrightarrow> ring_size n h t = n - 1"
  by (auto simp: ring_size_cases mod_Suc)

lemma ring_list_push:
  assumes b: "h < n" "t < n" "length q = n" and nf: "(h + 1) mod n \<noteq> t"
  shows "ring_list n (q[h := x]) ((h + 1) mod n) t = ring_list n q h t @ [x]"
proof -
  have s: "ring_size n ((h + 1) mod n) t = Suc (ring_size n h t)"
    using b nf by (auto simp: ring_size_cases mod_Suc)
  have hd: "(t + ring_size n h t) mod n = h" using b by (auto simp: ring_size_cases)
  have old: "(t + k) mod n \<noteq> h" if "k < ring_size n h t" for k
    using that b mod_once [of "t + k" n] by (auto simp: ring_size_cases split: if_splits)
  have "map (\<lambda>k. q[h := x] ! ((t + k) mod n)) [0..<ring_size n h t] = map (\<lambda>k. q ! ((t + k) mod n)) [0..<ring_size n h t]"
    using old by (auto simp: nth_list_update_neq [OF not_sym])
  then show ?thesis unfolding ring_list_def s using hd b by simp
qed

lemma ring_list_pop:
  assumes b: "h < n" "t < n" and ne: "h \<noteq> t"
  shows "ring_list n q h t = q ! t # ring_list n q h ((t + 1) mod n)"
proof -
  have s: "ring_size n h t = Suc (ring_size n h ((t + 1) mod n))"
    using b ne by (auto simp: ring_size_cases mod_Suc)
  have "map (\<lambda>k. q ! ((t + k) mod n)) [1..<Suc (ring_size n h ((t + 1) mod n))] = ring_list n q h ((t + 1) mod n)"
    unfolding ring_list_def by (rule nth_equalityI) (simp_all add: mod_add_left_eq del: upt_Suc)
  then show ?thesis unfolding ring_list_def [of n q h t] s using b by (simp add: upt_conv_Cons del: upt_Suc)
qed

text \<open>A slot outside the contents can be overwritten.\<close>

lemma ring_list_clear:
  assumes "h < n" "t < n" "h \<noteq> t"
  shows "ring_list n (q[t := y]) h ((t + 1) mod n) = ring_list n q h ((t + 1) mod n)"
proof -
  have "((t + 1) mod n + k) mod n \<noteq> t" if "k < ring_size n h ((t + 1) mod n)" for k
  proof -
    let ?u = "(t + 1) mod n"
    have u: "?u < n" "?u = (if t + 1 < n then t + 1 else 0)" using assms by (auto simp: mod_Suc)
    show ?thesis using that assms u mod_once [of "?u + k" n] by (auto simp: ring_size_cases split: if_splits)
  qed
  then show ?thesis unfolding ring_list_def by (auto simp: nth_list_update_neq [OF not_sym])
qed

section \<open>Queues that drop the oldest element\<close>

text \<open>
  The interface of a queue of at most \<open>cap\<close> elements in which a push into a full queue drops the
  oldest one: after any number of pushes it holds the most recent elements in order.
\<close>

locale lossy_queue =
  fixes inv :: "'s \<Rightarrow> bool" and contents :: "'s \<Rightarrow> 'a list" and cap :: nat and push :: "'s \<Rightarrow> 'a \<Rightarrow> 's" and pop :: "'s \<Rightarrow> 's \<times> 'a option"
  assumes push_inv: "inv s \<Longrightarrow> inv (push s x)"
    and push_contents: "inv s \<Longrightarrow> contents (push s x) = drop (length (contents s) + 1 - cap) (contents s @ [x])"
    and pop_inv: "inv s \<Longrightarrow> pop s = (s', r) \<Longrightarrow> inv s' \<and> contents s = (case r of None \<Rightarrow> [] | Some x \<Rightarrow> x # contents s') \<and> (r = None \<longrightarrow> s' = s)"
    and within: "inv s \<Longrightarrow> length (contents s) \<le> cap"
begin

lemma push_all:
  assumes "inv s"
  shows "inv (fold (\<lambda>x s. push s x) xs s) \<and> contents (fold (\<lambda>x s. push s x) xs s) = drop (length (contents s) + length xs - cap) (contents s @ xs)"
  using assms
proof (induction xs arbitrary: s)
  case Nil
  then show ?case using within [of s] by simp
next
  case (Cons x xs)
  let ?b = "length (contents s) + 1 - cap"
  note P = push_inv [OF Cons.prems, of x] push_contents [OF Cons.prems, of x]
  have "contents (fold (\<lambda>x s. push s x) (x # xs) s) =
      drop (length (contents (push s x)) + length xs - cap) (drop ?b (contents s @ [x]) @ xs)"
    using Cons.IH [OF P(1)] P(2) by simp
  also have "drop ?b (contents s @ [x]) @ xs = drop ?b (contents s @ x # xs)" using within [OF Cons.prems] by (cases cap) simp_all
  also have "drop (length (contents (push s x)) + length xs - cap) (drop ?b (contents s @ x # xs)) =
      drop (length (contents s) + length (x # xs) - cap) (contents s @ x # xs)"
  proof -
    have "length (contents (push s x)) = length (contents s) + 1 - ?b" unfolding P(2) by simp
    then have "length (contents (push s x)) + length xs - cap + ?b = length (contents s) + length (x # xs) - cap"
      using within [OF Cons.prems] by simp
    then show ?thesis unfolding drop_drop by simp
  qed
  finally show ?case using Cons.IH [OF P(1)] by simp
qed

end

end
