(* ===== verification/NetRing.thy ===== *)
theory NetRing
  imports NetProto NetWireSpec Ring
begin

text \<open>
  The transmit ring of src/net/net.cpp as a bounded first-in first-out queue: the contents of
  the ring between tail and head, and the interface \<open>bounded_queue\<close> interpreted on \<open>tx_push\<close>
  and \<open>tx_take\<close>.
\<close>

section \<open>The transmit ring as a queue\<close>

definition ring_contents :: "tx_ring \<Rightarrow> queued_packet list" where
  "ring_contents r = ring_list NET_TX_QUEUE_CAPACITY (tx_queue r) (tx_head r) (tx_tail r)"

definition ring_ok :: "tx_ring \<Rightarrow> bool" where
  "ring_ok r \<longleftrightarrow> length (tx_queue r) = NET_TX_QUEUE_CAPACITY \<and> tx_head r < NET_TX_QUEUE_CAPACITY \<and> tx_tail r < NET_TX_QUEUE_CAPACITY \<and>
     (\<forall>p \<in> set (ring_contents r). qp_buffer p \<noteq> 0)"

definition tx_take :: "tx_ring \<Rightarrow> tx_ring \<times> queued_packet option" where
  "tx_take r = (let (r', p) = tx_pop r in (r', if qp_buffer p = 0 then None else Some p))"

lemma ring_empty_iff: "ring_ok r \<Longrightarrow> tx_queue_empty r \<longleftrightarrow> ring_contents r = []"
  by (simp add: ring_ok_def tx_queue_empty_def ring_contents_def ring_size_0 flip: length_0_conv)

lemma ring_full_iff: "ring_ok r \<Longrightarrow> tx_queue_full r \<longleftrightarrow> length (ring_contents r) = 63"
  using ring_full [of "tx_head r" NET_TX_QUEUE_CAPACITY "tx_tail r"] by (simp add: ring_ok_def tx_queue_full_def ring_contents_def NET_TX_QUEUE_CAPACITY_def)

lemma ring_within: "ring_ok r \<Longrightarrow> length (ring_contents r) \<le> 63"
  using ring_size_less [of "tx_head r" NET_TX_QUEUE_CAPACITY "tx_tail r"] by (simp add: ring_ok_def ring_contents_def NET_TX_QUEUE_CAPACITY_def)

lemma ring_push:
  assumes ok: "ring_ok r" and nf: "\<not> tx_queue_full r" and p: "qp_buffer p \<noteq> 0"
  shows "ring_ok (fst (tx_push r p)) \<and> ring_contents (fst (tx_push r p)) = ring_contents r @ [p]"
proof -
  have c: "ring_contents (fst (tx_push r p)) = ring_contents r @ [p]"
    using ring_list_push [of "tx_head r" _ "tx_tail r" "tx_queue r" p] ok nf
    by (simp add: ring_contents_def tx_push_def tx_queue_full_def ring_ok_def)
  moreover have "ring_ok (fst (tx_push r p))" unfolding ring_ok_def c using ok nf p by (simp add: ring_ok_def tx_push_def NET_TX_QUEUE_CAPACITY_def)
  ultimately show ?thesis by simp
qed

lemma ring_pop:
  assumes ok: "ring_ok r" and ne: "\<not> tx_queue_empty r"
  shows "ring_ok (fst (tx_pop r)) \<and> ring_contents r = snd (tx_pop r) # ring_contents (fst (tx_pop r))"
proof -
  have b: "tx_head r < NET_TX_QUEUE_CAPACITY" "tx_tail r < NET_TX_QUEUE_CAPACITY" "tx_head r \<noteq> tx_tail r"
    using ok ne by (simp_all add: ring_ok_def tx_queue_empty_def)
  have c: "ring_contents r = snd (tx_pop r) # ring_contents (fst (tx_pop r))"
    unfolding ring_contents_def using ring_list_pop [OF b, of "tx_queue r"] ring_list_clear [OF b, of "tx_queue r" empty_packet] ne by (simp add: tx_pop_def)
  moreover have "\<forall>p \<in> set (ring_contents (fst (tx_pop r))). qp_buffer p \<noteq> 0" using ok c by (simp add: ring_ok_def)
  then have "ring_ok (fst (tx_pop r))" using ok ne by (simp add: ring_ok_def [of "fst (tx_pop r)"]) (simp add: ring_ok_def tx_pop_def NET_TX_QUEUE_CAPACITY_def)
  ultimately show ?thesis by simp
qed

interpretation tx: bounded_queue ring_ok ring_contents 63 "\<lambda>p. qp_buffer p \<noteq> 0" tx_push tx_take
proof unfold_locales
  fix r r' :: tx_ring and p :: queued_packet and c q
  assume ok: "ring_ok r"
  then show le: "length (ring_contents r) \<le> 63" by (rule ring_within)
  show "ring_ok r' \<and> (c \<longleftrightarrow> length (ring_contents r) < 63) \<and> ring_contents r' = (if c then ring_contents r @ [p] else ring_contents r)"
    if "qp_buffer p \<noteq> 0" "tx_push r p = (r', c)"
  proof (cases "tx_queue_full r")
    case True
    then show ?thesis using that ok ring_full_iff [OF ok] by (simp add: tx_push_def)
  next
    case False
    then have "c" "r' = fst (tx_push r p)" using that by (auto simp: tx_push_def)
    then show ?thesis using ring_push [OF ok False that(1)] False le ring_full_iff [OF ok] by auto
  qed
  show "ring_ok r' \<and> ring_contents r = (case q of None \<Rightarrow> [] | Some x \<Rightarrow> x # ring_contents r') \<and> (q = None \<longrightarrow> ring_contents r' = [])"
    if "tx_take r = (r', q)"
  proof (cases "tx_queue_empty r")
    case True
    then have "tx_take r = (r, None)" by (simp add: tx_take_def tx_pop_def empty_packet_def)
    then show ?thesis using that ok True ring_empty_iff [OF ok] by auto
  next
    case False
    note P = ring_pop [OF ok False]
    then have "qp_buffer (snd (tx_pop r)) \<noteq> 0" using ok by (auto simp: ring_ok_def)
    then show ?thesis using that P by (auto simp: tx_take_def split: prod.splits)
  qed
qed

lemma ring_boot_ok: "ring_ok ring_boot" "ring_contents ring_boot = []"
  by (simp_all add: ring_ok_def ring_boot_def ring_contents_def ring_list_def ring_size_def NET_TX_QUEUE_CAPACITY_def)

end
