(* ===== verification/NetInv.thy ===== *)
theory NetInv
  imports NetRing
begin

text \<open>
  The invariant of the network stack and its transmit side: the steps that keep it, the scheme
  by which the transmit functions borrow a heap buffer, and what queueing a frame, an IPv4
  packet or an ARP message leaves in the ring.
\<close>

section \<open>The invariant of the network stack\<close>

text \<open>
  The heap is well formed, the ring is a queue, every queued packet owns a live heap block of its
  own, the ARP cache binds each address once, and the registry has its eight slots.
\<close>

abbreviation nlive :: "net_state \<Rightarrow> u64 \<Rightarrow> nat set" where
  "nlive s \<equiv> kh_live (net_km s)"

abbreviation queued_buffers :: "net_state \<Rightarrow> u64 list" where
  "queued_buffers s \<equiv> map qp_buffer (ring_contents (net_ring s))"

definition net_inv :: "net_state \<Rightarrow> bool" where
  "net_inv s \<longleftrightarrow> km_inv (net_km s) \<and> ring_ok (net_ring s) \<and> distinct (queued_buffers s) \<and>
     (\<forall>b \<in> set (queued_buffers s). nlive s b \<noteq> {}) \<and> arp_ok (net_arp s) \<and>
     length (net_devices s) = MAX_NET_DEVICES \<and> net_device_count s \<le> MAX_NET_DEVICES"

text \<open>What a network operation leaves alone: every block some other code holds, and the devices.\<close>

definition net_step :: "net_state \<Rightarrow> net_state \<Rightarrow> bool" where
  "net_step s s' \<longleftrightarrow> net_inv s' \<and> net_devices s' = net_devices s \<and> net_device_count s' = net_device_count s \<and>
     (\<forall>b. nlive s b \<noteq> {} \<longrightarrow> nlive s' b = nlive s b \<and> (b \<notin> set (queued_buffers s) \<longrightarrow> b \<notin> set (queued_buffers s')))"

lemma net_step_refl: "net_inv s \<Longrightarrow> net_step s s" by (simp add: net_step_def)

lemma net_step_trans: "net_step s1 s2 \<Longrightarrow> net_step s2 s3 \<Longrightarrow> net_step s1 s3"
  unfolding net_step_def by (metis (no_types))

lemma net_step_inv: "net_step s s' \<Longrightarrow> net_inv s'" by (simp add: net_step_def)

text \<open>A buffer for the duration of one operation.\<close>

lemma scratch_alloc:
  assumes inv: "net_inv s" and n: "n \<noteq> 0" "unat n \<le> 2 ^ 60"
  shows "\<exists>km p. kh_allocate (net_km s) n = Some (km, p) \<and> net_step s (s\<lparr>net_km := km\<rparr>) \<and>
    (p \<noteq> 0 \<longrightarrow> nlive s p = {} \<and> kh_live km p \<noteq> {} \<and> p \<notin> set (queued_buffers s))"
proof -
  have k: "km_inv (net_km s)" and q: "\<And>b. b \<in> set (queued_buffers s) \<Longrightarrow> nlive s b \<noteq> {}" using inv by (auto simp: net_inv_def)
  have v: "heap_valid (Plain n)" using n by simp
  obtain km p where a: "kh_allocate (net_km s) n = Some (km, p)" using heap.alloc_total [OF k v] by auto
  then have a': "heap_alloc (net_km s) (Plain n) = Some (km, p)" by simp
  show ?thesis
  proof (cases "p = 0")
    case True
    then have "km_inv km" "kh_live km = nlive s" using heap.alloc_none [OF k v] a' by auto
    then show ?thesis using a True inv by (auto simp: net_step_def net_inv_def)
  next
    case False
    note A = heap.alloc_some [OF k v a' False]
    have "{unat p ..< unat p + unat n} \<noteq> {}" using n(1) by (simp add: unat_gt_0)
    then have lv: "kh_live km p \<noteq> {}" using A by auto
    have old: "kh_live km b = nlive s b" if "nlive s b \<noteq> {}" for b using A that by (cases "b = p") auto
    have "p \<notin> set (queued_buffers s)" using q A by blast
    moreover have "net_inv (s\<lparr>net_km := km\<rparr>)" using inv A old q by (auto simp: net_inv_def)
    ultimately show ?thesis using a lv A old by (auto simp: net_step_def)
  qed
qed

lemma scratch_free:
  assumes s1: "net_step s s1" and p: "nlive s p = {}" "nlive s1 p \<noteq> {}" "p \<notin> set (queued_buffers s1)" and s2: "net_step s1 s2"
  shows "net_step s (s2\<lparr>net_km := kh_free (net_km s2) p\<rparr>)"
proof -
  have lp: "nlive s2 p \<noteq> {}" and qp: "p \<notin> set (queued_buffers s2)" using s2 p(2,3) by (auto simp: net_step_def)
  have inv2: "net_inv s2" using s2 by (simp add: net_step_def)
  then have k: "km_inv (net_km s2)" by (simp add: net_inv_def)
  note F = kh_free_live [OF k lp]
  have "kh_live (kh_free (net_km s2) p) b \<noteq> {}" if "b \<in> set (queued_buffers s2)" for b
    using that qp F(3) [of b] inv2 unfolding net_inv_def by metis
  then have "net_inv (s2\<lparr>net_km := kh_free (net_km s2) p\<rparr>)" using inv2 F(1) by (simp add: net_inv_def)
  moreover have "kh_live (kh_free (net_km s2) p) b = nlive s b \<and>
      (b \<notin> set (queued_buffers s) \<longrightarrow> b \<notin> set (queued_buffers s2))" if "nlive s b \<noteq> {}" for b
  proof -
    have "b \<noteq> p" using that p(1) by auto
    moreover have "nlive s2 b = nlive s b" "b \<notin> set (queued_buffers s) \<longrightarrow> b \<notin> set (queued_buffers s2)"
      using net_step_trans [OF s1 s2] that by (auto simp: net_step_def)
    ultimately show ?thesis using F(3) by simp
  qed
  ultimately show ?thesis using net_step_trans [OF s1 s2] by (simp add: net_step_def)
qed

lemma send_packet_fields:
  "net_km (fst (send_packet s dev p)) = net_km s" "net_ring (fst (send_packet s dev p)) = net_ring s"
  "net_arp (fst (send_packet s dev p)) = net_arp s" "net_devices (fst (send_packet s dev p)) = net_devices s"
  "net_device_count (fst (send_packet s dev p)) = net_device_count s" "net_configs (fst (send_packet s dev p)) = net_configs s"
  by (auto simp: send_packet_def split: option.split)

lemma net_step_same:
  assumes "net_inv s" "net_km s' = net_km s" "net_ring s' = net_ring s" "arp_ok (net_arp s')" "net_devices s' = net_devices s"
    "net_device_count s' = net_device_count s"
  shows "net_step s s'"
  using assms by (simp add: net_step_def net_inv_def)

lemma send_packet_step: "net_inv s \<Longrightarrow> net_step s (fst (send_packet s dev p))"
  by (rule net_step_same) (simp_all add: send_packet_fields net_inv_def)

text \<open>The effect of queueing: at most one packet is appended, and it is the given one.\<close>

definition queued_one :: "net_state \<Rightarrow> nat option \<Rightarrow> u8 list \<Rightarrow> bool \<Rightarrow> net_state \<Rightarrow> bool" where
  "queued_one s dev packet ok s' \<longleftrightarrow> (if net_tx_started s
     then net_sent s' = net_sent s \<and>
       (if ok then \<exists>b. ring_contents (net_ring s') = ring_contents (net_ring s) @ [\<lparr>qp_dev = dev, qp_buffer = b, qp_length = length packet, qp_bytes = packet\<rparr>]
        else ring_contents (net_ring s') = ring_contents (net_ring s))
     else ring_contents (net_ring s') = ring_contents (net_ring s) \<and>
       (net_sent s' = net_sent s \<and> \<not> ok \<or> (\<exists>d. dev = Some d \<and> net_sent s' = net_sent s @ [(d, packet)])))"

definition same_config :: "net_state \<Rightarrow> net_state \<Rightarrow> bool" where
  "same_config s s' \<longleftrightarrow> net_tx_started s' = net_tx_started s \<and> net_arp s' = net_arp s \<and> net_configs s' = net_configs s"

text \<open>
  Why a packet may not get into the ring: the ring is full, or one of \<open>k\<close> consecutive heap
  allocations of at most \<open>n\<close> bytes returns null.
\<close>

fun alloc_fails :: "nat \<Rightarrow> kmemory \<Rightarrow> nat \<Rightarrow> bool" where
  "alloc_fails 0 km n \<longleftrightarrow> False"
| "alloc_fails (Suc k) km n \<longleftrightarrow> (\<exists>want km' p. unat want \<le> n \<and> kh_allocate km want = Some (km', p) \<and> (p = 0 \<or> alloc_fails k km' n))"

definition blocked :: "nat \<Rightarrow> net_state \<Rightarrow> nat \<Rightarrow> bool" where
  "blocked k s n \<longleftrightarrow> length (ring_contents (net_ring s)) = 63 \<or> alloc_fails k (net_km s) n"

lemma queue_packet_correct:
  assumes inv: "net_inv s" and len: "length packet \<le> 2 ^ 32"
  shows "\<exists>s' ok. queue_packet s dev packet = Some (s', ok) \<and> net_step s s' \<and> queued_one s dev packet ok s' \<and> same_config s s' \<and>
    (net_tx_started s \<and> \<not> ok \<longrightarrow> dev = None \<or> packet = [] \<or> blocked 1 s (length packet))"
proof -
  consider (bad) "dev = None \<or> packet = []" | (direct) d where "dev = Some d" "packet \<noteq> []" "\<not> net_tx_started s"
    | (queue) d where "dev = Some d" "packet \<noteq> []" "net_tx_started s" by (cases dev; cases "net_tx_started s") auto
  then show ?thesis
  proof cases
    case bad
    then have "queue_packet s dev packet = Some (s, False)" by (auto simp: queue_packet_def)
    then show ?thesis using net_step_refl [OF inv] bad by (intro exI [of _ s] exI [of _ False]) (auto simp: queued_one_def same_config_def)
  next
    case direct
    then have "queue_packet s dev packet = Some (fst (send_packet s dev packet), snd (send_packet s dev packet))"
      by (simp add: queue_packet_def)
    moreover have "queued_one s dev packet (snd (send_packet s dev packet)) (fst (send_packet s dev packet))"
      "same_config s (fst (send_packet s dev packet))"
      using direct by (auto simp: queued_one_def same_config_def send_packet_def split: option.split)
    ultimately show ?thesis using send_packet_step [OF inv] direct(3)
      by (intro exI [of _ "fst (send_packet s dev packet)"] exI [of _ "snd (send_packet s dev packet)"]) simp
  next
    case queue
    define n where "n = (word_of_nat (length packet) :: u64)"
    have un: "unat n = length packet" unfolding n_def using len by (subst unat_of_nat) simp
    have n: "n \<noteq> 0" "unat n \<le> 2 ^ 60" using un queue(2) len by (auto simp flip: unat_eq_zero)
    from scratch_alloc [OF inv n] obtain km b where
      A: "kh_allocate (net_km s) n = Some (km, b)" "net_step s (s\<lparr>net_km := km\<rparr>)"
        "b \<noteq> 0 \<Longrightarrow> nlive s b = {} \<and> kh_live km b \<noteq> {} \<and> b \<notin> set (queued_buffers s)" by blast
    define p where "p = \<lparr>qp_dev = dev, qp_buffer = b, qp_length = length packet, qp_bytes = packet\<rparr>"
    obtain ring c where R: "tx_push (net_ring s) p = (ring, c)" by fastforce
    have ev: "queue_packet s dev packet = (if b = 0 then Some (s\<lparr>net_km := km\<rparr>, False)
        else if \<not> c then Some (s\<lparr>net_km := kh_free km b\<rparr>, False) else Some (s\<lparr>net_km := km, net_ring := ring\<rparr>, True))"
      using queue A(1) R [unfolded p_def] by (simp add: queue_packet_def n_def [symmetric] Let_def)
    have inv1: "net_inv (s\<lparr>net_km := km\<rparr>)" using A(2) by (rule net_step_inv)
    show ?thesis
    proof (cases "b = 0")
      case True
      then have "blocked 1 s (length packet)" using A(1) un by (auto simp: blocked_def)
      then show ?thesis using ev A(2) queue True by (auto simp: queued_one_def same_config_def)
    next
      case b: False
      note B = A(3) [OF b]
      have ro: "ring_ok (net_ring s)" using inv by (simp add: net_inv_def)
      have pb: "qp_buffer p \<noteq> 0" using b by (simp add: p_def)
      note Q = tx.enq_inv [OF ro pb R]
      show ?thesis
      proof (cases c)
        case False
        have "net_step s ((s\<lparr>net_km := km\<rparr>)\<lparr>net_km := kh_free (net_km (s\<lparr>net_km := km\<rparr>)) b\<rparr>)"
          using B by (intro scratch_free [OF A(2) _ _ _ net_step_refl [OF inv1]]) auto
        moreover have "blocked 1 s (length packet)" using Q False tx.within [OF ro] by (auto simp: blocked_def)
        ultimately show ?thesis using ev b False queue by (auto simp: queued_one_def same_config_def)
      next
        case True
        let ?s = "s\<lparr>net_km := km, net_ring := ring\<rparr>"
        have qb: "queued_buffers ?s = queued_buffers s @ [b]" using Q True by (simp add: p_def)
        have "net_inv ?s" using inv1 Q B qb by (auto simp: net_inv_def)
        moreover have "b' \<noteq> b" if "nlive s b' \<noteq> {}" for b' using that B by auto
        ultimately have "net_step s ?s" using A(2) qb by (auto simp: net_step_def)
        moreover have "queued_one s dev packet True ?s" using queue Q True by (auto simp: queued_one_def p_def)
        ultimately show ?thesis using ev b True by (auto simp: same_config_def)
      qed
    qed
  qed
qed

section \<open>Operations under the invariant\<close>

text \<open>The scheme \<open>allocate; work; free\<close> of the transmit functions.\<close>

definition with_buffer :: "net_state \<Rightarrow> u64 \<Rightarrow> (net_state \<Rightarrow> (net_state \<times> bool) option) \<Rightarrow> (net_state \<times> bool) option" where
  "with_buffer s n f =
     do {
       (km, p) \<leftarrow> kh_allocate (net_km s) n;
       if p = 0 then Some (s\<lparr>net_km := km\<rparr>, False)
       else do { (s, ok) \<leftarrow> f (s\<lparr>net_km := km\<rparr>); Some (s\<lparr>net_km := kh_free (net_km s) p\<rparr>, ok) }
     }"

text \<open>The frame is queued, unless it is too large for the device (\<open>big\<close>) or something blocks it.\<close>

definition queues :: "bool \<Rightarrow> nat \<Rightarrow> net_state \<Rightarrow> nat option \<Rightarrow> u8 list \<Rightarrow> (net_state \<times> bool) option \<Rightarrow> bool" where
  "queues big k s dev frame r \<longleftrightarrow> (\<exists>s' ok. r = Some (s', ok) \<and> net_step s s' \<and> queued_one s dev frame ok s' \<and> same_config s s' \<and>
     (net_tx_started s \<and> \<not> ok \<longrightarrow> big \<or> blocked k s (length frame)))"

lemma queues_queue_packet:
  "net_inv s \<Longrightarrow> length packet \<le> 2 ^ 32 \<Longrightarrow> packet \<noteq> [] \<Longrightarrow> queues big 1 s (Some d) packet (queue_packet s (Some d) packet)"
  using queue_packet_correct [of s packet "Some d"] unfolding queues_def by blast

lemma queues_none: "net_inv s \<Longrightarrow> queues True k s dev packet (Some (s, False))"
  using net_step_refl by (auto simp: queues_def queued_one_def same_config_def)

lemma queues_any: "queues big k s dev frame r \<Longrightarrow> queues True 0 s dev frame r"
  by (auto simp: queues_def)

lemma queues_with_buffer:
  assumes inv: "net_inv s" and n: "n \<noteq> 0" "unat n \<le> 2 ^ 60" "unat n \<le> length frame"
    and f: "\<And>km. net_inv (s\<lparr>net_km := km\<rparr>) \<Longrightarrow> queues big k (s\<lparr>net_km := km\<rparr>) dev frame (f (s\<lparr>net_km := km\<rparr>))"
  shows "queues big (Suc k) s dev frame (with_buffer s n f)"
proof -
  from scratch_alloc [OF inv n(1,2)] obtain km p where
    A: "kh_allocate (net_km s) n = Some (km, p)" "net_step s (s\<lparr>net_km := km\<rparr>)"
      "p \<noteq> 0 \<Longrightarrow> nlive s p = {} \<and> kh_live km p \<noteq> {} \<and> p \<notin> set (queued_buffers s)" by blast
  show ?thesis
  proof (cases "p = 0")
    case True
    then have "blocked (Suc k) s (length frame)" using A(1) n(3) by (auto simp: blocked_def)
    then show ?thesis using A(1,2) True by (auto simp: with_buffer_def queues_def queued_one_def same_config_def)
  next
    case False
    from f [OF net_step_inv [OF A(2)]] obtain s2 ok where
      F: "f (s\<lparr>net_km := km\<rparr>) = Some (s2, ok)" "net_step (s\<lparr>net_km := km\<rparr>) s2" "queued_one (s\<lparr>net_km := km\<rparr>) dev frame ok s2"
        "same_config (s\<lparr>net_km := km\<rparr>) s2" "net_tx_started s \<and> \<not> ok \<longrightarrow> big \<or> blocked k (s\<lparr>net_km := km\<rparr>) (length frame)" by (auto simp: queues_def)
    have "blocked (Suc k) s (length frame)" if "blocked k (s\<lparr>net_km := km\<rparr>) (length frame)"
      using that A(1) n(3) by (auto simp: blocked_def)
    note b = F(5) this
    have "net_step s (s2\<lparr>net_km := kh_free (net_km s2) p\<rparr>)"
      using A(3) [OF False] by (intro scratch_free [OF A(2) _ _ _ F(2)]) auto
    then show ?thesis using A(1) False F(1-4) b by (auto simp: with_buffer_def queues_def queued_one_def same_config_def)
  qed
qed

lemma ethernet_frame_length: "length (ethernet_frame dst src etype payload) = (if length payload < 46 then 60 else 14 + length payload)"
  by (simp add: ethernet_frame_def ETHERNET_HEADER_BYTES_def ETHERNET_MIN_FRAME_BYTES_def Let_def)

lemma u16_nat_bound: "unat (x :: u16) \<le> 65535"
  using unat_less_exp [of x] by simp

lemma word_of_nat_bound: "0 < k \<Longrightarrow> k \<le> 2 ^ 32 \<Longrightarrow> (word_of_nat k :: u64) \<noteq> 0 \<and> unat (word_of_nat k :: u64) \<le> 2 ^ 60"
proof -
  assume k: "0 < k" "k \<le> 2 ^ 32"
  have "unat (word_of_nat k :: u64) = k" using k(2) by (subst unat_of_nat) simp
  then show ?thesis using k by (auto simp flip: unat_eq_zero)
qed

lemma transmit_queued:
  assumes inv: "net_inv s"
  shows "queues (length payload > unat (nd_mtu (device s d))) 2 s (Some d) (ethernet_frame dst (nd_mac (device s d)) etype payload) (transmit_ethernet s (Some d) dst etype payload True)"
proof (cases "length payload > unat (nd_mtu (device s d))")
  case True
  then show ?thesis using queues_none [OF inv] by (simp add: transmit_ethernet_def)
next
  case False
  let ?f = "ethernet_frame dst (nd_mac (device s d)) etype payload"
  have l: "0 < length ?f" "length ?f \<le> 2 ^ 32" using False u16_nat_bound [of "nd_mtu (device s d)"] by (auto simp: ethernet_frame_length)
  have "transmit_ethernet s (Some d) dst etype payload True =
      with_buffer s (word_of_nat (length ?f)) (\<lambda>s. queue_packet s (Some d) ?f)"
    using False by (simp add: transmit_ethernet_def with_buffer_def Let_def cong: if_cong)
  moreover have "unat (word_of_nat (length ?f) :: u64) \<le> length ?f" by (simp add: unat_of_nat)
  then have "queues (length payload > unat (nd_mtu (device s d))) (Suc 1) s (Some d) ?f (with_buffer s (word_of_nat (length ?f)) (\<lambda>s. queue_packet s (Some d) ?f))"
    using word_of_nat_bound [OF l] queues_queue_packet [OF _ l(2)] l(1) by (intro queues_with_buffer [OF inv]) auto
  ultimately show ?thesis by (simp add: numeral_2_eq_2)
qed

text \<open>The address of the destination is in the cache: resolution returns at once.\<close>

definition arp_hit :: "net_state \<Rightarrow> ipv4_address \<Rightarrow> mac_address \<Rightarrow> bool" where
  "arp_hit s ip mac \<longleftrightarrow> arp_initialised (net_arp s) \<and> arp_look (net_arp s) ip = Some mac"

lemma arp_hit_lookup: "arp_hit s ip mac \<Longrightarrow> net_lookup s ip = (s, Some mac)"
  by (auto simp: arp_hit_def net_lookup_def arp_look_def arp_lookup_def Let_def)

lemma arp_hit_resolve: "arp_hit s ip mac \<Longrightarrow> arp_resolve sleep s (Some d) a ip = Some (s, Some mac)"
  using arp_hit_lookup by (simp add: arp_resolve_def)

definition ipv4_packet :: "send_params \<Rightarrow> ipv4_address \<Rightarrow> u16 \<Rightarrow> u8 list \<Rightarrow> u8 list" where
  "ipv4_packet params src ident payload =
     ipv4_header_bytes (ipv4_fill_checksum (ipv4_header_without_checksum params src (word_of_nat (20 + length payload)) ident)) @ payload"

lemma ipv4_packet_length: "length (ipv4_packet params src ident payload) = 20 + length payload"
  by (simp add: ipv4_packet_def)

definition src_address :: "net_state \<Rightarrow> nat \<Rightarrow> send_params \<Rightarrow> ipv4_address option" where
  "src_address s d params =
     (if sp_src_ip params = zero_ipv4 then configured_address_locked (net_configs s) (Some d) else Some (sp_src_ip params))"

lemma ipv4_queue_hit:
  assumes inv: "net_inv s" and hit: "arp_hit s (sp_dst_ip params) mac" and c: "s_configs_initialised (net_configs s)"
    and src: "src_address s d params = Some src"
  shows "queues (20 + length payload > unat (nd_mtu (device s d))) 3 s (Some d)
    (ethernet_frame mac (nd_mac (device s d)) ether_ipv4 (ipv4_packet params src (net_next_id s) payload))
    (queue_send sleep s (Some d) params payload)"
proof (cases "20 + length payload > unat (nd_mtu (device s d))")
  case True
  then show ?thesis using queues_none [OF inv] by (simp add: queue_send_def ipv4_send_impl_def IPV4_HEADER_BYTES_def)
next
  case False
  let ?frame = "ethernet_frame mac (nd_mac (device s d)) ether_ipv4 (ipv4_packet params src (net_next_id s) payload)"
  define total where "total = (word_of_nat (20 + length payload) :: u16)"
  define body where "body s = (do {
      let (s, ident) = next_identification s;
      queue_ethernet s (Some d) mac ether_ipv4 (ipv4_packet params src ident payload) })" for s
  have t: "unat total = 20 + length payload"
    unfolding total_def using False u16_nat_bound [of "nd_mtu (device s d)"] by (subst unat_of_nat) simp
  have cfg: "configured_address (net_configs s) (Some d) = (net_configs s, configured_address_locked (net_configs s) (Some d))"
    using c by (simp add: configured_address_def init_configs_def Let_def)
  have ev: "queue_send sleep s (Some d) params payload = with_buffer s (ucast total) body"
  proof -
    have "arp_hit (s\<lparr>net_km := km\<rparr>) (sp_dst_ip params) mac" for km using hit by (simp add: arp_hit_def)
    then have r: "arp_resolve sleep (s\<lparr>net_km := km\<rparr>) (Some d) src (sp_dst_ip params) = Some (s\<lparr>net_km := km\<rparr>, Some mac)" for km
      by (rule arp_hit_resolve)
    have sr: "(if ipv4_equal (sp_src_ip params) zero_ipv4
         then (let (c, a) = configured_address (net_configs (s\<lparr>net_km := km\<rparr>)) (Some d) in ((s\<lparr>net_km := km\<rparr>)\<lparr>net_configs := c\<rparr>, a))
         else (s\<lparr>net_km := km\<rparr>, Some (sp_src_ip params))) = (s\<lparr>net_km := km\<rparr>, Some src)" for km
      using src cfg by (auto simp: src_address_def)
    show ?thesis
      using False unfolding queue_send_def ipv4_send_impl_def with_buffer_def body_def IPV4_HEADER_BYTES_def total_def [symmetric]
        ipv4_packet_def Let_def sr [unfolded Let_def]
      by (simp add: r case_prod_unfold cong: if_cong)
  qed
  let ?big = "20 + length payload > unat (nd_mtu (device s d))"
  have pl: "length (ipv4_packet params src i payload) = 20 + length payload" for i by (simp add: ipv4_packet_length)
  have "queues ?big (Suc 2) s (Some d) ?frame (with_buffer s (ucast total) body)"
  proof (rule queues_with_buffer [OF inv])
    have u: "unat (ucast total :: u64) = unat total" by (rule unat_ucast_up) simp
    show "(ucast total :: u64) \<noteq> 0" using u t by (auto simp flip: unat_eq_zero)
    show "unat (ucast total :: u64) \<le> 2 ^ 60" using u u16_nat_bound [of total] by simp
    show "unat (ucast total :: u64) \<le> length ?frame" using u t by (simp add: ethernet_frame_length pl)
    fix km assume i: "net_inv (s\<lparr>net_km := km\<rparr>)"
    define s2 where "s2 = fst (next_identification (s\<lparr>net_km := km\<rparr>))"
    have s2: "next_identification (s\<lparr>net_km := km\<rparr>) = (s2, net_next_id s)" "net_km s2 = km" "net_ring s2 = net_ring s" "net_arp s2 = net_arp s"
      "net_devices s2 = net_devices s" "net_device_count s2 = net_device_count s" "net_sent s2 = net_sent s" "net_tx_started s2 = net_tx_started s"
      "net_configs s2 = net_configs s" by (auto simp: s2_def next_identification_def Let_def)
    have st: "net_step (s\<lparr>net_km := km\<rparr>) s2" using i s2 by (intro net_step_same) (auto simp: net_inv_def)
    from transmit_queued [OF net_step_inv [OF st], of d "ipv4_packet params src (net_next_id s) payload" mac ether_ipv4]
    have "queues ?big 2 s2 (Some d) ?frame (body (s\<lparr>net_km := km\<rparr>))" by (simp add: body_def s2 queue_ethernet_def pl)
    then obtain s3 ok where Q: "body (s\<lparr>net_km := km\<rparr>) = Some (s3, ok)" "net_step s2 s3" "queued_one s2 (Some d) ?frame ok s3" "same_config s2 s3"
        "net_tx_started s2 \<and> \<not> ok \<longrightarrow> ?big \<or> blocked 2 s2 (length ?frame)"
      by (auto simp: queues_def)
    have "net_step (s\<lparr>net_km := km\<rparr>) s3" using net_step_trans [OF st Q(2)] .
    then show "queues ?big 2 (s\<lparr>net_km := km\<rparr>) (Some d) ?frame (body (s\<lparr>net_km := km\<rparr>))"
      using Q s2 by (auto simp: queues_def queued_one_def same_config_def blocked_def)
  qed
  then show ?thesis by (simp add: ev eval_nat_numeral)
qed

lemma queue_send_hit_sleep:
  assumes "arp_hit s (sp_dst_ip params) mac" "s_configs_initialised (net_configs s)" "src_address s d params = Some src"
  shows "queue_send sleep s (Some d) params payload = queue_send id s (Some d) params payload"
proof -
  have "arp_resolve sleep s' (Some d) src (sp_dst_ip params) = arp_resolve id s' (Some d) src (sp_dst_ip params)"
    if "arp_hit s' (sp_dst_ip params) mac" for s' using arp_hit_resolve [OF that] by simp
  moreover have "arp_hit (s\<lparr>net_km := km\<rparr>) (sp_dst_ip params) mac" for km using assms(1) by (simp add: arp_hit_def)
  moreover have "(if ipv4_equal (sp_src_ip params) zero_ipv4
         then (let (c, a) = configured_address (net_configs (s\<lparr>net_km := km\<rparr>)) (Some d) in ((s\<lparr>net_km := km\<rparr>)\<lparr>net_configs := c\<rparr>, a))
         else (s\<lparr>net_km := km\<rparr>, Some (sp_src_ip params))) = (s\<lparr>net_km := km\<rparr>, Some src)" for km
    using assms(2,3) by (auto simp: src_address_def configured_address_def init_configs_def Let_def)
  ultimately show ?thesis
    unfolding queue_send_def ipv4_send_impl_def Let_def by (simp cong: if_cong)
qed

end
