(* ===== verification/NetRx.thy ===== *)
theory NetRx
  imports NetInv
begin

text \<open>
  The receive side: what each handler answers to a frame, that the handlers return without
  blocking and keep the invariant, that built frames are accepted and parse back, and that the
  blocking resolver terminates.
\<close>

section \<open>Received packets\<close>

definition echo_reply_bytes :: "u8 list \<Rightarrow> u8 list" where
  "echo_reply_bytes packet =
     (let echo = icmp_echo_at packet 0; ident = bswap16 (identifier_be echo); sq = bswap16 (sequence_be echo); payload = drop 8 packet
      in icmp_echo_packet echo_reply (bswap16 (internet_checksum (icmp_echo_packet echo_reply 0 ident sq payload))) ident sq payload)"

text \<open>At most the given frame is queued (or sent, before the transmit task runs), and the stack's invariant holds.\<close>

definition answers :: "net_state \<Rightarrow> nat option \<Rightarrow> u8 list \<Rightarrow> net_state \<Rightarrow> bool" where
  "answers s dev frame s' \<longleftrightarrow> net_step s s' \<and> (\<exists>ok. queued_one s dev frame ok s')"

lemma answers_none: "net_step s s' \<Longrightarrow> net_ring s' = net_ring s \<Longrightarrow> net_sent s' = net_sent s \<Longrightarrow> answers s dev frame s'"
  by (auto simp: answers_def queued_one_def)

lemma answers_after:
  assumes "net_step s s1" "net_ring s1 = net_ring s" "net_sent s1 = net_sent s" "net_tx_started s1 = net_tx_started s" "answers s1 dev frame s2"
  shows "answers s dev frame s2"
proof -
  obtain ok where a: "net_step s1 s2" "queued_one s1 dev frame ok s2" using assms(5) by (auto simp: answers_def)
  have "queued_one s dev frame ok s2" using a(2) unfolding queued_one_def assms(2-4) .
  then show ?thesis using net_step_trans [OF assms(1) a(1)] by (auto simp: answers_def)
qed

lemma icmp_echo_packet_length: "length (icmp_echo_packet m c i q payload) = 8 + length payload"
  by (simp add: icmp_echo_packet_def)

lemma src_address_km [simp]: "src_address (s\<lparr>net_km := km\<rparr>) d params = src_address s d params"
  by (simp add: src_address_def)

lemma send_echo_hit:
  fixes msg :: icmp_message and ident sq :: u16
  assumes inv: "net_inv s" and hit: "arp_hit s dst mac" and c: "s_configs_initialised (net_configs s)"
    and src: "src_address s d params = Some src" and params: "params = \<lparr>sp_src_ip = a, sp_dst_ip = dst, sp_proto = proto_icmp, sp_ttl = 64\<rparr>"
    and len: "8 + length payload \<le> 65535"
  defines "packet \<equiv> icmp_echo_packet msg (bswap16 (internet_checksum (icmp_echo_packet msg 0 ident sq payload))) ident sq payload"
  shows "queues (28 + length payload > unat (nd_mtu (device s d))) 4 s (Some d)
    (ethernet_frame mac (nd_mac (device s d)) ether_ipv4 (ipv4_packet params src (net_next_id s) packet))
    (send_echo sleep s (Some d) msg a dst ident sq payload True)" (is "queues ?big _ _ _ ?frame _")
proof -
  define n where "n = (word_of_nat (8 + length payload) :: u16)"
  have un: "unat n = 8 + length payload" unfolding n_def using len by (subst unat_of_nat) simp
  have ev: "send_echo sleep s (Some d) msg a dst ident sq payload True = with_buffer s (ucast n) (\<lambda>s. queue_send sleep s (Some d) params packet)"
    using un unfolding send_echo_def with_buffer_def ICMP_ECHO_HEADER_BYTES_def n_def [symmetric] Let_def params packet_def
    by (simp cong: if_cong)
  have pl: "length packet = 8 + length payload" by (simp add: packet_def icmp_echo_packet_length)
  have "queues ?big (Suc 3) s (Some d) ?frame (with_buffer s (ucast n) (\<lambda>s. queue_send sleep s (Some d) params packet))"
  proof (rule queues_with_buffer [OF inv])
    have u: "unat (ucast n :: u64) = unat n" by (rule unat_ucast_up) simp
    show "(ucast n :: u64) \<noteq> 0" using u un by (auto simp flip: unat_eq_zero)
    show "unat (ucast n :: u64) \<le> 2 ^ 60" using u u16_nat_bound [of n] by simp
    show "unat (ucast n :: u64) \<le> length ?frame" using u un by (simp add: ethernet_frame_length ipv4_packet_length pl)
    fix km assume i: "net_inv (s\<lparr>net_km := km\<rparr>)"
    have h: "arp_hit (s\<lparr>net_km := km\<rparr>) (sp_dst_ip params) mac" using hit params by (simp add: arp_hit_def)
    have sa: "src_address (s\<lparr>net_km := km\<rparr>) d params = Some src" using src by simp
    show "queues ?big 3 (s\<lparr>net_km := km\<rparr>) (Some d) ?frame (queue_send sleep (s\<lparr>net_km := km\<rparr>) (Some d) params packet)"
      using ipv4_queue_hit [OF i h _ sa, of packet sleep] c by (simp add: pl)
  qed
  then show ?thesis unfolding ev by simp
qed

lemma send_echo_hit_sleep:
  assumes hit: "arp_hit s dst mac" and c: "s_configs_initialised (net_configs s)"
    and src: "src_address s d params = Some src" and params: "params = \<lparr>sp_src_ip = a, sp_dst_ip = dst, sp_proto = proto_icmp, sp_ttl = 64\<rparr>"
  shows "send_echo sleep s (Some d) msg a dst ident sq payload True = send_echo id s (Some d) msg a dst ident sq payload True"
proof -
  have "queue_send sleep (s\<lparr>net_km := km\<rparr>) (Some d) params x = queue_send id (s\<lparr>net_km := km\<rparr>) (Some d) params x" for km x
  proof (rule queue_send_hit_sleep)
    show "arp_hit (s\<lparr>net_km := km\<rparr>) (sp_dst_ip params) mac" using hit params by (simp add: arp_hit_def)
    show "s_configs_initialised (net_configs (s\<lparr>net_km := km\<rparr>))" using c by simp
    show "src_address (s\<lparr>net_km := km\<rparr>) d params = Some src" using src by simp
  qed
  then show ?thesis unfolding send_echo_def Let_def params by (simp cong: if_cong)
qed

text \<open>The answer to an ICMP packet, if it is an echo request for us.\<close>

definition icmp_answer :: "net_state \<Rightarrow> nat \<Rightarrow> mac_address \<Rightarrow> ipv4_address \<Rightarrow> ipv4_address \<Rightarrow> u8 list \<Rightarrow> u8 list" where
  "icmp_answer s d mac src dst packet =
     ethernet_frame mac (nd_mac (device s d)) ether_ipv4
       (ipv4_packet \<lparr>sp_src_ip = dst, sp_dst_ip = src, sp_proto = proto_icmp, sp_ttl = 64\<rparr> dst (net_next_id s) (echo_reply_bytes packet))"

text \<open>
  An echo request, and that it is answered: once the transmit task runs, the answer is appended to the
  ring, unless it is too large for the device, the ring is full or the heap refuses one of the four
  buffers on the way (the ICMP packet, the IP packet, the frame and its copy in the ring).
\<close>

definition valid_echo :: "u8 list \<Rightarrow> bool" where
  "valid_echo packet \<longleftrightarrow> 8 \<le> length packet \<and> internet_checksum packet = 0 \<and> icmp_type (icmp_header_at packet 0) = 8 \<and> icmp_code (icmp_header_at packet 0) = 0"

definition echoed :: "net_state \<Rightarrow> nat \<Rightarrow> u8 list \<Rightarrow> u8 list \<Rightarrow> net_state \<Rightarrow> bool" where
  "echoed s d packet frame s' \<longleftrightarrow> net_tx_started s \<longrightarrow>
     (\<exists>b. ring_contents (net_ring s') = ring_contents (net_ring s) @ [\<lparr>qp_dev = Some d, qp_buffer = b, qp_length = length frame, qp_bytes = frame\<rparr>]) \<or>
     ring_contents (net_ring s') = ring_contents (net_ring s) \<and> (20 + length packet > unat (nd_mtu (device s d)) \<or> blocked 4 s (length frame))"

lemma icmp_observe_answers:
  assumes inv: "net_inv s" and hit: "arp_hit s src mac" and c: "s_configs_initialised (net_configs s)"
    and own: "configured_address_locked (net_configs s) (Some d) = Some dst" and len: "length packet \<le> 65535"
  shows "\<exists>s' ok. (\<forall>sleep. icmp_observe_packet sleep s (Some d) src dst packet = Some (s', ok)) \<and>
    answers s (Some d) (icmp_answer s d mac src dst packet) s' \<and> net_arp s' = net_arp s \<and>
    (valid_echo packet \<longrightarrow> echoed s d packet (icmp_answer s d mac src dst packet) s')"
proof -
  have quiet: "answers s (Some d) f s" for f using answers_none [OF net_step_refl [OF inv]] by simp
  show ?thesis
  proof (cases "4 \<le> length packet \<and> internet_checksum packet = 0 \<and> icmp_type (icmp_header_at packet 0) = 8 \<and>
      icmp_code (icmp_header_at packet 0) = 0 \<and> 8 \<le> length packet")
    case False
    then have "icmp_observe_packet sleep s (Some d) src dst packet = Some (s, 4 \<le> length packet)" for sleep
      unfolding icmp_observe_packet_def Let_def ICMP_HEADER_BYTES_def ICMP_ECHO_HEADER_BYTES_def by auto
    moreover have "\<not> valid_echo packet" using False by (auto simp: valid_echo_def)
    ultimately show ?thesis using quiet by blast
  next
    case True
    define echo where "echo = icmp_echo_at packet 0"
    let ?p = "\<lparr>sp_src_ip = dst, sp_dst_ip = src, sp_proto = proto_icmp, sp_ttl = 64\<rparr>"
    have sa: "src_address s d ?p = Some dst" using own by (simp add: src_address_def)
    have l: "8 + length (drop 8 packet) \<le> 65535" using True len by simp
    have "queues (20 + length packet > unat (nd_mtu (device s d))) 4 s (Some d) (icmp_answer s d mac src dst packet)
        (send_echo id s (Some d) echo_reply dst src (bswap16 (identifier_be echo)) (bswap16 (sequence_be echo)) (drop 8 packet) True)"
      using send_echo_hit [OF inv hit c sa refl l, of echo_reply "bswap16 (identifier_be echo)" "bswap16 (sequence_be echo)" id]
      True by (simp add: icmp_answer_def echo_reply_bytes_def echo_def Let_def)
    then obtain s' ok where Q: "send_echo id s (Some d) echo_reply dst src (bswap16 (identifier_be echo)) (bswap16 (sequence_be echo)) (drop 8 packet) True = Some (s', ok)"
        "net_step s s'" "queued_one s (Some d) (icmp_answer s d mac src dst packet) ok s'" "same_config s s'"
        "net_tx_started s \<and> \<not> ok \<longrightarrow> 20 + length packet > unat (nd_mtu (device s d)) \<or> blocked 4 s (length (icmp_answer s d mac src dst packet))"
      unfolding queues_def by blast
    have "icmp_observe_packet sleep s (Some d) src dst packet = Some (s', True)" for sleep
      using True Q(1) send_echo_hit_sleep [OF hit c sa refl, of sleep]
      by (simp add: icmp_observe_packet_def Let_def ICMP_HEADER_BYTES_def ICMP_ECHO_HEADER_BYTES_def echo_def)
    moreover have "echoed s d packet (icmp_answer s d mac src dst packet) s'" using Q(3,5) by (auto simp: echoed_def queued_one_def split: if_splits)
    ultimately show ?thesis using Q(2-4) by (auto simp: answers_def same_config_def)
  qed
qed

definition arp_answer :: "net_state \<Rightarrow> nat \<Rightarrow> parsed_arp_frame \<Rightarrow> u8 list" where
  "arp_answer s d parsed =
     ethernet_frame (pf_sender_mac parsed) (nd_mac (device s d)) ether_arp
       (arp_bytes (arp_message s d arp_reply (pf_sender_mac parsed) (pf_target_ip parsed) (pf_sender_ip parsed)))"

lemma arp_ok_insert_state:
  assumes "net_inv s" shows "net_step s (s\<lparr>net_arp := arp_insert (net_arp s) ip mac\<rparr>)"
  using assms arp_insert_look(1) [of "net_arp s" ip mac] by (intro net_step_same) (auto simp: net_inv_def)

lemma arp_insert_init: "arp_insert (if \<not> arp_initialised c then arp_init c else c) ip mac = arp_insert c ip mac"
  by (simp add: arp_insert_def arp_init_def Let_def)

lemma arp_insert_initialised: "arp_ok c \<Longrightarrow> arp_initialised (arp_insert c ip mac)"
  using cache_insert_correct(3) [of "if \<not> arp_initialised c then arp_init c else c" ip mac] arp_init_ok [of c]
  by (auto simp: arp_insert_def Let_def arp_init_def)

lemma arp_insert_hit: "net_inv s \<Longrightarrow> arp_hit (s\<lparr>net_arp := arp_insert (net_arp s) ip mac\<rparr>) ip mac"
  using arp_insert_look(2) arp_insert_initialised by (simp add: arp_hit_def net_inv_def)

lemma arp_observe_answers:
  assumes inv: "net_inv s"
  shows "\<exists>s' b. arp_observe_frame s (Some d) frame = Some (s', b) \<and>
    (case parse_arp_frame frame of
       None \<Rightarrow> answers s (Some d) [] s' \<and> \<not> b
     | Some parsed \<Rightarrow> answers s (Some d) (arp_answer s d parsed) s' \<and> b \<and> net_arp s' = arp_insert (net_arp s) (pf_sender_ip parsed) (pf_sender_mac parsed))"
proof (cases "parse_arp_frame frame")
  case None
  define s' where "s' = (if \<not> arp_initialised (net_arp s) then s\<lparr>net_arp := arp_init (net_arp s)\<rparr> else s)"
  have "net_step s s'" using inv arp_init_ok [of "net_arp s"] by (intro net_step_same) (auto simp: s'_def net_inv_def)
  then have "answers s (Some d) [] s'" by (rule answers_none) (auto simp: s'_def)
  moreover have "arp_observe_frame s (Some d) frame = Some (s', False)"
    unfolding arp_observe_frame_def Let_def s'_def [symmetric] using None by simp
  ultimately show ?thesis using None by auto
next
  case (Some parsed)
  define s1 where "s1 = s\<lparr>net_arp := arp_insert (net_arp s) (pf_sender_ip parsed) (pf_sender_mac parsed)\<rparr>"
  define s0 where "s0 = (if \<not> arp_initialised (net_arp s) then s\<lparr>net_arp := arp_init (net_arp s)\<rparr> else s)"
  have s0: "s0\<lparr>net_arp := arp_insert (net_arp s0) (pf_sender_ip parsed) (pf_sender_mac parsed)\<rparr> = s1"
    using arp_insert_init [of "net_arp s"] by (auto simp: s0_def s1_def)
  have st1: "net_step s s1" unfolding s1_def by (rule arp_ok_insert_state [OF inv])
  obtain c mine where o: "owns_address (net_configs s1) (Some d) (pf_target_ip parsed) = (c, mine)" by fastforce
  define s2 where "s2 = s1\<lparr>net_configs := c\<rparr>"
  have st2: "net_step s s2" using net_step_trans [OF st1 net_step_same [OF net_step_inv [OF st1], of s2]] st1
    by (simp add: s2_def net_step_def net_inv_def)
  have f2: "net_ring s2 = net_ring s" "net_sent s2 = net_sent s" "net_tx_started s2 = net_tx_started s" "net_devices s2 = net_devices s"
    "net_arp s2 = arp_insert (net_arp s) (pf_sender_ip parsed) (pf_sender_mac parsed)" by (simp_all add: s2_def s1_def)
  let ?req = "pf_operation parsed = arp_operation_value arp_request"
  have ev: "arp_observe_frame s (Some d) frame = (if ?req then (if mine then do {
        (s, ok) \<leftarrow> queue_arp_reply s2 (Some d) (pf_sender_mac parsed) (pf_target_ip parsed) (pf_sender_ip parsed); Some (s, True) }
      else Some (s2, True)) else Some (s1, True))"
    using Some o unfolding arp_observe_frame_def Let_def s0_def [symmetric] by (simp add: s0 s2_def)
  have quiet: "answers s (Some d) f s1" "answers s (Some d) f s2" for f
    using answers_none [OF st1] answers_none [OF st2] by (simp_all add: s1_def s2_def)
  show ?thesis
  proof (cases "?req \<and> mine")
    case True
    have "arp_message s2 d op tm a b = arp_message s d op tm a b" for op tm a b using f2 by (simp add: arp_message_def)
    then have "queues True 0 s2 (Some d) (arp_answer s d parsed) (queue_arp_reply s2 (Some d) (pf_sender_mac parsed) (pf_target_ip parsed) (pf_sender_ip parsed))"
      using queues_any [OF transmit_queued [OF net_step_inv [OF st2]]] f2 by (simp add: queue_arp_reply_def send_arp_impl_def arp_answer_def Let_def)
    then obtain s3 ok where Q: "queue_arp_reply s2 (Some d) (pf_sender_mac parsed) (pf_target_ip parsed) (pf_sender_ip parsed) = Some (s3, ok)"
        "answers s2 (Some d) (arp_answer s d parsed) s3" "same_config s2 s3" by (auto simp: queues_def answers_def)
    have "answers s (Some d) (arp_answer s d parsed) s3" using answers_after [OF st2 f2(1-3) Q(2)] .
    moreover have "net_arp s3 = arp_insert (net_arp s) (pf_sender_ip parsed) (pf_sender_mac parsed)"
      using Q(3) f2(5) by (simp add: same_config_def)
    ultimately show ?thesis using ev True Q(1) Some by (intro exI [of _ s3] exI [of _ True]) simp
  next
    case False
    then have "arp_observe_frame s (Some d) frame = Some (if ?req then s2 else s1, True)" using ev by auto
    then show ?thesis using quiet Some f2(5) by (auto simp: s1_def)
  qed
qed

definition ipv4_answer :: "net_state \<Rightarrow> nat \<Rightarrow> u8 list \<Rightarrow> u8 list" where
  "ipv4_answer s d frame =
     (let header = ipv4_header_at frame 14; hb = unat (version_ihl header AND 0x0F) * 4; tl = unat (bswap16 (total_length_be header))
      in icmp_answer s d (eth_src (ethernet_at frame 0)) (src_ip header) (dst_ip header) (take (tl - hb) (drop (14 + hb) frame)))"

text \<open>A frame that carries an echo request to the address of the device.\<close>

definition ipv4_payload :: "u8 list \<Rightarrow> u8 list" where
  "ipv4_payload frame =
     (let header = ipv4_header_at frame 14; hb = unat (version_ihl header AND 0x0F) * 4; tl = unat (bswap16 (total_length_be header))
      in take (tl - hb) (drop (14 + hb) frame))"

definition ping_for_us :: "net_state \<Rightarrow> nat \<Rightarrow> u8 list \<Rightarrow> bool" where
  "ping_for_us s d frame \<longleftrightarrow> (let header = ipv4_header_at frame 14; hb = unat (version_ihl header AND 0x0F) * 4 in
     ipv4_frame_accepted frame \<and> snd (configured_address (net_configs s) (Some d)) = Some (dst_ip header) \<and>
     internet_checksum ((take hb (drop 14 frame))[10 := 0, 11 := 0]) = bswap16 (header_checksum_be header) \<and>
     ip_protocol header = 1 \<and> valid_echo (ipv4_payload frame))"

lemma configured_address_init:
  "configured_address c dev = (c', a) \<Longrightarrow> s_configs_initialised c' \<and> configured_address_locked c' dev = a"
  by (auto simp: configured_address_def init_configs_def Let_def)

lemma ipv4_observe_answers:
  assumes inv: "net_inv s"
  shows "\<exists>s' b. (\<forall>sleep. ipv4_observe_frame sleep s (Some d) frame = Some (s', b)) \<and> answers s (Some d) (ipv4_answer s d frame) s' \<and>
    (ping_for_us s d frame \<longrightarrow> echoed s d (ipv4_payload frame) (ipv4_answer s d frame) s')"
proof -
  define header where "header = ipv4_header_at frame 14"
  define hb where "hb = unat (version_ihl header AND 0x0F) * 4"
  define tl where "tl = unat (bswap16 (total_length_be header))"
  define payload where "payload = take (tl - hb) (drop (14 + hb) frame)"
  obtain c a where ca: "configured_address (net_configs s) (Some d) = (c, a)" by fastforce
  note C = configured_address_init [OF ca]
  define s1 where "s1 = s\<lparr>net_configs := c\<rparr>"
  define s2 where "s2 = s1\<lparr>net_arp := arp_insert (net_arp s1) (src_ip header) (eth_src (ethernet_at frame 0))\<rparr>"
  have st1: "net_step s s1" using inv by (intro net_step_same) (auto simp: s1_def net_inv_def)
  have st2: "net_step s s2" unfolding s2_def by (rule net_step_trans [OF st1 arp_ok_insert_state [OF net_step_inv [OF st1]]])
  have f: "net_ring s2 = net_ring s" "net_sent s2 = net_sent s" "net_tx_started s2 = net_tx_started s" "net_next_id s2 = net_next_id s"
    "net_devices s2 = net_devices s" "net_configs s2 = c" by (simp_all add: s2_def s1_def)
  have quiet: "answers s (Some d) g s" "answers s (Some d) g s1" "answers s (Some d) g s2" for g
    using answers_none [OF net_step_refl [OF inv]] answers_none [OF st1] answers_none [OF st2] by (simp_all add: s1_def s2_def)
  define bad where "bad \<longleftrightarrow> internet_checksum ((take hb (drop 14 frame))[10 := 0, 11 := 0]) \<noteq> bswap16 (header_checksum_be header)"
  have ev: "ipv4_observe_frame sleep s (Some d) frame =
      (if \<not> ipv4_frame_accepted frame then Some (s, False) else if a \<noteq> Some (dst_ip header) then Some (s1, False)
       else if bad then Some (s1, True)
       else if ip_protocol header = 1
         then do { (s, ok) \<leftarrow> icmp_observe_packet sleep s2 (Some d) (src_ip header) (dst_ip header) payload; Some (s, True) }
       else Some (s2, True))" for sleep
    unfolding ipv4_observe_frame_def Let_def ETHERNET_HEADER_BYTES_def header_def [symmetric] hb_def [symmetric] tl_def [symmetric]
      payload_def [symmetric] ca s1_def [symmetric] prod.case bad_def [symmetric]
    by (simp add: s1_def [symmetric] s2_def)
  show ?thesis
  proof (cases "ipv4_frame_accepted frame \<and> a = Some (dst_ip header) \<and> \<not> bad \<and> ip_protocol header = 1")
    case False
    then have "\<exists>s' \<in> {s, s1, s2}. \<exists>b. \<forall>sleep. ipv4_observe_frame sleep s (Some d) frame = Some (s', b)"
      unfolding ev by (cases "ipv4_frame_accepted frame"; cases "a = Some (dst_ip header)"; cases bad) auto
    moreover have "\<not> ping_for_us s d frame" using False ca unfolding ping_for_us_def Let_def header_def [symmetric] hb_def [symmetric] bad_def by auto
    ultimately show ?thesis using quiet by blast
  next
    case True
    have hit: "arp_hit s2 (src_ip header) (eth_src (ethernet_at frame 0))"
      unfolding s2_def by (rule arp_insert_hit [OF net_step_inv [OF st1]])
    have "tl \<le> 65535" using u16_nat_bound by (simp add: tl_def)
    then have pl: "length payload \<le> 65535" by (simp add: payload_def)
    have own: "configured_address_locked (net_configs s2) (Some d) = Some (dst_ip header)" "s_configs_initialised (net_configs s2)"
      using C True f by auto
    from icmp_observe_answers [OF net_step_inv [OF st2] hit own(2,1) pl] obtain s3 ok where
      I: "\<forall>sleep. icmp_observe_packet sleep s2 (Some d) (src_ip header) (dst_ip header) payload = Some (s3, ok)"
        "answers s2 (Some d) (icmp_answer s2 d (eth_src (ethernet_at frame 0)) (src_ip header) (dst_ip header) payload) s3"
        "valid_echo payload \<longrightarrow> echoed s2 d payload (icmp_answer s2 d (eth_src (ethernet_at frame 0)) (src_ip header) (dst_ip header) payload) s3" by blast
    have pf: "ipv4_payload frame = payload" by (simp add: ipv4_payload_def Let_def header_def hb_def tl_def payload_def)
    have ia: "icmp_answer s2 d (eth_src (ethernet_at frame 0)) (src_ip header) (dst_ip header) payload = ipv4_answer s d frame"
      using f by (simp add: icmp_answer_def ipv4_answer_def Let_def header_def hb_def tl_def payload_def)
    then have "answers s (Some d) (ipv4_answer s d frame) s3" using answers_after [OF st2 f(1-3) I(2)] by simp
    moreover have "echoed s d (ipv4_payload frame) (ipv4_answer s d frame) s3" if "ping_for_us s d frame"
    proof -
      have "net_km s2 = net_km s" by (simp add: s2_def s1_def)
      moreover have "valid_echo payload" using that by (simp add: ping_for_us_def Let_def pf)
      ultimately show ?thesis using I(3) f(1,3,5) unfolding ia echoed_def blocked_def pf by simp
    qed
    moreover have "ipv4_observe_frame sleep s (Some d) frame = Some (s3, True)" for sleep using ev True I(1) by simp
    ultimately show ?thesis by blast
  qed
qed

text \<open>The one frame a received frame may cause.\<close>

definition frame_answer :: "net_state \<Rightarrow> nat \<Rightarrow> u8 list \<Rightarrow> u8 list" where
  "frame_answer s d frame =
     (if bswap16 (ether_type_be (ethernet_at frame 0)) = ether_type_value ether_arp
      then (case parse_arp_frame frame of None \<Rightarrow> [] | Some parsed \<Rightarrow> arp_answer s d parsed)
      else ipv4_answer s d frame)"

lemma dispatch_answers:
  assumes inv: "net_inv s"
  shows "\<exists>s'. (\<forall>sleep. dispatch_frame sleep s (Some d) frame = Some s') \<and> answers s (Some d) (frame_answer s d frame) s' \<and>
    (ping_for_us s d frame \<longrightarrow> echoed s d (ipv4_payload frame) (frame_answer s d frame) s')"
proof -
  let ?e = "bswap16 (ether_type_be (ethernet_at frame 0))"
  have quiet: "answers s (Some d) g s" for g using answers_none [OF net_step_refl [OF inv]] by simp
  consider (short) "length frame < 14 \<or> ?e \<noteq> 0x0806 \<and> ?e \<noteq> 0x0800" | (arp) "14 \<le> length frame" "?e = 0x0806" | (ip) "14 \<le> length frame" "?e = 0x0800"
    by fastforce
  then show ?thesis
  proof cases
    case short
    then have "dispatch_frame sleep s (Some d) frame = Some s" for sleep
      by (auto simp: dispatch_frame_def ETHERNET_HEADER_BYTES_def Let_def)
    moreover have "\<not> ping_for_us s d frame" using short by (auto simp: ping_for_us_def ipv4_frame_accepted_def Let_def ETHERNET_HEADER_BYTES_def)
    ultimately show ?thesis using quiet by blast
  next
    case arp
    from arp_observe_answers [OF inv, of d frame] obtain s' b where "arp_observe_frame s (Some d) frame = Some (s', b)"
        "answers s (Some d) (case parse_arp_frame frame of None \<Rightarrow> [] | Some parsed \<Rightarrow> arp_answer s d parsed) s'"
      by (auto split: option.splits)
    moreover have "\<not> ping_for_us s d frame" using arp by (auto simp: ping_for_us_def ipv4_frame_accepted_def Let_def)
    ultimately show ?thesis using arp by (intro exI [of _ s']) (simp add: dispatch_frame_def ETHERNET_HEADER_BYTES_def frame_answer_def Let_def)
  next
    case ip
    from ipv4_observe_answers [OF inv, of d frame] obtain s' b where "\<forall>sleep. ipv4_observe_frame sleep s (Some d) frame = Some (s', b)"
        "answers s (Some d) (ipv4_answer s d frame) s'" "ping_for_us s d frame \<longrightarrow> echoed s d (ipv4_payload frame) (ipv4_answer s d frame) s'" by blast
    then show ?thesis using ip by (intro exI [of _ s']) (simp add: dispatch_frame_def ETHERNET_HEADER_BYTES_def frame_answer_def Let_def)
  qed
qed

section \<open>Frames round trip\<close>

lemma ethernet_at_frame: "ethernet_at (ethernet_frame dst src etype payload) 0 =
    \<lparr>eth_dst = dst, eth_src = src, ether_type_be = bswap16 (ether_type_value etype)\<rparr>"
  by (simp add: ethernet_frame_def Let_def)

lemma drop_frame: "drop 14 (ethernet_frame dst src etype payload) = payload @ replicate (60 - (14 + length payload)) 0"
  by (simp add: ethernet_frame_def Let_def ETHERNET_HEADER_BYTES_def ETHERNET_MIN_FRAME_BYTES_def)

lemma at_frame:
  "arp_at (ethernet_frame dst src etype payload) 14 = arp_at (payload @ replicate (60 - (14 + length payload)) 0) 0"
  "ipv4_header_at (ethernet_frame dst src etype payload) 14 = ipv4_header_at (payload @ replicate (60 - (14 + length payload)) 0) 0"
proof -
  obtain h where h: "ethernet_frame dst src etype payload = ethernet_bytes h @ payload @ replicate (60 - (14 + length payload)) 0"
    by (simp add: ethernet_frame_def Let_def ETHERNET_HEADER_BYTES_def ETHERNET_MIN_FRAME_BYTES_def)
  show "arp_at (ethernet_frame dst src etype payload) 14 = arp_at (payload @ replicate (60 - (14 + length payload)) 0) 0"
    unfolding h using shift_at(2) [of "ethernet_bytes h"] by simp
  show "ipv4_header_at (ethernet_frame dst src etype payload) 14 = ipv4_header_at (payload @ replicate (60 - (14 + length payload)) 0) 0"
    unfolding h using shift_at(3) [of "ethernet_bytes h"] by simp
qed

lemma arp_frame_parses:
  "parse_arp_frame (ethernet_frame dst src ether_arp (arp_bytes (arp_message s d op t_mac s_ip t_ip))) =
     Some \<lparr>pf_sender_ip = s_ip, pf_sender_mac = nd_mac (device s d), pf_target_ip = t_ip, pf_operation = arp_operation_value op\<rparr>"
  by (simp add: parse_arp_frame_def ethernet_frame_length ETHERNET_HEADER_BYTES_def ARP_ETHERNET_IPV4_BYTES_def ethernet_at_frame at_frame(1)
      arp_message_def)

lemma ipv4_zero_checksum: "(ipv4_header_bytes h)[10 := 0, 11 := 0] = ipv4_header_bytes (h\<lparr>header_checksum_be := 0\<rparr>)"
  by (simp add: ipv4_header_bytes_def u16_bytes_def numeral_eq_Suc)

lemma ipv4_frame_received:
  fixes params :: send_params and src :: ipv4_address and ident :: u16 and smac dmac :: mac_address
  assumes len: "20 + length payload \<le> 65535"
  defines "frame \<equiv> ethernet_frame dmac smac ether_ipv4 (ipv4_packet params src ident payload)"
  defines "h \<equiv> ipv4_header_at frame 14"
  shows "ipv4_frame_accepted frame" "src_ip h = src" "dst_ip h = sp_dst_ip params" "ip_protocol h = protocol_value (sp_proto params)"
    "unat (version_ihl h AND 0x0F) * 4 = 20" "unat (bswap16 (total_length_be h)) = 20 + length payload"
    "take (length payload) (drop 34 frame) = payload"
    "internet_checksum ((take 20 (drop 14 frame))[10 := 0, 11 := 0]) = bswap16 (header_checksum_be h)"
proof -
  define h0 where "h0 = ipv4_header_without_checksum params src (word_of_nat (20 + length payload)) ident"
  have h: "h = ipv4_fill_checksum h0"
    unfolding h_def frame_def at_frame(2) ipv4_packet_def h0_def [symmetric] by simp
  have t: "unat (word_of_nat (20 + length payload) :: u16) = 20 + length payload" using len by (subst unat_of_nat) simp
  have hf: "version_ihl h = 0x45" "total_length_be h = bswap16 (word_of_nat (20 + length payload))"
    by (simp_all add: h h0_def ipv4_fill_checksum_def ipv4_header_without_checksum_def IPV4_VERSION_def IPV4_IHL_WORDS_def)
  show "src_ip h = src" "dst_ip h = sp_dst_ip params" "ip_protocol h = protocol_value (sp_proto params)"
    by (simp_all add: h h0_def ipv4_fill_checksum_def ipv4_header_without_checksum_def)
  show hb: "unat (version_ihl h AND 0x0F) * 4 = 20" by (simp add: hf)
  show tl: "unat (bswap16 (total_length_be h)) = 20 + length payload" using t by (simp add: hf)
  have d14: "drop 14 frame = ipv4_header_bytes h @ payload @ replicate (60 - (14 + (20 + length payload))) 0"
    unfolding frame_def drop_frame ipv4_packet_def h0_def [symmetric] h by simp
  have "drop 34 frame = drop 20 (drop 14 frame)" by simp
  then show "take (length payload) (drop 34 frame) = payload" unfolding d14 by simp
  have "h\<lparr>header_checksum_be := 0\<rparr> = h0" by (simp add: h h0_def ipv4_fill_checksum_def ipv4_header_without_checksum_def)
  then show "internet_checksum ((take 20 (drop 14 frame))[10 := 0, 11 := 0]) = bswap16 (header_checksum_be h)"
    unfolding d14 by (simp add: ipv4_zero_checksum) (simp add: h ipv4_fill_checksum_def)
  have lf: "34 + length payload \<le> length frame" unfolding frame_def by (simp add: ethernet_frame_length ipv4_packet_def)
  have et: "ether_type_be (ethernet_at frame 0) = bswap16 (ether_type_value ether_ipv4)" by (simp add: frame_def ethernet_at_frame)
  show "ipv4_frame_accepted frame"
    unfolding ipv4_frame_accepted_def Let_def ETHERNET_HEADER_BYTES_def IPV4_HEADER_BYTES_def h_def [symmetric] hb tl et
    using lf by (simp add: hf IPV4_VERSION_def IPV4_IHL_WORDS_def IPV4_MAX_HEADER_BYTES_def)
qed

lemma icmp_checksum_valid:
  "internet_checksum (icmp_echo_packet msg (bswap16 (internet_checksum (icmp_echo_packet msg 0 ident sq payload))) ident sq payload) = 0"
proof -
  define z where "z = icmp_echo_packet msg 0 ident sq payload"
  define c where "c = internet_checksum z"
  have "sum_list (be_words (icmp_echo_packet msg (bswap16 c) ident sq payload)) = sum_list (be_words z) + unat c"
    using be_word_bswap [of c]
    by (simp add: z_def icmp_echo_packet_def icmp_echo_bytes_def u16_bytes_def be_word_def)
  then show ?thesis unfolding z_def [symmetric] c_def [symmetric]
    using internet_checksum_nat [of z] by (intro checksum_filled [of c "sum_list (be_words z)"]) (simp_all add: c_def)
qed

lemma icmp_echo_fields:
  "icmp_type (icmp_header_at (icmp_echo_packet msg c ident sq payload) 0) = icmp_message_value msg"
  "icmp_code (icmp_header_at (icmp_echo_packet msg c ident sq payload) 0) = 0"
  "bswap16 (identifier_be (icmp_echo_at (icmp_echo_packet msg c ident sq payload) 0)) = ident"
  "bswap16 (sequence_be (icmp_echo_at (icmp_echo_packet msg c ident sq payload) 0)) = sq"
  "drop 8 (icmp_echo_packet msg c ident sq payload) = payload"
proof -
  show "icmp_type (icmp_header_at (icmp_echo_packet msg c ident sq payload) 0) = icmp_message_value msg"
    "icmp_code (icmp_header_at (icmp_echo_packet msg c ident sq payload) 0) = 0"
    by (simp_all add: icmp_header_at_def icmp_echo_packet_def icmp_echo_bytes_def)
  show "bswap16 (identifier_be (icmp_echo_at (icmp_echo_packet msg c ident sq payload) 0)) = ident"
    "bswap16 (sequence_be (icmp_echo_at (icmp_echo_packet msg c ident sq payload) 0)) = sq"
    by (simp_all add: icmp_echo_packet_def)
  show "drop 8 (icmp_echo_packet msg c ident sq payload) = payload" by (simp add: icmp_echo_packet_def)
qed

section \<open>Resolution ends\<close>

lemma with_buffer_step:
  assumes inv: "net_inv s" and n: "n \<noteq> 0" "unat n \<le> 2 ^ 60"
    and f: "\<And>km. net_inv (s\<lparr>net_km := km\<rparr>) \<Longrightarrow> \<exists>s' ok. f (s\<lparr>net_km := km\<rparr>) = Some (s', ok) \<and> net_step (s\<lparr>net_km := km\<rparr>) s'"
  shows "\<exists>s' ok. with_buffer s n f = Some (s', ok) \<and> net_step s s'"
proof -
  from scratch_alloc [OF inv n] obtain km p where
    A: "kh_allocate (net_km s) n = Some (km, p)" "net_step s (s\<lparr>net_km := km\<rparr>)"
      "p \<noteq> 0 \<Longrightarrow> nlive s p = {} \<and> kh_live km p \<noteq> {} \<and> p \<notin> set (queued_buffers s)" by blast
  show ?thesis
  proof (cases "p = 0")
    case True
    then show ?thesis using A(1,2) by (auto simp: with_buffer_def)
  next
    case False
    from f [OF net_step_inv [OF A(2)]] obtain s2 ok where
      F: "f (s\<lparr>net_km := km\<rparr>) = Some (s2, ok)" "net_step (s\<lparr>net_km := km\<rparr>) s2" by blast
    have "net_step s (s2\<lparr>net_km := kh_free (net_km s2) p\<rparr>)"
      using A(3) [OF False] by (intro scratch_free [OF A(2) _ _ _ F(2)]) auto
    then show ?thesis using A(1) False F by (auto simp: with_buffer_def)
  qed
qed

lemma transmit_direct:
  assumes inv: "net_inv s"
  shows "\<exists>s' ok. transmit_ethernet s (Some d) dst etype payload False = Some (s', ok) \<and> net_step s s'"
proof (cases "length payload > unat (nd_mtu (device s d))")
  case True
  then show ?thesis using net_step_refl [OF inv] by (auto simp: transmit_ethernet_def)
next
  case False
  let ?f = "ethernet_frame dst (nd_mac (device s d)) etype payload"
  have l: "0 < length ?f" "length ?f \<le> 2 ^ 32" using False u16_nat_bound [of "nd_mtu (device s d)"] by (auto simp: ethernet_frame_length)
  have ev: "transmit_ethernet s (Some d) dst etype payload False =
      with_buffer s (word_of_nat (length ?f)) (\<lambda>s. Some (send_packet s (Some d) ?f))"
    using False by (simp add: transmit_ethernet_def with_buffer_def Let_def cong: if_cong)
  have "\<exists>s' ok. Some (send_packet s1 (Some d) ?f) = Some (s', ok) \<and> net_step s1 s'" if "net_inv s1" for s1
    using send_packet_step [OF that] by (metis prod.collapse)
  then show ?thesis unfolding ev using word_of_nat_bound [OF l] by (intro with_buffer_step [OF inv]) auto
qed

text \<open>What the scheduler guarantees: sleeping for a tick lets at least one tick pass, and not a number that wraps the counter.\<close>

definition sleep_ticks :: "(net_state \<Rightarrow> net_state) \<Rightarrow> bool" where
  "sleep_ticks sleep \<longleftrightarrow> (\<forall>s. \<exists>k. 1 \<le> k \<and> k \<le> 2 ^ 32 \<and> net_ticks (sleep s) = net_ticks s + word_of_nat k)"

lemma resolve_wait_returns:
  assumes "sleep_ticks sleep" shows "\<exists>s' r. resolve_wait sleep s start ip = Some (s', r) \<and> (r = None \<longrightarrow> 50 \<le> net_ticks s' - start)"
proof (induction "50 - unat (net_ticks s - start)" arbitrary: s rule: less_induct)
  case less
  show ?case
  proof (cases "net_ticks s - start < 50")
    case False
    then show ?thesis by (subst resolve_wait.simps) (simp add: ARP_RESOLVE_TIMEOUT_TICKS_def)
  next
    case True
    obtain c m where l: "arp_lookup (net_arp s) ip = (c, m)" by fastforce
    define s1 where "s1 = s\<lparr>net_arp := c\<rparr>"
    have nl: "net_lookup s ip = (s1, m)" using l by (simp add: net_lookup_def s1_def)
    have t: "ARP_RESOLVE_TIMEOUT_TICKS = 50" by (simp add: ARP_RESOLVE_TIMEOUT_TICKS_def)
    show ?thesis
    proof (cases m)
      case (Some mac)
      then show ?thesis using True nl by (subst resolve_wait.simps) (simp add: t)
    next
      case None
      then have ev: "resolve_wait sleep s start ip = resolve_wait sleep (sleep s1) start ip"
        using True nl by (subst resolve_wait.simps) (simp add: t)
      obtain k where k: "1 \<le> k" "k \<le> 2 ^ 32" "net_ticks (sleep s1) = net_ticks s + word_of_nat k"
      proof -
        obtain k where "1 \<le> k" "k \<le> 2 ^ 32" "net_ticks (sleep s1) = net_ticks s1 + word_of_nat k"
          using assms unfolding sleep_ticks_def by blast
        then show ?thesis using that [of k] by (simp add: s1_def)
      qed
      define u where "u = net_ticks s - start"
      have u: "unat u < 50" using True by (simp add: u_def word_less_nat_alt)
      have uk: "unat (word_of_nat k :: u64) = k" using k(2) by (subst unat_of_nat) simp
      have e: "net_ticks (sleep s1) - start = u + word_of_nat k" using k(3) by (simp add: u_def)
      have "unat (u + word_of_nat k) = unat u + k" using u uk k(2) by (simp add: unat_plus64)
      then have "50 - unat (net_ticks (sleep s1) - start) < 50 - unat (net_ticks s - start)"
        unfolding e u_def [symmetric] using u k(1) by simp
      from less [OF this] show ?thesis unfolding ev .
    qed
  qed
qed

lemma arp_resolve_terminates:
  assumes "net_inv s" "sleep_ticks sleep" shows "\<exists>s' r. arp_resolve sleep s dev a ip = Some (s', r)"
proof (cases dev)
  case None
  then show ?thesis by (simp add: arp_resolve_def)
next
  case (Some d)
  obtain c m where l: "arp_lookup (net_arp s) ip = (c, m)" by fastforce
  define s1 where "s1 = s\<lparr>net_arp := c\<rparr>"
  have nl: "net_lookup s ip = (s1, m)" using l by (simp add: net_lookup_def s1_def)
  have "arp_ok c" using arp_lookup_state [of "net_arp s" ip] assms(1) l by (simp add: net_inv_def)
  then have i1: "net_inv s1" using assms(1) by (simp add: net_inv_def s1_def)
  obtain s2 ok where S: "send_arp_request s1 dev a ip = Some (s2, ok)"
    using transmit_direct [OF i1] Some by (fastforce simp: send_arp_request_def send_arp_def send_arp_impl_def Let_def)
  obtain s3 r where "resolve_wait sleep s2 (net_ticks s2) ip = Some (s3, r)" using resolve_wait_returns [OF assms(2)] by blast
  then show ?thesis using Some nl S by (cases m; cases ok) (auto simp: arp_resolve_def)
qed

end
