(* ===== verification/NetSpec.thy ===== *)
theory NetSpec
  imports NetRx
begin

text \<open>
  The properties of the network stack, each with a stack on which its hypotheses hold.
\<close>

section \<open>Properties\<close>

text \<open>A stack with one device for the witnesses.\<close>

definition example_device :: net_device where
  "example_device = \<lparr>nd_name = ''eth0'', nd_mac = Mac 2 0 0 0 0 1, nd_mtu = 1500, nd_link_up = True, nd_ops = None\<rparr>"

definition net_boot :: net_state where
  "net_boot = \<lparr>net_km = example_heap, net_devices = replicate MAX_NET_DEVICES empty_device, net_device_count = 0,
     net_initialised = False, net_ring = ring_boot, net_tx_started = False, net_rx_started = False, net_arp = arp_boot,
     net_configs = \<lparr>s_device_configs = replicate MAX_IPV4_DEVICE_CONFIGS empty_config, s_configs_initialised = False\<rparr>,
     net_next_id = 1, net_ticks = 0, net_sent = [], net_polls = (\<lambda>d. 0)\<rparr>"

definition example_net :: net_state where
  "example_net = (let s = fst (register_device net_boot example_device)
     in s\<lparr>net_tx_started := True, net_configs := fst (configure_device (net_configs s) (Some 0) (Ipv4 10 0 0 1))\<rparr>)"


lemma example_net_inv: "net_inv example_net"
  using example_heap_facts(3) arp_boot_ok ring_boot_ok
  by (simp add: net_inv_def example_net_def Let_def register_device_def net_boot_def net_init_def MAX_NET_DEVICES_def example_device_def)

text \<open>
  C21. Whatever bytes a network frame consists of, the receive handler returns without ever
  blocking, keeps the invariant of the stack (well-formed heap, every queued packet owning its
  own live buffer, well-formed queue and ARP cache) and every block held elsewhere, and causes at
  most one outgoing frame: the answer to that frame.
\<close>

theorem dispatch_frame_safe:
  assumes "net_inv s"
  shows "\<exists>s'. (\<forall>sleep. dispatch_frame sleep s (Some d) frame = Some s') \<and> net_inv s' \<and> net_step s s' \<and>
    (\<exists>ok. queued_one s (Some d) (frame_answer s d frame) ok s')"
  using dispatch_answers [OF assms, of d frame] net_step_inv unfolding answers_def by blast

lemma dispatch_frame_safe_witness: "\<exists>s'. dispatch_frame id example_net (Some 0) [1, 2, 3] = Some s' \<and> net_inv s'"
  using dispatch_frame_safe [OF example_net_inv, of 0 "[1, 2, 3]"] by blast

text \<open>
  C23. A frame that \<open>ipv4::send\<close> builds passes every check of \<open>ipv4::observe_frame\<close> (lengths,
  version, header checksum) and gives back the addresses, the protocol and exactly the payload,
  in spite of the padding of short frames.
\<close>

theorem ipv4_frame_roundtrip:
  assumes "20 + length payload \<le> 65535"
    and "frame = ethernet_frame dmac smac ether_ipv4
      (ipv4_header_bytes (ipv4_fill_checksum (ipv4_header_without_checksum params src (word_of_nat (20 + length payload)) ident)) @ payload)"
    and "h = ipv4_header_at frame 14"
  shows "ipv4_frame_accepted frame \<and> eth_src (ethernet_at frame 0) = smac \<and> src_ip h = src \<and> dst_ip h = sp_dst_ip params \<and>
    ip_protocol h = protocol_value (sp_proto params) \<and> unat (bswap16 (total_length_be h)) = 20 + length payload \<and>
    take (length payload) (drop (14 + unat (version_ihl h AND 0x0F) * 4) frame) = payload \<and>
    internet_checksum ((take 20 (drop 14 frame))[10 := 0, 11 := 0]) = bswap16 (header_checksum_be h)"
  unfolding assms(3) using ipv4_frame_received [OF assms(1), of dmac smac params src ident] assms(2)
  by (simp add: ipv4_packet_def ethernet_at_frame)

lemma ipv4_frame_roundtrip_witness:
  "ipv4_frame_accepted (ethernet_frame (Mac 1 2 3 4 5 6) (Mac 6 5 4 3 2 1) ether_ipv4
      (ipv4_header_bytes (ipv4_fill_checksum (ipv4_header_without_checksum
         \<lparr>sp_src_ip = zero_ipv4, sp_dst_ip = Ipv4 10 0 0 1, sp_proto = proto_udp, sp_ttl = 64\<rparr> (Ipv4 10 0 0 2) 22 7)) @ [1, 2]))"
  using ipv4_frame_roundtrip [OF _ refl refl, of "[1, 2]" "Mac 1 2 3 4 5 6" "Mac 6 5 4 3 2 1"
      "\<lparr>sp_src_ip = zero_ipv4, sp_dst_ip = Ipv4 10 0 0 1, sp_proto = proto_udp, sp_ttl = 64\<rparr>" "Ipv4 10 0 0 2" 7] by simp



text \<open>
  C26. The Internet checksum computed with one end-around carry per addition is the one of RFC 1071:
  the complement of the sum of the big-endian 16-bit words (the last byte padded with zero)
  reduced modulo 65535.
\<close>

theorem internet_checksum_reference:
  "unat (internet_checksum bs) = 65535 - (let n = sum_list (be_words bs) in if n = 0 then 0 else (n - 1) mod 65535 + 1)"
  using internet_checksum_nat [of bs] by (simp add: ones_rep_def Let_def)

text \<open>
  C22. Over any interleaving of packets queued and packets taken by the transmit task, what was
  taken followed by what is in the ring is exactly what was accepted, in order, and the ring never
  holds more than 63 packets.
\<close>

theorem tx_ring_fifo:
  assumes "queue_run (\<lambda>p. qp_buffer p \<noteq> 0) tx_push tx_take ring_boot r accepted taken"
  shows "accepted = taken @ ring_contents r \<and> length (ring_contents r) \<le> 63 \<and> ring_ok r"
  using tx.run_fifo [OF assms ring_boot_ok] by blast

lemma tx_ring_fifo_witness:
  "ring_contents (fst (tx_push ring_boot \<lparr>qp_dev = None, qp_buffer = 16, qp_length = 1, qp_bytes = [5]\<rparr>)) =
     [\<lparr>qp_dev = None, qp_buffer = 16, qp_length = 1, qp_bytes = [5]\<rparr>]"
proof -
  define p where "p = \<lparr>qp_dev = None, qp_buffer = 16, qp_length = 1, qp_bytes = [5 :: u8]\<rparr>"
  have "tx_push ring_boot p = (fst (tx_push ring_boot p), True)"
    by (simp add: tx_push_def ring_boot_def tx_queue_full_def NET_TX_QUEUE_CAPACITY_def)
  moreover have "qp_buffer p \<noteq> 0" by (simp add: p_def)
  ultimately have "queue_run (\<lambda>p. qp_buffer p \<noteq> 0) tx_push tx_take ring_boot (fst (tx_push ring_boot p)) (if True then [] @ [p] else []) []"
    by (intro queue_put [OF queue_start])
  then show ?thesis using tx_ring_fifo [of "fst (tx_push ring_boot p)" "[p]" "[]"] by (simp add: p_def)
qed

text \<open>
  After \<open>arp::insert\<close> a lookup of that address gives the inserted hardware address; every
  other address is still bound as before, except that a full cache forgets the one binding in the
  replacement slot.
\<close>

lemma arp_insert_lookup:
  assumes "arp_ok c"
  shows "snd (arp_lookup (arp_insert c ip mac) ip) = Some mac \<and> arp_ok (arp_insert c ip mac) \<and>
    (\<forall>ip'. ip' \<noteq> ip \<longrightarrow> snd (arp_lookup (arp_insert c ip mac) ip') = snd (arp_lookup c ip') \<or>
       arp_full c \<and> ace_ip (s_cache c ! s_next_replace c) = ip' \<and> snd (arp_lookup (arp_insert c ip mac) ip') = None)"
  using arp_insert_look [OF assms, where ip = ip and mac = mac] by (simp add: arp_look_def)

text \<open>
  C25. \<open>arp::resolve\<close> always returns when a sleep of one tick lets the tick counter advance; when the
  address is cached it returns the cached binding at once and leaves the state alone.
\<close>

theorem arp_resolve_returns:
  assumes "net_inv s" "sleep_ticks sleep"
  shows "(\<exists>s' r. arp_resolve sleep s dev a ip = Some (s', r)) \<and>
    (\<forall>mac d. dev = Some d \<longrightarrow> arp_hit s ip mac \<longrightarrow> arp_resolve sleep s dev a ip = Some (s, Some mac))"
  using arp_resolve_terminates [OF assms] arp_hit_resolve by blast

lemma arp_resolve_returns_witness:
  "\<exists>s' r. arp_resolve (\<lambda>s. s\<lparr>net_ticks := net_ticks s + 1\<rparr>) example_net (Some 0) (Ipv4 10 0 0 1) (Ipv4 10 0 0 9) = Some (s', r)"
proof -
  have "sleep_ticks (\<lambda>s. s\<lparr>net_ticks := net_ticks s + 1\<rparr>)"
    unfolding sleep_ticks_def by (intro allI exI [of _ "1 :: nat"]) simp
  then show ?thesis using arp_resolve_returns [OF example_net_inv] by blast
qed

end
