(* ===== verification/Sched.thy ===== *)
theory Sched
  imports Types
begin

text \<open>
  The round-robin preemptive scheduler of src/core/scheduler.cpp and include/vkernel/scheduler.h.
  \<open>sched\<close> holds the global variables; a CPU is its APIC id, the argument \<open>c\<close> of every operation
  that calls \<open>smp::current_cpu_apic_id\<close>. Each operation runs under \<open>g_sched_lock\<close> with interrupts
  off and is one step of the machine. A \<open>void*\<close> is its address, 0 the null pointer. What the code
  keeps outside its variables is in the state too: the words it writes to task stacks, the process
  contexts it reads, per CPU the registers CR3, FS base and FPU, the device writes, and the
  contexts handed to \<open>process::cleanup_process_context\<close> in order. An index outside \<open>g_tasks\<close> is
  undefined behaviour, the result \<open>None\<close>. Log output is left out. The last section has the two
  places where a process replaces or ends itself (src/core/process.cpp, src/core/kernel_api.cpp).
\<close>

section \<open>Tasks\<close>

datatype task_state = ready | running | blocked | terminated

definition TASK_STACK_SIZE :: nat where "TASK_STACK_SIZE = 1048576"
definition MAX_TASKS :: nat where "MAX_TASKS = 64"
definition SCHED_TICK_HZ :: u32 where "SCHED_TICK_HZ = 100"
definition SCHED_CPU_NONE :: u32 where "SCHED_CPU_NONE = 0xFFFFFFFF"
definition SCHED_NO_TASK :: nat where "SCHED_NO_TASK = MAX_TASKS"
definition CPU_IDLE_STACK_SIZE :: nat where "CPU_IDLE_STACK_SIZE = 4096"

text \<open>The fields of the FXSAVE image that the scheduler edits (offsets 24 and 28) and the rest of it.\<close>

record fxsave_area =
  fx_mxcsr :: u32
  fx_mxcsr_mask :: u32
  fx_rest :: "u8 list"

record task =
  t_rsp :: u64
  t_id :: u64
  t_state :: task_state
  t_wake_tick :: u64
  t_name :: string
  t_user_data :: u64
  t_xsave_area :: fxsave_area
  t_entry :: u64
  t_xsave_valid :: bool
  t_allow_secondary_cpu :: bool
  t_affinity_cpu :: u32
  t_current_cpu :: u32
  t_last_cpu :: u32
  t_run_tick_start :: u64
  t_cpu_ticks :: u64

definition is_runnable :: "task \<Rightarrow> bool" where
  "is_runnable t \<longleftrightarrow> t_state t = ready \<or> t_state t = running"

text \<open>What the scheduler uses of a \<open>process_task_context\<close>; the page-table root stands for the address space.\<close>

record process_view =
  pv_task_id :: u64
  pv_address_space :: "u64 option"
  pv_user_thread_pointer :: u64

datatype io_event = Outb u16 u8 | Lapic u8 u32 u32

record sched =
  g_tasks :: "task list"
  g_task_count :: nat
  g_next_task_id :: u64
  g_scheduler_active :: bool
  g_tick_count :: u64
  g_per_cpu_task :: "u8 \<Rightarrow> nat"
  g_cpu_idle_rsp :: "u8 \<Rightarrow> u64"
  g_yield_in_progress :: "u8 \<Rightarrow> bool"
  g_bsp_apic_id :: u8
  sc_stacks :: "u64 \<Rightarrow> u64"
  sc_contexts :: "u64 \<Rightarrow> process_view"
  sc_cleaned :: "u64 list"
  sc_cr3 :: "u8 \<Rightarrow> u64"
  sc_fs_base :: "u8 \<Rightarrow> u64"
  sc_fpu :: "u8 \<Rightarrow> fxsave_area"
  sc_kernel_cr3 :: u64
  sc_io :: "io_event list"

text \<open>
  The platform: where the linker puts the ends of the stacks and the trampolines, the APIC base
  register of each CPU, and what reading a port returns after the writes so far.
\<close>

record platform =
  pf_stack_end :: "nat \<Rightarrow> u64"
  pf_idle_stack_end :: "u8 \<Rightarrow> u64"
  pf_task_trampoline :: u64
  pf_cpu_idle_trampoline :: u64
  pf_apic_base :: "u8 \<Rightarrow> u64"
  pf_inb :: "io_event list \<Rightarrow> u16 \<Rightarrow> u8"

abbreviation task_at :: "sched \<Rightarrow> nat \<Rightarrow> task" where
  "task_at s i \<equiv> g_tasks s ! i"

definition set_task :: "sched \<Rightarrow> nat \<Rightarrow> task \<Rightarrow> sched" where
  "set_task s i t = s\<lparr>g_tasks := (g_tasks s)[i := t]\<rparr>"

definition zero_task :: task where
  "zero_task = \<lparr>t_rsp = 0, t_id = 0, t_state = ready, t_wake_tick = 0, t_name = [], t_user_data = 0,
     t_xsave_area = \<lparr>fx_mxcsr = 0, fx_mxcsr_mask = 0, fx_rest = []\<rparr>, t_entry = 0, t_xsave_valid = False,
     t_allow_secondary_cpu = False, t_affinity_cpu = 0, t_current_cpu = 0, t_last_cpu = 0, t_run_tick_start = 0, t_cpu_ticks = 0\<rparr>"

section \<open>FPU image\<close>

definition FXSAVE_MXCSR_DEFAULT_MASK :: u32 where "FXSAVE_MXCSR_DEFAULT_MASK = 0x0000FFBF"

definition sanitize_fxsave_area :: "fxsave_area \<Rightarrow> fxsave_area" where
  "sanitize_fxsave_area a =
     (let valid_mask = fx_mxcsr_mask a;
          bad = valid_mask = 0 \<or> valid_mask AND NOT FXSAVE_MXCSR_DEFAULT_MASK \<noteq> 0;
          valid_mask = (if bad then FXSAVE_MXCSR_DEFAULT_MASK else valid_mask);
          a = (if bad then a\<lparr>fx_mxcsr_mask := valid_mask\<rparr> else a)
      in a\<lparr>fx_mxcsr := fx_mxcsr a AND valid_mask\<rparr>)"

definition find_available_task_slot :: "sched \<Rightarrow> nat" where
  "find_available_task_slot s =
     (case find (\<lambda>i. t_state (task_at s i) = terminated \<and> t_current_cpu (task_at s i) = SCHED_CPU_NONE) [0..<g_task_count s] of
        Some i \<Rightarrow> i
      | None \<Rightarrow> if g_task_count s < MAX_TASKS then g_task_count s else SCHED_NO_TASK)"

section \<open>Interrupt controllers and timers\<close>

definition PIT_CH0_DATA :: u16 where "PIT_CH0_DATA = 0x40"
definition PIT_CMD :: u16 where "PIT_CMD = 0x43"
definition PIT_FREQ :: u32 where "PIT_FREQ = 1193182"
definition SCHED_HZ :: u32 where "SCHED_HZ = SCHED_TICK_HZ"
definition PIC1_CMD :: u16 where "PIC1_CMD = 0x20"
definition PIC1_DATA :: u16 where "PIC1_DATA = 0x21"
definition PIC2_CMD :: u16 where "PIC2_CMD = 0xA0"
definition PIC2_DATA :: u16 where "PIC2_DATA = 0xA1"
definition APIC_BASE_ENABLE :: u64 where "APIC_BASE_ENABLE = push_bit 11 1"
definition LAPIC_EOI :: u32 where "LAPIC_EOI = 0x0B0"
definition LAPIC_LVT_TIMER :: u32 where "LAPIC_LVT_TIMER = 0x320"
definition LAPIC_INIT_COUNT :: u32 where "LAPIC_INIT_COUNT = 0x380"
definition LAPIC_DIVIDE_CONFIG :: u32 where "LAPIC_DIVIDE_CONFIG = 0x3E0"
definition LAPIC_TIMER_VECTOR :: u32 where "LAPIC_TIMER_VECTOR = 32"
definition LAPIC_TIMER_MASKED :: u32 where "LAPIC_TIMER_MASKED = push_bit 16 1"
definition LAPIC_TIMER_PERIODIC :: u32 where "LAPIC_TIMER_PERIODIC = push_bit 17 1"
definition LAPIC_TIMER_DIVIDE_BY_16 :: u32 where "LAPIC_TIMER_DIVIDE_BY_16 = 0x3"
definition LAPIC_TIMER_MIN_INIT_COUNT :: u64 where "LAPIC_TIMER_MIN_INIT_COUNT = 0x1000"

definition outb :: "sched \<Rightarrow> u16 \<Rightarrow> u8 \<Rightarrow> sched" where
  "outb s port v = s\<lparr>sc_io := sc_io s @ [Outb port v]\<rparr>"

definition pic_remap :: "sched \<Rightarrow> sched" where
  "pic_remap s =
     (let s = outb s PIC1_CMD 0x11; s = outb s PIC2_CMD 0x11;
          s = outb s PIC1_DATA 32; s = outb s PIC2_DATA 40;
          s = outb s PIC1_DATA 4; s = outb s PIC2_DATA 2;
          s = outb s PIC1_DATA 0x01; s = outb s PIC2_DATA 0x01;
          s = outb s PIC1_DATA 0xFF
      in outb s PIC2_DATA 0xFF)"

definition pit_init :: "sched \<Rightarrow> sched" where
  "pit_init s =
     (let divisor = ucast (PIT_FREQ div SCHED_HZ) :: u16;
          s = outb s PIT_CMD 0x36;
          s = outb s PIT_CH0_DATA (ucast (divisor AND 0xFF))
      in outb s PIT_CH0_DATA (ucast (drop_bit 8 divisor AND 0xFF)))"

definition pic_unmask_irq0 :: "platform \<Rightarrow> sched \<Rightarrow> sched" where
  "pic_unmask_irq0 p s = outb s PIC1_DATA (pf_inb p (sc_io s) PIC1_DATA AND NOT 1)"

definition pic_eoi :: "sched \<Rightarrow> sched" where
  "pic_eoi s = outb s PIC1_CMD 0x20"

definition lapic_write :: "platform \<Rightarrow> sched \<Rightarrow> u8 \<Rightarrow> u32 \<Rightarrow> u32 \<Rightarrow> sched" where
  "lapic_write p s c offset v =
     (if pf_apic_base p c AND APIC_BASE_ENABLE = 0 then s else s\<lparr>sc_io := sc_io s @ [Lapic c offset v]\<rparr>)"

definition lapic_timer_prepare_masked :: "platform \<Rightarrow> sched \<Rightarrow> u8 \<Rightarrow> sched" where
  "lapic_timer_prepare_masked p s c =
     (let s = lapic_write p s c LAPIC_DIVIDE_CONFIG LAPIC_TIMER_DIVIDE_BY_16
      in lapic_write p s c LAPIC_LVT_TIMER (LAPIC_TIMER_MASKED OR LAPIC_TIMER_VECTOR))"

text \<open>The arithmetic of \<open>lapic_timer_calibrate\<close> once the sample has been taken.\<close>

definition lapic_counts_per_tick :: "u64 \<Rightarrow> u32 \<Rightarrow> u32" where
  "lapic_counts_per_tick elapsed_ticks current_count =
     (let counts = (0xFFFFFFFF - ucast current_count) div (if elapsed_ticks = 0 then 1 else elapsed_ticks);
          counts = (if counts < LAPIC_TIMER_MIN_INIT_COUNT then LAPIC_TIMER_MIN_INIT_COUNT else counts);
          counts = (if counts > 0xFFFFFFFF then 0xFFFFFFFF else counts)
      in ucast counts)"

definition lapic_timer_start_periodic :: "platform \<Rightarrow> sched \<Rightarrow> u8 \<Rightarrow> u32 \<Rightarrow> sched" where
  "lapic_timer_start_periodic p s c init_count =
     (let s = lapic_write p s c LAPIC_DIVIDE_CONFIG LAPIC_TIMER_DIVIDE_BY_16;
          s = lapic_write p s c LAPIC_LVT_TIMER (LAPIC_TIMER_PERIODIC OR LAPIC_TIMER_VECTOR)
      in lapic_write p s c LAPIC_INIT_COUNT init_count)"

section \<open>Scheduler internals\<close>

definition cpu_current_task :: "sched \<Rightarrow> u8 \<Rightarrow> nat" where
  "cpu_current_task s c = g_per_cpu_task s c"

definition cpu_set_current_task :: "sched \<Rightarrow> u8 \<Rightarrow> nat \<Rightarrow> sched" where
  "cpu_set_current_task s c idx = s\<lparr>g_per_cpu_task := (g_per_cpu_task s)(c := idx)\<rparr>"

definition cpu_allows_shared_idle :: "sched \<Rightarrow> u8 \<Rightarrow> bool" where
  "cpu_allows_shared_idle s c \<longleftrightarrow> c = g_bsp_apic_id s"

definition task_display_cpu :: "task \<Rightarrow> u32" where
  "task_display_cpu t =
     (if t_current_cpu t \<noteq> SCHED_CPU_NONE then t_current_cpu t
      else if t_last_cpu t \<noteq> SCHED_CPU_NONE then t_last_cpu t
      else t_affinity_cpu t)"

definition task_live_tick_delta :: "sched \<Rightarrow> task \<Rightarrow> u64" where
  "task_live_tick_delta s t =
     (if t_state t \<noteq> running \<or> t_current_cpu t = SCHED_CPU_NONE then 0
      else if g_tick_count s > t_run_tick_start t then g_tick_count s - t_run_tick_start t else 0)"

definition account_task_ticks :: "sched \<Rightarrow> task \<Rightarrow> u8 \<Rightarrow> bool \<Rightarrow> task" where
  "account_task_ticks s t this_apic timer_tick =
     (if t_current_cpu t = SCHED_CPU_NONE then t
      else
        let now = g_tick_count s;
            elapsed = (if now > t_run_tick_start t then now - t_run_tick_start t else 0);
            elapsed = (if elapsed = 0 \<and> timer_tick \<and> this_apic \<noteq> g_bsp_apic_id s then 1 else elapsed)
        in t\<lparr>t_cpu_ticks := t_cpu_ticks t + elapsed\<rparr>)"

definition task_matches_cpu_affinity :: "sched \<Rightarrow> nat \<Rightarrow> u8 \<Rightarrow> bool" where
  "task_matches_cpu_affinity s i this_apic \<longleftrightarrow>
     t_affinity_cpu (task_at s i) = SCHED_CPU_NONE \<or> t_affinity_cpu (task_at s i) = ucast this_apic"

text \<open>
  The interrupt-shaped frame below the top of a stack: fifteen general registers, FS and GS, the
  vector and error code, then RIP, CS, RFLAGS, RSP, SS and one word of padding. \<open>iret_frame - 19\<close>
  is 25 words below the top.
\<close>

definition SEG_KERNEL_CODE :: u64 where "SEG_KERNEL_CODE = 0x08"
definition SEG_KERNEL_DATA :: u64 where "SEG_KERNEL_DATA = 0x10"

fun store_words :: "(u64 \<Rightarrow> u64) \<Rightarrow> u64 \<Rightarrow> u64 list \<Rightarrow> (u64 \<Rightarrow> u64)" where
  "store_words m a [] = m"
| "store_words m a (w # ws) = store_words (m(a := w)) (a + 8) ws"

definition initial_frame :: "u64 \<Rightarrow> u64 \<Rightarrow> u64 list" where
  "initial_frame rip stack_top = replicate 19 0 @ [rip, SEG_KERNEL_CODE, 0x2, stack_top, SEG_KERNEL_DATA, 0]"

definition init_frame :: "sched \<Rightarrow> u64 \<Rightarrow> u64 \<Rightarrow> sched \<times> u64" where
  "init_frame s stack_end rip =
     (let stack_top = stack_end AND NOT 0xF; rsp = stack_top - 25 * 8
      in (s\<lparr>sc_stacks := store_words (sc_stacks s) rsp (initial_frame rip stack_top)\<rparr>, rsp))"

definition init_task_stack_frame :: "platform \<Rightarrow> sched \<Rightarrow> nat \<Rightarrow> u64 \<Rightarrow> u64 \<Rightarrow> sched" where
  "init_task_stack_frame p s i entry user_data =
     (let (s, rsp) = init_frame s (pf_stack_end p i) (pf_task_trampoline p)
      in set_task s i ((task_at s i)\<lparr>t_entry := entry, t_user_data := user_data, t_rsp := rsp\<rparr>))"

definition init_cpu_idle_frame :: "platform \<Rightarrow> sched \<Rightarrow> u8 \<Rightarrow> sched" where
  "init_cpu_idle_frame p s c =
     (let (s, rsp) = init_frame s (pf_idle_stack_end p c) (pf_cpu_idle_trampoline p)
      in s\<lparr>g_cpu_idle_rsp := (g_cpu_idle_rsp s)(c := rsp)\<rparr>)"

definition wake_task :: "u64 \<Rightarrow> task \<Rightarrow> task" where
  "wake_task now t = (if t_state t = blocked \<and> t_wake_tick t \<le> now then t\<lparr>t_state := ready\<rparr> else t)"

definition wake_sleeping_tasks :: "sched \<Rightarrow> sched" where
  "wake_sleeping_tasks s =
     s\<lparr>g_tasks := map (wake_task (g_tick_count s)) (take (g_task_count s) (g_tasks s)) @ drop (g_task_count s) (g_tasks s)\<rparr>"

definition task_can_run_on_this_cpu :: "sched \<Rightarrow> u8 \<Rightarrow> nat \<Rightarrow> bool" where
  "task_can_run_on_this_cpu s c i \<longleftrightarrow>
     i < g_task_count s \<and> task_matches_cpu_affinity s i c \<and>
     (if i = 0 then cpu_allows_shared_idle s c
      else cpu_allows_shared_idle s c \<or> t_allow_secondary_cpu (task_at s i))"

definition eligible :: "sched \<Rightarrow> u8 \<Rightarrow> nat \<Rightarrow> bool" where
  "eligible s c i \<longleftrightarrow> t_state (task_at s i) = ready \<and> task_can_run_on_this_cpu s c i"

definition pick_order :: "nat \<Rightarrow> nat \<Rightarrow> nat list" where
  "pick_order n cur =
     (let start = (if 0 < cur \<and> cur < n then cur else 0)
      in map (\<lambda>i. (start + i - 1) mod (n - 1) + 1) [1..<n])"

definition pick_next_task :: "sched \<Rightarrow> u8 \<Rightarrow> nat \<Rightarrow> nat" where
  "pick_next_task s c cur =
     (if g_task_count s = 0 then SCHED_NO_TASK
      else
        case (if g_task_count s > 1 then find (eligible s c) (pick_order (g_task_count s) cur) else None) of
          Some next \<Rightarrow> next
        | None \<Rightarrow>
            if 0 < cur \<and> cur < g_task_count s \<and> eligible s c cur then cur
            else if eligible s c 0 then 0
            else SCHED_NO_TASK)"

text \<open>\<open>vm::activate\<close> and \<open>vm::activate_kernel\<close> as seen by one CPU: a zero root is never loaded.\<close>

definition load_cr3 :: "sched \<Rightarrow> u8 \<Rightarrow> u64 \<Rightarrow> sched" where
  "load_cr3 s c root = (if root \<noteq> 0 \<and> sc_cr3 s c \<noteq> root then s\<lparr>sc_cr3 := (sc_cr3 s)(c := root)\<rparr> else s)"

definition activate_task_address_space :: "sched \<Rightarrow> u8 \<Rightarrow> task \<Rightarrow> sched" where
  "activate_task_address_space s c t =
     (if t_user_data t \<noteq> 0
      then case pv_address_space (sc_contexts s (t_user_data t)) of
             Some root \<Rightarrow> load_cr3 s c (if root \<noteq> 0 then root else sc_kernel_cr3 s)
           | None \<Rightarrow> load_cr3 s c (sc_kernel_cr3 s)
      else load_cr3 s c (sc_kernel_cr3 s))"

definition write_fs_base :: "sched \<Rightarrow> u8 \<Rightarrow> u64 \<Rightarrow> sched" where
  "write_fs_base s c v = (if sc_fs_base s c \<noteq> v then s\<lparr>sc_fs_base := (sc_fs_base s)(c := v)\<rparr> else s)"

definition activate_task_thread_pointer :: "sched \<Rightarrow> u8 \<Rightarrow> task \<Rightarrow> sched" where
  "activate_task_thread_pointer s c t =
     write_fs_base s c (if t_user_data t \<noteq> 0 then pv_user_thread_pointer (sc_contexts s (t_user_data t)) else 0)"

section \<open>Operations\<close>

definition sched_init :: "platform \<Rightarrow> sched \<Rightarrow> u8 \<Rightarrow> sched" where
  "sched_init p s c =
     (let s = s\<lparr>g_tasks := replicate MAX_TASKS zero_task, g_per_cpu_task := (\<lambda>_. SCHED_NO_TASK), g_yield_in_progress := (\<lambda>_. False)\<rparr>;
          s = fold (\<lambda>i s. init_cpu_idle_frame p s (word_of_nat i)) [0..<256] s;
          s = s\<lparr>g_task_count := 0, g_next_task_id := 1, g_scheduler_active := False, g_tick_count := 0, g_bsp_apic_id := c\<rparr>
      in pit_init (pic_remap s))"

definition set_context_task :: "sched \<Rightarrow> u64 \<Rightarrow> u64 \<Rightarrow> sched" where
  "set_context_task s user_data task_id =
     (if user_data \<noteq> 0
      then s\<lparr>sc_contexts := (sc_contexts s)(user_data := (sc_contexts s user_data)\<lparr>pv_task_id := task_id\<rparr>)\<rparr>
      else s)"

definition new_task :: "task \<Rightarrow> string \<Rightarrow> u64 \<Rightarrow> bool \<Rightarrow> task" where
  "new_task t name task_id active =
     t\<lparr>t_name := name, t_id := task_id, t_state := ready, t_wake_tick := 0, t_xsave_valid := False, t_allow_secondary_cpu := active,
       t_affinity_cpu := SCHED_CPU_NONE, t_current_cpu := SCHED_CPU_NONE, t_last_cpu := SCHED_CPU_NONE, t_run_tick_start := 0, t_cpu_ticks := 0\<rparr>"

definition create_task :: "platform \<Rightarrow> sched \<Rightarrow> string \<Rightarrow> u64 \<Rightarrow> u64 \<Rightarrow> sched \<times> int" where
  "create_task p s name entry user_data =
     (let slot = find_available_task_slot s in
      if slot \<ge> MAX_TASKS then (s, -1)
      else
        let (ok, nm) = ss_assign 32 name in
        if \<not> ok then (set_task s slot ((task_at s slot)\<lparr>t_name := nm\<rparr>), -1)
        else
          let task_id = g_next_task_id s;
              s = set_task s slot (new_task (task_at s slot) nm task_id (g_scheduler_active s));
              s = set_context_task (s\<lparr>g_next_task_id := task_id + 1\<rparr>) user_data task_id;
              s = (if slot = g_task_count s then s\<lparr>g_task_count := g_task_count s + 1\<rparr> else s)
          in (init_task_stack_frame p s slot entry user_data, sint task_id))"

definition replace_current_task_context :: "sched \<Rightarrow> u8 \<Rightarrow> string \<Rightarrow> u64 \<Rightarrow> sched \<times> bool" where
  "replace_current_task_context s c name user_data =
     (let (ok, nm) = ss_assign 32 name in
      if \<not> ok then (s, False)
      else
        let cur = cpu_current_task s c in
        if cur \<ge> g_task_count s \<or> t_state (task_at s cur) = terminated then (s, False)
        else
          let s = set_task s cur ((task_at s cur)\<lparr>t_name := nm, t_user_data := user_data\<rparr>)
          in (set_context_task s user_data (t_id (task_at s cur)), True))"

text \<open>\<open>yield\<close> up to its software interrupt, which enters \<open>preempt\<close>.\<close>

definition yield_request :: "sched \<Rightarrow> u8 \<Rightarrow> sched" where
  "yield_request s c =
     (if \<not> g_scheduler_active s \<or> g_task_count s < 2 then s
      else s\<lparr>g_yield_in_progress := (g_yield_in_progress s)(c := True)\<rparr>)"

definition tick_interrupt :: "platform \<Rightarrow> sched \<Rightarrow> u8 \<Rightarrow> sched" where
  "tick_interrupt p s c =
     (let s = (if g_yield_in_progress s c then s\<lparr>g_yield_in_progress := (g_yield_in_progress s)(c := False)\<rparr>
               else if c = g_bsp_apic_id s then s\<lparr>g_tick_count := g_tick_count s + 1\<rparr>
               else s)
      in lapic_write p (pic_eoi s) c LAPIC_EOI 0)"

text \<open>The current task leaves the CPU; the second component is the context to clean up, or null.\<close>

definition save_current :: "sched \<Rightarrow> u8 \<Rightarrow> nat \<Rightarrow> u64 \<Rightarrow> bool \<Rightarrow> sched \<times> u64" where
  "save_current s c cur regs timer_tick =
     (if cur < g_task_count s then
        let t = account_task_ticks s (task_at s cur) c timer_tick;
            t = t\<lparr>t_rsp := regs, t_xsave_area := sanitize_fxsave_area (sc_fpu s c), t_xsave_valid := True\<rparr>;
            reap = t_state t = terminated \<and> t_user_data t \<noteq> 0;
            ctx = (if reap then t_user_data t else 0);
            t = (if reap then t\<lparr>t_user_data := 0\<rparr>
                 else if t_state t = running then t\<lparr>t_state := ready\<rparr> else t)
        in (set_task s cur (t\<lparr>t_current_cpu := SCHED_CPU_NONE, t_run_tick_start := 0\<rparr>), ctx)
      else (s, 0))"

definition cleanup_context :: "sched \<Rightarrow> u64 \<Rightarrow> sched" where
  "cleanup_context s ctx = (if ctx \<noteq> 0 then s\<lparr>sc_cleaned := sc_cleaned s @ [ctx]\<rparr> else s)"

definition dispatch_task :: "sched \<Rightarrow> u8 \<Rightarrow> u8 \<Rightarrow> nat \<Rightarrow> sched" where
  "dispatch_task s c this_apic next =
     (let t = task_at s next in
      set_task (cpu_set_current_task s c next) next
        (t\<lparr>t_state := running,
           t_affinity_cpu := (if t_affinity_cpu t = SCHED_CPU_NONE then ucast this_apic else t_affinity_cpu t),
           t_current_cpu := ucast this_apic, t_last_cpu := ucast this_apic, t_run_tick_start := g_tick_count s\<rparr>))"

definition restore_fpu :: "sched \<Rightarrow> u8 \<Rightarrow> nat \<Rightarrow> sched" where
  "restore_fpu s c next =
     (if t_xsave_valid (task_at s next) then
        let area = sanitize_fxsave_area (t_xsave_area (task_at s next));
            s = set_task s next ((task_at s next)\<lparr>t_xsave_area := area\<rparr>)
        in s\<lparr>sc_fpu := (sc_fpu s)(c := area)\<rparr>
      else s)"

definition preempt :: "platform \<Rightarrow> sched \<Rightarrow> u8 \<Rightarrow> u64 \<Rightarrow> sched \<times> u64" where
  "preempt p s c regs =
     (let timer_tick = (\<not> g_yield_in_progress s c);
          s = tick_interrupt p s c in
      if \<not> g_scheduler_active s \<or> g_task_count s < 2 then (s, regs)
      else
        let s = wake_sleeping_tasks s;
            cur = cpu_current_task s c;
            (s, terminated_ctx) = save_current s c cur regs timer_tick;
            next = pick_next_task s c cur in
        if next \<ge> g_task_count s then
          if cur < g_task_count s \<and> \<not> is_runnable (task_at s cur) then
            let s = init_cpu_idle_frame p (cpu_set_current_task s c SCHED_NO_TASK) c;
                s = write_fs_base (load_cr3 s c (sc_kernel_cr3 s)) c 0
            in (cleanup_context s terminated_ctx, g_cpu_idle_rsp s c)
          else (s, regs)
        else
          let s = dispatch_task s c c next;
              next_rsp = t_rsp (task_at s next);
              s = cleanup_context (restore_fpu s c next) terminated_ctx;
              s = activate_task_address_space s c (task_at s next)
          in (activate_task_thread_pointer s c (task_at s next), next_rsp))"

text \<open>\<open>start\<close> on the boot CPU; \<open>None\<close> is the panic when there is no task. The result is the frame entered.\<close>

definition sched_start :: "platform \<Rightarrow> sched \<Rightarrow> u8 \<Rightarrow> (sched \<times> u64) option" where
  "sched_start p s c =
     (if g_task_count s = 0 then None
      else
        let first = pick_next_task s c SCHED_NO_TASK;
            first = (if first \<ge> g_task_count s then 0 else first);
            s = (dispatch_task s c (g_bsp_apic_id s) first)\<lparr>g_scheduler_active := True\<rparr>;
            s = activate_task_address_space s c (task_at s first);
            s = activate_task_thread_pointer s c (task_at s first);
            s = pic_unmask_irq0 p s
        in Some (s, t_rsp (task_at s first)))"

text \<open>\<open>start_ap\<close> before the calibration loop, and after it with the sample it took.\<close>

definition start_ap_enter :: "sched \<Rightarrow> u8 \<Rightarrow> sched" where
  "start_ap_enter s c = cpu_set_current_task s c SCHED_NO_TASK"

definition start_ap_timer :: "platform \<Rightarrow> sched \<Rightarrow> u8 \<Rightarrow> u64 \<Rightarrow> u32 \<Rightarrow> sched" where
  "start_ap_timer p s c elapsed_ticks current_count =
     lapic_timer_start_periodic p (lapic_write p (lapic_timer_prepare_masked p s c) c LAPIC_INIT_COUNT 0xFFFFFFFF) c
       (lapic_counts_per_tick elapsed_ticks current_count)"

section \<open>Queries\<close>

definition current_task_id :: "sched \<Rightarrow> u8 \<Rightarrow> u64" where
  "current_task_id s c = (let t = cpu_current_task s c in if t \<ge> g_task_count s then 0 else t_id (task_at s t))"

definition current_task_name :: "sched \<Rightarrow> u8 \<Rightarrow> string" where
  "current_task_name s c = (let t = cpu_current_task s c in if t \<ge> g_task_count s then ''<idle>'' else t_name (task_at s t))"

definition current_task_user_data :: "sched \<Rightarrow> u8 \<Rightarrow> u64" where
  "current_task_user_data s c = (let t = cpu_current_task s c in if t \<ge> g_task_count s then 0 else t_user_data (task_at s t))"

definition task_user_data :: "sched \<Rightarrow> u64 \<Rightarrow> u64" where
  "task_user_data s task_id =
     (case find (\<lambda>i. t_id (task_at s i) = task_id) [0..<g_task_count s] of Some i \<Rightarrow> t_user_data (task_at s i) | None \<Rightarrow> 0)"

definition current_task_stack_bounds :: "platform \<Rightarrow> sched \<Rightarrow> u8 \<Rightarrow> (u64 \<times> u64) option" where
  "current_task_stack_bounds p s c =
     (let t = cpu_current_task s c in
      if t \<ge> g_task_count s then None else Some (pf_stack_end p t - word_of_nat TASK_STACK_SIZE, pf_stack_end p t))"

record task_snapshot =
  sn_id :: u64
  sn_state :: task_state
  sn_cpu :: u32
  sn_cpu_ticks :: u64
  sn_name :: string

definition snapshot_of :: "sched \<Rightarrow> task \<Rightarrow> task_snapshot" where
  "snapshot_of s t = \<lparr>sn_id = t_id t, sn_state = t_state t, sn_cpu = task_display_cpu t,
     sn_cpu_ticks = t_cpu_ticks t + task_live_tick_delta s t, sn_name = t_name t\<rparr>"

fun snapshot_loop :: "sched \<Rightarrow> task list \<Rightarrow> nat \<Rightarrow> task_snapshot list" where
  "snapshot_loop s [] max_tasks = []"
| "snapshot_loop s (t # ts) 0 = []"
| "snapshot_loop s (t # ts) (Suc max_tasks) =
     (if t_state t = terminated then snapshot_loop s ts (Suc max_tasks)
      else snapshot_of s t # snapshot_loop s ts max_tasks)"

definition snapshot_tasks :: "sched \<Rightarrow> nat option \<Rightarrow> task_snapshot list \<times> nat" where
  "snapshot_tasks s max_tasks =
     (let tasks = take (g_task_count s) (g_tasks s);
          total = length (filter (\<lambda>t. t_state t \<noteq> terminated) tasks)
      in (case max_tasks of None \<Rightarrow> [] | Some m \<Rightarrow> snapshot_loop s tasks m, total))"

definition live_task_index :: "sched \<Rightarrow> u64 \<Rightarrow> nat option" where
  "live_task_index s task_id =
     find (\<lambda>i. \<not> (t_id (task_at s i) \<noteq> task_id \<or> t_state (task_at s i) = terminated)) [0..<g_task_count s]"

definition snapshot_task :: "sched \<Rightarrow> u64 \<Rightarrow> task_snapshot option" where
  "snapshot_task s task_id = map_option (\<lambda>i. snapshot_of s (task_at s i)) (live_task_index s task_id)"

definition task_blocked_off_cpu :: "sched \<Rightarrow> u64 \<Rightarrow> bool" where
  "task_blocked_off_cpu s task_id =
     (case live_task_index s task_id of
        Some i \<Rightarrow> t_state (task_at s i) = blocked \<and> t_current_cpu (task_at s i) = SCHED_CPU_NONE
      | None \<Rightarrow> False)"

section \<open>Blocking and termination\<close>

text \<open>The locked section of \<open>sleep\<close> for a non-zero number of ticks, and the condition of its loop.\<close>

definition sleep_block :: "sched \<Rightarrow> u8 \<Rightarrow> u64 \<Rightarrow> sched option" where
  "sleep_block s c ticks =
     (let cur = cpu_current_task s c in
      if cur \<ge> MAX_TASKS then None
      else Some (set_task s cur ((task_at s cur)\<lparr>t_wake_tick := g_tick_count s + ticks, t_state := blocked\<rparr>)))"

definition sleep_waiting :: "sched \<Rightarrow> u8 \<Rightarrow> bool option" where
  "sleep_waiting s c =
     (let cur = cpu_current_task s c in
      if cur \<ge> MAX_TASKS then None else Some (t_state (task_at s cur) = blocked))"

text \<open>One round of \<open>wait_for_task\<close>: does it return?\<close>

definition wait_for_task_done :: "sched \<Rightarrow> u64 \<Rightarrow> bool" where
  "wait_for_task_done s task_id =
     (case find (\<lambda>i. t_id (task_at s i) = task_id) [0..<g_task_count s] of
        Some i \<Rightarrow> t_state (task_at s i) = terminated \<and> t_current_cpu (task_at s i) = SCHED_CPU_NONE \<and> t_user_data (task_at s i) = 0
      | None \<Rightarrow> True)"

definition terminate_task :: "sched \<Rightarrow> u64 \<Rightarrow> sched \<times> bool" where
  "terminate_task s task_id =
     (case find (\<lambda>i. t_id (task_at s i) = task_id) [0..<g_task_count s] of
        None \<Rightarrow> (s, False)
      | Some i \<Rightarrow>
          if i = 0 then (s, False)
          else
            let t = (task_at s i)\<lparr>t_state := terminated, t_wake_tick := 0, t_affinity_cpu := SCHED_CPU_NONE\<rparr>;
                t = (if t_current_cpu t = SCHED_CPU_NONE then t\<lparr>t_last_cpu := SCHED_CPU_NONE, t_run_tick_start := 0\<rparr> else t);
                reap = t_current_cpu t = SCHED_CPU_NONE \<and> t_user_data t \<noteq> 0;
                ctx = (if reap then t_user_data t else 0);
                t = (if reap then t\<lparr>t_user_data := 0\<rparr> else t)
            in (cleanup_context (set_task s i t) ctx, True))"

text \<open>The locked section of \<open>exit_task\<close>.\<close>

definition exit_task :: "sched \<Rightarrow> u8 \<Rightarrow> sched option" where
  "exit_task s c =
     (let cur = cpu_current_task s c in
      if cur \<ge> MAX_TASKS then None
      else Some (set_task s cur ((task_at s cur)\<lparr>t_state := terminated, t_affinity_cpu := SCHED_CPU_NONE, t_user_data := 0\<rparr>)))"

definition detach_current_task :: "sched \<Rightarrow> u8 \<Rightarrow> sched \<times> u64" where
  "detach_current_task s c =
     (let cur = cpu_current_task s c in
      if cur < g_task_count s then
        (set_task s cur ((task_at s cur)\<lparr>t_user_data := 0, t_state := terminated, t_affinity_cpu := SCHED_CPU_NONE\<rparr>),
         t_user_data (task_at s cur))
      else (s, 0))"

section \<open>The end of a process\<close>

text \<open>
  \<open>stub_exit\<close>: the process cleans up its own context, which its task still holds, and exits. A process
  whose entry point returns ends the same way: \<open>process_task_main\<close> cleans up the context and the
  trampoline calls \<open>exit_task\<close>; so does the end of \<open>exec_impl\<close>.
\<close>

definition stub_exit :: "sched \<Rightarrow> u8 \<Rightarrow> sched option" where
  "stub_exit s c = exit_task (cleanup_context s (current_task_user_data s c)) c"

text \<open>
  \<open>exec_impl\<close> once the new context is loaded, up to the cleanup of the old one: the result is the
  context that is no longer the task's and is cleaned up next, or \<open>None\<close> when the call fails.
\<close>

definition exec_switch :: "sched \<Rightarrow> u8 \<Rightarrow> string \<Rightarrow> u64 \<Rightarrow> sched \<times> u64 option" where
  "exec_switch s c name next_ctx =
     (let current_ctx = current_task_user_data s c; task_id = current_task_id s c in
      if current_ctx = 0 \<or> task_id = 0 then (s, None)
      else
        let s = set_context_task s next_ctx task_id;
            (s, ok) = replace_current_task_context s c name next_ctx
        in (s, if ok then Some current_ctx else None))"

end
