(* ===== verification/SchedInv.thy ===== *)
theory SchedInv
  imports Sched
begin

text \<open>
  The invariant of the scheduler and that every operation keeps it: a CPU's current task records
  that CPU and no other CPU has it, a running task is on a CPU, a task that is on a CPU is pinned
  to it unless it was terminated, task ids are unique, and a terminated task that has left its CPU
  has no process context.
\<close>

section \<open>The invariant\<close>

abbreviation cpu32 :: "u8 \<Rightarrow> u32" where "cpu32 c \<equiv> ucast c"

lemma len8_le32: "LENGTH(8) \<le> LENGTH(32)"
  by simp

lemma cpu32_bound: "unat (cpu32 c) < 256"
  using unat_less_exp [of c] by (simp add: unat_ucast_up)

lemma cpu32_neq_none [simp]: "cpu32 c \<noteq> SCHED_CPU_NONE" "SCHED_CPU_NONE \<noteq> cpu32 c"
  using cpu32_bound [of c] by (auto simp: SCHED_CPU_NONE_def)

lemma cpu32_inj [simp]: "cpu32 c = cpu32 d \<longleftrightarrow> c = d"
proof
  assume "cpu32 c = cpu32 d"
  then have "unat (cpu32 c) = unat (cpu32 d)" by simp
  then show "c = d" by (simp only: unat_ucast_up word_eq_unatI len8_le32)
qed simp

definition task_ok :: "sched \<Rightarrow> nat \<Rightarrow> bool" where
  "task_ok s i \<longleftrightarrow>
     (let t = task_at s i in
      (t_current_cpu t \<noteq> SCHED_CPU_NONE \<longrightarrow> (\<exists>c. t_current_cpu t = cpu32 c \<and> g_per_cpu_task s c = i)) \<and>
      (t_state t = running \<longrightarrow> t_current_cpu t \<noteq> SCHED_CPU_NONE) \<and>
      (t_current_cpu t \<noteq> SCHED_CPU_NONE \<longrightarrow> t_state t \<noteq> terminated \<longrightarrow> t_affinity_cpu t = t_current_cpu t) \<and>
      (t_state t = terminated \<longrightarrow> t_current_cpu t = SCHED_CPU_NONE \<longrightarrow> t_user_data t = 0) \<and>
      (\<not> g_scheduler_active s \<longrightarrow> t_affinity_cpu t = SCHED_CPU_NONE \<and> t_current_cpu t = SCHED_CPU_NONE) \<and>
      t_id t < g_next_task_id s)"

definition cpu_ok :: "sched \<Rightarrow> u8 \<Rightarrow> bool" where
  "cpu_ok s c \<longleftrightarrow>
     (let i = g_per_cpu_task s c in
      i = SCHED_NO_TASK \<or>
      i < g_task_count s \<and> t_current_cpu (task_at s i) = cpu32 c \<and> (i = 0 \<longrightarrow> c = g_bsp_apic_id s) \<and>
      (c \<noteq> g_bsp_apic_id s \<longrightarrow> i = 0 \<or> t_allow_secondary_cpu (task_at s i)))"

definition ids_ok :: "sched \<Rightarrow> bool" where
  "ids_ok s \<longleftrightarrow> (\<forall>i<g_task_count s. \<forall>j<g_task_count s. t_id (task_at s i) = t_id (task_at s j) \<longrightarrow> i = j)"

definition sched_ok :: "sched \<Rightarrow> bool" where
  "sched_ok s \<longleftrightarrow> length (g_tasks s) = MAX_TASKS \<and> g_task_count s \<le> MAX_TASKS \<and>
     (\<forall>i<g_task_count s. task_ok s i) \<and> (\<forall>c. cpu_ok s c) \<and> ids_ok s"

lemma sched_okD:
  assumes "sched_ok s"
  shows "length (g_tasks s) = MAX_TASKS" "g_task_count s \<le> MAX_TASKS" "i < g_task_count s \<Longrightarrow> task_ok s i" "cpu_ok s c" "ids_ok s"
  using assms by (simp_all add: sched_ok_def)

lemma cpu_okE:
  assumes "sched_ok s"
  obtains "g_per_cpu_task s c = SCHED_NO_TASK" "\<not> g_per_cpu_task s c < g_task_count s"
  | "g_per_cpu_task s c < g_task_count s" "t_current_cpu (task_at s (g_per_cpu_task s c)) = cpu32 c"
    "g_per_cpu_task s c = 0 \<longrightarrow> c = g_bsp_apic_id s"
    "c \<noteq> g_bsp_apic_id s \<longrightarrow> g_per_cpu_task s c = 0 \<or> t_allow_secondary_cpu (task_at s (g_per_cpu_task s c))"
  using sched_okD(4) [OF assms, of c] sched_okD(2) [OF assms] by (auto simp: cpu_ok_def Let_def SCHED_NO_TASK_def)

text \<open>No task is current on two CPUs.\<close>

lemma current_on_cpu:
  assumes "sched_ok s" "g_per_cpu_task s c < g_task_count s"
  shows "t_current_cpu (task_at s (g_per_cpu_task s c)) = cpu32 c"
  by (rule cpu_okE [OF assms(1), of c]) (use assms(2) in simp_all)

lemma current_exclusive:
  assumes "sched_ok s" "g_per_cpu_task s c = g_per_cpu_task s d" "g_per_cpu_task s c < g_task_count s"
  shows "c = d"
proof -
  have "g_per_cpu_task s d < g_task_count s" using assms(2,3) by metis
  then have "cpu32 c = cpu32 d" using current_on_cpu [OF assms(1)] assms(2,3) by metis
  then show ?thesis by simp
qed

text \<open>The parts of the state the invariant does not read.\<close>

definition same_sched :: "sched \<Rightarrow> sched \<Rightarrow> bool" where
  "same_sched s s' \<longleftrightarrow> g_tasks s' = g_tasks s \<and> g_task_count s' = g_task_count s \<and> g_next_task_id s' = g_next_task_id s \<and>
     g_scheduler_active s' = g_scheduler_active s \<and> g_per_cpu_task s' = g_per_cpu_task s \<and> g_bsp_apic_id s' = g_bsp_apic_id s"

lemma same_schedD:
  assumes "same_sched s s'"
  shows "g_tasks s' = g_tasks s" "g_task_count s' = g_task_count s" "g_next_task_id s' = g_next_task_id s"
    "g_scheduler_active s' = g_scheduler_active s" "g_per_cpu_task s' = g_per_cpu_task s" "g_bsp_apic_id s' = g_bsp_apic_id s"
  using assms by (simp_all add: same_sched_def)

lemma same_sched_ok:
  assumes "same_sched s s'" shows "sched_ok s' \<longleftrightarrow> sched_ok s"
  unfolding sched_ok_def task_ok_def cpu_ok_def ids_ok_def same_schedD [OF assms] by (rule refl)

lemma same_sched_trans: "same_sched s t \<Longrightarrow> same_sched t u \<Longrightarrow> same_sched s u"
  by (simp add: same_sched_def)

lemma same_sched_basic [simp]:
  "same_sched s s" "same_sched s (load_cr3 s c r)" "same_sched s (write_fs_base s c v)" "same_sched s (cleanup_context s u)"
  "same_sched s (set_context_task s u i)" "same_sched s (outb s q b8)" "same_sched s (lapic_write p s c q32 v32)"
  "same_sched s (activate_task_address_space s c t)" "same_sched s (activate_task_thread_pointer s c t)"
  "same_sched s (init_cpu_idle_frame p s c)" "same_sched s (yield_request s c)" "same_sched s (tick_interrupt p s c)"
  "same_sched s (pic_unmask_irq0 p s)"
  by (auto simp: same_sched_def load_cr3_def write_fs_base_def cleanup_context_def set_context_task_def outb_def lapic_write_def
      activate_task_address_space_def activate_task_thread_pointer_def init_cpu_idle_frame_def init_frame_def yield_request_def
      tick_interrupt_def pic_eoi_def pic_unmask_irq0_def Let_def split: option.splits)

section \<open>Changing one task\<close>

lemma set_task_simps [simp]:
  "g_task_count (set_task s i t) = g_task_count s" "g_per_cpu_task (set_task s i t) = g_per_cpu_task s"
  "g_next_task_id (set_task s i t) = g_next_task_id s" "g_scheduler_active (set_task s i t) = g_scheduler_active s"
  "g_bsp_apic_id (set_task s i t) = g_bsp_apic_id s" "length (g_tasks (set_task s i t)) = length (g_tasks s)"
  "g_tick_count (set_task s i t) = g_tick_count s" "sc_cleaned (set_task s i t) = sc_cleaned s"
  "g_tasks (set_task s i t) = (g_tasks s)[i := t]"
  by (simp_all add: set_task_def)

text \<open>A task may be replaced by one with the same id and place that keeps its own clauses.\<close>

lemma sched_ok_set_task:
  assumes ok: "sched_ok s" and i: "i < g_task_count s"
    and keep: "t_id t = t_id (task_at s i)" "t_current_cpu t = t_current_cpu (task_at s i)"
      "t_allow_secondary_cpu t = t_allow_secondary_cpu (task_at s i)"
    and own: "task_ok (set_task s i t) i"
  shows "sched_ok (set_task s i t)"
proof -
  have il: "i < length (g_tasks s)" using sched_okD(1,2) [OF ok] i by simp
  have tasks: "task_ok (set_task s i t) j" if "j < g_task_count s" for j
    using own sched_okD(3) [OF ok that] by (cases "j = i") (auto simp: task_ok_def)
  have cpus: "cpu_ok (set_task s i t) c" for c
    using sched_okD(4) [OF ok, of c] keep il by (cases "g_per_cpu_task s c = i") (auto simp: cpu_ok_def Let_def)
  have ids: "t_id ((g_tasks s)[i := t] ! j) = t_id (task_at s j)" for j
    using keep(1) il by (cases "j = i") auto
  show ?thesis using ok tasks cpus by (simp add: sched_ok_def ids_ok_def ids)
qed

lemma task_ok_set_task: "i < length (g_tasks s) \<Longrightarrow> task_ok (set_task s i t) i \<longleftrightarrow>
     (t_current_cpu t \<noteq> SCHED_CPU_NONE \<longrightarrow> (\<exists>c. t_current_cpu t = cpu32 c \<and> g_per_cpu_task s c = i)) \<and>
      (t_state t = running \<longrightarrow> t_current_cpu t \<noteq> SCHED_CPU_NONE) \<and>
      (t_current_cpu t \<noteq> SCHED_CPU_NONE \<longrightarrow> t_state t \<noteq> terminated \<longrightarrow> t_affinity_cpu t = t_current_cpu t) \<and>
      (t_state t = terminated \<longrightarrow> t_current_cpu t = SCHED_CPU_NONE \<longrightarrow> t_user_data t = 0) \<and>
      (\<not> g_scheduler_active s \<longrightarrow> t_affinity_cpu t = SCHED_CPU_NONE \<and> t_current_cpu t = SCHED_CPU_NONE) \<and>
      t_id t < g_next_task_id s"
  by (simp add: task_ok_def Let_def)

lemma task_okD:
  assumes "task_ok s i"
  shows "t_current_cpu (task_at s i) \<noteq> SCHED_CPU_NONE \<longrightarrow> (\<exists>c. t_current_cpu (task_at s i) = cpu32 c \<and> g_per_cpu_task s c = i)"
    "t_state (task_at s i) = running \<longrightarrow> t_current_cpu (task_at s i) \<noteq> SCHED_CPU_NONE"
    "t_current_cpu (task_at s i) \<noteq> SCHED_CPU_NONE \<longrightarrow> t_state (task_at s i) \<noteq> terminated \<longrightarrow>
       t_affinity_cpu (task_at s i) = t_current_cpu (task_at s i)"
    "t_state (task_at s i) = terminated \<longrightarrow> t_current_cpu (task_at s i) = SCHED_CPU_NONE \<longrightarrow> t_user_data (task_at s i) = 0"
    "\<not> g_scheduler_active s \<longrightarrow> t_affinity_cpu (task_at s i) = SCHED_CPU_NONE \<and> t_current_cpu (task_at s i) = SCHED_CPU_NONE"
    "t_id (task_at s i) < g_next_task_id s"
  using assms by (simp_all add: task_ok_def Let_def)

section \<open>Leaving and entering a CPU\<close>

lemma cpu_set_simps [simp]:
  "g_task_count (cpu_set_current_task s c i) = g_task_count s" "g_tasks (cpu_set_current_task s c i) = g_tasks s"
  "g_per_cpu_task (cpu_set_current_task s c i) = (g_per_cpu_task s)(c := i)"
  "g_next_task_id (cpu_set_current_task s c i) = g_next_task_id s" "g_scheduler_active (cpu_set_current_task s c i) = g_scheduler_active s"
  "g_bsp_apic_id (cpu_set_current_task s c i) = g_bsp_apic_id s" "g_tick_count (cpu_set_current_task s c i) = g_tick_count s"
  "sc_cleaned (cpu_set_current_task s c i) = sc_cleaned s"
  by (simp_all add: cpu_set_current_task_def)

lemma current_elsewhere:
  assumes "sched_ok s" "j < g_task_count s" "t_current_cpu (task_at s j) \<noteq> SCHED_CPU_NONE" "j \<noteq> g_per_cpu_task s c"
  obtains d where "t_current_cpu (task_at s j) = cpu32 d" "g_per_cpu_task s d = j" "d \<noteq> c"
  using task_okD(1) [OF sched_okD(3) [OF assms(1,2)]] assms(3,4) by blast

lemma sched_ok_leave:
  assumes ok: "sched_ok s" and cur: "cur = g_per_cpu_task s c" "cur < g_task_count s"
    and t: "t_id t = t_id (task_at s cur)" "t_current_cpu t = SCHED_CPU_NONE" "t_state t \<noteq> running"
      "t_state t = terminated \<longrightarrow> t_user_data t = 0" "\<not> g_scheduler_active s \<longrightarrow> t_affinity_cpu t = SCHED_CPU_NONE"
  shows "sched_ok (cpu_set_current_task (set_task s cur t) c SCHED_NO_TASK)" (is "sched_ok ?s")
proof -
  have il: "cur < length (g_tasks s)" using sched_okD(1,2) [OF ok] cur by simp
  have tasks: "task_ok ?s j" if j: "j < g_task_count s" for j
  proof (cases "j = cur")
    case True
    then show ?thesis using t il task_okD(6) [OF sched_okD(3) [OF ok j]] by (simp add: task_ok_def)
  next
    case False
    have "\<exists>d. t_current_cpu (task_at s j) = cpu32 d \<and> g_per_cpu_task s d = j \<and> d \<noteq> c" if "t_current_cpu (task_at s j) \<noteq> SCHED_CPU_NONE"
      using current_elsewhere [OF ok j that, of c] False cur(1) by blast
    then show ?thesis using False task_okD [OF sched_okD(3) [OF ok j]] by (auto simp: task_ok_def Let_def)
  qed
  have cpus: "cpu_ok ?s d" for d
  proof (cases "d = c")
    case False
    then have "g_per_cpu_task s d \<noteq> cur" using current_exclusive [OF ok, of c d] cur by metis
    then show ?thesis using False sched_okD(4) [OF ok, of d] by (simp add: cpu_ok_def Let_def)
  qed (simp add: cpu_ok_def)
  have ids: "t_id ((g_tasks s)[cur := t] ! j) = t_id (task_at s j)" for j using t(1) il by (cases "j = cur") auto
  show ?thesis using ok tasks cpus by (simp add: sched_ok_def ids_ok_def ids)
qed

definition may_enter :: "sched \<Rightarrow> u8 \<Rightarrow> nat \<Rightarrow> bool" where
  "may_enter s c i \<longleftrightarrow> i < g_task_count s \<and> t_current_cpu (task_at s i) = SCHED_CPU_NONE \<and>
     (t_affinity_cpu (task_at s i) = SCHED_CPU_NONE \<or> t_affinity_cpu (task_at s i) = cpu32 c) \<and>
     (i = 0 \<longrightarrow> c = g_bsp_apic_id s) \<and> (c \<noteq> g_bsp_apic_id s \<longrightarrow> t_allow_secondary_cpu (task_at s i))"

lemma dispatch_simps [simp]:
  "g_task_count (dispatch_task s c d i) = g_task_count s" "g_per_cpu_task (dispatch_task s c d i) = (g_per_cpu_task s)(c := i)"
  "g_next_task_id (dispatch_task s c d i) = g_next_task_id s" "g_bsp_apic_id (dispatch_task s c d i) = g_bsp_apic_id s"
  "length (g_tasks (dispatch_task s c d i)) = length (g_tasks s)" "sc_cleaned (dispatch_task s c d i) = sc_cleaned s"
  "g_scheduler_active (dispatch_task s c d i) = g_scheduler_active s" "g_tick_count (dispatch_task s c d i) = g_tick_count s"
  by (simp_all add: dispatch_task_def Let_def)

lemma dispatch_task_at:
  assumes "i < length (g_tasks s)"
  shows "task_at (dispatch_task s c d i) j =
    (if j = i then (task_at s i)\<lparr>t_state := running,
       t_affinity_cpu := (if t_affinity_cpu (task_at s i) = SCHED_CPU_NONE then cpu32 d else t_affinity_cpu (task_at s i)),
       t_current_cpu := cpu32 d, t_last_cpu := cpu32 d, t_run_tick_start := g_tick_count s\<rparr>
     else task_at s j)"
  using assms by (simp add: dispatch_task_def Let_def)

lemma sched_ok_dispatch:
  assumes ok: "sched_ok s" and free: "g_per_cpu_task s c = SCHED_NO_TASK" and i: "may_enter s c i"
  shows "sched_ok ((dispatch_task s c c i)\<lparr>g_scheduler_active := True\<rparr>)" (is "sched_ok ?s")
proof -
  have ic: "i < g_task_count s" and cn: "t_current_cpu (task_at s i) = SCHED_CPU_NONE" using i by (auto simp: may_enter_def)
  have il: "i < length (g_tasks s)" using sched_okD(1,2) [OF ok] ic by simp
  have at: "task_at ?s = task_at (dispatch_task s c c i)" by simp
  note D = dispatch_task_at [OF il, of c c]
  have tasks: "task_ok ?s j" if j: "j < g_task_count s" for j
  proof (cases "j = i")
    case True
    then show ?thesis using i task_okD(6) [OF sched_okD(3) [OF ok j]] by (auto simp: task_ok_def Let_def D may_enter_def)
  next
    case False
    have "g_per_cpu_task s d = j \<longrightarrow> d \<noteq> c" for d using free j sched_okD(2) [OF ok] by (auto simp: SCHED_NO_TASK_def)
    then show ?thesis using False task_okD [OF sched_okD(3) [OF ok j]] by (auto simp: task_ok_def Let_def D)
  qed
  have cpus: "cpu_ok ?s d" for d
  proof (cases "d = c")
    case True
    then show ?thesis using i by (auto simp: cpu_ok_def Let_def D may_enter_def)
  next
    case False
    have "g_per_cpu_task s d < g_task_count s \<longrightarrow> g_per_cpu_task s d \<noteq> i" using current_on_cpu [OF ok, of d] cn by auto
    then show ?thesis using False sched_okD(4) [OF ok, of d] by (auto simp: cpu_ok_def Let_def D)
  qed
  have ids: "t_id (task_at (dispatch_task s c c i) j) = t_id (task_at s j)" for j by (simp add: D)
  show ?thesis using ok tasks cpus by (simp add: sched_ok_def ids_ok_def ids)
qed

section \<open>Waking and choosing\<close>

lemma wake_simps [simp]:
  "g_task_count (wake_sleeping_tasks s) = g_task_count s" "g_per_cpu_task (wake_sleeping_tasks s) = g_per_cpu_task s"
  "g_next_task_id (wake_sleeping_tasks s) = g_next_task_id s" "g_scheduler_active (wake_sleeping_tasks s) = g_scheduler_active s"
  "g_bsp_apic_id (wake_sleeping_tasks s) = g_bsp_apic_id s" "length (g_tasks (wake_sleeping_tasks s)) = length (g_tasks s)"
  "g_tick_count (wake_sleeping_tasks s) = g_tick_count s" "sc_cleaned (wake_sleeping_tasks s) = sc_cleaned s"
  "sc_fpu (wake_sleeping_tasks s) = sc_fpu s"
  by (simp_all add: wake_sleeping_tasks_def)

lemma wake_task_at:
  assumes "length (g_tasks s) = MAX_TASKS" "g_task_count s \<le> MAX_TASKS" "i < MAX_TASKS"
  shows "task_at (wake_sleeping_tasks s) i = (if i < g_task_count s then wake_task (g_tick_count s) (task_at s i) else task_at s i)"
  using assms by (simp add: wake_sleeping_tasks_def nth_append)

lemma wake_task_fields [simp]:
  "t_id (wake_task n t) = t_id t" "t_current_cpu (wake_task n t) = t_current_cpu t" "t_affinity_cpu (wake_task n t) = t_affinity_cpu t"
  "t_allow_secondary_cpu (wake_task n t) = t_allow_secondary_cpu t" "t_user_data (wake_task n t) = t_user_data t"
  "t_rsp (wake_task n t) = t_rsp t" "t_xsave_area (wake_task n t) = t_xsave_area t" "t_xsave_valid (wake_task n t) = t_xsave_valid t"
  "t_state (wake_task n t) = running \<longleftrightarrow> t_state t = running" "t_state (wake_task n t) = terminated \<longleftrightarrow> t_state t = terminated"
  by (auto simp: wake_task_def)

lemma sched_ok_wake:
  assumes ok: "sched_ok s" shows "sched_ok (wake_sleeping_tasks s)"
proof -
  note W = wake_task_at [OF sched_okD(1,2) [OF ok]]
  have b: "i < g_task_count s \<longrightarrow> i < MAX_TASKS" for i using sched_okD(2) [OF ok] by simp
  have "task_ok (wake_sleeping_tasks s) i" if "i < g_task_count s" for i
    using task_okD [OF sched_okD(3) [OF ok that]] b that by (simp add: task_ok_def Let_def W)
  moreover have "cpu_ok (wake_sleeping_tasks s) c" for c
    using sched_okD(4) [OF ok, of c] b by (auto simp: cpu_ok_def Let_def W)
  ultimately show ?thesis using ok b by (simp add: sched_ok_def ids_ok_def W)
qed

lemma pick_order_range: "j \<in> set (pick_order n cur) \<Longrightarrow> 0 < j \<and> j < n"
proof -
  assume "j \<in> set (pick_order n cur)"
  then obtain k m where "j = k mod (n - 1) + 1" "1 \<le> m" "m < n" by (auto simp: pick_order_def Let_def)
  moreover have "k mod (n - 1) < n - 1" using \<open>1 \<le> m\<close> \<open>m < n\<close> by (intro mod_less_divisor) simp
  ultimately show ?thesis by linarith
qed

lemma pick_order_covers:
  assumes "0 < j" "j < n" shows "j \<in> set (pick_order n cur)"
proof -
  define a where "a = (if 0 < cur \<and> cur < n then cur else 0)"
  have a: "a < n" using assms by (simp add: a_def)
  have "\<exists>i\<in>{1..<n}. j = (a + i - 1) mod (n - 1) + 1"
  proof (cases "a < j")
    case True
    then show ?thesis using assms by (intro bexI [of _ "j - a"]) auto
  next
    case False
    have e: "a + (j + n - 1 - a) - 1 = (j - 1) + (n - 1)" using False assms a by simp
    show ?thesis using False assms a by (intro bexI [of _ "j + n - 1 - a"]) (simp_all only: e mod_add_self2, auto)
  qed
  then show ?thesis unfolding pick_order_def Let_def a_def [symmetric] by auto
qed

lemma find_SomeD: "find P xs = Some x \<Longrightarrow> P x \<and> x \<in> set xs"
  by (induction xs) (auto split: if_splits)

lemma pick_next_cases:
  obtains (none) "pick_next_task s c cur = SCHED_NO_TASK" "\<And>j. j < g_task_count s \<Longrightarrow> \<not> eligible s c j"
  | (found) "eligible s c (pick_next_task s c cur)" "pick_next_task s c cur < g_task_count s"
proof -
  let ?f = "if g_task_count s > 1 then find (eligible s c) (pick_order (g_task_count s) cur) else None"
  have lt: "eligible s c j \<Longrightarrow> j < g_task_count s" for j by (simp add: eligible_def task_can_run_on_this_cpu_def)
  show ?thesis
  proof (cases ?f)
    case (Some nxt)
    then have "eligible s c nxt" by (auto dest: find_SomeD split: if_splits)
    moreover have "pick_next_task s c cur = nxt" using Some lt [OF calculation] by (simp add: pick_next_task_def)
    ultimately show ?thesis using found lt by simp
  next
    case None
    have no: "\<not> eligible s c j" if "0 < j" "j < g_task_count s" for j
      using None pick_order_covers [OF that, of cur] that by (auto simp: find_None_iff split: if_splits)
    show ?thesis
    proof (cases "eligible s c 0")
      case True
      then have "pick_next_task s c cur = 0" using None no [of cur] lt [OF True] by (auto simp add: pick_next_task_def)
      then show ?thesis using found True lt [OF True] by simp
    next
      case False
      then have "pick_next_task s c cur = SCHED_NO_TASK" using None no [of cur] by (auto simp add: pick_next_task_def)
      moreover have "\<not> eligible s c j" if "j < g_task_count s" for j using no [of j] False that by (cases "j = 0") auto
      ultimately show ?thesis using none by blast
    qed
  qed
qed

section \<open>Every operation keeps the invariant\<close>

lemma save_current_simps [simp]:
  "g_task_count (fst (save_current s c cur regs tt)) = g_task_count s" "g_per_cpu_task (fst (save_current s c cur regs tt)) = g_per_cpu_task s"
  "g_next_task_id (fst (save_current s c cur regs tt)) = g_next_task_id s" "g_scheduler_active (fst (save_current s c cur regs tt)) = g_scheduler_active s"
  "g_bsp_apic_id (fst (save_current s c cur regs tt)) = g_bsp_apic_id s" "sc_cleaned (fst (save_current s c cur regs tt)) = sc_cleaned s"
  "length (g_tasks (fst (save_current s c cur regs tt))) = length (g_tasks s)" "g_tick_count (fst (save_current s c cur regs tt)) = g_tick_count s"
  by (simp_all add: save_current_def Let_def)

definition saved_task :: "sched \<Rightarrow> u8 \<Rightarrow> nat \<Rightarrow> u64 \<Rightarrow> bool \<Rightarrow> task" where
  "saved_task s c cur regs tt =
     (let t = (account_task_ticks s (task_at s cur) c tt)\<lparr>t_rsp := regs, t_xsave_area := sanitize_fxsave_area (sc_fpu s c), t_xsave_valid := True\<rparr>;
          t = (if t_state t = terminated \<and> t_user_data t \<noteq> 0 then t\<lparr>t_user_data := 0\<rparr>
               else if t_state t = running then t\<lparr>t_state := ready\<rparr> else t)
      in t\<lparr>t_current_cpu := SCHED_CPU_NONE, t_run_tick_start := 0\<rparr>)"

lemma account_fields [simp]:
  "t_id (account_task_ticks s t c tt) = t_id t" "t_state (account_task_ticks s t c tt) = t_state t"
  "t_user_data (account_task_ticks s t c tt) = t_user_data t" "t_affinity_cpu (account_task_ticks s t c tt) = t_affinity_cpu t"
  "t_allow_secondary_cpu (account_task_ticks s t c tt) = t_allow_secondary_cpu t" "t_current_cpu (account_task_ticks s t c tt) = t_current_cpu t"
  "t_wake_tick (account_task_ticks s t c tt) = t_wake_tick t"
  by (simp_all add: account_task_ticks_def Let_def)

lemma saved_task_fields [simp]:
  "t_id (saved_task s c cur regs tt) = t_id (task_at s cur)" "t_current_cpu (saved_task s c cur regs tt) = SCHED_CPU_NONE"
  "t_affinity_cpu (saved_task s c cur regs tt) = t_affinity_cpu (task_at s cur)"
  "t_allow_secondary_cpu (saved_task s c cur regs tt) = t_allow_secondary_cpu (task_at s cur)"
  "t_rsp (saved_task s c cur regs tt) = regs" "t_xsave_valid (saved_task s c cur regs tt)"
  "t_xsave_area (saved_task s c cur regs tt) = sanitize_fxsave_area (sc_fpu s c)"
  "t_state (saved_task s c cur regs tt) = (if t_state (task_at s cur) = running then ready else t_state (task_at s cur))"
  "t_user_data (saved_task s c cur regs tt) = (if t_state (task_at s cur) = terminated then 0 else t_user_data (task_at s cur))"
  by (simp_all add: saved_task_def Let_def)

lemma save_current_eq:
  "save_current s c cur regs tt =
     (if cur < g_task_count s then
        (set_task s cur (saved_task s c cur regs tt), if t_state (task_at s cur) = terminated then t_user_data (task_at s cur) else 0)
      else (s, 0))"
  by (simp add: save_current_def saved_task_def Let_def)

lemma sched_ok_save:
  assumes ok: "sched_ok s"
  shows "sched_ok (cpu_set_current_task (fst (save_current s c (g_per_cpu_task s c) regs tt)) c SCHED_NO_TASK)"
proof (cases "g_per_cpu_task s c < g_task_count s")
  case True
  then show ?thesis using task_okD(5) [OF sched_okD(3) [OF ok True]]
    by (simp add: save_current_eq) (intro sched_ok_leave [OF ok refl True], auto)
next
  case False
  have "g_per_cpu_task s c = SCHED_NO_TASK" by (rule cpu_okE [OF ok, of c]) (use False in simp_all)
  then have "cpu_set_current_task s c SCHED_NO_TASK = s" by (simp add: cpu_set_current_task_def fun_upd_idem)
  then show ?thesis using False ok by (simp add: save_current_eq)
qed

lemma eligible_may_enter:
  assumes ok: "sched_ok (cpu_set_current_task s c SCHED_NO_TASK)" and e: "eligible s c i"
  shows "may_enter (cpu_set_current_task s c SCHED_NO_TASK) c i"
proof -
  have i: "i < g_task_count s" and m: "t_affinity_cpu (task_at s i) = SCHED_CPU_NONE \<or> t_affinity_cpu (task_at s i) = cpu32 c"
    and r: "t_state (task_at s i) = ready"
    using e by (auto simp: eligible_def task_can_run_on_this_cpu_def task_matches_cpu_affinity_def)
  have tk: "task_ok (cpu_set_current_task s c SCHED_NO_TASK) i" using sched_okD(3) [OF ok] i by simp
  have "t_current_cpu (task_at s i) = SCHED_CPU_NONE"
  proof (rule ccontr)
    assume n: "t_current_cpu (task_at s i) \<noteq> SCHED_CPU_NONE"
    obtain d where d: "t_current_cpu (task_at s i) = cpu32 d" "((g_per_cpu_task s)(c := SCHED_NO_TASK)) d = i"
      using task_okD(1) [OF tk] n by auto
    have "d = c" using task_okD(3) [OF tk] n r m d(1) by auto
    then show False using d(2) i sched_okD(2) [OF ok] by (simp add: SCHED_NO_TASK_def)
  qed
  then show ?thesis using e i m
    by (auto simp: may_enter_def eligible_def task_can_run_on_this_cpu_def cpu_allows_shared_idle_def split: if_splits)
qed

lemma dispatch_after_leave: "dispatch_task (cpu_set_current_task s c j) c d i = dispatch_task s c d i"
  by (simp add: dispatch_task_def cpu_set_current_task_def Let_def set_task_def)

lemma restore_fpu_ok:
  assumes "sched_ok s" "i < g_task_count s" shows "sched_ok (restore_fpu s c i)"
proof (cases "t_xsave_valid (task_at s i)")
  case True
  let ?t = "(task_at s i)\<lparr>t_xsave_area := sanitize_fxsave_area (t_xsave_area (task_at s i))\<rparr>"
  have il: "i < length (g_tasks s)" using sched_okD(1,2) [OF assms(1)] assms(2) by simp
  have "sched_ok (set_task s i ?t)"
    using task_okD [OF sched_okD(3) [OF assms]] by (intro sched_ok_set_task [OF assms]) (simp_all add: task_ok_set_task il)
  moreover have "same_sched (set_task s i ?t) (restore_fpu s c i)" using True by (simp add: restore_fpu_def same_sched_def Let_def)
  ultimately show ?thesis using same_sched_ok by blast
qed (use assms in \<open>simp add: restore_fpu_def\<close>)

lemma restore_fpu_simps [simp]:
  "g_task_count (restore_fpu s c i) = g_task_count s" "g_per_cpu_task (restore_fpu s c i) = g_per_cpu_task s"
  "g_scheduler_active (restore_fpu s c i) = g_scheduler_active s" "sc_cleaned (restore_fpu s c i) = sc_cleaned s"
  "g_tick_count (restore_fpu s c i) = g_tick_count s" "g_bsp_apic_id (restore_fpu s c i) = g_bsp_apic_id s"
  "g_next_task_id (restore_fpu s c i) = g_next_task_id s" "length (g_tasks (restore_fpu s c i)) = length (g_tasks s)"
  by (simp_all add: restore_fpu_def Let_def)

lemma sched_active_idem: "g_scheduler_active s \<Longrightarrow> s\<lparr>g_scheduler_active := True\<rparr> = s"
  by simp

text \<open>The state in which \<open>preempt\<close> chooses the next task.\<close>

definition at_pick :: "platform \<Rightarrow> sched \<Rightarrow> u8 \<Rightarrow> u64 \<Rightarrow> sched" where
  "at_pick p s c regs =
     (let s1 = wake_sleeping_tasks (tick_interrupt p s c)
      in fst (save_current s1 c (g_per_cpu_task s c) regs (\<not> g_yield_in_progress s c)))"

definition picked :: "platform \<Rightarrow> sched \<Rightarrow> u8 \<Rightarrow> u64 \<Rightarrow> nat" where
  "picked p s c regs = pick_next_task (at_pick p s c regs) c (g_per_cpu_task s c)"

definition reaped :: "platform \<Rightarrow> sched \<Rightarrow> u8 \<Rightarrow> u64" where
  "reaped p s c =
     (let cur = g_per_cpu_task s c; t = task_at (wake_sleeping_tasks (tick_interrupt p s c)) cur
      in if cur < g_task_count s \<and> t_state t = terminated then t_user_data t else 0)"

lemma tick_simps [simp]:
  "g_task_count (tick_interrupt p s c) = g_task_count s" "g_per_cpu_task (tick_interrupt p s c) = g_per_cpu_task s"
  "g_tasks (tick_interrupt p s c) = g_tasks s" "g_scheduler_active (tick_interrupt p s c) = g_scheduler_active s"
  "sc_cleaned (tick_interrupt p s c) = sc_cleaned s" "g_bsp_apic_id (tick_interrupt p s c) = g_bsp_apic_id s"
  "g_next_task_id (tick_interrupt p s c) = g_next_task_id s" "sc_fpu (tick_interrupt p s c) = sc_fpu s"
  by (simp_all add: tick_interrupt_def Let_def lapic_write_def pic_eoi_def outb_def)

lemma at_pick_simps [simp]:
  "g_task_count (at_pick p s c regs) = g_task_count s" "g_per_cpu_task (at_pick p s c regs) = g_per_cpu_task s"
  "g_scheduler_active (at_pick p s c regs) = g_scheduler_active s" "sc_cleaned (at_pick p s c regs) = sc_cleaned s"
  "g_bsp_apic_id (at_pick p s c regs) = g_bsp_apic_id s" "length (g_tasks (at_pick p s c regs)) = length (g_tasks s)"
  "g_next_task_id (at_pick p s c regs) = g_next_task_id s"
  by (simp_all add: at_pick_def Let_def)

text \<open>\<open>preempt\<close> by cases: nothing to schedule, nothing runnable, or a task is entered.\<close>

lemma preempt_eq:
  "preempt p s c regs =
     (if \<not> g_scheduler_active s \<or> g_task_count s < 2 then (tick_interrupt p s c, regs)
      else
        let cur = g_per_cpu_task s c; s1 = at_pick p s c regs; nxt = picked p s c regs in
        if nxt \<ge> g_task_count s then
          if cur < g_task_count s \<and> \<not> is_runnable (task_at s1 cur) then
            let s2 = init_cpu_idle_frame p (cpu_set_current_task s1 c SCHED_NO_TASK) c;
                s3 = write_fs_base (load_cr3 s2 c (sc_kernel_cr3 s2)) c 0
            in (cleanup_context s3 (reaped p s c), g_cpu_idle_rsp s3 c)
          else (s1, regs)
        else
          let s2 = dispatch_task s1 c c nxt; s3 = cleanup_context (restore_fpu s2 c nxt) (reaped p s c);
              s4 = activate_task_address_space s3 c (task_at s3 nxt)
          in (activate_task_thread_pointer s4 c (task_at s4 nxt), t_rsp (task_at s2 nxt)))"
proof -
  let ?w = "wake_sleeping_tasks (tick_interrupt p s c)"
  have "save_current ?w c (g_per_cpu_task s c) regs (\<not> g_yield_in_progress s c) = (at_pick p s c regs, reaped p s c)"
    by (simp add: at_pick_def reaped_def save_current_eq Let_def)
  then show ?thesis
    unfolding preempt_def Let_def cpu_current_task_def picked_def by (simp add: Let_def cong: if_cong)
qed

lemma sched_ok_at_pick:
  assumes "sched_ok s" shows "sched_ok (cpu_set_current_task (at_pick p s c regs) c SCHED_NO_TASK)"
proof -
  have "sched_ok (tick_interrupt p s c)" using assms same_sched_ok [OF same_sched_basic(12)] by blast
  then have "sched_ok (wake_sleeping_tasks (tick_interrupt p s c))" by (rule sched_ok_wake)
  from sched_ok_save [OF this, of c] show ?thesis by (simp add: at_pick_def Let_def)
qed

lemma current_stays_eligible:
  assumes ok: "sched_ok s" and cur: "g_per_cpu_task s c < g_task_count s" and r: "is_runnable (task_at (at_pick p s c regs) (g_per_cpu_task s c))"
  shows "eligible (at_pick p s c regs) c (g_per_cpu_task s c)"
proof -
  let ?w = "wake_sleeping_tasks (tick_interrupt p s c)" and ?i = "g_per_cpu_task s c"
  have okw: "sched_ok ?w" using sched_ok_wake same_sched_ok [OF same_sched_basic(12)] ok by blast
  have il: "?i < length (g_tasks ?w)" using sched_okD(1,2) [OF okw] cur by simp
  have at: "task_at (at_pick p s c regs) ?i = saved_task ?w c ?i regs (\<not> g_yield_in_progress s c)"
    using cur il by (simp add: at_pick_def save_current_eq Let_def)
  have cw: "g_per_cpu_task ?w c < g_task_count ?w" using cur by simp
  have "t_current_cpu (task_at ?w ?i) = cpu32 c" using current_on_cpu [OF okw cw] by simp
  moreover have st: "t_state (task_at ?w ?i) \<noteq> terminated" "t_state (saved_task ?w c ?i regs (\<not> g_yield_in_progress s c)) = ready"
    using r by (auto simp: at is_runnable_def split: if_splits)
  ultimately have "t_affinity_cpu (task_at ?w ?i) = cpu32 c" using task_okD(3) [OF sched_okD(3) [OF okw]] cw by simp
  moreover have "(?i = 0 \<longrightarrow> c = g_bsp_apic_id s) \<and> (c \<noteq> g_bsp_apic_id s \<longrightarrow> t_allow_secondary_cpu (task_at ?w ?i))"
    by (rule cpu_okE [OF okw, of c]) (use cur in auto)
  ultimately show ?thesis using cur st
    by (auto simp: eligible_def task_can_run_on_this_cpu_def task_matches_cpu_affinity_def cpu_allows_shared_idle_def at)
qed

lemma sched_ok_preempt:
  assumes ok: "sched_ok s" shows "sched_ok (fst (preempt p s c regs))"
proof (cases "\<not> g_scheduler_active s \<or> g_task_count s < 2")
  case True
  then show ?thesis using ok same_sched_ok [OF same_sched_basic(12)] by (auto simp: preempt_eq)
next
  case False
  let ?s1 = "at_pick p s c regs" and ?cur = "g_per_cpu_task s c" and ?n = "picked p s c regs"
  note ok1 = sched_ok_at_pick [OF ok, of p c regs]
  have act: "g_scheduler_active ?s1" using False by simp
  show ?thesis
  proof (cases "?n \<ge> g_task_count s")
    case True
    then have none: "\<not> eligible ?s1 c j" if "j < g_task_count s" for j
      using that by (cases rule: pick_next_cases [of ?s1 c ?cur]) (auto simp: picked_def)
    show ?thesis
    proof (cases "?cur < g_task_count s \<and> \<not> is_runnable (task_at ?s1 ?cur)")
      case idle: True
      let ?a = "cpu_set_current_task ?s1 c SCHED_NO_TASK"
      let ?b = "init_cpu_idle_frame p ?a c"
      have "same_sched ?a (cleanup_context (write_fs_base (load_cr3 ?b c (sc_kernel_cr3 ?b)) c 0) (reaped p s c))"
        by (meson same_sched_basic same_sched_trans)
      then show ?thesis using ok1 False True idle same_sched_ok by (simp add: preempt_eq Let_def)
    next
      case stay: False
      then have "\<not> ?cur < g_task_count s" using none [of ?cur] current_stays_eligible [OF ok] by blast
      moreover from this have "?cur = SCHED_NO_TASK" by (rule_tac cpu_okE [OF ok, of c]) simp_all
      ultimately have "cpu_set_current_task ?s1 c SCHED_NO_TASK = ?s1" by (simp add: cpu_set_current_task_def fun_upd_idem)
      then have "fst (preempt p s c regs) = cpu_set_current_task ?s1 c SCHED_NO_TASK"
        using False True stay by (auto simp: preempt_eq Let_def)
      then show ?thesis using ok1 by simp
    qed
  next
    case entered: False
    then have el: "eligible ?s1 c ?n" using sched_okD(2) [OF ok]
      by (cases rule: pick_next_cases [of ?s1 c ?cur]) (auto simp: picked_def SCHED_NO_TASK_def)
    let ?d = "dispatch_task ?s1 c c ?n"
    have "sched_ok ((dispatch_task (cpu_set_current_task ?s1 c SCHED_NO_TASK) c c ?n)\<lparr>g_scheduler_active := True\<rparr>)"
      using eligible_may_enter [OF ok1 el] by (intro sched_ok_dispatch [OF ok1]) simp_all
    then have "sched_ok ?d" using act by (simp add: dispatch_after_leave sched_active_idem)
    then have "sched_ok (restore_fpu ?d c ?n)" using entered by (intro restore_fpu_ok) simp_all
    moreover have "same_sched (restore_fpu ?d c ?n) (fst (preempt p s c regs))"
      using False entered by (simp add: preempt_eq Let_def) (meson same_sched_basic same_sched_trans)
    ultimately show ?thesis using same_sched_ok by blast
  qed
qed

lemma same_task_fields_ok:
  assumes ok: "sched_ok s" and i: "i < g_task_count s"
    and t: "t_id t = t_id (task_at s i)" "t_current_cpu t = t_current_cpu (task_at s i)"
      "t_allow_secondary_cpu t = t_allow_secondary_cpu (task_at s i)"
    and st: "t_state t = t_state (task_at s i) \<and> t_affinity_cpu t = t_affinity_cpu (task_at s i) \<and> t_state t \<noteq> terminated \<or>
      t_state t = terminated \<and> t_affinity_cpu t = SCHED_CPU_NONE \<and> (t_current_cpu t = SCHED_CPU_NONE \<longrightarrow> t_user_data t = 0) \<or>
      t_state t = blocked \<and> t_state (task_at s i) \<noteq> terminated \<and> t_affinity_cpu t = t_affinity_cpu (task_at s i)"
  shows "sched_ok (set_task s i t)"
proof -
  have il: "i < length (g_tasks s)" using sched_okD(1,2) [OF ok] i by simp
  show ?thesis using st task_okD [OF sched_okD(3) [OF ok i]]
    by (intro sched_ok_set_task [OF ok i t]) (auto simp: task_ok_set_task il t)
qed

lemma exit_task_eq:
  assumes "sched_ok s" "exit_task s c = Some s'"
  shows "g_per_cpu_task s c < g_task_count s" "s' = set_task s (g_per_cpu_task s c)
      ((task_at s (g_per_cpu_task s c))\<lparr>t_state := terminated, t_affinity_cpu := SCHED_CPU_NONE, t_user_data := 0\<rparr>)"
  using assms(2) by (rule_tac [!] cpu_okE [OF assms(1), of c]) (auto simp: exit_task_def cpu_current_task_def Let_def SCHED_NO_TASK_def split: if_splits)

lemma sched_ok_exit:
  assumes "sched_ok s" "exit_task s c = Some s'" shows "sched_ok s'"
  unfolding exit_task_eq(2) [OF assms] by (rule same_task_fields_ok [OF assms(1) exit_task_eq(1) [OF assms]]) simp_all

lemma sched_ok_detach:
  assumes "sched_ok s" shows "sched_ok (fst (detach_current_task s c))"
  using assms by (auto simp: detach_current_task_def cpu_current_task_def Let_def intro!: same_task_fields_ok)

lemma sleep_block_eq:
  assumes "sched_ok s" "sleep_block s c ticks = Some s'"
  shows "g_per_cpu_task s c < g_task_count s" "s' = set_task s (g_per_cpu_task s c)
      ((task_at s (g_per_cpu_task s c))\<lparr>t_wake_tick := g_tick_count s + ticks, t_state := blocked\<rparr>)"
  using assms(2) by (rule_tac [!] cpu_okE [OF assms(1), of c]) (auto simp: sleep_block_def cpu_current_task_def Let_def SCHED_NO_TASK_def split: if_splits)

lemma sched_ok_sleep:
  assumes "sched_ok s" "sleep_block s c ticks = Some s'" "t_state (task_at s (g_per_cpu_task s c)) \<noteq> terminated" shows "sched_ok s'"
  unfolding sleep_block_eq(2) [OF assms(1,2)] using assms(3)
  by (intro same_task_fields_ok [OF assms(1) sleep_block_eq(1) [OF assms(1,2)]]) simp_all

lemma sched_ok_replace:
  assumes "sched_ok s" shows "sched_ok (fst (replace_current_task_context s c name u))"
proof (cases "fst (ss_assign 32 name) \<and> g_per_cpu_task s c < g_task_count s \<and> t_state (task_at s (g_per_cpu_task s c)) \<noteq> terminated")
  case True
  let ?s = "set_task s (g_per_cpu_task s c) ((task_at s (g_per_cpu_task s c))\<lparr>t_name := snd (ss_assign 32 name), t_user_data := u\<rparr>)"
  have "sched_ok ?s" using True by (intro same_task_fields_ok [OF assms]) simp_all
  moreover have "same_sched ?s (fst (replace_current_task_context s c name u))"
    using True by (simp add: replace_current_task_context_def cpu_current_task_def Let_def split_beta)
  ultimately show ?thesis using same_sched_ok by blast
next
  case False
  then show ?thesis using assms by (auto simp: replace_current_task_context_def cpu_current_task_def Let_def split_beta)
qed

lemma find_task_index:
  assumes "find P [0..<g_task_count s] = Some i" shows "P i" "i < g_task_count s"
  using find_SomeD [OF assms] by auto

definition killed_task :: "task \<Rightarrow> task" where
  "killed_task t =
     (let t = t\<lparr>t_state := terminated, t_wake_tick := 0, t_affinity_cpu := SCHED_CPU_NONE\<rparr>;
          t = (if t_current_cpu t = SCHED_CPU_NONE then t\<lparr>t_last_cpu := SCHED_CPU_NONE, t_run_tick_start := 0\<rparr> else t)
      in if t_current_cpu t = SCHED_CPU_NONE \<and> t_user_data t \<noteq> 0 then t\<lparr>t_user_data := 0\<rparr> else t)"

lemma killed_task_fields [simp]:
  "t_id (killed_task t) = t_id t" "t_current_cpu (killed_task t) = t_current_cpu t" "t_allow_secondary_cpu (killed_task t) = t_allow_secondary_cpu t"
  "t_state (killed_task t) = terminated" "t_affinity_cpu (killed_task t) = SCHED_CPU_NONE"
  "t_user_data (killed_task t) = (if t_current_cpu t = SCHED_CPU_NONE then 0 else t_user_data t)" "t_rsp (killed_task t) = t_rsp t"
  by (simp_all add: killed_task_def Let_def)

lemma terminate_task_eq:
  "terminate_task s task_id =
     (case find (\<lambda>i. t_id (task_at s i) = task_id) [0..<g_task_count s] of
        None \<Rightarrow> (s, False)
      | Some i \<Rightarrow> if i = 0 then (s, False)
          else (cleanup_context (set_task s i (killed_task (task_at s i)))
                 (if t_current_cpu (task_at s i) = SCHED_CPU_NONE then t_user_data (task_at s i) else 0), True))"
  by (auto simp: terminate_task_def killed_task_def Let_def split: option.splits)

lemma sched_ok_terminate:
  assumes "sched_ok s" shows "sched_ok (fst (terminate_task s task_id))"
proof (cases "find (\<lambda>i. t_id (task_at s i) = task_id) [0..<g_task_count s]")
  case (Some i)
  have "sched_ok (set_task s i (killed_task (task_at s i)))"
    using find_task_index(2) [OF Some] by (intro same_task_fields_ok [OF assms]) simp_all
  then show ?thesis using Some assms same_sched_ok [OF same_sched_basic(4)] by (simp add: terminate_task_eq)
qed (use assms in \<open>simp add: terminate_task_eq\<close>)

text \<open>Creating a task.\<close>

lemma available_slot:
  assumes ok: "sched_ok s" and m: "find_available_task_slot s < MAX_TASKS"
  obtains (new) "find_available_task_slot s = g_task_count s"
  | (reuse) "find_available_task_slot s < g_task_count s" "t_state (task_at s (find_available_task_slot s)) = terminated"
      "t_current_cpu (task_at s (find_available_task_slot s)) = SCHED_CPU_NONE"
  using m find_task_index [of _ s]
  by (cases "find (\<lambda>i. t_state (task_at s i) = terminated \<and> t_current_cpu (task_at s i) = SCHED_CPU_NONE) [0..<g_task_count s]")
     (fastforce simp: find_available_task_slot_def SCHED_NO_TASK_def split: if_splits)+

lemma sched_ok_place:
  assumes ok: "sched_ok s" and m: "k = find_available_task_slot s" "k < MAX_TASKS"
    and t: "t_state t = ready" "t_affinity_cpu t = SCHED_CPU_NONE" "t_current_cpu t = SCHED_CPU_NONE" "t_id t = g_next_task_id s"
    and nw: "g_next_task_id s < g_next_task_id s + 1"
    and s': "g_tasks s' = (g_tasks s)[k := t]" "g_task_count s' = (if k = g_task_count s then g_task_count s + 1 else g_task_count s)"
      "g_next_task_id s' = g_next_task_id s + 1" "g_scheduler_active s' = g_scheduler_active s" "g_per_cpu_task s' = g_per_cpu_task s"
      "g_bsp_apic_id s' = g_bsp_apic_id s"
  shows "sched_ok s'"
proof -
  have kl: "k < length (g_tasks s)" using m sched_okD(1) [OF ok] by simp
  have kc: "k \<le> g_task_count s" and off: "k < g_task_count s \<longrightarrow> t_current_cpu (task_at s k) = SCHED_CPU_NONE"
    using m by (cases rule: available_slot [OF ok]; auto)+
  have old: "j < g_task_count s" if "j < g_task_count s'" "j \<noteq> k" for j using that kc by (auto simp: s' split: if_splits)
  have tasks: "task_ok s' j" if j: "j < g_task_count s'" for j
  proof (cases "j = k")
    case True
    then show ?thesis using t nw kl by (simp add: task_ok_def Let_def s')
  next
    case False
    have "t_id (task_at s j) < g_next_task_id s + 1" using task_okD(6) [OF sched_okD(3) [OF ok old [OF j False]]] nw by (rule order.strict_trans)
    then show ?thesis using False task_okD [OF sched_okD(3) [OF ok old [OF j False]]] by (simp add: task_ok_def Let_def s')
  qed
  have cpus: "cpu_ok s' c" for c
  proof (cases "g_per_cpu_task s c < g_task_count s")
    case True
    then have "g_per_cpu_task s c \<noteq> k" using current_on_cpu [OF ok True] off by auto
    then show ?thesis using sched_okD(4) [OF ok, of c] by (auto simp: cpu_ok_def Let_def s')
  next
    case False
    then show ?thesis using sched_okD(4) [OF ok, of c] by (auto simp: cpu_ok_def Let_def s')
  qed
  have "ids_ok s'" unfolding ids_ok_def
  proof (intro allI impI)
    fix i j assume ij: "i < g_task_count s'" "j < g_task_count s'" "t_id (task_at s' i) = t_id (task_at s' j)"
    have lt: "t_id (task_at s l) < g_next_task_id s" if "l < g_task_count s" for l using task_okD(6) [OF sched_okD(3) [OF ok that]] .
    have at: "t_id (task_at s' l) = (if l = k then g_next_task_id s else t_id (task_at s l))" for l using kl by (simp add: s' t)
    show "i = j"
    proof (cases "i = k \<or> j = k")
      case True
      then show ?thesis using ij(3) lt [OF old [OF ij(1)]] lt [OF old [OF ij(2)]] unfolding at by (auto split: if_splits)
    next
      case False
      then have "t_id (task_at s i) = t_id (task_at s j)" using ij(3) unfolding at by simp
      then show ?thesis using sched_okD(5) [OF ok] old ij(1,2) False unfolding ids_ok_def by blast
    qed
  qed
  moreover have "g_task_count s' \<le> MAX_TASKS" using m(2) sched_okD(2) [OF ok] kc by (auto simp: s')
  ultimately show ?thesis using tasks cpus sched_okD(1) [OF ok] by (simp add: sched_ok_def s')
qed

lemma set_context_task_simps [simp]:
  "g_tasks (set_context_task s u i) = g_tasks s" "g_task_count (set_context_task s u i) = g_task_count s"
  "g_next_task_id (set_context_task s u i) = g_next_task_id s" "g_scheduler_active (set_context_task s u i) = g_scheduler_active s"
  "g_per_cpu_task (set_context_task s u i) = g_per_cpu_task s" "g_bsp_apic_id (set_context_task s u i) = g_bsp_apic_id s"
  "sc_cleaned (set_context_task s u i) = sc_cleaned s" "g_tick_count (set_context_task s u i) = g_tick_count s"
  by (simp_all add: set_context_task_def)

lemma init_task_stack_frame_simps [simp]:
  "g_tasks (init_task_stack_frame p s i entry u) =
     (g_tasks s)[i := (task_at s i)\<lparr>t_entry := entry, t_user_data := u, t_rsp := (pf_stack_end p i AND NOT 0xF) - 200\<rparr>]"
  "g_task_count (init_task_stack_frame p s i entry u) = g_task_count s" "g_next_task_id (init_task_stack_frame p s i entry u) = g_next_task_id s"
  "g_scheduler_active (init_task_stack_frame p s i entry u) = g_scheduler_active s" "g_per_cpu_task (init_task_stack_frame p s i entry u) = g_per_cpu_task s"
  "g_bsp_apic_id (init_task_stack_frame p s i entry u) = g_bsp_apic_id s" "sc_cleaned (init_task_stack_frame p s i entry u) = sc_cleaned s"
  "g_tick_count (init_task_stack_frame p s i entry u) = g_tick_count s"
  by (simp_all add: init_task_stack_frame_def init_frame_def Let_def)

lemma create_task_success:
  assumes "k = find_available_task_slot s" "k < MAX_TASKS" "length name < 32"
    and "a = set_context_task ((set_task s k (new_task (task_at s k) name (g_next_task_id s) (g_scheduler_active s)))
      \<lparr>g_next_task_id := g_next_task_id s + 1\<rparr>) u (g_next_task_id s)"
  shows "create_task p s name entry u =
    (init_task_stack_frame p (a\<lparr>g_task_count := (if k = g_task_count s then g_task_count s + 1 else g_task_count s)\<rparr>) k entry u, sint (g_next_task_id s))"
proof -
  have "g_task_count a = g_task_count s" by (simp add: assms(4))
  then have e: "a\<lparr>g_task_count := g_task_count s\<rparr> = a" by simp
  have "create_task p s name entry u =
    (init_task_stack_frame p (if k = g_task_count s then a\<lparr>g_task_count := g_task_count s + 1\<rparr> else a) k entry u, sint (g_next_task_id s))"
    using assms by (simp add: create_task_def ss_assign_def Let_def cong: if_cong)
  then show ?thesis using e by (cases "k = g_task_count s") (simp_all only: if_True if_False simp_thms)
qed

lemma create_task_fields:
  assumes "create_task p s name entry u = (s', r)" "k = find_available_task_slot s" "k < MAX_TASKS" "length name < 32" "length (g_tasks s) = MAX_TASKS"
  shows "g_tasks s' = (g_tasks s)[k := (new_task (task_at s k) name (g_next_task_id s) (g_scheduler_active s))
           \<lparr>t_entry := entry, t_user_data := u, t_rsp := (pf_stack_end p k AND NOT 0xF) - 200\<rparr>]"
    "g_task_count s' = (if k = g_task_count s then g_task_count s + 1 else g_task_count s)" "g_next_task_id s' = g_next_task_id s + 1"
    "g_scheduler_active s' = g_scheduler_active s" "g_per_cpu_task s' = g_per_cpu_task s" "g_bsp_apic_id s' = g_bsp_apic_id s"
    "sc_cleaned s' = sc_cleaned s" "r = sint (g_next_task_id s)" "g_tick_count s' = g_tick_count s"
  using assms(1,3,5) create_task_success [OF assms(2-4) refl, of p entry u] by auto

lemma create_task_refused:
  assumes "create_task p s name entry u = (s', r)" "find_available_task_slot s \<ge> MAX_TASKS \<or> length name \<ge> 32"
  shows "r = -1" "s' = s \<or> find_available_task_slot s < MAX_TASKS \<and>
    s' = set_task s (find_available_task_slot s) ((task_at s (find_available_task_slot s))\<lparr>t_name := []\<rparr>)"
  using assms by (auto simp: create_task_def ss_assign_def Let_def split: if_splits)

lemma sched_ok_rename:
  assumes "sched_ok s" shows "sched_ok (set_task s k ((task_at s k)\<lparr>t_name := nm\<rparr>))"
proof (cases "k < length (g_tasks s)")
  case True
  have at: "(g_tasks s)[k := (task_at s k)\<lparr>t_name := nm\<rparr>] ! i = (if i = k then (task_at s k)\<lparr>t_name := nm\<rparr> else task_at s i)" for i
    using True by simp
  have "task_ok (set_task s k ((task_at s k)\<lparr>t_name := nm\<rparr>)) i = task_ok s i" for i by (simp add: task_ok_def Let_def at)
  moreover have "cpu_ok (set_task s k ((task_at s k)\<lparr>t_name := nm\<rparr>)) c = cpu_ok s c" for c by (simp add: cpu_ok_def Let_def at)
  moreover have "ids_ok (set_task s k ((task_at s k)\<lparr>t_name := nm\<rparr>)) = ids_ok s"
  proof -
    have "t_id ((g_tasks s)[k := (task_at s k)\<lparr>t_name := nm\<rparr>] ! i) = t_id (task_at s i)" for i by (simp add: at)
    then show ?thesis by (simp only: ids_ok_def set_task_simps)
  qed
  ultimately show ?thesis using assms by (simp add: sched_ok_def)
qed (use assms in \<open>simp add: set_task_def list_update_beyond\<close>)

lemma sched_ok_create:
  assumes ok: "sched_ok s" and c: "create_task p s name entry u = (s', r)" and nw: "g_next_task_id s < g_next_task_id s + 1"
  shows "sched_ok s'"
proof (cases "find_available_task_slot s < MAX_TASKS \<and> length name < 32")
  case True
  note f = create_task_fields [OF c refl conjunct1 [OF True] conjunct2 [OF True] sched_okD(1) [OF ok]]
  show ?thesis by (rule sched_ok_place [OF ok refl conjunct1 [OF True] _ _ _ _ nw f(1-6)]) (simp_all add: new_task_def)
next
  case False
  then show ?thesis using create_task_refused(2) [OF c] ok sched_ok_rename by (metis not_le)
qed

text \<open>Starting.\<close>

lemma sched_ok_start:
  assumes ok: "sched_ok s" and c: "c = g_bsp_apic_id s" and idle: "\<not> g_scheduler_active s" "g_per_cpu_task s c = SCHED_NO_TASK"
    and r: "sched_start p s c = Some (s', rsp)"
  shows "sched_ok s'"
proof -
  let ?f = "let f = pick_next_task s c SCHED_NO_TASK in if f \<ge> g_task_count s then 0 else f"
  let ?d = "(dispatch_task s c c ?f)\<lparr>g_scheduler_active := True\<rparr>"
  have n: "0 < g_task_count s" using r by (auto simp: sched_start_def split: if_splits)
  then have f: "?f < g_task_count s" by (simp add: Let_def)
  have "may_enter s c ?f" using f c task_okD(5) [OF sched_okD(3) [OF ok f]] idle(1) by (simp add: may_enter_def)
  then have "sched_ok ?d" using sched_ok_dispatch [OF ok idle(2)] by blast
  moreover have "same_sched ?d s'"
    using r n by (auto simp: sched_start_def Let_def c [symmetric] split: if_splits) (meson same_sched_basic same_sched_trans)+
  ultimately show ?thesis using same_sched_ok by blast
qed

lemma fold_idle_same: "same_sched s (fold (\<lambda>i s. init_cpu_idle_frame p s (word_of_nat i)) xs s)"
proof (induction xs arbitrary: s)
  case (Cons x xs)
  then show ?case by simp (meson same_sched_basic(10) same_sched_trans)
qed simp

lemma sched_ok_init: "sched_ok (sched_init p s c)"
proof -
  let ?a = "s\<lparr>g_tasks := replicate MAX_TASKS zero_task, g_per_cpu_task := (\<lambda>_. SCHED_NO_TASK), g_yield_in_progress := (\<lambda>_. False)\<rparr>"
  let ?b = "fold (\<lambda>i s. init_cpu_idle_frame p s (word_of_nat i)) [0..<256] ?a"
  let ?c = "?b\<lparr>g_task_count := 0, g_next_task_id := 1, g_scheduler_active := False, g_tick_count := 0, g_bsp_apic_id := c\<rparr>"
  have "same_sched ?a ?b" by (rule fold_idle_same)
  then have "sched_ok ?c" by (simp add: same_sched_def sched_ok_def cpu_ok_def ids_ok_def)
  moreover have "same_sched ?c (sched_init p s c)"
    by (simp add: sched_init_def Let_def pic_remap_def pit_init_def outb_def same_sched_def)
  ultimately show ?thesis using same_sched_ok by blast
qed

end
