(* ===== verification/SchedRun.thy ===== *)
theory SchedRun
  imports SchedInv
begin

text \<open>
  Interleavings of the scheduler's operations and of the ways a process ends: every reachable state
  satisfies the invariant, and the process contexts handed to cleanup are accounted for.
\<close>

section \<open>Runs\<close>

text \<open>
  The interleavings of the scheduler's operations on all CPUs, with two lists of process contexts:
  \<open>att\<close>, those attached to tasks so far, and \<open>pend\<close>, those taken from their task by code that is
  about to clean them up itself, the exception handler (after \<open>detach_current_task\<close>) and \<open>exec_impl\<close>
  (after \<open>replace_current_task_context\<close>). Code that runs between the operations changes FPU
  registers and process contexts. Four premises restrict the callers: a task does not call \<open>sleep\<close>
  after another CPU has terminated it; a process that ends is not terminated between the cleanup of
  its own context and \<open>exit_task\<close> (\<open>stub_exit\<close> is one step); a CPU starts scheduling once; and the 64-bit
  id counter does not overflow.
\<close>

inductive sched_run :: "platform \<Rightarrow> sched \<Rightarrow> sched \<Rightarrow> u64 list \<Rightarrow> u64 list \<Rightarrow> bool" for p s0 where
  run_init: "sched_run p s0 s0 [] []"
| run_preempt: "sched_run p s0 s att pend \<Longrightarrow> sched_run p s0 (fst (preempt p s c regs)) att pend"
| run_yield: "sched_run p s0 s att pend \<Longrightarrow> sched_run p s0 (yield_request s c) att pend"
| run_create: "sched_run p s0 s att pend \<Longrightarrow> create_task p s name entry u = (s', r) \<Longrightarrow> g_next_task_id s < g_next_task_id s + 1 \<Longrightarrow>
    sched_run p s0 s' (if r = -1 then att else att @ [u]) pend"
| run_exec: "sched_run p s0 s att pend \<Longrightarrow> exec_switch s c name u = (s', old) \<Longrightarrow>
    sched_run p s0 s' (if old = None then att else att @ [u]) (case old of None \<Rightarrow> pend | Some v \<Rightarrow> pend @ [v])"
| run_sleep: "sched_run p s0 s att pend \<Longrightarrow> sleep_block s c ticks = Some s' \<Longrightarrow>
    t_state (task_at s (cpu_current_task s c)) \<noteq> terminated \<Longrightarrow> sched_run p s0 s' att pend"
| run_terminate: "sched_run p s0 s att pend \<Longrightarrow> terminate_task s task_id = (s', r) \<Longrightarrow> sched_run p s0 s' att pend"
| run_exit: "sched_run p s0 s att pend \<Longrightarrow> exit_task s c = Some s' \<Longrightarrow> sched_run p s0 s' att pend"
| run_stub_exit: "sched_run p s0 s att pend \<Longrightarrow> stub_exit s c = Some s' \<Longrightarrow> sched_run p s0 s' att pend"
| run_detach: "sched_run p s0 s att pend \<Longrightarrow> detach_current_task s c = (s', u) \<Longrightarrow> sched_run p s0 s' att (pend @ [u])"
| run_clean: "sched_run p s0 s att pend \<Longrightarrow> u \<in> set pend \<Longrightarrow> sched_run p s0 (cleanup_context s u) att (remove1 u pend)"
| run_start: "sched_run p s0 s att pend \<Longrightarrow> c = g_bsp_apic_id s \<Longrightarrow> \<not> g_scheduler_active s \<Longrightarrow> cpu_current_task s c = SCHED_NO_TASK \<Longrightarrow>
    sched_start p s c = Some (s', frame) \<Longrightarrow> sched_run p s0 s' att pend"
| run_start_ap: "sched_run p s0 s att pend \<Longrightarrow> cpu_current_task s c = SCHED_NO_TASK \<Longrightarrow>
    sched_run p s0 (start_ap_timer p (start_ap_enter s c) c elapsed cnt) att pend"
| run_code: "sched_run p s0 s att pend \<Longrightarrow> sched_run p s0 (s\<lparr>sc_fpu := f, sc_contexts := g\<rparr>) att pend"

lemma same_sched_start_ap:
  assumes "g_per_cpu_task s c = SCHED_NO_TASK" shows "same_sched s (start_ap_timer p (start_ap_enter s c) c elapsed cnt)"
    "sc_cleaned (start_ap_timer p (start_ap_enter s c) c elapsed cnt) = sc_cleaned s"
  using assms by (simp_all add: same_sched_def start_ap_timer_def start_ap_enter_def cpu_set_current_task_def lapic_timer_start_periodic_def
      lapic_timer_prepare_masked_def lapic_write_def Let_def fun_upd_idem)

lemma exec_switch_eq:
  "exec_switch s c name u =
     (if current_task_user_data s c = 0 \<or> current_task_id s c = 0 then (s, None)
      else let s1 = set_context_task s u (current_task_id s c); r = replace_current_task_context s1 c name u
        in (fst r, if snd r then Some (current_task_user_data s c) else None))"
  by (simp add: exec_switch_def Let_def split_beta)

lemma sched_ok_exec: "sched_ok s \<Longrightarrow> sched_ok (fst (exec_switch s c name u))"
  using sched_ok_replace [of "set_context_task s u (current_task_id s c)" c name u] same_sched_ok [OF same_sched_basic(5)]
  by (auto simp: exec_switch_eq Let_def)

lemma sched_ok_stub_exit: "sched_ok s \<Longrightarrow> stub_exit s c = Some s' \<Longrightarrow> sched_ok s'"
  unfolding stub_exit_def using sched_ok_exit same_sched_ok [OF same_sched_basic(4)] by blast

lemma run_ok:
  assumes "sched_run p s0 s att pend" "sched_ok s0" shows "sched_ok s"
  using assms
proof (induction rule: sched_run.induct)
  case (run_preempt s att pend c regs)
  then show ?case by (simp add: sched_ok_preempt)
next
  case (run_yield s att pend c)
  then show ?case using same_sched_ok [OF same_sched_basic(11)] by blast
next
  case (run_exec s att pend c name u s' old)
  then show ?case using sched_ok_exec [of s c name u] by simp
next
  case (run_terminate s att pend task_id s' r)
  then show ?case using sched_ok_terminate [of s task_id] by simp
next
  case (run_detach s att pend c s' u)
  then show ?case using sched_ok_detach [of s c] by simp
next
  case (run_clean s att pend u)
  then show ?case using same_sched_ok [OF same_sched_basic(4)] by blast
next
  case (run_start_ap s att pend c elapsed cnt)
  then show ?case using same_sched_ok [OF same_sched_start_ap(1)] by (simp add: cpu_current_task_def)
next
  case (run_code s att pend)
  show ?case by (rule iffD2 [OF same_sched_ok run_code.IH]) (simp_all add: same_sched_def run_code.prems)
next
  case (run_create s att pend name entry u s' r)
  then show ?case using sched_ok_create by blast
next
  case (run_sleep s att pend c ticks s')
  then show ?case using sched_ok_sleep by (simp add: cpu_current_task_def)
next
  case (run_exit s att pend c s')
  then show ?case using sched_ok_exit by blast
next
  case (run_stub_exit s att pend c s')
  then show ?case using sched_ok_stub_exit by blast
next
  case (run_start s att pend c s' frame)
  then show ?case using sched_ok_start [of s c p s' frame] by (simp add: cpu_current_task_def)
qed assumption

section \<open>Process contexts\<close>

definition contexts :: "sched \<Rightarrow> u64 list" where
  "contexts s = map t_user_data (take (g_task_count s) (g_tasks s))"

text \<open>Every context cleaned up, still held by a task or about to be cleaned up was attached as often.\<close>

definition ledger :: "sched \<Rightarrow> u64 list \<Rightarrow> u64 list \<Rightarrow> bool" where
  "ledger s att pend \<longleftrightarrow> (\<forall>u. u \<noteq> 0 \<longrightarrow> count_list (sc_cleaned s) u + count_list (contexts s) u + count_list pend u \<le> count_list att u)"

lemma count_list_remove1: "u \<in> set xs \<Longrightarrow> count_list (remove1 u xs) v + (if v = u then 1 else 0) = count_list xs v"
  by (induction xs) auto

lemma count_list_update:
  "i < length xs \<Longrightarrow> count_list (xs[i := v]) u + (if xs ! i = u then 1 else 0) = count_list xs u + (if v = u then 1 else 0)"
proof (induction xs arbitrary: i)
  case (Cons x xs)
  show ?case
  proof (cases i)
    case (Suc k)
    then show ?thesis using Cons.IH [of k] Cons.prems by (cases "x = u") simp_all
  qed simp
qed simp

lemma contexts_set_task: "contexts (set_task s i t) = (contexts s)[i := t_user_data t]"
  by (simp add: contexts_def take_update_swap map_update)

lemma contexts_length: "sched_ok s \<Longrightarrow> length (contexts s) = g_task_count s"
  using sched_okD(1,2) [of s] by (simp add: contexts_def)

lemma contexts_nth: "sched_ok s \<Longrightarrow> i < g_task_count s \<Longrightarrow> contexts s ! i = t_user_data (task_at s i)"
  using sched_okD(1,2) [of s] by (simp add: contexts_def)

lemma contexts_keep: "sched_ok s \<Longrightarrow> i < g_task_count s \<Longrightarrow> t_user_data t = t_user_data (task_at s i) \<Longrightarrow> contexts (set_task s i t) = contexts s"
  by (simp add: contexts_set_task) (metis contexts_nth list_update_id)

lemma ledger_same: "contexts s' = contexts s \<Longrightarrow> sc_cleaned s' = sc_cleaned s \<Longrightarrow> ledger s att pend \<Longrightarrow> ledger s' att pend"
  by (simp add: ledger_def)

text \<open>A task gives up its context: it is dropped, cleaned up or handed to code that will clean it up.\<close>

lemma ledger_drop:
  assumes "ledger s att pend" "sched_ok s" "i < g_task_count s" "contexts s' = (contexts s)[i := 0]" "v = t_user_data (task_at s i)"
    and "pend' = pend \<and> (sc_cleaned s' = sc_cleaned s \<or> sc_cleaned s' = sc_cleaned s @ [v]) \<or> pend' = pend @ [v] \<and> sc_cleaned s' = sc_cleaned s"
  shows "ledger s' att pend'"
  unfolding ledger_def
proof (intro allI impI)
  fix u :: u64 assume u: "u \<noteq> 0"
  have i: "i < length (contexts s)" "contexts s ! i = v" using contexts_length contexts_nth assms(2,3,5) by simp_all
  have "count_list (sc_cleaned s) u + count_list (contexts s) u + count_list pend u \<le> count_list att u" using assms(1) u by (simp add: ledger_def)
  then show "count_list (sc_cleaned s') u + count_list (contexts s') u + count_list pend' u \<le> count_list att u"
    using count_list_update [OF i(1), of 0 u] u assms(4,6) i(2) by (auto split: if_splits)
qed

lemma ledger_attach:
  assumes "ledger s att pend" "sc_cleaned s' = sc_cleaned s"
    and "contexts s' = contexts s @ [u] \<and> pend' = pend \<or>
      i < length (contexts s) \<and> contexts s' = (contexts s)[i := u] \<and> (pend' = pend \<or> pend' = pend @ [contexts s ! i])"
  shows "ledger s' (att @ [u]) pend'"
  unfolding ledger_def
proof (intro allI impI)
  fix v :: u64 assume v: "v \<noteq> 0"
  have "count_list (sc_cleaned s) v + count_list (contexts s) v + count_list pend v \<le> count_list att v" using assms(1) v by (simp add: ledger_def)
  then show "count_list (sc_cleaned s') v + count_list (contexts s') v + count_list pend' v \<le> count_list (att @ [u]) v"
    using count_list_update [of i "contexts s" u v] assms(2,3) by (auto split: if_splits)
qed

lemma ledger_clean: "ledger s att pend \<Longrightarrow> u \<in> set pend \<Longrightarrow> ledger (cleanup_context s u) att (remove1 u pend)"
  unfolding ledger_def
proof (intro allI impI)
  fix v :: u64 assume l: "\<forall>v. v \<noteq> 0 \<longrightarrow> count_list (sc_cleaned s) v + count_list (contexts s) v + count_list pend v \<le> count_list att v" and u: "u \<in> set pend" and v: "v \<noteq> 0"
  have "contexts (cleanup_context s u) = contexts s" by (simp add: contexts_def cleanup_context_def)
  moreover have "sc_cleaned (cleanup_context s u) = (if u = 0 then sc_cleaned s else sc_cleaned s @ [u])" by (simp add: cleanup_context_def)
  ultimately show "count_list (sc_cleaned (cleanup_context s u)) v + count_list (contexts (cleanup_context s u)) v + count_list (remove1 u pend) v \<le> count_list att v"
    using l v count_list_remove1 [OF u, of v] by (auto split: if_splits)
qed

lemma contexts_same: "same_sched s s' \<Longrightarrow> contexts s' = contexts s"
  by (simp add: contexts_def same_sched_def)

lemma contexts_wake: "contexts (wake_sleeping_tasks s) = contexts s"
  by (auto simp: contexts_def wake_sleeping_tasks_def min_def)

lemma cleaned_basic [simp]:
  "sc_cleaned (load_cr3 s c r) = sc_cleaned s" "sc_cleaned (write_fs_base s c v) = sc_cleaned s"
  "sc_cleaned (activate_task_address_space s c t) = sc_cleaned s" "sc_cleaned (activate_task_thread_pointer s c t) = sc_cleaned s"
  "sc_cleaned (init_cpu_idle_frame p s c) = sc_cleaned s" "sc_cleaned (yield_request s c) = sc_cleaned s"
  "sc_cleaned (pic_unmask_irq0 p s) = sc_cleaned s"
  "sc_cleaned (cleanup_context s u) = (if u = 0 then sc_cleaned s else sc_cleaned s @ [u])"
  by (auto simp: load_cr3_def write_fs_base_def cleanup_context_def outb_def
      activate_task_address_space_def activate_task_thread_pointer_def init_cpu_idle_frame_def init_frame_def yield_request_def
      pic_unmask_irq0_def Let_def split: option.splits)

lemma contexts_dispatch: "i < length (g_tasks s) \<Longrightarrow> contexts (dispatch_task s c d i) = contexts s"
  by (auto simp: contexts_def intro!: nth_equalityI simp: dispatch_task_at)

lemma contexts_restore: "i < length (g_tasks s) \<Longrightarrow> contexts (restore_fpu s c i) = contexts s"
  by (auto simp: contexts_def restore_fpu_def Let_def nth_list_update intro!: nth_equalityI)

text \<open>What \<open>preempt\<close> leaves of the contexts: those of the state in which it chose.\<close>

lemma preempt_contexts:
  assumes ok: "sched_ok s" and run: "g_scheduler_active s" "2 \<le> g_task_count s"
  shows "contexts (fst (preempt p s c regs)) = contexts (at_pick p s c regs)"
    "sc_cleaned (fst (preempt p s c regs)) = sc_cleaned s \<or>
       sc_cleaned (fst (preempt p s c regs)) = (if reaped p s c = 0 then sc_cleaned s else sc_cleaned s @ [reaped p s c])"
proof -
  have l: "picked p s c regs < g_task_count s \<Longrightarrow> picked p s c regs < length (g_tasks (at_pick p s c regs))"
    using sched_okD(1,2) [OF ok] by simp
  have same: "contexts (cleanup_context s u) = contexts s" "contexts (load_cr3 s c x) = contexts s" "contexts (write_fs_base s c x) = contexts s"
    "contexts (activate_task_address_space s c t) = contexts s" "contexts (activate_task_thread_pointer s c t) = contexts s"
    "contexts (init_cpu_idle_frame p s c) = contexts s" "contexts (cpu_set_current_task s c i) = contexts s" for s u x t i
    by (rule contexts_same, simp) + (simp add: contexts_def)
  show "contexts (fst (preempt p s c regs)) = contexts (at_pick p s c regs)"
    using run l by (auto simp: preempt_eq Let_def same contexts_restore contexts_dispatch)
  show "sc_cleaned (fst (preempt p s c regs)) = sc_cleaned s \<or>
       sc_cleaned (fst (preempt p s c regs)) = (if reaped p s c = 0 then sc_cleaned s else sc_cleaned s @ [reaped p s c])"
    using run by (auto simp: preempt_eq Let_def)
qed

lemma at_pick_contexts:
  assumes ok: "sched_ok s"
  shows "contexts (at_pick p s c regs) = (if reaped p s c = 0 then contexts s else (contexts s)[g_per_cpu_task s c := 0])"
    and "reaped p s c \<noteq> 0 \<longrightarrow> g_per_cpu_task s c < g_task_count s \<and> reaped p s c = t_user_data (task_at s (g_per_cpu_task s c))"
proof -
  let ?w = "wake_sleeping_tasks (tick_interrupt p s c)" and ?i = "g_per_cpu_task s c"
  have okw: "sched_ok ?w" using sched_ok_wake same_sched_ok [OF same_sched_basic(12)] ok by blast
  have cw: "contexts ?w = contexts s" by (simp add: contexts_wake contexts_same [OF same_sched_basic(12)])
  have ud: "t_user_data (task_at ?w ?i) = t_user_data (task_at s ?i)" if "?i < g_task_count s"
    using contexts_nth [OF okw, of ?i] contexts_nth [OF ok that] cw that by simp
  show "contexts (at_pick p s c regs) = (if reaped p s c = 0 then contexts s else (contexts s)[?i := 0])"
  proof (cases "?i < g_task_count s \<and> t_state (task_at ?w ?i) = terminated")
    case True
    then have "contexts (at_pick p s c regs) = (contexts s)[?i := 0]"
      by (simp add: at_pick_def save_current_eq Let_def contexts_set_task cw)
    moreover have "(contexts s)[?i := 0] = contexts s" if "reaped p s c = 0"
    proof -
      have "contexts s ! ?i = 0" using that True ud contexts_nth [OF ok, of ?i] by (simp add: reaped_def Let_def)
      then show ?thesis by (metis list_update_id)
    qed
    ultimately show ?thesis by simp
  next
    case False
    then have "reaped p s c = 0" by (auto simp: reaped_def Let_def)
    moreover have "contexts (at_pick p s c regs) = contexts s"
      using False okw by (auto simp: at_pick_def save_current_eq Let_def contexts_keep cw)
    ultimately show ?thesis by simp
  qed
  show "reaped p s c \<noteq> 0 \<longrightarrow> ?i < g_task_count s \<and> reaped p s c = t_user_data (task_at s ?i)"
    using ud by (auto simp: reaped_def Let_def)
qed

lemma ledger_preempt:
  assumes ok: "sched_ok s" and l: "ledger s att pend" shows "ledger (fst (preempt p s c regs)) att pend"
proof (cases "g_scheduler_active s \<and> 2 \<le> g_task_count s")
  case False
  then show ?thesis using l contexts_same [OF same_sched_basic(12)] by (intro ledger_same [OF _ _ l]) (auto simp: preempt_eq)
next
  case True
  note P = preempt_contexts [OF ok conjunct1 [OF True] conjunct2 [OF True], of p c regs] and A = at_pick_contexts [OF ok, of p c]
  show ?thesis
  proof (cases "reaped p s c = 0")
    case True
    then show ?thesis using P A(1) by (intro ledger_same [OF _ _ l]) auto
  next
    case False
    then show ?thesis using P A(1) A(2) by (intro ledger_drop [OF l ok]) auto
  qed
qed

lemma ledger_create:
  assumes ok: "sched_ok s" and l: "ledger s att pend" and c: "create_task p s name entry u = (s', r)" and nw: "g_next_task_id s < g_next_task_id s + 1"
  shows "ledger s' (if r = -1 then att else att @ [u]) pend"
proof -
  show ?thesis
  proof (cases "find_available_task_slot s < MAX_TASKS \<and> length name < 32")
    case True
    let ?k = "find_available_task_slot s"
    note f = create_task_fields [OF c refl conjunct1 [OF True] conjunct2 [OF True] sched_okD(1) [OF ok]]
    have "g_next_task_id s \<noteq> -1" using nw by auto
    then have r: "r \<noteq> -1" unfolding f(8) using signed_word_eqI [of "g_next_task_id s" "-1"] by auto
    have kl: "?k < length (g_tasks s)" using True sched_okD(1) [OF ok] by simp
    have "contexts s' = contexts s @ [u] \<or> ?k < length (contexts s) \<and> contexts s' = (contexts s)[?k := u]"
    proof (cases "?k = g_task_count s")
      case True
      then show ?thesis using f(1,2) kl by (simp add: contexts_def take_update_swap take_Suc_conv_app_nth map_update list_update_append)
    next
      case False
      then have "?k < g_task_count s" using True by (cases rule: available_slot [OF ok]) auto
      then show ?thesis using f(1,2) False contexts_length [OF ok] by (simp add: contexts_def take_update_swap map_update)
    qed
    then show ?thesis using r ledger_attach [OF l f(7)] by auto
  next
    case False
    then have r: "r = -1" and s': "s' = s \<or> find_available_task_slot s < MAX_TASKS \<and>
        s' = set_task s (find_available_task_slot s) ((task_at s (find_available_task_slot s))\<lparr>t_name := []\<rparr>)"
      using create_task_refused [OF c] by auto
    have "contexts s' = contexts s" using s'
    proof
      assume e: "find_available_task_slot s < MAX_TASKS \<and> s' = set_task s (find_available_task_slot s) ((task_at s (find_available_task_slot s))\<lparr>t_name := []\<rparr>)"
      show ?thesis
      proof (cases "find_available_task_slot s < g_task_count s")
        case True
        then show ?thesis using e contexts_keep [OF ok] by simp
      next
        case False
        then show ?thesis using e contexts_length [OF ok] by (simp add: contexts_set_task list_update_beyond)
      qed
    qed simp
    moreover have "sc_cleaned s' = sc_cleaned s" using s' by auto
    ultimately show ?thesis using r ledger_same l by simp
  qed
qed

lemma ledger_terminate:
  assumes ok: "sched_ok s" and l: "ledger s att pend" and r: "terminate_task s task_id = (s', b)"
  shows "ledger s' att pend"
proof -
  show ?thesis
  proof (cases "find (\<lambda>i. t_id (task_at s i) = task_id) [0..<g_task_count s]")
    case None
    then show ?thesis using l r by (simp add: terminate_task_eq)
  next
    case (Some i)
    have i: "i < g_task_count s" using find_task_index(2) [OF Some] .
    show ?thesis
    proof (cases "i = 0 \<or> t_current_cpu (task_at s i) \<noteq> SCHED_CPU_NONE")
      case True
      then have "contexts s' = contexts s" "sc_cleaned s' = sc_cleaned s"
        using r Some contexts_keep [OF ok i] by (auto simp: terminate_task_eq cleanup_context_def split: if_splits)
      then show ?thesis using ledger_same l by blast
    next
      case False
      let ?d = "set_task s i (killed_task (task_at s i))"
      have s': "s' = cleanup_context ?d (t_user_data (task_at s i))" using r Some False by (simp add: terminate_task_eq)
      have "contexts s' = (contexts s)[i := 0]"
        unfolding s' contexts_same [OF same_sched_basic(4)] contexts_set_task using False by simp
      then show ?thesis using ledger_drop [OF l ok i] by (simp add: s')
    qed
  qed
qed

lemma ledger_start:
  assumes ok: "sched_ok s" and l: "ledger s att pend" and c: "c = g_bsp_apic_id s" and r: "sched_start p s c = Some (s', frame)"
  shows "ledger s' att pend"
proof -
  let ?f = "let f = pick_next_task s c SCHED_NO_TASK in if f \<ge> g_task_count s then 0 else f"
  let ?d = "(dispatch_task s c c ?f)\<lparr>g_scheduler_active := True\<rparr>"
  have n: "0 < g_task_count s" using r by (auto simp: sched_start_def split: if_splits)
  have "same_sched ?d s'" "sc_cleaned s' = sc_cleaned s"
    using r n by (auto simp: sched_start_def Let_def c [symmetric] split: if_splits) (meson same_sched_basic same_sched_trans)+
  moreover have "contexts ?d = contexts (dispatch_task s c c ?f)" by (simp add: contexts_def)
  moreover have "?f < length (g_tasks s)" using n sched_okD(1,2) [OF ok] by (simp add: Let_def)
  ultimately show ?thesis using l contexts_same contexts_dispatch by (intro ledger_same [of s' s]) simp_all
qed

lemma ledger_exec:
  assumes ok: "sched_ok s" and l: "ledger s att pend" and e: "exec_switch s c name u = (s', old)"
  shows "ledger s' (if old = None then att else att @ [u]) (case old of None \<Rightarrow> pend | Some v \<Rightarrow> pend @ [v])"
proof -
  let ?i = "g_per_cpu_task s c"
  have d: "sc_cleaned (set_context_task s u x) = sc_cleaned s" "contexts (set_context_task s u x) = contexts s"
    "g_per_cpu_task (set_context_task s u x) = g_per_cpu_task s" "g_task_count (set_context_task s u x) = g_task_count s" for s x
    by (simp_all add: set_context_task_def contexts_def)
  have "old = None \<and> contexts s' = contexts s \<and> sc_cleaned s' = sc_cleaned s \<or>
      old = Some (t_user_data (task_at s ?i)) \<and> ?i < g_task_count s \<and> sc_cleaned s' = sc_cleaned s \<and> contexts s' = (contexts s)[?i := u]"
    using e by (auto simp: exec_switch_eq replace_current_task_context_def cpu_current_task_def current_task_user_data_def current_task_id_def
        Let_def split_beta contexts_set_task d split: if_splits)
  then show ?thesis
  proof
    assume "old = None \<and> contexts s' = contexts s \<and> sc_cleaned s' = sc_cleaned s"
    then show ?thesis using ledger_same l by simp
  next
    assume o: "old = Some (t_user_data (task_at s ?i)) \<and> ?i < g_task_count s \<and> sc_cleaned s' = sc_cleaned s \<and> contexts s' = (contexts s)[?i := u]"
    then show ?thesis using contexts_length [OF ok] contexts_nth [OF ok, of ?i] ledger_attach [OF l, of s' u "pend @ [t_user_data (task_at s ?i)]" ?i] by simp
  qed
qed

lemma ledger_stub_exit:
  assumes ok: "sched_ok s" and l: "ledger s att pend" and e: "stub_exit s c = Some s'"
  shows "ledger s' att pend"
proof -
  let ?i = "g_per_cpu_task s c" and ?u = "current_task_user_data s c"
  have ok1: "sched_ok (cleanup_context s ?u)" using ok same_sched_ok [OF same_sched_basic(4)] by blast
  note E = exit_task_eq [OF ok1 e [unfolded stub_exit_def]]
  have i: "?i < g_task_count s" using E(1) by (simp add: cleanup_context_def split: if_splits)
  have c: "contexts s' = (contexts s)[?i := 0]" unfolding E(2) by (simp add: contexts_set_task contexts_same [OF same_sched_basic(4)]) (simp add: cleanup_context_def)
  have "sc_cleaned s' = sc_cleaned s \<or> sc_cleaned s' = sc_cleaned s @ [t_user_data (task_at s ?i)]"
    unfolding E(2) using i by (simp add: current_task_user_data_def cpu_current_task_def)
  then show ?thesis using ledger_drop [OF l ok i c refl] by blast
qed

lemma run_ledger:
  assumes "sched_run p s0 s att pend" "sched_ok s0" "sc_cleaned s0 = []" "g_task_count s0 = 0" shows "ledger s att pend"
  using assms
proof (induction rule: sched_run.induct)
  case run_init
  then show ?case by (simp add: ledger_def contexts_def)
next
  case (run_preempt s att pend c regs)
  then show ?case using ledger_preempt run_ok by blast
next
  case (run_yield s att pend c)
  then show ?case using contexts_same [OF same_sched_basic(11)] by (auto intro: ledger_same)
next
  case (run_create s att pend name entry u s' r)
  note ok = run_ok [OF run_create.hyps(1) run_create.prems(1)]
  show ?case using ledger_create [OF ok _ run_create.hyps(2,3)] run_create by simp
next
  case (run_exec s att pend c name u s' old)
  note ok = run_ok [OF run_exec.hyps(1) run_exec.prems(1)]
  show ?case using ledger_exec [OF ok _ run_exec.hyps(2)] run_exec by blast
next
  case (run_stub_exit s att pend c s')
  note ok = run_ok [OF run_stub_exit.hyps(1) run_stub_exit.prems(1)]
  show ?case using ledger_stub_exit [OF ok _ run_stub_exit.hyps(2)] run_stub_exit by blast
next
  case (run_clean s att pend u)
  then show ?case using ledger_clean by blast
next
  case (run_sleep s att pend c ticks s')
  note ok = run_ok [OF run_sleep.hyps(1) run_sleep.prems(1)]
  note e = sleep_block_eq [OF ok run_sleep.hyps(2)]
  have "contexts s' = contexts s" unfolding e(2) by (rule contexts_keep [OF ok e(1)]) simp
  then show ?case by (rule ledger_same [OF _ _ run_sleep.IH [OF run_sleep.prems]]) (simp add: e(2))
next
  case (run_terminate s att pend task_id s' r)
  note ok = run_ok [OF run_terminate.hyps(1) run_terminate.prems(1)]
  show ?case using ledger_terminate [OF ok _ run_terminate.hyps(2)] run_terminate by simp
next
  case (run_exit s att pend c s')
  note ok = run_ok [OF run_exit.hyps(1) run_exit.prems(1)]
  note e = exit_task_eq [OF ok run_exit.hyps(2)]
  have "contexts s' = (contexts s)[g_per_cpu_task s c := 0]" unfolding e(2) by (simp add: contexts_set_task)
  from ledger_drop [OF run_exit.IH [OF run_exit.prems] ok e(1) this refl] show ?case by (simp add: e(2))
next
  case (run_detach s att pend c s' u)
  note ok = run_ok [OF run_detach.hyps(1) run_detach.prems(1)]
  have l: "ledger s att pend" using run_detach.IH [OF run_detach.prems] .
  show ?case
  proof (cases "g_per_cpu_task s c < g_task_count s")
    case True
    then have e: "contexts s' = (contexts s)[g_per_cpu_task s c := 0]" "sc_cleaned s' = sc_cleaned s" "u = t_user_data (task_at s (g_per_cpu_task s c))"
      using run_detach.hyps(2) by (auto simp: detach_current_task_def cpu_current_task_def Let_def contexts_set_task)
    show ?thesis using ledger_drop [OF l ok True e(1,3)] e(2) by blast
  next
    case False
    then have "s' = s" "u = 0" using run_detach.hyps(2) by (simp_all add: detach_current_task_def cpu_current_task_def)
    then show ?thesis using l by (simp add: ledger_def)
  qed
next
  case (run_start s att pend c s' frame)
  note ok = run_ok [OF run_start.hyps(1) run_start.prems(1)]
  show ?case using ledger_start [OF ok _ run_start.hyps(2,5)] run_start by simp
next
  case (run_start_ap s att pend c elapsed cnt)
  note same = same_sched_start_ap [of s c p elapsed cnt]
  show ?case using run_start_ap.hyps(2)
    by (intro ledger_same [OF contexts_same [OF same(1)] same(2) run_start_ap.IH [OF run_start_ap.prems]]) (simp_all add: cpu_current_task_def)
next
  case (run_code s att pend)
  then show ?case by (simp add: ledger_def contexts_def)
qed

end
