(* ===== verification/SchedSwitch.thy ===== *)
theory SchedSwitch
  imports SchedRun
begin

text \<open>
  Fairness and the context switch: the interface of a fair chooser, interpreted on
  \<open>pick_next_task\<close> with the round-robin distance, and what one \<open>preempt\<close> saves and restores.
\<close>

section \<open>Bounded waiting\<close>

text \<open>
  What a client of a chooser relies on: a waiting candidate comes closer with every choice that
  passes it over, so that it is chosen after at most \<open>bound\<close> choices.
\<close>

locale fair_chooser =
  fixes pick :: "'e \<Rightarrow> nat \<Rightarrow> nat" and waiting :: "'e \<Rightarrow> nat \<Rightarrow> bool" and distance :: "nat \<Rightarrow> nat \<Rightarrow> nat" and bound :: nat
  assumes closer: "waiting e j \<Longrightarrow> pick e cur \<noteq> j \<Longrightarrow> distance (pick e cur) j < distance cur j"
    and within: "waiting e j \<Longrightarrow> distance cur j \<le> bound"
begin

lemma passed_over:
  assumes "\<forall>k<m. waiting (e k) j" "\<forall>k<m. cur (Suc k) = pick (e k) (cur k)" "\<forall>k<m. cur (Suc k) \<noteq> j"
  shows "distance (cur m) j + m \<le> distance (cur 0) j"
  using assms
proof (induction m)
  case (Suc m)
  have "distance (cur (Suc m)) j < distance (cur m) j" using closer [of "e m" j "cur m"] Suc.prems by (metis lessI)
  then show ?case using Suc by simp
qed simp

lemma chosen_within:
  assumes "\<forall>k\<le>bound. waiting (e k) j" "\<forall>k\<le>bound. cur (Suc k) = pick (e k) (cur k)"
  shows "\<exists>k\<le>bound. cur (Suc k) = j"
proof (rule ccontr)
  assume "\<not> (\<exists>k\<le>bound. cur (Suc k) = j)"
  then have "distance (cur (Suc bound)) j + Suc bound \<le> distance (cur 0) j" using assms by (intro passed_over [of _ e]) auto
  then show False using within [of "e 0" j "cur 0"] assms(1) by auto
qed

end

definition rr_distance :: "nat \<Rightarrow> nat \<Rightarrow> nat \<Rightarrow> nat" where
  "rr_distance n cur j = (let a = (if 0 < cur \<and> cur < n then cur else 0) in if a < j then j - a else j + n - 1 - a)"

lemma pick_order_nth:
  assumes "0 < j" "j < n" shows "rr_distance n cur j - 1 < length (pick_order n cur)" "pick_order n cur ! (rr_distance n cur j - 1) = j"
    "0 < rr_distance n cur j" "rr_distance n cur j < n"
proof -
  define a where "a = (if 0 < cur \<and> cur < n then cur else 0)"
  have a: "a < n" using assms by (simp add: a_def)
  have d: "rr_distance n cur j = (if a < j then j - a else j + n - 1 - a)" by (simp add: rr_distance_def a_def Let_def)
  show r: "0 < rr_distance n cur j" "rr_distance n cur j < n" using assms a by (auto simp: d)
  then show l: "rr_distance n cur j - 1 < length (pick_order n cur)" by (simp add: pick_order_def Let_def)
  have e: "pick_order n cur ! k = (a + k) mod (n - 1) + 1" if "k < n - 1" for k
    using that unfolding pick_order_def Let_def a_def [symmetric] by simp
  have k: "rr_distance n cur j - 1 < n - 1" using r by simp
  have "(a + (rr_distance n cur j - 1)) mod (n - 1) = j - 1"
  proof (cases "a < j")
    case True
    then show ?thesis using assms by (simp add: d)
  next
    case False
    then have e: "a + (rr_distance n cur j - 1) = (j - 1) + (n - 1)" using assms a by (simp add: d)
    show ?thesis unfolding e mod_add_self2 using assms by simp
  qed
  then show "pick_order n cur ! (rr_distance n cur j - 1) = j" using e [OF k] assms by simp
qed

lemma pick_order_distance: "k < n - 1 \<Longrightarrow> rr_distance n cur (pick_order n cur ! k) = Suc k"
proof -
  assume k: "k < n - 1"
  define a where "a = (if 0 < cur \<and> cur < n then cur else 0)"
  have a: "a < n" using k by (auto simp: a_def)
  have e: "pick_order n cur ! k = (a + k) mod (n - 1) + 1"
    using k unfolding pick_order_def Let_def a_def [symmetric] by simp
  show ?thesis
  proof (cases "a + k < n - 1")
    case True
    then show ?thesis unfolding e rr_distance_def Let_def a_def [symmetric] by simp
  next
    case False
    have "(a + k) mod (n - 1) = a + k - (n - 1)" using False a k by (simp add: mod_if)
    then show ?thesis unfolding e rr_distance_def Let_def a_def [symmetric] using False a k by auto
  qed
qed

lemma find_first:
  assumes "find P xs = Some x" "m < length xs" "P (xs ! m)"
  obtains k where "k \<le> m" "xs ! k = x" "k < length xs"
proof -
  obtain k where "k < length xs" "xs ! k = x" "\<forall>i<k. \<not> P (xs ! i)" using assms(1) by (auto simp: find_Some_iff)
  then show ?thesis using that [of k] assms(3) by (meson not_le)
qed

lemma pick_next_closer:
  assumes j: "0 < j" "eligible s c j" and n: "pick_next_task s c cur \<noteq> j"
  shows "rr_distance (g_task_count s) (pick_next_task s c cur) j < rr_distance (g_task_count s) cur j"
proof -
  let ?n = "g_task_count s"
  have jn: "j < ?n" using j(2) by (simp add: eligible_def task_can_run_on_this_cpu_def)
  note O = pick_order_nth [OF j(1) jn, of cur]
  have "find (eligible s c) (pick_order ?n cur) \<noteq> None" using pick_order_covers [OF j(1) jn, of cur] j(2) by (auto simp: find_None_iff)
  then obtain x where x: "find (eligible s c) (pick_order ?n cur) = Some x" by blast
  have px: "pick_next_task s c cur = x" using x j(1) jn by (simp add: pick_next_task_def)
  obtain k where k: "k \<le> rr_distance ?n cur j - 1" "pick_order ?n cur ! k = x" "k < length (pick_order ?n cur)"
    using find_first [OF x O(1)] O(2) j(2) by auto
  have kn: "k < ?n - 1" using k(3) by (simp add: pick_order_def Let_def)
  have dx: "rr_distance ?n cur x = Suc k" using pick_order_distance [OF kn, of cur] k(2) by simp
  have xr: "0 < x" "x < ?n" using pick_order_range find_SomeD [OF x] by blast+
  have "k \<noteq> rr_distance ?n cur j - 1" using k(2) O(2) n px by auto
  then have lt: "rr_distance ?n cur x < rr_distance ?n cur j" using k(1) O(3) dx by simp
  then show ?thesis using xr jn j(1) n unfolding px rr_distance_def Let_def by (auto split: if_splits)
qed

interpretation rr: fair_chooser "\<lambda>(s, c) cur. pick_next_task s c cur" "\<lambda>(s, c) j. 0 < j \<and> eligible s c j \<and> g_task_count s = n"
  "rr_distance n" "n - 1" for n
proof
  fix e :: "sched \<times> u8" and j cur :: nat
  obtain s c where e: "e = (s, c)" by fastforce
  assume "(\<lambda>(s, c) j. 0 < j \<and> eligible s c j \<and> g_task_count s = n) e j"
  then have w: "0 < j" "eligible s c j" "g_task_count s = n" by (simp_all add: e)
  show "(\<lambda>(s, c) cur. pick_next_task s c cur) e cur \<noteq> j \<Longrightarrow> rr_distance n ((\<lambda>(s, c) cur. pick_next_task s c cur) e cur) j < rr_distance n cur j"
    using pick_next_closer [OF w(1,2), of cur] w(3) by (simp add: e)
  have "j < n" using w by (simp add: eligible_def task_can_run_on_this_cpu_def)
  then show "rr_distance n cur j \<le> n - 1" using pick_order_nth(4) [OF w(1), of n cur] by simp
qed

section \<open>The context switch\<close>

lemma at_pick_task:
  assumes ok: "sched_ok s" and i: "i < g_task_count s"
  shows "task_at (at_pick p s c regs) i =
    (if i = g_per_cpu_task s c then saved_task (wake_sleeping_tasks (tick_interrupt p s c)) c i regs (\<not> g_yield_in_progress s c)
     else wake_task (g_tick_count (tick_interrupt p s c)) (task_at s i))"
proof -
  have b: "i < MAX_TASKS" "length (g_tasks (tick_interrupt p s c)) = MAX_TASKS" "g_task_count (tick_interrupt p s c) \<le> MAX_TASKS"
    using sched_okD(1,2) [OF ok] i by simp_all
  show ?thesis using i b wake_task_at [OF b(2,3,1)] by (auto simp: at_pick_def save_current_eq Let_def)
qed

lemma preempt_enters:
  assumes ok: "sched_ok s" and run: "g_scheduler_active s" "2 \<le> g_task_count s" and k: "k = picked p s c regs" "k < g_task_count s"
  shows "snd (preempt p s c regs) = (if k = cpu_current_task s c then regs else t_rsp (task_at s k))"
    and "g_per_cpu_task (fst (preempt p s c regs)) c = k"
    and "t_state (task_at (fst (preempt p s c regs)) k) = running"
proof -
  let ?s1 = "at_pick p s c regs"
  have kl: "k < length (g_tasks ?s1)" using sched_okD(1,2) [OF ok] k(2) by simp
  note D = dispatch_task_at [OF kl, of c c]
  let ?d = "dispatch_task ?s1 c c k"
  have same: "same_sched (restore_fpu ?d c k) (fst (preempt p s c regs))"
    using run k by (simp add: preempt_eq Let_def) (meson same_sched_basic same_sched_trans)
  show "snd (preempt p s c regs) = (if k = cpu_current_task s c then regs else t_rsp (task_at s k))"
    using run k at_pick_task [OF ok k(2), of p c regs] D by (simp add: preempt_eq Let_def cpu_current_task_def)
  show "g_per_cpu_task (fst (preempt p s c regs)) c = k" using same_schedD(5) [OF same] by simp
  have "t_state (task_at (restore_fpu ?d c k) k) = running" using kl D by (simp add: restore_fpu_def Let_def)
  then show "t_state (task_at (fst (preempt p s c regs)) k) = running" using same_schedD(1) [OF same] by simp
qed

lemma preempt_others:
  assumes ok: "sched_ok s" and run: "g_scheduler_active s" "2 \<le> g_task_count s" and i: "i < g_task_count s" "i \<noteq> picked p s c regs"
  shows "task_at (fst (preempt p s c regs)) i = task_at (at_pick p s c regs) i"
proof (cases "picked p s c regs < g_task_count s")
  case False
  have t: "g_tasks (cleanup_context s u) = g_tasks s" "g_tasks (load_cr3 s c x) = g_tasks s" "g_tasks (write_fs_base s c x) = g_tasks s"
    "g_tasks (init_cpu_idle_frame p s c) = g_tasks s" for s u x
    by (rule same_schedD(1), simp)+
  show ?thesis using False run by (simp add: preempt_eq Let_def t)
next
  case True
  let ?s1 = "at_pick p s c regs" and ?k = "picked p s c regs"
  have kl: "?k < length (g_tasks ?s1)" using sched_okD(1,2) [OF ok] True by simp
  have "same_sched (restore_fpu (dispatch_task ?s1 c c ?k) c ?k) (fst (preempt p s c regs))"
    using run True by (simp add: preempt_eq Let_def) (meson same_sched_basic same_sched_trans)
  from same_schedD(1) [OF this] show ?thesis
    using i(2) dispatch_task_at [OF kl, of c c] by (simp add: restore_fpu_def Let_def)
qed

text \<open>The FPU image: what is restored is what was saved.\<close>

lemma sanitize_idem [simp]: "sanitize_fxsave_area (sanitize_fxsave_area a) = sanitize_fxsave_area a"
  by (simp add: sanitize_fxsave_area_def Let_def FXSAVE_MXCSR_DEFAULT_MASK_def and.assoc)

text \<open>The registers of the CPU a step of the switch leaves alone.\<close>

lemma cpu_registers [simp]:
  "sc_fpu (tick_interrupt p s c) = sc_fpu s" "sc_cr3 (tick_interrupt p s c) = sc_cr3 s" "sc_fs_base (tick_interrupt p s c) = sc_fs_base s"
  "sc_contexts (tick_interrupt p s c) = sc_contexts s" "sc_kernel_cr3 (tick_interrupt p s c) = sc_kernel_cr3 s"
  "sc_fpu (wake_sleeping_tasks s) = sc_fpu s" "sc_cr3 (wake_sleeping_tasks s) = sc_cr3 s" "sc_fs_base (wake_sleeping_tasks s) = sc_fs_base s"
  "sc_contexts (wake_sleeping_tasks s) = sc_contexts s" "sc_kernel_cr3 (wake_sleeping_tasks s) = sc_kernel_cr3 s"
  "sc_fpu (cleanup_context s u) = sc_fpu s" "sc_cr3 (cleanup_context s u) = sc_cr3 s" "sc_fs_base (cleanup_context s u) = sc_fs_base s"
  "sc_contexts (cleanup_context s u) = sc_contexts s" "sc_kernel_cr3 (cleanup_context s u) = sc_kernel_cr3 s" "g_tasks (cleanup_context s u) = g_tasks s"
  "sc_fpu (dispatch_task s c d i) = sc_fpu s" "sc_cr3 (dispatch_task s c d i) = sc_cr3 s" "sc_fs_base (dispatch_task s c d i) = sc_fs_base s"
  "sc_contexts (dispatch_task s c d i) = sc_contexts s" "sc_kernel_cr3 (dispatch_task s c d i) = sc_kernel_cr3 s"
  by (simp_all add: tick_interrupt_def pic_eoi_def outb_def lapic_write_def wake_sleeping_tasks_def cleanup_context_def dispatch_task_def
      cpu_set_current_task_def set_task_def Let_def)

lemma at_pick_registers [simp]:
  "sc_fpu (at_pick p s c regs) = sc_fpu s" "sc_cr3 (at_pick p s c regs) = sc_cr3 s" "sc_fs_base (at_pick p s c regs) = sc_fs_base s"
  "sc_contexts (at_pick p s c regs) = sc_contexts s" "sc_kernel_cr3 (at_pick p s c regs) = sc_kernel_cr3 s"
  by (simp_all add: at_pick_def save_current_def set_task_def Let_def)

lemma activate_registers [simp]:
  "sc_fpu (activate_task_address_space s c t) = sc_fpu s" "sc_fpu (activate_task_thread_pointer s c t) = sc_fpu s"
  "sc_cr3 (activate_task_thread_pointer s c t) = sc_cr3 s" "sc_contexts (activate_task_address_space s c t) = sc_contexts s"
  "g_tasks (activate_task_address_space s c t) = g_tasks s"
  by (auto simp: activate_task_address_space_def activate_task_thread_pointer_def load_cr3_def write_fs_base_def split: option.split)

text \<open>The root of the page tables and the thread pointer a task runs with.\<close>

definition task_root :: "sched \<Rightarrow> u64 \<Rightarrow> u64" where
  "task_root s u = (case (if u = 0 then None else pv_address_space (sc_contexts s u)) of
     Some root \<Rightarrow> if root \<noteq> 0 then root else sc_kernel_cr3 s | None \<Rightarrow> sc_kernel_cr3 s)"

definition task_thread_pointer :: "sched \<Rightarrow> u64 \<Rightarrow> u64" where
  "task_thread_pointer s u = (if u = 0 then 0 else pv_user_thread_pointer (sc_contexts s u))"

lemma activate_cr3: "sc_cr3 (activate_task_address_space s c t) c =
    (if task_root s (t_user_data t) = 0 then sc_cr3 s c else task_root s (t_user_data t))"
  by (auto simp: activate_task_address_space_def load_cr3_def task_root_def split: option.split)

lemma activate_fs: "sc_fs_base (activate_task_thread_pointer s c t) c = task_thread_pointer s (t_user_data t)"
  by (simp add: activate_task_thread_pointer_def write_fs_base_def task_thread_pointer_def)

lemma preempt_registers:
  assumes ok: "sched_ok s" and run: "g_scheduler_active s" "2 \<le> g_task_count s" and k: "k = picked p s c regs" "k < g_task_count s"
    and s': "s' = fst (preempt p s c regs)" and u: "u = t_user_data (task_at s k)"
  shows "sc_fpu s' = (sc_fpu s)(c := if k = cpu_current_task s c then sanitize_fxsave_area (sc_fpu s c)
      else if t_xsave_valid (task_at s k) then sanitize_fxsave_area (t_xsave_area (task_at s k)) else sc_fpu s c)"
    and "sc_cr3 s' c = (if task_root s u = 0 then sc_cr3 s c else task_root s u)" "sc_fs_base s' c = task_thread_pointer s u"
proof -
  let ?s1 = "at_pick p s c regs"
  let ?s2 = "dispatch_task ?s1 c c k"
  let ?s3 = "cleanup_context (restore_fpu ?s2 c k) (reaped p s c)"
  let ?s4 = "activate_task_address_space ?s3 c (task_at ?s3 k)"
  have kl: "k < length (g_tasks ?s1)" using sched_okD(1,2) [OF ok] k(2) by simp
  note D = dispatch_task_at [OF kl, of c c]
  have e: "s' = activate_task_thread_pointer ?s4 c (task_at ?s4 k)" unfolding s' using run k by (simp add: preempt_eq Let_def)
  have at: "task_at ?s1 k = (if k = g_per_cpu_task s c then saved_task (wake_sleeping_tasks (tick_interrupt p s c)) c k regs (\<not> g_yield_in_progress s c)
      else wake_task (g_tick_count (tick_interrupt p s c)) (task_at s k))" by (rule at_pick_task [OF ok k(2)])
  have xs: "t_xsave_area (task_at ?s1 k) = (if k = g_per_cpu_task s c then sanitize_fxsave_area (sc_fpu s c) else t_xsave_area (task_at s k))"
    "t_xsave_valid (task_at ?s1 k) = (k = g_per_cpu_task s c \<or> t_xsave_valid (task_at s k))"
    unfolding at by (auto simp: wake_task_def saved_task_def Let_def)
  have "sc_fpu s' = sc_fpu (restore_fpu ?s2 c k)" unfolding e by simp
  also have "\<dots> = (sc_fpu s)(c := if k = cpu_current_task s c then sanitize_fxsave_area (sc_fpu s c)
      else if t_xsave_valid (task_at s k) then sanitize_fxsave_area (t_xsave_area (task_at s k)) else sc_fpu s c)"
    using xs D by (auto simp: restore_fpu_def Let_def cpu_current_task_def set_task_def)
  finally show "sc_fpu s' = (sc_fpu s)(c := if k = cpu_current_task s c then sanitize_fxsave_area (sc_fpu s c)
      else if t_xsave_valid (task_at s k) then sanitize_fxsave_area (t_xsave_area (task_at s k)) else sc_fpu s c)" .
  have "eligible ?s1 c k" using k sched_okD(2) [OF ok] by (cases rule: pick_next_cases [of ?s1 c "g_per_cpu_task s c"]) (auto simp: picked_def SCHED_NO_TASK_def)
  then have "t_state (task_at ?s1 k) = ready" by (simp add: eligible_def)
  moreover have w: "t_user_data (wake_task x y) = t_user_data y" for x y by (simp add: wake_task_def)
  moreover have "task_at (wake_sleeping_tasks (tick_interrupt p s c)) k = wake_task (g_tick_count (tick_interrupt p s c)) (task_at s k)"
    using wake_task_at [of "tick_interrupt p s c" k] sched_okD(1,2) [OF ok] k(2) by simp
  ultimately have u1: "t_user_data (task_at ?s1 k) = u" unfolding at u by (auto simp: saved_task_def Let_def wake_task_def split: if_splits)
  have kl2: "k < length (g_tasks ?s2)" using kl by (simp add: dispatch_task_def Let_def set_task_def cpu_set_current_task_def)
  have u3: "t_user_data (task_at ?s3 k) = u" using u1 D kl2 by (auto simp: restore_fpu_def Let_def set_task_def)
  have c3: "sc_contexts ?s3 = sc_contexts s" "sc_kernel_cr3 ?s3 = sc_kernel_cr3 s" "sc_cr3 ?s3 = sc_cr3 s"
    by (auto simp: restore_fpu_def Let_def set_task_def)
  have r: "task_root ?s3 u = task_root s u" "task_thread_pointer ?s3 u = task_thread_pointer s u"
    unfolding task_root_def task_thread_pointer_def c3 by (rule refl)+
  show "sc_cr3 s' c = (if task_root s u = 0 then sc_cr3 s c else task_root s u)"
    unfolding e activate_registers activate_cr3 u3 r c3 ..
  have c4: "task_at ?s4 k = task_at ?s3 k" "sc_contexts ?s4 = sc_contexts s" using c3(1) by simp_all
  show "sc_fs_base s' c = task_thread_pointer s u"
    unfolding e activate_fs c4(1) u3 unfolding task_thread_pointer_def c4(2) ..
qed

end
