(* ===== verification/SchedSpec.thy ===== *)
theory SchedSpec
  imports SchedSwitch
begin

text \<open>
  The properties of the scheduler, with a concrete machine on which their hypotheses hold.
\<close>

section \<open>A concrete machine\<close>

text \<open>Two tasks are created after initialisation and the boot CPU starts scheduling.\<close>

definition demo_platform :: platform where
  "demo_platform = \<lparr>pf_stack_end = (\<lambda>i. 0x100000 * (word_of_nat i + 1)), pf_idle_stack_end = (\<lambda>c. 0x9000000 + 0x1000 * ucast c),
     pf_task_trampoline = 0x200000, pf_cpu_idle_trampoline = 0x200100, pf_apic_base = (\<lambda>_. 0xFEE00900), pf_inb = (\<lambda>_ _. 0xFF)\<rparr>"

definition demo_boot :: sched where
  "demo_boot = \<lparr>g_tasks = [], g_task_count = 0, g_next_task_id = 0, g_scheduler_active = False, g_tick_count = 0,
     g_per_cpu_task = (\<lambda>_. 0), g_cpu_idle_rsp = (\<lambda>_. 0), g_yield_in_progress = (\<lambda>_. False), g_bsp_apic_id = 0,
     sc_stacks = (\<lambda>_. 0), sc_contexts = (\<lambda>_. \<lparr>pv_task_id = 0, pv_address_space = Some 0x5000, pv_user_thread_pointer = 7\<rparr>),
     sc_cleaned = [], sc_cr3 = (\<lambda>_. 0x1000), sc_fs_base = (\<lambda>_. 0), sc_fpu = (\<lambda>_. \<lparr>fx_mxcsr = 0x1F80, fx_mxcsr_mask = 0, fx_rest = []\<rparr>),
     sc_kernel_cr3 = 0x1000, sc_io = []\<rparr>"

definition demo_init :: sched where
  "demo_init = sched_init demo_platform demo_boot 0"

definition demo_idle :: sched where
  "demo_idle = fst (create_task demo_platform demo_init ''idle'' 0x1000 0)"

definition demo_ready :: sched where
  "demo_ready = fst (create_task demo_platform demo_idle ''shell'' 0x2000 0x9000)"

definition demo_running :: sched where
  "demo_running = fst (the (sched_start demo_platform demo_ready 0))"


lemma fold_idle_cleaned: "sc_cleaned (fold (\<lambda>i s. init_cpu_idle_frame p s (word_of_nat i)) xs s) = sc_cleaned s"
  by (induction xs arbitrary: s) simp_all

lemma sched_init_fields:
  "g_tasks (sched_init p s c) = replicate MAX_TASKS zero_task" "g_task_count (sched_init p s c) = 0" "g_next_task_id (sched_init p s c) = 1"
  "g_scheduler_active (sched_init p s c) = False" "g_per_cpu_task (sched_init p s c) = (\<lambda>_. SCHED_NO_TASK)" "g_bsp_apic_id (sched_init p s c) = c"
  "sc_cleaned (sched_init p s c) = sc_cleaned s"
  using same_schedD [OF fold_idle_same, of p "[0..<256]"]
  by (simp_all add: sched_init_def Let_def pic_remap_def pit_init_def outb_def fold_idle_cleaned)

lemma demo_idle_fields:
  "g_tasks demo_idle = (g_tasks demo_init)[0 := (new_task zero_task ''idle'' 1 False)
      \<lparr>t_entry := 0x1000, t_user_data := 0, t_rsp := (pf_stack_end demo_platform 0 AND NOT 0xF) - 200\<rparr>]"
  "g_task_count demo_idle = 1" "g_next_task_id demo_idle = 2" "g_scheduler_active demo_idle = False"
  "g_per_cpu_task demo_idle = (\<lambda>_. SCHED_NO_TASK)" "g_bsp_apic_id demo_idle = 0" "sc_cleaned demo_idle = []"
proof -
  have slot: "find_available_task_slot demo_init = 0" by (simp add: find_available_task_slot_def demo_init_def sched_init_fields MAX_TASKS_def)
  obtain s' r where c: "create_task demo_platform demo_init ''idle'' 0x1000 0 = (s', r)" by fastforce
  have "demo_idle = s'" by (simp add: demo_idle_def c)
  then show "g_tasks demo_idle = (g_tasks demo_init)[0 := (new_task zero_task ''idle'' 1 False)
      \<lparr>t_entry := 0x1000, t_user_data := 0, t_rsp := (pf_stack_end demo_platform 0 AND NOT 0xF) - 200\<rparr>]"
    "g_task_count demo_idle = 1" "g_next_task_id demo_idle = 2" "g_scheduler_active demo_idle = False"
    "g_per_cpu_task demo_idle = (\<lambda>_. SCHED_NO_TASK)" "g_bsp_apic_id demo_idle = 0" "sc_cleaned demo_idle = []"
    using create_task_fields [OF c slot [symmetric]] by (simp_all add: demo_init_def sched_init_fields MAX_TASKS_def demo_boot_def)
qed

lemma demo_ready_fields:
  "g_tasks demo_ready = (g_tasks demo_idle)[1 := (new_task zero_task ''shell'' 2 False)
      \<lparr>t_entry := 0x2000, t_user_data := 0x9000, t_rsp := (pf_stack_end demo_platform 1 AND NOT 0xF) - 200\<rparr>]"
  "g_task_count demo_ready = 2" "g_next_task_id demo_ready = 3" "g_scheduler_active demo_ready = False"
  "g_per_cpu_task demo_ready = (\<lambda>_. SCHED_NO_TASK)" "g_bsp_apic_id demo_ready = 0" "sc_cleaned demo_ready = []"
proof -
  have at0: "task_at demo_idle 0 = (new_task zero_task ''idle'' 1 False)\<lparr>t_entry := 0x1000, t_user_data := 0, t_rsp := (pf_stack_end demo_platform 0 AND NOT 0xF) - 200\<rparr>"
    by (simp add: demo_idle_fields demo_init_def sched_init_fields MAX_TASKS_def)
  have at1: "task_at demo_idle 1 = zero_task" by (simp add: demo_idle_fields demo_init_def sched_init_fields MAX_TASKS_def)
  have slot: "find_available_task_slot demo_idle = 1" by (simp add: find_available_task_slot_def demo_idle_fields(2) at0 new_task_def MAX_TASKS_def)
  have len: "length (g_tasks demo_idle) = MAX_TASKS" by (simp add: demo_idle_fields demo_init_def sched_init_fields)
  obtain s' r where c: "create_task demo_platform demo_idle ''shell'' 0x2000 0x9000 = (s', r)" by fastforce
  have "demo_ready = s'" by (simp add: demo_ready_def c)
  then show "g_tasks demo_ready = (g_tasks demo_idle)[1 := (new_task zero_task ''shell'' 2 False)
      \<lparr>t_entry := 0x2000, t_user_data := 0x9000, t_rsp := (pf_stack_end demo_platform 1 AND NOT 0xF) - 200\<rparr>]"
    "g_task_count demo_ready = 2" "g_next_task_id demo_ready = 3" "g_scheduler_active demo_ready = False"
    "g_per_cpu_task demo_ready = (\<lambda>_. SCHED_NO_TASK)" "g_bsp_apic_id demo_ready = 0" "sc_cleaned demo_ready = []"
    using create_task_fields [OF c slot [symmetric] _ _ len] at1 by (simp_all add: demo_idle_fields(2-7) MAX_TASKS_def)
qed

lemma demo_run: "sched_run demo_platform demo_init demo_ready [0, 0x9000] []"
proof -
  have c0: "create_task demo_platform demo_init ''idle'' 0x1000 0 = (demo_idle, 1)"
  proof -
    have slot: "find_available_task_slot demo_init = 0" by (simp add: find_available_task_slot_def demo_init_def sched_init_fields MAX_TASKS_def)
    obtain s' r where c: "create_task demo_platform demo_init ''idle'' 0x1000 0 = (s', r)" by fastforce
    then show ?thesis using create_task_fields(8) [OF c slot [symmetric]] by (simp add: demo_idle_def demo_init_def sched_init_fields MAX_TASKS_def)
  qed
  have i: "sched_run demo_platform demo_init demo_idle [0] []"
    using run_create [OF run_init c0] by (simp add: demo_init_def sched_init_fields)
  have at0: "t_state (task_at demo_idle 0) = ready" by (simp add: demo_idle_fields demo_init_def sched_init_fields MAX_TASKS_def new_task_def)
  have slot: "find_available_task_slot demo_idle = 1" by (simp add: find_available_task_slot_def demo_idle_fields(2) at0 MAX_TASKS_def)
  obtain s' r where c: "create_task demo_platform demo_idle ''shell'' 0x2000 0x9000 = (s', r)" by fastforce
  have "length (g_tasks demo_idle) = MAX_TASKS" by (simp add: demo_idle_fields demo_init_def sched_init_fields)
  then have "r = 2" using create_task_fields(8) [OF c slot [symmetric]] by (simp add: demo_idle_fields MAX_TASKS_def)
  then show ?thesis using run_create [OF i c] c by (simp add: demo_idle_fields demo_ready_def)
qed

lemma demo_start: "sched_start demo_platform demo_ready 0 = Some (demo_running, snd (the (sched_start demo_platform demo_ready 0)))"
  by (simp add: demo_running_def sched_start_def demo_ready_fields Let_def)

lemma demo_running_reached: "sched_run demo_platform demo_init demo_running [0, 0x9000] []"
  using run_start [OF demo_run _ _ _ demo_start] by (simp add: demo_ready_fields cpu_current_task_def)

lemma demo_ready_ok: "sched_ok demo_ready"
  using run_ok [OF demo_run] sched_ok_init by (simp add: demo_init_def)

lemma demo_running_ok: "sched_ok demo_running"
  using run_ok [OF demo_running_reached] sched_ok_init by (simp add: demo_init_def)

lemma demo_running_fields:
  "g_task_count demo_running = 2" "g_scheduler_active demo_running" "g_per_cpu_task demo_running 0 = 1" "g_bsp_apic_id demo_running = 0"
  "t_state (task_at demo_running 1) = running" "t_state (task_at demo_running 0) = ready" "t_current_cpu (task_at demo_running 0) = SCHED_CPU_NONE"
  "t_user_data (task_at demo_running 1) = 0x9000" "sc_cleaned demo_running = sc_cleaned demo_ready"
proof -
  have at0: "t_state (task_at demo_ready 0) = ready" "t_current_cpu (task_at demo_ready 0) = SCHED_CPU_NONE"
    by (simp_all add: demo_ready_fields demo_idle_fields demo_init_def sched_init_fields MAX_TASKS_def new_task_def)
  have at: "t_state (task_at demo_ready 1) = ready" "t_affinity_cpu (task_at demo_ready 1) = SCHED_CPU_NONE" "t_user_data (task_at demo_ready 1) = 0x9000"
    by (simp_all add: demo_ready_fields demo_idle_fields demo_init_def sched_init_fields MAX_TASKS_def new_task_def)
  have "eligible demo_ready 0 1" using at
    by (simp add: eligible_def task_can_run_on_this_cpu_def task_matches_cpu_affinity_def cpu_allows_shared_idle_def demo_ready_fields(2,6))
  then have p: "pick_next_task demo_ready 0 SCHED_NO_TASK = 1"
    by (simp add: pick_next_task_def demo_ready_fields(2) pick_order_def SCHED_NO_TASK_def MAX_TASKS_def upt_rec)
  let ?d = "(dispatch_task demo_ready 0 0 1)\<lparr>g_scheduler_active := True\<rparr>"
  show "sc_cleaned demo_running = sc_cleaned demo_ready"
    by (simp add: demo_running_def sched_start_def demo_ready_fields(2,6) Let_def)
  have "same_sched ?d demo_running"
    using p by (simp add: demo_running_def sched_start_def demo_ready_fields(2,6) Let_def) (meson same_sched_basic same_sched_trans)
  note D = same_schedD [OF this]
  have l: "1 < length (g_tasks demo_ready)" using sched_okD(1) [OF demo_ready_ok] by (simp add: MAX_TASKS_def)
  show "g_task_count demo_running = 2" "g_scheduler_active demo_running" "g_per_cpu_task demo_running 0 = 1" "g_bsp_apic_id demo_running = 0"
    "t_state (task_at demo_running 1) = running" "t_state (task_at demo_running 0) = ready" "t_current_cpu (task_at demo_running 0) = SCHED_CPU_NONE"
    "t_user_data (task_at demo_running 1) = 0x9000"
    using D dispatch_task_at [OF l, of 0 0] at0 at by (simp_all add: demo_ready_fields(2,6))
qed

lemma demo_picked: "eligible (at_pick demo_platform demo_running 0 r) 0 1" "picked demo_platform demo_running 0 r = 1"
  "cpu_current_task (fst (preempt demo_platform demo_running 0 r)) 0 = 1"
proof -
  note F = demo_running_fields
  let ?w = "wake_sleeping_tasks (tick_interrupt demo_platform demo_running 0)"
  have "1 < MAX_TASKS" by (simp add: MAX_TASKS_def)
  then have "task_at ?w 1 = wake_task (g_tick_count (tick_interrupt demo_platform demo_running 0)) (task_at demo_running 1)"
    using wake_task_at [of "tick_interrupt demo_platform demo_running 0" 1] sched_okD(1,2) [OF demo_running_ok] F(1) by simp
  then have "t_state (task_at ?w 1) = running" using F(5) by simp
  then have "is_runnable (task_at (at_pick demo_platform demo_running 0 r) 1)"
    using at_pick_task [OF demo_running_ok, of 1 demo_platform 0 r] F(1,3) by (simp add: is_runnable_def)
  then show el: "eligible (at_pick demo_platform demo_running 0 r) 0 1"
    using current_stays_eligible [OF demo_running_ok, of 0 demo_platform r] F(1,3) by simp
  then show p: "picked demo_platform demo_running 0 r = 1"
    by (simp add: picked_def pick_next_task_def F pick_order_def upt_rec)
  show "cpu_current_task (fst (preempt demo_platform demo_running 0 r)) 0 = 1"
    using preempt_enters(2) [OF demo_running_ok F(2) _ p [symmetric]] by (simp add: F cpu_current_task_def)
qed

lemma demo_user_data:
  "t_user_data (task_at demo_ready 1) = 0x9000" "t_id (task_at demo_ready 0) = 1" "t_id (task_at demo_ready 1) = 2"
  "t_current_cpu (task_at demo_ready 1) = SCHED_CPU_NONE"
  by (simp_all add: demo_ready_fields demo_idle_fields demo_init_def sched_init_fields MAX_TASKS_def new_task_def)




section \<open>Properties\<close>

text \<open>
  C6. In every interleaving of the scheduler's operations on all CPUs in which no task calls \<open>sleep\<close>
  after another CPU has terminated it, each CPU starts scheduling once and the id counter does not
  wrap, no two CPUs have the same current task, every running task is current on exactly one CPU,
  and task ids are unique.
\<close>

theorem cpus_never_share_task:
  assumes "sched_run p (sched_init p s b) s' att pend"
  shows "(\<forall>c d. cpu_current_task s' c = cpu_current_task s' d \<longrightarrow> cpu_current_task s' c < g_task_count s' \<longrightarrow> c = d) \<and>
    (\<forall>i<g_task_count s'. t_state (task_at s' i) = running \<longrightarrow> (\<exists>!c. cpu_current_task s' c = i)) \<and>
    (\<forall>i<g_task_count s'. \<forall>j<g_task_count s'. t_id (task_at s' i) = t_id (task_at s' j) \<longrightarrow> i = j)"
proof (intro conjI allI impI)
  note ok = run_ok [OF assms sched_ok_init]
  show ex: "c = d" if "cpu_current_task s' c = cpu_current_task s' d" "cpu_current_task s' c < g_task_count s'" for c d
    using current_exclusive [OF ok] that by (simp add: cpu_current_task_def)
  show "\<exists>!c. cpu_current_task s' c = i" if i: "i < g_task_count s'" "t_state (task_at s' i) = running" for i
  proof -
    obtain c where "cpu_current_task s' c = i"
      using task_okD(1,2) [OF sched_okD(3) [OF ok i(1)]] i(2) by (auto simp: cpu_current_task_def)
    then show ?thesis using ex i(1) by metis
  qed
  show "i = j" if "i < g_task_count s'" "j < g_task_count s'" "t_id (task_at s' i) = t_id (task_at s' j)" for i j
    using sched_okD(5) [OF ok] that by (simp add: ids_ok_def)
qed

lemma cpus_never_share_task_witness:
  "cpu_current_task demo_running 0 = 1 \<and> g_task_count demo_running = 2 \<and> cpu_current_task demo_running 3 \<noteq> 1"
proof -
  have r: "sched_run demo_platform (sched_init demo_platform demo_boot 0) demo_running [0, 0x9000] []"
    using demo_running_reached by (simp add: demo_init_def)
  have c: "cpu_current_task demo_running 0 = 1" "g_task_count demo_running = 2" by (simp_all add: cpu_current_task_def demo_running_fields)
  have "cpu_current_task demo_running 0 = cpu_current_task demo_running 3 \<longrightarrow> cpu_current_task demo_running 0 < g_task_count demo_running \<longrightarrow> (0 :: u8) = 3"
    using cpus_never_share_task [OF r] by blast
  then show ?thesis using c by auto
qed

text \<open>
  C8. Whoever cleans it up, the scheduler (a task terminated or reaped), the process itself when it
  ends, the exception handler or \<open>exec\<close>: a process context is handed to \<open>cleanup_process_context\<close> at
  most as often as it was attached to a task, less the tasks that still hold it and the callers that
  have taken it from its task and not cleaned it up yet. So a context attached once is cleaned up at
  most once, and not while its task still refers to it. The runs are those in which no other CPU
  terminates a process between the cleanup of its own context and its \<open>exit_task\<close>, and in which no
  task calls \<open>sleep\<close> after another CPU has terminated it.
\<close>

theorem contexts_cleaned_once:
  assumes "sched_run p (sched_init p s b) s' att pend" "sc_cleaned s = []" "u \<noteq> 0"
  shows "count_list (sc_cleaned s') u + count_list (map t_user_data (take (g_task_count s') (g_tasks s'))) u + count_list pend u \<le> count_list att u"
  using run_ledger [OF assms(1) sched_ok_init] assms(2,3) by (simp add: sched_init_fields ledger_def contexts_def)

lemma contexts_cleaned_once_witness:
  "\<exists>s1 s2. stub_exit demo_running 0 = Some s1 \<and> sc_cleaned s1 = [0x9000] \<and> 0x9000 \<notin> t_user_data ` set (take 2 (g_tasks s1)) \<and>
     terminate_task demo_ready 2 = (s2, True) \<and> sc_cleaned s2 = [0x9000] \<and> 0x9000 \<notin> t_user_data ` set (take 2 (g_tasks s2))"
proof -
  have cl: "sc_cleaned demo_boot = []" "sc_cleaned demo_running = []" "sc_cleaned demo_ready = []"
    by (simp_all add: demo_boot_def demo_running_fields(9) demo_ready_fields(7))
  have m: "0x9000 \<notin> t_user_data ` set (take 2 (g_tasks s'))"
    if "sched_run demo_platform demo_init s' [0, 0x9000] []" "sc_cleaned s' = [0x9000]" "g_task_count s' = 2" for s'
    using contexts_cleaned_once [OF that(1) [unfolded demo_init_def] cl(1), of "0x9000"] that(2,3) by (simp add: count_list_0_iff)
  obtain s1 where s1: "stub_exit demo_running 0 = Some s1" "sc_cleaned s1 = [0x9000]" "g_task_count s1 = 2"
    using cl(2) by (auto simp del: One_nat_def simp: stub_exit_def exit_task_def cpu_current_task_def demo_running_fields MAX_TASKS_def current_task_user_data_def Let_def cleanup_context_def)
  obtain s2 where s2: "terminate_task demo_ready 2 = (s2, True)" "sc_cleaned s2 = [0x9000]" "g_task_count s2 = 2"
    using cl(3) demo_user_data by (auto simp: terminate_task_eq demo_ready_fields(2) upt_rec cleanup_context_def)
  show ?thesis using s1 s2 m [OF run_stub_exit [OF demo_running_reached s1(1)] s1(2,3)] m [OF run_terminate [OF demo_run s2(1)] s2(2,3)] by blast
qed

text \<open>
  The premise on the end of a process is needed. \<open>process_task_main\<close>, \<open>exec_impl\<close> and \<open>stub_exit\<close> clean
  up a context that the task still holds; when another CPU terminates the task before it reaches
  \<open>exit_task\<close>, the next preemption cleans the same context up again.
\<close>

lemma terminate_during_exit_cleans_twice:
  assumes "sched_ok s" "g_scheduler_active s" "2 \<le> g_task_count s" "i = cpu_current_task s c" "0 < i" "i < g_task_count s"
    and "u = t_user_data (task_at s i)" "u \<noteq> 0"
    and "terminate_task (cleanup_context s u) (t_id (task_at s i)) = (s1, r)" "preempt p s1 c regs = (s2, frame)"
  shows "sc_cleaned s2 = sc_cleaned s @ [u, u]"
proof -
  have "find (\<lambda>j. t_id (task_at s j) = t_id (task_at s i)) [0..<g_task_count s] \<noteq> None" using assms(6) by (auto simp: find_None_iff)
  then obtain j where j: "find (\<lambda>j. t_id (task_at s j) = t_id (task_at s i)) [0..<g_task_count s] = Some j" by blast
  have "j = i" using find_SomeD [OF j] sched_okD(5) [OF assms(1)] assms(6) by (auto simp: ids_ok_def)
  moreover have "t_current_cpu (task_at s i) = cpu32 c" using current_on_cpu [OF assms(1), of c] assms(4,6) by (simp add: cpu_current_task_def)
  ultimately have s1: "s1 = set_task (cleanup_context s u) i ((task_at s i)\<lparr>t_state := terminated, t_wake_tick := 0, t_affinity_cpu := SCHED_CPU_NONE\<rparr>)"
    using assms(5,9) j by (auto simp: terminate_task_def Let_def cleanup_context_def split: if_splits)
  have ok1: "sched_ok s1" using sched_ok_terminate [of "cleanup_context s u" "t_id (task_at s i)"] same_sched_ok [OF same_sched_basic(4)] assms(1,9) by auto
  have f: "g_scheduler_active s1" "g_task_count s1 = g_task_count s" "g_per_cpu_task s1 c = i" "sc_cleaned s1 = sc_cleaned s @ [u]"
    using assms(2,4,8) by (simp_all add: s1 cleanup_context_def cpu_current_task_def)
  have at: "task_at s1 i = (task_at s i)\<lparr>t_state := terminated, t_wake_tick := 0, t_affinity_cpu := SCHED_CPU_NONE\<rparr>"
    using sched_okD(1,2) [OF assms(1)] assms(6) by (simp add: s1)
  have "task_at (wake_sleeping_tasks (tick_interrupt p s1 c)) i = wake_task (g_tick_count (tick_interrupt p s1 c)) (task_at s1 i)"
    using wake_task_at [of "tick_interrupt p s1 c" i] sched_okD(1,2) [OF ok1] f(2) assms(6) by simp
  then have w: "reaped p s1 c = u" using f(2,3) assms(6,7) at by (simp add: reaped_def Let_def wake_task_def)
  have nr: "\<not> is_runnable (task_at (at_pick p s1 c regs) i)"
    using at_pick_task [OF ok1, of i p c regs] f(2,3) assms(6) \<open>task_at (wake_sleeping_tasks (tick_interrupt p s1 c)) i = _\<close> at
    by (simp add: is_runnable_def wake_task_def)
  have "sc_cleaned (fst (preempt p s1 c regs)) = sc_cleaned s1 @ [u]"
    using f(1-3) assms(3,6,8) w nr by (simp add: preempt_eq Let_def)
  then show ?thesis using f(4) assms(10) by simp
qed

text \<open>
  C7. Round robin: a task that is ready and may run on a CPU whenever that CPU chooses is entered
  after at most as many preemptions of that CPU as there are tasks, whatever the other CPUs do in
  between.
\<close>

theorem waiting_is_bounded:
  assumes "0 < j" "j < n"
    and "\<forall>m\<le>n - 1. sched_ok (\<sigma> m) \<and> g_scheduler_active (\<sigma> m) \<and> g_task_count (\<sigma> m) = n \<and> eligible (at_pick p (\<sigma> m) c (regs m)) c j"
    and "\<forall>m\<le>n - 1. cpu_current_task (\<sigma> (Suc m)) c = cpu_current_task (fst (preempt p (\<sigma> m) c (regs m))) c"
  shows "\<exists>m\<le>n - 1. cpu_current_task (fst (preempt p (\<sigma> m) c (regs m))) c = j \<and>
    t_state (task_at (fst (preempt p (\<sigma> m) c (regs m))) j) = running"
proof -
  define cur where "cur m = cpu_current_task (\<sigma> m) c" for m
  define e where "e m = (at_pick p (\<sigma> m) c (regs m), c)" for m
  have lt: "picked p (\<sigma> m) c (regs m) < n" if "m \<le> n - 1" for m
    using assms that by (cases rule: pick_next_cases [of "at_pick p (\<sigma> m) c (regs m)" c "g_per_cpu_task (\<sigma> m) c"]) (auto simp: picked_def)
  have enter: "cpu_current_task (fst (preempt p (\<sigma> m) c (regs m))) c = picked p (\<sigma> m) c (regs m) \<and>
      t_state (task_at (fst (preempt p (\<sigma> m) c (regs m))) (picked p (\<sigma> m) c (regs m))) = running" if "m \<le> n - 1" for m
    using preempt_enters(2,3) [of "\<sigma> m" _ p c "regs m"] lt [OF that] assms that by (simp add: cpu_current_task_def)
  have "\<forall>m\<le>n - 1. cur (Suc m) = (\<lambda>(s, c) cur. pick_next_task s c cur) (e m) (cur m)"
    using assms(4) enter by (simp add: cur_def e_def picked_def cpu_current_task_def)
  moreover have "\<forall>m\<le>n - 1. (\<lambda>(s, c) j. 0 < j \<and> eligible s c j \<and> g_task_count s = n) (e m) j" using assms(1,3) by (simp add: e_def)
  ultimately obtain m where "m \<le> n - 1" "cur (Suc m) = j" using rr.chosen_within [of n e j cur] by blast
  then show ?thesis using assms(4) enter [of m] by (metis cur_def)
qed

lemma waiting_is_bounded_witness:
  "\<exists>m\<le>1. cpu_current_task (fst (preempt demo_platform demo_running 0 (0x1000 + word_of_nat m))) 0 = 1"
proof -
  show ?thesis
    using waiting_is_bounded [where j = 1 and n = 2 and \<sigma> = "\<lambda>_. demo_running" and p = demo_platform and c = 0 and
        regs = "\<lambda>m. 0x1000 + word_of_nat m"] demo_running_ok demo_picked
    by (auto simp: demo_running_fields cpu_current_task_def)
qed



text \<open>
  C10. A sleeping task that is off its CPU stays blocked and is not chosen while the tick counter is
  below its wake tick, and the first preemption on any CPU at or after its wake tick makes it runnable.
\<close>

theorem sleeping_task_wakes_on_time:
  assumes "sched_ok s" "g_scheduler_active s" "2 \<le> g_task_count s" "i < g_task_count s"
    and "t_state (task_at s i) = blocked" "t_current_cpu (task_at s i) = SCHED_CPU_NONE"
    and "now = g_tick_count (tick_interrupt p s c)" "s' = fst (preempt p s c regs)"
  shows "(now < t_wake_tick (task_at s i) \<longrightarrow> t_state (task_at s' i) = blocked \<and> (\<forall>d. cpu_current_task s' d \<noteq> i)) \<and>
    (t_wake_tick (task_at s i) \<le> now \<longrightarrow> is_runnable (task_at s' i))"
proof -
  have nc: "g_per_cpu_task s d \<noteq> i" for d using current_on_cpu [OF assms(1), of d] assms(4,6) by auto
  have ok': "sched_ok s'" using sched_ok_preempt [OF assms(1)] assms(8) by blast
  have cnt: "g_task_count s' = g_task_count s"
    using same_schedD(2) [OF same_sched_basic(12)] unfolding assms(8) preempt_eq
    by (simp add: Let_def same_schedD(2) [OF same_sched_basic(2)] same_schedD(2) [OF same_sched_basic(3)] same_schedD(2) [OF same_sched_basic(4)]
        same_schedD(2) [OF same_sched_basic(8)] same_schedD(2) [OF same_sched_basic(9)] same_schedD(2) [OF same_sched_basic(10)])
  have at: "task_at (at_pick p s c regs) i = wake_task now (task_at s i)" using at_pick_task [OF assms(1,4), of p c regs] nc assms(7) by auto
  show ?thesis
  proof (intro conjI impI)
    assume lt: "now < t_wake_tick (task_at s i)"
    then have b: "task_at (at_pick p s c regs) i = task_at s i" unfolding at by (auto simp: wake_task_def)
    have "picked p s c regs \<noteq> i"
    proof (cases rule: pick_next_cases [of "at_pick p s c regs" c "g_per_cpu_task s c"])
      case none
      then show ?thesis using sched_okD(2) [OF assms(1)] assms(4) by (simp add: picked_def SCHED_NO_TASK_def)
    next
      case found
      then show ?thesis using b assms(5) by (auto simp: picked_def eligible_def)
    qed
    then have e: "task_at s' i = task_at s i" using preempt_others [OF assms(1-4), of p c regs] assms(8) b by simp
    then show "t_state (task_at s' i) = blocked" using assms(5) by simp
    show "\<forall>d. cpu_current_task s' d \<noteq> i"
      using current_on_cpu [OF ok'] e assms(4,6) cnt by (metis cpu32_neq_none(1) cpu_current_task_def)
  next
    assume le: "t_wake_tick (task_at s i) \<le> now"
    then have r: "t_state (task_at (at_pick p s c regs) i) = ready" unfolding at using assms(5) by (simp add: wake_task_def)
    show "is_runnable (task_at s' i)"
    proof (cases "picked p s c regs = i")
      case True
      then show ?thesis using preempt_enters(3) [OF assms(1-3), of i p c regs] assms(4,8) by (simp add: is_runnable_def)
    next
      case False
      then show ?thesis using preempt_others [OF assms(1-4), of p c regs] assms(8) r by (simp add: is_runnable_def)
    qed
  qed
qed

lemma sleeping_task_wakes_on_time_witness:
  "is_runnable (task_at (fst (preempt demo_platform
     (set_task demo_running 0 ((task_at demo_running 0)\<lparr>t_state := blocked, t_wake_tick := 0\<rparr>)) 0 0x7000)) 0)"
proof -
  let ?s = "set_task demo_running 0 ((task_at demo_running 0)\<lparr>t_state := blocked, t_wake_tick := 0\<rparr>)"
  have l: "0 < length (g_tasks demo_running)" using sched_okD(1) [OF demo_running_ok] by (simp add: MAX_TASKS_def)
  have "sched_ok ?s" by (rule same_task_fields_ok [OF demo_running_ok]) (simp_all add: demo_running_fields)
  from sleeping_task_wakes_on_time [OF this, where i = 0 and c = 0 and p = demo_platform and regs = "0x7000", OF _ _ _ _ _ refl refl]
  show ?thesis using l by (simp add: demo_running_fields)
qed

text \<open>
  C11. \<open>create_task\<close> returns -1 exactly when the name has 32 characters or more or when all 64 slots
  hold tasks that have not finished; then no task changes but for a cleared name. Otherwise the
  task gets the next id and a slot that no CPU uses, and starts as ready.
\<close>

theorem create_task_errors:
  assumes "sched_ok s" "g_next_task_id s < g_next_task_id s + 1" "create_task p s name entry u = (s', r)"
  shows "(r = -1 \<longleftrightarrow> 32 \<le> length name \<or>
      g_task_count s = 64 \<and> (\<forall>i<64. t_state (task_at s i) \<noteq> terminated \<or> t_current_cpu (task_at s i) \<noteq> SCHED_CPU_NONE)) \<and>
    (r = -1 \<longrightarrow> g_task_count s' = g_task_count s \<and> (\<forall>i<g_task_count s. \<exists>nm. task_at s' i = (task_at s i)\<lparr>t_name := nm\<rparr>)) \<and>
    (r \<noteq> -1 \<longrightarrow> r = sint (g_next_task_id s) \<and> sched_ok s' \<and>
       (\<exists>k<g_task_count s'. (k < g_task_count s \<longrightarrow> t_state (task_at s k) = terminated \<and> t_current_cpu (task_at s k) = SCHED_CPU_NONE) \<and>
          t_id (task_at s' k) = g_next_task_id s \<and> t_name (task_at s' k) = name \<and> t_user_data (task_at s' k) = u \<and>
          t_state (task_at s' k) = ready \<and> (\<forall>c. cpu_current_task s' c \<noteq> k) \<and> (\<forall>i<g_task_count s. i \<noteq> k \<longrightarrow> task_at s' i = task_at s i)))"
proof -
  let ?k = "find_available_task_slot s"
  have full: "?k \<ge> MAX_TASKS \<longleftrightarrow> g_task_count s = 64 \<and> (\<forall>i<64. t_state (task_at s i) \<noteq> terminated \<or> t_current_cpu (task_at s i) \<noteq> SCHED_CPU_NONE)"
  proof (cases "find (\<lambda>i. t_state (task_at s i) = terminated \<and> t_current_cpu (task_at s i) = SCHED_CPU_NONE) [0..<g_task_count s]")
    case None
    then show ?thesis using sched_okD(2) [OF assms(1)] by (auto simp: find_available_task_slot_def SCHED_NO_TASK_def MAX_TASKS_def dest: iffD1 [OF find_None_iff])
  next
    case (Some i)
    then show ?thesis using find_SomeD [OF Some] sched_okD(2) [OF assms(1)] by (auto simp: find_available_task_slot_def MAX_TASKS_def)
  qed
  show ?thesis
  proof (cases "?k < MAX_TASKS \<and> length name < 32")
    case True
    note f = create_task_fields [OF assms(3) refl conjunct1 [OF True] conjunct2 [OF True] sched_okD(1) [OF assms(1)]]
    have "g_next_task_id s \<noteq> -1" using assms(2) by auto
    then have r: "r \<noteq> -1" unfolding f(8) using signed_word_eqI [of "g_next_task_id s" "-1"] by auto
    have ok': "sched_ok s'" using sched_ok_create [OF assms(1,3,2)] .
    have kl: "?k < length (g_tasks s)" using True sched_okD(1) [OF assms(1)] by simp
    have kc: "?k < g_task_count s'" and fin: "?k < g_task_count s \<longrightarrow> t_state (task_at s ?k) = terminated \<and> t_current_cpu (task_at s ?k) = SCHED_CPU_NONE"
      using True f(2) by (cases rule: available_slot [OF assms(1)]; auto)+
    have "t_current_cpu (task_at s' ?k) = SCHED_CPU_NONE" using f(1) kl by (simp add: new_task_def)
    then have "\<forall>c. cpu_current_task s' c \<noteq> ?k" using current_on_cpu [OF ok'] kc by (metis cpu32_neq_none(1) cpu_current_task_def)
    moreover have "\<forall>i<g_task_count s. i \<noteq> ?k \<longrightarrow> task_at s' i = task_at s i" using f(1) by simp
    moreover have "t_id (task_at s' ?k) = g_next_task_id s \<and> t_name (task_at s' ?k) = name \<and> t_user_data (task_at s' ?k) = u \<and> t_state (task_at s' ?k) = ready"
      using f(1) kl by (simp add: new_task_def)
    ultimately have "\<exists>k<g_task_count s'. (k < g_task_count s \<longrightarrow> t_state (task_at s k) = terminated \<and> t_current_cpu (task_at s k) = SCHED_CPU_NONE) \<and>
          t_id (task_at s' k) = g_next_task_id s \<and> t_name (task_at s' k) = name \<and> t_user_data (task_at s' k) = u \<and>
          t_state (task_at s' k) = ready \<and> (\<forall>c. cpu_current_task s' c \<noteq> k) \<and> (\<forall>i<g_task_count s. i \<noteq> k \<longrightarrow> task_at s' i = task_at s i)"
      using kc fin by blast
    then show ?thesis using True full r f(8) ok' by auto
  next
    case False
    then have r: "r = -1" and s': "s' = s \<or> ?k < MAX_TASKS \<and> s' = set_task s ?k ((task_at s ?k)\<lparr>t_name := []\<rparr>)"
      using create_task_refused [OF assms(3)] by auto
    have "\<exists>nm. task_at s' i = (task_at s i)\<lparr>t_name := nm\<rparr>" for i
    proof (cases "s' = s \<or> i \<noteq> ?k")
      case True
      then have "task_at s' i = (task_at s i)\<lparr>t_name := t_name (task_at s i)\<rparr>" using s' by auto
      then show ?thesis by blast
    next
      case False
      then have "task_at s' i = (task_at s i)\<lparr>t_name := []\<rparr>" using s' sched_okD(1) [OF assms(1)] by auto
      then show ?thesis by blast
    qed
    then show ?thesis using False full r s' by auto
  qed
qed

lemma create_task_errors_witness: "snd (create_task demo_platform demo_ready (replicate 40 (CHR ''x'')) 0 0) = -1"
proof -
  obtain s' r where c: "create_task demo_platform demo_ready (replicate 40 (CHR ''x'')) 0 0 = (s', r)" by fastforce
  have "g_next_task_id demo_ready < g_next_task_id demo_ready + 1" by (simp add: demo_ready_fields)
  from create_task_errors [OF demo_ready_ok this c] have "r = -1" by simp
  then show ?thesis using c by simp
qed

text \<open>
  The premise on \<open>sleep\<close> in the runs is needed. A task terminated by another CPU that calls \<open>sleep\<close>
  before its own CPU preempts it becomes blocked again: the termination is lost, and the task is
  pinned to no CPU although its own CPU still runs it.
\<close>

lemma sleep_undoes_terminate:
  assumes "sched_ok s" "i = g_per_cpu_task s c" "0 < i" "i < g_task_count s"
  shows "\<exists>s1 s2. terminate_task s (t_id (task_at s i)) = (s1, True) \<and> sleep_block s1 c ticks = Some s2 \<and>
    t_state (task_at s2 i) = blocked \<and> t_affinity_cpu (task_at s2 i) = SCHED_CPU_NONE \<and> t_current_cpu (task_at s2 i) = cpu32 c"
proof -
  have il: "i < length (g_tasks s)" "i < MAX_TASKS" using assms sched_okD(1,2) [OF assms(1)] by auto
  have "find (\<lambda>j. t_id (task_at s j) = t_id (task_at s i)) [0..<g_task_count s] \<noteq> None" using assms(4) by (auto simp: find_None_iff)
  then obtain j where j: "find (\<lambda>j. t_id (task_at s j) = t_id (task_at s i)) [0..<g_task_count s] = Some j" by blast
  have "j = i" using find_SomeD [OF j] sched_okD(5) [OF assms(1)] assms(4) by (auto simp: ids_ok_def)
  moreover have "t_current_cpu (task_at s i) = cpu32 c" using current_on_cpu [OF assms(1), of c] assms(2,4) by simp
  ultimately show ?thesis using j assms(2,3) il
    by (simp add: terminate_task_eq sleep_block_def cpu_current_task_def Let_def cleanup_context_def)
qed

end
