(* ===== verification/Elf.thy ===== *)
theory Elf
  imports VirtMemSpec
begin

text \<open>
  The ELF64 loader of src/core/elf.cpp. A file is the list of its bytes; the image is written to
  the byte store of the memory model (\<open>kh_mem\<close>), through the physical alias when it is loaded into
  an address space. \<open>load_impl\<close> returns \<open>None\<close> only when the walk over the dynamic section meets no
  \<open>DT_NULL\<close> or an allocator does not return.
\<close>

section \<open>Structures\<close>

definition sizeof_Ehdr :: nat where "sizeof_Ehdr = 64"
definition sizeof_Phdr :: nat where "sizeof_Phdr = 56"
definition sizeof_Rela :: nat where "sizeof_Rela = 24"

record elf64_ehdr =
  e_ident :: "u8 list"
  e_type :: u16
  e_machine :: u16
  e_entry :: u64
  e_phoff :: u64
  e_phentsize :: u16
  e_phnum :: u16

record elf64_phdr =
  p_type :: u32
  p_offset :: u64
  p_vaddr :: u64
  p_filesz :: u64
  p_memsz :: u64
  p_align :: u64

definition ehdr_at :: "u8 list \<Rightarrow> elf64_ehdr" where
  "ehdr_at f = \<lparr>e_ident = take 16 f, e_type = le16 f 16, e_machine = le16 f 18, e_entry = le64 f 24, e_phoff = le64 f 32,
     e_phentsize = le16 f 54, e_phnum = le16 f 56\<rparr>"

definition phdr_at :: "u8 list \<Rightarrow> nat \<Rightarrow> elf64_phdr" where
  "phdr_at f i = \<lparr>p_type = le32 f i, p_offset = le64 f (i + 8), p_vaddr = le64 f (i + 16), p_filesz = le64 f (i + 32),
     p_memsz = le64 f (i + 40), p_align = le64 f (i + 48)\<rparr>"

definition phdrs_of :: "u8 list \<Rightarrow> elf64_phdr list" where
  "phdrs_of f = map (\<lambda>i. phdr_at f (unat (e_phoff (ehdr_at f)) + sizeof_Phdr * i)) [0..<unat (e_phnum (ehdr_at f))]"

definition ELFCLASS64 :: u8 where "ELFCLASS64 = 2"
definition ELFDATA2LSB :: u8 where "ELFDATA2LSB = 1"
definition EV_CURRENT :: u8 where "EV_CURRENT = 1"
definition ET_EXEC :: u16 where "ET_EXEC = 2"
definition ET_DYN :: u16 where "ET_DYN = 3"
definition EM_X86_64 :: u16 where "EM_X86_64 = 62"
definition PT_LOAD :: u32 where "PT_LOAD = 1"
definition PT_DYNAMIC :: u32 where "PT_DYNAMIC = 2"
definition PT_INTERP :: u32 where "PT_INTERP = 3"
definition PT_PHDR :: u32 where "PT_PHDR = 6"
definition PT_TLS :: u32 where "PT_TLS = 7"
definition DT_NULL :: u64 where "DT_NULL = 0"
definition DT_RELA :: u64 where "DT_RELA = 7"
definition DT_RELASZ :: u64 where "DT_RELASZ = 8"
definition R_X86_64_RELATIVE :: u32 where "R_X86_64_RELATIVE = 8"

datatype elf_error = elf_ok | too_small | bad_magic | bad_class | bad_endian | bad_version | bad_machine | bad_type
  | no_load_segments | unsupported_interp | no_memory_elf | segment_overflow

record load_result =
  lr_error :: elf_error
  lr_entry :: u64
  lr_image_base :: u64
  lr_image_size :: u64
  lr_image_from_phys :: bool
  lr_image_phys :: u64
  lr_image_vm_mapped :: bool
  lr_phdr_addr :: u64
  lr_phnum :: u16
  lr_phentsize :: u16
  lr_has_tls :: bool
  lr_tls_vaddr :: u64
  lr_tls_filesz :: u64
  lr_tls_memsz :: u64
  lr_tls_align :: u64

definition empty_result :: load_result where
  "empty_result = \<lparr>lr_error = elf_ok, lr_entry = 0, lr_image_base = 0, lr_image_size = 0, lr_image_from_phys = False, lr_image_phys = 0,
     lr_image_vm_mapped = False, lr_phdr_addr = 0, lr_phnum = 0, lr_phentsize = 0, lr_has_tls = False, lr_tls_vaddr = 0, lr_tls_filesz = 0,
     lr_tls_memsz = 0, lr_tls_align = 0\<rparr>"

primrec error_string :: "elf_error \<Rightarrow> string" where
  "error_string elf_ok = ''ok''"
| "error_string too_small = ''file too small''"
| "error_string bad_magic = ''bad ELF magic''"
| "error_string bad_class = ''not a 64-bit ELF''"
| "error_string bad_endian = ''not little-endian''"
| "error_string bad_version = ''bad ELF version''"
| "error_string bad_machine = ''not x86-64''"
| "error_string bad_type = ''not ET_EXEC or ET_DYN''"
| "error_string no_load_segments = ''no PT_LOAD segments''"
| "error_string unsupported_interp = ''PT_INTERP requires a dynamic loader''"
| "error_string no_memory_elf = ''out of memory''"
| "error_string segment_overflow = ''segment exceeds file''"

section \<open>Validation\<close>

definition elf_align_up :: "u64 \<Rightarrow> u64 \<Rightarrow> u64" where
  "elf_align_up value align = (if align = 0 then value else (value + align - 1) AND NOT (align - 1))"

definition range_ok :: "nat \<Rightarrow> u64 \<Rightarrow> u64 \<Rightarrow> bool" where
  "range_ok file_size offset len \<longleftrightarrow> unat offset \<le> file_size \<and> unat len \<le> file_size - unat offset"

text \<open>Steps 1 to 5: the error of the first check that fails.\<close>

definition check_header :: "u8 list \<Rightarrow> elf_error" where
  "check_header f =
     (if length f < sizeof_Ehdr then too_small
      else
        let h = ehdr_at f in
        if e_ident h ! 0 \<noteq> 0x7F \<or> e_ident h ! 1 \<noteq> 0x45 \<or> e_ident h ! 2 \<noteq> 0x4C \<or> e_ident h ! 3 \<noteq> 0x46 then bad_magic
        else if e_ident h ! 4 \<noteq> ELFCLASS64 then bad_class
        else if e_ident h ! 5 \<noteq> ELFDATA2LSB then bad_endian
        else if e_ident h ! 6 \<noteq> EV_CURRENT then bad_version
        else if e_machine h \<noteq> EM_X86_64 then bad_machine
        else if e_type h \<noteq> ET_EXEC \<and> e_type h \<noteq> ET_DYN then bad_type
        else if \<not> range_ok (length f) (e_phoff h) (ucast (e_phnum h) * word_of_nat sizeof_Phdr) then too_small
        else elf_ok)"

record span =
  sp_min :: u64
  sp_max :: u64
  sp_align :: u64
  sp_count :: u32
  sp_phdr_segment :: "elf64_phdr option"

text \<open>Step 6, one program header: the spans seen so far and the result, or an error.\<close>

definition record_tls :: "elf64_phdr \<Rightarrow> load_result \<Rightarrow> load_result" where
  "record_tls ph r =
     (if p_type ph = PT_TLS
      then r\<lparr>lr_has_tls := True, lr_tls_vaddr := p_vaddr ph, lr_tls_filesz := p_filesz ph, lr_tls_memsz := p_memsz ph, lr_tls_align := p_align ph\<rparr>
      else r)"

definition add_segment :: "elf64_ehdr \<Rightarrow> elf64_phdr \<Rightarrow> span \<Rightarrow> span" where
  "add_segment h ph sp =
     (let seg_start = p_vaddr ph; seg_end = p_vaddr ph + p_memsz ph;
          table_bytes = ucast (e_phnum h) * word_of_nat sizeof_Phdr
      in \<lparr>sp_min = (if seg_start < sp_min sp then seg_start else sp_min sp),
          sp_max = (if seg_end > sp_max sp then seg_end else sp_max sp),
          sp_align = (if p_align ph > sp_align sp then p_align ph else sp_align sp),
          sp_count = sp_count sp + 1,
          sp_phdr_segment = (if e_phoff h \<ge> p_offset ph \<and> e_phoff h + table_bytes \<le> p_offset ph + p_filesz ph
                             then Some ph else sp_phdr_segment sp)\<rparr>)"

fun scan_phdrs :: "nat \<Rightarrow> elf64_ehdr \<Rightarrow> elf64_phdr list \<Rightarrow> span \<Rightarrow> load_result \<Rightarrow> load_result \<times> span" where
  "scan_phdrs file_size h [] sp r = (r, sp)"
| "scan_phdrs file_size h (ph # phs) sp r =
     (if p_type ph = PT_INTERP then (r\<lparr>lr_error := unsupported_interp\<rparr>, sp)
      else
        let r = record_tls ph r in
        if p_type ph \<noteq> PT_LOAD then scan_phdrs file_size h phs sp r
        else if \<not> range_ok file_size (p_offset ph) (p_filesz ph) then (r\<lparr>lr_error := segment_overflow\<rparr>, sp)
        else scan_phdrs file_size h phs (add_segment h ph sp) r)"

definition empty_span :: span where
  "empty_span = \<lparr>sp_min = NOT 0, sp_max = 0, sp_align = 4096, sp_count = 0, sp_phdr_segment = None\<rparr>"

section \<open>Memory\<close>

definition on_bytes :: "((u64 \<Rightarrow> u8) \<Rightarrow> (u64 \<Rightarrow> u8)) \<Rightarrow> vm_state \<Rightarrow> vm_state" where
  "on_bytes g s = s\<lparr>vm_km := (vm_km s)\<lparr>km_heap := (km_heap (vm_km s))\<lparr>kh_mem := g (kh_mem (km_heap (vm_km s)))\<rparr>\<rparr>\<rparr>"

abbreviation bytes_of :: "vm_state \<Rightarrow> u64 \<Rightarrow> u8" where
  "bytes_of s \<equiv> kh_mem (km_heap (vm_km s))"

definition read_u64 :: "(u64 \<Rightarrow> u8) \<Rightarrow> u64 \<Rightarrow> u64" where
  "read_u64 mem a = le64 (map (\<lambda>i. mem (a + word_of_nat i)) [0..<8]) 0"

definition u64_bytes :: "u64 \<Rightarrow> u8 list" where
  "u64_bytes v = map (\<lambda>i. ucast (drop_bit (8 * i) v)) [0..<8]"

text \<open>
  Step 7: \<open>(runtime base, write base, physical base, from_phys)\<close>, or \<open>None\<close> when there is no memory.
  The pages that \<open>allocate_user_pages\<close> zeroes are zero in the byte store too.
\<close>

definition alloc_image :: "vm_state \<Rightarrow> u64 \<Rightarrow> u64 \<Rightarrow> u64 \<Rightarrow> u64 \<Rightarrow> (vm_state \<times> (u64 \<times> u64 \<times> u64 \<times> bool) option) option" where
  "alloc_image s as vm_image_base image_size max_align =
     (if as \<noteq> 0 then do {
        (s, r) \<leftarrow> allocate_user_pages s as vm_image_base image_size (MAP_WRITABLE OR MAP_USER OR MAP_EXECUTABLE);
        (case r of
           None \<Rightarrow> Some (s, None)
         | Some image_phys \<Rightarrow>
             Some (on_bytes (\<lambda>mem. mem_set mem image_phys 0 (align_up image_size PAGE_SIZE_4K)) s, Some (vm_image_base, image_phys, image_phys, False)))
      } else do {
        (km, p) \<leftarrow> allocate_zero_aligned (vm_km s) image_size max_align;
        let s = s\<lparr>vm_km := km\<rparr>;
        if p \<noteq> 0 then Some (s, Some (p, p, 0, False))
        else do {
          let page_count = (ucast ((image_size + PAGE_SIZE_4K - 1) div PAGE_SIZE_4K) :: u32);
          (pa, phys) \<leftarrow> allocate_pages (vm_phys s) page_count (max (ucast PAGE_SIZE_4K) (ucast max_align)) 0;
          let s = set_phys s pa;
          if phys = 0 then Some (s, None)
          else Some (on_bytes (\<lambda>mem. mem_set mem phys 0 image_size) s, Some (phys, phys, 0, True))
        }
      })"

text \<open>Step 8, for one program header and for all.\<close>

definition copy_segment :: "u8 list \<Rightarrow> u64 \<Rightarrow> elf64_phdr \<Rightarrow> (u64 \<Rightarrow> u8) \<Rightarrow> (u64 \<Rightarrow> u8)" where
  "copy_segment f write_bias ph mem =
     (if p_type ph \<noteq> PT_LOAD then mem
      else
        let dest = p_vaddr ph + write_bias;
            mem = (if p_filesz ph > 0 then write_bytes mem dest (take (unat (p_filesz ph)) (drop (unat (p_offset ph)) f)) else mem)
        in if p_memsz ph > p_filesz ph then mem_set mem (dest + p_filesz ph) 0 (p_memsz ph - p_filesz ph) else mem)"

definition copy_segments :: "u8 list \<Rightarrow> u64 \<Rightarrow> elf64_phdr list \<Rightarrow> (u64 \<Rightarrow> u8) \<Rightarrow> (u64 \<Rightarrow> u8)" where
  "copy_segments f write_bias phs mem = fold (copy_segment f write_bias) phs mem"

text \<open>Step 9: the walk over the dynamic section, which ends at \<open>DT_NULL\<close>, and the relocations.\<close>

partial_function (option) walk_dynamic :: "(u64 \<Rightarrow> u8) \<Rightarrow> u64 \<Rightarrow> u64 \<Rightarrow> u64 \<Rightarrow> (u64 \<times> u64) option" where
  "walk_dynamic mem dyn rela_vaddr rela_size =
     (let d_tag = read_u64 mem dyn; d_val = read_u64 mem (dyn + 8) in
      if d_tag = DT_NULL then Some (rela_vaddr, rela_size)
      else if d_tag = DT_RELA then walk_dynamic mem (dyn + 16) d_val rela_size
      else if d_tag = DT_RELASZ then walk_dynamic mem (dyn + 16) rela_vaddr d_val
      else walk_dynamic mem (dyn + 16) rela_vaddr rela_size)"

declare walk_dynamic.simps [code]

definition elf64_r_type :: "u64 \<Rightarrow> u32" where "elf64_r_type info = ucast info"

definition apply_rela :: "u64 \<Rightarrow> u64 \<Rightarrow> u64 \<Rightarrow> (u64 \<Rightarrow> u8) \<Rightarrow> (u64 \<Rightarrow> u8)" where
  "apply_rela load_bias write_bias rela mem =
     (if elf64_r_type (read_u64 mem (rela + 8)) \<noteq> R_X86_64_RELATIVE then mem
      else write_bytes mem (read_u64 mem rela + write_bias) (u64_bytes (load_bias + read_u64 mem (rela + 16))))"

fun apply_relas :: "u64 \<Rightarrow> u64 \<Rightarrow> u64 \<Rightarrow> nat \<Rightarrow> (u64 \<Rightarrow> u8) \<Rightarrow> (u64 \<Rightarrow> u8)" where
  "apply_relas load_bias write_bias rela 0 mem = mem"
| "apply_relas load_bias write_bias rela (Suc n) mem =
     apply_relas load_bias write_bias (rela + word_of_nat sizeof_Rela) n (apply_rela load_bias write_bias rela mem)"

definition relocate :: "elf64_phdr list \<Rightarrow> u64 \<Rightarrow> u64 \<Rightarrow> (u64 \<Rightarrow> u8) \<Rightarrow> (u64 \<Rightarrow> u8) option" where
  "relocate phs load_bias write_bias mem =
     do {
       (rela_vaddr, rela_size) \<leftarrow> (case find (\<lambda>ph. p_type ph = PT_DYNAMIC) phs of
          None \<Rightarrow> Some (0, 0)
        | Some ph \<Rightarrow> walk_dynamic mem (p_vaddr ph + write_bias) 0 0);
       Some (if rela_vaddr \<noteq> 0 \<and> rela_size \<ge> word_of_nat sizeof_Rela
             then apply_relas load_bias write_bias (rela_vaddr + write_bias) (unat rela_size div sizeof_Rela) mem
             else mem)
     }"

section \<open>The loader\<close>

definition runtime_phdr :: "elf64_ehdr \<Rightarrow> elf64_phdr list \<Rightarrow> span \<Rightarrow> u64 \<Rightarrow> u64" where
  "runtime_phdr h phs sp load_bias =
     (let a = (case find (\<lambda>ph. p_type ph = PT_PHDR) phs of None \<Rightarrow> 0 | Some ph \<Rightarrow> p_vaddr ph + load_bias)
      in if a \<noteq> 0 then a
         else case sp_phdr_segment sp of None \<Rightarrow> 0 | Some seg \<Rightarrow> p_vaddr seg + (e_phoff h - p_offset seg) + load_bias)"

definition load_impl :: "vm_state \<Rightarrow> u8 list \<Rightarrow> u64 \<Rightarrow> u64 \<Rightarrow> (vm_state \<times> load_result) option" where
  "load_impl s f as preferred_base =
     (if check_header f \<noteq> elf_ok then Some (s, empty_result\<lparr>lr_error := check_header f\<rparr>)
      else
        let h = ehdr_at f; phs = phdrs_of f; (r, sp) = scan_phdrs (length f) h phs empty_span empty_result in
        if lr_error r \<noteq> elf_ok then Some (s, r)
        else if sp_count sp = 0 then Some (s, r\<lparr>lr_error := no_load_segments\<rparr>)
        else do {
          let image_size = elf_align_up (sp_max sp - sp_min sp) 4096;
          (s, a) \<leftarrow> alloc_image s as (elf_align_up preferred_base (sp_align sp)) image_size (sp_align sp);
          (case a of
             None \<Rightarrow> Some (s, r\<lparr>lr_error := no_memory_elf\<rparr>)
           | Some (runtime_base, write_base, image_phys, from_phys) \<Rightarrow> do {
               let load_bias = runtime_base - sp_min sp;
               let write_bias = write_base - sp_min sp;
               let mem = copy_segments f write_bias phs (bytes_of s);
               mem \<leftarrow> (if e_type h = ET_DYN then relocate phs load_bias write_bias mem else Some mem);
               Some (on_bytes (\<lambda>_. mem) s,
                 r\<lparr>lr_image_from_phys := from_phys, lr_phnum := e_phnum h, lr_phentsize := e_phentsize h,
                   lr_phdr_addr := runtime_phdr h phs sp load_bias, lr_entry := e_entry h + load_bias,
                   lr_image_base := runtime_base, lr_image_size := image_size, lr_image_phys := image_phys,
                   lr_image_vm_mapped := (as \<noteq> 0), lr_error := elf_ok\<rparr>)
             })
        })"

definition elf_load :: "vm_state \<Rightarrow> u8 list \<Rightarrow> (vm_state \<times> load_result) option" where
  "elf_load s f = load_impl s f 0 0"

definition load_into_address_space :: "vm_state \<Rightarrow> u8 list \<Rightarrow> u64 \<Rightarrow> u64 \<Rightarrow> (vm_state \<times> load_result) option" where
  "load_into_address_space s f as preferred_base = load_impl s f as preferred_base"

end
