(* ===== verification/ElfInv.thy ===== *)
theory ElfInv
  imports Elf
begin

text \<open>
  Facts about the ELF loader: what the scan of the program headers establishes, which bytes the
  segment copy writes, and what a relocation table does to memory.
\<close>

section \<open>What validation establishes\<close>

definition load_segments :: "u8 list \<Rightarrow> elf64_phdr list" where
  "load_segments f = filter (\<lambda>ph. p_type ph = PT_LOAD) (phdrs_of f)"

lemma add_segment_bounds:
  "sp_min (add_segment h ph sp) \<le> sp_min sp" "sp_min (add_segment h ph sp) \<le> p_vaddr ph"
  "sp_max sp \<le> sp_max (add_segment h ph sp)" "p_vaddr ph + p_memsz ph \<le> sp_max (add_segment h ph sp)"
  "sp_min (add_segment h ph sp) = sp_min sp \<or> sp_min (add_segment h ph sp) = p_vaddr ph"
  "sp_max (add_segment h ph sp) = sp_max sp \<or> sp_max (add_segment h ph sp) = p_vaddr ph + p_memsz ph"
  by (auto simp: add_segment_def Let_def)

lemma record_tls_error [simp]: "lr_error (record_tls ph r) = lr_error r"
  by (simp add: record_tls_def)

definition scanned :: "nat \<Rightarrow> elf64_phdr list \<Rightarrow> span \<Rightarrow> span \<Rightarrow> bool" where
  "scanned n phs sp sp' \<longleftrightarrow> sp_min sp' \<le> sp_min sp \<and> sp_max sp \<le> sp_max sp' \<and>
     (\<forall>ph\<in>set phs. p_type ph \<noteq> PT_INTERP \<and>
       (p_type ph = PT_LOAD \<longrightarrow> range_ok n (p_offset ph) (p_filesz ph) \<and> sp_min sp' \<le> p_vaddr ph \<and> p_vaddr ph + p_memsz ph \<le> sp_max sp')) \<and>
     (sp_min sp' = sp_min sp \<or> (\<exists>ph\<in>set phs. p_type ph = PT_LOAD \<and> sp_min sp' = p_vaddr ph)) \<and>
     (sp_max sp' = sp_max sp \<or> (\<exists>ph\<in>set phs. p_type ph = PT_LOAD \<and> sp_max sp' = p_vaddr ph + p_memsz ph))"

lemma scanned_skip: "scanned n phs sp sp' \<Longrightarrow> p_type ph \<noteq> PT_INTERP \<Longrightarrow> p_type ph \<noteq> PT_LOAD \<Longrightarrow> scanned n (ph # phs) sp sp'"
  by (auto simp: scanned_def)

lemma scanned_add:
  assumes s: "scanned n phs (add_segment h ph sp) sp'" and p: "p_type ph = PT_LOAD" "p_type ph \<noteq> PT_INTERP" "range_ok n (p_offset ph) (p_filesz ph)"
  shows "scanned n (ph # phs) sp sp'"
proof -
  note B = add_segment_bounds [where h = h and ph = ph and sp = sp]
  have "sp_min sp' \<le> sp_min sp" "sp_min sp' \<le> p_vaddr ph" "sp_max sp \<le> sp_max sp'" "p_vaddr ph + p_memsz ph \<le> sp_max sp'"
    using s B(1-4) by (auto simp: scanned_def)
  then show ?thesis using s p B(5,6) by (auto simp: scanned_def)
qed

lemma scan_phdrs_scanned:
  "scan_phdrs n h phs sp r = (r', sp') \<Longrightarrow> lr_error r' = elf_ok \<Longrightarrow> scanned n phs sp sp'"
proof (induction phs arbitrary: sp r)
  case Nil
  then show ?case by (simp add: scanned_def)
next
  case (Cons ph phs)
  have i: "p_type ph \<noteq> PT_INTERP" using Cons.prems by auto
  show ?case
  proof (cases "p_type ph = PT_LOAD")
    case False
    then have "scan_phdrs n h phs sp (record_tls ph r) = (r', sp')" using Cons.prems(1) i by (simp add: Let_def)
    then show ?thesis using Cons.IH Cons.prems(2) scanned_skip i False by blast
  next
    case True
    then have "range_ok n (p_offset ph) (p_filesz ph)" "scan_phdrs n h phs (add_segment h ph sp) (record_tls ph r) = (r', sp')"
      using Cons.prems i by (auto simp: Let_def split: if_splits)
    then show ?thesis using Cons.IH Cons.prems(2) scanned_add i True by blast
  qed
qed

section \<open>Copying the segments\<close>

definition segment_byte :: "u8 list \<Rightarrow> elf64_phdr \<Rightarrow> nat \<Rightarrow> u8" where
  "segment_byte f ph i = (if i < unat (p_filesz ph) then f ! (unat (p_offset ph) + i) else 0)"

lemma copy_segment_at:
  assumes "p_type ph = PT_LOAD" "range_ok (length f) (p_offset ph) (p_filesz ph)" "p_filesz ph \<le> p_memsz ph"
  shows "copy_segment f bias ph mem x =
    (if unat (x - (p_vaddr ph + bias)) < unat (p_memsz ph) then segment_byte f ph (unat (x - (p_vaddr ph + bias))) else mem x)"
proof -
  let ?d = "p_vaddr ph + bias" and ?n = "unat (p_filesz ph)"
  let ?bs = "take ?n (drop (unat (p_offset ph)) f)"
  have l: "length ?bs = ?n" using assms(2) by (simp add: range_ok_def)
  have b: "length ?bs \<le> 2 ^ 64" unfolding l using unat_lt_64 [of "p_filesz ph"] by (simp add: less_imp_le)
  have w: "(if p_filesz ph > 0 then write_bytes mem ?d ?bs else mem) x = (if unat (x - ?d) < ?n then f ! (unat (p_offset ph) + unat (x - ?d)) else mem x)"
    using write_bytes_at [OF b, of mem ?d x] l assms(2) by (auto simp: word_less_nat_alt range_ok_def)
  have z: "x - (?d + p_filesz ph) < p_memsz ph - p_filesz ph \<longleftrightarrow> ?n \<le> unat (x - ?d) \<and> unat (x - ?d) < unat (p_memsz ph)"
  proof -
    let ?y = "x - ?d"
    have e: "x - (?d + p_filesz ph) = ?y - p_filesz ph" by simp
    have m: "unat (p_memsz ph - p_filesz ph) = unat (p_memsz ph) - ?n" using assms(3) by (simp add: unat_sub)
    show ?thesis
    proof (cases "?n \<le> unat ?y")
      case True
      then have "unat (?y - p_filesz ph) = unat ?y - ?n" by (simp add: unat_minus_nw)
      then show ?thesis unfolding e using True m by (auto simp: word_less_nat_alt)
    next
      case False
      have "unat (?y - p_filesz ph) = unat ?y + 2 ^ 64 - ?n" using False by (simp add: unat_sub_if')
      moreover have "unat (p_memsz ph) < 2 ^ 64" using unat_lt_64 [of "p_memsz ph"] by simp
      ultimately have "\<not> unat (?y - p_filesz ph) < unat (p_memsz ph) - ?n" using False by linarith
      then show ?thesis unfolding e word_less_nat_alt m using False by simp
    qed
  qed
  have le: "?n \<le> unat (p_memsz ph)" using assms(3) by (simp add: word_le_nat_alt)
  show ?thesis
  proof (cases "p_memsz ph > p_filesz ph")
    case True
    then have "copy_segment f bias ph mem x = (if x - (?d + p_filesz ph) < p_memsz ph - p_filesz ph then 0
        else (if p_filesz ph > 0 then write_bytes mem ?d ?bs else mem) x)"
      using assms(1) by (simp add: copy_segment_def Let_def mem_set_at)
    then show ?thesis unfolding w z using le by (auto simp: segment_byte_def)
  next
    case False
    then have "p_memsz ph = p_filesz ph" using assms(3) by simp
    then show ?thesis using assms(1) w by (simp add: copy_segment_def Let_def segment_byte_def)
  qed
qed

definition segments_apart :: "elf64_phdr \<Rightarrow> elf64_phdr \<Rightarrow> bool" where
  "segments_apart a b \<longleftrightarrow> unat (p_vaddr a) + unat (p_memsz a) \<le> unat (p_vaddr b) \<or> unat (p_vaddr b) + unat (p_memsz b) \<le> unat (p_vaddr a)"

text \<open>The offset of an address in the image lies in a segment.\<close>

definition in_segment :: "u64 \<Rightarrow> u64 \<Rightarrow> elf64_phdr \<Rightarrow> bool" where
  "in_segment mn y ph \<longleftrightarrow> unat (y - (p_vaddr ph - mn)) < unat (p_memsz ph)"

definition segment_fits :: "u8 list \<Rightarrow> u64 \<Rightarrow> elf64_phdr \<Rightarrow> bool" where
  "segment_fits f mn ph \<longleftrightarrow> p_type ph = PT_LOAD \<and> range_ok (length f) (p_offset ph) (p_filesz ph) \<and> p_filesz ph \<le> p_memsz ph \<and>
     mn \<le> p_vaddr ph \<and> unat (p_vaddr ph) + unat (p_memsz ph) \<le> 2 ^ 63"

lemma in_segment_nat:
  assumes "segment_fits f mn ph"
  shows "in_segment mn y ph \<longleftrightarrow> unat (p_vaddr ph) - unat mn \<le> unat y \<and> unat y < unat (p_vaddr ph) - unat mn + unat (p_memsz ph)"
    and "in_segment mn y ph \<Longrightarrow> unat (y - (p_vaddr ph - mn)) = unat y - (unat (p_vaddr ph) - unat mn)"
proof -
  let ?v = "p_vaddr ph - mn"
  have v: "unat ?v = unat (p_vaddr ph) - unat mn" using assms by (simp add: segment_fits_def unat_sub)
  have b: "unat ?v + unat (p_memsz ph) \<le> 2 ^ 63" using assms unfolding v segment_fits_def by linarith
  have lo: "unat ?v \<le> unat y" if "in_segment mn y ph"
  proof (rule ccontr)
    assume n: "\<not> unat ?v \<le> unat y"
    then have "unat (y - ?v) = unat y + 18446744073709551616 - unat ?v" by (simp add: unat_sub_if')
    moreover have "unat ?v + unat (p_memsz ph) \<le> 9223372036854775808" using b by simp
    ultimately show False using that n unfolding in_segment_def by linarith
  qed
  show e: "in_segment mn y ph \<Longrightarrow> unat (y - ?v) = unat y - (unat (p_vaddr ph) - unat mn)"
    using lo v by (simp add: unat_minus_nw)
  show "in_segment mn y ph \<longleftrightarrow> unat (p_vaddr ph) - unat mn \<le> unat y \<and> unat y < unat (p_vaddr ph) - unat mn + unat (p_memsz ph)"
  proof
    assume i: "in_segment mn y ph"
    then show "unat (p_vaddr ph) - unat mn \<le> unat y \<and> unat y < unat (p_vaddr ph) - unat mn + unat (p_memsz ph)"
      using e [OF i] lo [OF i] v unfolding in_segment_def by linarith
  next
    assume r: "unat (p_vaddr ph) - unat mn \<le> unat y \<and> unat y < unat (p_vaddr ph) - unat mn + unat (p_memsz ph)"
    then have "unat (y - ?v) = unat y - unat ?v" using v by (simp add: unat_minus_nw)
    then show "in_segment mn y ph" unfolding in_segment_def using r v by linarith
  qed
qed

lemma in_segment_exclusive:
  assumes "segment_fits f mn a" "segment_fits f mn b" "segments_apart a b" "in_segment mn y a"
  shows "\<not> in_segment mn y b"
proof -
  have "unat mn \<le> unat (p_vaddr a)" "unat mn \<le> unat (p_vaddr b)" using assms(1,2) by (auto simp: segment_fits_def word_le_nat_alt)
  then show ?thesis using assms(3,4) unfolding in_segment_nat(1) [OF assms(1)] in_segment_nat(1) [OF assms(2)] segments_apart_def by linarith
qed

lemma copy_segments_at:
  assumes "\<forall>ph\<in>set phs. p_type ph = PT_LOAD \<longrightarrow> segment_fits f mn ph" "sorted_wrt segments_apart (filter (\<lambda>ph. p_type ph = PT_LOAD) phs)"
  shows "(\<forall>ph\<in>set phs. p_type ph = PT_LOAD \<longrightarrow> in_segment mn (x - wb) ph \<longrightarrow>
      copy_segments f (wb - mn) phs mem x = segment_byte f ph (unat ((x - wb) - (p_vaddr ph - mn)))) \<and>
    ((\<forall>ph\<in>set phs. p_type ph = PT_LOAD \<longrightarrow> \<not> in_segment mn (x - wb) ph) \<longrightarrow> copy_segments f (wb - mn) phs mem x = mem x)"
  using assms
proof (induction phs arbitrary: mem)
  case (Cons ph phs)
  have e: "copy_segments f (wb - mn) (ph # phs) mem = copy_segments f (wb - mn) phs (copy_segment f (wb - mn) ph mem)"
    by (simp add: copy_segments_def)
  have fits: "\<forall>q\<in>set phs. p_type q = PT_LOAD \<longrightarrow> segment_fits f mn q"
    and srt: "sorted_wrt segments_apart (filter (\<lambda>ph. p_type ph = PT_LOAD) phs)" using Cons.prems by (auto split: if_splits)
  note IH = Cons.IH [OF fits srt, of "copy_segment f (wb - mn) ph mem"]
  have d: "x - (p_vaddr ph + (wb - mn)) = (x - wb) - (p_vaddr ph - mn)" by (simp add: algebra_simps)
  show ?case
  proof (cases "p_type ph = PT_LOAD")
    case False
    then show ?thesis unfolding e using IH by (auto simp: copy_segment_def)
  next
    case True
    have f: "segment_fits f mn ph" using Cons.prems(1) True by simp
    have one: "copy_segment f (wb - mn) ph mem x =
        (if in_segment mn (x - wb) ph then segment_byte f ph (unat ((x - wb) - (p_vaddr ph - mn))) else mem x)"
      using copy_segment_at [OF True, of f "wb - mn" mem x] f unfolding d by (simp add: segment_fits_def in_segment_def)
    have "\<not> in_segment mn (x - wb) q" if "in_segment mn (x - wb) ph" "q \<in> set phs" "p_type q = PT_LOAD" for q
      using in_segment_exclusive [OF f _ _ that(1)] fits Cons.prems(2) True that(2,3) by auto
    then show ?thesis unfolding e using IH one True by auto
  qed
qed (simp add: copy_segments_def)

section \<open>Relocation\<close>

lemma u64_bytes_eq: "u64_bytes v = [ucast v, ucast (drop_bit 8 v), ucast (drop_bit 16 v), ucast (drop_bit 24 v),
    ucast (drop_bit 32 v), ucast (drop_bit 40 v), ucast (drop_bit 48 v), ucast (drop_bit 56 v)]"
  by (simp add: u64_bytes_def upt_rec)

lemma bytes_to_u16: "(ucast (ucast (v :: u64) :: u8) :: u16) OR push_bit 8 (ucast (ucast (drop_bit 8 v) :: u8)) = ucast v"
proof (rule bit_word_eqI)
  fix n assume n: "n < LENGTH(16)"
  show "bit ((ucast (ucast v :: u8) :: u16) OR push_bit 8 (ucast (ucast (drop_bit 8 v) :: u8))) n = bit (ucast v :: u16) n"
    using n by (cases "n < 8") (auto simp: bit_simps)
qed

lemma u16s_to_u32: "(ucast (ucast (v :: u64) :: u16) :: u32) OR push_bit 16 (ucast (ucast (drop_bit 16 v) :: u16)) = ucast v"
proof (rule bit_word_eqI)
  fix n assume n: "n < LENGTH(32)"
  show "bit ((ucast (ucast v :: u16) :: u32) OR push_bit 16 (ucast (ucast (drop_bit 16 v) :: u16))) n = bit (ucast v :: u32) n"
    using n by (cases "n < 16") (auto simp: bit_simps)
qed

lemma u32s_to_u64: "(ucast (ucast (v :: u64) :: u32) :: u64) OR push_bit 32 (ucast (ucast (drop_bit 32 v) :: u32)) = v"
proof (rule bit_word_eqI)
  fix n assume n: "n < LENGTH(64)"
  show "bit ((ucast (ucast v :: u32) :: u64) OR push_bit 32 (ucast (ucast (drop_bit 32 v) :: u32))) n = bit v n"
    using n by (cases "n < 32") (auto simp: bit_simps)
qed

lemma le64_u64_bytes: "le64 (u64_bytes v) 0 = v"
proof -
  have d: "drop_bit 8 (drop_bit 16 v) = drop_bit 24 v" "drop_bit 8 (drop_bit 32 v) = drop_bit 40 v" "drop_bit 8 (drop_bit 48 v) = drop_bit 56 v"
    "drop_bit 16 (drop_bit 32 v) = drop_bit 48 v" by simp_all
  have "le16 (u64_bytes v) 0 = ucast v" "le16 (u64_bytes v) 2 = ucast (drop_bit 16 v)"
    "le16 (u64_bytes v) 4 = ucast (drop_bit 32 v)" "le16 (u64_bytes v) 6 = ucast (drop_bit 48 v)"
    using bytes_to_u16 [of v] bytes_to_u16 [of "drop_bit 16 v"] bytes_to_u16 [of "drop_bit 32 v"] bytes_to_u16 [of "drop_bit 48 v"]
    by (simp_all add: le16_def u64_bytes_eq d)
  then have "le32 (u64_bytes v) 0 = ucast v" "le32 (u64_bytes v) 4 = ucast (drop_bit 32 v)"
    using u16s_to_u32 [of v] u16s_to_u32 [of "drop_bit 32 v"] by (simp_all add: le32_def d del: add_2_eq_Suc add_2_eq_Suc')
  then show ?thesis using u32s_to_u64 [of v] by (simp add: le64_def)
qed

lemma length_u64_bytes [simp]: "length (u64_bytes v) = 8"
  by (simp add: u64_bytes_def)

lemma read_u64_cong: "(\<And>i. i < 8 \<Longrightarrow> m (a + word_of_nat i) = m' (a + word_of_nat i)) \<Longrightarrow> read_u64 m a = read_u64 m' a"
  unfolding read_u64_def by (rule arg_cong [where f = "\<lambda>l. le64 l 0"]) (rule map_cong [OF refl], simp)

lemma read_written: "read_u64 (write_bytes mem a (u64_bytes v)) a = v"
proof -
  have "map (\<lambda>i. write_bytes mem a (u64_bytes v) (a + word_of_nat i)) [0..<8] = u64_bytes v"
    by (rule nth_equalityI) (simp_all add: write_bytes_at unat_of_nat)
  then show ?thesis by (simp add: read_u64_def le64_u64_bytes)
qed

text \<open>The entries of a relocation table in memory.\<close>

definition rela_target :: "(u64 \<Rightarrow> u8) \<Rightarrow> u64 \<Rightarrow> u64 \<Rightarrow> nat \<Rightarrow> u64" where
  "rela_target mem write_bias rela k = read_u64 mem (rela + word_of_nat (24 * k)) + write_bias"

definition rela_relative :: "(u64 \<Rightarrow> u8) \<Rightarrow> u64 \<Rightarrow> nat \<Rightarrow> bool" where
  "rela_relative mem rela k \<longleftrightarrow> elf64_r_type (read_u64 mem (rela + word_of_nat (24 * k) + 8)) = R_X86_64_RELATIVE"

definition rela_addend :: "(u64 \<Rightarrow> u8) \<Rightarrow> u64 \<Rightarrow> nat \<Rightarrow> u64" where
  "rela_addend mem rela k = read_u64 mem (rela + word_of_nat (24 * k) + 16)"

text \<open>No relocation writes to the table itself.\<close>

definition table_safe :: "(u64 \<Rightarrow> u8) \<Rightarrow> u64 \<Rightarrow> u64 \<Rightarrow> nat \<Rightarrow> bool" where
  "table_safe mem write_bias rela n \<longleftrightarrow>
     (\<forall>k<n. rela_relative mem rela k \<longrightarrow> (\<forall>i<24 * n. \<not> unat (rela + word_of_nat i - rela_target mem write_bias rela k) < 8))"

lemma write_u64_other: "\<not> unat (x - a) < 8 \<Longrightarrow> write_bytes mem a (u64_bytes v) x = mem x"
  by (simp add: write_bytes_at)

lemma rela_step: "rela + word_of_nat sizeof_Rela + word_of_nat (24 * k) = rela + (word_of_nat (24 * Suc k) :: u64)"
  by (simp add: sizeof_Rela_def algebra_simps)

lemma table_read:
  assumes "\<forall>i<24 * n. m' (rela + word_of_nat i) = m (rela + word_of_nat i)" "k < n" "c = 0 \<or> c = 8 \<or> c = 16"
  shows "read_u64 m' (rela + word_of_nat (24 * k) + word_of_nat c) = read_u64 m (rela + word_of_nat (24 * k) + word_of_nat c)"
proof (rule read_u64_cong)
  fix i :: nat assume "i < 8"
  then have "24 * k + c + i < 24 * n" using assms(2,3) by auto
  then have "m' (rela + word_of_nat (24 * k + c + i)) = m (rela + word_of_nat (24 * k + c + i))" using assms(1) by blast
  then show "m' (rela + word_of_nat (24 * k) + word_of_nat c + word_of_nat i) = m (rela + word_of_nat (24 * k) + word_of_nat c + word_of_nat i)"
    by (simp add: add.assoc)
qed

lemma apply_rela_other:
  assumes "rela_relative mem rela 0 \<longrightarrow> \<not> unat (x - rela_target mem write_bias rela 0) < 8"
  shows "apply_rela load_bias write_bias rela mem x = mem x"
  using assms by (auto simp: apply_rela_def rela_relative_def rela_target_def write_u64_other)

lemma apply_rela_target:
  assumes "rela_relative mem rela 0"
  shows "read_u64 (apply_rela load_bias write_bias rela mem) (rela_target mem write_bias rela 0) = load_bias + rela_addend mem rela 0"
  using assms by (simp add: apply_rela_def rela_relative_def rela_target_def rela_addend_def read_written)

lemma table_step:
  fixes load_bias :: u64
  assumes "table_safe mem write_bias rela (Suc n)"
  defines "m \<equiv> apply_rela load_bias write_bias rela mem" and "r \<equiv> rela + word_of_nat sizeof_Rela"
  shows "k < n \<Longrightarrow> rela_target m write_bias r k = rela_target mem write_bias rela (Suc k)"
    "k < n \<Longrightarrow> rela_relative m r k = rela_relative mem rela (Suc k)"
    "k < n \<Longrightarrow> rela_addend m r k = rela_addend mem rela (Suc k)" "table_safe m write_bias r n"
proof -
  have keep: "m (rela + word_of_nat i) = mem (rela + word_of_nat i)" if "i < 24 * Suc n" for i
    unfolding m_def using assms(1) that by (intro apply_rela_other) (auto simp: table_safe_def)
  have rd: "read_u64 m (rela + word_of_nat (24 * Suc k) + word_of_nat c) = read_u64 mem (rela + word_of_nat (24 * Suc k) + word_of_nat c)"
    if "k < n" "c = 0 \<or> c = 8 \<or> c = 16" for k c using table_read [of "Suc n" m rela mem "Suc k" c] keep that by blast
  have T: "rela_target m write_bias r k = rela_target mem write_bias rela (Suc k) \<and> rela_relative m r k = rela_relative mem rela (Suc k) \<and>
    rela_addend m r k = rela_addend mem rela (Suc k)" if "k < n" for k
    using rd [OF that, of 0] rd [OF that, of 8] rd [OF that, of 16]
    unfolding rela_target_def rela_relative_def rela_addend_def r_def rela_step by simp
  show "k < n \<Longrightarrow> rela_target m write_bias r k = rela_target mem write_bias rela (Suc k)"
    "k < n \<Longrightarrow> rela_relative m r k = rela_relative mem rela (Suc k)" "k < n \<Longrightarrow> rela_addend m r k = rela_addend mem rela (Suc k)"
    using T by blast+
  show "table_safe m write_bias r n" unfolding table_safe_def
  proof (intro allI impI)
    fix k i assume k: "k < n" "rela_relative m r k" "i < 24 * n"
    have "24 + i < 24 * Suc n" using k(3) by simp
    then have "\<not> unat (rela + word_of_nat (24 + i) - rela_target mem write_bias rela (Suc k)) < 8"
      using assms(1) k(1,2) T [OF k(1)] unfolding table_safe_def by (metis Suc_less_eq)
    then show "\<not> unat (r + word_of_nat i - rela_target m write_bias r k) < 8" using T [OF k(1)] by (simp add: r_def sizeof_Rela_def add.assoc)
  qed
qed

lemma all_less_Suc0: "(\<forall>k<Suc n. P k) \<longleftrightarrow> P 0 \<and> (\<forall>k<n. P (Suc k))"
  by (metis less_Suc_eq_0_disj)

text \<open>Bytes outside the targets keep their values.\<close>

lemma apply_relas_other:
  "table_safe mem write_bias rela n \<Longrightarrow> \<forall>k<n. rela_relative mem rela k \<longrightarrow> \<not> unat (x - rela_target mem write_bias rela k) < 8 \<Longrightarrow>
     apply_relas load_bias write_bias rela n mem x = mem x"
proof (induction n arbitrary: mem rela)
  case (Suc n)
  let ?m = "apply_rela load_bias write_bias rela mem" and ?r = "rela + word_of_nat sizeof_Rela"
  note T = table_step [OF Suc.prems(1), where load_bias = load_bias]
  have "\<forall>k<n. rela_relative ?m ?r k \<longrightarrow> \<not> unat (x - rela_target ?m write_bias ?r k) < 8" using Suc.prems(2) T(1,2) unfolding all_less_Suc0 by simp
  then have "apply_relas load_bias write_bias ?r n ?m x = ?m x" using Suc.IH [OF T(4)] by blast
  moreover have "?m x = mem x" using Suc.prems(2) by (intro apply_rela_other) auto
  ultimately show ?case by simp
qed simp

text \<open>
  A relative entry ends up with the load bias added to its addend, when no other entry writes to
  the same eight bytes.
\<close>

lemma apply_relas_target:
  "table_safe mem write_bias rela n \<Longrightarrow> k < n \<Longrightarrow> rela_relative mem rela k \<Longrightarrow>
     \<forall>j<n. j \<noteq> k \<longrightarrow> rela_relative mem rela j \<longrightarrow>
       (\<forall>i<8. \<not> unat (rela_target mem write_bias rela k + word_of_nat i - rela_target mem write_bias rela j) < 8) \<Longrightarrow>
     read_u64 (apply_relas load_bias write_bias rela n mem) (rela_target mem write_bias rela k) = load_bias + rela_addend mem rela k"
proof (induction n arbitrary: mem rela k)
  case (Suc n)
  let ?m = "apply_rela load_bias write_bias rela mem" and ?r = "rela + word_of_nat sizeof_Rela"
  note T = table_step [OF Suc.prems(1), where load_bias = load_bias]
  show ?case
  proof (cases k)
    case 0
    have "apply_relas load_bias write_bias ?r n ?m (rela_target mem write_bias rela 0 + word_of_nat i) =
        ?m (rela_target mem write_bias rela 0 + word_of_nat i)" if "i < 8" for i
      using Suc.prems(4) that 0 T(1,2) unfolding all_less_Suc0 by (intro apply_relas_other [OF T(4)]) simp
    then have "read_u64 (apply_relas load_bias write_bias ?r n ?m) (rela_target mem write_bias rela 0) = read_u64 ?m (rela_target mem write_bias rela 0)"
      by (rule read_u64_cong)
    then show ?thesis using apply_rela_target [of mem rela load_bias write_bias] Suc.prems(3) 0 by simp
  next
    case l: (Suc l)
    then have ln: "l < n" using Suc.prems(2) by simp
    have "\<forall>j<n. j \<noteq> l \<longrightarrow> rela_relative ?m ?r j \<longrightarrow> (\<forall>i<8. \<not> unat (rela_target ?m write_bias ?r l + word_of_nat i - rela_target ?m write_bias ?r j) < 8)"
      using Suc.prems(4) T(1,2) ln l unfolding all_less_Suc0 by simp
    then show ?thesis using Suc.IH [OF T(4) ln] Suc.prems(3) T(1-3) [OF ln] l by simp
  qed
qed simp

end
