(* ===== verification/ElfSpec.thy ===== *)
theory ElfSpec
  imports ElfInv
begin

text \<open>
  The properties of the ELF loader, with a small executable on which they are evaluated.
\<close>

section \<open>Properties\<close>

lemma load_impl_cases:
  assumes "load_impl s f as base = Some (s', r)"
  obtains (rejected) "check_header f \<noteq> elf_ok" "s' = s" "lr_error r = check_header f"
  | (scan_error) r1 sp where "check_header f = elf_ok" "scan_phdrs (length f) (ehdr_at f) (phdrs_of f) empty_span empty_result = (r1, sp)"
      "lr_error r1 \<noteq> elf_ok \<and> lr_error r = lr_error r1 \<or> lr_error r1 = elf_ok \<and> sp_count sp = 0 \<and> lr_error r = no_load_segments" "s' = s"
  | (scanned) r1 sp sA a where "check_header f = elf_ok" "scan_phdrs (length f) (ehdr_at f) (phdrs_of f) empty_span empty_result = (r1, sp)"
      "lr_error r1 = elf_ok" "sp_count sp \<noteq> 0"
      "alloc_image s as (elf_align_up base (sp_align sp)) (elf_align_up (sp_max sp - sp_min sp) 4096) (sp_align sp) = Some (sA, a)"
      "case a of
         None \<Rightarrow> s' = sA \<and> lr_error r = no_memory_elf
       | Some (rb, wb, ph, fp) \<Rightarrow> \<exists>mem. (if e_type (ehdr_at f) = ET_DYN then relocate (phdrs_of f) (rb - sp_min sp) (wb - sp_min sp) (copy_segments f (wb - sp_min sp) (phdrs_of f) (bytes_of sA))
              else Some (copy_segments f (wb - sp_min sp) (phdrs_of f) (bytes_of sA))) = Some mem \<and> bytes_of s' = mem \<and>
            lr_error r = elf_ok \<and> lr_image_base r = rb \<and> lr_image_phys r = ph \<and> lr_image_from_phys r = fp \<and>
            lr_image_size r = elf_align_up (sp_max sp - sp_min sp) 4096 \<and> lr_entry r = e_entry (ehdr_at f) + (rb - sp_min sp)"
proof (cases "check_header f = elf_ok")
  case False
  then show ?thesis using assms rejected by (auto simp: load_impl_def)
next
  case True
  obtain r1 sp where sc: "scan_phdrs (length f) (ehdr_at f) (phdrs_of f) empty_span empty_result = (r1, sp)" by fastforce
  show ?thesis
  proof (cases "lr_error r1 \<noteq> elf_ok \<or> sp_count sp = 0")
    case bad: True
    then have "s' = s" "lr_error r1 \<noteq> elf_ok \<and> lr_error r = lr_error r1 \<or> lr_error r1 = elf_ok \<and> sp_count sp = 0 \<and> lr_error r = no_load_segments"
      using assms True sc by (auto simp: load_impl_def Let_def split: if_splits)
    then show ?thesis using scan_error True sc by blast
  next
    case ok: False
    let ?al = "alloc_image s as (elf_align_up base (sp_align sp)) (elf_align_up (sp_max sp - sp_min sp) 4096) (sp_align sp)"
    obtain sA a where al: "?al = Some (sA, a)" using assms True sc ok by (cases ?al) (auto simp: load_impl_def Let_def)
    show ?thesis
      by (rule scanned [OF True sc _ _ al]) (use ok assms True sc al in \<open>auto simp: load_impl_def Let_def on_bytes_def split: option.splits prod.splits bind_splits\<close>)
  qed
qed

lemma check_header_ok:
  assumes "check_header f = elf_ok"
  shows "64 \<le> length f" "unat (e_phoff (ehdr_at f)) + 56 * unat (e_phnum (ehdr_at f)) \<le> length f"
proof -
  have r: "range_ok (length f) (e_phoff (ehdr_at f)) (ucast (e_phnum (ehdr_at f)) * word_of_nat sizeof_Phdr)" and l: "64 \<le> length f"
    using assms by (auto simp: check_header_def Let_def sizeof_Ehdr_def split: if_splits)
  have b: "unat (e_phnum (ehdr_at f)) < 65536" using unat_less_exp [of "e_phnum (ehdr_at f)"] by simp
  have "unat (ucast (e_phnum (ehdr_at f)) * word_of_nat sizeof_Phdr :: u64) = unat (e_phnum (ehdr_at f)) * 56"
    using b by (simp add: unat_word_ariths(2) unat_ucast_up sizeof_Phdr_def)
  then show "unat (e_phoff (ehdr_at f)) + 56 * unat (e_phnum (ehdr_at f)) \<le> length f" using r by (auto simp: range_ok_def)
  show "64 \<le> length f" by (rule l)
qed

lemma scan_phdrs_none: "\<forall>ph\<in>set phs. p_type ph \<noteq> PT_LOAD \<Longrightarrow> snd (scan_phdrs n h phs sp r) = sp"
  by (induction phs arbitrary: r) (auto simp: Let_def)

lemma scan_has_load:
  assumes "scan_phdrs n h phs empty_span r = (r', sp)" "sp_count sp \<noteq> 0"
  shows "\<exists>ph\<in>set phs. p_type ph = PT_LOAD"
proof (rule ccontr)
  assume "\<not> (\<exists>ph\<in>set phs. p_type ph = PT_LOAD)"
  then have "sp = empty_span" using scan_phdrs_none [of phs n h empty_span r] assms(1) by auto
  then show False using assms(2) by (simp add: empty_span_def)
qed

lemma scan_phdrs_error: "lr_error r = elf_ok \<Longrightarrow> lr_error (fst (scan_phdrs n h phs sp r)) \<in> {elf_ok, unsupported_interp, segment_overflow}"
  by (induction n h phs sp r rule: scan_phdrs.induct) (auto simp: Let_def)

lemma check_header_error: "check_header f \<noteq> no_memory_elf"
  by (simp add: check_header_def Let_def)

text \<open>A minimal executable with one segment of four bytes in the file and sixteen in memory.\<close>

definition demo_elf :: "u8 list" where
  "demo_elf =
     [0x7F, 0x45, 0x4C, 0x46, 2, 1, 1, 0, 0, 0, 0, 0, 0, 0, 0, 0] @ [2, 0] @ [62, 0] @ [1, 0, 0, 0] @ [0, 0, 0x40, 0, 0, 0, 0, 0] @
     [64, 0, 0, 0, 0, 0, 0, 0] @ replicate 8 0 @ replicate 4 0 @ [64, 0] @ [56, 0] @ [1, 0] @ replicate 6 0 @
     [1, 0, 0, 0] @ [5, 0, 0, 0] @ [120, 0, 0, 0, 0, 0, 0, 0] @ [0, 0, 0x40, 0, 0, 0, 0, 0] @ [0, 0, 0x40, 0, 0, 0, 0, 0] @
     [4, 0, 0, 0, 0, 0, 0, 0] @ [16, 0, 0, 0, 0, 0, 0, 0] @ [0, 0x10, 0, 0, 0, 0, 0, 0] @ [0x90, 0x90, 0xEB, 0xFE]"

definition demo_machine :: vm_state where
  "demo_machine = example_vm\<lparr>vm_km := example_heap\<rparr>"

definition demo_pie :: "u8 list" where
  "demo_pie = demo_elf[16 := 3]"

lemma demo_segments: "load_segments demo_elf =
    [\<lparr>p_type = 1, p_offset = 120, p_vaddr = 0x400000, p_filesz = 4, p_memsz = 16, p_align = 0x1000\<rparr>]"
  by code_simp

lemma demo_loads:
  "map_option (\<lambda>(s, r). (lr_error r, lr_image_base r, lr_image_size r, lr_entry r)) (load_impl demo_machine demo_elf 0 0) =
     Some (elf_ok, 0x401000, 0x1000, 0x401000)"
  by code_simp

lemma demo_pie_segments: "load_segments demo_pie =
    [\<lparr>p_type = 1, p_offset = 120, p_vaddr = 0x400000, p_filesz = 4, p_memsz = 16, p_align = 0x1000\<rparr>]"
  by code_simp

lemma demo_pie_loads:
  "map_option (\<lambda>(s, r). (lr_error r, lr_image_base r, lr_image_size r, lr_entry r)) (load_impl demo_machine demo_pie 0 0) =
     Some (elf_ok, 0x401000, 0x1000, 0x401000)"
  by code_simp

text \<open>
  C27. The loader reads nothing outside the file: it goes on to allocate only when the header, the
  program header table and the file range of every loadable segment lie inside the file, there is
  at least one such segment and no interpreter is requested. On every other error it returns with
  the machine's memory and page tables unchanged.
\<close>

theorem elf_load_checked:
  assumes "load_impl s f as base = Some (s', r)"
  shows "(lr_error r \<in> {elf_ok, no_memory_elf} \<and>
      64 \<le> length f \<and> unat (e_phoff (ehdr_at f)) + 56 * unat (e_phnum (ehdr_at f)) \<le> length f \<and> load_segments f \<noteq> [] \<and>
      (\<forall>ph\<in>set (phdrs_of f). p_type ph \<noteq> PT_INTERP) \<and>
      (\<forall>ph\<in>set (load_segments f). unat (p_offset ph) + unat (p_filesz ph) \<le> length f)) \<or>
    (lr_error r \<notin> {elf_ok, no_memory_elf} \<and> s' = s)"
  using assms
proof (cases rule: load_impl_cases)
  case rejected
  then show ?thesis using check_header_error [of f] by auto
next
  case (scan_error r1 sp)
  then show ?thesis using scan_phdrs_error [of empty_result "length f" "ehdr_at f" "phdrs_of f" empty_span] by (auto simp: empty_result_def)
next
  case (scanned r1 sp sA a)
  have S: "scanned (length f) (phdrs_of f) empty_span sp" using scan_phdrs_scanned scanned(2,3) by blast
  have "load_segments f \<noteq> []" using scan_has_load [OF scanned(2,4)] by (auto simp: load_segments_def filter_empty_conv)
  moreover have "\<forall>ph\<in>set (load_segments f). unat (p_offset ph) + unat (p_filesz ph) \<le> length f" "\<forall>ph\<in>set (phdrs_of f). p_type ph \<noteq> PT_INTERP"
    using S by (auto simp: scanned_def load_segments_def range_ok_def)
  moreover have "lr_error r \<in> {elf_ok, no_memory_elf}" using scanned(6) by (auto split: option.splits prod.splits)
  ultimately show ?thesis using check_header_ok [OF scanned(1)] by blast
qed

lemma elf_load_checked_witness: "load_segments demo_elf \<noteq> []"
proof -
  obtain s' r where l: "load_impl demo_machine demo_elf 0 0 = Some (s', r)" "lr_error r = elf_ok" using demo_loads by auto
  then show ?thesis using elf_load_checked [OF l(1)] by simp
qed

lemma image_span:
  assumes S: "scanned n phs empty_span sp" and ne: "\<exists>ph\<in>set phs. p_type ph = PT_LOAD"
    and fit: "\<forall>ph\<in>set phs. p_type ph = PT_LOAD \<longrightarrow> unat (p_vaddr ph) + unat (p_memsz ph) \<le> 2 ^ 63"
  shows "\<exists>ph\<in>set phs. p_type ph = PT_LOAD \<and> sp_min sp = p_vaddr ph"
    and "\<forall>ph\<in>set phs. p_type ph = PT_LOAD \<longrightarrow> sp_min sp \<le> p_vaddr ph \<and>
      unat (p_vaddr ph) - unat (sp_min sp) + unat (p_memsz ph) \<le> unat (elf_align_up (sp_max sp - sp_min sp) 4096)"
proof -
  obtain q where q: "q \<in> set phs" "p_type q = PT_LOAD" using ne by blast
  have mq: "sp_min sp \<le> p_vaddr q" using S q by (auto simp: scanned_def)
  show "\<exists>ph\<in>set phs. p_type ph = PT_LOAD \<and> sp_min sp = p_vaddr ph"
  proof (cases "sp_min sp = sp_min empty_span")
    case True
    then have "sp_min sp = -1" by (simp add: empty_span_def)
    then have "p_vaddr q = sp_min sp" using mq word_n1_ge [of "p_vaddr q"] by (metis order_antisym)
    then show ?thesis using q by auto
  qed (use S in \<open>auto simp: scanned_def\<close>)
  have nw: "unat (p_vaddr ph + p_memsz ph) = unat (p_vaddr ph) + unat (p_memsz ph)" if "ph \<in> set phs" "p_type ph = PT_LOAD" for ph
  proof -
    have "unat (p_vaddr ph) + unat (p_memsz ph) \<le> 9223372036854775808" using fit that by simp
    then show ?thesis by (intro unat_plus64) linarith
  qed
  have mx: "unat (sp_max sp) \<le> 9223372036854775808"
    using S fit nw by (auto simp: scanned_def empty_span_def)
  show "\<forall>ph\<in>set phs. p_type ph = PT_LOAD \<longrightarrow> sp_min sp \<le> p_vaddr ph \<and>
      unat (p_vaddr ph) - unat (sp_min sp) + unat (p_memsz ph) \<le> unat (elf_align_up (sp_max sp - sp_min sp) 4096)"
  proof (intro ballI impI conjI)
    fix ph assume ph: "ph \<in> set phs" "p_type ph = PT_LOAD"
    show mp: "sp_min sp \<le> p_vaddr ph" using S ph by (auto simp: scanned_def)
    have "p_vaddr ph + p_memsz ph \<le> sp_max sp" using S ph by (auto simp: scanned_def)
    then have le: "unat (p_vaddr ph) + unat (p_memsz ph) \<le> unat (sp_max sp)" using nw [OF ph] by (simp add: word_le_nat_alt)
    have ml: "unat (sp_min sp) \<le> unat (p_vaddr ph)" using mp by (simp add: word_le_nat_alt)
    have d: "unat (sp_max sp - sp_min sp) = unat (sp_max sp) - unat (sp_min sp)" using le ml by (intro unat_minus_nw) linarith
    have b: "unat (sp_max sp - sp_min sp) + 2 ^ 12 \<le> 2 ^ 64" unfolding d using mx by simp
    have "elf_align_up (sp_max sp - sp_min sp) 4096 = align_up (sp_max sp - sp_min sp) 4096" by (simp add: elf_align_up_def align_up_def)
    then have "unat (sp_max sp - sp_min sp) \<le> unat (elf_align_up (sp_max sp - sp_min sp) 4096)"
      using align_up_bounds(1) [of 4096 12, OF _ _ b] by simp
    then show "unat (p_vaddr ph) - unat (sp_min sp) + unat (p_memsz ph) \<le> unat (elf_align_up (sp_max sp - sp_min sp) 4096)"
      unfolding d using le ml by linarith
  qed
qed

text \<open>
  The image of a file whose relocations, if any, are not applied: every loadable segment holds its
  bytes of the file followed by zeros, and nothing outside the allocated image is written. An
  \<open>ET_EXEC\<close> file is moved to an allocated place like any other, its entry point with it.
\<close>

lemma elf_image_contents:
  assumes "load_impl s f as base = Some (s', r)" "lr_error r = elf_ok"
    and "e_type (ehdr_at f) = ET_EXEC \<or> (\<forall>ph\<in>set (phdrs_of f). p_type ph \<noteq> PT_DYNAMIC)"
    and "\<forall>ph\<in>set (load_segments f). p_filesz ph \<le> p_memsz ph \<and> unat (p_vaddr ph) + unat (p_memsz ph) \<le> 2 ^ 63"
    and "sorted_wrt segments_apart (load_segments f)"
    and "wb = (if as \<noteq> 0 then lr_image_phys r else lr_image_base r)"
  shows "\<exists>sA low al. alloc_image s as (elf_align_up base al) (lr_image_size r) al =
       Some (sA, Some (lr_image_base r, wb, lr_image_phys r, lr_image_from_phys r)) \<and>
    (\<exists>ph\<in>set (load_segments f). low = p_vaddr ph) \<and> lr_entry r = e_entry (ehdr_at f) + (lr_image_base r - low) \<and>
    (\<forall>ph\<in>set (load_segments f). low \<le> p_vaddr ph \<and> unat (p_vaddr ph - low) + unat (p_memsz ph) \<le> unat (lr_image_size r) \<and>
       (\<forall>i<unat (p_memsz ph). bytes_of s' (wb + (p_vaddr ph - low) + word_of_nat i) =
          (if i < unat (p_filesz ph) then f ! (unat (p_offset ph) + i) else 0))) \<and>
    (\<forall>x. x - wb \<ge> lr_image_size r \<longrightarrow> bytes_of s' x = bytes_of sA x)"
  using assms(1)
proof (cases rule: load_impl_cases)
  case rejected
  then show ?thesis using assms(2) by simp
next
  case scan_error
  then show ?thesis using assms(2) by auto
next
  case (scanned r1 sp sA a)
  let ?phs = "phdrs_of f" and ?mn = "sp_min sp"
  have S: "scanned (length f) ?phs empty_span sp" using scan_phdrs_scanned scanned(2,3) by blast
  obtain rb wb' ph0 fp where a: "a = Some (rb, wb', ph0, fp)" using scanned(6) assms(2) by (cases a) auto
  have R: "lr_image_base r = rb" "lr_image_phys r = ph0" "lr_image_from_phys r = fp" "lr_image_size r = elf_align_up (sp_max sp - ?mn) 4096"
    "lr_entry r = e_entry (ehdr_at f) + (rb - ?mn)" using scanned(6) a by auto
  have wb: "wb' = wb"
    using scanned(5) a R(1,2) assms(6) by (auto simp: alloc_image_def Let_def split: if_splits option.splits bind_splits)
  have mem: "bytes_of s' = copy_segments f (wb - ?mn) ?phs (bytes_of sA)"
  proof -
    have "find (\<lambda>ph. p_type ph = PT_DYNAMIC) ?phs = None \<or> e_type (ehdr_at f) \<noteq> ET_DYN"
      using assms(3) by (auto simp: find_None_iff ET_EXEC_def ET_DYN_def)
    then show ?thesis using scanned(6) a wb by (auto simp: relocate_def split: if_splits)
  qed
  have ne: "\<exists>ph\<in>set ?phs. p_type ph = PT_LOAD"
    by (rule scan_has_load [OF scanned(2,4)])
  have fit: "\<forall>ph\<in>set ?phs. p_type ph = PT_LOAD \<longrightarrow> unat (p_vaddr ph) + unat (p_memsz ph) \<le> 2 ^ 63"
    using assms(4) by (auto simp: load_segments_def)
  note I = image_span [OF S ne fit]
  have fits: "\<forall>ph\<in>set ?phs. p_type ph = PT_LOAD \<longrightarrow> segment_fits f ?mn ph"
    using S fit I(2) assms(4) by (auto simp: segment_fits_def scanned_def load_segments_def)
  have C: "(\<forall>ph\<in>set ?phs. p_type ph = PT_LOAD \<longrightarrow> in_segment ?mn (x - wb) ph \<longrightarrow>
      bytes_of s' x = segment_byte f ph (unat ((x - wb) - (p_vaddr ph - ?mn)))) \<and>
    ((\<forall>ph\<in>set ?phs. p_type ph = PT_LOAD \<longrightarrow> \<not> in_segment ?mn (x - wb) ph) \<longrightarrow> bytes_of s' x = bytes_of sA x)" for x
    unfolding mem by (rule copy_segments_at [OF fits assms(5) [unfolded load_segments_def]])
  have inside: "?mn \<le> p_vaddr ph \<and> unat (p_vaddr ph - ?mn) + unat (p_memsz ph) \<le> unat (lr_image_size r) \<and>
      (\<forall>i<unat (p_memsz ph). bytes_of s' (wb + (p_vaddr ph - ?mn) + word_of_nat i) =
        (if i < unat (p_filesz ph) then f ! (unat (p_offset ph) + i) else 0))" if ph: "ph \<in> set (load_segments f)" for ph
  proof -
    have p: "ph \<in> set ?phs" "p_type ph = PT_LOAD" using ph by (auto simp: load_segments_def)
    have v: "unat (p_vaddr ph - ?mn) = unat (p_vaddr ph) - unat ?mn" using I(2) p by (simp add: unat_sub)
    have "bytes_of s' (wb + (p_vaddr ph - ?mn) + word_of_nat i) = (if i < unat (p_filesz ph) then f ! (unat (p_offset ph) + i) else 0)"
      if i: "i < unat (p_memsz ph)" for i
    proof -
      let ?x = "wb + (p_vaddr ph - ?mn) + word_of_nat i"
      have "i < 18446744073709551616" using i unat_lt_64 [of "p_memsz ph"] by linarith
      then have u: "unat (word_of_nat i :: u64) = i" by (simp add: unat_of_nat)
      have e: "(?x - wb) - (p_vaddr ph - ?mn) = word_of_nat i" by simp
      have "in_segment ?mn (?x - wb) ph" unfolding in_segment_def e u by (rule i)
      then have "bytes_of s' ?x = segment_byte f ph (unat ((?x - wb) - (p_vaddr ph - ?mn)))" using C p by blast
      then show ?thesis unfolding e u segment_byte_def .
    qed
    then show ?thesis using I(2) p v R(4) by simp
  qed
  have outside: "bytes_of s' x = bytes_of sA x" if x: "x - wb \<ge> lr_image_size r" for x
  proof -
    have "\<not> in_segment ?mn (x - wb) ph" if "ph \<in> set ?phs" "p_type ph = PT_LOAD" for ph
      using in_segment_nat(1) [of f ?mn ph "x - wb"] fits that I(2) x R(4) by (fastforce simp: word_le_nat_alt)
    then show ?thesis using C by blast
  qed
  have al: "alloc_image s as (elf_align_up base (sp_align sp)) (lr_image_size r) (sp_align sp) =
       Some (sA, Some (lr_image_base r, wb, lr_image_phys r, lr_image_from_phys r))" using scanned(5) a R wb by simp
  have "\<exists>ph\<in>set (load_segments f). ?mn = p_vaddr ph" using I(1) by (auto simp: load_segments_def)
  then show ?thesis using al R(1,5) inside outside by blast
qed

text \<open>
  C28. A position-independent executable without a dynamic section (so without relocations), whose
  loadable segments are disjoint, below 2^63 and no larger in the file than in memory: at the
  place where the image was allocated, every loadable segment holds its bytes of the file followed
  by zeros up to its memory size, no byte outside the allocated image is written, and the entry
  point is moved by the same distance as the lowest segment.
\<close>

theorem elf_image_loaded:
  assumes "load_impl s f as base = Some (s', r)" "lr_error r = elf_ok"
    and "e_type (ehdr_at f) = ET_DYN" and "\<forall>ph\<in>set (phdrs_of f). p_type ph \<noteq> PT_DYNAMIC"
    and "\<forall>ph\<in>set (load_segments f). p_filesz ph \<le> p_memsz ph \<and> unat (p_vaddr ph) + unat (p_memsz ph) \<le> 2 ^ 63"
    and "sorted_wrt segments_apart (load_segments f)"
    and "wb = (if as \<noteq> 0 then lr_image_phys r else lr_image_base r)"
  shows "\<exists>sA low al. alloc_image s as (elf_align_up base al) (lr_image_size r) al =
       Some (sA, Some (lr_image_base r, wb, lr_image_phys r, lr_image_from_phys r)) \<and>
    (\<exists>ph\<in>set (load_segments f). low = p_vaddr ph) \<and> lr_entry r = e_entry (ehdr_at f) + (lr_image_base r - low) \<and>
    (\<forall>ph\<in>set (load_segments f). low \<le> p_vaddr ph \<and> unat (p_vaddr ph - low) + unat (p_memsz ph) \<le> unat (lr_image_size r) \<and>
       (\<forall>i<unat (p_memsz ph). bytes_of s' (wb + (p_vaddr ph - low) + word_of_nat i) =
          (if i < unat (p_filesz ph) then f ! (unat (p_offset ph) + i) else 0))) \<and>
    (\<forall>x. x - wb \<ge> lr_image_size r \<longrightarrow> bytes_of s' x = bytes_of sA x)"
  by (rule elf_image_contents [OF assms(1,2) disjI2 [OF assms(4)] assms(5-7)])

lemma elf_image_loaded_witness:
  "\<exists>s' r. load_impl demo_machine demo_pie 0 0 = Some (s', r) \<and> lr_entry r = 0x401000 \<and> bytes_of s' 0x401002 = 0xEB \<and> bytes_of s' 0x401004 = 0"
proof -
  obtain s' r where l: "load_impl demo_machine demo_pie 0 0 = Some (s', r)" "lr_error r = elf_ok" "lr_image_base r = 0x401000" "lr_entry r = 0x401000"
    using demo_pie_loads by auto
  have ty: "e_type (ehdr_at demo_pie) = ET_DYN" "\<forall>ph\<in>set (phdrs_of demo_pie). p_type ph \<noteq> PT_DYNAMIC" "demo_pie ! 122 = 0xEB" by code_simp+
  let ?seg = "\<lparr>p_type = 1, p_offset = 120, p_vaddr = 0x400000, p_filesz = 4, p_memsz = 16, p_align = 0x1000\<rparr>"
  have hyp: "\<forall>ph\<in>set (load_segments demo_pie). p_filesz ph \<le> p_memsz ph \<and> unat (p_vaddr ph) + unat (p_memsz ph) \<le> 2 ^ 63"
    "sorted_wrt segments_apart (load_segments demo_pie)" by (simp_all add: demo_pie_segments)
  have wb: "lr_image_base r = (if (0 :: u64) \<noteq> 0 then lr_image_phys r else lr_image_base r)" by simp
  have seg: "?seg \<in> set (load_segments demo_pie)" "set (load_segments demo_pie) = {?seg}" by (simp_all add: demo_pie_segments)
  obtain sA low al where T: "\<exists>ph\<in>set (load_segments demo_pie). low = p_vaddr ph"
    "\<forall>ph\<in>set (load_segments demo_pie). low \<le> p_vaddr ph \<and> unat (p_vaddr ph - low) + unat (p_memsz ph) \<le> unat (lr_image_size r) \<and>
       (\<forall>i<unat (p_memsz ph). bytes_of s' (lr_image_base r + (p_vaddr ph - low) + word_of_nat i) =
          (if i < unat (p_filesz ph) then demo_pie ! (unat (p_offset ph) + i) else 0))"
    using elf_image_loaded [OF l(1,2) ty(1,2) hyp wb] by (elim exE conjE) (rule that)
  have low: "low = p_vaddr ?seg" using T(1) unfolding seg(2) by simp
  have "\<forall>i<unat (p_memsz ?seg). bytes_of s' (lr_image_base r + (p_vaddr ?seg - low) + word_of_nat i) =
      (if i < unat (p_filesz ?seg) then demo_pie ! (unat (p_offset ?seg) + i) else 0)"
    by (rule conjunct2 [OF conjunct2 [OF bspec [OF T(2) seg(1)]]])
  note low = low this [unfolded l(3)]
  have "bytes_of s' (0x401000 + word_of_nat i) = (if i < 4 then demo_pie ! (120 + i) else 0)" if "i < 16" for i
    using low that by (simp cong: if_cong)
  from this [of 2] this [of 4] show ?thesis using l(1,4) ty(3) by simp
qed

text \<open>
  Relocation of a position-independent executable: when the table does not overlap the places
  it relocates, every relative entry whose eight bytes no other entry writes ends up holding the
  load bias plus its addend, and all other bytes stay as they were.
\<close>

lemma elf_relocation_correct:
  assumes "find (\<lambda>ph. p_type ph = PT_DYNAMIC) phs = Some dyn" "walk_dynamic mem (p_vaddr dyn + write_bias) 0 0 = Some (rela_vaddr, rela_size)"
    and "rela_vaddr \<noteq> 0" "24 \<le> rela_size" "n = unat rela_size div 24" "table = rela_vaddr + write_bias" "table_safe mem write_bias table n"
  shows "\<exists>mem'. relocate phs load_bias write_bias mem = Some mem' \<and>
    (\<forall>k<n. rela_relative mem table k \<longrightarrow>
       (\<forall>j<n. j \<noteq> k \<longrightarrow> rela_relative mem table j \<longrightarrow>
         (\<forall>i<8. \<not> unat (rela_target mem write_bias table k + word_of_nat i - rela_target mem write_bias table j) < 8)) \<longrightarrow>
       read_u64 mem' (rela_target mem write_bias table k) = load_bias + rela_addend mem table k) \<and>
    (\<forall>x. (\<forall>k<n. rela_relative mem table k \<longrightarrow> \<not> unat (x - rela_target mem write_bias table k) < 8) \<longrightarrow> mem' x = mem x)"
proof -
  have "relocate phs load_bias write_bias mem = Some (apply_relas load_bias write_bias table n mem)"
    using assms(1-6) by (simp add: relocate_def sizeof_Rela_def)
  then show ?thesis using apply_relas_target [OF assms(7)] apply_relas_other [OF assms(7)] by blast
qed

definition demo_reloc_memory :: "u64 \<Rightarrow> u8" where
  "demo_reloc_memory = (\<lambda>_. 0)(0x1000 := 7, 0x1009 := 0x20, 0x1010 := 8, 0x1018 := 24, 0x2001 := 0x18, 0x2008 := 8, 0x2010 := 0x10)"

end
