(* ===== verification/BlockDev.thy ===== *)
theory BlockDev
  imports KHeapSpec
begin

text \<open>
  The block layer of src/core/block.cpp: the registry of block devices and the checked transfers.
  A device's operations are the functions its driver registers, which are arguments of the model:
  they act on the state \<open>'w\<close> of the driver and the medium behind it. A buffer is the list of its
  bytes; a transfer takes the buffer and gives it back, and \<open>None\<close> is the null pointer.
\<close>

type_synonym 'w read_op = "'w \<Rightarrow> u64 \<Rightarrow> u32 \<Rightarrow> u8 list \<Rightarrow> 'w \<times> bool \<times> u8 list"
type_synonym 'w write_op = "'w \<Rightarrow> u64 \<Rightarrow> u32 \<Rightarrow> u8 list \<Rightarrow> 'w \<times> bool"

record 'w block_ops =
  bo_read_blocks :: "'w read_op option"
  bo_write_blocks :: "'w write_op option"

record 'w block_device =
  bd_name :: string
  bd_block_count :: u64
  bd_block_size :: u32
  bd_removable :: bool
  bd_driver_data :: u64
  bd_ops :: "'w block_ops option"

definition MAX_BLOCK_DEVICES :: nat where "MAX_BLOCK_DEVICES = 16"

record 'w block_registry =
  s_devices :: "'w block_device list"
  s_device_count :: nat
  s_initialised :: bool

definition zero_device :: "'w block_device" where
  "zero_device = \<lparr>bd_name = [], bd_block_count = 0, bd_block_size = 0, bd_removable = False, bd_driver_data = 0, bd_ops = None\<rparr>"

definition block_init :: "'w block_registry \<Rightarrow> 'w block_registry" where
  "block_init r =
     (if s_initialised r then r
      else r\<lparr>s_devices := replicate MAX_BLOCK_DEVICES zero_device, s_device_count := 0, s_initialised := True\<rparr>)"

definition block_register_device :: "'w block_registry \<Rightarrow> 'w block_device \<Rightarrow> 'w block_registry \<times> int" where
  "block_register_device r dev =
     (let r = (if \<not> s_initialised r then block_init r else r) in
      if s_device_count r \<ge> MAX_BLOCK_DEVICES then (r, -1)
      else if bd_block_size dev = 0 \<or> bd_block_count dev = 0 \<or>
          (case bd_ops dev of None \<Rightarrow> True | Some ops \<Rightarrow> bo_read_blocks ops = None) then (r, -1)
      else (r\<lparr>s_devices := (s_devices r)[s_device_count r := dev], s_device_count := s_device_count r + 1\<rparr>,
            int (s_device_count r)))"

definition block_device_count :: "'w block_registry \<Rightarrow> nat" where
  "block_device_count r = s_device_count r"

definition block_get_device :: "'w block_registry \<Rightarrow> nat \<Rightarrow> 'w block_device option" where
  "block_get_device r index = (if index \<ge> s_device_count r then None else Some (s_devices r ! index))"

definition block_find :: "'w block_registry \<Rightarrow> string \<Rightarrow> 'w block_device option" where
  "block_find r name = find (\<lambda>d. sv_compare (bd_name d) name) (take (s_device_count r) (s_devices r))"

text \<open>The range check both transfers make before they call the driver.\<close>

definition read_blocks :: "'w block_device option \<Rightarrow> 'w \<Rightarrow> u64 \<Rightarrow> u32 \<Rightarrow> u8 list option \<Rightarrow> 'w \<times> bool \<times> u8 list option" where
  "read_blocks dev w lba count buffer =
     (case (dev, buffer) of
        (Some dev, Some buf) \<Rightarrow>
          (case bd_ops dev of
             None \<Rightarrow> (w, False, buffer)
           | Some ops \<Rightarrow>
              (case bo_read_blocks ops of
                 None \<Rightarrow> (w, False, buffer)
               | Some rd \<Rightarrow>
                   if count = 0 then (w, False, buffer)
                   else if lba \<ge> bd_block_count dev \<or> ucast count > bd_block_count dev - lba then (w, False, buffer)
                   else let (w, ok, buf) = rd w lba count buf in (w, ok, Some buf)))
      | _ \<Rightarrow> (w, False, buffer))"

definition write_blocks :: "'w block_device option \<Rightarrow> 'w \<Rightarrow> u64 \<Rightarrow> u32 \<Rightarrow> u8 list option \<Rightarrow> 'w \<times> bool" where
  "write_blocks dev w lba count buffer =
     (case (dev, buffer) of
        (Some dev, Some buf) \<Rightarrow>
          (case bd_ops dev of
             None \<Rightarrow> (w, False)
           | Some ops \<Rightarrow>
              (case bo_write_blocks ops of
                 None \<Rightarrow> (w, False)
               | Some wr \<Rightarrow>
                   if count = 0 then (w, False)
                   else if lba \<ge> bd_block_count dev \<or> ucast count > bd_block_count dev - lba then (w, False)
                   else wr w lba count buf))
      | _ \<Rightarrow> (w, False))"

section \<open>The range check\<close>

lemma block_range:
  assumes "count \<noteq> 0"
  shows "(lba \<ge> bc \<or> ucast (count :: u32) > bc - lba) \<longleftrightarrow> \<not> unat (lba :: u64) + unat count \<le> unat bc"
proof (cases "lba \<ge> bc")
  case True
  then show ?thesis using assms by (auto simp: word_le_nat_alt unat_gt_0 [symmetric])
next
  case False
  then have "unat (bc - lba) = unat bc - unat lba" "unat lba < unat bc" by (auto simp: unat_minus_nw word_le_nat_alt)
  then show ?thesis using False by (auto simp: word_less_nat_alt unat_ucast_up)
qed

text \<open>With a driver behind them, the transfers reach it exactly for ranges inside the device.\<close>

lemma read_blocks_in_range:
  assumes "bd_ops dev = Some ops" "bo_read_blocks ops = Some rd"
  shows "read_blocks (Some dev) w lba count (Some buf) =
    (if count \<noteq> 0 \<and> unat lba + unat count \<le> unat (bd_block_count dev)
     then (case rd w lba count buf of (w, ok, buf) \<Rightarrow> (w, ok, Some buf)) else (w, False, Some buf))"
  using assms block_range [of count "bd_block_count dev" lba] by (cases "count = 0") (simp_all add: read_blocks_def)

lemma write_blocks_in_range:
  assumes "bd_ops dev = Some ops" "bo_write_blocks ops = Some wr"
  shows "write_blocks (Some dev) w lba count (Some buf) =
    (if count \<noteq> 0 \<and> unat lba + unat count \<le> unat (bd_block_count dev) then wr w lba count buf else (w, False))"
  using assms block_range [of count "bd_block_count dev" lba] by (cases "count = 0") (simp_all add: write_blocks_def)

end
