(* ===== verification/FatName.thy ===== *)
theory FatName
  imports MemUtil
begin

text \<open>
  The structures on a FAT32 volume and the file names of src/fs/fat32.cpp: directory entries and
  long-name entries as records with their packed bytes, the checksum that ties them together, the
  decoding of both kinds of name, the encoding of short names, case flags, aliases and long-name
  entries, and the splitting of paths. A \<open>string_view\<close> is a character list; a view that is cut
  from another one is the sublist.
\<close>

section \<open>Constants\<close>

definition FAT32_MIN_CLUSTER_COUNT :: u32 where "FAT32_MIN_CLUSTER_COUNT = 65525"
definition FAT32_END_OF_CHAIN :: u32 where "FAT32_END_OF_CHAIN = 0x0FFFFFF8"
definition FAT32_FSINFO_SIGNATURE_1 :: u32 where "FAT32_FSINFO_SIGNATURE_1 = 0x41615252"
definition FAT32_FSINFO_SIGNATURE_2 :: u32 where "FAT32_FSINFO_SIGNATURE_2 = 0x61417272"
definition FAT32_FSINFO_SIGNATURE_3 :: u32 where "FAT32_FSINFO_SIGNATURE_3 = 0xAA550000"
definition FAT32_FSINFO_UNKNOWN :: u32 where "FAT32_FSINFO_UNKNOWN = 0xFFFFFFFF"
definition FAT_CACHE_SECTOR_COUNT :: u32 where "FAT_CACHE_SECTOR_COUNT = 8"
definition MAX_LFN_ENTRIES :: nat where "MAX_LFN_ENTRIES = 20"
definition MAX_DIRECTORY_SLOTS :: nat where "MAX_DIRECTORY_SLOTS = MAX_LFN_ENTRIES + 1"
definition ATTR_VOLUME_ID :: u8 where "ATTR_VOLUME_ID = 0x08"
definition ATTR_DIRECTORY :: u8 where "ATTR_DIRECTORY = 0x10"
definition ATTR_ARCHIVE :: u8 where "ATTR_ARCHIVE = 0x20"
definition ATTR_LONG_FILE_NAME :: u8 where "ATTR_LONG_FILE_NAME = 0x0F"
definition CASE_INFO_BASE_LOWER :: u8 where "CASE_INFO_BASE_LOWER = 0x08"
definition CASE_INFO_EXT_LOWER :: u8 where "CASE_INFO_EXT_LOWER = 0x10"
definition DIR_ENTRY_END :: u8 where "DIR_ENTRY_END = 0x00"
definition DIR_ENTRY_UNUSED :: u8 where "DIR_ENTRY_UNUSED = 0xE5"
definition LFN_LAST_ENTRY_MASK :: u8 where "LFN_LAST_ENTRY_MASK = 0x40"

section \<open>Packed structures\<close>

definition u16_le :: "u16 \<Rightarrow> u8 list" where
  "u16_le v = [ucast v, ucast (drop_bit 8 v)]"

definition u32_le :: "u32 \<Rightarrow> u8 list" where
  "u32_le v = u16_le (ucast v) @ u16_le (ucast (drop_bit 16 v))"

text \<open>\<open>memory::copy\<close> of a list of bytes into a buffer at an offset.\<close>

definition splice_at :: "'a list \<Rightarrow> nat \<Rightarrow> 'a list \<Rightarrow> 'a list" where
  "splice_at xs i ys = take i xs @ ys @ drop (i + length ys) xs"

definition chars_of :: "u8 list \<Rightarrow> string" where
  "chars_of bs = map (\<lambda>b. char_of (unat b)) bs"

definition string_bytes :: "string \<Rightarrow> u8 list" where
  "string_bytes s = map of_char s"

record FATEntry =
  fat_filename :: string
  fat_extension :: string
  fat_attributes :: u8
  fat_case_info :: u8
  fat_creation_time_tenths :: u8
  fat_creation_time :: u16
  fat_creation_date :: u16
  fat_last_accessed_date :: u16
  fat_first_cluster_high :: u16
  fat_modification_time :: u16
  fat_modification_date :: u16
  fat_first_cluster_low :: u16
  fat_file_size :: u32

definition fat_entry_at :: "u8 list \<Rightarrow> nat \<Rightarrow> FATEntry" where
  "fat_entry_at bs i =
     \<lparr>fat_filename = chars_of (take 8 (drop i bs)), fat_extension = chars_of (take 3 (drop (i + 8) bs)),
      fat_attributes = bs ! (i + 11), fat_case_info = bs ! (i + 12), fat_creation_time_tenths = bs ! (i + 13),
      fat_creation_time = le16 bs (i + 14), fat_creation_date = le16 bs (i + 16), fat_last_accessed_date = le16 bs (i + 18),
      fat_first_cluster_high = le16 bs (i + 20), fat_modification_time = le16 bs (i + 22),
      fat_modification_date = le16 bs (i + 24), fat_first_cluster_low = le16 bs (i + 26), fat_file_size = le32 bs (i + 28)\<rparr>"

definition fat_entry_bytes :: "FATEntry \<Rightarrow> u8 list" where
  "fat_entry_bytes e =
     string_bytes (fat_filename e) @ string_bytes (fat_extension e) @ [fat_attributes e, fat_case_info e, fat_creation_time_tenths e] @
     u16_le (fat_creation_time e) @ u16_le (fat_creation_date e) @ u16_le (fat_last_accessed_date e) @
     u16_le (fat_first_cluster_high e) @ u16_le (fat_modification_time e) @ u16_le (fat_modification_date e) @
     u16_le (fat_first_cluster_low e) @ u32_le (fat_file_size e)"

definition zero_entry :: FATEntry where
  "zero_entry = \<lparr>fat_filename = replicate 8 (char_of (0::nat)), fat_extension = replicate 3 (char_of (0::nat)), fat_attributes = 0,
     fat_case_info = 0, fat_creation_time_tenths = 0, fat_creation_time = 0, fat_creation_date = 0, fat_last_accessed_date = 0,
     fat_first_cluster_high = 0, fat_modification_time = 0, fat_modification_date = 0, fat_first_cluster_low = 0, fat_file_size = 0\<rparr>"

record FATLongFileNameEntry =
  lfn_order :: u8
  lfn_name1 :: "u16 list"
  lfn_attributes :: u8
  lfn_entry_type :: u8
  lfn_checksum_field :: u8
  lfn_name2 :: "u16 list"
  lfn_first_cluster_low :: u16
  lfn_name3 :: "u16 list"

definition u16s_at :: "u8 list \<Rightarrow> nat \<Rightarrow> nat \<Rightarrow> u16 list" where
  "u16s_at bs i n = map (\<lambda>k. le16 bs (i + 2 * k)) [0..<n]"

definition lfn_entry_at :: "u8 list \<Rightarrow> nat \<Rightarrow> FATLongFileNameEntry" where
  "lfn_entry_at bs i =
     \<lparr>lfn_order = bs ! i, lfn_name1 = u16s_at bs (i + 1) 5, lfn_attributes = bs ! (i + 11), lfn_entry_type = bs ! (i + 12),
      lfn_checksum_field = bs ! (i + 13), lfn_name2 = u16s_at bs (i + 14) 6, lfn_first_cluster_low = le16 bs (i + 26),
      lfn_name3 = u16s_at bs (i + 28) 2\<rparr>"

definition lfn_entry_bytes :: "FATLongFileNameEntry \<Rightarrow> u8 list" where
  "lfn_entry_bytes e =
     [lfn_order e] @ concat (map u16_le (lfn_name1 e)) @ [lfn_attributes e, lfn_entry_type e, lfn_checksum_field e] @
     concat (map u16_le (lfn_name2 e)) @ u16_le (lfn_first_cluster_low e) @ concat (map u16_le (lfn_name3 e))"

definition zero_lfn :: FATLongFileNameEntry where
  "zero_lfn = \<lparr>lfn_order = 0, lfn_name1 = replicate 5 0, lfn_attributes = 0, lfn_entry_type = 0, lfn_checksum_field = 0,
     lfn_name2 = replicate 6 0, lfn_first_cluster_low = 0, lfn_name3 = replicate 2 0\<rparr>"

definition first_cluster :: "FATEntry \<Rightarrow> u32" where
  "first_cluster e = push_bit 16 (ucast (fat_first_cluster_high e)) OR ucast (fat_first_cluster_low e)"

definition is_directory :: "FATEntry \<Rightarrow> bool" where
  "is_directory e \<longleftrightarrow> fat_attributes e AND ATTR_DIRECTORY \<noteq> 0"

section \<open>Characters and paths\<close>

definition fat_is_separator :: "char \<Rightarrow> bool" where
  "fat_is_separator ch \<longleftrightarrow> ch = CHR ''/'' \<or> ch = CHR 0x5C"

abbreviation ascii :: "char \<Rightarrow> nat" where "ascii ch \<equiv> of_char ch"

definition is_lower :: "char \<Rightarrow> bool" where
  "is_lower ch \<longleftrightarrow> ascii CHR ''a'' \<le> ascii ch \<and> ascii ch \<le> ascii CHR ''z''"

definition is_upper :: "char \<Rightarrow> bool" where
  "is_upper ch \<longleftrightarrow> ascii CHR ''A'' \<le> ascii ch \<and> ascii ch \<le> ascii CHR ''Z''"

definition ascii_upper :: "char \<Rightarrow> char" where
  "ascii_upper ch = (if is_lower ch then char_of (ascii ch - ascii CHR ''a'' + ascii CHR ''A'') else ch)"

definition ascii_lower :: "char \<Rightarrow> char" where
  "ascii_lower ch = (if is_upper ch then char_of (ascii ch - ascii CHR ''A'' + ascii CHR ''a'') else ch)"

definition is_ascii_alnum :: "char \<Rightarrow> bool" where
  "is_ascii_alnum ch \<longleftrightarrow> is_upper (ascii_upper ch) \<or> ascii CHR ''0'' \<le> ascii ch \<and> ascii ch \<le> ascii CHR ''9''"

fun normalize_path :: "string \<Rightarrow> string" where
  "normalize_path (a # b # path) = (if a = CHR ''.'' \<and> fat_is_separator b then normalize_path path else a # b # path)"
| "normalize_path path = path"

fun trim_loop :: "string \<Rightarrow> nat \<Rightarrow> nat" where
  "trim_loop path 0 = 0"
| "trim_loop path (Suc k) = (if Suc k > 1 \<and> fat_is_separator (path ! k) then trim_loop path k else Suc k)"

definition trim_trailing_separators :: "string \<Rightarrow> string" where
  "trim_trailing_separators path = take (trim_loop path (length path)) path"

definition is_absolute_path :: "string \<Rightarrow> bool" where
  "is_absolute_path path \<longleftrightarrow> length path > 0 \<and> fat_is_separator (path ! 0)"

text \<open>The component at the front of what is left of the path, and what is left behind it.\<close>

definition next_path_component :: "string \<Rightarrow> (string \<times> string) option" where
  "next_path_component path =
     (let rest = dropWhile fat_is_separator path in
      if rest = [] then None
      else Some (takeWhile (\<lambda>c. \<not> fat_is_separator c) rest, dropWhile (\<lambda>c. \<not> fat_is_separator c) rest))"

section \<open>Decoding names\<close>

fun set_lfn_character :: "FATLongFileNameEntry \<Rightarrow> nat \<Rightarrow> u16 \<Rightarrow> FATLongFileNameEntry" where
  "set_lfn_character e index v =
     (if index < 5 then e\<lparr>lfn_name1 := (lfn_name1 e)[index := v]\<rparr>
      else if index < 11 then e\<lparr>lfn_name2 := (lfn_name2 e)[index - 5 := v]\<rparr>
      else e\<lparr>lfn_name3 := (lfn_name3 e)[index - 11 := v]\<rparr>)"

text \<open>The characters written so far and whether the name is complete.\<close>

definition append_lfn_character :: "nat \<Rightarrow> string \<Rightarrow> u16 \<Rightarrow> string \<times> bool" where
  "append_lfn_character cap out v =
     (if v = 0 then (out, True)
      else if v = 0xFFFF then (out, False)
      else if length out + 1 \<ge> cap then (out, True)
      else (out @ [if v < 0x80 then char_of (unat v) else CHR ''?''], False))"

definition checksum_step :: "u8 \<Rightarrow> char \<Rightarrow> u8" where
  "checksum_step checksum ch = push_bit 7 checksum + drop_bit 1 checksum + of_char ch"

definition lfn_checksum :: "FATEntry \<Rightarrow> u8" where
  "lfn_checksum e = foldl checksum_step (foldl checksum_step 0 (fat_filename e)) (fat_extension e)"

definition decode_short_name :: "FATEntry \<Rightarrow> bool \<times> string" where
  "decode_short_name e =
     (let lower_base = fat_case_info e AND CASE_INFO_BASE_LOWER \<noteq> 0;
          lower_ext = fat_case_info e AND CASE_INFO_EXT_LOWER \<noteq> 0;
          base = takeWhile (\<lambda>c. c \<noteq> CHR '' '') (fat_filename e);
          name = map (\<lambda>c. if lower_base then ascii_lower c else c) base;
          name = (if fat_extension e ! 0 \<noteq> CHR '' ''
                  then name @ CHR ''.'' # map (\<lambda>c. if lower_ext then ascii_lower c else c) (takeWhile (\<lambda>c. c \<noteq> CHR '' '') (fat_extension e))
                  else name)
      in ss_assign 256 name)"

fun append_lfn_characters :: "nat \<Rightarrow> string \<Rightarrow> u16 list \<Rightarrow> string \<times> bool" where
  "append_lfn_characters cap out [] = (out, False)"
| "append_lfn_characters cap out (v # vs) =
     (let (out, done) = append_lfn_character cap out v in
      if done then (out, True) else append_lfn_characters cap out vs)"

definition lfn_characters :: "FATLongFileNameEntry \<Rightarrow> u16 list" where
  "lfn_characters e = lfn_name1 e @ lfn_name2 e @ lfn_name3 e"

fun decode_lfn_entries :: "string \<Rightarrow> FATLongFileNameEntry list \<Rightarrow> string" where
  "decode_lfn_entries out [] = out"
| "decode_lfn_entries out (e # es) =
     (let (out, done) = append_lfn_characters 256 out (lfn_characters e) in
      if done then out else decode_lfn_entries out es)"

definition decode_lfn_name :: "FATEntry \<Rightarrow> FATLongFileNameEntry list \<Rightarrow> bool \<times> string" where
  "decode_lfn_name e pending =
     (if length pending = 0 then (False, [])
      else if \<not> list_all (\<lambda>l. lfn_checksum_field l = lfn_checksum e) pending then (False, [])
      else ss_assign 256 (decode_lfn_entries [] (rev pending)))"

section \<open>Encoding names\<close>

definition is_valid_sfn_char :: "char \<Rightarrow> bool" where
  "is_valid_sfn_char ch = (let upper = ascii_upper ch in is_ascii_alnum upper \<or> upper \<in> set ''$%-_@~!()^#&'' \<or> upper = CHR 0x27)"

text \<open>The index of the last dot, or the length.\<close>

fun last_index :: "(char \<Rightarrow> bool) \<Rightarrow> string \<Rightarrow> nat \<Rightarrow> nat \<Rightarrow> nat" where
  "last_index P [] i found = found"
| "last_index P (c # cs) i found = last_index P cs (i + 1) (if P c then i else found)"

definition split_name_for_alias :: "string \<Rightarrow> string \<times> string" where
  "split_name_for_alias name =
     (let dot_index = last_index (\<lambda>c. c = CHR ''.'') name 0 (length name) in
      if dot_index < length name then (take dot_index name, drop (dot_index + 1) name) else (name, []))"

definition is_valid_sfn_name :: "string \<Rightarrow> bool" where
  "is_valid_sfn_name name =
     (if name = [] then False
      else if list_ex (\<lambda>c. fat_is_separator c \<or> c = CHR '' '') name then False
      else if length (filter (\<lambda>c. c = CHR ''.'') name) > 1 then False
      else let (base, extension) = split_name_for_alias name in
        if base = [] \<or> length base > 8 \<or> length extension > 3 then False
        else list_all is_valid_sfn_char base \<and> list_all is_valid_sfn_char extension)"

definition pad_name :: "nat \<Rightarrow> string \<Rightarrow> string" where
  "pad_name n s = splice_at (replicate n CHR '' '') 0 (take n s)"

definition encode_sfn :: "FATEntry \<Rightarrow> string \<Rightarrow> FATEntry" where
  "encode_sfn e name =
     (let (base, extension) = split_name_for_alias name in
      e\<lparr>fat_filename := pad_name 8 (map ascii_upper base), fat_extension := pad_name 3 (map ascii_upper extension)\<rparr>)"

definition component_has_lowercase :: "string \<Rightarrow> bool" where
  "component_has_lowercase s = list_ex is_lower s"

definition encode_case_info :: "string \<Rightarrow> u8" where
  "encode_case_info name =
     (let (base, extension) = split_name_for_alias name;
          case_info = (if base \<noteq> [] \<and> component_has_lowercase base then CASE_INFO_BASE_LOWER else 0)
      in if extension \<noteq> [] \<and> component_has_lowercase extension then case_info OR CASE_INFO_EXT_LOWER else case_info)"

fun sanitize_component :: "string \<Rightarrow> nat \<Rightarrow> string" where
  "sanitize_component [] cap = []"
| "sanitize_component (c # cs) 0 = []"
| "sanitize_component (c # cs) (Suc cap) =
     (let upper = ascii_upper c in
      if is_ascii_alnum upper \<or> upper \<in> set ''_$-~'' then upper # sanitize_component cs cap
      else if c = CHR '' '' \<or> c = CHR ''.'' then sanitize_component cs (Suc cap)
      else CHR ''_'' # sanitize_component cs cap)"

fun decimal_digits :: "nat \<Rightarrow> nat \<Rightarrow> string" where
  "decimal_digits 0 v = []"
| "decimal_digits (Suc n) v = (if v = 0 then [] else char_of (ascii CHR ''0'' + v mod 10) # decimal_digits n (v div 10))"

definition render_decimal :: "u32 \<Rightarrow> nat \<Rightarrow> string" where
  "render_decimal v out_cap = (if v = 0 then ''0'' else take out_cap (rev (decimal_digits 16 (unat v))))"

text \<open>The eleven characters tried for a given number.\<close>

definition sfn_alias :: "string \<Rightarrow> string \<Rightarrow> u32 \<Rightarrow> string" where
  "sfn_alias base extension unique =
     (let alias = replicate 11 CHR '' '';
          unique_digits = render_decimal unique 4;
          prefix_len = 8 - 1 - length unique_digits;
          prefix_len = (if prefix_len > length base then length base else prefix_len);
          prefix_len = (if prefix_len = 0 then 1 else prefix_len);
          alias = splice_at alias 0 (take prefix_len base);
          alias = alias[prefix_len := CHR ''~''];
          alias = splice_at alias (prefix_len + 1) unique_digits
      in splice_at alias 8 (take (if length extension > 3 then 3 else length extension) extension))"

definition sfn_base :: "string \<Rightarrow> string" where
  "sfn_base name = (let base = sanitize_component (fst (split_name_for_alias name)) 64 in if length base = 0 then ''FILE'' else base)"

definition sfn_extension :: "string \<Rightarrow> string" where
  "sfn_extension name = sanitize_component (snd (split_name_for_alias name)) 16"

fun set_lfn_characters :: "FATLongFileNameEntry \<Rightarrow> nat \<Rightarrow> u16 list \<Rightarrow> FATLongFileNameEntry" where
  "set_lfn_characters e i [] = e"
| "set_lfn_characters e i (v # vs) = set_lfn_characters (set_lfn_character e i v) (i + 1) vs"

definition create_lfn_entry :: "string \<Rightarrow> u8 \<Rightarrow> nat \<Rightarrow> nat \<Rightarrow> FATLongFileNameEntry" where
  "create_lfn_entry name checksum entry_count index =
     (let e = zero_lfn\<lparr>lfn_order := word_of_nat (index + 1)\<rparr>;
          e = (if index + 1 = entry_count then e\<lparr>lfn_order := lfn_order e OR LFN_LAST_ENTRY_MASK\<rparr> else e);
          e = e\<lparr>lfn_attributes := ATTR_LONG_FILE_NAME, lfn_entry_type := 0, lfn_checksum_field := checksum, lfn_first_cluster_low := 0\<rparr>;
          e = set_lfn_characters e 0 (replicate 13 0xFFFF);
          start = index * 13;
          len = length name - start;
          len = (if len > 13 then 13 else len);
          e = set_lfn_characters e 0 (map (\<lambda>c. ucast (of_char c :: u8)) (take len (drop start name)))
      in if len < 13 then set_lfn_character e len 0 else e)"

definition create_lfn_entries :: "string \<Rightarrow> u8 \<Rightarrow> FATLongFileNameEntry list option" where
  "create_lfn_entries name checksum =
     (let entry_count = (length name + 12) div 13 in
      if entry_count = 0 \<or> entry_count > MAX_LFN_ENTRIES then None
      else Some (map (create_lfn_entry name checksum entry_count) [0..<entry_count]))"

section \<open>Splicing\<close>

lemma length_splice_at [simp]: "i + length ys \<le> length xs \<Longrightarrow> length (splice_at xs i ys) = length xs"
  by (simp add: splice_at_def)

lemma nth_splice_at:
  assumes "i + length ys \<le> length xs" "k < length xs"
  shows "splice_at xs i ys ! k = (if i \<le> k \<and> k < i + length ys then ys ! (k - i) else xs ! k)"
  using assms by (auto simp: splice_at_def nth_append min_def)

lemma take_drop_splice:
  assumes "i + length ys \<le> length xs" "j + n \<le> i \<or> i + length ys \<le> j" "j + n \<le> length xs"
  shows "take n (drop j (splice_at xs i ys)) = take n (drop j xs)"
  by (rule nth_equalityI) (use assms in \<open>auto simp: nth_splice_at\<close>)

lemma take_drop_splice_same: "i + length ys \<le> length xs \<Longrightarrow> take (length ys) (drop i (splice_at xs i ys)) = ys"
  by (simp add: splice_at_def min_def)

end
