(* ===== verification/Mounts.thy ===== *)
theory Mounts
  imports BlockDev FatName
begin

text \<open>
  Finding partitions, src/fs/mounts.cpp: GUID partition tables, MBR tables and raw volumes on the
  registered block devices. The state is the pair of the driver state \<open>'w\<close> behind the devices and the
  caller's context; the mount callback is the caller's and may change both. \<open>None\<close> is the null
  callback.
\<close>

record gpt_header =
  gpt_signature :: string
  gpt_partition_entry_lba :: u64
  gpt_partition_entry_count :: u32
  gpt_partition_entry_size :: u32

definition gpt_header_at :: "u8 list \<Rightarrow> gpt_header" where
  "gpt_header_at bs = \<lparr>gpt_signature = chars_of (take 8 bs), gpt_partition_entry_lba = le64 bs 72,
     gpt_partition_entry_count = le32 bs 80, gpt_partition_entry_size = le32 bs 84\<rparr>"

record gpt_entry =
  ge_type_guid :: "u8 list"
  ge_first_lba :: u64
  ge_last_lba :: u64

definition GPT_ENTRY_BYTES :: nat where "GPT_ENTRY_BYTES = 128"

definition gpt_entry_at :: "u8 list \<Rightarrow> nat \<Rightarrow> gpt_entry" where
  "gpt_entry_at bs i = \<lparr>ge_type_guid = take 16 (drop i bs), ge_first_lba = le64 bs (i + 32), ge_last_lba = le64 bs (i + 40)\<rparr>"

record 'w partition_view =
  pv_device :: "'w block_device"
  pv_start_lba :: u64
  pv_sector_count :: u64

type_synonym ('w, 's) mount_callback = "'w \<times> 's \<Rightarrow> 'w partition_view \<Rightarrow> ('w \<times> 's) \<times> bool"

definition all_zero_guid :: "u8 list \<Rightarrow> bool" where
  "all_zero_guid guid \<longleftrightarrow> list_all (\<lambda>b. b = 0) guid"

definition is_valid_gpt_header :: "gpt_header \<Rightarrow> bool" where
  "is_valid_gpt_header gpt \<longleftrightarrow> gpt_signature gpt = ''EFI PART'' \<and> unat (gpt_partition_entry_size gpt) \<ge> GPT_ENTRY_BYTES \<and>
     gpt_partition_entry_count gpt > 0"

text \<open>One sector through the block layer.\<close>

definition read_one :: "'w block_device \<Rightarrow> 'w \<times> 's \<Rightarrow> u64 \<Rightarrow> ('w \<times> 's) \<times> u8 list option" where
  "read_one device st lba =
     (let (w, ok, buf) = read_blocks (Some device) (fst st) lba 1 (Some (replicate 512 0))
      in ((w, snd st), if ok then buf else None))"

definition read_gpt_header :: "'w block_device \<Rightarrow> 'w \<times> 's \<Rightarrow> ('w \<times> 's) \<times> gpt_header option" where
  "read_gpt_header device st =
     (if bd_block_size device \<noteq> 512 then (st, None)
      else case read_one device st 1 of
        (st, None) \<Rightarrow> (st, None)
      | (st, Some sector1) \<Rightarrow>
          let gpt = gpt_header_at sector1 in
          (st, if is_valid_gpt_header gpt then Some gpt else None))"

definition read_gpt_partition_entry :: "'w block_device \<Rightarrow> gpt_header \<Rightarrow> u32 \<Rightarrow> 'w \<times> 's \<Rightarrow> ('w \<times> 's) \<times> gpt_entry option" where
  "read_gpt_partition_entry device gpt entry_index st =
     (if unat (gpt_partition_entry_size gpt) < GPT_ENTRY_BYTES \<or> gpt_partition_entry_count gpt = 0 \<or>
         entry_index \<ge> gpt_partition_entry_count gpt then (st, None)
      else
        let entries_per_sector = 512 div gpt_partition_entry_size gpt in
        if entries_per_sector = 0 then (st, None)
        else
          let sector_index = entry_index div entries_per_sector in
          case read_one device st (gpt_partition_entry_lba gpt + ucast sector_index) of
            (st, None) \<Rightarrow> (st, None)
          | (st, Some entry_sector) \<Rightarrow>
              let entry_offset = (entry_index mod entries_per_sector) * gpt_partition_entry_size gpt in
              (st, Some (gpt_entry_at entry_sector (unat entry_offset))))"

definition try_mount_partition :: "'w partition_view \<Rightarrow> ('w, 's) mount_callback option \<Rightarrow> 'w \<times> 's \<Rightarrow> ('w \<times> 's) \<times> bool" where
  "try_mount_partition view callback st = (case callback of None \<Rightarrow> (st, False) | Some f \<Rightarrow> f st view)"

definition try_mount_raw_device :: "'w block_device \<Rightarrow> ('w, 's) mount_callback option \<Rightarrow> 'w \<times> 's \<Rightarrow> ('w \<times> 's) \<times> bool" where
  "try_mount_raw_device device callback st =
     try_mount_partition \<lparr>pv_device = device, pv_start_lba = 0, pv_sector_count = bd_block_count device\<rparr> callback st"

definition try_mount_specific_gpt_partition ::
  "'w block_device \<Rightarrow> gpt_header \<Rightarrow> u32 \<Rightarrow> ('w, 's) mount_callback option \<Rightarrow> 'w \<times> 's \<Rightarrow> ('w \<times> 's) \<times> bool" where
  "try_mount_specific_gpt_partition device gpt partition_index callback st =
     (case read_gpt_partition_entry device gpt partition_index st of
        (st, None) \<Rightarrow> (st, False)
      | (st, Some e) \<Rightarrow>
          if all_zero_guid (ge_type_guid e) \<or> ge_first_lba e = 0 \<or> ge_last_lba e < ge_first_lba e then (st, False)
          else try_mount_partition \<lparr>pv_device = device, pv_start_lba = ge_first_lba e,
                 pv_sector_count = ge_last_lba e - ge_first_lba e + 1\<rparr> callback st)"

fun first_mounted :: "('a \<Rightarrow> 'w \<times> 's \<Rightarrow> ('w \<times> 's) \<times> bool) \<Rightarrow> 'a list \<Rightarrow> 'w \<times> 's \<Rightarrow> ('w \<times> 's) \<times> bool" where
  "first_mounted f [] st = (st, False)"
| "first_mounted f (x # xs) st = (let (st, ok) = f x st in if ok then (st, True) else first_mounted f xs st)"

definition try_mount_any_gpt_partition ::
  "'w block_device \<Rightarrow> gpt_header \<Rightarrow> ('w, 's) mount_callback option \<Rightarrow> 'w \<times> 's \<Rightarrow> ('w \<times> 's) \<times> bool" where
  "try_mount_any_gpt_partition device gpt callback st =
     first_mounted (\<lambda>entry_index. try_mount_specific_gpt_partition device gpt (word_of_nat entry_index) callback)
       [0..<unat (gpt_partition_entry_count gpt)] st"

definition mbr_first_lba :: "u8 list \<Rightarrow> nat \<Rightarrow> u32" where
  "mbr_first_lba sector0 i = le32 sector0 (446 + 16 * i + 8)"

definition mbr_sector_count :: "u8 list \<Rightarrow> nat \<Rightarrow> u32" where
  "mbr_sector_count sector0 i = le32 sector0 (446 + 16 * i + 12)"

definition try_mount_mbr_partitions :: "'w block_device \<Rightarrow> u8 list \<Rightarrow> ('w, 's) mount_callback option \<Rightarrow> 'w \<times> 's \<Rightarrow> ('w \<times> 's) \<times> bool" where
  "try_mount_mbr_partitions device sector0 callback st =
     first_mounted (\<lambda>i st.
         if mbr_first_lba sector0 i = 0 \<or> mbr_sector_count sector0 i = 0 then (st, False)
         else try_mount_partition \<lparr>pv_device = device, pv_start_lba = ucast (mbr_first_lba sector0 i),
                pv_sector_count = ucast (mbr_sector_count sector0 i)\<rparr> callback st) [0..<4] st"

definition mount_gpt_partition_index ::
  "'w block_registry \<Rightarrow> u32 \<Rightarrow> ('w, 's) mount_callback option \<Rightarrow> 'w \<times> 's \<Rightarrow> ('w \<times> 's) \<times> status_code" where
  "mount_gpt_partition_index reg partition_index callback st =
     (let (st, ok) = first_mounted (\<lambda>device_index st.
          case block_get_device reg device_index of
            None \<Rightarrow> (st, False)
          | Some device \<Rightarrow>
              if bd_block_size device \<noteq> 512 then (st, False)
              else case read_gpt_header device st of
                  (st, None) \<Rightarrow> (st, False)
                | (st, Some gpt) \<Rightarrow> try_mount_specific_gpt_partition device gpt partition_index callback st)
          [0..<block_device_count reg] st
      in (st, if ok then success else error))"

definition mount_any_table :: "'w block_device \<Rightarrow> ('w, 's) mount_callback option \<Rightarrow> u8 list \<Rightarrow> 'w \<times> 's \<Rightarrow> ('w \<times> 's) \<times> bool" where
  "mount_any_table device callback sector0 st =
     (let (st, gpt) = read_gpt_header device st;
          (st, ok) = (case gpt of None \<Rightarrow> (st, False) | Some gpt \<Rightarrow> try_mount_any_gpt_partition device gpt callback st)
      in if ok then (st, True) else try_mount_mbr_partitions device sector0 callback st)"

definition mount_first_available ::
  "'w block_registry \<Rightarrow> ('w, 's) mount_callback option \<Rightarrow> 'w \<times> 's \<Rightarrow> ('w \<times> 's) \<times> status_code" where
  "mount_first_available reg callback st =
     (let (st, ok) = first_mounted (\<lambda>device_index st.
          case block_get_device reg device_index of
            None \<Rightarrow> (st, False)
          | Some device \<Rightarrow>
              if bd_block_size device \<noteq> 512 then (st, False)
              else
                let (st, ok) = try_mount_raw_device device callback st in
                if ok then (st, True)
                else case read_one device st 0 of
                    (st, None) \<Rightarrow> (st, False)
                  | (st, Some sector0) \<Rightarrow>
                      if sector0 ! 510 \<noteq> 0x55 \<or> sector0 ! 511 \<noteq> 0xAA then (st, False)
                      else mount_any_table device callback sector0 st)
          [0..<block_device_count reg] st
      in (st, if ok then success else error))"

end
