(* ===== verification/FatVol.thy ===== *)
theory FatVol
  imports BlockDev FatName
begin

text \<open>
  The mounted volume of src/fs/fat32.cpp: its state, sector transfers, the FAT with its cache of up
  to eight sectors, the FSInfo sector, and the allocation and release of clusters. The functions
  take \<open>const\<close> states in the source but fill the mutable cache, so all of them return the state; the
  field \<open>ms_world\<close> is the state behind the device pointer. A \<open>bool\<close> result with an out-parameter
  is an option. Functions whose loop need not end return \<open>None\<close> in that case.
\<close>

section \<open>State\<close>

record mount_info =
  mi_mounted :: bool
  mi_writable :: bool
  mi_filesystem_name :: string
  mi_block_device :: string
  mi_logical_root_path :: string
  mi_partition_start_lba :: u64
  mi_total_sectors :: u32
  mi_bytes_per_sector :: u32
  mi_sectors_per_cluster :: u8
  mi_fat_count :: u8
  mi_reserved_sector_count :: u16
  mi_sectors_per_fat :: u32
  mi_first_data_sector :: u32
  mi_root_cluster :: u32
  mi_logical_root_cluster :: u32
  mi_fs_info_sector :: u32

record 'w mount_state =
  ms_initialised :: bool
  ms_mounted :: bool
  ms_fs_info_valid :: bool
  ms_device :: "'w block_device option"
  ms_info :: mount_info
  ms_volume_root_cluster :: u32
  ms_total_clusters :: u32
  ms_free_cluster_count :: u32
  ms_next_free_cluster_hint :: u32
  ms_fat_cache_valid :: bool
  ms_fat_cache_first_sector :: u32
  ms_fat_cache_sector_count :: u32
  ms_fat_cache :: "u8 list"
  ms_world :: 'w

definition empty_info :: mount_info where
  "empty_info = \<lparr>mi_mounted = False, mi_writable = False, mi_filesystem_name = [], mi_block_device = [], mi_logical_root_path = [],
     mi_partition_start_lba = 0, mi_total_sectors = 0, mi_bytes_per_sector = 0, mi_sectors_per_cluster = 0, mi_fat_count = 0,
     mi_reserved_sector_count = 0, mi_sectors_per_fat = 0, mi_first_data_sector = 0, mi_root_cluster = 0,
     mi_logical_root_cluster = 0, mi_fs_info_sector = 0\<rparr>"

definition empty_state :: "'w \<Rightarrow> 'w mount_state" where
  "empty_state w = \<lparr>ms_initialised = False, ms_mounted = False, ms_fs_info_valid = False, ms_device = None, ms_info = empty_info,
     ms_volume_root_cluster = 0, ms_total_clusters = 0, ms_free_cluster_count = FAT32_FSINFO_UNKNOWN,
     ms_next_free_cluster_hint = FAT32_FSINFO_UNKNOWN, ms_fat_cache_valid = False, ms_fat_cache_first_sector = 0,
     ms_fat_cache_sector_count = 0, ms_fat_cache = replicate (unat FAT_CACHE_SECTOR_COUNT * 512) 0, ms_world = w\<rparr>"

definition reset_state :: "'w mount_state \<Rightarrow> 'w mount_state" where
  "reset_state st = (empty_state (ms_world st))\<lparr>ms_initialised := True,
     ms_info := empty_info\<lparr>mi_filesystem_name := snd (ss_assign 16 ''fat32''), mi_logical_root_path := snd (ss_assign 64 ''/'')\<rparr>\<rparr>"

section \<open>Sectors and clusters\<close>

definition read_sectors :: "'w mount_state \<Rightarrow> u64 \<Rightarrow> u32 \<Rightarrow> u8 list \<Rightarrow> 'w mount_state \<times> bool \<times> u8 list" where
  "read_sectors st lba count buffer =
     (let (w, ok, buf) = read_blocks (ms_device st) (ms_world st) lba count (Some buffer)
      in (st\<lparr>ms_world := w\<rparr>, ok, the buf))"

definition write_sectors :: "'w mount_state \<Rightarrow> u64 \<Rightarrow> u32 \<Rightarrow> u8 list \<Rightarrow> 'w mount_state \<times> bool" where
  "write_sectors st lba count buffer =
     (let (w, ok) = write_blocks (ms_device st) (ms_world st) lba count (Some buffer)
      in (st\<lparr>ms_world := w\<rparr>, ok))"

text \<open>A local sector buffer, before it is filled.\<close>

abbreviation sector_buffer :: "u8 list" where "sector_buffer \<equiv> replicate 512 0"

definition read_sector :: "'w mount_state \<Rightarrow> u64 \<Rightarrow> 'w mount_state \<times> u8 list option" where
  "read_sector st lba = (let (st, ok, buf) = read_sectors st lba 1 sector_buffer in (st, if ok then Some buf else None))"

definition cluster_first_lba :: "'w mount_state \<Rightarrow> u32 \<Rightarrow> u64" where
  "cluster_first_lba st cluster =
     mi_partition_start_lba (ms_info st) + ucast (mi_first_data_sector (ms_info st))
       + ucast (cluster - 2) * ucast (mi_sectors_per_cluster (ms_info st))"

definition cluster_size_bytes :: "'w mount_state \<Rightarrow> nat" where
  "cluster_size_bytes st = unat (mi_bytes_per_sector (ms_info st)) * unat (mi_sectors_per_cluster (ms_info st))"

definition is_data_cluster :: "u32 \<Rightarrow> bool" where
  "is_data_cluster cluster \<longleftrightarrow> cluster \<ge> 2 \<and> cluster < FAT32_END_OF_CHAIN"

record entry_location =
  el_lba :: u64
  el_offset :: u16

definition write_entry_bytes :: "'w mount_state \<Rightarrow> entry_location \<Rightarrow> u8 list \<Rightarrow> 'w mount_state \<times> bool" where
  "write_entry_bytes st location data =
     (if length data = 0 \<or> unat (el_offset location) + length data > unat (mi_bytes_per_sector (ms_info st)) then (st, False)
      else case read_sector st (el_lba location) of
        (st, None) \<Rightarrow> (st, False)
      | (st, Some sector) \<Rightarrow> write_sectors st (el_lba location) 1 (splice_at sector (unat (el_offset location)) data))"

definition mark_entry_unused :: "'w mount_state \<Rightarrow> entry_location \<Rightarrow> 'w mount_state \<times> bool" where
  "mark_entry_unused st location =
     (case read_sector st (el_lba location) of
        (st, None) \<Rightarrow> (st, False)
      | (st, Some sector) \<Rightarrow> write_sectors st (el_lba location) 1 (sector[unat (el_offset location) := DIR_ENTRY_UNUSED]))"

section \<open>The file allocation table\<close>

definition fat_cache_hit :: "'w mount_state \<Rightarrow> u32 \<Rightarrow> bool" where
  "fat_cache_hit st sector_index \<longleftrightarrow>
     ms_fat_cache_valid st \<and> sector_index \<ge> ms_fat_cache_first_sector st \<and>
     sector_index < ms_fat_cache_first_sector st + ms_fat_cache_sector_count st"

definition fat_cache_offset :: "'w mount_state \<Rightarrow> u32 \<Rightarrow> nat" where
  "fat_cache_offset st sector_index =
     unat ((sector_index - ms_fat_cache_first_sector st) * mi_bytes_per_sector (ms_info st))"

definition fill_fat_cache :: "'w mount_state \<Rightarrow> u32 \<Rightarrow> 'w mount_state \<times> bool" where
  "fill_fat_cache st sector_index =
     (let first_sector = sector_index AND NOT (FAT_CACHE_SECTOR_COUNT - 1);
          sector_count = mi_sectors_per_fat (ms_info st) - first_sector;
          sector_count = (if sector_count > FAT_CACHE_SECTOR_COUNT then FAT_CACHE_SECTOR_COUNT else sector_count);
          (st, ok, cache) = read_sectors st
             (mi_partition_start_lba (ms_info st) + ucast (mi_reserved_sector_count (ms_info st)) + ucast first_sector)
             sector_count (ms_fat_cache st);
          st = st\<lparr>ms_fat_cache := cache\<rparr>
      in if \<not> ok then (st, False)
         else (st\<lparr>ms_fat_cache_first_sector := first_sector, ms_fat_cache_sector_count := sector_count, ms_fat_cache_valid := True\<rparr>, True))"

text \<open>The sector handed out is a position in the cache.\<close>

definition read_cached_fat_sector :: "'w mount_state \<Rightarrow> u32 \<Rightarrow> 'w mount_state \<times> nat option" where
  "read_cached_fat_sector st sector_index =
     (if sector_index \<ge> mi_sectors_per_fat (ms_info st) then (st, None)
      else
        let (st, ok) = (if fat_cache_hit st sector_index then (st, True) else fill_fat_cache st sector_index)
        in if \<not> ok then (st, None) else (st, Some (fat_cache_offset st sector_index)))"

definition read_fat_value :: "'w mount_state \<Rightarrow> u32 \<Rightarrow> 'w mount_state \<times> u32 option" where
  "read_fat_value st cluster =
     (let fat_offset = cluster * 4;
          fat_sector = fat_offset div mi_bytes_per_sector (ms_info st);
          entry_offset = fat_offset mod mi_bytes_per_sector (ms_info st)
      in case read_cached_fat_sector st fat_sector of
           (st, None) \<Rightarrow> (st, None)
         | (st, Some sector) \<Rightarrow> (st, Some (le32 (ms_fat_cache st) (sector + unat entry_offset) AND 0x0FFFFFFF)))"

definition patch_fat_sector :: "u8 list \<Rightarrow> nat \<Rightarrow> u32 \<Rightarrow> u8 list" where
  "patch_fat_sector sector entry_offset v =
     splice_at sector entry_offset (u32_le ((le32 sector entry_offset AND 0xF0000000) OR (v AND 0x0FFFFFFF)))"

definition update_fat_cache :: "'w mount_state \<Rightarrow> u32 \<Rightarrow> u8 list \<Rightarrow> 'w mount_state" where
  "update_fat_cache st fat_sector sector =
     (if fat_cache_hit st fat_sector
      then st\<lparr>ms_fat_cache := splice_at (ms_fat_cache st) (fat_cache_offset st fat_sector) sector\<rparr>
      else st)"

fun write_fat_copies :: "'w mount_state \<Rightarrow> u32 \<Rightarrow> nat \<Rightarrow> u32 \<Rightarrow> u32 list \<Rightarrow> 'w mount_state \<times> bool" where
  "write_fat_copies st fat_sector entry_offset v [] = (st, True)"
| "write_fat_copies st fat_sector entry_offset v (copy_index # copies) =
     (let lba = mi_partition_start_lba (ms_info st) + ucast (mi_reserved_sector_count (ms_info st))
            + ucast (copy_index * mi_sectors_per_fat (ms_info st)) + ucast fat_sector
      in case read_sector st lba of
           (st, None) \<Rightarrow> (st, False)
         | (st, Some sector) \<Rightarrow>
             let sector = patch_fat_sector sector entry_offset v;
                 (st, ok) = write_sectors st lba 1 sector
             in if \<not> ok then (st, False)
                else write_fat_copies (if copy_index = 0 then update_fat_cache st fat_sector sector else st)
                       fat_sector entry_offset v copies)"

definition write_fat_value :: "'w mount_state \<Rightarrow> u32 \<Rightarrow> u32 \<Rightarrow> 'w mount_state \<times> bool" where
  "write_fat_value st cluster v =
     (let fat_offset = cluster * 4;
          fat_sector = fat_offset div mi_bytes_per_sector (ms_info st);
          entry_offset = fat_offset mod mi_bytes_per_sector (ms_info st)
      in write_fat_copies st fat_sector (unat entry_offset) v (map word_of_nat [0..<unat (mi_fat_count (ms_info st))]))"

section \<open>FSInfo\<close>

record FAT32FSInfo =
  fsi_lead_signature :: u32
  fsi_struct_signature :: u32
  fsi_last_known_free_cluster_count :: u32
  fsi_next_free_cluster_hint :: u32
  fsi_trailing_signature :: u32

definition fsinfo_bytes :: "FAT32FSInfo \<Rightarrow> u8 list" where
  "fsinfo_bytes f = u32_le (fsi_lead_signature f) @ replicate 480 0 @ u32_le (fsi_struct_signature f) @
     u32_le (fsi_last_known_free_cluster_count f) @ u32_le (fsi_next_free_cluster_hint f) @ replicate 12 0 @
     u32_le (fsi_trailing_signature f)"

definition fsinfo_at :: "u8 list \<Rightarrow> FAT32FSInfo" where
  "fsinfo_at bs = \<lparr>fsi_lead_signature = le32 bs 0, fsi_struct_signature = le32 bs 484,
     fsi_last_known_free_cluster_count = le32 bs 488, fsi_next_free_cluster_hint = le32 bs 492, fsi_trailing_signature = le32 bs 508\<rparr>"

definition update_fsinfo :: "'w mount_state \<Rightarrow> u32 \<Rightarrow> u32 \<Rightarrow> 'w mount_state \<times> bool" where
  "update_fsinfo st free_cluster_count next_free_hint =
     (if \<not> ms_fs_info_valid st \<or> mi_fs_info_sector (ms_info st) = 0
      then (st\<lparr>ms_free_cluster_count := free_cluster_count, ms_next_free_cluster_hint := next_free_hint\<rparr>, True)
      else
        let fs_info = \<lparr>fsi_lead_signature = FAT32_FSINFO_SIGNATURE_1, fsi_struct_signature = FAT32_FSINFO_SIGNATURE_2,
              fsi_last_known_free_cluster_count = free_cluster_count, fsi_next_free_cluster_hint = next_free_hint,
              fsi_trailing_signature = FAT32_FSINFO_SIGNATURE_3\<rparr>;
            (st, ok) = write_sectors st (mi_partition_start_lba (ms_info st) + ucast (mi_fs_info_sector (ms_info st))) 1 (fsinfo_bytes fs_info)
        in if \<not> ok then (st, False)
           else (st\<lparr>ms_free_cluster_count := free_cluster_count, ms_next_free_cluster_hint := next_free_hint\<rparr>, True))"

section \<open>Allocating and freeing clusters\<close>

text \<open>What the body of the search loop does with one cluster: go on, give up or return it.\<close>

datatype alloc_step = Alloc_next | Alloc_fail | Alloc_got u32

definition try_cluster :: "'w mount_state \<Rightarrow> u32 \<Rightarrow> u32 \<Rightarrow> 'w mount_state \<times> alloc_step" where
  "try_cluster st max_cluster cluster =
     (case read_fat_value st cluster of
        (st, None) \<Rightarrow> (st, Alloc_fail)
      | (st, Some v) \<Rightarrow>
          if v \<noteq> 0 then (st, Alloc_next)
          else
            let (st, ok) = write_fat_value st cluster FAT32_END_OF_CHAIN in
            if \<not> ok then (st, Alloc_fail)
            else
              let free_cluster_count = (if ms_free_cluster_count st = FAT32_FSINFO_UNKNOWN then FAT32_FSINFO_UNKNOWN
                                        else ms_free_cluster_count st - 1);
                  next_hint = cluster + 1;
                  next_hint = (if next_hint < 2 \<or> next_hint > max_cluster then 2 else next_hint);
                  (st, ok) = update_fsinfo st free_cluster_count next_hint
              in if \<not> ok then (st, Alloc_fail) else (st, Alloc_got cluster))"

text \<open>
  The clusters from \<open>cluster\<close> to \<open>max_cluster\<close>. The source's counter would wrap at
  \<open>max_cluster = 0xFFFFFFFF\<close>, which \<open>probe_volume\<close> excludes: the two sectors it requires outside the
  data area leave at most \<open>0xFFFFFFFD\<close> clusters.
\<close>

function alloc_search :: "'w mount_state \<Rightarrow> u32 \<Rightarrow> u32 \<Rightarrow> 'w mount_state \<times> alloc_step" where
  "alloc_search st max_cluster cluster =
     (if cluster > max_cluster then (st, Alloc_next)
      else case try_cluster st max_cluster cluster of
        (st, Alloc_next) \<Rightarrow> if cluster = max_cluster then (st, Alloc_next) else alloc_search st max_cluster (cluster + 1)
      | r \<Rightarrow> r)"
  by pat_completeness auto
termination
proof (relation "measure (\<lambda>(_, max_cluster, cluster). unat max_cluster - unat cluster)")
  fix st st' :: "'w mount_state" and max_cluster cluster :: u32
  assume "\<not> max_cluster < cluster" "cluster \<noteq> max_cluster"
  then have lt: "unat cluster < unat max_cluster" by (simp add: word_less_nat_alt [symmetric])
  have "unat cluster + unat (1 :: u32) < 2 ^ LENGTH(32)" using lt unat_less_exp [of max_cluster] by simp
  then have "unat (cluster + 1) = unat cluster + 1" using unat_plus_nw [of cluster "1 :: u32"] by simp
  then show "((st', max_cluster, cluster + 1), st, max_cluster, cluster)
      \<in> measure (\<lambda>(_, max_cluster, cluster). unat max_cluster - unat cluster)"
    using lt by simp
qed simp

declare alloc_search.simps [simp del]

definition allocate_cluster :: "'w mount_state \<Rightarrow> 'w mount_state \<times> u32 option" where
  "allocate_cluster st =
     (let max_cluster = ms_total_clusters st + 1;
          start_cluster = ms_next_free_cluster_hint st;
          start_cluster = (if start_cluster < 2 \<or> start_cluster > max_cluster then 2 else start_cluster)
      in case alloc_search st max_cluster start_cluster of
           (st, Alloc_got c) \<Rightarrow> (st, Some c)
         | (st, Alloc_fail) \<Rightarrow> (st, None)
         | (st, Alloc_next) \<Rightarrow>
             (case alloc_search st max_cluster 2 of
                (st, Alloc_got c) \<Rightarrow> (st, Some c)
              | (st, _) \<Rightarrow> (st, None)))"

partial_function (option) free_loop :: "'w mount_state \<Rightarrow> u32 \<Rightarrow> u32 \<Rightarrow> ('w mount_state \<times> u32 option) option" where
  "free_loop st current freed =
     (if \<not> is_data_cluster current then Some (st, Some freed)
      else case read_fat_value st current of
        (st, None) \<Rightarrow> Some (st, None)
      | (st, Some nxt) \<Rightarrow>
          let (st, ok) = write_fat_value st current 0 in
          if \<not> ok then Some (st, None)
          else if nxt < 2 \<or> nxt \<ge> FAT32_END_OF_CHAIN then Some (st, Some (freed + 1))
          else free_loop st nxt (freed + 1))"

declare free_loop.simps [code]

definition free_cluster_chain :: "'w mount_state \<Rightarrow> u32 \<Rightarrow> ('w mount_state \<times> bool) option" where
  "free_cluster_chain st first_cluster_value =
     (if first_cluster_value < 2 \<or> first_cluster_value \<ge> FAT32_END_OF_CHAIN then Some (st, True)
      else do {
        (st, r) \<leftarrow> free_loop st first_cluster_value 0;
        case r of
          None \<Rightarrow> Some (st, False)
        | Some freed \<Rightarrow>
            let free_cluster_count = (if ms_free_cluster_count st = FAT32_FSINFO_UNKNOWN then FAT32_FSINFO_UNKNOWN
                                      else ms_free_cluster_count st + freed);
                next_hint = (if ms_next_free_cluster_hint st = FAT32_FSINFO_UNKNOWN then first_cluster_value
                             else if first_cluster_value < ms_next_free_cluster_hint st then first_cluster_value
                             else ms_next_free_cluster_hint st)
            in Some (update_fsinfo st free_cluster_count next_hint)
      })"

fun zero_sectors :: "'w mount_state \<Rightarrow> u32 \<Rightarrow> nat list \<Rightarrow> 'w mount_state \<times> bool" where
  "zero_sectors st cluster [] = (st, True)"
| "zero_sectors st cluster (i # is) =
     (let (st, ok) = write_sectors st (cluster_first_lba st cluster + word_of_nat i) 1 (replicate 512 0)
      in if \<not> ok then (st, False) else zero_sectors st cluster is)"

definition zero_cluster :: "'w mount_state \<Rightarrow> u32 \<Rightarrow> 'w mount_state \<times> bool" where
  "zero_cluster st cluster = zero_sectors st cluster [0..<unat (mi_sectors_per_cluster (ms_info st))]"

definition append_directory_cluster :: "'w mount_state \<Rightarrow> u32 \<Rightarrow> ('w mount_state \<times> u32 option) option" where
  "append_directory_cluster st last_cluster =
     (case allocate_cluster st of
        (st, None) \<Rightarrow> Some (st, None)
      | (st, Some new_cluster) \<Rightarrow>
          let (st, ok) = zero_cluster st new_cluster in
          if \<not> ok then do { (st, _) \<leftarrow> free_cluster_chain st new_cluster; Some (st, None) }
          else
            let (st, ok) = write_fat_value st last_cluster new_cluster in
            if \<not> ok then do { (st, _) \<leftarrow> free_cluster_chain st new_cluster; Some (st, None) }
            else Some (st, Some new_cluster))"

end
