(* ===== verification/FatDir.thy ===== *)
theory FatDir
  imports FatVol
begin

text \<open>
  Directories of src/fs/fat32.cpp: the scan over the entries of a directory's clusters, which
  gathers long names and calls back for every entry, lookup by name, the resolution of paths, and
  the search for free slots. A callback of the source captures variables by reference; here it maps
  their values to new ones and says whether the scan stops.
\<close>

section \<open>Scanning a directory\<close>

record directory_entry_ref =
  der_entry :: FATEntry
  der_location :: entry_location
  der_lfn_locations :: "entry_location list"
  der_name :: string

type_synonym pending_lfn = "(FATLongFileNameEntry \<times> entry_location) list"

definition pending_push :: "pending_lfn \<Rightarrow> FATLongFileNameEntry \<Rightarrow> entry_location \<Rightarrow> pending_lfn" where
  "pending_push pending e location = (if length pending \<ge> MAX_LFN_ENTRIES then [] else pending @ [(e, location)])"

text \<open>What the loop body does with one entry: end the scan, skip it, or report it.\<close>

datatype scan_step = Scan_end | Scan_skip pending_lfn | Scan_report directory_entry_ref

definition entry_ref :: "FATEntry \<Rightarrow> entry_location \<Rightarrow> pending_lfn \<Rightarrow> directory_entry_ref option" where
  "entry_ref raw location pending =
     (let r = \<lparr>der_entry = raw, der_location = location, der_lfn_locations = map snd pending, der_name = []\<rparr> in
      case decode_lfn_name raw (map fst pending) of
        (True, name) \<Rightarrow> Some (r\<lparr>der_name := name\<rparr>)
      | (False, _) \<Rightarrow>
         (case decode_short_name raw of
            (True, name) \<Rightarrow> Some (r\<lparr>der_name := name\<rparr>)
          | (False, _) \<Rightarrow> None))"

definition scan_entry :: "u8 list \<Rightarrow> u64 \<Rightarrow> nat \<Rightarrow> pending_lfn \<Rightarrow> scan_step" where
  "scan_entry sector lba entry_index pending =
     (let location = \<lparr>el_lba = lba, el_offset = word_of_nat (entry_index * 32)\<rparr>;
          raw = fat_entry_at sector (unat (el_offset location));
          first_byte = sector ! unat (el_offset location)
      in if first_byte = DIR_ENTRY_END then Scan_end
         else if first_byte = DIR_ENTRY_UNUSED then Scan_skip []
         else if fat_attributes raw = ATTR_LONG_FILE_NAME then
           Scan_skip (pending_push pending (lfn_entry_at sector (unat (el_offset location))) location)
         else if fat_attributes raw AND ATTR_VOLUME_ID \<noteq> 0 \<and> fat_attributes raw AND ATTR_DIRECTORY = 0 then Scan_skip []
         else case entry_ref raw location pending of
             None \<Rightarrow> Scan_skip []
           | Some r \<Rightarrow> Scan_report r)"

type_synonym 'a callback = "'a \<Rightarrow> directory_entry_ref \<Rightarrow> 'a \<times> bool"

text \<open>The entries of one sector; the result says whether the scan is over.\<close>

fun scan_entries :: "'a callback \<Rightarrow> u8 list \<Rightarrow> u64 \<Rightarrow> nat list \<Rightarrow> pending_lfn \<Rightarrow> 'a \<Rightarrow> pending_lfn \<times> 'a \<times> bool" where
  "scan_entries callback sector lba [] pending acc = (pending, acc, False)"
| "scan_entries callback sector lba (i # is) pending acc =
     (case scan_entry sector lba i pending of
        Scan_end \<Rightarrow> (pending, acc, True)
      | Scan_skip pending \<Rightarrow> scan_entries callback sector lba is pending acc
      | Scan_report r \<Rightarrow>
          let (acc, stop) = callback acc r in
          if stop then ([], acc, True) else scan_entries callback sector lba is [] acc)"

definition entries_per_sector :: "'w mount_state \<Rightarrow> nat" where
  "entries_per_sector st = unat (mi_bytes_per_sector (ms_info st)) div 32"

text \<open>The sectors of one cluster: \<open>None\<close> for a failed read, otherwise the scan's state.\<close>

fun scan_sectors :: "'a callback \<Rightarrow> 'w mount_state \<Rightarrow> u32 \<Rightarrow> nat list \<Rightarrow> pending_lfn \<Rightarrow> 'a \<Rightarrow>
    'w mount_state \<times> 'a \<times> (pending_lfn \<times> bool) option" where
  "scan_sectors callback st cluster [] pending acc = (st, acc, Some (pending, False))"
| "scan_sectors callback st cluster (i # is) pending acc =
     (let lba = cluster_first_lba st cluster + word_of_nat i in
      case read_sector st lba of
        (st, None) \<Rightarrow> (st, acc, None)
      | (st, Some sector) \<Rightarrow>
          let (pending, acc, stop) = scan_entries callback sector lba [0..<entries_per_sector st] pending acc in
          if stop then (st, acc, Some (pending, True)) else scan_sectors callback st cluster is pending acc)"

partial_function (option) scan_loop ::
  "'a callback \<Rightarrow> 'w mount_state \<Rightarrow> u32 \<Rightarrow> pending_lfn \<Rightarrow> 'a \<Rightarrow> ('w mount_state \<times> 'a \<times> bool) option" where
  "scan_loop callback st cluster pending acc =
     (if \<not> is_data_cluster cluster then Some (st, acc, True)
      else case scan_sectors callback st cluster [0..<unat (mi_sectors_per_cluster (ms_info st))] pending acc of
        (st, acc, None) \<Rightarrow> Some (st, acc, False)
      | (st, acc, Some (pending, stop)) \<Rightarrow>
          if stop then Some (st, acc, True)
          else case read_fat_value st cluster of
            (st, None) \<Rightarrow> Some (st, acc, False)
          | (st, Some next_cluster) \<Rightarrow>
              if next_cluster < 2 \<or> next_cluster \<ge> FAT32_END_OF_CHAIN then Some (st, acc, True)
              else scan_loop callback st next_cluster pending acc)"

declare scan_loop.simps [code]

definition scan_directory :: "'a callback \<Rightarrow> 'w mount_state \<Rightarrow> u32 \<Rightarrow> 'a \<Rightarrow> ('w mount_state \<times> 'a \<times> bool) option" where
  "scan_directory callback st directory_cluster acc =
     (if directory_cluster < 2 then Some (st, acc, False) else scan_loop callback st directory_cluster [] acc)"

definition find_in_directory :: "'w mount_state \<Rightarrow> u32 \<Rightarrow> string \<Rightarrow> ('w mount_state \<times> directory_entry_ref option) option" where
  "find_in_directory st directory_cluster name = do {
     (st, found, ok) \<leftarrow> scan_directory
        (\<lambda>found entry. if sv_compare name (der_name entry) then (Some entry, True) else (found, False)) st directory_cluster None;
     Some (st, if ok then found else None)
   }"

section \<open>Paths\<close>

lemma next_path_component_shorter: "next_path_component path = Some (c, rest) \<Longrightarrow> length rest < length path"
proof -
  assume a: "next_path_component path = Some (c, rest)"
  let ?r = "dropWhile fat_is_separator path"
  from a have r: "?r \<noteq> []" "rest = dropWhile (\<lambda>c. \<not> fat_is_separator c) ?r"
    by (auto simp: next_path_component_def Let_def split: if_splits)
  then obtain x xs where x: "?r = x # xs" "\<not> fat_is_separator x" by (metis hd_dropWhile list.exhaust_sel)
  then have "length rest \<le> length xs" using r(2) by (simp add: length_dropWhile_le)
  also have "\<dots> < length ?r" using x by simp
  also have "\<dots> \<le> length path" by (rule length_dropWhile_le)
  finally show ?thesis .
qed

function resolve_components :: "'w mount_state \<Rightarrow> u32 \<Rightarrow> string \<Rightarrow> ('w mount_state \<times> directory_entry_ref option) option" where
  "resolve_components st current_cluster path =
     (case next_path_component path of
        None \<Rightarrow> Some (st, None)
      | Some (component, rest) \<Rightarrow>
          if sv_compare component ''.'' then resolve_components st current_cluster rest
          else do {
            (st, r) \<leftarrow> find_in_directory st current_cluster component;
            case r of
              None \<Rightarrow> Some (st, None)
            | Some current_entry \<Rightarrow>
                (case next_path_component rest of
                   None \<Rightarrow> Some (st, Some current_entry)
                 | Some _ \<Rightarrow>
                     if \<not> is_directory (der_entry current_entry) then Some (st, None)
                     else if first_cluster (der_entry current_entry) < 2 then Some (st, None)
                     else resolve_components st (first_cluster (der_entry current_entry)) rest)
          })"
  by pat_completeness auto
termination by (relation "measure (\<lambda>(_, _, path). length path)") (auto dest: next_path_component_shorter)

definition clean_path :: "string \<Rightarrow> string" where
  "clean_path raw_path = trim_trailing_separators (normalize_path raw_path)"

definition resolve_path_from_cluster :: "'w mount_state \<Rightarrow> u32 \<Rightarrow> string \<Rightarrow> ('w mount_state \<times> directory_entry_ref option) option" where
  "resolve_path_from_cluster st start_cluster raw_path = resolve_components st start_cluster (clean_path raw_path)"

definition resolve_path :: "'w mount_state \<Rightarrow> string \<Rightarrow> ('w mount_state \<times> directory_entry_ref option) option" where
  "resolve_path st raw_path =
     (let path = clean_path raw_path in
      if path = [] then Some (st, None)
      else if is_absolute_path path then
        let path = dropWhile fat_is_separator path in
        if path = [] then Some (st, None)
        else resolve_path_from_cluster st (mi_logical_root_cluster (ms_info st)) path
      else resolve_path_from_cluster st (mi_logical_root_cluster (ms_info st)) path)"

definition resolve_directory_cluster :: "'w mount_state \<Rightarrow> string \<Rightarrow> ('w mount_state \<times> u32 option) option" where
  "resolve_directory_cluster st raw_path =
     (let path = clean_path raw_path;
          root = mi_logical_root_cluster (ms_info st);
          root_result = Some (st, if root \<ge> 2 then Some root else None)
      in if path = [] \<or> sv_compare path ''.'' then root_result
         else if is_absolute_path path \<and> dropWhile fat_is_separator path = [] then root_result
         else do {
           (st, r) \<leftarrow> resolve_path st raw_path;
           case r of
             None \<Rightarrow> Some (st, None)
           | Some entry \<Rightarrow>
               if \<not> is_directory (der_entry entry) then Some (st, None)
               else Some (st, if first_cluster (der_entry entry) \<ge> 2 then Some (first_cluster (der_entry entry)) else None)
         })"

definition resolve_parent_directory :: "'w mount_state \<Rightarrow> string \<Rightarrow> ('w mount_state \<times> (u32 \<times> string) option) option" where
  "resolve_parent_directory st raw_path =
     (let path = clean_path raw_path;
          root = mi_logical_root_cluster (ms_info st);
          finish = (\<lambda>st cluster leaf. Some (st, case ss_assign 256 leaf of (True, name) \<Rightarrow> Some (cluster, name) | (False, _) \<Rightarrow> None));
          last_separator = last_index fat_is_separator path 0 (length path)
      in if path = [] then Some (st, None)
         else if last_separator \<ge> length path then finish st root path
         else
           let leaf = drop (last_separator + 1) path in
           if leaf = [] then Some (st, None)
           else if last_separator = 0 then finish st root leaf
           else do {
             (st, r) \<leftarrow> resolve_path st (take last_separator path);
             case r of
               None \<Rightarrow> Some (st, None)
             | Some parent \<Rightarrow>
                 if \<not> is_directory (der_entry parent) then Some (st, None)
                 else finish st (first_cluster (der_entry parent)) leaf
           })"

section \<open>New entries\<close>

definition sfn_exists :: "'w mount_state \<Rightarrow> u32 \<Rightarrow> string \<Rightarrow> ('w mount_state \<times> bool) option" where
  "sfn_exists st directory_cluster alias = do {
     (st, found, _) \<leftarrow> scan_directory
       (\<lambda>found entry. if fat_filename (der_entry entry) @ fat_extension (der_entry entry) = alias then (True, True) else (found, False))
       st directory_cluster False;
     Some (st, found)
   }"

fun unique_search :: "'w mount_state \<Rightarrow> u32 \<Rightarrow> string \<Rightarrow> string \<Rightarrow> u32 list \<Rightarrow> ('w mount_state \<times> string option) option" where
  "unique_search st directory_cluster base extension [] = Some (st, None)"
| "unique_search st directory_cluster base extension (unique # us) = do {
     let alias = sfn_alias base extension unique;
     (st, found) \<leftarrow> sfn_exists st directory_cluster alias;
     if found then unique_search st directory_cluster base extension us else Some (st, Some alias)
   }"

definition generate_unique_sfn :: "'w mount_state \<Rightarrow> u32 \<Rightarrow> string \<Rightarrow> FATEntry \<Rightarrow> ('w mount_state \<times> FATEntry option) option" where
  "generate_unique_sfn st directory_cluster name entry = do {
     (st, alias) \<leftarrow> unique_search st directory_cluster (sfn_base name) (sfn_extension name) (map word_of_nat [1..<1000]);
     Some (st, map_option (\<lambda>alias. entry\<lparr>fat_filename := take 8 alias, fat_extension := drop 8 alias\<rparr>) alias)
   }"

definition build_file_entry ::
  "'w mount_state \<Rightarrow> u32 \<Rightarrow> string \<Rightarrow> ('w mount_state \<times> (FATEntry \<times> FATLongFileNameEntry list) option) option" where
  "build_file_entry st directory_cluster name =
     (let entry = zero_entry\<lparr>fat_attributes := ATTR_ARCHIVE\<rparr> in
      if is_valid_sfn_name name then
        Some (st, Some ((encode_sfn entry name)\<lparr>fat_case_info := encode_case_info name\<rparr>, []))
      else do {
        (st, r) \<leftarrow> generate_unique_sfn st directory_cluster name entry;
        Some (st, case r of
            None \<Rightarrow> None
          | Some entry \<Rightarrow> map_option (\<lambda>lfn. (entry, lfn)) (create_lfn_entries name (lfn_checksum entry)))
      })"

text \<open>The free slots of one sector: either the run that was asked for, or the run so far.\<close>

fun slot_entries :: "u8 list \<Rightarrow> u64 \<Rightarrow> nat \<Rightarrow> nat list \<Rightarrow> bool \<Rightarrow> entry_location list \<Rightarrow> bool \<times> entry_location list \<times> bool" where
  "slot_entries sector lba needed [] end_zone run = (end_zone, run, False)"
| "slot_entries sector lba needed (i # is) end_zone run =
     (let location = \<lparr>el_lba = lba, el_offset = word_of_nat (i * 32)\<rparr>;
          first_byte = sector ! unat (el_offset location);
          free_slot = end_zone \<or> first_byte = DIR_ENTRY_END \<or> first_byte = DIR_ENTRY_UNUSED;
          end_zone = (end_zone \<or> first_byte = DIR_ENTRY_END)
      in if free_slot then
           let run = run @ [location] in
           if length run = needed then (end_zone, run, True) else slot_entries sector lba needed is end_zone run
         else slot_entries sector lba needed is end_zone [])"

fun slot_sectors :: "'w mount_state \<Rightarrow> u32 \<Rightarrow> nat \<Rightarrow> nat list \<Rightarrow> bool \<Rightarrow> entry_location list \<Rightarrow>
    'w mount_state \<times> (bool \<times> entry_location list \<times> bool) option" where
  "slot_sectors st cluster needed [] end_zone run = (st, Some (end_zone, run, False))"
| "slot_sectors st cluster needed (i # is) end_zone run =
     (let lba = cluster_first_lba st cluster + word_of_nat i in
      case read_sector st lba of
        (st, None) \<Rightarrow> (st, None)
      | (st, Some sector) \<Rightarrow>
          let (end_zone, run, complete) = slot_entries sector lba needed [0..<entries_per_sector st] end_zone run in
          if complete then (st, Some (end_zone, run, True)) else slot_sectors st cluster needed is end_zone run)"

partial_function (option) slot_loop ::
  "'w mount_state \<Rightarrow> u32 \<Rightarrow> nat \<Rightarrow> bool \<Rightarrow> entry_location list \<Rightarrow> ('w mount_state \<times> entry_location list option) option" where
  "slot_loop st cluster needed end_zone run =
     (if \<not> is_data_cluster cluster then Some (st, None)
      else case slot_sectors st cluster needed [0..<unat (mi_sectors_per_cluster (ms_info st))] end_zone run of
        (st, None) \<Rightarrow> Some (st, None)
      | (st, Some (end_zone, run, complete)) \<Rightarrow>
          if complete then Some (st, Some run)
          else case read_fat_value st cluster of
            (st, None) \<Rightarrow> Some (st, None)
          | (st, Some next_cluster) \<Rightarrow>
              if next_cluster < 2 \<or> next_cluster \<ge> FAT32_END_OF_CHAIN then do {
                (st, r) \<leftarrow> append_directory_cluster st cluster;
                case r of
                  None \<Rightarrow> Some (st, None)
                | Some new_cluster \<Rightarrow> slot_loop st new_cluster needed True run
              }
              else slot_loop st next_cluster needed end_zone run)"

declare slot_loop.simps [code]

definition allocate_directory_slots :: "'w mount_state \<Rightarrow> u32 \<Rightarrow> nat \<Rightarrow> ('w mount_state \<times> entry_location list option) option" where
  "allocate_directory_slots st directory_cluster needed =
     (if directory_cluster < 2 \<or> needed = 0 \<or> needed > MAX_DIRECTORY_SLOTS then Some (st, None)
      else slot_loop st directory_cluster needed False [])"

end
