(* ===== verification/FatFile.thy ===== *)
theory FatFile
  imports FatDir
begin

text \<open>
  File contents and the operations of src/fs/fat32.cpp the rest of the kernel calls: reading whole
  files into a block of the kernel heap and ranges into a caller's buffer, writing and removing
  files, probing and mounting a volume. Sizes and offsets are natural numbers (all of them are below
  \<open>2 ^ 64\<close>: a file has at most \<open>2 ^ 32\<close> bytes). A buffer is the list of its bytes.
\<close>

section \<open>Reading clusters\<close>

record cluster_run =
  cr_first_cluster :: u32
  cr_last_cluster :: u32
  cr_cluster_count :: u32
  cr_next_cluster :: u32

fun collect_loop :: "'w mount_state \<Rightarrow> cluster_run \<Rightarrow> nat \<Rightarrow> 'w mount_state \<times> cluster_run option" where
  "collect_loop st run 0 = (st, Some run)"
| "collect_loop st run (Suc n) =
     (case read_fat_value st (cr_last_cluster run) of
        (st, None) \<Rightarrow> (st, None)
      | (st, Some candidate) \<Rightarrow>
          if candidate \<noteq> cr_last_cluster run + 1 then (st, Some (run\<lparr>cr_next_cluster := candidate\<rparr>))
          else collect_loop st (run\<lparr>cr_last_cluster := candidate, cr_cluster_count := cr_cluster_count run + 1\<rparr>) n)"

definition collect_cluster_run :: "'w mount_state \<Rightarrow> u32 \<Rightarrow> nat \<Rightarrow> 'w mount_state \<times> cluster_run option" where
  "collect_cluster_run st first max_cluster_count =
     (if \<not> is_data_cluster first \<or> max_cluster_count = 0 then (st, None)
      else collect_loop st \<lparr>cr_first_cluster = first, cr_last_cluster = first, cr_cluster_count = 1, cr_next_cluster = FAT32_END_OF_CHAIN\<rparr>
             (max_cluster_count - 1))"

text \<open>A read of sectors to a position inside a buffer.\<close>

definition read_sectors_at :: "'w mount_state \<Rightarrow> u64 \<Rightarrow> u32 \<Rightarrow> u8 list \<Rightarrow> nat \<Rightarrow> 'w mount_state \<times> bool \<times> u8 list" where
  "read_sectors_at st lba count buffer pos =
     (let (st, ok, tail) = read_sectors st lba count (drop pos buffer) in (st, ok, take pos buffer @ tail))"

definition read_head :: "'w mount_state \<Rightarrow> u64 \<Rightarrow> nat \<Rightarrow> u8 list \<Rightarrow> nat \<Rightarrow> 'w mount_state \<times> bool \<times> u8 list \<times> nat \<times> u64" where
  "read_head st lba sector_offset buffer n =
     (if sector_offset = 0 then (st, True, buffer, 0, lba)
      else case read_sector st lba of
        (st, None) \<Rightarrow> (st, False, buffer, 0, lba)
      | (st, Some sector) \<Rightarrow>
          let first_chunk = unat (mi_bytes_per_sector (ms_info st)) - sector_offset;
              first_chunk = (if first_chunk > n then n else first_chunk)
          in (st, True, splice_at buffer 0 (take first_chunk (drop sector_offset sector)), first_chunk, lba + 1))"

definition read_whole :: "'w mount_state \<Rightarrow> u64 \<Rightarrow> u8 list \<Rightarrow> nat \<Rightarrow> nat \<Rightarrow> 'w mount_state \<times> bool \<times> u8 list \<times> nat \<times> u64" where
  "read_whole st lba buffer copied n =
     (let sector_bytes = unat (mi_bytes_per_sector (ms_info st));
          whole_sectors = (n - copied) div sector_bytes
      in if whole_sectors > 0 then
           let (st, ok, buffer) = read_sectors_at st lba (word_of_nat whole_sectors) buffer copied
           in (st, ok, buffer, copied + whole_sectors * sector_bytes, lba + word_of_nat whole_sectors)
         else (st, True, buffer, copied, lba))"

definition read_tail :: "'w mount_state \<Rightarrow> u64 \<Rightarrow> u8 list \<Rightarrow> nat \<Rightarrow> nat \<Rightarrow> 'w mount_state \<times> bool \<times> u8 list" where
  "read_tail st lba buffer copied n =
     (let tail_bytes = n - copied in
      if tail_bytes > 0 then
        (case read_sector st lba of
           (st, None) \<Rightarrow> (st, False, buffer)
         | (st, Some sector) \<Rightarrow> (st, True, splice_at buffer copied (take tail_bytes sector)))
      else (st, True, buffer))"

definition read_cluster_bytes :: "'w mount_state \<Rightarrow> u32 \<Rightarrow> nat \<Rightarrow> u8 list \<Rightarrow> nat \<Rightarrow> 'w mount_state \<times> bool \<times> u8 list" where
  "read_cluster_bytes st cluster cluster_offset buffer n =
     (if n = 0 then (st, True, buffer)
      else if \<not> is_data_cluster cluster then (st, False, buffer)
      else
        let cluster_bytes = cluster_size_bytes st;
            sector_bytes = unat (mi_bytes_per_sector (ms_info st))
        in if cluster_offset \<ge> cluster_bytes \<or> n > cluster_bytes - cluster_offset then (st, False, buffer)
           else
             let lba = cluster_first_lba st cluster + word_of_nat (cluster_offset div sector_bytes);
                 (st, ok, buffer, copied, lba) = read_head st lba (cluster_offset mod sector_bytes) buffer n
             in if \<not> ok then (st, False, buffer)
                else
                  let (st, ok, buffer, copied, lba) = read_whole st lba buffer copied n
                  in if \<not> ok then (st, False, buffer) else read_tail st lba buffer copied n)"

text \<open>The cluster bytes read to a position inside a buffer.\<close>

definition read_cluster_bytes_at :: "'w mount_state \<Rightarrow> u32 \<Rightarrow> nat \<Rightarrow> u8 list \<Rightarrow> nat \<Rightarrow> nat \<Rightarrow> 'w mount_state \<times> bool \<times> u8 list" where
  "read_cluster_bytes_at st cluster cluster_offset buffer pos n =
     (let (st, ok, tail) = read_cluster_bytes st cluster cluster_offset (drop pos buffer) n in (st, ok, take pos buffer @ tail))"

section \<open>Reading files\<close>

text \<open>The loop of \<open>read_file_data\<close>: the buffer and whether all bytes arrived.\<close>

partial_function (option) read_loop :: "'w mount_state \<Rightarrow> nat \<Rightarrow> u32 \<Rightarrow> u8 list \<Rightarrow> nat \<Rightarrow> ('w mount_state \<times> u8 list option) option" where
  "read_loop st size_out cluster buffer copied =
     (if \<not> (is_data_cluster cluster \<and> copied < size_out) then Some (st, if copied \<noteq> size_out then None else Some buffer)
      else
        let cluster_bytes = cluster_size_bytes st;
            remaining = size_out - copied
        in if remaining \<ge> cluster_bytes then
             (case collect_cluster_run st cluster (remaining div cluster_bytes) of
                (st, None) \<Rightarrow> Some (st, None)
              | (st, Some run) \<Rightarrow>
                  let run_sector_count = cr_cluster_count run * ucast (mi_sectors_per_cluster (ms_info st));
                      (st, ok, buffer) = read_sectors_at st (cluster_first_lba st (cr_first_cluster run)) run_sector_count buffer copied;
                      copied = copied + unat (cr_cluster_count run) * cluster_bytes
                  in if \<not> ok then Some (st, None)
                     else if copied \<ge> size_out then Some (st, if copied \<noteq> size_out then None else Some buffer)
                     else
                       (case (if \<not> is_data_cluster (cr_next_cluster run) then read_fat_value st (cr_last_cluster run)
                              else (st, Some (cr_next_cluster run))) of
                          (st, None) \<Rightarrow> Some (st, None)
                        | (st, Some next_cluster) \<Rightarrow>
                            if \<not> is_data_cluster next_cluster then Some (st, None)
                            else read_loop st size_out next_cluster buffer copied))
           else
             let (st, ok, buffer) = read_cluster_bytes_at st cluster 0 buffer copied remaining
             in Some (st, if ok then Some buffer else None))"

declare read_loop.simps [code]

text \<open>
  \<open>read_file_data\<close> gives the address of the heap block that holds the file, or the static marker
  \<open>s_empty_file_marker\<close> for an empty file, and the size.
\<close>

datatype file_data = Empty_marker | Owned u64

definition read_file_data ::
  "'w mount_state \<Rightarrow> kmemory \<Rightarrow> FATEntry \<Rightarrow> ('w mount_state \<times> kmemory \<times> (file_data \<times> nat) option) option" where
  "read_file_data st km entry =
     (let size_out = unat (fat_file_size entry);
          first = first_cluster entry
      in if size_out = 0 then Some (st, km, Some (Empty_marker, 0))
         else if first < 2 \<or> first \<ge> FAT32_END_OF_CHAIN then Some (st, km, None)
         else do {
           (km, p) \<leftarrow> kh_allocate km (word_of_nat size_out);
           if p = 0 then Some (st, km, None)
           else do {
             (st, r) \<leftarrow> read_loop st size_out first (map (\<lambda>i. kh_mem (km_heap km) (p + word_of_nat i)) [0..<size_out]) 0;
             case r of
               None \<Rightarrow> Some (st, kh_free km p, None)
             | Some bytes \<Rightarrow>
                 Some (st, km\<lparr>km_heap := (km_heap km)\<lparr>kh_mem := write_bytes (kh_mem (km_heap km)) p bytes\<rparr>\<rparr>, Some (Owned p, size_out))
           }
         })"

record file_descriptor =
  fd_valid :: bool
  fd_first_cluster :: u32
  fd_size :: nat
  fd_cluster_cache_valid :: bool
  fd_cluster_cache_index :: nat
  fd_cluster_cache_value :: u32

definition empty_descriptor :: file_descriptor where
  "empty_descriptor = \<lparr>fd_valid = False, fd_first_cluster = 0, fd_size = 0, fd_cluster_cache_valid = False,
     fd_cluster_cache_index = 0, fd_cluster_cache_value = 0\<rparr>"

definition build_file_descriptor :: "FATEntry \<Rightarrow> file_descriptor option" where
  "build_file_descriptor entry =
     (if is_directory entry then None
      else
        let file = empty_descriptor\<lparr>fd_valid := True, fd_first_cluster := first_cluster entry, fd_size := unat (fat_file_size entry)\<rparr>
        in if fd_size file > 0 \<and> (fd_first_cluster file < 2 \<or> fd_first_cluster file \<ge> FAT32_END_OF_CHAIN) then None else Some file)"

fun walk_chain :: "'w mount_state \<Rightarrow> u32 \<Rightarrow> nat \<Rightarrow> 'w mount_state \<times> u32 option" where
  "walk_chain st cluster 0 = (st, Some cluster)"
| "walk_chain st cluster (Suc n) =
     (case read_fat_value st cluster of
        (st, None) \<Rightarrow> (st, None)
      | (st, Some next_cluster) \<Rightarrow>
          if next_cluster < 2 \<or> next_cluster \<ge> FAT32_END_OF_CHAIN then (st, None) else walk_chain st next_cluster n)"

definition cluster_for_file_offset ::
  "'w mount_state \<Rightarrow> file_descriptor \<Rightarrow> nat \<Rightarrow> 'w mount_state \<times> file_descriptor \<times> u32 option" where
  "cluster_for_file_offset st file cluster_index =
     (if \<not> fd_valid file \<or> fd_size file = 0 then (st, file, None)
      else
        let (cluster, current_index) =
              (if fd_cluster_cache_valid file \<and> fd_cluster_cache_index file \<le> cluster_index
               then (fd_cluster_cache_value file, fd_cluster_cache_index file) else (fd_first_cluster file, 0))
        in case walk_chain st cluster (cluster_index - current_index) of
             (st, None) \<Rightarrow> (st, file, None)
           | (st, Some cluster) \<Rightarrow>
               (st, file\<lparr>fd_cluster_cache_valid := True, fd_cluster_cache_index := cluster_index, fd_cluster_cache_value := cluster\<rparr>, Some cluster))"

partial_function (option) range_loop ::
  "'w mount_state \<Rightarrow> file_descriptor \<Rightarrow> nat \<Rightarrow> nat \<Rightarrow> u8 list \<Rightarrow> nat \<Rightarrow> ('w mount_state \<times> file_descriptor \<times> u8 list \<times> nat \<times> bool) option" where
  "range_loop st file offset remaining buffer size_out =
     (if \<not> size_out < remaining then Some (st, file, buffer, size_out, True)
      else
        let cluster_bytes = cluster_size_bytes st;
            absolute_offset = offset + size_out;
            cluster_index = absolute_offset div cluster_bytes;
            cluster_offset = absolute_offset mod cluster_bytes
        in case cluster_for_file_offset st file cluster_index of
             (st, file, None) \<Rightarrow> Some (st, file, buffer, size_out, False)
           | (st, file, Some cluster) \<Rightarrow>
               let bytes_left = remaining - size_out in
               if cluster_offset = 0 \<and> bytes_left \<ge> cluster_bytes then
                 (case collect_cluster_run st cluster (bytes_left div cluster_bytes) of
                    (st, None) \<Rightarrow> Some (st, file, buffer, size_out, False)
                  | (st, Some run) \<Rightarrow>
                      let run_sector_count = cr_cluster_count run * ucast (mi_sectors_per_cluster (ms_info st));
                          (st, ok, buffer) = read_sectors_at st (cluster_first_lba st (cr_first_cluster run)) run_sector_count buffer size_out
                      in if \<not> ok then Some (st, file, buffer, size_out, False)
                         else
                           let size_out = size_out + unat (cr_cluster_count run) * cluster_bytes;
                               file = (if is_data_cluster (cr_next_cluster run) \<and> size_out < remaining
                                  then file\<lparr>fd_cluster_cache_valid := True, fd_cluster_cache_index := cluster_index + unat (cr_cluster_count run),
                                            fd_cluster_cache_value := cr_next_cluster run\<rparr>
                                  else file\<lparr>fd_cluster_cache_valid := True, fd_cluster_cache_index := cluster_index + unat (cr_cluster_count run) - 1,
                                            fd_cluster_cache_value := cr_last_cluster run\<rparr>)
                           in range_loop st file offset remaining buffer size_out)
               else
                 let chunk = cluster_bytes - cluster_offset;
                     chunk = (if chunk > bytes_left then bytes_left else chunk);
                     (st, ok, buffer) = read_cluster_bytes_at st cluster cluster_offset buffer size_out chunk
                 in if \<not> ok then Some (st, file, buffer, size_out, False)
                    else range_loop st file offset remaining buffer (size_out + chunk))"

declare range_loop.simps [code]

definition read_file_range ::
  "'w mount_state \<Rightarrow> file_descriptor \<Rightarrow> nat \<Rightarrow> u8 list option \<Rightarrow> nat \<Rightarrow> ('w mount_state \<times> file_descriptor \<times> u8 list option \<times> nat \<times> bool) option" where
  "read_file_range st file offset buffer n =
     (if \<not> fd_valid file \<or> (n > 0 \<and> buffer = None) then Some (st, file, buffer, 0, False)
      else if n = 0 \<or> offset \<ge> fd_size file then Some (st, file, buffer, 0, True)
      else
        let remaining = fd_size file - offset;
            remaining = (if remaining > n then n else remaining)
        in map_option (\<lambda>(st, file, buffer, size_out, ok). (st, file, Some buffer, size_out, ok))
             (range_loop st file offset remaining (the buffer) 0))"

section \<open>Writing file data\<close>

text \<open>The sectors of one cluster, zero-padded after the end of the data; the count of bytes written.\<close>

fun write_cluster_sectors :: "'w mount_state \<Rightarrow> u32 \<Rightarrow> u8 list \<Rightarrow> nat list \<Rightarrow> nat \<Rightarrow> 'w mount_state \<times> nat option" where
  "write_cluster_sectors st cluster data [] written = (st, Some written)"
| "write_cluster_sectors st cluster data (i # is) written =
     (let sector = replicate 512 0;
          chunk = (if written < length data then
                     (let c = length data - written in
                      if c > unat (mi_bytes_per_sector (ms_info st)) then unat (mi_bytes_per_sector (ms_info st)) else c)
                   else 0);
          sector = splice_at sector 0 (take chunk (drop written data));
          (st, ok) = write_sectors st (cluster_first_lba st cluster + word_of_nat i) 1 sector
      in if \<not> ok then (st, None) else write_cluster_sectors st cluster data is (written + chunk))"

definition give_up :: "'w mount_state \<Rightarrow> u32 \<Rightarrow> ('w mount_state \<times> u32 option) option" where
  "give_up st first = do { (st, _) \<leftarrow> free_cluster_chain st first; Some (st, None) }"

partial_function (option) write_loop :: "'w mount_state \<Rightarrow> u8 list \<Rightarrow> u32 \<Rightarrow> u32 \<Rightarrow> nat \<Rightarrow> ('w mount_state \<times> u32 option) option" where
  "write_loop st data first previous written =
     (if \<not> written < length data then Some (st, Some first)
      else case allocate_cluster st of
        (st, None) \<Rightarrow> if first \<noteq> 0 then give_up st first else Some (st, None)
      | (st, Some cluster) \<Rightarrow>
          let first = (if first = 0 then cluster else first);
              (st, ok) = (if previous \<noteq> 0 then write_fat_value st previous cluster else (st, True))
          in if \<not> ok then give_up st first
             else case write_cluster_sectors st cluster data [0..<unat (mi_sectors_per_cluster (ms_info st))] written of
                (st, None) \<Rightarrow> give_up st first
              | (st, Some written) \<Rightarrow> write_loop st data first cluster written)"

declare write_loop.simps [code]

definition write_file_data :: "'w mount_state \<Rightarrow> u8 list \<Rightarrow> ('w mount_state \<times> u32 option) option" where
  "write_file_data st data = (if length data = 0 then Some (st, Some 0) else write_loop st data 0 0 0)"

section \<open>Mounting\<close>

text \<open>The checks of the boot sector; on success the state with the geometry of the volume.\<close>

definition read_boot :: "'w block_device \<Rightarrow> u8 list \<Rightarrow> 'w mount_state \<Rightarrow> 'w mount_state option" where
  "read_boot device boot st =
     (if boot ! 510 \<noteq> 0x55 \<or> boot ! 511 \<noteq> 0xAA then None
      else
        let bytes_per_sector = le16 boot 11;
            sectors_per_cluster = boot ! 13;
            reserved_sector_count = le16 boot 14;
            fat_count = boot ! 16;
            root_directory_entry_count = le16 boot 17;
            sector_count_16bit = le16 boot 19;
            sectors_per_fat_16bit = le16 boot 22;
            sector_count_32bit = le32 boot 32;
            sectors_per_fat_32bit = le32 boot 36;
            root_directory_cluster = le32 boot 44;
            fs_info_sector = le16 boot 48;
            signature = boot ! 66;
            sectors_per_fat = (if sectors_per_fat_16bit \<noteq> 0 then ucast sectors_per_fat_16bit else sectors_per_fat_32bit) :: u32;
            total_sectors = (if sector_count_16bit \<noteq> 0 then ucast sector_count_16bit else sector_count_32bit) :: u32;
            root_directory_sectors = (ucast root_directory_entry_count * 32 + (ucast bytes_per_sector - 1)) div ucast bytes_per_sector;
            non_data_sectors = ucast reserved_sector_count + ucast fat_count * sectors_per_fat + root_directory_sectors;
            total_clusters = (total_sectors - non_data_sectors) div ucast sectors_per_cluster
        in if ucast bytes_per_sector \<noteq> bd_block_size device \<or> bytes_per_sector \<noteq> 512 then None
           else if sectors_per_cluster = 0 \<or> sectors_per_cluster AND (sectors_per_cluster - 1) \<noteq> 0 then None
           else if reserved_sector_count = 0 \<or> fat_count = 0 then None
           else if sectors_per_fat = 0 then None
           else if total_sectors = 0 then None
           else if total_sectors \<le> non_data_sectors then None
           else if total_clusters < FAT32_MIN_CLUSTER_COUNT then None
           else if signature \<noteq> 0x28 \<and> signature \<noteq> 0x29 then None
           else if root_directory_cluster < 2 then None
           else Some (st\<lparr>ms_info := (ms_info st)\<lparr>mi_total_sectors := total_sectors, mi_bytes_per_sector := ucast bytes_per_sector,
                    mi_sectors_per_cluster := sectors_per_cluster, mi_fat_count := fat_count,
                    mi_reserved_sector_count := reserved_sector_count, mi_sectors_per_fat := sectors_per_fat,
                    mi_first_data_sector := non_data_sectors, mi_root_cluster := root_directory_cluster,
                    mi_logical_root_cluster := root_directory_cluster, mi_fs_info_sector := ucast fs_info_sector\<rparr>,
                  ms_volume_root_cluster := root_directory_cluster, ms_total_clusters := total_clusters,
                  ms_free_cluster_count := FAT32_FSINFO_UNKNOWN, ms_next_free_cluster_hint := FAT32_FSINFO_UNKNOWN\<rparr>))"

definition read_fsinfo :: "'w mount_state \<Rightarrow> u64 \<Rightarrow> 'w mount_state" where
  "read_fsinfo st start_lba =
     (if mi_fs_info_sector (ms_info st) = 0 then st
      else case read_sector st (start_lba + ucast (mi_fs_info_sector (ms_info st))) of
          (st, None) \<Rightarrow> st
        | (st, Some sector) \<Rightarrow>
            let fs_info = fsinfo_at sector in
            if fsi_lead_signature fs_info = FAT32_FSINFO_SIGNATURE_1 \<and>
               fsi_struct_signature fs_info = FAT32_FSINFO_SIGNATURE_2 \<and>
               fsi_trailing_signature fs_info = FAT32_FSINFO_SIGNATURE_3
            then st\<lparr>ms_fs_info_valid := True,
                     ms_free_cluster_count := fsi_last_known_free_cluster_count fs_info,
                     ms_next_free_cluster_hint := fsi_next_free_cluster_hint fs_info\<rparr>
            else st)"

definition probe_volume :: "'w block_device \<Rightarrow> u64 \<Rightarrow> 'w mount_state \<Rightarrow> 'w mount_state \<times> bool" where
  "probe_volume device start_lba st =
     (let st = reset_state st;
          writable = (case bd_ops device of None \<Rightarrow> False | Some ops \<Rightarrow> bo_write_blocks ops \<noteq> None);
          st = st\<lparr>ms_device := Some device, ms_mounted := True,
                  ms_info := (ms_info st)\<lparr>mi_mounted := True, mi_writable := writable,
                    mi_block_device := snd (ss_assign 32 (bd_name device)), mi_partition_start_lba := start_lba\<rparr>\<rparr>
      in case read_sector st start_lba of
           (st, None) \<Rightarrow> (st, False)
         | (st, Some boot) \<Rightarrow>
             (case read_boot device boot st of
                None \<Rightarrow> (st, False)
              | Some st \<Rightarrow> (read_fsinfo st start_lba, True)))"

definition fat_init :: "'w mount_state \<Rightarrow> 'w mount_state" where
  "fat_init st = (if ms_initialised st then st else reset_state st)"

definition mount_partition :: "'w mount_state \<Rightarrow> 'w block_device \<Rightarrow> u64 \<Rightarrow> 'w mount_state \<times> status_code" where
  "mount_partition st device start_lba =
     (let st = (if \<not> ms_initialised st then fat_init st else st);
          (candidate, ok) = probe_volume device start_lba (empty_state (ms_world st))
      in if ok then (candidate, success) else (reset_state (st\<lparr>ms_world := ms_world candidate\<rparr>), error))"

section \<open>The file operations\<close>

definition is_mounted :: "'w mount_state \<Rightarrow> bool" where
  "is_mounted st = ms_mounted st"

definition fat_file_exists :: "'w mount_state \<Rightarrow> string \<Rightarrow> ('w mount_state \<times> bool) option" where
  "fat_file_exists st path =
     (if \<not> ms_mounted st then Some (st, False)
      else do {
        (st, r) \<leftarrow> resolve_path st path;
        Some (st, case r of None \<Rightarrow> False | Some e \<Rightarrow> \<not> is_directory (der_entry e))
      })"

definition file_size :: "'w mount_state \<Rightarrow> string \<Rightarrow> ('w mount_state \<times> nat) option" where
  "file_size st path =
     (if \<not> ms_mounted st then Some (st, 0)
      else do {
        (st, r) \<leftarrow> resolve_path st path;
        Some (st, case r of None \<Rightarrow> 0 | Some e \<Rightarrow> if is_directory (der_entry e) then 0 else unat (fat_file_size (der_entry e)))
      })"

definition directory_exists :: "'w mount_state \<Rightarrow> string \<Rightarrow> ('w mount_state \<times> bool) option" where
  "directory_exists st path =
     (if \<not> ms_mounted st then Some (st, False)
      else do {
        (st, r) \<leftarrow> resolve_directory_cluster st path;
        Some (st, r \<noteq> None)
      })"

record directory_entry_info =
  di_name :: string
  di_is_directory :: bool
  di_size :: nat
  di_first_cluster :: u32

definition list_directory ::
  "'w mount_state \<Rightarrow> string \<Rightarrow> ('a \<Rightarrow> directory_entry_info \<Rightarrow> 'a \<times> bool) option \<Rightarrow> 'a \<Rightarrow> ('w mount_state \<times> 'a \<times> bool) option" where
  "list_directory st path callback context =
     (case callback of
        None \<Rightarrow> Some (st, context, False)
      | Some callback \<Rightarrow>
          if \<not> ms_mounted st then Some (st, context, False)
          else do {
            (st, r) \<leftarrow> resolve_directory_cluster st path;
            case r of
              None \<Rightarrow> Some (st, context, False)
            | Some directory_cluster \<Rightarrow>
                scan_directory
                  (\<lambda>context entry.
                     let name = der_name entry in
                     if sv_compare name ''.'' \<or> sv_compare name ''..'' then (context, False)
                     else case ss_assign 256 name of
                         (False, _) \<Rightarrow> (context, False)
                       | (True, name) \<Rightarrow> callback context \<lparr>di_name = name, di_is_directory = is_directory (der_entry entry),
                            di_size = unat (fat_file_size (der_entry entry)), di_first_cluster = first_cluster (der_entry entry)\<rparr>)
                  st directory_cluster context
          })"

definition open_file :: "'w mount_state \<Rightarrow> string \<Rightarrow> ('w mount_state \<times> file_descriptor \<times> bool) option" where
  "open_file st path =
     (if \<not> ms_mounted st then Some (st, empty_descriptor, False)
      else do {
        (st, r) \<leftarrow> resolve_path st path;
        Some (case r of
            None \<Rightarrow> (st, empty_descriptor, False)
          | Some e \<Rightarrow> (case build_file_descriptor (der_entry e) of
               None \<Rightarrow> (st, empty_descriptor, False)
             | Some file \<Rightarrow> (st, file, True)))
      })"

definition fat_read_range ::
  "'w mount_state \<Rightarrow> file_descriptor \<Rightarrow> nat \<Rightarrow> u8 list option \<Rightarrow> nat \<Rightarrow> ('w mount_state \<times> file_descriptor \<times> u8 list option \<times> nat \<times> bool) option" where
  "fat_read_range st file offset buffer n =
     (if \<not> ms_mounted st then Some (st, file, buffer, 0, False) else read_file_range st file offset buffer n)"

definition fat_read_file :: "'w mount_state \<Rightarrow> kmemory \<Rightarrow> string \<Rightarrow> ('w mount_state \<times> kmemory \<times> (file_data \<times> nat) option) option" where
  "fat_read_file st km path =
     (if \<not> ms_mounted st then Some (st, km, None)
      else do {
        (st, r) \<leftarrow> resolve_path st path;
        case r of
          None \<Rightarrow> Some (st, km, None)
        | Some e \<Rightarrow> if is_directory (der_entry e) then Some (st, km, None) else read_file_data st km (der_entry e)
      })"

text \<open>The entry of a file that is about to be written, with the slots of a new one.\<close>

definition set_first_cluster :: "FATEntry \<Rightarrow> u32 \<Rightarrow> u32 \<Rightarrow> FATEntry" where
  "set_first_cluster e cluster n =
     e\<lparr>fat_first_cluster_low := ucast (cluster AND 0xFFFF), fat_first_cluster_high := ucast (drop_bit 16 cluster), fat_file_size := n\<rparr>"

fun write_lfn_entries :: "'w mount_state \<Rightarrow> (entry_location \<times> FATLongFileNameEntry) list \<Rightarrow> 'w mount_state \<times> bool" where
  "write_lfn_entries st [] = (st, True)"
| "write_lfn_entries st ((location, e) # es) =
     (let (st, ok) = write_entry_bytes st location (lfn_entry_bytes e) in
      if \<not> ok then (st, False) else write_lfn_entries st es)"

definition prepare_entry ::
  "'w mount_state \<Rightarrow> directory_entry_ref option \<Rightarrow> u32 \<Rightarrow> string \<Rightarrow>
   ('w mount_state \<times> (FATEntry \<times> FATLongFileNameEntry list \<times> entry_location list) option) option" where
  "prepare_entry st existing parent leaf_name =
     (case existing of
        Some e \<Rightarrow> Some (st, Some (der_entry e, [], []))
      | None \<Rightarrow> do {
          (st, r) \<leftarrow> build_file_entry st parent leaf_name;
          case r of
            None \<Rightarrow> Some (st, None)
          | Some (entry, lfn) \<Rightarrow> do {
              (st, r) \<leftarrow> allocate_directory_slots st parent (length lfn + 1);
              Some (st, map_option (\<lambda>locations. (entry, lfn, locations)) r)
            }
        })"

definition release_old_data :: "'w mount_state \<Rightarrow> directory_entry_ref option \<Rightarrow> ('w mount_state \<times> bool) option" where
  "release_old_data st existing =
     (case existing of
        None \<Rightarrow> Some (st, True)
      | Some e \<Rightarrow>
          if first_cluster (der_entry e) \<ge> 2 \<and> first_cluster (der_entry e) < FAT32_END_OF_CHAIN
          then free_cluster_chain st (first_cluster (der_entry e)) else Some (st, True))"

definition finish_entry :: "FATEntry \<Rightarrow> FATLongFileNameEntry list \<Rightarrow> string \<Rightarrow> u32 \<Rightarrow> nat \<Rightarrow> FATEntry" where
  "finish_entry entry lfn leaf_name new_cluster n =
     (let entry = set_first_cluster entry new_cluster (word_of_nat n);
          entry = entry\<lparr>fat_attributes := (fat_attributes entry AND NOT (ATTR_DIRECTORY OR ATTR_VOLUME_ID)) OR ATTR_ARCHIVE\<rparr>;
          entry = entry\<lparr>fat_case_info := (if length lfn = 0 then encode_case_info leaf_name else 0)\<rparr>
      in entry\<lparr>fat_creation_time_tenths := 0\<rparr>)"

definition store_entry ::
  "'w mount_state \<Rightarrow> directory_entry_ref option \<Rightarrow> FATEntry \<Rightarrow> FATLongFileNameEntry list \<Rightarrow> entry_location list \<Rightarrow> 'w mount_state \<times> bool" where
  "store_entry st existing entry lfn locations =
     (case existing of
        Some e \<Rightarrow> write_entry_bytes st (der_location e) (fat_entry_bytes entry)
      | None \<Rightarrow>
          let (st, ok) = write_entry_bytes st (locations ! length lfn) (fat_entry_bytes entry) in
          if \<not> ok then (st, False)
          else write_lfn_entries st (zip (take (length lfn) locations) (rev lfn)))"

definition write_file :: "'w mount_state \<Rightarrow> string \<Rightarrow> u8 list option \<Rightarrow> nat \<Rightarrow> ('w mount_state \<times> bool) option" where
  "write_file st path data n =
     (if \<not> ms_mounted st \<or> \<not> mi_writable (ms_info st) then Some (st, False)
      else if n > 0 \<and> data = None then Some (st, False)
      else
        let normalized = clean_path path;
            bytes = (if n = 0 then [] else take n (the data))
        in if normalized = [] then Some (st, False)
           else do {
             (st, existing) \<leftarrow> resolve_path st normalized;
             if (case existing of None \<Rightarrow> False | Some e \<Rightarrow> is_directory (der_entry e)) then Some (st, False)
             else do {
               (st, parent) \<leftarrow> resolve_parent_directory st normalized;
               case parent of
                 None \<Rightarrow> Some (st, False)
               | Some (parent_directory_cluster, leaf_name) \<Rightarrow> do {
                   (st, prepared) \<leftarrow> prepare_entry st existing parent_directory_cluster leaf_name;
                   case prepared of
                     None \<Rightarrow> Some (st, False)
                   | Some (entry, lfn, locations) \<Rightarrow> do {
                       (st, ok) \<leftarrow> release_old_data st existing;
                       if \<not> ok then Some (st, False)
                       else do {
                         (st, r) \<leftarrow> write_file_data st bytes;
                         Some (case r of
                             None \<Rightarrow>
                               (case existing of
                                  None \<Rightarrow> (st, False)
                                | Some e \<Rightarrow> (fst (write_entry_bytes st (der_location e) (fat_entry_bytes (set_first_cluster entry 0 0))), False))
                           | Some new_cluster \<Rightarrow> store_entry st existing (finish_entry entry lfn leaf_name new_cluster n) lfn locations)
                       }
                     }
                 }
             }
           })"

fun mark_entries_unused :: "'w mount_state \<Rightarrow> entry_location list \<Rightarrow> 'w mount_state \<times> bool" where
  "mark_entries_unused st [] = (st, True)"
| "mark_entries_unused st (l # ls) =
     (let (st, ok) = mark_entry_unused st l in if \<not> ok then (st, False) else mark_entries_unused st ls)"

definition remove_file :: "'w mount_state \<Rightarrow> string \<Rightarrow> ('w mount_state \<times> bool) option" where
  "remove_file st path =
     (if \<not> ms_mounted st \<or> \<not> mi_writable (ms_info st) then Some (st, False)
      else do {
        (st, r) \<leftarrow> resolve_path st path;
        case r of
          None \<Rightarrow> Some (st, False)
        | Some e \<Rightarrow>
            if is_directory (der_entry e) then Some (st, False)
            else
              let (st, ok) = mark_entries_unused st (der_location e # der_lfn_locations e) in
              if \<not> ok then Some (st, False) else free_cluster_chain st (first_cluster (der_entry e))
      })"

end
