(* ===== verification/Ramfs.thy ===== *)
theory Ramfs
  imports KHeapSpec
begin

text \<open>
  The in-memory file system of src/fs/ramfs.cpp. A file's bytes live in a block of the kernel heap
  (or, for \<open>add_file_nocopy\<close>, where the caller put them). A null name or data pointer is \<open>None\<close>; the
  data of \<open>add_file\<close> is the list of its bytes.
\<close>

definition RAMFS_MAX_FILES :: nat where "RAMFS_MAX_FILES = 32"

record file_entry =
  fe_name :: string
  fe_data :: u64
  fe_size :: nat
  fe_valid :: bool

record ramfs =
  g_files :: "file_entry list"
  g_file_count :: nat
  g_ready :: bool
  rf_km :: kmemory

definition is_separator :: "char \<Rightarrow> bool" where
  "is_separator ch \<longleftrightarrow> ch = CHR ''/'' \<or> ch = CHR 0x5C"

fun normalize_ramfs_path :: "string \<Rightarrow> string" where
  "normalize_ramfs_path (a # b # path) = (if a = CHR ''.'' \<and> is_separator b then normalize_ramfs_path path else a # b # path)"
| "normalize_ramfs_path path = path"

definition empty_file :: file_entry where
  "empty_file = \<lparr>fe_name = [], fe_data = 0, fe_size = 0, fe_valid = False\<rparr>"

definition ramfs_init :: "ramfs \<Rightarrow> ramfs \<times> status_code" where
  "ramfs_init s = (s\<lparr>g_file_count := 0, g_ready := True, g_files := replicate RAMFS_MAX_FILES empty_file\<rparr>, success)"

definition ramfs_is_ready :: "ramfs \<Rightarrow> bool" where
  "ramfs_is_ready s = g_ready s"

definition add_file :: "ramfs \<Rightarrow> string option \<Rightarrow> u8 list option \<Rightarrow> (ramfs \<times> status_code) option" where
  "add_file s name data =
     (if g_file_count s \<ge> RAMFS_MAX_FILES then Some (s, no_memory)
      else case (name, data) of
        (Some name, Some data) \<Rightarrow>
          let normalized = normalize_ramfs_path name in
          if normalized = [] then Some (s, invalid_param)
          else
            let (ok, nm) = ss_assign 128 normalized;
                file = (g_files s ! g_file_count s)\<lparr>fe_name := nm\<rparr>;
                s = s\<lparr>g_files := (g_files s)[g_file_count s := file]\<rparr> in
            if \<not> ok then Some (s, invalid_param)
            else do {
              (km, p) \<leftarrow> kh_allocate (rf_km s) (word_of_nat (length data));
              let s = s\<lparr>rf_km := km\<rparr>;
              if p = 0 then Some (s, no_memory)
              else
                let km = (if length data > 0 then km\<lparr>km_heap := (km_heap km)\<lparr>kh_mem := write_bytes (kh_mem (km_heap km)) p data\<rparr>\<rparr> else km);
                    file = file\<lparr>fe_data := p, fe_size := length data, fe_valid := True\<rparr>
                in Some (s\<lparr>rf_km := km, g_files := (g_files s)[g_file_count s := file], g_file_count := g_file_count s + 1\<rparr>, success)
            }
      | _ \<Rightarrow> Some (s, invalid_param))"

definition add_file_nocopy :: "ramfs \<Rightarrow> string option \<Rightarrow> u64 \<Rightarrow> nat \<Rightarrow> ramfs \<times> status_code" where
  "add_file_nocopy s name data sz =
     (if g_file_count s \<ge> RAMFS_MAX_FILES then (s, no_memory)
      else case name of
        None \<Rightarrow> (s, invalid_param)
      | Some name \<Rightarrow>
          if data = 0 then (s, invalid_param)
          else
            let normalized = normalize_ramfs_path name in
            if normalized = [] then (s, invalid_param)
            else
              let (ok, nm) = ss_assign 128 normalized;
                  file = (g_files s ! g_file_count s)\<lparr>fe_name := nm\<rparr>;
                  s = s\<lparr>g_files := (g_files s)[g_file_count s := file]\<rparr> in
              if \<not> ok then (s, invalid_param)
              else (s\<lparr>g_files := (g_files s)[g_file_count s := file\<lparr>fe_data := data, fe_size := sz, fe_valid := True\<rparr>],
                      g_file_count := g_file_count s + 1\<rparr>, success))"

definition ramfs_find :: "ramfs \<Rightarrow> string \<Rightarrow> file_entry option" where
  "ramfs_find s name =
     (let name = normalize_ramfs_path name
      in find (\<lambda>f. fe_valid f \<and> sv_compare (fe_name f) name) (take (g_file_count s) (g_files s)))"

definition ramfs_file_count :: "ramfs \<Rightarrow> nat" where
  "ramfs_file_count s = g_file_count s"

definition ramfs_get_file :: "ramfs \<Rightarrow> nat \<Rightarrow> file_entry option" where
  "ramfs_get_file s index = (if index \<ge> g_file_count s then None else Some (g_files s ! index))"

section \<open>Files keep their contents\<close>

abbreviation ram :: "ramfs \<Rightarrow> u64 \<Rightarrow> u8" where
  "ram s \<equiv> kh_mem (km_heap (rf_km s))"

definition file_bytes :: "ramfs \<Rightarrow> file_entry \<Rightarrow> u8 list" where
  "file_bytes s f = map (\<lambda>i. ram s (fe_data f + word_of_nat i)) [0..<fe_size f]"

definition ramfs_ok :: "ramfs \<Rightarrow> bool" where
  "ramfs_ok s \<longleftrightarrow> km_inv (rf_km s) \<and> length (g_files s) = RAMFS_MAX_FILES \<and> g_file_count s \<le> RAMFS_MAX_FILES \<and>
     (\<forall>i<g_file_count s. fe_valid (g_files s ! i) \<and> fe_size (g_files s ! i) < 2 ^ 60 \<and>
        {unat (fe_data (g_files s ! i)) ..< unat (fe_data (g_files s ! i)) + fe_size (g_files s ! i)} \<subseteq> kh_live (rf_km s) (fe_data (g_files s ! i)))"

lemma allocate_keeps_live:
  assumes "km_inv km" "kh_allocate km n = Some (km', p)" "unat n \<le> 2 ^ 60" "unat x \<in> kh_live km q"
  shows "kh_mem (km_heap km') x = kh_mem (km_heap km) x"
proof -
  obtain ns where ok: "km_ok km ns" and ex: "\<not> kh_expanding (km_heap km)" using assms(1) by (auto simp: km_inv_def)
  have "data_kept km ns km'" using kh_allocate_correct [OF ok ex assms(3)] assms(2) by (auto simp: km_alloced_def)
  moreover have "unat x \<in> live_data (kh_hdr (km_heap km)) ns"
    using assms(4) unfolding kh_live_eq [OF ok] live_data_def by fastforce
  ultimately show ?thesis by (simp add: data_kept_def)
qed

lemma live_address:
  assumes "{unat p ..< unat p + n} \<subseteq> kh_live km p" "km_inv km" "i < n"
  shows "unat (p + word_of_nat i) = unat p + i" and "unat p + i \<in> kh_live km p"
proof -
  obtain ns where ok: "km_ok km ns" using assms(2) by (auto simp: km_inv_def)
  have "unat p + (n - 1) \<in> kh_live km p" using assms(1,3) by auto
  then obtain m s where m: "(m, s) \<in> km_used km ns" "unat p + (n - 1) < unat m + 32 + unat s" unfolding kh_live_eq [OF ok] by blast
  have "kh_rel (kh_hdr (km_heap km)) (kh_free_list (km_heap km)) ns" using ok by (simp add: km_ok_def)
  from used_block_bounds(5) [OF this m(1)] have b: "unat p + i < 2 ^ 52" using m(2) assms(3) by linarith
  then have "unat (word_of_nat i :: u64) = i" by (simp add: unat_of_nat)
  then show "unat (p + word_of_nat i) = unat p + i" using b by (simp add: unat_plus64)
  show "unat p + i \<in> kh_live km p" using assms(1,3) by auto
qed

text \<open>Storing bytes into one live block changes neither the heap's structure nor the other blocks.\<close>

abbreviation store :: "kmemory \<Rightarrow> u64 \<Rightarrow> u8 list \<Rightarrow> kmemory" where
  "store km p data \<equiv> km\<lparr>km_heap := (km_heap km)\<lparr>kh_mem := write_bytes (kh_mem (km_heap km)) p data\<rparr>\<rparr>"

lemma store_keeps_structure: "km_inv (store km p data) = km_inv km" "kh_live (store km p data) = kh_live km"
  by (simp_all add: km_inv_def km_ok_def kh_live_def fun_eq_iff)

lemma store_reads_back:
  assumes "km_inv km" "{unat p ..< unat p + length data} \<subseteq> kh_live km p" "length data < 2 ^ 60"
  shows "map (\<lambda>i. kh_mem (km_heap (store km p data)) (p + word_of_nat i)) [0..<length data] = data"
proof (rule nth_equalityI)
  fix i assume "i < length (map (\<lambda>i. kh_mem (km_heap (store km p data)) (p + word_of_nat i)) [0..<length data])"
  then have i: "i < length data" by simp
  then have "unat (word_of_nat i :: u64) = i" using assms(3) by (simp add: unat_of_nat)
  then show "map (\<lambda>i. kh_mem (km_heap (store km p data)) (p + word_of_nat i)) [0..<length data] ! i = data ! i"
    using i assms(3) by (simp add: write_bytes_at)
qed simp

lemma store_elsewhere:
  assumes "km_inv km" "{unat p ..< unat p + length data} \<subseteq> kh_live km p" "length data < 2 ^ 60"
    "unat x \<in> kh_live km q" "q \<noteq> p"
  shows "kh_mem (km_heap (store km p data)) x = kh_mem (km_heap km) x"
proof (rule ccontr)
  assume n: "\<not> ?thesis"
  have "unat (x - p) < length data"
  proof (rule ccontr)
    assume "\<not> unat (x - p) < length data"
    then show False using n assms(3) by (simp add: write_bytes_at)
  qed
  from live_address [OF assms(2,1) this] have "unat x \<in> kh_live km p" by simp
  then show False using kh_live_disjoint [OF assms(1,5)] assms(4) by blast
qed

text \<open>A file's bytes are its own block's: they survive an allocation and a store into another block.\<close>

lemma file_entry_kept:
  assumes inv: "km_inv km" and al: "kh_allocate km (word_of_nat (length data)) = Some (km1, p)" and p: "p \<noteq> 0"
    and n: "0 < length data" "length data < 2 ^ 60"
    and f: "{unat a ..< unat a + k} \<subseteq> kh_live km a" and i: "i < k"
  shows "kh_mem (km_heap (store km1 p data)) (a + word_of_nat i) = kh_mem (km_heap km) (a + word_of_nat i)"
    and "a \<noteq> p"
proof -
  have len: "unat (word_of_nat (length data) :: u64) = length data" using n by (simp add: unat_of_nat)
  then have v: "heap_valid (Plain (word_of_nat (length data)))" using n by (simp add: unat_gt_0 [symmetric])
  have A: "km_inv km1" "kh_live km p = {}" "{unat p ..< unat p + length data} \<subseteq> kh_live km1 p" "\<forall>b. b \<noteq> p \<longrightarrow> kh_live km1 b = kh_live km b"
    using heap.alloc_some [OF inv v, of km1 p] al p len by auto
  note L = live_address [OF f inv i]
  show ne: "a \<noteq> p" using L(2) A(2) by auto
  have "unat (a + word_of_nat i) \<in> kh_live km1 a" using L A(4) ne by simp
  then have "kh_mem (km_heap (store km1 p data)) (a + word_of_nat i) = kh_mem (km_heap km1) (a + word_of_nat i)"
    by (rule store_elsewhere [OF A(1,3) n(2) _ ne])
  also have "\<dots> = kh_mem (km_heap km) (a + word_of_nat i)"
    by (rule allocate_keeps_live [OF inv al, where q = a]) (use L len n in auto)
  finally show "kh_mem (km_heap (store km1 p data)) (a + word_of_nat i) = kh_mem (km_heap km) (a + word_of_nat i)" .
qed

lemma find_appended: "find P (xs @ ys) = (case find P xs of None \<Rightarrow> find P ys | Some x \<Rightarrow> Some x)"
  by (induction xs) auto

lemma ramfs_find_kept:
  assumes "take (g_file_count s) (g_files s') = take (g_file_count s) (g_files s)" "g_file_count s \<le> g_file_count s'"
    "ramfs_find s other = Some f"
  shows "ramfs_find s' other = Some f"
proof -
  obtain k where "g_file_count s' = g_file_count s + k" using assms(2) le_Suc_ex by blast
  then have "take (g_file_count s') (g_files s') = take (g_file_count s) (g_files s) @ take k (drop (g_file_count s) (g_files s'))"
    using assms(1) by (simp add: take_add)
  then show ?thesis using assms(3) by (simp add: ramfs_find_def Let_def find_appended)
qed

lemma ramfs_found:
  assumes "ramfs_ok s" "ramfs_find s other = Some f"
  shows "{unat (fe_data f) ..< unat (fe_data f) + fe_size f} \<subseteq> kh_live (rf_km s) (fe_data f)"
proof -
  have len: "g_file_count s \<le> length (g_files s)" using assms(1) by (simp add: ramfs_ok_def)
  from assms(2) obtain i where "i < g_file_count s" "f = g_files s ! i"
    unfolding ramfs_find_def Let_def find_Some_iff by (auto simp: len)
  then show ?thesis using assms(1) by (auto simp: ramfs_ok_def)
qed

text \<open>What \<open>add_file\<close> does, by outcome.\<close>

definition ramfs_kept :: "ramfs \<Rightarrow> ramfs \<Rightarrow> bool" where
  "ramfs_kept s s' \<longleftrightarrow> ramfs_ok s' \<and> g_file_count s \<le> g_file_count s' \<and>
     take (g_file_count s) (g_files s') = take (g_file_count s) (g_files s) \<and>
     (\<forall>a k i. {unat a ..< unat a + k} \<subseteq> kh_live (rf_km s) a \<longrightarrow> i < k \<longrightarrow> ram s' (a + word_of_nat i) = ram s (a + word_of_nat i))"

lemma ramfs_kept_files:
  assumes "ramfs_ok s" "ramfs_kept s s'" "ramfs_find s other = Some f"
  shows "ramfs_find s' other = Some f" "file_bytes s' f = file_bytes s f"
  using ramfs_find_kept [of s s' other f] ramfs_found [OF assms(1,3)] assms(2,3)
  by (auto simp: ramfs_kept_def file_bytes_def)

lemma ramfs_name_only:
  assumes "ramfs_ok s"
  shows "ramfs_kept s (s\<lparr>g_files := (g_files s)[g_file_count s := f]\<rparr>)"
  using assms by (auto simp: ramfs_kept_def ramfs_ok_def)

lemma ramfs_out_of_memory:
  assumes ok: "ramfs_ok s" and al: "kh_allocate (rf_km s) n = Some (km, 0)" and n: "unat n \<le> 2 ^ 60"
  shows "ramfs_kept s (s\<lparr>g_files := (g_files s)[g_file_count s := f], rf_km := km\<rparr>)"
proof -
  have inv: "km_inv (rf_km s)" using ok by (simp add: ramfs_ok_def)
  then obtain ns where k: "km_ok (rf_km s) ns" "\<not> kh_expanding (km_heap (rf_km s))" by (auto simp: km_inv_def)
  from kh_allocate_correct [OF k n] al have "km_alloced (rf_km s) ns n km 0" by auto
  note L = km_alloced_live(1,2) [OF k(1) this]
  have "kh_mem (km_heap km) (a + word_of_nat i) = ram s (a + word_of_nat i)"
    if "{unat a ..< unat a + k} \<subseteq> kh_live (rf_km s) a" "i < k" for a k i
    by (rule allocate_keeps_live [OF inv al n, where q = a]) (use live_address [OF that(1) inv that(2)] in simp)
  then show ?thesis using ok L by (auto simp: ramfs_kept_def ramfs_ok_def)
qed

lemma ramfs_stored:
  assumes ok: "ramfs_ok s" and al: "kh_allocate (rf_km s) (word_of_nat (length data)) = Some (km, p)" and p: "p \<noteq> 0"
    and n: "0 < length data" "length data < 2 ^ 60" and c: "g_file_count s < RAMFS_MAX_FILES"
    and f: "fe_data f = p" "fe_size f = length data" "fe_valid f"
  defines "s' \<equiv> s\<lparr>g_files := (g_files s)[g_file_count s := f], rf_km := store km p data, g_file_count := g_file_count s + 1\<rparr>"
  shows "ramfs_kept s s'" and "file_bytes s' f = data"
proof -
  have inv: "km_inv (rf_km s)" using ok by (simp add: ramfs_ok_def)
  have len: "unat (word_of_nat (length data) :: u64) = length data" using n by (simp add: unat_of_nat)
  then have v: "heap_valid (Plain (word_of_nat (length data)))" using n by (simp add: unat_gt_0 [symmetric])
  have A: "km_inv km" "kh_live (rf_km s) p = {}" "{unat p ..< unat p + length data} \<subseteq> kh_live km p"
      "\<And>b. b \<noteq> p \<Longrightarrow> kh_live km b = kh_live (rf_km s) b"
    using heap.alloc_some [OF inv v, of km p] al p len by auto
  have old: "{unat (fe_data g) ..< unat (fe_data g) + fe_size g} \<subseteq> kh_live km (fe_data g)"
    if "{unat (fe_data g) ..< unat (fe_data g) + fe_size g} \<subseteq> kh_live (rf_km s) (fe_data g)" for g
  proof (cases "fe_data g = p")
    case True
    then have "fe_size g = 0" using that A(2) by (cases "fe_size g") auto
    then show ?thesis by simp
  next
    case False
    then show ?thesis using that A(4) by simp
  qed
  have keep: "g_files s' ! i = (if i = g_file_count s then f else g_files s ! i)" if "i \<le> g_file_count s" for i
    using ok c by (simp add: s'_def ramfs_ok_def)
  have live: "kh_live (rf_km s') = kh_live km" "km_inv (rf_km s')" by (simp_all add: s'_def store_keeps_structure A(1))
  have entry: "fe_valid (g_files s' ! i) \<and> fe_size (g_files s' ! i) < 2 ^ 60 \<and>
      {unat (fe_data (g_files s' ! i)) ..< unat (fe_data (g_files s' ! i)) + fe_size (g_files s' ! i)} \<subseteq> kh_live km (fe_data (g_files s' ! i))"
    if i: "i < g_file_count s + 1" for i
  proof (cases "i = g_file_count s")
    case True
    then show ?thesis using keep [of i] f n A(3) by simp
  next
    case False
    then have "i < g_file_count s" using i by simp
    then have "fe_valid (g_files s ! i)" "fe_size (g_files s ! i) < 2 ^ 60"
      "{unat (fe_data (g_files s ! i)) ..< unat (fe_data (g_files s ! i)) + fe_size (g_files s ! i)} \<subseteq> kh_live (rf_km s) (fe_data (g_files s ! i))"
      using ok unfolding ramfs_ok_def by blast+
    then show ?thesis using keep [of i] i False old by simp
  qed
  have "length (g_files s') = RAMFS_MAX_FILES" "g_file_count s' = g_file_count s + 1" using ok by (simp_all add: s'_def ramfs_ok_def)
  then have "ramfs_ok s'" using live entry c unfolding ramfs_ok_def by simp
  moreover have "ram s' (a + word_of_nat i) = ram s (a + word_of_nat i)"
    if "{unat a ..< unat a + k} \<subseteq> kh_live (rf_km s) a" "i < k" for a k i
    using file_entry_kept(1) [OF inv al p n that] by (simp add: s'_def)
  ultimately show "ramfs_kept s s'" by (simp add: ramfs_kept_def s'_def)
  show "file_bytes s' f = data"
    using store_reads_back [OF A(1,3) n(2)] f by (simp add: file_bytes_def s'_def)
qed

lemma ramfs_find_added:
  assumes "ramfs_find s name = None" "fe_valid f" "fe_name f = normalize_ramfs_path name" "g_file_count s < length (g_files s)"
  shows "ramfs_find (s\<lparr>g_files := (g_files s)[g_file_count s := f], rf_km := km, g_file_count := g_file_count s + 1\<rparr>) name = Some f"
proof -
  have "take (g_file_count s + 1) ((g_files s)[g_file_count s := f]) = take (g_file_count s) (g_files s) @ [f]"
    using assms(4) by (simp add: take_Suc_conv_app_nth)
  then show ?thesis using assms(1-3) by (simp add: ramfs_find_def Let_def find_appended)
qed

lemma add_file_outcome:
  assumes ok: "ramfs_ok s" and n: "length data < 2 ^ 60"
  obtains (refused) s' st where "add_file s (Some name) (Some data) = Some (s', st)" "st \<noteq> success" "ramfs_kept s s'"
      "g_file_count s' = g_file_count s"
  | (added) s' f where "add_file s (Some name) (Some data) = Some (s', success)" "ramfs_kept s s'" "g_file_count s' = g_file_count s + 1"
      "file_bytes s' f = data" "ramfs_find s name = None \<Longrightarrow> ramfs_find s' name = Some f"
proof -
  let ?nm = "normalize_ramfs_path name" and ?c = "g_file_count s"
  let ?e = "(g_files s ! ?c)\<lparr>fe_name := snd (ss_assign 128 ?nm)\<rparr>"
  have refl: "ramfs_kept s s" using ok by (simp add: ramfs_kept_def)
  consider (full) "?c \<ge> RAMFS_MAX_FILES" | (empty) "?c < RAMFS_MAX_FILES" "?nm = []"
    | (long) "?c < RAMFS_MAX_FILES" "?nm \<noteq> []" "128 \<le> length ?nm"
    | (go) "?c < RAMFS_MAX_FILES" "?nm \<noteq> []" "length ?nm < 128" by linarith
  then show thesis
  proof cases
    case full
    then show thesis using refl by (intro refused [of s no_memory]) (simp_all add: add_file_def)
  next
    case empty
    then show thesis using refl by (intro refused [of s invalid_param]) (simp_all add: add_file_def)
  next
    case long
    then show thesis
      by (intro refused [OF _ _ ramfs_name_only [OF ok, of ?e], of invalid_param]) (simp_all add: add_file_def ss_assign_def Let_def)
  next
    case go
    have len: "unat (word_of_nat (length data) :: u64) = length data" using n by (simp add: unat_of_nat)
    obtain ns where k: "km_ok (rf_km s) ns" "\<not> kh_expanding (km_heap (rf_km s))" using ok by (auto simp: km_inv_def ramfs_ok_def)
    obtain km p where al: "kh_allocate (rf_km s) (word_of_nat (length data)) = Some (km, p)"
      using kh_allocate_correct [OF k, of "word_of_nat (length data)"] len n by auto
    show thesis
    proof (cases "p = 0")
      case True
      show thesis
        by (rule refused [OF _ _ ramfs_out_of_memory [OF ok al [unfolded True], of ?e], of no_memory])
          (use True go al len n in \<open>simp_all add: add_file_def ss_assign_def Let_def\<close>)
    next
      case False
      then have pos: "0 < length data" using al by (cases data) (auto simp: kh_allocate_def)
      let ?f = "?e\<lparr>fe_data := p, fe_size := length data, fe_valid := True\<rparr>"
      note S = ramfs_stored [OF ok al False pos n go(1), of ?f]
      show thesis
        by (rule added [OF _ S(1) _ S(2) ramfs_find_added])
          (use False go al pos ok in \<open>simp_all add: add_file_def ss_assign_def Let_def ramfs_ok_def\<close>)
    qed
  qed
qed

text \<open>
  \<open>ramfs::add_file\<close> returns whatever the name and the heap's state. When it reports success and no
  file of that name was there, \<open>find\<close> under that name gives a file whose bytes are those that
  were passed. In every outcome, the error ones included, each file that could be found before
  is still found, with the same entry and the same bytes, and a failed call does not change the number of files.
\<close>

lemma ramfs_add_find:
  assumes "ramfs_ok s" "length data < 2 ^ 60"
  shows "\<exists>s' st. add_file s (Some name) (Some data) = Some (s', st) \<and> ramfs_ok s' \<and>
    (\<forall>other f. ramfs_find s other = Some f \<longrightarrow> ramfs_find s' other = Some f \<and> file_bytes s' f = file_bytes s f) \<and>
    (if st = success
     then ramfs_file_count s' = ramfs_file_count s + 1 \<and>
       (ramfs_find s name = None \<longrightarrow> (\<exists>f. ramfs_find s' name = Some f \<and> file_bytes s' f = data))
     else ramfs_file_count s' = ramfs_file_count s)"
proof -
  have kept: "ramfs_ok s' \<and> (\<forall>other f. ramfs_find s other = Some f \<longrightarrow> ramfs_find s' other = Some f \<and> file_bytes s' f = file_bytes s f)"
    if "ramfs_kept s s'" for s'
    using that ramfs_kept_files [OF assms(1) that] by (simp add: ramfs_kept_def)
  from assms show ?thesis
  proof (cases rule: add_file_outcome [where name = name])
    case (refused s' st)
    then show ?thesis using kept by (simp add: ramfs_file_count_def)
  next
    case (added s' f)
    then show ?thesis using kept by (auto simp: ramfs_file_count_def)
  qed
qed

definition example_ramfs :: ramfs where
  "example_ramfs = fst (ramfs_init \<lparr>g_files = [], g_file_count = 0, g_ready = False, rf_km = example_heap\<rparr>)"

lemma example_ramfs_ok: "ramfs_ok example_ramfs"
  by (simp add: example_ramfs_def ramfs_init_def ramfs_ok_def example_heap_facts(3))

end
