(* ===== verification/Fs.thy ===== *)
theory Fs
  imports Mounts FatFile Ramfs
begin

text \<open>
  The file-system layer of src/core/fs.cpp: the table of open streams over the mounted driver. The
  table of drivers has one entry, FAT32, whose operations are all present, so a driver pointer is
  \<open>Some Fat32\<close> or null and the checks for missing operations fall away. The stream buffers are blocks
  of the kernel heap, which is the heap the RAM file system has its copies in. \<open>task\<close> is the id of
  the current task. Buffers of callers are lists, \<open>None\<close> the null pointer; a result of \<open>None\<close> means
  that the file system below did not return.
\<close>

section \<open>State\<close>

datatype filesystem_driver = Fat32

definition MAX_DIRECT_FILESYSTEM_READ_BYTES :: nat where "MAX_DIRECT_FILESYSTEM_READ_BYTES = 128 * 1024"

record runtime_info =
  ri_fallback_ready :: bool
  ri_mounted :: bool
  ri_writable :: bool
  ri_active_backend :: string
  ri_block_device :: string
  ri_logical_root_path :: string
  ri_bytes_per_sector :: u32
  ri_sectors_per_cluster :: u8
  ri_cluster_size :: u32
  ri_first_data_sector :: u32
  ri_root_cluster :: u32

record fs_directory_entry_info =
  fdi_name :: string
  fdi_is_directory :: bool
  fdi_size :: nat

record open_mode =
  om_valid :: bool
  om_readable :: bool
  om_writable :: bool
  om_create :: bool
  om_truncate :: bool
  om_append :: bool

record kernel_stream =
  ks_driver :: "filesystem_driver option"
  ks_backend_file :: file_descriptor
  ks_owned_buffer :: u64
  ks_path :: string
  ks_owner_task_id :: u64
  ks_size :: u64
  ks_capacity :: u64
  ks_position :: u64
  ks_readable :: bool
  ks_writable :: bool
  ks_append :: bool
  ks_dirty :: bool
  ks_direct_backend :: bool
  ks_eof :: bool
  ks_error :: bool
  ks_in_use :: bool

definition MAX_STREAMS :: nat where "MAX_STREAMS = 64"

record 'w fs_state =
  s_streams :: "kernel_stream list"
  s_fs_initialised :: bool
  s_active_driver :: "filesystem_driver option"
  fs_vol :: "'w mount_state"
  fs_ram :: ramfs
  fs_blocks :: "'w block_registry"

abbreviation fs_km :: "'w fs_state \<Rightarrow> kmemory" where "fs_km s \<equiv> rf_km (fs_ram s)"

definition set_km :: "'w fs_state \<Rightarrow> kmemory \<Rightarrow> 'w fs_state" where
  "set_km s km = s\<lparr>fs_ram := (fs_ram s)\<lparr>rf_km := km\<rparr>\<rparr>"

definition set_stream :: "'w fs_state \<Rightarrow> nat \<Rightarrow> kernel_stream \<Rightarrow> 'w fs_state" where
  "set_stream s i ks = s\<lparr>s_streams := (s_streams s)[i := ks]\<rparr>"

definition zero_stream :: kernel_stream where
  "zero_stream = \<lparr>ks_driver = None, ks_backend_file = empty_descriptor, ks_owned_buffer = 0, ks_path = [], ks_owner_task_id = 0,
     ks_size = 0, ks_capacity = 0, ks_position = 0, ks_readable = False, ks_writable = False, ks_append = False, ks_dirty = False,
     ks_direct_backend = False, ks_eof = False, ks_error = False, ks_in_use = False\<rparr>"

section \<open>The FAT32 driver's entries in the driver table\<close>

definition forward_driver_directory_entry :: "('a \<Rightarrow> fs_directory_entry_info \<Rightarrow> 'a \<times> bool) \<Rightarrow> 'a \<Rightarrow> directory_entry_info \<Rightarrow> 'a \<times> bool" where
  "forward_driver_directory_entry callback context entry =
     (case ss_assign 256 (di_name entry) of
        (False, _) \<Rightarrow> (context, False)
      | (True, name) \<Rightarrow> callback context \<lparr>fdi_name = name, fdi_is_directory = di_is_directory entry, fdi_size = di_size entry\<rparr>)"

definition fat_info :: "'w mount_state \<Rightarrow> 'w mount_state \<times> mount_info" where
  "fat_info st = (let st = (if \<not> ms_initialised st then fat_init st else st) in (st, ms_info st))"

definition fill_driver_runtime_info :: "'w mount_state \<Rightarrow> runtime_info \<Rightarrow> 'w mount_state \<times> runtime_info" where
  "fill_driver_runtime_info st info =
     (let (st, mounted) = fat_info st in
      (st, info\<lparr>ri_mounted := True, ri_writable := mi_writable mounted,
         ri_active_backend := snd (ss_assign 16 (mi_filesystem_name mounted)),
         ri_block_device := snd (ss_assign 32 (mi_block_device mounted)),
         ri_logical_root_path := snd (ss_assign 64 (mi_logical_root_path mounted)),
         ri_bytes_per_sector := mi_bytes_per_sector mounted, ri_sectors_per_cluster := mi_sectors_per_cluster mounted,
         ri_cluster_size := mi_bytes_per_sector mounted * ucast (mi_sectors_per_cluster mounted),
         ri_first_data_sector := mi_first_data_sector mounted, ri_root_cluster := mi_logical_root_cluster mounted\<rparr>))"

definition list_driver_directory ::
  "'w mount_state \<Rightarrow> string \<Rightarrow> ('a \<Rightarrow> fs_directory_entry_info \<Rightarrow> 'a \<times> bool) \<Rightarrow> 'a \<Rightarrow> ('w mount_state \<times> 'a \<times> bool) option" where
  "list_driver_directory st path callback context =
     (if \<not> is_mounted st then Some (st, context, False)
      else list_directory st path (Some (forward_driver_directory_entry callback)) context)"

section \<open>Drivers and streams\<close>

definition mounted_filesystem_driver :: "'w fs_state \<Rightarrow> filesystem_driver option" where
  "mounted_filesystem_driver s = (case s_active_driver s of None \<Rightarrow> None | Some d \<Rightarrow> if is_mounted (fs_vol s) then Some d else None)"

definition mount_supported_partition :: "'w fs_state \<Rightarrow> 'w partition_view \<Rightarrow> 'w fs_state \<times> bool" where
  "mount_supported_partition s view =
     (let (vol, st) = mount_partition (fs_vol s) (pv_device view) (pv_start_lba view) in
      if st \<noteq> success then (s\<lparr>fs_vol := vol\<rparr>, False) else (s\<lparr>fs_vol := vol, s_active_driver := Some Fat32\<rparr>, True))"

definition reset_stream :: "kmemory \<Rightarrow> kernel_stream \<Rightarrow> kmemory \<times> kernel_stream" where
  "reset_stream km stream = (if ks_owned_buffer stream \<noteq> 0 then kh_free km (ks_owned_buffer stream) else km, zero_stream)"

fun scan_mode :: "string \<Rightarrow> char option \<Rightarrow> bool \<Rightarrow> (char option \<times> bool) option" where
  "scan_mode [] first has_plus = Some (first, has_plus)"
| "scan_mode (ch # cs) first has_plus =
     (if first = None \<and> ch \<in> set ''rwa'' then scan_mode cs (Some ch) has_plus
      else if ch = CHR ''+'' then scan_mode cs first True
      else if ch \<in> set ''bt'' then scan_mode cs first has_plus
      else if ch \<in> set ''rwa'' then None
      else scan_mode cs first has_plus)"

definition no_mode :: open_mode where
  "no_mode = \<lparr>om_valid = False, om_readable = False, om_writable = False, om_create = False, om_truncate = False, om_append = False\<rparr>"

definition parse_mode :: "string option \<Rightarrow> open_mode" where
  "parse_mode mode_string =
     (case mode_string of
        None \<Rightarrow> no_mode
      | Some str \<Rightarrow>
          if str = [] then no_mode
          else case scan_mode str None False of
              None \<Rightarrow> no_mode
            | Some (first, has_plus) \<Rightarrow>
                if first = Some (CHR ''r'') then no_mode\<lparr>om_valid := True, om_readable := True, om_writable := has_plus\<rparr>
                else if first = Some (CHR ''w'') then no_mode\<lparr>om_valid := True, om_readable := has_plus, om_writable := True, om_create := True, om_truncate := True\<rparr>
                else if first = Some (CHR ''a'') then no_mode\<lparr>om_valid := True, om_readable := has_plus, om_writable := True, om_create := True, om_append := True\<rparr>
                else no_mode)"

fun fs_strip :: "string \<Rightarrow> string" where
  "fs_strip (a # b # path) = (if a = CHR ''.'' \<and> is_separator b then fs_strip path else a # b # path)"
| "fs_strip path = path"

definition fs_normalize_path :: "string \<Rightarrow> string" where
  "fs_normalize_path raw =
     (let path = fs_strip raw in
      if CHR 0x5C \<notin> set path then path
      else if length path \<ge> 256 then []
      else snd (ss_assign 256 (map (\<lambda>c. if c = CHR 0x5C then CHR ''/'' else c) path)))"

text \<open>The bytes of a heap block from an address on.\<close>

definition heap_bytes :: "kmemory \<Rightarrow> u64 \<Rightarrow> nat \<Rightarrow> u8 list" where
  "heap_bytes km p n = map (\<lambda>i. kh_mem (km_heap km) (p + word_of_nat i)) [0..<n]"

text \<open>\<open>stream_data\<close> when the stream is not empty: the buffer, or null for a direct stream.\<close>

definition stream_data :: "kernel_stream \<Rightarrow> u64" where
  "stream_data stream = (if ks_direct_backend stream then 0 else ks_owned_buffer stream)"

function grow_capacity :: "u64 \<Rightarrow> u64 \<Rightarrow> u64" where
  "grow_capacity new_capacity required =
     (if \<not> new_capacity < required then new_capacity
      else if new_capacity * 2 \<le> new_capacity then required
      else grow_capacity (new_capacity * 2) required)"
  by auto

termination
  by (relation "measure (\<lambda>(c, r). 2 ^ 64 - unat c)")
    (auto simp: word_le_nat_alt word_less_nat_alt intro!: diff_less_mono2)

declare grow_capacity.simps [simp del]

definition ensure_capacity :: "kmemory \<Rightarrow> kernel_stream \<Rightarrow> u64 \<Rightarrow> (kmemory \<times> kernel_stream \<times> bool) option" where
  "ensure_capacity km stream required =
     (if required \<le> ks_capacity stream then Some (km, stream, True)
      else
        let new_capacity = grow_capacity (if ks_capacity stream > 0 then ks_capacity stream else 256) required in
        do {
          (km, new_buffer) \<leftarrow> kh_allocate km new_capacity;
          if new_buffer = 0 then Some (km, stream, False)
          else
            let km = (if ks_size stream > 0 \<and> stream_data stream \<noteq> 0
                      then store km new_buffer (heap_bytes km (stream_data stream) (unat (ks_size stream))) else km);
                km = (if ks_owned_buffer stream \<noteq> 0 then kh_free km (ks_owned_buffer stream) else km)
            in Some (km, stream\<lparr>ks_owned_buffer := new_buffer, ks_capacity := new_capacity, ks_direct_backend := False\<rparr>, True)
        })"

definition stream_accessible_to_current_task :: "u64 \<Rightarrow> kernel_stream \<Rightarrow> bool" where
  "stream_accessible_to_current_task task stream \<longleftrightarrow> ks_owner_task_id stream = 0 \<or> task = 0 \<or> ks_owner_task_id stream = task"

definition handle_from_id :: "'w fs_state \<Rightarrow> u64 \<Rightarrow> u64 \<Rightarrow> nat option" where
  "handle_from_id s task handle =
     (if handle = 0 \<or> unat handle > MAX_STREAMS then None
      else
        let i = unat (handle - 1) in
        if \<not> ks_in_use (s_streams s ! i) \<or> \<not> stream_accessible_to_current_task task (s_streams s ! i) then None else Some i)"

section \<open>Calls to the driver\<close>

definition with_vol :: "'w fs_state \<Rightarrow> ('w mount_state \<times> 'a) option \<Rightarrow> ('w fs_state \<times> 'a) option" where
  "with_vol s r = map_option (\<lambda>(vol, x). (s\<lparr>fs_vol := vol\<rparr>, x)) r"

definition try_backend_file_exists :: "'w fs_state \<Rightarrow> string \<Rightarrow> ('w fs_state \<times> bool) option" where
  "try_backend_file_exists s path =
     (case mounted_filesystem_driver s of None \<Rightarrow> Some (s, False) | Some Fat32 \<Rightarrow> with_vol s (fat_file_exists (fs_vol s) path))"

definition try_backend_file_size :: "'w fs_state \<Rightarrow> string \<Rightarrow> ('w fs_state \<times> nat) option" where
  "try_backend_file_size s path =
     (case mounted_filesystem_driver s of None \<Rightarrow> Some (s, 0) | Some Fat32 \<Rightarrow> with_vol s (file_size (fs_vol s) path))"

definition try_backend_directory_exists :: "'w fs_state \<Rightarrow> string \<Rightarrow> ('w fs_state \<times> bool) option" where
  "try_backend_directory_exists s path =
     (case mounted_filesystem_driver s of None \<Rightarrow> Some (s, False) | Some Fat32 \<Rightarrow> with_vol s (directory_exists (fs_vol s) path))"

definition try_backend_open_file :: "'w fs_state \<Rightarrow> string \<Rightarrow> ('w fs_state \<times> file_descriptor \<times> bool) option" where
  "try_backend_open_file s path =
     (case mounted_filesystem_driver s of None \<Rightarrow> Some (s, empty_descriptor, False) | Some Fat32 \<Rightarrow> with_vol s (open_file (fs_vol s) path))"

definition try_backend_read_file :: "'w fs_state \<Rightarrow> string \<Rightarrow> ('w fs_state \<times> (file_data \<times> nat) option) option" where
  "try_backend_read_file s path =
     (case mounted_filesystem_driver s of
        None \<Rightarrow> Some (s, None)
      | Some Fat32 \<Rightarrow> map_option (\<lambda>(vol, km, r). (set_km (s\<lparr>fs_vol := vol\<rparr>) km, r)) (fat_read_file (fs_vol s) (fs_km s) path))"

definition try_backend_remove_file :: "'w fs_state \<Rightarrow> string \<Rightarrow> ('w fs_state \<times> bool) option" where
  "try_backend_remove_file s path =
     (case mounted_filesystem_driver s of None \<Rightarrow> Some (s, False) | Some Fat32 \<Rightarrow> with_vol s (remove_file (fs_vol s) path))"

definition try_backend_list_directory ::
  "'w fs_state \<Rightarrow> string \<Rightarrow> ('a \<Rightarrow> fs_directory_entry_info \<Rightarrow> 'a \<times> bool) option \<Rightarrow> 'a \<Rightarrow> ('w fs_state \<times> 'a \<times> bool) option" where
  "try_backend_list_directory s path callback context =
     (case (mounted_filesystem_driver s, callback) of
        (Some Fat32, Some f) \<Rightarrow> with_vol s (list_driver_directory (fs_vol s) path f context)
      | _ \<Rightarrow> Some (s, context, False))"

definition is_backup_shell_request :: "string \<Rightarrow> bool" where
  "is_backup_shell_request path = sv_compare path ''/bin/shell.vbin''"

definition find_backup_shell :: "'w fs_state \<Rightarrow> string \<Rightarrow> file_entry option" where
  "find_backup_shell s path = (if \<not> is_backup_shell_request path then None else ramfs_find (fs_ram s) ''/bin/shell.vbin'')"

text \<open>Closing writes a dirty stream back; a failed write keeps the stream open.\<close>

definition close_stream :: "'w fs_state \<Rightarrow> nat \<Rightarrow> ('w fs_state \<times> int) option" where
  "close_stream s i =
     (let stream = s_streams s ! i;
          data = (if ks_size stream > 0 \<and> stream_data stream \<noteq> 0
                  then Some (heap_bytes (fs_km s) (stream_data stream) (unat (ks_size stream))) else None)
      in do {
        (s, flushed) \<leftarrow> (if ks_driver stream \<noteq> None \<and> ks_dirty stream
                         then with_vol s (write_file (fs_vol s) (ks_path stream) data (unat (ks_size stream))) else Some (s, True));
        if \<not> flushed then Some (set_stream s i (stream\<lparr>ks_error := True\<rparr>), - 1)
        else
          let (km, stream) = reset_stream (fs_km s) stream
          in Some (set_stream (set_km s km) i stream, 0)
      })"

section \<open>The interface\<close>

fun reset_streams :: "kmemory \<Rightarrow> kernel_stream list \<Rightarrow> kmemory \<times> kernel_stream list" where
  "reset_streams km [] = (km, [])"
| "reset_streams km (ks # kss) =
     (let (km, ks) = reset_stream km ks; (km, kss) = reset_streams km kss in (km, ks # kss))"

definition fs_init :: "'w fs_state \<Rightarrow> 'w fs_state" where
  "fs_init s =
     (if s_fs_initialised s then s
      else
        let (km, kss) = reset_streams (fs_km s) (s_streams s)
        in (set_km s km)\<lparr>s_streams := kss, fs_vol := fat_init (fs_vol s), s_active_driver := None, s_fs_initialised := True\<rparr>)"

definition mount_boot_filesystem :: "'w fs_state \<Rightarrow> 'w fs_state \<times> status_code" where
  "mount_boot_filesystem s =
     (let s = (if \<not> s_fs_initialised s then fs_init s else s);
          s = s\<lparr>s_active_driver := None\<rparr>;
          callback = (\<lambda>(w, s) view.
            let (s, ok) = mount_supported_partition (s\<lparr>fs_vol := (fs_vol s)\<lparr>ms_world := w\<rparr>\<rparr>) view
            in ((ms_world (fs_vol s), s), ok));
          ((w, s), rc) = mount_gpt_partition_index (fs_blocks s) 1 (Some callback) (ms_world (fs_vol s), s)
      in (s\<lparr>fs_vol := (fs_vol s)\<lparr>ms_world := w\<rparr>\<rparr>, rc))"

definition query_info :: "'w fs_state \<Rightarrow> 'w fs_state \<times> runtime_info" where
  "query_info s =
     (let info = \<lparr>ri_fallback_ready = ramfs_is_ready (fs_ram s), ri_mounted = False, ri_writable = False, ri_active_backend = [], ri_block_device = [],
            ri_logical_root_path = [], ri_bytes_per_sector = 0, ri_sectors_per_cluster = 0, ri_cluster_size = 0, ri_first_data_sector = 0, ri_root_cluster = 0\<rparr>
      in case mounted_filesystem_driver s of
           Some Fat32 \<Rightarrow> (let (vol, info) = fill_driver_runtime_info (fs_vol s) info in (s\<lparr>fs_vol := vol\<rparr>, info))
         | None \<Rightarrow> (s, info\<lparr>ri_active_backend := snd (ss_assign 16 ''none'')\<rparr>))"

definition fs_file_exists :: "'w fs_state \<Rightarrow> string option \<Rightarrow> ('w fs_state \<times> bool) option" where
  "fs_file_exists s path = (case path of None \<Rightarrow> Some (s, False) | Some path \<Rightarrow> try_backend_file_exists s (fs_normalize_path path))"

definition fs_file_size :: "'w fs_state \<Rightarrow> string option \<Rightarrow> ('w fs_state \<times> nat) option" where
  "fs_file_size s path =
     (case path of
        None \<Rightarrow> Some (s, 0)
      | Some path \<Rightarrow> do {
          (s, n) \<leftarrow> try_backend_file_size s (fs_normalize_path path);
          if n > 0 then Some (s, n)
          else do {
            (s, found) \<leftarrow> try_backend_file_exists s (fs_normalize_path path);
            Some (s, if found then n else 0)
          }
        })"

definition fs_directory_exists :: "'w fs_state \<Rightarrow> string option \<Rightarrow> ('w fs_state \<times> bool) option" where
  "fs_directory_exists s path = (case path of None \<Rightarrow> Some (s, False) | Some path \<Rightarrow> try_backend_directory_exists s (fs_normalize_path path))"

definition fs_list_directory ::
  "'w fs_state \<Rightarrow> string option \<Rightarrow> ('a \<Rightarrow> fs_directory_entry_info \<Rightarrow> 'a \<times> bool) option \<Rightarrow> 'a \<Rightarrow> ('w fs_state \<times> 'a \<times> bool) option" where
  "fs_list_directory s path callback context =
     (let s = (if \<not> s_fs_initialised s then fs_init s else s) in
      case (path, callback) of
        (Some path, Some f) \<Rightarrow> try_backend_list_directory s (fs_normalize_path path) (Some f) context
      | _ \<Rightarrow> Some (s, context, False))"

text \<open>\<open>load_file\<close>: the driver's copy in the heap, or the shell of the RAM file system.\<close>

datatype loaded_data = Loaded_empty | Loaded u64

definition load_file :: "'w fs_state \<Rightarrow> string \<Rightarrow> ('w fs_state \<times> (loaded_data \<times> nat) option) option" where
  "load_file s path =
     (let normalized = fs_normalize_path path in do {
        (s, r) \<leftarrow> try_backend_read_file s normalized;
        case r of
          Some (Owned p, n) \<Rightarrow> Some (s, Some (Loaded p, n))
        | Some (Empty_marker, n) \<Rightarrow> Some (s, Some (Loaded_empty, n))
        | None \<Rightarrow>
            Some (s, map_option (\<lambda>entry. (if fe_size entry > 0 then Loaded (fe_data entry) else Loaded_empty, fe_size entry))
                       (find_backup_shell s normalized))
      })"

end
