(* ===== verification/FsStream.thy ===== *)
theory FsStream
  imports Fs
begin

text \<open>
  The operations on open streams of src/core/fs.cpp: open, close, read, write, seek, tell, truncate,
  remove. A handle is the index of a stream plus one. Signed offsets are words read with \<open>sint\<close>.
\<close>

text \<open>The part of \<open>file_open\<close> for a mode that writes: the file is read into a buffer of the stream.\<close>

definition open_writable :: "'w fs_state \<Rightarrow> nat \<Rightarrow> kernel_stream \<Rightarrow> open_mode \<Rightarrow> string \<Rightarrow> ('w fs_state \<times> u64) option" where
  "open_writable s i stream mode normalized =
     (case mounted_filesystem_driver s of
        None \<Rightarrow> (let (km, stream) = reset_stream (fs_km s) stream in Some (set_stream (set_km s km) i stream, 0))
      | Some driver \<Rightarrow>
          let stream = stream\<lparr>ks_driver := Some driver\<rparr> in do {
            (s, r) \<leftarrow> try_backend_read_file s normalized;
            if r = None \<and> \<not> om_create mode
            then (let (km, stream) = reset_stream (fs_km s) stream in Some (set_stream (set_km s km) i stream, 0))
            else
              let owned = (case r of Some (Owned p, _) \<Rightarrow> p | _ \<Rightarrow> 0);
                  n = (case r of Some (_, n) \<Rightarrow> n | None \<Rightarrow> 0);
                  keep = (r \<noteq> None \<and> \<not> om_truncate mode);
                  stream = (if keep then stream\<lparr>ks_owned_buffer := owned, ks_size := word_of_nat n, ks_capacity := word_of_nat n\<rparr> else stream);
                  km = (if keep then fs_km s else kh_free (fs_km s) owned);
                  stream = (if om_truncate mode then stream\<lparr>ks_size := 0, ks_capacity := 0\<rparr> else stream);
                  stream = stream\<lparr>ks_position := (if om_append mode then ks_size stream else 0)\<rparr>
              in Some (set_stream (set_km s km) i stream, word_of_nat (i + 1))
          })"

text \<open>The part for reading only: the driver's descriptor serves the reads.\<close>

definition open_direct :: "'w fs_state \<Rightarrow> nat \<Rightarrow> kernel_stream \<Rightarrow> string \<Rightarrow> ('w fs_state \<times> u64) option" where
  "open_direct s i stream normalized = do {
     (s, backend_file, opened) \<leftarrow> try_backend_open_file s normalized;
     if opened then do {
       (s, n) \<leftarrow> try_backend_file_size s normalized;
       Some (set_stream s i (stream\<lparr>ks_driver := mounted_filesystem_driver s, ks_backend_file := backend_file, ks_direct_backend := True,
              ks_size := word_of_nat n, ks_capacity := word_of_nat n, ks_position := 0, ks_eof := (n = 0)\<rparr>), word_of_nat (i + 1))
     }
     else
       let (km, stream) = reset_stream (fs_km s) stream
       in Some (set_stream (set_km s km) i stream, 0)
   }"

definition free_stream :: "kernel_stream list \<Rightarrow> nat option" where
  "free_stream kss = find (\<lambda>i. \<not> ks_in_use (kss ! i)) [0..<MAX_STREAMS]"

definition file_open :: "'w fs_state \<Rightarrow> u64 \<Rightarrow> string option \<Rightarrow> string option \<Rightarrow> ('w fs_state \<times> u64) option" where
  "file_open s task path mode_string =
     (let s = (if \<not> s_fs_initialised s then fs_init s else s);
          mode = parse_mode mode_string
      in case path of
           None \<Rightarrow> Some (s, 0)
         | Some path \<Rightarrow>
             if \<not> om_valid mode then Some (s, 0)
             else
               let normalized = fs_normalize_path path in
               if normalized = [] then Some (s, 0)
               else case free_stream (s_streams s) of
                   None \<Rightarrow> Some (s, 0)
                 | Some i \<Rightarrow>
                     let (km, stream) = reset_stream (fs_km s) (s_streams s ! i);
                         s = set_km s km;
                         (ok, stored) = ss_assign 256 normalized;
                         stream = stream\<lparr>ks_in_use := True, ks_owner_task_id := task, ks_readable := om_readable mode, ks_writable := om_writable mode,
                           ks_append := om_append mode, ks_eof := False, ks_error := False, ks_path := stored\<rparr>
                     in if \<not> ok then (let (km, stream) = reset_stream (fs_km s) stream in Some (set_stream (set_km s km) i stream, 0))
                        else if om_writable mode then open_writable s i stream mode normalized
                        else open_direct s i stream normalized)"

definition file_close :: "'w fs_state \<Rightarrow> u64 \<Rightarrow> u64 \<Rightarrow> ('w fs_state \<times> int) option" where
  "file_close s task handle =
     (case handle_from_id s task handle of None \<Rightarrow> Some (s, - 1) | Some i \<Rightarrow> close_stream s i)"

fun close_task_streams :: "'w fs_state \<Rightarrow> u64 \<Rightarrow> nat list \<Rightarrow> 'w fs_state option" where
  "close_task_streams s task_id [] = Some s"
| "close_task_streams s task_id (i # is) =
     (if \<not> ks_in_use (s_streams s ! i) \<or> ks_owner_task_id (s_streams s ! i) \<noteq> task_id then close_task_streams s task_id is
      else do {
        (s, rc) \<leftarrow> close_stream s i;
        let (km, stream) = (if rc \<noteq> 0 then reset_stream (fs_km s) (s_streams s ! i) else (fs_km s, s_streams s ! i));
        close_task_streams (set_stream (set_km s km) i stream) task_id is
      })"

definition close_all_for_task :: "'w fs_state \<Rightarrow> u64 \<Rightarrow> 'w fs_state option" where
  "close_all_for_task s task_id = (if task_id = 0 then Some s else close_task_streams s task_id [0..<MAX_STREAMS])"

definition file_read :: "'w fs_state \<Rightarrow> u64 \<Rightarrow> u64 \<Rightarrow> u8 list option \<Rightarrow> u64 \<Rightarrow> ('w fs_state \<times> u8 list option \<times> u64) option" where
  "file_read s task handle buf buf_size =
     (case (handle_from_id s task handle, buf) of
        (Some i, Some b) \<Rightarrow>
          let stream = s_streams s ! i in
          if \<not> ks_readable stream then Some (s, buf, 0)
          else if ks_position stream \<ge> ks_size stream then Some (set_stream s i (stream\<lparr>ks_eof := True\<rparr>), buf, 0)
          else
            let remaining = ks_size stream - ks_position stream;
                to_copy = (if remaining < buf_size then remaining else buf_size)
            in if ks_driver stream \<noteq> None \<and> ks_direct_backend stream then
                 let to_copy = (if unat to_copy > MAX_DIRECT_FILESYSTEM_READ_BYTES then word_of_nat MAX_DIRECT_FILESYSTEM_READ_BYTES else to_copy)
                 in do {
                   (vol, backend_file, buf, read_count, ok) \<leftarrow>
                     fat_read_range (fs_vol s) (ks_backend_file stream) (unat (ks_position stream)) (Some b) (unat to_copy);
                   let s = s\<lparr>fs_vol := vol\<rparr>;
                   let stream = stream\<lparr>ks_backend_file := backend_file\<rparr>;
                   if \<not> ok then Some (set_stream s i (stream\<lparr>ks_error := True\<rparr>), buf, 0)
                   else
                     let stream = stream\<lparr>ks_position := ks_position stream + word_of_nat read_count\<rparr>
                     in Some (set_stream s i (stream\<lparr>ks_eof := (ks_position stream \<ge> ks_size stream)\<rparr>), buf, word_of_nat read_count)
                 }
               else
                 let b = (if to_copy > 0 \<and> stream_data stream \<noteq> 0
                          then splice_at b 0 (heap_bytes (fs_km s) (stream_data stream + ks_position stream) (unat to_copy)) else b);
                     stream = stream\<lparr>ks_position := ks_position stream + to_copy\<rparr>
                 in Some (set_stream s i (stream\<lparr>ks_eof := (ks_position stream \<ge> ks_size stream)\<rparr>), Some b, to_copy)
      | _ \<Rightarrow> Some (s, buf, 0))"

text \<open>Filling the gap behind the end with zeros, when the position is beyond it.\<close>

definition extend_stream :: "kmemory \<Rightarrow> kernel_stream \<Rightarrow> u64 \<Rightarrow> (kmemory \<times> kernel_stream \<times> bool) option" where
  "extend_stream km stream n =
     (if n > ks_size stream then do {
        (km, stream, ok) \<leftarrow> ensure_capacity km stream n;
        if \<not> ok then Some (km, stream\<lparr>ks_error := True\<rparr>, False)
        else Some (store km (ks_owned_buffer stream + ks_size stream) (replicate (unat (n - ks_size stream)) 0), stream\<lparr>ks_size := n\<rparr>, True)
      }
      else Some (km, stream, True))"

definition file_write :: "'w fs_state \<Rightarrow> u64 \<Rightarrow> u64 \<Rightarrow> u8 list option \<Rightarrow> u64 \<Rightarrow> ('w fs_state \<times> u64) option" where
  "file_write s task handle buf buf_size =
     (case (handle_from_id s task handle, buf) of
        (Some i, Some b) \<Rightarrow>
          let stream = s_streams s ! i in
          if \<not> ks_writable stream then Some (s, 0)
          else
            let stream = (if ks_append stream then stream\<lparr>ks_position := ks_size stream\<rparr> else stream) in do {
              (km, stream, ok) \<leftarrow> extend_stream (fs_km s) stream (ks_position stream);
              if \<not> ok then Some (set_stream (set_km s km) i stream, 0)
              else
                let end_position = ks_position stream + buf_size in do {
                  (km, stream, ok) \<leftarrow> (if end_position < ks_position stream then Some (km, stream, False) else ensure_capacity km stream end_position);
                  if \<not> ok then Some (set_stream (set_km s km) i (stream\<lparr>ks_error := True\<rparr>), 0)
                  else
                    let km = store km (ks_owned_buffer stream + ks_position stream) (take (unat buf_size) b);
                        stream = stream\<lparr>ks_position := end_position\<rparr>;
                        stream = (if ks_position stream > ks_size stream then stream\<lparr>ks_size := ks_position stream\<rparr> else stream);
                        stream = stream\<lparr>ks_dirty := True, ks_eof := (ks_position stream \<ge> ks_size stream)\<rparr>
                    in Some (set_stream (set_km s km) i stream, buf_size)
                }
            }
      | _ \<Rightarrow> Some (s, 0))"

definition file_seek :: "'w fs_state \<Rightarrow> u64 \<Rightarrow> u64 \<Rightarrow> u64 \<Rightarrow> int \<Rightarrow> 'w fs_state \<times> int" where
  "file_seek s task handle offset whence =
     (case handle_from_id s task handle of
        None \<Rightarrow> (s, - 1)
      | Some i \<Rightarrow>
          let stream = s_streams s ! i in
          if whence \<noteq> 0 \<and> whence \<noteq> 1 \<and> whence \<noteq> 2 then (set_stream s i (stream\<lparr>ks_error := True\<rparr>), - 1)
          else
            let base = (if whence = 0 then 0 else if whence = 1 then ks_position stream else ks_size stream);
                target = base + offset
            in if sint target < 0 then (set_stream s i (stream\<lparr>ks_error := True\<rparr>), - 1)
               else
                 let stream = stream\<lparr>ks_position := target\<rparr>
                 in (set_stream s i (stream\<lparr>ks_eof := (ks_position stream \<ge> ks_size stream)\<rparr>), 0))"

definition file_tell :: "'w fs_state \<Rightarrow> u64 \<Rightarrow> u64 \<Rightarrow> int" where
  "file_tell s task handle = (case handle_from_id s task handle of None \<Rightarrow> - 1 | Some i \<Rightarrow> sint (ks_position (s_streams s ! i)))"

definition file_truncate :: "'w fs_state \<Rightarrow> u64 \<Rightarrow> u64 \<Rightarrow> u64 \<Rightarrow> ('w fs_state \<times> int) option" where
  "file_truncate s task handle len =
     (case handle_from_id s task handle of
        None \<Rightarrow> Some (s, - 1)
      | Some i \<Rightarrow>
          let stream = s_streams s ! i in
          if \<not> ks_writable stream \<or> sint len < 0 then Some (s, - 1)
          else do {
            (km, stream, ok) \<leftarrow> extend_stream (fs_km s) stream len;
            if \<not> ok then Some (set_stream (set_km s km) i stream, - 1)
            else
              let stream = stream\<lparr>ks_size := len\<rparr>;
                  stream = (if ks_position stream > ks_size stream then stream\<lparr>ks_position := ks_size stream\<rparr> else stream)
              in Some (set_stream (set_km s km) i (stream\<lparr>ks_dirty := True, ks_eof := (ks_position stream \<ge> ks_size stream)\<rparr>), 0)
          })"

definition file_remove :: "'w fs_state \<Rightarrow> string option \<Rightarrow> ('w fs_state \<times> int) option" where
  "file_remove s path =
     (case path of
        None \<Rightarrow> Some (s, - 1)
      | Some path \<Rightarrow> do {
          (s, removed) \<leftarrow> try_backend_remove_file s (fs_normalize_path path);
          Some (s, if removed then 0 else - 1)
        })"

end
