(* ===== verification/HeapFrame.thy ===== *)
theory HeapFrame
  imports FsStream
begin

text \<open>
  What clients of the kernel heap keep: \<open>heap_frame km km' A\<close> says that every live block outside \<open>A\<close>
  stays live, with its bytes. Allocation, release and stores into a block are frames, and frames
  compose.
\<close>

definition heap_frame :: "kmemory \<Rightarrow> kmemory \<Rightarrow> u64 set \<Rightarrow> bool" where
  "heap_frame km km' A \<longleftrightarrow> km_inv km' \<and> (\<forall>q. q \<notin> A \<longrightarrow> kh_live km q \<noteq> {} \<longrightarrow>
     kh_live km' q = kh_live km q \<and> (\<forall>x. unat x \<in> kh_live km q \<longrightarrow> kh_mem (km_heap km') x = kh_mem (km_heap km) x))"

definition block_of :: "kmemory \<Rightarrow> u64 \<Rightarrow> nat \<Rightarrow> bool" where
  "block_of km p n \<longleftrightarrow> {unat p ..< unat p + n} \<subseteq> kh_live km p"

lemma block_of_le: "block_of km p n \<Longrightarrow> m \<le> n \<Longrightarrow> block_of km p m"
  by (auto simp: block_of_def)

lemma block_of_live: "block_of km p n \<Longrightarrow> 0 < n \<Longrightarrow> kh_live km p \<noteq> {}"
  by (fastforce simp: block_of_def)

lemma heap_frame_inv: "heap_frame km km' A \<Longrightarrow> km_inv km'"
  by (simp add: heap_frame_def)

lemma heap_frame_refl: "km_inv km \<Longrightarrow> heap_frame km km A"
  by (simp add: heap_frame_def)

lemma heap_frame_mono: "heap_frame km km' A \<Longrightarrow> A \<subseteq> B \<Longrightarrow> heap_frame km km' B"
  by (auto simp: heap_frame_def)

lemma heap_frame_trans:
  assumes "heap_frame a b A" "heap_frame b c B" "\<And>q. q \<in> B \<Longrightarrow> q \<notin> A \<Longrightarrow> kh_live a q = {}"
  shows "heap_frame a c A"
  unfolding heap_frame_def
proof (intro conjI allI impI)
  show "km_inv c" using assms(2) by (simp add: heap_frame_def)
  fix q assume q: "q \<notin> A" "kh_live a q \<noteq> {}"
  then have ab: "kh_live b q = kh_live a q" "\<forall>x. unat x \<in> kh_live a q \<longrightarrow> kh_mem (km_heap b) x = kh_mem (km_heap a) x"
    using assms(1) unfolding heap_frame_def by metis+
  have "q \<notin> B" "kh_live b q \<noteq> {}" using assms(3) q ab(1) by auto
  then have bc: "kh_live c q = kh_live b q" "\<forall>x. unat x \<in> kh_live b q \<longrightarrow> kh_mem (km_heap c) x = kh_mem (km_heap b) x"
    using assms(2) unfolding heap_frame_def by metis+
  show "kh_live c q = kh_live a q" using ab bc by simp
  show "kh_mem (km_heap c) x = kh_mem (km_heap a) x" if "unat x \<in> kh_live a q" for x using ab bc that by simp
qed

lemma heap_frame_block: "heap_frame km km' A \<Longrightarrow> q \<notin> A \<Longrightarrow> block_of km q n \<Longrightarrow> block_of km' q n"
  by (cases "n = 0") (auto simp: heap_frame_def block_of_def dest: block_of_live [unfolded block_of_def])

lemma heap_bytes_0 [simp]: "heap_bytes km p 0 = []"
  by (simp add: heap_bytes_def)

lemma length_heap_bytes [simp]: "length (heap_bytes km p n) = n"
  by (simp add: heap_bytes_def)

lemma nth_heap_bytes [simp]: "i < n \<Longrightarrow> heap_bytes km p n ! i = kh_mem (km_heap km) (p + word_of_nat i)"
  by (simp add: heap_bytes_def)

lemma heap_frame_bytes:
  assumes f: "heap_frame km km' A" "q \<notin> A" and i: "km_inv km" and b: "block_of km q n"
  shows "heap_bytes km' q n = heap_bytes km q n"
proof (rule nth_equalityI)
  fix j assume "j < length (heap_bytes km' q n)"
  then have j: "j < n" by simp
  note L = live_address [OF b [unfolded block_of_def] i j]
  then have "kh_live km q \<noteq> {}" by blast
  then show "heap_bytes km' q n ! j = heap_bytes km q n ! j" using f L j by (simp add: heap_frame_def)
qed simp

lemma heap_frame_alloc:
  assumes i: "km_inv km" and n: "0 < unat n" "unat n \<le> 2 ^ 60" and a: "kh_allocate km n = Some (km', p)"
  shows "heap_frame km km' {}" "p \<noteq> 0 \<Longrightarrow> kh_live km p = {} \<and> block_of km' p (unat n)"
proof -
  have v: "heap_valid (Plain n)" using n by (auto simp: unat_gt_0)
  have al: "heap_alloc km (Plain n) = Some (km', p)" using a by simp
  have "kh_live km' q = kh_live km q" "km_inv km'" if "kh_live km q \<noteq> {}" for q
    using heap.alloc_none [OF i v] heap.alloc_some [OF i v al] heap.alloc_inv [OF i v al] al that by (cases "p = 0"; auto; metis)+
  moreover have "km_inv km'" by (rule heap.alloc_inv [OF i v al])
  ultimately show "heap_frame km km' {}" using allocate_keeps_live [OF i a n(2)] by (auto simp: heap_frame_def)
  show "p \<noteq> 0 \<Longrightarrow> kh_live km p = {} \<and> block_of km' p (unat n)" using heap.alloc_some [OF i v al] by (simp add: block_of_def)
qed

lemma heap_frame_free:
  assumes "km_inv km" "kh_live km p \<noteq> {}" shows "heap_frame km (kh_free km p) {p}"
  using kh_free_live [OF assms] by (auto simp: heap_frame_def kh_free_def)

lemma live_bound:
  assumes i: "km_inv km" and b: "block_of km p n" "0 < n" shows "unat p + n \<le> 2 ^ 52"
proof -
  obtain ns where ok: "km_ok km ns" using i by (auto simp: km_inv_def)
  have "unat p + (n - 1) \<in> kh_live km p" using b by (auto simp: block_of_def)
  then obtain m s where m: "(m, s) \<in> km_used km ns" "unat p + (n - 1) < unat m + 32 + unat s" unfolding kh_live_eq [OF ok] by blast
  have "kh_rel (kh_hdr (km_heap km)) (kh_free_list (km_heap km)) ns" using ok by (simp add: km_ok_def)
  from used_block_bounds(5) [OF this m(1)] show ?thesis using m(2) b(2) by linarith
qed

lemma heap_frame_store:
  assumes i: "km_inv km" and b: "block_of km p n" and d: "off + length data \<le> n"
  shows "heap_frame km (store km (p + word_of_nat off) data) {p}" "kh_live (store km (p + word_of_nat off) data) = kh_live km"
    "heap_bytes (store km (p + word_of_nat off) data) p n = splice_at (heap_bytes km p n) off data"
proof -
  let ?a = "p + word_of_nat off"
  have n: "n < 2 ^ 64" using live_bound [OF i b] by (cases "n = 0") auto
  then have len: "length data \<le> 2 ^ 64" using d by simp
  have hit: "unat x \<in> kh_live km p" if "unat (x - ?a) < length data" for x
  proof -
    define k where "k = off + unat (x - ?a)"
    then have x: "x = p + word_of_nat k" and k: "k < n" using that d by simp_all
    from live_address [OF b [unfolded block_of_def] i k] show ?thesis unfolding x by simp
  qed
  show live: "kh_live (store km ?a data) = kh_live km" by (simp add: store_keeps_structure)
  have "kh_mem (km_heap (store km ?a data)) x = kh_mem (km_heap km) x" if "q \<noteq> p" "unat x \<in> kh_live km q" for q x
    using hit [of x] kh_live_disjoint [OF i that(1)] that(2) by (auto simp: write_bytes_at [OF len])
  then show "heap_frame km (store km ?a data) {p}" using live i by (auto simp: heap_frame_def store_keeps_structure)
  show "heap_bytes (store km ?a data) p n = splice_at (heap_bytes km p n) off data"
  proof (rule nth_equalityI)
    show "length (heap_bytes (store km ?a data) p n) = length (splice_at (heap_bytes km p n) off data)" using d by (simp add: splice_at_def)
    fix j assume "j < length (heap_bytes (store km ?a data) p n)"
    then have j: "j < n" by simp
    have "unat (p + word_of_nat j - ?a) = (if off \<le> j then j - off else 2 ^ 64 - (off - j))"
    proof (cases "off \<le> j")
      case True
      then have "p + word_of_nat j - ?a = word_of_nat (j - off)" by (simp add: of_nat_diff)
      then have "unat (p + word_of_nat j - ?a) = unat (word_of_nat (j - off) :: u64)" by (rule arg_cong)
      also have "\<dots> = j - off" using j n by (simp only: unat_of_nat) simp
      finally show ?thesis using True by simp
    next
      case False
      then have "p + word_of_nat j - ?a = - word_of_nat (off - j)" by (simp add: of_nat_diff)
      moreover have "unat (word_of_nat (off - j) :: u64) = off - j" using d n by (simp add: unat_of_nat)
      moreover have "word_of_nat (off - j) \<noteq> (0 :: u64)" using False calculation(2) by auto
      ultimately show ?thesis using False unat_sub_if' [of 0 "word_of_nat (off - j) :: u64"] by (simp del: of_nat_diff)
    qed
    then have "heap_bytes (store km ?a data) p n ! j = (if off \<le> j \<and> j < off + length data then data ! (j - off) else heap_bytes km p n ! j)"
      using j d n by (auto simp: write_bytes_at [OF len])
    then show "heap_bytes (store km ?a data) p n ! j = splice_at (heap_bytes km p n) off data ! j"
      using j d by (auto simp: splice_at_def nth_append)
  qed
qed

end
