(* ===== verification/Pe.thy ===== *)
theory Pe
  imports HeapFrame ElfInv
begin

text \<open>
  The PE32+ loader of src/core/pe.cpp. A file is the list of its bytes; the image is one block of
  the kernel heap, and its bytes are those of the heap's byte store. The section copy and the
  relocation loop read and write that store at the addresses the code computes: a section's end
  is a 32-bit sum, a relocation block is read again after it was applied. The owning pointer
  \<open>kernel_heap_ptr\<close> frees the image on every error path after the allocation. \<open>pe_load\<close> returns
  \<open>None\<close> only when the heap does not return or the block walk does not end. The log line is not
  modelled; the conversions to \<open>i64\<close> are modular.
\<close>

section \<open>Structures\<close>

definition sizeof_DOS_HEADER :: nat where "sizeof_DOS_HEADER = 64"
definition sizeof_NT_HEADERS64 :: nat where "sizeof_NT_HEADERS64 = 264"
definition sizeof_SECTION_HEADER :: nat where "sizeof_SECTION_HEADER = 40"
definition sizeof_BASE_RELOCATION :: nat where "sizeof_BASE_RELOCATION = 8"

definition IMAGE_DOS_SIGNATURE :: u16 where "IMAGE_DOS_SIGNATURE = 0x5A4D"
definition IMAGE_NT_SIGNATURE :: u32 where "IMAGE_NT_SIGNATURE = 0x00004550"
definition IMAGE_FILE_MACHINE_AMD64 :: u16 where "IMAGE_FILE_MACHINE_AMD64 = 0x8664"
definition IMAGE_OPTIONAL_HDR64_MAGIC :: u16 where "IMAGE_OPTIONAL_HDR64_MAGIC = 0x020B"
definition IMAGE_DIRECTORY_ENTRY_BASERELOC :: nat where "IMAGE_DIRECTORY_ENTRY_BASERELOC = 5"
definition IMAGE_REL_BASED_ABSOLUTE :: u16 where "IMAGE_REL_BASED_ABSOLUTE = 0"
definition IMAGE_REL_BASED_DIR64 :: u16 where "IMAGE_REL_BASED_DIR64 = 10"

record image_dos_header =
  e_magic :: u16
  e_lfanew :: u32

record image_file_header =
  Machine :: u16
  NumberOfSections :: u16
  SizeOfOptionalHeader :: u16

record image_data_directory =
  dd_VirtualAddress :: u32
  dd_Size :: u32

record image_optional_header64 =
  Magic :: u16
  AddressOfEntryPoint :: u32
  ImageBase :: u64
  SizeOfImage :: u32
  SizeOfHeaders :: u32
  DataDirectory :: "image_data_directory list"

record image_nt_headers64 =
  Signature :: u32
  FileHeader :: image_file_header
  OptionalHeader :: image_optional_header64

record image_section_header =
  sec_VirtualAddress :: u32
  sec_SizeOfRawData :: u32
  sec_PointerToRawData :: u32

definition dos_header_at :: "u8 list \<Rightarrow> image_dos_header" where
  "dos_header_at f = \<lparr>e_magic = le16 f 0, e_lfanew = le32 f 60\<rparr>"

definition data_directory_at :: "u8 list \<Rightarrow> nat \<Rightarrow> image_data_directory" where
  "data_directory_at f i = \<lparr>dd_VirtualAddress = le32 f i, dd_Size = le32 f (i + 4)\<rparr>"

definition file_header_at :: "u8 list \<Rightarrow> nat \<Rightarrow> image_file_header" where
  "file_header_at f i = \<lparr>Machine = le16 f i, NumberOfSections = le16 f (i + 2), SizeOfOptionalHeader = le16 f (i + 16)\<rparr>"

definition optional_header_at :: "u8 list \<Rightarrow> nat \<Rightarrow> image_optional_header64" where
  "optional_header_at f i =
     \<lparr>Magic = le16 f i, AddressOfEntryPoint = le32 f (i + 16), ImageBase = le64 f (i + 24),
      SizeOfImage = le32 f (i + 56), SizeOfHeaders = le32 f (i + 60),
      DataDirectory = map (\<lambda>k. data_directory_at f (i + 112 + 8 * k)) [0..<16]\<rparr>"

definition nt_headers_at :: "u8 list \<Rightarrow> nat \<Rightarrow> image_nt_headers64" where
  "nt_headers_at f i = \<lparr>Signature = le32 f i, FileHeader = file_header_at f (i + 4), OptionalHeader = optional_header_at f (i + 24)\<rparr>"

definition section_at :: "u8 list \<Rightarrow> nat \<Rightarrow> image_section_header" where
  "section_at f i = \<lparr>sec_VirtualAddress = le32 f (i + 12), sec_SizeOfRawData = le32 f (i + 16), sec_PointerToRawData = le32 f (i + 20)\<rparr>"

datatype pe_error = pe_ok | pe_too_small | pe_bad_magic | pe_bad_machine | pe_bad_type | pe_no_memory | pe_bad_reloc

record pe_load_result =
  plr_error :: pe_error
  plr_entry :: u64
  plr_image_base :: u64
  plr_image_size :: u64

definition pe_failed :: "pe_error \<Rightarrow> pe_load_result" where
  "pe_failed e = \<lparr>plr_error = e, plr_entry = 0, plr_image_base = 0, plr_image_size = 0\<rparr>"

primrec pe_error_string :: "pe_error \<Rightarrow> string" where
  "pe_error_string pe_ok = ''ok''"
| "pe_error_string pe_too_small = ''file too small''"
| "pe_error_string pe_bad_magic = ''bad DOS/PE signature''"
| "pe_error_string pe_bad_machine = ''not AMD64''"
| "pe_error_string pe_bad_type = ''not PE32+''"
| "pe_error_string pe_no_memory = ''out of memory''"
| "pe_error_string pe_bad_reloc = ''relocation out of range''"

section \<open>Validation\<close>

definition pe_range_ok :: "nat \<Rightarrow> nat \<Rightarrow> nat \<Rightarrow> bool" where
  "pe_range_ok sz offset len \<longleftrightarrow> \<not> offset > sz \<and> \<not> len > sz - offset"

abbreviation pe_nt :: "u8 list \<Rightarrow> image_nt_headers64" where
  "pe_nt f \<equiv> nt_headers_at f (unat (e_lfanew (dos_header_at f)))"

abbreviation pe_opt :: "u8 list \<Rightarrow> image_optional_header64" where
  "pe_opt f \<equiv> OptionalHeader (pe_nt f)"

definition sections_offset :: "u8 list \<Rightarrow> nat" where
  "sections_offset f = unat (e_lfanew (dos_header_at f)) + 24 + unat (SizeOfOptionalHeader (FileHeader (pe_nt f)))"

text \<open>Steps 1 and 2: the error of the first check that fails.\<close>

definition pe_check_headers :: "u8 list \<Rightarrow> pe_error" where
  "pe_check_headers f =
     (if length f < sizeof_DOS_HEADER then pe_too_small
      else if e_magic (dos_header_at f) \<noteq> IMAGE_DOS_SIGNATURE then pe_bad_magic
      else if sint (e_lfanew (dos_header_at f)) < 0 \<or>
        \<not> pe_range_ok (length f) (unat (e_lfanew (dos_header_at f))) sizeof_NT_HEADERS64 then pe_too_small
      else
        let nt = pe_nt f in
        if Signature nt \<noteq> IMAGE_NT_SIGNATURE then pe_bad_magic
        else if Machine (FileHeader nt) \<noteq> IMAGE_FILE_MACHINE_AMD64 then pe_bad_machine
        else if Magic (OptionalHeader nt) \<noteq> IMAGE_OPTIONAL_HDR64_MAGIC then pe_bad_type
        else if \<not> pe_range_ok (length f) 0 (unat (SizeOfHeaders (OptionalHeader nt))) \<or>
          SizeOfHeaders (OptionalHeader nt) > SizeOfImage (OptionalHeader nt) then pe_too_small
        else if \<not> pe_range_ok (length f) (sections_offset f) (unat (NumberOfSections (FileHeader nt)) * sizeof_SECTION_HEADER) then pe_too_small
        else pe_ok)"

definition pe_sections :: "u8 list \<Rightarrow> image_section_header list" where
  "pe_sections f = map (\<lambda>i. section_at f (sections_offset f + sizeof_SECTION_HEADER * i)) [0..<unat (NumberOfSections (FileHeader (pe_nt f)))]"

section \<open>Mapping the sections\<close>

definition sec_raw :: "u8 list \<Rightarrow> image_section_header \<Rightarrow> u8 list" where
  "sec_raw f sec = take (unat (sec_SizeOfRawData sec)) (drop (unat (sec_PointerToRawData sec)) f)"

text \<open>Step 5. The end of a section is computed in 32 bits.\<close>

fun pe_copy_sections :: "u8 list \<Rightarrow> u32 \<Rightarrow> u64 \<Rightarrow> image_section_header list \<Rightarrow> kmemory \<Rightarrow> kmemory \<times> pe_error" where
  "pe_copy_sections f size_of_image img [] km = (km, pe_ok)"
| "pe_copy_sections f size_of_image img (sec # secs) km =
     (if sec_SizeOfRawData sec = 0 then pe_copy_sections f size_of_image img secs km
      else if sec_VirtualAddress sec + sec_SizeOfRawData sec > size_of_image then (km, pe_bad_reloc)
      else if \<not> pe_range_ok (length f) (unat (sec_PointerToRawData sec)) (unat (sec_SizeOfRawData sec)) then (km, pe_too_small)
      else pe_copy_sections f size_of_image img secs (store km (img + ucast (sec_VirtualAddress sec)) (sec_raw f sec)))"

section \<open>Base relocations\<close>

definition read_u16 :: "(u64 \<Rightarrow> u8) \<Rightarrow> u64 \<Rightarrow> u16" where
  "read_u16 mem a = le16 (map (\<lambda>i. mem (a + word_of_nat i)) [0..<2]) 0"

definition read_u32 :: "(u64 \<Rightarrow> u8) \<Rightarrow> u64 \<Rightarrow> u32" where
  "read_u32 mem a = le32 (map (\<lambda>i. mem (a + word_of_nat i)) [0..<4]) 0"

abbreviation km_bytes :: "kmemory \<Rightarrow> u64 \<Rightarrow> u8" where
  "km_bytes km \<equiv> kh_mem (km_heap km)"

text \<open>The entry loop: entry \<open>j\<close> of the block at \<open>hdr\<close>, with \<open>n\<close> entries left. \<open>False\<close> is a target outside the image.\<close>

fun reloc_entries :: "u64 \<Rightarrow> u32 \<Rightarrow> u64 \<Rightarrow> u64 \<Rightarrow> nat \<Rightarrow> nat \<Rightarrow> kmemory \<Rightarrow> kmemory \<times> bool" where
  "reloc_entries img size_of_image delta hdr j 0 km = (km, True)"
| "reloc_entries img size_of_image delta hdr j (Suc n) km =
     (let ent = read_u16 (km_bytes km) (hdr + word_of_nat (sizeof_BASE_RELOCATION + 2 * j));
          rel_type = drop_bit 12 ent;
          rel_offset = ent AND 0x0FFF in
      if rel_type = IMAGE_REL_BASED_ABSOLUTE then reloc_entries img size_of_image delta hdr (Suc j) n km
      else if rel_type = IMAGE_REL_BASED_DIR64 then
        let rva = read_u32 (km_bytes km) hdr + ucast rel_offset in
        if unat rva + 8 > unat size_of_image then (km, False)
        else
          let p = img + ucast rva in
          reloc_entries img size_of_image delta hdr (Suc j) n (store km p (u64_bytes (read_u64 (km_bytes km) p + delta)))
      else reloc_entries img size_of_image delta hdr (Suc j) n km)"

partial_function (option) reloc_blocks :: "u64 \<Rightarrow> u32 \<Rightarrow> u64 \<Rightarrow> u64 \<Rightarrow> u64 \<Rightarrow> kmemory \<Rightarrow> (kmemory \<times> bool) option" where
  "reloc_blocks img size_of_image delta blk blk_end km =
     (if blk + word_of_nat sizeof_BASE_RELOCATION \<le> blk_end then
        let size_of_block = read_u32 (km_bytes km) (blk + 4) in
        if unat size_of_block < sizeof_BASE_RELOCATION then Some (km, True)
        else
          let nent = (unat size_of_block - sizeof_BASE_RELOCATION) div 2;
              r = reloc_entries img size_of_image delta blk 0 nent km in
          if \<not> snd r then Some r
          else reloc_blocks img size_of_image delta (blk + ucast (read_u32 (km_bytes (fst r)) (blk + 4))) blk_end (fst r)
      else Some (km, True))"

declare reloc_blocks.simps [code]

text \<open>Step 6.\<close>

definition pe_relocate :: "u8 list \<Rightarrow> u64 \<Rightarrow> kmemory \<Rightarrow> (kmemory \<times> pe_error) option" where
  "pe_relocate f img km =
     (let opt = pe_opt f;
          dir = DataDirectory opt ! IMAGE_DIRECTORY_ENTRY_BASERELOC;
          delta = img - ImageBase opt in
      if dd_Size dir > 0 \<and> dd_VirtualAddress dir \<noteq> 0 \<and> delta \<noteq> 0 then
        if \<not> pe_range_ok (unat (SizeOfImage opt)) (unat (dd_VirtualAddress dir)) (unat (dd_Size dir)) then Some (km, pe_bad_reloc)
        else
          let blk = img + ucast (dd_VirtualAddress dir) in
          map_option (\<lambda>(km, good). (km, if good then pe_ok else pe_bad_reloc))
            (reloc_blocks img (SizeOfImage opt) delta blk (blk + ucast (dd_Size dir)) km)
      else Some (km, pe_ok))"

section \<open>The loader\<close>

definition pe_load :: "kmemory \<Rightarrow> u8 list \<Rightarrow> (kmemory \<times> pe_load_result) option" where
  "pe_load km f =
     (if pe_check_headers f \<noteq> pe_ok then Some (km, pe_failed (pe_check_headers f))
      else do {
        let opt = pe_opt f;
        (km, img) \<leftarrow> allocate_zero km (ucast (SizeOfImage opt));
        if img = 0 then Some (km, pe_failed pe_no_memory)
        else do {
          let km = store km img (take (unat (SizeOfHeaders opt)) f);
          let (km, e) = pe_copy_sections f (SizeOfImage opt) img (pe_sections f) km;
          if e \<noteq> pe_ok then Some (kh_free km img, pe_failed e)
          else do {
            (km, e) \<leftarrow> pe_relocate f img km;
            if e \<noteq> pe_ok then Some (kh_free km img, pe_failed e)
            else Some (km, \<lparr>plr_error = pe_ok, plr_entry = img + ucast (AddressOfEntryPoint opt), plr_image_base = img,
                            plr_image_size = ucast (SizeOfImage opt)\<rparr>)
          }
        }
      })"

end
