(* ===== verification/PeInv.thy ===== *)
theory PeInv
  imports Pe
begin

text \<open>
  Facts about the PE loader: every store of the section copy and of the relocation loop stays
  inside the image, the walk over the relocation blocks ends, and the relocation loop does what
  the decoded table says.
\<close>

section \<open>Stores into the image\<close>

definition in_image :: "u64 \<Rightarrow> nat \<Rightarrow> kmemory \<Rightarrow> kmemory \<Rightarrow> bool" where
  "in_image img n km km' \<longleftrightarrow> km_inv km \<and> block_of km img n \<longrightarrow> heap_frame km km' {img} \<and> block_of km' img n \<and> kh_live km' = kh_live km"

lemma in_image_refl [intro]: "in_image img n km km"
  by (simp add: in_image_def heap_frame_refl)

lemma in_image_trans: "in_image img n a b \<Longrightarrow> in_image img n b c \<Longrightarrow> in_image img n a c"
  unfolding in_image_def using heap_frame_trans [where A = "{img}" and B = "{img}"] heap_frame_inv by (auto intro: heap_frame_inv)

lemma in_image_store: "off + length data \<le> n \<Longrightarrow> in_image img n km (store km (img + word_of_nat off) data)"
  unfolding in_image_def by (metis block_of_def heap_frame_store(1,2))

lemma pe_range_ok_iff: "pe_range_ok sz offset len \<longleftrightarrow> offset + len \<le> sz"
  by (auto simp: pe_range_ok_def)

lemma ucast_of_nat_32: "(ucast (x :: u32) :: u64) = word_of_nat (unat x)"
  by (simp add: unsigned_of_nat word_eq_iff_unsigned)

lemma allocate_zero_frame:
  assumes i: "km_inv km" and n: "unat n \<le> 2 ^ 60"
  shows "\<exists>km' p. allocate_zero km n = Some (km', p) \<and> heap_frame km km' {} \<and>
     (\<forall>q. q \<noteq> p \<or> p = 0 \<longrightarrow> kh_live km' q = kh_live km q) \<and>
     (p \<noteq> 0 \<longrightarrow> 0 < unat n \<and> kh_live km p = {} \<and> block_of km' p (unat n) \<and> heap_bytes km' p (unat n) = replicate (unat n) 0)"
proof -
  obtain ns where ok: "km_ok km ns" and ex: "\<not> kh_expanding (km_heap km)" using i by (auto simp: km_inv_def)
  obtain km1 p where al: "kh_allocate km n = Some (km1, p)" and ka: "km_alloced km ns n km1 p" using kh_allocate_correct [OF ok ex n] by blast
  have lv: "\<forall>q. q \<noteq> p \<or> p = 0 \<longrightarrow> kh_live km1 q = kh_live km q" using km_alloced_live(2,3) [OF ok ka] by metis
  show ?thesis
  proof (cases "p = 0")
    case True
    then have "allocate_zero km n = Some (km1, p)" using al by (simp add: allocate_zero_def)
    moreover have "heap_frame km km1 {}"
      using heap_frame_alloc(1) [OF i _ n al] heap_frame_refl [OF i] al by (cases "n = 0") (auto simp: kh_allocate_def unat_gt_0)
    ultimately show ?thesis using True lv by blast
  next
    case False
    then have n0: "0 < unat n" using al by (auto simp: kh_allocate_def unat_gt_0 split: if_splits)
    note A = heap_frame_alloc [OF i n0 n al]
    let ?km = "km1\<lparr>km_heap := (km_heap km1)\<lparr>kh_mem := mem_set (kh_mem (km_heap km1)) p 0 n\<rparr>\<rparr>"
    have z: "allocate_zero km n = Some (?km, p)" using al False by (simp add: allocate_zero_def)
    have e: "mem_set (kh_mem (km_heap km1)) p 0 n = write_bytes (kh_mem (km_heap km1)) p (replicate (unat n) 0)"
    proof
      fix x
      have len: "length (replicate (unat n) (0 :: u8)) \<le> 2 ^ 64" using n by simp
      show "mem_set (kh_mem (km_heap km1)) p 0 n x = write_bytes (kh_mem (km_heap km1)) p (replicate (unat n) 0) x"
        unfolding mem_set_at write_bytes_at [OF len] by (simp add: word_less_nat_alt)
    qed
    have s: "?km = store km1 (p + word_of_nat 0) (replicate (unat n) 0)" by (simp add: e)
    have i1: "km_inv km1" by (rule heap_frame_inv [OF A(1)])
    have b: "block_of km1 p (unat n)" "kh_live km p = {}" using A(2) False by simp_all
    have len: "0 + length (replicate (unat n) (0 :: u8)) \<le> unat n" by simp
    note S = heap_frame_store [OF i1 b(1) len, folded s]
    have fr: "heap_frame km ?km {}" by (rule heap_frame_trans [OF A(1) S(1)]) (use b in simp)
    have "block_of ?km p (unat n)" using b(1) S(2) by (simp add: block_of_def)
    moreover have "heap_bytes ?km p (unat n) = replicate (unat n) 0" using S(3) by (simp add: splice_at_def)
    moreover have "\<forall>q. q \<noteq> p \<or> p = 0 \<longrightarrow> kh_live ?km q = kh_live km q" using lv S(2) by simp
    ultimately show ?thesis using z fr n0 b(2) by blast
  qed
qed

section \<open>Sections\<close>

text \<open>A section whose end does not wrap around in 32 bits.\<close>

definition sec_no_wrap :: "image_section_header \<Rightarrow> bool" where
  "sec_no_wrap sec \<longleftrightarrow> unat (sec_VirtualAddress sec) + unat (sec_SizeOfRawData sec) < 2 ^ 32"

lemma length_sec_raw: "pe_range_ok (length f) (unat (sec_PointerToRawData sec)) (unat (sec_SizeOfRawData sec)) \<Longrightarrow>
    length (sec_raw f sec) = unat (sec_SizeOfRawData sec)"
  by (simp add: sec_raw_def pe_range_ok_iff)

lemma sec_end:
  assumes "sec_no_wrap sec" "\<not> sec_VirtualAddress sec + sec_SizeOfRawData sec > sz"
  shows "unat (sec_VirtualAddress sec) + unat (sec_SizeOfRawData sec) \<le> unat sz"
  using assms by (simp add: sec_no_wrap_def word_less_nat_alt unat_add_lem [THEN iffD1])

lemma copy_sections_in_image:
  "\<forall>sec \<in> set secs. sec_SizeOfRawData sec \<noteq> 0 \<longrightarrow> sec_no_wrap sec \<Longrightarrow> in_image img (unat sz) km (fst (pe_copy_sections f sz img secs km))"
proof (induction secs arbitrary: km)
  case (Cons sec secs)
  let ?s = "store km (img + ucast (sec_VirtualAddress sec)) (sec_raw f sec)"
  have step: "in_image img (unat sz) km ?s"
    if "sec_SizeOfRawData sec \<noteq> 0" "\<not> sec_VirtualAddress sec + sec_SizeOfRawData sec > sz"
       "pe_range_ok (length f) (unat (sec_PointerToRawData sec)) (unat (sec_SizeOfRawData sec))"
  proof -
    have "unat (sec_VirtualAddress sec) + length (sec_raw f sec) \<le> unat sz"
      using sec_end [OF _ that(2)] Cons.prems that(1) length_sec_raw [OF that(3)] by simp
    then show ?thesis unfolding ucast_of_nat_32 by (rule in_image_store)
  qed
  have IH: "in_image img (unat sz) km' (fst (pe_copy_sections f sz img secs km'))" for km' using Cons by simp
  show ?case using IH in_image_trans [OF step IH] by auto
qed auto

section \<open>Relocations\<close>

lemma reloc_entries_in_image: "in_image img (unat sz) km (fst (reloc_entries img sz delta hdr j n km))"
proof (induction n arbitrary: j km)
  case (Suc n)
  let ?ent = "read_u16 (km_bytes km) (hdr + word_of_nat (sizeof_BASE_RELOCATION + 2 * j))"
  let ?rva = "read_u32 (km_bytes km) hdr + ucast (?ent AND 0x0FFF)"
  let ?p = "img + ucast ?rva"
  let ?s = "store km ?p (u64_bytes (read_u64 (km_bytes km) ?p + delta))"
  have step: "in_image img (unat sz) km ?s" if "\<not> unat ?rva + 8 > unat sz"
    unfolding ucast_of_nat_32 by (rule in_image_store) (use that in simp)
  show ?case
    using Suc.IH [where km = km and j = "Suc j"] in_image_trans [OF step Suc.IH [where j = "Suc j"]] by (auto simp: Let_def)
qed auto

lemma read_u32_0: "read_u32 mem a = 0 \<Longrightarrow> unat (read_u32 mem a) < sizeof_BASE_RELOCATION"
  by (simp add: sizeof_BASE_RELOCATION_def)

lemma reloc_blocks_returns:
  assumes be: "unat blk_end \<le> 2 ^ 52" and b: "unat blk \<le> 2 ^ 53"
  shows "\<exists>km' good. reloc_blocks img sz delta blk blk_end km = Some (km', good) \<and> in_image img (unat sz) km km'"
  using b
proof (induction "unat blk_end - unat blk" arbitrary: blk km rule: less_induct)
  case less
  let ?n = "unat (read_u32 (km_bytes km) (blk + 4))"
  define r where "r = reloc_entries img sz delta blk 0 ((?n - sizeof_BASE_RELOCATION) div 2) km"
  have r: "in_image img (unat sz) km (fst r)" unfolding r_def by (rule reloc_entries_in_image)
  show ?case
  proof (cases "blk + word_of_nat sizeof_BASE_RELOCATION \<le> blk_end \<and> \<not> ?n < sizeof_BASE_RELOCATION \<and> snd r")
    case False
    then show ?thesis using r in_image_refl by (subst reloc_blocks.simps) (auto simp: Let_def r_def [symmetric]; metis prod.collapse)
  next
    case True
    let ?k = "read_u32 (km_bytes (fst r)) (blk + 4)"
    have e: "reloc_blocks img sz delta blk blk_end km = reloc_blocks img sz delta (blk + ucast ?k) blk_end (fst r)"
      using True by (subst reloc_blocks.simps) (simp add: Let_def r_def [symmetric])
    show ?thesis
    proof (cases "?k = 0")
      case k: True
      then have "reloc_blocks img sz delta blk blk_end (fst r) = Some (fst r, True)"
        using True read_u32_0 [OF k] by (subst reloc_blocks.simps) (simp add: Let_def)
      then show ?thesis using e k r by auto
    next
      case k: False
      have u: "unat (blk + word_of_nat sizeof_BASE_RELOCATION) = unat blk + 8"
        using less.prems by (subst unat_plus64) (simp_all add: sizeof_BASE_RELOCATION_def)
      have lt: "unat blk + 8 \<le> unat blk_end" using True u by (simp add: word_le_nat_alt)
      have ku: "unat (ucast ?k :: u64) = unat ?k" "unat ?k < 2 ^ 32" using unat_less_exp [of ?k] by (simp_all add: unat_ucast_up)
      have v: "unat (blk + ucast ?k) = unat blk + unat ?k" using ku lt be by (subst unat_plus64) simp_all
      have "0 < unat ?k" using k by (simp add: unat_gt_0)
      then have d: "unat blk_end - unat (blk + ucast ?k) < unat blk_end - unat blk" "unat (blk + ucast ?k) \<le> 2 ^ 53"
        using v lt ku(2) be by simp_all
      from less.hyps [OF d] obtain km' good where
        "reloc_blocks img sz delta (blk + ucast ?k) blk_end (fst r) = Some (km', good)" "in_image img (unat sz) (fst r) km'" by blast
      then show ?thesis using e in_image_trans [OF r] by auto
    qed
  qed
qed

section \<open>What the sections hold\<close>

text \<open>The image before relocation: zeros, the headers, and every section in turn.\<close>

definition map_section :: "u8 list \<Rightarrow> image_section_header \<Rightarrow> u8 list \<Rightarrow> u8 list" where
  "map_section f sec img = (if sec_SizeOfRawData sec = 0 then img else splice_at img (unat (sec_VirtualAddress sec)) (sec_raw f sec))"

definition pe_mapped :: "u8 list \<Rightarrow> u8 list" where
  "pe_mapped f = fold (map_section f) (pe_sections f)
     (splice_at (replicate (unat (SizeOfImage (pe_opt f))) 0) 0 (take (unat (SizeOfHeaders (pe_opt f))) f))"

lemma copy_sections_bytes:
  assumes "km_inv km" "block_of km img (unat sz)" "pe_copy_sections f sz img secs km = (km', pe_ok)"
    "\<forall>sec \<in> set secs. sec_SizeOfRawData sec \<noteq> 0 \<longrightarrow> sec_no_wrap sec"
  shows "heap_bytes km' img (unat sz) = fold (map_section f) secs (heap_bytes km img (unat sz))"
  using assms
proof (induction secs arbitrary: km)
  case (Cons sec secs)
  show ?case
  proof (cases "sec_SizeOfRawData sec = 0")
    case True
    then show ?thesis using Cons by (simp add: map_section_def)
  next
    case False
    let ?km = "store km (img + word_of_nat (unat (sec_VirtualAddress sec))) (sec_raw f sec)"
    have c: "\<not> sec_VirtualAddress sec + sec_SizeOfRawData sec > sz" "pe_range_ok (length f) (unat (sec_PointerToRawData sec)) (unat (sec_SizeOfRawData sec))"
      "pe_copy_sections f sz img secs ?km = (km', pe_ok)"
      using Cons.prems(3) False unfolding ucast_of_nat_32 [symmetric] by (auto split: if_splits)
    have l: "unat (sec_VirtualAddress sec) + length (sec_raw f sec) \<le> unat sz"
      using sec_end [OF _ c(1)] Cons.prems(4) False length_sec_raw [OF c(2)] by simp
    note S = heap_frame_store [OF Cons.prems(1,2) l]
    have "block_of ?km img (unat sz)" using Cons.prems(2) S(2) by (simp add: block_of_def)
    moreover have "\<forall>sec \<in> set secs. sec_SizeOfRawData sec \<noteq> 0 \<longrightarrow> sec_no_wrap sec" using Cons.prems(4) by (meson list.set_intros(2))
    ultimately have "heap_bytes km' img (unat sz) = fold (map_section f) secs (heap_bytes ?km img (unat sz))"
      using Cons.IH [OF heap_frame_inv [OF S(1)] _ c(3)] by blast
    then show ?thesis unfolding S(3) using False by (simp add: map_section_def [of f sec])
  qed
qed simp

section \<open>What the relocations do\<close>

text \<open>
  The relocation table decoded from its bytes: the image offsets of the 64-bit entries, or \<open>None\<close>
  when a block claims more bytes than the table has left.
\<close>

definition entry_targets :: "u8 list \<Rightarrow> nat list \<Rightarrow> u32 list" where
  "entry_targets tbl js = map (\<lambda>e. le32 tbl 0 + ucast (e AND 0x0FFF))
     (filter (\<lambda>e. drop_bit 12 e = IMAGE_REL_BASED_DIR64) (map (\<lambda>j. le16 tbl (8 + 2 * j)) js))"

function pe_targets :: "u8 list \<Rightarrow> u32 list option" where
  "pe_targets tbl =
     (if length tbl < 8 \<or> unat (le32 tbl 4) < 8 then Some []
      else if unat (le32 tbl 4) > length tbl then None
      else map_option (\<lambda>ts. entry_targets tbl [0..<(unat (le32 tbl 4) - 8) div 2] @ ts) (pe_targets (drop (unat (le32 tbl 4)) tbl)))"
  by pat_completeness auto
termination by (relation "measure length") auto

declare pe_targets.simps [simp del]

definition reloc_at :: "u64 \<Rightarrow> u64 \<Rightarrow> u32 \<Rightarrow> kmemory \<Rightarrow> kmemory" where
  "reloc_at img delta rva km = store km (img + ucast rva) (u64_bytes (read_u64 (km_bytes km) (img + ucast rva) + delta))"

definition table_at :: "kmemory \<Rightarrow> u64 \<Rightarrow> u8 list \<Rightarrow> bool" where
  "table_at km blk tbl \<longleftrightarrow> (\<forall>i < length tbl. km_bytes km (blk + word_of_nat i) = tbl ! i)"

definition clear_of :: "u64 \<Rightarrow> u64 \<Rightarrow> nat \<Rightarrow> u32 \<Rightarrow> bool" where
  "clear_of img blk n rva \<longleftrightarrow> (\<forall>i < n. \<not> unat (blk + word_of_nat i - (img + ucast rva)) < 8)"

lemma table_at_reloc: "table_at km blk tbl \<Longrightarrow> clear_of img blk (length tbl) rva \<Longrightarrow> table_at (reloc_at img delta rva km) blk tbl"
  by (simp add: table_at_def clear_of_def reloc_at_def write_u64_other)

lemma table_at_fold:
  "table_at km blk tbl \<Longrightarrow> \<forall>rva \<in> set ts. clear_of img blk (length tbl) rva \<Longrightarrow> table_at (fold (reloc_at img delta) ts km) blk tbl"
  by (induction ts arbitrary: km) (simp_all add: table_at_reloc)

lemma table_at_bytes:
  assumes "table_at km blk tbl" "k + m \<le> length tbl"
  shows "map (\<lambda>i. km_bytes km (blk + word_of_nat k + word_of_nat i)) [0..<m] = take m (drop k tbl)"
proof (rule nth_equalityI)
  fix i assume "i < length (map (\<lambda>i. km_bytes km (blk + word_of_nat k + word_of_nat i)) [0..<m])"
  then have i: "i < m" by simp
  have a: "blk + word_of_nat k + word_of_nat i = blk + word_of_nat (k + i)" by simp
  show "map (\<lambda>i. km_bytes km (blk + word_of_nat k + word_of_nat i)) [0..<m] ! i = take m (drop k tbl) ! i"
    using assms i unfolding table_at_def by (simp add: a del: of_nat_add)
qed (use assms(2) in simp)

lemma table_at_u16: "table_at km blk tbl \<Longrightarrow> k + 2 \<le> length tbl \<Longrightarrow> read_u16 (km_bytes km) (blk + word_of_nat k) = le16 tbl k"
  unfolding read_u16_def table_at_bytes by (simp add: le16_def)

lemma table_at_u32: "table_at km blk tbl \<Longrightarrow> k + 4 \<le> length tbl \<Longrightarrow> read_u32 (km_bytes km) (blk + word_of_nat k) = le32 tbl k"
  unfolding read_u32_def table_at_bytes by (simp add: le32_def le16_def)

lemma table_at_drop: "table_at km blk tbl \<Longrightarrow> n \<le> length tbl \<Longrightarrow> table_at km (blk + word_of_nat n) (drop n tbl)"
  unfolding table_at_def by (auto simp: add.assoc simp flip: of_nat_add)

lemma clear_of_drop: "clear_of img blk n rva \<Longrightarrow> k \<le> n \<Longrightarrow> clear_of img (blk + word_of_nat k) (n - k) rva"
  unfolding clear_of_def by (auto simp: add.assoc simp flip: of_nat_add)

definition target_ok :: "u64 \<Rightarrow> u32 \<Rightarrow> u64 \<Rightarrow> nat \<Rightarrow> u32 \<Rightarrow> bool" where
  "target_ok img sz blk n rva \<longleftrightarrow> clear_of img blk n rva \<and> unat rva + 8 \<le> unat sz"

lemma reloc_entries_fold:
  assumes "table_at km blk tbl" "8 + 2 * (j + n) \<le> length tbl" "\<forall>rva \<in> set (entry_targets tbl [j..<j + n]). target_ok img sz blk (length tbl) rva"
  shows "reloc_entries img sz delta blk j n km = (fold (reloc_at img delta) (entry_targets tbl [j..<j + n]) km, True)"
  using assms
proof (induction n arbitrary: j km)
  case 0
  then show ?case by (simp add: entry_targets_def)
next
  case (Suc n)
  let ?e = "le16 tbl (8 + 2 * j)" let ?rva = "le32 tbl 0 + ucast (?e AND 0x0FFF)"
  have e: "read_u16 (km_bytes km) (blk + word_of_nat (sizeof_BASE_RELOCATION + 2 * j)) = ?e"
    unfolding sizeof_BASE_RELOCATION_def by (rule table_at_u16 [OF Suc.prems(1)]) (use Suc.prems(2) in simp)
  have h: "read_u32 (km_bytes km) blk = le32 tbl 0" using table_at_u32 [OF Suc.prems(1), of 0] Suc.prems(2) by simp
  have js: "entry_targets tbl [j..<j + Suc n] = (if drop_bit 12 ?e = IMAGE_REL_BASED_DIR64 then [?rva] else []) @ entry_targets tbl [Suc j..<Suc j + n]"
    using upt_conv_Cons [of j "j + Suc n"] by (simp add: entry_targets_def del: upt_Suc)
  have ok: "8 + 2 * (Suc j + n) \<le> length tbl" "\<forall>rva \<in> set (entry_targets tbl [Suc j..<Suc j + n]). target_ok img sz blk (length tbl) rva"
    using Suc.prems(2,3) unfolding js by auto
  show ?case
  proof (cases "drop_bit 12 ?e = IMAGE_REL_BASED_DIR64")
    case True
    then have t: "target_ok img sz blk (length tbl) ?rva" using Suc.prems(3) unfolding js by simp
    have "table_at (reloc_at img delta ?rva km) blk tbl" by (rule table_at_reloc [OF Suc.prems(1)]) (use t in \<open>simp add: target_ok_def\<close>)
    from Suc.IH [OF this ok] show ?thesis unfolding js using True t e h
      by (simp add: Let_def target_ok_def reloc_at_def IMAGE_REL_BASED_DIR64_def IMAGE_REL_BASED_ABSOLUTE_def)
  next
    case False
    from Suc.IH [OF Suc.prems(1) ok] show ?thesis unfolding js using False e by (simp add: Let_def)
  qed
qed

lemma reloc_blocks_fold:
  assumes "pe_targets tbl = Some ts" "table_at km blk tbl" "blk_end = blk + word_of_nat (length tbl)" "unat blk + length tbl < 2 ^ 63"
    "\<forall>rva \<in> set ts. target_ok img sz blk (length tbl) rva"
  shows "reloc_blocks img sz delta blk blk_end km = Some (fold (reloc_at img delta) ts km, True)"
  using assms
proof (induction tbl arbitrary: ts km blk rule: pe_targets.induct)
  case (1 tbl)
  let ?n = "unat (le32 tbl 4)"
  have u: "unat (blk + word_of_nat sizeof_BASE_RELOCATION) = unat blk + 8"
    using "1.prems"(4) by (subst unat_plus64) (simp_all add: sizeof_BASE_RELOCATION_def)
  have v: "unat blk_end = unat blk + length tbl"
    unfolding "1.prems"(3) using "1.prems"(4) by (subst unat_plus64) (simp_all add: unat_of_nat)
  have c: "blk + word_of_nat sizeof_BASE_RELOCATION \<le> blk_end \<longleftrightarrow> 8 \<le> length tbl" by (simp add: word_le_nat_alt u v)
  show ?case
  proof (cases "length tbl < 8 \<or> ?n < 8")
    case True
    then have "ts = []" using "1.prems"(1) by (simp add: pe_targets.simps [of tbl])
    then show ?thesis using True c table_at_u32 [OF "1.prems"(2), of 4]
      by (subst reloc_blocks.simps) (auto simp: Let_def sizeof_BASE_RELOCATION_def)
  next
    case False
    let ?es = "entry_targets tbl [0..<(?n - 8) div 2]"
    obtain us where us: "\<not> ?n > length tbl" "pe_targets (drop ?n tbl) = Some us" "ts = ?es @ us"
      using "1.prems"(1) False by (subst (asm) pe_targets.simps) (auto split: if_splits)
    let ?km = "fold (reloc_at img delta) ?es km"
    have h: "read_u32 (km_bytes km) (blk + 4) = le32 tbl 4" using table_at_u32 [OF "1.prems"(2), of 4] False by simp
    have r: "reloc_entries img sz delta blk 0 ((?n - 8) div 2) km = (?km, True)"
    proof -
      have "8 + 2 * ((?n - 8) div 2) \<le> length tbl" using False us(1) by linarith
      then show ?thesis using reloc_entries_fold [OF "1.prems"(2), of 0 "(?n - 8) div 2"] "1.prems"(5) us(3) by simp
    qed
    have t: "table_at ?km blk tbl" by (rule table_at_fold [OF "1.prems"(2)]) (use "1.prems"(5) us(3) in \<open>simp add: target_ok_def\<close>)
    have h2: "read_u32 (km_bytes ?km) (blk + 4) = le32 tbl 4" using table_at_u32 [OF t, of 4] False by simp
    let ?b = "blk + word_of_nat ?n"
    have b: "unat ?b = unat blk + ?n" using "1.prems"(4) us(1) by (subst unat_plus64) (simp_all add: unat_ucast_up)
    have IH: "reloc_blocks img sz delta ?b blk_end ?km = Some (fold (reloc_at img delta) us ?km, True)"
    proof (rule "1.IH" [OF False us(1) us(2)])
      show "table_at ?km ?b (drop ?n tbl)" using us(1) by (intro table_at_drop [OF t]) simp
      show "blk_end = ?b + word_of_nat (length (drop ?n tbl))" using us(1) "1.prems"(3) by (simp add: of_nat_diff)
      show "unat ?b + length (drop ?n tbl) < 2 ^ 63" using b us(1) "1.prems"(4) by simp
      show "\<forall>rva\<in>set us. target_ok img sz ?b (length (drop ?n tbl)) rva"
        using "1.prems"(5) us clear_of_drop [where blk = blk and k = ?n and n = "length tbl"] by (auto simp: target_ok_def)
    qed
    then show ?thesis using False c h r h2 us(3)
      by (subst reloc_blocks.simps) (simp add: Let_def sizeof_BASE_RELOCATION_def)
  qed
qed

section \<open>The image and the rest of the heap\<close>

text \<open>What stores into a freshly allocated image, and its release, do to the rest of the heap.\<close>

lemma image_outside:
  assumes al: "heap_frame km km1 {}" "\<forall>q. q \<noteq> img \<longrightarrow> kh_live km1 q = kh_live km q" and b: "0 < n" "kh_live km img = {}" "block_of km1 img n"
    and k: "in_image img n km1 km'"
  shows "heap_frame km km' {}" "kh_live km' = kh_live km1" "block_of km' img n" "kh_live (kh_free km' img) = kh_live km" "heap_frame km (kh_free km' img) {}"
proof -
  have K: "heap_frame km1 km' {img}" "kh_live km' = kh_live km1" "block_of km' img n"
    using k b(3) heap_frame_inv [OF al(1)] by (simp_all add: in_image_def)
  show f: "heap_frame km km' {}" by (rule heap_frame_trans [OF al(1) K(1)]) (use b in simp)
  show "kh_live km' = kh_live km1" "block_of km' img n" by (rule K)+
  have l: "kh_live km' img \<noteq> {}" by (rule block_of_live [OF K(3) b(1)])
  note F = kh_free_live [OF heap_frame_inv [OF f] l]
  show "kh_live (kh_free km' img) = kh_live km" using F(2,3) K(2) al(2) b(2) by (metis ext)
  show "heap_frame km (kh_free km' img) {}" by (rule heap_frame_trans [OF f heap_frame_free [OF heap_frame_inv [OF f] l]]) (use b in simp)
qed

lemma pe_check_headers_ok:
  assumes "pe_check_headers f = pe_ok"
  shows "unat (SizeOfHeaders (pe_opt f)) \<le> length f" "unat (SizeOfHeaders (pe_opt f)) \<le> unat (SizeOfImage (pe_opt f))"
    "sections_offset f + 40 * unat (NumberOfSections (FileHeader (pe_nt f))) \<le> length f"
  using assms by (auto simp: pe_check_headers_def Let_def pe_range_ok_iff word_less_nat_alt sizeof_SECTION_HEADER_def split: if_splits)

text \<open>The image with its headers and sections copied, before relocation.\<close>

lemma pe_image_built:
  assumes inv: "km_inv km" and c: "pe_check_headers f = pe_ok" and secs: "\<forall>sec \<in> set (pe_sections f). sec_SizeOfRawData sec \<noteq> 0 \<longrightarrow> sec_no_wrap sec"
  defines "sz \<equiv> SizeOfImage (pe_opt f)"
  obtains (no_memory) km1 where "allocate_zero km (ucast sz) = Some (km1, 0)" "heap_frame km km1 {}" "kh_live km1 = kh_live km"
  | (built) km1 img km3 e3 where "allocate_zero km (ucast sz) = Some (km1, img)" "img \<noteq> 0" "0 < unat sz"
      "heap_frame km km1 {}" "\<forall>q. q \<noteq> img \<longrightarrow> kh_live km1 q = kh_live km q" "kh_live km img = {}" "block_of km1 img (unat sz)"
      "pe_copy_sections f sz img (pe_sections f) (store km1 img (take (unat (SizeOfHeaders (pe_opt f))) f)) = (km3, e3)"
      "in_image img (unat sz) km1 km3" "e3 = pe_ok \<Longrightarrow> heap_bytes km3 img (unat sz) = pe_mapped f"
proof -
  have n: "unat (ucast sz :: u64) = unat sz" by (simp add: unat_ucast_up)
  have lt: "unat sz \<le> 2 ^ 60" using unat_less_exp [of sz] by simp
  note H = pe_check_headers_ok [OF c, folded sz_def]
  obtain km1 img where al: "allocate_zero km (ucast sz) = Some (km1, img)" "heap_frame km km1 {}"
      "\<forall>q. q \<noteq> img \<or> img = 0 \<longrightarrow> kh_live km1 q = kh_live km q"
      "img \<noteq> 0 \<longrightarrow> 0 < unat sz \<and> kh_live km img = {} \<and> block_of km1 img (unat sz) \<and> heap_bytes km1 img (unat sz) = replicate (unat sz) 0"
    using allocate_zero_frame [OF inv, of "ucast sz"] lt unfolding n by auto
  show ?thesis
  proof (cases "img = 0")
    case True
    then show ?thesis using no_memory al by auto
  next
    case False
    let ?hdr = "take (unat (SizeOfHeaders (pe_opt f))) f"
    let ?km2 = "store km1 (img + word_of_nat 0) ?hdr"
    obtain km3 e3 where s3: "pe_copy_sections f sz img (pe_sections f) ?km2 = (km3, e3)" by fastforce
    have l: "0 + length ?hdr \<le> unat sz" using H by simp
    have i1: "km_inv km1" by (rule heap_frame_inv [OF al(2)])
    have b1: "block_of km1 img (unat sz)" using al(4) False by simp
    note S = heap_frame_store [OF i1 b1 l]
    have b2: "block_of ?km2 img (unat sz)" using b1 S(2) by (simp add: block_of_def)
    have 13: "in_image img (unat sz) km1 km3"
      using in_image_trans [OF in_image_store [OF l]] copy_sections_in_image [OF secs, of img sz ?km2 f] s3 by simp
    have "heap_bytes km3 img (unat sz) = pe_mapped f" if "e3 = pe_ok"
      using copy_sections_bytes [OF heap_frame_inv [OF S(1)] b2 s3 [unfolded that] secs] S(3) al(4) False
      by (simp add: pe_mapped_def sz_def)
    then show ?thesis using built [of km1 img km3 e3] al s3 13 False by simp
  qed
qed

lemma pe_relocate_returns:
  assumes i: "km_inv km" and b: "block_of km img (unat (SizeOfImage (pe_opt f)))" "0 < unat (SizeOfImage (pe_opt f))"
  shows "\<exists>km' e. pe_relocate f img km = Some (km', e) \<and> in_image img (unat (SizeOfImage (pe_opt f))) km km'"
proof -
  let ?sz = "SizeOfImage (pe_opt f)" and ?dir = "DataDirectory (pe_opt f) ! IMAGE_DIRECTORY_ENTRY_BASERELOC"
  let ?blk = "img + ucast (dd_VirtualAddress ?dir)"
  have L: "unat img + unat ?sz \<le> 2 ^ 52" by (rule live_bound [OF i b])
  show ?thesis
  proof (cases "dd_Size ?dir > 0 \<and> dd_VirtualAddress ?dir \<noteq> 0 \<and> img - ImageBase (pe_opt f) \<noteq> 0 \<and>
      pe_range_ok (unat ?sz) (unat (dd_VirtualAddress ?dir)) (unat (dd_Size ?dir))")
    case False
    then show ?thesis by (auto simp: pe_relocate_def Let_def)
  next
    case True
    then have r: "unat (dd_VirtualAddress ?dir) + unat (dd_Size ?dir) \<le> unat ?sz" by (simp add: pe_range_ok_iff)
    have u: "unat ?blk = unat img + unat (dd_VirtualAddress ?dir)"
      using L r by (subst unat_plus64) (simp_all add: unat_ucast_up)
    have v: "unat (?blk + ucast (dd_Size ?dir)) = unat img + unat (dd_VirtualAddress ?dir) + unat (dd_Size ?dir)"
      using L r u by (subst unat_plus64) (simp_all add: unat_ucast_up)
    obtain km' good where "reloc_blocks img ?sz (img - ImageBase (pe_opt f)) ?blk (?blk + ucast (dd_Size ?dir)) km = Some (km', good)"
        "in_image img (unat ?sz) km km'"
      using reloc_blocks_returns [of "?blk + ucast (dd_Size ?dir)" ?blk img ?sz _ km] u v r L by fastforce
    then show ?thesis using True by (auto simp: pe_relocate_def Let_def)
  qed
qed

section \<open>Relocation of the image bytes\<close>

definition list_reloc :: "u64 \<Rightarrow> u32 \<Rightarrow> u8 list \<Rightarrow> u8 list" where
  "list_reloc delta rva xs = splice_at xs (unat rva) (u64_bytes (le64 xs (unat rva) + delta))"

definition targets_apart :: "u32 \<Rightarrow> u32 \<Rightarrow> bool" where
  "targets_apart a b \<longleftrightarrow> unat a + 8 \<le> unat b \<or> unat b + 8 \<le> unat a"

lemma le64_take: "k + 8 \<le> length xs \<Longrightarrow> le64 (take 8 (drop k xs)) 0 = le64 xs k"
  by (simp add: le64_def le32_def le16_def add.commute [of k])

lemma le64_cong: "k + 8 \<le> length xs \<Longrightarrow> k + 8 \<le> length ys \<Longrightarrow> (\<And>i. i < 8 \<Longrightarrow> xs ! (k + i) = ys ! (k + i)) \<Longrightarrow> le64 xs k = le64 ys k"
proof -
  assume "k + 8 \<le> length xs" "k + 8 \<le> length ys" "\<And>i. i < 8 \<Longrightarrow> xs ! (k + i) = ys ! (k + i)"
  then have "take 8 (drop k xs) = take 8 (drop k ys)" by (intro nth_equalityI) auto
  then show ?thesis using \<open>k + 8 \<le> length xs\<close> \<open>k + 8 \<le> length ys\<close> le64_take by metis
qed

lemma list_reloc_same: "unat rva + 8 \<le> length xs \<Longrightarrow> le64 (list_reloc delta rva xs) (unat rva) = le64 xs (unat rva) + delta"
proof -
  assume l: "unat rva + 8 \<le> length xs"
  let ?v = "u64_bytes (le64 xs (unat rva) + delta)"
  have "le64 (take 8 (drop (unat rva) (list_reloc delta rva xs))) 0 = le64 ?v 0"
    using take_drop_splice_same [of "unat rva" ?v xs] l by (simp add: list_reloc_def)
  then show ?thesis using le64_take [of "unat rva" "list_reloc delta rva xs"] l le64_u64_bytes by (simp add: list_reloc_def)
qed

lemma length_list_reloc [simp]: "unat rva + 8 \<le> length xs \<Longrightarrow> length (list_reloc delta rva xs) = length xs"
  by (simp add: list_reloc_def)

lemma list_reloc_other:
  "unat rva + 8 \<le> length xs \<Longrightarrow> i < length xs \<Longrightarrow> \<not> (unat rva \<le> i \<and> i < unat rva + 8) \<Longrightarrow> list_reloc delta rva xs ! i = xs ! i"
  by (auto simp: list_reloc_def nth_splice_at)

lemma list_reloc_le64: "unat rva + 8 \<le> length xs \<Longrightarrow> unat b + 8 \<le> length xs \<Longrightarrow> targets_apart rva b \<Longrightarrow>
    le64 (list_reloc delta rva xs) (unat b) = le64 xs (unat b)"
  by (rule le64_cong) (auto simp: targets_apart_def intro!: list_reloc_other)

lemma list_reloc_fold_other:
  "\<forall>rva \<in> set ts. unat rva + 8 \<le> length xs \<Longrightarrow> i < length xs \<Longrightarrow> \<forall>rva \<in> set ts. \<not> (unat rva \<le> i \<and> i < unat rva + 8) \<Longrightarrow>
    fold (list_reloc delta) ts xs ! i = xs ! i"
  by (induction ts arbitrary: xs) (simp_all add: list_reloc_other)

lemma list_reloc_fold_apart:
  "\<forall>rva \<in> set ts. unat rva + 8 \<le> length xs \<Longrightarrow> unat b + 8 \<le> length xs \<Longrightarrow> \<forall>rva \<in> set ts. targets_apart rva b \<Longrightarrow>
    le64 (fold (list_reloc delta) ts xs) (unat b) = le64 xs (unat b)"
  by (induction ts arbitrary: xs) (simp_all add: list_reloc_le64)

lemma list_reloc_fold_same:
  "\<forall>rva \<in> set ts. unat rva + 8 \<le> length xs \<Longrightarrow> sorted_wrt targets_apart ts \<Longrightarrow> rva \<in> set ts \<Longrightarrow>
    le64 (fold (list_reloc delta) ts xs) (unat rva) = le64 xs (unat rva) + delta"
proof (induction ts arbitrary: xs)
  case (Cons t ts)
  have t: "unat t + 8 \<le> length xs" and r: "unat rva + 8 \<le> length xs" using Cons.prems(1,3) by auto
  show ?case
  proof (cases "rva \<in> set ts")
    case True
    then have "le64 (fold (list_reloc delta) ts (list_reloc delta t xs)) (unat rva) = le64 (list_reloc delta t xs) (unat rva) + delta"
      using Cons t by simp
    then show ?thesis using list_reloc_le64 [OF t r] Cons.prems(2) True by simp
  next
    case False
    then have e: "rva = t" using Cons.prems(3) by simp
    have "\<forall>b \<in> set ts. targets_apart b t" using Cons.prems(2) by (auto simp: targets_apart_def)
    then have "le64 (fold (list_reloc delta) ts (list_reloc delta t xs)) (unat t) = le64 (list_reloc delta t xs) (unat t)"
      using list_reloc_fold_apart [of ts "list_reloc delta t xs" t] Cons.prems(1) t by simp
    then show ?thesis using list_reloc_same [OF t] e by simp
  qed
qed simp

lemma table_at_block: "table_at km img (heap_bytes km img n)"
  by (simp add: table_at_def)

lemma reloc_at_bytes:
  assumes i: "km_inv km" and b: "block_of km img n" and r: "unat rva + 8 \<le> n"
  shows "km_inv (reloc_at img delta rva km)" "block_of (reloc_at img delta rva km) img n"
    "heap_bytes (reloc_at img delta rva km) img n = list_reloc delta rva (heap_bytes km img n)"
proof -
  have l: "unat rva + length (u64_bytes (read_u64 (km_bytes km) (img + word_of_nat (unat rva)) + delta)) \<le> n" using r by simp
  note S = heap_frame_store [OF i b l, folded ucast_of_nat_32, folded reloc_at_def]
  show "km_inv (reloc_at img delta rva km)" by (rule heap_frame_inv [OF S(1)])
  show "block_of (reloc_at img delta rva km) img n" using b S(2) by (simp add: block_of_def)
  have "read_u64 (km_bytes km) (img + word_of_nat (unat rva)) = le64 (heap_bytes km img n) (unat rva)"
    unfolding read_u64_def using table_at_bytes [OF table_at_block, of "unat rva" 8 km img n] le64_take [of "unat rva" "heap_bytes km img n"] r by simp
  then show "heap_bytes (reloc_at img delta rva km) img n = list_reloc delta rva (heap_bytes km img n)"
    using S(3) by (simp add: list_reloc_def flip: ucast_of_nat_32)
qed

lemma reloc_fold_bytes:
  "km_inv km \<Longrightarrow> block_of km img n \<Longrightarrow> \<forall>rva \<in> set ts. unat rva + 8 \<le> n \<Longrightarrow>
    heap_bytes (fold (reloc_at img delta) ts km) img n = fold (list_reloc delta) ts (heap_bytes km img n)"
  by (induction ts arbitrary: km) (simp_all add: reloc_at_bytes)

text \<open>A target that does not overlap the table, as offsets in the image.\<close>

lemma clear_of_offsets:
  fixes t s rva :: u32
  assumes "unat rva + 8 \<le> unat t \<or> unat t + unat s \<le> unat rva"
  shows "clear_of img (img + ucast t) (unat s) rva"
  unfolding clear_of_def
proof (intro allI impI)
  fix i assume i: "i < unat s"
  have b: "unat t < 2 ^ 32" "unat s < 2 ^ 32" "unat rva < 2 ^ 32" using unat_less_exp [of t] unat_less_exp [of s] unat_less_exp [of rva] by simp_all
  have e: "img + ucast t + word_of_nat i - (img + ucast rva) = (ucast t + word_of_nat i) - (ucast rva :: u64)" by simp
  have u: "unat (ucast t + word_of_nat i :: u64) = unat t + i" using b i by (subst unat_plus64) (simp_all add: unat_ucast_up unat_of_nat)
  have v: "unat (ucast rva :: u64) = unat rva" by (simp add: unat_ucast_up)
  show "\<not> unat (img + ucast t + word_of_nat i - (img + ucast rva)) < 8"
    unfolding e unat_sub_if' u v using assms b i by auto
qed

end
