(* ===== verification/PeSpec.thy ===== *)
theory PeSpec
  imports PeInv
begin

text \<open>
  The properties of the PE loader, with a small executable on which they are evaluated: one code
  section of eight bytes, the linked address 0x140000004, and a relocation block that names it.
\<close>

definition demo_pe :: "u8 list" where
  "demo_pe =
     [0x4D, 0x5A] @ replicate 58 0 @ [64, 0, 0, 0] @
     [0x50, 0x45, 0, 0] @ [0x64, 0x86] @ [2, 0] @ replicate 12 0 @ [240, 0] @ [0, 0] @
     [0x0B, 0x02] @ replicate 14 0 @ [4, 0, 0, 0] @ replicate 4 0 @ [0, 0, 0, 0x40, 1, 0, 0, 0] @ replicate 24 0 @
     [32, 0, 0, 0] @ [0, 0, 0, 0] @ replicate 48 0 @ replicate 40 0 @ [16, 0, 0, 0] @ [12, 0, 0, 0] @ replicate 80 0 @
     replicate 12 0 @ [0, 0, 0, 0] @ [8, 0, 0, 0] @ [0x98, 1, 0, 0] @ replicate 16 0 @
     replicate 12 0 @ [16, 0, 0, 0] @ [12, 0, 0, 0] @ [0xA0, 1, 0, 0] @ replicate 16 0 @
     [4, 0, 0, 0x40, 1, 0, 0, 0] @ [0, 0, 0, 0, 12, 0, 0, 0, 0, 0xA0, 0, 0]"

lemma demo_pe_sections: "pe_sections demo_pe =
    [\<lparr>sec_VirtualAddress = 0, sec_SizeOfRawData = 8, sec_PointerToRawData = 408\<rparr>,
     \<lparr>sec_VirtualAddress = 16, sec_SizeOfRawData = 12, sec_PointerToRawData = 416\<rparr>]"
  by code_simp

lemma demo_pe_loads: "map_option (\<lambda>(km, r). (plr_error r, plr_image_base r, plr_image_size r)) (pe_load example_heap demo_pe) =
    Some (pe_ok, 0x400020, 32)"
  by code_simp

text \<open>
  C29. The PE loader on any file whose sections do not wrap around in 32 bits: it returns; it keeps
  the heap well formed, with every block that was live before the call, and its bytes, as it was; on
  success the image is a block that was not live before, of the size the headers ask for; on an
  error no memory stays allocated.
\<close>

theorem pe_load_safe:
  assumes inv: "km_inv km" and secs: "\<forall>sec \<in> set (pe_sections f). sec_SizeOfRawData sec \<noteq> 0 \<longrightarrow> sec_no_wrap sec"
  shows "\<exists>km' r. pe_load km f = Some (km', r) \<and> heap_frame km km' {} \<and>
    (if plr_error r = pe_ok
     then kh_live km (plr_image_base r) = {} \<and> plr_image_size r = ucast (SizeOfImage (pe_opt f)) \<and>
       block_of km' (plr_image_base r) (unat (plr_image_size r)) \<and>
       plr_entry r = plr_image_base r + ucast (AddressOfEntryPoint (pe_opt f))
     else kh_live km' = kh_live km)"
proof (cases "pe_check_headers f = pe_ok")
  case False
  then show ?thesis using inv by (auto simp: pe_load_def pe_failed_def heap_frame_refl)
next
  case True
  let ?opt = "pe_opt f"
  have n: "unat (ucast (SizeOfImage ?opt) :: u64) = unat (SizeOfImage ?opt)" by (simp add: unat_ucast_up)
  from inv True secs show ?thesis
  proof (cases rule: pe_image_built)
    case (no_memory km1)
    then have "pe_load km f = Some (km1, pe_failed pe_no_memory)" using True by (simp add: pe_load_def Let_def)
    then show ?thesis using no_memory by (auto simp: pe_failed_def)
  next
    case (built km1 img km3 e3)
    note step = image_outside [OF built(4,5,3,6,7)]
    show ?thesis
    proof (cases "e3 = pe_ok")
      case False
      then have "pe_load km f = Some (kh_free km3 img, pe_failed e3)" using True built(1,2,8) by (simp add: pe_load_def Let_def)
      then show ?thesis using step [OF built(9)] False by (auto simp: pe_failed_def)
    next
      case e3: True
      obtain km4 e4 where s4: "pe_relocate f img km3 = Some (km4, e4)" and 34: "in_image img (unat (SizeOfImage ?opt)) km3 km4"
        using pe_relocate_returns [OF heap_frame_inv [OF step(1) [OF built(9)]] step(3) [OF built(9)] built(3)] by blast
      note S = step [OF in_image_trans [OF built(9) 34]]
      have "pe_load km f = Some (if e4 \<noteq> pe_ok then (kh_free km4 img, pe_failed e4)
          else (km4, \<lparr>plr_error = pe_ok, plr_entry = img + ucast (AddressOfEntryPoint ?opt), plr_image_base = img, plr_image_size = ucast (SizeOfImage ?opt)\<rparr>))"
        using True built(1,2,8) e3 s4 by (simp add: pe_load_def Let_def)
      then show ?thesis using S built(6) n by (auto simp: pe_failed_def)
    qed
  qed
qed

lemma pe_load_safe_witness:
  "\<exists>km' r. pe_load example_heap demo_pe = Some (km', r) \<and> plr_error r = pe_ok \<and> block_of km' (plr_image_base r) 32"
proof -
  obtain km' r where l: "pe_load example_heap demo_pe = Some (km', r)" "plr_error r = pe_ok" using demo_pe_loads by auto
  have n: "SizeOfImage (pe_opt demo_pe) = 32" by code_simp
  show ?thesis using pe_load_safe [OF example_heap_facts(3), of demo_pe] l n by (auto simp: demo_pe_sections sec_no_wrap_def)
qed

text \<open>
  Without the hypothesis on the sections the loader writes outside the image: the end of this
  one-byte section is 0 in 32 bits, below every image size, and its byte goes four gigabytes
  behind the image.
\<close>

lemma pe_section_wrap:
  "sec = \<lparr>sec_VirtualAddress = 0xFFFFFFFF, sec_SizeOfRawData = 1, sec_PointerToRawData = 0\<rparr> \<Longrightarrow>
    pe_copy_sections (b # f) sz img [sec] km = (store km (img + 0xFFFFFFFF) [b], pe_ok)"
  by (simp add: sec_raw_def pe_range_ok_iff word_less_nat_alt)

definition pe_reloc_targets :: "u8 list \<Rightarrow> u32 list option" where
  "pe_reloc_targets f =
     (let dir = DataDirectory (pe_opt f) ! IMAGE_DIRECTORY_ENTRY_BASERELOC in
      if dd_Size dir > 0 \<and> dd_VirtualAddress dir \<noteq> 0
      then pe_targets (take (unat (dd_Size dir)) (drop (unat (dd_VirtualAddress dir)) (pe_mapped f))) else Some [])"

definition reloc_target_ok :: "u8 list \<Rightarrow> u32 \<Rightarrow> bool" where
  "reloc_target_ok f rva \<longleftrightarrow>
     (let dir = DataDirectory (pe_opt f) ! IMAGE_DIRECTORY_ENTRY_BASERELOC in
      unat rva + 8 \<le> unat (SizeOfImage (pe_opt f)) \<and>
      (unat rva + 8 \<le> unat (dd_VirtualAddress dir) \<or> unat (dd_VirtualAddress dir) + unat (dd_Size dir) \<le> unat rva))"

lemma pe_relocate_bytes:
  assumes i: "km_inv km" and b: "block_of km img (unat (SizeOfImage (pe_opt f)))" "0 < unat (SizeOfImage (pe_opt f))"
    and m: "heap_bytes km img (unat (SizeOfImage (pe_opt f))) = pe_mapped f"
    and r: "pe_relocate f img km = Some (km', pe_ok)" and t: "pe_reloc_targets f = Some ts" "\<forall>rva \<in> set ts. reloc_target_ok f rva"
    and apart: "sorted_wrt targets_apart ts"
  shows "(\<forall>rva \<in> set ts. le64 (heap_bytes km' img (unat (SizeOfImage (pe_opt f)))) (unat rva) = le64 (pe_mapped f) (unat rva) + (img - ImageBase (pe_opt f))) \<and>
    (\<forall>j < unat (SizeOfImage (pe_opt f)). (\<forall>rva \<in> set ts. \<not> (unat rva \<le> j \<and> j < unat rva + 8)) \<longrightarrow>
       heap_bytes km' img (unat (SizeOfImage (pe_opt f))) ! j = pe_mapped f ! j)"
proof -
  let ?n = "unat (SizeOfImage (pe_opt f))" and ?dir = "DataDirectory (pe_opt f) ! IMAGE_DIRECTORY_ENTRY_BASERELOC"
  let ?t = "dd_VirtualAddress ?dir" and ?s = "dd_Size ?dir" and ?delta = "img - ImageBase (pe_opt f)"
  have L: "unat img + ?n \<le> 2 ^ 52" by (rule live_bound [OF i b])
  have len: "length (pe_mapped f) = ?n" unfolding m [symmetric] by simp
  show ?thesis
  proof (cases "?s > 0 \<and> ?t \<noteq> 0 \<and> ?delta \<noteq> 0")
    case False
    then have "km' = km" using r unfolding pe_relocate_def Let_def by (simp only: if_False) simp
    moreover have "ts = [] \<or> ?delta = 0" using False t(1) unfolding pe_reloc_targets_def Let_def by (auto split: if_splits)
    ultimately show ?thesis using m by auto
  next
    case True
    let ?blk = "img + ucast ?t" and ?tbl = "take (unat ?s) (drop (unat ?t) (pe_mapped f))"
    have rg: "unat ?t + unat ?s \<le> ?n" using r True unfolding pe_relocate_def Let_def pe_range_ok_iff by (auto split: if_splits)
    have tl: "length ?tbl = unat ?s" using rg len by simp
    have ta: "table_at km ?blk ?tbl"
    proof -
      have "table_at km (img + word_of_nat (unat ?t)) (drop (unat ?t) (pe_mapped f))"
        unfolding m [symmetric] by (rule table_at_drop [OF table_at_block]) (use rg in simp)
      then show ?thesis using rg len by (auto simp: table_at_def)
    qed
    have tg: "pe_targets ?tbl = Some ts" using t(1) True unfolding pe_reloc_targets_def Let_def by (simp only: if_True) simp
    have ok: "\<forall>rva \<in> set ts. target_ok img (SizeOfImage (pe_opt f)) ?blk (length ?tbl) rva"
      using t(2) clear_of_offsets [where t = ?t and s = ?s] unfolding tl reloc_target_ok_def target_ok_def Let_def by blast
    have u: "unat ?blk = unat img + unat ?t" using L rg by (subst unat_plus64) (simp_all add: unat_ucast_up)
    have "reloc_blocks img (SizeOfImage (pe_opt f)) ?delta ?blk (?blk + ucast ?s) km = Some (fold (reloc_at img ?delta) ts km, True)"
      by (rule reloc_blocks_fold [OF tg ta _ _ ok]) (use tl u L rg in simp_all)
    then have km': "km' = fold (reloc_at img ?delta) ts km" using r True rg unfolding pe_relocate_def Let_def pe_range_ok_iff by simp
    have in_range: "\<forall>rva \<in> set ts. unat rva + 8 \<le> ?n" using t(2) by (simp add: reloc_target_ok_def Let_def)
    have "heap_bytes km' img ?n = fold (list_reloc ?delta) ts (pe_mapped f)" unfolding km' m [symmetric] by (rule reloc_fold_bytes [OF i b(1) in_range])
    then show ?thesis using list_reloc_fold_same [of ts "pe_mapped f" _ ?delta] list_reloc_fold_other [of ts "pe_mapped f" _ ?delta] in_range apart len by simp
  qed
qed

text \<open>
  C30. The image that the PE loader builds: every byte outside the relocated places is the one the
  headers and the sections put there, or zero; and when the relocation table, decoded from the
  mapped image, lists distinct places inside the image and outside the table, each of these
  64-bit values is the linked one plus the distance between the load address and the linked base.
\<close>

theorem pe_image_loaded:
  assumes inv: "km_inv km" and secs: "\<forall>sec \<in> set (pe_sections f). sec_SizeOfRawData sec \<noteq> 0 \<longrightarrow> sec_no_wrap sec"
    and ld: "pe_load km f = Some (km', r)" "plr_error r = pe_ok"
    and t: "pe_reloc_targets f = Some ts" "\<forall>rva \<in> set ts. reloc_target_ok f rva" "sorted_wrt targets_apart ts"
  shows "(\<forall>rva \<in> set ts. le64 (heap_bytes km' (plr_image_base r) (unat (plr_image_size r))) (unat rva) =
       le64 (pe_mapped f) (unat rva) + (plr_image_base r - ImageBase (pe_opt f))) \<and>
    (\<forall>j < unat (plr_image_size r). (\<forall>rva \<in> set ts. \<not> (unat rva \<le> j \<and> j < unat rva + 8)) \<longrightarrow>
       heap_bytes km' (plr_image_base r) (unat (plr_image_size r)) ! j = pe_mapped f ! j)"
proof -
  have c: "pe_check_headers f = pe_ok" using ld by (auto simp: pe_load_def pe_failed_def split: if_splits)
  have n: "unat (ucast (SizeOfImage (pe_opt f)) :: u64) = unat (SizeOfImage (pe_opt f))" by (simp add: unat_ucast_up)
  from inv c secs show ?thesis
  proof (cases rule: pe_image_built)
    case (no_memory km1)
    then show ?thesis using ld c by (auto simp: pe_load_def Let_def pe_failed_def)
  next
    case (built km1 img km3 e3)
    have e3: "e3 = pe_ok" using ld c built(1,2,8) by (auto simp: pe_load_def Let_def pe_failed_def split: if_splits)
    obtain km4 e4 where s4: "pe_relocate f img km3 = Some (km4, e4)"
      using ld(1) c built(1,2,8) e3 by (cases "pe_relocate f img km3") (auto simp: pe_load_def Let_def)
    have R: "e4 = pe_ok" "km' = km4" "plr_image_base r = img" "plr_image_size r = ucast (SizeOfImage (pe_opt f))"
      using ld c built(1,2,8) e3 s4 by (auto simp: pe_load_def Let_def pe_failed_def split: if_splits)
    note I = image_outside [OF built(4,5,3,6,7,9)]
    from pe_relocate_bytes [OF heap_frame_inv [OF I(1)] I(3) built(3) built(10) [OF e3] s4 [unfolded R(1)] t]
    show ?thesis unfolding R n .
  qed
qed

lemma pe_image_loaded_witness:
  "\<exists>km' r. pe_load example_heap demo_pe = Some (km', r) \<and> le64 (heap_bytes km' 0x400020 32) 0 = 0x400024"
proof -
  obtain km' r where l: "pe_load example_heap demo_pe = Some (km', r)" "plr_error r = pe_ok" "plr_image_base r = 0x400020"
    "plr_image_size r = 32" using demo_pe_loads by auto
  have s: "\<forall>sec \<in> set (pe_sections demo_pe). sec_SizeOfRawData sec \<noteq> 0 \<longrightarrow> sec_no_wrap sec" by (simp add: demo_pe_sections sec_no_wrap_def)
  have t: "pe_reloc_targets demo_pe = Some [0]" by code_simp
  have o: "reloc_target_ok demo_pe 0" by code_simp
  have v: "le64 (pe_mapped demo_pe) 0 = 0x140000004" "ImageBase (pe_opt demo_pe) = 0x140000000" by code_simp+
  show ?thesis using pe_image_loaded [OF example_heap_facts(3) s l(1,2) t] o l v by simp
qed

end
