(* ===== verification/FsInv.thy ===== *)
theory FsInv
  imports HeapFrame
begin

text \<open>
  The invariant of the stream table and what the buffer operations do: a buffered stream owns a heap
  block of its capacity, and growing, extending and writing act on its bytes as on a list.
\<close>

section \<open>Invariant\<close>

definition stream_ok :: "kmemory \<Rightarrow> kernel_stream \<Rightarrow> bool" where
  "stream_ok km ks \<longleftrightarrow>
     (if ks_direct_backend ks then \<not> ks_writable ks \<and> ks_owned_buffer ks = 0
      else ks_size ks \<le> ks_capacity ks \<and>
        (if ks_owned_buffer ks = 0 then ks_capacity ks = 0 else ks_capacity ks \<noteq> 0 \<and> block_of km (ks_owned_buffer ks) (unat (ks_capacity ks))))"

definition fs_ok :: "'w fs_state \<Rightarrow> bool" where
  "fs_ok s \<longleftrightarrow> km_inv (fs_km s) \<and> length (s_streams s) = MAX_STREAMS \<and>
     (\<forall>i < MAX_STREAMS. stream_ok (fs_km s) (s_streams s ! i)) \<and>
     (\<forall>i < MAX_STREAMS. \<forall>j < MAX_STREAMS. i \<noteq> j \<longrightarrow> ks_owned_buffer (s_streams s ! i) \<noteq> 0 \<longrightarrow>
        ks_owned_buffer (s_streams s ! i) \<noteq> ks_owned_buffer (s_streams s ! j))"

definition stream_bytes :: "kmemory \<Rightarrow> kernel_stream \<Rightarrow> u8 list" where
  "stream_bytes km ks = heap_bytes km (ks_owned_buffer ks) (unat (ks_size ks))"

lemma stream_owned_live:
  assumes "stream_ok km ks" "ks_owned_buffer ks \<noteq> 0" shows "kh_live km (ks_owned_buffer ks) \<noteq> {}"
  using assms block_of_live [of km "ks_owned_buffer ks" "unat (ks_capacity ks)"] by (auto simp: stream_ok_def unat_gt_0 split: if_splits)

lemma stream_block:
  assumes "stream_ok km ks" "\<not> ks_direct_backend ks" "n \<le> unat (ks_capacity ks)" shows "block_of km (ks_owned_buffer ks) n"
proof (cases "ks_owned_buffer ks = 0")
  case True
  then show ?thesis using assms by (simp add: stream_ok_def block_of_def)
next
  case False
  then show ?thesis using assms block_of_le by (auto simp: stream_ok_def)
qed

text \<open>A step that touches only the block of another stream keeps a stream and its bytes.\<close>

lemma stream_frame:
  assumes f: "heap_frame km km' A" and i: "km_inv km" and s: "stream_ok km ks" and q: "ks_owned_buffer ks \<notin> A \<or> ks_owned_buffer ks = 0"
  shows "stream_ok km' ks" "\<not> ks_direct_backend ks \<Longrightarrow> stream_bytes km' ks = stream_bytes km ks"
proof -
  show "stream_ok km' ks" using s q heap_frame_block [OF f] by (auto simp: stream_ok_def)
  assume d: "\<not> ks_direct_backend ks"
  show "stream_bytes km' ks = stream_bytes km ks"
  proof (cases "ks_owned_buffer ks = 0")
    case True
    then have "ks_size ks = 0" using s d by (auto simp: stream_ok_def word_le_nat_alt unat_eq_zero)
    then show ?thesis by (simp add: stream_bytes_def heap_bytes_def)
  next
    case False
    then have "block_of km (ks_owned_buffer ks) (unat (ks_size ks))" using s d by (intro stream_block) (auto simp: stream_ok_def word_le_nat_alt)
    then show ?thesis using heap_frame_bytes [OF f _ i] q False by (simp add: stream_bytes_def)
  qed
qed

section \<open>Growing the buffer\<close>

lemma grow_capacity_spec:
  assumes "unat c < 2 ^ 60" "unat r < 2 ^ 59" "0 < c"
  shows "r \<le> grow_capacity c r" "unat (grow_capacity c r) < 2 ^ 60" "0 < grow_capacity c r" "unat (grow_capacity c r) \<le> max (unat c) (2 * unat r)"
proof -
  have "r \<le> grow_capacity c r \<and> unat (grow_capacity c r) < 2 ^ 60 \<and> 0 < grow_capacity c r \<and> unat (grow_capacity c r) \<le> max (unat c) (2 * unat r)"
    using assms
  proof (induction c r rule: grow_capacity.induct)
    case (1 c r)
    show ?case
    proof (cases "c < r")
      case True
      then have lt: "unat c < unat r" by (simp add: word_less_nat_alt)
      have d: "unat (c * 2) = 2 * unat c" using True 1(3) by (simp add: unat_word_ariths(2) word_less_nat_alt)
      moreover have "0 < unat c" using 1(4) by (simp add: unat_gt_0 word_neq_0_conv)
      ultimately have n: "\<not> c * 2 \<le> c" "unat (c * 2) < 2 ^ 60" "0 < c * 2" using True 1(3) by (simp_all add: word_le_nat_alt word_less_nat_alt)
      then show ?thesis using 1(1) [OF _ n(1,2) 1(3) n(3)] True d lt by (simp add: grow_capacity.simps [of c])
    next
      case False
      then show ?thesis using 1(2,4) by (simp add: grow_capacity.simps [of c] not_less)
    qed
  qed
  then show "r \<le> grow_capacity c r" "unat (grow_capacity c r) < 2 ^ 60" "0 < grow_capacity c r" "unat (grow_capacity c r) \<le> max (unat c) (2 * unat r)" by auto
qed

lemma stream_capacity_bound:
  assumes "km_inv km" "stream_ok km ks" "\<not> ks_direct_backend ks" shows "unat (ks_capacity ks) < 2 ^ 60"
proof (cases "ks_owned_buffer ks = 0")
  case False
  then have "block_of km (ks_owned_buffer ks) (unat (ks_capacity ks))" "0 < unat (ks_capacity ks)" using assms by (auto simp: stream_ok_def unat_gt_0)
  from live_bound [OF assms(1) this] show ?thesis by simp
qed (use assms in \<open>simp add: stream_ok_def\<close>)

text \<open>
  \<open>buffer_step km ks km' ks'\<close>: the stream may have a new buffer, a new size and the error flag, and
  nothing else changed but its own block.
\<close>

definition stream_core :: "kernel_stream \<Rightarrow> kernel_stream" where
  "stream_core ks = ks\<lparr>ks_owned_buffer := 0, ks_capacity := 0, ks_size := 0, ks_error := False\<rparr>"

lemma stream_core_simps [simp]:
  "stream_core (ks\<lparr>ks_owned_buffer := p\<rparr>) = stream_core ks" "stream_core (ks\<lparr>ks_capacity := c\<rparr>) = stream_core ks"
  "stream_core (ks\<lparr>ks_size := c\<rparr>) = stream_core ks" "stream_core (ks\<lparr>ks_error := e\<rparr>) = stream_core ks"
  by (simp_all add: stream_core_def)

lemma stream_core_fields:
  assumes "stream_core ks' = stream_core ks"
  shows "ks_direct_backend ks' = ks_direct_backend ks" "ks_writable ks' = ks_writable ks" "ks_readable ks' = ks_readable ks"
    "ks_position ks' = ks_position ks" "ks_append ks' = ks_append ks" "ks_in_use ks' = ks_in_use ks" "ks_owner_task_id ks' = ks_owner_task_id ks"
    "ks_driver ks' = ks_driver ks" "ks_path ks' = ks_path ks"
  using arg_cong [OF assms, of ks_direct_backend] arg_cong [OF assms, of ks_writable] arg_cong [OF assms, of ks_readable] arg_cong [OF assms, of ks_position]
    arg_cong [OF assms, of ks_append] arg_cong [OF assms, of ks_in_use] arg_cong [OF assms, of ks_owner_task_id] arg_cong [OF assms, of ks_driver]
    arg_cong [OF assms, of ks_path]
  by (simp_all add: stream_core_def)

definition buffer_step :: "kmemory \<Rightarrow> kernel_stream \<Rightarrow> kmemory \<Rightarrow> kernel_stream \<Rightarrow> bool" where
  "buffer_step km ks km' ks' \<longleftrightarrow> heap_frame km km' {ks_owned_buffer ks} \<and> stream_ok km' ks' \<and>
     (ks_owned_buffer ks' = ks_owned_buffer ks \<or> ks_owned_buffer ks' \<noteq> 0 \<and> kh_live km (ks_owned_buffer ks') = {}) \<and>
     stream_core ks' = stream_core ks"

text \<open>The heap refuses a buffer for \<open>need\<close> bytes: an allocation of that size, at most doubled, fails.\<close>

definition heap_refuses :: "kmemory \<Rightarrow> kmemory \<Rightarrow> nat \<Rightarrow> bool" where
  "heap_refuses km km' need \<longleftrightarrow> (\<exists>want. need \<le> unat want \<and> unat want \<le> max 256 (2 * need) \<and> kh_allocate km want = Some (km', 0))"

lemma ensure_capacity_spec:
  assumes i: "km_inv km" and s: "stream_ok km ks" "\<not> ks_direct_backend ks" and r: "unat req < 2 ^ 59"
  shows "\<exists>km' ks' ok. ensure_capacity km ks req = Some (km', ks', ok) \<and> buffer_step km ks km' ks' \<and> ks_size ks' = ks_size ks \<and> ks_error ks' = ks_error ks \<and>
    stream_bytes km' ks' = stream_bytes km ks \<and> (if ok then req \<le> ks_capacity ks' else ks' = ks \<and> ks_capacity ks < req \<and> heap_refuses km km' (unat req))"
proof (cases "req \<le> ks_capacity ks")
  case True
  then have "ensure_capacity km ks req = Some (km, ks, True)" by (simp add: ensure_capacity_def)
  then show ?thesis using True s(1) heap_frame_refl [OF i] by (auto simp: buffer_step_def)
next
  case False
  let ?old = "ks_owned_buffer ks" and ?n = "unat (ks_size ks)"
  define c where "c = grow_capacity (if ks_capacity ks > 0 then ks_capacity ks else 256) req"
  have u: "unat (if ks_capacity ks > 0 then ks_capacity ks else 256) < 2 ^ 60" "0 < (if ks_capacity ks > 0 then ks_capacity ks else 256)"
    using stream_capacity_bound [OF i s] by simp_all
  note G = grow_capacity_spec [OF u(1) r u(2)]
  have c: "req \<le> c" "unat c < 2 ^ 60" "0 < c" using G(1-3) unfolding c_def by blast+
  have "unat (if ks_capacity ks > 0 then ks_capacity ks else 256) \<le> max 256 (unat req)" using False by (auto simp: word_le_nat_alt)
  then have c2: "unat c \<le> max 256 (2 * unat req)" using G(4) unfolding c_def by linarith
  have c0: "0 < unat c" "unat c \<le> 2 ^ 60" using c by (simp_all add: unat_gt_0 word_neq_0_conv)
  obtain ns where k: "km_ok km ns" "\<not> kh_expanding (km_heap km)" using i by (auto simp: km_inv_def)
  obtain km1 p where a: "kh_allocate km c = Some (km1, p)" using kh_allocate_correct [OF k c0(2)] by blast
  note A = heap_frame_alloc [OF i c0 a] and i1 = heap_frame_inv [OF heap_frame_alloc(1) [OF i c0 a]]
  show ?thesis
  proof (cases "p = 0")
    case True
    then have "ensure_capacity km ks req = Some (km1, ks, False)" using False a by (simp add: ensure_capacity_def c_def)
    moreover have "buffer_step km ks km1 ks" using heap_frame_mono [OF A(1)] stream_frame(1) [OF A(1) i s(1)] by (simp add: buffer_step_def)
    moreover have "heap_refuses km km1 (unat req)" "ks_capacity ks < req" using a True c(1) c2 False by (auto simp: heap_refuses_def word_le_nat_alt word_less_nat_alt)
    ultimately show ?thesis using stream_frame(2) [OF A(1) i s(1) _ s(2)] by auto
  next
    case p: False
    then have fresh: "kh_live km p = {}" "block_of km1 p (unat c)" using A(2) by auto
    have po: "p \<noteq> ?old \<or> ?old = 0" using fresh(1) stream_owned_live [OF s(1)] by auto
    have "?n < unat c" using s False c(1) by (auto simp: stream_ok_def word_le_nat_alt)
    then have bp: "block_of km1 p ?n" using block_of_le [OF fresh(2)] by simp
    define km2 where "km2 = (if ks_size ks > 0 \<and> stream_data ks \<noteq> 0 then store km1 p (heap_bytes km1 (stream_data ks) ?n) else km1)"
    have "heap_frame km1 (store km1 p (heap_bytes km1 (stream_data ks) ?n)) {p}" "kh_live (store km1 p (heap_bytes km1 (stream_data ks) ?n)) = kh_live km1"
        "heap_bytes (store km1 p (heap_bytes km1 (stream_data ks) ?n)) p ?n = heap_bytes km1 (stream_data ks) ?n"
      using heap_frame_store [OF i1 bp, of 0 "heap_bytes km1 (stream_data ks) ?n"] by (simp_all add: splice_at_def)
    moreover have "ks_size ks > 0 \<Longrightarrow> stream_data ks \<noteq> 0" using s by (auto simp: stream_data_def stream_ok_def)
    moreover have "stream_bytes km1 ks = stream_bytes km ks" using stream_frame(2) [OF A(1) i s(1) _ s(2)] by simp
    ultimately have S: "heap_frame km1 km2 {p}" "kh_live km2 = kh_live km1" "heap_bytes km2 p ?n = stream_bytes km ks"
      using heap_frame_refl [OF i1] s(2) by (cases "ks_size ks = 0"; simp add: km2_def stream_bytes_def stream_data_def word_neq_0_conv)+
    define km3 where "km3 = (if ?old \<noteq> 0 then kh_free km2 ?old else km2)"
    have i2: "km_inv km2" by (rule heap_frame_inv [OF S(1)])
    have F: "heap_frame km2 km3 {?old}"
    proof (cases "?old = 0")
      case False
      then have "kh_live km2 ?old \<noteq> {}" using S(2) stream_frame(1) [OF A(1) i s(1)] stream_owned_live by auto
      then show ?thesis using heap_frame_free [OF i2] False by (simp add: km3_def)
    qed (simp add: km3_def heap_frame_refl [OF i2])
    have "heap_frame km km2 {?old}" by (rule heap_frame_trans [OF heap_frame_mono [OF A(1)] S(1)]) (use fresh(1) in auto)
    from heap_frame_trans [OF this F] have fr: "heap_frame km km3 {?old}" by simp
    have pn: "p \<notin> {?old}" using po p by auto
    have b3: "block_of km3 p (unat c)" by (rule heap_frame_block [OF F pn]) (use fresh(2) S(2) in \<open>simp add: block_of_def\<close>)
    define ks' where "ks' = ks\<lparr>ks_owned_buffer := p, ks_capacity := c\<rparr>"
    have "stream_ok km3 ks'" using s False c b3 p by (auto simp: stream_ok_def ks'_def)
    then have st: "buffer_step km ks km3 ks'" using fr fresh(1) p by (simp add: buffer_step_def ks'_def)
    have "stream_bytes km3 ks' = stream_bytes km ks"
      using heap_frame_bytes [OF F pn i2, of ?n] bp S(2,3) by (simp add: ks'_def stream_bytes_def block_of_def)
    moreover have "ensure_capacity km ks req = Some (km3, ks', True)"
      using False a p s(2) by (simp add: ensure_capacity_def c_def [symmetric] km2_def km3_def ks'_def Let_def)
    moreover have "ks_size ks' = ks_size ks" "ks_error ks' = ks_error ks" "req \<le> ks_capacity ks'" using c(1) by (simp_all add: ks'_def)
    ultimately show ?thesis using st by auto
  qed
qed

section \<open>Extending and writing\<close>

definition grown :: "u8 list \<Rightarrow> nat \<Rightarrow> u8 list" where
  "grown xs n = xs @ replicate (n - length xs) 0"

definition overwrite :: "u8 list \<Rightarrow> nat \<Rightarrow> u8 list \<Rightarrow> u8 list" where
  "overwrite xs i ys = take i xs @ ys @ drop (i + length ys) xs"

lemma length_stream_bytes [simp]: "length (stream_bytes km ks) = unat (ks_size ks)"
  by (simp add: stream_bytes_def)

lemma take_heap_bytes: "m \<le> n \<Longrightarrow> take m (heap_bytes km p n) = heap_bytes km p m"
  by (simp add: heap_bytes_def take_map)

lemma buffer_step_facts:
  assumes "buffer_step km ks km' ks'"
  shows "heap_frame km km' {ks_owned_buffer ks}" "stream_ok km' ks'" "km_inv km'" "stream_core ks' = stream_core ks"
    "ks_owned_buffer ks' = ks_owned_buffer ks \<or> ks_owned_buffer ks' \<noteq> 0 \<and> kh_live km (ks_owned_buffer ks') = {}"
  using assms heap_frame_inv by (auto simp: buffer_step_def)

lemma buffer_step_trans:
  assumes a: "buffer_step km ks km1 ks1" and b: "buffer_step km1 ks1 km2 ks2"
  shows "buffer_step km ks km2 ks2"
proof -
  note A = buffer_step_facts [OF a] and B = buffer_step_facts [OF b]
  have fr: "heap_frame km km2 {ks_owned_buffer ks}"
    by (rule heap_frame_trans [OF A(1) B(1)]) (use A(5) in auto)
  have "kh_live km q = {}" if "kh_live km1 q = {}" "q \<noteq> ks_owned_buffer ks" for q
    using A(1) that unfolding heap_frame_def by blast
  then have "ks_owned_buffer ks2 = ks_owned_buffer ks \<or> ks_owned_buffer ks2 \<noteq> 0 \<and> kh_live km (ks_owned_buffer ks2) = {}"
    using A(5) B(5) by metis
  then show ?thesis using fr A(4) B(2,4) by (simp add: buffer_step_def)
qed

text \<open>Storing into the buffer of a stream, behind which the size may move up to the capacity.\<close>

lemma buffer_store:
  assumes i: "km_inv km" and s: "stream_ok km ks" "\<not> ks_direct_backend ks" and d: "off + length data \<le> n" "n \<le> unat (ks_capacity ks)" "off \<le> unat (ks_size ks)"
    and o: "unat o1 = off" and n: "n = unat (ks_size ks')" "ks' = ks\<lparr>ks_size := ks_size ks', ks_error := ks_error ks'\<rparr>"
  shows "buffer_step km ks (store km (ks_owned_buffer ks + o1) data) ks'"
    "n = max (off + length data) (unat (ks_size ks)) \<Longrightarrow> stream_bytes (store km (ks_owned_buffer ks + o1) data) ks' = overwrite (stream_bytes km ks) off data"
proof -
  let ?p = "ks_owned_buffer ks" and ?m = "store km (ks_owned_buffer ks + o1) data"
  have o': "o1 = word_of_nat off" unfolding o [symmetric] by simp
  have bn: "block_of km ?p n" "block_of km ?p (unat (ks_capacity ks))" using stream_block [OF s] d(2) by auto
  note S = heap_frame_store [OF i bn(1) d(1), folded o']
  have k: "ks_owned_buffer ks' = ?p" "ks_capacity ks' = ks_capacity ks" "\<not> ks_direct_backend ks'" "stream_core ks' = stream_core ks"
    using s(2) by (subst n(2), simp)+
  have "block_of ?m ?p (unat (ks_capacity ks))" using bn(2) S(2) by (simp add: block_of_def)
  then have "stream_ok ?m ks'" using s k d(2) n(1) by (auto simp: stream_ok_def word_le_nat_alt)
  then show "buffer_step km ks ?m ks'" using S(1) k by (simp add: buffer_step_def)
  assume nn: "n = max (off + length data) (unat (ks_size ks))"
  have sb: "stream_bytes km ks = take (unat (ks_size ks)) (heap_bytes km ?p n)" using take_heap_bytes nn by (simp add: stream_bytes_def)
  then have "take off (stream_bytes km ks) = take off (heap_bytes km ?p n)" using d(3) by (simp add: min_absorb1)
  moreover have "drop (off + length data) (stream_bytes km ks) = drop (off + length data) (heap_bytes km ?p n)"
  proof (cases "off + length data \<le> unat (ks_size ks)")
    case True
    then have "n = unat (ks_size ks)" using nn by simp
    then show ?thesis unfolding sb by simp
  next
    case False
    then show ?thesis using nn by (simp add: max_def)
  qed
  ultimately show "stream_bytes ?m ks' = overwrite (stream_bytes km ks) off data"
    using S(3) k(1) n(1) by (simp add: stream_bytes_def overwrite_def splice_at_def)
qed

end
