(* ===== verification/FsRef.thy ===== *)
theory FsRef
  imports FsInv
begin

text \<open>
  Buffered streams refine an abstract file: a byte list with a position. Every call either does to
  the bytes what the abstract file does, or fails for want of memory and sets the error flag; the
  other streams and every other block of the heap keep their bytes.
\<close>

section \<open>Extending\<close>

lemma overwrite_end: "overwrite xs (length xs) ys = xs @ ys"
  by (simp add: overwrite_def)

lemma stream_ok_error [simp]: "stream_ok km (ks\<lparr>ks_error := e\<rparr>) = stream_ok km ks" "stream_bytes km (ks\<lparr>ks_error := e\<rparr>) = stream_bytes km ks"
  by (simp_all add: stream_ok_def stream_bytes_def)

lemma buffer_step_error [simp]: "buffer_step km ks km' (ks'\<lparr>ks_error := e\<rparr>) = buffer_step km ks km' ks'"
  by (simp add: buffer_step_def)

lemma extend_stream_spec:
  assumes i: "km_inv km" and s: "stream_ok km ks" "\<not> ks_direct_backend ks" and n: "unat n < 2 ^ 59"
  shows "\<exists>km' ks' ok. extend_stream km ks n = Some (km', ks', ok) \<and> buffer_step km ks km' ks' \<and>
    (if ok then stream_bytes km' ks' = grown (stream_bytes km ks) (unat n) \<and> ks_error ks' = ks_error ks
     else stream_bytes km' ks' = stream_bytes km ks \<and> ks_error ks' \<and> ks_size ks < n \<and> ks_capacity ks' < n \<and> heap_refuses km km' (unat n)) \<and>
    (n \<le> ks_size ks \<longrightarrow> km' = km)"
proof (cases "n > ks_size ks")
  case False
  then have "extend_stream km ks n = Some (km, ks, True)" by (simp add: extend_stream_def)
  moreover have "grown (stream_bytes km ks) (unat n) = stream_bytes km ks" using False by (simp add: grown_def not_less word_le_nat_alt)
  moreover have "buffer_step km ks km ks" using s(1) heap_frame_refl [OF i] by (simp add: buffer_step_def)
  ultimately show ?thesis by auto
next
  case True
  then have gt: "\<not> n \<le> ks_size ks" by simp
  obtain km1 ks1 ok where E: "ensure_capacity km ks n = Some (km1, ks1, ok)" "buffer_step km ks km1 ks1" "ks_size ks1 = ks_size ks"
      "ks_error ks1 = ks_error ks" "stream_bytes km1 ks1 = stream_bytes km ks"
      "if ok then n \<le> ks_capacity ks1 else ks1 = ks \<and> ks_capacity ks < n \<and> heap_refuses km km1 (unat n)"
    using ensure_capacity_spec [OF i s n] by blast
  note B = buffer_step_facts [OF E(2)]
  show ?thesis
  proof (cases ok)
    case False
    then have "extend_stream km ks n = Some (km1, ks1\<lparr>ks_error := True\<rparr>, False)" using True E(1) by (simp add: extend_stream_def)
    then show ?thesis using E False True by auto
  next
    case ok: True
    have d1: "\<not> ks_direct_backend ks1" using stream_core_fields(1) [OF B(4)] s(2) by simp
    let ?z = "replicate (unat (n - ks_size ks)) (0 :: u8)" and ?k = "ks1\<lparr>ks_size := n\<rparr>"
    have un: "unat (n - ks_size ks) = unat n - unat (ks_size ks)" "unat (ks_size ks) < unat n" using True by (simp_all add: word_less_nat_alt unat_sub_if')
    have room: "unat (ks_size ks) + length ?z \<le> unat n" "unat n \<le> unat (ks_capacity ks1)" "unat (ks_size ks) \<le> unat (ks_size ks1)"
      "unat (ks_size ks) = unat (ks_size ks)" "unat n = unat (ks_size ?k)" "?k = ks1\<lparr>ks_size := ks_size ?k, ks_error := ks_error ?k\<rparr>"
      "unat n = max (unat (ks_size ks) + length ?z) (unat (ks_size ks1))"
      using un E(3,6) ok by (simp_all add: word_le_nat_alt)
    note S = buffer_store [OF B(3,2) d1 room(1-6)]
    have "extend_stream km ks n = Some (store km1 (ks_owned_buffer ks1 + ks_size ks) ?z, ?k, True)"
      using True E(1,3) ok by (simp add: extend_stream_def)
    moreover have "overwrite (stream_bytes km1 ks1) (unat (ks_size ks)) ?z = grown (stream_bytes km ks) (unat n)"
      using overwrite_end [of "stream_bytes km ks" ?z] E(5) un by (simp add: grown_def)
    ultimately show ?thesis using buffer_step_trans [OF E(2) S(1)] S(2) [OF room(7)] E(4) gt by auto
  qed
qed

section \<open>The table\<close>

lemma fs_okD:
  assumes "fs_ok s" shows "km_inv (fs_km s)" "length (s_streams s) = MAX_STREAMS"
    "i < MAX_STREAMS \<Longrightarrow> stream_ok (fs_km s) (s_streams s ! i)"
    "i < MAX_STREAMS \<Longrightarrow> j < MAX_STREAMS \<Longrightarrow> i \<noteq> j \<Longrightarrow> ks_owned_buffer (s_streams s ! i) \<noteq> 0 \<Longrightarrow>
       ks_owned_buffer (s_streams s ! i) \<noteq> ks_owned_buffer (s_streams s ! j)"
  using assms by (auto simp: fs_ok_def)

definition others_kept :: "'w fs_state \<Rightarrow> nat \<Rightarrow> 'w fs_state \<Rightarrow> bool" where
  "others_kept s i s' \<longleftrightarrow> heap_frame (fs_km s) (fs_km s') {ks_owned_buffer (s_streams s ! i)} \<and>
     (\<forall>j < MAX_STREAMS. j \<noteq> i \<longrightarrow> s_streams s' ! j = s_streams s ! j \<and>
        (\<not> ks_direct_backend (s_streams s ! j) \<longrightarrow> stream_bytes (fs_km s') (s_streams s ! j) = stream_bytes (fs_km s) (s_streams s ! j)))"

lemma fs_state_simps [simp]:
  "fs_km (set_stream (set_km s km) i ks) = km" "s_streams (set_stream (set_km s km) i ks) = (s_streams s)[i := ks]"
  "fs_km (set_km s km) = km" "s_streams (set_km s km) = s_streams s"
  "fs_km (set_stream s i ks) = fs_km s" "s_streams (set_stream s i ks) = (s_streams s)[i := ks]"
  by (simp_all add: set_stream_def set_km_def)

lemma stream_update:
  assumes ok: "fs_ok s" and i: "i < MAX_STREAMS" and b: "buffer_step (fs_km s) ks0 km' ks1" "ks_owned_buffer ks0 = ks_owned_buffer (s_streams s ! i)"
    and k: "ks_owned_buffer ks' = ks_owned_buffer ks1" "stream_ok km' ks'" and s': "fs_km s' = km'" "s_streams s' = (s_streams s)[i := ks']"
  shows "fs_ok s'" "others_kept s i s'"
proof -
  let ?ks = "s_streams s ! i"
  note F = fs_okD [OF ok] and B = buffer_step_facts [OF b(1), unfolded b(2)]
  have own: "ks_owned_buffer (s_streams s ! j) \<notin> {ks_owned_buffer ?ks} \<or> ks_owned_buffer (s_streams s ! j) = 0" if "j < MAX_STREAMS" "j \<noteq> i" for j
    using F(4) [OF that(1) i that(2)] by fastforce
  have other: "stream_ok km' (s_streams s ! j)" if "j < MAX_STREAMS" "j \<noteq> i" for j
    using stream_frame(1) [OF B(1) F(1) F(3) [OF that(1)] own [OF that]] .
  have new: "ks_owned_buffer ks' \<noteq> ks_owned_buffer (s_streams s ! j)" if "j < MAX_STREAMS" "j \<noteq> i" "ks_owned_buffer (s_streams s ! j) \<noteq> 0" for j
    using B(5) k(1) own [OF that(1,2)] stream_owned_live [OF F(3) [OF that(1)] that(3)] that(3) by auto
  show "fs_ok s'"
    unfolding fs_ok_def s'
  proof (intro conjI allI impI)
    show "km_inv km'" by (rule B(3))
    show "length ((s_streams s)[i := ks']) = MAX_STREAMS" using F(2) by simp
    fix j assume j: "j < MAX_STREAMS"
    show "stream_ok km' ((s_streams s)[i := ks'] ! j)" using other [OF j] k(2) i F(2) by (cases "j = i") auto
    fix l assume l: "l < MAX_STREAMS" "j \<noteq> l" "ks_owned_buffer ((s_streams s)[i := ks'] ! j) \<noteq> 0"
    show "ks_owned_buffer ((s_streams s)[i := ks'] ! j) \<noteq> ks_owned_buffer ((s_streams s)[i := ks'] ! l)"
    proof (cases "j = i \<or> l = i")
      case True
      then show ?thesis using new [of j] new [of l] j l i F(2) by (auto simp: nth_list_update)
    next
      case False
      then show ?thesis using F(4) [OF j l(1,2)] l(3) by simp
    qed
  qed
  show "others_kept s i s'"
    using B(1) stream_frame(2) [OF B(1) F(1) F(3) own] by (auto simp: others_kept_def s')
qed

section \<open>The abstract file\<close>

record afile =
  af_bytes :: "u8 list"
  af_pos :: nat
  af_append :: bool

datatype call = Write "u8 list" | Read nat | Seek int int | Truncate nat

text \<open>A call's result: the value returned and the bytes that reached the caller's buffer.\<close>

fun af_call :: "afile \<Rightarrow> call \<Rightarrow> afile \<times> int \<times> u8 list" where
  "af_call f (Write b) =
     (let p = (if af_append f then length (af_bytes f) else af_pos f)
      in (f\<lparr>af_bytes := overwrite (grown (af_bytes f) p) p b, af_pos := p + length b\<rparr>, int (length b), []))"
| "af_call f (Read n) =
     (let b = take n (drop (af_pos f) (af_bytes f)) in (f\<lparr>af_pos := af_pos f + length b\<rparr>, int (length b), b))"
| "af_call f (Seek off whence) =
     (let base = (if whence = 0 then 0 else if whence = 1 then int (af_pos f) else int (length (af_bytes f)))
      in if whence \<notin> {0, 1, 2} \<or> base + off < 0 then (f, - 1, []) else (f\<lparr>af_pos := nat (base + off)\<rparr>, 0, []))"
| "af_call f (Truncate n) = (f\<lparr>af_bytes := take n (grown (af_bytes f) n), af_pos := min (af_pos f) n\<rparr>, 0, [])"

text \<open>The same call on a handle.\<close>

fun stream_call :: "'w fs_state \<Rightarrow> u64 \<Rightarrow> u64 \<Rightarrow> call \<Rightarrow> ('w fs_state \<times> int \<times> u8 list) option" where
  "stream_call s task h (Write b) = map_option (\<lambda>(s, n). (s, int (unat n), [])) (file_write s task h (Some b) (word_of_nat (length b)))"
| "stream_call s task h (Read n) =
     map_option (\<lambda>(s, b, k). (s, int (unat k), take (unat k) (the b))) (file_read s task h (Some (replicate n 0)) (word_of_nat n))"
| "stream_call s task h (Seek off whence) = (let (s, r) = file_seek s task h (word_of_int off) whence in Some (s, r, []))"
| "stream_call s task h (Truncate n) = map_option (\<lambda>(s, r). (s, r, [])) (file_truncate s task h (word_of_nat n))"

definition abs_file :: "kmemory \<Rightarrow> kernel_stream \<Rightarrow> afile" where
  "abs_file km ks = \<lparr>af_bytes = stream_bytes km ks, af_pos = unat (ks_position ks), af_append = ks_append ks\<rparr>"

text \<open>Calls the stream was opened for, with sizes and offsets that do not overflow.\<close>

fun permitted :: "kernel_stream \<Rightarrow> afile \<Rightarrow> call \<Rightarrow> bool" where
  "permitted ks f (Write b) \<longleftrightarrow> ks_writable ks \<and> af_pos f + length b < 2 ^ 59 \<and> length (af_bytes f) + length b < 2 ^ 59"
| "permitted ks f (Read n) \<longleftrightarrow> ks_readable ks \<and> n < 2 ^ 64"
| "permitted ks f (Seek off whence) \<longleftrightarrow> \<bar>off\<bar> < 2 ^ 62 \<and> af_pos f < 2 ^ 62"
| "permitted ks f (Truncate n) \<longleftrightarrow> ks_writable ks \<and> n < 2 ^ 59"

text \<open>
  A write or truncation that finds no memory: it reports failure, sets the error flag and leaves the
  old bytes, a write perhaps followed by the zeros that fill the gap up to its position. The buffer is
  too small for the call, and the heap refused a larger one. The heap that was asked is the one at the
  call, or, when a gap was filled before, that heap with only this stream's buffer changed.
\<close>

definition out_of_memory :: "kmemory \<Rightarrow> 'w fs_state \<Rightarrow> nat \<Rightarrow> nat \<Rightarrow> bool" where
  "out_of_memory km s' i need \<longleftrightarrow> ks_error (s_streams s' ! i) \<and> unat (ks_capacity (s_streams s' ! i)) < need \<and> heap_refuses km (fs_km s') need"

fun failed_call :: "'w fs_state \<Rightarrow> nat \<Rightarrow> call \<Rightarrow> 'w fs_state \<Rightarrow> int \<Rightarrow> bool" where
  "failed_call s i (Write d) s' r \<longleftrightarrow>
     (let f = abs_file (fs_km s) (s_streams s ! i); new = stream_bytes (fs_km s') (s_streams s' ! i);
          p = (if af_append f then length (af_bytes f) else af_pos f)
      in r = 0 \<and>
         (length (af_bytes f) < p \<and> new = af_bytes f \<and> out_of_memory (fs_km s) s' i p \<or>
          new = grown (af_bytes f) p \<and> (\<exists>km. heap_frame (fs_km s) km {ks_owned_buffer (s_streams s ! i)} \<and> (p \<le> length (af_bytes f) \<longrightarrow> km = fs_km s) \<and>
            out_of_memory km s' i (p + length d))))"
| "failed_call s i (Truncate n) s' r \<longleftrightarrow>
     r = - 1 \<and> stream_bytes (fs_km s') (s_streams s' ! i) = stream_bytes (fs_km s) (s_streams s ! i) \<and> out_of_memory (fs_km s) s' i n"
| "failed_call s i (Read n) s' r \<longleftrightarrow> False"
| "failed_call s i (Seek off whence) s' r \<longleftrightarrow> False"

definition refines_call :: "'w fs_state \<Rightarrow> nat \<Rightarrow> call \<Rightarrow> ('w fs_state \<times> int \<times> u8 list) option \<Rightarrow> bool" where
  "refines_call s i c res \<longleftrightarrow> (\<exists>s' r b. res = Some (s', r, b) \<and> fs_ok s' \<and> others_kept s i s' \<and>
     (let f = abs_file (fs_km s) (s_streams s ! i); f' = abs_file (fs_km s') (s_streams s' ! i)
      in (f', r, b) = af_call f c \<or> b = [] \<and> failed_call s i c s' r))"

lemma failed_refines: "failed_call s i c s' r \<Longrightarrow> fs_ok s' \<Longrightarrow> others_kept s i s' \<Longrightarrow> refines_call s i c (Some (s', r, []))"
  unfolding refines_call_def Let_def by blast

lemma handle_index:
  assumes "handle_from_id s task h = Some i" shows "i < MAX_STREAMS"
proof -
  have "h \<noteq> 0" "unat h \<le> MAX_STREAMS" "i = unat (h - 1)" using assms by (auto simp: handle_from_id_def Let_def split: if_splits)
  moreover have "0 < unat h" using \<open>h \<noteq> 0\<close> by (simp add: unat_gt_0)
  ultimately show ?thesis by (simp add: unat_minus_one)
qed

lemma stream_ok_position [simp]:
  "stream_ok km (ks\<lparr>ks_position := p\<rparr>) = stream_ok km ks" "stream_bytes km (ks\<lparr>ks_position := p\<rparr>) = stream_bytes km ks"
  "stream_ok km (ks\<lparr>ks_eof := e\<rparr>) = stream_ok km ks" "stream_bytes km (ks\<lparr>ks_eof := e\<rparr>) = stream_bytes km ks"
  "stream_ok km (ks\<lparr>ks_dirty := e\<rparr>) = stream_ok km ks" "stream_bytes km (ks\<lparr>ks_dirty := e\<rparr>) = stream_bytes km ks"
  by (simp_all add: stream_ok_def stream_bytes_def)

lemma flags_only:
  assumes ok: "fs_ok s" and i: "i < MAX_STREAMS" and k: "ks_owned_buffer ks' = ks_owned_buffer (s_streams s ! i)" "stream_ok (fs_km s) ks'"
  shows "fs_ok (set_stream s i ks')" "others_kept s i (set_stream s i ks')"
proof -
  have "buffer_step (fs_km s) (s_streams s ! i) (fs_km s) (s_streams s ! i)"
    using fs_okD(1,3) [OF ok] i heap_frame_refl by (simp add: buffer_step_def)
  from stream_update [OF ok i this refl k, of "set_stream s i ks'"] show "fs_ok (set_stream s i ks')" "others_kept s i (set_stream s i ks')" by simp_all
qed

lemma seek_refines:
  assumes ok: "fs_ok s" and h: "handle_from_id s task h = Some i" and p: "permitted (s_streams s ! i) (abs_file (fs_km s) (s_streams s ! i)) (Seek off whence)"
    and d: "\<not> ks_direct_backend (s_streams s ! i)"
  shows "refines_call s i (Seek off whence) (stream_call s task h (Seek off whence))"
proof -
  let ?ks = "s_streams s ! i"
  note i = handle_index [OF h] and F = fs_okD [OF ok]
  have so: "stream_ok (fs_km s) ?ks" by (rule F(3) [OF i])
  have len: "i < length (s_streams s)" using i F(2) by simp
  define base where "base = (if whence = 0 then 0 else if whence = 1 then ks_position ?ks else ks_size ?ks)"
  define b where "b = (if whence = 0 then 0 else if whence = 1 then int (unat (ks_position ?ks)) else int (unat (ks_size ?ks)))"
  have "unat (ks_size ?ks) < 2 ^ 60" using stream_capacity_bound [OF F(1) so d] so d by (auto simp: stream_ok_def word_le_nat_alt)
  moreover have "unat (ks_position ?ks) < 2 ^ 62" using p by (simp add: abs_file_def)
  moreover have b_nat: "b = int (if whence = 0 then 0 else if whence = 1 then unat (ks_position ?ks) else unat (ks_size ?ks))" by (simp add: b_def)
  ultimately have "b < int (2 ^ 62)" unfolding b_nat of_nat_less_iff by simp
  then have b62: "0 \<le> b" "b < 2 ^ 62" by (simp_all add: b_nat)
  have b3: "uint base = b" by (simp add: b_def base_def)
  have "base = word_of_int b" unfolding b3 [symmetric] by simp
  then have w: "base + word_of_int off = word_of_int (b + off)" by simp
  have bo: "- (2 ^ 63) \<le> b + off" "b + off < 2 ^ 63" using b62(1,2) p by (auto simp: abs_less_iff)
  have t: "sint (base + word_of_int off) = b + off"
    unfolding w using signed_take_bit_int_eq_self [OF bo] by (simp add: signed_of_int del: of_int_add)
  show ?thesis
  proof (cases "whence \<notin> {0, 1, 2} \<or> b + off < 0")
    case True
    have r: "stream_call s task h (Seek off whence) = Some (set_stream s i (?ks\<lparr>ks_error := True\<rparr>), - 1, [])"
      using h True t by (auto simp: file_seek_def Let_def base_def)
    show ?thesis unfolding r using flags_only [OF ok i, of "?ks\<lparr>ks_error := True\<rparr>"] so True len
      by (auto simp: refines_call_def abs_file_def Let_def b_def)
  next
    case False
    have "take_bit 64 (b + off) = b + off" using bo False by (intro take_bit_int_eq_self) auto
    then have pos: "unat (base + word_of_int off) = nat (b + off)" unfolding w by (simp add: unsigned_of_int del: of_int_add)
    let ?k = "?ks\<lparr>ks_position := base + word_of_int off, ks_eof := (base + word_of_int off \<ge> ks_size ?ks)\<rparr>"
    have r: "stream_call s task h (Seek off whence) = Some (set_stream s i ?k, 0, [])"
      using h False t by (auto simp: file_seek_def Let_def base_def)
    show ?thesis unfolding r using flags_only [OF ok i, of ?k] so False len pos
      by (auto simp: refines_call_def abs_file_def Let_def b_def)
  qed
qed

lemma read_refines:
  assumes ok: "fs_ok s" and h: "handle_from_id s task h = Some i" and p: "permitted (s_streams s ! i) (abs_file (fs_km s) (s_streams s ! i)) (Read n)"
    and d: "\<not> ks_direct_backend (s_streams s ! i)"
  shows "refines_call s i (Read n) (stream_call s task h (Read n))"
proof -
  let ?ks = "s_streams s ! i"
  note i = handle_index [OF h] and F = fs_okD [OF ok]
  have so: "stream_ok (fs_km s) ?ks" by (rule F(3) [OF i])
  have len: "i < length (s_streams s)" using i F(2) by simp
  have rd: "ks_readable ?ks" and n: "unat (word_of_nat n :: u64) = n" using p by (simp_all add: unat_of_nat)
  show ?thesis
  proof (cases "ks_position ?ks \<ge> ks_size ?ks")
    case True
    then have r: "stream_call s task h (Read n) = Some (set_stream s i (?ks\<lparr>ks_eof := True\<rparr>), 0, [])"
      using h rd by (simp add: file_read_def Let_def)
    have "drop (unat (ks_position ?ks)) (stream_bytes (fs_km s) ?ks) = []" using True by (simp add: word_le_nat_alt)
    then show ?thesis unfolding r using flags_only [OF ok i, of "?ks\<lparr>ks_eof := True\<rparr>"] so len
      by (simp add: refines_call_def abs_file_def Let_def)
  next
    case False
    define m where "m = (if ks_size ?ks - ks_position ?ks < word_of_nat n then ks_size ?ks - ks_position ?ks else word_of_nat n)"
    have sub: "unat (ks_size ?ks - ks_position ?ks) = unat (ks_size ?ks) - unat (ks_position ?ks)" using False by (simp add: unat_sub_if' word_le_nat_alt)
    have m: "unat m = min n (unat (ks_size ?ks) - unat (ks_position ?ks))" using sub n by (auto simp: m_def word_less_nat_alt)
    have ps: "unat (ks_position ?ks) < unat (ks_size ?ks)" using False by (simp add: word_le_nat_alt)
    have own: "stream_data ?ks \<noteq> 0" using so d False by (auto simp: stream_ok_def stream_data_def)
    let ?b = "heap_bytes (fs_km s) (stream_data ?ks + ks_position ?ks) (unat m)"
    have b: "?b = take (unat m) (drop (unat (ks_position ?ks)) (stream_bytes (fs_km s) ?ks))"
    proof (rule nth_equalityI)
      show "length ?b = length (take (unat m) (drop (unat (ks_position ?ks)) (stream_bytes (fs_km s) ?ks)))" using m by simp
      fix j assume "j < length ?b"
      then have j: "j < unat m" by simp
      then have "unat (ks_position ?ks) + j < unat (ks_size ?ks)" using m by linarith
      then show "?b ! j = take (unat m) (drop (unat (ks_position ?ks)) (stream_bytes (fs_km s) ?ks)) ! j"
        using d j by (simp add: stream_bytes_def stream_data_def add.assoc)
    qed
    have "unat (ks_position ?ks) + unat m \<le> unat (ks_size ?ks)" using m ps by linarith
    from le_less_trans [OF this unat_lt_64] have "unat (ks_position ?ks) + unat m < 2 ^ 64" by simp
    then have pos: "unat (ks_position ?ks + m) = unat (ks_position ?ks) + unat m" by (simp add: unat_plus64)
    define ks' where "ks' = ?ks\<lparr>ks_position := ks_position ?ks + m, ks_eof := (ks_position ?ks + m \<ge> ks_size ?ks)\<rparr>"
    have r: "stream_call s task h (Read n) = Some (set_stream s i ks', int (unat m), take (unat m) (if m > 0 then splice_at (replicate n 0) 0 ?b else replicate n 0))"
      using h rd False d own by (simp add: file_read_def Let_def m_def [symmetric] ks'_def)
    have out: "take (unat m) (if m > 0 then splice_at (replicate n 0) 0 ?b else replicate n 0) = ?b"
      by (cases "m = 0") (simp_all add: splice_at_def word_neq_0_conv)
    have tk: "take n (drop (unat (ks_position ?ks)) (stream_bytes (fs_km s) ?ks)) = ?b" unfolding b using m by (simp add: min_def)
    have "(abs_file (fs_km s) ks', int (unat m), ?b) = af_call (abs_file (fs_km s) ?ks) (Read n)"
      using tk pos by (simp add: abs_file_def Let_def ks'_def)
    then show ?thesis unfolding r out using flags_only [OF ok i, of ks'] so len by (simp add: refines_call_def Let_def ks'_def)
  qed
qed

lemma truncate_refines:
  assumes ok: "fs_ok s" and h: "handle_from_id s task h = Some i" and p: "permitted (s_streams s ! i) (abs_file (fs_km s) (s_streams s ! i)) (Truncate n)"
    and d: "\<not> ks_direct_backend (s_streams s ! i)"
  shows "refines_call s i (Truncate n) (stream_call s task h (Truncate n))"
proof -
  let ?ks = "s_streams s ! i" and ?n = "word_of_nat n :: u64"
  note i = handle_index [OF h] and F = fs_okD [OF ok]
  have so: "stream_ok (fs_km s) ?ks" by (rule F(3) [OF i])
  have len: "i < length (s_streams s)" using i F(2) by simp
  have n: "unat ?n = n" "unat ?n < 2 ^ 59" using p by (simp_all add: unat_of_nat)
  have "sint ?n = int n" using p signed_take_bit_int_eq_self [of 63 "int n"] by (simp add: signed_of_nat)
  then have wr: "ks_writable ?ks" "\<not> sint ?n < 0" using p by simp_all
  obtain km1 ks1 e where E: "extend_stream (fs_km s) ?ks ?n = Some (km1, ks1, e)" "buffer_step (fs_km s) ?ks km1 ks1"
    "if e then stream_bytes km1 ks1 = grown (stream_bytes (fs_km s) ?ks) n \<and> ks_error ks1 = ks_error ?ks
     else stream_bytes km1 ks1 = stream_bytes (fs_km s) ?ks \<and> ks_error ks1 \<and> ks_capacity ks1 < ?n \<and> heap_refuses (fs_km s) km1 n"
    using extend_stream_spec [OF F(1) so d n(2)] unfolding n(1) by (metis (no_types, lifting))
  note B = buffer_step_facts [OF E(2)] and C = stream_core_fields [OF buffer_step_facts(4) [OF E(2)]]
  show ?thesis
  proof (cases e)
    case False
    then have r: "stream_call s task h (Truncate n) = Some (set_stream (set_km s km1) i ks1, - 1, [])"
      using h wr E(1) by (simp add: file_truncate_def Let_def)
    show ?thesis unfolding r using stream_update [OF ok i E(2) refl refl B(2), of "set_stream (set_km s km1) i ks1"] E(3) False len n(1)
      by (simp add: refines_call_def out_of_memory_def word_less_nat_alt)
  next
    case True
    define ks' where "ks' = ks1\<lparr>ks_size := ?n, ks_position := (if ks_position ks1 > ?n then ?n else ks_position ks1), ks_dirty := True,
      ks_eof := ((if ks_position ks1 > ?n then ?n else ks_position ks1) \<ge> ?n)\<rparr>"
    have r: "stream_call s task h (Truncate n) = Some (set_stream (set_km s km1) i ks', 0, [])"
      using h wr E(1) True by (auto simp: file_truncate_def Let_def ks'_def)
    have sz: "unat (ks_size ks1) = max n (unat (ks_size ?ks))" using E(3) True arg_cong [of _ _ length] by (auto simp: grown_def max_def dest: arg_cong [of _ _ length])
    have d1: "\<not> ks_direct_backend ks1" using C(1) d by simp
    have so': "stream_ok km1 ks'" using B(2) d1 sz n(1) by (auto simp: stream_ok_def ks'_def word_le_nat_alt)
    have "stream_bytes km1 ks' = take n (stream_bytes km1 ks1)" using sz n(1) by (simp add: stream_bytes_def ks'_def take_heap_bytes)
    then have "abs_file km1 ks' = fst (af_call (abs_file (fs_km s) ?ks) (Truncate n))"
      using E(3) True C(4,5) n(1) by (auto simp: abs_file_def ks'_def word_less_nat_alt)
    moreover have "ks_owned_buffer ks' = ks_owned_buffer ks1" by (simp add: ks'_def)
    ultimately show ?thesis unfolding r using stream_update [OF ok i E(2) refl _ so', of "set_stream (set_km s km1) i ks'"] len
      by (simp add: refines_call_def Let_def)
  qed
qed

text \<open>Writing at a position inside the bytes, once the buffer is large enough.\<close>

lemma grown_grown: "grown (grown xs m) n = grown xs (max m n)"
  by (auto simp: grown_def max_def simp flip: replicate_add)

lemma write_refines:
  assumes ok: "fs_ok s" and h: "handle_from_id s task h = Some i" and p: "permitted (s_streams s ! i) (abs_file (fs_km s) (s_streams s ! i)) (Write b)"
    and d: "\<not> ks_direct_backend (s_streams s ! i)"
  shows "refines_call s i (Write b) (stream_call s task h (Write b))"
proof -
  let ?ks0 = "s_streams s ! i" and ?n = "word_of_nat (length b) :: u64"
  define ks where "ks = (if ks_append ?ks0 then ?ks0\<lparr>ks_position := ks_size ?ks0\<rparr> else ?ks0)"
  note i = handle_index [OF h] and F = fs_okD [OF ok]
  have len: "i < length (s_streams s)" using i F(2) by simp
  have so: "stream_ok (fs_km s) ks" "\<not> ks_direct_backend ks" and same: "stream_bytes (fs_km s) ks = stream_bytes (fs_km s) ?ks0" "ks_owned_buffer ks = ks_owned_buffer ?ks0"
      "ks_append ks = ks_append ?ks0" and pos: "unat (ks_position ks) = (if ks_append ?ks0 then length (stream_bytes (fs_km s) ?ks0) else unat (ks_position ?ks0))"
    using F(3) [OF i] d by (simp_all add: ks_def)
  have wr: "ks_writable ?ks0" using p by simp
  have fit: "unat (ks_position ks) + length b < 2 ^ 59" using p pos by (auto simp: abs_file_def)
  then have p59: "unat (ks_position ks) < 2 ^ 59" and n: "unat ?n = length b" by (simp_all add: unat_of_nat)
  define e where "e = ks_position ks + ?n"
  have e: "unat e = unat (ks_position ks) + length b" "unat e < 2 ^ 59" using fit n by (simp_all add: e_def unat_plus64)
  then have nov: "\<not> e < ks_position ks" by (simp add: word_less_nat_alt)
  obtain km1 ks1 x where X: "extend_stream (fs_km s) ks (ks_position ks) = Some (km1, ks1, x)" "buffer_step (fs_km s) ks km1 ks1"
    "if x then stream_bytes km1 ks1 = grown (stream_bytes (fs_km s) ks) (unat (ks_position ks)) \<and> ks_error ks1 = ks_error ks
     else stream_bytes km1 ks1 = stream_bytes (fs_km s) ks \<and> ks_error ks1 \<and> ks_size ks < ks_position ks \<and> ks_capacity ks1 < ks_position ks \<and>
       heap_refuses (fs_km s) km1 (unat (ks_position ks))"
    "ks_position ks \<le> ks_size ks \<longrightarrow> km1 = fs_km s"
    using extend_stream_spec [OF F(1) so p59] by blast
  note B1 = buffer_step_facts [OF X(2)] and C1 = stream_core_fields [OF buffer_step_facts(4) [OF X(2)]]
  have d1: "\<not> ks_direct_backend ks1" using C1(1) so(2) by simp
  have size: "ks_size ks = ks_size ?ks0" by (simp add: ks_def)
  have at: "(if af_append (abs_file (fs_km s) ?ks0) then length (af_bytes (abs_file (fs_km s) ?ks0)) else af_pos (abs_file (fs_km s) ?ks0)) = unat (ks_position ks)"
    using pos by (simp add: abs_file_def)
  have failed: "failed_call s i (Write b) s' 0 \<longleftrightarrow>
      unat (ks_size ks) < unat (ks_position ks) \<and> stream_bytes (fs_km s') (s_streams s' ! i) = stream_bytes (fs_km s) ?ks0 \<and> out_of_memory (fs_km s) s' i (unat (ks_position ks)) \<or>
      stream_bytes (fs_km s') (s_streams s' ! i) = grown (stream_bytes (fs_km s) ?ks0) (unat (ks_position ks)) \<and>
        (\<exists>km. heap_frame (fs_km s) km {ks_owned_buffer ?ks0} \<and> (unat (ks_position ks) \<le> unat (ks_size ks) \<longrightarrow> km = fs_km s) \<and>
          out_of_memory km s' i (unat (ks_position ks) + length b))" for s'
    unfolding failed_call.simps Let_def at by (simp add: abs_file_def size)
  show ?thesis
  proof (cases x)
    case False
    then have r: "stream_call s task h (Write b) = Some (set_stream (set_km s km1) i ks1, 0, [])"
      using h wr X(1) by (simp add: file_write_def Let_def ks_def [symmetric])
    have "failed_call s i (Write b) (set_stream (set_km s km1) i ks1) 0"
      unfolding failed using X(3) False len same(1) by (simp add: out_of_memory_def word_less_nat_alt)
    then show ?thesis unfolding r using stream_update [OF ok i X(2) same(2) refl B1(2), of "set_stream (set_km s km1) i ks1"]
      by (intro failed_refines) simp_all
  next
    case True
    obtain km2 ks2 y where Y: "ensure_capacity km1 ks1 e = Some (km2, ks2, y)" "buffer_step km1 ks1 km2 ks2" "ks_size ks2 = ks_size ks1"
        "ks_error ks2 = ks_error ks1" "stream_bytes km2 ks2 = stream_bytes km1 ks1"
        "if y then e \<le> ks_capacity ks2 else ks2 = ks1 \<and> ks_capacity ks1 < e \<and> heap_refuses km1 km2 (unat e)"
      using ensure_capacity_spec [OF B1(3,2) d1 e(2)] by blast
    note B2 = buffer_step_facts [OF Y(2)] and C2 = stream_core_fields [OF buffer_step_facts(4) [OF Y(2)]] and T2 = buffer_step_trans [OF X(2) Y(2)]
    have bytes: "stream_bytes km2 ks2 = grown (stream_bytes (fs_km s) ?ks0) (unat (ks_position ks))" using X(3) Y(5) True same(1) by simp
    show ?thesis
    proof (cases y)
      case False
      then have r: "stream_call s task h (Write b) = Some (set_stream (set_km s km2) i (ks2\<lparr>ks_error := True\<rparr>), 0, [])"
        using h wr X(1) Y(1) True nov C1(4) by (simp add: file_write_def Let_def ks_def [symmetric] e_def [symmetric])
      have fr: "heap_frame (fs_km s) km1 {ks_owned_buffer ?ks0}" "unat (ks_position ks) \<le> unat (ks_size ks) \<longrightarrow> km1 = fs_km s"
        using X(2,4) same(2) by (simp_all add: buffer_step_def word_le_nat_alt)
      have "out_of_memory km1 (set_stream (set_km s km2) i (ks2\<lparr>ks_error := True\<rparr>)) i (unat (ks_position ks) + length b)"
        using Y(6) False e(1) len by (simp add: out_of_memory_def word_less_nat_alt)
      then have "failed_call s i (Write b) (set_stream (set_km s km2) i (ks2\<lparr>ks_error := True\<rparr>)) 0"
        unfolding failed using fr bytes len by auto
      then show ?thesis unfolding r
        using stream_update [OF ok i T2 same(2), of "ks2\<lparr>ks_error := True\<rparr>" "set_stream (set_km s km2) i (ks2\<lparr>ks_error := True\<rparr>)"] B2(2)
        by (intro failed_refines) simp_all
    next
      case y: True
      define ks3 where "ks3 = ks2\<lparr>ks_size := (if e > ks_size ks2 then e else ks_size ks2)\<rparr>"
      define ks' where "ks' = ks3\<lparr>ks_position := e, ks_dirty := True, ks_eof := (e \<ge> ks_size ks3)\<rparr>"
      let ?km = "store km2 (ks_owned_buffer ks2 + ks_position ks) b"
      have k': "ks' = (if ks_size ks2 < e then ks2\<lparr>ks_position := e, ks_size := e, ks_dirty := True, ks_eof := True\<rparr>
          else ks2\<lparr>ks_position := e, ks_dirty := True, ks_eof := (ks_size ks2 \<le> e)\<rparr>)"
        by (simp add: ks'_def ks3_def)
      have un: "uint ?n = int (length b)" using arg_cong [OF n, of int] by simp
      have r: "stream_call s task h (Write b) = Some (set_stream (set_km s ?km) i ks', int (length b), [])"
        using h wr X(1) Y(1) True nov C1(4) C2(4) y n un by (auto simp: file_write_def Let_def ks_def [symmetric] e_def [symmetric] k')
      have d2: "\<not> ks_direct_backend ks2" using C2(1) d1 by simp
      have sz: "unat (ks_position ks) \<le> unat (ks_size ks2)" using arg_cong [OF bytes, of length] by (simp add: grown_def)
      have m: "unat (ks_size ks3) = max (unat (ks_position ks) + length b) (unat (ks_size ks2))" using e(1) by (auto simp: ks3_def word_less_nat_alt)
      have "ks_size ks2 \<le> ks_capacity ks2" using B2(2) d2 by (simp add: stream_ok_def)
      then have room: "unat (ks_position ks) + length b \<le> unat (ks_size ks3)" "unat (ks_size ks3) \<le> unat (ks_capacity ks2)"
        using m y Y(6) e(1) by (auto simp: word_le_nat_alt)
      have k3: "ks3 = ks2\<lparr>ks_size := ks_size ks3, ks_error := ks_error ks3\<rparr>" by (simp add: ks3_def)
      note S = buffer_store [OF B2(3,2) d2 room sz refl refl k3]
      have T3: "buffer_step (fs_km s) ks ?km ks3" by (rule buffer_step_trans [OF T2 S(1)])
      have so': "stream_ok ?km ks'" "ks_owned_buffer ks' = ks_owned_buffer ks3" using buffer_step_facts(2) [OF T3] by (simp_all add: ks'_def)
      have "stream_bytes ?km ks' = overwrite (grown (stream_bytes (fs_km s) ?ks0) (unat (ks_position ks))) (unat (ks_position ks)) b"
        using S(2) [OF m] bytes by (simp add: ks'_def)
      then have "abs_file ?km ks' = fst (af_call (abs_file (fs_km s) ?ks0) (Write b))"
        using pos e(1) C1(5) C2(5) same(3) by (simp add: abs_file_def Let_def ks'_def ks3_def)
      then show ?thesis unfolding r using stream_update [OF ok i T3 same(2) so'(2,1), of "set_stream (set_km s ?km) i ks'"] len
        by (simp add: refines_call_def Let_def)
    qed
  qed
qed

end
