(* ===== verification/FatInv.thy ===== *)
theory FatInv
  imports FatFile
begin

text \<open>
  What the file system relies on and what it keeps. \<open>disk_ok\<close> states the contract of a block device
  (a successful transfer moves the sectors it names; a failed one leaves what it was not asked to
  change, and a failed read of at most 128 sectors, a single transfer of the virtio driver, leaves
  the buffer alone), with the contents of the medium given by a function of the driver's state. \<open>vol_ok\<close> is the
  invariant of a mounted volume: the areas of the volume lie one after the other inside the device,
  and the cached sectors are those of the first FAT. \<open>fat\<close> is the table the volume holds.
\<close>

section \<open>Block devices\<close>

type_synonym 'w medium = "'w \<Rightarrow> nat \<Rightarrow> u8 list"

definition read_law :: "'w medium \<Rightarrow> nat \<Rightarrow> 'w read_op \<Rightarrow> bool" where
  "read_law c bc rd \<longleftrightarrow> (\<forall>w lba count buf w' ok buf'. rd w lba count buf = (w', ok, buf') \<longrightarrow>
     unat lba + unat count \<le> bc \<longrightarrow> 512 * unat count \<le> length buf \<longrightarrow>
     c w' = c w \<and> (if ok then buf' = concat (map (c w) [unat lba..<unat lba + unat count]) @ drop (512 * unat count) buf
       else length buf' = length buf \<and> drop (512 * unat count) buf' = drop (512 * unat count) buf \<and> (unat count \<le> 128 \<longrightarrow> buf' = buf)))"

definition write_law :: "'w medium \<Rightarrow> nat \<Rightarrow> 'w write_op \<Rightarrow> bool" where
  "write_law c bc wr \<longleftrightarrow> (\<forall>w lba count buf w' ok. wr w lba count buf = (w', ok) \<longrightarrow>
     unat lba + unat count \<le> bc \<longrightarrow> 512 * unat count \<le> length buf \<longrightarrow>
     (\<forall>s. s < unat lba \<or> unat lba + unat count \<le> s \<longrightarrow> c w' s = c w s) \<and>
     (ok \<longrightarrow> (\<forall>i < unat count. c w' (unat lba + i) = take 512 (drop (512 * i) buf))))"

definition disk_ok :: "'w medium \<Rightarrow> 'w block_device \<Rightarrow> bool" where
  "disk_ok c dev \<longleftrightarrow> (\<forall>w s. length (c w s) = 512) \<and>
     (case bd_ops dev of None \<Rightarrow> False
      | Some ops \<Rightarrow> (case (bo_read_blocks ops, bo_write_blocks ops) of
          (Some rd, Some wr) \<Rightarrow> read_law c (unat (bd_block_count dev)) rd \<and> write_law c (unat (bd_block_count dev)) wr
        | _ \<Rightarrow> False))"

text \<open>A device that serves every request for at least one block it has.\<close>

definition reliable :: "'w block_device \<Rightarrow> bool" where
  "reliable dev \<longleftrightarrow> (case bd_ops dev of None \<Rightarrow> False
      | Some ops \<Rightarrow> (case (bo_read_blocks ops, bo_write_blocks ops) of
          (Some rd, Some wr) \<Rightarrow>
            (\<forall>w lba count buf. count \<noteq> 0 \<longrightarrow> unat lba + unat count \<le> unat (bd_block_count dev) \<longrightarrow>
               fst (snd (rd w lba count buf)) \<and> snd (wr w lba count buf))
        | _ \<Rightarrow> False))"

section \<open>Volumes\<close>

abbreviation part :: "'w mount_state \<Rightarrow> nat" where "part st \<equiv> unat (mi_partition_start_lba (ms_info st))"
abbreviation reserved :: "'w mount_state \<Rightarrow> nat" where "reserved st \<equiv> unat (mi_reserved_sector_count (ms_info st))"
abbreviation spf :: "'w mount_state \<Rightarrow> nat" where "spf st \<equiv> unat (mi_sectors_per_fat (ms_info st))"
abbreviation spc :: "'w mount_state \<Rightarrow> nat" where "spc st \<equiv> unat (mi_sectors_per_cluster (ms_info st))"
abbreviation fats :: "'w mount_state \<Rightarrow> nat" where "fats st \<equiv> unat (mi_fat_count (ms_info st))"
abbreviation data_start :: "'w mount_state \<Rightarrow> nat" where "data_start st \<equiv> unat (mi_first_data_sector (ms_info st))"
abbreviation clusters :: "'w mount_state \<Rightarrow> nat" where "clusters st \<equiv> unat (ms_total_clusters st)"
abbreviation fsinfo_sector :: "'w mount_state \<Rightarrow> nat" where "fsinfo_sector st \<equiv> unat (mi_fs_info_sector (ms_info st))"

definition fat_start :: "'w mount_state \<Rightarrow> nat" where
  "fat_start st = part st + reserved st"

definition geometry_ok :: "'w mount_state \<Rightarrow> nat \<Rightarrow> bool" where
  "geometry_ok st bc \<longleftrightarrow> mi_bytes_per_sector (ms_info st) = 512 \<and> 0 < spc st \<and> 0 < fats st \<and>
     reserved st + fats st * spf st \<le> data_start st \<and>
     part st + data_start st + clusters st * spc st \<le> bc \<and>
     data_start st + clusters st * spc st < 2 ^ 32 \<and>
     clusters st + 2 \<le> spf st * 128 \<and> clusters st + 2 < unat FAT32_END_OF_CHAIN \<and> fsinfo_sector st < reserved st"

definition cache_ok :: "'w medium \<Rightarrow> 'w mount_state \<Rightarrow> bool" where
  "cache_ok c st \<longleftrightarrow> length (ms_fat_cache st) = 4096 \<and>
     (ms_fat_cache_valid st \<longrightarrow>
        unat (ms_fat_cache_first_sector st) + unat (ms_fat_cache_sector_count st) \<le> spf st \<and> unat (ms_fat_cache_sector_count st) \<le> 8 \<and>
        (\<forall>i < unat (ms_fat_cache_sector_count st).
           take 512 (drop (512 * i) (ms_fat_cache st)) = c (ms_world st) (fat_start st + unat (ms_fat_cache_first_sector st) + i)))"

definition vol_ok :: "'w medium \<Rightarrow> 'w mount_state \<Rightarrow> bool" where
  "vol_ok c st \<longleftrightarrow> (case ms_device st of None \<Rightarrow> False
     | Some dev \<Rightarrow> disk_ok c dev \<and> geometry_ok st (unat (bd_block_count dev)) \<and> cache_ok c st)"

definition fat :: "'w medium \<Rightarrow> 'w mount_state \<Rightarrow> u32 \<Rightarrow> u32" where
  "fat c st d = (if unat d < 128 * spf st
     then le32 (c (ms_world st) (fat_start st + unat d div 128)) (4 * (unat d mod 128)) AND 0x0FFFFFFF else 0)"

text \<open>The first sector of a cluster, and the bytes a cluster holds.\<close>

definition cluster_lba :: "'w mount_state \<Rightarrow> u32 \<Rightarrow> nat" where
  "cluster_lba st d = part st + data_start st + (unat d - 2) * spc st"

definition cluster_data :: "'w medium \<Rightarrow> 'w mount_state \<Rightarrow> u32 \<Rightarrow> u8 list" where
  "cluster_data c st d = concat (map (c (ms_world st)) [cluster_lba st d..<cluster_lba st d + spc st])"

definition volume_cluster :: "'w mount_state \<Rightarrow> u32 \<Rightarrow> bool" where
  "volume_cluster st d \<longleftrightarrow> 2 \<le> unat d \<and> unat d < clusters st + 2"

text \<open>Everything of the state but the cache, the counters and the medium.\<close>

definition same_vol :: "'w mount_state \<Rightarrow> 'w mount_state \<Rightarrow> bool" where
  "same_vol st st' \<longleftrightarrow> ms_device st' = ms_device st \<and> ms_info st' = ms_info st \<and> ms_total_clusters st' = ms_total_clusters st \<and>
     ms_fs_info_valid st' = ms_fs_info_valid st \<and> ms_mounted st' = ms_mounted st"

lemma same_vol_refl [simp]: "same_vol st st"
  by (simp add: same_vol_def)

lemma same_vol_trans: "same_vol a b \<Longrightarrow> same_vol b d \<Longrightarrow> same_vol a d"
  by (simp add: same_vol_def)

lemma same_vol_simps:
  assumes "same_vol st st'"
  shows "ms_device st' = ms_device st" "ms_info st' = ms_info st" "ms_total_clusters st' = ms_total_clusters st"
    "fat_start st' = fat_start st" "cluster_lba st' = cluster_lba st" "volume_cluster st' = volume_cluster st"
    "cluster_first_lba st' = cluster_first_lba st" "cluster_size_bytes st' = cluster_size_bytes st"
    "geometry_ok st' bc = geometry_ok st bc" "ms_fs_info_valid st' = ms_fs_info_valid st"
  using assms by (auto simp: same_vol_def fat_start_def cluster_lba_def volume_cluster_def cluster_first_lba_def
      cluster_size_bytes_def geometry_ok_def fun_eq_iff)

lemma vol_okE:
  assumes "vol_ok c st"
  obtains dev rd wr ops where "ms_device st = Some dev" "bd_ops dev = Some ops" "bo_read_blocks ops = Some rd" "bo_write_blocks ops = Some wr"
    "read_law c (unat (bd_block_count dev)) rd" "write_law c (unat (bd_block_count dev)) wr" "\<And>w s. length (c w s) = 512"
    "geometry_ok st (unat (bd_block_count dev))" "cache_ok c st" "disk_ok c dev"
  using assms by (auto simp: vol_ok_def disk_ok_def split: option.splits)

definition blocks :: "'w mount_state \<Rightarrow> nat" where
  "blocks st = (case ms_device st of None \<Rightarrow> 0 | Some dev \<Rightarrow> unat (bd_block_count dev))"

definition reliable_vol :: "'w mount_state \<Rightarrow> bool" where
  "reliable_vol st \<longleftrightarrow> (case ms_device st of None \<Rightarrow> False | Some dev \<Rightarrow> reliable dev)"

lemma reliable_volD:
  assumes "reliable_vol st" "ms_device st = Some dev" "bd_ops dev = Some ops" "bo_read_blocks ops = Some rd" "bo_write_blocks ops = Some wr"
    "count \<noteq> 0" "unat lba + unat count \<le> unat (bd_block_count dev)"
  shows "rd w lba count buf = (w', ok, buf') \<Longrightarrow> ok" "wr w lba count buf = (w', ok) \<Longrightarrow> ok"
proof -
  have "fst (snd (rd w lba count buf)) \<and> snd (wr w lba count buf)"
    using assms(1,6,7) unfolding reliable_vol_def reliable_def by (simp add: assms(2-5))
  then show "rd w lba count buf = (w', ok, buf') \<Longrightarrow> ok" "wr w lba count buf = (w', ok) \<Longrightarrow> ok" by auto
qed

lemma vol_geometry: "vol_ok c st \<Longrightarrow> geometry_ok st (blocks st)"
  by (auto simp: vol_ok_def blocks_def split: option.splits)

lemma vol_cache: "vol_ok c st \<Longrightarrow> cache_ok c st"
  by (auto simp: vol_ok_def split: option.splits)

lemma vol_sector_length: "vol_ok c st \<Longrightarrow> length (c w s) = 512"
  by (auto simp: vol_ok_def disk_ok_def split: option.splits)

lemma vol_okI:
  assumes "vol_ok c st" "same_vol st st'" "cache_ok c st'"
  shows "vol_ok c st'"
  using assms by (auto simp: vol_ok_def same_vol_simps split: option.splits)

section \<open>Transfers\<close>

lemma read_sectors_spec:
  assumes v: "vol_ok c st" and r: "read_sectors st lba count buf = (st', ok, buf')" and len: "512 * unat count \<le> length buf"
  obtains w where "st' = st\<lparr>ms_world := w\<rparr>" "c w = c (ms_world st)"
    "ok \<longrightarrow> buf' = concat (map (c (ms_world st)) [unat lba..<unat lba + unat count]) @ drop (512 * unat count) buf"
    "\<not> ok \<and> unat count \<le> 128 \<longrightarrow> buf' = buf"
    "reliable_vol st \<and> count \<noteq> 0 \<and> unat lba + unat count \<le> blocks st \<longrightarrow> ok"
proof -
  obtain dev rd wr ops where D: "ms_device st = Some dev" "bd_ops dev = Some ops" "bo_read_blocks ops = Some rd" "bo_write_blocks ops = Some wr"
    "read_law c (unat (bd_block_count dev)) rd" by (rule vol_okE [OF v])
  show thesis
  proof (cases "count = 0 \<or> \<not> unat lba + unat count \<le> unat (bd_block_count dev)")
    case True
    then have "st' = st\<lparr>ms_world := ms_world st\<rparr> \<and> \<not> ok \<and> buf' = buf"
      using r D by (auto simp: read_sectors_def read_blocks_in_range)
    then show thesis using True D by (intro that [of "ms_world st"]) (auto simp: blocks_def)
  next
    case False
    obtain w' ok' b' where x: "rd (ms_world st) lba count buf = (w', ok', b')" by (metis prod_cases3)
    then have e: "st' = st\<lparr>ms_world := w'\<rparr>" "ok = ok'" "buf' = b'"
      using r D False by (auto simp: read_sectors_def read_blocks_in_range)
    have "c w' = c (ms_world st) \<and> (if ok' then b' = concat (map (c (ms_world st)) [unat lba..<unat lba + unat count]) @ drop (512 * unat count) buf
        else length b' = length buf \<and> drop (512 * unat count) b' = drop (512 * unat count) buf \<and> (unat count \<le> 128 \<longrightarrow> b' = buf))"
      using D(5) x False len unfolding read_law_def by blast
    moreover have "ok'" if "reliable_vol st"
      by (rule reliable_volD(1) [OF that D(1-4) _ _ x]) (use False in blast)+
    ultimately show thesis using e False by (intro that [of w']) (simp_all split: if_splits)
  qed
qed

lemma write_sectors_spec:
  assumes v: "vol_ok c st" and r: "write_sectors st lba 1 buf = (st', ok)" and len: "length buf = 512"
  obtains w where "st' = st\<lparr>ms_world := w\<rparr>" "\<forall>s. s \<noteq> unat lba \<longrightarrow> c w s = c (ms_world st) s" "ok \<longrightarrow> c w (unat lba) = buf"
    "reliable_vol st \<and> unat lba < blocks st \<longrightarrow> ok"
proof -
  obtain dev rd wr ops where D: "ms_device st = Some dev" "bd_ops dev = Some ops" "bo_read_blocks ops = Some rd" "bo_write_blocks ops = Some wr"
    and W: "write_law c (unat (bd_block_count dev)) wr" by (rule vol_okE [OF v])
  show thesis
  proof (cases "unat lba + 1 \<le> unat (bd_block_count dev)")
    case False
    then have "st' = st\<lparr>ms_world := ms_world st\<rparr> \<and> \<not> ok"
      using r D by (auto simp: write_sectors_def write_blocks_in_range)
    then show thesis using False D by (intro that [of "ms_world st"]) (auto simp: blocks_def)
  next
    case True
    obtain w' ok' where x: "wr (ms_world st) lba 1 buf = (w', ok')" by fastforce
    then have e: "st' = st\<lparr>ms_world := w'\<rparr>" "ok = ok'"
      using r D True by (auto simp: write_sectors_def write_blocks_in_range)
    have "(\<forall>s. s < unat lba \<or> unat lba + unat (1 :: u32) \<le> s \<longrightarrow> c w' s = c (ms_world st) s) \<and>
        (ok' \<longrightarrow> (\<forall>i < unat (1 :: u32). c w' (unat lba + i) = take 512 (drop (512 * i) buf)))"
      using W x True len unfolding write_law_def by fastforce
    then have "(\<forall>s. s \<noteq> unat lba \<longrightarrow> c w' s = c (ms_world st) s) \<and> (ok' \<longrightarrow> c w' (unat lba) = buf)"
      using len by (auto simp: nat_neq_iff)
    moreover have "ok'" if "reliable_vol st"
      by (rule reliable_volD(2) [OF that D(1-4) _ _ x]) (use True in simp_all)
    ultimately show thesis using e by (intro that [of w']) simp_all
  qed
qed

lemma read_sector_spec:
  assumes v: "vol_ok c st" and r: "read_sector st lba = (st', res)"
  obtains w where "st' = st\<lparr>ms_world := w\<rparr>" "c w = c (ms_world st)" "\<forall>s. res = Some s \<longrightarrow> s = c (ms_world st) (unat lba)"
    "reliable_vol st \<and> unat lba < blocks st \<longrightarrow> res \<noteq> None"
proof -
  obtain st1 ok b where x: "read_sectors st lba 1 sector_buffer = (st1, ok, b)" by (metis prod_cases3)
  have e: "st' = st1" "res = (if ok then Some b else None)" using r x by (simp_all add: read_sector_def)
  have room: "512 * unat (1 :: u32) \<le> length sector_buffer" by simp
  obtain w where W: "st1 = st\<lparr>ms_world := w\<rparr>" "c w = c (ms_world st)"
      "ok \<longrightarrow> b = concat (map (c (ms_world st)) [unat lba..<unat lba + unat (1 :: u32)]) @ drop (512 * unat (1 :: u32)) sector_buffer"
      "reliable_vol st \<and> (1 :: u32) \<noteq> 0 \<and> unat lba + unat (1 :: u32) \<le> blocks st \<longrightarrow> ok"
    by (rule read_sectors_spec [OF v x room])
  show thesis
    by (rule that [of w]) (use W e in \<open>auto split: if_splits\<close>)
qed

text \<open>Reading a sector changes nothing of the volume.\<close>

lemma cache_ok_world: "c w = c (ms_world st) \<Longrightarrow> cache_ok c (st\<lparr>ms_world := w\<rparr>) = cache_ok c st"
  by (simp add: cache_ok_def fat_start_def)

lemma same_vol_world [simp]: "same_vol st (st\<lparr>ms_world := w\<rparr>)"
  by (simp add: same_vol_def)

lemma vol_ok_world: "vol_ok c st \<Longrightarrow> c w = c (ms_world st) \<Longrightarrow> vol_ok c (st\<lparr>ms_world := w\<rparr>)"
  by (rule vol_okI) (auto simp: cache_ok_world dest: vol_cache)

end
