(* ===== verification/FatTab.thy ===== *)
theory FatTab
  imports FatInv
begin

text \<open>
  The FAT as a table: reading an entry through the cache gives the entry of the first FAT on the
  medium, writing an entry changes that entry and no other, in every copy, and keeps the cache in
  step. Nothing outside the FAT area changes.
\<close>

section \<open>Concatenated sectors\<close>

lemma length_concat_const: "(\<And>x. x \<in> set xss \<Longrightarrow> length x = n) \<Longrightarrow> length (concat xss) = n * length xss"
  by (induction xss) auto

lemma drop_concat_const:
  assumes "\<And>x. x \<in> set xss \<Longrightarrow> length x = n" "k \<le> length xss"
  shows "drop (n * k) (concat xss @ ys) = concat (drop k xss) @ ys"
  using assms
proof (induction k arbitrary: xss)
  case (Suc k)
  then obtain x xs where x: "xss = x # xs" by (cases xss) auto
  then show ?case using Suc.IH [of xs] Suc.prems by (simp add: add.commute)
qed simp

lemma concat_slice:
  assumes "\<And>x. x \<in> set xss \<Longrightarrow> length x = n" "k < length xss"
  shows "take n (drop (n * k) (concat xss @ ys)) = xss ! k"
proof -
  have "drop k xss = xss ! k # drop (Suc k) xss" using assms(2) by (simp add: Cons_nth_drop_Suc)
  then show ?thesis using drop_concat_const [of xss n k ys] assms by simp
qed

section \<open>Where an entry is\<close>

lemma unat_ucast_u64 [simp]: "unat (ucast (x :: u32) :: u64) = unat x" "unat (ucast (y :: u16) :: u64) = unat y" "unat (ucast (z :: u8) :: u64) = unat z"
  by (simp_all add: unat_ucast_up)

lemma unat_lt_32 [simp]: "unat (x :: u32) < 4294967296"
  using unsigned_less [of x] by simp

lemma unat_plus32: "unat x + unat y < 4294967296 \<Longrightarrow> unat (x + y) = unat x + unat (y :: u32)"
  by (rule unat_plus_nw) simp

lemma unat_times32: "unat x * unat y < 4294967296 \<Longrightarrow> unat (x * y) = unat x * unat (y :: u32)"
  by (simp add: unat_word_ariths)

lemma entry_position:
  assumes "unat (d :: u32) < 2 ^ 28"
  shows "unat (d * 4 div 512) = unat d div 128" "unat (d * 4 mod 512) = 4 * (unat d mod 128)"
proof -
  have "unat (d * 4) = 4 * unat d" using assms unat_times32 [of d 4] by simp
  moreover have "4 * unat d div (4 * 128) = unat d div 128" "4 * unat d mod (4 * 128) = 4 * (unat d mod 128)"
    by (simp only: div_mult_mult1_if) (simp, simp only: mult_mod_right)
  ultimately show "unat (d * 4 div 512) = unat d div 128" "unat (d * 4 mod 512) = 4 * (unat d mod 128)"
    by (simp_all add: unat_div unat_mod)
qed

lemma fat_area:
  assumes "vol_ok c st" "k < fats st" "i < spf st"
  shows "fat_start st + k * spf st + i < blocks st" "part st + reserved st + k * spf st + i < part st + data_start st"
    "k * spf st + i < fats st * spf st"
proof -
  have "k * spf st + i < (k + 1) * spf st" using assms(3) by simp
  also have "\<dots> \<le> fats st * spf st" using assms(2) by (intro mult_le_mono1) simp
  finally show k: "k * spf st + i < fats st * spf st" .
  have "reserved st + fats st * spf st \<le> data_start st" "part st + data_start st \<le> blocks st"
    using vol_geometry [OF assms(1)] by (auto simp: geometry_ok_def)
  then show "fat_start st + k * spf st + i < blocks st" "part st + reserved st + k * spf st + i < part st + data_start st"
    using k by (auto simp: fat_start_def)
qed

lemma blocks_lt_64: "vol_ok c st \<Longrightarrow> blocks st < 18446744073709551616"
  by (auto simp: vol_ok_def blocks_def split: option.splits)

lemma vol_512: "vol_ok c st \<Longrightarrow> mi_bytes_per_sector (ms_info st) = 512"
  by (drule vol_geometry) (simp add: geometry_ok_def)

lemma fat_lba:
  assumes v: "vol_ok c st" and k: "k < fats st" and i: "unat i < spf st"
  shows "unat (mi_partition_start_lba (ms_info st) + ucast (mi_reserved_sector_count (ms_info st))
      + ucast (word_of_nat k * mi_sectors_per_fat (ms_info st)) + ucast (i :: u32)) = fat_start st + k * spf st + unat i"
proof -
  note A = fat_area [OF v k i] and B = blocks_lt_64 [OF v]
  have "k < 256" using k unat_less_exp [of "mi_fat_count (ms_info st)"] by simp
  then have k32: "unat (word_of_nat k :: u32) = k" by (simp add: unat_of_nat)
  have g: "data_start st < 4294967296" by simp
  have "k * spf st < 4294967296" using A(2) g by linarith
  then have m: "unat (word_of_nat k * mi_sectors_per_fat (ms_info st)) = k * spf st" using unat_times32 [of "word_of_nat k"] k32 by simp
  show ?thesis using A(1) B m by (simp add: unat_plus64 fat_start_def)
qed

section \<open>Reading an entry\<close>

lemma fill_fat_cache_spec:
  assumes v: "vol_ok c st" and i: "unat i < spf st" and f: "fill_fat_cache st i = (st', ok)"
  shows "vol_ok c st'" "same_vol st st'" "c (ms_world st') = c (ms_world st)" "ms_free_cluster_count st' = ms_free_cluster_count st"
    "ms_next_free_cluster_hint st' = ms_next_free_cluster_hint st" "ok \<Longrightarrow> fat_cache_hit st' i" "reliable_vol st \<Longrightarrow> ok"
proof -
  define first where "first = i AND NOT (FAT_CACHE_SECTOR_COUNT - 1)"
  define count where "count = (if mi_sectors_per_fat (ms_info st) - first > FAT_CACHE_SECTOR_COUNT then FAT_CACHE_SECTOR_COUNT else mi_sectors_per_fat (ms_info st) - first)"
  define lba where "lba = mi_partition_start_lba (ms_info st) + ucast (mi_reserved_sector_count (ms_info st)) + ucast first"
  have "FAT_CACHE_SECTOR_COUNT - 1 = (mask 3 :: u32)" by (simp add: FAT_CACHE_SECTOR_COUNT_def mask_eq_exp_minus_1)
  then have first: "unat first = unat i div 8 * 8" by (simp add: first_def unat_and_not_mask)
  then have fi: "unat first \<le> unat i" "unat i < unat first + 8" by presburger+
  have "unat (mi_sectors_per_fat (ms_info st) - first) = spf st - unat first" using fi i by (intro unat_minus_nw) simp
  then have count: "unat count = min 8 (spf st - unat first)" by (auto simp: count_def FAT_CACHE_SECTOR_COUNT_def word_less_nat_alt)
  then have cb: "unat first + unat count \<le> spf st" "unat count \<le> 8" "unat i < unat first + unat count" "unat count > 0" using fi i by auto
  have "0 < fats st" using vol_geometry [OF v] by (simp add: geometry_ok_def)
  moreover have "unat first + unat count - 1 < spf st" using cb by linarith
  ultimately have "fat_start st + 0 * spf st + (unat first + unat count - 1) < blocks st" by (rule fat_area(1) [OF v])
  then have A: "fat_start st + (unat first + unat count) \<le> blocks st" using cb(4) by linarith
  have lba: "unat lba = fat_start st + unat first" using A blocks_lt_64 [OF v] by (simp add: lba_def unat_plus64 fat_start_def)
  have len: "length (ms_fat_cache st) = 4096" using vol_cache [OF v] by (simp add: cache_ok_def)
  obtain st1 ok1 cache where x: "read_sectors st lba count (ms_fat_cache st) = (st1, ok1, cache)" by (metis prod_cases3)
  have "fill_fat_cache st i = (if ok1 then (st1\<lparr>ms_fat_cache := cache, ms_fat_cache_first_sector := first, ms_fat_cache_sector_count := count, ms_fat_cache_valid := True\<rparr>, True)
      else (st1\<lparr>ms_fat_cache := cache\<rparr>, False))"
    unfolding fill_fat_cache_def Let_def first_def [symmetric] count_def [symmetric] lba_def [symmetric] x by simp
  then have e: "ok = ok1" "st' = (if ok1 then st1\<lparr>ms_fat_cache := cache, ms_fat_cache_first_sector := first, ms_fat_cache_sector_count := count, ms_fat_cache_valid := True\<rparr>
      else st1\<lparr>ms_fat_cache := cache\<rparr>)"
    unfolding f by (cases ok1; simp only: if_True if_False prod.inject simp_thms)+
  have room: "512 * unat count \<le> length (ms_fat_cache st)" using cb(2) len by simp
  obtain w where W: "st1 = st\<lparr>ms_world := w\<rparr>" "c w = c (ms_world st)"
    "ok1 \<longrightarrow> cache = concat (map (c (ms_world st)) [unat lba..<unat lba + unat count]) @ drop (512 * unat count) (ms_fat_cache st)"
    "\<not> ok1 \<and> unat count \<le> 128 \<longrightarrow> cache = ms_fat_cache st" "reliable_vol st \<and> count \<noteq> 0 \<and> unat lba + unat count \<le> blocks st \<longrightarrow> ok1"
    by (rule read_sectors_spec [OF v x room])
  show sv: "same_vol st st'" using e W(1) by (auto simp: same_vol_def)
  show cw: "c (ms_world st') = c (ms_world st)" using e W by simp
  show "ms_free_cluster_count st' = ms_free_cluster_count st" "ms_next_free_cluster_hint st' = ms_next_free_cluster_hint st" using e W(1) by auto
  show "reliable_vol st \<Longrightarrow> ok" using W(5) A lba cb(4) e by (auto simp: unat_gt_0)
  have "unat (first + count) = unat first + unat count" using cb(1) unat_lt_32 [of "mi_sectors_per_fat (ms_info st)"] by (intro unat_plus32) linarith
  then show "ok \<Longrightarrow> fat_cache_hit st' i" using e fi cb(3) by (simp add: fat_cache_hit_def word_le_nat_alt word_less_nat_alt)
  have "cache_ok c st'"
  proof (cases ok1)
    case False
    then have "st' = st\<lparr>ms_world := w\<rparr>" using e W cb(2) by simp
    then show ?thesis using vol_cache [OF v] by (simp add: cache_ok_world W(2))
  next
    case True
    let ?ss = "map (c (ms_world st)) [unat lba..<unat lba + unat count]"
    have ss: "\<And>x. x \<in> set ?ss \<Longrightarrow> length x = 512" using vol_sector_length [OF v] by auto
    have "take 512 (drop (512 * k) cache) = c (ms_world st) (fat_start st + unat first + k)" if k: "k < unat count" for k
    proof -
      have "take 512 (drop (512 * k) cache) = ?ss ! k"
        using concat_slice [of ?ss 512 k "drop (512 * unat count) (ms_fat_cache st)", OF ss] k W(3) True by (simp del: take_append drop_append)
      then show ?thesis using k lba by simp
    qed
    moreover have "length cache = 4096" using W(3) True len cb(2) length_concat_const [of ?ss 512, OF ss] by simp
    ultimately show ?thesis using True e W(1) cw cb by (simp add: cache_ok_def fat_start_def)
  qed
  then show "vol_ok c st'" by (rule vol_okI [OF v sv])
qed

text \<open>\<open>unchanged\<close>: the operation may have filled the cache and advanced the driver, nothing else.\<close>

definition unchanged :: "'w medium \<Rightarrow> 'w mount_state \<Rightarrow> 'w mount_state \<Rightarrow> bool" where
  "unchanged c st st' \<longleftrightarrow> vol_ok c st' \<and> same_vol st st' \<and> c (ms_world st') = c (ms_world st) \<and>
     ms_free_cluster_count st' = ms_free_cluster_count st \<and> ms_next_free_cluster_hint st' = ms_next_free_cluster_hint st"

lemma unchanged_refl: "vol_ok c st \<Longrightarrow> unchanged c st st"
  by (simp add: unchanged_def)

lemma unchanged_trans: "unchanged c a b \<Longrightarrow> unchanged c b d \<Longrightarrow> unchanged c a d"
  by (auto simp: unchanged_def intro: same_vol_trans)

lemma unchanged_world: "vol_ok c st \<Longrightarrow> c w = c (ms_world st) \<Longrightarrow> unchanged c st (st\<lparr>ms_world := w\<rparr>)"
  by (simp add: unchanged_def vol_ok_world)

lemma reliable_same_vol: "same_vol st st' \<Longrightarrow> reliable_vol st' = reliable_vol st" "same_vol st st' \<Longrightarrow> blocks st' = blocks st"
  by (simp_all add: reliable_vol_def blocks_def same_vol_def)

lemma unchangedD:
  assumes "unchanged c st st'"
  shows "vol_ok c st'" "same_vol st st'" "fat c st' = fat c st" "cluster_data c st' = cluster_data c st"
    "c (ms_world st') = c (ms_world st)" "reliable_vol st' = reliable_vol st"
proof -
  have U: "vol_ok c st'" "same_vol st st'" "c (ms_world st') = c (ms_world st)" using assms by (auto simp: unchanged_def)
  then show "vol_ok c st'" "same_vol st st'" "c (ms_world st') = c (ms_world st)" by auto
  show "fat c st' = fat c st" "cluster_data c st' = cluster_data c st" "reliable_vol st' = reliable_vol st"
    using U(3) by (auto simp: fat_def [abs_def] cluster_data_def [abs_def] same_vol_simps [OF U(2)] reliable_same_vol [OF U(2)])
qed

lemma read_sector_unchanged:
  assumes "vol_ok c st" "read_sector st lba = (st', res)"
  shows "unchanged c st st'" "\<And>s. res = Some s \<Longrightarrow> s = c (ms_world st) (unat lba)"
    "reliable_vol st \<Longrightarrow> unat lba < blocks st \<Longrightarrow> res \<noteq> None"
proof -
  obtain w where W: "st' = st\<lparr>ms_world := w\<rparr>" "c w = c (ms_world st)" "\<forall>s. res = Some s \<longrightarrow> s = c (ms_world st) (unat lba)"
    "reliable_vol st \<and> unat lba < blocks st \<longrightarrow> res \<noteq> None" by (rule read_sector_spec [OF assms])
  show "unchanged c st st'" using W(1,2) assms(1) by (simp add: unchanged_world)
  show "\<And>s. res = Some s \<Longrightarrow> s = c (ms_world st) (unat lba)" "reliable_vol st \<Longrightarrow> unat lba < blocks st \<Longrightarrow> res \<noteq> None"
    using W(3,4) by auto
qed

lemma cached_sector:
  assumes v: "vol_ok c st" and h: "fat_cache_hit st i"
  shows "unat i < spf st" "fat_cache_offset st i = 512 * (unat i - unat (ms_fat_cache_first_sector st))"
    "fat_cache_offset st i + 512 \<le> 4096" "take 512 (drop (fat_cache_offset st i) (ms_fat_cache st)) = c (ms_world st) (fat_start st + unat i)"
proof -
  let ?f = "ms_fat_cache_first_sector st" and ?n = "ms_fat_cache_sector_count st"
  have K: "ms_fat_cache_valid st" "?f \<le> i" "i < ?f + ?n" using h by (simp_all add: fat_cache_hit_def)
  have C: "unat ?f + unat ?n \<le> spf st" "unat ?n \<le> 8" "length (ms_fat_cache st) = 4096"
    "\<forall>i < unat ?n. take 512 (drop (512 * i) (ms_fat_cache st)) = c (ms_world st) (fat_start st + unat ?f + i)"
    using vol_cache [OF v] K(1) by (auto simp: cache_ok_def)
  have "unat (?f + ?n) = unat ?f + unat ?n" using C(1) unat_lt_32 [of "mi_sectors_per_fat (ms_info st)"] by (intro unat_plus32) linarith
  then have i: "unat ?f \<le> unat i" "unat i < unat ?f + unat ?n" using K by (auto simp: word_le_nat_alt word_less_nat_alt)
  then have d: "unat (i - ?f) = unat i - unat ?f" by (intro unat_minus_nw)
  have "unat ((i - ?f) * 512) = (unat i - unat ?f) * 512" using d i C(2) unat_times32 [of "i - ?f" 512] by simp
  then show off: "fat_cache_offset st i = 512 * (unat i - unat ?f)" by (simp add: fat_cache_offset_def vol_512 [OF v])
  show "unat i < spf st" using i C(1) by linarith
  show "fat_cache_offset st i + 512 \<le> 4096" using off i C(2) by linarith
  have "unat i - unat ?f < unat ?n" using i by linarith
  then have "take 512 (drop (512 * (unat i - unat ?f)) (ms_fat_cache st)) = c (ms_world st) (fat_start st + unat ?f + (unat i - unat ?f))"
    using C(4) by blast
  then show "take 512 (drop (fat_cache_offset st i) (ms_fat_cache st)) = c (ms_world st) (fat_start st + unat i)" using off i by simp
qed

lemma le32_slice: "j + 4 \<le> n \<Longrightarrow> i + n \<le> length bs \<Longrightarrow> le32 bs (i + j) = le32 (take n (drop i bs)) j"
  by (simp add: le32_def le16_def add.assoc)

lemma read_fat_value_spec:
  assumes v: "vol_ok c st" and d: "unat d < 2 ^ 28" and r: "read_fat_value st d = (st', res)"
  shows "unchanged c st st'" "\<And>x. res = Some x \<Longrightarrow> x = fat c st d \<and> unat d < 128 * spf st"
    "reliable_vol st \<Longrightarrow> unat d < 128 * spf st \<Longrightarrow> res \<noteq> None"
proof -
  let ?i = "d * 4 div 512" and ?j = "unat (d * 4 mod 512)"
  note P = entry_position [OF d]
  obtain st1 o1 where x: "read_cached_fat_sector st ?i = (st1, o1)" by fastforce
  have rd: "st' = st1" "res = map_option (\<lambda>s. le32 (ms_fat_cache st1) (s + ?j) AND 0x0FFFFFFF) o1"
    using r x by (auto simp: read_fat_value_def vol_512 [OF v] Let_def split: option.splits)
  have dv: "unat d div 128 < spf st \<longleftrightarrow> unat d < 128 * spf st" by (simp add: div_less_iff_less_mult mult.commute)
  have main: "unchanged c st st1 \<and> (\<forall>s. o1 = Some s \<longrightarrow> fat_cache_hit st1 ?i \<and> s = fat_cache_offset st1 ?i) \<and>
      (reliable_vol st \<and> unat d < 128 * spf st \<longrightarrow> o1 \<noteq> None)"
  proof (cases "mi_sectors_per_fat (ms_info st) \<le> ?i")
    case True
    then have "st1 = st" "o1 = None" using x by (auto simp: read_cached_fat_sector_def)
    then show ?thesis using v True P dv by (auto simp: unchanged_refl word_le_nat_alt)
  next
    case False
    then have i: "unat ?i < spf st" by (simp add: word_le_nat_alt)
    show ?thesis
    proof (cases "fat_cache_hit st ?i")
      case True
      then show ?thesis using x False v by (auto simp: read_cached_fat_sector_def unchanged_refl)
    next
      case miss: False
      obtain st2 ok where f: "fill_fat_cache st ?i = (st2, ok)" by fastforce
      note F = fill_fat_cache_spec [OF v i f]
      have "st1 = st2" "o1 = (if ok then Some (fat_cache_offset st2 ?i) else None)"
        using x False miss f by (auto simp: read_cached_fat_sector_def split: if_splits)
      then show ?thesis using F by (auto simp: unchanged_def split: if_splits)
    qed
  qed
  then show "unchanged c st st'" "reliable_vol st \<Longrightarrow> unat d < 128 * spf st \<Longrightarrow> res \<noteq> None" using rd by auto
  fix x assume "res = Some x"
  then obtain s where s: "o1 = Some s" "x = le32 (ms_fat_cache st1) (s + ?j) AND 0x0FFFFFFF" using rd(2) by auto
  have U: "unchanged c st st1" and h: "fat_cache_hit st1 ?i" and so: "s = fat_cache_offset st1 ?i" using main s(1) by auto
  have v1: "vol_ok c st1" using unchangedD(1) [OF U] .
  note H = cached_sector [OF v1 h]
  have "length (ms_fat_cache st1) = 4096" using vol_cache [OF v1] by (simp add: cache_ok_def)
  moreover have "?j + 4 \<le> 512" using P(2) by simp
  ultimately have "le32 (ms_fat_cache st1) (s + ?j) = le32 (c (ms_world st1) (fat_start st1 + unat ?i)) ?j"
    using le32_slice [of ?j 512 s "ms_fat_cache st1"] H(3,4) so by simp
  moreover have "unat d < 128 * spf st1" using H(1) P(1) by (simp add: div_less_iff_less_mult mult.commute)
  moreover have "spf st1 = spf st" using same_vol_simps(2) [OF unchangedD(2) [OF U]] by simp
  ultimately show "x = fat c st d \<and> unat d < 128 * spf st"
    using s(2) P by (simp add: fat_def unchangedD(3) [OF U, symmetric])
qed

section \<open>Writing an entry\<close>

lemma length_u32_le [simp]: "length (u32_le x) = 4" "length (u16_le y) = 2"
  by (simp_all add: u32_le_def u16_le_def)

lemma le32_u32_le: "le32 (u32_le x) 0 = x"
proof -
  have "(ucast (ucast (ucast (ucast (x :: u32) :: u16) :: u8) OR push_bit 8 (ucast (ucast (drop_bit 8 (ucast x :: u16)) :: u8)) :: u16) :: u32)
      OR push_bit 16 (ucast (ucast (ucast (ucast (drop_bit 16 x) :: u16) :: u8) OR push_bit 8 (ucast (ucast (drop_bit 8 (ucast (drop_bit 16 x) :: u16)) :: u8)) :: u16)) = x"
    (is "?l = x")
  proof (rule bit_word_eqI)
    fix n :: nat assume "n < LENGTH(32)"
    then show "bit ?l n = bit x n" by (cases "n < 8"; cases "n < 16"; cases "n < 24") (simp_all add: bit_simps less_diff_conv2 le_diff_conv2)
  qed
  then show ?thesis by (simp add: le32_def le16_def u32_le_def u16_le_def)
qed

lemma le32_take: "le32 bs i = le32 (take 4 (drop i bs)) 0" if "i + 4 \<le> length bs"
  using that le32_slice [of 0 4 i bs] by simp

lemma le32_patch:
  assumes "length s = 512" "i + 4 \<le> 512"
  shows "le32 (patch_fat_sector s i x) i AND 0x0FFFFFFF = x AND 0x0FFFFFFF"
    "j + 4 \<le> i \<or> i + 4 \<le> j \<Longrightarrow> j + 4 \<le> 512 \<Longrightarrow> le32 (patch_fat_sector s i x) j = le32 s j"
    "length (patch_fat_sector s i x) = 512"
proof -
  let ?y = "(le32 s i AND 0xF0000000) OR (x AND 0x0FFFFFFF)"
  have l: "length (splice_at s i (u32_le ?y)) = 512" using assms by simp
  then show "length (patch_fat_sector s i x) = 512" by (simp add: patch_fat_sector_def)
  have "le32 (patch_fat_sector s i x) i = ?y"
    using le32_take [of i "splice_at s i (u32_le ?y)"] l assms take_drop_splice_same [of i "u32_le ?y" s] le32_u32_le
    by (simp add: patch_fat_sector_def)
  moreover have "?y AND 0x0FFFFFFF = x AND 0x0FFFFFFF"
    by (simp only: bit.conj_disj_distrib2 and.assoc) simp
  ultimately show "le32 (patch_fat_sector s i x) i AND 0x0FFFFFFF = x AND 0x0FFFFFFF" by simp
  assume j: "j + 4 \<le> i \<or> i + 4 \<le> j" "j + 4 \<le> 512"
  show "le32 (patch_fat_sector s i x) j = le32 s j"
    using le32_take [of j "splice_at s i (u32_le ?y)"] le32_take [of j s] take_drop_splice [of i "u32_le ?y" s j 4] l assms j
    by (simp add: patch_fat_sector_def)
qed

text \<open>One copy of the FAT: sector \<open>i\<close> of copy \<open>k\<close>.\<close>

definition fat_sector :: "'w mount_state \<Rightarrow> nat \<Rightarrow> nat \<Rightarrow> nat" where
  "fat_sector st k i = fat_start st + k * spf st + i"

lemma update_fat_cache_ok:
  assumes v: "vol_ok c st" and i: "unat i < spf st" and len: "length s = 512"
    and w: "c w = (c (ms_world st))(fat_start st + unat i := s)"
  shows "cache_ok c (update_fat_cache (st\<lparr>ms_world := w\<rparr>) i s)"
proof -
  let ?st = "st\<lparr>ms_world := w\<rparr>"
  have C: "length (ms_fat_cache st) = 4096" using vol_cache [OF v] by (simp add: cache_ok_def)
  have hit: "fat_cache_hit ?st i = fat_cache_hit st i" "fat_cache_offset ?st i = fat_cache_offset st i"
    by (simp_all add: fat_cache_hit_def fat_cache_offset_def)
  show ?thesis
  proof (cases "fat_cache_hit st i")
    case False
    show ?thesis
    proof (cases "ms_fat_cache_valid st")
      case True
      let ?f = "unat (ms_fat_cache_first_sector st)" and ?n = "unat (ms_fat_cache_sector_count st)"
      have K: "?f + ?n \<le> spf st" "\<forall>i < ?n. take 512 (drop (512 * i) (ms_fat_cache st)) = c (ms_world st) (fat_start st + ?f + i)"
        using vol_cache [OF v] True by (auto simp: cache_ok_def)
      have "unat (ms_fat_cache_first_sector st + ms_fat_cache_sector_count st) = ?f + ?n"
        using K(1) unat_lt_32 [of "mi_sectors_per_fat (ms_info st)"] by (intro unat_plus32) linarith
      then have "?f + k \<noteq> unat i" if "k < ?n" for k
        using False True that by (auto simp: fat_cache_hit_def word_le_nat_alt word_less_nat_alt)
      then have "c w (fat_start st + ?f + k) = c (ms_world st) (fat_start st + ?f + k)" if "k < ?n" for k
        using that w by (simp add: add.assoc)
      then show ?thesis using False hit vol_cache [OF v] by (simp add: update_fat_cache_def cache_ok_def fat_start_def)
    qed (use hit False C in \<open>simp add: update_fat_cache_def cache_ok_def\<close>)
  next
    case True
    note H = cached_sector [OF v True]
    let ?f = "unat (ms_fat_cache_first_sector st)" and ?n = "unat (ms_fat_cache_sector_count st)" and ?o = "fat_cache_offset st i"
    have K: "?f + ?n \<le> spf st" "?n \<le> 8" "\<forall>i < ?n. take 512 (drop (512 * i) (ms_fat_cache st)) = c (ms_world st) (fat_start st + ?f + i)"
      and valid: "ms_fat_cache_valid st"
      using vol_cache [OF v] True by (auto simp: cache_ok_def fat_cache_hit_def)
    have fi: "?f \<le> unat i" using True by (simp add: fat_cache_hit_def word_le_nat_alt)
    have "take 512 (drop (512 * k) (splice_at (ms_fat_cache st) ?o s)) = c w (fat_start st + ?f + k)" if k: "k < ?n" for k
    proof (cases "k = unat i - ?f")
      case True
      then have "512 * k = ?o" using H(2) by simp
      then show ?thesis using take_drop_splice_same [of ?o s "ms_fat_cache st"] len C H(3) w True fi by simp
    next
      case False
      then have "k + 1 \<le> unat i - ?f \<or> unat i - ?f + 1 \<le> k" by linarith
      then have "512 * k + 512 \<le> ?o \<or> ?o + 512 \<le> 512 * k" using H(2) by linarith
      then have "take 512 (drop (512 * k) (splice_at (ms_fat_cache st) ?o s)) = take 512 (drop (512 * k) (ms_fat_cache st))"
        using take_drop_splice [of ?o s "ms_fat_cache st" "512 * k" 512] len C H(3) K(2) k by simp
      moreover have "fat_start st + ?f + k \<noteq> fat_start st + unat i" using False fi by linarith
      ultimately show ?thesis using K(3) k w by simp
    qed
    then show ?thesis using True hit K(1,2) C len H(3) by (simp add: update_fat_cache_def cache_ok_def fat_start_def)
  qed
qed

text \<open>\<open>changed_at c st st' f\<close>: the medium's sectors change by \<open>f\<close>, nothing else of the volume does.\<close>

definition stored :: "'w medium \<Rightarrow> 'w mount_state \<Rightarrow> 'w mount_state \<Rightarrow> (nat \<Rightarrow> u8 list) \<Rightarrow> bool" where
  "stored c st st' f \<longleftrightarrow> vol_ok c st' \<and> same_vol st st' \<and> c (ms_world st') = f \<and>
     ms_free_cluster_count st' = ms_free_cluster_count st \<and> ms_next_free_cluster_hint st' = ms_next_free_cluster_hint st"

lemma fat_sector_inj:
  assumes "0 < spf st" shows "fat_sector st j i = fat_sector st k i \<longleftrightarrow> j = k"
  using assms by (simp add: fat_sector_def)

lemma write_fat_copy:
  assumes v: "vol_ok c st" and k: "k < fats st" and i: "unat i < spf st" and o: "off + 4 \<le> 512"
    and l: "lba = mi_partition_start_lba (ms_info st) + ucast (mi_reserved_sector_count (ms_info st))
            + ucast (word_of_nat k * mi_sectors_per_fat (ms_info st)) + ucast i"
    and r: "read_sector st lba = (st1, Some s)" and w: "write_sectors st1 lba 1 (patch_fat_sector s off x) = (st2, True)"
  defines "st3 \<equiv> (if (word_of_nat k :: u32) = 0 then update_fat_cache st2 i (patch_fat_sector s off x) else st2)"
  shows "stored c st st3 ((c (ms_world st))(fat_sector st k (unat i) := patch_fat_sector (c (ms_world st) (fat_sector st k (unat i))) off x))"
proof -
  have lba: "unat lba = fat_sector st k (unat i)" unfolding l fat_sector_def by (rule fat_lba [OF v k i])
  note R = read_sector_unchanged [OF v r]
  have s: "s = c (ms_world st) (unat lba)" using R(2) by simp
  have ls: "length s = 512" "length (patch_fat_sector s off x) = 512" using s vol_sector_length [OF v] le32_patch(3) o by simp_all
  obtain w2 where W: "st2 = st1\<lparr>ms_world := w2\<rparr>" "\<forall>q. q \<noteq> unat lba \<longrightarrow> c w2 q = c (ms_world st1) q"
      "True \<longrightarrow> c w2 (unat lba) = patch_fat_sector s off x" "reliable_vol st1 \<and> unat lba < blocks st1 \<longrightarrow> True"
    by (rule write_sectors_spec [OF unchangedD(1) [OF R(1)] w ls(2)])
  have same: "same_vol st st1" "c (ms_world st1) = c (ms_world st)" using unchangedD(2,5) [OF R(1)] by auto
  have cw: "c w2 = (c (ms_world st))(unat lba := patch_fat_sector s off x)" using W(2,3) same(2) by (auto simp: fun_eq_iff)
  have k0: "(word_of_nat k :: u32) = 0 \<longleftrightarrow> k = 0"
  proof -
    have "k < 256" using k unat_less_exp [of "mi_fat_count (ms_info st)"] by simp
    then have "unat (word_of_nat k :: u32) = k" by (simp add: unat_of_nat)
    then show ?thesis by (metis unat_eq_zero)
  qed
  have eq: "ms_device st3 = ms_device st1" "ms_info st3 = ms_info st1" "ms_total_clusters st3 = ms_total_clusters st1"
      "ms_fs_info_valid st3 = ms_fs_info_valid st1" "ms_mounted st3 = ms_mounted st1" "ms_world st3 = w2"
      "ms_free_cluster_count st3 = ms_free_cluster_count st1" "ms_next_free_cluster_hint st3 = ms_next_free_cluster_hint st1"
    using W(1) by (auto simp: st3_def update_fat_cache_def)
  have sv: "same_vol st st3" by (rule same_vol_trans [OF same(1)]) (simp add: same_vol_def eq)
  have "cache_ok c st3"
  proof (cases "k = 0")
    case True
    have "cache_ok c (update_fat_cache (st1\<lparr>ms_world := w2\<rparr>) i (patch_fat_sector s off x))"
      by (rule update_fat_cache_ok [OF unchangedD(1) [OF R(1)] _ ls(2)])
        (use i cw same lba True in \<open>auto simp: same_vol_simps [OF same(1)] fat_sector_def\<close>)
    then show ?thesis using k0 True W(1) by (simp add: st3_def)
  next
    case False
    have "spf st \<le> k * spf st" using False by (cases k) auto
    then have "fat_start st + j \<noteq> unat lba" if "j < spf st" for j using that lba unfolding fat_sector_def by linarith
    then have c1: "c w2 (fat_start st + j) = c (ms_world st1) (fat_start st + j)" if "j < spf st" for j using that W(2) by blast
    have "cache_ok c st1" using vol_cache unchangedD(1) [OF R(1)] .
    then show ?thesis using k0 False W(1) c1
      by (auto simp: st3_def cache_ok_def same_vol_simps [OF same(1)] fat_start_def add.assoc)
  qed
  then have "vol_ok c st3" by (rule vol_okI [OF v sv])
  then show ?thesis using sv cw lba s eq R(1) by (simp add: stored_def unchanged_def)
qed

text \<open>All copies.\<close>

definition patch_copies :: "'w mount_state \<Rightarrow> nat list \<Rightarrow> nat \<Rightarrow> nat \<Rightarrow> u32 \<Rightarrow> (nat \<Rightarrow> u8 list) \<Rightarrow> nat \<Rightarrow> u8 list" where
  "patch_copies st ks i off x f q = (if \<exists>k \<in> set ks. q = fat_sector st k i then patch_fat_sector (f q) off x else f q)"

lemma fat_sector_same_vol: "same_vol st st' \<Longrightarrow> fat_sector st' = fat_sector st"
  by (simp add: fun_eq_iff fat_sector_def same_vol_simps)

lemma write_fat_copies_spec:
  assumes v: "vol_ok c st" and ks: "\<forall>k \<in> set ks. k < fats st" "distinct ks" and i: "unat i < spf st" and o: "off + 4 \<le> 512"
    and w: "write_fat_copies st i off x (map word_of_nat ks) = (st', ok)"
  shows "ok \<Longrightarrow> stored c st st' (patch_copies st ks (unat i) off x (c (ms_world st)))" and "reliable_vol st \<Longrightarrow> ok"
    and "same_vol st st'" and "\<And>q. q \<notin> (\<lambda>k. fat_sector st k (unat i)) ` set ks \<Longrightarrow> c (ms_world st') q = c (ms_world st) q"
proof -
  have "(ok \<longrightarrow> stored c st st' (patch_copies st ks (unat i) off x (c (ms_world st)))) \<and> (reliable_vol st \<longrightarrow> ok) \<and> same_vol st st' \<and>
      (\<forall>q. q \<notin> (\<lambda>k. fat_sector st k (unat i)) ` set ks \<longrightarrow> c (ms_world st') q = c (ms_world st) q)"
    using v ks i w
  proof (induction ks arbitrary: st)
    case Nil
    then show ?case by (auto simp: stored_def patch_copies_def)
  next
    case (Cons k ks)
    define lba where "lba = mi_partition_start_lba (ms_info st) + ucast (mi_reserved_sector_count (ms_info st))
            + ucast (word_of_nat k * mi_sectors_per_fat (ms_info st)) + ucast i"
    have kf: "k < fats st" using Cons.prems(2) by simp
    have lba: "unat lba = fat_sector st k (unat i)" unfolding lba_def fat_sector_def by (rule fat_lba [OF Cons.prems(1) kf Cons.prems(4)])
    have inb: "unat lba < blocks st" unfolding lba fat_sector_def by (rule fat_area(1) [OF Cons.prems(1) kf Cons.prems(4)])
    obtain st1 res where r: "read_sector st lba = (st1, res)" by fastforce
    note R = read_sector_unchanged [OF Cons.prems(1) r]
    show ?case
    proof (cases res)
      case None
      then have "st' = st1" "\<not> ok" using Cons.prems(5) r by (simp_all add: lba_def [symmetric])
      then show ?thesis using R(1,3) None inb by (auto dest: unchangedD)
    next
      case (Some s)
      have ls: "length (patch_fat_sector s off x) = 512" using Some R(2) vol_sector_length [OF Cons.prems(1)] le32_patch(3) o by simp
      obtain st2 ok2 where w2: "write_sectors st1 lba 1 (patch_fat_sector s off x) = (st2, ok2)" by fastforce
      obtain w where W: "st2 = st1\<lparr>ms_world := w\<rparr>" "\<forall>q. q \<noteq> unat lba \<longrightarrow> c w q = c (ms_world st1) q" "ok2 \<longrightarrow> c w (unat lba) = patch_fat_sector s off x"
          "reliable_vol st1 \<and> unat lba < blocks st1 \<longrightarrow> ok2"
        by (rule write_sectors_spec [OF unchangedD(1) [OF R(1)] w2 ls])
      have rel: "reliable_vol st \<longrightarrow> ok2" using W(4) inb unchangedD(2,6) [OF R(1)] by (simp add: reliable_same_vol)
      show ?thesis
      proof (cases ok2)
        case False
        then have e: "st' = st2" "\<not> ok" using Cons.prems(5) r Some w2 by (simp_all add: lba_def [symmetric])
        have "same_vol st st2" using W(1) unchangedD(2) [OF R(1)] by (auto intro: same_vol_trans)
        moreover have "c (ms_world st2) q = c (ms_world st) q" if "q \<noteq> unat lba" for q
          using that W(1,2) unchangedD(5) [OF R(1)] by simp
        ultimately show ?thesis using e False rel lba by auto
      next
        case True
        define st3 where "st3 = (if (word_of_nat k :: u32) = 0 then update_fat_cache st2 i (patch_fat_sector s off x) else st2)"
        have S: "stored c st st3 ((c (ms_world st))(fat_sector st k (unat i) := patch_fat_sector (c (ms_world st) (fat_sector st k (unat i))) off x))"
          unfolding st3_def by (rule write_fat_copy [OF Cons.prems(1) kf Cons.prems(4) o lba_def]) (use r Some w2 True in simp_all)
        then have v3: "vol_ok c st3" and sv: "same_vol st st3" by (auto simp: stored_def)
        have w3: "write_fat_copies st3 i off x (map word_of_nat ks) = (st', ok)"
          using Cons.prems(5) r Some w2 True by (simp add: lba_def [symmetric] st3_def)
        have IH: "(ok \<longrightarrow> stored c st3 st' (patch_copies st3 ks (unat i) off x (c (ms_world st3)))) \<and> (reliable_vol st3 \<longrightarrow> ok) \<and> same_vol st3 st' \<and>
            (\<forall>q. q \<notin> (\<lambda>k. fat_sector st3 k (unat i)) ` set ks \<longrightarrow> c (ms_world st') q = c (ms_world st3) q)"
          by (rule Cons.IH [OF v3 _ _ _ w3]) (use Cons.prems in \<open>auto simp: same_vol_simps [OF sv]\<close>)
        have pos: "0 < spf st" using Cons.prems(4) by simp
        have pc: "patch_copies st3 ks (unat i) off x (c (ms_world st3)) = patch_copies st (k # ks) (unat i) off x (c (ms_world st))"
          using S Cons.prems(3) fat_sector_inj [OF pos] by (auto simp: fun_eq_iff patch_copies_def stored_def fat_sector_same_vol [OF sv])
        have cs: "c (ms_world st3) q = c (ms_world st) q" if "q \<noteq> fat_sector st k (unat i)" for q using S that by (simp add: stored_def)
        show ?thesis
        proof (intro conjI impI allI)
          assume ok
          then show "stored c st st' (patch_copies st (k # ks) (unat i) off x (c (ms_world st)))"
            using IH pc S sv by (auto simp: stored_def intro: same_vol_trans)
        next
          fix q assume "q \<notin> (\<lambda>k. fat_sector st k (unat i)) ` set (k # ks)"
          then show "c (ms_world st') q = c (ms_world st) q" using IH cs by (simp add: fat_sector_same_vol [OF sv])
        qed (use IH sv reliable_same_vol [OF sv] in \<open>auto intro: same_vol_trans\<close>)
      qed
    qed
  qed
  then show "ok \<Longrightarrow> stored c st st' (patch_copies st ks (unat i) off x (c (ms_world st)))" "reliable_vol st \<Longrightarrow> ok"
    "same_vol st st'" "\<And>q. q \<notin> (\<lambda>k. fat_sector st k (unat i)) ` set ks \<Longrightarrow> c (ms_world st') q = c (ms_world st) q" by auto
qed

definition fat_region :: "'w mount_state \<Rightarrow> nat set" where
  "fat_region st = {fat_start st ..< fat_start st + fats st * spf st}"

text \<open>\<open>fat_put c st d x st'\<close>: the table's entry \<open>d\<close> becomes \<open>x\<close>, and only the FAT area of the medium changes.\<close>

definition fat_put :: "'w medium \<Rightarrow> 'w mount_state \<Rightarrow> u32 \<Rightarrow> u32 \<Rightarrow> 'w mount_state \<Rightarrow> bool" where
  "fat_put c st d x st' \<longleftrightarrow> vol_ok c st' \<and> same_vol st st' \<and> fat c st' = (fat c st)(d := x AND 0x0FFFFFFF) \<and>
     (\<forall>q. q \<notin> fat_region st \<longrightarrow> c (ms_world st') q = c (ms_world st) q) \<and>
     ms_free_cluster_count st' = ms_free_cluster_count st \<and> ms_next_free_cluster_hint st' = ms_next_free_cluster_hint st"

lemma fat_patched:
  assumes v: "vol_ok c st" and d: "unat d < 128 * spf st"
    and S: "stored c st st' (patch_copies st [0..<fats st] (unat d div 128) (4 * (unat d mod 128)) x (c (ms_world st)))"
  shows "fat c st' = (fat c st)(d := x AND 0x0FFFFFFF)"
proof
  fix e
  have sv: "same_vol st st'" and cw: "c (ms_world st') = patch_copies st [0..<fats st] (unat d div 128) (4 * (unat d mod 128)) x (c (ms_world st))"
    using S by (auto simp: stored_def)
  have f0: "0 < fats st" using vol_geometry [OF v] by (simp add: geometry_ok_def)
  show "fat c st' e = ((fat c st)(d := x AND 0x0FFFFFFF)) e"
  proof (cases "unat e < 128 * spf st")
    case False
    then show ?thesis using d by (auto simp: fat_def same_vol_simps [OF sv])
  next
    case True
    let ?q = "fat_start st + unat e div 128" and ?i = "unat d div 128" and ?o = "4 * (unat d mod 128)"
    have e: "unat e div 128 < spf st" using True by (simp add: div_less_iff_less_mult mult.commute)
    have q: "(\<exists>k \<in> set [0..<fats st]. ?q = fat_sector st k ?i) \<longleftrightarrow> unat e div 128 = ?i"
    proof
      assume "\<exists>k \<in> set [0..<fats st]. ?q = fat_sector st k ?i"
      then obtain k where k: "unat e div 128 = k * spf st + ?i" by (auto simp: fat_sector_def)
      then have "k = 0" using e by (cases k) auto
      then show "unat e div 128 = ?i" using k by simp
    qed (use f0 in \<open>auto simp: fat_sector_def intro!: bexI [of _ 0]\<close>)
    have new: "fat c st' e = le32 (if unat e div 128 = ?i then patch_fat_sector (c (ms_world st) ?q) ?o x else c (ms_world st) ?q) (4 * (unat e mod 128)) AND 0x0FFFFFFF"
      using True cw q by (simp add: fat_def same_vol_simps [OF sv] patch_copies_def)
    note P = le32_patch [OF vol_sector_length [OF v], of ?o]
    have o4: "?o + 4 \<le> 512" "4 * (unat e mod 128) + 4 \<le> 512" by simp_all
    consider "e = d" | "e \<noteq> d" "unat e div 128 = ?i" | "e \<noteq> d" "unat e div 128 \<noteq> ?i" by blast
    then show ?thesis
    proof cases
      case 1
      then show ?thesis using new P(1) [OF o4(1)] by simp
    next
      case 2
      have "unat e mod 128 \<noteq> unat d mod 128"
      proof
        assume "unat e mod 128 = unat d mod 128"
        then have "unat e = unat d" using 2(2) by (metis div_mult_mod_eq)
        then show False using 2(1) by (simp add: word_eq_unatI)
      qed
      then have "4 * (unat e mod 128) + 4 \<le> ?o \<or> ?o + 4 \<le> 4 * (unat e mod 128)" by linarith
      then show ?thesis using new 2 P(2) [OF o4(1) _ o4(2)] True by (simp add: fat_def)
    next
      case 3
      then show ?thesis using new True by (simp add: fat_def)
    qed
  qed
qed

lemma write_fat_value_spec:
  assumes v: "vol_ok c st" and d28: "unat d < 2 ^ 28" and d: "unat d < 128 * spf st" and w: "write_fat_value st d x = (st', ok)"
  shows "ok \<Longrightarrow> fat_put c st d x st'" and "reliable_vol st \<Longrightarrow> ok" and "same_vol st st'"
    and "\<And>q. q \<notin> fat_region st \<Longrightarrow> c (ms_world st') q = c (ms_world st) q"
proof -
  let ?i = "d * 4 div 512" and ?ks = "[0..<fats st]"
  note P = entry_position [OF d28]
  have i: "unat ?i < spf st" using d P(1) by (simp add: div_less_iff_less_mult mult.commute)
  have "write_fat_copies st ?i (unat (d * 4 mod 512)) x (map word_of_nat ?ks) = (st', ok)"
    using w by (simp add: write_fat_value_def vol_512 [OF v] Let_def)
  then have w': "write_fat_copies st ?i (4 * (unat d mod 128)) x (map word_of_nat ?ks) = (st', ok)" by (simp only: P)
  have "4 * (unat d mod 128) + 4 \<le> 512" by simp
  note S = write_fat_copies_spec [OF v _ distinct_upt i this w']
  have reg: "(\<lambda>k. fat_sector st k (unat ?i)) ` set ?ks \<subseteq> fat_region st"
    using fat_area(3) [OF v _ i] by (auto simp: fat_region_def fat_sector_def)
  show "same_vol st st'" "reliable_vol st \<Longrightarrow> ok" using S(2,3) by auto
  show out: "c (ms_world st') q = c (ms_world st) q" if "q \<notin> fat_region st" for q using S(4) reg that by auto
  assume ok
  then have st: "stored c st st' (patch_copies st ?ks (unat d div 128) (4 * (unat d mod 128)) x (c (ms_world st)))" using S(1) P by auto
  show "fat_put c st d x st'"
    using st out fat_patched [OF v d st] by (simp add: fat_put_def stored_def)
qed

section \<open>FSInfo\<close>

lemma length_fsinfo_bytes [simp]: "length (fsinfo_bytes f) = 512"
  by (simp add: fsinfo_bytes_def)

text \<open>Updating the FSInfo sector changes neither the table nor the data.\<close>

lemma update_fsinfo_spec:
  assumes v: "vol_ok c st" and u: "update_fsinfo st n h = (st', ok)"
  shows "vol_ok c st'" "same_vol st st'" "fat c st' = fat c st" "\<And>q. fat_start st \<le> q \<Longrightarrow> c (ms_world st') q = c (ms_world st) q"
    "reliable_vol st \<Longrightarrow> ok" "ok \<Longrightarrow> ms_free_cluster_count st' = n \<and> ms_next_free_cluster_hint st' = h"
proof -
  have g: "fsinfo_sector st < reserved st" "part st + data_start st \<le> blocks st" "reserved st \<le> data_start st"
    using vol_geometry [OF v] by (auto simp: geometry_ok_def)
  have main: "same_vol st st' \<and> ms_fat_cache st' = ms_fat_cache st \<and> ms_fat_cache_valid st' = ms_fat_cache_valid st \<and>
      ms_fat_cache_first_sector st' = ms_fat_cache_first_sector st \<and> ms_fat_cache_sector_count st' = ms_fat_cache_sector_count st \<and>
      (\<forall>q \<ge> fat_start st. c (ms_world st') q = c (ms_world st) q) \<and> (reliable_vol st \<longrightarrow> ok) \<and>
      (ok \<longrightarrow> ms_free_cluster_count st' = n \<and> ms_next_free_cluster_hint st' = h)"
  proof (cases "\<not> ms_fs_info_valid st \<or> mi_fs_info_sector (ms_info st) = 0")
    case True
    then have "st' = st\<lparr>ms_free_cluster_count := n, ms_next_free_cluster_hint := h\<rparr> \<and> ok" using u by (simp add: update_fsinfo_def)
    then show ?thesis by (simp add: same_vol_def)
  next
    case False
    define lba where "lba = mi_partition_start_lba (ms_info st) + ucast (mi_fs_info_sector (ms_info st))"
    define b where "b = fsinfo_bytes \<lparr>fsi_lead_signature = FAT32_FSINFO_SIGNATURE_1, fsi_struct_signature = FAT32_FSINFO_SIGNATURE_2,
              fsi_last_known_free_cluster_count = n, fsi_next_free_cluster_hint = h, fsi_trailing_signature = FAT32_FSINFO_SIGNATURE_3\<rparr>"
    have lba: "unat lba = part st + fsinfo_sector st" using g blocks_lt_64 [OF v] by (simp add: lba_def unat_plus64)
    obtain st1 ok1 where w: "write_sectors st lba 1 b = (st1, ok1)" by fastforce
    have lb: "length b = 512" by (simp add: b_def)
    obtain w1 where W: "st1 = st\<lparr>ms_world := w1\<rparr>" "\<forall>q. q \<noteq> unat lba \<longrightarrow> c w1 q = c (ms_world st) q" "ok1 \<longrightarrow> c w1 (unat lba) = b"
        "reliable_vol st \<and> unat lba < blocks st \<longrightarrow> ok1"
      by (rule write_sectors_spec [OF v w lb])
    have "update_fsinfo st n h = (if \<not> ok1 then (st1, False) else (st1\<lparr>ms_free_cluster_count := n, ms_next_free_cluster_hint := h\<rparr>, True))"
      using False w by (simp add: update_fsinfo_def lba_def b_def)
    then have e: "ok = ok1" "st' = (if \<not> ok1 then st1 else st1\<lparr>ms_free_cluster_count := n, ms_next_free_cluster_hint := h\<rparr>)"
      using u by (simp_all split: if_splits)
    have "c w1 q = c (ms_world st) q" if "fat_start st \<le> q" for q
      using that W(2) lba g(1) by (simp add: fat_start_def)
    moreover have "unat lba < blocks st" using lba g by linarith
    ultimately show ?thesis using e W(1,4) by (auto simp: same_vol_def)
  qed
  show sv: "same_vol st st'" and "reliable_vol st \<Longrightarrow> ok" "ok \<Longrightarrow> ms_free_cluster_count st' = n \<and> ms_next_free_cluster_hint st' = h"
    using main by auto
  show q: "c (ms_world st') q = c (ms_world st) q" if "fat_start st \<le> q" for q using main that by blast
  have "cache_ok c st'" using vol_cache [OF v] main by (auto simp: cache_ok_def same_vol_simps [OF sv] fat_start_def)
  then show "vol_ok c st'" by (rule vol_okI [OF v sv])
  show "fat c st' = fat c st" using q by (simp add: fun_eq_iff fat_def same_vol_simps [OF sv])
qed

end
