(* ===== verification/FatAlloc.thy ===== *)
theory FatAlloc
  imports FatTab
begin

text \<open>
  Clusters: allocation takes a free entry of the table, releasing a chain frees its entries and
  returns even when the chain on the medium is cyclic. \<open>fat_step\<close> is what an operation may do that
  changes the table only: the data area keeps its contents.
\<close>

section \<open>Steps on the table\<close>

definition data_kept_on :: "'w medium \<Rightarrow> 'w mount_state \<Rightarrow> 'w mount_state \<Rightarrow> bool" where
  "data_kept_on c st st' \<longleftrightarrow> (\<forall>q \<ge> part st + data_start st. c (ms_world st') q = c (ms_world st) q)"

definition fat_step :: "'w medium \<Rightarrow> 'w mount_state \<Rightarrow> 'w mount_state \<Rightarrow> (u32 \<Rightarrow> u32) \<Rightarrow> bool" where
  "fat_step c st st' f \<longleftrightarrow> vol_ok c st' \<and> same_vol st st' \<and> fat c st' = f \<and> data_kept_on c st st'"

lemma fat_step_trans:
  assumes "fat_step c a b f" "fat_step c b d g" shows "fat_step c a d g"
  using assms by (auto simp: fat_step_def data_kept_on_def same_vol_simps intro: same_vol_trans)

lemma fat_step_unchanged: "unchanged c st st' \<Longrightarrow> fat_step c st st' (fat c st)"
  by (auto simp: fat_step_def data_kept_on_def dest: unchangedD)

lemma fat_region_below_data: "vol_ok c st \<Longrightarrow> q \<in> fat_region st \<Longrightarrow> q < part st + data_start st"
  by (drule vol_geometry) (auto simp: geometry_ok_def fat_region_def fat_start_def)

lemma fat_start_below_data: "vol_ok c st \<Longrightarrow> fat_start st \<le> part st + data_start st"
  by (drule vol_geometry) (auto simp: geometry_ok_def fat_start_def)

lemma fat_step_put:
  assumes "vol_ok c st" "fat_put c st d x st'"
  shows "fat_step c st st' ((fat c st)(d := x AND 0x0FFFFFFF))"
  using assms fat_region_below_data [OF assms(1)] by (fastforce simp: fat_step_def fat_put_def data_kept_on_def)

lemma fat_step_fsinfo:
  assumes "vol_ok c st" "update_fsinfo st n h = (st', ok)"
  shows "fat_step c st st' (fat c st)"
  using update_fsinfo_spec [OF assms] fat_start_below_data [OF assms(1)] by (auto simp: fat_step_def data_kept_on_def)

lemma cluster_data_kept:
  assumes "same_vol st st'" "data_kept_on c st st'"
  shows "cluster_data c st' = cluster_data c st"
proof
  fix d
  have "c (ms_world st') q = c (ms_world st) q" if "q \<in> set [cluster_lba st d..<cluster_lba st d + spc st]" for q
    using that assms(2) by (auto simp: data_kept_on_def cluster_lba_def)
  then show "cluster_data c st' d = cluster_data c st d"
    unfolding cluster_data_def same_vol_simps [OF assms(1)] by (intro arg_cong [where f = concat] map_cong [OF refl])
qed

lemma fat_stepD:
  assumes "fat_step c st st' f"
  shows "vol_ok c st'" "same_vol st st'" "fat c st' = f" "cluster_data c st' = cluster_data c st" "reliable_vol st' = reliable_vol st"
  using assms cluster_data_kept [of st st' c] reliable_same_vol [of st st'] by (auto simp: fat_step_def)

text \<open>The clusters of the volume have entries in the table.\<close>

lemma volume_cluster_bounds:
  assumes "vol_ok c st" "volume_cluster st d"
  shows "unat d < 2 ^ 28" "unat d < 128 * spf st" "is_data_cluster d"
proof -
  have "unat FAT32_END_OF_CHAIN < 2 ^ 28" by (simp add: FAT32_END_OF_CHAIN_def)
  then show "unat d < 2 ^ 28" "unat d < 128 * spf st" "is_data_cluster d"
    using assms vol_geometry [OF assms(1)]
    by (auto simp: volume_cluster_def geometry_ok_def is_data_cluster_def word_le_nat_alt word_less_nat_alt)
qed

lemma data_cluster_lt: "is_data_cluster d \<Longrightarrow> unat d < 2 ^ 28"
  by (simp add: is_data_cluster_def word_less_nat_alt FAT32_END_OF_CHAIN_def)

section \<open>Allocation\<close>

lemma end_of_chain_masked [simp]: "FAT32_END_OF_CHAIN AND 0x0FFFFFFF = FAT32_END_OF_CHAIN"
  by (simp add: FAT32_END_OF_CHAIN_def)

lemma try_cluster_spec:
  assumes v: "vol_ok c st" and d: "volume_cluster st d" and t: "try_cluster st m d = (st', r)"
  shows "r = Alloc_next \<Longrightarrow> unchanged c st st' \<and> fat c st d \<noteq> 0"
    "r = Alloc_got e \<Longrightarrow> e = d \<and> fat c st d = 0 \<and> fat_step c st st' ((fat c st)(d := FAT32_END_OF_CHAIN))"
    "r = Alloc_fail \<Longrightarrow> \<not> reliable_vol st"
proof -
  note B = volume_cluster_bounds [OF v d]
  obtain st1 o1 where r1: "read_fat_value st d = (st1, o1)" by fastforce
  note R = read_fat_value_spec [OF v B(1) r1]
  note U = unchangedD [OF R(1)]
  have "(r = Alloc_next \<longrightarrow> unchanged c st st' \<and> fat c st d \<noteq> 0) \<and>
    (r = Alloc_got e \<longrightarrow> e = d \<and> fat c st d = 0 \<and> fat_step c st st' ((fat c st)(d := FAT32_END_OF_CHAIN))) \<and>
    (r = Alloc_fail \<longrightarrow> \<not> reliable_vol st)"
  proof (cases o1)
    case None
    then show ?thesis using t r1 R(3) B(2) by (auto simp: try_cluster_def)
  next
    case (Some x)
    then have x: "x = fat c st d" using R(2) by simp
    show ?thesis
    proof (cases "x = 0")
      case False
      then show ?thesis using t r1 Some x R(1) by (auto simp: try_cluster_def)
    next
      case True
      obtain st2 ok2 where w: "write_fat_value st1 d FAT32_END_OF_CHAIN = (st2, ok2)" by fastforce
      have b2: "unat d < 128 * spf st1" using B(2) U(2) by (simp add: same_vol_simps)
      note W = write_fat_value_spec [OF U(1) B(1) b2 w]
      define h where "h = (if d + 1 < 2 \<or> d + 1 > m then 2 else d + 1)"
      define n where "n = (if ms_free_cluster_count st2 = FAT32_FSINFO_UNKNOWN then FAT32_FSINFO_UNKNOWN else ms_free_cluster_count st2 - 1)"
      obtain st3 ok3 where u: "update_fsinfo st2 n h = (st3, ok3)" by fastforce
      have res: "(st', r) = (if \<not> ok2 then (st2, Alloc_fail) else if \<not> ok3 then (st3, Alloc_fail) else (st3, Alloc_got d))"
        using t unfolding try_cluster_def r1 Some True prod.case option.case Let_def w n_def [symmetric] h_def [symmetric] u by simp
      show ?thesis
      proof (cases ok2)
        case False
        then show ?thesis using res W(2) U(6) by auto
      next
        case ok2: True
        have s1: "fat_step c st st2 ((fat c st)(d := FAT32_END_OF_CHAIN))"
          using fat_step_trans [OF fat_step_unchanged [OF R(1)] fat_step_put [OF U(1) W(1) [OF ok2]]] U(3) by simp
        then have v2: "vol_ok c st2" "reliable_vol st2 = reliable_vol st" "fat c st2 = (fat c st)(d := FAT32_END_OF_CHAIN)"
          by (simp_all add: fat_stepD)
        have "fat_step c st st3 ((fat c st)(d := FAT32_END_OF_CHAIN))"
          using fat_step_trans [OF s1 fat_step_fsinfo [OF v2(1) u]] v2(3) by simp
        then show ?thesis using res ok2 True x update_fsinfo_spec(5) [OF v2(1) u] v2(2) by (auto split: if_splits)
      qed
    qed
  qed
  then show "r = Alloc_next \<Longrightarrow> unchanged c st st' \<and> fat c st d \<noteq> 0"
    "r = Alloc_got e \<Longrightarrow> e = d \<and> fat c st d = 0 \<and> fat_step c st st' ((fat c st)(d := FAT32_END_OF_CHAIN))"
    "r = Alloc_fail \<Longrightarrow> \<not> reliable_vol st" by auto
qed

lemma alloc_search_spec:
  assumes "vol_ok c st" "unat m = clusters st + 1" "2 \<le> unat d" "alloc_search st m d = (st', r)"
  shows "(r = Alloc_next \<longrightarrow> unchanged c st st' \<and> (\<forall>e. unat d \<le> unat e \<and> unat e \<le> unat m \<longrightarrow> fat c st e \<noteq> 0)) \<and>
    (\<forall>e. r = Alloc_got e \<longrightarrow> volume_cluster st e \<and> fat c st e = 0 \<and> fat_step c st st' ((fat c st)(e := FAT32_END_OF_CHAIN))) \<and>
    (r = Alloc_fail \<longrightarrow> \<not> reliable_vol st)"
  using assms
proof (induction st m d rule: alloc_search.induct)
  case (1 st m d)
  show ?case
  proof (cases "d > m")
    case True
    then show ?thesis using 1(2,5) by (auto simp: alloc_search.simps [of st m d] unchanged_refl word_less_nat_alt)
  next
    case False
    then have d: "volume_cluster st d" using 1(3,4) by (simp add: volume_cluster_def word_less_nat_alt)
    obtain st1 r1 where t: "try_cluster st m d = (st1, r1)" by fastforce
    note T = try_cluster_spec [OF 1(2) d t]
    show ?thesis
    proof (cases r1)
      case Alloc_fail
      then show ?thesis using 1(5) False t T(3) by (simp add: alloc_search.simps [of st m d])
    next
      case (Alloc_got e)
      then show ?thesis using 1(5) False t T(2) [of e] d by (auto simp: alloc_search.simps [of st m d] simp del: fun_upd_apply)
    next
      case Alloc_next
      then have U: "unchanged c st st1" and nz: "fat c st d \<noteq> 0" using T(1) by auto
      note D = unchangedD [OF U]
      show ?thesis
      proof (cases "d = m")
        case True
        then have "st' = st1" "r = Alloc_next" using 1(5) t Alloc_next by (auto simp: alloc_search.simps [of st m m])
        moreover have "e = d" if "unat d \<le> unat e" "unat e \<le> unat m" for e using that True by (intro word_eq_unatI) simp
        ultimately show ?thesis using U nz by auto
      next
        case neq: False
        have s: "alloc_search st1 m (d + 1) = (st', r)" using 1(5) False neq t Alloc_next by (simp add: alloc_search.simps [of st m d])
        have lt: "unat d < unat m" using False neq by (simp add: word_less_nat_alt [symmetric])
        then have d1: "unat (d + 1) = unat d + 1" using unat_plus32 [of d 1] unat_lt_32 [of m] by simp
        note IH = 1(1) [OF False t [symmetric] Alloc_next neq D(1) _ _ s]
        have I: "(r = Alloc_next \<longrightarrow> unchanged c st1 st' \<and> (\<forall>e. unat (d + 1) \<le> unat e \<and> unat e \<le> unat m \<longrightarrow> fat c st1 e \<noteq> 0)) \<and>
          (\<forall>e. r = Alloc_got e \<longrightarrow> volume_cluster st1 e \<and> fat c st1 e = 0 \<and> fat_step c st1 st' ((fat c st1)(e := FAT32_END_OF_CHAIN))) \<and>
          (r = Alloc_fail \<longrightarrow> \<not> reliable_vol st1)"
          by (rule IH) (use 1(3,4) d1 in \<open>auto simp: same_vol_simps [OF D(2)]\<close>)
        have at_d: "fat c st e \<noteq> 0" if "unat d \<le> unat e" "\<not> unat (d + 1) \<le> unat e" for e
        proof -
          have "e = d" using that d1 by (intro word_eq_unatI) simp
          then show ?thesis using nz by simp
        qed
        show ?thesis
          using I unchanged_trans [OF U, of st'] fat_step_trans [OF fat_step_unchanged [OF U], of st'] at_d
          unfolding D(3,6) same_vol_simps(6) [OF D(2)] by blast
      qed
    qed
  qed
qed

lemma allocate_cluster_spec:
  assumes v: "vol_ok c st" and a: "allocate_cluster st = (st', r)"
  shows "r = Some d \<Longrightarrow> volume_cluster st d \<and> fat c st d = 0 \<and> fat_step c st st' ((fat c st)(d := FAT32_END_OF_CHAIN))"
    "r = None \<Longrightarrow> reliable_vol st \<Longrightarrow> unchanged c st st' \<and> (\<forall>e. volume_cluster st e \<longrightarrow> fat c st e \<noteq> 0)"
proof -
  define m where "m = ms_total_clusters st + 1"
  define h where "h = (if ms_next_free_cluster_hint st < 2 \<or> ms_next_free_cluster_hint st > m then 2 else ms_next_free_cluster_hint st)"
  have "clusters st + 2 < unat FAT32_END_OF_CHAIN" using vol_geometry [OF v] by (simp add: geometry_ok_def)
  then have m: "unat m = clusters st + 1" unfolding m_def by (subst unat_plus32) (simp_all add: FAT32_END_OF_CHAIN_def)
  have h2: "2 \<le> unat h" by (auto simp: h_def word_less_nat_alt)
  obtain st1 r1 where s1: "alloc_search st m h = (st1, r1)" by fastforce
  note S1 = alloc_search_spec [OF v m h2 s1]
  have "(r = Some d \<longrightarrow> volume_cluster st d \<and> fat c st d = 0 \<and> fat_step c st st' ((fat c st)(d := FAT32_END_OF_CHAIN))) \<and>
      (r = None \<and> reliable_vol st \<longrightarrow> unchanged c st st' \<and> (\<forall>e. volume_cluster st e \<longrightarrow> fat c st e \<noteq> 0))"
  proof (cases r1)
    case Alloc_fail
    then show ?thesis using a s1 S1 by (simp add: allocate_cluster_def Let_def m_def [symmetric] h_def [symmetric])
  next
    case (Alloc_got e)
    then show ?thesis using a s1 S1 by (auto simp: allocate_cluster_def Let_def m_def [symmetric] h_def [symmetric] simp del: fun_upd_apply)
  next
    case Alloc_next
    then have U: "unchanged c st st1" using S1 by blast
    note D = unchangedD [OF U]
    obtain st2 r2 where s2: "alloc_search st1 m 2 = (st2, r2)" by fastforce
    have m1: "unat m = clusters st1 + 1" using m by (simp add: same_vol_simps [OF D(2)])
    note S2 = alloc_search_spec [OF D(1) m1 _ s2]
    have e: "st' = st2" "r = (case r2 of Alloc_got d \<Rightarrow> Some d | _ \<Rightarrow> None)"
      using a s1 s2 Alloc_next by (auto simp: allocate_cluster_def Let_def m_def [symmetric] h_def [symmetric] split: alloc_step.splits)
    show ?thesis
    proof (cases r2)
      case Alloc_next
      then have "unchanged c st1 st2" and nz: "\<forall>e. 2 \<le> unat e \<and> unat e \<le> unat m \<longrightarrow> fat c st e \<noteq> 0" using S2 D(3) by auto
      then have "unchanged c st st2" using unchanged_trans [OF U] by blast
      moreover have "fat c st e \<noteq> 0" if "volume_cluster st e" for e using nz that m by (auto simp: volume_cluster_def)
      ultimately show ?thesis using e Alloc_next by simp
    next
      case (Alloc_got x)
      then have "volume_cluster st x \<and> fat c st x = 0 \<and> fat_step c st st2 ((fat c st)(x := FAT32_END_OF_CHAIN))"
        using S2 fat_step_trans [OF fat_step_unchanged [OF U]] D(3) same_vol_simps(6) [OF D(2)] by auto
      then show ?thesis using e Alloc_got by (auto simp del: fun_upd_apply)
    next
      case Alloc_fail
      then show ?thesis using e S2 D(6) by simp
    qed
  qed
  then show "r = Some d \<Longrightarrow> volume_cluster st d \<and> fat c st d = 0 \<and> fat_step c st st' ((fat c st)(d := FAT32_END_OF_CHAIN))"
    "r = None \<Longrightarrow> reliable_vol st \<Longrightarrow> unchanged c st st' \<and> (\<forall>e. volume_cluster st e \<longrightarrow> fat c st e \<noteq> 0)" by auto
qed

section \<open>Chains\<close>

definition cluster_ptr :: "u32 \<Rightarrow> u32 option" where
  "cluster_ptr x = (if is_data_cluster x then Some x else None)"

text \<open>\<open>file_chain f x ds\<close>: in the table \<open>f\<close> the chain that starts at \<open>x\<close> visits \<open>ds\<close> and ends.\<close>

definition file_chain :: "(u32 \<Rightarrow> u32) \<Rightarrow> u32 \<Rightarrow> u32 list \<Rightarrow> bool" where
  "file_chain f x ds \<longleftrightarrow> chain (\<lambda>d. cluster_ptr (f d)) (cluster_ptr x) ds None"

lemma file_chain_Nil [simp]: "file_chain f x [] \<longleftrightarrow> \<not> is_data_cluster x"
  by (simp add: file_chain_def cluster_ptr_def)

lemma file_chain_Cons [simp]: "file_chain f x (d # ds) \<longleftrightarrow> x = d \<and> is_data_cluster d \<and> file_chain f (f d) ds"
  by (auto simp: file_chain_def cluster_ptr_def)

lemma file_chain_distinct: "file_chain f x ds \<Longrightarrow> distinct ds"
  unfolding file_chain_def by (rule chain_None_distinct)

lemma file_chain_data: "file_chain f x ds \<Longrightarrow> d \<in> set ds \<Longrightarrow> is_data_cluster d"
  by (induction ds arbitrary: x) auto

lemma file_chain_cong: "(\<And>d. d \<in> set ds \<Longrightarrow> f d = g d) \<Longrightarrow> file_chain f x ds = file_chain g x ds"
  unfolding file_chain_def by (rule chain_cong) simp

lemma file_chain_upd [simp]: "d \<notin> set ds \<Longrightarrow> file_chain (f(d := x)) y ds = file_chain f y ds"
  by (rule file_chain_cong) auto

section \<open>Releasing a chain\<close>

text \<open>One iteration: the entry is cleared, and the loop goes on only to another data cluster.\<close>

lemma free_step:
  assumes v: "vol_ok c st" and d: "is_data_cluster d"
  obtains (stop) st' r where "free_loop st d n = Some (st', r)" "r = None \<longrightarrow> \<not> reliable_vol st \<or> 128 * spf st \<le> unat d"
      "r \<noteq> None \<longrightarrow> \<not> is_data_cluster (fat c st d) \<and> fat_step c st st' ((fat c st)(d := 0))"
  | (go) st' where "free_loop st d n = free_loop st' (fat c st d) (n + 1)" "is_data_cluster (fat c st d)" "fat_step c st st' ((fat c st)(d := 0))"
proof -
  note B = data_cluster_lt [OF d]
  obtain st1 o1 where r1: "read_fat_value st d = (st1, o1)" by fastforce
  note R = read_fat_value_spec [OF v B r1]
  note U = unchangedD [OF R(1)]
  show thesis
  proof (cases o1)
    case None
    then have "free_loop st d n = Some (st1, None)" using d r1 by (simp add: free_loop.simps)
    then show thesis by (rule stop) (use R(3) None not_le in auto)
  next
    case (Some x)
    then have x: "x = fat c st d" "unat d < 128 * spf st" using R(2) by auto
    obtain st2 ok where w: "write_fat_value st1 d 0 = (st2, ok)" by fastforce
    have b: "unat d < 128 * spf st1" using x(2) by (simp add: same_vol_simps [OF U(2)])
    note W = write_fat_value_spec [OF U(1) B b w]
    have loop: "free_loop st d n = (if \<not> ok then Some (st2, None) else if \<not> is_data_cluster x then Some (st2, Some (n + 1)) else free_loop st2 x (n + 1))"
      using d r1 Some w by (simp add: free_loop.simps [of st d n] is_data_cluster_def not_le not_less)
    show thesis
    proof (cases ok)
      case False
      then show thesis using loop W(2) U(6) by (intro stop) auto
    next
      case True
      have s: "fat_step c st st2 ((fat c st)(d := 0))"
        using fat_step_trans [OF fat_step_unchanged [OF R(1)] fat_step_put [OF U(1) W(1) [OF True]]] U(3) by simp
      show thesis
      proof (cases "is_data_cluster x")
        case True
        then show thesis using loop \<open>ok\<close> s x by (intro go) auto
      next
        case False
        then show thesis using loop \<open>ok\<close> s x by (intro stop) auto
      qed
    qed
  qed
qed

text \<open>Each iteration clears an entry that was not clear, or is the last: the loop ends on every table.\<close>

lemma free_loop_returns:
  assumes "vol_ok c st"
  shows "\<exists>st' r. free_loop st d n = Some (st', r)"
  using assms
proof (induction "card {e. fat c st e \<noteq> 0}" arbitrary: st d n rule: less_induct)
  case less
  show ?case
  proof (cases "is_data_cluster d")
    case False
    then show ?thesis by (simp add: free_loop.simps)
  next
    case True
    show ?thesis
    proof (rule free_step [OF less.prems True, of n])
      fix st' assume g: "free_loop st d n = free_loop st' (fat c st d) (n + 1)" "is_data_cluster (fat c st d)" "fat_step c st st' ((fat c st)(d := 0))"
      have nz: "fat c st d \<noteq> 0" using g(2) by (auto simp: is_data_cluster_def)
      have "{e. fat c st' e \<noteq> 0} = {e. fat c st e \<noteq> 0} - {d}" using fat_stepD(3) [OF g(3)] by auto
      then have "card {e. fat c st' e \<noteq> 0} < card {e. fat c st e \<noteq> 0}" using nz card_Diff1_less [of "{e. fat c st e \<noteq> 0}" d] by simp
      then show ?thesis using less.hyps [OF _ fat_stepD(1) [OF g(3)]] g(1) by auto
    qed blast
  qed
qed

lemma free_loop_chain:
  assumes "vol_ok c st" "file_chain (fat c st) d ds" "\<forall>e \<in> set ds. unat e < 128 * spf st" "free_loop st d n = Some (st', r)"
  shows "(r = None \<longrightarrow> \<not> reliable_vol st) \<and> (r \<noteq> None \<longrightarrow> fat_step c st st' (\<lambda>e. if e \<in> set ds then 0 else fat c st e))"
  using assms
proof (induction ds arbitrary: st d n)
  case Nil
  then have "st' = st" "r \<noteq> None" by (auto simp: free_loop.simps)
  then show ?case using fat_step_unchanged [OF unchanged_refl [OF Nil(1)]] by auto
next
  case (Cons x ds)
  then have d: "is_data_cluster d" "x = d" and rest: "file_chain (fat c st) (fat c st d) ds" by auto
  have nin: "d \<notin> set ds" using file_chain_distinct [OF Cons.prems(2)] d(2) by simp
  show ?case
  proof (rule free_step [OF Cons.prems(1) d(1), of n])
    fix st1 r1 assume s: "free_loop st d n = Some (st1, r1)" "r1 = None \<longrightarrow> \<not> reliable_vol st \<or> 128 * spf st \<le> unat d"
      "r1 \<noteq> None \<longrightarrow> \<not> is_data_cluster (fat c st d) \<and> fat_step c st st1 ((fat c st)(d := 0))"
    have e: "st' = st1" "r = r1" using s(1) Cons.prems(4) by auto
    have "ds = []" if "\<not> is_data_cluster (fat c st d)" using rest that by (cases ds) auto
    moreover have "(\<lambda>e. if e = d then 0 else fat c st e) = (fat c st)(d := 0)" by (simp add: fun_eq_iff)
    ultimately show ?thesis using s e Cons.prems(3) d(2) by auto
  next
    fix st1 assume g: "free_loop st d n = free_loop st1 (fat c st d) (n + 1)" "is_data_cluster (fat c st d)" "fat_step c st st1 ((fat c st)(d := 0))"
    note D = fat_stepD [OF g(3)]
    have fc: "file_chain (fat c st1) (fat c st d) ds" using rest nin D(3) by simp
    have "(r = None \<longrightarrow> \<not> reliable_vol st1) \<and> (r \<noteq> None \<longrightarrow> fat_step c st1 st' (\<lambda>e. if e \<in> set ds then 0 else fat c st1 e))"
      by (rule Cons.IH [OF D(1) fc]) (use Cons.prems(3,4) g(1) in \<open>auto simp: same_vol_simps [OF D(2)]\<close>)
    moreover have "(\<lambda>e. if e \<in> set ds then 0 else fat c st1 e) = (\<lambda>e. if e \<in> set (x # ds) then 0 else fat c st e)"
      using D(3) d(2) by (auto simp: fun_eq_iff)
    ultimately show ?thesis using fat_step_trans [OF g(3)] D(5) by simp
  qed
qed

lemma not_data_cluster: "(d < 2 \<or> FAT32_END_OF_CHAIN \<le> d) \<longleftrightarrow> \<not> is_data_cluster d"
  by (auto simp: is_data_cluster_def not_le not_less)

lemma free_cluster_chain_eq:
  "free_cluster_chain st d = (if \<not> is_data_cluster d then Some (st, True)
     else case free_loop st d 0 of None \<Rightarrow> None
       | Some (st', None) \<Rightarrow> Some (st', False)
       | Some (st', Some freed) \<Rightarrow> Some (update_fsinfo st'
           (if ms_free_cluster_count st' = FAT32_FSINFO_UNKNOWN then FAT32_FSINFO_UNKNOWN else ms_free_cluster_count st' + freed)
           (if ms_next_free_cluster_hint st' = FAT32_FSINFO_UNKNOWN then d
            else if d < ms_next_free_cluster_hint st' then d else ms_next_free_cluster_hint st')))"
  unfolding free_cluster_chain_def not_data_cluster by (simp add: Let_def split: option.splits prod.splits Option.bind_split)

lemma free_cluster_chain_spec:
  assumes v: "vol_ok c st"
  shows "\<exists>st' ok. free_cluster_chain st d = Some (st', ok)"
    and "file_chain (fat c st) d ds \<Longrightarrow> \<forall>e \<in> set ds. unat e < 128 * spf st \<Longrightarrow> free_cluster_chain st d = Some (st', ok) \<Longrightarrow>
      (ok \<longrightarrow> fat_step c st st' (\<lambda>e. if e \<in> set ds then 0 else fat c st e)) \<and> (reliable_vol st \<longrightarrow> ok)"
proof -
  obtain st1 r where l: "free_loop st d 0 = Some (st1, r)" using free_loop_returns [OF v] by blast
  show "\<exists>st' ok. free_cluster_chain st d = Some (st', ok)"
    using l by (cases r) (auto simp: free_cluster_chain_eq intro: prod.exhaust)
  assume ch: "file_chain (fat c st) d ds" "\<forall>e \<in> set ds. unat e < 128 * spf st" and f: "free_cluster_chain st d = Some (st', ok)"
  note C = free_loop_chain [OF v ch l]
  show "(ok \<longrightarrow> fat_step c st st' (\<lambda>e. if e \<in> set ds then 0 else fat c st e)) \<and> (reliable_vol st \<longrightarrow> ok)"
  proof (cases "is_data_cluster d")
    case False
    then have "ds = []" using ch(1) by (cases ds) auto
    moreover have "st' = st" "ok" using f False by (auto simp: free_cluster_chain_eq)
    ultimately show ?thesis using fat_step_unchanged [OF unchanged_refl [OF v]] by simp
  next
    case True
    show ?thesis
    proof (cases r)
      case None
      then show ?thesis using f l True C by (simp add: free_cluster_chain_eq)
    next
      case (Some k)
      then have S: "fat_step c st st1 (\<lambda>e. if e \<in> set ds then 0 else fat c st e)" using C by simp
      obtain n h where u: "update_fsinfo st1 n h = (st', ok)" using f l True Some by (simp add: free_cluster_chain_eq)
      note D = fat_stepD [OF S]
      show ?thesis using fat_step_trans [OF S fat_step_fsinfo [OF D(1) u]] update_fsinfo_spec(5) [OF D(1) u] D(3,5) by simp
    qed
  qed
qed

end
