(* ===== verification/FatWrite.thy ===== *)
theory FatWrite
  imports FatAlloc
begin

text \<open>
  Writing file data: the loop of \<open>write_file_data\<close> links free clusters to a chain whose clusters hold
  the data, zero-padded, and touches no other cluster; when the volume is full the clusters taken
  so far are given back.
\<close>

section \<open>Clusters on the medium\<close>

lemma cluster_bytes_512: "vol_ok c st \<Longrightarrow> cluster_size_bytes st = 512 * spc st"
  by (simp add: cluster_size_bytes_def vol_512)

lemma cluster_area:
  assumes v: "vol_ok c st" and d: "volume_cluster st d" and i: "i < spc st"
  shows "unat (cluster_first_lba st d + word_of_nat i) = cluster_lba st d + i" "cluster_lba st d + i < blocks st"
    "part st + data_start st \<le> cluster_lba st d + i"
proof -
  have g: "part st + data_start st + clusters st * spc st \<le> blocks st" "data_start st + clusters st * spc st < 2 ^ 32"
    using vol_geometry [OF v] by (auto simp: geometry_ok_def)
  have "2 \<le> unat d" "unat d - 2 < clusters st" using d by (auto simp: volume_cluster_def)
  then have "(unat d - 2) * spc st + spc st \<le> clusters st * spc st" by (metis Suc_leI add.commute mult_Suc mult_le_mono1)
  then have a: "(unat d - 2) * spc st + i < clusters st * spc st" using i by linarith
  then show b: "cluster_lba st d + i < blocks st" "part st + data_start st \<le> cluster_lba st d + i"
    using g(1) by (auto simp: cluster_lba_def)
  have "unat (d - 2) = unat d - 2" using \<open>2 \<le> unat d\<close> by (simp add: unat_minus_nw)
  moreover have "unat (ucast (d - 2) * ucast (mi_sectors_per_cluster (ms_info st)) :: u64) = unat (d - 2) * spc st"
  proof -
    have "unat (d - 2) * spc st < 18446744073709551616" using calculation a g(2) by simp
    then show ?thesis by (simp add: unat_word_ariths)
  qed
  moreover have "unat (word_of_nat i :: u64) = i" using i unat_less_exp [of "mi_sectors_per_cluster (ms_info st)"] by (simp add: unat_of_nat)
  ultimately show "unat (cluster_first_lba st d + word_of_nat i) = cluster_lba st d + i"
    using b(1) blocks_lt_64 [OF v] by (simp add: cluster_first_lba_def cluster_lba_def unat_plus64)
qed

lemma cluster_ranges_disjoint:
  assumes "d \<noteq> e" "volume_cluster st d" "volume_cluster st e" "i < spc st" "j < spc st"
  shows "cluster_lba st d + i \<noteq> cluster_lba st e + j"
proof
  assume eq: "cluster_lba st d + i = cluster_lba st e + j"
  then have "(unat d - 2) * spc st + i = (unat e - 2) * spc st + j" by (simp add: cluster_lba_def)
  then have "((unat d - 2) * spc st + i) div spc st = ((unat e - 2) * spc st + j) div spc st" by simp
  then have "unat d - 2 = unat e - 2" using assms(4,5) by simp
  then have "unat d = unat e" using assms(2,3) unfolding volume_cluster_def by linarith
  then show False using assms(1) by (simp add: word_eq_unatI)
qed

text \<open>A write of one sector of the data area.\<close>

lemma write_data_sector:
  assumes v: "vol_ok c st" and q: "part st + data_start st \<le> unat lba" and w: "write_sectors st lba 1 b = (st', ok)" and l: "length b = 512"
  shows "vol_ok c st'" "same_vol st st'" "fat c st' = fat c st" "\<And>s. s \<noteq> unat lba \<Longrightarrow> c (ms_world st') s = c (ms_world st) s"
    "ok \<Longrightarrow> c (ms_world st') (unat lba) = b" "reliable_vol st \<Longrightarrow> unat lba < blocks st \<Longrightarrow> ok"
proof -
  obtain w1 where W: "st' = st\<lparr>ms_world := w1\<rparr>" "\<forall>q. q \<noteq> unat lba \<longrightarrow> c w1 q = c (ms_world st) q" "ok \<longrightarrow> c w1 (unat lba) = b"
      "reliable_vol st \<and> unat lba < blocks st \<longrightarrow> ok"
    by (rule write_sectors_spec [OF v w l])
  show sv: "same_vol st st'" using W(1) by simp
  show "\<And>s. s \<noteq> unat lba \<Longrightarrow> c (ms_world st') s = c (ms_world st) s" "ok \<Longrightarrow> c (ms_world st') (unat lba) = b"
    "reliable_vol st \<Longrightarrow> unat lba < blocks st \<Longrightarrow> ok" using W by auto
  have g: "reserved st + fats st * spf st \<le> data_start st" "0 < fats st" using vol_geometry [OF v] by (auto simp: geometry_ok_def)
  have "spf st \<le> fats st * spf st" using g(2) by (cases "fats st") auto
  then have below: "c w1 (fat_start st + i) = c (ms_world st) (fat_start st + i)" if "i < spf st" for i
  proof -
    have "fat_start st + i \<noteq> unat lba" using that q g(1) \<open>spf st \<le> fats st * spf st\<close> unfolding fat_start_def by linarith
    then show ?thesis using W(2) by blast
  qed
  have "cache_ok c st'" using vol_cache [OF v] W(1) below by (auto simp: cache_ok_def fat_start_def add.assoc)
  then show "vol_ok c st'" by (rule vol_okI [OF v sv])
  show "fat c st' = fat c st"
  proof
    fix d
    show "fat c st' d = fat c st d"
      using W(1) below [of "unat d div 128"] by (simp add: fat_def fat_start_def div_less_iff_less_mult mult.commute)
  qed
qed

section \<open>Padding\<close>

definition padded :: "nat \<Rightarrow> u8 list \<Rightarrow> u8 list" where
  "padded n xs = take n xs @ replicate (n - length xs) 0"

lemma length_padded [simp]: "length (padded n xs) = n"
  by (simp add: padded_def)

lemma padded_append: "padded (n + m) xs = padded n xs @ padded m (drop n xs)"
  by (cases "n \<le> length xs") (simp_all add: padded_def take_add replicate_add [symmetric])

lemma padded_concat: "concat (map (\<lambda>j. padded 512 (drop (512 * j) xs)) [0..<n]) = padded (512 * n) xs"
  by (induction n) (simp_all add: padded_def [of 0] padded_append [symmetric] add.commute)

lemma take_padded: "length xs \<le> n \<Longrightarrow> take (length xs) (padded n xs) = xs"
  by (simp add: padded_def)

lemma splice_padded: "length ys \<le> 512 \<Longrightarrow> splice_at (replicate 512 0) 0 ys = padded 512 ys"
  by (simp add: splice_at_def padded_def)

section \<open>One cluster\<close>

lemma write_cluster_sectors_spec:
  assumes "vol_ok c st" "volume_cluster st d" "i \<le> spc st" "write_cluster_sectors st d data [i..<spc st] n = (st', r)"
    "n = min (w0 + 512 * i) (length data)" "w0 \<le> length data"
  shows "vol_ok c st' \<and> same_vol st st' \<and> fat c st' = fat c st \<and>
    (\<forall>q. (\<forall>j < spc st. q \<noteq> cluster_lba st d + j) \<longrightarrow> c (ms_world st') q = c (ms_world st) q) \<and>
    (\<forall>j < i. c (ms_world st') (cluster_lba st d + j) = c (ms_world st) (cluster_lba st d + j)) \<and>
    (\<forall>k. r = Some k \<longrightarrow> k = min (w0 + 512 * spc st) (length data) \<and>
       (\<forall>j. i \<le> j \<and> j < spc st \<longrightarrow> c (ms_world st') (cluster_lba st d + j) = padded 512 (drop (w0 + 512 * j) data))) \<and>
    (reliable_vol st \<longrightarrow> r \<noteq> None)"
  using assms
proof (induction "spc st - i" arbitrary: st i n)
  case 0
  then have "[i..<spc st] = []" by simp
  then show ?case using 0 by auto
next
  case (Suc m)
  then have i: "i < spc st" by simp
  then have up: "[i..<spc st] = i # [Suc i..<spc st]" by (simp add: upt_conv_Cons)
  define chunk where "chunk = (if n < length data then (if length data - n > 512 then 512 else length data - n) else 0)"
  define b where "b = splice_at (replicate 512 0) 0 (take chunk (drop n data))"
  define lba where "lba = cluster_first_lba st d + word_of_nat i"
  have dn: "drop n data = drop (w0 + 512 * i) data" using Suc.prems(5) by (simp add: min_def)
  have "take chunk (drop n data) = take 512 (drop n data)" by (auto simp: chunk_def)
  then have b: "b = padded 512 (drop (w0 + 512 * i) data)" using dn by (simp add: b_def splice_padded) (simp add: padded_def)
  have lb: "length b = 512" by (simp add: b)
  note A = cluster_area [OF Suc.prems(1,2) i, folded lba_def]
  obtain st1 ok where w: "write_sectors st lba 1 b = (st1, ok)" by fastforce
  have q: "part st + data_start st \<le> unat lba" using A by simp
  note W = write_data_sector [OF Suc.prems(1) q w lb]
  have step: "(st', r) = (if \<not> ok then (st1, None) else write_cluster_sectors st1 d data [Suc i..<spc st] (n + chunk))"
  proof -
    have "unat (512 :: u32) = 512" by simp
    then show ?thesis using Suc.prems(4) w unfolding up write_cluster_sectors.simps Let_def vol_512 [OF Suc.prems(1)]
      by (simp only: chunk_def [symmetric] b_def [symmetric] lba_def [symmetric]) (simp split: if_splits)
  qed
  have rel: "reliable_vol st \<longrightarrow> ok" using W(6) A by simp
  show ?case
  proof (cases ok)
    case False
    then show ?thesis using step W A i rel by auto
  next
    case True
    have n': "n + chunk = min (w0 + 512 * Suc i) (length data)" using Suc.prems(5,6) by (auto simp: chunk_def min_def)
    have s: "write_cluster_sectors st1 d data [Suc i..<spc st1] (n + chunk) = (st', r)" using step True by (simp add: same_vol_simps [OF W(2)])
    have "vol_ok c st' \<and> same_vol st1 st' \<and> fat c st' = fat c st1 \<and>
      (\<forall>q. (\<forall>j < spc st1. q \<noteq> cluster_lba st1 d + j) \<longrightarrow> c (ms_world st') q = c (ms_world st1) q) \<and>
      (\<forall>j < Suc i. c (ms_world st') (cluster_lba st1 d + j) = c (ms_world st1) (cluster_lba st1 d + j)) \<and>
      (\<forall>k. r = Some k \<longrightarrow> k = min (w0 + 512 * spc st1) (length data) \<and>
         (\<forall>j. Suc i \<le> j \<and> j < spc st1 \<longrightarrow> c (ms_world st') (cluster_lba st1 d + j) = padded 512 (drop (w0 + 512 * j) data))) \<and>
      (reliable_vol st1 \<longrightarrow> r \<noteq> None)"
      by (rule Suc.hyps(1) [OF _ W(1) _ _ s n' Suc.prems(6)]) (use Suc.hyps(2) Suc.prems i in \<open>simp_all add: same_vol_simps [OF W(2)]\<close>)
    then have IH: "vol_ok c st'" "same_vol st1 st'" "fat c st' = fat c st"
      "\<forall>q. (\<forall>j < spc st. q \<noteq> cluster_lba st d + j) \<longrightarrow> c (ms_world st') q = c (ms_world st1) q"
      "\<forall>j < Suc i. c (ms_world st') (cluster_lba st d + j) = c (ms_world st1) (cluster_lba st d + j)"
      "\<forall>k. r = Some k \<longrightarrow> k = min (w0 + 512 * spc st) (length data) \<and>
         (\<forall>j. Suc i \<le> j \<and> j < spc st \<longrightarrow> c (ms_world st') (cluster_lba st d + j) = padded 512 (drop (w0 + 512 * j) data))"
      "reliable_vol st \<longrightarrow> r \<noteq> None"
      using W(3) by (simp_all add: same_vol_simps [OF W(2)] reliable_same_vol [OF W(2)])
    have at_i: "c (ms_world st') (cluster_lba st d + i) = padded 512 (drop (w0 + 512 * i) data)"
      using IH(5) W(5) [OF True] A(1) b by simp
    have "c (ms_world st') q = c (ms_world st) q" if "\<forall>j < spc st. q \<noteq> cluster_lba st d + j" for q
      using that IH(4) W(4) A(1) i by simp
    moreover have "c (ms_world st') (cluster_lba st d + j) = c (ms_world st) (cluster_lba st d + j)" if "j < i" for j
      using that IH(5) W(4) A(1) by simp
    moreover have "c (ms_world st') (cluster_lba st d + j) = padded 512 (drop (w0 + 512 * j) data)" if "r = Some k" "i \<le> j" "j < spc st" for j k
      using that IH(6) at_i by (cases "j = i") auto
    ultimately show ?thesis using IH same_vol_trans [OF W(2) IH(2)] by blast
  qed
qed

section \<open>A chain under construction\<close>

text \<open>The table in which the clusters \<open>ds\<close> are linked one after the other and the last one ends the chain.\<close>

fun link_up :: "(u32 \<Rightarrow> u32) \<Rightarrow> u32 list \<Rightarrow> u32 \<Rightarrow> u32" where
  "link_up f [] = f"
| "link_up f [d] = f(d := FAT32_END_OF_CHAIN)"
| "link_up f (d # e # ds) = (link_up f (e # ds))(d := e)"

lemma link_up_other: "x \<notin> set ds \<Longrightarrow> link_up f ds x = f x"
  by (induction f ds rule: link_up.induct) auto

lemma link_up_nonzero: "x \<in> set ds \<Longrightarrow> \<forall>d \<in> set ds. d \<noteq> 0 \<Longrightarrow> link_up f ds x \<noteq> 0"
  by (induction f ds rule: link_up.induct) (auto simp: FAT32_END_OF_CHAIN_def)

lemma link_up_snoc:
  "distinct (ds @ [x]) \<Longrightarrow> ds \<noteq> [] \<Longrightarrow> link_up f (ds @ [x]) = ((link_up f ds)(x := FAT32_END_OF_CHAIN))(last ds := x)"
proof (induction f ds rule: link_up.induct)
  case (3 f d e ds)
  have "last (e # ds) \<in> set (e # ds)" by (rule last_in_set) simp
  then have "d \<noteq> last (e # ds)" using 3(2) by auto
  then show ?case using 3 by (auto simp: fun_eq_iff)
qed (auto simp: fun_eq_iff)

lemma end_of_chain_not_data [simp]: "\<not> is_data_cluster FAT32_END_OF_CHAIN"
  by (simp add: is_data_cluster_def)

lemma link_up_chain:
  "ds \<noteq> [] \<Longrightarrow> distinct ds \<Longrightarrow> \<forall>d \<in> set ds. is_data_cluster d \<Longrightarrow> file_chain (link_up f ds) (hd ds) ds"
proof (induction f ds rule: link_up.induct)
  case (3 f d e ds)
  then have "file_chain (link_up f (e # ds)) e (e # ds)" "d \<notin> set (e # ds)" by auto
  then have "file_chain ((link_up f (e # ds))(d := e)) e (e # ds)" using file_chain_upd [of d "e # ds" "link_up f (e # ds)" e e] by blast
  then show ?case using 3(4) unfolding link_up.simps(3) list.sel(1) file_chain_Cons [of _ d d] fun_upd_same by simp
qed simp_all

text \<open>The state after some clusters have been written.\<close>

definition appended :: "'w medium \<Rightarrow> 'w mount_state \<Rightarrow> u8 list \<Rightarrow> 'w mount_state \<Rightarrow> u32 list \<Rightarrow> bool" where
  "appended c st0 data st ds \<longleftrightarrow> vol_ok c st \<and> same_vol st0 st \<and> distinct ds \<and>
     (\<forall>d \<in> set ds. volume_cluster st0 d \<and> fat c st0 d = 0) \<and> fat c st = link_up (fat c st0) ds \<and>
     concat (map (cluster_data c st) ds) = padded (cluster_size_bytes st0 * length ds) data \<and>
     (\<forall>d. volume_cluster st0 d \<and> d \<notin> set ds \<longrightarrow> cluster_data c st d = cluster_data c st0 d)"

lemma appended_start: "vol_ok c st \<Longrightarrow> appended c st data st []"
  by (simp add: appended_def padded_def)

lemma data_cluster_masked: "is_data_cluster d \<Longrightarrow> d AND 0x0FFFFFFF = d"
proof -
  assume "is_data_cluster d"
  then have "unat d < 2 ^ 28" by (rule data_cluster_lt)
  then have "unat (d AND mask 28) = unat d" by (simp add: unat_and_mask)
  then have "d AND mask 28 = d" by (rule word_eq_unatI)
  then show ?thesis by (simp add: mask_eq_exp_minus_1)
qed

text \<open>What one round of the loop does with the cluster it got.\<close>

lemma cluster_data_written:
  assumes v: "vol_ok c st" and d: "volume_cluster st d" and w: "write_cluster_sectors st d data [0..<spc st] n = (st', Some k)"
    and n: "n = min w0 (length data)" "w0 \<le> length data"
  shows "cluster_data c st' d = padded (512 * spc st) (drop w0 data)" "k = min (w0 + 512 * spc st) (length data)"
    "vol_ok c st'" "same_vol st st'" "fat c st' = fat c st" "\<And>e. volume_cluster st e \<Longrightarrow> e \<noteq> d \<Longrightarrow> cluster_data c st' e = cluster_data c st e"
proof -
  have n0: "n = min (w0 + 512 * 0) (length data)" using n by simp
  note W = write_cluster_sectors_spec [OF v d _ w n0 n(2)]
  show "vol_ok c st'" and sv: "same_vol st st'" and "fat c st' = fat c st" "k = min (w0 + 512 * spc st) (length data)" using W by auto
  have keep: "\<forall>q. (\<forall>j < spc st. q \<noteq> cluster_lba st d + j) \<longrightarrow> c (ms_world st') q = c (ms_world st) q" using W by auto
  have sec: "c (ms_world st') (cluster_lba st d + j) = padded 512 (drop (512 * j) (drop w0 data))" if "j < spc st" for j
    using W that by (auto simp: add.commute)
  have "map (c (ms_world st')) [cluster_lba st d..<cluster_lba st d + spc st] = map (\<lambda>j. padded 512 (drop (512 * j) (drop w0 data))) [0..<spc st]"
    by (rule nth_equalityI) (simp_all add: sec del: drop_drop)
  then show "cluster_data c st' d = padded (512 * spc st) (drop w0 data)"
    unfolding cluster_data_def same_vol_simps [OF sv] by (simp only: padded_concat)
  fix e assume e: "volume_cluster st e" "e \<noteq> d"
  have "c (ms_world st') q = c (ms_world st) q" if q: "q \<in> set [cluster_lba st e..<cluster_lba st e + spc st]" for q
  proof -
    obtain i where "q = cluster_lba st e + i" "i < spc st" using q by (auto simp: le_iff_add)
    then have "\<forall>j < spc st. q \<noteq> cluster_lba st d + j" using cluster_ranges_disjoint [OF e(2) e(1) d] by auto
    then show ?thesis using keep by blast
  qed
  then show "cluster_data c st' e = cluster_data c st e"
    unfolding cluster_data_def same_vol_simps [OF sv] by (intro arg_cong [where f = concat] map_cong [OF refl])
qed

lemma appended_step:
  assumes A: "appended c st0 data st ds" and n: "n = min (cluster_size_bytes st0 * length ds) (length data)" "cluster_size_bytes st0 * length ds \<le> length data"
    and al: "allocate_cluster st = (st1, Some x)"
    and l: "(if ds \<noteq> [] then write_fat_value st1 (last ds) x else (st1, True)) = (st2, True)"
    and w: "write_cluster_sectors st2 x data [0..<spc st2] n = (st3, Some k)"
  shows "appended c st0 data st3 (ds @ [x])" "k = min (cluster_size_bytes st0 * length (ds @ [x])) (length data)"
proof -
  let ?f = "fat c st0" and ?cb = "cluster_size_bytes st0"
  have v: "vol_ok c st" and sv: "same_vol st0 st" and ft: "fat c st = link_up ?f ds" and di: "distinct ds"
    and free: "\<forall>d \<in> set ds. volume_cluster st0 d \<and> ?f d = 0" using A by (auto simp: appended_def)
  note S = same_vol_simps [OF sv]
  have X: "volume_cluster st x" "fat c st x = 0" "fat_step c st st1 ((fat c st)(x := FAT32_END_OF_CHAIN))"
    using allocate_cluster_spec(1) [OF v al refl] by auto
  note D1 = fat_stepD [OF X(3)]
  have vc: "\<forall>d \<in> set ds. is_data_cluster d \<and> unat d < 128 * spf st \<and> d \<noteq> 0"
    using free volume_cluster_bounds [OF v] by (auto simp: S volume_cluster_def)
  have xn: "x \<notin> set ds" using X(2) ft link_up_nonzero [of x ds ?f] vc by auto
  have xd: "is_data_cluster x" using volume_cluster_bounds(3) [OF v X(1)] .
  have S2: "fat_step c st st2 (link_up ?f (ds @ [x]))"
  proof (cases "ds = []")
    case True
    then show ?thesis using l X(3) ft by simp
  next
    case False
    have p: "is_data_cluster (last ds)" "unat (last ds) < 128 * spf st1" using vc False by (auto simp: same_vol_simps [OF D1(2)])
    have "fat_put c st1 (last ds) x st2" using write_fat_value_spec(1) [OF D1(1) data_cluster_lt [OF p(1)] p(2)] l False by simp
    from fat_step_trans [OF X(3) fat_step_put [OF D1(1) this]] show ?thesis
      using link_up_snoc [of ds x ?f] di xn False D1(3) ft data_cluster_masked [OF xd] by simp
  qed
  note D2 = fat_stepD [OF S2]
  have cb: "?cb = 512 * spc st2" using cluster_bytes_512 [OF D2(1)] same_vol_simps [OF D2(2)] S by simp
  have x2: "volume_cluster st2 x" using X(1) by (simp add: same_vol_simps [OF D2(2)])
  note W = cluster_data_written [OF D2(1) x2 w n]
  show "k = min (?cb * length (ds @ [x])) (length data)" using W(2) cb by simp
  have sv3: "same_vol st0 st3" using sv D2(2) W(4) by (blast intro: same_vol_trans)
  have other: "cluster_data c st3 e = cluster_data c st e" if "volume_cluster st0 e" "e \<noteq> x" for e
    using W(6) [of e] that D2(4) by (simp add: same_vol_simps [OF D2(2)] S)
  have "map (cluster_data c st3) ds = map (cluster_data c st) ds" using other xn free by auto
  then have "concat (map (cluster_data c st3) (ds @ [x])) = padded (?cb * length ds) data @ padded ?cb (drop (?cb * length ds) data)"
    using A W(1) cb by (simp add: appended_def del: map_eq_conv)
  then have "concat (map (cluster_data c st3) (ds @ [x])) = padded (?cb * length (ds @ [x])) data"
    by (simp add: padded_append [symmetric] add.commute)
  moreover have "cluster_data c st3 d = cluster_data c st0 d" if "volume_cluster st0 d" "d \<notin> set (ds @ [x])" for d
    using that other [of d] A by (auto simp: appended_def)
  moreover have "volume_cluster st0 x \<and> ?f x = 0" using X(1,2) S ft link_up_other [OF xn] by simp
  ultimately show "appended c st0 data st3 (ds @ [x])"
    using W(3,5) sv3 di xn free D2(3) by (auto simp: appended_def)
qed

section \<open>The loop\<close>

definition free_clusters :: "'w medium \<Rightarrow> 'w mount_state \<Rightarrow> u32 set" where
  "free_clusters c st = {d. volume_cluster st d \<and> fat c st d = 0}"

text \<open>The outcome of a write that did not fit: everything is as before.\<close>

definition gave_back :: "'w medium \<Rightarrow> 'w mount_state \<Rightarrow> u8 list \<Rightarrow> 'w mount_state \<Rightarrow> bool" where
  "gave_back c st0 data st \<longleftrightarrow> vol_ok c st \<and> same_vol st0 st \<and> fat c st = fat c st0 \<and>
     (\<forall>d. volume_cluster st0 d \<and> fat c st0 d \<noteq> 0 \<longrightarrow> cluster_data c st d = cluster_data c st0 d) \<and>
     cluster_size_bytes st0 * card (free_clusters c st0) < length data"

definition chain_ends :: "u32 list \<Rightarrow> u32 \<Rightarrow> u32 \<Rightarrow> bool" where
  "chain_ends ds first previous \<longleftrightarrow> (if ds = [] then first = 0 \<and> previous = 0 else first = hd ds \<and> previous = last ds)"

lemma appended_clusters:
  assumes "appended c st0 data st ds"
  shows "\<forall>d \<in> set ds. is_data_cluster d \<and> unat d < 128 * spf st \<and> d \<noteq> 0" "ds \<noteq> [] \<Longrightarrow> hd ds \<noteq> 0 \<and> last ds \<noteq> 0"
    "ds \<noteq> [] \<Longrightarrow> file_chain (fat c st) (hd ds) ds"
proof -
  have v: "vol_ok c st" and s: "same_vol st0 st" and d: "\<forall>d \<in> set ds. volume_cluster st0 d" "distinct ds" "fat c st = link_up (fat c st0) ds"
    using assms by (auto simp: appended_def)
  show all: "\<forall>d \<in> set ds. is_data_cluster d \<and> unat d < 128 * spf st \<and> d \<noteq> 0"
    using d(1) volume_cluster_bounds [OF v] by (auto simp: same_vol_simps [OF s] volume_cluster_def)
  then show "ds \<noteq> [] \<Longrightarrow> hd ds \<noteq> 0 \<and> last ds \<noteq> 0" by auto
  show "ds \<noteq> [] \<Longrightarrow> file_chain (fat c st) (hd ds) ds" using link_up_chain [of ds] all d by simp
qed

text \<open>A full volume: the clusters of the chain are given back.\<close>

lemma chain_given_back:
  assumes A: "appended c st0 data st ds" and rel: "reliable_vol st0" and few: "cluster_size_bytes st0 * length ds < length data"
    and full: "\<forall>e. volume_cluster st e \<longrightarrow> fat c st e \<noteq> 0" and U: "unchanged c st st1" and e: "chain_ends ds first previous"
  shows "\<exists>st'. (if first \<noteq> 0 then give_up st1 first else Some (st1, None)) = Some (st', None) \<and> gave_back c st0 data st'"
proof -
  let ?f = "fat c st0"
  have v: "vol_ok c st" and sv: "same_vol st0 st" and di: "distinct ds" and ft: "fat c st = link_up ?f ds"
    and free: "\<forall>d \<in> set ds. volume_cluster st0 d \<and> ?f d = 0"
    and keep: "\<forall>d. volume_cluster st0 d \<and> d \<notin> set ds \<longrightarrow> cluster_data c st d = cluster_data c st0 d" using A by (auto simp: appended_def)
  note D = unchangedD [OF U] and V = same_vol_simps [OF sv]
  have "d \<in> set ds" if "volume_cluster st0 d" "?f d = 0" for d
    using that full link_up_other [of d ds ?f] by (auto simp: V ft)
  then have "free_clusters c st0 = set ds" using free by (auto simp: free_clusters_def)
  then have card: "cluster_size_bytes st0 * card (free_clusters c st0) < length data" using few di by (simp add: distinct_card)
  have rolled: "gave_back c st0 data st'" if s: "fat_step c st1 st' ?f" for st'
    using fat_stepD [OF s] same_vol_trans [OF same_vol_trans [OF sv D(2)] fat_stepD(2) [OF s]] keep D(4) free card
    by (auto simp: gave_back_def)
  show ?thesis
  proof (cases "ds = []")
    case True
    then have "fat_step c st1 st1 ?f" using fat_step_unchanged [OF unchanged_refl [OF D(1)]] D(3) ft by simp
    then show ?thesis using rolled e True by (simp add: chain_ends_def)
  next
    case False
    note C = appended_clusters [OF A]
    have ch: "file_chain (fat c st1) first ds" "\<forall>e \<in> set ds. unat e < 128 * spf st1"
      using C e False D(3) same_vol_simps [OF D(2)] by (auto simp: chain_ends_def)
    obtain st2 ok where f: "free_cluster_chain st1 first = Some (st2, ok)" using free_cluster_chain_spec(1) [OF D(1)] by blast
    have r1: "reliable_vol st1" using rel D(6) reliable_same_vol [OF sv] by simp
    have "fat_step c st1 st2 (\<lambda>e. if e \<in> set ds then 0 else fat c st1 e)" using free_cluster_chain_spec(2) [OF D(1) ch f] r1 by blast
    moreover have "(\<lambda>e. if e \<in> set ds then 0 else fat c st1 e) = ?f" using D(3) ft free link_up_other [of _ ds ?f] by auto
    ultimately have "gave_back c st0 data st2" using rolled by simp
    then show ?thesis using f e False C(2) by (simp add: chain_ends_def give_up_def)
  qed
qed

lemma write_loop_spec:
  assumes "appended c st0 data st ds" "n = min (cluster_size_bytes st0 * length ds) (length data)" "chain_ends ds first previous"
  shows "(\<forall>st' x. write_loop st data first previous n = Some (st', Some x) \<longrightarrow>
      (\<exists>es. appended c st0 data st' es \<and> length data \<le> cluster_size_bytes st0 * length es \<and> (\<exists>p. chain_ends es x p))) \<and>
    (reliable_vol st0 \<longrightarrow> (\<exists>st' r. write_loop st data first previous n = Some (st', r) \<and> (r = None \<longrightarrow> gave_back c st0 data st')))"
  using assms
proof (induction "length data - n" arbitrary: st ds n first previous rule: less_induct)
  case less
  note A = less.prems(1) and E = less.prems(3)
  have v: "vol_ok c st" and sv: "same_vol st0 st" using A by (auto simp: appended_def)
  note C = appended_clusters [OF A]
  show ?case
  proof (cases "n < length data")
    case False
    then have "length data \<le> cluster_size_bytes st0 * length ds" using less.prems(2) by simp
    then show ?thesis using False A E by (auto simp: write_loop.simps [of st])
  next
    case True
    then have n: "n = cluster_size_bytes st0 * length ds" "n \<le> length data" using less.prems(2) by auto
    obtain st1 r1 where al: "allocate_cluster st = (st1, r1)" by fastforce
    show ?thesis
    proof (cases r1)
      case None
      then have loop: "write_loop st data first previous n = (if first \<noteq> 0 then give_up st1 first else Some (st1, None))"
        using True al by (simp add: write_loop.simps [of st])
      have "\<not> (\<exists>st' x. write_loop st data first previous n = Some (st', Some x))" using loop by (auto simp: give_up_def Option.bind_eq_Some_conv split: if_splits)
      moreover have "\<exists>st'. write_loop st data first previous n = Some (st', None) \<and> gave_back c st0 data st'" if rel: "reliable_vol st0"
      proof -
        have "reliable_vol st" using rel reliable_same_vol [OF sv] by simp
        then have U: "unchanged c st st1" "\<forall>e. volume_cluster st e \<longrightarrow> fat c st e \<noteq> 0" using allocate_cluster_spec(2) [OF v al None] by auto
        show ?thesis unfolding loop by (rule chain_given_back [OF A rel _ U(2) U(1) E]) (use True n in simp)
      qed
      ultimately show ?thesis by blast
    next
      case (Some x)
      have X: "volume_cluster st x" "fat_step c st st1 ((fat c st)(x := FAT32_END_OF_CHAIN))" using allocate_cluster_spec(1) [OF v al Some] by auto
      note D1 = fat_stepD [OF X(2)]
      have x0: "x \<noteq> 0" using X(1) by (auto simp: volume_cluster_def)
      define first' where "first' = (if first = 0 then x else first)"
      have prev: "previous \<noteq> 0 \<longleftrightarrow> ds \<noteq> []" "ds \<noteq> [] \<longrightarrow> previous = last ds" using E C(2) by (auto simp: chain_ends_def split: if_splits)
      have E': "chain_ends (ds @ [x]) first' x" using E C(2) by (auto simp: chain_ends_def first'_def split: if_splits)
      obtain st2 ok2 where l: "(if ds \<noteq> [] then write_fat_value st1 (last ds) x else (st1, True)) = (st2, ok2)" by fastforce
      obtain st3 r3 where w: "write_cluster_sectors st2 x data [0..<spc st2] n = (st3, r3)" by fastforce
      have loop: "write_loop st data first previous n = (if \<not> ok2 then give_up st2 first' else
          case r3 of None \<Rightarrow> give_up st3 first' | Some k \<Rightarrow> write_loop st3 data first' x k)"
      proof -
        have "(if previous \<noteq> 0 then write_fat_value st1 previous x else (st1, True)) = (st2, ok2)" using l prev by auto
        then show ?thesis using True al Some w unfolding write_loop.simps [of st] by (simp add: Let_def first'_def split: option.splits)
      qed
      have fail: "\<not> (\<exists>st' y. give_up s f = Some (st', Some y))" for s f by (auto simp: give_up_def Option.bind_eq_Some_conv)
      have rel2: "ok2 \<and> vol_ok c st2 \<and> same_vol st0 st2" if "reliable_vol st0"
      proof (cases "ds = []")
        case False
        have p: "is_data_cluster (last ds)" "unat (last ds) < 128 * spf st1" using C(1) False by (auto simp: same_vol_simps [OF D1(2)])
        have "write_fat_value st1 (last ds) x = (st2, ok2)" using l False by simp
        note W = write_fat_value_spec [OF D1(1) data_cluster_lt [OF p(1)] p(2) this]
        have "reliable_vol st1" using that D1(5) reliable_same_vol [OF sv] by simp
        then have ok2 using W(2) by simp
        moreover have "same_vol st0 st1" using sv D1(2) by (blast intro: same_vol_trans)
        ultimately show ?thesis using W(1,3) same_vol_trans by (auto simp: fat_put_def)
      qed (use l D1 sv same_vol_trans in auto)
      have rel3: "r3 \<noteq> None" if rel: "reliable_vol st0" and "ok2"
      proof -
        have s2: "vol_ok c st2" "same_vol st0 st2" using rel2 [OF rel] by auto
        then have "volume_cluster st2 x" "reliable_vol st2" using X(1) rel by (simp_all add: same_vol_simps [OF sv] same_vol_simps [OF s2(2)] reliable_same_vol)
        then show ?thesis using write_cluster_sectors_spec [OF s2(1) _ _ w, of n] n(2) by simp
      qed
      show ?thesis
      proof (cases "ok2 \<and> r3 \<noteq> None")
        case False
        then have "\<not> reliable_vol st0" using rel2 rel3 by auto
        moreover have "\<not> (\<exists>st' y. write_loop st data first previous n = Some (st', Some y))"
          using False fail [of st2 first'] fail [of st3 first'] by (auto simp: loop)
        ultimately show ?thesis by blast
      next
        case ok: True
        then obtain k where k: "r3 = Some k" by auto
        have nn: "n = min (cluster_size_bytes st0 * length ds) (length data)" by (rule less.prems(2))
        have "n = min n (length data)" "cluster_size_bytes st0 * length ds \<le> length data" using n by simp_all
        note S = appended_step [OF A nn this(2) al [unfolded Some] l [unfolded eqTrueI [OF conjunct1 [OF ok]]] w [unfolded k]]
        have "0 < cluster_size_bytes st0"
          using vol_geometry [OF v] cluster_bytes_512 [OF v] by (simp add: geometry_ok_def same_vol_simps [OF sv])
        then have "length data - k < length data - n" using S(2) True n by auto
        from less.hyps [OF this S(1) S(2) E'] show ?thesis using loop ok k by simp
      qed
    qed
  qed
qed

end
