(* ===== verification/FatRead.thy ===== *)
theory FatRead
  imports FatWrite
begin

text \<open>
  Reading file data: the bytes of one cluster, runs of consecutive clusters, whole files and ranges.
  Whatever the route (partial sectors, whole sectors, runs, the cluster cache of a descriptor), what
  arrives in the buffer is the part of the concatenated clusters that was asked for.
\<close>

section \<open>Slices\<close>

abbreviation piece :: "nat \<Rightarrow> nat \<Rightarrow> 'a list \<Rightarrow> 'a list" where
  "piece n i xs \<equiv> take n (drop i xs)"

lemma piece_extend:
  assumes "k + m \<le> length b" "i + k + m \<le> length xs"
  shows "splice_at (piece k i xs @ drop k b) k (piece m (i + k) xs) = piece (k + m) i xs @ drop (k + m) b"
proof -
  have k: "length (piece k i xs) = k" using assms by simp
  have "splice_at (piece k i xs @ drop k b) k (piece m (i + k) xs) = piece k i xs @ piece m (i + k) xs @ drop (k + m) b"
    using assms k by (simp add: splice_at_def add.commute)
  also have "\<dots> = piece (k + m) i xs @ drop (k + m) b" by (simp add: take_add add.commute)
  finally show ?thesis .
qed

lemma piece_piece: "r + n \<le> m \<Longrightarrow> piece n r (piece m i xs) = piece n (i + r) xs"
  by (simp add: take_drop min_def add.commute add.left_commute)

lemma next_sector: "i + (512 - i mod 512) = 512 * (i div 512 + 1)" for i :: nat
proof -
  have "i mod 512 < 512" by simp
  then obtain r where r: "i mod 512 + r = 512" by (metis less_imp_add_positive)
  have "i + r = 512 * (i div 512) + (i mod 512 + r)" by (simp add: add.assoc [symmetric])
  then have "i + r = 512 * (i div 512 + 1)" unfolding r by simp
  moreover have "512 - i mod 512 = r" using r by simp
  ultimately show ?thesis by simp
qed

section \<open>The bytes of a cluster\<close>

lemma cluster_data_sector:
  assumes "vol_ok c st" "j < spc st"
  shows "c (ms_world st) (cluster_lba st d + j) = piece 512 (512 * j) (cluster_data c st d)"
proof -
  let ?ss = "map (c (ms_world st)) [cluster_lba st d..<cluster_lba st d + spc st]"
  have "\<And>x. x \<in> set ?ss \<Longrightarrow> length x = 512" using vol_sector_length [OF assms(1)] by auto
  from concat_slice [of ?ss 512 j "[]", OF this] show ?thesis using assms(2) by (simp add: cluster_data_def)
qed

lemma length_cluster_data: "vol_ok c st \<Longrightarrow> length (cluster_data c st d) = 512 * spc st"
  unfolding cluster_data_def by (subst length_concat_const [where n = 512]) (auto simp: vol_sector_length)

lemma cluster_data_sectors:
  assumes "vol_ok c st" "j + m \<le> spc st"
  shows "concat (map (c (ms_world st)) [cluster_lba st d + j..<cluster_lba st d + j + m]) = piece (512 * m) (512 * j) (cluster_data c st d)"
  using assms(2)
proof (induction m)
  case (Suc m)
  have "piece (512 * Suc m) (512 * j) (cluster_data c st d) = piece (512 * m) (512 * j) (cluster_data c st d) @ piece 512 (512 * (j + m)) (cluster_data c st d)"
    using take_add [of "512 * m" 512 "drop (512 * j) (cluster_data c st d)"] by (simp add: algebra_simps)
  then show ?case using Suc cluster_data_sector [OF assms(1), of "j + m" d] by (simp add: add.assoc)
qed simp

text \<open>\<open>part_read\<close>: the first \<open>k\<close> bytes from offset \<open>i\<close> of the cluster have arrived.\<close>

definition part_read :: "u8 list \<Rightarrow> nat \<Rightarrow> nat \<Rightarrow> u8 list \<Rightarrow> u8 list" where
  "part_read xs i k b = piece k i xs @ drop k b"

lemma part_read_0 [simp]: "part_read xs i 0 b = b"
  by (simp add: part_read_def)

lemma part_read_extend:
  "k + m \<le> length b \<Longrightarrow> i + k + m \<le> length xs \<Longrightarrow> splice_at (part_read xs i k b) k (piece m (i + k) xs) = part_read xs i (k + m) b"
  unfolding part_read_def by (rule piece_extend)

lemma read_head_spec:
  assumes v: "vol_ok c st" and d: "volume_cluster st d" and n: "o1 + n \<le> 512 * spc st" "n \<le> length b" "0 < n"
    and r: "read_head st (cluster_first_lba st d + word_of_nat (o1 div 512)) (o1 mod 512) b n = (st', ok, b', k, lba)"
  shows "unchanged c st st'" "reliable_vol st \<Longrightarrow> ok" "ok \<Longrightarrow> b' = part_read (cluster_data c st d) o1 k b \<and> k \<le> n \<and>
      (k < n \<longrightarrow> (o1 + k) mod 512 = 0 \<and> lba = cluster_first_lba st d + word_of_nat ((o1 + k) div 512))"
proof -
  let ?lba = "cluster_first_lba st d + word_of_nat (o1 div 512)" and ?x = "cluster_data c st d"
  have j: "o1 div 512 < spc st" using n by (simp add: div_less_iff_less_mult mult.commute)
  note A = cluster_area [OF v d j]
  have main: "unchanged c st st' \<and> (reliable_vol st \<longrightarrow> ok) \<and> (ok \<longrightarrow> b' = part_read ?x o1 k b \<and> k \<le> n \<and>
      (k < n \<longrightarrow> (o1 + k) mod 512 = 0 \<and> lba = cluster_first_lba st d + word_of_nat ((o1 + k) div 512)))"
  proof (cases "o1 mod 512 = 0")
    case True
    then have "st' = st \<and> ok \<and> b' = b \<and> k = 0 \<and> lba = ?lba" using r by (auto simp: read_head_def)
    then show ?thesis using True unchanged_refl [OF v] by auto
  next
    case False
    obtain st1 res where s: "read_sector st ?lba = (st1, res)" by fastforce
    note R = read_sector_unchanged [OF v s]
    show ?thesis
    proof (cases res)
      case None
      then show ?thesis using r False s R A by (auto simp: read_head_def)
    next
      case (Some sec)
      define m where "m = min (512 - o1 mod 512) n"
      have sec: "sec = piece 512 (512 * (o1 div 512)) ?x" using R(2) Some A(1) cluster_data_sector [OF v j] by simp
      have b512: "unat (mi_bytes_per_sector (ms_info st1)) = 512" using vol_512 [OF unchangedD(1) [OF R(1)]] by simp
      have m: "(if 512 - o1 mod 512 > n then n else 512 - o1 mod 512) = m" by (auto simp: m_def)
      have "read_head st ?lba (o1 mod 512) b n = (st1, True, splice_at b 0 (take m (drop (o1 mod 512) sec)), m, ?lba + 1)"
        using False s Some m unfolding read_head_def Let_def by (auto simp: b512 m_def)
      then have e: "st' = st1" "ok" "b' = splice_at b 0 (piece m (o1 mod 512) sec)" "k = m" "lba = ?lba + 1" using r by auto
      have "o1 mod 512 + m \<le> 512" by (simp add: m_def)
      then have "piece m (o1 mod 512) sec = piece m o1 ?x" unfolding sec by (subst piece_piece) simp_all
      moreover have mb: "m \<le> length b" "o1 + m \<le> length ?x" using n length_cluster_data [OF v, of d] unfolding m_def by linarith+
      ultimately have "b' = part_read ?x o1 m b"
        using e(3) part_read_extend [of 0 m b o1 ?x] mb by simp
      moreover have "(o1 + m) mod 512 = 0 \<and> (o1 + m) div 512 = o1 div 512 + 1" if "m < n"
      proof -
        have "o1 + m = o1 + (512 - o1 mod 512)" using that by (simp add: m_def)
        then have "o1 + m = 512 * (o1 div 512 + 1)" by (simp only: next_sector)
        then show ?thesis by simp
      qed
      ultimately show ?thesis using e R(1) by (auto simp: m_def add.assoc)
    qed
  qed
  then show "unchanged c st st'" "reliable_vol st \<Longrightarrow> ok" "ok \<Longrightarrow> b' = part_read ?x o1 k b \<and> k \<le> n \<and>
      (k < n \<longrightarrow> (o1 + k) mod 512 = 0 \<and> lba = cluster_first_lba st d + word_of_nat ((o1 + k) div 512))" by auto
qed

lemma read_sectors_at_spec:
  assumes v: "vol_ok c st" and r: "read_sectors_at st lba m b k = (st', ok, b')" and room: "k + 512 * unat m \<le> length b"
  shows "unchanged c st st'" "ok \<Longrightarrow> b' = splice_at b k (concat (map (c (ms_world st)) [unat lba..<unat lba + unat m]))"
    "reliable_vol st \<Longrightarrow> m \<noteq> 0 \<Longrightarrow> unat lba + unat m \<le> blocks st \<Longrightarrow> ok"
proof -
  obtain st1 ok1 t where x: "read_sectors st lba m (drop k b) = (st1, ok1, t)" by (metis prod_cases3)
  then have e: "st' = st1" "ok = ok1" "b' = take k b @ t" using r by (auto simp: read_sectors_at_def)
  have room': "512 * unat m \<le> length (drop k b)" using room by simp
  obtain w where W: "st1 = st\<lparr>ms_world := w\<rparr>" "c w = c (ms_world st)"
      "ok1 \<longrightarrow> t = concat (map (c (ms_world st)) [unat lba..<unat lba + unat m]) @ drop (512 * unat m) (drop k b)"
      "\<not> ok1 \<and> unat m \<le> 128 \<longrightarrow> t = drop k b" "reliable_vol st \<and> m \<noteq> 0 \<and> unat lba + unat m \<le> blocks st \<longrightarrow> ok1"
    by (rule read_sectors_spec [OF v x room'])
  show "unchanged c st st'" using e W(1,2) v by (simp add: unchanged_world)
  show "reliable_vol st \<Longrightarrow> m \<noteq> 0 \<Longrightarrow> unat lba + unat m \<le> blocks st \<Longrightarrow> ok" using e W(5) by simp
  have "length (concat (map (c (ms_world st)) [unat lba..<unat lba + unat m])) = 512 * unat m"
    by (subst length_concat_const [where n = 512]) (auto simp: vol_sector_length [OF v])
  then show "ok \<Longrightarrow> b' = splice_at b k (concat (map (c (ms_world st)) [unat lba..<unat lba + unat m]))"
    using e W(3) by (simp add: splice_at_def add.commute)
qed

lemma read_whole_spec:
  assumes v: "vol_ok c st" and d: "volume_cluster st d" and n: "o1 + n \<le> 512 * spc st" "n \<le> length b" "k \<le> n"
    and pos: "k < n \<longrightarrow> (o1 + k) mod 512 = 0 \<and> lba = cluster_first_lba st d + word_of_nat ((o1 + k) div 512)"
    and r: "read_whole st lba (part_read (cluster_data c st d) o1 k b) k n = (st', ok, b', k', lba')"
  shows "unchanged c st st'" "reliable_vol st \<Longrightarrow> ok" "ok \<Longrightarrow> b' = part_read (cluster_data c st d) o1 k' b \<and> k' \<le> n \<and> n - k' < 512 \<and>
      (k' < n \<longrightarrow> (o1 + k') mod 512 = 0 \<and> lba' = cluster_first_lba st d + word_of_nat ((o1 + k') div 512))"
proof -
  let ?x = "cluster_data c st d" and ?w = "(n - k) div 512"
  have b512: "unat (mi_bytes_per_sector (ms_info st)) = 512" using vol_512 [OF v] by simp
  have main: "unchanged c st st' \<and> (reliable_vol st \<longrightarrow> ok) \<and> (ok \<longrightarrow> b' = part_read ?x o1 k' b \<and> k' \<le> n \<and> n - k' < 512 \<and>
      (k' < n \<longrightarrow> (o1 + k') mod 512 = 0 \<and> lba' = cluster_first_lba st d + word_of_nat ((o1 + k') div 512)))"
  proof (cases "?w = 0")
    case True
    then have "n - k < 512" by (simp add: div_eq_0_iff)
    moreover have "(st', ok, b', k', lba') = (st, True, part_read ?x o1 k b, k, lba)" using r True by (auto simp: read_whole_def b512)
    ultimately show ?thesis using pos n(3) unchanged_refl [OF v] by auto
  next
    case False
    then have kn: "k < n" by (cases "k < n") auto
    then have p: "(o1 + k) mod 512 = 0" "lba = cluster_first_lba st d + word_of_nat ((o1 + k) div 512)" using pos by auto
    define j where "j = (o1 + k) div 512"
    have j: "o1 + k = 512 * j" using p(1) by (simp add: j_def) (metis mult_div_mod_eq add.right_neutral)
    have w512: "512 * ?w \<le> n - k" by (simp add: mult.commute div_times_less_eq_dividend)
    have jw: "j + ?w \<le> spc st"
    proof -
      have "512 * (j + m) \<le> 512 * spc st" if "512 * m \<le> n - k" for m
      proof -
        have "512 * m + k \<le> n" using that kn by (simp add: le_diff_conv)
        then have "512 * j + 512 * m \<le> 512 * spc st" using j n(1) by linarith
        then show ?thesis by (simp only: distrib_left)
      qed
      from this [OF w512] show ?thesis by simp
    qed
    have js: "j < spc st" using jw False by linarith
    note A = cluster_area [OF v d js]
    have lba: "unat lba = cluster_lba st d + j" using A(1) p(2) j_def by simp
    have "spc st < 256" using unat_less_exp [of "mi_sectors_per_cluster (ms_info st)"] by simp
    then have w32: "unat (word_of_nat ?w :: u32) = ?w" using jw by (simp add: unat_of_nat)
    obtain st1 ok1 b1 where x: "read_sectors_at st lba (word_of_nat ?w) (part_read ?x o1 k b) k = (st1, ok1, b1)" by (metis prod_cases3)
    have lx: "length ?x = 512 * spc st" by (rule length_cluster_data [OF v])
    have "length (part_read ?x o1 k b) = length b" using n lx kn by (simp add: part_read_def)
    then have room: "k + 512 * unat (word_of_nat ?w :: u32) \<le> length (part_read ?x o1 k b)" using w32 w512 n kn by simp
    note R = read_sectors_at_spec [OF v x room]
    have e: "st' = st1" "ok = ok1" "b' = b1" "k' = k + ?w * 512" "lba' = lba + word_of_nat ?w" using r x False by (auto simp: read_whole_def b512 Let_def)
    have "concat (map (c (ms_world st)) [unat lba..<unat lba + unat (word_of_nat ?w :: u32)]) = piece (512 * ?w) (o1 + k) ?x"
      using cluster_data_sectors [OF v jw] by (simp add: lba w32 j)
    then have b1: "ok \<Longrightarrow> b' = part_read ?x o1 k' b"
      using R(2) e part_read_extend [of k "512 * ?w" b o1 ?x] w512 n kn lx by (simp add: mult.commute)
    have "cluster_lba st d + (spc st - 1) < blocks st" using cluster_area(2) [OF v d, of "spc st - 1"] js by simp
    then have "unat lba + ?w \<le> blocks st" using lba jw js by linarith
    moreover have "(word_of_nat ?w :: u32) \<noteq> 0" using w32 False by (metis unat_0)
    ultimately have rel: "reliable_vol st \<Longrightarrow> ok" using R(3) e w32 by simp
    have k': "o1 + k' = 512 * (j + ?w)" using e(4) j by simp
    then have m0: "(o1 + k') mod 512 = 0" and dv: "(o1 + k') div 512 = j + ?w" by simp_all
    moreover have "n - k' < 512" using e(4) minus_div_mult_eq_mod [of "n - k" 512] by simp
    moreover have "k' \<le> n" using e(4) w512 kn by simp
    moreover have "lba' = cluster_first_lba st d + word_of_nat (j + ?w)" using e(5) p(2) by (simp only: j_def [symmetric] of_nat_add add.assoc)
    ultimately show ?thesis using R(1) e(1) rel b1 m0 unfolding dv by blast
  qed
  then show "unchanged c st st'" "reliable_vol st \<Longrightarrow> ok" "ok \<Longrightarrow> b' = part_read ?x o1 k' b \<and> k' \<le> n \<and> n - k' < 512 \<and>
      (k' < n \<longrightarrow> (o1 + k') mod 512 = 0 \<and> lba' = cluster_first_lba st d + word_of_nat ((o1 + k') div 512))" by auto
qed

lemma read_tail_spec:
  assumes v: "vol_ok c st" and d: "volume_cluster st d" and n: "o1 + n \<le> 512 * spc st" "n \<le> length b" "k \<le> n" "n - k < 512"
    and pos: "k < n \<longrightarrow> (o1 + k) mod 512 = 0 \<and> lba = cluster_first_lba st d + word_of_nat ((o1 + k) div 512)"
    and r: "read_tail st lba (part_read (cluster_data c st d) o1 k b) k n = (st', ok, b')"
  shows "unchanged c st st'" "reliable_vol st \<Longrightarrow> ok" "ok \<Longrightarrow> b' = part_read (cluster_data c st d) o1 n b"
proof -
  let ?x = "cluster_data c st d"
  have main: "unchanged c st st' \<and> (reliable_vol st \<longrightarrow> ok) \<and> (ok \<longrightarrow> b' = part_read ?x o1 n b)"
  proof (cases "k < n")
    case False
    then show ?thesis using r n(3) unchanged_refl [OF v] by (auto simp: read_tail_def)
  next
    case True
    define j where "j = (o1 + k) div 512"
    have p: "lba = cluster_first_lba st d + word_of_nat j" and j: "o1 + k = 512 * j"
      using pos True by (auto simp: j_def)
    have js: "j < spc st"
    proof -
      have "512 * j < 512 * spc st" using j n(1) True by linarith
      then show ?thesis by simp
    qed
    note A = cluster_area [OF v d js]
    obtain st1 res where s: "read_sector st lba = (st1, res)" by fastforce
    note R = read_sector_unchanged [OF v s]
    show ?thesis
    proof (cases res)
      case None
      then show ?thesis using r True s R A p by (auto simp: read_tail_def)
    next
      case (Some sec)
      have "sec = piece 512 (512 * j) ?x" using R(2) Some A(1) p cluster_data_sector [OF v js] by simp
      then have "take (n - k) sec = piece (n - k) (o1 + k) ?x" using n(4) by (simp add: j)
      then have "splice_at (part_read ?x o1 k b) k (take (n - k) sec) = part_read ?x o1 n b"
        using part_read_extend [of k "n - k" b o1 ?x] n True length_cluster_data [OF v] by simp
      then show ?thesis using r True s Some R(1) by (auto simp: read_tail_def)
    qed
  qed
  then show "unchanged c st st'" "reliable_vol st \<Longrightarrow> ok" "ok \<Longrightarrow> b' = part_read ?x o1 n b" by auto
qed

lemma read_cluster_bytes_spec:
  assumes v: "vol_ok c st" and d: "volume_cluster st d" and n: "o1 + n \<le> 512 * spc st" "n \<le> length b" "0 < n"
    and r: "read_cluster_bytes st d o1 b n = (st', ok, b')"
  shows "unchanged c st st' \<and> (reliable_vol st \<longrightarrow> ok) \<and> (ok \<longrightarrow> b' = part_read (cluster_data c st d) o1 n b)"
proof -
  have b512: "unat (mi_bytes_per_sector (ms_info st)) = 512" using vol_512 [OF v] by simp
  obtain st1 ok1 b1 k1 l1 where h: "read_head st (cluster_first_lba st d + word_of_nat (o1 div 512)) (o1 mod 512) b n = (st1, ok1, b1, k1, l1)"
    by (metis prod_cases5)
  note H = read_head_spec [OF v d n h] and DH = unchangedD [OF read_head_spec(1) [OF v d n h]]
  obtain st2 ok2 b2 k2 l2 where w: "read_whole st1 l1 b1 k1 n = (st2, ok2, b2, k2, l2)" by (metis prod_cases5)
  obtain st3 ok3 b3 where t: "read_tail st2 l2 b2 k2 n = (st3, ok3, b3)" by (metis prod_cases3)
  have "read_cluster_bytes st d o1 b n = (if \<not> ok1 then (st1, False, b1) else if \<not> ok2 then (st2, False, b2) else (st3, ok3, b3))"
    using n volume_cluster_bounds(3) [OF v d] h w t
    by (auto simp: read_cluster_bytes_def Let_def b512 cluster_bytes_512 [OF v])
  then have e: "(st', ok, b') = (if \<not> ok1 then (st1, False, b1) else if \<not> ok2 then (st2, False, b2) else (st3, ok3, b3))" using r by simp
  show ?thesis
  proof (cases ok1)
    case False
    then show ?thesis using e H by auto
  next
    case True
    then have H3: "b1 = part_read (cluster_data c st d) o1 k1 b" "k1 \<le> n"
      "k1 < n \<longrightarrow> (o1 + k1) mod 512 = 0 \<and> l1 = cluster_first_lba st d + word_of_nat ((o1 + k1) div 512)" using H(3) by auto
    have V1: "volume_cluster st1 d" "o1 + n \<le> 512 * spc st1"
      "k1 < n \<longrightarrow> (o1 + k1) mod 512 = 0 \<and> l1 = cluster_first_lba st1 d + word_of_nat ((o1 + k1) div 512)"
      using d n H3(3) by (simp_all add: same_vol_simps [OF DH(2)])
    have w': "read_whole st1 l1 (part_read (cluster_data c st1 d) o1 k1 b) k1 n = (st2, ok2, b2, k2, l2)" using w H3(1) DH(4) by simp
    note W = read_whole_spec [OF DH(1) V1(1,2) n(2) H3(2) V1(3) w'] and DW = unchangedD [OF read_whole_spec(1) [OF DH(1) V1(1,2) n(2) H3(2) V1(3) w']]
    show ?thesis
    proof (cases ok2)
      case False
      then show ?thesis using e True W(1,2) H(1) DH(6) unchanged_trans by auto
    next
      case ok2: True
      then have W3: "b2 = part_read (cluster_data c st1 d) o1 k2 b" "k2 \<le> n" "n - k2 < 512"
        "k2 < n \<longrightarrow> (o1 + k2) mod 512 = 0 \<and> l2 = cluster_first_lba st1 d + word_of_nat ((o1 + k2) div 512)" using W(3) by auto
      have V2: "volume_cluster st2 d" "o1 + n \<le> 512 * spc st2"
        "k2 < n \<longrightarrow> (o1 + k2) mod 512 = 0 \<and> l2 = cluster_first_lba st2 d + word_of_nat ((o1 + k2) div 512)"
        using V1 W3(4) by (simp_all add: same_vol_simps [OF DW(2)])
      have t': "read_tail st2 l2 (part_read (cluster_data c st2 d) o1 k2 b) k2 n = (st3, ok3, b3)" using t W3(1) DW(4) by simp
      note T = read_tail_spec [OF DW(1) V2(1,2) n(2) W3(2,3) V2(3) t']
      show ?thesis using e True ok2 T DH(4,6) DW(4,6) unchanged_trans [OF unchanged_trans [OF H(1) W(1)] T(1)] by auto
    qed
  qed
qed

end
