(* ===== verification/FatChain.thy ===== *)
theory FatChain
  imports FatRead
begin

text \<open>
  Reading along a chain: runs of consecutive clusters, whole files and ranges through a descriptor.
\<close>

section \<open>Runs of clusters\<close>

definition volume_chain :: "'w medium \<Rightarrow> 'w mount_state \<Rightarrow> u32 \<Rightarrow> u32 list \<Rightarrow> bool" where
  "volume_chain c st d ds \<longleftrightarrow> file_chain (fat c st) d ds \<and> (\<forall>e \<in> set ds. volume_cluster st e)"

definition chain_data :: "'w medium \<Rightarrow> 'w mount_state \<Rightarrow> u32 list \<Rightarrow> u8 list" where
  "chain_data c st ds = concat (map (cluster_data c st) ds)"

lemma volume_chain_unchanged:
  assumes "unchanged c st st'"
  shows "volume_chain c st' d ds = volume_chain c st d ds" "chain_data c st' ds = chain_data c st ds"
  using unchangedD [OF assms] by (simp_all add: volume_chain_def chain_data_def same_vol_simps)

lemma volume_chain_Cons: "volume_chain c st d (x # ds) \<longleftrightarrow> d = x \<and> is_data_cluster x \<and> volume_cluster st x \<and> volume_chain c st (fat c st x) ds"
  by (auto simp: volume_chain_def)

lemma volume_chain_next:
  assumes "volume_chain c st d ds" "j < length ds"
  shows "volume_chain c st (fat c st (ds ! j)) (drop (Suc j) ds)" "volume_cluster st (ds ! j)"
  using assms
proof (induction ds arbitrary: d j)
  case (Cons x ds)
  { case 1 then show ?case using Cons.IH(1) by (cases j) (auto simp: volume_chain_Cons) }
  { case 2 then show ?case using Cons.IH(2) by (cases j) (auto simp: volume_chain_Cons) }
qed simp_all

lemma volume_chain_data: "volume_chain c st d ds \<Longrightarrow> is_data_cluster d \<longleftrightarrow> ds \<noteq> []"
  by (cases ds) (auto simp: volume_chain_def)

lemma length_chain_data: "vol_ok c st \<Longrightarrow> length (chain_data c st ds) = cluster_size_bytes st * length ds"
  unfolding chain_data_def by (subst length_concat_const [where n = "cluster_size_bytes st"]) (auto simp: length_cluster_data cluster_bytes_512)

lemma chain_data_append [simp]: "chain_data c st (xs @ ys) = chain_data c st xs @ chain_data c st ys"
  by (simp add: chain_data_def)

text \<open>Consecutive clusters are consecutive sectors.\<close>

lemma cluster_lba_plus:
  assumes "2 \<le> unat d" "unat e = unat d + k" shows "cluster_lba st e = cluster_lba st d + k * spc st"
proof -
  have "unat e - 2 = unat d - 2 + k" using assms by simp
  then show ?thesis by (simp add: cluster_lba_def add_mult_distrib)
qed

lemma run_sectors:
  assumes "\<forall>j < k. unat (ds ! j) = unat d + j" "k \<le> length ds" "2 \<le> unat d"
  shows "concat (map (c (ms_world st)) [cluster_lba st d..<cluster_lba st d + k * spc st]) = chain_data c st (take k ds)"
  using assms
proof (induction k)
  case (Suc k)
  have k: "cluster_lba st (ds ! k) = cluster_lba st d + k * spc st"
    using Suc.prems by (intro cluster_lba_plus) auto
  have "[cluster_lba st d..<cluster_lba st d + Suc k * spc st] =
      [cluster_lba st d..<cluster_lba st d + k * spc st] @ [cluster_lba st d + k * spc st..<cluster_lba st d + k * spc st + spc st]"
    using upt_add_eq_append [of "cluster_lba st d" "cluster_lba st d + k * spc st" "spc st"] by (simp add: add.commute add.left_commute)
  then have "concat (map (c (ms_world st)) [cluster_lba st d..<cluster_lba st d + Suc k * spc st]) =
      chain_data c st (take k ds) @ cluster_data c st (ds ! k)"
    using Suc k by (simp add: cluster_data_def)
  then show ?case using Suc.prems(2) by (simp add: chain_data_def take_Suc_conv_app_nth)
qed (simp add: chain_data_def)

lemma collect_loop_spec:
  assumes "vol_ok c st" "volume_chain c st x (x # es)" "cr_last_cluster run = x" "collect_loop st run n = (st', r)"
  shows "unchanged c st st' \<and> (reliable_vol st \<longrightarrow> r \<noteq> None) \<and> (\<forall>run'. r = Some run' \<longrightarrow>
    (\<exists>j. j \<le> n \<and> j \<le> length es \<and> (\<forall>i < j. unat (es ! i) = unat x + 1 + i) \<and> cr_last_cluster run' = (x # es) ! j \<and>
       cr_first_cluster run' = cr_first_cluster run \<and> cr_cluster_count run' = cr_cluster_count run + word_of_nat j \<and>
       cr_next_cluster run' = (if j < n then fat c st ((x # es) ! j) else cr_next_cluster run)))"
  using assms
proof (induction n arbitrary: st run x es)
  case 0
  then show ?case using unchanged_refl [OF 0(1)] by (auto intro!: exI [of _ 0])
next
  case (Suc n)
  have x: "volume_cluster st x" "volume_chain c st (fat c st x) es" using Suc.prems(2) by (auto simp: volume_chain_Cons)
  note B = volume_cluster_bounds [OF Suc.prems(1) x(1)]
  obtain st1 o1 where r1: "read_fat_value st x = (st1, o1)" by fastforce
  note R = read_fat_value_spec [OF Suc.prems(1) B(1) r1]
  note U = unchangedD [OF R(1)]
  show ?case
  proof (cases o1)
    case None
    then show ?thesis using Suc.prems(3,4) r1 R B(2) by auto
  next
    case (Some y)
    then have y: "y = fat c st x" using R(2) by simp
    have x1: "unat (x + 1) = unat x + 1" "is_data_cluster (x + 1)"
    proof -
      have "unat x + 1 < unat FAT32_END_OF_CHAIN" using x(1) vol_geometry [OF Suc.prems(1)] by (simp add: volume_cluster_def geometry_ok_def)
      then show "unat (x + 1) = unat x + 1" using unat_plus32 [of x 1] unat_lt_32 [of FAT32_END_OF_CHAIN] by simp
      then show "is_data_cluster (x + 1)" using x(1) \<open>unat x + 1 < unat FAT32_END_OF_CHAIN\<close>
        by (simp add: is_data_cluster_def word_le_nat_alt word_less_nat_alt volume_cluster_def)
    qed
    show ?thesis
    proof (cases "y = x + 1")
      case False
      then show ?thesis using Suc.prems(3,4) r1 Some R(1) y by (auto intro!: exI [of _ 0])
    next
      case True
      then obtain e es' where es: "es = e # es'" using x(2) y x1(2) volume_chain_data by (cases es) auto
      then have e: "e = x + 1" using x(2) y True by (simp add: volume_chain_Cons)
      define run1 where "run1 = run\<lparr>cr_last_cluster := y, cr_cluster_count := cr_cluster_count run + 1\<rparr>"
      have l: "collect_loop st1 run1 n = (st', r)" using Suc.prems(3,4) r1 Some True by (simp add: run1_def)
      have c1: "volume_chain c st1 e (e # es')" unfolding volume_chain_unchanged [OF R(1)] using x(2) es by (simp add: volume_chain_Cons)
      have "cr_last_cluster run1 = e" using True e by (simp add: run1_def)
      note IH = Suc.IH [OF U(1) c1 this l]
      show ?thesis
      proof (intro conjI allI impI)
        show "unchanged c st st'" using IH unchanged_trans [OF R(1)] by blast
        show "r \<noteq> None" if "reliable_vol st" using IH that U(6) by simp
        fix run' assume "r = Some run'"
        then obtain j where j: "j \<le> n" "j \<le> length es'" "\<forall>i < j. unat (es' ! i) = unat e + 1 + i" "cr_last_cluster run' = (e # es') ! j"
          "cr_first_cluster run' = cr_first_cluster run1" "cr_cluster_count run' = cr_cluster_count run1 + word_of_nat j"
          "cr_next_cluster run' = (if j < n then fat c st1 ((e # es') ! j) else cr_next_cluster run1)" using IH by blast
        have "unat (es ! i) = unat x + 1 + i" if "i < Suc j" for i using that j(3) x1(1) e by (cases i) (auto simp: es)
        then show "\<exists>j. j \<le> Suc n \<and> j \<le> length es \<and> (\<forall>i < j. unat (es ! i) = unat x + 1 + i) \<and> cr_last_cluster run' = (x # es) ! j \<and>
           cr_first_cluster run' = cr_first_cluster run \<and> cr_cluster_count run' = cr_cluster_count run + word_of_nat j \<and>
           cr_next_cluster run' = (if j < Suc n then fat c st ((x # es) ! j) else cr_next_cluster run)"
          using j es U(3) by (intro exI [of _ "Suc j"]) (simp add: run1_def add.assoc)
      qed
    qed
  qed
qed

text \<open>What a run is: its first \<open>k\<close> clusters, read in one transfer, are the first \<open>k\<close> of the chain.\<close>

lemma collect_cluster_run_spec:
  assumes v: "vol_ok c st" and ch: "volume_chain c st d ds" "ds \<noteq> []" and m: "0 < m" and r: "collect_cluster_run st d m = (st', res)"
  shows "unchanged c st st'" "reliable_vol st \<Longrightarrow> res \<noteq> None"
    "res = Some run \<Longrightarrow> \<exists>k. 0 < k \<and> k \<le> m \<and> k \<le> length ds \<and> (\<forall>j < k. unat (ds ! j) = unat d + j) \<and> cr_first_cluster run = d \<and>
       cr_last_cluster run = ds ! (k - 1) \<and> unat (cr_cluster_count run) = k \<and>
       cr_next_cluster run = (if k < m then fat c st (ds ! (k - 1)) else FAT32_END_OF_CHAIN)"
proof -
  obtain es where ds: "ds = d # es" using ch by (cases ds) (auto simp: volume_chain_Cons)
  have vc: "volume_chain c st d (d # es)" using ch ds by simp
  then have vd: "volume_cluster st d" "is_data_cluster d" by (auto simp: volume_chain_Cons)
  let ?run = "\<lparr>cr_first_cluster = d, cr_last_cluster = d, cr_cluster_count = 1, cr_next_cluster = FAT32_END_OF_CHAIN\<rparr>"
  have l: "collect_loop st ?run (m - 1) = (st', res)" using r vd m by (simp add: collect_cluster_run_def)
  have last: "cr_last_cluster ?run = d" by simp
  note C = collect_loop_spec [OF v vc last l]
  show "unchanged c st st'" "reliable_vol st \<Longrightarrow> res \<noteq> None" using C by auto
  assume "res = Some run"
  then obtain j where j: "j \<le> m - 1" "j \<le> length es" "\<forall>i < j. unat (es ! i) = unat d + 1 + i" "cr_last_cluster run = (d # es) ! j"
    "cr_first_cluster run = d" "cr_cluster_count run = 1 + word_of_nat j" "cr_next_cluster run = (if j < m - 1 then fat c st ((d # es) ! j) else FAT32_END_OF_CHAIN)"
    using C by auto
  have cons: "unat (ds ! i) = unat d + i" if "i < Suc j" for i using that j(3) ds by (cases i) auto
  have "unat (ds ! j) < clusters st + 2" using volume_chain_next(2) [OF ch(1), of j] j(2) ds by (simp add: volume_cluster_def)
  then have "unat d + j < clusters st + 2" using cons [of j] by simp
  moreover have "2 \<le> unat d" using vd(1) by (simp add: volume_cluster_def)
  ultimately have "j < clusters st" by linarith
  moreover have "clusters st < 4294967296" by simp
  ultimately have "j < 4294967295" by linarith
  then have "unat (cr_cluster_count run) = Suc j" using j(6) unat_plus32 [of 1 "word_of_nat j"] by (simp add: unat_of_nat)
  then show "\<exists>k. 0 < k \<and> k \<le> m \<and> k \<le> length ds \<and> (\<forall>j < k. unat (ds ! j) = unat d + j) \<and> cr_first_cluster run = d \<and>
       cr_last_cluster run = ds ! (k - 1) \<and> unat (cr_cluster_count run) = k \<and>
       cr_next_cluster run = (if k < m then fat c st (ds ! (k - 1)) else FAT32_END_OF_CHAIN)"
    using j cons m ds by (intro exI [of _ "Suc j"]) auto
qed

lemma read_run_spec:
  assumes v: "vol_ok c st" and ch: "volume_chain c st d ds" and k: "0 < k" "k \<le> length ds" "\<forall>j < k. unat (ds ! j) = unat d + j"
    and cnt: "unat cc = k" and room: "p + cluster_size_bytes st * k \<le> length b"
    and r: "read_sectors_at st (cluster_first_lba st d) (cc * ucast (mi_sectors_per_cluster (ms_info st))) b p = (st', ok, b')"
  shows "unchanged c st st'" "ok \<Longrightarrow> b' = splice_at b p (chain_data c st (take k ds))" "reliable_vol st \<Longrightarrow> ok"
proof -
  have d: "d = ds ! 0" using ch k by (cases ds) (auto simp: volume_chain_Cons)
  have vd: "volume_cluster st d" "volume_cluster st (ds ! (k - 1))" using volume_chain_next(2) [OF ch] d k(1,2) by (metis order.strict_trans2, metis diff_less order.strict_trans2 zero_less_one)
  have s0: "0 < spc st" and g: "data_start st + clusters st * spc st < 2 ^ 32" using vol_geometry [OF v] by (auto simp: geometry_ok_def)
  have lba: "unat (cluster_first_lba st d) = cluster_lba st d" using cluster_area(1) [OF v vd(1) s0] by simp
  have "unat d + (k - 1) < clusters st + 2" using vd(2) k by (simp add: volume_cluster_def)
  then have "k \<le> clusters st" using vd(1) unfolding volume_cluster_def by linarith
  then have "k * spc st \<le> clusters st * spc st" by (rule mult_le_mono1)
  also have "\<dots> < 4294967296" using g by simp
  finally have "k * spc st < 4294967296" .
  then have m: "unat (cc * ucast (mi_sectors_per_cluster (ms_info st))) = k * spc st"
    using g cnt unat_times32 [of cc "ucast (mi_sectors_per_cluster (ms_info st))"] by (simp add: unat_ucast_up)
  have room': "p + 512 * unat (cc * ucast (mi_sectors_per_cluster (ms_info st))) \<le> length b" using room m cluster_bytes_512 [OF v] by (simp add: ac_simps)
  note R = read_sectors_at_spec [OF v r room']
  show "unchanged c st st'" by (rule R(1))
  show "ok \<Longrightarrow> b' = splice_at b p (chain_data c st (take k ds))"
    using R(2) run_sectors [OF k(3,2), where c = c and st = st] vd(1) by (simp add: lba m volume_cluster_def)
  have "cluster_lba st (ds ! (k - 1)) + (spc st - 1) < blocks st" using cluster_area(2) [OF v vd(2), of "spc st - 1"] s0 by simp
  moreover have "cluster_lba st (ds ! (k - 1)) = cluster_lba st d + (k - 1) * spc st"
    using k vd(1) by (intro cluster_lba_plus) (auto simp: volume_cluster_def)
  moreover have "k * spc st = (k - 1) * spc st + spc st" using k(1) by (cases k) auto
  ultimately have "cluster_lba st d + k * spc st \<le> blocks st" using s0 by linarith
  moreover have "cc * ucast (mi_sectors_per_cluster (ms_info st)) \<noteq> 0" using m k(1) s0 by (metis mult_eq_0_iff less_irrefl unat_0)
  ultimately show "reliable_vol st \<Longrightarrow> ok" using R(3) lba m by simp
qed

section \<open>Whole files\<close>

lemma take_concat_prefix:
  assumes "n \<le> length xs" shows "take n (xs @ ys) = take n xs"
  using assms by simp

text \<open>The buffer when \<open>p\<close> bytes had arrived and the rest is read from the clusters \<open>ds\<close>.\<close>

lemma splice_prefix:
  assumes "p + length ys \<le> length b"
  shows "take (p + length ys) (splice_at b p ys) = take p b @ ys" "length (splice_at b p ys) = length b"
  using assms by (simp_all add: splice_at_def)

lemma read_loop_spec:
  assumes "vol_ok c st" "volume_chain c st d ds" "p < n" "n \<le> p + cluster_size_bytes st * length ds" "length b = n"
  shows "\<exists>st' r. read_loop st n d b p = Some (st', r) \<and> unchanged c st st' \<and> (reliable_vol st \<longrightarrow> r \<noteq> None) \<and>
    (\<forall>b'. r = Some b' \<longrightarrow> b' = take p b @ take (n - p) (chain_data c st ds))"
  using assms
proof (induction "length ds" arbitrary: st d ds p b rule: less_induct)
  case less
  note v = less.prems(1) and ch = less.prems(2)
  let ?cb = "cluster_size_bytes st"
  have ne: "ds \<noteq> []" using less.prems(3,4) by auto
  have dc: "is_data_cluster d" using volume_chain_data [OF ch] ne by simp
  have cb0: "0 < ?cb" using cluster_bytes_512 [OF v] vol_geometry [OF v] by (simp add: geometry_ok_def)
  have d: "d = ds ! 0" using ch ne by (cases ds) (auto simp: volume_chain_Cons)
  have vd: "volume_cluster st d" using volume_chain_next(2) [OF ch, of 0] d ne by simp
  show ?case
  proof (cases "n - p \<ge> ?cb")
    case False
    obtain st1 ok b1 where x: "read_cluster_bytes st d 0 (drop p b) (n - p) = (st1, ok, b1)" by (metis prod_cases3)
    have "unchanged c st st1 \<and> (reliable_vol st \<longrightarrow> ok) \<and> (ok \<longrightarrow> b1 = part_read (cluster_data c st d) 0 (n - p) (drop p b))"
      by (rule read_cluster_bytes_spec [OF v vd _ _ _ x]) (use False less.prems cluster_bytes_512 [OF v] in auto)
    moreover have "part_read (cluster_data c st d) 0 (n - p) (drop p b) = take (n - p) (chain_data c st ds)"
      using False length_cluster_data [OF v, of d] cluster_bytes_512 [OF v] less.prems(3,5) d ne
      by (cases ds) (auto simp: part_read_def chain_data_def)
    moreover have "read_loop st n d b p = Some (st1, if ok then Some (take p b @ b1) else None)"
      using dc less.prems(3) False x by (simp add: read_loop.simps [of st] read_cluster_bytes_at_def Let_def)
    ultimately show ?thesis by auto
  next
    case True
    define m where "m = (n - p) div ?cb"
    have m0: "0 < m" using True cb0 by (simp add: m_def div_greater_zero_iff)
    have mn: "m * ?cb \<le> n - p" by (simp add: m_def)
    obtain st1 r1 where cr: "collect_cluster_run st d m = (st1, r1)" by fastforce
    note C = collect_cluster_run_spec [OF v ch ne m0 cr]
    show ?thesis
    proof (cases r1)
      case None
      then have "read_loop st n d b p = Some (st1, None)" using dc less.prems(3) True cr by (simp add: read_loop.simps [of st] m_def)
      then show ?thesis using C None by auto
    next
      case (Some run)
      from C(3) [OF Some] obtain k where k: "0 < k" "k \<le> m" "k \<le> length ds" "\<forall>j < k. unat (ds ! j) = unat d + j" "cr_first_cluster run = d"
        "cr_last_cluster run = ds ! (k - 1)" "unat (cr_cluster_count run) = k"
        "cr_next_cluster run = (if k < m then fat c st (ds ! (k - 1)) else FAT32_END_OF_CHAIN)" by blast
      note D1 = unchangedD [OF C(1)]
      have kb: "p + ?cb * k \<le> n"
      proof -
        have "?cb * k \<le> m * ?cb" using k(2) by (simp add: mult.commute)
        then show ?thesis using mn less.prems(3) by linarith
      qed
      obtain st2 ok2 b2 where x: "read_sectors_at st1 (cluster_first_lba st1 d) (cr_cluster_count run * ucast (mi_sectors_per_cluster (ms_info st1))) b p = (st2, ok2, b2)"
        by (metis prod_cases3)
      have ch1: "volume_chain c st1 d ds" using ch volume_chain_unchanged [OF C(1)] by simp
      have R: "unchanged c st1 st2" "ok2 \<Longrightarrow> b2 = splice_at b p (chain_data c st (take k ds))" "reliable_vol st1 \<Longrightarrow> ok2"
        using read_run_spec [OF D1(1) ch1 k(1,3,4,7) _ x] kb less.prems(5) by (auto simp: same_vol_simps [OF D1(2)] volume_chain_unchanged [OF C(1)])
      note U2 = unchanged_trans [OF C(1) R(1)] and D2 = unchangedD [OF unchanged_trans [OF C(1) R(1)]]
      let ?p = "p + k * ?cb"
      have pn: "?p \<le> n" using kb by (simp add: mult.commute)
      have lk: "length (chain_data c st (take k ds)) = k * ?cb" using length_chain_data [OF v] k(3) by (simp add: mult.commute)
      have b2: "take ?p b2 = take p b @ chain_data c st (take k ds)" "length b2 = n" if ok2
        using splice_prefix [of p "chain_data c st (take k ds)" b] R(2) [OF that] lk pn less.prems(5) by auto
      have split: "chain_data c st ds = chain_data c st (take k ds) @ chain_data c st (drop k ds)"
        using chain_data_append [of c st "take k ds" "drop k ds"] by simp
      define nx where "nx = (if \<not> is_data_cluster (cr_next_cluster run) then read_fat_value st2 (cr_last_cluster run) else (st2, Some (cr_next_cluster run)))"
      have loop: "read_loop st n d b p = (if \<not> ok2 then Some (st2, None) else if ?p \<ge> n then Some (st2, if ?p \<noteq> n then None else Some b2)
          else case nx of (st3, None) \<Rightarrow> Some (st3, None) | (st3, Some y) \<Rightarrow> if \<not> is_data_cluster y then Some (st3, None) else read_loop st3 n y b2 ?p)"
      proof -
        have "p < n" "is_data_cluster d" using less.prems(3) dc by auto
        then show ?thesis
          using True cr Some x k(5,7) unfolding read_loop.simps [of st n d b p]
          by (simp add: Let_def m_def [symmetric] nx_def split: option.splits prod.splits)
      qed
      show ?thesis
      proof (cases "ok2 \<and> ?p < n")
        case False
        show ?thesis
        proof (cases ok2)
          case False
          then have "\<not> reliable_vol st" using R(3) D1(6) by auto
          then show ?thesis using False loop U2 by auto
        next
          case ok: True
          then have e: "?p = n" using False pn by simp
          then have "b2 = take p b @ chain_data c st (take k ds)" using b2 [OF ok] by simp
          moreover have "take (n - p) (chain_data c st ds) = chain_data c st (take k ds)" using split lk e by auto
          ultimately show ?thesis using ok e loop U2 by auto
        qed
      next
        case go: True
        then have kl: "k < length ds"
        proof -
          have "k * ?cb < ?cb * length ds" using go less.prems(4) by linarith
          then show ?thesis by (simp add: mult.commute)
        qed
        have kk: "k - 1 < length ds" "Suc (k - 1) = k" using k(1) kl by auto
        have nxt: "volume_chain c st (fat c st (ds ! (k - 1))) (drop k ds)" "volume_cluster st (ds ! (k - 1))"
          using volume_chain_next [OF ch kk(1)] kk(2) by auto
        have fd: "is_data_cluster (fat c st (ds ! (k - 1)))" using volume_chain_data [OF nxt(1)] kl by simp
        obtain st3 o3 where n3: "nx = (st3, o3)" by fastforce
        have nx: "unchanged c st st3 \<and> (reliable_vol st \<longrightarrow> o3 \<noteq> None) \<and> (\<forall>y. o3 = Some y \<longrightarrow> y = fat c st (ds ! (k - 1)))"
        proof (cases "is_data_cluster (cr_next_cluster run)")
          case True
          then have "st3 = st2" "o3 = Some (fat c st (ds ! (k - 1)))" using n3 k(8) by (auto simp: nx_def split: if_splits)
          then show ?thesis using U2 by auto
        next
          case False
          have r: "read_fat_value st2 (ds ! (k - 1)) = (st3, o3)" using n3 False k(6) by (simp add: nx_def)
          have vk: "volume_cluster st2 (ds ! (k - 1))" using nxt(2) by (simp add: same_vol_simps [OF D2(2)])
          note B = volume_cluster_bounds [OF D2(1) vk]
          note F = read_fat_value_spec [OF D2(1) B(1) r]
          show ?thesis using unchanged_trans [OF U2 F(1)] F(2,3) B(2) D2(3,6) by auto
        qed
        show ?thesis
        proof (cases o3)
          case None
          then show ?thesis using loop go n3 nx by auto
        next
          case (Some y)
          then have y: "y = fat c st (ds ! (k - 1))" and U3: "unchanged c st st3" using nx by auto
          note D3 = unchangedD [OF U3]
          have "\<exists>st' r. read_loop st3 n y b2 ?p = Some (st', r) \<and> unchanged c st3 st' \<and> (reliable_vol st3 \<longrightarrow> r \<noteq> None) \<and>
              (\<forall>b'. r = Some b' \<longrightarrow> b' = take ?p b2 @ take (n - ?p) (chain_data c st3 (drop k ds)))"
          proof (rule less.hyps [OF _ D3(1)])
            show "length (drop k ds) < length ds" using k(1) kl by simp
            show "volume_chain c st3 y (drop k ds)" using nxt(1) y volume_chain_unchanged [OF U3] by simp
            show "?p < n" "length b2 = n" using go b2 by auto
            show "n \<le> ?p + cluster_size_bytes st3 * length (drop k ds)"
              using less.prems(4) kl by (simp add: same_vol_simps [OF D3(2)] diff_mult_distrib2 mult.commute)
          qed
          then obtain st4 r4 where r4: "read_loop st3 n y b2 ?p = Some (st4, r4)" "unchanged c st3 st4" "reliable_vol st3 \<longrightarrow> r4 \<noteq> None"
            "\<forall>b'. r4 = Some b' \<longrightarrow> b' = take ?p b2 @ take (n - ?p) (chain_data c st3 (drop k ds))" by blast
          have "read_loop st n d b p = Some (st4, r4)" using loop go n3 Some fd y r4(1) by simp
          moreover have "take ?p b2 @ take (n - ?p) (chain_data c st3 (drop k ds)) = take p b @ take (n - p) (chain_data c st ds)"
          proof -
            have "length (chain_data c st (take k ds)) \<le> n - p" using lk go by linarith
            then show ?thesis using b2(1) go split lk volume_chain_unchanged [OF U3] by (simp add: diff_diff_eq)
          qed
          ultimately show ?thesis using r4 unchanged_trans [OF U3 r4(2)] D3(6) by auto
        qed
      qed
    qed
  qed
qed

end
