(* ===== verification/FatRange.thy ===== *)
theory FatRange
  imports FatChain
begin

text \<open>
  Reading a range of a file through a descriptor, which remembers the cluster it reached last so
  that sequential reads do not walk the chain from the start.
\<close>

definition descriptor_ok :: "'w medium \<Rightarrow> 'w mount_state \<Rightarrow> file_descriptor \<Rightarrow> u32 list \<Rightarrow> bool" where
  "descriptor_ok c st file ds \<longleftrightarrow> fd_valid file \<and> volume_chain c st (fd_first_cluster file) ds \<and>
     fd_size file \<le> cluster_size_bytes st * length ds \<and>
     (fd_cluster_cache_valid file \<longrightarrow> fd_cluster_cache_index file < length ds \<and> fd_cluster_cache_value file = ds ! fd_cluster_cache_index file)"

lemma descriptor_ok_unchanged:
  assumes "unchanged c st st'" shows "descriptor_ok c st' file ds = descriptor_ok c st file ds"
  by (simp add: descriptor_ok_def volume_chain_unchanged [OF assms] same_vol_simps [OF unchangedD(2) [OF assms]])

lemma descriptor_ok_cached:
  assumes "descriptor_ok c st file ds" "i < length ds"
  shows "descriptor_ok c st (file\<lparr>fd_cluster_cache_valid := True, fd_cluster_cache_index := i, fd_cluster_cache_value := ds ! i\<rparr>) ds"
  using assms by (simp add: descriptor_ok_def)

lemma chain_nth_Suc:
  assumes "volume_chain c st d ds" "Suc j < length ds"
  shows "fat c st (ds ! j) = ds ! Suc j" "is_data_cluster (ds ! Suc j)"
proof -
  have "volume_chain c st (fat c st (ds ! j)) (drop (Suc j) ds)" using volume_chain_next(1) [OF assms(1), of j] assms(2) by simp
  moreover have "drop (Suc j) ds = ds ! Suc j # drop (Suc (Suc j)) ds" using assms(2) by (simp add: Cons_nth_drop_Suc)
  ultimately show "fat c st (ds ! j) = ds ! Suc j" "is_data_cluster (ds ! Suc j)" by (auto simp: volume_chain_Cons)
qed

lemma walk_chain_spec:
  assumes "vol_ok c st" "volume_chain c st d ds" "i + n < length ds" "walk_chain st (ds ! i) n = (st', r)"
  shows "unchanged c st st' \<and> (reliable_vol st \<longrightarrow> r \<noteq> None) \<and> (\<forall>x. r = Some x \<longrightarrow> x = ds ! (i + n))"
  using assms
proof (induction n arbitrary: st i)
  case 0
  then show ?case using unchanged_refl [OF 0(1)] by auto
next
  case (Suc n)
  have i: "i < length ds" "Suc i < length ds" using Suc.prems(3) by auto
  have vi: "volume_cluster st (ds ! i)" using volume_chain_next(2) [OF Suc.prems(2) i(1)] .
  note B = volume_cluster_bounds [OF Suc.prems(1) vi]
  obtain st1 o1 where r: "read_fat_value st (ds ! i) = (st1, o1)" by fastforce
  note R = read_fat_value_spec [OF Suc.prems(1) B(1) r]
  note D = unchangedD [OF R(1)] and N = chain_nth_Suc [OF Suc.prems(2) i(2)]
  show ?case
  proof (cases o1)
    case None
    then show ?thesis using Suc.prems(4) r R B(2) by auto
  next
    case (Some y)
    then have y: "y = ds ! Suc i" using R(2) N(1) by simp
    have w: "walk_chain st1 (ds ! Suc i) n = (st', r)"
      using Suc.prems(4) r Some y N(2) not_data_cluster [of "ds ! Suc i"] by (simp split: if_splits)
    have ch: "volume_chain c st1 d ds" and n: "Suc i + n < length ds" using Suc.prems(2,3) volume_chain_unchanged [OF R(1)] by simp_all
    show ?thesis using Suc.IH [OF D(1) ch n w] unchanged_trans [OF R(1)] D(6) by auto
  qed
qed

lemma cluster_for_file_offset_spec:
  assumes v: "vol_ok c st" and d: "descriptor_ok c st file ds" and i: "i < length ds" and s: "0 < fd_size file"
    and r: "cluster_for_file_offset st file i = (st', file', res)"
  shows "unchanged c st st'" "reliable_vol st \<Longrightarrow> res \<noteq> None" "res = Some x \<Longrightarrow> x = ds ! i"
    "descriptor_ok c st file' ds" "fd_size file' = fd_size file"
proof -
  have ch: "volume_chain c st (fd_first_cluster file) ds" and valid: "fd_valid file" using d by (auto simp: descriptor_ok_def)
  have f0: "fd_first_cluster file = ds ! 0" using ch i by (cases ds) (auto simp: volume_chain_Cons)
  define j where "j = (if fd_cluster_cache_valid file \<and> fd_cluster_cache_index file \<le> i then fd_cluster_cache_index file else 0)"
  have start: "(if fd_cluster_cache_valid file \<and> fd_cluster_cache_index file \<le> i then (fd_cluster_cache_value file, fd_cluster_cache_index file) else (fd_first_cluster file, 0)) = (ds ! j, j)"
    using d f0 by (auto simp: j_def descriptor_ok_def)
  have ji: "j \<le> i" by (simp add: j_def)
  obtain st1 r1 where w: "walk_chain st (ds ! j) (i - j) = (st1, r1)" by fastforce
  have "j + (i - j) < length ds" using ji i by simp
  note W = walk_chain_spec [OF v ch this w]
  have "cluster_for_file_offset st file i = (case r1 of None \<Rightarrow> (st1, file, None) | Some x \<Rightarrow>
      (st1, file\<lparr>fd_cluster_cache_valid := True, fd_cluster_cache_index := i, fd_cluster_cache_value := x\<rparr>, Some x))"
    using valid s w unfolding cluster_for_file_offset_def Let_def start prod.case by (simp split: option.splits)
  then have e: "(st', file', res) = (case r1 of None \<Rightarrow> (st1, file, None) | Some x \<Rightarrow>
      (st1, file\<lparr>fd_cluster_cache_valid := True, fd_cluster_cache_index := i, fd_cluster_cache_value := x\<rparr>, Some x))" using r by simp
  show "unchanged c st st'" "reliable_vol st \<Longrightarrow> res \<noteq> None" "res = Some x \<Longrightarrow> x = ds ! i" "fd_size file' = fd_size file"
    using e W ji by (auto split: option.splits)
  show "descriptor_ok c st file' ds" using e W ji d descriptor_ok_cached [OF d i] by (auto split: option.splits)
qed

section \<open>The loop\<close>

lemma chain_data_piece:
  assumes v: "vol_ok c st" and i: "i < length ds" and n: "r + n \<le> cluster_size_bytes st"
  shows "piece n r (cluster_data c st (ds ! i)) = piece n (cluster_size_bytes st * i + r) (chain_data c st ds)"
proof -
  let ?cb = "cluster_size_bytes st"
  have "\<And>x. x \<in> set (map (cluster_data c st) ds) \<Longrightarrow> length x = ?cb" using length_cluster_data [OF v] cluster_bytes_512 [OF v] by auto
  from concat_slice [of "map (cluster_data c st) ds" ?cb i "[]", OF this]
  have "cluster_data c st (ds ! i) = piece ?cb (?cb * i) (chain_data c st ds)" using i by (simp add: chain_data_def)
  then show ?thesis using piece_piece [OF n] by simp
qed

lemma chain_data_run:
  assumes v: "vol_ok c st" and k: "i + k \<le> length ds"
  shows "chain_data c st (take k (drop i ds)) = piece (cluster_size_bytes st * k) (cluster_size_bytes st * i) (chain_data c st ds)"
proof -
  have "chain_data c st ds = chain_data c st (take i ds) @ chain_data c st (take k (drop i ds)) @ chain_data c st (drop (i + k) ds)"
    by (metis append_take_drop_id chain_data_append drop_drop add.commute)
  moreover have "length (chain_data c st (take i ds)) = cluster_size_bytes st * i" "length (chain_data c st (take k (drop i ds))) = cluster_size_bytes st * k"
    using k by (simp_all add: length_chain_data [OF v])
  ultimately show ?thesis by simp
qed

lemma volume_chain_drop:
  assumes "volume_chain c st d ds" "i < length ds"
  shows "volume_chain c st (ds ! i) (drop i ds)"
proof (cases i)
  case 0
  then show ?thesis using assms by (cases ds) (auto simp: volume_chain_Cons)
next
  case (Suc j)
  then show ?thesis using volume_chain_next(1) [OF assms(1), of j] chain_nth_Suc(1) [OF assms(1), of j] assms(2) by simp
qed

text \<open>
  One round of the loop: it fails, which a reliable device rules out, or goes on with more of the
  range in the buffer.
\<close>

definition range_step :: "'w medium \<Rightarrow> 'w mount_state \<Rightarrow> u32 list \<Rightarrow> nat \<Rightarrow> nat \<Rightarrow> nat \<Rightarrow> u8 list \<Rightarrow> nat \<Rightarrow>
    ('w mount_state \<times> file_descriptor \<times> u8 list \<times> nat \<times> bool) option \<Rightarrow> bool" where
  "range_step c st ds n offset remaining b s res \<longleftrightarrow> (\<exists>st' file' b' s'. unchanged c st st' \<and> descriptor_ok c st file' ds \<and> fd_size file' = n \<and>
     (\<not> reliable_vol st \<and> res = Some (st', file', b', s', False) \<or>
      s < s' \<and> s' \<le> remaining \<and> b' = splice_at b s (piece (s' - s) (offset + s) (chain_data c st ds)) \<and>
      res = range_loop st' file' offset remaining b' s'))"

lemma range_stepI:
  assumes "unchanged c st st'" "descriptor_ok c st file' ds" "fd_size file' = n"
  shows "\<not> reliable_vol st \<Longrightarrow> range_step c st ds n offset remaining b s (Some (st', file', b', s', False))"
    "s < s' \<Longrightarrow> s' \<le> remaining \<Longrightarrow> b' = splice_at b s (piece (s' - s) (offset + s) (chain_data c st ds)) \<Longrightarrow>
      range_step c st ds n offset remaining b s (range_loop st' file' offset remaining b' s')"
  unfolding range_step_def using assms by blast+

lemma range_step_unchanged:
  assumes u: "unchanged c st st1" and r: "range_step c st1 ds n offset remaining b s res"
  shows "range_step c st ds n offset remaining b s res"
  using r unchanged_trans [OF u] unfolding range_step_def
  by (simp only: volume_chain_unchanged [OF u] descriptor_ok_unchanged [OF u] unchangedD(6) [OF u]) blast

lemma range_chunk:
  assumes v: "vol_ok c st" and d: "descriptor_ok c st file ds" "fd_size file = n" and i: "i < length ds" "offset + s = cluster_size_bytes st * i + r"
    and k: "0 < k" "r + k \<le> cluster_size_bytes st" "s + k \<le> remaining" "remaining \<le> length b"
    and x: "read_cluster_bytes_at st (ds ! i) r b s k = (st', ok, b')"
  shows "range_step c st ds n offset remaining b s (if \<not> ok then Some (st', file, b', s, False) else range_loop st' file offset remaining b' (s + k))"
proof -
  obtain st1 ok1 t where y: "read_cluster_bytes st (ds ! i) r (drop s b) k = (st1, ok1, t)" by (metis prod_cases3)
  have e: "st1 = st'" "ok1 = ok" "b' = take s b @ t" using x y by (simp_all add: read_cluster_bytes_at_def)
  have vd: "volume_cluster st (ds ! i)" using d(1) i(1) volume_chain_next(2) by (auto simp: descriptor_ok_def)
  have room: "r + k \<le> 512 * spc st" "k \<le> length (drop s b)" using k cluster_bytes_512 [OF v] by simp_all
  have R: "unchanged c st st'" "reliable_vol st \<longrightarrow> ok" "ok \<longrightarrow> t = part_read (cluster_data c st (ds ! i)) r k (drop s b)"
    using read_cluster_bytes_spec [OF v vd room k(1) y] e by auto
  have "piece k r (cluster_data c st (ds ! i)) = piece (s + k - s) (offset + s) (chain_data c st ds)"
    using chain_data_piece [OF v i(1) k(2)] i(2) by simp
  moreover have "length (piece k r (cluster_data c st (ds ! i))) = k" using room length_cluster_data [OF v] by simp
  ultimately have "ok \<Longrightarrow> b' = splice_at b s (piece (s + k - s) (offset + s) (chain_data c st ds))"
    using e(3) R(3) by (simp add: part_read_def splice_at_def add.commute)
  then have b': "ok \<Longrightarrow> b' = splice_at b s (piece (s + k - s) (offset + s) (chain_data c st ds))" .
  show ?thesis
  proof (cases ok)
    case True
    have "s < s + k" using k(1) by simp
    from range_stepI(2) [OF R(1) d this k(3) b' [OF True]] show ?thesis using True by simp
  next
    case False
    then show ?thesis using range_stepI(1) [OF R(1) d] R(2) by simp
  qed
qed

lemma descriptor_ok_next:
  assumes d: "descriptor_ok c st file ds" and k: "0 < k" "i + k \<le> length ds" "m \<le> length ds - i"
    and l: "lst = ds ! (i + k - 1)" "next1 = (if k < m then fat c st (ds ! (i + k - 1)) else FAT32_END_OF_CHAIN)"
  shows "descriptor_ok c st (if is_data_cluster next1 \<and> go
      then file\<lparr>fd_cluster_cache_valid := True, fd_cluster_cache_index := i + k, fd_cluster_cache_value := next1\<rparr>
      else file\<lparr>fd_cluster_cache_valid := True, fd_cluster_cache_index := i + k - 1, fd_cluster_cache_value := lst\<rparr>) ds"
proof (cases "is_data_cluster next1 \<and> go")
  case True
  then have "k < m" using l(2) by (auto split: if_splits simp: is_data_cluster_def)
  then have "i + k < length ds" using k(3) by simp
  moreover have "next1 = ds ! (i + k)"
    using l(2) \<open>k < m\<close> chain_nth_Suc(1) [of c st "fd_first_cluster file" ds "i + k - 1"] d k(1) calculation by (simp add: descriptor_ok_def)
  ultimately show ?thesis using True descriptor_ok_cached [OF d] by simp
next
  case False
  then show ?thesis using descriptor_ok_cached [OF d, of "i + k - 1"] k(1,2) l(1) by (simp only: if_False)
qed

lemma range_run:
  assumes v: "vol_ok c st" and d: "descriptor_ok c st file ds" "fd_size file = n" and i: "i < length ds" "offset + s = cluster_size_bytes st * i"
    and m: "0 < m" "m \<le> length ds - i" "m * cluster_size_bytes st \<le> remaining - s" "s < remaining" "remaining \<le> length b"
    and x: "collect_cluster_run st (ds ! i) m = (st1, Some run)"
    and y: "read_sectors_at st1 (cluster_first_lba st1 (cr_first_cluster run)) (cr_cluster_count run * ucast (mi_sectors_per_cluster (ms_info st1))) b s = (st2, ok, b')"
    and s': "s' = s + unat (cr_cluster_count run) * cluster_size_bytes st"
  shows "range_step c st ds n offset remaining b s (if \<not> ok then Some (st2, file, b', s, False)
     else range_loop st2 (if is_data_cluster (cr_next_cluster run) \<and> s' < remaining
        then file\<lparr>fd_cluster_cache_valid := True, fd_cluster_cache_index := i + unat (cr_cluster_count run), fd_cluster_cache_value := cr_next_cluster run\<rparr>
        else file\<lparr>fd_cluster_cache_valid := True, fd_cluster_cache_index := i + unat (cr_cluster_count run) - 1, fd_cluster_cache_value := cr_last_cluster run\<rparr>)
        offset remaining b' s')"
proof -
  let ?cb = "cluster_size_bytes st"
  have ch: "volume_chain c st (ds ! i) (drop i ds)" "drop i ds \<noteq> []" using volume_chain_drop d(1) i(1) by (auto simp: descriptor_ok_def)
  note C = collect_cluster_run_spec [OF v ch m(1) x]
  obtain k where k: "0 < k" "k \<le> m" "k \<le> length (drop i ds)" "\<forall>j < k. unat (drop i ds ! j) = unat (ds ! i) + j" "cr_first_cluster run = ds ! i"
    "cr_last_cluster run = drop i ds ! (k - 1)" "unat (cr_cluster_count run) = k"
    "cr_next_cluster run = (if k < m then fat c st (drop i ds ! (k - 1)) else FAT32_END_OF_CHAIN)" using C(3) by blast
  note D1 = unchangedD [OF C(1)]
  have ch1: "volume_chain c st1 (ds ! i) (drop i ds)" using ch(1) volume_chain_unchanged [OF C(1)] by simp
  have "?cb * k \<le> m * ?cb" using k(2) by (simp add: mult.commute)
  then have kb: "s + ?cb * k \<le> remaining" using m(3,4) by linarith
  have room: "s + cluster_size_bytes st1 * k \<le> length b" using kb m(5) same_vol_simps [OF D1(2)] by simp
  have R: "unchanged c st1 st2" "ok \<Longrightarrow> b' = splice_at b s (chain_data c st (take k (drop i ds)))" "reliable_vol st1 \<Longrightarrow> ok"
    using read_run_spec [OF D1(1) ch1 k(1,3,4,7) room y [unfolded k(5)]] by (auto simp: same_vol_simps [OF D1(2)] volume_chain_unchanged [OF C(1)])
  have ik: "i + k \<le> length ds" "0 < i + k" using k(1,3) i(1) by simp_all
  have nth: "drop i ds ! (k - 1) = ds ! (i + k - 1)" using k(1) i(1) by (cases k) simp_all
  have "chain_data c st (take k (drop i ds)) = piece (s' - s) (offset + s) (chain_data c st ds)"
    using chain_data_run [OF v ik(1)] s' k(7) i(2) by (simp add: mult.commute)
  then have b': "b' = splice_at b s (piece (s' - s) (offset + s) (chain_data c st ds))" if ok using R(2) that by simp
  have "0 < ?cb" using cluster_bytes_512 [OF v] vol_geometry [OF v] by (simp add: geometry_ok_def)
  then have ss: "s < s'" "s' \<le> remaining" using s' k(1,7) kb by (simp_all add: mult.commute)
  note U = unchanged_trans [OF C(1) R(1)]
  have file': "descriptor_ok c st (if is_data_cluster (cr_next_cluster run) \<and> s' < remaining
        then file\<lparr>fd_cluster_cache_valid := True, fd_cluster_cache_index := i + k, fd_cluster_cache_value := cr_next_cluster run\<rparr>
        else file\<lparr>fd_cluster_cache_valid := True, fd_cluster_cache_index := i + k - 1, fd_cluster_cache_value := cr_last_cluster run\<rparr>) ds" (is "descriptor_ok c st ?f ds")
    by (rule descriptor_ok_next [OF d(1) k(1) ik(1) m(2)]) (use k(6,8) nth in simp_all)
  have size': "fd_size ?f = n" using d(2) by simp
  show ?thesis
  proof (cases ok)
    case True
    then show ?thesis unfolding k(7) using range_stepI(2) [OF U file' size' ss b'] by simp
  next
    case False
    then have "\<not> reliable_vol st" using R(3) D1(6) by blast
    from range_stepI(1) [OF U d this] show ?thesis using False by simp
  qed
qed

text \<open>Every round is one of the two.\<close>

lemma range_loop_step:
  assumes v: "vol_ok c st" and d: "descriptor_ok c st file ds" "fd_size file = n" "0 < n"
    and s: "s < remaining" "offset + remaining \<le> n" "remaining \<le> length b"
  shows "range_step c st ds n offset remaining b s (range_loop st file offset remaining b s)"
proof -
  let ?cb = "cluster_size_bytes st"
  define i r where "i = (offset + s) div ?cb" and "r = (offset + s) mod ?cb"
  have cb0: "0 < ?cb" using cluster_bytes_512 [OF v] vol_geometry [OF v] by (simp add: geometry_ok_def)
  have ir: "offset + s = ?cb * i + r" "r < ?cb" using cb0 by (simp_all add: i_def r_def)
  have nl: "n \<le> ?cb * length ds" using d by (simp add: descriptor_ok_def)
  then have "?cb * i < ?cb * length ds" using ir s by linarith
  then have i: "i < length ds" by simp
  obtain st1 file1 res where w: "cluster_for_file_offset st file i = (st1, file1, res)" by (metis prod_cases3)
  have s0: "0 < fd_size file" using d by simp
  note W = cluster_for_file_offset_spec [OF v d(1) i s0 w]
  note D1 = unchangedD [OF W(1)] and d1 = W(4) [folded descriptor_ok_unchanged [OF W(1)]]
  have n1: "fd_size file1 = n" using W(5) d(2) by simp
  have cb1: "cluster_size_bytes st1 = ?cb" using same_vol_simps [OF D1(2)] by simp
  show ?thesis
  proof (cases res)
    case None
    then have L: "range_loop st file offset remaining b s = Some (st1, file1, b, s, False)"
      using s(1) w by (simp add: range_loop.simps [of st] Let_def i_def)
    have "\<not> reliable_vol st" using W(2) None by blast
    then show ?thesis unfolding L by (rule range_stepI(1) [OF W(1,4) n1])
  next
    case (Some x)
    then have x: "res = Some (ds ! i)" using W(3) by simp
    show ?thesis
    proof (cases "r = 0 \<and> remaining - s \<ge> ?cb")
      case True
      define m where "m = (remaining - s) div ?cb"
      have m: "0 < m" "m * ?cb \<le> remaining - s" using True cb0 by (simp_all add: m_def div_greater_zero_iff)
      have "?cb * (i + m) \<le> ?cb * length ds" using m(2) ir(1) True nl s by (simp add: distrib_left mult.commute)
      then have ml: "m \<le> length ds - i" using cb0 by simp
      obtain st2 r2 where c2: "collect_cluster_run st1 (ds ! i) m = (st2, r2)" by fastforce
      show ?thesis
      proof (cases r2)
        case None
        have L: "range_loop st file offset remaining b s = Some (st2, file1, b, s, False)"
          using s(1) w x True c2 None by (simp add: range_loop.simps [of st] Let_def i_def [symmetric] r_def [symmetric] m_def [symmetric])
        have ch: "volume_chain c st1 (ds ! i) (drop i ds)" "drop i ds \<noteq> []" using volume_chain_drop d1 i by (auto simp: descriptor_ok_def)
        have C: "unchanged c st1 st2" "reliable_vol st1 \<Longrightarrow> r2 \<noteq> None" using collect_cluster_run_spec(1,2) [OF D1(1) ch m(1) c2] by auto
        have "\<not> reliable_vol st" using C(2) None D1(6) by blast
        then show ?thesis unfolding L by (rule range_stepI(1) [OF unchanged_trans [OF W(1) C(1)] W(4) n1])
      next
        case (Some run)
        obtain st3 ok b' where y: "read_sectors_at st2 (cluster_first_lba st2 (cr_first_cluster run)) (cr_cluster_count run * ucast (mi_sectors_per_cluster (ms_info st2))) b s = (st3, ok, b')"
          by (metis prod_cases3)
        define s' where "s' = s + unat (cr_cluster_count run) * ?cb"
        have i1: "offset + s = cluster_size_bytes st1 * i" and m1: "m * cluster_size_bytes st1 \<le> remaining - s"
          and s1: "s' = s + unat (cr_cluster_count run) * cluster_size_bytes st1" using ir True m cb1 by (simp_all add: s'_def)
        have L: "range_loop st file offset remaining b s = (if \<not> ok then Some (st3, file1, b', s, False)
     else range_loop st3 (if is_data_cluster (cr_next_cluster run) \<and> s' < remaining
        then file1\<lparr>fd_cluster_cache_valid := True, fd_cluster_cache_index := i + unat (cr_cluster_count run), fd_cluster_cache_value := cr_next_cluster run\<rparr>
        else file1\<lparr>fd_cluster_cache_valid := True, fd_cluster_cache_index := i + unat (cr_cluster_count run) - 1, fd_cluster_cache_value := cr_last_cluster run\<rparr>)
        offset remaining b' s')"
          using s(1) w x True c2 Some y unfolding range_loop.simps [of st "file"]
          by (simp add: Let_def i_def [symmetric] r_def [symmetric] m_def [symmetric] s'_def)
        have c3: "collect_cluster_run st1 (ds ! i) m = (st2, Some run)" using c2 Some by simp
        show ?thesis unfolding L
          by (rule range_step_unchanged [OF W(1) range_run [OF D1(1) d1 n1 i i1 m(1) ml m1 s(1,3) c3 y s1]])
      qed
    next
      case False
      define k where "k = (if ?cb - r > remaining - s then remaining - s else ?cb - r)"
      have k: "0 < k" "r + k \<le> ?cb" "s + k \<le> remaining" using ir(2) s(1) by (auto simp: k_def)
      obtain st2 ok b' where y: "read_cluster_bytes_at st1 (ds ! i) r b s k = (st2, ok, b')" by (metis prod_cases3)
      have L: "range_loop st file offset remaining b s = (if \<not> ok then Some (st2, file1, b', s, False) else range_loop st2 file1 offset remaining b' (s + k))"
        using s(1) w x False y unfolding range_loop.simps [of st "file"]
        by (cases "r = 0") (simp_all add: Let_def i_def [symmetric] r_def [symmetric] k_def)
      have "offset + s = cluster_size_bytes st1 * i + r" "r + k \<le> cluster_size_bytes st1" using ir k cb1 by simp_all
      then show ?thesis unfolding L
        by (intro range_step_unchanged [OF W(1) range_chunk [OF D1(1) d1 n1 i _ k(1) _ k(3) s(3) y]]) simp_all
    qed
  qed
qed

lemma range_loop_spec:
  assumes "vol_ok c st" "descriptor_ok c st file ds" "fd_size file = n" "s \<le> remaining" "offset + remaining \<le> n" "remaining \<le> length b"
  shows "\<exists>st' file' b' s' ok. range_loop st file offset remaining (part_read (chain_data c st ds) offset s b) s = Some (st', file', b', s', ok) \<and>
    unchanged c st st' \<and> descriptor_ok c st file' ds \<and> fd_size file' = n \<and> (reliable_vol st \<longrightarrow> ok) \<and>
    (ok \<longrightarrow> s' = remaining \<and> b' = part_read (chain_data c st ds) offset remaining b)"
  using assms
proof (induction "remaining - s" arbitrary: st "file" s rule: less_induct)
  case less
  let ?x = "chain_data c st ds" and ?b = "\<lambda>s. part_read (chain_data c st ds) offset s b"
  note v = less.prems(1) and d = less.prems(2,3)
  have lx: "offset + remaining \<le> length ?x" using length_chain_data [OF v] d less.prems(5) by (simp add: descriptor_ok_def)
  have lb: "length (?b s) = length b" if "s \<le> remaining" for s using that lx less.prems(6) by (simp add: part_read_def)
  show ?case
  proof (cases "s < remaining")
    case False
    then show ?thesis using less.prems(2,3,4) unchanged_refl [OF v] by (auto simp: range_loop.simps [of st])
  next
    case True
    then have n0: "0 < n" and len: "remaining \<le> length (?b s)" using less.prems(5,6) lb [of s] by simp_all
    obtain st1 file1 b1 s1 where S: "unchanged c st st1" "descriptor_ok c st file1 ds" "fd_size file1 = n"
      "\<not> reliable_vol st \<and> range_loop st file offset remaining (?b s) s = Some (st1, file1, b1, s1, False) \<or>
       s < s1 \<and> s1 \<le> remaining \<and> b1 = splice_at (?b s) s (piece (s1 - s) (offset + s) ?x) \<and>
       range_loop st file offset remaining (?b s) s = range_loop st1 file1 offset remaining b1 s1"
      using range_loop_step [OF v d n0 True less.prems(5) len] unfolding range_step_def by blast
    show ?thesis
    proof (cases "s < s1 \<and> s1 \<le> remaining \<and> b1 = splice_at (?b s) s (piece (s1 - s) (offset + s) ?x) \<and>
       range_loop st file offset remaining (?b s) s = range_loop st1 file1 offset remaining b1 s1")
      case False
      then show ?thesis using S by blast
    next
      case go: True
      then have "b1 = part_read ?x offset s1 b" using part_read_extend [of s "s1 - s" b offset ?x] lx less.prems(6) by simp
      then have b1: "b1 = part_read (chain_data c st1 ds) offset s1 b" by (simp add: volume_chain_unchanged [OF S(1)])
      note D1 = unchangedD [OF S(1)]
      have "s < s1" "s1 \<le> remaining" using go by simp_all
      then have "remaining - s1 < remaining - s" by (simp add: diff_less_mono2)
      from less.hyps [OF this D1(1) S(2) [folded descriptor_ok_unchanged [OF S(1)]] S(3) _ less.prems(5,6)] go
      obtain st2 file2 b2 s2 ok where R: "range_loop st1 file1 offset remaining b1 s1 = Some (st2, file2, b2, s2, ok)" "unchanged c st1 st2"
        "descriptor_ok c st file2 ds" "fd_size file2 = n" "reliable_vol st \<longrightarrow> ok" "ok \<longrightarrow> s2 = remaining \<and> b2 = part_read ?x offset remaining b"
        unfolding b1 volume_chain_unchanged [OF S(1)] descriptor_ok_unchanged [OF S(1)] D1(6) by blast
      then show ?thesis using go unchanged_trans [OF S(1) R(2)] by auto
    qed
  qed
qed

lemma read_file_range_spec:
  assumes v: "vol_ok c st" and d: "descriptor_ok c st file ds" and n: "n \<le> length b"
  shows "\<exists>st' file' b' k ok. read_file_range st file offset (Some b) n = Some (st', file', Some b', k, ok) \<and> unchanged c st st' \<and> descriptor_ok c st file' ds \<and>
    fd_size file' = fd_size file \<and> (reliable_vol st \<longrightarrow> ok) \<and>
    (ok \<longrightarrow> k = min n (fd_size file - offset) \<and> b' = piece k offset (take (fd_size file) (chain_data c st ds)) @ drop k b)"
proof -
  let ?x = "chain_data c st ds" and ?m = "min n (fd_size file - offset)"
  have valid: "fd_valid file" using d by (simp add: descriptor_ok_def)
  show ?thesis
  proof (cases "n = 0 \<or> offset \<ge> fd_size file")
    case True
    then have "read_file_range st file offset (Some b) n = Some (st, file, Some b, 0, True)" "?m = 0" using valid by (auto simp: read_file_range_def)
    moreover have "b = piece 0 offset (take (fd_size file) ?x) @ drop 0 b" by simp
    ultimately show ?thesis using d unchanged_refl [OF v] by metis
  next
    case False
    define m where "m = (if fd_size file - offset > n then n else fd_size file - offset)"
    have m: "m = ?m" "offset + m \<le> fd_size file" "m \<le> length b" using False n by (auto simp: m_def)
    obtain st' file' b' s' ok where R: "range_loop st file offset m b 0 = Some (st', file', b', s', ok)" "unchanged c st st'" "descriptor_ok c st file' ds"
      "fd_size file' = fd_size file" "reliable_vol st \<longrightarrow> ok" "ok \<longrightarrow> s' = m \<and> b' = part_read ?x offset m b"
      using range_loop_spec [OF v d refl _ m(2,3), of 0] by auto
    have "read_file_range st file offset (Some b) n = Some (st', file', Some b', s', ok)"
      using False valid R(1) by (simp add: read_file_range_def Let_def m_def)
    moreover have "piece m offset (take (fd_size file) ?x) = piece m offset ?x" using m(2) by (simp add: drop_take min_absorb1)
    ultimately show ?thesis using R m(1) by (auto simp: part_read_def)
  qed
qed

end
