(* ===== verification/FatMount.thy ===== *)
theory FatMount
  imports FatRange
begin

text \<open>
  Mounting establishes the volume invariant. What \<open>probe_volume\<close> does not check is stated of the boot
  sector the device holds, in the arithmetic of natural numbers: \<open>boot_fits\<close>.
\<close>

section \<open>The boot sector\<close>

definition boot_spf :: "u8 list \<Rightarrow> nat" where
  "boot_spf boot = (if le16 boot 22 \<noteq> 0 then unat (le16 boot 22) else unat (le32 boot 36))"

definition boot_total :: "u8 list \<Rightarrow> nat" where
  "boot_total boot = (if le16 boot 19 \<noteq> 0 then unat (le16 boot 19) else unat (le32 boot 32))"

definition boot_data_start :: "u8 list \<Rightarrow> nat" where
  "boot_data_start boot = unat (le16 boot 14) + unat (boot ! 16) * boot_spf boot + (unat (le16 boot 17) * 32 + 511) div 512"

definition boot_clusters :: "u8 list \<Rightarrow> nat" where
  "boot_clusters boot = (boot_total boot - boot_data_start boot) div unat (boot ! 13)"

text \<open>
  The volume lies on the device, the areas before the data do not exceed 32 bits, the table has an
  entry for every cluster and the information sector is one of the reserved sectors.
\<close>

definition boot_fits :: "'w block_device \<Rightarrow> u64 \<Rightarrow> u8 list \<Rightarrow> bool" where
  "boot_fits dev lba boot \<longleftrightarrow> unat lba + boot_total boot \<le> unat (bd_block_count dev) \<and> boot_data_start boot < 2 ^ 32 \<and>
     boot_clusters boot + 2 \<le> boot_spf boot * 128 \<and> boot_clusters boot + 2 < unat FAT32_END_OF_CHAIN \<and>
     unat (le16 boot 48) < unat (le16 boot 14)"

section \<open>Probing\<close>

lemma read_sector_world:
  assumes "read_sector st lba = (st', r)" shows "st' = st\<lparr>ms_world := ms_world st'\<rparr>"
  using assms by (auto simp: read_sector_def read_sectors_def Let_def split: prod.splits)

lemma read_sector_medium:
  assumes "read_sector st lba = (st', r)" and d: "disk_ok c dev" "ms_device st = Some dev"
  shows "c (ms_world st') = c (ms_world st)" "r = Some boot \<Longrightarrow> boot = c (ms_world st) (unat lba)"
proof -
  obtain ops rd wr where D: "bd_ops dev = Some ops" "bo_read_blocks ops = Some rd" "read_law c (unat (bd_block_count dev)) rd"
    using d(1) by (auto simp: disk_ok_def split: option.splits)
  obtain w ok b where x: "rd (ms_world st) lba 1 sector_buffer = (w, ok, b)" by (metis prod_cases3)
  have L: "c w = c (ms_world st) \<and> (ok \<longrightarrow> b = c (ms_world st) (unat lba))" if "unat lba + 1 \<le> unat (bd_block_count dev)"
    using D(3) x that unfolding read_law_def by fastforce
  have "(st', r) = (if unat lba + 1 \<le> unat (bd_block_count dev) then (st\<lparr>ms_world := w\<rparr>, if ok then Some b else None) else (st, None))"
    using assms(1) D x d(2) by (auto simp: read_sector_def read_sectors_def read_blocks_in_range)
  then show "c (ms_world st') = c (ms_world st)" "r = Some boot \<Longrightarrow> boot = c (ms_world st) (unat lba)" using L by (auto split: if_splits)
qed

text \<open>What a successful probe has taken from the boot sector, and what it has checked.\<close>

definition probed :: "'w block_device \<Rightarrow> u64 \<Rightarrow> u8 list \<Rightarrow> 'w mount_state \<Rightarrow> bool" where
  "probed dev lba boot st \<longleftrightarrow> ms_device st = Some dev \<and> ms_mounted st \<and> ms_initialised st \<and> mi_partition_start_lba (ms_info st) = lba \<and>
     mi_bytes_per_sector (ms_info st) = 512 \<and> spc st = unat (boot ! 13) \<and> spc st \<noteq> 0 \<and> fats st = unat (boot ! 16) \<and> fats st \<noteq> 0 \<and>
     reserved st = unat (le16 boot 14) \<and> spf st = boot_spf boot \<and> fsinfo_sector st = unat (le16 boot 48) \<and>
     unat (mi_total_sectors (ms_info st)) = boot_total boot \<and> mi_root_cluster (ms_info st) = le32 boot 44 \<and>
     (boot_data_start boot < 2 ^ 32 \<longrightarrow> data_start st = boot_data_start boot) \<and> data_start st < boot_total boot \<and>
     clusters st = (boot_total boot - data_start st) div spc st \<and>
     \<not> ms_fat_cache_valid st \<and> length (ms_fat_cache st) = 4096"

lemma unat_data_start:
  fixes res spf' :: u32 and n :: u8 and root :: u16
  assumes "unat res + unat n * unat spf' + (unat root * 32 + 511) div 512 < 2 ^ 32"
  shows "unat (res + ucast n * spf' + (ucast root * 32 + 511) div 512) = unat res + unat n * unat spf' + (unat root * 32 + 511) div 512"
proof -
  have "unat root < 65536" using unsigned_less [of root, where ?'a = nat] by simp
  then have "unat (ucast root * 32 + 511 :: u32) = unat root * 32 + 511" by (simp add: unat_plus32 unat_times32 unat_ucast_up)
  then have r: "unat ((ucast root * 32 + 511) div 512 :: u32) = (unat root * 32 + 511) div 512" by (simp add: unat_div)
  have m: "unat (ucast n * spf') = unat n * unat spf'" using assms unat_times32 [of "ucast n" spf'] by (simp add: unat_ucast_up)
  then show ?thesis using assms r by (simp add: unat_plus32)
qed

lemma read_boot_probed:
  assumes "read_boot dev boot st = Some st'" "ms_device st = Some dev" "ms_mounted st" "ms_initialised st" "mi_partition_start_lba (ms_info st) = lba"
    "\<not> ms_fat_cache_valid st" "length (ms_fat_cache st) = 4096"
  shows "probed dev lba boot st'"
proof -
  define spf' :: u32 where "spf' = (if le16 boot 22 \<noteq> 0 then ucast (le16 boot 22) else le32 boot 36)"
  define total :: u32 where "total = (if le16 boot 19 \<noteq> 0 then ucast (le16 boot 19) else le32 boot 32)"
  define start :: u32 where "start = ucast (le16 boot 14) + ucast (boot ! 16) * spf' + (ucast (le16 boot 17) * 32 + 511) div 512"
  have s: "unat spf' = boot_spf boot" "unat total = boot_total boot"
    by (simp_all add: spf'_def total_def boot_spf_def boot_total_def unat_ucast_up)
  have ds: "unat start = boot_data_start boot" if "boot_data_start boot < 2 ^ 32"
    using that unat_data_start [of "ucast (le16 boot 14)" "boot ! 16" spf' "le16 boot 17"] by (simp add: start_def boot_data_start_def s unat_ucast_up)
  have b: "le16 boot 11 = 512" "boot ! 13 \<noteq> 0" "boot ! 16 \<noteq> 0" "start < total" and
    e: "st' = st\<lparr>ms_info := (ms_info st)\<lparr>mi_total_sectors := total, mi_bytes_per_sector := 512,
                    mi_sectors_per_cluster := boot ! 13, mi_fat_count := boot ! 16,
                    mi_reserved_sector_count := le16 boot 14, mi_sectors_per_fat := spf',
                    mi_first_data_sector := start, mi_root_cluster := le32 boot 44,
                    mi_logical_root_cluster := le32 boot 44, mi_fs_info_sector := ucast (le16 boot 48)\<rparr>,
                  ms_volume_root_cluster := le32 boot 44, ms_total_clusters := (total - start) div ucast (boot ! 13),
                  ms_free_cluster_count := FAT32_FSINFO_UNKNOWN, ms_next_free_cluster_hint := FAT32_FSINFO_UNKNOWN\<rparr>"
    using assms(1) unfolding read_boot_def Let_def
    by (simp_all add: start_def total_def spf'_def not_le split: if_split_asm)
  have "unat (total - start) = boot_total boot - unat start" "unat start < boot_total boot"
    using b(4) s(2) by (simp_all add: word_less_nat_alt unat_minus_nw)
  then show ?thesis using assms(2-) b s ds unfolding e probed_def by (simp add: unat_div unat_ucast_up unat_gt_0 [symmetric])
qed

lemma read_fsinfo_probed:
  assumes p: "probed dev lba boot st" and d: "disk_ok c dev"
  shows "probed dev lba boot (read_fsinfo st lba')" "c (ms_world (read_fsinfo st lba')) = c (ms_world st)"
proof -
  obtain st1 r where r: "read_sector st (lba' + ucast (mi_fs_info_sector (ms_info st))) = (st1, r)" by fastforce
  have p1: "probed dev lba boot st1" using p by (subst read_sector_world [OF r]) (simp add: probed_def)
  have "c (ms_world st1) = c (ms_world st)" using read_sector_medium(1) [OF r d] p by (simp add: probed_def)
  then show "c (ms_world (read_fsinfo st lba')) = c (ms_world st)" using r by (auto simp: read_fsinfo_def Let_def split: option.split)
  show "probed dev lba boot (read_fsinfo st lba')" using p p1 r by (auto simp: read_fsinfo_def Let_def probed_def split: option.split)
qed

lemma probe_volume_probed:
  assumes "probe_volume dev lba st = (st', True)" and d: "disk_ok c dev"
  shows "probed dev lba (c (ms_world st) (unat lba)) st' \<and> c (ms_world st') = c (ms_world st)"
proof -
  define w where "w = (case bd_ops dev of None \<Rightarrow> False | Some ops \<Rightarrow> bo_write_blocks ops \<noteq> None)"
  define s0 where "s0 = (reset_state st)\<lparr>ms_device := Some dev, ms_mounted := True,
                  ms_info := (ms_info (reset_state st))\<lparr>mi_mounted := True, mi_writable := w,
                    mi_block_device := snd (ss_assign 32 (bd_name dev)), mi_partition_start_lba := lba\<rparr>\<rparr>"
  obtain s1 r1 where r: "read_sector s0 lba = (s1, r1)" by fastforce
  have s0: "ms_device s0 = Some dev" "ms_world s0 = ms_world st" by (simp_all add: s0_def reset_state_def empty_state_def)
  note M = read_sector_medium [OF r d s0(1)]
  have s1: "ms_device s1 = Some dev" "ms_mounted s1" "ms_initialised s1" "mi_partition_start_lba (ms_info s1) = lba" "\<not> ms_fat_cache_valid s1" "length (ms_fat_cache s1) = 4096"
    by (subst read_sector_world [OF r], simp add: s0_def reset_state_def empty_state_def FAT_CACHE_SECTOR_COUNT_def)+
  have "(case r1 of None \<Rightarrow> (s1, False) | Some boot \<Rightarrow> (case read_boot dev boot s1 of None \<Rightarrow> (s1, False) | Some st \<Rightarrow> (read_fsinfo st lba, True))) = (st', True)"
    using assms(1) r unfolding probe_volume_def Let_def s0_def w_def by simp
  then obtain boot s2 where b: "r1 = Some boot" "read_boot dev boot s1 = Some s2" "st' = read_fsinfo s2 lba" by (auto split: option.splits)
  have "ms_world s2 = ms_world s1" using b(2) unfolding read_boot_def Let_def by (auto split: if_split_asm)
  then show ?thesis using read_fsinfo_probed [OF read_boot_probed [OF b(2) s1] d] M b(1,3) s0(2) by simp
qed

section \<open>The invariant\<close>

lemma probed_geometry:
  assumes p: "probed dev lba boot st" and f: "boot_fits dev lba boot"
  shows "geometry_ok st (unat (bd_block_count dev))" "data_start st = boot_data_start boot" "clusters st = boot_clusters boot"
proof -
  show d: "data_start st = boot_data_start boot" using p f by (simp add: probed_def boot_fits_def)
  show cl: "clusters st = boot_clusters boot" using p d by (simp add: probed_def boot_clusters_def)
  have t: "boot_total boot < 2 ^ 32" "data_start st < boot_total boot" using p unat_lt_32 [of "mi_total_sectors (ms_info st)"] by (simp_all add: probed_def)
  have "clusters st * spc st \<le> boot_total boot - data_start st" using p by (simp add: probed_def)
  then have c: "data_start st + clusters st * spc st \<le> boot_total boot" using t(2) by linarith
  have "reserved st + fats st * spf st \<le> data_start st" using p unfolding d by (simp add: probed_def boot_data_start_def)
  moreover have "part st + data_start st + clusters st * spc st \<le> unat (bd_block_count dev)" using c f p by (simp add: boot_fits_def probed_def)
  moreover have "data_start st + clusters st * spc st < 2 ^ 32" using c t(1) by linarith
  moreover have "clusters st + 2 \<le> spf st * 128" "clusters st + 2 < unat FAT32_END_OF_CHAIN" "fsinfo_sector st < reserved st"
    using p f unfolding cl by (simp_all add: probed_def boot_fits_def)
  ultimately show "geometry_ok st (unat (bd_block_count dev))" using p unfolding geometry_ok_def by (simp add: probed_def)
qed

lemma mount_probed:
  assumes "mount_partition st dev lba = (st', success)" "disk_ok c dev"
  shows "probed dev lba (c (ms_world st) (unat lba)) st'" "c (ms_world st') = c (ms_world st)"
proof -
  have p: "probe_volume dev lba (empty_state (ms_world st)) = (st', True)"
    using assms(1) by (auto simp: mount_partition_def Let_def fat_init_def reset_state_def empty_state_def split: if_splits prod.splits)
  show "probed dev lba (c (ms_world st) (unat lba)) st'" "c (ms_world st') = c (ms_world st)"
    using probe_volume_probed [OF p assms(2)] by (simp_all add: empty_state_def)
qed

lemma mount_vol_ok:
  assumes m: "mount_partition st dev lba = (st', success)" and d: "disk_ok c dev" and f: "boot_fits dev lba (c (ms_world st) (unat lba))"
  shows "vol_ok c st' \<and> is_mounted st' \<and> ms_device st' = Some dev"
proof -
  note p = mount_probed(1) [OF m d]
  then have "cache_ok c st'" "ms_device st' = Some dev" "is_mounted st'" by (auto simp: probed_def cache_ok_def is_mounted_def)
  then show ?thesis using d probed_geometry(1) [OF p f] by (simp add: vol_ok_def)
qed

end
