(* ===== verification/FatSpec.thy ===== *)
theory FatSpec
  imports FatMount
begin

text \<open>
  The properties of the FAT32 driver: file data written comes back, a write that does not fit gives
  everything back, clusters are handed out once, chains are released on every table, and ranges are
  read through descriptors as the file has them.
\<close>

section \<open>Entries\<close>

lemma first_cluster_set [simp]: "first_cluster (set_first_cluster e d n) = d"
proof -
  have "push_bit 16 (ucast (ucast (drop_bit 16 d) :: u16)) OR ucast (ucast (d AND 0xFFFF) :: u16) = (d :: u32)"
  proof (rule bit_word_eqI)
    fix i assume "i < LENGTH(32)"
    have m: "(0xFFFF :: u32) = mask 16" by (simp add: mask_eq_exp_minus_1)
    show "bit (push_bit 16 (ucast (ucast (drop_bit 16 d) :: u16)) OR ucast (ucast (d AND 0xFFFF) :: u16) :: u32) i = bit d i"
      unfolding m using \<open>i < LENGTH(32)\<close> by (cases "i < 16") (auto simp: bit_simps)
  qed
  then show ?thesis by (simp add: first_cluster_def set_first_cluster_def)
qed

lemma finish_entry_facts:
  assumes "n < 2 ^ 32"
  shows "first_cluster (finish_entry e lfn name d n) = d" "unat (fat_file_size (finish_entry e lfn name d n)) = n"
    "\<not> is_directory (finish_entry e lfn name d n)"
proof -
  have f: "first_cluster (finish_entry e lfn name d n) = first_cluster (set_first_cluster e d (word_of_nat n))"
    by (simp add: finish_entry_def Let_def first_cluster_def)
  then show "first_cluster (finish_entry e lfn name d n) = d" by simp
  show "unat (fat_file_size (finish_entry e lfn name d n)) = n"
    using assms by (simp add: finish_entry_def Let_def set_first_cluster_def unat_of_nat)
  have "(a AND NOT (ATTR_DIRECTORY OR ATTR_VOLUME_ID) OR ATTR_ARCHIVE) AND ATTR_DIRECTORY = 0" for a :: u8
    by (simp add: ATTR_DIRECTORY_def ATTR_VOLUME_ID_def ATTR_ARCHIVE_def bit.conj_disj_distrib2 and.assoc)
  then show "\<not> is_directory (finish_entry e lfn name d n)" by (simp add: is_directory_def finish_entry_def Let_def)
qed

section \<open>Written files\<close>

lemma written_file:
  assumes v: "vol_ok c st" and r: "write_file_data st data = Some (st', Some x)" and n: "data \<noteq> []"
  shows "\<exists>ds. appended c st data st' ds \<and> volume_chain c st' x ds \<and> length data \<le> cluster_size_bytes st' * length ds \<and>
    take (length data) (chain_data c st' ds) = data"
proof -
  have w: "write_loop st data 0 0 0 = Some (st', Some x)" using r n by (simp add: write_file_data_def)
  have z: "(0 :: nat) = min (cluster_size_bytes st * length ([] :: u32 list)) (length data)" "chain_ends [] 0 0" by (simp_all add: chain_ends_def)
  obtain ds p where A: "appended c st data st' ds" "length data \<le> cluster_size_bytes st * length ds" "chain_ends ds x p"
    using conjunct1 [OF write_loop_spec [OF appended_start [OF v] z]] w by blast
  then have ne: "ds \<noteq> []" using n by auto
  have s: "same_vol st st'" and d: "\<forall>d \<in> set ds. volume_cluster st d" using A(1) by (auto simp: appended_def)
  have cb: "cluster_size_bytes st' = cluster_size_bytes st" using same_vol_simps [OF s] by simp
  have "x = hd ds" using A(3) ne by (simp add: chain_ends_def)
  then have ch: "volume_chain c st' x ds" using appended_clusters(3) [OF A(1) ne] d by (simp add: volume_chain_def same_vol_simps [OF s])
  have "chain_data c st' ds = padded (cluster_size_bytes st * length ds) data" using A(1) by (simp add: appended_def chain_data_def)
  then have "take (length data) (chain_data c st' ds) = data" using take_padded A(2) by simp
  then show ?thesis using A ch cb by auto
qed

lemma write_file_data_returns:
  assumes v: "vol_ok c st" "reliable_vol st" and n: "data \<noteq> []"
  shows "\<exists>st' r. write_file_data st data = Some (st', r) \<and> (r = None \<longrightarrow> gave_back c st data st')"
proof -
  have z: "(0 :: nat) = min (cluster_size_bytes st * length ([] :: u32 list)) (length data)" "chain_ends [] 0 0" by (simp_all add: chain_ends_def)
  show ?thesis using conjunct2 [OF write_loop_spec [OF appended_start [OF v(1)] z]] v(2) n by (simp add: write_file_data_def)
qed

lemma write_bytes_read:
  assumes "length bs \<le> 2 ^ 64" shows "map (\<lambda>i. write_bytes mem p bs (p + word_of_nat i)) [0..<length bs] = bs"
proof (rule nth_equalityI)
  fix i assume "i < length (map (\<lambda>i. write_bytes mem p bs (p + word_of_nat i)) [0..<length bs])"
  then have i: "i < length bs" by simp
  then have "unat (p + word_of_nat i - p) = i" using assms by (simp add: unat_of_nat)
  then show "map (\<lambda>i. write_bytes mem p bs (p + word_of_nat i)) [0..<length bs] ! i = bs ! i" using i by (simp add: write_bytes_at [OF assms])
qed simp

text \<open>Reading a whole file whose chain is in order.\<close>

lemma read_file_data_spec:
  assumes v: "vol_ok c st" "reliable_vol st" and ch: "volume_chain c st (first_cluster e) ds"
    and n: "n = unat (fat_file_size e)" "0 < n" "n \<le> cluster_size_bytes st * length ds" and km: "km_ok km ns" "\<not> kh_expanding (km_heap km)"
  shows "\<exists>st' km' r. read_file_data st km e = Some (st', km', r) \<and> unchanged c st st' \<and>
    (r = None \<longrightarrow> kh_allocate km (word_of_nat n) = Some (km', 0)) \<and>
    (r \<noteq> None \<longrightarrow> (\<exists>p. r = Some (Owned p, n) \<and> map (\<lambda>i. kh_mem (km_heap km') (p + word_of_nat i)) [0..<n] = take n (chain_data c st ds)))"
proof -
  have "ds \<noteq> []" using n by auto
  then have dc: "is_data_cluster (first_cluster e)" using volume_chain_data [OF ch] by simp
  have n32: "n < 2 ^ 32" using n(1) unat_lt_32 [of "fat_file_size e"] by simp
  then have "unat (word_of_nat n :: u64) = n" by (simp add: unat_of_nat)
  then obtain km1 p where k: "kh_allocate km (word_of_nat n) = Some (km1, p)" using kh_allocate_correct [OF km, of "word_of_nat n"] n32 by auto
  define b where "b = map (\<lambda>i. kh_mem (km_heap km1) (p + word_of_nat i)) [0..<n]"
  have len: "length b = n" by (simp add: b_def)
  have n': "n \<le> 0 + cluster_size_bytes st * length ds" using n(3) by simp
  obtain st1 b1 where L: "read_loop st n (first_cluster e) b 0 = Some (st1, Some b1)" "unchanged c st st1" "b1 = take n (chain_data c st ds)"
    using read_loop_spec [OF v(1) ch n(2) n' len] v(2) by auto
  have "length b1 = n" using L(3) length_chain_data [OF v(1)] n(3) by simp
  then have mem: "map (\<lambda>i. write_bytes (kh_mem (km_heap km1)) p b1 (p + word_of_nat i)) [0..<n] = b1"
    using write_bytes_read [of b1 "kh_mem (km_heap km1)" p] n32 by simp
  have "read_file_data st km e = (if p = 0 then Some (st, km1, None)
      else Some (st1, km1\<lparr>km_heap := (km_heap km1)\<lparr>kh_mem := write_bytes (kh_mem (km_heap km1)) p b1\<rparr>\<rparr>, Some (Owned p, n)))"
    using dc n(1,2) k L(1) not_data_cluster [of "first_cluster e"] by (auto simp: read_file_data_def Let_def b_def)
  then show ?thesis using k L(2,3) mem unchanged_refl [OF v(1)] by auto
qed

section \<open>A small volume\<close>

text \<open>
  A disk in memory: 64 sectors behind a driver that serves every request, with a boot sector, an
  FSInfo sector, two FATs of one sector and twenty clusters of one sector.
\<close>

type_synonym sectors = "nat \<Rightarrow> u8 list"

definition mem_medium :: "sectors medium" where
  "mem_medium w s = padded 512 (w s)"

definition mem_read :: "sectors read_op" where
  "mem_read w lba n b = (w, True, concat (map (mem_medium w) [unat lba..<unat lba + unat n]) @ drop (512 * unat n) b)"

definition mem_write :: "sectors write_op" where
  "mem_write w lba n b = (\<lambda>s. if unat lba \<le> s \<and> s < unat lba + unat n then take 512 (drop (512 * (s - unat lba)) b) else w s, True)"

definition mem_device :: "sectors block_device" where
  "mem_device = \<lparr>bd_name = ''vd0'', bd_block_count = 64, bd_block_size = 512, bd_removable = False, bd_driver_data = 0,
     bd_ops = Some \<lparr>bo_read_blocks = Some mem_read, bo_write_blocks = Some mem_write\<rparr>\<rparr>"

definition blank_sectors :: sectors where
  "blank_sectors s = (if s = 2 \<or> s = 3 then [0xF8, 0xFF, 0xFF, 0x0F, 0xFF, 0xFF, 0xFF, 0x0F, 0xF8, 0xFF, 0xFF, 0x0F] else [])"

definition blank_volume :: "sectors mount_state" where
  "blank_volume = (reset_state (empty_state blank_sectors))\<lparr>ms_device := Some mem_device, ms_mounted := True, ms_total_clusters := 20,
     ms_volume_root_cluster := 2, ms_info := empty_info\<lparr>mi_mounted := True, mi_writable := True, mi_total_sectors := 24, mi_bytes_per_sector := 512,
       mi_sectors_per_cluster := 1, mi_fat_count := 2, mi_reserved_sector_count := 2, mi_sectors_per_fat := 1, mi_first_data_sector := 4,
       mi_root_cluster := 2, mi_logical_root_cluster := 2, mi_fs_info_sector := 1\<rparr>\<rparr>"

lemma mem_laws: "read_law mem_medium bc mem_read" "write_law mem_medium bc mem_write"
proof -
  show "read_law mem_medium bc mem_read" by (auto simp: read_law_def mem_read_def)
  have "padded 512 (take 512 (drop (512 * i) b)) = take 512 (drop (512 * i) b)" if "i < n" "512 * n \<le> length b" for i n and b :: "u8 list"
    using that by (simp add: padded_def)
  then show "write_law mem_medium bc mem_write" by (auto simp: write_law_def mem_write_def mem_medium_def)
qed

lemma mem_reliable: "reliable mem_device" "disk_ok mem_medium mem_device"
  using mem_laws by (simp_all add: reliable_def disk_ok_def mem_device_def mem_read_def mem_write_def mem_medium_def)

lemma blank_volume_ok: "vol_ok mem_medium blank_volume" "reliable_vol blank_volume"
  using mem_reliable by (simp_all add: vol_ok_def reliable_vol_def blank_volume_def geometry_ok_def cache_ok_def mem_device_def
    reset_state_def empty_state_def empty_info_def FAT32_END_OF_CHAIN_def FAT_CACHE_SECTOR_COUNT_def)

lemma blank_volume_fat: "fat mem_medium blank_volume 2 = 0x0FFFFFF8" "fat mem_medium blank_volume 3 = 0" "volume_cluster blank_volume 3" "cluster_size_bytes blank_volume = 512"
  by (simp_all add: fat_def blank_volume_def fat_start_def mem_medium_def blank_sectors_def padded_def le32_def le16_def volume_cluster_def cluster_size_bytes_def
    reset_state_def empty_state_def empty_info_def)

lemma blank_volume_room: "512 \<le> cluster_size_bytes blank_volume * card (free_clusters mem_medium blank_volume)"
proof -
  let ?f = "free_clusters mem_medium blank_volume"
  have "3 \<in> ?f" "finite ?f" using blank_volume_fat by (simp_all add: free_clusters_def)
  then have "0 < card ?f" using card_gt_0_iff by blast
  then show ?thesis using blank_volume_fat(4) by simp
qed

lemma blank_volume_fits:
  assumes "data \<noteq> []" "length data \<le> 512" obtains st' first where "write_file_data blank_volume data = Some (st', Some first)"
  using write_file_data_returns [OF blank_volume_ok assms(1)] blank_volume_room assms(2) by (fastforce simp: gave_back_def)

text \<open>A disk with the boot sector of a volume large enough to be FAT32: 520 sectors per FAT, one per cluster.\<close>

definition boot_bytes :: "u8 list" where
  "boot_bytes = [0xEB, 0x58, 0x90, 0, 0, 0, 0, 0, 0, 0, 0] @ [0, 2] @ [1] @ [2, 0] @ [2] @ [0, 0] @ [0, 0] @ [0xF8] @ [0, 0] @ replicate 8 0 @
     [0xB8, 0x05, 0x01, 0] @ [0x08, 0x02, 0, 0] @ [0, 0, 0, 0] @ [2, 0, 0, 0] @ [1, 0] @ replicate 16 0 @ [0x29] @ replicate 443 0 @ [0x55, 0xAA]"

definition boot_device :: "sectors block_device" where
  "boot_device = mem_device\<lparr>bd_block_count := 70000\<rparr>"

definition boot_state :: "sectors mount_state \<times> status_code" where
  "boot_state = mount_partition (empty_state (\<lambda>s. if s = 0 then boot_bytes else [])) boot_device 0"

lemma boot_values:
  "le16 boot_bytes 11 = 512" "boot_bytes ! 13 = 1" "le16 boot_bytes 14 = 2" "boot_bytes ! 16 = 2" "le16 boot_bytes 17 = 0" "le16 boot_bytes 19 = 0"
  "le16 boot_bytes 22 = 0" "le32 boot_bytes 32 = 67000" "le32 boot_bytes 36 = 520" "le32 boot_bytes 44 = 2" "le16 boot_bytes 48 = 1"
  "boot_bytes ! 66 = 0x29" "boot_bytes ! 510 = 0x55" "boot_bytes ! 511 = 0xAA" "length boot_bytes = 512"
  by (simp_all add: boot_bytes_def le16_def le32_def nth_append nth_Cons')

lemma boot_device_ok: "disk_ok mem_medium boot_device" "reliable boot_device"
  using mem_laws by (simp_all add: reliable_def disk_ok_def boot_device_def mem_device_def mem_read_def mem_write_def mem_medium_def)

lemma boot_read:
  assumes "ms_device st = Some boot_device" "lba < 70000"
  shows "read_sector st lba = (st, Some (mem_medium (ms_world st) (unat lba)))"
proof -
  have "unat lba + unat (1 :: u32) \<le> unat (bd_block_count boot_device)" using assms(2) by (simp add: boot_device_def word_less_nat_alt)
  then show ?thesis
    using assms(1) by (simp add: read_sector_def read_sectors_def read_blocks_in_range boot_device_def mem_device_def mem_read_def)
qed

lemma boot_state_ok: "snd boot_state = success" "data_start (fst boot_state) = 1042" "clusters (fst boot_state) = 65958"
proof -
  have "read_boot boot_device boot_bytes st = Some (st\<lparr>ms_info := (ms_info st)\<lparr>mi_total_sectors := 67000, mi_bytes_per_sector := 512,
          mi_sectors_per_cluster := 1, mi_fat_count := 2, mi_reserved_sector_count := 2, mi_sectors_per_fat := 520, mi_first_data_sector := 1042,
          mi_root_cluster := 2, mi_logical_root_cluster := 2, mi_fs_info_sector := 1\<rparr>, ms_volume_root_cluster := 2, ms_total_clusters := 65958,
        ms_free_cluster_count := FAT32_FSINFO_UNKNOWN, ms_next_free_cluster_hint := FAT32_FSINFO_UNKNOWN\<rparr>)" for st :: "sectors mount_state"
    by (simp add: read_boot_def boot_values Let_def boot_device_def mem_device_def FAT32_MIN_CLUSTER_COUNT_def)
  moreover have "padded 512 boot_bytes = boot_bytes" by (simp add: padded_def boot_values)
  ultimately show "snd boot_state = success" "data_start (fst boot_state) = 1042" "clusters (fst boot_state) = 65958"
    by (simp_all add: boot_state_def mount_partition_def Let_def probe_volume_def boot_read read_fsinfo_def mem_medium_def fat_init_def
        reset_state_def empty_state_def empty_info_def boot_device_def mem_device_def FAT32_END_OF_CHAIN_def)
qed

lemma boot_device_fits: "boot_fits boot_device 0 boot_bytes"
  by (simp add: boot_fits_def boot_total_def boot_data_start_def boot_clusters_def boot_spf_def boot_values boot_device_def FAT32_END_OF_CHAIN_def)

section \<open>Properties\<close>

text \<open>
  C14. A successful \<open>mount_partition\<close> takes the geometry from the boot sector on the device and
  establishes the invariant that the other properties of the driver rely on: behind the reserved
  sectors come the copies of the table, then the root directory area, then the clusters, all on the
  device; every cluster number up to the count the driver computed names sectors of the volume, and
  the cache holds nothing stale. What \<open>probe_volume\<close> leaves unchecked of the boot sector is the
  hypothesis \<open>boot_fits\<close>: the volume lies on the device, the areas before the data have fewer than
  2 to the 32 sectors, the table has an entry for every cluster, cluster numbers stay below the
  end-of-chain marks, and the information sector is one of the reserved sectors.
\<close>

theorem mount_establishes_volume:
  assumes "mount_partition st dev lba = (st', success)" and "disk_ok c dev" and "boot = c (ms_world st) (unat lba)" and "boot_fits dev lba boot"
  shows "vol_ok c st' \<and> is_mounted st' \<and> ms_device st' = Some dev \<and> reliable_vol st' = reliable dev \<and> c (ms_world st') = c (ms_world st) \<and>
    part st' = unat lba \<and> reserved st' = unat (le16 boot 14) \<and> fats st' = unat (boot ! 16) \<and> spf st' = boot_spf boot \<and>
    spc st' = unat (boot ! 13) \<and> data_start st' = boot_data_start boot \<and> clusters st' = boot_clusters boot \<and> mi_root_cluster (ms_info st') = le32 boot 44"
proof -
  note p = mount_probed(1) [OF assms(1,2), folded assms(3)]
  show ?thesis using mount_vol_ok [OF assms(1,2)] mount_probed(2) [OF assms(1,2)] p probed_geometry(2,3) [OF p assms(4)] assms(3,4)
    by (simp add: reliable_vol_def probed_def)
qed

theorem mount_establishes_volume_witness:
  "vol_ok mem_medium (fst boot_state) \<and> is_mounted (fst boot_state) \<and> reliable_vol (fst boot_state) \<and>
   data_start (fst boot_state) = 2 + 2 * 520 \<and> clusters (fst boot_state) = 67000 - 1042"
proof -
  have m: "mount_partition (empty_state (\<lambda>s. if s = 0 then boot_bytes else [])) boot_device 0 = (fst boot_state, success)"
    using boot_state_ok(1) by (simp add: boot_state_def prod_eq_iff)
  have "boot_bytes = mem_medium (ms_world (empty_state (\<lambda>s. if s = 0 then boot_bytes else []))) (unat (0 :: u64))"
    by (simp add: mem_medium_def padded_def boot_values empty_state_def)
  from mount_establishes_volume [OF m boot_device_ok(1) this boot_device_fits] show ?thesis
    using boot_device_ok(2) by (simp add: boot_data_start_def boot_clusters_def boot_spf_def boot_total_def boot_values)
qed

text \<open>
  C12. On a device that serves its requests \<open>write_file_data\<close> returns. When it succeeds, the clusters
  of the new chain were free and are distinct, the chain is long enough for the data, and no other
  table entry and no other cluster changes. When the volume is too full, the table is as before, every
  cluster in use keeps its bytes, and the free clusters really were too few.
\<close>

theorem fat_write_all_or_nothing:
  assumes "vol_ok c st" and "reliable_vol st"
  shows "\<exists>st' r. write_file_data st data = Some (st', r) \<and> vol_ok c st' \<and> (case r of
      Some first \<Rightarrow> \<exists>ds. distinct ds \<and> file_chain (fat c st') first ds \<and> length data \<le> cluster_size_bytes st * length ds \<and>
        (\<forall>d \<in> set ds. volume_cluster st d \<and> fat c st d = 0) \<and> (\<forall>d. d \<notin> set ds \<longrightarrow> fat c st' d = fat c st d) \<and>
        (\<forall>d. volume_cluster st d \<and> d \<notin> set ds \<longrightarrow> cluster_data c st' d = cluster_data c st d)
    | None \<Rightarrow> fat c st' = fat c st \<and> (\<forall>d. volume_cluster st d \<and> fat c st d \<noteq> 0 \<longrightarrow> cluster_data c st' d = cluster_data c st d) \<and>
        cluster_size_bytes st * card (free_clusters c st) < length data)"
proof (cases "data = []")
  case True
  then have "write_file_data st data = Some (st, Some 0)" by (simp add: write_file_data_def)
  moreover have "file_chain (fat c st) 0 []" by (simp add: is_data_cluster_def)
  ultimately show ?thesis using assms(1) True by (auto intro!: exI [of _ "[]"])
next
  case False
  obtain st' r where w: "write_file_data st data = Some (st', r)" "r = None \<longrightarrow> gave_back c st data st'"
    using write_file_data_returns [OF assms False] by blast
  show ?thesis
  proof (cases r)
    case None
    then show ?thesis using w by (simp add: gave_back_def)
  next
    case (Some x)
    obtain ds where A: "appended c st data st' ds" "volume_chain c st' x ds" "length data \<le> cluster_size_bytes st' * length ds"
      using written_file [OF assms(1) _ False] w(1) Some by blast
    then have "same_vol st st'" "fat c st' = link_up (fat c st) ds" by (simp_all add: appended_def)
    then have "cluster_size_bytes st' = cluster_size_bytes st" "\<forall>d. d \<notin> set ds \<longrightarrow> fat c st' d = fat c st d"
      by (simp_all add: same_vol_simps link_up_other)
    then show ?thesis using w(1) Some A by (auto simp: appended_def volume_chain_def intro!: exI [of _ ds])
  qed
qed

theorem fat_write_all_or_nothing_witness:
  "\<exists>st' first ds. write_file_data blank_volume (replicate 100 7) = Some (st', Some first) \<and> file_chain (fat mem_medium st') first ds \<and>
     fat mem_medium blank_volume (hd ds) = 0 \<and> distinct ds"
proof -
  have d: "replicate 100 (7 :: u8) \<noteq> []" "length (replicate 100 (7 :: u8)) \<le> 512" by simp_all
  obtain st' first where w: "write_file_data blank_volume (replicate 100 7) = Some (st', Some first)" by (rule blank_volume_fits [OF d])
  then obtain ds where ds: "distinct ds" "file_chain (fat mem_medium st') first ds" "100 \<le> cluster_size_bytes blank_volume * length ds"
    "\<forall>d \<in> set ds. volume_cluster blank_volume d \<and> fat mem_medium blank_volume d = 0"
    using fat_write_all_or_nothing [OF blank_volume_ok, of "replicate 100 7"] by auto
  then have "hd ds \<in> set ds" by (cases ds) auto
  then show ?thesis using w ds by blast
qed

text \<open>
  C13. What was written comes back: after a successful \<open>write_file_data\<close>, \<open>read_file_data\<close> of the entry
  that \<open>write_file\<close> stores returns, leaves the volume alone, fails only when the heap has no block for
  the file, and otherwise gives a heap block that holds exactly the bytes written.
\<close>

theorem fat_write_read_back:
  assumes "vol_ok c st" and "reliable_vol st" and "data \<noteq> []" and "length data < 2 ^ 32"
    and "write_file_data st data = Some (st', Some first)" and "km_ok km ns" and "\<not> kh_expanding (km_heap km)"
  shows "\<exists>st'' km' r. read_file_data st' km (finish_entry e lfn name first (length data)) = Some (st'', km', r) \<and> unchanged c st' st'' \<and>
    (case r of None \<Rightarrow> kh_allocate km (word_of_nat (length data)) = Some (km', 0)
     | Some (d, n) \<Rightarrow> \<exists>p. d = Owned p \<and> n = length data \<and> map (\<lambda>i. kh_mem (km_heap km') (p + word_of_nat i)) [0..<n] = data)"
proof -
  let ?e = "finish_entry e lfn name first (length data)"
  obtain ds where A: "appended c st data st' ds" "volume_chain c st' first ds" "length data \<le> cluster_size_bytes st' * length ds"
    "take (length data) (chain_data c st' ds) = data" using written_file [OF assms(1,5,3)] by blast
  then have v: "vol_ok c st'" "reliable_vol st'" using assms(2) by (auto simp: appended_def reliable_same_vol)
  have ch: "volume_chain c st' (first_cluster ?e) ds" and n: "length data = unat (fat_file_size ?e)" "0 < length data"
    using A(2) finish_entry_facts [OF assms(4)] assms(3) by simp_all
  show ?thesis
    using read_file_data_spec [OF v ch n A(3) assms(6,7)] unfolding A(4) by (fastforce split: option.splits)
qed

theorem fat_write_read_back_witness:
  "\<exists>st' first st'' km' p. write_file_data blank_volume (replicate 100 7) = Some (st', Some first) \<and>
     read_file_data st' example_heap (finish_entry zero_entry [] ''A'' first 100) = Some (st'', km', Some (Owned p, 100)) \<and>
     map (\<lambda>i. kh_mem (km_heap km') (p + word_of_nat i)) [0..<100] = replicate 100 7"
proof -
  let ?d = "replicate 100 7 :: u8 list"
  have d: "?d \<noteq> []" "length ?d \<le> 512" "length ?d < 2 ^ 32" by simp_all
  obtain st' first where w: "write_file_data blank_volume ?d = Some (st', Some first)" by (rule blank_volume_fits [OF d(1,2)])
  have "\<exists>st'' km' r. read_file_data st' example_heap (finish_entry zero_entry [] ''A'' first 100) = Some (st'', km', r) \<and>
      (case r of None \<Rightarrow> kh_allocate example_heap 100 = Some (km', 0)
       | Some (d, n) \<Rightarrow> \<exists>p. d = Owned p \<and> n = 100 \<and> map (\<lambda>i. kh_mem (km_heap km') (p + word_of_nat i)) [0..<n] = ?d)"
    using fat_write_read_back [OF blank_volume_ok d(1,3) w example_heap_facts(2) example_heap_idle, of zero_entry "[]" "''A''", unfolded length_replicate of_nat_numeral] by blast
  then show ?thesis using w example_heap_alloc by (auto split: option.splits)
qed

text \<open>
  \<open>read_file_range\<close> through a descriptor of a file with an intact chain returns, leaves the
  volume alone and, on a device that serves its requests, succeeds: it copies exactly the bytes of the
  file from the offset on, as many as were asked for or as the file has, and touches no other byte of
  the buffer. The descriptor it leaves is good for the next read.
\<close>

lemma fat_read_range_correct:
  assumes "vol_ok c st" and "descriptor_ok c st file ds" and "n \<le> length b"
  shows "\<exists>st' file' b' k ok. read_file_range st file offset (Some b) n = Some (st', file', Some b', k, ok) \<and> unchanged c st st' \<and>
    descriptor_ok c st' file' ds \<and> fd_size file' = fd_size file \<and> (reliable_vol st \<longrightarrow> ok) \<and>
    (ok \<longrightarrow> k = min n (fd_size file - offset) \<and> b' = take k (drop offset (take (fd_size file) (chain_data c st ds))) @ drop k b)"
  using read_file_range_spec [OF assms, of offset] descriptor_ok_unchanged by blast

lemma build_file_descriptor_ok:
  assumes "build_file_descriptor e = Some file" "volume_chain c st (first_cluster e) ds" "unat (fat_file_size e) \<le> cluster_size_bytes st * length ds"
  shows "descriptor_ok c st file ds"
  using assms by (auto simp: build_file_descriptor_def descriptor_ok_def empty_descriptor_def Let_def split: if_splits)

definition root_descriptor :: file_descriptor where
  "root_descriptor = empty_descriptor\<lparr>fd_valid := True, fd_first_cluster := 2, fd_size := 300\<rparr>"

lemma root_descriptor_ok: "descriptor_ok mem_medium blank_volume root_descriptor [2]"
proof -
  have "volume_cluster blank_volume 2" by (simp add: volume_cluster_def blank_volume_def reset_state_def empty_state_def)
  then have "volume_chain mem_medium blank_volume 2 [2]" by (simp add: volume_chain_def blank_volume_fat is_data_cluster_def FAT32_END_OF_CHAIN_def)
  then show ?thesis by (simp add: descriptor_ok_def root_descriptor_def empty_descriptor_def blank_volume_fat)
qed

text \<open>
  \<open>allocate_cluster\<close> hands out a cluster that was free, marks it as the end of a chain and
  changes no other table entry and no cluster's bytes. On a device that serves its requests it fails
  only when no cluster of the volume is free, wherever the search hint points.
\<close>

lemma allocate_cluster_correct:
  assumes "vol_ok c st" and "allocate_cluster st = (st', r)"
  shows "case r of Some d \<Rightarrow> volume_cluster st d \<and> fat c st d = 0 \<and> vol_ok c st' \<and> fat c st' = (fat c st)(d := FAT32_END_OF_CHAIN) \<and>
        cluster_data c st' = cluster_data c st
    | None \<Rightarrow> reliable_vol st \<longrightarrow> unchanged c st st' \<and> free_clusters c st = {}"
  using allocate_cluster_spec [OF assms] fat_stepD by (auto simp: free_clusters_def split: option.splits)

text \<open>
  C18. \<open>free_cluster_chain\<close> returns for every first cluster on every table, a table with a cyclic
  chain included. For a chain that ends it frees exactly the clusters of the chain: their entries
  become free, all others and all bytes of the clusters stay as they were.
\<close>

theorem free_cluster_chain_correct:
  assumes "vol_ok c st"
  shows "\<exists>st' ok. free_cluster_chain st d = Some (st', ok) \<and>
    (\<forall>ds. volume_chain c st d ds \<longrightarrow> (reliable_vol st \<longrightarrow> ok) \<and>
       (ok \<longrightarrow> vol_ok c st' \<and> fat c st' = (\<lambda>e. if e \<in> set ds then 0 else fat c st e) \<and> cluster_data c st' = cluster_data c st))"
proof -
  obtain st' ok where f: "free_cluster_chain st d = Some (st', ok)" using free_cluster_chain_spec(1) [OF assms] by blast
  have "(reliable_vol st \<longrightarrow> ok) \<and> (ok \<longrightarrow> fat_step c st st' (\<lambda>e. if e \<in> set ds then 0 else fat c st e))" if "volume_chain c st d ds" for ds
    using free_cluster_chain_spec(2) [OF assms _ _ f, of ds] that volume_cluster_bounds [OF assms] by (auto simp: volume_chain_def)
  then show ?thesis using f fat_stepD by blast
qed

theorem free_cluster_chain_correct_witness:
  "\<exists>st'. free_cluster_chain blank_volume 2 = Some (st', True) \<and> fat mem_medium st' 2 = 0"
proof -
  have "volume_chain mem_medium blank_volume 2 [2]" using root_descriptor_ok by (simp add: descriptor_ok_def root_descriptor_def)
  then show ?thesis using free_cluster_chain_correct [OF blank_volume_ok(1), of 2] blank_volume_ok(2) by auto
qed

end
