(* ===== verification/FsSpec.thy ===== *)
theory FsSpec
  imports FsRef FatSpec
begin

text \<open>
  The properties of the file-system layer: buffered streams refine an abstract file, direct streams
  read the file below, handles are private to their task, and a task that ends leaves no stream.
\<close>

section \<open>Closing\<close>

lemma zero_stream_facts [simp]:
  "ks_owned_buffer zero_stream = 0" "\<not> ks_in_use zero_stream" "stream_ok km zero_stream"
  by (simp_all add: zero_stream_def stream_ok_def)

lemma reset_stream_spec:
  assumes ok: "fs_ok s" and i: "i < MAX_STREAMS" and r: "reset_stream (fs_km s) (s_streams s ! i) = (km', ks')"
    and s': "fs_km s' = km'" "s_streams s' = (s_streams s)[i := ks']"
  shows "fs_ok s'" "others_kept s i s'" "s_streams s' ! i = zero_stream"
proof -
  let ?ks = "s_streams s ! i"
  note F = fs_okD [OF ok]
  have e: "km' = (if ks_owned_buffer ?ks \<noteq> 0 then kh_free (fs_km s) (ks_owned_buffer ?ks) else fs_km s)" "ks' = zero_stream"
    using r by (simp_all add: reset_stream_def)
  have fr: "heap_frame (fs_km s) km' {ks_owned_buffer ?ks}"
    using e(1) heap_frame_free [OF F(1) stream_owned_live [OF F(3) [OF i]]] heap_frame_refl [OF F(1)] by auto
  show "s_streams s' ! i = zero_stream" using s'(2) e(2) i F(2) by simp
  have own: "ks_owned_buffer (s_streams s ! j) \<notin> {ks_owned_buffer ?ks} \<or> ks_owned_buffer (s_streams s ! j) = 0" if "j < MAX_STREAMS" "j \<noteq> i" for j
    using F(4) [OF that(1) i that(2)] by fastforce
  have other: "stream_ok km' (s_streams s ! j)" if "j < MAX_STREAMS" "j \<noteq> i" for j
    using stream_frame(1) [OF fr F(1) F(3) [OF that(1)] own [OF that]] .
  show "others_kept s i s'" using fr stream_frame(2) [OF fr F(1) F(3) own] by (auto simp: others_kept_def s')
  show "fs_ok s'"
    unfolding fs_ok_def s' e(2)
  proof (intro conjI allI impI)
    show "km_inv km'" by (rule heap_frame_inv [OF fr])
    show "length ((s_streams s)[i := zero_stream]) = MAX_STREAMS" using F(2) by simp
    fix j assume j: "j < MAX_STREAMS"
    show "stream_ok km' ((s_streams s)[i := zero_stream] ! j)" using other [OF j] j F(2) by (cases "j = i") auto
    fix l assume l: "l < MAX_STREAMS" "j \<noteq> l" "ks_owned_buffer ((s_streams s)[i := zero_stream] ! j) \<noteq> 0"
    then have "j \<noteq> i" using i F(2) by auto
    then show "ks_owned_buffer ((s_streams s)[i := zero_stream] ! j) \<noteq> ks_owned_buffer ((s_streams s)[i := zero_stream] ! l)"
      using F(4) [OF j l(1,2)] l i F(2) by (cases "l = i") auto
  qed
qed

lemma fs_ok_same: "fs_km s' = fs_km s \<Longrightarrow> s_streams s' = s_streams s \<Longrightarrow> fs_ok s' = fs_ok s"
  by (simp add: fs_ok_def)

lemma others_kept_same: "fs_km s1 = fs_km s \<Longrightarrow> s_streams s1 = s_streams s \<Longrightarrow> others_kept s1 i s' = others_kept s i s'"
  by (simp add: others_kept_def)

lemma close_stream_spec:
  assumes ok: "fs_ok s" and i: "i < MAX_STREAMS" and r: "close_stream s i = Some (s', rc)"
  shows "fs_ok s'" "others_kept s i s'"
    "if rc = 0 then s_streams s' ! i = zero_stream else s_streams s' ! i = (s_streams s ! i)\<lparr>ks_error := True\<rparr> \<and> fs_km s' = fs_km s"
proof -
  let ?ks = "s_streams s ! i"
  define data where "data = (if ks_size ?ks > 0 \<and> stream_data ?ks \<noteq> 0 then Some (heap_bytes (fs_km s) (stream_data ?ks) (unat (ks_size ?ks))) else None)"
  define w where "w = (if ks_driver ?ks \<noteq> None \<and> ks_dirty ?ks
      then with_vol s (write_file (fs_vol s) (ks_path ?ks) data (unat (ks_size ?ks))) else Some (s, True))"
  obtain s1 fl where w1: "w = Some (s1, fl)" and c: "Some (s', rc) = (if \<not> fl then Some (set_stream s1 i (?ks\<lparr>ks_error := True\<rparr>), - 1)
        else let (km, stream) = reset_stream (fs_km s1) ?ks in Some (set_stream (set_km s1 km) i stream, 0))"
    using r unfolding close_stream_def Let_def data_def [symmetric] w_def [symmetric] by (cases w) auto
  have f: "fs_km s1 = fs_km s" "s_streams s1 = s_streams s" using w1 by (auto simp: w_def with_vol_def split: if_splits)
  have ok1: "fs_ok s1" using ok fs_ok_same [OF f] by simp
  have len: "i < length (s_streams s)" using i fs_okD(2) [OF ok] by simp
  have "fs_ok s' \<and> others_kept s1 i s' \<and> (if rc = 0 then s_streams s' ! i = zero_stream else s_streams s' ! i = ?ks\<lparr>ks_error := True\<rparr> \<and> fs_km s' = fs_km s1)"
  proof (cases fl)
    case True
    obtain km ks where k: "reset_stream (fs_km s1) ?ks = (km, ks)" by fastforce
    then have "s' = set_stream (set_km s1 km) i ks" "rc = 0" using c True by auto
    then show ?thesis using reset_stream_spec [OF ok1 i, unfolded f(2), OF k, of s'] f(2) by simp
  next
    case False
    then have "s' = set_stream s1 i (?ks\<lparr>ks_error := True\<rparr>)" "rc = - 1" using c by auto
    then show ?thesis using flags_only [OF ok1 i, of "?ks\<lparr>ks_error := True\<rparr>"] fs_okD(3) [OF ok1 i] f len by simp
  qed
  then show "fs_ok s'" "others_kept s i s'"
    "if rc = 0 then s_streams s' ! i = zero_stream else s_streams s' ! i = (s_streams s ! i)\<lparr>ks_error := True\<rparr> \<and> fs_km s' = fs_km s"
    using others_kept_same [OF f] f(1) by auto
qed

section \<open>Direct streams\<close>

definition direct_ok :: "'w medium \<Rightarrow> 'w mount_state \<Rightarrow> kernel_stream \<Rightarrow> u32 list \<Rightarrow> bool" where
  "direct_ok c vol ks ds \<longleftrightarrow> descriptor_ok c vol (ks_backend_file ks) ds \<and> ks_size ks = word_of_nat (fd_size (ks_backend_file ks)) \<and>
     fd_size (ks_backend_file ks) < 2 ^ 32 \<and> ks_direct_backend ks \<and> ks_driver ks = Some Fat32"

definition file_content :: "'w medium \<Rightarrow> 'w mount_state \<Rightarrow> kernel_stream \<Rightarrow> u32 list \<Rightarrow> u8 list" where
  "file_content c vol ks ds = take (fd_size (ks_backend_file ks)) (chain_data c vol ds)"

section \<open>Ending a task\<close>

definition stream_kept :: "'w fs_state \<Rightarrow> 'w fs_state \<Rightarrow> nat \<Rightarrow> bool" where
  "stream_kept s s' j \<longleftrightarrow> s_streams s' ! j = s_streams s ! j \<and>
     (\<not> ks_direct_backend (s_streams s ! j) \<longrightarrow> stream_bytes (fs_km s') (s_streams s ! j) = stream_bytes (fs_km s) (s_streams s ! j))"

lemma stream_kept_trans: "stream_kept a b j \<Longrightarrow> stream_kept b c j \<Longrightarrow> stream_kept a c j"
  by (simp add: stream_kept_def)

lemma others_kept_stream: "others_kept s i s' \<Longrightarrow> j < MAX_STREAMS \<Longrightarrow> j \<noteq> i \<Longrightarrow> stream_kept s s' j"
  by (simp add: others_kept_def stream_kept_def)

abbreviation task_stream :: "'w fs_state \<Rightarrow> u64 \<Rightarrow> nat \<Rightarrow> bool" where
  "task_stream s task i \<equiv> ks_in_use (s_streams s ! i) \<and> ks_owner_task_id (s_streams s ! i) = task"

lemma close_one_spec:
  assumes ok: "fs_ok s" and i: "i < MAX_STREAMS" and c: "close_stream s i = Some (s1, rc)"
    and r: "(if rc \<noteq> 0 then reset_stream (fs_km s1) (s_streams s1 ! i) else (fs_km s1, s_streams s1 ! i)) = (km, ks)"
    and s2: "s2 = set_stream (set_km s1 km) i ks"
  shows "fs_ok s2" "s_streams s2 ! i = zero_stream" "\<And>j. j < MAX_STREAMS \<Longrightarrow> j \<noteq> i \<Longrightarrow> stream_kept s s2 j"
proof -
  note C = close_stream_spec [OF ok i c]
  have "fs_ok s2 \<and> s_streams s2 ! i = zero_stream \<and> (\<forall>j. j < MAX_STREAMS \<longrightarrow> j \<noteq> i \<longrightarrow> stream_kept s1 s2 j)"
  proof (cases "rc = 0")
    case True
    then have "fs_km s2 = fs_km s1" "s_streams s2 = s_streams s1" using r s2 by auto
    then show ?thesis using C True fs_ok_same by (auto simp: stream_kept_def)
  next
    case False
    then have "reset_stream (fs_km s1) (s_streams s1 ! i) = (km, ks)" using r by simp
    from reset_stream_spec [OF C(1) i this, of s2] have R: "fs_ok s2" "others_kept s1 i s2" "s_streams s2 ! i = zero_stream" using s2 by simp_all
    then show ?thesis using others_kept_stream [OF R(2)] by blast
  qed
  then show "fs_ok s2" "s_streams s2 ! i = zero_stream" "\<And>j. j < MAX_STREAMS \<Longrightarrow> j \<noteq> i \<Longrightarrow> stream_kept s s2 j"
    using stream_kept_trans [OF others_kept_stream [OF C(2)]] by auto
qed

lemma close_task_streams_spec:
  assumes "fs_ok s" "set is \<subseteq> {..<MAX_STREAMS}" "distinct is" "close_task_streams s task is = Some s'"
  shows "fs_ok s' \<and> (\<forall>j < MAX_STREAMS. if j \<in> set is \<and> task_stream s task j then s_streams s' ! j = zero_stream else stream_kept s s' j)"
  using assms
proof (induction "is" arbitrary: s)
  case Nil
  then show ?case by (simp add: stream_kept_def)
next
  case (Cons i "is")
  have i: "i < MAX_STREAMS" "i \<notin> set is" "set is \<subseteq> {..<MAX_STREAMS}" "distinct is" using Cons.prems by auto
  show ?case
  proof (cases "task_stream s task i")
    case False
    then have "close_task_streams s task is = Some s'" using Cons.prems(4) by (simp split: if_splits)
    from Cons.IH [OF Cons.prems(1) i(3,4) this] False show ?thesis by (auto split: if_splits)
  next
    case True
    obtain s1 rc where c: "close_stream s i = Some (s1, rc)" using Cons.prems(4) True by (cases "close_stream s i") auto
    obtain km ks where r: "(if rc \<noteq> 0 then reset_stream (fs_km s1) (s_streams s1 ! i) else (fs_km s1, s_streams s1 ! i)) = (km, ks)" by fastforce
    define s2 where "s2 = set_stream (set_km s1 km) i ks"
    have l: "close_task_streams s2 task is = Some s'" using Cons.prems(4) True c r by (simp add: s2_def Let_def)
    note O = close_one_spec [OF Cons.prems(1) i(1) c r s2_def]
    note IH = Cons.IH [OF O(1) i(3,4) l]
    have "if j \<in> set (i # is) \<and> task_stream s task j then s_streams s' ! j = zero_stream else stream_kept s s' j" if j: "j < MAX_STREAMS" for j
    proof (cases "j = i")
      case True
      then have "stream_kept s2 s' i" using IH i by auto
      then show ?thesis using True O(2) \<open>task_stream s task i\<close> by (simp add: stream_kept_def)
    next
      case False
      note K = O(3) [OF j False]
      have "task_stream s2 task j = task_stream s task j" using K by (simp add: stream_kept_def)
      then show ?thesis using IH j False stream_kept_trans [OF K] by (auto split: if_splits)
    qed
    then show ?thesis using IH by blast
  qed
qed

section \<open>An example\<close>

definition example_stream :: kernel_stream where
  "example_stream = zero_stream\<lparr>ks_driver := Some Fat32, ks_in_use := True, ks_owner_task_id := 7, ks_readable := True, ks_writable := True, ks_path := ''notes.txt''\<rparr>"

definition example_direct :: kernel_stream where
  "example_direct = zero_stream\<lparr>ks_driver := Some Fat32, ks_in_use := True, ks_owner_task_id := 7, ks_readable := True, ks_path := ''data.bin'',
     ks_backend_file := root_descriptor, ks_size := 300, ks_capacity := 300, ks_position := 290, ks_direct_backend := True\<rparr>"

definition example_fs :: "sectors fs_state" where
  "example_fs = \<lparr>s_streams = example_stream # example_direct # replicate 62 zero_stream, s_fs_initialised = True, s_active_driver = Some Fat32,
     fs_vol = blank_volume, fs_ram = example_ramfs, fs_blocks = block_init \<lparr>s_devices = [], s_device_count = 0, s_initialised = False\<rparr>\<rparr>"

lemma example_streams: "i < MAX_STREAMS \<Longrightarrow> s_streams example_fs ! i = (if i = 0 then example_stream else if i = 1 then example_direct else zero_stream)"
  by (simp add: example_fs_def MAX_STREAMS_def nth_Cons')

lemma example_fs_ok: "fs_ok example_fs"
proof -
  have "stream_ok km example_stream \<and> stream_ok km example_direct" "ks_owned_buffer example_stream = 0 \<and> ks_owned_buffer example_direct = 0" for km
    by (simp_all add: example_stream_def example_direct_def zero_stream_def stream_ok_def)
  then have "stream_ok (fs_km example_fs) (s_streams example_fs ! i) \<and> ks_owned_buffer (s_streams example_fs ! i) = 0" if "i < MAX_STREAMS" for i
    unfolding example_streams [OF that] by auto
  moreover have "km_inv (fs_km example_fs)" using example_ramfs_ok by (simp add: ramfs_ok_def example_fs_def)
  moreover have "length (s_streams example_fs) = MAX_STREAMS" by (simp add: example_fs_def MAX_STREAMS_def)
  ultimately show ?thesis unfolding fs_ok_def by blast
qed

section \<open>Properties\<close>

text \<open>
  C15. A stream with a buffer refines an abstract file, a list of bytes with a position. Writing,
  reading, seeking and truncating return and do to the stream's bytes and position, and give back,
  what the abstract file does; a gap behind the end is filled with zeros. The one exception is a
  write or truncation for which the buffer is too small and the heap refuses a larger one (an
  allocation of at least the bytes needed and at most 256 or twice as many returns null): it reports
  failure, sets the error flag and leaves the old bytes in place. In every case the other streams and
  all other blocks of the heap keep their bytes.
\<close>

theorem stream_refines_file:
  assumes "fs_ok s" and "handle_from_id s task h = Some i" and "\<not> ks_direct_backend (s_streams s ! i)"
    and "permitted (s_streams s ! i) (abs_file (fs_km s) (s_streams s ! i)) c"
  shows "refines_call s i c (stream_call s task h c)"
proof (cases c)
  case (Write b)
  show ?thesis unfolding Write by (rule write_refines [OF assms(1,2) assms(4) [unfolded Write] assms(3)])
next
  case (Read n)
  show ?thesis unfolding Read by (rule read_refines [OF assms(1,2) assms(4) [unfolded Read] assms(3)])
next
  case (Seek off whence)
  show ?thesis unfolding Seek by (rule seek_refines [OF assms(1,2) assms(4) [unfolded Seek] assms(3)])
next
  case (Truncate n)
  show ?thesis unfolding Truncate by (rule truncate_refines [OF assms(1,2) assms(4) [unfolded Truncate] assms(3)])
qed

theorem stream_refines_file_witness:
  "\<exists>s'. stream_call example_fs 7 1 (Write [1, 2, 3]) = Some (s', 3, []) \<and> stream_bytes (fs_km s') (s_streams s' ! 0) = [1, 2, 3] \<and>
     ks_position (s_streams s' ! 0) = 3"
proof -
  have h: "handle_from_id example_fs 7 1 = Some 0"
    by (simp add: handle_from_id_def Let_def MAX_STREAMS_def example_fs_def example_stream_def stream_accessible_to_current_task_def)
  have p: "\<not> ks_direct_backend (s_streams example_fs ! 0)" "permitted (s_streams example_fs ! 0) (abs_file (fs_km example_fs) (s_streams example_fs ! 0)) (Write [1, 2, 3])"
    by (simp_all add: example_fs_def example_stream_def zero_stream_def abs_file_def stream_bytes_def)
  have "map_option (\<lambda>(s, r, b). r) (stream_call example_fs 7 1 (Write [1, 2, 3])) = Some 3" by code_simp
  then obtain s' b where c: "stream_call example_fs 7 1 (Write [1, 2, 3]) = Some (s', 3, b)" by auto
  have f: "abs_file (fs_km example_fs) (s_streams example_fs ! 0) = \<lparr>af_bytes = [], af_pos = 0, af_append = False\<rparr>"
    by (simp add: example_fs_def example_stream_def zero_stream_def abs_file_def stream_bytes_def)
  have nf: "\<not> failed_call example_fs 0 (Write [1, 2, 3]) s' 3" by (simp add: Let_def)
  have "(abs_file (fs_km s') (s_streams s' ! 0), 3, b) = af_call \<lparr>af_bytes = [], af_pos = 0, af_append = False\<rparr> (Write [1, 2, 3])"
    using stream_refines_file [OF example_fs_ok h p] nf unfolding c refines_call_def Let_def f by (simp del: failed_call.simps af_call.simps)
  then have a: "abs_file (fs_km s') (s_streams s' ! 0) = \<lparr>af_bytes = [1, 2, 3], af_pos = 3, af_append = False\<rparr>" "b = []"
    by (simp_all add: overwrite_def grown_def)
  have "unat (ks_position (s_streams s' ! 0)) = unat (3 :: u64)" using a(1) by (simp add: abs_file_def)
  then have "ks_position (s_streams s' ! 0) = 3" by (rule word_eq_unatI)
  moreover have "stream_bytes (fs_km s') (s_streams s' ! 0) = [1, 2, 3]" using a(1) by (simp add: abs_file_def)
  ultimately show ?thesis using c a(2) by blast
qed

text \<open>
  C17. When a task ends, \<open>close_all_for_task\<close> leaves no stream of that task in use, whether or not its
  data could be written back, and every other stream is as it was, with its bytes.
\<close>

theorem task_exit_closes_streams:
  assumes "fs_ok s" and "task \<noteq> 0" and "close_all_for_task s task = Some s'"
  shows "fs_ok s' \<and> (\<forall>j < MAX_STREAMS. \<not> task_stream s' task j \<and> (if task_stream s task j then s_streams s' ! j = zero_stream else stream_kept s s' j))"
proof -
  have c: "close_task_streams s task [0..<MAX_STREAMS] = Some s'" using assms(2,3) by (simp add: close_all_for_task_def)
  have "set [0..<MAX_STREAMS] \<subseteq> {..<MAX_STREAMS}" "distinct [0..<MAX_STREAMS]" by auto
  from close_task_streams_spec [OF assms(1) this c] show ?thesis by (auto simp: stream_kept_def)
qed

theorem task_exit_closes_streams_witness:
  "\<exists>s'. close_all_for_task example_fs 7 = Some s' \<and> fs_ok s' \<and> s_streams s' ! 0 = zero_stream"
proof -
  have "close_all_for_task example_fs 7 \<noteq> None" by code_simp
  then obtain s' where c: "close_all_for_task example_fs 7 = Some s'" by blast
  have t: "task_stream example_fs 7 0" "(0 :: nat) < MAX_STREAMS" by (simp_all add: example_fs_def example_stream_def MAX_STREAMS_def)
  have "(7 :: u64) \<noteq> 0" by simp
  from task_exit_closes_streams [OF example_fs_ok this c] show ?thesis using c t by auto
qed

text \<open>
  C16. Reading through a direct stream, a handle opened for reading only, returns and gives exactly the
  bytes of the file below from the stream's position on, at most as many as asked for, as the file
  has and as one transfer may take, moves the position behind them, and leaves a stream that is good for
  the next read. It changes neither the volume nor any other stream. The device must serve its requests.
\<close>

theorem direct_read_correct:
  assumes "vol_ok c (fs_vol s)" and "reliable_vol (fs_vol s)" and "is_mounted (fs_vol s)" and "length (s_streams s) = MAX_STREAMS"
    and "handle_from_id s task h = Some i" and "ks = s_streams s ! i" and "direct_ok c (fs_vol s) ks ds" and "ks_readable ks"
    and "n \<le> length b" and "n < 2 ^ 64"
  shows "\<exists>s' b' k. file_read s task h (Some b) (word_of_nat n) = Some (s', Some b', word_of_nat k) \<and>
     k = min (min n (fd_size (ks_backend_file ks) - unat (ks_position ks))) MAX_DIRECT_FILESYSTEM_READ_BYTES \<and>
     b' = take k (drop (unat (ks_position ks)) (file_content c (fs_vol s) ks ds)) @ drop k b \<and>
     unat (ks_position (s_streams s' ! i)) = unat (ks_position ks) + k \<and> unchanged c (fs_vol s) (fs_vol s') \<and>
     direct_ok c (fs_vol s') (s_streams s' ! i) ds \<and> (\<forall>j. j \<noteq> i \<longrightarrow> s_streams s' ! j = s_streams s ! j)"
proof -
  note i = handle_index [OF assms(5)] and v = assms(1)
  let ?f = "ks_backend_file ks" and ?p = "unat (ks_position ks)"
  have len: "i < length (s_streams s)" using i assms(4) by simp
  have D: "descriptor_ok c (fs_vol s) ?f ds" "ks_size ks = word_of_nat (fd_size ?f)" "fd_size ?f < 2 ^ 32" "ks_direct_backend ks" "ks_driver ks = Some Fat32"
    using assms(7) by (auto simp: direct_ok_def)
  have sz: "unat (ks_size ks) = fd_size ?f" and un: "unat (word_of_nat n :: u64) = n" using D(2,3) assms(10) by (simp_all add: unat_of_nat)
  show ?thesis
  proof (cases "ks_position ks \<ge> ks_size ks")
    case True
    then have r: "file_read s task h (Some b) (word_of_nat n) = Some (set_stream s i (ks\<lparr>ks_eof := True\<rparr>), Some b, 0)"
      using assms(5,6,8) by (simp add: file_read_def Let_def)
    have "fd_size ?f \<le> ?p" using True sz by (simp add: word_le_nat_alt)
    then show ?thesis unfolding r using unchanged_refl [OF v] assms(6,7) len
      by (intro exI [of _ "set_stream s i (ks\<lparr>ks_eof := True\<rparr>)"] exI [of _ b] exI [of _ 0]) (simp add: direct_ok_def set_stream_def)
  next
    case False
    define t where "t = (if ks_size ks - ks_position ks < word_of_nat n then ks_size ks - ks_position ks else word_of_nat n)"
    define m where "m = (if unat t > MAX_DIRECT_FILESYSTEM_READ_BYTES then word_of_nat MAX_DIRECT_FILESYSTEM_READ_BYTES else t)"
    have ps: "?p < fd_size ?f" using False sz by (simp add: word_le_nat_alt)
    have "unat (ks_size ks - ks_position ks) = fd_size ?f - ?p" using False sz by (simp add: unat_sub_if' word_le_nat_alt)
    then have m: "unat m = min (min n (fd_size ?f - ?p)) MAX_DIRECT_FILESYSTEM_READ_BYTES"
      using un by (auto simp: m_def t_def word_less_nat_alt MAX_DIRECT_FILESYSTEM_READ_BYTES_def)
    have "unat m \<le> length b" using m assms(9) by simp
    from read_file_range_spec [OF v D(1) this, of ?p] assms(2)
    obtain vol f' b' where R: "read_file_range (fs_vol s) ?f ?p (Some b) (unat m) = Some (vol, f', Some b', unat m, True)" "unchanged c (fs_vol s) vol"
      "descriptor_ok c (fs_vol s) f' ds" "b' = take (unat m) (drop ?p (take (fd_size ?f) (chain_data c (fs_vol s) ds))) @ drop (unat m) b" "fd_size f' = fd_size ?f"
      using m by auto
    define ks' where "ks' = ks\<lparr>ks_backend_file := f', ks_position := ks_position ks + m, ks_eof := (ks_position ks + m \<ge> ks_size ks)\<rparr>"
    have r: "file_read s task h (Some b) (word_of_nat n) = Some (set_stream (s\<lparr>fs_vol := vol\<rparr>) i ks', Some b', m)"
      unfolding file_read_def assms(5) prod.case option.case Let_def assms(6) [symmetric] t_def [symmetric] m_def [symmetric]
      using assms(3,8) False D(4,5) R(1) by (simp add: fat_read_range_def is_mounted_def ks'_def)
    have pos: "unat (ks_position ks + m) = ?p + unat m" using m ps D(3) by (simp add: unat_plus64)
    have dk: "direct_ok c vol ks' ds" using D R(3,5) descriptor_ok_unchanged [OF R(2)] by (simp add: direct_ok_def ks'_def)
    let ?s = "set_stream (s\<lparr>fs_vol := vol\<rparr>) i ks'"
    have st: "fs_vol ?s = vol" "s_streams ?s ! i = ks'" "\<forall>j. j \<noteq> i \<longrightarrow> s_streams ?s ! j = s_streams s ! j" using len by (simp_all add: set_stream_def)
    have "Some (?s, Some b', m) = Some (?s, Some b', word_of_nat (unat m))" "unat (ks_position ks') = ?p + unat m" using pos by (simp_all add: ks'_def)
    then show ?thesis unfolding r using m R(2,4) st dk unfolding file_content_def by metis
  qed
qed

theorem direct_read_correct_witness:
  "\<exists>s' b'. file_read example_fs 7 2 (Some (replicate 20 1)) 20 = Some (s', Some b', 10) \<and>
     b' = take 10 (drop 290 (file_content mem_medium blank_volume example_direct [2])) @ replicate 10 1"
proof -
  have h: "handle_from_id example_fs 7 2 = Some 1"
    by (simp add: handle_from_id_def Let_def MAX_STREAMS_def example_fs_def example_direct_def stream_accessible_to_current_task_def)
  have s: "fs_vol example_fs = blank_volume" "example_direct = s_streams example_fs ! 1" "length (s_streams example_fs) = MAX_STREAMS"
    by (simp_all add: example_fs_def MAX_STREAMS_def)
  have d: "direct_ok mem_medium (fs_vol example_fs) example_direct [2]"
    using root_descriptor_ok s(1) by (simp add: direct_ok_def example_direct_def root_descriptor_def)
  have "is_mounted (fs_vol example_fs)" "ks_readable example_direct" "20 \<le> length (replicate 20 (1 :: u8))" "(20 :: nat) < 2 ^ 64"
    unfolding s(1) by (simp_all add: is_mounted_def blank_volume_def example_direct_def)
  note R = direct_read_correct [OF blank_volume_ok [folded s(1)] this(1) s(3) h s(2) d this(2,3,4)]
  have "fd_size (ks_backend_file example_direct) = 300" "ks_position example_direct = 290" by (simp_all add: example_direct_def root_descriptor_def)
  then show ?thesis using R unfolding s(1) by (auto simp: MAX_DIRECT_FILESYSTEM_READ_BYTES_def)
qed

end
