(* ===== verification/Input.thy ===== *)
theory Input
  imports MemUtil Types Bindings
begin

text \<open>
  The input subsystem of src/core/input.cpp: the PS/2 keyboard and mouse behind the 8042
  controller, and the serial line. The port instructions \<open>arch::inb\<close> and \<open>arch::outb\<close> are the
  parameters \<open>inb\<close> and \<open>outb\<close>, functions on the state of the devices (\<open>in_dev\<close>), which a read may
  change; \<open>pause\<close> is the effect of \<open>sched::sleep(1)\<close> on all of that, while other tasks and the
  devices run. A \<open>char\<close> is its code, 0 for \<open>'\\0'\<close>. The loops that poll a port are
  \<^theory_text>\<open>partial_function (option)\<close>: \<open>None\<close> is a device that always has another byte. Log lines
  are not modelled.
\<close>

section \<open>State\<close>

record vk_key_event =
  ev_scancode :: u32
  ev_pressed :: u32
  ev_ascii :: u8
  ev_modifiers :: u32

record vk_mouse_event =
  ev_dx :: int
  ev_dy :: int
  ev_buttons :: u32

record 'd input_state =
  s_shift :: bool
  s_caps :: bool
  s_ext :: bool
  s_ctrl :: bool
  s_alt :: bool
  s_mouse_ready :: bool
  s_mouse_buf :: "u8 list"
  s_mouse_phase :: nat
  s_mouse_queue :: "vk_mouse_event list"
  s_mouse_q_head :: nat
  s_mouse_q_tail :: nat
  in_dev :: 'd

definition PS2_DATA :: u16 where "PS2_DATA = 0x60"
definition PS2_STATUS :: u16 where "PS2_STATUS = 0x64"
definition COM1 :: u16 where "COM1 = 0x3F8"
definition COM1_LSR :: u16 where "COM1_LSR = COM1 + 5"
definition PS2_CMD_ENABLE_AUX :: u8 where "PS2_CMD_ENABLE_AUX = 0xA8"
definition PS2_CMD_GET_CONFIG :: u8 where "PS2_CMD_GET_CONFIG = 0x20"
definition PS2_CMD_SET_CONFIG :: u8 where "PS2_CMD_SET_CONFIG = 0x60"
definition PS2_CMD_WRITE_AUX :: u8 where "PS2_CMD_WRITE_AUX = 0xD4"
definition PS2_MOUSE_ENABLE_RPT :: u8 where "PS2_MOUSE_ENABLE_RPT = 0xF4"
definition MOUSE_QUEUE_SIZE :: nat where "MOUSE_QUEUE_SIZE = 8"

text \<open>Scan code set 1 to character codes.\<close>

definition s_sc_normal :: "u8 list" where
  "s_sc_normal =
     [0, 27, 49, 50, 51, 52, 53, 54, 55, 56, 57, 48, 45, 61, 8, 9,
      113, 119, 101, 114, 116, 121, 117, 105, 111, 112, 91, 93, 13, 0,
      97, 115, 100, 102, 103, 104, 106, 107, 108, 59, 39, 96, 0, 92,
      122, 120, 99, 118, 98, 110, 109, 44, 46, 47, 0, 42, 0, 32, 0] @
     replicate 15 0 @ [45, 0, 0, 0, 43] @ replicate 49 0"

definition s_sc_shifted :: "u8 list" where
  "s_sc_shifted =
     [0, 27, 33, 64, 35, 36, 37, 94, 38, 42, 40, 41, 95, 43, 8, 9,
      81, 87, 69, 82, 84, 89, 85, 73, 79, 80, 123, 125, 13, 0,
      65, 83, 68, 70, 71, 72, 74, 75, 76, 58, 34, 126, 0, 124,
      90, 88, 67, 86, 66, 78, 77, 60, 62, 63, 0, 42, 0, 32, 0] @
     replicate 15 0 @ [45, 0, 0, 0, 43] @ replicate 49 0"

definition port_in :: "('d \<Rightarrow> u16 \<Rightarrow> u8 \<times> 'd) \<Rightarrow> 'd input_state \<Rightarrow> u16 \<Rightarrow> u8 \<times> 'd input_state" where
  "port_in inb s port = (let (b, d) = inb (in_dev s) port in (b, s\<lparr>in_dev := d\<rparr>))"

definition port_out :: "('d \<Rightarrow> u16 \<Rightarrow> u8 \<Rightarrow> 'd) \<Rightarrow> 'd input_state \<Rightarrow> u16 \<Rightarrow> u8 \<Rightarrow> 'd input_state" where
  "port_out outb s port b = s\<lparr>in_dev := outb (in_dev s) port b\<rparr>"

section \<open>Mouse packets\<close>

definition mouse_q_full :: "'d input_state \<Rightarrow> bool" where
  "mouse_q_full s \<longleftrightarrow> (s_mouse_q_head s + 1) mod MOUSE_QUEUE_SIZE = s_mouse_q_tail s"

definition mouse_q_empty :: "'d input_state \<Rightarrow> bool" where
  "mouse_q_empty s \<longleftrightarrow> s_mouse_q_head s = s_mouse_q_tail s"

definition mouse_q_push :: "'d input_state \<Rightarrow> vk_mouse_event \<Rightarrow> 'd input_state" where
  "mouse_q_push s ev =
     (let s = (if mouse_q_full s then s\<lparr>s_mouse_q_tail := (s_mouse_q_tail s + 1) mod MOUSE_QUEUE_SIZE\<rparr> else s);
          s = s\<lparr>s_mouse_queue := (s_mouse_queue s)[s_mouse_q_head s := ev]\<rparr>
      in s\<lparr>s_mouse_q_head := (s_mouse_q_head s + 1) mod MOUSE_QUEUE_SIZE\<rparr>)"

definition mouse_q_pop :: "'d input_state \<Rightarrow> 'd input_state \<times> vk_mouse_event option" where
  "mouse_q_pop s =
     (if mouse_q_empty s then (s, None)
      else (s\<lparr>s_mouse_q_tail := (s_mouse_q_tail s + 1) mod MOUSE_QUEUE_SIZE\<rparr>, Some (s_mouse_queue s ! s_mouse_q_tail s)))"

text \<open>The packet in the three bytes of the buffer, \<open>None\<close> when an overflow bit is set.\<close>

definition decode_packet :: "u8 \<Rightarrow> u8 \<Rightarrow> u8 \<Rightarrow> vk_mouse_event option" where
  "decode_packet flags raw_x raw_y =
     (if flags AND 0xC0 \<noteq> 0 then None
      else Some \<lparr>ev_dx = uint raw_x - (if flags AND 0x10 \<noteq> 0 then 256 else 0),
                 ev_dy = - uint raw_y + (if flags AND 0x20 \<noteq> 0 then 256 else 0),
                 ev_buttons = ucast (flags AND 0x07)\<rparr>)"

definition ps2_pump_mouse_byte :: "'d input_state \<Rightarrow> u8 \<Rightarrow> 'd input_state" where
  "ps2_pump_mouse_byte s byte =
     (if s_mouse_phase s = 0 \<and> byte AND 0x08 = 0 then s
      else
        let s = s\<lparr>s_mouse_buf := (s_mouse_buf s)[s_mouse_phase s := byte], s_mouse_phase := s_mouse_phase s + 1\<rparr> in
        if s_mouse_phase s < 3 then s
        else
          let s = s\<lparr>s_mouse_phase := 0\<rparr> in
          case decode_packet (s_mouse_buf s ! 0) (s_mouse_buf s ! 1) (s_mouse_buf s ! 2) of
            None \<Rightarrow> s
          | Some ev \<Rightarrow> mouse_q_push s ev)"

section \<open>Keyboard\<close>

text \<open>
  One byte of the keyboard in \<open>ps2_try_read\<close>, from the test for the extended prefix to the end of
  the loop body: the new state and the character returned, 0 where the loop goes on.
\<close>

definition is_letter :: "u8 \<Rightarrow> bool" where
  "is_letter c \<longleftrightarrow> c \<ge> 97 \<and> c \<le> 122"

definition char_step :: "'d input_state \<Rightarrow> u8 \<Rightarrow> 'd input_state \<times> u8" where
  "char_step s sc =
     (if sc = 0xE0 then (s\<lparr>s_ext := True\<rparr>, 0)
      else
        let ext = s_ext s; s = s\<lparr>s_ext := False\<rparr> in
        if ext then (s, 0)
        else if sc AND 0x80 \<noteq> 0 then
          let make = sc AND 0x7F in
          (if make = 0x2A \<or> make = 0x36 then s\<lparr>s_shift := False\<rparr> else s, 0)
        else if sc = 0x2A \<or> sc = 0x36 then (s\<lparr>s_shift := True\<rparr>, 0)
        else if sc = 0x3A then (s\<lparr>s_caps := \<not> s_caps s\<rparr>, 0)
        else if sc = 0x1D \<or> sc = 0x38 then (s, 0)
        else if unat sc \<ge> 128 then (s, 0)
        else
          let base_n = s_sc_normal ! unat sc; base_s = s_sc_shifted ! unat sc in
          if is_letter base_n then (s, if s_caps s \<noteq> s_shift s then base_s else base_n)
          else (s, if s_shift s then base_s else base_n))"

partial_function (option) ps2_try_read :: "('d \<Rightarrow> u16 \<Rightarrow> u8 \<times> 'd) \<Rightarrow> 'd input_state \<Rightarrow> ('d input_state \<times> u8) option" where
  "ps2_try_read inb s =
     (let (status, s) = port_in inb s PS2_STATUS in
      if status AND 0x01 = 0 then Some (s, 0)
      else
        let (sc, s) = port_in inb s PS2_DATA in
        if status AND 0x20 \<noteq> 0 then ps2_try_read inb (ps2_pump_mouse_byte s sc)
        else
          let (s, c) = char_step s sc in
          if c \<noteq> 0 then Some (s, c) else ps2_try_read inb s)"

declare ps2_try_read.simps [code]

text \<open>One byte in \<open>ps2_try_read_raw\<close>: \<open>None\<close> for the extended prefix, an event for every other byte.\<close>

definition key_step :: "'d input_state \<Rightarrow> u8 \<Rightarrow> 'd input_state \<times> vk_key_event option" where
  "key_step s sc =
     (if sc = 0xE0 then (s\<lparr>s_ext := True\<rparr>, None)
      else
        let ext = s_ext s; s = s\<lparr>s_ext := False\<rparr>;
            released = (sc AND 0x80 \<noteq> 0);
            make = sc AND 0x7F;
            s = (if make = 0x2A \<or> make = 0x36 then s\<lparr>s_shift := \<not> released\<rparr> else s);
            s = (if make = 0x1D then s\<lparr>s_ctrl := \<not> released\<rparr> else s);
            s = (if make = 0x38 then s\<lparr>s_alt := \<not> released\<rparr> else s);
            s = (if make = 0x3A \<and> \<not> released then s\<lparr>s_caps := \<not> s_caps s\<rparr> else s);
            code = (if ext then ucast make OR 0x80 else ucast make);
            base_n = s_sc_normal ! unat make; base_s = s_sc_shifted ! unat make;
            c = (if is_letter base_n then if s_caps s \<noteq> s_shift s then base_s else base_n
                 else if s_shift s then base_s else base_n)
        in (s, Some \<lparr>ev_scancode = code, ev_pressed = (if released then 0 else 1),
                     ev_ascii = (if \<not> ext \<and> \<not> released \<and> unat make < 128 then c else 0),
                     ev_modifiers = (if s_shift s then 1 else 0) OR (if s_ctrl s then 2 else 0) OR (if s_alt s then 4 else 0)\<rparr>))"

partial_function (option) ps2_try_read_raw ::
  "('d \<Rightarrow> u16 \<Rightarrow> u8 \<times> 'd) \<Rightarrow> 'd input_state \<Rightarrow> ('d input_state \<times> vk_key_event option) option" where
  "ps2_try_read_raw inb s =
     (let (status, s) = port_in inb s PS2_STATUS in
      if status AND 0x01 = 0 then Some (s, None)
      else
        let (sc, s) = port_in inb s PS2_DATA in
        if status AND 0x20 \<noteq> 0 then ps2_try_read_raw inb (ps2_pump_mouse_byte s sc)
        else
          let (s, ev) = key_step s sc in
          if ev \<noteq> None then Some (s, ev) else ps2_try_read_raw inb s)"

declare ps2_try_read_raw.simps [code]

definition serial_try_read :: "('d \<Rightarrow> u16 \<Rightarrow> u8 \<times> 'd) \<Rightarrow> 'd input_state \<Rightarrow> 'd input_state \<times> u8" where
  "serial_try_read inb s =
     (let (lsr, s) = port_in inb s COM1_LSR in
      if lsr AND 0x01 \<noteq> 0 then let (c, s) = port_in inb s COM1 in (s, c)
      else (s, 0))"

section \<open>The controller\<close>

text \<open>The bounded waits: \<open>n\<close> polls are left.\<close>

fun wait_write_loop :: "('d \<Rightarrow> u16 \<Rightarrow> u8 \<times> 'd) \<Rightarrow> nat \<Rightarrow> 'd input_state \<Rightarrow> 'd input_state" where
  "wait_write_loop inb 0 s = s"
| "wait_write_loop inb (Suc n) s =
     (let (status, s) = port_in inb s PS2_STATUS in if status AND 0x02 = 0 then s else wait_write_loop inb n s)"

definition ps2_ctrl_wait_write :: "('d \<Rightarrow> u16 \<Rightarrow> u8 \<times> 'd) \<Rightarrow> 'd input_state \<Rightarrow> 'd input_state" where
  "ps2_ctrl_wait_write inb s = wait_write_loop inb 100000 s"

fun wait_read_loop :: "('d \<Rightarrow> u16 \<Rightarrow> u8 \<times> 'd) \<Rightarrow> nat \<Rightarrow> 'd input_state \<Rightarrow> 'd input_state" where
  "wait_read_loop inb 0 s = s"
| "wait_read_loop inb (Suc n) s =
     (let (status, s) = port_in inb s PS2_STATUS in if status AND 0x01 \<noteq> 0 then s else wait_read_loop inb n s)"

definition ps2_ctrl_wait_read :: "('d \<Rightarrow> u16 \<Rightarrow> u8 \<times> 'd) \<Rightarrow> 'd input_state \<Rightarrow> 'd input_state" where
  "ps2_ctrl_wait_read inb s = wait_read_loop inb 100000 s"

definition ps2_send_ctrl_cmd ::
  "('d \<Rightarrow> u16 \<Rightarrow> u8 \<times> 'd) \<Rightarrow> ('d \<Rightarrow> u16 \<Rightarrow> u8 \<Rightarrow> 'd) \<Rightarrow> 'd input_state \<Rightarrow> u8 \<Rightarrow> 'd input_state" where
  "ps2_send_ctrl_cmd inb outb s cmd = port_out outb (ps2_ctrl_wait_write inb s) PS2_STATUS cmd"

definition ps2_send_data ::
  "('d \<Rightarrow> u16 \<Rightarrow> u8 \<times> 'd) \<Rightarrow> ('d \<Rightarrow> u16 \<Rightarrow> u8 \<Rightarrow> 'd) \<Rightarrow> 'd input_state \<Rightarrow> u8 \<Rightarrow> 'd input_state" where
  "ps2_send_data inb outb s data = port_out outb (ps2_ctrl_wait_write inb s) PS2_DATA data"

definition ps2_read_data :: "('d \<Rightarrow> u16 \<Rightarrow> u8 \<times> 'd) \<Rightarrow> 'd input_state \<Rightarrow> u8 \<times> 'd input_state" where
  "ps2_read_data inb s = port_in inb (ps2_ctrl_wait_read inb s) PS2_DATA"

definition ps2_send_mouse ::
  "('d \<Rightarrow> u16 \<Rightarrow> u8 \<times> 'd) \<Rightarrow> ('d \<Rightarrow> u16 \<Rightarrow> u8 \<Rightarrow> 'd) \<Rightarrow> 'd input_state \<Rightarrow> u8 \<Rightarrow> 'd input_state" where
  "ps2_send_mouse inb outb s data = ps2_send_data inb outb (ps2_send_ctrl_cmd inb outb s PS2_CMD_WRITE_AUX) data"

definition mouse_init ::
  "('d \<Rightarrow> u16 \<Rightarrow> u8 \<times> 'd) \<Rightarrow> ('d \<Rightarrow> u16 \<Rightarrow> u8 \<Rightarrow> 'd) \<Rightarrow> 'd input_state \<Rightarrow> 'd input_state \<times> status_code" where
  "mouse_init inb outb s =
     (let s = ps2_send_ctrl_cmd inb outb s PS2_CMD_ENABLE_AUX;
          s = ps2_send_ctrl_cmd inb outb s PS2_CMD_GET_CONFIG;
          (cfg, s) = ps2_read_data inb s;
          cfg = cfg OR 0x02;
          cfg = cfg AND NOT 0x20;
          s = ps2_send_ctrl_cmd inb outb s PS2_CMD_SET_CONFIG;
          s = ps2_send_data inb outb s cfg;
          s = ps2_send_mouse inb outb s PS2_MOUSE_ENABLE_RPT;
          (ack, s) = ps2_read_data inb s
      in (s\<lparr>s_mouse_phase := 0, s_mouse_ready := True\<rparr>, success))"

section \<open>Public interface\<close>

partial_function (option) drain_aux :: "('d \<Rightarrow> u16 \<Rightarrow> u8 \<times> 'd) \<Rightarrow> 'd input_state \<Rightarrow> 'd input_state option" where
  "drain_aux inb s =
     (let (status, s) = port_in inb s PS2_STATUS in
      if status AND 0x21 \<noteq> 0x21 then Some s
      else let (b, s) = port_in inb s PS2_DATA in drain_aux inb (ps2_pump_mouse_byte s b))"

declare drain_aux.simps [code]

definition poll_mouse :: "('d \<Rightarrow> u16 \<Rightarrow> u8 \<times> 'd) \<Rightarrow> 'd input_state \<Rightarrow> ('d input_state \<times> vk_mouse_event option) option" where
  "poll_mouse inb s = (if \<not> s_mouse_ready s then Some (s, None) else map_option mouse_q_pop (drain_aux inb s))"

partial_function (option) flush_stale :: "('d \<Rightarrow> u16 \<Rightarrow> u8 \<times> 'd) \<Rightarrow> 'd input_state \<Rightarrow> 'd input_state option" where
  "flush_stale inb s =
     (let (status, s) = port_in inb s PS2_STATUS in
      if status AND 0x01 \<noteq> 0 then flush_stale inb (snd (port_in inb s PS2_DATA)) else Some s)"

declare flush_stale.simps [code]

definition input_init ::
  "('d \<Rightarrow> u16 \<Rightarrow> u8 \<times> 'd) \<Rightarrow> ('d \<Rightarrow> u16 \<Rightarrow> u8 \<Rightarrow> 'd) \<Rightarrow> 'd input_state \<Rightarrow> ('d input_state \<times> status_code) option" where
  "input_init inb outb s =
     map_option (\<lambda>s. (fst (mouse_init inb outb (s\<lparr>s_shift := False, s_caps := False, s_ext := False\<rparr>)), success)) (flush_stale inb s)"

definition try_getc :: "('d \<Rightarrow> u16 \<Rightarrow> u8 \<times> 'd) \<Rightarrow> 'd input_state \<Rightarrow> ('d input_state \<times> u8) option" where
  "try_getc inb s =
     Option.bind (ps2_try_read inb s) (\<lambda>(s, c). if c \<noteq> 0 then Some (s, c) else Some (serial_try_read inb s))"

definition try_getc_ps2 :: "('d \<Rightarrow> u16 \<Rightarrow> u8 \<times> 'd) \<Rightarrow> 'd input_state \<Rightarrow> ('d input_state \<times> u8) option" where
  "try_getc_ps2 inb s = ps2_try_read inb s"

definition try_getc_serial :: "('d \<Rightarrow> u16 \<Rightarrow> u8 \<times> 'd) \<Rightarrow> 'd input_state \<Rightarrow> ('d input_state \<times> u8) option" where
  "try_getc_serial inb s = Some (serial_try_read inb s)"

definition poll_key :: "('d \<Rightarrow> u16 \<Rightarrow> u8 \<times> 'd) \<Rightarrow> 'd input_state \<Rightarrow> ('d input_state \<times> vk_key_event option) option" where
  "poll_key inb s = ps2_try_read_raw inb s"

text \<open>The waiting loop that \<open>getc\<close>, \<open>getc_ps2\<close> and \<open>getc_serial\<close> share.\<close>

partial_function (option) getc_loop ::
  "('d input_state \<Rightarrow> ('d input_state \<times> u8) option) \<Rightarrow> ('d input_state \<Rightarrow> 'd input_state) \<Rightarrow> 'd input_state \<Rightarrow> ('d input_state \<times> u8) option" where
  "getc_loop try_read pause s =
     Option.bind (try_read s) (\<lambda>(s, c). if c \<noteq> 0 then Some (s, c) else getc_loop try_read pause (pause s))"

declare getc_loop.simps [code]

definition getc :: "('d \<Rightarrow> u16 \<Rightarrow> u8 \<times> 'd) \<Rightarrow> ('d input_state \<Rightarrow> 'd input_state) \<Rightarrow> 'd input_state \<Rightarrow> ('d input_state \<times> u8) option" where
  "getc inb pause s = getc_loop (try_getc inb) pause s"

definition getc_ps2 :: "('d \<Rightarrow> u16 \<Rightarrow> u8 \<times> 'd) \<Rightarrow> ('d input_state \<Rightarrow> 'd input_state) \<Rightarrow> 'd input_state \<Rightarrow> ('d input_state \<times> u8) option" where
  "getc_ps2 inb pause s = getc_loop (try_getc_ps2 inb) pause s"

definition getc_serial :: "('d \<Rightarrow> u16 \<Rightarrow> u8 \<times> 'd) \<Rightarrow> ('d input_state \<Rightarrow> 'd input_state) \<Rightarrow> 'd input_state \<Rightarrow> ('d input_state \<times> u8) option" where
  "getc_serial inb pause s = getc_loop (try_getc_serial inb) pause s"

end
