(* ===== verification/InputSpec.thy ===== *)
theory InputSpec
  imports Input Ring
begin

text \<open>
  The properties of the input subsystem: the mouse ring keeps the most recent events, packets
  decode to the movement that was encoded, and keyboard and mouse bytes that arrive interleaved
  through the one controller do not disturb each other.
\<close>

section \<open>The mouse ring\<close>

definition mouse_q_ok :: "'d input_state \<Rightarrow> bool" where
  "mouse_q_ok s \<longleftrightarrow> length (s_mouse_queue s) = MOUSE_QUEUE_SIZE \<and> s_mouse_q_head s < MOUSE_QUEUE_SIZE \<and> s_mouse_q_tail s < MOUSE_QUEUE_SIZE"

definition mouse_events :: "'d input_state \<Rightarrow> vk_mouse_event list" where
  "mouse_events s = ring_list MOUSE_QUEUE_SIZE (s_mouse_queue s) (s_mouse_q_head s) (s_mouse_q_tail s)"

lemma mouse_q_push_ok: "mouse_q_ok s \<Longrightarrow> mouse_q_ok (mouse_q_push s ev)"
  by (auto simp: mouse_q_ok_def mouse_q_push_def Let_def MOUSE_QUEUE_SIZE_def)

lemma mouse_q_push_events:
  assumes ok: "mouse_q_ok s"
  shows "mouse_events (mouse_q_push s ev) = drop (length (mouse_events s) + 1 - 7) (mouse_events s @ [ev])"
proof -
  let ?q = "s_mouse_queue s" and ?h = "s_mouse_q_head s" and ?t = "s_mouse_q_tail s" and ?n = MOUSE_QUEUE_SIZE
  have b: "?h < ?n" "?t < ?n" "length ?q = ?n" using ok by (simp_all add: mouse_q_ok_def)
  have n: "?n = 8" by (simp add: MOUSE_QUEUE_SIZE_def)
  show ?thesis
  proof (cases "mouse_q_full s")
    case False
    then have nf: "(?h + 1) mod ?n \<noteq> ?t" by (simp add: mouse_q_full_def)
    have "ring_size ?n ?h ?t \<noteq> 7" using ring_full [OF b(1,2)] nf unfolding n by simp
    then have "ring_size ?n ?h ?t < 7" using ring_size_less [OF b(1,2)] unfolding n by linarith
    then show ?thesis using False ring_list_push [OF b nf] by (simp add: mouse_events_def mouse_q_push_def)
  next
    case True
    then have f: "(?h + 1) mod ?n = ?t" by (simp add: mouse_q_full_def)
    then have sz: "ring_size ?n ?h ?t = 7" using ring_full [OF b(1,2)] n by simp
    have ne: "?h \<noteq> ?t" using f n b by (auto simp: mod_Suc split: if_splits)
    have t': "(?t + 1) mod ?n < ?n" "(?h + 1) mod ?n \<noteq> (?t + 1) mod ?n" using f n b by (auto simp: mod_Suc)
    have "mouse_events (mouse_q_push s ev) = ring_list ?n ?q ?h ((?t + 1) mod ?n) @ [ev]"
      using True ring_list_push [OF b(1) t'(1) b(3) t'(2), of ev] by (simp add: mouse_events_def mouse_q_push_def Let_def)
    moreover have "mouse_events s = ?q ! ?t # ring_list ?n ?q ?h ((?t + 1) mod ?n)"
      unfolding mouse_events_def by (rule ring_list_pop [OF b(1,2) ne])
    moreover have "length (mouse_events s) = 7" using sz by (simp add: mouse_events_def)
    ultimately show ?thesis by simp
  qed
qed

lemma mouse_q_pop_spec:
  assumes ok: "mouse_q_ok s" and p: "mouse_q_pop s = (s', r)"
  shows "mouse_q_ok s' \<and> mouse_events s = (case r of None \<Rightarrow> [] | Some x \<Rightarrow> x # mouse_events s') \<and> (r = None \<longrightarrow> s' = s)"
proof (cases "mouse_q_empty s")
  case True
  then show ?thesis using p ok by (auto simp: mouse_q_pop_def mouse_q_empty_def mouse_events_def ring_list_def mouse_q_ok_def ring_size_0)
next
  case False
  then show ?thesis using p ok ring_list_pop [of "s_mouse_q_head s" MOUSE_QUEUE_SIZE "s_mouse_q_tail s" "s_mouse_queue s"]
    by (auto simp: mouse_q_pop_def mouse_q_empty_def mouse_events_def mouse_q_ok_def MOUSE_QUEUE_SIZE_def)
qed

interpretation mouse: lossy_queue mouse_q_ok mouse_events 7 mouse_q_push mouse_q_pop
proof unfold_locales
  fix s :: "'a input_state"
  assume ok: "mouse_q_ok s"
  show "length (mouse_events s) \<le> 7"
    using ok ring_size_less [of "s_mouse_q_head s" MOUSE_QUEUE_SIZE "s_mouse_q_tail s"] by (simp add: mouse_q_ok_def mouse_events_def MOUSE_QUEUE_SIZE_def)
qed (fact mouse_q_push_ok mouse_q_push_events mouse_q_pop_spec)+

section \<open>Mouse packets\<close>

text \<open>The three bytes with which a mouse reports a movement.\<close>

definition mouse_packet :: "vk_mouse_event \<Rightarrow> u8 list" where
  "mouse_packet ev =
     [0x08 OR ucast (ev_buttons ev) OR (if ev_dx ev < 0 then 0x10 else 0) OR (if ev_dy ev > 0 then 0x20 else 0),
      word_of_int (ev_dx ev), word_of_int (- ev_dy ev)]"

definition mouse_event_ok :: "vk_mouse_event \<Rightarrow> bool" where
  "mouse_event_ok ev \<longleftrightarrow> - 256 \<le> ev_dx ev \<and> ev_dx ev \<le> 255 \<and> - 255 \<le> ev_dy ev \<and> ev_dy ev \<le> 256 \<and> ev_buttons ev < 8"

lemma buttons_cases: "(b :: u32) < 8 \<Longrightarrow> b \<in> {0, 1, 2, 3, 4, 5, 6, 7}"
proof -
  assume "b < 8"
  then have "unat b < 8" by (simp add: word_less_nat_alt)
  then have "unat b \<in> {0, 1, 2, 3, 4, 5, 6, 7}" by auto
  then have "word_of_nat (unat b) \<in> (word_of_nat ` {0, 1, 2, 3, 4, 5, 6, 7} :: u32 set)" by (rule imageI)
  then show ?thesis by simp
qed

lemma mouse_flags:
  assumes "b < 8" and fl: "fl = (0x08 OR ucast (b :: u32) OR (if p then 0x10 else 0) OR (if q then 0x20 else 0) :: u8)"
  shows "fl AND 0xC0 = 0" "fl AND 0x10 \<noteq> 0 \<longleftrightarrow> p" "fl AND 0x20 \<noteq> 0 \<longleftrightarrow> q" "fl AND 0x08 \<noteq> 0" "(ucast (fl AND 0x07) :: u32) = b"
  using buttons_cases [OF assms(1)] unfolding fl by (cases p; cases q; auto)+

lemma uint_u8: "uint (word_of_int x :: u8) = x mod 256"
  by (simp add: uint_word_of_int)

lemma mod_256: "- 256 \<le> (d :: int) \<Longrightarrow> d \<le> 255 \<Longrightarrow> d mod 256 = (if d < 0 then d + 256 else d)"
  using mod_add_self2 [of d 256] mod_pos_pos_trivial [of "d + 256" 256] mod_pos_pos_trivial [of d 256] by auto

lemma decode_mouse_packet:
  assumes "mouse_event_ok ev" "mouse_packet ev = [fl, x, y]"
  shows "decode_packet fl x y = Some ev" "fl AND 0x08 \<noteq> 0"
proof -
  have b: "ev_buttons ev < 8" using assms(1) by (simp add: mouse_event_ok_def)
  have e: "fl = 0x08 OR ucast (ev_buttons ev) OR (if ev_dx ev < 0 then 0x10 else 0) OR (if ev_dy ev > 0 then 0x20 else 0)"
    "x = word_of_int (ev_dx ev)" "y = word_of_int (- ev_dy ev)" using assms(2) by (simp_all add: mouse_packet_def)
  note F = mouse_flags [OF b e(1)]
  have d: "uint x = (if ev_dx ev < 0 then ev_dx ev + 256 else ev_dx ev)" "uint y = (if ev_dy ev > 0 then 256 - ev_dy ev else - ev_dy ev)"
    using assms(1) mod_256 [of "ev_dx ev"] mod_256 [of "- ev_dy ev"] unfolding e uint_u8 mouse_event_ok_def by auto
  show "decode_packet fl x y = Some ev" using F d by (simp add: decode_packet_def)
  show "fl AND 0x08 \<noteq> 0" by (rule F(4))
qed

text \<open>Three bytes of a packet, from the start of a packet.\<close>

definition mouse_idle :: "'d input_state \<Rightarrow> bool" where
  "mouse_idle s \<longleftrightarrow> mouse_q_ok s \<and> s_mouse_phase s = 0 \<and> length (s_mouse_buf s) = 3"

lemma mouse_events_buf [simp]:
  "mouse_events (s\<lparr>s_mouse_buf := b, s_mouse_phase := p\<rparr>) = mouse_events s" "mouse_q_ok (s\<lparr>s_mouse_buf := b, s_mouse_phase := p\<rparr>) = mouse_q_ok s"
  by (simp_all add: mouse_events_def mouse_q_ok_def)

lemma mouse_q_push_buf [simp]: "s_mouse_phase (mouse_q_push s ev) = s_mouse_phase s" "s_mouse_buf (mouse_q_push s ev) = s_mouse_buf s"
  by (simp_all add: mouse_q_push_def Let_def)

lemma pump_packet:
  assumes i: "mouse_idle s" and ev: "mouse_event_ok ev"
  shows "\<exists>b. length b = 3 \<and> fold (\<lambda>b s. ps2_pump_mouse_byte s b) (mouse_packet ev) s = mouse_q_push (s\<lparr>s_mouse_buf := b, s_mouse_phase := 0\<rparr>) ev"
proof -
  obtain fl x y where p: "mouse_packet ev = [fl, x, y]" by (simp add: mouse_packet_def)
  note D = decode_mouse_packet [OF ev p]
  obtain a0 a1 a2 where b: "s_mouse_buf s = [a0, a1, a2]" using i by (auto simp: mouse_idle_def numeral_3_eq_3 length_Suc_conv)
  have "fold (\<lambda>b s. ps2_pump_mouse_byte s b) (mouse_packet ev) s = mouse_q_push (s\<lparr>s_mouse_buf := [fl, x, y], s_mouse_phase := 0\<rparr>) ev"
    unfolding p using D i by (simp add: ps2_pump_mouse_byte_def mouse_idle_def b Let_def numeral_2_eq_2)
  then show ?thesis by (intro exI [of _ "[fl, x, y]"]) simp
qed

text \<open>
  C31. Mouse packets survive encoding and queueing: when the three-byte packets of any movements are
  pumped byte by byte into an idle decoder, its queue afterwards holds the movements it held
  before followed by the new ones, of which only the seven most recent are kept, in order.
\<close>

theorem mouse_packets_decoded:
  assumes "mouse_idle s" "\<forall>ev \<in> set evs. mouse_event_ok ev"
  shows "mouse_idle (fold (\<lambda>b s. ps2_pump_mouse_byte s b) (concat (map mouse_packet evs)) s) \<and>
    mouse_events (fold (\<lambda>b s. ps2_pump_mouse_byte s b) (concat (map mouse_packet evs)) s) =
      drop (length (mouse_events s) + length evs - 7) (mouse_events s @ evs)"
proof -
  have "\<exists>t. mouse_idle t \<and> fold (\<lambda>b s. ps2_pump_mouse_byte s b) (concat (map mouse_packet evs)) s = t \<and>
      mouse_events t = mouse_events (fold (\<lambda>x s. mouse_q_push s x) evs s)"
    using assms
  proof (induction evs arbitrary: s)
    case (Cons ev evs)
    obtain b where b: "length b = 3" "fold (\<lambda>b s. ps2_pump_mouse_byte s b) (mouse_packet ev) s = mouse_q_push (s\<lparr>s_mouse_buf := b, s_mouse_phase := 0\<rparr>) ev"
      using pump_packet [OF Cons.prems(1)] Cons.prems(2) by auto
    let ?t = "mouse_q_push (s\<lparr>s_mouse_buf := b, s_mouse_phase := 0\<rparr>) ev"
    have ok: "mouse_q_ok s" using Cons.prems(1) by (simp add: mouse_idle_def)
    have "mouse_idle ?t" using b(1) mouse_q_push_ok [of "s\<lparr>s_mouse_buf := b, s_mouse_phase := 0\<rparr>"] ok by (simp add: mouse_idle_def)
    from Cons.IH [OF this] Cons.prems(2) obtain u where u: "mouse_idle u"
        "fold (\<lambda>b s. ps2_pump_mouse_byte s b) (concat (map mouse_packet evs)) ?t = u"
        "mouse_events u = mouse_events (fold (\<lambda>x s. mouse_q_push s x) evs ?t)" by auto
    have q: "mouse_q_ok ?t" "mouse_q_ok (mouse_q_push s ev)" "mouse_events ?t = mouse_events (mouse_q_push s ev)"
      using ok by (simp_all add: mouse_q_push_ok mouse_q_push_events)
    have "mouse_events u = mouse_events (fold (\<lambda>x s. mouse_q_push s x) evs (mouse_q_push s ev))"
      unfolding u(3) using mouse.push_all [OF q(1), of evs] mouse.push_all [OF q(2), of evs] q(3) by simp
    then show ?case using u(1,2) b(2) by simp
  qed simp
  then show ?thesis using mouse.push_all [of s evs] assms(1) by (auto simp: mouse_idle_def)
qed

section \<open>Two devices behind one controller\<close>

text \<open>
  What the loops rely on of the controller: the bytes that wait, oldest first, each marked as coming
  from the mouse or not; bit 0 of the status port says whether one waits and bit 5 where it comes
  from; reading the data port takes it.
\<close>

definition ps2_controller :: "('d \<Rightarrow> u16 \<Rightarrow> u8 \<times> 'd) \<Rightarrow> ('d \<Rightarrow> (bool \<times> u8) list) \<Rightarrow> bool" where
  "ps2_controller inb pending \<longleftrightarrow>
     (\<forall>d. let (status, d') = inb d PS2_STATUS in pending d' = pending d \<and> (status AND 0x01 \<noteq> 0 \<longleftrightarrow> pending d \<noteq> []) \<and>
        (pending d \<noteq> [] \<longrightarrow> (status AND 0x20 \<noteq> 0 \<longleftrightarrow> fst (hd (pending d))))) \<and>
     (\<forall>d. pending d \<noteq> [] \<longrightarrow> (let (b, d') = inb d PS2_DATA in b = snd (hd (pending d)) \<and> pending d' = tl (pending d)))"

definition waiting :: "('d \<Rightarrow> (bool \<times> u8) list) \<Rightarrow> 'd input_state \<Rightarrow> (bool \<times> u8) list" where
  "waiting pending s = pending (in_dev s)"

definition mouse_bytes :: "(bool \<times> u8) list \<Rightarrow> u8 list" where
  "mouse_bytes bs = map snd (filter fst bs)"

definition key_bytes :: "(bool \<times> u8) list \<Rightarrow> u8 list" where
  "key_bytes bs = map snd (filter (\<lambda>b. \<not> fst b) bs)"

text \<open>The characters that a sequence of keyboard bytes stands for.\<close>

fun key_chars :: "'d input_state \<Rightarrow> u8 list \<Rightarrow> u8 list" where
  "key_chars s [] = []"
| "key_chars s (b # bs) = (let (s, c) = char_step s b in (if c \<noteq> 0 then [c] else []) @ key_chars s bs)"

lemma key_chars_Cons: "key_chars s (b # bs) = (if snd (char_step s b) \<noteq> 0 then [snd (char_step s b)] else []) @ key_chars (fst (char_step s b)) bs"
  by (simp add: split_def Let_def)

text \<open>Keyboard bytes and mouse bytes on a state without the devices.\<close>

definition after_bytes :: "u8 list \<Rightarrow> u8 list \<Rightarrow> 'd input_state \<Rightarrow> 'd input_state" where
  "after_bytes ks ms s = fold (\<lambda>b s. ps2_pump_mouse_byte s b) ms (fold (\<lambda>b s. fst (char_step s b)) ks s)"

lemma pump_dev: "ps2_pump_mouse_byte (s\<lparr>in_dev := d\<rparr>) b = (ps2_pump_mouse_byte s b)\<lparr>in_dev := d\<rparr>"
  by (simp add: ps2_pump_mouse_byte_def mouse_q_push_def mouse_q_full_def Let_def split: option.split)

lemma char_dev: "char_step (s\<lparr>in_dev := d\<rparr>) b = (let (s, c) = char_step s b in (s\<lparr>in_dev := d\<rparr>, c))"
  by (simp add: char_step_def Let_def)

lemma pump_keys:
  "ps2_pump_mouse_byte (s\<lparr>s_ext := e, s_shift := h, s_caps := k\<rparr>) b = (ps2_pump_mouse_byte s b)\<lparr>s_ext := e, s_shift := h, s_caps := k\<rparr>"
  "s_ext (ps2_pump_mouse_byte s b) = s_ext s" "s_shift (ps2_pump_mouse_byte s b) = s_shift s" "s_caps (ps2_pump_mouse_byte s b) = s_caps s"
  by (simp_all add: ps2_pump_mouse_byte_def mouse_q_push_def mouse_q_full_def Let_def split: option.split)

lemma char_step_form:
  obtains F G H I where "\<And>s :: 'd input_state. char_step s b =
    (s\<lparr>s_ext := F (s_ext s), s_shift := G (s_ext s) (s_shift s), s_caps := H (s_ext s) (s_caps s)\<rparr>, I (s_ext s) (s_shift s) (s_caps s))"
proof
  let ?make = "b AND 0x7F"
  let ?F = "\<lambda>e :: bool. b = 0xE0"
  let ?G = "\<lambda>e h. if b = 0xE0 \<or> e then h else if b AND 0x80 \<noteq> 0 then (if ?make = 0x2A \<or> ?make = 0x36 then False else h)
      else if b = 0x2A \<or> b = 0x36 then True else h"
  let ?H = "\<lambda>e k. if b = 0xE0 \<or> e \<or> b AND 0x80 \<noteq> 0 \<or> b = 0x2A \<or> b = 0x36 then k else if b = 0x3A then \<not> k else k"
  let ?I = "\<lambda>e h k. if b = 0xE0 \<or> e \<or> b AND 0x80 \<noteq> 0 \<or> b = 0x2A \<or> b = 0x36 \<or> b = 0x3A \<or> b = 0x1D \<or> b = 0x38 \<or> unat b \<ge> 128 then 0
      else let base_n = s_sc_normal ! unat b; base_s = s_sc_shifted ! unat b in
        if is_letter base_n then (if k \<noteq> h then base_s else base_n) else if h then base_s else base_n"
  show "char_step s b = (s\<lparr>s_ext := ?F (s_ext s), s_shift := ?G (s_ext s) (s_shift s), s_caps := ?H (s_ext s) (s_caps s)\<rparr>, ?I (s_ext s) (s_shift s) (s_caps s))" for s :: "'d input_state"
    by (simp add: char_step_def Let_def)
qed

lemma pump_char:
  fixes s :: "'d input_state"
  shows "char_step (ps2_pump_mouse_byte s a) b = (let (s, c) = char_step s b in (ps2_pump_mouse_byte s a, c))"
proof -
  obtain F G H I where c: "\<And>s :: 'd input_state. char_step s b =
    (s\<lparr>s_ext := F (s_ext s), s_shift := G (s_ext s) (s_shift s), s_caps := H (s_ext s) (s_caps s)\<rparr>, I (s_ext s) (s_shift s) (s_caps s))"
    by (rule char_step_form [of b]) (rule that)
  show ?thesis by (simp add: c pump_keys)
qed

lemma key_chars_dev [simp]: "key_chars (s\<lparr>in_dev := d\<rparr>) bs = key_chars s bs"
  by (induction bs arbitrary: s) (simp_all add: char_dev Let_def split: prod.splits)

lemma key_chars_pump [simp]: "key_chars (ps2_pump_mouse_byte s a) bs = key_chars s bs"
  by (induction bs arbitrary: s) (simp_all add: pump_char Let_def split: prod.splits)

lemma after_bytes_key: "after_bytes ks ms (fst (char_step s b)) = after_bytes (b # ks) ms s"
  by (simp add: after_bytes_def)

lemma fold_pump_char: "fold (\<lambda>b s. fst (char_step s b)) ks (ps2_pump_mouse_byte s m) = ps2_pump_mouse_byte (fold (\<lambda>b s. fst (char_step s b)) ks s) m"
  by (induction ks arbitrary: s) (simp_all add: pump_char Let_def split: prod.splits)

lemma after_bytes_mouse: "after_bytes ks ms (ps2_pump_mouse_byte s b) = after_bytes ks (b # ms) s"
  by (simp add: after_bytes_def fold_pump_char)

lemma after_bytes_dev: "after_bytes ks ms (s\<lparr>in_dev := d\<rparr>) = (after_bytes ks ms s)\<lparr>in_dev := d\<rparr>"
proof -
  have k: "fold (\<lambda>b s. fst (char_step s b)) ks (s\<lparr>in_dev := d\<rparr>) = (fold (\<lambda>b s. fst (char_step s b)) ks s)\<lparr>in_dev := d\<rparr>" for s
    by (induction ks arbitrary: s) (simp_all add: char_dev Let_def split: prod.splits)
  have m: "fold (\<lambda>b s. ps2_pump_mouse_byte s b) ms (s\<lparr>in_dev := d\<rparr>) = (fold (\<lambda>b s. ps2_pump_mouse_byte s b) ms s)\<lparr>in_dev := d\<rparr>" for s
    by (induction ms arbitrary: s) (simp_all add: pump_dev)
  show ?thesis by (simp add: after_bytes_def k m)
qed

lemma bytes_simps [simp]:
  "mouse_bytes [] = []" "key_bytes [] = []" "mouse_bytes ((True, b) # bs) = b # mouse_bytes bs" "mouse_bytes ((False, b) # bs) = mouse_bytes bs"
  "key_bytes ((True, b) # bs) = key_bytes bs" "key_bytes ((False, b) # bs) = b # key_bytes bs"
  by (simp_all add: mouse_bytes_def key_bytes_def)

lemma controller_status:
  assumes "ps2_controller inb pending" "port_in inb s PS2_STATUS = (status, s')"
  shows "\<exists>d. s' = s\<lparr>in_dev := d\<rparr> \<and> waiting pending s' = waiting pending s" "status AND 0x01 = 0 \<longleftrightarrow> waiting pending s = []"
    "waiting pending s = (aux, b) # bs \<Longrightarrow> status AND 0x20 = 0 \<longleftrightarrow> \<not> aux"
proof -
  have "let (status, d') = inb (in_dev s) PS2_STATUS in pending d' = pending (in_dev s) \<and> (status AND 0x01 \<noteq> 0 \<longleftrightarrow> pending (in_dev s) \<noteq> []) \<and>
      (pending (in_dev s) \<noteq> [] \<longrightarrow> (status AND 0x20 \<noteq> 0 \<longleftrightarrow> fst (hd (pending (in_dev s)))))"
    using assms(1) unfolding ps2_controller_def by blast
  then show "\<exists>d. s' = s\<lparr>in_dev := d\<rparr> \<and> waiting pending s' = waiting pending s" "status AND 0x01 = 0 \<longleftrightarrow> waiting pending s = []"
    "waiting pending s = (aux, b) # bs \<Longrightarrow> status AND 0x20 = 0 \<longleftrightarrow> \<not> aux"
    using assms(2) by (auto simp: port_in_def waiting_def split: prod.splits)
qed

lemma controller_data:
  assumes "ps2_controller inb pending" "waiting pending s = (aux, b) # bs"
  shows "\<exists>d. port_in inb s PS2_DATA = (b, s\<lparr>in_dev := d\<rparr>) \<and> waiting pending (s\<lparr>in_dev := d\<rparr>) = bs"
proof -
  have "pending (in_dev s) \<noteq> [] \<longrightarrow> (let (b, d') = inb (in_dev s) PS2_DATA in b = snd (hd (pending (in_dev s))) \<and> pending d' = tl (pending (in_dev s)))"
    using assms(1) unfolding ps2_controller_def by blast
  then show ?thesis using assms(2) by (auto simp: port_in_def waiting_def split: prod.splits)
qed

lemma in_dev_steps [simp]:
  "waiting pending (ps2_pump_mouse_byte s b) = waiting pending s" "waiting pending (fst (char_step s b)) = waiting pending s"
  by (auto simp: waiting_def ps2_pump_mouse_byte_def mouse_q_push_def char_step_def Let_def split: option.split)

text \<open>
  C32. Keyboard and mouse share one controller, and their bytes do not disturb each other. On a
  controller with any sequence of waiting bytes, reading a character returns; the bytes it took are
  a prefix of those that waited; afterwards the keyboard state is that of the keyboard bytes taken
  alone and the mouse state that of the mouse bytes alone; the character is the next one that the
  keyboard bytes stand for; and it is 0 only when nothing waits any more.
\<close>

theorem ps2_streams_separate:
  assumes "ps2_controller inb pending"
  shows "\<exists>s' c bs. ps2_try_read inb s = Some (s', c) \<and> waiting pending s = bs @ waiting pending s' \<and>
    s' = (after_bytes (key_bytes bs) (mouse_bytes bs) s)\<lparr>in_dev := in_dev s'\<rparr> \<and>
    key_chars s (key_bytes (waiting pending s)) = (if c = 0 then [] else c # key_chars s' (key_bytes (waiting pending s'))) \<and>
    (c = 0 \<longrightarrow> waiting pending s' = [])"
proof (induction "waiting pending s" arbitrary: s)
  case Nil
  obtain status s1 where p: "port_in inb s PS2_STATUS = (status, s1)" by fastforce
  note S = controller_status [OF assms p]
  obtain d where d: "s1 = s\<lparr>in_dev := d\<rparr>" "waiting pending s1 = []" using S(1) Nil by auto
  have "ps2_try_read inb s = Some (s1, 0)" using p S(2) Nil by (subst ps2_try_read.simps) simp
  then show ?case using Nil d by (intro exI [of _ s1] exI [of _ 0] exI [of _ "[]"]) (simp add: after_bytes_def)
next
  case (Cons x bs)
  obtain aux b where x: "x = (aux, b)" by fastforce
  obtain status s1 where p: "port_in inb s PS2_STATUS = (status, s1)" by fastforce
  have w: "waiting pending s = (aux, b) # bs" using Cons.hyps(2) x by simp
  note S = controller_status [OF assms p]
  obtain d where d: "s1 = s\<lparr>in_dev := d\<rparr>" "waiting pending s1 = (aux, b) # bs" using S(1) w by auto
  obtain d2 where d2: "port_in inb s1 PS2_DATA = (b, s1\<lparr>in_dev := d2\<rparr>)" "waiting pending (s1\<lparr>in_dev := d2\<rparr>) = bs"
    using controller_data [OF assms d(2)] by blast
  let ?s2 = "s\<lparr>in_dev := d2\<rparr>"
  have w2: "waiting pending ?s2 = bs" "port_in inb s1 PS2_DATA = (b, ?s2)" using d2 d(1) by simp_all
  have one: "\<not> status AND 0x01 = 0" using S(2) w by simp
  show ?case
  proof (cases aux)
    case True
    let ?s3 = "ps2_pump_mouse_byte ?s2 b"
    have e: "ps2_try_read inb s = ps2_try_read inb ?s3" using p one w2(2) S(3) [OF w] True by (subst ps2_try_read.simps) simp
    from Cons.hyps(1) [of ?s3] w2(1) obtain s' c cs where IH: "ps2_try_read inb ?s3 = Some (s', c)" "bs = cs @ waiting pending s'"
        "s' = (after_bytes (key_bytes cs) (mouse_bytes cs) ?s3)\<lparr>in_dev := in_dev s'\<rparr>"
        "key_chars ?s3 (key_bytes bs) = (if c = 0 then [] else c # key_chars s' (key_bytes (waiting pending s')))" "c = 0 \<longrightarrow> waiting pending s' = []"
      by auto
    have "s' = (after_bytes (key_bytes (x # cs)) (mouse_bytes (x # cs)) s)\<lparr>in_dev := in_dev s'\<rparr>"
      using IH(3) x True by (simp add: after_bytes_mouse after_bytes_dev)
    then show ?thesis using IH e w x True by (intro exI [of _ s'] exI [of _ c] exI [of _ "x # cs"]) simp
  next
    case False
    let ?s3 = "fst (char_step ?s2 b)" and ?c = "snd (char_step ?s2 b)"
    have cs: "snd (char_step s b) = ?c" "fst (char_step ?s2 b) = (fst (char_step s b))\<lparr>in_dev := d2\<rparr>" by (simp_all add: char_dev Let_def split: prod.splits)
    show ?thesis
    proof (cases "?c = 0")
      case c0: True
      have e: "ps2_try_read inb s = ps2_try_read inb ?s3" using p one w2(2) S(3) [OF w] False c0 by (subst ps2_try_read.simps) (auto split: prod.splits)
      from Cons.hyps(1) [of ?s3] w2(1) obtain s' c cs' where IH: "ps2_try_read inb ?s3 = Some (s', c)" "bs = cs' @ waiting pending s'"
          "s' = (after_bytes (key_bytes cs') (mouse_bytes cs') ?s3)\<lparr>in_dev := in_dev s'\<rparr>"
          "key_chars ?s3 (key_bytes bs) = (if c = 0 then [] else c # key_chars s' (key_bytes (waiting pending s')))" "c = 0 \<longrightarrow> waiting pending s' = []"
        by auto
      have "s' = (after_bytes (key_bytes (x # cs')) (mouse_bytes (x # cs')) s)\<lparr>in_dev := in_dev s'\<rparr>"
        using IH(3) x False by (simp add: after_bytes_dev cs(2) flip: after_bytes_key)
      then show ?thesis using IH e w x False c0 cs by (intro exI [of _ s'] exI [of _ c] exI [of _ "x # cs'"]) (simp add: key_chars_Cons del: key_chars.simps)
    next
      case c1: False
      have e: "ps2_try_read inb s = Some (?s3, ?c)" using p one w2(2) S(3) [OF w] False c1 by (subst ps2_try_read.simps) (auto split: prod.splits)
      have "?s3 = (after_bytes (key_bytes [x]) (mouse_bytes [x]) s)\<lparr>in_dev := in_dev ?s3\<rparr>" using x False cs(2) by (simp add: after_bytes_def)
      moreover have w3: "waiting pending ?s3 = bs" using w2(1) by simp
      moreover have "key_chars s (key_bytes (waiting pending s)) = ?c # key_chars ?s3 (key_bytes bs)"
        unfolding w using False c1 cs by (simp add: key_chars_Cons del: key_chars.simps)
      ultimately show ?thesis using e w x c1 by (intro exI [of _ ?s3] exI [of _ ?c] exI [of _ "[x]"]) (simp only: append.simps if_False simp_thms)
    qed
  qed
qed

definition input_boot :: "'d \<Rightarrow> 'd input_state" where
  "input_boot d = \<lparr>s_shift = False, s_caps = False, s_ext = False, s_ctrl = False, s_alt = False, s_mouse_ready = False,
     s_mouse_buf = [0, 0, 0], s_mouse_phase = 0,
     s_mouse_queue = replicate 8 \<lparr>ev_dx = 0, ev_dy = 0, ev_buttons = 0\<rparr>, s_mouse_q_head = 0, s_mouse_q_tail = 0, in_dev = d\<rparr>"

lemma input_boot_idle: "mouse_idle (input_boot d)" "mouse_events (input_boot d) = []"
  by (simp_all add: mouse_idle_def mouse_q_ok_def input_boot_def MOUSE_QUEUE_SIZE_def mouse_events_def ring_list_def ring_size_def)

lemma mouse_packets_decoded_witness:
  "mouse_events (fold (\<lambda>b s. ps2_pump_mouse_byte s b) [0x19, - 5, 3] (input_boot ())) = [\<lparr>ev_dx = - 5, ev_dy = - 3, ev_buttons = 1\<rparr>]"
  using mouse_packets_decoded [OF input_boot_idle(1), of "[\<lparr>ev_dx = - 5, ev_dy = - 3, ev_buttons = 1\<rparr>]" "()"]
  by (simp add: mouse_event_ok_def mouse_packet_def input_boot_idle)

text \<open>A controller that holds a list of bytes, and nothing on the serial line.\<close>

definition fifo_inb :: "(bool \<times> u8) list \<Rightarrow> u16 \<Rightarrow> u8 \<times> (bool \<times> u8) list" where
  "fifo_inb d port =
     (if port = PS2_STATUS then (case d of [] \<Rightarrow> 0 | (aux, _) # _ \<Rightarrow> if aux then 0x21 else 0x01, d)
      else if port = PS2_DATA then (case d of [] \<Rightarrow> (0, []) | (_, b) # bs \<Rightarrow> (b, bs))
      else (0, d))"

lemma fifo_controller: "ps2_controller fifo_inb (\<lambda>d. d)"
  by (auto simp: ps2_controller_def fifo_inb_def PS2_STATUS_def PS2_DATA_def split: list.splits)

lemma ps2_streams_separate_witness:
  "\<exists>s'. ps2_try_read fifo_inb (input_boot [(False, 0x2A), (True, 0x19), (True, 0xFB), (False, 0x1E), (True, 3)]) = Some (s', 65) \<and>
     waiting (\<lambda>d. d) s' = [(True, 3)]"
proof -
  let ?s = "input_boot [(False, 0x2A), (True, 0x19), (True, 0xFB), (False, 0x1E), (True, 3)] :: (bool \<times> u8) list input_state"
  have c: "key_chars ?s [0x2A, 0x1E] = [65]" by code_simp
  obtain s' c bs where T: "ps2_try_read fifo_inb ?s = Some (s', c)" "waiting (\<lambda>d. d) ?s = bs @ waiting (\<lambda>d. d) s'"
      "key_chars ?s (key_bytes (waiting (\<lambda>d. d) ?s)) = (if c = 0 then [] else c # key_chars s' (key_bytes (waiting (\<lambda>d. d) s')))"
    using ps2_streams_separate [OF fifo_controller, of ?s] by blast
  have "map_option (\<lambda>(s, c). in_dev s) (ps2_try_read fifo_inb ?s) = Some [(True, 3)]" by code_simp
  then show ?thesis using T c by (auto simp: waiting_def input_boot_def split: if_splits)
qed

end
