(* ===== verification/Sound.thy ===== *)
theory Sound
  imports HeapFrame Sched
begin

text \<open>
  The sound subsystem of src/core/sound.cpp: the registered driver, the software mixer with its
  channels, and the worker. A segment owns a copy of its samples on the kernel heap. The driver's
  functions are those of the table it registers, which act on a state \<open>'d\<close> of the driver and its
  hardware; a function pointer that may be null is an option, and a call through a null pointer,
  which some paths do not guard against, makes the operation \<open>None\<close>. A section under \<open>s_sound_lock\<close>
  is one step. Samples are integers; that the 32-bit accumulators hold them is proved.
\<close>

section \<open>State\<close>

datatype sound_format = unsigned_8 | signed_16 | signed_16_stereo

record 'd sound_driver =
  drv_name :: string
  drv_init :: "('d \<Rightarrow> 'd \<times> bool) option"
  drv_shutdown :: "('d \<Rightarrow> 'd) option"
  drv_set_sample_rate :: "('d \<Rightarrow> u32 \<Rightarrow> 'd \<times> bool) option"
  drv_play :: "('d \<Rightarrow> u8 list \<Rightarrow> sound_format \<Rightarrow> 'd \<times> bool) option"
  drv_stop :: "('d \<Rightarrow> 'd) option"
  drv_is_playing :: "('d \<Rightarrow> 'd \<times> bool) option"
  drv_buffered_frames :: "('d \<Rightarrow> 'd \<times> u32) option"
  drv_set_volume :: "('d \<Rightarrow> u8 \<Rightarrow> u8 \<Rightarrow> 'd) option"

record mix_segment =
  sg_data :: u64
  sg_source_data :: u64
  sg_src_total :: u32
  sg_src_pos :: u32
  sg_sample_rate :: u32
  sg_fmt :: sound_format
  sg_vol_left :: u8
  sg_vol_right :: u8

record mix_ch =
  mc_current :: mix_segment
  mc_pending :: "mix_segment list"
  mc_pending_head :: nat
  mc_pending_tail :: nat
  mc_pending_count :: nat
  mc_active :: bool

record 'd sound_state =
  snd_active :: "'d sound_driver option"
  snd_initialised :: bool
  snd_volume_left :: u8
  snd_volume_right :: u8
  snd_requested_sample_rate :: u32
  snd_background_worker_started :: bool
  snd_mix_ch :: "mix_ch list"
  snd_km :: kmemory
  snd_dev :: 'd

definition MIX_OUTPUT_RATE :: nat where "MIX_OUTPUT_RATE = 48000"
definition MIX_WINDOW_FRAMES :: nat where "MIX_WINDOW_FRAMES = 16384"
definition MIX_TARGET_BUFFERED_FRAMES :: nat where "MIX_TARGET_BUFFERED_FRAMES = MIX_OUTPUT_RATE div 4"
definition MIX_QUEUE_CAPACITY :: nat where "MIX_QUEUE_CAPACITY = 4"
definition MIX_CHANNELS :: nat where "MIX_CHANNELS = 8"

definition empty_segment :: mix_segment where
  "empty_segment = \<lparr>sg_data = 0, sg_source_data = 0, sg_src_total = 0, sg_src_pos = 0, sg_sample_rate = 0, sg_fmt = unsigned_8,
     sg_vol_left = 0, sg_vol_right = 0\<rparr>"

definition empty_channel :: mix_ch where
  "empty_channel = \<lparr>mc_current = empty_segment, mc_pending = replicate MIX_QUEUE_CAPACITY empty_segment, mc_pending_head = 0,
     mc_pending_tail = 0, mc_pending_count = 0, mc_active = False\<rparr>"

section \<open>Segments and channels\<close>

primrec bytes_per_unit :: "sound_format \<Rightarrow> u32" where
  "bytes_per_unit unsigned_8 = 1"
| "bytes_per_unit signed_16 = 2"
| "bytes_per_unit signed_16_stereo = 4"

definition payload_bytes :: "sound_format \<Rightarrow> u32 \<Rightarrow> u32" where
  "payload_bytes fmt src_total =
     (let unit_bytes = bytes_per_unit fmt in
      if unit_bytes = 0 \<or> src_total > NOT 0 div unit_bytes then 0 else src_total * unit_bytes)"

definition reset_segment :: "kmemory \<Rightarrow> mix_segment \<Rightarrow> kmemory \<times> mix_segment" where
  "reset_segment km sg = (if sg_data sg \<noteq> 0 then kh_free km (sg_data sg) else km, empty_segment)"

definition reset_mix_channel :: "kmemory \<Rightarrow> mix_ch \<Rightarrow> kmemory \<times> mix_ch" where
  "reset_mix_channel km ch =
     (let km = fst (reset_segment km (mc_current ch));
          km = fold (\<lambda>sg km. fst (reset_segment km sg)) (mc_pending ch) km
      in (km, empty_channel))"

definition adopt_current_segment :: "kmemory \<Rightarrow> mix_ch \<Rightarrow> mix_segment \<Rightarrow> kmemory \<times> mix_ch" where
  "adopt_current_segment km ch sg =
     (fst (reset_segment km (mc_current ch)), ch\<lparr>mc_current := sg, mc_active := (sg_data sg \<noteq> 0)\<rparr>)"

definition enqueue_pending_segment :: "mix_ch \<Rightarrow> mix_segment \<Rightarrow> mix_ch \<times> bool" where
  "enqueue_pending_segment ch sg =
     (if mc_pending_count ch \<ge> MIX_QUEUE_CAPACITY then (ch, False)
      else (ch\<lparr>mc_pending := (mc_pending ch)[mc_pending_tail ch := sg],
               mc_pending_tail := (mc_pending_tail ch + 1) mod MIX_QUEUE_CAPACITY,
               mc_pending_count := mc_pending_count ch + 1\<rparr>, True))"

definition activate_next_segment :: "mix_ch \<Rightarrow> mix_ch \<times> bool" where
  "activate_next_segment ch =
     (if mc_pending_count ch = 0 then (ch\<lparr>mc_active := False\<rparr>, False)
      else (ch\<lparr>mc_current := mc_pending ch ! mc_pending_head ch,
               mc_pending := (mc_pending ch)[mc_pending_head ch := empty_segment],
               mc_pending_head := (mc_pending_head ch + 1) mod MIX_QUEUE_CAPACITY,
               mc_pending_count := mc_pending_count ch - 1,
               mc_active := True\<rparr>, True))"

function refresh_loop :: "kmemory \<Rightarrow> mix_ch \<Rightarrow> (kmemory \<times> mix_ch) \<times> bool" where
  "refresh_loop km ch =
     (if \<not> mc_active ch then ((km, ch), False)
      else if sg_src_pos (mc_current ch) < sg_src_total (mc_current ch) then ((km, ch), True)
      else
        let (km, sg) = reset_segment km (mc_current ch);
            (ch, cont) = activate_next_segment (ch\<lparr>mc_current := sg\<rparr>) in
        if \<not> cont then ((km, ch), False) else refresh_loop km ch)"
  by pat_completeness auto
termination
  by (relation "measure (\<lambda>(km, ch). mc_pending_count ch)") (auto simp: activate_next_segment_def split: if_splits)

declare refresh_loop.simps [simp del]

definition refresh_channel :: "kmemory \<Rightarrow> mix_ch \<Rightarrow> (kmemory \<times> mix_ch) \<times> bool" where
  "refresh_channel km ch =
     (if \<not> mc_active ch then let (ch, cont) = activate_next_segment ch in ((km, ch), cont) else refresh_loop km ch)"

abbreviation set_channel :: "'d sound_state \<Rightarrow> nat \<Rightarrow> kmemory \<times> mix_ch \<Rightarrow> 'd sound_state" where
  "set_channel s i r \<equiv> s\<lparr>snd_km := fst r, snd_mix_ch := (snd_mix_ch s)[i := snd r]\<rparr>"

definition refresh_at :: "'d sound_state \<Rightarrow> nat \<Rightarrow> 'd sound_state \<times> bool" where
  "refresh_at s i = (let (r, playing) = refresh_channel (snd_km s) (snd_mix_ch s ! i) in (set_channel s i r, playing))"

definition mix_is_playing_locked :: "'d sound_state \<Rightarrow> int \<Rightarrow> 'd sound_state \<times> bool" where
  "mix_is_playing_locked s ch_idx = (if ch_idx < 0 \<or> nat ch_idx \<ge> MIX_CHANNELS then (s, False) else refresh_at s (nat ch_idx))"

fun any_active_from :: "'d sound_state \<Rightarrow> nat list \<Rightarrow> 'd sound_state \<times> bool" where
  "any_active_from s [] = (s, False)"
| "any_active_from s (i # is) =
     (let (s, playing) = mix_is_playing_locked s (int i) in if playing then (s, True) else any_active_from s is)"

definition any_active_mix_channels :: "'d sound_state \<Rightarrow> 'd sound_state \<times> bool" where
  "any_active_mix_channels s = any_active_from s [0..<MIX_CHANNELS]"

section \<open>The driver\<close>

definition driver_is_playing :: "'d sound_state \<Rightarrow> 'd sound_state \<times> bool" where
  "driver_is_playing s =
     (case snd_active s of
        None \<Rightarrow> (s, False)
      | Some drv \<Rightarrow>
          if \<not> snd_initialised s then (s, False)
          else case drv_is_playing drv of None \<Rightarrow> (s, False) | Some f \<Rightarrow> let (d, r) = f (snd_dev s) in (s\<lparr>snd_dev := d\<rparr>, r))"

definition driver_buffered_frames :: "'d sound_state \<Rightarrow> 'd sound_state \<times> u32" where
  "driver_buffered_frames s =
     (case snd_active s of
        None \<Rightarrow> (s, 0)
      | Some drv \<Rightarrow>
          if \<not> snd_initialised s then (s, 0)
          else case drv_buffered_frames drv of None \<Rightarrow> (s, 0) | Some f \<Rightarrow> let (d, r) = f (snd_dev s) in (s\<lparr>snd_dev := d\<rparr>, r))"

definition stop_driver_if_idle :: "'d sound_state \<Rightarrow> 'd sound_state" where
  "stop_driver_if_idle s =
     (case snd_active s of
        None \<Rightarrow> s
      | Some drv \<Rightarrow>
          if \<not> snd_initialised s then s
          else case drv_stop drv of
            None \<Rightarrow> s
          | Some stop_fn \<Rightarrow>
              let (s, any_on) = any_active_mix_channels s in
              if any_on then s
              else
                let (s, playing) = driver_is_playing s in
                if playing then s else s\<lparr>snd_dev := stop_fn (snd_dev s)\<rparr>)"

section \<open>Mixing\<close>

text \<open>The frames one channel still has, at the output rate.\<close>

definition ch_frames :: "mix_segment \<Rightarrow> nat" where
  "ch_frames sg =
     (let remaining = unat (sg_src_total sg - sg_src_pos sg)
      in unat (word_of_nat ((remaining * MIX_OUTPUT_RATE + unat (sg_sample_rate sg) - 1) div unat (sg_sample_rate sg)) :: u32))"

fun window_loop :: "'d sound_state \<Rightarrow> nat list \<Rightarrow> nat \<Rightarrow> 'd sound_state \<times> nat" where
  "window_loop s [] out_frames = (s, out_frames)"
| "window_loop s (i # is) out_frames =
     (let (s, playing) = refresh_at s i in
      if \<not> playing then window_loop s is out_frames
      else window_loop s is (max (ch_frames (mc_current (snd_mix_ch s ! i))) out_frames))"

definition i16_at :: "kmemory \<Rightarrow> u64 \<Rightarrow> int" where
  "i16_at km a = sint (le16 (heap_bytes km a 2) 0)"

text \<open>The left and right sample of a source unit.\<close>

definition frame_samples :: "kmemory \<Rightarrow> mix_segment \<Rightarrow> u32 \<Rightarrow> int \<times> int" where
  "frame_samples km sg idx =
     (case sg_fmt sg of
        unsigned_8 \<Rightarrow> let v = (uint (kh_mem (km_heap km) (sg_data sg + ucast idx)) - 128) * 256 in (v, v)
      | signed_16 \<Rightarrow> let v = i16_at km (sg_data sg + 2 * ucast idx) in (v, v)
      | signed_16_stereo \<Rightarrow> (i16_at km (sg_data sg + 2 * ucast (idx * 2)), i16_at km (sg_data sg + 2 * ucast (idx * 2 + 1))))"

definition src_index :: "mix_segment \<Rightarrow> nat \<Rightarrow> u32" where
  "src_index sg f = sg_src_pos sg + word_of_nat (f * unat (sg_sample_rate sg) div MIX_OUTPUT_RATE)"

text \<open>The frame loop of one channel: frame \<open>f\<close>, with \<open>n\<close> frames of the window left.\<close>

fun mix_frames :: "kmemory \<Rightarrow> mix_segment \<Rightarrow> nat \<Rightarrow> nat \<Rightarrow> int list \<Rightarrow> int list" where
  "mix_frames km sg f 0 acc = acc"
| "mix_frames km sg f (Suc n) acc =
     (let idx = src_index sg f in
      if idx \<ge> sg_src_total sg then acc
      else
        let (sample_l, sample_r) = frame_samples km sg idx;
            acc = acc[2 * f := acc ! (2 * f) + sample_l * uint (sg_vol_left sg) div 256];
            acc = acc[2 * f + 1 := acc ! (2 * f + 1) + sample_r * uint (sg_vol_right sg) div 256]
        in mix_frames km sg (Suc f) n acc)"

fun mix_channels_loop :: "'d sound_state \<Rightarrow> nat list \<Rightarrow> nat \<Rightarrow> int list \<Rightarrow> 'd sound_state \<times> int list" where
  "mix_channels_loop s [] out_frames acc = (s, acc)"
| "mix_channels_loop s (i # is) out_frames acc =
     (let (s, playing) = refresh_at s i in
      if \<not> playing then mix_channels_loop s is out_frames acc
      else mix_channels_loop s is out_frames (mix_frames (snd_km s) (mc_current (snd_mix_ch s ! i)) 0 out_frames acc))"

definition clamp_i16 :: "int \<Rightarrow> int" where
  "clamp_i16 v = (let v = (if v > 32767 then 32767 else v) in if v < - 32768 then - 32768 else v)"

definition i16_bytes :: "int \<Rightarrow> u8 list" where
  "i16_bytes v = (let w = word_of_int v :: u16 in [ucast w, ucast (drop_bit 8 w)])"

definition advance_segment :: "nat \<Rightarrow> mix_segment \<Rightarrow> mix_segment" where
  "advance_segment out_frames sg =
     (let remaining = sg_src_total sg - sg_src_pos sg;
          advance = word_of_nat (out_frames * unat (sg_sample_rate sg) div MIX_OUTPUT_RATE);
          advance = (if advance > remaining then remaining else advance)
      in sg\<lparr>sg_src_pos := sg_src_pos sg + advance\<rparr>)"

fun advance_loop :: "'d sound_state \<Rightarrow> nat list \<Rightarrow> nat \<Rightarrow> 'd sound_state" where
  "advance_loop s [] out_frames = s"
| "advance_loop s (i # is) out_frames =
     (let (s, playing) = refresh_at s i in
      if \<not> playing then advance_loop s is out_frames
      else
        let ch = snd_mix_ch s ! i;
            s = s\<lparr>snd_mix_ch := (snd_mix_ch s)[i := ch\<lparr>mc_current := advance_segment out_frames (mc_current ch)\<rparr>]\<rparr>
        in advance_loop (fst (refresh_at s i)) is out_frames)"

definition mix_do_submit :: "'d sound_state \<Rightarrow> ('d sound_state \<times> bool) option" where
  "mix_do_submit s =
     (case snd_active s of
        None \<Rightarrow> Some (s, False)
      | Some drv \<Rightarrow>
          if \<not> snd_initialised s then Some (s, False)
          else
            let (s, out_frames) = window_loop s [0..<MIX_CHANNELS] 0 in
            if out_frames = 0 then map_option (\<lambda>stop_fn. (s\<lparr>snd_dev := stop_fn (snd_dev s)\<rparr>, False)) (drv_stop drv)
            else do {
              let out_frames = min out_frames MIX_WINDOW_FRAMES;
              let (s, acc) = mix_channels_loop s [0..<MIX_CHANNELS] out_frames (replicate (2 * out_frames) 0);
              let s = s\<lparr>snd_requested_sample_rate := word_of_nat MIX_OUTPUT_RATE\<rparr>;
              set_rate \<leftarrow> drv_set_sample_rate drv;
              let s = s\<lparr>snd_dev := fst (set_rate (snd_dev s) (word_of_nat MIX_OUTPUT_RATE))\<rparr>;
              play_fn \<leftarrow> drv_play drv;
              let (d, ok) = play_fn (snd_dev s) (concat (map (i16_bytes \<circ> clamp_i16) acc)) signed_16;
              let s = s\<lparr>snd_dev := d\<rparr>;
              if \<not> ok then Some (s, False)
              else Some (advance_loop s [0..<MIX_CHANNELS] out_frames, True)
            })"

partial_function (option) fill_loop :: "'d sound_state \<Rightarrow> 'd sound_state option" where
  "fill_loop s =
     (let (s, any_on) = any_active_mix_channels s in
      if \<not> any_on then Some s
      else
        let (s, buffered_before) = driver_buffered_frames s in
        if unat buffered_before \<ge> MIX_TARGET_BUFFERED_FRAMES then Some s
        else
          Option.bind (mix_do_submit s) (\<lambda>(s, ok).
            if \<not> ok then Some s
            else
              let (s, buffered) = driver_buffered_frames s in
              if buffered \<le> buffered_before then Some s else fill_loop s))"

declare fill_loop.simps [code]

definition mix_update_locked :: "'d sound_state \<Rightarrow> 'd sound_state option" where
  "mix_update_locked s =
     (let (s, any_on) = any_active_mix_channels s in
      if \<not> any_on then Some s
      else if (case snd_active s of None \<Rightarrow> False | Some drv \<Rightarrow> snd_initialised s \<and> drv_buffered_frames drv \<noteq> None) then fill_loop s
      else
        let (s, playing) = driver_is_playing s in
        if playing then Some s else map_option fst (mix_do_submit s))"

text \<open>One round of the worker, up to its sleep.\<close>

definition background_sound_round :: "'d sound_state \<Rightarrow> 'd sound_state option" where
  "background_sound_round s =
     (if snd_active s \<noteq> None \<and> snd_initialised s then
        do {
          let (s, any_on) = any_active_mix_channels s;
          s \<leftarrow> (if any_on then mix_update_locked s else Some s);
          let (s, playing) = driver_is_playing s;
          Some (if playing then s else fst (any_active_mix_channels s))
        }
      else Some s)"

section \<open>Public interface\<close>

definition sound_register_driver :: "'d sound_state \<Rightarrow> 'd sound_driver option \<Rightarrow> 'd sound_state" where
  "sound_register_driver s drv =
     (let s = (case snd_active s of
                 None \<Rightarrow> s
               | Some old \<Rightarrow>
                   if snd_initialised s then
                     let s = (case drv_shutdown old of None \<Rightarrow> s | Some f \<Rightarrow> s\<lparr>snd_dev := f (snd_dev s)\<rparr>)
                     in s\<lparr>snd_initialised := False\<rparr>
                   else s)
      in s\<lparr>snd_active := drv\<rparr>)"

definition init_active :: "'d sound_state \<Rightarrow> 'd sound_state \<times> bool" where
  "init_active s =
     (case snd_active s of
        None \<Rightarrow> (s, False)
      | Some drv \<Rightarrow>
          if snd_initialised s then (s, True)
          else case drv_init drv of
            None \<Rightarrow> (s, False)
          | Some f \<Rightarrow>
              let (d, ok) = f (snd_dev s); s = s\<lparr>snd_dev := d\<rparr> in
              if ok then (s\<lparr>snd_initialised := True\<rparr>, True) else (s, False))"

definition reset_at :: "'d sound_state \<Rightarrow> nat \<Rightarrow> 'd sound_state" where
  "reset_at s i = set_channel s i (reset_mix_channel (snd_km s) (snd_mix_ch s ! i))"

definition mix_shutdown :: "'d sound_state \<Rightarrow> 'd sound_state" where
  "mix_shutdown s = fold (\<lambda>i s. reset_at s i) [0..<MIX_CHANNELS] s"

definition shutdown_active :: "'d sound_state \<Rightarrow> 'd sound_state" where
  "shutdown_active s =
     (let s = (case snd_active s of
                 None \<Rightarrow> s
               | Some drv \<Rightarrow>
                   if snd_initialised s then (case drv_shutdown drv of None \<Rightarrow> s | Some f \<Rightarrow> s\<lparr>snd_dev := f (snd_dev s)\<rparr>) else s);
          s = fold (\<lambda>i s. reset_at s i) [0..<MIX_CHANNELS] s
      in s\<lparr>snd_initialised := False, snd_active := None, snd_requested_sample_rate := 0\<rparr>)"

definition sound_start_background_worker :: "platform \<Rightarrow> u64 \<Rightarrow> sched \<Rightarrow> 'd sound_state \<Rightarrow> sched \<times> 'd sound_state \<times> bool" where
  "sound_start_background_worker p entry sc s =
     (if snd_background_worker_started s then (sc, s, True)
      else
        let (sc, task_id) = create_task p sc ''sound'' entry 0 in
        if task_id < 0 then (sc, s, False) else (sc, s\<lparr>snd_background_worker_started := True\<rparr>, True))"

definition sound_set_sample_rate :: "'d sound_state \<Rightarrow> u32 \<Rightarrow> 'd sound_state \<times> bool" where
  "sound_set_sample_rate s rate_hz =
     (case snd_active s of
        None \<Rightarrow> (s, False)
      | Some drv \<Rightarrow>
          if \<not> snd_initialised s then (s, False)
          else case drv_set_sample_rate drv of
            None \<Rightarrow> (s, False)
          | Some f \<Rightarrow>
              let (d, ok) = f (snd_dev s) rate_hz; s = s\<lparr>snd_dev := d\<rparr> in
              if \<not> ok then (s, False) else (s\<lparr>snd_requested_sample_rate := rate_hz\<rparr>, True))"

definition sound_play :: "'d sound_state \<Rightarrow> u8 list \<Rightarrow> sound_format \<Rightarrow> 'd sound_state \<times> bool" where
  "sound_play s samples fmt =
     (case snd_active s of
        None \<Rightarrow> (s, False)
      | Some drv \<Rightarrow>
          if \<not> snd_initialised s then (s, False)
          else case drv_play drv of
            None \<Rightarrow> (s, False)
          | Some f \<Rightarrow> let (d, ok) = f (snd_dev s) samples fmt in (s\<lparr>snd_dev := d\<rparr>, ok))"

definition sound_stop :: "'d sound_state \<Rightarrow> 'd sound_state" where
  "sound_stop s =
     (case snd_active s of
        None \<Rightarrow> s
      | Some drv \<Rightarrow>
          if \<not> snd_initialised s then s
          else case drv_stop drv of None \<Rightarrow> s | Some f \<Rightarrow> s\<lparr>snd_dev := f (snd_dev s)\<rparr>)"

definition sound_is_playing :: "'d sound_state \<Rightarrow> 'd sound_state \<times> bool" where
  "sound_is_playing s = driver_is_playing s"

definition sound_set_volume :: "'d sound_state \<Rightarrow> u8 \<Rightarrow> u8 \<Rightarrow> 'd sound_state" where
  "sound_set_volume s left right =
     (let s = s\<lparr>snd_volume_left := left, snd_volume_right := right\<rparr> in
      case snd_active s of
        None \<Rightarrow> s
      | Some drv \<Rightarrow>
          if \<not> snd_initialised s then s
          else case drv_set_volume drv of None \<Rightarrow> s | Some f \<Rightarrow> s\<lparr>snd_dev := f (snd_dev s) left right\<rparr>)"

text \<open>The checks and the copy that \<open>mix_play\<close> and \<open>mix_queue_play\<close> begin with: the new segment, or \<open>None\<close> when they return false.\<close>

definition new_segment ::
  "kmemory \<Rightarrow> int \<Rightarrow> u64 \<Rightarrow> u8 list \<Rightarrow> u32 \<Rightarrow> sound_format \<Rightarrow> u32 \<Rightarrow> u8 \<Rightarrow> u8 \<Rightarrow> (kmemory \<times> mix_segment option) option" where
  "new_segment km ch_idx src_ptr samples src_samples fmt sample_rate vol_left vol_right =
     (if ch_idx < 0 \<or> nat ch_idx \<ge> MIX_CHANNELS then Some (km, None)
      else if src_ptr = 0 \<or> src_samples = 0 \<or> sample_rate = 0 then Some (km, None)
      else
        let total_bytes = payload_bytes fmt src_samples in
        if total_bytes = 0 then Some (km, None)
        else do {
          (km, owned_copy) \<leftarrow> kh_allocate km (ucast total_bytes);
          if owned_copy = 0 then Some (km, None)
          else Some (store km owned_copy (take (unat total_bytes) samples),
            Some \<lparr>sg_data = owned_copy, sg_source_data = src_ptr, sg_src_total = src_samples, sg_src_pos = 0, sg_sample_rate = sample_rate,
                  sg_fmt = fmt, sg_vol_left = vol_left, sg_vol_right = vol_right\<rparr>)
        })"

definition mix_play ::
  "'d sound_state \<Rightarrow> int \<Rightarrow> u64 \<Rightarrow> u8 list \<Rightarrow> u32 \<Rightarrow> sound_format \<Rightarrow> u32 \<Rightarrow> u8 \<Rightarrow> u8 \<Rightarrow> ('d sound_state \<times> bool) option" where
  "mix_play s ch_idx src_ptr samples src_samples fmt sample_rate vol_left vol_right =
     do {
       (km, seg) \<leftarrow> new_segment (snd_km s) ch_idx src_ptr samples src_samples fmt sample_rate vol_left vol_right;
       let s = s\<lparr>snd_km := km\<rparr>;
       (case seg of
          None \<Rightarrow> Some (s, False)
        | Some sg \<Rightarrow>
            let s = reset_at s (nat ch_idx) in
            Some (set_channel s (nat ch_idx) (adopt_current_segment (snd_km s) (snd_mix_ch s ! nat ch_idx) sg), True))
     }"

definition mix_queue_play ::
  "'d sound_state \<Rightarrow> int \<Rightarrow> u64 \<Rightarrow> u8 list \<Rightarrow> u32 \<Rightarrow> sound_format \<Rightarrow> u32 \<Rightarrow> u8 \<Rightarrow> u8 \<Rightarrow> ('d sound_state \<times> bool) option" where
  "mix_queue_play s ch_idx src_ptr samples src_samples fmt sample_rate vol_left vol_right =
     do {
       (km, seg) \<leftarrow> new_segment (snd_km s) ch_idx src_ptr samples src_samples fmt sample_rate vol_left vol_right;
       let s = s\<lparr>snd_km := km\<rparr>;
       (case seg of
          None \<Rightarrow> Some (s, False)
        | Some sg \<Rightarrow>
            let ch = snd_mix_ch s ! nat ch_idx in
            if \<not> mc_active ch \<and> mc_pending_count ch = 0
            then Some (set_channel s (nat ch_idx) (adopt_current_segment (snd_km s) ch sg), True)
            else
              let (ch, queued) = enqueue_pending_segment ch sg in
              if \<not> queued then Some (s\<lparr>snd_km := fst (reset_segment (snd_km s) sg)\<rparr>, False)
              else Some (set_channel s (nat ch_idx) (snd_km s, ch), True))
     }"

definition mix_stop :: "'d sound_state \<Rightarrow> int \<Rightarrow> 'd sound_state" where
  "mix_stop s ch_idx =
     (if ch_idx < 0 \<or> nat ch_idx \<ge> MIX_CHANNELS then s else stop_driver_if_idle (reset_at s (nat ch_idx)))"

definition mix_is_playing :: "'d sound_state \<Rightarrow> int \<Rightarrow> 'd sound_state \<times> bool" where
  "mix_is_playing s ch_idx = mix_is_playing_locked s ch_idx"

fun count_active :: "'d sound_state \<Rightarrow> nat list \<Rightarrow> 'd sound_state \<times> nat" where
  "count_active s [] = (s, 0)"
| "count_active s (i # is) =
     (let (s, playing) = mix_is_playing_locked s (int i); (s, n) = count_active s is in (s, if playing then n + 1 else n))"

definition active_mix_channels :: "'d sound_state \<Rightarrow> 'd sound_state \<times> nat" where
  "active_mix_channels s = count_active s [0..<MIX_CHANNELS]"

definition mix_update :: "'d sound_state \<Rightarrow> 'd sound_state option" where
  "mix_update s = mix_update_locked s"

definition from_range :: "u64 \<Rightarrow> u64 \<Rightarrow> mix_segment \<Rightarrow> bool" where
  "from_range start stop sg \<longleftrightarrow> sg_source_data sg \<noteq> 0 \<and> sg_source_data sg \<ge> start \<and> sg_source_data sg < stop"

definition mix_stop_range :: "'d sound_state \<Rightarrow> u64 \<Rightarrow> u64 \<Rightarrow> 'd sound_state" where
  "mix_stop_range s base sz =
     (if base = 0 \<or> sz = 0 then s
      else if base + sz < base then s
      else
        stop_driver_if_idle (fold (\<lambda>i s.
            let ch = snd_mix_ch s ! i in
            if from_range base (base + sz) (mc_current ch) \<or> (\<exists>sg \<in> set (mc_pending ch). from_range base (base + sz) sg)
            then reset_at s i else s) [0..<MIX_CHANNELS] s))"

end
