(* ===== verification/SoundInv.thy ===== *)
theory SoundInv
  imports Sound "HOL-Library.Multiset"
begin

text \<open>
  Which heap blocks the mixer owns: the copies behind its segments. \<open>holds_step km O km' O'\<close> says that
  a step turns the set \<open>O\<close> of owned blocks into \<open>O'\<close> and leaves every other live block, with its
  bytes, alone: no block is lost, none is taken from another owner. Every operation of the mixer is
  such a step and keeps the structure of the channels.
\<close>

section \<open>Owned blocks\<close>

definition heap_live_blocks :: "kmemory \<Rightarrow> u64 set" where
  "heap_live_blocks km = {q. kh_live km q \<noteq> {}}"

definition holds_step :: "kmemory \<Rightarrow> u64 set \<Rightarrow> kmemory \<Rightarrow> u64 set \<Rightarrow> bool" where
  "holds_step km O1 km' O2 \<longleftrightarrow> heap_frame km km' O1 \<and> heap_live_blocks km' = heap_live_blocks km - O1 \<union> O2 \<and> (O2 - O1) \<inter> heap_live_blocks km = {}"

lemma holds_step_refl: "km_inv km \<Longrightarrow> A \<subseteq> heap_live_blocks km \<Longrightarrow> holds_step km A km A"
  by (auto simp: holds_step_def heap_frame_refl)

lemma holds_step_inv: "holds_step km A km' B \<Longrightarrow> km_inv km'"
  by (auto simp: holds_step_def dest: heap_frame_inv)

lemma holds_step_live: "holds_step km A km' B \<Longrightarrow> B \<subseteq> heap_live_blocks km'"
  by (auto simp: holds_step_def)

lemma holds_step_trans:
  assumes 1: "holds_step km A km1 B" and 2: "holds_step km1 B km2 C"
  shows "holds_step km A km2 C"
proof -
  have "heap_frame km km2 A"
    by (rule heap_frame_trans [where b = km1 and B = B]) (use 1 2 in \<open>auto simp: holds_step_def heap_live_blocks_def\<close>)
  then show ?thesis using 1 2 by (auto simp: holds_step_def)
qed

lemma holds_step_widen:
  assumes s: "holds_step km A km' B" and R: "R \<subseteq> heap_live_blocks km" "R \<inter> A = {}"
  shows "holds_step km (A \<union> R) km' (B \<union> R)"
  using s R heap_frame_mono [of km km' A "A \<union> R"] by (auto simp: holds_step_def)

lemma holds_step_frame_block: "holds_step km A km' B \<Longrightarrow> q \<notin> A \<Longrightarrow> block_of km q n \<Longrightarrow> block_of km' q n"
  by (auto simp: holds_step_def intro: heap_frame_block)

lemma holds_step_free:
  assumes "km_inv km" "q \<in> heap_live_blocks km" shows "holds_step km {q} (kh_free km q) {}"
proof -
  have l: "kh_live km q \<noteq> {}" using assms(2) by (simp add: heap_live_blocks_def)
  note F = kh_free_live [OF assms(1) l]
  have "heap_live_blocks (kh_free km q) = heap_live_blocks km - {q}" 
  proof (intro set_eqI)
    show "x \<in> heap_live_blocks (kh_free km q) \<longleftrightarrow> x \<in> heap_live_blocks km - {q}" for x using F(2) F(3) [of x] by (cases "x = q") (simp_all add: heap_live_blocks_def)
  qed
  then show ?thesis using heap_frame_free [OF assms(1) l] by (simp add: holds_step_def)
qed

section \<open>Channels\<close>

abbreviation segs :: "mix_ch \<Rightarrow> mix_segment list" where
  "segs ch \<equiv> mc_current ch # mc_pending ch"

definition own :: "mix_ch \<Rightarrow> u64 list" where
  "own ch = filter (\<lambda>p. p \<noteq> 0) (map sg_data (segs ch))"

definition seg_ok :: "kmemory \<Rightarrow> mix_segment \<Rightarrow> bool" where
  "seg_ok km sg \<longleftrightarrow> (sg_data sg \<noteq> 0 \<longrightarrow>
     block_of km (sg_data sg) (unat (payload_bytes (sg_fmt sg) (sg_src_total sg))) \<and> payload_bytes (sg_fmt sg) (sg_src_total sg) \<noteq> 0 \<and>
     sg_sample_rate sg \<noteq> 0 \<and> sg_src_pos sg \<le> sg_src_total sg)"

definition ch_ok :: "mix_ch \<Rightarrow> bool" where
  "ch_ok ch \<longleftrightarrow> length (mc_pending ch) = 4 \<and> mc_pending_head ch < 4 \<and> mc_pending_count ch \<le> 4 \<and>
     mc_pending_tail ch = (mc_pending_head ch + mc_pending_count ch) mod 4 \<and>
     (\<forall>k < 4. sg_data (mc_pending ch ! ((mc_pending_head ch + k) mod 4)) \<noteq> 0 \<longleftrightarrow> k < mc_pending_count ch) \<and>
     (mc_active ch \<longleftrightarrow> sg_data (mc_current ch) \<noteq> 0) \<and> (\<not> mc_active ch \<longrightarrow> mc_pending_count ch = 0)"

definition ch_good :: "kmemory \<Rightarrow> mix_ch \<Rightarrow> bool" where
  "ch_good km ch \<longleftrightarrow> ch_ok ch \<and> (\<forall>sg \<in> set (segs ch). seg_ok km sg) \<and> distinct (own ch)"

text \<open>A step of one channel.\<close>

definition ch_step :: "kmemory \<Rightarrow> mix_ch \<Rightarrow> kmemory \<Rightarrow> mix_ch \<Rightarrow> bool" where
  "ch_step km ch km' ch' \<longleftrightarrow> ch_good km' ch' \<and> holds_step km (set (own ch)) km' (set (own ch'))"

lemma mset_own: "mset (own ch) = filter_mset (\<lambda>p. p \<noteq> 0) (add_mset (sg_data (mc_current ch)) (mset (map sg_data (mc_pending ch))))"
  by (simp add: own_def)

lemma seg_ok_live: "seg_ok km sg \<Longrightarrow> sg_data sg \<noteq> 0 \<Longrightarrow> sg_data sg \<in> heap_live_blocks km"
  using block_of_live [of km "sg_data sg" "unat (payload_bytes (sg_fmt sg) (sg_src_total sg))"] by (simp add: seg_ok_def heap_live_blocks_def unat_gt_0)

lemma own_live: "ch_good km ch \<Longrightarrow> set (own ch) \<subseteq> heap_live_blocks km"
  using seg_ok_live by (auto simp: ch_good_def own_def)

lemma seg_ok_frame: "holds_step km A km' B \<Longrightarrow> seg_ok km sg \<Longrightarrow> sg_data sg \<notin> A \<Longrightarrow> seg_ok km' sg"
  using holds_step_frame_block by (auto simp: seg_ok_def)

lemma seg_ok_empty [simp]: "seg_ok km empty_segment" "sg_data empty_segment = 0"
  by (simp_all add: seg_ok_def empty_segment_def)

lemma ch_ok_empty [simp]: "ch_ok empty_channel" "own empty_channel = []"
  by (simp_all add: ch_ok_def empty_channel_def MIX_QUEUE_CAPACITY_def own_def)

lemma ch_good_empty [simp]: "ch_good km empty_channel"
  by (simp add: ch_good_def) (simp add: empty_channel_def)

lemma ch_step_refl: "km_inv km \<Longrightarrow> ch_good km ch \<Longrightarrow> ch_step km ch km ch"
  by (simp add: ch_step_def holds_step_refl own_live)

lemma ch_step_trans: "ch_step km ch km1 ch1 \<Longrightarrow> ch_step km1 ch1 km2 ch2 \<Longrightarrow> ch_step km ch km2 ch2"
  by (auto simp: ch_step_def intro: holds_step_trans)

text \<open>Freeing a list of owned blocks.\<close>

lemma free_all:
  assumes "km_inv km" "set ps \<subseteq> heap_live_blocks km" "distinct ps"
  shows "holds_step km (set ps) (fold (\<lambda>p km. kh_free km p) ps km) {}"
  using assms
proof (induction ps arbitrary: km)
  case Nil
  then show ?case using holds_step_refl [of km "{}"] by simp
next
  case (Cons p ps)
  have 1: "holds_step km {p} (kh_free km p) {}" using Cons.prems by (intro holds_step_free) auto
  have 2: "holds_step km (set (p # ps)) (kh_free km p) (set ps)"
    using holds_step_widen [OF 1, of "set ps"] Cons.prems by auto
  have "holds_step (kh_free km p) (set ps) (fold (\<lambda>p km. kh_free km p) ps (kh_free km p)) {}"
    using Cons.IH [OF holds_step_inv [OF 1]] Cons.prems(3) holds_step_live [OF 2] by auto
  then show ?case using holds_step_trans [OF 2] by simp
qed

lemma fold_reset_segment: "fold (\<lambda>sg km. fst (reset_segment km sg)) sgs km = fold (\<lambda>p km. kh_free km p) (filter (\<lambda>p. p \<noteq> 0) (map sg_data sgs)) km"
  by (induction sgs arbitrary: km) (simp_all add: reset_segment_def)

lemma reset_mix_channel_step:
  assumes "km_inv km" "ch_good km ch" "reset_mix_channel km ch = (km', ch')"
  shows "ch_step km ch km' ch'"
proof -
  have "km' = fold (\<lambda>sg km. fst (reset_segment km sg)) (segs ch) km" "ch' = empty_channel"
    using assms(3) by (auto simp: reset_mix_channel_def Let_def)
  then have "km' = fold (\<lambda>p km. kh_free km p) (own ch) km" "ch' = empty_channel" unfolding fold_reset_segment own_def by simp_all
  moreover have "distinct (own ch)" using assms(2) by (simp add: ch_good_def)
  ultimately show ?thesis using free_all [OF assms(1) own_live [OF assms(2)]] by (simp add: ch_step_def)
qed

lemma less_4: "(k :: nat) < 4 \<longleftrightarrow> k = 0 \<or> k = 1 \<or> k = 2 \<or> k = 3"
  by auto

lemma activate_ok:
  assumes ok: "ch_ok ch" and e: "mc_active ch" "mc_pending_count ch \<noteq> 0"
    and a: "activate_next_segment (ch\<lparr>mc_current := empty_segment\<rparr>) = (ch', cont)"
  shows "cont" "ch_ok ch'" "mset (own ch') = mset (own (ch\<lparr>mc_current := empty_segment\<rparr>))" "set (segs ch') \<subseteq> insert empty_segment (set (mc_pending ch))"
proof -
  show "cont" using a e by (auto simp: activate_next_segment_def)
  let ?h = "mc_pending_head ch" and ?p = "mc_pending ch"
  have b: "?h < length ?p" "length ?p = 4" using ok by (auto simp: ch_ok_def)
  have ch': "mc_current ch' = ?p ! ?h" "mc_pending ch' = ?p[?h := empty_segment]" "mc_pending_head ch' = (?h + 1) mod 4"
    "mc_pending_tail ch' = mc_pending_tail ch" "mc_pending_count ch' = mc_pending_count ch - 1" "mc_active ch'"
    using a e by (auto simp: activate_next_segment_def MIX_QUEUE_CAPACITY_def)
  show "set (segs ch') \<subseteq> insert empty_segment (set (mc_pending ch))" using ch' set_update_subset_insert [of ?p ?h empty_segment] b by auto
  have "mset (map sg_data (?p[?h := empty_segment])) = add_mset 0 (mset (map sg_data ?p) - {#sg_data (?p ! ?h)#})"
    using b by (simp add: map_update mset_update)
  moreover have "sg_data (?p ! ?h) \<in># mset (map sg_data ?p)" using b by auto
  ultimately show "mset (own ch') = mset (own (ch\<lparr>mc_current := empty_segment\<rparr>))" unfolding mset_own ch' by (simp add: filter_mset_add_mset)
  have d: "sg_data (?p ! ((?h + k) mod 4)) \<noteq> 0 \<longleftrightarrow> k < mc_pending_count ch" if "k < 4" for k using ok that by (simp add: ch_ok_def)
  have d0: "sg_data (?p ! ?h) \<noteq> 0" using d [of 0] e b by simp
  have "sg_data (?p[?h := empty_segment] ! (((?h + 1) mod 4 + k) mod 4)) \<noteq> 0 \<longleftrightarrow> k < mc_pending_count ch - 1" if k: "k < 4" for k
  proof (cases "k = 3")
    case True
    then have "((?h + 1) mod 4 + k) mod 4 = ?h" using b by (auto simp: less_4)
    then show ?thesis using True b ok by (auto simp: ch_ok_def)
  next
    case False
    then have "((?h + 1) mod 4 + k) mod 4 = (?h + Suc k) mod 4" "(?h + Suc k) mod 4 \<noteq> ?h" using b k by (auto simp: less_4)
    then show ?thesis using d [of "Suc k"] False k by (auto simp: nth_list_update_neq [OF not_sym])
  qed
  moreover have "mc_pending_tail ch = ((?h + 1) mod 4 + (mc_pending_count ch - 1)) mod 4"
  proof -
    have "((?h + 1) mod 4 + (mc_pending_count ch - 1)) mod 4 = (?h + 1 + (mc_pending_count ch - 1)) mod 4" by (rule mod_add_left_eq)
    also have "?h + 1 + (mc_pending_count ch - 1) = ?h + mc_pending_count ch" using e(2) by simp
    finally show ?thesis using ok by (simp add: ch_ok_def)
  qed
  ultimately show "ch_ok ch'" unfolding ch_ok_def ch' using d0 b ok ch'(6) by (auto simp: ch_ok_def)
qed

text \<open>Dropping the current segment frees its block.\<close>

lemma own_without_current:
  assumes "distinct (own ch)" "sg_data (mc_current ch) \<noteq> 0"
  shows "set (own (ch\<lparr>mc_current := empty_segment\<rparr>)) = set (own ch) - {sg_data (mc_current ch)}" "distinct (own (ch\<lparr>mc_current := empty_segment\<rparr>))"
    "sg_data (mc_current ch) \<in> set (own ch)"
  using assms by (auto simp: own_def)

lemma drop_current:
  assumes i: "km_inv km" and g: "ch_good km ch" and p: "sg_data (mc_current ch) \<noteq> 0"
  shows "holds_step km (set (own ch)) (kh_free km (sg_data (mc_current ch))) (set (own (ch\<lparr>mc_current := empty_segment\<rparr>)))"
    "\<forall>sg \<in> set (mc_pending ch). seg_ok (kh_free km (sg_data (mc_current ch))) sg"
proof -
  let ?p = "sg_data (mc_current ch)"
  have d: "distinct (own ch)" using g by (simp add: ch_good_def)
  note O = own_without_current [OF d p]
  have 1: "holds_step km {?p} (kh_free km ?p) {}" by (rule holds_step_free [OF i]) (use g p seg_ok_live in \<open>auto simp: ch_good_def\<close>)
  have "holds_step km ({?p} \<union> (set (own ch) - {?p})) (kh_free km ?p) ({} \<union> (set (own ch) - {?p}))"
    by (rule holds_step_widen [OF 1]) (use own_live [OF g] in auto)
  moreover have "{?p} \<union> (set (own ch) - {?p}) = set (own ch)" using O(3) by blast
  ultimately show "holds_step km (set (own ch)) (kh_free km ?p) (set (own (ch\<lparr>mc_current := empty_segment\<rparr>)))" unfolding O(1) by simp
  show "\<forall>sg \<in> set (mc_pending ch). seg_ok (kh_free km ?p) sg"
  proof
    fix sg assume sg: "sg \<in> set (mc_pending ch)"
    have "sg_data sg \<noteq> ?p" using d p imageI [OF sg, of sg_data] by (auto simp: own_def)
    then show "seg_ok (kh_free km ?p) sg" using seg_ok_frame [OF 1] g sg by (auto simp: ch_good_def)
  qed
qed

lemma refresh_loop_step:
  "km_inv km \<Longrightarrow> ch_good km ch \<Longrightarrow> refresh_loop km ch = ((km', ch'), playing) \<Longrightarrow>
    ch_step km ch km' ch' \<and> (playing \<longleftrightarrow> mc_active ch') \<and> (playing \<longrightarrow> sg_src_pos (mc_current ch') < sg_src_total (mc_current ch'))"
proof (induction km ch rule: refresh_loop.induct)
  case (1 km ch)
  show ?case
  proof (cases "mc_active ch \<and> \<not> sg_src_pos (mc_current ch) < sg_src_total (mc_current ch)")
    case False
    then show ?thesis using 1 ch_step_refl by (auto simp: refresh_loop.simps [of km ch] split: if_splits)
  next
    case True
    have ok: "ch_ok ch" using "1.prems"(2) by (simp add: ch_good_def)
    have p: "sg_data (mc_current ch) \<noteq> 0" using ok True by (simp add: ch_ok_def)
    let ?km = "kh_free km (sg_data (mc_current ch))" and ?e = "ch\<lparr>mc_current := empty_segment\<rparr>"
    have rs: "reset_segment km (mc_current ch) = (?km, empty_segment)" using p by (simp add: reset_segment_def)
    note D = drop_current [OF "1.prems"(1,2) p]
    obtain ch1 cont where a: "activate_next_segment ?e = (ch1, cont)" by fastforce
    have e: "refresh_loop km ch = (if \<not> cont then ((?km, ch1), False) else refresh_loop ?km ch1)"
      using True rs a by (subst refresh_loop.simps) simp
    have dist: "distinct (own ?e)" using own_without_current(2) [OF _ p] "1.prems"(2) by (simp add: ch_good_def)
    show ?thesis
    proof (cases "mc_pending_count ch = 0")
      case z: True
      then have "\<not> cont" "ch1 = ?e\<lparr>mc_active := False\<rparr>" using a by (auto simp: activate_next_segment_def)
      moreover have "own (?e\<lparr>mc_active := False\<rparr>) = own ?e" by (simp add: own_def)
      moreover have "ch_good ?km (?e\<lparr>mc_active := False\<rparr>)" using ok z D(2) dist calculation(3) by (simp add: ch_good_def ch_ok_def)
      ultimately show ?thesis using e "1.prems"(3) D(1) by (auto simp: ch_step_def)
    next
      case nz: False
      note A = activate_ok [OF ok conjunct1 [OF True] nz a]
      have "distinct (own ch1)" using dist mset_eq_imp_distinct_iff [OF A(3)] by simp
      moreover have "set (own ch1) = set (own ?e)" using A(3) by (rule mset_eq_setD)
      moreover have "\<forall>sg \<in> set (segs ch1). seg_ok ?km sg" using A(4) D(2) by auto
      ultimately have s1: "ch_step km ch ?km ch1" using D(1) A(2) by (simp add: ch_step_def ch_good_def)
      have "refresh_loop ?km ch1 = ((km', ch'), playing)" using e A(1) "1.prems"(3) by simp
      then have "ch_step ?km ch1 km' ch' \<and> (playing \<longleftrightarrow> mc_active ch') \<and> (playing \<longrightarrow> sg_src_pos (mc_current ch') < sg_src_total (mc_current ch'))"
        using "1.IH" [OF _ _ rs [symmetric] refl a [symmetric] refl] True A(1) holds_step_inv [OF D(1)] s1 by (simp add: ch_step_def)
      then show ?thesis using ch_step_trans [OF s1] by blast
    qed
  qed
qed

lemma refresh_channel_step:
  assumes "km_inv km" "ch_good km ch" "refresh_channel km ch = ((km', ch'), playing)"
  shows "ch_step km ch km' ch'" "playing \<longleftrightarrow> mc_active ch'" "playing \<Longrightarrow> sg_src_pos (mc_current ch') < sg_src_total (mc_current ch')"
proof -
  have "(ch_step km ch km' ch' \<and> (playing \<longleftrightarrow> mc_active ch')) \<and> (playing \<longrightarrow> sg_src_pos (mc_current ch') < sg_src_total (mc_current ch'))"
  proof (cases "mc_active ch")
    case True
    then show ?thesis using refresh_loop_step [OF assms(1,2)] assms(3) by (simp add: refresh_channel_def)
  next
    case False
    then have "mc_pending_count ch = 0" using assms(2) by (simp add: ch_good_def ch_ok_def)
    then have "km' = km" "ch' = ch" "\<not> playing" using False assms(3) by (auto simp: refresh_channel_def activate_next_segment_def)
    then show ?thesis using False ch_step_refl [OF assms(1,2)] by simp
  qed
  then show "ch_step km ch km' ch'" "playing \<longleftrightarrow> mc_active ch'" "playing \<Longrightarrow> sg_src_pos (mc_current ch') < sg_src_total (mc_current ch')" by auto
qed

text \<open>A new segment joins an idle channel, or the queue of a busy one.\<close>

lemma adopt_good:
  assumes g: "ch_good km ch" and idle: "\<not> mc_active ch" and sg: "seg_ok km sg" "sg_data sg \<noteq> 0" "sg_data sg \<notin> set (own ch)"
    and a: "adopt_current_segment km ch sg = (km', ch')"
  shows "km' = km" "ch_good km ch'" "set (own ch') = insert (sg_data sg) (set (own ch))"
proof -
  have c: "sg_data (mc_current ch) = 0" "mc_pending_count ch = 0" using g idle by (simp_all add: ch_good_def ch_ok_def)
  have ch': "ch' = ch\<lparr>mc_current := sg, mc_active := True\<rparr>" "km' = km" using a c sg(2) by (auto simp: adopt_current_segment_def reset_segment_def)
  have o: "own ch' = sg_data sg # own ch" using c sg(2) by (simp add: own_def ch')
  show "km' = km" by (rule ch')
  show "set (own ch') = insert (sg_data sg) (set (own ch))" by (simp add: o)
  have "ch_ok ch'" using g sg(2) c by (simp add: ch_good_def ch_ok_def ch'(1))
  then show "ch_good km ch'" using g sg o by (simp add: ch_good_def) (simp add: ch'(1))
qed

lemma enqueue_good:
  assumes g: "ch_good km ch" and any_on: "mc_active ch" and sg: "seg_ok km sg" "sg_data sg \<noteq> 0" "sg_data sg \<notin> set (own ch)"
    and a: "enqueue_pending_segment ch sg = (ch', True)"
  shows "ch_good km ch'" "set (own ch') = insert (sg_data sg) (set (own ch))"
proof -
  let ?t = "mc_pending_tail ch" and ?h = "mc_pending_head ch" and ?c = "mc_pending_count ch" and ?p = "mc_pending ch"
  have ok: "ch_ok ch" using g by (simp add: ch_good_def)
  have b: "?c < 4" "?t = (?h + ?c) mod 4" "?t < length ?p" "length ?p = 4" "?h < 4"
    using ok a by (auto simp: ch_ok_def enqueue_pending_segment_def MIX_QUEUE_CAPACITY_def split: if_splits)
  have ch': "ch' = ch\<lparr>mc_pending := ?p[?t := sg], mc_pending_tail := (?t + 1) mod 4, mc_pending_count := ?c + 1\<rparr>"
    using a by (auto simp: enqueue_pending_segment_def MIX_QUEUE_CAPACITY_def split: if_splits)
  have d: "sg_data (?p ! ((?h + k) mod 4)) \<noteq> 0 \<longleftrightarrow> k < ?c" if "k < 4" for k using ok that by (simp add: ch_ok_def)
  have free: "sg_data (?p ! ?t) = 0" using d [of ?c] b by simp
  have "mset (map sg_data (?p[?t := sg])) = add_mset (sg_data sg) (mset (map sg_data ?p) - {#0#})"
    using b free by (simp add: map_update mset_update)
  moreover have "0 \<in># mset (map sg_data ?p)" using b(3) free nth_mem [of ?t ?p] by force
  ultimately have m: "mset (own ch') = add_mset (sg_data sg) (mset (own ch))" unfolding mset_own ch' using sg(2) by (simp add: filter_mset_add_mset)
  show "set (own ch') = insert (sg_data sg) (set (own ch))" using m by (metis set_mset_add_mset_insert set_mset_mset)
  have "distinct (own ch')" using m g sg(3) mset_eq_imp_distinct_iff [of "own ch'" "sg_data sg # own ch"] by (simp add: ch_good_def)
  moreover have "ch_ok ch'"
  proof -
    have "sg_data (?p[?t := sg] ! ((?h + k) mod 4)) \<noteq> 0 \<longleftrightarrow> k < ?c + 1" if k: "k < 4" for k
    proof (cases "k = ?c")
      case True
      then show ?thesis using b sg(2) by simp
    next
      case False
      then have "(?h + k) mod 4 \<noteq> ?t" using b k by (auto simp: less_4)
      then show ?thesis using d [OF k] False by (auto simp: nth_list_update_neq [OF not_sym])
    qed
    moreover have "(?t + 1) mod 4 = (?h + (?c + 1)) mod 4" using b(2) by (simp add: mod_Suc_eq)
    ultimately show ?thesis using ok b any_on by (simp add: ch_ok_def ch')
  qed
  moreover have "\<forall>x \<in> set (segs ch'). seg_ok km x" using g sg(1) set_update_subset_insert [of ?p ?t sg] by (auto simp: ch_good_def ch')
  ultimately show "ch_good km ch'" by (simp add: ch_good_def)
qed

section \<open>The mixer\<close>

definition owned :: "mix_ch list \<Rightarrow> u64 list" where
  "owned chs = concat (map own chs)"

definition snd_ok :: "'d sound_state \<Rightarrow> bool" where
  "snd_ok s \<longleftrightarrow> km_inv (snd_km s) \<and> length (snd_mix_ch s) = MIX_CHANNELS \<and> (\<forall>ch \<in> set (snd_mix_ch s). ch_good (snd_km s) ch) \<and> distinct (owned (snd_mix_ch s))"

definition mix_step :: "'d sound_state \<Rightarrow> 'd sound_state \<Rightarrow> bool" where
  "mix_step s s' \<longleftrightarrow> snd_ok s' \<and> holds_step (snd_km s) (set (owned (snd_mix_ch s))) (snd_km s') (set (owned (snd_mix_ch s')))"

lemma owned_live: "snd_ok s \<Longrightarrow> set (owned (snd_mix_ch s)) \<subseteq> heap_live_blocks (snd_km s)"
  using own_live by (fastforce simp: snd_ok_def owned_def)

lemma mix_step_refl: "snd_ok s \<Longrightarrow> mix_step s s"
  by (simp add: mix_step_def holds_step_refl owned_live) (simp add: snd_ok_def holds_step_refl owned_live [unfolded snd_ok_def])

lemma mix_step_trans: "mix_step a b \<Longrightarrow> mix_step b c \<Longrightarrow> mix_step a c"
  by (auto simp: mix_step_def intro: holds_step_trans)

lemma mix_step_ok: "mix_step a b \<Longrightarrow> snd_ok b"
  by (simp add: mix_step_def)

text \<open>A state that differs in nothing the mixer owns.\<close>

lemma mix_step_other: "snd_ok s \<Longrightarrow> snd_km s' = snd_km s \<Longrightarrow> snd_mix_ch s' = snd_mix_ch s \<Longrightarrow> mix_step s s'"
  using mix_step_refl [of s] by (simp add: mix_step_def snd_ok_def)

text \<open>A step of one channel is a step of the mixer.\<close>

lemma ch_good_frame:
  assumes st: "holds_step km A km' B" and g: "ch_good km ch" and d: "set (own ch) \<inter> A = {}"
  shows "ch_good km' ch"
proof -
  have "seg_ok km' sg" if sg: "sg \<in> set (segs ch)" for sg
  proof (cases "sg_data sg = 0")
    case True
    then show ?thesis by (simp add: seg_ok_def)
  next
    case False
    then have "sg_data sg \<in> set (own ch)" using imageI [OF sg, of sg_data] unfolding own_def set_filter set_map by blast
    then show ?thesis using seg_ok_frame [OF st] g sg d unfolding ch_good_def by blast
  qed
  then show ?thesis using g unfolding ch_good_def by blast
qed

lemma lift_channel:
  assumes ok: "snd_ok s" and i: "i < MIX_CHANNELS"
    and st: "holds_step (snd_km s) (set (own (snd_mix_ch s ! i))) km' (set (own ch'))" and g: "ch_good km' ch'"
  shows "mix_step s (set_channel s i (km', ch'))"
proof -
  let ?chs = "snd_mix_ch s"
  define A B where "A = take i ?chs" and "B = drop (Suc i) ?chs"
  have len: "i < length ?chs" using ok i by (simp add: snd_ok_def)
  have chs: "?chs = A @ ?chs ! i # B" unfolding A_def B_def by (rule id_take_nth_drop [OF len])
  have upd: "?chs[i := ch'] = A @ ch' # B" unfolding A_def B_def by (rule upd_conv_take_nth_drop [OF len])
  let ?R = "set (owned A) \<union> set (owned B)"
  have l: "owned ?chs = owned A @ own (?chs ! i) @ owned B" "owned (?chs[i := ch']) = owned A @ own ch' @ owned B"
    using arg_cong [OF chs, of owned] upd by (simp_all add: owned_def)
  have o: "set (owned ?chs) = set (own (?chs ! i)) \<union> ?R" "set (owned (?chs[i := ch'])) = set (own ch') \<union> ?R" unfolding l by auto
  have d: "distinct (owned A @ own (?chs ! i) @ owned B)" using ok l(1) by (simp add: snd_ok_def)
  have live: "?R \<subseteq> heap_live_blocks (snd_km s)" using owned_live [OF ok] o(1) by blast
  have H: "holds_step (snd_km s) (set (owned ?chs)) km' (set (owned (?chs[i := ch'])))"
    unfolding o by (rule holds_step_widen [OF st live]) (use d in auto)
  have dis: "set (own ch') \<inter> ?R = {}" using st live d by (auto simp: holds_step_def)
  have "ch_good km' ch" if "ch \<in> set A \<union> set B" for ch
  proof (rule ch_good_frame [OF st])
    have "set A \<union> set B \<subseteq> set ?chs" unfolding A_def B_def by (intro Un_least set_take_subset set_drop_subset)
    then show "ch_good (snd_km s) ch" using ok that unfolding snd_ok_def by blast
    have "set (own ch) \<subseteq> ?R" using that by (auto simp: owned_def)
    then show "set (own ch) \<inter> set (own (?chs ! i)) = {}" using d by auto
  qed
  then have "\<forall>ch \<in> set (?chs[i := ch']). ch_good km' ch" unfolding upd using g by auto
  moreover have "distinct (owned (?chs[i := ch']))" unfolding l(2) using d dis g by (auto simp: ch_good_def)
  ultimately show ?thesis using H ok holds_step_inv [OF st] by (simp add: mix_step_def snd_ok_def)
qed

section \<open>Operations\<close>

text \<open>Everything but memory and channels stays the same.\<close>

definition same_driver :: "'d sound_state \<Rightarrow> 'd sound_state \<Rightarrow> bool" where
  "same_driver s s' \<longleftrightarrow> snd_active s' = snd_active s \<and> snd_initialised s' = snd_initialised s"

lemma channel_good: "snd_ok s \<Longrightarrow> i < MIX_CHANNELS \<Longrightarrow> ch_good (snd_km s) (snd_mix_ch s ! i)"
  by (simp add: snd_ok_def)

lemma snd_ok_inv: "snd_ok s \<Longrightarrow> km_inv (snd_km s)"
  by (simp add: snd_ok_def)

lemma reset_at_step:
  assumes "snd_ok s" "i < MIX_CHANNELS" shows "mix_step s (reset_at s i)"
proof -
  obtain km' ch' where r: "reset_mix_channel (snd_km s) (snd_mix_ch s ! i) = (km', ch')" by fastforce
  have "ch_step (snd_km s) (snd_mix_ch s ! i) km' ch'" by (rule reset_mix_channel_step [OF snd_ok_inv [OF assms(1)] channel_good [OF assms] r])
  then show ?thesis unfolding reset_at_def r using lift_channel [OF assms] by (auto simp: ch_step_def)
qed

lemma refresh_at_step:
  assumes "snd_ok s" "i < MIX_CHANNELS" "refresh_at s i = (s', playing)"
  shows "mix_step s s'" "playing \<longleftrightarrow> mc_active (snd_mix_ch s' ! i)" "same_driver s s'"
    "playing \<Longrightarrow> sg_src_pos (mc_current (snd_mix_ch s' ! i)) < sg_src_total (mc_current (snd_mix_ch s' ! i))"
proof -
  obtain km' ch' where r: "refresh_channel (snd_km s) (snd_mix_ch s ! i) = ((km', ch'), playing)" "s' = set_channel s i (km', ch')"
    using assms(3) by (auto simp: refresh_at_def split: prod.splits)
  note R = refresh_channel_step [OF snd_ok_inv [OF assms(1)] channel_good [OF assms(1,2)] r(1)]
  show "mix_step s s'" unfolding r(2) using lift_channel [OF assms(1,2)] R(1) by (auto simp: ch_step_def)
  have "snd_mix_ch s' ! i = ch'" using assms(1,2) by (simp add: r(2) snd_ok_def)
  then show "playing \<longleftrightarrow> mc_active (snd_mix_ch s' ! i)" "playing \<Longrightarrow> sg_src_pos (mc_current (snd_mix_ch s' ! i)) < sg_src_total (mc_current (snd_mix_ch s' ! i))"
    using R(2,3) by simp_all
  show "same_driver s s'" by (simp add: same_driver_def r(2))
qed

lemma mix_is_playing_step:
  assumes "snd_ok s" "mix_is_playing_locked s c = (s', playing)" shows "mix_step s s' \<and> same_driver s s'"
proof (cases "c < 0 \<or> nat c \<ge> MIX_CHANNELS")
  case True
  then show ?thesis using assms mix_step_refl by (auto simp: mix_is_playing_locked_def same_driver_def)
next
  case False
  then have "refresh_at s (nat c) = (s', playing)" "nat c < MIX_CHANNELS" using assms(2) by (auto simp: mix_is_playing_locked_def)
  then show ?thesis using refresh_at_step(1,3) [OF assms(1)] by blast
qed

lemma any_active_from_step: "snd_ok s \<Longrightarrow> any_active_from s is = (s', any_on) \<Longrightarrow> mix_step s s' \<and> same_driver s s'"
proof (induction "is" arbitrary: s)
  case Nil
  then show ?case using mix_step_refl by (auto simp: same_driver_def)
next
  case (Cons i "is")
  obtain s1 p where m: "mix_is_playing_locked s (int i) = (s1, p)" by fastforce
  note M = mix_is_playing_step [OF Cons.prems(1) m]
  have "mix_step s1 s' \<and> same_driver s1 s'" using Cons.prems(2) m Cons.IH [of s1] M mix_step_ok mix_step_refl [of s1]
    by (cases p) (auto simp: same_driver_def)
  then show ?case using M mix_step_trans by (auto simp: same_driver_def)
qed

lemma any_active_step: "snd_ok s \<Longrightarrow> any_active_mix_channels s = (s', any_on) \<Longrightarrow> mix_step s s' \<and> same_driver s s'"
  unfolding any_active_mix_channels_def by (rule any_active_from_step)

lemma count_active_step: "snd_ok s \<Longrightarrow> count_active s is = (s', n) \<Longrightarrow> mix_step s s'"
proof (induction "is" arbitrary: s s' n)
  case (Cons i "is")
  obtain s1 p where m: "mix_is_playing_locked s (int i) = (s1, p)" by fastforce
  obtain s2 k where c: "count_active s1 is = (s2, k)" by fastforce
  note M = mix_is_playing_step [OF Cons.prems(1) m]
  have "mix_step s1 s2" using Cons.IH [OF _ c] M mix_step_ok by blast
  moreover have "s' = s2" using Cons.prems(2) m c by simp
  ultimately show ?case using M mix_step_trans by blast
qed (use mix_step_refl in simp)

lemma driver_is_playing_step: "snd_ok s \<Longrightarrow> driver_is_playing s = (s', r) \<Longrightarrow> mix_step s s' \<and> same_driver s s'"
  by (auto simp: driver_is_playing_def same_driver_def mix_step_refl split: option.splits if_splits prod.splits intro: mix_step_other)

lemma driver_buffered_frames_step: "snd_ok s \<Longrightarrow> driver_buffered_frames s = (s', r) \<Longrightarrow> mix_step s s' \<and> same_driver s s'"
  by (auto simp: driver_buffered_frames_def same_driver_def mix_step_refl split: option.splits if_splits prod.splits intro: mix_step_other)

lemma stop_driver_if_idle_step:
  assumes ok: "snd_ok s" shows "mix_step s (stop_driver_if_idle s)"
proof (cases "snd_active s \<noteq> None \<and> snd_initialised s \<and> drv_stop (the (snd_active s)) \<noteq> None")
  case False
  then show ?thesis using mix_step_refl [OF ok] by (auto simp: stop_driver_if_idle_def split: option.splits)
next
  case True
  then obtain drv f where d: "snd_active s = Some drv" "snd_initialised s" "drv_stop drv = Some f" by auto
  obtain s1 any_on where a: "any_active_mix_channels s = (s1, any_on)" by fastforce
  obtain s2 playing where p: "driver_is_playing s1 = (s2, playing)" by fastforce
  have 1: "mix_step s s1" using any_active_step [OF ok a] by simp
  have 2: "mix_step s1 s2" using driver_is_playing_step [OF mix_step_ok [OF 1] p] by simp
  have 3: "mix_step s2 (s2\<lparr>snd_dev := f (snd_dev s2)\<rparr>)" by (rule mix_step_other [OF mix_step_ok [OF 2]]) simp_all
  have "stop_driver_if_idle s = (if any_on then s1 else if playing then s2 else s2\<lparr>snd_dev := f (snd_dev s2)\<rparr>)"
    using d a p by (simp add: stop_driver_if_idle_def)
  then show ?thesis using 1 mix_step_trans [OF 1 2] mix_step_trans [OF mix_step_trans [OF 1 2] 3] by simp
qed

lemma fold_steps:
  assumes "\<And>s i. snd_ok s \<Longrightarrow> i < MIX_CHANNELS \<Longrightarrow> mix_step s (f i s)" "snd_ok s" "\<forall>i \<in> set is. i < MIX_CHANNELS"
  shows "mix_step s (fold f is s)"
  using assms(2,3)
proof (induction "is" arbitrary: s)
  case Nil
  then show ?case using mix_step_refl by simp
next
  case (Cons i "is")
  have 1: "mix_step s (f i s)" using assms(1) Cons.prems by simp
  then have "mix_step (f i s) (fold f is (f i s))" using Cons.IH [OF mix_step_ok [OF 1]] Cons.prems by simp
  then show ?case using mix_step_trans [OF 1] by simp
qed

section \<open>Submitting a window\<close>

lemma window_loop_step:
  "snd_ok s \<Longrightarrow> \<forall>i \<in> set is. i < MIX_CHANNELS \<Longrightarrow> window_loop s is n = (s', m) \<Longrightarrow> mix_step s s' \<and> same_driver s s'"
proof (induction "is" arbitrary: s n)
  case Nil
  then show ?case using mix_step_refl by (auto simp: same_driver_def)
next
  case (Cons i "is")
  obtain s1 p where r: "refresh_at s i = (s1, p)" by fastforce
  note R = refresh_at_step [OF Cons.prems(1) _ r]
  have 1: "mix_step s s1" "same_driver s s1" using R(1,3) Cons.prems(2) by simp_all
  obtain k where "window_loop s1 is k = (s', m)" using Cons.prems(3) r by (auto split: if_splits)
  then have "mix_step s1 s' \<and> same_driver s1 s'" using Cons.IH [OF mix_step_ok [OF 1(1)]] Cons.prems(2) by simp
  then show ?case using 1 mix_step_trans by (auto simp: same_driver_def)
qed

lemma mix_channels_loop_step:
  "snd_ok s \<Longrightarrow> \<forall>i \<in> set is. i < MIX_CHANNELS \<Longrightarrow> mix_channels_loop s is n acc = (s', acc') \<Longrightarrow> mix_step s s' \<and> same_driver s s'"
proof (induction "is" arbitrary: s acc)
  case Nil
  then show ?case using mix_step_refl by (auto simp: same_driver_def)
next
  case (Cons i "is")
  obtain s1 p where r: "refresh_at s i = (s1, p)" by fastforce
  note R = refresh_at_step [OF Cons.prems(1) _ r]
  have 1: "mix_step s s1" "same_driver s s1" using R(1,3) Cons.prems(2) by simp_all
  obtain k where "mix_channels_loop s1 is n k = (s', acc')" using Cons.prems(3) r by (auto split: if_splits)
  then have "mix_step s1 s' \<and> same_driver s1 s'" using Cons.IH [OF mix_step_ok [OF 1(1)]] Cons.prems(2) by simp
  then show ?case using 1 mix_step_trans by (auto simp: same_driver_def)
qed

lemma advance_segment_ok: "seg_ok km sg \<Longrightarrow> seg_ok km (advance_segment n sg)" "sg_data (advance_segment n sg) = sg_data sg"
proof -
  show "sg_data (advance_segment n sg) = sg_data sg" by (simp add: advance_segment_def Let_def)
  assume ok: "seg_ok km sg"
  let ?r = "sg_src_total sg - sg_src_pos sg" and ?a = "word_of_nat (n * unat (sg_sample_rate sg) div MIX_OUTPUT_RATE) :: u32"
  have "sg_src_pos sg + (if ?a > ?r then ?r else ?a) \<le> sg_src_total sg" if "sg_src_pos sg \<le> sg_src_total sg"
  proof -
    have "unat ?r = unat (sg_src_total sg) - unat (sg_src_pos sg)" using that by (rule unat_sub)
    then have "unat (sg_src_pos sg) + unat (if ?a > ?r then ?r else ?a) \<le> unat (sg_src_total sg)"
      using that by (auto simp: word_le_nat_alt not_less)
    then show ?thesis using unat_less_exp [of "sg_src_total sg"] by (simp add: word_le_nat_alt unat_add_lem [THEN iffD1])
  qed
  then show "seg_ok km (advance_segment n sg)" using ok by (auto simp: seg_ok_def advance_segment_def Let_def)
qed

lemma advance_channel:
  assumes "snd_ok s" "i < MIX_CHANNELS"
  shows "mix_step s (s\<lparr>snd_mix_ch := (snd_mix_ch s)[i := (snd_mix_ch s ! i)\<lparr>mc_current := advance_segment n (mc_current (snd_mix_ch s ! i))\<rparr>]\<rparr>)"
proof -
  let ?ch = "snd_mix_ch s ! i" let ?ch' = "?ch\<lparr>mc_current := advance_segment n (mc_current ?ch)\<rparr>"
  have g: "ch_good (snd_km s) ?ch" by (rule channel_good [OF assms])
  have o: "own ?ch' = own ?ch" by (simp add: own_def advance_segment_ok)
  have "ch_good (snd_km s) ?ch'" using g advance_segment_ok o by (auto simp: ch_good_def ch_ok_def)
  then show ?thesis using lift_channel [OF assms, of "snd_km s" ?ch'] holds_step_refl [OF snd_ok_inv [OF assms(1)] own_live [OF g]] o by simp
qed

lemma advance_loop_step:
  "snd_ok s \<Longrightarrow> \<forall>i \<in> set is. i < MIX_CHANNELS \<Longrightarrow> mix_step s (advance_loop s is n) \<and> same_driver s (advance_loop s is n)
     \<and> snd_dev (advance_loop s is n) = snd_dev s"
proof (induction "is" arbitrary: s)
  case Nil
  then show ?case using mix_step_refl by (auto simp: same_driver_def)
next
  case (Cons i "is")
  have i: "i < MIX_CHANNELS" using Cons.prems(2) by simp
  obtain s1 p where r: "refresh_at s i = (s1, p)" by fastforce
  note R = refresh_at_step [OF Cons.prems(1) i r]
  have dev: "snd_dev s1 = snd_dev s" using r by (auto simp: refresh_at_def split: prod.splits)
  show ?case
  proof (cases p)
    case False
    then show ?thesis using R Cons.IH [OF mix_step_ok [OF R(1)]] Cons.prems(2) r dev mix_step_trans by (auto simp: same_driver_def)
  next
    case True
    define s2 where "s2 = s1\<lparr>snd_mix_ch := (snd_mix_ch s1)[i := (snd_mix_ch s1 ! i)\<lparr>mc_current := advance_segment n (mc_current (snd_mix_ch s1 ! i))\<rparr>]\<rparr>"
    have 2: "mix_step s1 s2" "same_driver s1 s2" "snd_dev s2 = snd_dev s1" unfolding s2_def using advance_channel [OF mix_step_ok [OF R(1)] i] by (simp_all add: same_driver_def)
    obtain s3 q where r3: "refresh_at s2 i = (s3, q)" by fastforce
    note R3 = refresh_at_step [OF mix_step_ok [OF 2(1)] i r3]
    have dev3: "snd_dev s3 = snd_dev s2" using r3 by (auto simp: refresh_at_def split: prod.splits)
    have "advance_loop s (i # is) n = advance_loop s3 is n" using r r3 True by (simp add: s2_def Let_def)
    moreover have "mix_step s s3" by (rule mix_step_trans [OF mix_step_trans [OF R(1) 2(1)] R3(1)])
    moreover have "same_driver s s3" using R(3) 2(2) R3(3) by (simp add: same_driver_def)
    ultimately show ?thesis using Cons.IH [OF mix_step_ok [OF R3(1)]] Cons.prems(2) mix_step_trans dev dev3 2(3) by (auto simp: same_driver_def)
  qed
qed

lemma mix_do_submit_step:
  assumes ok: "snd_ok s" and m: "mix_do_submit s = Some (s', r)"
  shows "mix_step s s' \<and> same_driver s s'"
proof (cases "snd_active s \<noteq> None \<and> snd_initialised s")
  case False
  then show ?thesis using m mix_step_refl [OF ok] by (auto simp: mix_do_submit_def same_driver_def split: option.splits)
next
  case True
  then obtain drv where d: "snd_active s = Some drv" "snd_initialised s" by auto
  obtain s1 w where w: "window_loop s [0..<MIX_CHANNELS] 0 = (s1, w)" by fastforce
  have 1: "mix_step s s1" "same_driver s s1" using window_loop_step [OF ok _ w] by simp_all
  show ?thesis
  proof (cases "w = 0")
    case z: True
    then obtain f where "s' = s1\<lparr>snd_dev := f (snd_dev s1)\<rparr>" using m d w by (auto simp: mix_do_submit_def)
    then show ?thesis using 1 mix_step_trans [OF 1(1) mix_step_other [OF mix_step_ok [OF 1(1)]]] by (simp add: same_driver_def)
  next
    case nz: False
    let ?n = "min w MIX_WINDOW_FRAMES"
    obtain s2 acc where c: "mix_channels_loop s1 [0..<MIX_CHANNELS] ?n (replicate (2 * ?n) 0) = (s2, acc)" by fastforce
    have 2: "mix_step s1 s2" "same_driver s1 s2" using mix_channels_loop_step [OF mix_step_ok [OF 1(1)] _ c] by simp_all
    obtain rate dv where s3: "s' = s2\<lparr>snd_requested_sample_rate := rate, snd_dev := dv\<rparr> \<or>
        s' = advance_loop (s2\<lparr>snd_requested_sample_rate := rate, snd_dev := dv\<rparr>) [0..<MIX_CHANNELS] ?n"
      using m d w nz c by (auto simp: mix_do_submit_def Let_def split: bind_splits prod.splits if_splits)
    let ?s3 = "s2\<lparr>snd_requested_sample_rate := rate, snd_dev := dv\<rparr>"
    have 3: "mix_step s ?s3" "same_driver s ?s3"
      using mix_step_trans [OF mix_step_trans [OF 1(1) 2(1)] mix_step_other [OF mix_step_ok [OF 2(1)]]] 1(2) 2(2) by (simp_all add: same_driver_def)
    have "mix_step ?s3 (advance_loop ?s3 [0..<MIX_CHANNELS] ?n)" "same_driver ?s3 (advance_loop ?s3 [0..<MIX_CHANNELS] ?n)"
      using advance_loop_step [OF mix_step_ok [OF 3(1)], of "[0..<MIX_CHANNELS]" ?n] by simp_all
    then show ?thesis using s3 3 mix_step_trans by (auto simp: same_driver_def)
  qed
qed

lemma fill_loop_step: "fill_loop s = Some s' \<Longrightarrow> snd_ok s \<longrightarrow> mix_step s s'"
proof (rule fill_loop.raw_induct [of "\<lambda>s s'. snd_ok s \<longrightarrow> mix_step s s'"], intro impI)
  fix f and s s' :: "'a sound_state"
  assume IH: "\<And>s s'. f s = Some s' \<Longrightarrow> snd_ok s \<longrightarrow> mix_step s s'" and ok: "snd_ok s"
    and r: "(let (s, any_on) = any_active_mix_channels s
       in if \<not> any_on then Some s
          else let (s, buffered_before) = driver_buffered_frames s
            in if MIX_TARGET_BUFFERED_FRAMES \<le> unat buffered_before then Some s
               else Option.bind (mix_do_submit s) (\<lambda>(s, ok). if \<not> ok then Some s
                 else let (s, buffered) = driver_buffered_frames s in if buffered \<le> buffered_before then Some s else f s)) = Some s'"
  obtain s1 b1 where a: "any_active_mix_channels s = (s1, b1)" by fastforce
  obtain s2 n2 where b: "driver_buffered_frames s1 = (s2, n2)" by fastforce
  have 1: "mix_step s s1" using any_active_step [OF ok a] by simp
  have 2: "mix_step s s2" using mix_step_trans [OF 1] driver_buffered_frames_step [OF mix_step_ok [OF 1] b] by blast
  show "mix_step s s'"
  proof (cases "b1 \<and> \<not> MIX_TARGET_BUFFERED_FRAMES \<le> unat n2")
    case False
    then show ?thesis using r a b 1 2 by (auto split: if_splits)
  next
    case True
    then obtain s3 c3 where m: "mix_do_submit s2 = Some (s3, c3)" using r a b by (cases "mix_do_submit s2") auto
    have 3: "mix_step s s3" using mix_step_trans [OF 2] mix_do_submit_step [OF mix_step_ok [OF 2] m] by blast
    obtain s4 n4 where d: "driver_buffered_frames s3 = (s4, n4)" by fastforce
    have 4: "mix_step s s4" using mix_step_trans [OF 3] driver_buffered_frames_step [OF mix_step_ok [OF 3] d] by blast
    have "s' = s3 \<or> s' = s4 \<or> f s4 = Some s'" using r a b m d True by (auto split: if_splits)
    then show ?thesis using 3 4 IH [of s4 s'] mix_step_ok [OF 4] mix_step_trans [OF 4] by blast
  qed
qed

lemma mix_update_step:
  assumes ok: "snd_ok s" and u: "mix_update_locked s = Some s'" shows "mix_step s s'"
proof -
  obtain s1 b1 where a: "any_active_mix_channels s = (s1, b1)" by fastforce
  have 1: "mix_step s s1" using any_active_step [OF ok a] by simp
  obtain s2 p2 where b: "driver_is_playing s1 = (s2, p2)" by fastforce
  have 2: "mix_step s s2" using mix_step_trans [OF 1] driver_is_playing_step [OF mix_step_ok [OF 1] b] by blast
  define C where "C \<longleftrightarrow> (case snd_active s1 of None \<Rightarrow> False | Some drv \<Rightarrow> snd_initialised s1 \<and> drv_buffered_frames drv \<noteq> None)"
  have e: "(if \<not> b1 then Some s1 else if C then fill_loop s1 else if p2 then Some s2 else map_option fst (mix_do_submit s2)) = Some s'"
    using u unfolding mix_update_locked_def a b Let_def C_def by (simp only: prod.case b)
  have f: "mix_step s s'" if "fill_loop s1 = Some s'"
    using fill_loop_step [OF that] mix_step_ok [OF 1] mix_step_trans [OF 1] by blast
  have g: "mix_step s s'" if h: "map_option fst (mix_do_submit s2) = Some s'"
  proof -
    obtain r where "mix_do_submit s2 = Some (s', r)" using h by (cases "mix_do_submit s2") auto
    then show ?thesis using mix_do_submit_step [OF mix_step_ok [OF 2]] mix_step_trans [OF 2] by blast
  qed
  show ?thesis
  proof (cases b1)
    case False
    then show ?thesis using e 1 by simp
  next
    case True
    then show ?thesis using e f g 2 by (cases C; cases p2) simp_all
  qed
qed

lemma background_round_step:
  assumes ok: "snd_ok s" and u: "background_sound_round s = Some s'" shows "mix_step s s'"
proof (cases "snd_active s \<noteq> None \<and> snd_initialised s")
  case False
  then show ?thesis using u mix_step_refl [OF ok] by (auto simp: background_sound_round_def)
next
  case True
  obtain s1 b1 where a: "any_active_mix_channels s = (s1, b1)" by fastforce
  have 1: "mix_step s s1" using any_active_step [OF ok a] by simp
  obtain s2 where c: "(if b1 then mix_update_locked s1 else Some s1) = Some s2" using u True a by (auto simp: background_sound_round_def split: bind_splits)
  have 2: "mix_step s s2" using c 1 mix_step_trans [OF 1] mix_update_step [OF mix_step_ok [OF 1]] by (auto split: if_splits)
  obtain s3 p3 where b: "driver_is_playing s2 = (s3, p3)" by fastforce
  have 3: "mix_step s s3" using mix_step_trans [OF 2] driver_is_playing_step [OF mix_step_ok [OF 2] b] by blast
  obtain s4 b4 where d: "any_active_mix_channels s3 = (s4, b4)" by fastforce
  have 4: "mix_step s s4" using mix_step_trans [OF 3] any_active_step [OF mix_step_ok [OF 3] d] by blast
  have "s' = s3 \<or> s' = s4" using u True a c b d by (auto simp: background_sound_round_def split: if_splits)
  then show ?thesis using 3 4 by blast
qed

end
