(* ===== verification/SoundMix.thy ===== *)
theory SoundMix
  imports SoundInv
begin

text \<open>
  What the mixer hands to the driver. The reference reads a segment as the list of its bytes and
  adds the channels frame by frame; the code walks channel by channel through an accumulator that
  it has to refresh the channels for, three times.
\<close>

section \<open>Settled channels\<close>

text \<open>A channel is settled when a refresh has nothing to do.\<close>

definition settled :: "mix_ch \<Rightarrow> bool" where
  "settled ch \<longleftrightarrow> (mc_active ch \<longrightarrow> sg_src_pos (mc_current ch) < sg_src_total (mc_current ch))"

lemma refresh_settled: "ch_ok ch \<Longrightarrow> settled ch \<Longrightarrow> refresh_channel km ch = ((km, ch), mc_active ch)"
  by (cases "mc_active ch") (auto simp: refresh_channel_def refresh_loop.simps [of km ch] settled_def activate_next_segment_def ch_ok_def)

lemma refresh_at_settled: "ch_ok (snd_mix_ch s ! i) \<Longrightarrow> settled (snd_mix_ch s ! i) \<Longrightarrow> refresh_at s i = (s, mc_active (snd_mix_ch s ! i))"
  by (simp add: refresh_at_def refresh_settled)

lemma refresh_at_same: "refresh_at s i = (s', p) \<Longrightarrow> snd_dev s' = snd_dev s \<and> (\<forall>j. j \<noteq> i \<longrightarrow> snd_mix_ch s' ! j = snd_mix_ch s ! j)"
  by (auto simp: refresh_at_def split: prod.splits)

lemma channel_ok: "snd_ok s \<Longrightarrow> i < MIX_CHANNELS \<Longrightarrow> ch_ok (snd_mix_ch s ! i)"
  using channel_good by (auto simp: ch_good_def)

definition longest_rest :: "mix_ch list \<Rightarrow> nat list \<Rightarrow> nat \<Rightarrow> nat" where
  "longest_rest chs is n = fold (\<lambda>i n. if mc_active (chs ! i) then max (ch_frames (mc_current (chs ! i))) n else n) is n"

lemma window_loop_same:
  "window_loop s is n = (s', m) \<Longrightarrow> snd_dev s' = snd_dev s \<and> (\<forall>j. j \<notin> set is \<longrightarrow> snd_mix_ch s' ! j = snd_mix_ch s ! j)"
proof (induction "is" arbitrary: s n)
  case (Cons i "is")
  obtain s1 p where r: "refresh_at s i = (s1, p)" by fastforce
  obtain k where "window_loop s1 is k = (s', m)" using Cons.prems r by (auto split: if_splits)
  then show ?case using Cons.IH [of s1 k] refresh_at_same [OF r] by auto
qed simp

lemma window_loop_settles:
  "snd_ok s \<Longrightarrow> \<forall>i \<in> set is. i < MIX_CHANNELS \<Longrightarrow> distinct is \<Longrightarrow> window_loop s is n = (s', m) \<Longrightarrow>
    (\<forall>i \<in> set is. settled (snd_mix_ch s' ! i)) \<and> m = longest_rest (snd_mix_ch s') is n"
proof (induction "is" arbitrary: s n)
  case Nil
  then show ?case by (simp add: longest_rest_def)
next
  case (Cons i "is")
  have i: "i < MIX_CHANNELS" using Cons.prems(2) by simp
  obtain s1 p where r: "refresh_at s i = (s1, p)" by fastforce
  note R = refresh_at_step [OF Cons.prems(1) i r]
  let ?k = "if p then max (ch_frames (mc_current (snd_mix_ch s1 ! i))) n else n"
  have w: "window_loop s1 is ?k = (s', m)" using Cons.prems(4) r by (auto split: if_splits)
  have keep: "snd_mix_ch s' ! i = snd_mix_ch s1 ! i" using window_loop_same [OF w] Cons.prems(3) by simp
  have "settled (snd_mix_ch s' ! i)" unfolding keep settled_def using R(2,4) by blast
  moreover have "(\<forall>i \<in> set is. settled (snd_mix_ch s' ! i)) \<and> m = longest_rest (snd_mix_ch s') is ?k"
    by (rule Cons.IH [OF mix_step_ok [OF R(1)] _ _ w]) (use Cons.prems in simp_all)
  moreover have "?k = (if mc_active (snd_mix_ch s' ! i) then max (ch_frames (mc_current (snd_mix_ch s' ! i))) n else n)" unfolding keep using R(2) by simp
  ultimately show ?case by (simp add: longest_rest_def)
qed

lemma window_loop_settled:
  "\<forall>i \<in> set is. ch_ok (snd_mix_ch s ! i) \<and> settled (snd_mix_ch s ! i) \<Longrightarrow> window_loop s is n = (s, longest_rest (snd_mix_ch s) is n)"
  by (induction "is" arbitrary: n) (simp_all add: refresh_at_settled longest_rest_def)

lemma mix_channels_settled:
  "\<forall>i \<in> set is. ch_ok (snd_mix_ch s ! i) \<and> settled (snd_mix_ch s ! i) \<Longrightarrow>
    mix_channels_loop s is n acc =
      (s, fold (\<lambda>i acc. if mc_active (snd_mix_ch s ! i) then mix_frames (snd_km s) (mc_current (snd_mix_ch s ! i)) 0 n acc else acc) is acc)"
  by (induction "is" arbitrary: acc) (simp_all add: refresh_at_settled)

section \<open>The reference\<close>

definition seg_bytes :: "kmemory \<Rightarrow> mix_segment \<Rightarrow> u8 list" where
  "seg_bytes km sg = heap_bytes km (sg_data sg) (unat (payload_bytes (sg_fmt sg) (sg_src_total sg)))"

definition unit_samples :: "sound_format \<Rightarrow> u8 list \<Rightarrow> nat \<Rightarrow> int \<times> int" where
  "unit_samples fmt bs i =
     (case fmt of
        unsigned_8 \<Rightarrow> ((uint (bs ! i) - 128) * 256, (uint (bs ! i) - 128) * 256)
      | signed_16 \<Rightarrow> (sint (le16 bs (2 * i)), sint (le16 bs (2 * i)))
      | signed_16_stereo \<Rightarrow> (sint (le16 bs (4 * i)), sint (le16 bs (4 * i + 2))))"

definition channel_frame :: "kmemory \<Rightarrow> mix_segment \<Rightarrow> nat \<Rightarrow> int \<times> int" where
  "channel_frame km sg f =
     (let i = unat (sg_src_pos sg) + f * unat (sg_sample_rate sg) div 48000;
          (l, r) = unit_samples (sg_fmt sg) (seg_bytes km sg) i
      in if i < unat (sg_src_total sg) then (l * uint (sg_vol_left sg) div 256, r * uint (sg_vol_right sg) div 256) else (0, 0))"

definition mixed_frame :: "kmemory \<Rightarrow> mix_ch list \<Rightarrow> nat \<Rightarrow> int \<times> int" where
  "mixed_frame km chs f =
     (let fs = map (\<lambda>ch. channel_frame km (mc_current ch) f) (filter mc_active chs)
      in (sum_list (map fst fs), sum_list (map snd fs)))"

definition mixed_bytes :: "kmemory \<Rightarrow> mix_ch list \<Rightarrow> nat \<Rightarrow> u8 list" where
  "mixed_bytes km chs n =
     concat (map (\<lambda>f. i16_bytes (clamp_i16 (fst (mixed_frame km chs f))) @ i16_bytes (clamp_i16 (snd (mixed_frame km chs f)))) [0..<n])"

section \<open>The code computes the reference\<close>

lemma payload_units:
  assumes "payload_bytes fmt n \<noteq> 0"
  shows "unat (payload_bytes fmt n) = unat n * unat (bytes_per_unit fmt)"
proof -
  have le: "n \<le> NOT 0 div bytes_per_unit fmt" and e: "payload_bytes fmt n = n * bytes_per_unit fmt"
    using assms by (auto simp: payload_bytes_def Let_def not_less split: if_splits)
  have "unat n * unat (bytes_per_unit fmt) < 2 ^ 32"
    using le unat_less_exp [of n] by (cases fmt) (auto simp: word_le_nat_alt unat_div)
  then show ?thesis unfolding e by (simp add: unat_mult_lem [THEN iffD1])
qed

lemma le16_heap_bytes:
  assumes "j + 1 < n" shows "le16 (heap_bytes km (a + word_of_nat j) 2) 0 = le16 (heap_bytes km a n) j"
  using assms by (simp add: le16_def add.assoc add.commute [of 1])

lemma frame_samples_unit:
  assumes p: "payload_bytes (sg_fmt sg) (sg_src_total sg) \<noteq> 0" and i: "idx < sg_src_total sg"
  shows "frame_samples km sg idx = unit_samples (sg_fmt sg) (seg_bytes km sg) (unat idx)"
proof -
  let ?n = "unat (payload_bytes (sg_fmt sg) (sg_src_total sg))"
  have n: "?n = unat (sg_src_total sg) * unat (bytes_per_unit (sg_fmt sg))" by (rule payload_units [OF p])
  have lt: "unat idx < unat (sg_src_total sg)" using i by (simp add: word_less_nat_alt)
  have u: "(ucast idx :: u64) = word_of_nat (unat idx)" by simp
  show ?thesis
  proof (cases "sg_fmt sg")
    case unsigned_8
    then show ?thesis using n lt by (simp add: frame_samples_def unit_samples_def seg_bytes_def Let_def)
  next
    case signed_16
    have "2 * (ucast idx :: u64) = word_of_nat (2 * unat idx)" by simp
    moreover have "2 * unat idx + 1 < ?n" using n lt signed_16 by simp
    ultimately show ?thesis using signed_16 le16_heap_bytes [of "2 * unat idx" ?n km "sg_data sg"]
      by (simp add: frame_samples_def unit_samples_def seg_bytes_def i16_at_def Let_def)
  next
    case signed_16_stereo
    have b: "?n < 2 ^ 32" using unat_less_exp [of "payload_bytes (sg_fmt sg) (sg_src_total sg)"] by simp
    have l: "4 * unat idx + 3 < ?n" using n lt signed_16_stereo by simp
    have "unat (idx * 2) = 2 * unat idx" using l b by (simp add: unat_mult_lem [THEN iffD1])
    moreover have "unat (idx * 2 + 1) = 2 * unat idx + 1" using l b calculation by (simp add: unat_add_lem [THEN iffD1])
    moreover have "(ucast x :: u64) = word_of_nat (unat x)" for x :: u32 by simp
    ultimately have "2 * (ucast (idx * 2) :: u64) = word_of_nat (4 * unat idx)" "2 * (ucast (idx * 2 + 1) :: u64) = word_of_nat (4 * unat idx + 2)"
      by (simp_all only:) simp_all
    then show ?thesis using signed_16_stereo l le16_heap_bytes [of "4 * unat idx" ?n km "sg_data sg"] le16_heap_bytes [of "4 * unat idx + 2" ?n km "sg_data sg"]
      by (simp add: frame_samples_def unit_samples_def seg_bytes_def i16_at_def)
  qed
qed

text \<open>Positions do not wrap for sounds of less than \<open>2\<^sup>3\<^sup>1\<close> samples.\<close>

lemma src_index_nat:
  assumes "unat (sg_src_pos sg) < 2 ^ 31" "f < 16384"
  shows "unat (src_index sg f) = unat (sg_src_pos sg) + f * unat (sg_sample_rate sg) div 48000"
proof -
  have "f * unat (sg_sample_rate sg) \<le> 16384 * 2 ^ 32" using assms(2) unat_less_exp [of "sg_sample_rate sg"] by (intro mult_mono) simp_all
  then have "f * unat (sg_sample_rate sg) div 48000 \<le> 16384 * 2 ^ 32 div 48000" by (rule div_le_mono)
  then have q: "f * unat (sg_sample_rate sg) div 48000 < 2 ^ 31" by simp
  then have "unat (word_of_nat (f * unat (sg_sample_rate sg) div 48000) :: u32) = f * unat (sg_sample_rate sg) div 48000"
    by (simp add: unat_of_nat)
  then show ?thesis using assms(1) q by (simp add: src_index_def MIX_OUTPUT_RATE_def unat_add_lem [THEN iffD1])
qed

definition add_frame :: "int \<times> int \<Rightarrow> nat \<Rightarrow> int list \<Rightarrow> int list" where
  "add_frame x f acc = acc[2 * f := acc ! (2 * f) + fst x, 2 * f + 1 := acc ! (2 * f + 1) + snd x]"

lemma mix_frames_spec:
  assumes p: "payload_bytes (sg_fmt sg) (sg_src_total sg) \<noteq> 0" and b: "unat (sg_src_pos sg) < 2 ^ 31"
  shows "f + n \<le> 16384 \<Longrightarrow> length acc = 2 * (f + n) \<Longrightarrow>
    length (mix_frames km sg f n acc) = 2 * (f + n) \<and>
    (\<forall>j < f + n. mix_frames km sg f n acc ! (2 * j) = acc ! (2 * j) + (if f \<le> j then fst (channel_frame km sg j) else 0) \<and>
       mix_frames km sg f n acc ! (2 * j + 1) = acc ! (2 * j + 1) + (if f \<le> j then snd (channel_frame km sg j) else 0))"
proof (induction n arbitrary: f acc)
  case 0
  then show ?case by simp
next
  case (Suc n)
  let ?idx = "src_index sg f"
  have idx: "unat ?idx = unat (sg_src_pos sg) + f * unat (sg_sample_rate sg) div 48000" by (rule src_index_nat [OF b]) (use Suc.prems in simp)
  show ?case
  proof (cases "?idx \<ge> sg_src_total sg")
    case True
    have "channel_frame km sg j = (0, 0)" if "f \<le> j" for j
    proof -
      have "unat (sg_src_total sg) \<le> unat ?idx" using True by (simp add: word_le_nat_alt)
      also have "\<dots> \<le> unat (sg_src_pos sg) + j * unat (sg_sample_rate sg) div 48000" unfolding idx using that by (simp add: div_le_mono)
      finally show ?thesis by (simp add: channel_frame_def Let_def split: prod.splits)
    qed
    then show ?thesis using True Suc.prems by (simp add: Let_def)
  next
    case False
    then have lt: "?idx < sg_src_total sg" by simp
    obtain l r where lr: "frame_samples km sg ?idx = (l, r)" by fastforce
    have cf: "channel_frame km sg f = (l * uint (sg_vol_left sg) div 256, r * uint (sg_vol_right sg) div 256)"
      using lr lt frame_samples_unit [OF p lt, of km] unfolding idx by (simp add: channel_frame_def Let_def word_less_nat_alt idx)
    define acc' where "acc' = add_frame (channel_frame km sg f) f acc"
    have e: "mix_frames km sg f (Suc n) acc = mix_frames km sg (Suc f) n acc'"
      using False lr cf Suc.prems by (simp add: acc'_def add_frame_def Let_def)
    have "length acc' = 2 * (Suc f + n)" using Suc.prems by (simp add: acc'_def add_frame_def)
    note IH = Suc.IH [OF _ this]
    have "acc' ! (2 * j) = (if j = f then acc ! (2 * j) + fst (channel_frame km sg f) else acc ! (2 * j))"
      "acc' ! (2 * j + 1) = (if j = f then acc ! (2 * j + 1) + snd (channel_frame km sg f) else acc ! (2 * j + 1))" if "j < f + Suc n" for j
      using that Suc.prems by (auto simp: acc'_def add_frame_def nth_list_update)
    moreover have "(Suc f \<le> j \<or> j = f) = (f \<le> j)" for j by auto
    ultimately show ?thesis using IH Suc.prems unfolding e by (auto simp: le_eq_less_or_eq Suc_le_eq)
  qed
qed

text \<open>Adding the channels of a list to the accumulator.\<close>

definition short_sound :: "mix_ch \<Rightarrow> bool" where
  "short_sound ch \<longleftrightarrow> unat (sg_src_total (mc_current ch)) < 2 ^ 31"

definition mix_ready :: "mix_ch \<Rightarrow> bool" where
  "mix_ready ch \<longleftrightarrow> ch_ok ch \<and> settled ch \<and> short_sound ch \<and>
     (mc_active ch \<longrightarrow> payload_bytes (sg_fmt (mc_current ch)) (sg_src_total (mc_current ch)) \<noteq> 0)"

lemma mixed_frame_Cons:
  "mixed_frame km (ch # chs) f =
     (if mc_active ch then (fst (channel_frame km (mc_current ch) f) + fst (mixed_frame km chs f), snd (channel_frame km (mc_current ch) f) + snd (mixed_frame km chs f))
      else mixed_frame km chs f)"
  by (simp add: mixed_frame_def Let_def)

lemma mix_fold:
  "\<forall>ch \<in> set chs. mix_ready ch \<Longrightarrow> n \<le> 16384 \<Longrightarrow> length acc = 2 * n \<Longrightarrow>
    (let acc' = fold (\<lambda>ch acc. if mc_active ch then mix_frames km (mc_current ch) 0 n acc else acc) chs acc
     in length acc' = 2 * n \<and> (\<forall>j < n. acc' ! (2 * j) = acc ! (2 * j) + fst (mixed_frame km chs j) \<and> acc' ! (2 * j + 1) = acc ! (2 * j + 1) + snd (mixed_frame km chs j)))"
proof (induction chs arbitrary: acc)
  case Nil
  then show ?case by (simp add: mixed_frame_def)
next
  case (Cons ch chs)
  show ?case
  proof (cases "mc_active ch")
    case False
    then show ?thesis using Cons by (simp add: mixed_frame_Cons)
  next
    case True
    have r: "mix_ready ch" using Cons.prems(1) by simp
    have p: "payload_bytes (sg_fmt (mc_current ch)) (sg_src_total (mc_current ch)) \<noteq> 0" and b: "unat (sg_src_pos (mc_current ch)) < 2 ^ 31"
      using r True by (auto simp: mix_ready_def settled_def short_sound_def word_less_nat_alt)
    note M = mix_frames_spec [OF p b, of 0 n acc km]
    have "length (mix_frames km (mc_current ch) 0 n acc) = 2 * n" using M Cons.prems by simp
    from Cons.IH [OF _ Cons.prems(2) this] Cons.prems(1) M Cons.prems True show ?thesis by (simp add: mixed_frame_Cons Let_def)
  qed
qed

lemma fold_nth: "fold (\<lambda>i. g (xs ! i)) [0..<length xs] a = fold g xs a"
proof -
  have "fold g xs a = fold g (map (\<lambda>i. xs ! i) [0..<length xs]) a" by (simp add: map_nth)
  then show ?thesis unfolding fold_map comp_def by simp
qed

lemma bytes_of_pairs:
  "length acc = 2 * n \<Longrightarrow> concat (map h acc) = concat (map (\<lambda>j. h (acc ! (2 * j)) @ h (acc ! (2 * j + 1))) [0..<n])"
proof (induction n arbitrary: acc)
  case (Suc n)
  have l: "length (take (2 * n) acc) = 2 * n" using Suc.prems by simp
  have "drop (2 * n) acc = [acc ! (2 * n), acc ! (2 * n + 1)]"
    using Suc.prems by (simp add: Cons_nth_drop_Suc [symmetric])
  then have a: "acc = take (2 * n) acc @ [acc ! (2 * n), acc ! (2 * n + 1)]" by (metis append_take_drop_id)
  have "concat (map h acc) = concat (map h (take (2 * n) acc)) @ h (acc ! (2 * n)) @ h (acc ! (2 * n + 1))"
    using arg_cong [OF a, of "\<lambda>x. concat (map h x)"] by simp
  also have "concat (map h (take (2 * n) acc)) = concat (map (\<lambda>j. h (acc ! (2 * j)) @ h (acc ! (2 * j + 1))) [0..<n])"
    unfolding Suc.IH [OF l] by (intro arg_cong [where f = concat] map_cong) auto
  finally show ?case by simp
qed simp

lemma mixed_bytes_eq:
  assumes "\<forall>ch \<in> set chs. mix_ready ch" "n \<le> 16384"
  shows "concat (map (i16_bytes \<circ> clamp_i16) (fold (\<lambda>ch acc. if mc_active ch then mix_frames km (mc_current ch) 0 n acc else acc) chs (replicate (2 * n) 0))) =
    mixed_bytes km chs n"
proof -
  let ?a = "fold (\<lambda>ch acc. if mc_active ch then mix_frames km (mc_current ch) 0 n acc else acc) chs (replicate (2 * n) (0 :: int))"
  have "length ?a = 2 * n" "\<forall>j < n. ?a ! (2 * j) = fst (mixed_frame km chs j) \<and> ?a ! (2 * j + 1) = snd (mixed_frame km chs j)"
    using mix_fold [OF assms, of "replicate (2 * n) 0" km] by (simp_all add: Let_def)
  then show ?thesis unfolding mixed_bytes_def bytes_of_pairs [OF \<open>length ?a = 2 * n\<close>] by (intro arg_cong [where f = concat] map_cong) auto
qed

text \<open>The accumulator is far from its 32-bit limits.\<close>

lemma scaled_bound: "- 32768 \<le> x \<Longrightarrow> x \<le> 32767 \<Longrightarrow> \<bar>x * uint (v :: u8) div 256\<bar> \<le> 32768"
proof -
  assume x: "- 32768 \<le> x" "x \<le> 32767"
  have v: "0 \<le> uint v" "uint v \<le> 256" using uint_bounded [of v] by simp_all
  have "- 32768 * 256 \<le> - 32768 * uint v" using v by simp
  also have "\<dots> \<le> x * uint v" using x v by (intro mult_right_mono) simp_all
  finally have lo: "- 32768 * 256 \<le> x * uint v" .
  have "x * uint v \<le> 32767 * uint v" using x v by (intro mult_right_mono) simp_all
  also have "\<dots> \<le> 32767 * 256" using v by simp
  finally have hi: "x * uint v \<le> 32767 * 256" .
  show ?thesis using zdiv_mono1 [OF lo, of 256] zdiv_mono1 [OF hi, of 256] by simp
qed

lemma unit_samples_bound:
  "- 32768 \<le> fst (unit_samples fmt bs i)" "fst (unit_samples fmt bs i) \<le> 32767" "- 32768 \<le> snd (unit_samples fmt bs i)" "snd (unit_samples fmt bs i) \<le> 32767"
proof -
  have s: "- 32768 \<le> sint w" "sint w \<le> 32767" for w :: u16 using sint_greater_eq [of w] sint_lt [of w] by simp_all
  have u: "0 \<le> uint w" "uint w \<le> 255" for w :: u8 using uint_bounded [of w] by simp_all
  have "- 32768 \<le> (uint w - 128) * 256" "(uint w - 128) * 256 \<le> 32767" for w :: u8 using u [of w] by simp_all
  then show "- 32768 \<le> fst (unit_samples fmt bs i)" "fst (unit_samples fmt bs i) \<le> 32767"
    "- 32768 \<le> snd (unit_samples fmt bs i)" "snd (unit_samples fmt bs i) \<le> 32767"
    using s by (cases fmt; simp add: unit_samples_def)+
qed

lemma channel_frame_bound: "\<bar>fst (channel_frame km sg f)\<bar> \<le> 32768" "\<bar>snd (channel_frame km sg f)\<bar> \<le> 32768"
  using scaled_bound unit_samples_bound by (auto simp: channel_frame_def Let_def split: prod.split) (metis fst_conv snd_conv)+

lemma mixed_frame_bound:
  "\<bar>fst (mixed_frame km chs f)\<bar> \<le> 32768 * int (length chs)" "\<bar>snd (mixed_frame km chs f)\<bar> \<le> 32768 * int (length chs)"
proof (induction chs)
  case (Cons ch chs)
  { case 1 then show ?case using Cons(1) channel_frame_bound(1) [of km "mc_current ch" f] by (auto simp: mixed_frame_Cons) }
  { case 2 then show ?case using Cons(2) channel_frame_bound(2) [of km "mc_current ch" f] by (auto simp: mixed_frame_Cons) }
qed (simp_all add: mixed_frame_def)

section \<open>Moving on\<close>

lemma advance_loop_same: "j \<notin> set is \<Longrightarrow> snd_mix_ch (advance_loop s is n) ! j = snd_mix_ch s ! j"
proof (induction "is" arbitrary: s)
  case (Cons i "is")
  obtain s1 p where r: "refresh_at s i = (s1, p)" by fastforce
  define s2 where "s2 = s1\<lparr>snd_mix_ch := (snd_mix_ch s1)[i := (snd_mix_ch s1 ! i)\<lparr>mc_current := advance_segment n (mc_current (snd_mix_ch s1 ! i))\<rparr>]\<rparr>"
  obtain s3 q where r3: "refresh_at s2 i = (s3, q)" by fastforce
  have e: "advance_loop s (i # is) n = (if p then advance_loop s3 is n else advance_loop s1 is n)" using r r3 by (simp add: s2_def Let_def)
  have "snd_mix_ch s1 ! j = snd_mix_ch s ! j" "snd_mix_ch s3 ! j = snd_mix_ch s1 ! j"
    using refresh_at_same [OF r] refresh_at_same [OF r3] Cons.prems by (auto simp: s2_def)
  then show ?case unfolding e using Cons.IH [of s1] Cons.IH [of s3] Cons.prems by simp
qed simp

lemma advance_loop_moves:
  assumes ok: "snd_ok s" "\<forall>i \<in> set is. i < MIX_CHANNELS" "distinct is" "j \<in> set is" and st: "settled (snd_mix_ch s ! j)" "mc_active (snd_mix_ch s ! j)"
    and rest: "sg_src_pos (advance_segment n (mc_current (snd_mix_ch s ! j))) < sg_src_total (mc_current (snd_mix_ch s ! j))"
  shows "snd_mix_ch (advance_loop s is n) ! j = (snd_mix_ch s ! j)\<lparr>mc_current := advance_segment n (mc_current (snd_mix_ch s ! j))\<rparr>"
  using assms
proof (induction "is" arbitrary: s)
  case (Cons i "is")
  have i: "i < MIX_CHANNELS" using Cons.prems(2) by simp
  obtain s1 p where r: "refresh_at s i = (s1, p)" by fastforce
  note R = refresh_at_step [OF Cons.prems(1) i r]
  define s2 where "s2 = s1\<lparr>snd_mix_ch := (snd_mix_ch s1)[i := (snd_mix_ch s1 ! i)\<lparr>mc_current := advance_segment n (mc_current (snd_mix_ch s1 ! i))\<rparr>]\<rparr>"
  have 2: "mix_step s1 s2" unfolding s2_def by (rule advance_channel [OF mix_step_ok [OF R(1)] i])
  obtain s3 q where r3: "refresh_at s2 i = (s3, q)" by fastforce
  note R3 = refresh_at_step [OF mix_step_ok [OF 2] i r3]
  have e: "advance_loop s (i # is) n = (if p then advance_loop s3 is n else advance_loop s1 is n)" using r r3 by (simp add: s2_def Let_def)
  show ?case
  proof (cases "j = i")
    case False
    have s1: "snd_mix_ch s1 ! j = snd_mix_ch s ! j" and s3: "snd_mix_ch s3 ! j = snd_mix_ch s ! j"
      using refresh_at_same [OF r] refresh_at_same [OF r3] False by (auto simp: s2_def)
    have "j \<in> set is" using False Cons.prems(4) by simp
    then show ?thesis unfolding e using Cons.IH [of s1] Cons.IH [of s3] s1 s3 Cons.prems mix_step_ok [OF R(1)] mix_step_ok [OF R3(1)] by simp
  next
    case True
    let ?ch = "snd_mix_ch s ! i" let ?ch' = "?ch\<lparr>mc_current := advance_segment n (mc_current ?ch)\<rparr>"
    have "ch_ok ?ch" by (rule channel_ok [OF Cons.prems(1) i])
    then have s1: "s1 = s" "p" using refresh_at_settled [of s i] r Cons.prems(5,6) True by auto
    have l: "i < length (snd_mix_ch s)" using Cons.prems(1) i by (simp add: snd_ok_def)
    have c2: "snd_mix_ch s2 ! i = ?ch'" using l by (simp add: s2_def s1)
    have "settled ?ch'" using Cons.prems(7) True by (simp add: settled_def advance_segment_def Let_def)
    moreover have "ch_ok ?ch'" using channel_ok [OF mix_step_ok [OF 2] i] c2 by simp
    ultimately have "s3 = s2" using refresh_at_settled [of s2 i] r3 c2 by simp
    then show ?thesis unfolding e using s1 advance_loop_same [of j "is" s2 n] Cons.prems(3) c2 True by simp
  qed
qed simp

lemma advance_short:
  assumes "unat (sg_src_pos sg) < unat (sg_src_total sg)" "n \<le> 16384"
    and "unat (sg_src_pos sg) + n * unat (sg_sample_rate sg) div 48000 < unat (sg_src_total sg)"
  shows "unat (sg_src_pos (advance_segment n sg)) = unat (sg_src_pos sg) + n * unat (sg_sample_rate sg) div 48000"
proof -
  let ?q = "n * unat (sg_sample_rate sg) div 48000" and ?r = "sg_src_total sg - sg_src_pos sg"
  have b: "?q < 2 ^ 32" using assms(3) unat_less_exp [of "sg_src_total sg"] by simp
  then have q: "unat (word_of_nat ?q :: u32) = ?q" by (simp add: unat_of_nat)
  have r: "unat ?r = unat (sg_src_total sg) - unat (sg_src_pos sg)" by (rule unat_sub) (use assms(1) in \<open>simp add: word_le_nat_alt\<close>)
  have "\<not> (word_of_nat ?q :: u32) > ?r" using q r assms(3) by (simp add: word_less_nat_alt)
  then have "sg_src_pos (advance_segment n sg) = sg_src_pos sg + word_of_nat ?q" by (simp add: advance_segment_def Let_def MIX_OUTPUT_RATE_def)
  moreover have "unat (sg_src_pos sg) + ?q < 2 ^ 32" using assms(3) unat_less_exp [of "sg_src_total sg"] by simp
  ultimately show ?thesis using q by (simp add: unat_add_lem [THEN iffD1])
qed

end
