(* ===== verification/SoundSpec.thy ===== *)
theory SoundSpec
  imports SoundMix KHeapSpec
begin

text \<open>
  The properties of the sound subsystem: who owns the memory of the mixer in any sequence of
  operations, and what is handed to the driver.
\<close>

section \<open>New segments\<close>

lemma payload_bound: "payload_bytes fmt n \<noteq> 0 \<Longrightarrow> unat (payload_bytes fmt n) < 2 ^ 32"
  using unat_less_exp [of "payload_bytes fmt n"] by simp

text \<open>The copy of the samples is a block that nobody owned.\<close>

lemma new_segment_spec:
  assumes ok: "snd_ok s"
  obtains (none) km where "new_segment (snd_km s) c src bs n fmt rate vl vr = Some (km, None)" "mix_step s (s\<lparr>snd_km := km\<rparr>)"
  | (some) km sg where "new_segment (snd_km s) c src bs n fmt rate vl vr = Some (km, Some sg)" "0 \<le> c" "nat c < MIX_CHANNELS"
      "sg_data sg \<noteq> 0" "sg_data sg \<notin> set (owned (snd_mix_ch s))" "seg_ok km sg"
      "holds_step (snd_km s) (set (owned (snd_mix_ch s))) km (insert (sg_data sg) (set (owned (snd_mix_ch s))))"
      "\<forall>ch \<in> set (snd_mix_ch s). ch_good km ch"
proof (cases "c < 0 \<or> nat c \<ge> MIX_CHANNELS \<or> src = 0 \<or> n = 0 \<or> rate = 0 \<or> payload_bytes fmt n = 0")
  case True
  then have "new_segment (snd_km s) c src bs n fmt rate vl vr = Some (snd_km s, None)" by (auto simp: new_segment_def Let_def)
  then show ?thesis using none [of "snd_km s"] mix_step_refl [OF ok] by simp
next
  case False
  let ?n = "ucast (payload_bytes fmt n) :: u64"
  have i: "km_inv (snd_km s)" by (rule snd_ok_inv [OF ok])
  have u: "unat ?n = unat (payload_bytes fmt n)" by (simp add: unat_ucast_up)
  have n: "0 < unat ?n" "unat ?n \<le> 2 ^ 60" using False payload_bound [of fmt n] unfolding u by (auto simp: unat_gt_0)
  obtain ns where k: "km_ok (snd_km s) ns" "\<not> kh_expanding (km_heap (snd_km s))" using i by (auto simp: km_inv_def)
  obtain km1 p where al: "kh_allocate (snd_km s) ?n = Some (km1, p)" and ka: "km_alloced (snd_km s) ns ?n km1 p" using kh_allocate_correct [OF k n(2)] by blast
  note A = heap_frame_alloc [OF i n al]
  have lv: "\<forall>q. q \<noteq> p \<or> p = 0 \<longrightarrow> kh_live km1 q = kh_live (snd_km s) q" using km_alloced_live(2,3) [OF k(1) ka] by metis
  let ?O = "set (owned (snd_mix_ch s))"
  have OL: "?O \<subseteq> heap_live_blocks (snd_km s)" by (rule owned_live [OF ok])
  show ?thesis
  proof (cases "p = 0")
    case True
    then have e: "new_segment (snd_km s) c src bs n fmt rate vl vr = Some (km1, None)" using False al by (simp add: new_segment_def Let_def)
    have "heap_live_blocks km1 = heap_live_blocks (snd_km s)" using lv True by (simp add: heap_live_blocks_def)
    then have h: "holds_step (snd_km s) {} km1 {}" using A(1) by (simp add: holds_step_def)
    have "holds_step (snd_km s) ?O km1 ?O" using holds_step_widen [OF h OL] by simp
    moreover have "\<forall>ch \<in> set (snd_mix_ch s). ch_good km1 ch" using ch_good_frame [OF h] ok by (auto simp: snd_ok_def)
    ultimately have "mix_step s (s\<lparr>snd_km := km1\<rparr>)" using ok heap_frame_inv [OF A(1)] by (simp add: mix_step_def snd_ok_def)
    then show ?thesis using none e by blast
  next
    case p: False
    define sg where "sg = \<lparr>sg_data = p, sg_source_data = src, sg_src_total = n, sg_src_pos = 0, sg_sample_rate = rate, sg_fmt = fmt, sg_vol_left = vl, sg_vol_right = vr\<rparr>"
    let ?d = "take (unat (payload_bytes fmt n)) bs" let ?km = "store km1 (p + word_of_nat 0) ?d"
    have e: "new_segment (snd_km s) c src bs n fmt rate vl vr = Some (?km, Some sg)" using False al p by (simp add: new_segment_def Let_def sg_def)
    have b: "kh_live (snd_km s) p = {}" "block_of km1 p (unat ?n)" using A(2) p by simp_all
    have l: "0 + length ?d \<le> unat ?n" unfolding u by simp
    note S = heap_frame_store [OF heap_frame_inv [OF A(1)] b(2) l]
    have fr: "heap_frame (snd_km s) ?km {}" by (rule heap_frame_trans [OF A(1) S(1)]) (use b in simp)
    have b2: "block_of ?km p (unat ?n)" using b(2) S(2) by (simp add: block_of_def)
    have "heap_live_blocks ?km = insert p (heap_live_blocks (snd_km s))"
    proof (intro set_eqI)
      show "q \<in> heap_live_blocks ?km \<longleftrightarrow> q \<in> insert p (heap_live_blocks (snd_km s))" for q
        using lv S(2) block_of_live [OF b2 n(1)] by (cases "q = p") (simp_all add: heap_live_blocks_def)
    qed
    then have h: "holds_step (snd_km s) {} ?km {p}" using fr b(1) by (auto simp: holds_step_def heap_live_blocks_def)
    have np: "p \<notin> ?O" using OL b(1) by (auto simp: heap_live_blocks_def)
    have H: "holds_step (snd_km s) ?O ?km (insert p ?O)" using holds_step_widen [OF h OL] by simp
    have "seg_ok ?km sg" using b2 False unfolding u by (simp add: seg_ok_def sg_def)
    moreover have "\<forall>ch \<in> set (snd_mix_ch s). ch_good ?km ch" using ch_good_frame [OF h] ok by (auto simp: snd_ok_def)
    ultimately show ?thesis using some [OF e] H np p False by (simp add: sg_def)
  qed
qed

section \<open>The operations of the interface\<close>

text \<open>A new segment joins channel \<open>i\<close>: its block becomes one of the mixer's.\<close>

lemma add_segment:
  assumes ok: "snd_ok s" and i: "i < MIX_CHANNELS" and p: "p \<notin> set (owned (snd_mix_ch s))"
    and h: "holds_step km0 A0 (snd_km s) (insert p (set (owned (snd_mix_ch s))))"
    and ch: "ch_good (snd_km s) ch" "set (own ch) = insert p (set (own (snd_mix_ch s ! i)))"
  shows "snd_ok (set_channel s i (snd_km s, ch)) \<and> holds_step km0 A0 (snd_km s) (set (owned ((snd_mix_ch s)[i := ch])))"
proof -
  let ?chs = "snd_mix_ch s"
  have len: "i < length ?chs" using ok i by (simp add: snd_ok_def)
  define A B where "A = take i ?chs" and "B = drop (Suc i) ?chs"
  have chs: "?chs = A @ ?chs ! i # B" unfolding A_def B_def by (rule id_take_nth_drop [OF len])
  have upd: "?chs[i := ch] = A @ ch # B" unfolding A_def B_def by (rule upd_conv_take_nth_drop [OF len])
  have l: "owned ?chs = owned A @ own (?chs ! i) @ owned B" "owned (?chs[i := ch]) = owned A @ own ch @ owned B"
    using arg_cong [OF chs, of owned] upd by (simp_all add: owned_def)
  have d: "distinct (owned ?chs)" using ok by (simp add: snd_ok_def)
  have "distinct (owned (?chs[i := ch]))" using d ch p unfolding l by (auto simp: ch_good_def)
  moreover have "set (owned (?chs[i := ch])) = insert p (set (owned ?chs))" unfolding l using ch(2) by auto
  moreover have "\<forall>c \<in> set (?chs[i := ch]). ch_good (snd_km s) c"
    using ok ch(1) set_update_subset_insert [of ?chs i ch] unfolding snd_ok_def by blast
  ultimately show ?thesis using h ok by (simp add: snd_ok_def)
qed

lemma reset_at_channel: "snd_mix_ch (reset_at s i) = (snd_mix_ch s)[i := empty_channel]"
  by (simp add: reset_at_def reset_mix_channel_def Let_def)

lemma empty_channel_idle [simp]: "\<not> mc_active empty_channel"
  by (simp add: empty_channel_def)

lemma mix_play_step:
  assumes ok: "snd_ok s" and m: "mix_play s c src bs n fmt rate vl vr = Some (s', r)" shows "mix_step s s'"
proof (rule new_segment_spec [OF ok, of c src bs n fmt rate vl vr], goal_cases)
  case (1 km)
  then have "s' = s\<lparr>snd_km := km\<rparr>" using m by (simp add: mix_play_def)
  then show ?case using 1 by simp
next
  case (2 km sg)
  let ?i = "nat c" and ?O = "set (owned (snd_mix_ch s))"
  define v where "v = reset_at (s\<lparr>snd_km := km\<rparr>) ?i"
  let ?V = "set (owned (snd_mix_ch v))"
  have ok1: "snd_ok (s\<lparr>snd_km := km\<rparr>)" using 2(8) ok holds_step_inv [OF 2(7)] by (simp add: snd_ok_def)
  have v: "mix_step (s\<lparr>snd_km := km\<rparr>) v" unfolding v_def by (rule reset_at_step [OF ok1 2(3)])
  have vc: "snd_mix_ch v = (snd_mix_ch s)[?i := empty_channel]" unfolding v_def by (simp add: reset_at_channel)
  have vi: "snd_mix_ch v ! ?i = empty_channel" using ok 2(3) by (simp add: vc snd_ok_def)
  have hv: "holds_step km ?O (snd_km v) ?V" using v by (simp add: mix_step_def)
  have "holds_step km (?O \<union> {sg_data sg}) (snd_km v) (?V \<union> {sg_data sg})"
    by (rule holds_step_widen [OF hv]) (use 2(5) holds_step_live [OF 2(7)] in auto)
  then have H: "holds_step (snd_km s) ?O (snd_km v) (insert (sg_data sg) ?V)" using holds_step_trans [OF 2(7)] by simp
  have "?V \<subseteq> ?O" using set_update_subset_insert [of "snd_mix_ch s" ?i empty_channel] by (fastforce simp: vc owned_def)
  then have nv: "sg_data sg \<notin> ?V" using 2(5) by blast
  obtain km2 ch2 where a: "adopt_current_segment (snd_km v) empty_channel sg = (km2, ch2)" by fastforce
  have ne: "sg_data sg \<notin> set (own empty_channel)" by simp
  note g = adopt_good [OF ch_good_empty empty_channel_idle seg_ok_frame [OF hv 2(6,5)] 2(4) ne a]
  have "s' = set_channel v ?i (snd_km v, ch2)" using m 2(1) a g(1) vi unfolding mix_play_def by (simp add: Let_def v_def [symmetric])
  then show ?case using add_segment [OF mix_step_ok [OF v] 2(3) nv H g(2)] g(3) vi by (simp add: mix_step_def)
qed

lemma mix_queue_play_step:
  assumes ok: "snd_ok s" and m: "mix_queue_play s c src bs n fmt rate vl vr = Some (s', r)" shows "mix_step s s'"
proof (rule new_segment_spec [OF ok, of c src bs n fmt rate vl vr], goal_cases)
  case (1 km)
  then have "s' = s\<lparr>snd_km := km\<rparr>" using m by (simp add: mix_queue_play_def)
  then show ?case using 1 by simp
next
  case (2 km sg)
  let ?i = "nat c" and ?ch = "snd_mix_ch s ! nat c" and ?O = "set (owned (snd_mix_ch s))" and ?s = "s\<lparr>snd_km := km\<rparr>"
  have ok1: "snd_ok ?s" using 2(8) ok holds_step_inv [OF 2(7)] by (simp add: snd_ok_def)
  have g: "ch_good km ?ch" using channel_good [OF ok1 2(3)] by simp
  have ne: "sg_data sg \<notin> set (own ?ch)" using 2(3,5) ok by (auto simp: owned_def snd_ok_def)
  have add: "mix_step s (set_channel s ?i (km, ch'))" if h: "ch_good km ch'" "set (own ch') = insert (sg_data sg) (set (own ?ch))" for ch'
    using add_segment [OF ok1 2(3), of "sg_data sg" "snd_km s" ?O ch'] 2(5,7) h by (simp add: mix_step_def)
  consider (idle) "\<not> mc_active ?ch" | (full) "mc_active ?ch" "enqueue_pending_segment ?ch sg = (?ch, False)"
    | (queued) ch' where "mc_active ?ch" "enqueue_pending_segment ?ch sg = (ch', True)"
    by (cases "mc_active ?ch"; cases "mc_pending_count ?ch \<ge> MIX_QUEUE_CAPACITY") (auto simp: enqueue_pending_segment_def)
  then show ?case
  proof cases
    case idle
    then have z: "mc_pending_count ?ch = 0" using g by (simp add: ch_good_def ch_ok_def)
    obtain km2 ch2 where a: "adopt_current_segment km ?ch sg = (km2, ch2)" by fastforce
    note G = adopt_good [OF g idle 2(6,4) ne a]
    then show ?thesis using add [OF G(2,3)] m 2(1) a idle z by (simp add: mix_queue_play_def Let_def)
  next
    case full
    have s': "s' = s\<lparr>snd_km := kh_free km (sg_data sg)\<rparr>" using m 2(1,4) full by (simp add: mix_queue_play_def Let_def reset_segment_def)
    have f: "holds_step km {sg_data sg} (kh_free km (sg_data sg)) {}"
      by (rule holds_step_free) (use snd_ok_inv [OF ok1] holds_step_live [OF 2(7)] in auto)
    have "holds_step km ({sg_data sg} \<union> ?O) (kh_free km (sg_data sg)) ({} \<union> ?O)"
      by (rule holds_step_widen [OF f]) (use 2(5) holds_step_live [OF 2(7)] in auto)
    then have h: "holds_step (snd_km s) ?O (kh_free km (sg_data sg)) ?O" using holds_step_trans [OF 2(7)] by simp
    have "\<forall>ch \<in> set (snd_mix_ch s). ch_good (kh_free km (sg_data sg)) ch"
    proof
      fix ch assume c: "ch \<in> set (snd_mix_ch s)"
      then have "set (own ch) \<inter> {sg_data sg} = {}" using 2(5) by (auto simp: owned_def)
      then show "ch_good (kh_free km (sg_data sg)) ch" using ch_good_frame [OF f] 2(8) c by blast
    qed
    then show ?thesis using h ok holds_step_inv [OF h] by (simp add: s' mix_step_def snd_ok_def)
  next
    case queued
    note G = enqueue_good [OF g queued(1) 2(6,4) ne queued(2)]
    then show ?thesis using add [OF G] m 2(1) queued by (simp add: mix_queue_play_def Let_def)
  qed
qed

lemma mix_stop_step:
  assumes ok: "snd_ok s" shows "mix_step s (mix_stop s c)"
proof (cases "c < 0 \<or> nat c \<ge> MIX_CHANNELS")
  case True
  then show ?thesis using mix_step_refl [OF ok] by (simp add: mix_stop_def)
next
  case False
  then have r: "mix_step s (reset_at s (nat c))" using reset_at_step [OF ok] by simp
  then show ?thesis using mix_step_trans [OF r stop_driver_if_idle_step [OF mix_step_ok [OF r]]] False by (simp add: mix_stop_def)
qed

lemma mix_stop_range_step:
  assumes ok: "snd_ok s" shows "mix_step s (mix_stop_range s a n)"
proof -
  let ?f = "\<lambda>i s. let ch = snd_mix_ch s ! i in
      if from_range a (a + n) (mc_current ch) \<or> (\<exists>sg \<in> set (mc_pending ch). from_range a (a + n) sg) then reset_at s i else s"
  have 1: "mix_step s (fold ?f [0..<MIX_CHANNELS] s)" by (rule fold_steps) (use reset_at_step mix_step_refl ok in \<open>auto simp: Let_def\<close>)
  then have "mix_step s (stop_driver_if_idle (fold ?f [0..<MIX_CHANNELS] s))"
    using stop_driver_if_idle_step [OF mix_step_ok [OF 1]] mix_step_trans by blast
  then show ?thesis using mix_step_refl [OF ok] unfolding mix_stop_range_def by (simp only: if_split) simp
qed

lemma resets:
  assumes "snd_ok s" shows "mix_step s (fold (\<lambda>i s. reset_at s i) [0..<MIX_CHANNELS] s)"
  by (rule fold_steps) (use reset_at_step assms in auto)

lemma resets_channels: "\<forall>i \<in> set is. i < length (snd_mix_ch s) \<Longrightarrow>
  length (snd_mix_ch (fold (\<lambda>i s. reset_at s i) is s)) = length (snd_mix_ch s) \<and>
  (\<forall>j < length (snd_mix_ch s). snd_mix_ch (fold (\<lambda>i s. reset_at s i) is s) ! j = (if j \<in> set is then empty_channel else snd_mix_ch s ! j))"
  by (induction "is" arbitrary: s) (auto simp: reset_at_channel nth_list_update)

lemma resets_own:
  assumes "snd_ok s" shows "owned (snd_mix_ch (fold (\<lambda>i s. reset_at s i) [0..<MIX_CHANNELS] s)) = []"
proof -
  have l: "length (snd_mix_ch s) = MIX_CHANNELS" using assms by (simp add: snd_ok_def)
  have "snd_mix_ch (fold (\<lambda>i s. reset_at s i) [0..<MIX_CHANNELS] s) = replicate MIX_CHANNELS empty_channel"
    using resets_channels [of "[0..<MIX_CHANNELS]" s] l by (intro nth_equalityI) auto
  moreover have "owned (replicate k empty_channel) = []" for k by (induction k) (simp_all add: owned_def)
  ultimately show ?thesis by simp
qed

lemma mix_shutdown_step: "snd_ok s \<Longrightarrow> mix_step s (mix_shutdown s) \<and> owned (snd_mix_ch (mix_shutdown s)) = []"
  unfolding mix_shutdown_def by (intro conjI resets resets_own)

lemma shutdown_active_step:
  assumes ok: "snd_ok s" shows "mix_step s (shutdown_active s) \<and> owned (snd_mix_ch (shutdown_active s)) = []"
proof -
  define u where "u = (case snd_active s of None \<Rightarrow> s | Some drv \<Rightarrow>
    if snd_initialised s then (case drv_shutdown drv of None \<Rightarrow> s | Some f \<Rightarrow> s\<lparr>snd_dev := f (snd_dev s)\<rparr>) else s)"
  have u: "mix_step s u" by (rule mix_step_other [OF ok]) (auto simp: u_def split: option.splits)
  note R = resets [OF mix_step_ok [OF u]] resets_own [OF mix_step_ok [OF u]]
  have "mix_step s (fold (\<lambda>i s. reset_at s i) [0..<MIX_CHANNELS] u)" by (rule mix_step_trans [OF u R(1)])
  then show ?thesis using R(2) unfolding shutdown_active_def u_def [symmetric] Let_def by (simp add: mix_step_def snd_ok_def)
qed

lemma register_step: "snd_ok s \<Longrightarrow> mix_step s (sound_register_driver s d)"
  by (rule mix_step_other) (auto simp: sound_register_driver_def Let_def split: option.splits)

lemma device_steps:
  assumes "snd_ok s"
  shows "mix_step s (fst (init_active s))" "mix_step s (fst (sound_set_sample_rate s r))" "mix_step s (fst (sound_play s bs fmt))"
    "mix_step s (sound_stop s)" "mix_step s (fst (sound_is_playing s))" "mix_step s (sound_set_volume s l r')"
  by (auto intro!: mix_step_other [OF assms] simp: init_active_def sound_set_sample_rate_def sound_play_def sound_stop_def
      sound_is_playing_def driver_is_playing_def sound_set_volume_def Let_def split: option.splits prod.splits)

text \<open>
  Any client, and the worker, calling any operation; \<open>elsewhere\<close> is another part of the kernel that
  uses the heap without touching the mixer's blocks.
\<close>

inductive sound_call :: "'d sound_state \<Rightarrow> 'd sound_state \<Rightarrow> bool" where
  register: "sound_call s (sound_register_driver s drv)"
| init: "sound_call s (fst (init_active s))"
| shutdown: "sound_call s (shutdown_active s)"
| worker: "sound_start_background_worker p entry sc s = (sc', s', ok) \<Longrightarrow> sound_call s s'"
| rate: "sound_call s (fst (sound_set_sample_rate s r))"
| direct: "sound_call s (fst (sound_play s bs fmt))"
| stop: "sound_call s (sound_stop s)"
| playing: "sound_call s (fst (sound_is_playing s))"
| volume: "sound_call s (sound_set_volume s l r)"
| play_channel: "mix_play s c src bs n fmt rate vl vr = Some (s', ok) \<Longrightarrow> sound_call s s'"
| queue_channel: "mix_queue_play s c src bs n fmt rate vl vr = Some (s', ok) \<Longrightarrow> sound_call s s'"
| stop_channel: "sound_call s (mix_stop s c)"
| channel_playing: "sound_call s (fst (mix_is_playing s c))"
| channels_playing: "sound_call s (fst (active_mix_channels s))"
| update: "mix_update s = Some s' \<Longrightarrow> sound_call s s'"
| stop_range: "sound_call s (mix_stop_range s a n)"
| shutdown_mixer: "sound_call s (mix_shutdown s)"
| round: "background_sound_round s = Some s' \<Longrightarrow> sound_call s s'"

inductive sound_run :: "'d sound_state \<Rightarrow> 'd sound_state \<Rightarrow> bool" for s0 where
  start: "sound_run s0 s0"
| call: "sound_run s0 s \<Longrightarrow> sound_call s s' \<Longrightarrow> sound_run s0 s'"
| elsewhere: "sound_run s0 s \<Longrightarrow> heap_frame (snd_km s) km A \<Longrightarrow> A \<inter> set (owned (snd_mix_ch s)) = {} \<Longrightarrow> sound_run s0 (s\<lparr>snd_km := km\<rparr>)"

lemma sound_call_step: "sound_call s s' \<Longrightarrow> snd_ok s \<Longrightarrow> mix_step s s'"
proof (induction rule: sound_call.induct)
  case (worker p entry sc s sc' s' ok)
  then show ?case by (intro mix_step_other) (auto simp: sound_start_background_worker_def split: prod.splits if_splits)
next
  case (channel_playing s c)
  then show ?case using mix_is_playing_step [of s c] by (cases "mix_is_playing_locked s c") (simp add: mix_is_playing_def)
next
  case (channels_playing s)
  then show ?case using count_active_step [of s] by (cases "count_active s [0..<MIX_CHANNELS]") (simp add: active_mix_channels_def)
qed (auto simp: mix_update_def intro: register_step device_steps mix_play_step mix_queue_play_step mix_stop_step mix_stop_range_step
    mix_update_step background_round_step conjunct1 [OF shutdown_active_step] conjunct1 [OF mix_shutdown_step])

lemma elsewhere_ok:
  assumes ok: "snd_ok s" and f: "heap_frame (snd_km s) km A" "A \<inter> set (owned (snd_mix_ch s)) = {}"
  shows "snd_ok (s\<lparr>snd_km := km\<rparr>)"
proof -
  have "ch_good km ch" if c: "ch \<in> set (snd_mix_ch s)" for ch
  proof -
    have g: "ch_good (snd_km s) ch" using ok c by (simp add: snd_ok_def)
    have "seg_ok km sg" if sg: "sg \<in> set (segs ch)" for sg
    proof (cases "sg_data sg = 0")
      case True
      then show ?thesis by (simp add: seg_ok_def)
    next
      case False
      then have "sg_data sg \<in> set (owned (snd_mix_ch s))" using c sg by (auto simp: owned_def own_def)
      then have "sg_data sg \<notin> A" using f(2) by blast
      then show ?thesis using g sg heap_frame_block [OF f(1)] by (auto simp: ch_good_def seg_ok_def)
    qed
    then show ?thesis using g by (simp add: ch_good_def)
  qed
  then show ?thesis using ok heap_frame_inv [OF f(1)] by (simp add: snd_ok_def)
qed

lemma sound_run_ok: "sound_run s0 s \<Longrightarrow> snd_ok s0 \<Longrightarrow> snd_ok s"
proof (induction rule: sound_run.induct)
  case (call s s')
  then show ?case using sound_call_step mix_step_ok by blast
next
  case (elsewhere s km A)
  then show ?case using elsewhere_ok by blast
qed

text \<open>The mixer as the kernel starts with it.\<close>

definition sound_boot :: "'d sound_state \<Rightarrow> bool" where
  "sound_boot s \<longleftrightarrow> snd_mix_ch s = replicate MIX_CHANNELS empty_channel \<and> km_inv (snd_km s)"

lemma sound_boot_ok: "sound_boot s \<Longrightarrow> snd_ok s"
  by (simp add: sound_boot_def snd_ok_def owned_def)

text \<open>
  C33. The mixer frees what it allocates, once, and nothing else. In every state that calls of the
  interface, rounds of the worker and other users of the heap lead to, the samples behind the
  playing and the queued segments of all channels are distinct live heap blocks of the segments'
  sizes. Every further call leaves all other live blocks as they are, and the blocks it adds or
  drops are exactly those it takes from or gives back to the heap. After \<open>mix_shutdown\<close> the mixer
  holds none.
\<close>

theorem mixer_owns_its_buffers:
  assumes "sound_boot s0" "sound_run s0 s"
  shows "distinct (owned (snd_mix_ch s)) \<and>
    (\<forall>ch \<in> set (snd_mix_ch s). \<forall>sg \<in> set (segs ch). sg_data sg \<noteq> 0 \<longrightarrow>
       block_of (snd_km s) (sg_data sg) (unat (payload_bytes (sg_fmt sg) (sg_src_total sg)))) \<and>
    (\<forall>s'. sound_call s s' \<longrightarrow>
       heap_frame (snd_km s) (snd_km s') (set (owned (snd_mix_ch s))) \<and>
       heap_live_blocks (snd_km s') = heap_live_blocks (snd_km s) - set (owned (snd_mix_ch s)) \<union> set (owned (snd_mix_ch s'))) \<and>
    heap_live_blocks (snd_km (mix_shutdown s)) = heap_live_blocks (snd_km s) - set (owned (snd_mix_ch s))"
proof -
  have ok: "snd_ok s" using sound_run_ok [OF assms(2)] sound_boot_ok [OF assms(1)] by simp
  have "\<forall>ch \<in> set (snd_mix_ch s). \<forall>sg \<in> set (segs ch). seg_ok (snd_km s) sg" using ok unfolding snd_ok_def ch_good_def by blast
  moreover have "distinct (owned (snd_mix_ch s))" using ok by (simp add: snd_ok_def)
  moreover have "mix_step s s'" if "sound_call s s'" for s' using sound_call_step [OF that ok] .
  ultimately show ?thesis using mix_shutdown_step [OF ok] by (auto simp: seg_ok_def mix_step_def holds_step_def)
qed

section \<open>What the driver gets\<close>

lemma submit_settled:
  assumes d: "snd_active s = Some drv" "snd_initialised s" "drv_set_sample_rate drv = Some set_rate" "drv_play drv = Some play_fn"
    and w: "window_loop s [0..<MIX_CHANNELS] 0 = (s1, w)" "w \<noteq> 0" and l: "length (snd_mix_ch s1) = MIX_CHANNELS"
    and ready: "\<forall>ch \<in> set (snd_mix_ch s1). mix_ready ch"
    and r: "play_fn (fst (set_rate (snd_dev s1) 48000)) (mixed_bytes (snd_km s1) (snd_mix_ch s1) (min w 16384)) signed_16 = (dv, ok)"
  shows "mix_do_submit s = Some (let s2 = s1\<lparr>snd_requested_sample_rate := 48000, snd_dev := dv\<rparr>
           in if ok then (advance_loop s2 [0..<MIX_CHANNELS] (min w 16384), True) else (s2, False))"
proof -
  let ?n = "min w 16384"
  let ?F = "\<lambda>ch acc. if mc_active ch then mix_frames (snd_km s1) (mc_current ch) 0 ?n acc else acc"
  have m: "mix_channels_loop s1 [0..<MIX_CHANNELS] ?n acc = (s1, fold ?F (snd_mix_ch s1) acc)" for acc
    using mix_channels_settled [of "[0..<MIX_CHANNELS]" s1 ?n acc] ready fold_nth [of ?F "snd_mix_ch s1" acc]
    by (simp add: l mix_ready_def)
  have b: "concat (map (i16_bytes \<circ> clamp_i16) (fold ?F (snd_mix_ch s1) (replicate (2 * ?n) 0))) = mixed_bytes (snd_km s1) (snd_mix_ch s1) ?n"
    by (rule mixed_bytes_eq [OF ready]) simp
  show ?thesis using d w r unfolding mix_do_submit_def
    by (simp add: MIX_WINDOW_FRAMES_def MIX_OUTPUT_RATE_def m b Let_def del: map_map)
qed

text \<open>
  C34. The driver plays the mixture. When the mixer submits a window, after finished segments have
  made room for queued ones, the window is as long as the longest rest of a playing sound, at most
  16384 frames; every sample handed to the driver is the clamped sum, over the playing channels, of
  the sample at the channel's position (scaled to 48 kHz, silent past its end) times its volume;
  the sums stay within 19 bits. If the driver accepts the window, a sound that is not at its end
  continues where the window stopped; if not, no position moves.
\<close>

theorem mixer_output:
  assumes reach: "sound_boot s0" "sound_run s0 s"
    and d: "snd_active s = Some drv" "snd_initialised s" "drv_set_sample_rate drv = Some set_rate" "drv_play drv = Some play_fn"
    and w: "window_loop s [0..<MIX_CHANNELS] 0 = (s1, w)" "w \<noteq> 0" and short: "\<forall>ch \<in> set (snd_mix_ch s1). short_sound ch"
    and r: "play_fn (fst (set_rate (snd_dev s) 48000)) (mixed_bytes (snd_km s1) (snd_mix_ch s1) (min w 16384)) signed_16 = (dv, ok)"
  shows "w = longest_rest (snd_mix_ch s1) [0..<MIX_CHANNELS] 0 \<and>
    (\<forall>f. \<bar>fst (mixed_frame (snd_km s1) (snd_mix_ch s1) f)\<bar> \<le> 2 ^ 18 \<and> \<bar>snd (mixed_frame (snd_km s1) (snd_mix_ch s1) f)\<bar> \<le> 2 ^ 18) \<and>
    (\<exists>s'. mix_do_submit s = Some (s', ok) \<and> snd_dev s' = dv \<and> (\<not> ok \<longrightarrow> snd_mix_ch s' = snd_mix_ch s1) \<and>
       (\<forall>i < MIX_CHANNELS. ok \<and> mc_active (snd_mix_ch s1 ! i) \<longrightarrow>
          (let sg = mc_current (snd_mix_ch s1 ! i); p = unat (sg_src_pos sg) + min w 16384 * unat (sg_sample_rate sg) div 48000
           in p < unat (sg_src_total sg) \<longrightarrow> mc_current (snd_mix_ch s' ! i) = sg\<lparr>sg_src_pos := word_of_nat p\<rparr>)))"
proof -
  have ok: "snd_ok s" using sound_run_ok [OF reach(2)] sound_boot_ok [OF reach(1)] by simp
  have 1: "snd_ok s1" using window_loop_step [OF ok _ w(1)] by (simp add: mix_step_def)
  have l: "length (snd_mix_ch s1) = MIX_CHANNELS" using 1 by (simp add: snd_ok_def)
  have dev: "snd_dev s1 = snd_dev s" using window_loop_same [OF w(1)] by simp
  note W = window_loop_settles [OF ok _ _ w(1), simplified]
  have ready: "\<forall>ch \<in> set (snd_mix_ch s1). mix_ready ch"
  proof
    fix ch assume c: "ch \<in> set (snd_mix_ch s1)"
    then have "ch_good (snd_km s1) ch" "settled ch" using 1 W by (auto simp: snd_ok_def in_set_conv_nth)
    then show "mix_ready ch" using short c by (auto simp: mix_ready_def ch_good_def ch_ok_def seg_ok_def)
  qed
  define s2 where "s2 = s1\<lparr>snd_requested_sample_rate := 48000, snd_dev := dv\<rparr>"
  have ok2: "snd_ok s2" using 1 by (simp add: s2_def snd_ok_def)
  define s' where "s' = (if ok then advance_loop s2 [0..<MIX_CHANNELS] (min w 16384) else s2)"
  have m: "mix_do_submit s = Some (s', ok)"
    using submit_settled [OF d w l ready, unfolded dev, OF r] by (simp add: s'_def s2_def Let_def)
  have dv: "snd_dev s' = dv" using advance_loop_step [OF ok2, of "[0..<MIX_CHANNELS]"] by (simp add: s'_def s2_def)
  have mv: "mc_current (snd_mix_ch s' ! i) = sg\<lparr>sg_src_pos := word_of_nat p\<rparr>"
    if i: "i < MIX_CHANNELS" "ok" "mc_active (snd_mix_ch s1 ! i)" and sg: "sg = mc_current (snd_mix_ch s1 ! i)"
      and p: "p = unat (sg_src_pos sg) + min w 16384 * unat (sg_sample_rate sg) div 48000" "p < unat (sg_src_total sg)" for i sg p
  proof -
    have st: "settled (snd_mix_ch s2 ! i)" using W i by (simp add: s2_def)
    have ac: "mc_active (snd_mix_ch s2 ! i)" "mc_current (snd_mix_ch s2 ! i) = sg" using i sg by (simp_all add: s2_def)
    have lt: "unat (sg_src_pos sg) < unat (sg_src_total sg)" using st ac by (simp add: settled_def word_less_nat_alt)
    have a: "unat (sg_src_pos (advance_segment (min w 16384) sg)) = p" unfolding p(1) by (rule advance_short [OF lt]) (use p in simp_all)
    have "snd_mix_ch s' ! i = (snd_mix_ch s2 ! i)\<lparr>mc_current := advance_segment (min w 16384) sg\<rparr>"
      using advance_loop_moves [OF ok2 _ _ _ st ac(1), of "[0..<MIX_CHANNELS]" "min w 16384"] a p(2) ac(2) i by (simp add: s'_def word_less_nat_alt)
    moreover have "advance_segment (min w 16384) sg = sg\<lparr>sg_src_pos := word_of_nat p\<rparr>" using a by (auto simp: advance_segment_def Let_def)
    ultimately show ?thesis by simp
  qed
  have "\<bar>fst (mixed_frame (snd_km s1) (snd_mix_ch s1) f)\<bar> \<le> 2 ^ 18 \<and> \<bar>snd (mixed_frame (snd_km s1) (snd_mix_ch s1) f)\<bar> \<le> 2 ^ 18" for f
    using mixed_frame_bound [where chs = "snd_mix_ch s1" and f = f] by (simp add: l MIX_CHANNELS_def)
  moreover have "\<not> ok \<longrightarrow> snd_mix_ch s' = snd_mix_ch s1" by (simp add: s'_def s2_def)
  ultimately show ?thesis using W m dv mv by (auto simp: Let_def)
qed

text \<open>
  A sound of 100 unsigned samples on channel 0, for a driver that records what it plays.
\<close>

definition recorder :: "u8 list list sound_driver" where
  "recorder = \<lparr>drv_name = ''rec'', drv_init = None, drv_shutdown = None, drv_set_sample_rate = Some (\<lambda>d r. (d, True)),
     drv_play = Some (\<lambda>d bs fmt. (d @ [bs], True)), drv_stop = None, drv_is_playing = None, drv_buffered_frames = None, drv_set_volume = None\<rparr>"

definition quiet_mixer :: "u8 list list sound_state" where
  "quiet_mixer = \<lparr>snd_active = Some recorder, snd_initialised = True, snd_volume_left = 255, snd_volume_right = 255,
     snd_requested_sample_rate = 0, snd_background_worker_started = False, snd_mix_ch = replicate MIX_CHANNELS empty_channel,
     snd_km = example_heap, snd_dev = []\<rparr>"

definition demo_segment :: mix_segment where
  "demo_segment = \<lparr>sg_data = 0x400020, sg_source_data = 0x1000, sg_src_total = 100, sg_src_pos = 0, sg_sample_rate = 48000, sg_fmt = unsigned_8,
     sg_vol_left = 128, sg_vol_right = 255\<rparr>"

definition demo_mixer :: "u8 list list sound_state" where
  "demo_mixer = quiet_mixer\<lparr>snd_km := store example_heap_taken 0x400020 (replicate 100 0xC0),
     snd_mix_ch := (replicate MIX_CHANNELS empty_channel)[0 := empty_channel\<lparr>mc_current := demo_segment, mc_active := True\<rparr>]\<rparr>"

lemma demo_play: "mix_play quiet_mixer 0 0x1000 (replicate 100 0xC0) 100 unsigned_8 48000 128 255 = Some (demo_mixer, True)"
proof -
  have pb: "payload_bytes unsigned_8 100 = 100" by code_simp
  have "reset_mix_channel km empty_channel = (km, empty_channel)" for km
    by (simp add: reset_mix_channel_def Let_def reset_segment_def fold_reset_segment empty_channel_def MIX_QUEUE_CAPACITY_def eval_nat_numeral)
  then show ?thesis
    by (simp add: mix_play_def new_segment_def quiet_mixer_def example_heap_alloc pb MIX_CHANNELS_def reset_at_def demo_mixer_def
        demo_segment_def adopt_current_segment_def reset_segment_def Let_def) (simp add: empty_channel_def)
qed

lemma demo_mixer_run: "sound_boot quiet_mixer" "sound_run quiet_mixer demo_mixer"
proof -
  show "sound_boot quiet_mixer" by (simp add: sound_boot_def quiet_mixer_def example_heap_facts(3))
  show "sound_run quiet_mixer demo_mixer" by (rule call [OF start play_channel [OF demo_play]])
qed

lemma mixer_owns_its_buffers_witness:
  "sound_run quiet_mixer demo_mixer \<and> owned (snd_mix_ch demo_mixer) = [0x400020] \<and>
   heap_live_blocks (snd_km (mix_shutdown demo_mixer)) = heap_live_blocks (snd_km demo_mixer) - {0x400020}"
proof -
  have o: "owned (snd_mix_ch demo_mixer) = [0x400020]" by code_simp
  show ?thesis using mixer_owns_its_buffers [OF demo_mixer_run] demo_mixer_run(2) o by simp
qed

lemma demo_channels:
  assumes "ch \<in> set (snd_mix_ch demo_mixer)" shows "ch_ok ch" "settled ch" "short_sound ch"
proof -
  have "ch = empty_channel \<or> ch = empty_channel\<lparr>mc_current := demo_segment, mc_active := True\<rparr>"
    using assms by (auto simp: demo_mixer_def MIX_CHANNELS_def eval_nat_numeral)
  then show "ch_ok ch" "settled ch" "short_sound ch"
    by (auto simp: ch_ok_def settled_def short_sound_def empty_channel_def demo_segment_def MIX_QUEUE_CAPACITY_def empty_segment_def)
qed

lemma demo_window: "window_loop demo_mixer [0..<MIX_CHANNELS] 0 = (demo_mixer, 100)"
proof -
  have "length (snd_mix_ch demo_mixer) = MIX_CHANNELS" by (simp add: demo_mixer_def)
  then have "\<forall>i \<in> set [0..<MIX_CHANNELS]. ch_ok (snd_mix_ch demo_mixer ! i) \<and> settled (snd_mix_ch demo_mixer ! i)" using demo_channels by simp
  moreover have "ch_frames demo_segment = 100" by (simp add: ch_frames_def demo_segment_def MIX_OUTPUT_RATE_def)
  then have "longest_rest (snd_mix_ch demo_mixer) [0..<MIX_CHANNELS] 0 = 100"
    by (simp add: longest_rest_def demo_mixer_def MIX_CHANNELS_def upt_conv_Cons empty_channel_def)
  ultimately show ?thesis using window_loop_settled [of "[0..<MIX_CHANNELS]" demo_mixer 0] by simp
qed

lemma mixer_output_witness:
  "\<exists>s'. mix_do_submit demo_mixer = Some (s', True) \<and> snd_dev s' = [mixed_bytes (snd_km demo_mixer) (snd_mix_ch demo_mixer) 100]"
proof -
  have d: "snd_active demo_mixer = Some recorder" "snd_initialised demo_mixer" "snd_dev demo_mixer = []"
    by (simp_all add: demo_mixer_def quiet_mixer_def)
  have f: "drv_set_sample_rate recorder = Some (\<lambda>d r. (d, True))" "drv_play recorder = Some (\<lambda>d bs fmt. (d @ [bs], True))" by (simp_all add: recorder_def)
  have s: "\<forall>ch \<in> set (snd_mix_ch demo_mixer). short_sound ch" using demo_channels by blast
  show ?thesis using mixer_output [OF demo_mixer_run d(1,2) f demo_window _ s refl] d(3) by auto
qed

text \<open>
  The position of a segment of at most 2 Hz never moves: a window is at most 16384 frames long, and
  the advance is rounded down.
\<close>

lemma slow_segment_stuck: "unat (sg_sample_rate sg) \<le> 2 \<Longrightarrow> n \<le> MIX_WINDOW_FRAMES \<Longrightarrow> advance_segment n sg = sg"
proof -
  assume "unat (sg_sample_rate sg) \<le> 2" "n \<le> MIX_WINDOW_FRAMES"
  then have "n * unat (sg_sample_rate sg) \<le> 16384 * 2" unfolding MIX_WINDOW_FRAMES_def by (intro mult_mono) simp_all
  then have "n * unat (sg_sample_rate sg) div MIX_OUTPUT_RATE = 0" by (simp add: MIX_OUTPUT_RATE_def)
  then show ?thesis by (simp add: advance_segment_def)
qed

end
