(* ===== verification/KText.thy ===== *)
theory KText
  imports Types
begin

text \<open>
  The text helpers of src/core/kobj/detail.h. An output buffer is the list of its characters with
  the position of the next one: the C array \<open>out\<close> of \<open>out_cap\<close> characters and \<open>pos\<close>. A string that
  ends with a NUL is the list of the characters before it. The bounded \<open>KStr\<close> of kobj.h is the
  string it holds.
\<close>

type_synonym text_buf = "string \<times> nat"

definition KSTR_MAX :: nat where "KSTR_MAX = 64"
definition KFIELD_MAX :: nat where "KFIELD_MAX = 8"
definition KENUM_MAX :: nat where "KENUM_MAX = 8"
definition KNODE_CHILDREN_MAX :: nat where "KNODE_CHILDREN_MAX = 16"

abbreviation NUL :: char where "NUL \<equiv> CHR 0x00"

definition c_str :: "string \<Rightarrow> string" where
  "c_str s = takeWhile (\<lambda>c. c \<noteq> NUL) s"

section \<open>Appending\<close>

definition append_ch :: "text_buf \<Rightarrow> char \<Rightarrow> text_buf" where
  "append_ch b ch =
     (let (out, pos) = b in
      if length out = 0 then (out, 0)
      else if pos + 1 < length out then (out[pos := ch, pos + 1 := NUL], pos + 1)
      else (out, pos))"

definition append_str :: "text_buf \<Rightarrow> string \<Rightarrow> text_buf" where
  "append_str b s = fold (\<lambda>ch b. append_ch b ch) s b"

text \<open>The digits of \<open>render_u64\<close>, the last first; \<open>n\<close> is the room left in \<open>tmp\<close>.\<close>

fun u64_digits :: "nat \<Rightarrow> u64 \<Rightarrow> string" where
  "u64_digits 0 v = []"
| "u64_digits (Suc n) v = (if v > 0 then char_of (48 + unat (v mod 10)) # u64_digits n (v div 10) else [])"

definition render_u64 :: "text_buf \<Rightarrow> u64 \<Rightarrow> text_buf" where
  "render_u64 b v = (if v = 0 then append_ch b (CHR ''0'') else append_str b (rev (u64_digits 21 v)))"

definition render_i64 :: "text_buf \<Rightarrow> u64 \<Rightarrow> text_buf" where
  "render_i64 b v =
     (if sint v < 0 then render_u64 (append_ch b (CHR ''-'')) (- (v + 1) + 1) else render_u64 b v)"

section \<open>Parsing\<close>

fun parse_u64_from :: "u64 \<Rightarrow> string \<Rightarrow> u64 option" where
  "parse_u64_from acc [] = Some acc"
| "parse_u64_from acc (c # s) =
     (if of_char c < (48 :: nat) \<or> of_char c > (57 :: nat) then None
      else parse_u64_from (acc * 10 + word_of_nat (of_char c - 48)) s)"

definition parse_u64_segment :: "string \<Rightarrow> u64 option" where
  "parse_u64_segment s = (if s = [] then None else parse_u64_from 0 s)"

section \<open>Bounded strings\<close>

text \<open>\<open>KStr::set\<close> of a string that ends with a NUL, and of a number of characters.\<close>

definition kstr_set :: "string \<Rightarrow> string" where
  "kstr_set s = take (KSTR_MAX - 1) s"

definition kstr_eq :: "string \<Rightarrow> string \<Rightarrow> bool" where
  "kstr_eq k s \<longleftrightarrow> c_str k = s"

section \<open>What the helpers write\<close>

text \<open>The buffer holds the first characters of \<open>s\<close> that fit, then a NUL, and \<open>pos\<close> is behind them.\<close>

definition text_is :: "text_buf \<Rightarrow> string \<Rightarrow> bool" where
  "text_is b s \<longleftrightarrow> (let (out, pos) = b in
     0 < length out \<and> pos = min (length s) (length out - 1) \<and> take (pos + 1) out = take pos s @ [NUL])"

lemma text_is_start: "0 < length out \<Longrightarrow> text_is (out[0 := NUL], 0) []"
  by (cases out) (auto simp: text_is_def)

lemma text_is_length: "text_is b s \<Longrightarrow> length (fst (append_ch b ch)) = length (fst b)"
  by (auto simp: append_ch_def Let_def split: prod.splits)

lemma append_ch_text:
  assumes "text_is b s" shows "text_is (append_ch b ch) (s @ [ch])"
proof -
  obtain out pos where b: "b = (out, pos)" by fastforce
  have l: "0 < length out" "pos = min (length s) (length out - 1)" "take (pos + 1) out = take pos s @ [NUL]"
    using assms unfolding text_is_def b Let_def by auto
  show ?thesis
  proof (cases "pos + 1 < length out")
    case True
    then have p: "pos = length s" using l(2) by auto
    have t: "take pos out = s" using arg_cong [OF l(3), of "take pos"] True p by (simp add: min_def)
    have "take (pos + 2) (out[pos := ch, pos + 1 := NUL]) = take pos out @ [ch, NUL]"
      using True by (simp add: take_Suc_conv_app_nth nth_list_update take_update_swap list_update_append)
    then show ?thesis using True p t l(1) by (simp add: text_is_def b append_ch_def min_def)
  next
    case False
    then have "pos = length out - 1" "length s \<ge> pos" using l(1,2) by auto
    then show ?thesis using False l by (simp add: text_is_def b append_ch_def min_def)
  qed
qed

lemma append_str_text: "text_is b s \<Longrightarrow> text_is (append_str b t) (s @ t)"
  unfolding append_str_def
proof (induction t arbitrary: b s)
  case (Cons c t)
  then show ?case using append_ch_text [OF Cons.prems, of c] by fastforce
qed simp

text \<open>Decimal numbers.\<close>

definition dec_u64 :: "u64 \<Rightarrow> string" where
  "dec_u64 v = (if v = 0 then ''0'' else rev (u64_digits 21 v))"

lemma render_u64_text: "text_is b s \<Longrightarrow> text_is (render_u64 b v) (s @ dec_u64 v)"
  using append_ch_text append_str_text by (auto simp: render_u64_def dec_u64_def)

lemma render_i64_text: "text_is b s \<Longrightarrow> \<exists>t. text_is (render_i64 b v) (s @ t)"
  using render_u64_text [OF append_ch_text, of b s "CHR ''-''" "- (v + 1) + 1"] render_u64_text [of b s v]
  by (cases "sint v < 0") (auto simp: render_i64_def)

lemma parse_u64_append: "parse_u64_from acc (s @ t) = Option.bind (parse_u64_from acc s) (\<lambda>acc. parse_u64_from acc t)"
  by (induction s arbitrary: acc) auto

lemma digit_char: "k < 10 \<Longrightarrow> of_char (char_of (48 + k) :: char) = 48 + (k :: nat)"
  by (simp add: of_char_of)

lemma unat_mod10: "unat ((v :: u64) mod 10) < 10"
  by (simp add: unat_mod)

lemma digits_parse: "unat v < 10 ^ n \<Longrightarrow> parse_u64_from 0 (rev (u64_digits n v)) = Some v"
proof (induction n arbitrary: v)
  case 0
  then have "v = 0" by (simp add: unat_eq_zero)
  then show ?case by simp
next
  case (Suc n)
  show ?case
  proof (cases "v > 0")
    case False
    then show ?thesis by (simp add: word_neq_0_conv [symmetric])
  next
    case True
    have "unat (v div 10) < 10 ^ n" using Suc.prems by (simp add: unat_div less_mult_imp_div_less)
    then have ih: "parse_u64_from 0 (rev (u64_digits n (v div 10))) = Some (v div 10)" by (rule Suc.IH)
    have d: "of_char (char_of (48 + unat (v mod 10)) :: char) = 48 + unat (v mod 10)" by (rule digit_char [OF unat_mod10])
    have "v div 10 * 10 + word_of_nat (unat (v mod 10)) = v" by (simp add: div_mult_mod_eq)
    then show ?thesis using True ih unat_mod10 [of v] by (simp add: parse_u64_append d)
  qed
qed

lemma digits_digits: "c \<in> set (u64_digits n v) \<Longrightarrow> \<exists>k < 10. c = char_of (48 + k :: nat)"
  using unat_mod10 by (induction n v rule: u64_digits.induct) (auto split: if_splits)

lemma dec_u64_parse: "parse_u64_segment (dec_u64 v) = Some v"
proof (cases "v = 0")
  case True
  then show ?thesis by (simp add: dec_u64_def parse_u64_segment_def)
next
  case False
  have "(18446744073709551616 :: nat) \<le> 10 ^ 21" by simp
  then have "unat v < 10 ^ 21" using unat_lt_64 [of v] by (rule less_le_trans [rotated])
  moreover have "u64_digits 21 v \<noteq> []" using False by (simp add: eval_nat_numeral word_neq_0_conv)
  ultimately show ?thesis using False digits_parse [of v 21] by (simp add: dec_u64_def parse_u64_segment_def)
qed

lemma dec_u64_chars:
  assumes "c \<in> set (dec_u64 v)" shows "\<exists>k < 10. c = char_of (48 + k :: nat)"
proof (cases "v = 0")
  case True
  have "CHR ''0'' = (char_of (48 + 0 :: nat) :: char)" by code_simp
  moreover have "c = CHR ''0''" using assms True by (simp add: dec_u64_def)
  ultimately show ?thesis by (metis zero_less_numeral)
next
  case False
  then show ?thesis using assms digits_digits [of c 21 v] by (simp add: dec_u64_def)
qed

end
