(* ===== verification/KIds.thy ===== *)
theory KIds
  imports Main
begin

text \<open>The ids of the nodes of the object tree, \<open>KNodeId\<close> of include/vkernel/kobj.h.\<close>

datatype (plugins only: size code) knode_id =
    id_root | id_sys | id_sys_cpu | id_sys_cpu_count | id_sys_cpu_ticks | id_sys_mem | id_sys_mem_total_kb | id_sys_mem_free_kb
  | id_sys_mem_heap_used | id_sys_mem_heap_capacity | id_sys_mem_heap_subheaps | id_sys_power | id_sys_power_state | id_sys_log
  | id_sys_log_route | id_proc | id_proc_count | id_proc_pid | id_proc_pid_id | id_proc_pid_state | id_proc_pid_cpu | id_proc_pid_cpu_ticks
  | id_proc_pid_name | id_fs | id_fs_active_backend | id_fs_fallback_ready | id_fs_mounted | id_fs_writable | id_fs_block_device
  | id_fs_root_path | id_fs_cluster_size | id_fs_root_cluster | id_dev | id_dev_block | id_dev_block_count | id_dev_block_entry
  | id_dev_block_entry_name | id_dev_block_entry_size_kb | id_dev_block_entry_block_size | id_dev_block_entry_removable | id_dev_pci
  | id_dev_pci_count | id_dev_pci_entry | id_dev_pci_entry_bus | id_dev_pci_entry_device | id_dev_pci_entry_function
  | id_dev_pci_entry_vendor_id | id_dev_pci_entry_device_id | id_dev_pci_entry_class_code | id_dev_pci_entry_subclass | id_dev_pci_entry_prog_if
  | id_dev_pci_entry_revision | id_dev_pci_entry_irq_line | id_dev_net | id_dev_net_count | id_dev_net_entry | id_dev_net_entry_name
  | id_dev_net_entry_mac | id_dev_net_entry_mtu | id_dev_net_entry_link_up | id_dev_net_entry_ipv4_address | id_dev_sound
  | id_dev_sound_active_driver | id_dev_sound_initialized | id_dev_sound_playing | id_dev_sound_sample_rate | id_dev_sound_volume_left
  | id_dev_sound_volume_right | id_dev_sound_mix_channels_active | id_net | id_net_device_count | id_net_primary_device | id_net_background_rx
  | id_net_ipv4 | id_net_ipv4_configured_count | id_net_arp | id_net_arp_count | id_net_arp_entry | id_net_arp_entry_ip | id_net_arp_entry_mac
  | id_driver | id_driver_registered_count | id_driver_loaded_count | id_driver_entry | id_driver_entry_name | id_driver_entry_type
  | id_driver_entry_loaded

end
