(* ===== verification/Pci.thy ===== *)
theory Pci
  imports Types
begin

unbundle bit_operations_syntax

text \<open>
  PCI configuration space and enumeration, src/core/pci.cpp. The port instructions \<open>arch::outl\<close> and
  \<open>arch::inl\<close> are the parameters \<open>outl\<close> and \<open>inl\<close>, functions on the state \<open>'h\<close> of the hardware. What the
  code relies on of a host bridge is the predicate \<open>pci_host\<close>, configuration mechanism 1 as the PCI
  specification gives it: after an address with the enable bit is written, the data register reads
  the configuration word that the bus, device, function and register fields of the address select.
\<close>

section \<open>State\<close>

record pci_address =
  pa_bus :: u8
  pa_device :: u8
  pa_function :: u8

record pci_device =
  pd_addr :: pci_address
  pd_vendor_id :: u16
  pd_device_id :: u16
  pd_class_code :: u8
  pd_subclass :: u8
  pd_prog_if :: u8
  pd_revision :: u8
  pd_header_type :: u8
  pd_irq_line :: u8
  pd_bar :: "u32 list"

record pci_table =
  s_pci_devices :: "pci_device list"
  s_pci_count :: nat

type_synonym 'h outl = "'h \<Rightarrow> u16 \<Rightarrow> u32 \<Rightarrow> 'h"
type_synonym 'h inl = "'h \<Rightarrow> u16 \<Rightarrow> u32 \<times> 'h"

definition PCI_MAX_DEVICES :: nat where "PCI_MAX_DEVICES = 64"
definition CONFIG_ADDRESS :: u16 where "CONFIG_ADDRESS = 0x0CF8"
definition CONFIG_DATA :: u16 where "CONFIG_DATA = 0x0CFC"

section \<open>Configuration space\<close>

definition make_address :: "pci_address \<Rightarrow> u8 \<Rightarrow> u32" where
  "make_address addr offset =
     push_bit 31 1 OR push_bit 16 (ucast (pa_bus addr)) OR push_bit 11 (ucast (pa_device addr)) OR push_bit 8 (ucast (pa_function addr)) OR
     (ucast offset AND 0xFC)"

definition config_read32 :: "'h outl \<Rightarrow> 'h inl \<Rightarrow> 'h \<Rightarrow> pci_address \<Rightarrow> u8 \<Rightarrow> u32 \<times> 'h" where
  "config_read32 outl inl h addr offset = inl (outl h CONFIG_ADDRESS (make_address addr offset)) CONFIG_DATA"

definition config_read16 :: "'h outl \<Rightarrow> 'h inl \<Rightarrow> 'h \<Rightarrow> pci_address \<Rightarrow> u8 \<Rightarrow> u16 \<times> 'h" where
  "config_read16 outl inl h addr offset =
     (let (v, h) = config_read32 outl inl h addr (offset AND 0xFC)
      in (ucast (drop_bit (unat (offset AND 2) * 8) v AND 0xFFFF), h))"

definition config_read8 :: "'h outl \<Rightarrow> 'h inl \<Rightarrow> 'h \<Rightarrow> pci_address \<Rightarrow> u8 \<Rightarrow> u8 \<times> 'h" where
  "config_read8 outl inl h addr offset =
     (let (v, h) = config_read32 outl inl h addr (offset AND 0xFC)
      in (ucast (drop_bit (unat (offset AND 3) * 8) v AND 0xFF), h))"

definition config_write32 :: "'h outl \<Rightarrow> 'h \<Rightarrow> pci_address \<Rightarrow> u8 \<Rightarrow> u32 \<Rightarrow> 'h" where
  "config_write32 outl h addr offset v = outl (outl h CONFIG_ADDRESS (make_address addr offset)) CONFIG_DATA v"

definition config_write16 :: "'h outl \<Rightarrow> 'h inl \<Rightarrow> 'h \<Rightarrow> pci_address \<Rightarrow> u8 \<Rightarrow> u16 \<Rightarrow> 'h" where
  "config_write16 outl inl h addr offset v =
     (let (old, h) = inl (outl h CONFIG_ADDRESS (make_address addr offset)) CONFIG_DATA;
          shift = unat (offset AND 2) * 8;
          old = old AND NOT (push_bit shift 0xFFFF);
          old = old OR push_bit shift (ucast v)
      in outl h CONFIG_DATA old)"

definition config_write8 :: "'h outl \<Rightarrow> 'h inl \<Rightarrow> 'h \<Rightarrow> pci_address \<Rightarrow> u8 \<Rightarrow> u8 \<Rightarrow> 'h" where
  "config_write8 outl inl h addr offset v =
     (let (old, h) = inl (outl h CONFIG_ADDRESS (make_address addr offset)) CONFIG_DATA;
          shift = unat (offset AND 3) * 8;
          old = old AND NOT (push_bit shift 0xFF);
          old = old OR push_bit shift (ucast v)
      in outl h CONFIG_DATA old)"

definition enable_bus_master :: "'h outl \<Rightarrow> 'h inl \<Rightarrow> 'h \<Rightarrow> pci_address \<Rightarrow> 'h" where
  "enable_bus_master outl inl h addr =
     (let (cmd, h) = config_read16 outl inl h addr 0x04;
          cmd = cmd OR push_bit 2 1;
          cmd = cmd OR push_bit 0 1
      in config_write16 outl inl h addr 0x04 cmd)"

section \<open>Enumeration\<close>

fun read_bars :: "'h outl \<Rightarrow> 'h inl \<Rightarrow> 'h \<Rightarrow> pci_address \<Rightarrow> nat list \<Rightarrow> u32 list \<times> 'h" where
  "read_bars outl inl h addr [] = ([], h)"
| "read_bars outl inl h addr (i # is) =
     (let (v, h) = config_read32 outl inl h addr (word_of_nat (0x10 + i * 4)); (vs, h) = read_bars outl inl h addr is in (v # vs, h))"

definition probe_function :: "'h outl \<Rightarrow> 'h inl \<Rightarrow> pci_table \<times> 'h \<Rightarrow> u8 \<Rightarrow> u8 \<Rightarrow> u8 \<Rightarrow> pci_table \<times> 'h" where
  "probe_function outl inl th bus device func =
     (let (t, h) = th;
          addr = \<lparr>pa_bus = bus, pa_device = device, pa_function = func\<rparr>;
          (id_reg, h) = config_read32 outl inl h addr 0x00;
          vendor = ucast (id_reg AND 0xFFFF); dev_id = ucast (drop_bit 16 id_reg) in
      if vendor = 0xFFFF \<or> vendor = 0x0000 then (t, h)
      else if s_pci_count t \<ge> PCI_MAX_DEVICES then (t, h)
      else
        let (class_reg, h) = config_read32 outl inl h addr 0x08;
            (header_type, h) = config_read8 outl inl h addr 0x0E;
            (irq_line, h) = config_read8 outl inl h addr 0x3C;
            (bars, h) = (if header_type AND 0x7F = 0x00 then read_bars outl inl h addr [0..<6] else (replicate 6 0, h));
            d = \<lparr>pd_addr = addr, pd_vendor_id = vendor, pd_device_id = dev_id,
                 pd_class_code = ucast (drop_bit 24 class_reg AND 0xFF), pd_subclass = ucast (drop_bit 16 class_reg AND 0xFF),
                 pd_prog_if = ucast (drop_bit 8 class_reg AND 0xFF), pd_revision = ucast (class_reg AND 0xFF),
                 pd_header_type = header_type, pd_irq_line = irq_line, pd_bar = bars\<rparr>
        in (t\<lparr>s_pci_devices := (s_pci_devices t)[s_pci_count t := d], s_pci_count := s_pci_count t + 1\<rparr>, h))"

definition probe_device :: "'h outl \<Rightarrow> 'h inl \<Rightarrow> pci_table \<times> 'h \<Rightarrow> u8 \<Rightarrow> u8 \<Rightarrow> pci_table \<times> 'h" where
  "probe_device outl inl th bus device =
     (let (t, h) = th;
          addr = \<lparr>pa_bus = bus, pa_device = device, pa_function = 0\<rparr>;
          (id_reg, h) = config_read32 outl inl h addr 0x00 in
      if id_reg AND 0xFFFF = 0xFFFF then (t, h)
      else
        let (t, h) = probe_function outl inl (t, h) bus device 0;
            (header, h) = config_read8 outl inl h addr 0x0E in
        if header AND 0x80 \<noteq> 0 then fold (\<lambda>func th. probe_function outl inl th bus device (word_of_nat func)) [1..<8] (t, h)
        else (t, h))"

definition pci_init :: "'h outl \<Rightarrow> 'h inl \<Rightarrow> pci_table \<times> 'h \<Rightarrow> pci_table \<times> 'h" where
  "pci_init outl inl th =
     fold (\<lambda>bus th. fold (\<lambda>dev th. probe_device outl inl th (word_of_nat bus) (word_of_nat dev)) [0..<32] th) [0..<256]
       ((fst th)\<lparr>s_pci_count := 0\<rparr>, snd th)"

section \<open>Lookup\<close>

definition pci_found :: "pci_table \<Rightarrow> pci_device list" where
  "pci_found t = take (s_pci_count t) (s_pci_devices t)"

definition pci_find_device :: "pci_table \<Rightarrow> u16 \<Rightarrow> u16 \<Rightarrow> pci_device option" where
  "pci_find_device t vendor_id device_id = find (\<lambda>d. pd_vendor_id d = vendor_id \<and> pd_device_id d = device_id) (pci_found t)"

definition pci_find_by_class :: "pci_table \<Rightarrow> u8 \<Rightarrow> u8 \<Rightarrow> pci_device option" where
  "pci_find_by_class t class_code subclass = find (\<lambda>d. pd_class_code d = class_code \<and> pd_subclass d = subclass) (pci_found t)"

definition pci_device_count :: "pci_table \<Rightarrow> nat" where
  "pci_device_count t = s_pci_count t"

definition pci_get_device :: "pci_table \<Rightarrow> nat \<Rightarrow> pci_device option" where
  "pci_get_device t index = (if index \<ge> s_pci_count t then None else Some (s_pci_devices t ! index))"

section \<open>Properties\<close>

text \<open>
  The configuration space a host bridge gives access to: a word for each bus, device, function and
  register number. An address has the enable bit 31, the bus in bits 23 to 16, the device in bits 15
  to 11, the function in bits 10 to 8, the register in bits 7 to 2 and zeros elsewhere. Reading a
  word changes no word; nothing is assumed of writes to the data register.
\<close>

type_synonym pci_space = "nat \<Rightarrow> nat \<Rightarrow> nat \<Rightarrow> nat \<Rightarrow> u32"

definition pci_host :: "'h outl \<Rightarrow> 'h inl \<Rightarrow> ('h \<Rightarrow> pci_space) \<Rightarrow> bool" where
  "pci_host outl inl cfg \<longleftrightarrow>
     (\<forall>h a v h'. bit a 31 \<longrightarrow> a AND 0x7F000003 = 0 \<longrightarrow> inl (outl h 0xCF8 a) 0xCFC = (v, h') \<longrightarrow>
        v = cfg h (unat (take_bit 8 (drop_bit 16 a))) (unat (take_bit 5 (drop_bit 11 a)))
              (unat (take_bit 3 (drop_bit 8 a))) (unat (take_bit 6 (drop_bit 2 a))) \<and>
        cfg h' = cfg h)"

definition pci_slot :: "pci_address \<Rightarrow> bool" where
  "pci_slot addr \<longleftrightarrow> pa_device addr < 32 \<and> pa_function addr < 8"

abbreviation cfg_word :: "pci_space \<Rightarrow> pci_address \<Rightarrow> nat \<Rightarrow> u32" where
  "cfg_word c addr reg \<equiv> c (unat (pa_bus addr)) (unat (pa_device addr)) (unat (pa_function addr)) reg"

text \<open>The fields of the address the code builds.\<close>

lemma mask_FC: "(0xFC :: u32) = push_bit 2 (mask 6)"
  by (simp add: mask_eq_exp_minus_1 push_bit_eq_mult)

lemma mask_reserved: "(0x7F000003 :: u32) = push_bit 24 (mask 7) OR mask 2"
  by (simp add: mask_eq_exp_minus_1 push_bit_eq_mult)

lemma bit_enable: "bit (0x80000000 :: int) n \<longleftrightarrow> n = 31"
proof -
  have "(0x80000000 :: int) = 2 ^ 31" by simp
  then show ?thesis by (simp only: bit_exp_iff) auto
qed

lemma small_bits:
  assumes "unat (x :: u8) < 2 ^ k" "bit x n"
  shows "n < k"
proof -
  have "take_bit k x = x" using assms(1) by (simp add: word_eq_iff_unsigned [where ?'a = nat] unsigned_take_bit_eq take_bit_nat_eq_self_iff)
  then show "n < k" using assms(2) by (metis bit_take_bit_iff)
qed

lemma u8_bits: "bit (x :: u8) n \<Longrightarrow> n < 8"
  using bit_imp_le_length by fastforce

lemma make_address_fields:
  assumes "pci_slot addr"
  shows "bit (make_address addr off) 31"
    "make_address addr off AND 0x7F000003 = 0"
    "take_bit 8 (drop_bit 16 (make_address addr off)) = ucast (pa_bus addr)"
    "take_bit 5 (drop_bit 11 (make_address addr off)) = ucast (pa_device addr)"
    "take_bit 3 (drop_bit 8 (make_address addr off)) = ucast (pa_function addr)"
    "take_bit 6 (drop_bit 2 (make_address addr off)) = drop_bit 2 (ucast off)"
proof -
  have d: "n < 5" if "bit (pa_device addr) n" for n using small_bits [of "pa_device addr" 5 n] assms that by (simp add: pci_slot_def word_less_nat_alt)
  have f: "n < 3" if "bit (pa_function addr) n" for n using small_bits [of "pa_function addr" 3 n] assms that by (simp add: pci_slot_def word_less_nat_alt)
  show "bit (make_address addr off) 31" by (simp add: make_address_def bit_simps)
  show "make_address addr off AND 0x7F000003 = 0"
    "take_bit 8 (drop_bit 16 (make_address addr off)) = ucast (pa_bus addr)"
    "take_bit 5 (drop_bit 11 (make_address addr off)) = ucast (pa_device addr)"
    "take_bit 3 (drop_bit 8 (make_address addr off)) = ucast (pa_function addr)"
    "take_bit 6 (drop_bit 2 (make_address addr off)) = drop_bit 2 (ucast off)"
    unfolding make_address_def mask_FC mask_reserved by (rule bit_word_eqI; auto simp: bit_simps bit_enable dest: d f u8_bits)+
qed

lemma unat_ucast_u8: "unat (ucast (x :: u8) :: u32) = unat x"
  using unsigned_less [of x, where ?'a = nat] by (simp add: unsigned_ucast_eq take_bit_nat_eq_self_iff)

lemma pci_read32:
  assumes "pci_host outl inl cfg" "pci_slot addr" "config_read32 outl inl h addr off = (v, h')"
  shows "v = cfg_word (cfg h) addr (unat off div 4)" "cfg h' = cfg h"
proof -
  have "unat (drop_bit 2 (ucast off :: u32)) = unat off div 4" by (simp add: unat_drop_bit_eq unat_ucast_u8 flip: drop_bit_eq_div) (simp add: drop_bit_eq_div)
  then show "v = cfg_word (cfg h) addr (unat off div 4)" "cfg h' = cfg h"
    using assms(1,3) make_address_fields [OF assms(2), of off] unfolding pci_host_def config_read32_def CONFIG_ADDRESS_def CONFIG_DATA_def
    by (metis unat_ucast_u8)+
qed

lemma pci_read8:
  assumes "pci_host outl inl cfg" "pci_slot addr" "config_read8 outl inl h addr off = (v, h')"
  shows "v = ucast (drop_bit (unat (off AND 3) * 8) (cfg_word (cfg h) addr (unat (off AND 0xFC) div 4)) AND 0xFF)" "cfg h' = cfg h"
proof -
  obtain w h1 where r: "config_read32 outl inl h addr (off AND 0xFC) = (w, h1)" by fastforce
  show "v = ucast (drop_bit (unat (off AND 3) * 8) (cfg_word (cfg h) addr (unat (off AND 0xFC) div 4)) AND 0xFF)" "cfg h' = cfg h"
    using assms(3) r pci_read32 [OF assms(1,2) r] by (simp_all add: config_read8_def)
qed

lemma pci_read_bars:
  assumes "pci_host outl inl cfg" "pci_slot addr"
  shows "read_bars outl inl h addr is = (vs, h') \<Longrightarrow> (\<forall>i\<in>set is. i < 6) \<Longrightarrow>
    vs = map (\<lambda>i. cfg_word (cfg h) addr (4 + i)) is \<and> cfg h' = cfg h"
proof (induction "is" arbitrary: h vs h')
  case (Cons i "is")
  obtain v h1 where r: "config_read32 outl inl h addr (word_of_nat (0x10 + i * 4)) = (v, h1)" by fastforce
  obtain ws h2 where b: "read_bars outl inl h1 addr is = (ws, h2)" by fastforce
  have "unat (word_of_nat (0x10 + i * 4) :: u8) = 0x10 + i * 4" using Cons.prems(2) by (subst unat_of_nat) simp
  then show ?case using Cons.prems Cons.IH [OF b] r b pci_read32 [OF assms r] by simp
qed simp

text \<open>What there is to find, as the specification of the configuration space says it.\<close>

definition pci_present :: "pci_space \<Rightarrow> pci_address \<Rightarrow> bool" where
  "pci_present c addr \<longleftrightarrow> (ucast (cfg_word c addr 0) :: u16) \<notin> {0xFFFF, 0}"

definition pci_header :: "pci_space \<Rightarrow> pci_address \<Rightarrow> u8" where
  "pci_header c addr = ucast (drop_bit 16 (cfg_word c addr 3))"

definition pci_decode :: "pci_space \<Rightarrow> pci_address \<Rightarrow> pci_device" where
  "pci_decode c addr =
     (let ident = cfg_word c addr 0; cls = cfg_word c addr 2 in
      \<lparr>pd_addr = addr, pd_vendor_id = ucast ident, pd_device_id = ucast (drop_bit 16 ident),
       pd_class_code = ucast (drop_bit 24 cls), pd_subclass = ucast (drop_bit 16 cls), pd_prog_if = ucast (drop_bit 8 cls), pd_revision = ucast cls,
       pd_header_type = pci_header c addr, pd_irq_line = ucast (cfg_word c addr 15),
       pd_bar = (if pci_header c addr AND 0x7F = 0 then map (\<lambda>i. cfg_word c addr (4 + i)) [0..<6] else replicate 6 0)\<rparr>)"

definition pci_functions :: "pci_space \<Rightarrow> nat \<Rightarrow> nat \<Rightarrow> pci_address list" where
  "pci_functions c bus dev =
     (let addr = (\<lambda>f. \<lparr>pa_bus = word_of_nat bus, pa_device = word_of_nat dev, pa_function = word_of_nat f\<rparr>) in
      if (ucast (cfg_word c (addr 0) 0) :: u16) = 0xFFFF then []
      else map addr (if pci_header c (addr 0) AND 0x80 \<noteq> 0 then [0..<8] else [0]))"

definition pci_bus_devices :: "pci_space \<Rightarrow> pci_device list" where
  "pci_bus_devices c =
     map (pci_decode c) (filter (pci_present c) (concat (map (\<lambda>bus. concat (map (pci_functions c bus) [0..<32])) [0..<256])))"

text \<open>Adding devices to the table until it is full.\<close>

definition pci_adds :: "pci_table \<Rightarrow> pci_device list \<Rightarrow> pci_table \<Rightarrow> bool" where
  "pci_adds t ds t' \<longleftrightarrow> length (s_pci_devices t') = PCI_MAX_DEVICES \<and> s_pci_count t' \<le> PCI_MAX_DEVICES \<and>
     pci_found t' = take PCI_MAX_DEVICES (pci_found t @ ds)"

abbreviation pci_ok :: "pci_table \<Rightarrow> bool" where
  "pci_ok t \<equiv> pci_adds t [] t"

lemma pci_adds_ok: "pci_adds t ds t' \<Longrightarrow> pci_ok t'"
  by (auto simp: pci_adds_def pci_found_def min_def)

lemma pci_adds_trans: "pci_adds t xs t1 \<Longrightarrow> pci_adds t1 ys t2 \<Longrightarrow> pci_adds t (xs @ ys) t2"
  by (auto simp: pci_adds_def take_append min_def)

lemma pci_found_length: "pci_adds t ds t' \<Longrightarrow> length (pci_found t') = s_pci_count t'"
  by (subst pci_found_def) (simp add: pci_adds_def)

lemma and_ones: "(x :: u32) AND 0xFFFF = take_bit 16 x" "(x :: u32) AND 0xFF = take_bit 8 x"
proof -
  have "(0xFFFF :: u32) = mask 16" "(0xFF :: u32) = mask 8" by (simp_all add: mask_eq_exp_minus_1)
  then show "(x :: u32) AND 0xFFFF = take_bit 16 x" "(x :: u32) AND 0xFF = take_bit 8 x" by (simp_all only: take_bit_eq_mask)
qed

lemma ucast_masks: "ucast (x AND 0xFFFF :: u32) = (ucast x :: u16)" "ucast (x AND 0xFF :: u32) = (ucast x :: u8)"
  unfolding and_ones by (rule bit_word_eqI; auto simp: bit_simps)+

lemma low_half_ones: "(x :: u32) AND 0xFFFF = 0xFFFF \<longleftrightarrow> (ucast x :: u16) = 0xFFFF"
proof
  assume "x AND 0xFFFF = 0xFFFF"
  then show "(ucast x :: u16) = 0xFFFF" using ucast_masks(1) [of x] by simp
next
  assume u: "(ucast x :: u16) = 0xFFFF"
  have "x AND 0xFFFF = ucast (ucast x :: u16)" unfolding and_ones by (rule bit_word_eqI) (auto simp: bit_simps dest: bit_imp_le_length)
  then show "x AND 0xFFFF = 0xFFFF" unfolding u by simp
qed

text \<open>The header type and interrupt line bytes.\<close>

lemma pci_read_header:
  assumes "pci_host outl inl cfg" "pci_slot addr"
  shows "config_read8 outl inl h addr 0x0E = (v, h') \<Longrightarrow> v = pci_header (cfg h) addr"
    "config_read8 outl inl h addr 0x3C = (v, h') \<Longrightarrow> v = ucast (cfg_word (cfg h) addr 15)"
  by (drule pci_read8(1) [OF assms], simp add: pci_header_def ucast_masks)+

lemma probe_function_adds:
  assumes host: "pci_host outl inl cfg" and ok: "pci_ok t" and slot: "pci_slot addr" and addr: "addr = \<lparr>pa_bus = bus, pa_device = dev, pa_function = f\<rparr>"
    and p: "probe_function outl inl (t, h) bus dev f = (t', h')"
  shows "pci_adds t (if pci_present (cfg h) addr then [pci_decode (cfg h) addr] else []) t'" "cfg h' = cfg h"
proof -
  obtain ident h1 where 1: "config_read32 outl inl h addr 0 = (ident, h1)" by fastforce
  obtain cls h2 where 2: "config_read32 outl inl h1 addr 8 = (cls, h2)" by fastforce
  obtain hdr h3 where 3: "config_read8 outl inl h2 addr 0x0E = (hdr, h3)" by fastforce
  obtain irq h4 where 4: "config_read8 outl inl h3 addr 0x3C = (irq, h4)" by fastforce
  obtain bars h5 where 5: "(if hdr AND 0x7F = 0x00 then read_bars outl inl h4 addr [0..<6] else (replicate 6 0, h4)) = (bars, h5)" by fastforce
  note R = pci_read32 [OF host slot 1] pci_read32 [OF host slot 2] pci_read_header(1) [OF host slot 3] pci_read8(2) [OF host slot 3] pci_read_header(2) [OF host slot 4] pci_read8(2) [OF host slot 4]
  have B: "bars = (if hdr AND 0x7F = 0 then map (\<lambda>i. cfg_word (cfg h) addr (4 + i)) [0..<6] else replicate 6 0)" "cfg h5 = cfg h"
    using 5 pci_read_bars [OF host slot, of h4 "[0..<6]" bars h5] R by (auto split: if_splits)
  let ?d = "\<lparr>pd_addr = addr, pd_vendor_id = ucast (ident AND 0xFFFF), pd_device_id = ucast (drop_bit 16 ident),
                 pd_class_code = ucast (drop_bit 24 cls AND 0xFF), pd_subclass = ucast (drop_bit 16 cls AND 0xFF),
                 pd_prog_if = ucast (drop_bit 8 cls AND 0xFF), pd_revision = ucast (cls AND 0xFF),
                 pd_header_type = hdr, pd_irq_line = irq, pd_bar = bars\<rparr>"
  have d: "?d = pci_decode (cfg h) addr" using R B by (simp add: pci_decode_def Let_def ucast_masks)
  have c: "pci_present (cfg h) addr \<longleftrightarrow> \<not> ((ucast (ident AND 0xFFFF) :: u16) = 0xFFFF \<or> (ucast (ident AND 0xFFFF) :: u16) = 0)"
    using R by (auto simp: pci_present_def ucast_masks)
  have e: "(t', h') = (if \<not> pci_present (cfg h) addr then (t, h1) else if s_pci_count t \<ge> PCI_MAX_DEVICES then (t, h1)
      else (t\<lparr>s_pci_devices := (s_pci_devices t)[s_pci_count t := ?d], s_pci_count := s_pci_count t + 1\<rparr>, h5))"
    unfolding p [symmetric] probe_function_def c using 1 2 3 4 5 by (simp add: addr [symmetric])
  have l: "length (pci_found t) = s_pci_count t" by (rule pci_found_length [OF ok])
  consider "\<not> pci_present (cfg h) addr" | "pci_present (cfg h) addr" "s_pci_count t \<ge> PCI_MAX_DEVICES" | "pci_present (cfg h) addr" "s_pci_count t < PCI_MAX_DEVICES" by linarith
  then have "pci_adds t (if pci_present (cfg h) addr then [pci_decode (cfg h) addr] else []) t' \<and> cfg h' = cfg h"
  proof cases
    case 3
    have "take (s_pci_count t + 1) ((s_pci_devices t)[s_pci_count t := ?d]) = pci_found t @ [?d]"
      using 3 ok by (simp add: pci_found_def pci_adds_def take_Suc_conv_app_nth)
    then show ?thesis using e 3 ok B(2) l by (auto simp: pci_adds_def pci_found_def d)
  qed (use e ok R l in \<open>auto simp: pci_adds_def\<close>)
  then show "pci_adds t (if pci_present (cfg h) addr then [pci_decode (cfg h) addr] else []) t'" "cfg h' = cfg h" by auto
qed

text \<open>A loop whose rounds add devices and leave the configuration space alone.\<close>

lemma pci_fold_adds:
  assumes step: "\<And>x t h t' h'. x \<in> set xs \<Longrightarrow> pci_ok t \<Longrightarrow> cfg h = c \<Longrightarrow> f x (t, h) = (t', h') \<Longrightarrow> pci_adds t (g x) t' \<and> cfg h' = c"
  shows "pci_ok t \<Longrightarrow> cfg h = c \<Longrightarrow> fold f xs (t, h) = (t', h') \<Longrightarrow> pci_adds t (concat (map g xs)) t' \<and> cfg h' = c"
  using step
proof (induction xs arbitrary: t h)
  case Nil
  then show ?case by simp
next
  case (Cons x xs)
  obtain t1 h1 where f: "f x (t, h) = (t1, h1)" by fastforce
  have 1: "pci_adds t (g x) t1" "cfg h1 = c" using Cons.prems(4) [of x t h t1 h1] Cons.prems(1,2) f by simp_all
  have "pci_adds t1 (concat (map g xs)) t' \<and> cfg h' = c"
    by (rule Cons.IH [OF pci_adds_ok [OF 1(1)] 1(2)]) (use Cons.prems(3) f in simp, rule Cons.prems(4), simp_all)
  then show ?case using pci_adds_trans [OF 1(1)] by auto
qed

lemma pci_slotI: "dev < 32 \<Longrightarrow> f < 8 \<Longrightarrow> pci_slot \<lparr>pa_bus = bus, pa_device = word_of_nat dev, pa_function = word_of_nat f\<rparr>"
  by (simp add: pci_slot_def word_less_nat_alt unat_of_nat)

lemma probe_device_adds:
  assumes host: "pci_host outl inl cfg" and ok: "pci_ok t" and dev: "dev < 32"
    and p: "probe_device outl inl (t, h) (word_of_nat bus) (word_of_nat dev) = (t', h')"
  shows "pci_adds t (map (pci_decode (cfg h)) (filter (pci_present (cfg h)) (pci_functions (cfg h) bus dev))) t' \<and> cfg h' = cfg h"
proof -
  let ?addr = "\<lambda>f. \<lparr>pa_bus = word_of_nat bus, pa_device = word_of_nat dev, pa_function = word_of_nat f\<rparr>"
  let ?g = "\<lambda>f. if pci_present (cfg h) (?addr f) then [pci_decode (cfg h) (?addr f)] else []"
  obtain ident h1 where 1: "config_read32 outl inl h (?addr 0) 0 = (ident, h1)" by fastforce
  have slot: "pci_slot (?addr f)" if "f < 8" for f by (rule pci_slotI [OF dev that])
  note s0 = slot [of 0, simplified]
  note R1 = pci_read32 [OF host s0 1 [simplified]]
  show ?thesis
  proof (cases "ident AND 0xFFFF = 0xFFFF")
    case True
    have "(ucast (cfg_word (cfg h) (?addr 0) 0) :: u16) = 0xFFFF" using True R1 unfolding low_half_ones by simp
    then have "pci_functions (cfg h) bus dev = []" by (simp add: pci_functions_def)
    moreover have "t' = t" "h' = h1" using p 1 True by (simp_all add: probe_device_def)
    ultimately show ?thesis using ok R1 by simp
  next
    case False
    obtain t2 h2 where 2: "probe_function outl inl (t, h1) (word_of_nat bus) (word_of_nat dev) 0 = (t2, h2)" by fastforce
    obtain hdr h3 where 3: "config_read8 outl inl h2 (?addr 0) 0x0E = (hdr, h3)" by fastforce
    note R2 = probe_function_adds [OF host ok s0 refl 2] and R3 = pci_read_header(1) [OF host s0 3 [simplified]] pci_read8(2) [OF host s0 3 [simplified]]
    have a2: "pci_adds t (?g 0) t2" "cfg h3 = cfg h" "hdr = pci_header (cfg h) (?addr 0)" using R2(1) unfolding R1(2) by (simp_all add: R1 R2(2) R3 split: if_splits)
    have nf: "(ucast (cfg_word (cfg h) (?addr 0) 0) :: u16) \<noteq> 0xFFFF" using False R1 unfolding low_half_ones by simp
    have fs: "pci_functions (cfg h) bus dev = map ?addr (if hdr AND 0x80 \<noteq> 0 then 0 # [1..<8] else [0])"
      using nf a2(3) by (simp add: pci_functions_def upt_conv_Cons)
    have m: "map (pci_decode (cfg h)) (filter (pci_present (cfg h)) (map ?addr xs)) = concat (map ?g xs)" for xs by (induction xs) auto
    show ?thesis
    proof (cases "hdr AND 0x80 \<noteq> 0")
      case True
      have fl: "fold (\<lambda>func th. probe_function outl inl th (word_of_nat bus) (word_of_nat dev) (word_of_nat func)) [1..<8] (t2, h3) = (t', h')"
        using p 1 2 3 False True by (simp add: probe_device_def)
      have "pci_adds t2 (concat (map ?g [1..<8])) t' \<and> cfg h' = cfg h"
        by (rule pci_fold_adds [where cfg = cfg, OF _ pci_adds_ok [OF a2(1)] a2(2) fl]) (use probe_function_adds [OF host _ slot] in fastforce)
      moreover have "map (pci_decode (cfg h)) (filter (pci_present (cfg h)) (pci_functions (cfg h) bus dev)) = ?g 0 @ concat (map ?g [1..<8])"
        unfolding fs m using True by simp
      ultimately show ?thesis using pci_adds_trans [OF a2(1)] by (simp only:)
    next
      case nm: False
      have "t' = t2" "h' = h3" using p 1 2 3 False nm by (simp_all add: probe_device_def)
      moreover have "map (pci_decode (cfg h)) (filter (pci_present (cfg h)) (pci_functions (cfg h) bus dev)) = ?g 0" unfolding fs m using nm by simp
      ultimately show ?thesis using a2 by (simp only:)
    qed
  qed
qed

text \<open>
  C40. Enumeration finds what is there. On a host bridge that answers configuration reads, after
  \<open>pci::init\<close> the table holds, in bus order, every present function (of a device whose first
  function answers; more than the first only for multi-function devices), the first 64 of them,
  each with the fields decoded from the registers of its configuration space; the configuration
  space is unchanged.
\<close>

theorem pci_enumeration:
  assumes "pci_host outl inl cfg" "length (s_pci_devices t) = 64" "pci_init outl inl (t, h) = (t', h')"
  shows "pci_found t' = take 64 (pci_bus_devices (cfg h)) \<and> cfg h' = cfg h"
proof -
  let ?c = "cfg h" and ?t = "t\<lparr>s_pci_count := 0\<rparr>"
  let ?G = "\<lambda>bus dev. map (pci_decode ?c) (filter (pci_present ?c) (pci_functions ?c bus dev))"
  have ok: "pci_ok ?t" using assms(2) by (simp add: pci_adds_def pci_found_def PCI_MAX_DEVICES_def)
  have inner: "pci_adds t1 (concat (map (?G bus) [0..<32])) t2 \<and> cfg h2 = ?c"
    if f: "fold (\<lambda>dev th. probe_device outl inl th (word_of_nat bus) (word_of_nat dev)) [0..<32] (t1, h1) = (t2, h2)" and o: "pci_ok t1" "cfg h1 = ?c" for bus t1 h1 t2 h2
    by (rule pci_fold_adds [where cfg = cfg, OF _ o(1) o(2) f]) (use probe_device_adds [OF assms(1)] in fastforce)
  have "pci_adds ?t (concat (map (\<lambda>bus. concat (map (?G bus) [0..<32])) [0..<256])) t' \<and> cfg h' = ?c"
    by (rule pci_fold_adds [where cfg = cfg, OF _ ok refl]) (use inner assms(3) in \<open>auto simp: pci_init_def\<close>)
  moreover have "concat (map (\<lambda>bus. concat (map (?G bus) [0..<32])) [0..<256]) = pci_bus_devices ?c"
    unfolding pci_bus_devices_def filter_concat map_concat by (simp add: comp_def filter_concat map_concat)
  ultimately show ?thesis by (simp add: pci_adds_def pci_found_def PCI_MAX_DEVICES_def)
qed

text \<open>
  A bus with one sound card, device 3 of bus 0, behind a bridge with an address register; every
  read of another function gives all ones, and so does a read without the enable bit.
\<close>

definition demo_space :: pci_space where
  "demo_space bus dev fn reg =
     (if bus \<noteq> 0 \<or> dev \<noteq> 3 \<or> fn \<noteq> 0 then 0xFFFFFFFF else if reg = 0 then 0x24158086 else if reg = 2 then 0x04010001
      else if reg = 4 then 0xC001 else if reg = 15 then 0x10B else 0)"

definition bus_outl :: "u32 outl" where
  "bus_outl h port v = (if port = 0xCF8 then v else h)"

definition bus_inl :: "u32 inl" where
  "bus_inl h port =
     (if port = 0xCFC \<and> bit h 31 then
        demo_space (unat (take_bit 8 (drop_bit 16 h))) (unat (take_bit 5 (drop_bit 11 h))) (unat (take_bit 3 (drop_bit 8 h))) (unat (take_bit 6 (drop_bit 2 h)))
      else 0xFFFFFFFF, h)"

abbreviation empty_pci_table :: pci_table where
  "empty_pci_table \<equiv> \<lparr>s_pci_devices = replicate 64 (pci_decode (\<lambda>_ _ _ _. 0) \<lparr>pa_bus = 0, pa_device = 0, pa_function = 0\<rparr>), s_pci_count = 0\<rparr>"

lemma demo_functions: "bus < 256 \<Longrightarrow> dev < 32 \<Longrightarrow>
    pci_functions demo_space bus dev = (if bus = 0 \<and> dev = 3 then [\<lparr>pa_bus = 0, pa_device = 3, pa_function = 0\<rparr>] else [])"
  by (auto simp: pci_functions_def demo_space_def pci_header_def unat_of_nat)

lemma demo_bus_devices:
  "pci_bus_devices demo_space =
     [\<lparr>pd_addr = \<lparr>pa_bus = 0, pa_device = 3, pa_function = 0\<rparr>, pd_vendor_id = 0x8086, pd_device_id = 0x2415, pd_class_code = 4, pd_subclass = 1,
       pd_prog_if = 0, pd_revision = 1, pd_header_type = 0, pd_irq_line = 11, pd_bar = [0xC001, 0, 0, 0, 0, 0]\<rparr>]"
proof -
  have inner: "concat (map (pci_functions demo_space bus) [0..<32]) = (if bus = 0 then [\<lparr>pa_bus = 0, pa_device = 3, pa_function = 0\<rparr>] else [])"
    if "bus < 256" for bus using that by (simp add: upt_rec demo_functions)
  have outer: "concat (map (\<lambda>bus. concat (map (pci_functions demo_space bus) [0..<32])) [0..<256]) = [\<lparr>pa_bus = 0, pa_device = 3, pa_function = 0\<rparr>]"
  proof -
    have "[0..<256] = 0 # [1..<256]" by (simp add: upt_conv_Cons)
    moreover have "concat (map (\<lambda>bus. concat (map (pci_functions demo_space bus) [0..<32])) [1..<256]) = []" using inner by auto
    ultimately show ?thesis using inner [of 0] by (simp del: upt_conv_Cons)
  qed
  show ?thesis unfolding pci_bus_devices_def outer
    by (simp add: pci_present_def pci_decode_def pci_header_def demo_space_def Let_def upt_rec)
qed

lemma pci_enumeration_witness:
  "pci_found (fst (pci_init bus_outl bus_inl (empty_pci_table, 0))) =
     [\<lparr>pd_addr = \<lparr>pa_bus = 0, pa_device = 3, pa_function = 0\<rparr>, pd_vendor_id = 0x8086, pd_device_id = 0x2415, pd_class_code = 4, pd_subclass = 1,
       pd_prog_if = 0, pd_revision = 1, pd_header_type = 0, pd_irq_line = 11, pd_bar = [0xC001, 0, 0, 0, 0, 0]\<rparr>]"
proof -
  have h: "pci_host bus_outl bus_inl (\<lambda>_. demo_space)" by (auto simp: pci_host_def bus_outl_def bus_inl_def)
  show ?thesis using pci_enumeration [OF h _ prod.collapse [symmetric], of empty_pci_table 0] by (simp add: demo_bus_devices)
qed

end
