(* ===== verification/KWorld.thy ===== *)
theory KWorld
  imports Sched NetProto Fs Sound Pci
begin

text \<open>
  The state of the kernel that the driver registry (src/core/driver.cpp) and the object tree
  (src/core/kobj) see: the components of the other theories side by side, with the one kernel heap
  they share in \<open>kw_km\<close>. The sound subsystem allocates and frees in that heap; \<open>on_sound\<close> runs one of
  its operations on it. \<open>kw_hw\<close> is the hardware behind the registered block and network drivers.
\<close>

record ('w, 'd, 'h) kworld =
  kw_km :: kmemory
  kw_sched :: sched
  kw_cpu_count :: u32
  kw_fs :: "'w fs_state"
  kw_net :: net_state
  kw_sound :: "'d sound_state"
  kw_pci :: pci_table
  kw_hw :: 'h
  kw_log_route :: u32
  kw_power_state :: u32

definition on_sound :: "('d sound_state \<Rightarrow> 'd sound_state \<times> 'r) \<Rightarrow> ('w, 'd, 'h) kworld \<Rightarrow> ('w, 'd, 'h) kworld \<times> 'r" where
  "on_sound f w = (let (s, r) = f ((kw_sound w)\<lparr>snd_km := kw_km w\<rparr>) in (w\<lparr>kw_sound := s, kw_km := snd_km s\<rparr>, r))"

end
