(* ===== verification/DriverReg.thy ===== *)
theory DriverReg
  imports KWorld
begin

text \<open>
  The driver registry of src/core/driver.cpp: built-in drivers register a descriptor, and are
  loaded and unloaded by name, with or without the suffix \<open>.vko\<close>. The functions a descriptor points
  to are functions on the kernel state; a pointer that may be null is an option.
\<close>

section \<open>State\<close>

datatype driver_type = type_none | type_sound | type_block | type_network | type_filesystem

record ('w, 'd, 'h) device_driver =
  dv_init :: "('w, 'd, 'h) kworld \<Rightarrow> ('w, 'd, 'h) kworld \<times> bool"
  dv_shutdown :: "(('w, 'd, 'h) kworld \<Rightarrow> ('w, 'd, 'h) kworld) option"

record ('w, 'd, 'h) driver_descriptor =
  dd_name :: string
  dd_type :: driver_type
  dd_sound :: "'d sound_driver option"
  dd_block :: "('w, 'd, 'h) device_driver option"
  dd_net :: "('w, 'd, 'h) device_driver option"
  dd_filesystem :: "(('w, 'd, 'h) kworld \<Rightarrow> ('w, 'd, 'h) kworld) option option"

record ('w, 'd, 'h) driver_slot =
  ds_desc :: "('w, 'd, 'h) driver_descriptor option"
  ds_loaded :: bool

record ('w, 'd, 'h) driver_registry =
  s_drivers :: "('w, 'd, 'h) driver_slot list"
  s_driver_count :: nat
  s_drivers_initialised :: bool

definition MAX_DRIVERS :: nat where "MAX_DRIVERS = 16"

definition empty_slot :: "('w, 'd, 'h) driver_slot" where
  "empty_slot = \<lparr>ds_desc = None, ds_loaded = False\<rparr>"

section \<open>Operations\<close>

definition driver_init :: "('w, 'd, 'h) driver_registry \<Rightarrow> ('w, 'd, 'h) driver_registry" where
  "driver_init r =
     (if s_drivers_initialised r then r
      else r\<lparr>s_drivers := replicate MAX_DRIVERS empty_slot, s_driver_count := 0, s_drivers_initialised := True\<rparr>)"

definition normalize_driver_name :: "string \<Rightarrow> string" where
  "normalize_driver_name name =
     (if length name \<ge> 4 \<and> sv_compare (drop (length name - 4) name) ''.vko'' then take (length name - 4) name else name)"

definition name_match :: "string \<Rightarrow> string \<Rightarrow> bool" where
  "name_match query driver_name = sv_compare (normalize_driver_name query) driver_name"

definition register_driver :: "('w, 'd, 'h) driver_registry \<Rightarrow> ('w, 'd, 'h) driver_descriptor \<Rightarrow> ('w, 'd, 'h) driver_registry" where
  "register_driver r desc =
     (let r = (if \<not> s_drivers_initialised r then driver_init r else r) in
      if s_driver_count r \<ge> MAX_DRIVERS then r
      else r\<lparr>s_drivers := (s_drivers r)[s_driver_count r := \<lparr>ds_desc = Some desc, ds_loaded = False\<rparr>], s_driver_count := s_driver_count r + 1\<rparr>)"

text \<open>The first slot whose driver matches, with its descriptor.\<close>

definition matching_slot :: "('w, 'd, 'h) driver_registry \<Rightarrow> string \<Rightarrow> (nat \<times> ('w, 'd, 'h) driver_descriptor) option" where
  "matching_slot r name =
     (case find (\<lambda>i. case ds_desc (s_drivers r ! i) of None \<Rightarrow> False | Some d \<Rightarrow> name_match name (dd_name d)) [0..<s_driver_count r] of
        None \<Rightarrow> None
      | Some i \<Rightarrow> map_option (Pair i) (ds_desc (s_drivers r ! i)))"

definition driver_find :: "('w, 'd, 'h) driver_registry \<Rightarrow> string \<Rightarrow> ('w, 'd, 'h) driver_descriptor option" where
  "driver_find r name = map_option snd (matching_slot r name)"

definition set_loaded :: "('w, 'd, 'h) driver_registry \<Rightarrow> nat \<Rightarrow> bool \<Rightarrow> ('w, 'd, 'h) driver_registry" where
  "set_loaded r i b = r\<lparr>s_drivers := (s_drivers r)[i := (s_drivers r ! i)\<lparr>ds_loaded := b\<rparr>]\<rparr>"

text \<open>The switch over the type in \<open>load\<close>: whether the activation succeeded.\<close>

definition activate_driver :: "('w, 'd, 'h) driver_descriptor \<Rightarrow> ('w, 'd, 'h) kworld \<Rightarrow> ('w, 'd, 'h) kworld \<times> bool" where
  "activate_driver desc w =
     (case dd_type desc of
        type_sound \<Rightarrow>
          (case dd_sound desc of
             None \<Rightarrow> (w, True)
           | Some drv \<Rightarrow>
               let (w, _) = on_sound (\<lambda>s. (sound_register_driver s (Some drv), ())) w
               in on_sound init_active w)
      | type_block \<Rightarrow>
          (case dd_block desc of
             None \<Rightarrow> (w, True)
           | Some drv \<Rightarrow> dv_init drv (w\<lparr>kw_fs := (kw_fs w)\<lparr>fs_blocks := block_init (fs_blocks (kw_fs w))\<rparr>\<rparr>))
      | type_network \<Rightarrow>
          (case dd_net desc of
             None \<Rightarrow> (w, True)
           | Some drv \<Rightarrow> dv_init drv (w\<lparr>kw_net := net_init (kw_net w)\<rparr>))
      | type_filesystem \<Rightarrow>
          (case dd_filesystem desc of
             Some (Some f) \<Rightarrow> (f w, True)
           | _ \<Rightarrow> (w, True))
      | type_none \<Rightarrow> (w, False))"

definition driver_load :: "('w, 'd, 'h) driver_registry \<Rightarrow> ('w, 'd, 'h) kworld \<Rightarrow> string \<Rightarrow> ('w, 'd, 'h) driver_registry \<times> ('w, 'd, 'h) kworld \<times> int" where
  "driver_load r w name =
     (case matching_slot r name of
        None \<Rightarrow> (r, w, - 1)
      | Some (i, desc) \<Rightarrow>
          if ds_loaded (s_drivers r ! i) then (r, w, 0)
          else
            let (w, ok) = activate_driver desc w in
            if \<not> ok then (r, w, - 1) else (set_loaded r i True, w, 0))"

definition driver_unload :: "('w, 'd, 'h) driver_registry \<Rightarrow> ('w, 'd, 'h) kworld \<Rightarrow> string \<Rightarrow> ('w, 'd, 'h) driver_registry \<times> ('w, 'd, 'h) kworld \<times> int" where
  "driver_unload r w name =
     (case matching_slot r name of
        None \<Rightarrow> (r, w, - 1)
      | Some (i, desc) \<Rightarrow>
          if \<not> ds_loaded (s_drivers r ! i) then (r, w, - 1)
          else
            case dd_type desc of
              type_sound \<Rightarrow> (set_loaded r i False, fst (on_sound (\<lambda>s. (shutdown_active s, ())) w), 0)
            | type_block \<Rightarrow>
                (set_loaded r i False, (case Option.bind (dd_block desc) dv_shutdown of None \<Rightarrow> w | Some f \<Rightarrow> f w), 0)
            | type_network \<Rightarrow>
                (set_loaded r i False, (case Option.bind (dd_net desc) dv_shutdown of None \<Rightarrow> w | Some f \<Rightarrow> f w), 0)
            | type_filesystem \<Rightarrow> (r, w, - 1)
            | type_none \<Rightarrow> (set_loaded r i False, w, 0))"

definition registered_count :: "('w, 'd, 'h) driver_registry \<Rightarrow> nat" where
  "registered_count r = s_driver_count r"

definition get_registered :: "('w, 'd, 'h) driver_registry \<Rightarrow> nat \<Rightarrow> ('w, 'd, 'h) driver_descriptor option" where
  "get_registered r index = (if index \<ge> s_driver_count r then None else ds_desc (s_drivers r ! index))"

definition driver_is_loaded :: "('w, 'd, 'h) driver_registry \<Rightarrow> string option \<Rightarrow> bool" where
  "driver_is_loaded r name =
     (case name of
        None \<Rightarrow> False
      | Some name \<Rightarrow> (case matching_slot r name of None \<Rightarrow> False | Some (i, _) \<Rightarrow> ds_loaded (s_drivers r ! i)))"

section \<open>Properties\<close>

text \<open>The slots below the count hold the registered drivers.\<close>

definition registry_ok :: "('w, 'd, 'h) driver_registry \<Rightarrow> bool" where
  "registry_ok r \<longleftrightarrow> length (s_drivers r) = MAX_DRIVERS \<and> s_driver_count r \<le> MAX_DRIVERS \<and>
     (\<forall>i < s_driver_count r. ds_desc (s_drivers r ! i) \<noteq> None)"

lemma matching_slot_bound:
  assumes "registry_ok r" "matching_slot r name = Some (i, desc)"
  shows "i < s_driver_count r" "i < length (s_drivers r)" "ds_desc (s_drivers r ! i) = Some desc" "name_match name (dd_name desc)"
proof -
  obtain k where k: "find (\<lambda>i. case ds_desc (s_drivers r ! i) of None \<Rightarrow> False | Some d \<Rightarrow> name_match name (dd_name d)) [0..<s_driver_count r] = Some k"
    using assms(2) by (auto simp: matching_slot_def split: option.splits)
  then have e: "k = i" "ds_desc (s_drivers r ! i) = Some desc" using assms(2) by (auto simp: matching_slot_def)
  have "k < s_driver_count r" "case ds_desc (s_drivers r ! k) of None \<Rightarrow> False | Some d \<Rightarrow> name_match name (dd_name d)"
    using find_Some_iff [THEN iffD1, OF k] by auto
  then show "i < s_driver_count r" "i < length (s_drivers r)" "ds_desc (s_drivers r ! i) = Some desc" "name_match name (dd_name desc)"
    using e assms(1) by (auto simp: registry_ok_def)
qed

lemma set_loaded_simps:
  assumes "i < length (s_drivers r)"
  shows "ds_loaded (s_drivers (set_loaded r i b) ! i) = b" "j \<noteq> i \<Longrightarrow> s_drivers (set_loaded r i b) ! j = s_drivers r ! j"
    "ds_desc (s_drivers (set_loaded r i b) ! j) = ds_desc (s_drivers r ! j)" "s_driver_count (set_loaded r i b) = s_driver_count r"
    "length (s_drivers (set_loaded r i b)) = length (s_drivers r)"
  using assms by (cases "j = i"; simp add: set_loaded_def)+

lemma matching_slot_set_loaded: "i < length (s_drivers r) \<Longrightarrow> matching_slot (set_loaded r i b) name = matching_slot r name"
  by (simp add: matching_slot_def set_loaded_simps split: option.split)

lemma registry_ok_set_loaded: "registry_ok r \<Longrightarrow> i < length (s_drivers r) \<Longrightarrow> registry_ok (set_loaded r i b)"
  by (simp add: registry_ok_def set_loaded_simps)

lemma registry_ok_init: "registry_ok (driver_init r) \<or> s_drivers_initialised r"
  by (auto simp: driver_init_def registry_ok_def)

lemma registry_ok_register: "registry_ok r \<or> \<not> s_drivers_initialised r \<Longrightarrow> registry_ok (register_driver r desc)"
proof -
  assume h: "registry_ok r \<or> \<not> s_drivers_initialised r"
  let ?r = "if \<not> s_drivers_initialised r then driver_init r else r"
  have ok: "registry_ok ?r" using h registry_ok_init [of r] by auto
  then show ?thesis unfolding register_driver_def Let_def
    by (cases "s_driver_count ?r \<ge> MAX_DRIVERS") (auto simp: registry_ok_def nth_list_update less_Suc_eq)
qed

lemma registry_ok_unload: "registry_ok r \<Longrightarrow> registry_ok (fst (driver_unload r w name))"
  by (auto simp: driver_unload_def registry_ok_set_loaded matching_slot_bound split: option.split driver_type.split)

text \<open>
  Loading by name, with or without the suffix: the driver's own activation runs exactly when it
  is not loaded yet; it is marked loaded exactly when that succeeds; no other slot changes.
\<close>

lemma driver_load_spec:
  assumes ok: "registry_ok r" and m: "matching_slot r name = Some (i, desc)"
  shows "ds_loaded (s_drivers r ! i) \<Longrightarrow> driver_load r w name = (r, w, 0)"
    and "\<not> ds_loaded (s_drivers r ! i) \<Longrightarrow> activate_driver desc w = (w', False) \<Longrightarrow> driver_load r w name = (r, w', - 1)"
    and "\<not> ds_loaded (s_drivers r ! i) \<Longrightarrow> activate_driver desc w = (w', True) \<Longrightarrow>
      driver_load r w name = (set_loaded r i True, w', 0) \<and> registry_ok (set_loaded r i True) \<and>
      driver_is_loaded (set_loaded r i True) (Some name) \<and> driver_load (set_loaded r i True) w' name = (set_loaded r i True, w', 0)"
proof -
  note b = matching_slot_bound [OF ok m]
  show "ds_loaded (s_drivers r ! i) \<Longrightarrow> driver_load r w name = (r, w, 0)" using m by (simp add: driver_load_def)
  show "\<not> ds_loaded (s_drivers r ! i) \<Longrightarrow> activate_driver desc w = (w', False) \<Longrightarrow> driver_load r w name = (r, w', - 1)"
    using m by (simp add: driver_load_def)
  show "driver_load r w name = (set_loaded r i True, w', 0) \<and> registry_ok (set_loaded r i True) \<and>
      driver_is_loaded (set_loaded r i True) (Some name) \<and> driver_load (set_loaded r i True) w' name = (set_loaded r i True, w', 0)"
    if "\<not> ds_loaded (s_drivers r ! i)" "activate_driver desc w = (w', True)"
    using that m b ok registry_ok_set_loaded [OF ok b(2)]
    by (simp add: driver_load_def driver_is_loaded_def matching_slot_set_loaded set_loaded_simps)
qed

text \<open>
  Unloading a sound driver shuts down whichever sound driver is active: another loaded sound
  driver is switched off but stays marked as loaded.
\<close>

lemma unload_stops_other_sound:
  assumes "registry_ok r" "matching_slot r name = Some (i, desc)" "dd_type desc = type_sound" "ds_loaded (s_drivers r ! i)"
    and "j \<noteq> i" "ds_loaded (s_drivers r ! j)" "driver_unload r w name = (r', w', rc)"
  shows "rc = 0 \<and> snd_active (kw_sound w') = None \<and> ds_loaded (s_drivers r' ! j)"
  using assms matching_slot_bound [OF assms(1,2)]
  by (auto simp: driver_unload_def on_sound_def shutdown_active_def Let_def set_loaded_simps)

end
