(* ===== verification/KTree.thy ===== *)
theory KTree
  imports KText KIds DriverReg
begin

text \<open>
  The object tree of src/core/kobj: values, nodes, the tables the nodes are registered from and
  the functions behind the static leaves. Every node of the source is a static object with an id of
  its own, so a pointer to a node is its id and the tree a map from ids to nodes. A callback acts on
  the kernel state, the components and the driver registry; \<open>None\<close> is a callback that does not
  return (the walk over a cyclic heap list).
\<close>

section \<open>Values and nodes\<close>

datatype KTag = TU64 | TI64 | TBool | TStr | TEnum | TStruct | TStream | TErr

datatype KVal = VU64 u64 | VI64 u64 | VBool bool | VStr string | VEnum u32 | VStruct "(string \<times> KVal) list" | VStream | VErr string

primrec kval_tag :: "KVal \<Rightarrow> KTag" where
  "kval_tag (VU64 _) = TU64" | "kval_tag (VI64 _) = TI64" | "kval_tag (VBool _) = TBool" | "kval_tag (VStr _) = TStr"
| "kval_tag (VEnum _) = TEnum" | "kval_tag (VStruct _) = TStruct" | "kval_tag VStream = TStream" | "kval_tag (VErr _) = TErr"

definition from_str :: "string \<Rightarrow> KVal" where "from_str s = VStr (kstr_set s)"
definition err :: "string \<Rightarrow> KVal" where "err msg = VErr (kstr_set msg)"

primrec tag_name :: "KTag \<Rightarrow> string" where
  "tag_name TU64 = ''u64''" | "tag_name TI64 = ''i64''" | "tag_name TBool = ''bool''" | "tag_name TStr = ''str''"
| "tag_name TEnum = ''enum''" | "tag_name TStruct = ''struct''" | "tag_name TStream = ''stream''" | "tag_name TErr = ''err''"

type_synonym ('w, 'd, 'h) ksys = "('w, 'd, 'h) kworld \<times> ('w, 'd, 'h) driver_registry"
type_synonym ('w, 'd, 'h) get_callback = "('w, 'd, 'h) ksys \<Rightarrow> (('w, 'd, 'h) ksys \<times> KVal) option"
type_synonym ('w, 'd, 'h) set_callback = "('w, 'd, 'h) ksys \<Rightarrow> KVal \<Rightarrow> ('w, 'd, 'h) ksys \<times> bool"

record KNodeSchema =
  sch_name :: string
  sch_type :: KTag
  sch_writable :: bool
  sch_volatile_node :: bool
  sch_unit :: string
  sch_range_min :: u64
  sch_range_max :: u64
  sch_enum_labels :: "string list"
  sch_cap_mask :: u32

record ('w, 'd, 'h) KNode =
  kn_id :: knode_id
  kn_schema :: KNodeSchema
  kn_get_fn :: "('w, 'd, 'h) get_callback option"
  kn_set_fn :: "('w, 'd, 'h) set_callback option"
  kn_children :: "knode_id list"
  kn_parent :: "knode_id option"

type_synonym ('w, 'd, 'h) ktree = "knode_id \<Rightarrow> ('w, 'd, 'h) KNode"

record ('w, 'd, 'h) node_definition =
  df_id :: knode_id
  df_parent :: "knode_id option"
  df_name :: string
  df_type :: KTag
  df_writable :: bool
  df_volatile :: bool
  df_unit :: string
  df_cap_mask :: u32
  df_get :: "('w, 'd, 'h) get_callback option"
  df_set :: "('w, 'd, 'h) set_callback option"
  df_labels :: "string list"

text \<open>A definition with the default values.\<close>

definition plain_node :: "knode_id \<Rightarrow> knode_id option \<Rightarrow> string \<Rightarrow> KTag \<Rightarrow> ('w, 'd, 'h) node_definition" where
  "plain_node n parent name type = \<lparr>df_id = n, df_parent = parent, df_name = name, df_type = type, df_writable = False, df_volatile = False,
     df_unit = [], df_cap_mask = 0x01, df_get = None, df_set = None, df_labels = []\<rparr>"

section \<open>Tree mechanics\<close>

definition schema_reset :: "string \<Rightarrow> KTag \<Rightarrow> bool \<Rightarrow> bool \<Rightarrow> string \<Rightarrow> u32 \<Rightarrow> KNodeSchema" where
  "schema_reset name type writable volatile unit cap_mask =
     \<lparr>sch_name = name, sch_type = type, sch_writable = writable, sch_volatile_node = volatile, sch_unit = unit, sch_range_min = 0, sch_range_max = 0,
      sch_enum_labels = [], sch_cap_mask = cap_mask\<rparr>"

definition set_enum_labels :: "KNodeSchema \<Rightarrow> string list \<Rightarrow> KNodeSchema" where
  "set_enum_labels s labels = s\<lparr>sch_enum_labels := take KENUM_MAX labels\<rparr>"

definition knode_reset :: "('w, 'd, 'h) node_definition \<Rightarrow> ('w, 'd, 'h) KNode" where
  "knode_reset d =
     \<lparr>kn_id = df_id d, kn_schema = schema_reset (df_name d) (df_type d) (df_writable d) (df_volatile d) (df_unit d) (df_cap_mask d),
      kn_get_fn = df_get d, kn_set_fn = df_set d, kn_children = [], kn_parent = None\<rparr>"

text \<open>\<open>KNode::attach\<close>; \<open>None\<close> is the panic.\<close>

definition attach :: "('w, 'd, 'h) ktree \<Rightarrow> knode_id \<Rightarrow> knode_id \<Rightarrow> ('w, 'd, 'h) ktree option" where
  "attach t parent child =
     (if length (kn_children (t parent)) \<ge> KNODE_CHILDREN_MAX then None
      else
        let t = t(child := (t child)\<lparr>kn_parent := Some parent\<rparr>)
        in Some (t(parent := (t parent)\<lparr>kn_children := kn_children (t parent) @ [child]\<rparr>)))"

definition find_child :: "('w, 'd, 'h) ktree \<Rightarrow> knode_id \<Rightarrow> string \<Rightarrow> knode_id option" where
  "find_child t n name = find (\<lambda>c. sv_compare (sch_name (kn_schema (t c))) name) (kn_children (t n))"

definition readable :: "('w, 'd, 'h) KNode \<Rightarrow> bool" where
  "readable n \<longleftrightarrow> kn_get_fn n \<noteq> None"

definition writable :: "('w, 'd, 'h) KNode \<Rightarrow> bool" where
  "writable n \<longleftrightarrow> sch_writable (kn_schema n) \<and> kn_set_fn n \<noteq> None"

definition knode_read :: "('w, 'd, 'h) KNode \<Rightarrow> ('w, 'd, 'h) ksys \<Rightarrow> (('w, 'd, 'h) ksys \<times> KVal) option" where
  "knode_read n k = (case kn_get_fn n of Some f \<Rightarrow> f k | None \<Rightarrow> Some (k, err ''node is not readable''))"

definition knode_write :: "('w, 'd, 'h) KNode \<Rightarrow> ('w, 'd, 'h) ksys \<Rightarrow> KVal \<Rightarrow> ('w, 'd, 'h) ksys \<times> bool" where
  "knode_write n k v = (case kn_set_fn n of Some f \<Rightarrow> f k v | None \<Rightarrow> (k, False))"

definition register_node :: "('w, 'd, 'h) ktree \<Rightarrow> ('w, 'd, 'h) node_definition \<Rightarrow> ('w, 'd, 'h) ktree option" where
  "register_node t d =
     (let n = knode_reset d;
          n = (if df_labels d \<noteq> [] then n\<lparr>kn_schema := set_enum_labels (kn_schema n) (df_labels d)\<rparr> else n);
          t = t(df_id d := n)
      in case df_parent d of None \<Rightarrow> Some t | Some p \<Rightarrow> attach t p (df_id d))"

fun register_nodes :: "('w, 'd, 'h) ktree \<Rightarrow> ('w, 'd, 'h) node_definition list \<Rightarrow> ('w, 'd, 'h) ktree option" where
  "register_nodes t [] = Some t"
| "register_nodes t (d # ds) = Option.bind (register_node t d) (\<lambda>t. register_nodes t ds)"

section \<open>Static leaves: system and file system\<close>

definition kPowerStateLabels :: "string list" where "kPowerStateLabels = [''running'', ''suspend'', ''hibernate'']"
definition kLogRouteLabels :: "string list" where "kLogRouteLabels = [''default'', ''serial'', ''disabled'']"

definition get_sys_cpu_count :: "('w, 'd, 'h) get_callback" where
  "get_sys_cpu_count k = Some (k, VU64 (ucast (kw_cpu_count (fst k))))"

definition get_sys_cpu_ticks :: "('w, 'd, 'h) get_callback" where
  "get_sys_cpu_ticks k = Some (k, VU64 (g_tick_count (kw_sched (fst k))))"

definition get_sys_mem_total_kb :: "('w, 'd, 'h) get_callback" where
  "get_sys_mem_total_kb k = Some (k, VU64 (pa_total_pages (km_phys (kw_km (fst k))) * PAGE_SIZE_4K div 1024))"

definition get_sys_mem_free_kb :: "('w, 'd, 'h) get_callback" where
  "get_sys_mem_free_kb k = Some (k, VU64 (pa_free_pages (km_phys (kw_km (fst k))) * PAGE_SIZE_4K div 1024))"

partial_function (option) heap_used_from :: "(u64 \<Rightarrow> heap_block) \<Rightarrow> u64 \<Rightarrow> u64 \<Rightarrow> u64 option" where
  "heap_used_from hdr block used =
     (if block = 0 then Some used
      else heap_used_from hdr (hb_next (hdr block)) (if hb_used (hdr block) then used + hb_size (hdr block) else used))"

declare heap_used_from.simps [code]

definition get_sys_mem_heap_used :: "('w, 'd, 'h) get_callback" where
  "get_sys_mem_heap_used k =
     (let h = km_heap (kw_km (fst k)) in map_option (\<lambda>used. (k, VU64 used)) (heap_used_from (kh_hdr h) (kh_free_list h) 0))"

definition get_sys_mem_heap_capacity :: "('w, 'd, 'h) get_callback" where
  "get_sys_mem_heap_capacity k = Some (k, VU64 (kh_total_bytes (km_heap (kw_km (fst k)))))"

definition get_sys_mem_heap_subheaps :: "('w, 'd, 'h) get_callback" where
  "get_sys_mem_heap_subheaps k = Some (k, VU64 (ucast (kh_subheap_count (km_heap (kw_km (fst k))))))"

definition get_sys_power_state :: "('w, 'd, 'h) get_callback" where
  "get_sys_power_state k = Some (k, VEnum (kw_power_state (fst k)))"

definition set_sys_power_state :: "('w, 'd, 'h) set_callback" where
  "set_sys_power_state k v = (case v of VEnum i \<Rightarrow> if i > 2 then (k, False) else (((fst k)\<lparr>kw_power_state := i\<rparr>, snd k), True) | _ \<Rightarrow> (k, False))"

definition get_sys_log_route :: "('w, 'd, 'h) get_callback" where
  "get_sys_log_route k = Some (k, VEnum (kw_log_route (fst k)))"

definition set_sys_log_route :: "('w, 'd, 'h) set_callback" where
  "set_sys_log_route k v = (case v of VEnum i \<Rightarrow> if i > 2 then (k, False) else (((fst k)\<lparr>kw_log_route := i\<rparr>, snd k), True) | _ \<Rightarrow> (k, False))"

text \<open>A value taken from \<open>fs::query_info\<close>.\<close>

definition from_fs_info :: "(runtime_info \<Rightarrow> KVal) \<Rightarrow> ('w, 'd, 'h) get_callback" where
  "from_fs_info f k = (let (s, info) = query_info (kw_fs (fst k)) in Some (((fst k)\<lparr>kw_fs := s\<rparr>, snd k), f info))"

definition get_fs_active_backend :: "('w, 'd, 'h) get_callback" where "get_fs_active_backend = from_fs_info (from_str \<circ> ri_active_backend)"
definition get_fs_fallback_ready :: "('w, 'd, 'h) get_callback" where "get_fs_fallback_ready = from_fs_info (VBool \<circ> ri_fallback_ready)"
definition get_fs_mounted :: "('w, 'd, 'h) get_callback" where "get_fs_mounted = from_fs_info (VBool \<circ> ri_mounted)"
definition get_fs_writable :: "('w, 'd, 'h) get_callback" where "get_fs_writable = from_fs_info (VBool \<circ> ri_writable)"
definition get_fs_block_device :: "('w, 'd, 'h) get_callback" where "get_fs_block_device = from_fs_info (from_str \<circ> ri_block_device)"
definition get_fs_root_path :: "('w, 'd, 'h) get_callback" where "get_fs_root_path = from_fs_info (from_str \<circ> ri_logical_root_path)"
definition get_fs_cluster_size :: "('w, 'd, 'h) get_callback" where "get_fs_cluster_size = from_fs_info (\<lambda>i. VU64 (ucast (ri_cluster_size i)))"
definition get_fs_root_cluster :: "('w, 'd, 'h) get_callback" where "get_fs_root_cluster = from_fs_info (\<lambda>i. VU64 (ucast (ri_root_cluster i)))"

definition core_nodes :: "('w, 'd, 'h) node_definition list" where
  "core_nodes =
     [plain_node id_root None [] TStruct,
      plain_node id_sys (Some id_root) ''sys'' TStruct,
      plain_node id_sys_cpu (Some id_sys) ''cpu'' TStruct,
      (plain_node id_sys_cpu_count (Some id_sys_cpu) ''count'' TU64)\<lparr>df_get := Some get_sys_cpu_count\<rparr>,
      (plain_node id_sys_cpu_ticks (Some id_sys_cpu) ''ticks'' TU64)\<lparr>df_volatile := True, df_get := Some get_sys_cpu_ticks\<rparr>,
      plain_node id_sys_mem (Some id_sys) ''mem'' TStruct,
      (plain_node id_sys_mem_total_kb (Some id_sys_mem) ''total_kb'' TU64)\<lparr>df_unit := ''kb'', df_get := Some get_sys_mem_total_kb\<rparr>,
      (plain_node id_sys_mem_free_kb (Some id_sys_mem) ''free_kb'' TU64)\<lparr>df_volatile := True, df_unit := ''kb'', df_get := Some get_sys_mem_free_kb\<rparr>,
      (plain_node id_sys_mem_heap_used (Some id_sys_mem) ''heap_used'' TU64)\<lparr>df_volatile := True, df_unit := ''bytes'', df_get := Some get_sys_mem_heap_used\<rparr>,
      (plain_node id_sys_mem_heap_capacity (Some id_sys_mem) ''heap_capacity'' TU64)\<lparr>df_volatile := True, df_unit := ''bytes'', df_get := Some get_sys_mem_heap_capacity\<rparr>,
      (plain_node id_sys_mem_heap_subheaps (Some id_sys_mem) ''heap_subheaps'' TU64)\<lparr>df_volatile := True, df_unit := ''count'', df_get := Some get_sys_mem_heap_subheaps\<rparr>,
      plain_node id_sys_power (Some id_sys) ''power'' TStruct,
      (plain_node id_sys_power_state (Some id_sys_power) ''state'' TEnum)\<lparr>df_writable := True, df_cap_mask := 0x03, df_get := Some get_sys_power_state, df_set := Some set_sys_power_state, df_labels := kPowerStateLabels\<rparr>,
      plain_node id_sys_log (Some id_sys) ''log'' TStruct,
      (plain_node id_sys_log_route (Some id_sys_log) ''route'' TEnum)\<lparr>df_writable := True, df_cap_mask := 0x03, df_get := Some get_sys_log_route, df_set := Some set_sys_log_route, df_labels := kLogRouteLabels\<rparr>,
      plain_node id_fs (Some id_root) ''fs'' TStruct,
      (plain_node id_fs_active_backend (Some id_fs) ''active_backend'' TStr)\<lparr>df_get := Some get_fs_active_backend\<rparr>,
      (plain_node id_fs_fallback_ready (Some id_fs) ''fallback_ready'' TBool)\<lparr>df_get := Some get_fs_fallback_ready\<rparr>,
      (plain_node id_fs_mounted (Some id_fs) ''mounted'' TBool)\<lparr>df_get := Some get_fs_mounted\<rparr>,
      (plain_node id_fs_writable (Some id_fs) ''writable'' TBool)\<lparr>df_get := Some get_fs_writable\<rparr>,
      (plain_node id_fs_block_device (Some id_fs) ''block_device'' TStr)\<lparr>df_get := Some get_fs_block_device\<rparr>,
      (plain_node id_fs_root_path (Some id_fs) ''root_path'' TStr)\<lparr>df_get := Some get_fs_root_path\<rparr>,
      (plain_node id_fs_cluster_size (Some id_fs) ''cluster_size'' TU64)\<lparr>df_unit := ''bytes'', df_get := Some get_fs_cluster_size\<rparr>,
      (plain_node id_fs_root_cluster (Some id_fs) ''root_cluster'' TU64)\<lparr>df_get := Some get_fs_root_cluster\<rparr>]"

section \<open>Static leaves: processes\<close>

definition kProcStateLabels :: "string list" where "kProcStateLabels = [''ready'', ''running'', ''blocked'', ''terminated'']"

definition kProcFields :: "(string \<times> KTag) list" where
  "kProcFields = [(''id'', TU64), (''state'', TEnum), (''cpu'', TI64), (''cpu_ticks'', TU64), (''name'', TStr)]"

definition get_proc_count :: "('w, 'd, 'h) get_callback" where
  "get_proc_count k = Some (k, VU64 (word_of_nat (snd (snapshot_tasks (kw_sched (fst k)) None))))"

definition proc_nodes :: "('w, 'd, 'h) node_definition list" where
  "proc_nodes =
     [plain_node id_proc (Some id_root) ''proc'' TStruct,
      (plain_node id_proc_count (Some id_proc) ''count'' TU64)\<lparr>df_volatile := True, df_get := Some get_proc_count\<rparr>,
      plain_node id_proc_pid None ''<pid>'' TStruct,
      plain_node id_proc_pid_id None ''id'' TU64,
      (plain_node id_proc_pid_state None ''state'' TEnum)\<lparr>df_labels := kProcStateLabels\<rparr>,
      (plain_node id_proc_pid_cpu None ''cpu'' TI64)\<lparr>df_volatile := True\<rparr>,
      (plain_node id_proc_pid_cpu_ticks None ''cpu_ticks'' TU64)\<lparr>df_volatile := True\<rparr>,
      plain_node id_proc_pid_name None ''name'' TStr]"

section \<open>Static leaves: devices\<close>

definition kBlockFields :: "(string \<times> KTag) list" where
  "kBlockFields = [(''name'', TStr), (''size_kb'', TU64), (''block_size'', TU64), (''removable'', TBool)]"

definition kPciFields :: "(string \<times> KTag) list" where
  "kPciFields = [(''bus'', TU64), (''device'', TU64), (''function'', TU64), (''vendor_id'', TU64), (''device_id'', TU64), (''class_code'', TU64),
     (''subclass'', TU64), (''prog_if'', TU64), (''revision'', TU64), (''irq_line'', TU64)]"

definition get_dev_block_count :: "('w, 'd, 'h) get_callback" where
  "get_dev_block_count k = Some (k, VU64 (word_of_nat (block_device_count (fs_blocks (kw_fs (fst k))))))"

definition get_dev_pci_count :: "('w, 'd, 'h) get_callback" where
  "get_dev_pci_count k = Some (k, VU64 (word_of_nat (pci_device_count (kw_pci (fst k)))))"

definition get_sound_active_driver :: "('w, 'd, 'h) get_callback" where
  "get_sound_active_driver k =
     Some (k, from_str (case snd_active (kw_sound (fst k)) of Some drv \<Rightarrow> drv_name drv | None \<Rightarrow> ''(none)''))"

definition get_sound_initialized :: "('w, 'd, 'h) get_callback" where
  "get_sound_initialized k = Some (k, VBool (snd_initialised (kw_sound (fst k))))"

definition get_sound_playing :: "('w, 'd, 'h) get_callback" where
  "get_sound_playing k = (let (w, playing) = on_sound sound_is_playing (fst k) in Some ((w, snd k), VBool playing))"

definition get_sound_sample_rate :: "('w, 'd, 'h) get_callback" where
  "get_sound_sample_rate k = Some (k, VU64 (ucast (snd_requested_sample_rate (kw_sound (fst k)))))"

definition get_sound_volume_left :: "('w, 'd, 'h) get_callback" where
  "get_sound_volume_left k = Some (k, VU64 (ucast (snd_volume_left (kw_sound (fst k)))))"

definition get_sound_volume_right :: "('w, 'd, 'h) get_callback" where
  "get_sound_volume_right k = Some (k, VU64 (ucast (snd_volume_right (kw_sound (fst k)))))"

definition get_sound_mix_channels_active :: "('w, 'd, 'h) get_callback" where
  "get_sound_mix_channels_active k =
     (let (w, count) = on_sound active_mix_channels (fst k) in Some ((w, snd k), VU64 (word_of_nat count)))"

definition device_nodes :: "('w, 'd, 'h) node_definition list" where
  "device_nodes =
     [plain_node id_dev (Some id_root) ''dev'' TStruct,
      plain_node id_dev_block (Some id_dev) ''block'' TStruct,
      (plain_node id_dev_block_count (Some id_dev_block) ''count'' TU64)\<lparr>df_get := Some get_dev_block_count\<rparr>,
      plain_node id_dev_block_entry None ''<device>'' TStruct,
      plain_node id_dev_block_entry_name None ''name'' TStr,
      (plain_node id_dev_block_entry_size_kb None ''size_kb'' TU64)\<lparr>df_unit := ''kb''\<rparr>,
      (plain_node id_dev_block_entry_block_size None ''block_size'' TU64)\<lparr>df_unit := ''bytes''\<rparr>,
      plain_node id_dev_block_entry_removable None ''removable'' TBool,
      plain_node id_dev_pci (Some id_dev) ''pci'' TStruct,
      (plain_node id_dev_pci_count (Some id_dev_pci) ''count'' TU64)\<lparr>df_get := Some get_dev_pci_count\<rparr>,
      plain_node id_dev_pci_entry None ''<device>'' TStruct,
      plain_node id_dev_pci_entry_bus None ''bus'' TU64,
      plain_node id_dev_pci_entry_device None ''device'' TU64,
      plain_node id_dev_pci_entry_function None ''function'' TU64,
      plain_node id_dev_pci_entry_vendor_id None ''vendor_id'' TU64,
      plain_node id_dev_pci_entry_device_id None ''device_id'' TU64,
      plain_node id_dev_pci_entry_class_code None ''class_code'' TU64,
      plain_node id_dev_pci_entry_subclass None ''subclass'' TU64,
      plain_node id_dev_pci_entry_prog_if None ''prog_if'' TU64,
      plain_node id_dev_pci_entry_revision None ''revision'' TU64,
      plain_node id_dev_pci_entry_irq_line None ''irq_line'' TU64,
      plain_node id_dev_sound (Some id_dev) ''sound'' TStruct,
      (plain_node id_dev_sound_active_driver (Some id_dev_sound) ''active_driver'' TStr)\<lparr>df_volatile := True, df_get := Some get_sound_active_driver\<rparr>,
      (plain_node id_dev_sound_initialized (Some id_dev_sound) ''initialized'' TBool)\<lparr>df_volatile := True, df_get := Some get_sound_initialized\<rparr>,
      (plain_node id_dev_sound_playing (Some id_dev_sound) ''playing'' TBool)\<lparr>df_volatile := True, df_get := Some get_sound_playing\<rparr>,
      (plain_node id_dev_sound_sample_rate (Some id_dev_sound) ''sample_rate'' TU64)\<lparr>df_volatile := True, df_unit := ''hz'', df_get := Some get_sound_sample_rate\<rparr>,
      (plain_node id_dev_sound_volume_left (Some id_dev_sound) ''volume_left'' TU64)\<lparr>df_volatile := True, df_unit := ''level'', df_get := Some get_sound_volume_left\<rparr>,
      (plain_node id_dev_sound_volume_right (Some id_dev_sound) ''volume_right'' TU64)\<lparr>df_volatile := True, df_unit := ''level'', df_get := Some get_sound_volume_right\<rparr>,
      (plain_node id_dev_sound_mix_channels_active (Some id_dev_sound) ''mix_channels_active'' TU64)\<lparr>df_volatile := True, df_unit := ''count'', df_get := Some get_sound_mix_channels_active\<rparr>]"

section \<open>Static leaves: network\<close>

definition kNetFields :: "(string \<times> KTag) list" where
  "kNetFields = [(''name'', TStr), (''mac'', TStr), (''mtu'', TU64), (''link_up'', TBool), (''ipv4_address'', TStr)]"

definition kArpEntryFields :: "(string \<times> KTag) list" where
  "kArpEntryFields = [(''ip'', TStr), (''mac'', TStr)]"

definition get_dev_net_count :: "('w, 'd, 'h) get_callback" where
  "get_dev_net_count k = Some (k, VU64 (word_of_nat (device_count (kw_net (fst k)))))"

definition get_net_device_count :: "('w, 'd, 'h) get_callback" where
  "get_net_device_count k = Some (k, VU64 (word_of_nat (device_count (kw_net (fst k)))))"

definition get_net_primary_device :: "('w, 'd, 'h) get_callback" where
  "get_net_primary_device k =
     (let net = kw_net (fst k) in
      Some (k, from_str (case primary_device net of Some d \<Rightarrow> nd_name (device net d) | None \<Rightarrow> ''(none)'')))"

definition get_net_background_rx :: "('w, 'd, 'h) get_callback" where
  "get_net_background_rx k = Some (k, VBool (background_rx_running (kw_net (fst k))))"

fun count_configured :: "net_state \<Rightarrow> nat list \<Rightarrow> nat \<Rightarrow> net_state \<times> nat" where
  "count_configured s [] count = (s, count)"
| "count_configured s (i # is) count =
     (case get_device s i of
        None \<Rightarrow> count_configured s is count
      | Some d \<Rightarrow>
          let (c, ip) = configured_address (net_configs s) (Some d) in
          count_configured (s\<lparr>net_configs := c\<rparr>) is (if ip \<noteq> None then count + 1 else count))"

definition get_net_ipv4_configured_count :: "('w, 'd, 'h) get_callback" where
  "get_net_ipv4_configured_count k =
     (let (net, count) = count_configured (kw_net (fst k)) [0..<device_count (kw_net (fst k))] 0
      in Some (((fst k)\<lparr>kw_net := net\<rparr>, snd k), VU64 (word_of_nat count)))"

definition get_net_arp_count :: "('w, 'd, 'h) get_callback" where
  "get_net_arp_count k =
     (let (c, count) = cache_entry_count (net_arp (kw_net (fst k)))
      in Some (((fst k)\<lparr>kw_net := (kw_net (fst k))\<lparr>net_arp := c\<rparr>\<rparr>, snd k), VU64 (word_of_nat count)))"

definition network_nodes :: "('w, 'd, 'h) node_definition list" where
  "network_nodes =
     [plain_node id_dev_net (Some id_dev) ''net'' TStruct,
      (plain_node id_dev_net_count (Some id_dev_net) ''count'' TU64)\<lparr>df_get := Some get_dev_net_count\<rparr>,
      plain_node id_dev_net_entry None ''<device>'' TStruct,
      plain_node id_dev_net_entry_name None ''name'' TStr,
      plain_node id_dev_net_entry_mac None ''mac'' TStr,
      (plain_node id_dev_net_entry_mtu None ''mtu'' TU64)\<lparr>df_unit := ''bytes''\<rparr>,
      (plain_node id_dev_net_entry_link_up None ''link_up'' TBool)\<lparr>df_volatile := True\<rparr>,
      (plain_node id_dev_net_entry_ipv4_address None ''ipv4_address'' TStr)\<lparr>df_volatile := True\<rparr>,
      plain_node id_net (Some id_root) ''net'' TStruct,
      (plain_node id_net_device_count (Some id_net) ''device_count'' TU64)\<lparr>df_unit := ''count'', df_get := Some get_net_device_count\<rparr>,
      (plain_node id_net_primary_device (Some id_net) ''primary_device'' TStr)\<lparr>df_volatile := True, df_get := Some get_net_primary_device\<rparr>,
      (plain_node id_net_background_rx (Some id_net) ''background_rx'' TBool)\<lparr>df_volatile := True, df_get := Some get_net_background_rx\<rparr>,
      plain_node id_net_ipv4 (Some id_net) ''ipv4'' TStruct,
      (plain_node id_net_ipv4_configured_count (Some id_net_ipv4) ''configured_count'' TU64)\<lparr>df_volatile := True, df_unit := ''count'', df_get := Some get_net_ipv4_configured_count\<rparr>,
      plain_node id_net_arp (Some id_net) ''arp'' TStruct,
      (plain_node id_net_arp_count (Some id_net_arp) ''count'' TU64)\<lparr>df_volatile := True, df_unit := ''count'', df_get := Some get_net_arp_count\<rparr>,
      plain_node id_net_arp_entry None ''<entry>'' TStruct,
      plain_node id_net_arp_entry_ip None ''ip'' TStr,
      plain_node id_net_arp_entry_mac None ''mac'' TStr]"

section \<open>Static leaves: drivers\<close>

definition kDriverTypeLabels :: "string list" where
  "kDriverTypeLabels = [''none'', ''sound'', ''block'', ''network'', ''filesystem'']"

definition kDriverFields :: "(string \<times> KTag) list" where
  "kDriverFields = [(''name'', TStr), (''type'', TEnum), (''loaded'', TBool)]"

definition get_driver_registered_count :: "('w, 'd, 'h) get_callback" where
  "get_driver_registered_count k = Some (k, VU64 (word_of_nat (registered_count (snd k))))"

definition get_driver_loaded_count :: "('w, 'd, 'h) get_callback" where
  "get_driver_loaded_count k =
     Some (k, VU64 (word_of_nat (length (filter
        (\<lambda>i. case get_registered (snd k) i of None \<Rightarrow> False | Some desc \<Rightarrow> driver_is_loaded (snd k) (Some (dd_name desc))) [0..<registered_count (snd k)]))))"

primrec driver_type_index :: "driver_type \<Rightarrow> u32" where
  "driver_type_index type_none = 0" | "driver_type_index type_sound = 1" | "driver_type_index type_block = 2"
| "driver_type_index type_network = 3" | "driver_type_index type_filesystem = 4"

definition driver_nodes :: "('w, 'd, 'h) node_definition list" where
  "driver_nodes =
     [plain_node id_driver (Some id_root) ''driver'' TStruct,
      (plain_node id_driver_registered_count (Some id_driver) ''registered_count'' TU64)\<lparr>df_unit := ''count'', df_get := Some get_driver_registered_count\<rparr>,
      (plain_node id_driver_loaded_count (Some id_driver) ''loaded_count'' TU64)\<lparr>df_volatile := True, df_unit := ''count'', df_get := Some get_driver_loaded_count\<rparr>,
      plain_node id_driver_entry None ''<driver>'' TStruct,
      plain_node id_driver_entry_name None ''name'' TStr,
      (plain_node id_driver_entry_type None ''type'' TEnum)\<lparr>df_labels := kDriverTypeLabels\<rparr>,
      (plain_node id_driver_entry_loaded None ''loaded'' TBool)\<lparr>df_volatile := True\<rparr>]"

section \<open>The tree\<close>

record ('w, 'd, 'h) kobj =
  ko_nodes :: "('w, 'd, 'h) ktree"
  ko_initialized :: bool
  ko_sys :: "('w, 'd, 'h) ksys"

definition kobj_init :: "('w, 'd, 'h) kobj \<Rightarrow> ('w, 'd, 'h) kobj option" where
  "kobj_init ob =
     (if ko_initialized ob then Some ob
      else map_option (\<lambda>t. ob\<lparr>ko_nodes := t, ko_initialized := True\<rparr>)
             (register_nodes (ko_nodes ob) (core_nodes @ proc_nodes @ device_nodes @ network_nodes @ driver_nodes)))"

end
