(* ===== verification/KPaths.thy ===== *)
theory KPaths
  imports KTree
begin

text \<open>
  The dynamic subtrees of src/core/kobj: processes (proc.cpp), block and PCI devices (devices.cpp),
  network devices and the ARP cache (network.cpp) and drivers (driver.cpp). A path below one of
  them names an entry that exists only while the kernel has it; what the path resolves to carries
  the entry along. Looking at the ARP cache or at the configured addresses may initialise them.
\<close>

section \<open>Resolved nodes\<close>

datatype virtual_kind = kind_none | kind_proc_task | kind_block_device | kind_pci_device | kind_net_device | kind_arp_entry | kind_driver_entry

record ('w, 'd, 'h) resolved_node =
  rn_node :: "knode_id option"
  rn_kind :: virtual_kind
  rn_task :: "task_snapshot option"
  rn_block :: "'w block_device option"
  rn_pci :: "pci_device option"
  rn_net :: "nat option"
  rn_arp :: "(ipv4_address \<times> mac_address) option"
  rn_driver :: "('w, 'd, 'h) driver_descriptor option"
  rn_name :: "string option"

definition no_node :: "('w, 'd, 'h) resolved_node" where
  "no_node = \<lparr>rn_node = None, rn_kind = kind_none, rn_task = None, rn_block = None, rn_pci = None, rn_net = None, rn_arp = None, rn_driver = None,
     rn_name = None\<rparr>"

definition make_resolved :: "knode_id \<Rightarrow> ('w, 'd, 'h) resolved_node" where
  "make_resolved n = no_node\<lparr>rn_node := Some n\<rparr>"

text \<open>The comparisons of the rest of a path with the names of the leaves.\<close>

definition pick_leaf :: "('w, 'd, 'h) resolved_node \<Rightarrow> string \<Rightarrow> (string \<times> knode_id) list \<Rightarrow> ('w, 'd, 'h) resolved_node" where
  "pick_leaf r tail leaves = (case find (\<lambda>(name, n). sv_compare tail name) leaves of Some (_, n) \<Rightarrow> r\<lparr>rn_node := Some n\<rparr> | None \<Rightarrow> no_node)"

text \<open>What follows once the entry is known: the entry itself, or one of its leaves.\<close>

definition entry_or_leaf :: "('w, 'd, 'h) resolved_node \<Rightarrow> string \<Rightarrow> nat \<Rightarrow> (string \<times> knode_id) list \<Rightarrow> ('w, 'd, 'h) resolved_node" where
  "entry_or_leaf r p seg_end leaves =
     (if seg_end \<ge> length p then r
      else if p ! seg_end \<noteq> CHR ''/'' then no_node
      else pick_leaf r (drop (seg_end + 1) p) leaves)"

definition path_segment :: "string \<Rightarrow> string" where
  "path_segment p = takeWhile (\<lambda>c. c \<noteq> CHR ''/'') p"

section \<open>Paths\<close>

definition resolve_proc_path :: "sched \<Rightarrow> string \<Rightarrow> ('w, 'd, 'h) resolved_node" where
  "resolve_proc_path s path =
     (if \<not> sv_starts_with path ''proc'' then no_node
      else
        let p = sv_remove_prefix path 4 in
        if p = [] then make_resolved id_proc
        else if hd p \<noteq> CHR ''/'' then no_node
        else
          let p = sv_remove_prefix p 1 in
          if p = [] then make_resolved id_proc
          else if sv_compare p ''count'' then make_resolved id_proc_count
          else
            let seg = path_segment p in
            case parse_u64_segment seg of
              None \<Rightarrow> no_node
            | Some pid \<Rightarrow>
                (case snapshot_task s pid of
                   None \<Rightarrow> no_node
                 | Some snapshot \<Rightarrow>
                     entry_or_leaf ((make_resolved id_proc_pid)\<lparr>rn_kind := kind_proc_task, rn_task := Some snapshot, rn_name := Some (kstr_set seg)\<rparr>)
                       p (length seg)
                       [(''id'', id_proc_pid_id), (''state'', id_proc_pid_state), (''cpu'', id_proc_pid_cpu), (''cpu_ticks'', id_proc_pid_cpu_ticks),
                        (''name'', id_proc_pid_name)]))"

definition resolve_block_path :: "'w block_registry \<Rightarrow> string \<Rightarrow> ('w, 'd, 'h) resolved_node" where
  "resolve_block_path r path =
     (if \<not> sv_starts_with path ''dev/block/'' then no_node
      else
        let p = sv_remove_prefix path 10 in
        if p = [] then make_resolved id_dev_block
        else
          let seg = path_segment p in
          if length seg \<ge> KSTR_MAX then no_node
          else
            case block_find r (c_str seg) of
              None \<Rightarrow> no_node
            | Some dev \<Rightarrow>
                entry_or_leaf ((make_resolved id_dev_block_entry)\<lparr>rn_kind := kind_block_device, rn_block := Some dev, rn_name := Some (kstr_set seg)\<rparr>)
                  p (length seg)
                  [(''name'', id_dev_block_entry_name), (''size_kb'', id_dev_block_entry_size_kb), (''block_size'', id_dev_block_entry_block_size),
                   (''removable'', id_dev_block_entry_removable)])"

definition resolve_pci_path :: "pci_table \<Rightarrow> string \<Rightarrow> ('w, 'd, 'h) resolved_node" where
  "resolve_pci_path t path =
     (if \<not> sv_starts_with path ''dev/pci/'' then no_node
      else
        let p = sv_remove_prefix path 8 in
        if p = [] then make_resolved id_dev_pci
        else if sv_compare p ''count'' then make_resolved id_dev_pci_count
        else
          let seg = path_segment p in
          case parse_u64_segment seg of
            None \<Rightarrow> no_node
          | Some index \<Rightarrow>
              (case pci_get_device t (unat index) of
                 None \<Rightarrow> no_node
               | Some dev \<Rightarrow>
                   entry_or_leaf ((make_resolved id_dev_pci_entry)\<lparr>rn_kind := kind_pci_device, rn_pci := Some dev, rn_name := Some (kstr_set seg)\<rparr>)
                     p (length seg)
                     [(''bus'', id_dev_pci_entry_bus), (''device'', id_dev_pci_entry_device), (''function'', id_dev_pci_entry_function),
                      (''vendor_id'', id_dev_pci_entry_vendor_id), (''device_id'', id_dev_pci_entry_device_id),
                      (''class_code'', id_dev_pci_entry_class_code), (''subclass'', id_dev_pci_entry_subclass),
                      (''prog_if'', id_dev_pci_entry_prog_if), (''revision'', id_dev_pci_entry_revision), (''irq_line'', id_dev_pci_entry_irq_line)]))"

definition resolve_net_device_path :: "net_state \<Rightarrow> string \<Rightarrow> ('w, 'd, 'h) resolved_node" where
  "resolve_net_device_path s path =
     (if \<not> sv_starts_with path ''dev/net/'' then no_node
      else
        let p = sv_remove_prefix path 8 in
        if p = [] then make_resolved id_dev_net
        else if sv_compare p ''count'' then make_resolved id_dev_net_count
        else
          let seg = path_segment p in
          if length seg \<ge> KSTR_MAX then no_node
          else
            case net_find s (c_str seg) of
              None \<Rightarrow> no_node
            | Some dev \<Rightarrow>
                entry_or_leaf ((make_resolved id_dev_net_entry)\<lparr>rn_kind := kind_net_device, rn_net := Some dev, rn_name := Some (kstr_set seg)\<rparr>)
                  p (length seg)
                  [(''name'', id_dev_net_entry_name), (''mac'', id_dev_net_entry_mac), (''mtu'', id_dev_net_entry_mtu),
                   (''link_up'', id_dev_net_entry_link_up), (''ipv4_address'', id_dev_net_entry_ipv4_address)])"

definition resolve_net_stack_path :: "net_state \<Rightarrow> string \<Rightarrow> net_state \<times> ('w, 'd, 'h) resolved_node" where
  "resolve_net_stack_path s path =
     (if \<not> sv_starts_with path ''net'' then (s, no_node)
      else
        let p = sv_remove_prefix path 3 in
        if p = [] then (s, make_resolved id_net)
        else if hd p \<noteq> CHR ''/'' then (s, no_node)
        else
          let p = sv_remove_prefix p 1 in
          if p = [] then (s, make_resolved id_net)
          else
            case find (\<lambda>(name, n). sv_compare p name)
                   [(''device_count'', id_net_device_count), (''primary_device'', id_net_primary_device), (''background_rx'', id_net_background_rx),
                    (''ipv4'', id_net_ipv4), (''ipv4/configured_count'', id_net_ipv4_configured_count), (''arp'', id_net_arp),
                    (''arp/count'', id_net_arp_count)] of
              Some (_, n) \<Rightarrow> (s, make_resolved n)
            | None \<Rightarrow>
                if \<not> sv_starts_with p ''arp/'' then (s, no_node)
                else
                  let p = sv_remove_prefix p 4; seg = path_segment p in
                  case parse_u64_segment seg of
                    None \<Rightarrow> (s, no_node)
                  | Some index \<Rightarrow>
                      let (c, entry) = cache_entry (net_arp s) (unat index); s = s\<lparr>net_arp := c\<rparr> in
                      case entry of
                        None \<Rightarrow> (s, no_node)
                      | Some e \<Rightarrow>
                          (s, entry_or_leaf ((make_resolved id_net_arp_entry)\<lparr>rn_kind := kind_arp_entry, rn_arp := Some e, rn_name := Some (kstr_set seg)\<rparr>)
                                p (length seg) [(''ip'', id_net_arp_entry_ip), (''mac'', id_net_arp_entry_mac)]))"

definition resolve_driver_path :: "('w, 'd, 'h) driver_registry \<Rightarrow> string \<Rightarrow> ('w, 'd, 'h) resolved_node" where
  "resolve_driver_path r path =
     (if \<not> sv_starts_with path ''driver/'' then no_node
      else
        let p = sv_remove_prefix path 7 in
        if p = [] then make_resolved id_driver
        else if sv_compare p ''registered_count'' then make_resolved id_driver_registered_count
        else if sv_compare p ''loaded_count'' then make_resolved id_driver_loaded_count
        else
          let seg = path_segment p in
          if length seg \<ge> KSTR_MAX then no_node
          else
            case driver_find r (c_str seg) of
              None \<Rightarrow> no_node
            | Some desc \<Rightarrow>
                entry_or_leaf ((make_resolved id_driver_entry)\<lparr>rn_kind := kind_driver_entry, rn_driver := Some desc, rn_name := Some (kstr_set seg)\<rparr>)
                  p (length seg) [(''name'', id_driver_entry_name), (''type'', id_driver_entry_type), (''loaded'', id_driver_entry_loaded)])"

section \<open>Values of dynamic leaves\<close>

primrec task_state_index :: "task_state \<Rightarrow> u32" where
  "task_state_index ready = 0" | "task_state_index running = 1" | "task_state_index blocked = 2" | "task_state_index terminated = 3"

definition proc_query_value :: "('w, 'd, 'h) resolved_node \<Rightarrow> KVal" where
  "proc_query_value r =
     (case (rn_task r, rn_node r) of
        (Some t, Some n) \<Rightarrow>
          if n = id_proc_pid_id then VU64 (sn_id t)
          else if n = id_proc_pid_state then VEnum (task_state_index (sn_state t))
          else if n = id_proc_pid_cpu then VI64 (if sn_cpu t = SCHED_CPU_NONE then - 1 else ucast (sn_cpu t))
          else if n = id_proc_pid_cpu_ticks then VU64 (sn_cpu_ticks t)
          else if n = id_proc_pid_name then from_str (c_str (take 32 (sn_name t)))
          else err ''node is not readable''
      | _ \<Rightarrow> err ''path not found'')"

definition pci_value :: "pci_device \<Rightarrow> knode_id \<Rightarrow> KVal option" where
  "pci_value d n =
     (if n = id_dev_pci_entry_bus then Some (VU64 (ucast (pa_bus (pd_addr d))))
      else if n = id_dev_pci_entry_device then Some (VU64 (ucast (pa_device (pd_addr d))))
      else if n = id_dev_pci_entry_function then Some (VU64 (ucast (pa_function (pd_addr d))))
      else if n = id_dev_pci_entry_vendor_id then Some (VU64 (ucast (pd_vendor_id d)))
      else if n = id_dev_pci_entry_device_id then Some (VU64 (ucast (pd_device_id d)))
      else if n = id_dev_pci_entry_class_code then Some (VU64 (ucast (pd_class_code d)))
      else if n = id_dev_pci_entry_subclass then Some (VU64 (ucast (pd_subclass d)))
      else if n = id_dev_pci_entry_prog_if then Some (VU64 (ucast (pd_prog_if d)))
      else if n = id_dev_pci_entry_revision then Some (VU64 (ucast (pd_revision d)))
      else if n = id_dev_pci_entry_irq_line then Some (VU64 (ucast (pd_irq_line d)))
      else None)"

definition block_value :: "'w block_device \<Rightarrow> knode_id \<Rightarrow> KVal option" where
  "block_value d n =
     (if n = id_dev_block_entry_name then Some (from_str (bd_name d))
      else if n = id_dev_block_entry_size_kb then Some (VU64 (bd_block_count d * ucast (bd_block_size d) div 1024))
      else if n = id_dev_block_entry_block_size then Some (VU64 (ucast (bd_block_size d)))
      else if n = id_dev_block_entry_removable then Some (VBool (bd_removable d))
      else None)"

definition device_query_value :: "('w, 'd, 'h) resolved_node \<Rightarrow> KVal" where
  "device_query_value r =
     (let v = (if rn_kind r = kind_block_device then do { d \<leftarrow> rn_block r; n \<leftarrow> rn_node r; block_value d n }
               else if rn_kind r = kind_pci_device then do { d \<leftarrow> rn_pci r; n \<leftarrow> rn_node r; pci_value d n }
               else None)
      in case v of Some v \<Rightarrow> v | None \<Rightarrow> err ''node is not readable'')"

definition format_mac_kval :: "mac_address \<Rightarrow> KVal" where
  "format_mac_kval mac = from_str (case format_mac mac 18 of Some s \<Rightarrow> s | None \<Rightarrow> [])"

definition format_ipv4_kval :: "ipv4_address \<Rightarrow> KVal" where
  "format_ipv4_kval ip = from_str (case format_ipv4 ip 16 of Some s \<Rightarrow> s | None \<Rightarrow> [])"

definition net_device_value :: "net_state \<Rightarrow> nat \<Rightarrow> knode_id \<Rightarrow> net_state \<times> KVal option" where
  "net_device_value s d n =
     (if n = id_dev_net_entry_name then (s, Some (from_str (nd_name (device s d))))
      else if n = id_dev_net_entry_mac then (s, Some (format_mac_kval (nd_mac (device s d))))
      else if n = id_dev_net_entry_mtu then (s, Some (VU64 (ucast (nd_mtu (device s d)))))
      else if n = id_dev_net_entry_link_up then (s, Some (VBool (nd_link_up (device s d))))
      else if n = id_dev_net_entry_ipv4_address then
        let (c, ip) = configured_address (net_configs s) (Some d)
        in (s\<lparr>net_configs := c\<rparr>, Some (case ip of None \<Rightarrow> from_str ''(unconfigured)'' | Some ip \<Rightarrow> format_ipv4_kval ip))
      else (s, None))"

definition arp_value :: "ipv4_address \<times> mac_address \<Rightarrow> knode_id \<Rightarrow> KVal option" where
  "arp_value e n =
     (if n = id_net_arp_entry_ip then Some (format_ipv4_kval (fst e))
      else if n = id_net_arp_entry_mac then Some (format_mac_kval (snd e))
      else None)"

definition network_query_value :: "net_state \<Rightarrow> ('w, 'd, 'h) resolved_node \<Rightarrow> net_state \<times> KVal" where
  "network_query_value s r =
     (let (s, v) = (case (rn_kind r, rn_net r, rn_node r) of
                      (kind_net_device, Some d, Some n) \<Rightarrow> net_device_value s d n
                    | (kind_arp_entry, _, Some n) \<Rightarrow> (s, Option.bind (rn_arp r) (\<lambda>e. arp_value e n))
                    | _ \<Rightarrow> (s, None))
      in (s, case v of Some v \<Rightarrow> v | None \<Rightarrow> err ''node is not readable''))"

definition driver_query_value :: "('w, 'd, 'h) driver_registry \<Rightarrow> ('w, 'd, 'h) resolved_node \<Rightarrow> KVal" where
  "driver_query_value reg r =
     (case (rn_node r, rn_driver r) of
        (Some n, Some desc) \<Rightarrow>
          if rn_kind r \<noteq> kind_driver_entry then err ''node is not readable''
          else if n = id_driver_entry_name then from_str (dd_name desc)
          else if n = id_driver_entry_type then VEnum (driver_type_index (dd_type desc))
          else if n = id_driver_entry_loaded then VBool (driver_is_loaded reg (Some (dd_name desc)))
          else err ''node is not readable''
      | _ \<Rightarrow> err ''node is not readable'')"

section \<open>Children\<close>

text \<open>The array \<open>out\<close> of child infos; its length is \<open>max_children\<close>.\<close>

type_synonym child_info = "string \<times> KTag"

definition append_child_info :: "child_info list \<Rightarrow> nat \<Rightarrow> string \<Rightarrow> KTag \<Rightarrow> child_info list" where
  "append_child_info out index name type = (if index \<ge> length out then out else out[index := (kstr_set name, type)])"

definition append_numeric_child_name :: "child_info list \<Rightarrow> nat \<Rightarrow> u64 \<Rightarrow> child_info list" where
  "append_numeric_child_name out index v =
     (if index \<ge> length out then out
      else out[index := (c_str (fst (render_u64 (replicate KSTR_MAX NUL, 0) v)), TStruct)])"

fun append_children_from :: "child_info list \<Rightarrow> nat \<Rightarrow> (string \<times> KTag) list \<Rightarrow> child_info list" where
  "append_children_from out index [] = out"
| "append_children_from out index ((name, type) # ds) = append_children_from (append_child_info out index name type) (index + 1) ds"

definition append_static_children :: "child_info list \<Rightarrow> (string \<times> KTag) list \<Rightarrow> child_info list \<times> nat" where
  "append_static_children out definitions = (append_children_from out 0 definitions, length definitions)"

fun append_ids_from :: "child_info list \<Rightarrow> nat \<Rightarrow> u64 list \<Rightarrow> child_info list" where
  "append_ids_from out index [] = out"
| "append_ids_from out index (v # vs) =
     (if index \<ge> length out then out else append_ids_from (append_numeric_child_name out index v) (index + 1) vs)"

fun append_names_from :: "child_info list \<Rightarrow> nat \<Rightarrow> string option list \<Rightarrow> child_info list" where
  "append_names_from out index [] = out"
| "append_names_from out index (name # names) =
     (if index \<ge> length out then out
      else append_names_from (case name of None \<Rightarrow> out | Some s \<Rightarrow> append_child_info out index s TStruct) (index + 1) names)"

definition proc_list_children :: "sched \<Rightarrow> knode_id \<Rightarrow> child_info list \<Rightarrow> child_info list \<times> nat" where
  "proc_list_children s n out =
     (if n = id_proc then
        let task_count = snd (snapshot_tasks s None);
            out = append_child_info out 0 ''count'' TU64
        in if length out \<le> 1 then (out, 1 + task_count)
           else
             let captured = fst (snapshot_tasks s (Some MAX_TASKS))
             in (append_ids_from out 1 (map sn_id captured), 1 + task_count)
      else append_static_children out kProcFields)"

definition device_list_children :: "('w, 'd, 'h) kworld \<Rightarrow> knode_id \<Rightarrow> child_info list \<Rightarrow> child_info list \<times> nat" where
  "device_list_children w n out =
     (if n = id_dev_block then
        let reg = fs_blocks (kw_fs w); count = block_device_count reg;
            out = append_child_info out 0 ''count'' TU64
        in (append_names_from out 1 (map (\<lambda>i. map_option bd_name (block_get_device reg i)) [0..<count]), 1 + count)
      else if n = id_dev_pci then
        let count = pci_device_count (kw_pci w);
            out = append_child_info out 0 ''count'' TU64
        in (append_ids_from out 1 (map word_of_nat [0..<count]), 1 + count)
      else if n = id_dev_block_entry then append_static_children out kBlockFields
      else append_static_children out kPciFields)"

definition network_list_children :: "net_state \<Rightarrow> knode_id \<Rightarrow> child_info list \<Rightarrow> net_state \<times> child_info list \<times> nat" where
  "network_list_children s n out =
     (if n = id_dev_net then
        let count = device_count s;
            out = append_child_info out 0 ''count'' TU64
        in (s, append_names_from out 1 (map (\<lambda>i. map_option (\<lambda>d. nd_name (device s d)) (get_device s i)) [0..<count]), 1 + count)
      else if n = id_net_arp then
        let (c, count) = cache_entry_count (net_arp s);
            out = append_child_info out 0 ''count'' TU64
        in (s\<lparr>net_arp := c\<rparr>, append_ids_from out 1 (map word_of_nat [0..<count]), 1 + count)
      else if n = id_net_arp_entry then (s, append_static_children out kArpEntryFields)
      else (s, append_static_children out kNetFields))"

definition driver_list_children :: "('w, 'd, 'h) driver_registry \<Rightarrow> knode_id \<Rightarrow> child_info list \<Rightarrow> child_info list \<times> nat" where
  "driver_list_children r n out =
     (if n = id_driver then
        let count = registered_count r;
            out = append_child_info out 0 ''registered_count'' TU64;
            out = append_child_info out 1 ''loaded_count'' TU64
        in (append_names_from out 2 (map (\<lambda>i. map_option dd_name (get_registered r i)) [0..<count]), 2 + count)
      else append_static_children out kDriverFields)"

end
