(* ===== verification/KObj.thy ===== *)
theory KObj
  imports KPaths
begin

text \<open>
  The interface of the object tree, src/core/kobj/core.cpp: resolving a path, information about a
  node, reading, writing and listing, and the text forms. A path that may be null is an option.
  \<open>None\<close> as a result is the panic of \<open>attach\<close> or a callback that does not return.
\<close>

section \<open>Resolving\<close>

definition set_net :: "('w, 'd, 'h) kobj \<Rightarrow> net_state \<Rightarrow> ('w, 'd, 'h) kobj" where
  "set_net ob s = ob\<lparr>ko_sys := ((fst (ko_sys ob))\<lparr>kw_net := s\<rparr>, snd (ko_sys ob))\<rparr>"

text \<open>The walk over the registered nodes.\<close>

function walk_nodes :: "('w, 'd, 'h) ktree \<Rightarrow> knode_id \<Rightarrow> string \<Rightarrow> knode_id option" where
  "walk_nodes t n s =
     (if s = [] \<or> hd s = NUL then Some n
      else
        let seg = takeWhile (\<lambda>c. c \<noteq> CHR ''/'' \<and> c \<noteq> NUL) s in
        if seg = [] then walk_nodes t n (drop 1 s)
        else
          case find_child t n seg of
            None \<Rightarrow> None
          | Some found \<Rightarrow> walk_nodes t found (dropWhile (\<lambda>c. c = CHR ''/'') (drop (length seg) s)))"
  by pat_completeness auto
termination
proof (relation "measure (\<lambda>(t, n, s). length s)")
  show "((t, found, dropWhile (\<lambda>c. c = CHR ''/'') (drop (length seg) s)), t, n, s) \<in> measure (\<lambda>(t, n, s). length s)"
    if "\<not> (s = [] \<or> hd s = NUL)" "seg = takeWhile (\<lambda>c. c \<noteq> CHR ''/'' \<and> c \<noteq> NUL) s" "seg \<noteq> []" for t :: "('w, 'd, 'h) ktree" and n found s seg
    using length_dropWhile_le [of "\<lambda>c. c = CHR ''/''" "drop (length seg) s"] that by (cases s) auto
qed auto

declare walk_nodes.simps [simp del]

definition resolve_internal :: "('w, 'd, 'h) kobj \<Rightarrow> string option \<Rightarrow> (('w, 'd, 'h) kobj \<times> ('w, 'd, 'h) resolved_node) option" where
  "resolve_internal ob path =
     map_option (\<lambda>ob.
       case path of
         None \<Rightarrow> (ob, no_node)
       | Some path \<Rightarrow>
           let p = dropWhile (\<lambda>c. c = CHR ''/'') path; w = fst (ko_sys ob) in
           if p = [] \<or> hd p = NUL then (ob, make_resolved id_root)
           else
             let r = resolve_proc_path (kw_sched w) p in
             if rn_node r \<noteq> None then (ob, r)
             else
               let r = resolve_block_path (fs_blocks (kw_fs w)) p in
               if rn_node r \<noteq> None then (ob, r)
               else
                 let r = resolve_pci_path (kw_pci w) p in
                 if rn_node r \<noteq> None then (ob, r)
                 else
                   let r = resolve_net_device_path (kw_net w) p in
                   if rn_node r \<noteq> None then (ob, r)
                   else
                     let (net, r) = resolve_net_stack_path (kw_net w) p; ob = set_net ob net in
                     if rn_node r \<noteq> None then (ob, r)
                     else
                       let r = resolve_driver_path (snd (ko_sys ob)) p in
                       if rn_node r \<noteq> None then (ob, r)
                       else (ob, case walk_nodes (ko_nodes ob) id_root p of None \<Rightarrow> no_node | Some n \<Rightarrow> make_resolved n))
       (kobj_init ob)"

definition resolved_is_proc_leaf :: "('w, 'd, 'h) resolved_node \<Rightarrow> bool" where
  "resolved_is_proc_leaf r \<longleftrightarrow>
     (case (rn_task r, rn_node r) of (Some _, Some n) \<Rightarrow> n \<notin> {id_proc, id_proc_count, id_proc_pid} | _ \<Rightarrow> False)"

definition resolved_is_dynamic_leaf :: "('w, 'd, 'h) resolved_node \<Rightarrow> bool" where
  "resolved_is_dynamic_leaf r \<longleftrightarrow>
     (if resolved_is_proc_leaf r then True
      else
        case rn_kind r of
          kind_block_device \<Rightarrow> rn_node r \<noteq> None \<and> rn_node r \<noteq> Some id_dev_block
        | kind_pci_device \<Rightarrow> rn_node r \<noteq> None \<and> rn_node r \<noteq> Some id_dev_pci
        | kind_net_device \<Rightarrow> rn_node r \<noteq> None \<and> rn_node r \<noteq> Some id_dev_net
        | kind_arp_entry \<Rightarrow> rn_node r \<noteq> None \<and> rn_node r \<noteq> Some id_net_arp
        | kind_driver_entry \<Rightarrow> rn_node r \<noteq> None \<and> rn_node r \<noteq> Some id_driver
        | _ \<Rightarrow> False)"

definition query_dynamic_value :: "('w, 'd, 'h) kobj \<Rightarrow> ('w, 'd, 'h) resolved_node \<Rightarrow> ('w, 'd, 'h) kobj \<times> KVal" where
  "query_dynamic_value ob r =
     (if resolved_is_proc_leaf r then (ob, proc_query_value r)
      else
        case rn_kind r of
          kind_block_device \<Rightarrow> (ob, device_query_value r)
        | kind_pci_device \<Rightarrow> (ob, device_query_value r)
        | kind_net_device \<Rightarrow> (let (s, v) = network_query_value (kw_net (fst (ko_sys ob))) r in (set_net ob s, v))
        | kind_arp_entry \<Rightarrow> (let (s, v) = network_query_value (kw_net (fst (ko_sys ob))) r in (set_net ob s, v))
        | kind_driver_entry \<Rightarrow> (ob, driver_query_value (snd (ko_sys ob)) r)
        | _ \<Rightarrow> (ob, err ''node is not readable''))"

section \<open>Information, reading and writing\<close>

record KNodeInfo =
  ni_name :: string
  ni_type :: KTag
  ni_readable :: bool
  ni_writable :: bool
  ni_volatile_node :: bool
  ni_unit :: string
  ni_range_min :: u64
  ni_range_max :: u64
  ni_enum_labels :: "string list"
  ni_cap_mask :: u32

definition fill_node_info :: "('w, 'd, 'h) kobj \<Rightarrow> ('w, 'd, 'h) resolved_node \<Rightarrow> KNodeInfo option" where
  "fill_node_info ob r =
     map_option (\<lambda>n.
       let node = ko_nodes ob n; s = kn_schema node in
       \<lparr>ni_name = (case rn_name r of Some name \<Rightarrow> name | None \<Rightarrow> kstr_set (sch_name s)), ni_type = sch_type s,
        ni_readable = (resolved_is_dynamic_leaf r \<or> readable node), ni_writable = writable node, ni_volatile_node = sch_volatile_node s,
        ni_unit = kstr_set (sch_unit s), ni_range_min = sch_range_min s, ni_range_max = sch_range_max s,
        ni_enum_labels = take KENUM_MAX (sch_enum_labels s), ni_cap_mask = sch_cap_mask s\<rparr>)
       (rn_node r)"

definition kinfo :: "('w, 'd, 'h) kobj \<Rightarrow> string option \<Rightarrow> (('w, 'd, 'h) kobj \<times> KNodeInfo option) option" where
  "kinfo ob path = map_option (\<lambda>(ob, r). (ob, fill_node_info ob r)) (resolve_internal ob path)"

text \<open>\<open>kquery\<close> with both outputs; \<open>None\<close> inside is the result false.\<close>

definition kquery :: "('w, 'd, 'h) kobj \<Rightarrow> string option \<Rightarrow> (('w, 'd, 'h) kobj \<times> (KVal \<times> KNodeInfo) option) option" where
  "kquery ob path =
     do {
       (ob, r) \<leftarrow> resolve_internal ob path;
       (case (rn_node r, fill_node_info ob r) of
          (Some n, Some info) \<Rightarrow>
            if resolved_is_dynamic_leaf r then
              let (ob, v) = query_dynamic_value ob r in Some (ob, Some (v, info))
            else if \<not> readable (ko_nodes ob n) then Some (ob, Some (err ''node is not readable'', info))
            else map_option (\<lambda>(k, v). (ob\<lparr>ko_sys := k\<rparr>, Some (v, info))) (knode_read (ko_nodes ob n) (ko_sys ob))
        | _ \<Rightarrow> Some (ob, None))
     }"

definition append_attached_children :: "('w, 'd, 'h) ktree \<Rightarrow> knode_id \<Rightarrow> child_info list \<Rightarrow> child_info list \<times> nat" where
  "append_attached_children t n out =
     (append_children_from out 0 (map (\<lambda>c. (sch_name (kn_schema (t c)), sch_type (kn_schema (t c)))) (kn_children (t n))), length (kn_children (t n)))"

definition klist :: "('w, 'd, 'h) kobj \<Rightarrow> string option \<Rightarrow> child_info list \<Rightarrow> (('w, 'd, 'h) kobj \<times> child_info list \<times> nat) option" where
  "klist ob path out =
     map_option (\<lambda>(ob, r).
       case rn_node r of
         None \<Rightarrow> (ob, out, 0)
       | Some n \<Rightarrow>
           let w = fst (ko_sys ob) in
           if n \<in> {id_proc, id_proc_pid} then (ob, proc_list_children (kw_sched w) n out)
           else if n \<in> {id_dev_block, id_dev_block_entry, id_dev_pci, id_dev_pci_entry} then (ob, device_list_children w n out)
           else if n \<in> {id_dev_net, id_dev_net_entry, id_net_arp, id_net_arp_entry} then
             (let (s, res) = network_list_children (kw_net w) n out in (set_net ob s, res))
           else if n \<in> {id_driver, id_driver_entry} then (ob, driver_list_children (snd (ko_sys ob)) n out)
           else (ob, append_attached_children (ko_nodes ob) n out))
       (resolve_internal ob path)"

definition kget :: "('w, 'd, 'h) kobj \<Rightarrow> string option \<Rightarrow> (('w, 'd, 'h) kobj \<times> KVal) option" where
  "kget ob path = map_option (\<lambda>(ob, r). (ob, case r of None \<Rightarrow> err ''path not found'' | Some (v, _) \<Rightarrow> v)) (kquery ob path)"

definition kset :: "('w, 'd, 'h) kobj \<Rightarrow> string option \<Rightarrow> KVal \<Rightarrow> (('w, 'd, 'h) kobj \<times> bool) option" where
  "kset ob path v =
     map_option (\<lambda>(ob, r).
       case rn_node r of
         None \<Rightarrow> (ob, False)
       | Some n \<Rightarrow>
           if resolved_is_dynamic_leaf r then (ob, False)
           else if \<not> writable (ko_nodes ob n) then (ob, False)
           else if sch_type (kn_schema (ko_nodes ob n)) \<noteq> kval_tag v then (ob, False)
           else let (k, ok) = knode_write (ko_nodes ob n) (ko_sys ob) v in (ob\<lparr>ko_sys := k\<rparr>, ok))
       (resolve_internal ob path)"

definition kobj_get_by_path :: "('w, 'd, 'h) kobj \<Rightarrow> string option \<Rightarrow> (('w, 'd, 'h) kobj \<times> KVal) option" where
  "kobj_get_by_path ob path = kget ob path"

definition kobj_set_by_path :: "('w, 'd, 'h) kobj \<Rightarrow> string option \<Rightarrow> KTag \<Rightarrow> u64 \<Rightarrow> string \<Rightarrow> (('w, 'd, 'h) kobj \<times> bool) option" where
  "kobj_set_by_path ob path tag raw_u64 raw_str =
     (case tag of
        TU64 \<Rightarrow> kset ob path (VU64 raw_u64)
      | TI64 \<Rightarrow> kset ob path (VI64 raw_u64)
      | TBool \<Rightarrow> kset ob path (VBool (raw_u64 \<noteq> 0))
      | TStr \<Rightarrow> kset ob path (from_str raw_str)
      | TEnum \<Rightarrow> kset ob path (VEnum (ucast raw_u64))
      | _ \<Rightarrow> Some (ob, False))"

section \<open>Text forms\<close>

text \<open>The output functions take the buffer \<open>out\<close> as the list of its \<open>out_cap\<close> characters and return it.\<close>

fun append_child_names :: "text_buf \<Rightarrow> child_info list \<Rightarrow> text_buf" where
  "append_child_names b [] = b"
| "append_child_names b ((name, _) # cs) =
     (if c_str name = [] then append_child_names b cs else append_child_names (append_ch (append_str b (c_str name)) (CHR 0x0A)) cs)"

definition no_children :: "child_info list" where
  "no_children = replicate 64 ([], TU64)"

definition kls :: "('w, 'd, 'h) kobj \<Rightarrow> string option \<Rightarrow> string \<Rightarrow> (('w, 'd, 'h) kobj \<times> string) option" where
  "kls ob path out =
     (if out = [] then Some (ob, out)
      else do {
        let out = out[0 := NUL];
        (ob, children, total) \<leftarrow> klist ob path no_children;
        (ob, r) \<leftarrow> (if total = 0 then resolve_internal ob path else Some (ob, make_resolved id_root));
        Some (ob, if total = 0 \<and> rn_node r = None then fst (append_str (out, 0) (''error: path not found'' @ [CHR 0x0A]))
                  else fst (append_child_names (out, 0) (take total children)))
      })"

fun append_labels :: "text_buf \<Rightarrow> bool \<Rightarrow> string list \<Rightarrow> text_buf" where
  "append_labels b first [] = b"
| "append_labels b first (l # ls) = append_labels (append_str (if first then b else append_str b '', '') l) False ls"

definition yes_no :: "bool \<Rightarrow> string" where
  "yes_no b = (if b then ''yes'' else ''no'')"

definition append_line :: "text_buf \<Rightarrow> string \<Rightarrow> string \<Rightarrow> text_buf" where
  "append_line b label v = append_ch (append_str (append_str b label) v) (CHR 0x0A)"

definition describe_text :: "text_buf \<Rightarrow> string option \<Rightarrow> KNodeInfo \<Rightarrow> text_buf" where
  "describe_text b path info =
     (let b = append_line b ''path:     '' (case path of Some p \<Rightarrow> p | None \<Rightarrow> []);
          b = append_line b ''type:     '' (tag_name (ni_type info));
          b = (if ni_type info = TEnum
               then append_ch (append_labels (append_str b ''labels:   '') True (ni_enum_labels info)) (CHR 0x0A)
               else append_line b ''unit:     '' (if ni_unit info \<noteq> [] then ni_unit info else ''(none)''));
          b = append_line b ''readable: '' (yes_no (ni_readable info));
          b = append_line b ''writable: '' (yes_no (ni_writable info));
          b = append_line b ''volatile: '' (yes_no (ni_volatile_node info))
      in if (ni_type info = TU64 \<or> ni_type info = TI64) \<and> ni_range_max info > 0
         then append_ch (render_u64 (append_str (render_u64 (append_str b ''range:    '') (ni_range_min info)) ''..'') (ni_range_max info)) (CHR 0x0A)
         else if ni_type info \<noteq> TEnum then append_str b (''range:    (unbounded)'' @ [CHR 0x0A])
         else b)"

definition kdescribe :: "('w, 'd, 'h) kobj \<Rightarrow> string option \<Rightarrow> string \<Rightarrow> (('w, 'd, 'h) kobj \<times> string) option" where
  "kdescribe ob path out =
     (if out = [] then Some (ob, out)
      else
        let out = out[0 := NUL] in
        map_option (\<lambda>(ob, info). (ob, fst (case info of
             None \<Rightarrow> append_str (out, 0) (''error: path not found'' @ [CHR 0x0A])
           | Some info \<Rightarrow> describe_text (out, 0) path info)))
          (kinfo ob path))"

definition append_unit :: "text_buf \<Rightarrow> ('w, 'd, 'h) KNode option \<Rightarrow> text_buf" where
  "append_unit b node =
     (case node of
        None \<Rightarrow> b
      | Some n \<Rightarrow> if sch_unit (kn_schema n) \<noteq> [] then append_str (append_ch b (CHR '' '')) (sch_unit (kn_schema n)) else b)"

definition render_field :: "text_buf \<Rightarrow> KVal \<Rightarrow> text_buf" where
  "render_field b v =
     (case v of
        VU64 x \<Rightarrow> render_u64 b x
      | VI64 x \<Rightarrow> render_i64 b x
      | VBool x \<Rightarrow> append_str b (yes_no x)
      | VStr s \<Rightarrow> append_str b (c_str s)
      | VEnum i \<Rightarrow> render_u64 b (ucast i)
      | VErr s \<Rightarrow> append_str b (c_str s)
      | _ \<Rightarrow> append_str b ''<unsupported>'')"

fun render_fields :: "text_buf \<Rightarrow> (string \<times> KVal) list \<Rightarrow> text_buf" where
  "render_fields b [] = b"
| "render_fields b ((key, v) # fs) = render_fields (append_ch (render_field (append_str (append_str b (c_str key)) '': '') v) (CHR 0x0A)) fs"

definition render_value :: "text_buf \<Rightarrow> KVal \<Rightarrow> ('w, 'd, 'h) KNode option \<Rightarrow> text_buf" where
  "render_value b v node =
     (case v of
        VU64 x \<Rightarrow> append_unit (render_u64 b x) node
      | VI64 x \<Rightarrow> append_unit (render_i64 b x) node
      | VBool x \<Rightarrow> append_str b (yes_no x)
      | VStr s \<Rightarrow> append_str b (c_str s)
      | VEnum i \<Rightarrow>
          (case node of
             Some n \<Rightarrow>
               if unat i < KENUM_MAX \<and> unat i < length (sch_enum_labels (kn_schema n)) then append_str b (sch_enum_labels (kn_schema n) ! unat i)
               else append_str b ''<invalid-enum>''
           | None \<Rightarrow> append_str b ''<invalid-enum>'')
      | VStruct fs \<Rightarrow> render_fields b (take KFIELD_MAX fs)
      | VStream \<Rightarrow> append_str b ''<stream>''
      | VErr s \<Rightarrow> append_str (append_str b ''error: '') (c_str s))"

definition kval_render :: "KVal \<Rightarrow> ('w, 'd, 'h) KNode option \<Rightarrow> string \<Rightarrow> string \<times> nat" where
  "kval_render v node out = (if out = [] then (out, 0) else render_value (out[0 := NUL], 0) v node)"

end
