(* ===== verification/KRpc.thy ===== *)
theory KRpc
  imports KObj
begin

text \<open>
  The JSON interface of src/core/kobj/rpc.cpp over the object tree. A request is a C string, the
  reply is written into a buffer of fixed size. The dumps and the reboot act on the console and the
  machine only; they are the effects a request returns.
\<close>

section \<open>Writing JSON\<close>

abbreviation QUOTE :: char where "QUOTE \<equiv> CHR 0x22"
abbreviation BACKSLASH :: char where "BACKSLASH \<equiv> CHR 0x5C"
abbreviation NEWLINE :: char where "NEWLINE \<equiv> CHR 0x0A"
abbreviation RETURN :: char where "RETURN \<equiv> CHR 0x0D"
abbreviation TAB :: char where "TAB \<equiv> CHR 0x09"

definition append_json_char :: "char \<Rightarrow> text_buf \<Rightarrow> text_buf" where
  "append_json_char ch b =
     (if ch = QUOTE then append_str b [BACKSLASH, QUOTE]
      else if ch = BACKSLASH then append_str b [BACKSLASH, BACKSLASH]
      else if ch = NEWLINE then append_str b [BACKSLASH, CHR ''n'']
      else if ch = RETURN then append_str b [BACKSLASH, CHR ''r'']
      else if ch = TAB then append_str b [BACKSLASH, CHR ''t'']
      else append_ch b ch)"

definition append_json_escaped :: "text_buf \<Rightarrow> string \<Rightarrow> text_buf" where
  "append_json_escaped b s = fold append_json_char (c_str s) b"

definition append_json_ok :: "string \<Rightarrow> string \<Rightarrow> string" where
  "append_json_ok out opn =
     fst (append_str (append_json_escaped (append_str (out, 0) ''{\"ok\":true,\"op\":\"'') opn) ''\"}'')"

section \<open>Reading JSON\<close>

definition is_json_space :: "char \<Rightarrow> bool" where
  "is_json_space c \<longleftrightarrow> c = CHR '' '' \<or> c = TAB \<or> c = NEWLINE \<or> c = RETURN"

text \<open>The copy loop; \<open>room\<close> is \<open>out_cap - 1 - written\<close>.\<close>

fun json_unescape :: "nat \<Rightarrow> string \<Rightarrow> string" where
  "json_unescape 0 s = []"
| "json_unescape (Suc room) [] = []"
| "json_unescape (Suc room) (c # s) =
     (if c = QUOTE then []
      else
        case s of
          esc # s' \<Rightarrow>
            if c = BACKSLASH
            then (if esc = CHR ''n'' then NEWLINE else if esc = CHR ''r'' then RETURN else if esc = CHR ''t'' then TAB else esc) # json_unescape room s'
            else c # json_unescape room s
        | [] \<Rightarrow> c # json_unescape room s)"

text \<open>The body of the search loop at one position: the value behind a match of the pattern.\<close>

definition json_value_at :: "string \<Rightarrow> nat \<Rightarrow> string \<Rightarrow> string option" where
  "json_value_at pattern out_cap json =
     (if take (length pattern) json \<noteq> pattern then None
      else
        let s = dropWhile is_json_space (drop (length pattern) json) in
        if s = [] \<or> hd s \<noteq> CHR '':'' then None
        else
          let s = dropWhile is_json_space (drop 1 s) in
          if s = [] \<or> hd s \<noteq> QUOTE then None
          else Some (json_unescape (out_cap - 1) (drop 1 s)))"

fun json_search :: "string \<Rightarrow> nat \<Rightarrow> string \<Rightarrow> string option" where
  "json_search pattern out_cap [] = None"
| "json_search pattern out_cap (c # json) =
     (case json_value_at pattern out_cap (c # json) of Some v \<Rightarrow> Some v | None \<Rightarrow> json_search pattern out_cap json)"

definition json_extract_string_buffer :: "string option \<Rightarrow> string \<Rightarrow> nat \<Rightarrow> string option" where
  "json_extract_string_buffer json key out_cap =
     (case json of
        None \<Rightarrow> None
      | Some json \<Rightarrow>
          if out_cap = 0 \<or> length key + 3 \<ge> 32 then None
          else json_search (QUOTE # key @ [QUOTE]) out_cap (c_str json))"

definition json_extract_string :: "string option \<Rightarrow> string \<Rightarrow> string option" where
  "json_extract_string json key = map_option kstr_set (json_extract_string_buffer json key KSTR_MAX)"

section \<open>Requests\<close>

definition append_fs_list_item :: "text_buf \<times> bool \<Rightarrow> fs_directory_entry_info \<Rightarrow> (text_buf \<times> bool) \<times> bool" where
  "append_fs_list_item context entry =
     (let (b, first) = context;
          b = (if \<not> first then append_ch b (CHR '','') else b);
          b = append_ch b QUOTE;
          b = append_ch b (if fdi_is_directory entry then CHR ''D'' else CHR ''F'');
          b = append_str b [BACKSLASH, CHR ''t''];
          b = append_json_escaped b (fdi_name entry);
          b = append_str b [BACKSLASH, CHR ''t''];
          b = render_u64 b (word_of_nat (fdi_size entry));
          b = append_ch b QUOTE
      in ((b, False), False))"

definition json_bool :: "bool \<Rightarrow> string" where
  "json_bool b = (if b then ''true'' else ''false'')"

fun append_json_labels :: "text_buf \<Rightarrow> bool \<Rightarrow> string list \<Rightarrow> text_buf" where
  "append_json_labels b first [] = b"
| "append_json_labels b first (l # ls) =
     append_json_labels (append_ch (append_json_escaped (append_ch (if first then b else append_ch b (CHR '','')) QUOTE) l) QUOTE) False ls"

definition append_node_info_json :: "text_buf \<Rightarrow> KNodeInfo \<Rightarrow> text_buf" where
  "append_node_info_json b info =
     (let b = append_ch (append_str (append_str b '',\"type\":\"'') (tag_name (ni_type info))) QUOTE;
          b = append_str (append_str b '',\"readable\":'') (json_bool (ni_readable info));
          b = append_str (append_str b '',\"writable\":'') (json_bool (ni_writable info));
          b = append_str (append_str b '',\"volatile\":'') (json_bool (ni_volatile_node info));
          b = append_ch (append_json_escaped (append_str b '',\"unit\":\"'') (ni_unit info)) QUOTE
      in if ni_type info = TEnum
         then append_ch (append_json_labels (append_str b '',\"labels\":['') True (ni_enum_labels info)) (CHR '']'')
         else render_u64 (append_str (render_u64 (append_str b '',\"range_min\":'') (ni_range_min info)) '',\"range_max\":'') (ni_range_max info))"

datatype rpc_effect = Dump_memory | Dump_tasks | Dump_idt | Reboot

type_synonym ('w, 'd, 'h) rpc_result = "(('w, 'd, 'h) kobj \<times> string \<times> rpc_effect list) option"

text \<open>A reply that starts the buffer again.\<close>

definition rpc_reply :: "('w, 'd, 'h) kobj \<Rightarrow> string \<Rightarrow> string \<Rightarrow> ('w, 'd, 'h) rpc_result" where
  "rpc_reply ob out text = Some (ob, fst (append_str (out, 0) text), [])"

definition resolve_node :: "('w, 'd, 'h) kobj \<Rightarrow> string option \<Rightarrow> (('w, 'd, 'h) kobj \<times> knode_id option) option" where
  "resolve_node ob path = map_option (\<lambda>(ob, r). (ob, rn_node r)) (resolve_internal ob path)"

definition rpc_uptime :: "('w, 'd, 'h) kobj \<Rightarrow> string \<Rightarrow> ('w, 'd, 'h) rpc_result" where
  "rpc_uptime ob out =
     (let ticks = g_tick_count (kw_sched (fst (ko_sys ob)));
          b = render_u64 (append_str (out, 0) ''{\"ok\":true,\"op\":\"uptime\",\"ticks\":'') ticks;
          b = render_u64 (append_str b '',\"seconds\":'') (ticks div ucast SCHED_TICK_HZ)
      in Some (ob, fst (append_ch b (CHR ''}'')), []))"

definition rpc_driver :: "('w, 'd, 'h) kobj \<Rightarrow> string option \<Rightarrow> bool \<Rightarrow> string \<Rightarrow> ('w, 'd, 'h) rpc_result" where
  "rpc_driver ob req_json load out =
     (case json_extract_string req_json ''name'' of
        None \<Rightarrow> rpc_reply ob out ''{\"ok\":false,\"error\":\"missing name\"}''
      | Some name \<Rightarrow>
          let (w, reg) = ko_sys ob;
              (reg, w, rc) = (if load then driver_load reg w (c_str name) else driver_unload reg w (c_str name));
              b = append_str (append_str (out, 0) ''{\"ok\":'') (json_bool (rc = 0));
              b = append_str (append_str b '',\"op\":\"'') (if load then ''drvload'' else ''drvunload'');
              b = append_str (append_json_escaped (append_str b ''\",\"name\":\"'') name) ''\"}''
          in Some (ob\<lparr>ko_sys := (w, reg)\<rparr>, fst b, []))"

text \<open>The file system works on the kernel heap of the state.\<close>

definition rpc_fs_list :: "('w, 'd, 'h) kobj \<Rightarrow> string option \<Rightarrow> string \<Rightarrow> ('w, 'd, 'h) rpc_result" where
  "rpc_fs_list ob req_json out =
     (case json_extract_string_buffer req_json ''path'' 256 of
        None \<Rightarrow> rpc_reply ob out ''{\"ok\":false,\"error\":\"missing path\"}''
      | Some fs_path \<Rightarrow>
          let b = append_str (out, 0) ''{\"ok\":true,\"op\":\"fs_list\",\"path\":\"'';
              b = append_str (append_json_escaped b fs_path) ''\",\"items\":['';
              (w, reg) = ko_sys ob
          in do {
            (s, (b, first), ok) \<leftarrow> fs_list_directory (set_km (kw_fs w) (kw_km w)) (Some fs_path) (Some append_fs_list_item) (b, True);
            let ob = ob\<lparr>ko_sys := (w\<lparr>kw_fs := s, kw_km := fs_km s\<rparr>, reg)\<rparr>;
            if \<not> ok then rpc_reply ob (fst b) ''{\"ok\":false,\"error\":\"directory not found\"}''
            else Some (ob, fst (append_str b '']}''), [])
          })"

definition rpc_get :: "('w, 'd, 'h) kobj \<Rightarrow> string \<Rightarrow> string \<Rightarrow> ('w, 'd, 'h) rpc_result" where
  "rpc_get ob path out =
     do {
       (ob, res) \<leftarrow> kquery ob (Some path);
       (case res of
          None \<Rightarrow> rpc_reply ob out ''{\"ok\":false,\"error\":\"path not found\"}''
        | Some (v, info) \<Rightarrow>
            do {
              (ob, n) \<leftarrow> resolve_node ob (Some path);
              let rendered = fst (kval_render v (map_option (ko_nodes ob) n) (replicate 256 NUL));
              let b = append_str (append_str (out, 0) ''{\"ok\":'') (json_bool (kval_tag v \<noteq> TErr));
              let b = append_json_escaped (append_str b '',\"op\":\"get\",\"path\":\"'') path;
              let b = append_ch (append_json_escaped (append_str b ''\",\"value\":\"'') rendered) QUOTE;
              Some (ob, fst (append_ch (append_node_info_json b info) (CHR ''}'')), [])
            })
     }"

text \<open>The value that \<open>set\<close> makes of the text for the node's type; \<open>Inl\<close> is an error reply of its own, \<open>Inr None\<close> a text that is no number.\<close>

definition rpc_set_value :: "KNodeInfo \<Rightarrow> string \<Rightarrow> string + KVal option" where
  "rpc_set_value info v =
     (if ni_type info = TU64 then Inr (map_option VU64 (parse_u64_segment (c_str v)))
      else if ni_type info = TBool then Inr (Some (VBool (kstr_eq v ''true'' \<or> kstr_eq v ''1'' \<or> kstr_eq v ''yes'')))
      else if ni_type info = TStr then Inr (Some (from_str (c_str v)))
      else if ni_type info = TEnum then
        (case find (\<lambda>i. kstr_eq v (ni_enum_labels info ! i)) [0..<length (ni_enum_labels info)] of
           None \<Rightarrow> Inl ''{\"ok\":false,\"error\":\"unknown enum value\"}''
         | Some i \<Rightarrow> Inr (Some (VEnum (word_of_nat i))))
      else Inl ''{\"ok\":false,\"error\":\"type not settable\"}'')"

definition rpc_set :: "('w, 'd, 'h) kobj \<Rightarrow> string option \<Rightarrow> string \<Rightarrow> string \<Rightarrow> ('w, 'd, 'h) rpc_result" where
  "rpc_set ob req_json path out =
     (case json_extract_string req_json ''value'' of
        None \<Rightarrow> rpc_reply ob out ''{\"ok\":false,\"error\":\"missing value\"}''
      | Some v \<Rightarrow>
          do {
            (ob, info) \<leftarrow> kinfo ob (Some path);
            (case info of
               None \<Rightarrow> rpc_reply ob out ''{\"ok\":false,\"error\":\"path not found\"}''
             | Some info \<Rightarrow>
                 if \<not> ni_writable info then rpc_reply ob out ''{\"ok\":false,\"error\":\"read-only\"}''
                 else
                   case rpc_set_value info v of
                     Inl text \<Rightarrow> rpc_reply ob out text
                   | Inr v \<Rightarrow>
                       do {
                         (ob, set_ok) \<leftarrow> (case v of None \<Rightarrow> Some (ob, False) | Some v \<Rightarrow> kset ob (Some path) v);
                         if \<not> set_ok then rpc_reply ob out ''{\"ok\":false,\"error\":\"set failed\"}''
                         else rpc_reply ob out ''{\"ok\":true,\"op\":\"set\"}''
                       })
          })"

fun append_json_items :: "text_buf \<Rightarrow> bool \<Rightarrow> child_info list \<Rightarrow> text_buf" where
  "append_json_items b first [] = b"
| "append_json_items b first ((name, type) # items) =
     (if c_str name = [] then append_json_items b first items
      else
        let b = (if first then b else append_ch b (CHR '',''));
            b = append_json_escaped (append_str b ''{\"name\":\"'') name;
            b = append_str (append_str (append_str b ''\",\"type\":\"'') (tag_name type)) ''\"}''
        in append_json_items b False items)"

definition rpc_ls :: "('w, 'd, 'h) kobj \<Rightarrow> string \<Rightarrow> string \<Rightarrow> ('w, 'd, 'h) rpc_result" where
  "rpc_ls ob path out =
     do {
       (ob, items, total) \<leftarrow> klist ob (Some path) no_children;
       (ob, n) \<leftarrow> (if total = 0 then resolve_node ob (Some path) else Some (ob, Some id_root));
       if total = 0 \<and> n = None then rpc_reply ob out ''{\"ok\":false,\"error\":\"path not found\"}''
       else
         let b = append_json_escaped (append_str (out, 0) ''{\"ok\":true,\"op\":\"ls\",\"path\":\"'') path;
             b = append_json_items (append_str b ''\",\"items\":['') True (take total items)
         in Some (ob, fst (append_str b '']}''), [])
     }"

definition rpc_describe :: "('w, 'd, 'h) kobj \<Rightarrow> string \<Rightarrow> string \<Rightarrow> ('w, 'd, 'h) rpc_result" where
  "rpc_describe ob path out =
     do {
       (ob, info) \<leftarrow> kinfo ob (Some path);
       (case info of
          None \<Rightarrow> rpc_reply ob out ''{\"ok\":false,\"error\":\"path not found\"}''
        | Some info \<Rightarrow>
            do {
              (ob, desc_buf) \<leftarrow> kdescribe ob (Some path) (replicate 512 NUL);
              let b = append_json_escaped (append_str (out, 0) ''{\"ok\":true,\"op\":\"describe\",\"path\":\"'') path;
              let b = append_ch (append_json_escaped (append_str b ''\",\"text\":\"'') desc_buf) QUOTE;
              Some (ob, fst (append_ch (append_node_info_json b info) (CHR ''}'')), [])
            })
     }"

definition krpc :: "('w, 'd, 'h) kobj \<Rightarrow> string option \<Rightarrow> string \<Rightarrow> ('w, 'd, 'h) rpc_result" where
  "krpc ob req_json out =
     (if out = [] then Some (ob, out, [])
      else
        let out = out[0 := NUL] in
        case json_extract_string req_json ''op'' of
          None \<Rightarrow> rpc_reply ob out ''{\"ok\":false,\"error\":\"missing op\"}''
        | Some opn \<Rightarrow>
            if kstr_eq opn ''mem'' then Some (ob, append_json_ok out ''mem'', [Dump_memory])
            else if kstr_eq opn ''tasks'' then Some (ob, append_json_ok out ''tasks'', [Dump_tasks])
            else if kstr_eq opn ''idt'' then Some (ob, append_json_ok out ''idt'', [Dump_idt])
            else if kstr_eq opn ''uptime'' then rpc_uptime ob out
            else if kstr_eq opn ''reboot'' then Some (ob, append_json_ok out ''reboot'', [Reboot])
            else if kstr_eq opn ''drvload'' \<or> kstr_eq opn ''drvunload'' then rpc_driver ob req_json (kstr_eq opn ''drvload'') out
            else if kstr_eq opn ''fs_list'' then rpc_fs_list ob req_json out
            else
              case json_extract_string req_json ''path'' of
                None \<Rightarrow> rpc_reply ob out ''{\"ok\":false,\"error\":\"missing path\"}''
              | Some path \<Rightarrow>
                  let path = c_str path in
                  if kstr_eq opn ''get'' then rpc_get ob path out
                  else if kstr_eq opn ''set'' then rpc_set ob req_json path out
                  else if kstr_eq opn ''ls_text'' then map_option (\<lambda>(ob, out). (ob, out, [])) (kls ob (Some path) out)
                  else if kstr_eq opn ''ls'' then rpc_ls ob path out
                  else if kstr_eq opn ''describe'' then rpc_describe ob path out
                  else rpc_reply ob out ''{\"ok\":false,\"error\":\"unknown op\"}'')"

end
