(* ===== verification/KTreeInv.thy ===== *)
theory KTreeInv
  imports KTree SoundInv
begin

text \<open>
  What registration leaves behind: every definition of the tables becomes a node with the schema,
  the callbacks and the children the tables give it, and no parent runs out of room for its
  children, so initialising the tree does not panic.
\<close>

section \<open>Registering a table\<close>

definition definition_schema :: "('w, 'd, 'h) node_definition \<Rightarrow> KNodeSchema" where
  "definition_schema d =
     (schema_reset (df_name d) (df_type d) (df_writable d) (df_volatile d) (df_unit d) (df_cap_mask d))\<lparr>sch_enum_labels := take KENUM_MAX (df_labels d)\<rparr>"

definition children_in :: "('w, 'd, 'h) node_definition list \<Rightarrow> knode_id \<Rightarrow> knode_id list" where
  "children_in ds n = map df_id (filter (\<lambda>d. df_parent d = Some n) ds)"

definition registered :: "('w, 'd, 'h) node_definition list \<Rightarrow> ('w, 'd, 'h) ktree \<Rightarrow> bool" where
  "registered ds t \<longleftrightarrow> (\<forall>d \<in> set ds. let n = t (df_id d) in
     kn_schema n = definition_schema d \<and> kn_get_fn n = df_get d \<and> kn_set_fn n = df_set d \<and> kn_children n = children_in ds (df_id d))"

text \<open>A table read from its end: ids differ, parents come first and have room.\<close>

fun table_ok :: "(knode_id \<times> knode_id option) list \<Rightarrow> bool" where
  "table_ok [] = True"
| "table_ok ((n, p) # rest) \<longleftrightarrow>
     table_ok rest \<and> n \<notin> set (map fst rest) \<and>
     (case p of None \<Rightarrow> True
      | Some p \<Rightarrow> p \<in> set (map fst rest) \<and> length (filter (\<lambda>e. snd e = Some p) rest) < KNODE_CHILDREN_MAX)"

definition table_of :: "('w, 'd, 'h) node_definition list \<Rightarrow> (knode_id \<times> knode_id option) list" where
  "table_of ds = map (\<lambda>d. (df_id d, df_parent d)) ds"

lemma register_nodes_append:
  "register_nodes t (ds @ es) = Option.bind (register_nodes t ds) (\<lambda>t. register_nodes t es)"
  by (induction ds arbitrary: t) (auto simp: Option.bind_assoc)

lemma registered_node:
  "(let n = knode_reset d in if df_labels d \<noteq> [] then n\<lparr>kn_schema := set_enum_labels (kn_schema n) (df_labels d)\<rparr> else n) =
   \<lparr>kn_id = df_id d, kn_schema = definition_schema d, kn_get_fn = df_get d, kn_set_fn = df_set d, kn_children = [], kn_parent = None\<rparr>"
  by (cases "df_labels d = []") (simp_all add: Let_def knode_reset_def definition_schema_def set_enum_labels_def schema_reset_def)

lemma register_node_registered:
  assumes t: "registered ds t" and fresh: "df_id d \<notin> df_id ` set ds" and orphan: "\<forall>e \<in> set ds. df_parent e \<noteq> Some (df_id d)"
    and parent: "\<forall>p. df_parent d = Some p \<longrightarrow> p \<in> df_id ` set ds \<and> length (children_in ds p) < KNODE_CHILDREN_MAX"
  shows "\<exists>t'. register_node t d = Some t' \<and> registered (ds @ [d]) t'"
proof (cases "df_parent d")
  case None
  have other: "df_id x \<noteq> df_id d" if "x \<in> set ds" for x using fresh that by (metis image_eqI)
  let ?t = "t(df_id d := \<lparr>kn_id = df_id d, kn_schema = definition_schema d, kn_get_fn = df_get d, kn_set_fn = df_set d, kn_children = [], kn_parent = None\<rparr>)"
  have "register_node t d = Some ?t" using registered_node [of d] by (simp add: register_node_def None Let_def)
  moreover have "registered (ds @ [d]) ?t"
    unfolding registered_def Let_def
  proof
    fix x assume "x \<in> set (ds @ [d])"
    then consider "x = d" | "x \<in> set ds" "df_id x \<noteq> df_id d" using other by fastforce
    then show "kn_schema (?t (df_id x)) = definition_schema x \<and> kn_get_fn (?t (df_id x)) = df_get x \<and> kn_set_fn (?t (df_id x)) = df_set x \<and>
       kn_children (?t (df_id x)) = children_in (ds @ [d]) (df_id x)"
    proof cases
      case 1
      have "children_in (ds @ [d]) (df_id d) = []" using orphan None by (auto simp: children_in_def filter_empty_conv)
      then show ?thesis using 1 by simp
    next
      case 2
      then show ?thesis using t None by (auto simp: registered_def Let_def children_in_def)
    qed
  qed
  ultimately show ?thesis by blast
next
  case (Some p)
  then obtain e where e: "e \<in> set ds" "df_id e = p" and room: "length (children_in ds p) < KNODE_CHILDREN_MAX" using parent by auto
  have other: "df_id x \<noteq> df_id d" if "x \<in> set ds" for x using fresh that by (metis image_eqI)
  then have ne: "p \<noteq> df_id d" using e by auto
  have ch: "kn_children (t p) = children_in ds p" using t e by (auto simp: registered_def Let_def)
  let ?n = "\<lparr>kn_id = df_id d, kn_schema = definition_schema d, kn_get_fn = df_get d, kn_set_fn = df_set d, kn_children = [], kn_parent = Some p\<rparr>"
  let ?t = "t(df_id d := ?n, p := (t p)\<lparr>kn_children := children_in ds p @ [df_id d]\<rparr>)"
  have "register_node t d = Some ?t" using registered_node [of d] room ch ne by (simp add: register_node_def Some Let_def attach_def)
  moreover have "registered (ds @ [d]) ?t"
    unfolding registered_def Let_def
  proof
    fix x assume "x \<in> set (ds @ [d])"
    then consider "x = d" | "x \<in> set ds" "df_id x = p" | "x \<in> set ds" "df_id x \<noteq> p" "df_id x \<noteq> df_id d" using other by fastforce
    then show "kn_schema (?t (df_id x)) = definition_schema x \<and> kn_get_fn (?t (df_id x)) = df_get x \<and> kn_set_fn (?t (df_id x)) = df_set x \<and>
       kn_children (?t (df_id x)) = children_in (ds @ [d]) (df_id x)"
    proof cases
      case 1
      have "children_in (ds @ [d]) (df_id d) = []" using orphan Some ne by (auto simp: children_in_def filter_empty_conv)
      then show ?thesis using 1 ne by simp
    next
      case 2
      then have "kn_schema (t p) = definition_schema x \<and> kn_get_fn (t p) = df_get x \<and> kn_set_fn (t p) = df_set x"
        using t by (auto simp: registered_def Let_def)
      then show ?thesis using 2 Some by (simp add: children_in_def)
    next
      case 3
      then show ?thesis using t Some by (auto simp: registered_def Let_def children_in_def)
    qed
  qed
  ultimately show ?thesis by blast
qed

lemma table_parents: "table_ok tab \<Longrightarrow> (n, Some p) \<in> set tab \<Longrightarrow> p \<in> fst ` set tab"
  by (induction tab rule: table_ok.induct) auto

lemma register_nodes_registered:
  assumes "table_ok (rev (table_of ds))" shows "\<exists>t'. register_nodes t ds = Some t' \<and> registered ds t'"
  using assms
proof (induction ds rule: rev_induct)
  case Nil
  then show ?case by (simp add: registered_def)
next
  case (snoc d ds)
  have ok: "table_ok (rev (table_of ds))" and fresh: "df_id d \<notin> df_id ` set ds"
    and parent: "\<forall>p. df_parent d = Some p \<longrightarrow> p \<in> df_id ` set ds \<and> length (children_in ds p) < KNODE_CHILDREN_MAX"
    using snoc.prems by (auto simp: table_of_def children_in_def rev_filter [symmetric] filter_map o_def image_image)
  obtain t' where t: "register_nodes t ds = Some t'" "registered ds t'" using snoc.IH [OF ok] by blast
  have "\<forall>e \<in> set ds. df_parent e \<noteq> Some (df_id d)"
    using table_parents [OF ok] fresh by (force simp: table_of_def)
  then show ?case using register_node_registered [OF t(2) fresh _ parent] t(1)
    by (auto simp: register_nodes_append split: option.splits)
qed

section \<open>The tables of the kernel\<close>

definition all_nodes :: "('w, 'd, 'h) node_definition list" where
  "all_nodes = core_nodes @ proc_nodes @ device_nodes @ network_nodes @ driver_nodes"

lemmas node_tables = core_nodes_def proc_nodes_def device_nodes_def network_nodes_def driver_nodes_def

lemma all_table_ok: "table_ok (rev (table_of (all_nodes :: ('w, 'd, 'h) node_definition list)))"
  unfolding all_nodes_def node_tables table_of_def
  by (simp add: plain_node_def KNODE_CHILDREN_MAX_def)

text \<open>Initialising the tree does not panic, and the tree is then the one of the tables.\<close>

lemma kobj_init_registered:
  assumes "ko_initialized ob \<longrightarrow> registered all_nodes (ko_nodes ob)"
  obtains ob' where "kobj_init ob = Some ob'" "ko_initialized ob'" "registered all_nodes (ko_nodes ob')" "ko_sys ob' = ko_sys ob"
proof (cases "ko_initialized ob")
  case True
  then show ?thesis using assms that by (simp add: kobj_init_def)
next
  case False
  obtain t where "register_nodes (ko_nodes ob) all_nodes = Some t" "registered all_nodes t"
    using register_nodes_registered [OF all_table_ok, of "ko_nodes ob"] by blast
  then show ?thesis using False that [of "ob\<lparr>ko_nodes := t, ko_initialized := True\<rparr>"] by (simp add: kobj_init_def all_nodes_def)
qed

section \<open>The callbacks\<close>

text \<open>The kernel state the callbacks rely on and keep: the heap and the mixer, and the two settings in their range.\<close>

definition sys_ok :: "('w, 'd, 'h) ksys \<Rightarrow> bool" where
  "sys_ok k \<longleftrightarrow> snd_ok ((kw_sound (fst k))\<lparr>snd_km := kw_km (fst k)\<rparr>) \<and> kw_power_state (fst k) \<le> 2 \<and> kw_log_route (fst k) \<le> 2"

text \<open>A value of the type and, for an enumeration, with a label.\<close>

definition fits :: "KTag \<Rightarrow> string list \<Rightarrow> KVal \<Rightarrow> bool" where
  "fits type labels v \<longleftrightarrow> kval_tag v = type \<and> (\<forall>i. v = VEnum i \<longrightarrow> unat i < length labels)"

definition returns :: "('w, 'd, 'h) get_callback \<Rightarrow> KTag \<Rightarrow> string list \<Rightarrow> bool" where
  "returns f type labels \<longleftrightarrow> (\<forall>k. sys_ok k \<longrightarrow> (\<exists>k' v. f k = Some (k', v) \<and> sys_ok k' \<and> fits type labels v))"

lemma returns_same: "(\<And>k. sys_ok k \<Longrightarrow> \<exists>v. f k = Some (k, v) \<and> fits type labels v) \<Longrightarrow> returns f type labels"
  unfolding returns_def by blast

lemma fits_simps [simp]:
  "fits TU64 ls (VU64 x)" "fits TI64 ls (VI64 x)" "fits TBool ls (VBool b)" "fits TStr ls (from_str s)" "fits TEnum ls (VEnum i) \<longleftrightarrow> unat i < length ls"
  by (simp_all add: fits_def from_str_def)

lemma word_le_2: "(i :: u32) \<le> 2 \<Longrightarrow> unat i < Suc (Suc (Suc 0))"
  by (simp add: word_le_nat_alt)

text \<open>The walk over the heap list ends, and adds up the used blocks.\<close>

lemma heap_used_from_sum:
  "chain (hb_succ hdr) (ptr block) ns None \<Longrightarrow> (\<forall>a \<in> set ns. a \<noteq> 0) \<Longrightarrow>
   heap_used_from hdr block used = Some (used + sum_list (map (\<lambda>a. hb_size (hdr a)) (filter (\<lambda>a. hb_used (hdr a)) ns)))"
proof (induction ns arbitrary: block used)
  case Nil
  then have "block = 0" by (simp split: if_splits)
  then show ?case by (subst heap_used_from.simps) simp
next
  case (Cons n ns)
  then have "block = n" "n \<noteq> 0" "chain (hb_succ hdr) (ptr (hb_next (hdr n))) ns None" by (auto split: if_splits)
  then show ?case using Cons.IH [of "hb_next (hdr n)"] Cons.prems(2) by (subst heap_used_from.simps) (simp add: add.assoc)
qed

lemma heap_used_returns: "km_inv km \<Longrightarrow> \<exists>used. heap_used_from (kh_hdr (km_heap km)) (kh_free_list (km_heap km)) 0 = Some used"
  unfolding km_inv_def km_ok_def kh_rel_def hb_ok_def by (blast dest: heap_used_from_sum)

lemma sys_ok_km: "sys_ok k \<Longrightarrow> km_inv (kw_km (fst k))"
  by (auto simp: sys_ok_def snd_ok_def)

lemma sys_ok_other:
  "sys_ok k \<Longrightarrow> kw_km w = kw_km (fst k) \<Longrightarrow> kw_sound w = kw_sound (fst k) \<Longrightarrow> kw_power_state w \<le> 2 \<Longrightarrow> kw_log_route w \<le> 2 \<Longrightarrow> sys_ok (w, r)"
  by (simp add: sys_ok_def)

lemma on_sound_ok:
  assumes "sys_ok k" "on_sound f (fst k) = (w, x)" "\<And>s s' x. snd_ok s \<Longrightarrow> f s = (s', x) \<Longrightarrow> mix_step s s'"
  shows "sys_ok (w, snd k)"
proof -
  obtain s where f: "f ((kw_sound (fst k))\<lparr>snd_km := kw_km (fst k)\<rparr>) = (s, x)" and w: "w = (fst k)\<lparr>kw_sound := s, kw_km := snd_km s\<rparr>"
    using assms(2) by (auto simp: on_sound_def Let_def split: prod.splits)
  have "snd_ok s" using assms(3) [OF _ f] assms(1) by (simp add: sys_ok_def mix_step_ok)
  moreover have "s\<lparr>snd_km := snd_km s\<rparr> = s" by simp
  ultimately show ?thesis using assms(1) by (simp add: w sys_ok_def)
qed

lemma from_fs_info_returns: "(\<And>i. fits type ls (f i)) \<Longrightarrow> returns (from_fs_info f) type ls"
  unfolding returns_def from_fs_info_def Let_def by (auto split: prod.splits intro: sys_ok_other simp: sys_ok_def)

lemma fs_callbacks:
  "returns get_fs_active_backend TStr []" "returns get_fs_fallback_ready TBool []" "returns get_fs_mounted TBool []" "returns get_fs_writable TBool []"
  "returns get_fs_block_device TStr []" "returns get_fs_root_path TStr []" "returns get_fs_cluster_size TU64 []" "returns get_fs_root_cluster TU64 []"
  unfolding get_fs_active_backend_def get_fs_fallback_ready_def get_fs_mounted_def get_fs_writable_def get_fs_block_device_def get_fs_root_path_def
    get_fs_cluster_size_def get_fs_root_cluster_def by (rule from_fs_info_returns, simp)+

lemma sys_callbacks:
  "returns get_sys_cpu_count TU64 []" "returns get_sys_cpu_ticks TU64 []" "returns get_sys_mem_total_kb TU64 []" "returns get_sys_mem_free_kb TU64 []"
  "returns get_sys_mem_heap_capacity TU64 []" "returns get_sys_mem_heap_subheaps TU64 []"
  "returns get_sys_power_state TEnum kPowerStateLabels" "returns get_sys_log_route TEnum kLogRouteLabels" "returns get_proc_count TU64 []"
  by (rule returns_same; simp add: get_sys_cpu_count_def get_sys_cpu_ticks_def get_sys_mem_total_kb_def get_sys_mem_free_kb_def
      get_sys_mem_heap_capacity_def get_sys_mem_heap_subheaps_def get_sys_power_state_def get_sys_log_route_def get_proc_count_def
      kPowerStateLabels_def kLogRouteLabels_def sys_ok_def word_le_2)+

lemma heap_used_callback: "returns get_sys_mem_heap_used TU64 []"
proof (rule returns_same)
  fix k :: "('w, 'd, 'h) ksys" assume "sys_ok k"
  then obtain used where "heap_used_from (kh_hdr (km_heap (kw_km (fst k)))) (kh_free_list (km_heap (kw_km (fst k)))) 0 = Some used"
    using heap_used_returns [OF sys_ok_km] by blast
  then show "\<exists>v. get_sys_mem_heap_used k = Some (k, v) \<and> fits TU64 [] v" by (simp add: get_sys_mem_heap_used_def)
qed

lemma device_callbacks:
  "returns get_dev_block_count TU64 []" "returns get_dev_pci_count TU64 []" "returns get_sound_active_driver TStr []"
  "returns get_sound_initialized TBool []" "returns get_sound_sample_rate TU64 []" "returns get_sound_volume_left TU64 []"
  "returns get_sound_volume_right TU64 []" "returns get_dev_net_count TU64 []" "returns get_net_device_count TU64 []"
  "returns get_net_primary_device TStr []" "returns get_net_background_rx TBool []" "returns get_driver_registered_count TU64 []"
  "returns get_driver_loaded_count TU64 []"
  by (rule returns_same; simp add: get_dev_block_count_def get_dev_pci_count_def get_sound_active_driver_def get_sound_initialized_def
      get_sound_sample_rate_def get_sound_volume_left_def get_sound_volume_right_def get_dev_net_count_def get_net_device_count_def
      get_net_primary_device_def get_net_background_rx_def get_driver_registered_count_def get_driver_loaded_count_def Let_def)+

lemma sound_is_playing_step: "snd_ok s \<Longrightarrow> sound_is_playing s = (s', x) \<Longrightarrow> mix_step s s'"
  using driver_is_playing_step by (auto simp: sound_is_playing_def)

lemma active_mix_channels_step: "snd_ok s \<Longrightarrow> active_mix_channels s = (s', n) \<Longrightarrow> mix_step s s'"
  using count_active_step by (auto simp: active_mix_channels_def)

lemma on_sound_returns:
  fixes f :: "'d sound_state \<Rightarrow> 'd sound_state \<times> 'x"
  assumes "\<And>s s' x. snd_ok s \<Longrightarrow> f s = (s', x) \<Longrightarrow> mix_step s s'" "\<And>x. fits type ls (g x)"
  shows "returns (\<lambda>k :: ('w, 'd, 'h) ksys. let (w, x) = on_sound f (fst k) in Some ((w, snd k), g x)) type ls"
  unfolding returns_def
proof (intro allI impI)
  fix k :: "('w, 'd, 'h) ksys" assume k: "sys_ok k"
  obtain w x where "on_sound f (fst k) = (w, x)" by fastforce
  then show "\<exists>k' v. (let (w, x) = on_sound f (fst k) in Some ((w, snd k), g x)) = Some (k', v) \<and> sys_ok k' \<and> fits type ls v"
    using on_sound_ok [OF k _ assms(1)] assms(2) by auto
qed

lemma sound_callbacks: "returns get_sound_playing TBool []" "returns get_sound_mix_channels_active TU64 []"
  unfolding get_sound_playing_def [abs_def] get_sound_mix_channels_active_def [abs_def]
  by (rule on_sound_returns; simp add: sound_is_playing_step active_mix_channels_step)+

lemma net_callbacks: "returns get_net_ipv4_configured_count TU64 []" "returns get_net_arp_count TU64 []"
  unfolding returns_def get_net_ipv4_configured_count_def get_net_arp_count_def Let_def
  by (auto split: prod.splits simp: sys_ok_def)

lemmas callbacks = fs_callbacks sys_callbacks heap_used_callback device_callbacks sound_callbacks net_callbacks

section \<open>The tables are well typed\<close>

definition definition_ok :: "('w, 'd, 'h) node_definition \<Rightarrow> bool" where
  "definition_ok d \<longleftrightarrow>
     (case df_get d of None \<Rightarrow> df_parent d = None \<or> df_type d = TStruct | Some f \<Rightarrow> returns f (df_type d) (take KENUM_MAX (df_labels d))) \<and>
     (case df_set d of None \<Rightarrow> \<not> df_writable d | Some f \<Rightarrow> df_writable d \<and> (df_id d = id_sys_power_state \<and> f = set_sys_power_state \<or> df_id d = id_sys_log_route \<and> f = set_sys_log_route))"

lemma labels_take: "take 8 kPowerStateLabels = kPowerStateLabels" "take 8 kLogRouteLabels = kLogRouteLabels"
  by (simp_all add: kPowerStateLabels_def kLogRouteLabels_def)

lemma tables_ok:
  "list_all definition_ok core_nodes" "list_all definition_ok proc_nodes" "list_all definition_ok device_nodes"
  "list_all definition_ok network_nodes" "list_all definition_ok driver_nodes"
  by (simp_all add: node_tables definition_ok_def plain_node_def callbacks KENUM_MAX_def labels_take)

lemma all_nodes_ok: "d \<in> set all_nodes \<Longrightarrow> definition_ok d"
  using tables_ok by (auto simp: all_nodes_def list_all_iff)

end
