(* ===== verification/KObjInv.thy ===== *)
theory KObjInv
  imports KObj KTreeInv
begin

text \<open>
  What a path resolves to. A path names a node that is attached to the tree, or an entry of a
  dynamic subtree or one of its leaves, and then carries the entry. With the tables well typed this
  gives the type of everything the tree returns.
\<close>

section \<open>Attached nodes\<close>

definition attached_ids :: "knode_id list" where
  "attached_ids = id_root # concat (map (\<lambda>d. case df_parent d of None \<Rightarrow> [] | Some _ \<Rightarrow> [df_id d]) (all_nodes :: (unit, unit, unit) node_definition list))"

lemma table_of_any: "table_of (all_nodes :: ('w, 'd, 'h) node_definition list) = table_of (all_nodes :: ('x, 'y, 'z) node_definition list)"
  unfolding all_nodes_def node_tables table_of_def by (simp add: plain_node_def)

lemma attached_ids_table: "n \<in> set attached_ids \<longleftrightarrow> n = id_root \<or> (\<exists>p. (n, Some p) \<in> set (table_of (all_nodes :: ('w, 'd, 'h) node_definition list)))"
proof -
  have "n \<in> set attached_ids \<longleftrightarrow> n = id_root \<or> (\<exists>p. (n, Some p) \<in> set (table_of (all_nodes :: (unit, unit, unit) node_definition list)))"
    by (force simp: attached_ids_def table_of_def split: option.splits)
  then show ?thesis using table_of_any [where 'w = 'w and 'd = 'd and 'h = 'h and 'x = unit and 'y = unit and 'z = unit] by metis
qed

lemma attached_definition:
  assumes "n \<in> set attached_ids" obtains d where "d \<in> set (all_nodes :: ('w, 'd, 'h) node_definition list)" "df_id d = n" "df_parent d \<noteq> None \<or> df_type d = TStruct"
proof (cases "n = id_root")
  case True
  have "plain_node id_root None [] TStruct \<in> set (all_nodes :: ('w, 'd, 'h) node_definition list)" by (simp add: all_nodes_def core_nodes_def)
  then show ?thesis using that [of "plain_node id_root None [] TStruct"] True by (simp add: plain_node_def)
next
  case False
  then obtain p where "(n, Some p) \<in> set (table_of (all_nodes :: ('w, 'd, 'h) node_definition list))" using assms attached_ids_table [where 'w = 'w and 'd = 'd and 'h = 'h] by blast
  then obtain d :: "('w, 'd, 'h) node_definition" where "d \<in> set all_nodes" "(n, Some p) = (df_id d, df_parent d)" unfolding table_of_def set_map by (rule imageE)
  then show ?thesis using that [of d] by (metis option.distinct(1) prod.inject)
qed

lemma children_in_table: "c \<in> set (children_in ds n) \<Longrightarrow> (c, Some n) \<in> set (table_of ds)"
  by (force simp: children_in_def table_of_def)

lemma registered_children_attached:
  fixes t :: "('w, 'd, 'h) ktree"
  assumes "registered all_nodes t" "n \<in> set attached_ids" "c \<in> set (kn_children (t n))" shows "c \<in> set attached_ids"
proof -
  obtain d :: "('w, 'd, 'h) node_definition" where "d \<in> set all_nodes" "df_id d = n" using attached_definition [OF assms(2)] by blast
  then have "kn_children (t n) = children_in (all_nodes :: ('w, 'd, 'h) node_definition list) n" using assms(1) by (auto simp: registered_def Let_def)
  then show ?thesis using assms(3) unfolding attached_ids_table [where 'w = 'w and 'd = 'd and 'h = 'h] using children_in_table by metis
qed

lemma walk_attached:
  "registered all_nodes t \<Longrightarrow> n \<in> set attached_ids \<Longrightarrow> walk_nodes t n s = Some m \<Longrightarrow> m \<in> set attached_ids"
proof (induction t n s rule: walk_nodes.induct)
  case (1 t n s)
  show ?case
  proof (cases "s = [] \<or> hd s = NUL")
    case True
    then show ?thesis using 1(4,5) by (simp add: walk_nodes.simps [of t n s])
  next
    case False
    let ?seg = "takeWhile (\<lambda>c. c \<noteq> CHR ''/'' \<and> c \<noteq> NUL) s"
    show ?thesis
    proof (cases "?seg = []")
      case True
      then show ?thesis using 1(1) [OF False refl True 1(3,4)] 1(5) False by (simp add: walk_nodes.simps [of t n s])
    next
      case ne: False
      then obtain c where c: "find_child t n ?seg = Some c" "walk_nodes t c (dropWhile (\<lambda>c. c = CHR ''/'') (drop (length ?seg) s)) = Some m"
        using 1(5) False by (auto simp: walk_nodes.simps [of t n s] Let_def split: option.splits)
      have "c \<in> set (kn_children (t n))" using c(1) by (auto simp: find_child_def find_Some_iff)
      then have "c \<in> set attached_ids" by (rule registered_children_attached [OF 1(3,4)])
      then show ?thesis using 1(2) [OF False refl ne c(1) 1(3)] c(2) by blast
    qed
  qed
qed

section \<open>Dynamic nodes\<close>

fun dynamic_ids :: "virtual_kind \<Rightarrow> knode_id list" where
  "dynamic_ids kind_none = []"
| "dynamic_ids kind_proc_task = [id_proc_pid, id_proc_pid_id, id_proc_pid_state, id_proc_pid_cpu, id_proc_pid_cpu_ticks, id_proc_pid_name]"
| "dynamic_ids kind_block_device = [id_dev_block_entry, id_dev_block_entry_name, id_dev_block_entry_size_kb, id_dev_block_entry_block_size, id_dev_block_entry_removable]"
| "dynamic_ids kind_pci_device = [id_dev_pci_entry, id_dev_pci_entry_bus, id_dev_pci_entry_device, id_dev_pci_entry_function, id_dev_pci_entry_vendor_id,
     id_dev_pci_entry_device_id, id_dev_pci_entry_class_code, id_dev_pci_entry_subclass, id_dev_pci_entry_prog_if, id_dev_pci_entry_revision, id_dev_pci_entry_irq_line]"
| "dynamic_ids kind_net_device = [id_dev_net_entry, id_dev_net_entry_name, id_dev_net_entry_mac, id_dev_net_entry_mtu, id_dev_net_entry_link_up, id_dev_net_entry_ipv4_address]"
| "dynamic_ids kind_arp_entry = [id_net_arp_entry, id_net_arp_entry_ip, id_net_arp_entry_mac]"
| "dynamic_ids kind_driver_entry = [id_driver_entry, id_driver_entry_name, id_driver_entry_type, id_driver_entry_loaded]"

definition carries_entry :: "('w, 'd, 'h) resolved_node \<Rightarrow> bool" where
  "carries_entry r \<longleftrightarrow>
     (rn_task r \<noteq> None \<longleftrightarrow> rn_kind r = kind_proc_task) \<and> (rn_kind r = kind_block_device \<longrightarrow> rn_block r \<noteq> None) \<and> (rn_kind r = kind_pci_device \<longrightarrow> rn_pci r \<noteq> None) \<and>
     (rn_kind r = kind_net_device \<longrightarrow> rn_net r \<noteq> None) \<and> (rn_kind r = kind_arp_entry \<longrightarrow> rn_arp r \<noteq> None) \<and> (rn_kind r = kind_driver_entry \<longrightarrow> rn_driver r \<noteq> None)"

definition resolved_ok :: "('w, 'd, 'h) resolved_node \<Rightarrow> bool" where
  "resolved_ok r \<longleftrightarrow> carries_entry r \<and>
     (\<forall>n. rn_node r = Some n \<longrightarrow> n \<in> set (if rn_kind r = kind_none then attached_ids else dynamic_ids (rn_kind r)))"

lemma no_node_ok [simp]: "resolved_ok no_node"
  by (simp add: resolved_ok_def carries_entry_def no_node_def)

lemma make_resolved_ok: "n \<in> set attached_ids \<Longrightarrow> resolved_ok (make_resolved n)"
  by (simp add: resolved_ok_def carries_entry_def no_node_def make_resolved_def)

lemma static_ok [simp]:
  "resolved_ok (make_resolved id_root)" "resolved_ok (make_resolved id_proc)" "resolved_ok (make_resolved id_proc_count)" "resolved_ok (make_resolved id_dev_block)"
  "resolved_ok (make_resolved id_dev_pci)" "resolved_ok (make_resolved id_dev_pci_count)" "resolved_ok (make_resolved id_dev_net)" "resolved_ok (make_resolved id_dev_net_count)"
  "resolved_ok (make_resolved id_driver)" "resolved_ok (make_resolved id_driver_registered_count)" "resolved_ok (make_resolved id_driver_loaded_count)"
  "resolved_ok (make_resolved id_net)" "resolved_ok (make_resolved id_net_device_count)" "resolved_ok (make_resolved id_net_primary_device)"
  "resolved_ok (make_resolved id_net_background_rx)" "resolved_ok (make_resolved id_net_ipv4)" "resolved_ok (make_resolved id_net_ipv4_configured_count)"
  "resolved_ok (make_resolved id_net_arp)" "resolved_ok (make_resolved id_net_arp_count)"
  by (rule make_resolved_ok, simp add: attached_ids_def all_nodes_def node_tables plain_node_def)+

lemma entry_or_leaf_ok:
  assumes "resolved_ok r" "rn_kind r \<noteq> kind_none" "\<forall>x \<in> set leaves. snd x \<in> set (dynamic_ids (rn_kind r))"
  shows "resolved_ok (entry_or_leaf r p e leaves)"
proof (cases "find (\<lambda>(name, n). sv_compare (drop (e + 1) p) name) leaves")
  case (Some x)
  then have "x \<in> set leaves" by (auto simp: find_Some_iff in_set_conv_nth)
  then show ?thesis using assms Some
    by (auto simp: entry_or_leaf_def pick_leaf_def resolved_ok_def carries_entry_def no_node_def split: prod.splits)
qed (use assms in \<open>simp add: entry_or_leaf_def pick_leaf_def\<close>)

lemma entries_ok [simp]:
  "resolved_ok ((make_resolved id_proc_pid)\<lparr>rn_kind := kind_proc_task, rn_task := Some t, rn_name := nm\<rparr>)"
  "resolved_ok ((make_resolved id_dev_block_entry)\<lparr>rn_kind := kind_block_device, rn_block := Some bd, rn_name := nm\<rparr>)"
  "resolved_ok ((make_resolved id_dev_pci_entry)\<lparr>rn_kind := kind_pci_device, rn_pci := Some pd, rn_name := nm\<rparr>)"
  "resolved_ok ((make_resolved id_dev_net_entry)\<lparr>rn_kind := kind_net_device, rn_net := Some nd, rn_name := nm\<rparr>)"
  "resolved_ok ((make_resolved id_net_arp_entry)\<lparr>rn_kind := kind_arp_entry, rn_arp := Some ae, rn_name := nm\<rparr>)"
  "resolved_ok ((make_resolved id_driver_entry)\<lparr>rn_kind := kind_driver_entry, rn_driver := Some dd, rn_name := nm\<rparr>)"
  by (simp_all add: resolved_ok_def carries_entry_def make_resolved_def no_node_def)

lemma resolve_proc_ok: "resolved_ok (resolve_proc_path s path)"
  unfolding resolve_proc_path_def Let_def by (simp split: option.splits add: entry_or_leaf_ok)

lemma resolve_block_ok: "resolved_ok (resolve_block_path s path)"
  unfolding resolve_block_path_def Let_def by (simp split: option.splits add: entry_or_leaf_ok)

lemma resolve_pci_ok: "resolved_ok (resolve_pci_path s path)"
  unfolding resolve_pci_path_def Let_def by (simp split: option.splits add: entry_or_leaf_ok)

lemma resolve_net_device_ok: "resolved_ok (resolve_net_device_path s path)"
  unfolding resolve_net_device_path_def Let_def by (simp split: option.splits add: entry_or_leaf_ok)

lemma resolve_driver_ok: "resolved_ok (resolve_driver_path s path)"
  unfolding resolve_driver_path_def Let_def by (simp split: option.splits add: entry_or_leaf_ok)

lemma resolve_net_stack_ok: "resolved_ok (snd (resolve_net_stack_path s path :: net_state \<times> ('w, 'd, 'h) resolved_node))"
  unfolding resolve_net_stack_path_def Let_def by (simp split: option.splits prod.splits add: entry_or_leaf_ok)

section \<open>Resolving a path\<close>

text \<open>The invariant of the object tree: registered as the tables say, with the kernel state the callbacks rely on.\<close>

definition kobj_inv :: "('w, 'd, 'h) kobj \<Rightarrow> bool" where
  "kobj_inv ob \<longleftrightarrow> (ko_initialized ob \<longrightarrow> registered all_nodes (ko_nodes ob)) \<and> sys_ok (ko_sys ob)"

text \<open>Two states that differ at most in the lazily initialised parts of the network stack.\<close>

definition same_but_net :: "('w, 'd, 'h) ksys \<Rightarrow> ('w, 'd, 'h) ksys \<Rightarrow> bool" where
  "same_but_net k k' \<longleftrightarrow> (\<exists>net. k' = ((fst k)\<lparr>kw_net := net\<rparr>, snd k))"

lemma same_but_net_refl [simp]: "same_but_net k k"
  unfolding same_but_net_def by (intro exI [of _ "kw_net (fst k)"]) (simp add: prod_eq_iff)

lemma same_but_net_ok: "sys_ok k \<Longrightarrow> same_but_net k k' \<Longrightarrow> sys_ok k'"
  by (auto simp: same_but_net_def sys_ok_def)

lemma set_net_simps [simp]: "ko_nodes (set_net ob s) = ko_nodes ob" "ko_initialized (set_net ob s) = ko_initialized ob"
  "same_but_net (ko_sys ob) (ko_sys (set_net ob s))" "ko_sys (set_net ob s) = ((fst (ko_sys ob))\<lparr>kw_net := s\<rparr>, snd (ko_sys ob))"
  by (auto simp: set_net_def same_but_net_def)

lemma resolve_internal_ok:
  fixes ob :: "('w, 'd, 'h) kobj"
  assumes "kobj_inv ob"
  obtains ob' r where "resolve_internal ob path = Some (ob', r)" "kobj_inv ob'" "ko_initialized ob'" "registered all_nodes (ko_nodes ob')"
    "same_but_net (ko_sys ob) (ko_sys ob')" "resolved_ok r"
proof -
  obtain ob1 where ob1: "kobj_init ob = Some ob1" "ko_initialized ob1" "registered all_nodes (ko_nodes ob1)" "ko_sys ob1 = ko_sys ob"
    using kobj_init_registered assms unfolding kobj_inv_def by blast
  show thesis
  proof (cases path)
    case None
    then show thesis using that [of ob1 no_node] ob1 assms by (simp add: resolve_internal_def kobj_inv_def)
  next
    case (Some s)
    define p where "p = dropWhile (\<lambda>c. c = CHR ''/'') s"
    obtain net and rn :: "('w, 'd, 'h) resolved_node" where net: "resolve_net_stack_path (kw_net (fst (ko_sys ob1))) p = (net, rn)" by fastforce
    have "resolved_ok rn" using resolve_net_stack_ok [of "kw_net (fst (ko_sys ob1))" p, where 'w = 'w and 'd = 'd and 'h = 'h] by (simp add: net)
    moreover have w: "resolved_ok (case walk_nodes (ko_nodes ob1) id_root p of None \<Rightarrow> no_node | Some n \<Rightarrow> make_resolved n)"
      using walk_attached [OF ob1(3), of id_root p] by (auto split: option.splits intro: make_resolved_ok simp: attached_ids_def)
    moreover have "kobj_inv (set_net ob1 net)" "kobj_inv ob1" using assms ob1 same_but_net_ok by (auto simp: kobj_inv_def sys_ok_def)
    ultimately show thesis using ob1 Some net set_net_simps(3) [of ob1 net]
      by (cases "resolve_internal ob path")
        (auto intro!: that simp: resolve_internal_def p_def [symmetric] Let_def resolve_proc_ok resolve_block_ok resolve_pci_ok resolve_net_device_ok resolve_driver_ok
          split: if_splits)
  qed
qed

end
