(* ===== verification/KObjVal.thy ===== *)
theory KObjVal
  imports KObjInv
begin

text \<open>
  The values the tree returns. A leaf reads as a value of its own type, an enumeration as the index
  of one of its labels; a node that holds other nodes is not readable. Reading and listing change
  no setting, and writing changes only the setting the path names.
\<close>

definition reads_as :: "KNodeSchema \<Rightarrow> KVal \<Rightarrow> bool" where
  "reads_as s v \<longleftrightarrow> fits (sch_type s) (take KENUM_MAX (sch_enum_labels s)) v \<or> sch_type s = TStruct \<and> v = err ''node is not readable''"

section \<open>Dynamic leaves\<close>

lemma registered_schema:
  fixes t :: "('w, 'd, 'h) ktree" and ds :: "('w, 'd, 'h) node_definition list"
  shows "registered all_nodes t \<Longrightarrow> set ds \<subseteq> set all_nodes \<Longrightarrow> list_all (\<lambda>d. kn_schema (t (df_id d)) = definition_schema d) ds"
  unfolding registered_def list_all_iff Let_def by blast

lemma table_schemas:
  fixes t :: "('w, 'd, 'h) ktree"
  assumes "registered all_nodes t"
  shows "list_all (\<lambda>d. kn_schema (t (df_id d)) = definition_schema d) (proc_nodes :: ('w, 'd, 'h) node_definition list)" "list_all (\<lambda>d. kn_schema (t (df_id d)) = definition_schema d) (device_nodes :: ('w, 'd, 'h) node_definition list)"
    "list_all (\<lambda>d. kn_schema (t (df_id d)) = definition_schema d) (network_nodes :: ('w, 'd, 'h) node_definition list)" "list_all (\<lambda>d. kn_schema (t (df_id d)) = definition_schema d) (driver_nodes :: ('w, 'd, 'h) node_definition list)"
  using assms by (auto intro!: registered_schema simp: all_nodes_def)

lemma proc_types:
  assumes "registered all_nodes t"
  shows "sch_type (kn_schema (t id_proc_pid)) = TStruct" "sch_type (kn_schema (t id_proc_pid_id)) = TU64"
    "sch_type (kn_schema (t id_proc_pid_state)) = TEnum" "sch_type (kn_schema (t id_proc_pid_cpu)) = TI64"
    "sch_type (kn_schema (t id_proc_pid_cpu_ticks)) = TU64" "sch_type (kn_schema (t id_proc_pid_name)) = TStr"
    "sch_enum_labels (kn_schema (t id_proc_pid_state)) = take KENUM_MAX kProcStateLabels"
  using table_schemas(1) [OF assms] by (simp_all add: proc_nodes_def plain_node_def definition_schema_def schema_reset_def)

lemma device_types:
  assumes "registered all_nodes t"
  shows "sch_type (kn_schema (t id_dev_block_entry)) = TStruct" "sch_type (kn_schema (t id_dev_block_entry_name)) = TStr"
    "sch_type (kn_schema (t id_dev_block_entry_size_kb)) = TU64" "sch_type (kn_schema (t id_dev_block_entry_block_size)) = TU64"
    "sch_type (kn_schema (t id_dev_block_entry_removable)) = TBool" "sch_type (kn_schema (t id_dev_pci_entry)) = TStruct"
    "sch_type (kn_schema (t id_dev_pci_entry_bus)) = TU64" "sch_type (kn_schema (t id_dev_pci_entry_device)) = TU64"
    "sch_type (kn_schema (t id_dev_pci_entry_function)) = TU64" "sch_type (kn_schema (t id_dev_pci_entry_vendor_id)) = TU64"
    "sch_type (kn_schema (t id_dev_pci_entry_device_id)) = TU64" "sch_type (kn_schema (t id_dev_pci_entry_class_code)) = TU64"
    "sch_type (kn_schema (t id_dev_pci_entry_subclass)) = TU64" "sch_type (kn_schema (t id_dev_pci_entry_prog_if)) = TU64"
    "sch_type (kn_schema (t id_dev_pci_entry_revision)) = TU64" "sch_type (kn_schema (t id_dev_pci_entry_irq_line)) = TU64"
  using table_schemas(2) [OF assms] by (simp_all add: device_nodes_def plain_node_def definition_schema_def schema_reset_def)

lemma network_types:
  assumes "registered all_nodes t"
  shows "sch_type (kn_schema (t id_dev_net_entry)) = TStruct" "sch_type (kn_schema (t id_dev_net_entry_name)) = TStr"
    "sch_type (kn_schema (t id_dev_net_entry_mac)) = TStr" "sch_type (kn_schema (t id_dev_net_entry_mtu)) = TU64"
    "sch_type (kn_schema (t id_dev_net_entry_link_up)) = TBool" "sch_type (kn_schema (t id_dev_net_entry_ipv4_address)) = TStr"
    "sch_type (kn_schema (t id_net_arp_entry)) = TStruct" "sch_type (kn_schema (t id_net_arp_entry_ip)) = TStr"
    "sch_type (kn_schema (t id_net_arp_entry_mac)) = TStr"
  using table_schemas(3) [OF assms] by (simp_all add: network_nodes_def plain_node_def definition_schema_def schema_reset_def)

lemma driver_types:
  assumes "registered all_nodes t"
  shows "sch_type (kn_schema (t id_driver_entry)) = TStruct" "sch_type (kn_schema (t id_driver_entry_name)) = TStr"
    "sch_type (kn_schema (t id_driver_entry_type)) = TEnum" "sch_type (kn_schema (t id_driver_entry_loaded)) = TBool"
    "sch_enum_labels (kn_schema (t id_driver_entry_type)) = take KENUM_MAX kDriverTypeLabels"
  using table_schemas(4) [OF assms] by (simp_all add: driver_nodes_def plain_node_def definition_schema_def schema_reset_def)

lemma task_state_label: "unat (task_state_index s) < length (take KENUM_MAX kProcStateLabels)"
  by (cases s) (simp_all add: KENUM_MAX_def kProcStateLabels_def)

lemma driver_type_label: "unat (driver_type_index ty) < length (take KENUM_MAX kDriverTypeLabels)"
  by (cases ty) (simp_all add: KENUM_MAX_def kDriverTypeLabels_def)

lemma proc_value_reads:
  assumes "registered all_nodes t" "rn_task r = Some tk" "rn_node r = Some n" "n \<in> set (dynamic_ids kind_proc_task)" "n \<noteq> id_proc_pid"
  shows "reads_as (kn_schema (t n)) (proc_query_value r)"
  using assms(2-) task_state_label
  by (auto simp: proc_types [OF assms(1)] reads_as_def proc_query_value_def)

lemma device_value_reads:
  assumes "registered all_nodes t" "rn_node r = Some n" "n \<in> set (dynamic_ids (rn_kind r))"
    "rn_kind r = kind_block_device \<and> rn_block r = Some bd \<or> rn_kind r = kind_pci_device \<and> rn_pci r = Some pd"
  shows "reads_as (kn_schema (t n)) (device_query_value r)"
  using assms(2-)
  by (auto simp: device_types [OF assms(1)] reads_as_def device_query_value_def block_value_def pci_value_def)

lemma kval_text_fits [simp]: "fits TStr ls (format_mac_kval m)" "fits TStr ls (format_ipv4_kval i)"
  by (simp_all add: format_mac_kval_def format_ipv4_kval_def)

lemma network_value_reads:
  assumes "registered all_nodes t" "rn_node r = Some n" "n \<in> set (dynamic_ids (rn_kind r))"
    "rn_kind r = kind_net_device \<and> rn_net r = Some nd \<or> rn_kind r = kind_arp_entry \<and> rn_arp r = Some ae"
  shows "reads_as (kn_schema (t n)) (snd (network_query_value s r))"
  using assms(2-)
  by (auto simp: network_types [OF assms(1)] reads_as_def network_query_value_def net_device_value_def arp_value_def split: prod.splits option.splits)

lemma driver_value_reads:
  assumes "registered all_nodes t" "rn_node r = Some n" "n \<in> set (dynamic_ids (rn_kind r))" "rn_kind r = kind_driver_entry" "rn_driver r = Some dd"
  shows "reads_as (kn_schema (t n)) (driver_query_value reg r)"
  using assms(2-) driver_type_label
  by (auto simp: driver_types [OF assms(1)] reads_as_def driver_query_value_def)

lemma proc_leaf: "resolved_ok r \<Longrightarrow> resolved_is_proc_leaf r \<longleftrightarrow> rn_kind r = kind_proc_task \<and> rn_node r \<noteq> None \<and> rn_node r \<noteq> Some id_proc_pid"
  by (auto simp: resolved_is_proc_leaf_def resolved_ok_def carries_entry_def split: option.splits)

lemma dynamic_leaf:
  "resolved_ok r \<Longrightarrow> resolved_is_dynamic_leaf r \<longleftrightarrow> rn_kind r \<noteq> kind_none \<and> rn_node r \<noteq> None \<and> rn_node r \<noteq> Some id_proc_pid"
  unfolding resolved_is_dynamic_leaf_def using proc_leaf [of r]
  by (cases "rn_kind r") (auto simp: resolved_ok_def carries_entry_def)

lemma query_dynamic_reads:
  assumes "registered all_nodes (ko_nodes ob)" "resolved_ok r" "rn_node r = Some n" "resolved_is_dynamic_leaf r" "query_dynamic_value ob r = (ob', v)"
  shows "reads_as (kn_schema (ko_nodes ob n)) v" "ko_nodes ob' = ko_nodes ob" "ko_initialized ob' = ko_initialized ob" "same_but_net (ko_sys ob) (ko_sys ob')"
proof -
  have kind: "rn_kind r \<noteq> kind_none" "n \<noteq> id_proc_pid" using dynamic_leaf [OF assms(2)] assms(3,4) by auto
  have n: "n \<in> set (dynamic_ids (rn_kind r))" using assms(2,3) kind by (simp add: resolved_ok_def)
  have q: "query_dynamic_value ob r = (if rn_kind r = kind_proc_task then (ob, proc_query_value r)
      else if rn_kind r = kind_net_device \<or> rn_kind r = kind_arp_entry then (let (s, v) = network_query_value (kw_net (fst (ko_sys ob))) r in (set_net ob s, v))
      else if rn_kind r = kind_driver_entry then (ob, driver_query_value (snd (ko_sys ob)) r) else (ob, device_query_value r))"
    using kind proc_leaf [OF assms(2)] assms(3) by (cases "rn_kind r") (auto simp: query_dynamic_value_def)
  show "ko_nodes ob' = ko_nodes ob" "ko_initialized ob' = ko_initialized ob" "same_but_net (ko_sys ob) (ko_sys ob')"
    using assms(5) q by (auto split: if_splits prod.splits simp del: set_net_simps(4))
  have c: "carries_entry r" using assms(2) by (simp add: resolved_ok_def)
  show "reads_as (kn_schema (ko_nodes ob n)) v"
  proof (cases "rn_kind r")
    case kind_proc_task
    then show ?thesis using assms(5) q c n kind(2) proc_value_reads [OF assms(1) _ assms(3)] by (auto simp: carries_entry_def)
  next
    case kind_block_device
    then show ?thesis using assms(5) q c device_value_reads [OF assms(1,3) n] by (auto simp: carries_entry_def)
  next
    case kind_pci_device
    then show ?thesis using assms(5) q c device_value_reads [OF assms(1,3) n] by (auto simp: carries_entry_def)
  next
    case kind_net_device
    then have "v = snd (network_query_value (kw_net (fst (ko_sys ob))) r)" using assms(5) q by (auto split: prod.splits)
    then show ?thesis using kind_net_device c network_value_reads [OF assms(1,3) n] by (auto simp: carries_entry_def)
  next
    case kind_arp_entry
    then have "v = snd (network_query_value (kw_net (fst (ko_sys ob))) r)" using assms(5) q by (auto split: prod.splits)
    then show ?thesis using kind_arp_entry c network_value_reads [OF assms(1,3) n] by (auto simp: carries_entry_def)
  next
    case kind_driver_entry
    then show ?thesis using assms(5) q c driver_value_reads [OF assms(1,3) n] by (auto simp: carries_entry_def)
  qed (use kind in simp)
qed

section \<open>Static nodes\<close>

text \<open>What a path resolves to besides the dynamic leaves comes from a definition that is readable or holds other nodes.\<close>

lemma static_definition:
  fixes r :: "('w, 'd, 'h) resolved_node"
  assumes "resolved_ok r" "rn_node r = Some n" "\<not> resolved_is_dynamic_leaf r"
  obtains d :: "('w, 'd, 'h) node_definition" where "d \<in> set all_nodes" "df_id d = n" "df_parent d \<noteq> None \<or> df_type d = TStruct"
proof (cases "rn_kind r = kind_none")
  case True
  then have "n \<in> set attached_ids" using assms(1,2) by (simp add: resolved_ok_def)
  then show ?thesis using that attached_definition by blast
next
  case False
  then have "n = id_proc_pid" using dynamic_leaf [OF assms(1)] assms(2,3) by simp
  moreover have "plain_node id_proc_pid None ''<pid>'' TStruct \<in> set (all_nodes :: ('w, 'd, 'h) node_definition list)" by (simp add: all_nodes_def proc_nodes_def)
  ultimately show ?thesis using that [of "plain_node id_proc_pid None ''<pid>'' TStruct"] by (simp add: plain_node_def)
qed

lemma node_of_definition:
  assumes "registered all_nodes t" "d \<in> set all_nodes"
  shows "kn_schema (t (df_id d)) = definition_schema d" "kn_get_fn (t (df_id d)) = df_get d" "kn_set_fn (t (df_id d)) = df_set d"
  using assms by (auto simp: registered_def Let_def)

lemma schema_of_definition [simp]:
  "sch_type (definition_schema d) = df_type d" "sch_enum_labels (definition_schema d) = take KENUM_MAX (df_labels d)" "sch_writable (definition_schema d) = df_writable d"
  by (simp_all add: definition_schema_def schema_reset_def)

lemma static_reads:
  fixes t :: "('w, 'd, 'h) ktree" and r :: "('w, 'd, 'h) resolved_node"
  assumes "registered all_nodes t" "resolved_ok r" "rn_node r = Some n" "\<not> resolved_is_dynamic_leaf r" "sys_ok k"
  shows "if readable (t n) then \<exists>k' v. knode_read (t n) k = Some (k', v) \<and> sys_ok k' \<and> reads_as (kn_schema (t n)) v else sch_type (kn_schema (t n)) = TStruct"
proof -
  obtain d :: "('w, 'd, 'h) node_definition" where d: "d \<in> set all_nodes" "df_id d = n" "df_parent d \<noteq> None \<or> df_type d = TStruct"
    using static_definition [OF assms(2-4)] by blast
  note t = node_of_definition [OF assms(1) d(1), unfolded d(2)]
  have ok: "definition_ok d" using all_nodes_ok [OF d(1)] .
  show ?thesis
  proof (cases "df_get d")
    case None
    then show ?thesis using ok d(3) t by (auto simp: definition_ok_def readable_def)
  next
    case (Some f)
    then have "returns f (df_type d) (take KENUM_MAX (df_labels d))" using ok by (simp add: definition_ok_def)
    then obtain k' v where "f k = Some (k', v)" "sys_ok k'" "fits (df_type d) (take KENUM_MAX (df_labels d)) v" using assms(5) unfolding returns_def by blast
    then show ?thesis using t Some by (auto simp: readable_def knode_read_def reads_as_def)
  qed
qed

text \<open>The nodes that can be written.\<close>

lemma static_writes:
  fixes t :: "('w, 'd, 'h) ktree" and r :: "('w, 'd, 'h) resolved_node"
  assumes "registered all_nodes t" "resolved_ok r" "rn_node r = Some n" "\<not> resolved_is_dynamic_leaf r" "writable (t n)"
  shows "n = id_sys_power_state \<and> kn_set_fn (t n) = Some set_sys_power_state \<or> n = id_sys_log_route \<and> kn_set_fn (t n) = Some set_sys_log_route"
proof -
  obtain d :: "('w, 'd, 'h) node_definition" where d: "d \<in> set all_nodes" "df_id d = n" using static_definition [OF assms(2-4)] by blast
  note t = node_of_definition [OF assms(1) d(1), unfolded d(2)]
  show ?thesis using all_nodes_ok [OF d(1)] t d(2) assms(5) by (auto simp: definition_ok_def writable_def split: option.splits)
qed

lemma setting_callbacks:
  assumes "registered all_nodes (t :: ('w, 'd, 'h) ktree)"
  shows "kn_get_fn (t id_sys_power_state) = Some get_sys_power_state" "kn_get_fn (t id_sys_log_route) = Some get_sys_log_route"
proof -
  have "list_all (\<lambda>d. kn_get_fn (t (df_id d)) = df_get d) (core_nodes :: ('w, 'd, 'h) node_definition list)"
    using assms by (auto simp: registered_def list_all_iff Let_def all_nodes_def)
  then show "kn_get_fn (t id_sys_power_state) = Some get_sys_power_state" "kn_get_fn (t id_sys_log_route) = Some get_sys_log_route"
    by (simp_all add: core_nodes_def plain_node_def)
qed

end
