(* ===== verification/KObjSpec.thy ===== *)
theory KObjSpec
  imports KObjVal SchedSpec NetSpec FsSpec SoundSpec
begin

text \<open>
  The properties of the object tree: every query returns a value of the type the node is described
  with, a write that succeeds is what the next read returns and changes nothing else, and the
  process entries show the scheduler's tasks.
\<close>

section \<open>Resolving twice\<close>

text \<open>The search for a path as a function of the components it looks at.\<close>

definition resolve_at :: "('w, 'd, 'h) ktree \<Rightarrow> sched \<Rightarrow> 'w block_registry \<Rightarrow> pci_table \<Rightarrow> ('w, 'd, 'h) driver_registry \<Rightarrow> net_state \<Rightarrow> string
    \<Rightarrow> net_state \<times> ('w, 'd, 'h) resolved_node" where
  "resolve_at t sc blks pci reg net p =
     (if p = [] \<or> hd p = NUL then (net, make_resolved id_root)
      else case filter (\<lambda>r. rn_node r \<noteq> None) [resolve_proc_path sc p, resolve_block_path blks p, resolve_pci_path pci p, resolve_net_device_path net p] of
        r # _ \<Rightarrow> (net, r)
      | [] \<Rightarrow>
          let (net, r) = resolve_net_stack_path net p in
          if rn_node r \<noteq> None then (net, r)
          else if rn_node (resolve_driver_path reg p) \<noteq> None then (net, resolve_driver_path reg p)
          else (net, case walk_nodes t id_root p of None \<Rightarrow> no_node | Some n \<Rightarrow> make_resolved n))"

abbreviation resolve_ob :: "('w, 'd, 'h) kobj \<Rightarrow> net_state \<Rightarrow> string \<Rightarrow> net_state \<times> ('w, 'd, 'h) resolved_node" where
  "resolve_ob ob \<equiv> resolve_at (ko_nodes ob) (kw_sched (fst (ko_sys ob))) (fs_blocks (kw_fs (fst (ko_sys ob)))) (kw_pci (fst (ko_sys ob))) (snd (ko_sys ob))"

abbreviation skip_slashes :: "string \<Rightarrow> string" where
  "skip_slashes \<equiv> dropWhile (\<lambda>c. c = CHR ''/'')"

lemma set_net_same [simp]: "set_net ob (kw_net (fst (ko_sys ob))) = ob"
  by (simp add: set_net_def)

lemma resolve_internal_at:
  assumes "kobj_init ob = Some ob1"
  shows "resolve_internal ob (Some path) = Some (let (net, r) = resolve_ob ob1 (kw_net (fst (ko_sys ob1))) (skip_slashes path) in (set_net ob1 net, r))"
  unfolding resolve_internal_def assms
  by (simp add: resolve_at_def Let_def split: prod.splits list.splits)

text \<open>A path into the network stack either needs nothing of it, or one entry of the ARP cache.\<close>

lemma net_stack_shape:
  "(\<exists>r :: ('w, 'd, 'h) resolved_node. \<forall>net. resolve_net_stack_path net path = (net, r)) \<or>
   (\<exists>i (f :: _ \<Rightarrow> ('w, 'd, 'h) resolved_node). \<forall>net. resolve_net_stack_path net path = (net\<lparr>net_arp := fst (cache_entry (net_arp net) i)\<rparr>, f (snd (cache_entry (net_arp net) i))))"
proof -
  define p where "p = sv_remove_prefix (sv_remove_prefix path 3) 1"
  define seg where "seg = path_segment (sv_remove_prefix p 4)"
  define named where "named = find (\<lambda>(name, n). sv_compare p name)
     [(''device_count'', id_net_device_count), (''primary_device'', id_net_primary_device), (''background_rx'', id_net_background_rx),
      (''ipv4'', id_net_ipv4), (''ipv4/configured_count'', id_net_ipv4_configured_count), (''arp'', id_net_arp), (''arp/count'', id_net_arp_count)]"
  show ?thesis
  proof (cases "sv_starts_with path ''net'' \<and> sv_remove_prefix path 3 \<noteq> [] \<and> hd (sv_remove_prefix path 3) = CHR ''/'' \<and> p \<noteq> [] \<and>
      named = None \<and> sv_starts_with p ''arp/'' \<and> parse_u64_segment seg \<noteq> None")
    case True
    then obtain i where i: "parse_u64_segment seg = Some i" by blast
    let ?f = "\<lambda>e. case e of None \<Rightarrow> no_node :: ('w, 'd, 'h) resolved_node
      | Some e \<Rightarrow> entry_or_leaf ((make_resolved id_net_arp_entry)\<lparr>rn_kind := kind_arp_entry, rn_arp := Some e, rn_name := Some (kstr_set seg)\<rparr>)
          (sv_remove_prefix p 4) (length seg) [(''ip'', id_net_arp_entry_ip), (''mac'', id_net_arp_entry_mac)]"
    have "resolve_net_stack_path net path = (net\<lparr>net_arp := fst (cache_entry (net_arp net) (unat i))\<rparr>, ?f (snd (cache_entry (net_arp net) (unat i))))" for net
      using True i unfolding resolve_net_stack_path_def Let_def p_def [symmetric] seg_def [symmetric] named_def [symmetric]
      by (simp add: case_prod_beta split: option.splits del: sv_starts_with.simps)
    then show ?thesis by blast
  next
    case False
    have "\<exists>r :: ('w, 'd, 'h) resolved_node. \<forall>net. resolve_net_stack_path net path = (net, r)"
      using False unfolding resolve_net_stack_path_def Let_def p_def [symmetric] seg_def [symmetric] named_def [symmetric]
      by (cases "sv_starts_with path ''net''"; cases "sv_remove_prefix path 3 = []"; cases "hd (sv_remove_prefix path 3) = CHR ''/''"; cases "p = []";
          cases named; cases "sv_starts_with p ''arp/''"; cases "parse_u64_segment seg") (simp_all add: case_prod_beta del: sv_starts_with.simps)
    then show ?thesis ..
  qed
qed

lemma cache_entry_again: "cache_entry (fst (cache_entry c i)) i = cache_entry c i"
  by (simp add: cache_entry_def Let_def arp_init_def)

lemma net_stack_again:
  fixes r :: "('w, 'd, 'h) resolved_node"
  assumes "resolve_net_stack_path net p = (net', r)"
  shows "(\<exists>c. net' = net\<lparr>net_arp := c\<rparr>) \<and> resolve_net_stack_path net' p = (net', r)"
  using net_stack_shape [of p, where 'w = 'w and 'd = 'd and 'h = 'h]
proof (elim disjE exE)
  fix r' :: "('w, 'd, 'h) resolved_node"
  assume "\<forall>net. resolve_net_stack_path net p = (net, r')"
  then have "net' = net\<lparr>net_arp := net_arp net\<rparr>" "resolve_net_stack_path net' p = (net', r)" using assms by auto
  then show ?thesis by blast
next
  fix i and f :: "_ \<Rightarrow> ('w, 'd, 'h) resolved_node"
  assume "\<forall>net. resolve_net_stack_path net p = (net\<lparr>net_arp := fst (cache_entry (net_arp net) i)\<rparr>, f (snd (cache_entry (net_arp net) i)))"
  then have "net' = net\<lparr>net_arp := fst (cache_entry (net_arp net) i)\<rparr>" "resolve_net_stack_path net' p = (net', r)"
    using assms by (auto simp: cache_entry_again)
  then show ?thesis by blast
qed

lemma net_find_arp [simp]: "net_find (net\<lparr>net_arp := c\<rparr>) name = net_find net name"
  by (simp add: net_find_def)

lemma net_device_path_arp [simp]: "resolve_net_device_path (net\<lparr>net_arp := c\<rparr>) p = resolve_net_device_path net p"
  unfolding resolve_net_device_path_def Let_def by simp

lemma resolve_at_again:
  fixes r :: "('w, 'd, 'h) resolved_node"
  assumes "resolve_at t sc blks pci reg net p = (net', r)" shows "resolve_at t sc blks pci reg net' p = (net', r)"
proof -
  obtain net1 and r1 :: "('w, 'd, 'h) resolved_node" where n: "resolve_net_stack_path net p = (net1, r1)" by fastforce
  have "net' = net \<or> net' = net1" using assms n by (auto simp: resolve_at_def split: if_splits list.splits)
  then show ?thesis
  proof
    assume n1: "net' = net1"
    obtain c where "net1 = net\<lparr>net_arp := c\<rparr>" "resolve_net_stack_path net1 p = (net1, r1)" using net_stack_again [OF n] by blast
    then show ?thesis using assms n n1 by (auto simp: resolve_at_def split: if_splits list.splits)
  qed (use assms in simp)
qed

lemma resolve_internal_again:
  assumes "resolve_internal ob path = Some (ob1, r)" "ko_nodes ob2 = ko_nodes ob1" "ko_initialized ob2"
    "kw_sched (fst (ko_sys ob2)) = kw_sched (fst (ko_sys ob1))" "kw_fs (fst (ko_sys ob2)) = kw_fs (fst (ko_sys ob1))"
    "kw_pci (fst (ko_sys ob2)) = kw_pci (fst (ko_sys ob1))" "kw_net (fst (ko_sys ob2)) = kw_net (fst (ko_sys ob1))" "snd (ko_sys ob2) = snd (ko_sys ob1)"
  shows "resolve_internal ob2 path = Some (ob2, r)"
proof -
  have i2: "kobj_init ob2 = Some ob2" using assms(3) by (simp add: kobj_init_def)
  obtain ob0 where i: "kobj_init ob = Some ob0" using assms(1) by (auto simp: resolve_internal_def)
  show ?thesis
  proof (cases path)
    case None
    then show ?thesis using assms(1) i i2 by (simp add: resolve_internal_def)
  next
    case (Some s)
    then obtain net where "resolve_ob ob0 (kw_net (fst (ko_sys ob0))) (skip_slashes s) = (net, r)" and o1: "ob1 = set_net ob0 net"
      using assms(1) resolve_internal_at [OF i] by (auto split: prod.splits)
    then have "resolve_ob ob0 net (skip_slashes s) = (net, r)" using resolve_at_again by blast
    then have "resolve_ob ob2 (kw_net (fst (ko_sys ob2))) (skip_slashes s) = (kw_net (fst (ko_sys ob2)), r)" using assms(2-) o1 by simp
    then show ?thesis using resolve_internal_at [OF i2] Some by simp
  qed
qed

section \<open>Queries\<close>

text \<open>
  C35. The object tree is well typed. Whatever the path, a query returns (it does not panic and
  the callbacks end), keeps the invariant of the tree, and when the path names a node the value it
  returns has the type that the description of the node gives, an enumeration value having one of
  the labels of the description; only nodes that hold other nodes answer that they are not readable.
\<close>

theorem kquery_well_typed:
  assumes "kobj_inv ob"
  shows "\<exists>ob' res. kquery ob path = Some (ob', res) \<and> kobj_inv ob' \<and>
    (\<forall>v info. res = Some (v, info) \<longrightarrow>
       kval_tag v = ni_type info \<and> (\<forall>i. v = VEnum i \<longrightarrow> unat i < length (ni_enum_labels info)) \<or>
       ni_type info = TStruct \<and> v = err ''node is not readable'')"
proof -
  obtain ob1 r where r: "resolve_internal ob path = Some (ob1, r)" "kobj_inv ob1" "registered all_nodes (ko_nodes ob1)" "resolved_ok r"
    using resolve_internal_ok [OF assms] by metis
  show ?thesis
  proof (cases "rn_node r")
    case None
    then show ?thesis using r by (simp add: kquery_def)
  next
    case (Some n)
    let ?s = "kn_schema (ko_nodes ob1 n)"
    obtain info where info: "fill_node_info ob1 r = Some info" "ni_type info = sch_type ?s" "ni_enum_labels info = take KENUM_MAX (sch_enum_labels ?s)"
      using Some by (simp add: fill_node_info_def Let_def)
    have typed: "kval_tag v = ni_type info \<and> (\<forall>i. v = VEnum i \<longrightarrow> unat i < length (ni_enum_labels info)) \<or>
       ni_type info = TStruct \<and> v = err ''node is not readable''" if "reads_as ?s v" for v
      using that info(2,3) by (auto simp: reads_as_def fits_def)
    show ?thesis
    proof (cases "resolved_is_dynamic_leaf r")
      case True
      obtain ob2 v where q: "query_dynamic_value ob1 r = (ob2, v)" by fastforce
      note Q = query_dynamic_reads [OF r(3,4) Some True q]
      have "kobj_inv ob2" using r(2) Q(2,3) same_but_net_ok [OF _ Q(4)] by (simp add: kobj_inv_def)
      then show ?thesis using typed [OF Q(1)] r(1) Some info(1) True q by (simp add: kquery_def)
    next
      case False
      note S = static_reads [OF r(3,4) Some False, of "ko_sys ob1"]
      show ?thesis
      proof (cases "readable (ko_nodes ob1 n)")
        case True
        then obtain k v where "knode_read (ko_nodes ob1 n) (ko_sys ob1) = Some (k, v)" "sys_ok k" "reads_as ?s v" using S r(2) by (auto simp: kobj_inv_def)
        then show ?thesis using typed r Some info(1) False True by (simp add: kquery_def kobj_inv_def)
      next
        case nr: False
        then have "ni_type info = TStruct" using S r(2) info(2) by (simp add: kobj_inv_def)
        then show ?thesis using r Some info(1) False nr by (simp add: kquery_def)
      qed
    qed
  qed
qed

section \<open>Writes\<close>

lemma kget_again:
  assumes "resolve_internal ob path = Some (ob, r)" "rn_node r = Some n" "\<not> resolved_is_dynamic_leaf r"
    "kn_get_fn (ko_nodes ob n) = Some f" "f (ko_sys ob) = Some (ko_sys ob, v)"
  shows "kget ob path = Some (ob, v)"
  using assms by (simp add: kget_def kquery_def fill_node_info_def readable_def knode_read_def Let_def)

text \<open>
  C36. Writing. A write returns and keeps the invariant. It succeeds only for an enumeration value up
  to 2 and then changes the power state or the log route to it, and the next read of the same path
  returns the value written; a write that fails changes neither setting. Apart from the lazily
  initialised network stack nothing else changes.
\<close>

theorem kset_then_kget:
  assumes "kobj_inv ob"
  shows "\<exists>ob' ok. kset ob path v = Some (ob', ok) \<and> kobj_inv ob' \<and>
    (if ok
     then \<exists>i \<le> 2. v = VEnum i \<and> kget ob' path = Some (ob', v) \<and>
       (same_but_net ((fst (ko_sys ob))\<lparr>kw_power_state := i\<rparr>, snd (ko_sys ob)) (ko_sys ob') \<or>
        same_but_net ((fst (ko_sys ob))\<lparr>kw_log_route := i\<rparr>, snd (ko_sys ob)) (ko_sys ob'))
     else same_but_net (ko_sys ob) (ko_sys ob'))"
proof -
  obtain ob1 r where r: "resolve_internal ob path = Some (ob1, r)" "kobj_inv ob1" "ko_initialized ob1" "registered all_nodes (ko_nodes ob1)"
    "same_but_net (ko_sys ob) (ko_sys ob1)" "resolved_ok r"
    using resolve_internal_ok [OF assms] by metis
  show ?thesis
  proof (cases "\<exists>n. rn_node r = Some n \<and> \<not> resolved_is_dynamic_leaf r \<and> writable (ko_nodes ob1 n) \<and> sch_type (kn_schema (ko_nodes ob1 n)) = kval_tag v")
    case False
    then have "kset ob path v = Some (ob1, False)" using r(1) by (auto simp: kset_def split: option.splits)
    then show ?thesis using r(2,5) by (intro exI [of _ ob1] exI [of _ False]) simp
  next
    case True
    then obtain n where n: "rn_node r = Some n" "\<not> resolved_is_dynamic_leaf r" "writable (ko_nodes ob1 n)" "sch_type (kn_schema (ko_nodes ob1 n)) = kval_tag v" by blast
    have k: "kset ob path v = Some (let (k, ok) = knode_write (ko_nodes ob1 n) (ko_sys ob1) v in (ob1\<lparr>ko_sys := k\<rparr>, ok))"
      using r(1) n by (simp add: kset_def)
    have kn: "n = id_sys_power_state \<and> kn_set_fn (ko_nodes ob1 n) = Some set_sys_power_state \<or> n = id_sys_log_route \<and> kn_set_fn (ko_nodes ob1 n) = Some set_sys_log_route"
      using static_writes [OF r(4,6) n(1-3)] .
    show ?thesis
    proof (cases "\<exists>i \<le> 2. v = VEnum i")
      case False
      then have "knode_write (ko_nodes ob1 n) (ko_sys ob1) v = (ko_sys ob1, False)"
        using kn by (auto simp: knode_write_def set_sys_power_state_def set_sys_log_route_def not_le split: KVal.splits)
      then have "kset ob path v = Some (ob1, False)" using k by simp
      then show ?thesis using r(2,5) by (intro exI [of _ ob1] exI [of _ False]) simp
    next
      case True
      then obtain i where i: "i \<le> 2" "v = VEnum i" by blast
      obtain net where net: "ko_sys ob1 = ((fst (ko_sys ob))\<lparr>kw_net := net\<rparr>, snd (ko_sys ob))" using r(5) by (auto simp: same_but_net_def)
      note again = kget_again [OF resolve_internal_again [OF r(1)] n(1,2)]
      have written: ?thesis if "kset ob path v = Some (ob', True)" "kobj_inv ob'" "kget ob' path = Some (ob', v)"
          "same_but_net ((fst (ko_sys ob))\<lparr>kw_power_state := i\<rparr>, snd (ko_sys ob)) (ko_sys ob') \<or>
           same_but_net ((fst (ko_sys ob))\<lparr>kw_log_route := i\<rparr>, snd (ko_sys ob)) (ko_sys ob')" for ob'
        using that i unfolding ex_simps by (intro exI [of _ ob'] exI [of _ True]) auto
      from kn show ?thesis
      proof (elim disjE conjE)
        assume p: "n = id_sys_power_state" "kn_set_fn (ko_nodes ob1 n) = Some set_sys_power_state"
        let ?ob = "ob1\<lparr>ko_sys := ((fst (ko_sys ob1))\<lparr>kw_power_state := i\<rparr>, snd (ko_sys ob1))\<rparr>"
        have "kset ob path v = Some (?ob, True)" using k p i by (simp add: knode_write_def set_sys_power_state_def not_less)
        moreover have "same_but_net ((fst (ko_sys ob))\<lparr>kw_power_state := i\<rparr>, snd (ko_sys ob)) (ko_sys ?ob)"
          unfolding same_but_net_def by (rule exI [of _ net]) (simp add: net)
        moreover have "kobj_inv ?ob" using r(2) i(1) by (simp add: kobj_inv_def sys_ok_def)
        moreover have "kget ?ob path = Some (?ob, v)"
          using setting_callbacks(1) [OF r(4)] p(1) i(2) r(3) by (intro again [where f = get_sys_power_state]) (simp_all add: get_sys_power_state_def)
        ultimately show ?thesis by (intro written [of ?ob]) simp_all
      next
        assume p: "n = id_sys_log_route" "kn_set_fn (ko_nodes ob1 n) = Some set_sys_log_route"
        let ?ob = "ob1\<lparr>ko_sys := ((fst (ko_sys ob1))\<lparr>kw_log_route := i\<rparr>, snd (ko_sys ob1))\<rparr>"
        have "kset ob path v = Some (?ob, True)" using k p i by (simp add: knode_write_def set_sys_log_route_def not_less)
        moreover have "same_but_net ((fst (ko_sys ob))\<lparr>kw_log_route := i\<rparr>, snd (ko_sys ob)) (ko_sys ?ob)"
          unfolding same_but_net_def by (rule exI [of _ net]) (simp add: net)
        moreover have "kobj_inv ?ob" using r(2) i(1) by (simp add: kobj_inv_def sys_ok_def)
        moreover have "kget ?ob path = Some (?ob, v)"
          using setting_callbacks(2) [OF r(4)] p(1) i(2) r(3) by (intro again [where f = get_sys_log_route]) (simp_all add: get_sys_log_route_def)
        ultimately show ?thesis by (intro written [of ?ob]) simp_all
      qed
    qed
  qed
qed

section \<open>Processes\<close>

lemma dec_u64_segment: "takeWhile (\<lambda>c. c \<noteq> CHR ''/'') (dec_u64 v @ CHR ''/'' # s) = dec_u64 v" "takeWhile (\<lambda>c. c \<noteq> CHR ''/'') (dec_u64 v) = dec_u64 v"
proof -
  have "c \<noteq> CHR ''/''" if m: "c \<in> set (dec_u64 v)" for c
  proof
    assume "c = CHR ''/''"
    then obtain k where "k < 10" "CHR ''/'' = char_of (48 + k :: nat)" using dec_u64_chars [OF m] by auto
    then have "of_char (CHR ''/'') = 48 + k" using digit_char [of k] by simp
    then show False by simp
  qed
  then show "takeWhile (\<lambda>c. c \<noteq> CHR ''/'') (dec_u64 v @ CHR ''/'' # s) = dec_u64 v" "takeWhile (\<lambda>c. c \<noteq> CHR ''/'') (dec_u64 v) = dec_u64 v"
    by (simp_all add: takeWhile_eq_all_conv)
qed

lemma dec_u64_not_count: "dec_u64 v @ s \<noteq> ''count''" "dec_u64 v \<noteq> []"
proof -
  show ne: "dec_u64 v \<noteq> []" using dec_u64_parse [of v] by (auto simp: parse_u64_segment_def)
  show "dec_u64 v @ s \<noteq> ''count''"
  proof
    assume "dec_u64 v @ s = ''count''"
    then have "CHR ''c'' \<in> set (dec_u64 v)" using ne by (cases "dec_u64 v") auto
    then obtain k where "k < 10" "CHR ''c'' = char_of (48 + k :: nat)" using dec_u64_chars by blast
    then have "of_char (CHR ''c'') = 48 + k" "k < 10" using digit_char [of k] by simp_all
    then show False by simp
  qed
qed

lemma resolve_proc_leaf:
  assumes "snapshot_task s pid = Some t"
  shows "resolve_proc_path s (''proc/'' @ dec_u64 pid @ CHR ''/'' # leaf) =
    pick_leaf ((make_resolved id_proc_pid)\<lparr>rn_kind := kind_proc_task, rn_task := Some t, rn_name := Some (kstr_set (dec_u64 pid))\<rparr>) leaf
      [(''id'', id_proc_pid_id), (''state'', id_proc_pid_state), (''cpu'', id_proc_pid_cpu), (''cpu_ticks'', id_proc_pid_cpu_ticks), (''name'', id_proc_pid_name)]"
proof -
  have "sv_starts_with (''proc/'' @ x) ''proc''" "sv_remove_prefix (''proc/'' @ x) 4 = CHR ''/'' # x" "sv_remove_prefix (CHR ''/'' # x) 1 = x" for x
    unfolding sv_starts_with_iff by (simp_all add: sv_remove_prefix_def eval_nat_numeral)
  then show ?thesis
    unfolding resolve_proc_path_def Let_def path_segment_def using assms dec_u64_not_count(1) [of pid "CHR ''/'' # leaf"] dec_u64_not_count(2) [of pid]
    by (simp add: dec_u64_segment dec_u64_parse entry_or_leaf_def del: append_Cons sv_starts_with.simps)
qed

lemma snapshot_loop_take: "snapshot_loop s ts m = map (snapshot_of s) (take m (filter (\<lambda>t. t_state t \<noteq> terminated) ts))"
  by (induction s ts m rule: snapshot_loop.induct) auto

lemma snapshot_task_of_live:
  assumes "t \<in> set (take (g_task_count s) (g_tasks s))" "t_state t \<noteq> terminated" shows "snapshot_task s (t_id t) \<noteq> None"
proof -
  obtain i where "i < g_task_count s" "i < length (g_tasks s)" "g_tasks s ! i = t" using assms(1) by (auto simp: in_set_conv_nth)
  then have "live_task_index s (t_id t) \<noteq> None" using assms(2) by (auto simp: live_task_index_def find_None_iff)
  then show ?thesis by (auto simp: snapshot_task_def)
qed

lemma snapshot_task_id: "snapshot_task s pid = Some t \<Longrightarrow> sn_id t = pid"
  by (auto simp: snapshot_task_def live_task_index_def find_Some_iff snapshot_of_def)

lemma u64_digits_length: "length (u64_digits n v) \<le> n"
  by (induction n v rule: u64_digits.induct) auto

lemma dec_u64_no_nul: "NUL \<notin> set (dec_u64 v)"
proof
  assume "NUL \<in> set (dec_u64 v)"
  then obtain k where "k < 10" "NUL = char_of (48 + k :: nat)" using dec_u64_chars by blast
  then have "of_char NUL = 48 + k" using digit_char [of k] by simp
  then show False by simp
qed

lemma text_lengths: "length (fst (append_ch b c)) = length (fst b)" "length (fst (append_str b t)) = length (fst b)" "length (fst (render_u64 b v)) = length (fst b)"
proof -
  show ch: "length (fst (append_ch b c)) = length (fst b)" for b c by (simp add: append_ch_def Let_def split: prod.splits)
  show "length (fst (append_str b t)) = length (fst b)" for t unfolding append_str_def by (induction t arbitrary: b) (simp_all add: ch)
  then show "length (fst (render_u64 b v)) = length (fst b)" by (simp add: render_u64_def ch)
qed

lemma numeric_child: "c_str (fst (render_u64 (replicate KSTR_MAX NUL, 0) v)) = dec_u64 v"
proof -
  let ?b = "render_u64 (replicate KSTR_MAX NUL, 0) v"
  have "text_is (replicate KSTR_MAX NUL, 0) []" by (simp add: text_is_def KSTR_MAX_def)
  then have t: "text_is ?b (dec_u64 v)" using render_u64_text [of "(replicate KSTR_MAX NUL, 0)" "[]" v] by simp
  have len: "length (fst ?b) = KSTR_MAX" by (simp add: text_lengths)
  have "length (dec_u64 v) \<le> 21" using u64_digits_length [of 21 v] by (simp add: dec_u64_def)
  then have "snd ?b = length (dec_u64 v)" "take (snd ?b + 1) (fst ?b) = dec_u64 v @ [NUL]"
    using t len by (auto simp: text_is_def KSTR_MAX_def split: prod.splits)
  then obtain rest where b: "fst ?b = dec_u64 v @ NUL # rest" by (metis append_Cons append_Nil append_assoc append_take_drop_id)
  have "takeWhile (\<lambda>c. c \<noteq> NUL) (dec_u64 v @ NUL # rest) = dec_u64 v" using dec_u64_no_nul by (subst takeWhile_append2) auto
  then show ?thesis by (simp add: c_str_def b)
qed

lemma append_ids_length: "length (append_ids_from out k vs) = length out"
  by (induction out k vs rule: append_ids_from.induct) (simp_all add: append_numeric_child_name_def)

lemma append_ids_before: "i < k \<Longrightarrow> append_ids_from out k vs ! i = out ! i"
  by (induction out k vs rule: append_ids_from.induct) (simp_all add: append_numeric_child_name_def)

lemma append_ids_nth: "j < length vs \<Longrightarrow> k + j < length out \<Longrightarrow> append_ids_from out k vs ! (k + j) = (dec_u64 (vs ! j), TStruct)"
proof (induction out k vs arbitrary: j rule: append_ids_from.induct)
  case (2 out k v vs)
  show ?case
  proof (cases j)
    case 0
    then show ?thesis using 2(3) append_ids_before [of k "Suc k"] by (simp add: append_numeric_child_name_def numeric_child)
  next
    case (Suc j')
    then show ?thesis using 2(1) [of j'] 2(2,3) by (simp add: append_numeric_child_name_def)
  qed
qed simp

abbreviation proc_leaves :: "(string \<times> knode_id) list" where
  "proc_leaves \<equiv> [(''id'', id_proc_pid_id), (''state'', id_proc_pid_state), (''cpu'', id_proc_pid_cpu), (''cpu_ticks'', id_proc_pid_cpu_ticks), (''name'', id_proc_pid_name)]"

lemma kget_proc_leaf:
  fixes ob :: "('w, 'd, 'h) kobj"
  assumes "kobj_init ob = Some ob1" "snapshot_task (kw_sched (fst (ko_sys ob1))) pid = Some t" "(leaf, n) \<in> set proc_leaves"
  shows "kget ob (Some (''/proc/'' @ dec_u64 pid @ CHR ''/'' # leaf)) = Some (ob1, proc_query_value ((make_resolved n :: ('w, 'd, 'h) resolved_node)\<lparr>rn_task := Some t\<rparr>))"
proof -
  let ?r = "(make_resolved n :: ('w, 'd, 'h) resolved_node)\<lparr>rn_kind := kind_proc_task, rn_task := Some t, rn_name := Some (kstr_set (dec_u64 pid))\<rparr>"
  let ?p = "''proc/'' @ dec_u64 pid @ CHR ''/'' # leaf"
  have "resolve_proc_path (kw_sched (fst (ko_sys ob1))) ?p = ?r"
    unfolding resolve_proc_leaf [OF assms(2)] using assms(3) by (auto simp: pick_leaf_def make_resolved_def no_node_def)
  moreover have "rn_node ?r \<noteq> None" by (simp add: make_resolved_def)
  ultimately have "resolve_internal ob (Some (CHR ''/'' # ?p)) = Some (ob1, ?r)"
    unfolding resolve_internal_at [OF assms(1)] by (simp add: resolve_at_def)
  moreover have "resolved_is_proc_leaf ?r" "resolved_is_dynamic_leaf ?r"
    using assms(3) by (auto simp: resolved_is_dynamic_leaf_def resolved_is_proc_leaf_def make_resolved_def)
  moreover have "proc_query_value ?r = proc_query_value ((make_resolved n :: ('w, 'd, 'h) resolved_node)\<lparr>rn_task := Some t\<rparr>)" by (simp add: proc_query_value_def make_resolved_def)
  ultimately show ?thesis by (simp add: kget_def kquery_def query_dynamic_value_def fill_node_info_def make_resolved_def Let_def)
qed

text \<open>
  C37. The process entries show the scheduler's tasks. For every task that is alive, the leaves
  below its number read its number, state, processor, ticks and name as the scheduler has them. Every
  entry that listing \<open>/proc\<close> shows after \<open>count\<close>, as far as the 64 places of the list reach, is the
  number of a living task, and the total counts them all.
\<close>

theorem proc_entries_show_tasks:
  fixes ob :: "('w, 'd, 'h) kobj"
  assumes "kobj_inv ob" and s_def: "s = kw_sched (fst (ko_sys ob))"
  shows "\<exists>ob'. (\<forall>pid t. snapshot_task s pid = Some t \<longrightarrow> sn_id t = pid \<and>
       kget ob (Some (''/proc/'' @ dec_u64 pid @ ''/id'')) = Some (ob', VU64 pid) \<and>
       kget ob (Some (''/proc/'' @ dec_u64 pid @ ''/state'')) = Some (ob', VEnum (task_state_index (sn_state t))) \<and>
       kget ob (Some (''/proc/'' @ dec_u64 pid @ ''/cpu'')) = Some (ob', VI64 (if sn_cpu t = SCHED_CPU_NONE then - 1 else ucast (sn_cpu t))) \<and>
       kget ob (Some (''/proc/'' @ dec_u64 pid @ ''/cpu_ticks'')) = Some (ob', VU64 (sn_cpu_ticks t)) \<and>
       kget ob (Some (''/proc/'' @ dec_u64 pid @ ''/name'')) = Some (ob', VStr (kstr_set (c_str (take 32 (sn_name t)))))) \<and>
     (\<exists>children. klist ob (Some ''/proc'') no_children = Some (ob', children, 1 + snd (snapshot_tasks s None)) \<and>
       (\<forall>j. 0 < j \<longrightarrow> j < 1 + snd (snapshot_tasks s None) \<longrightarrow> j < 64 \<longrightarrow>
          (\<exists>pid. children ! j = (dec_u64 pid, TStruct) \<and> snapshot_task s pid \<noteq> None)))"
proof -
  obtain ob1 where ob1: "kobj_init ob = Some ob1" "ko_initialized ob1" "registered all_nodes (ko_nodes ob1)" "ko_sys ob1 = ko_sys ob"
    using kobj_init_registered assms(1) unfolding kobj_inv_def by blast
  let ?tasks = "filter (\<lambda>t. t_state t \<noteq> terminated) (take (g_task_count s) (g_tasks s))"
  let ?ids = "map sn_id (fst (snapshot_tasks s (Some MAX_TASKS)))"
  let ?children = "append_ids_from (append_child_info no_children 0 ''count'' TU64) 1 ?ids"
  have "resolve_proc_path s ''proc'' = (make_resolved id_proc :: ('w, 'd, 'h) resolved_node)" by (simp add: resolve_proc_path_def sv_remove_prefix_def Let_def)
  then have "resolve_internal ob (Some ''/proc'') = Some (ob1, make_resolved id_proc)"
    unfolding resolve_internal_at [OF ob1(1)] by (simp add: resolve_at_def ob1(4) s_def [symmetric] make_resolved_def)
  then have list: "klist ob (Some ''/proc'') no_children = Some (ob1, ?children, 1 + snd (snapshot_tasks s None))"
    by (simp add: klist_def proc_list_children_def ob1(4) s_def [symmetric] make_resolved_def Let_def append_child_info_def no_children_def)
  have ids: "?ids = map t_id (take 64 ?tasks)" by (simp add: snapshot_tasks_def snapshot_loop_take snapshot_of_def MAX_TASKS_def Let_def)
  have entries: "\<exists>pid. ?children ! j = (dec_u64 pid, TStruct) \<and> snapshot_task s pid \<noteq> None"
    if j: "0 < j" "j < 1 + snd (snapshot_tasks s None)" "j < 64" for j
  proof -
    have len: "j - 1 < length ?tasks" using j by (simp add: snapshot_tasks_def Let_def)
    then have "j - 1 < length ?ids" "?ids ! (j - 1) = t_id (?tasks ! (j - 1))" using j(3) by (simp_all add: ids)
    then have "?children ! (1 + (j - 1)) = (dec_u64 (t_id (?tasks ! (j - 1))), TStruct)"
      using j append_ids_nth [of "j - 1" ?ids 1 "append_child_info no_children 0 ''count'' TU64"] by (simp add: append_child_info_def no_children_def)
    moreover have "?tasks ! (j - 1) \<in> set ?tasks" using len by (rule nth_mem)
    then have "snapshot_task s (t_id (?tasks ! (j - 1))) \<noteq> None" by (intro snapshot_task_of_live) auto
    ultimately show ?thesis using j(1) by auto
  qed
  have leaf: "kget ob (Some (''/proc/'' @ dec_u64 pid @ CHR ''/'' # leaf)) = Some (ob1, proc_query_value ((make_resolved n :: ('w, 'd, 'h) resolved_node)\<lparr>rn_task := Some t\<rparr>))"
    if "snapshot_task s pid = Some t" "(leaf, n) \<in> set proc_leaves" for pid t leaf n
    using kget_proc_leaf [OF ob1(1)] that by (simp add: s_def ob1(4))
  show ?thesis
    using list entries leaf snapshot_task_id [of s]
    by (intro exI [of _ ob1] conjI exI [of _ ?children]) (auto simp: proc_query_value_def make_resolved_def from_str_def)
qed

section \<open>Walking the static tree\<close>

lemma find_map_filter: "(\<And>x. x \<in> set xs \<Longrightarrow> Q x \<Longrightarrow> P (f x) = R x) \<Longrightarrow> find P (map f (filter Q xs)) = map_option f (find (\<lambda>x. Q x \<and> R x) xs)"
  by (induction xs) auto

text \<open>Looking up a child is a search of the tables.\<close>

lemma find_child_tables:
  fixes t :: "('w, 'd, 'h) ktree"
  assumes "registered all_nodes t" "n \<in> df_id ` set (all_nodes :: ('w, 'd, 'h) node_definition list)"
  shows "find_child t n name = map_option df_id (find (\<lambda>d. df_parent d = Some n \<and> df_name d = name) (all_nodes :: ('w, 'd, 'h) node_definition list))"
proof -
  have "kn_children (t n) = children_in (all_nodes :: ('w, 'd, 'h) node_definition list) n" using assms by (auto simp: registered_def Let_def)
  moreover have "sch_name (kn_schema (t (df_id d))) = df_name d" if "d \<in> set all_nodes" for d :: "('w, 'd, 'h) node_definition"
    using node_of_definition(1) [OF assms(1) that] by (simp add: definition_schema_def schema_reset_def)
  ultimately show ?thesis unfolding find_child_def by (simp add: children_in_def find_map_filter)
qed

lemma walk_segment:
  assumes "seg \<noteq> []" "CHR ''/'' \<notin> set seg" "NUL \<notin> set seg" "rest = [] \<or> hd rest = CHR ''/''"
  shows "walk_nodes t n (seg @ rest) = (case find_child t n seg of None \<Rightarrow> None | Some c \<Rightarrow> walk_nodes t c (skip_slashes rest))"
proof -
  have "takeWhile (\<lambda>c. c \<noteq> CHR ''/'' \<and> c \<noteq> NUL) (seg @ rest) = seg"
    using assms(2-4) by (subst takeWhile_append2) (auto simp: takeWhile_eq_Nil_iff)
  moreover have "hd seg \<noteq> NUL" using assms(1,3) by (metis hd_in_set)
  ultimately show ?thesis using assms(1) by (subst walk_nodes.simps) (simp add: Let_def split: option.split)
qed

lemma walk_settings:
  assumes "registered all_nodes t"
  shows "walk_nodes t id_root ''sys/power/state'' = Some id_sys_power_state" "walk_nodes t id_root ''sys/log/route'' = Some id_sys_log_route"
proof -
  have "id_root \<in> df_id ` set all_nodes" "id_sys \<in> df_id ` set all_nodes" "id_sys_power \<in> df_id ` set all_nodes" "id_sys_log \<in> df_id ` set all_nodes"
    by (simp_all add: all_nodes_def core_nodes_def plain_node_def)
  note c = this [THEN find_child_tables [OF assms]]
  have find: "find_child t id_root ''sys'' = Some id_sys" "find_child t id_sys ''power'' = Some id_sys_power" "find_child t id_sys ''log'' = Some id_sys_log"
    "find_child t id_sys_power ''state'' = Some id_sys_power_state" "find_child t id_sys_log ''route'' = Some id_sys_log_route"
    unfolding c by (simp_all add: all_nodes_def core_nodes_def plain_node_def)
  show "walk_nodes t id_root ''sys/power/state'' = Some id_sys_power_state"
    using walk_segment [of "''sys''" "''/power/state''" t id_root] walk_segment [of "''power''" "''/state''" t id_sys]
      walk_segment [of "''state''" "[]" t id_sys_power] find by (simp add: walk_nodes.simps [of t _ "[]"])
  show "walk_nodes t id_root ''sys/log/route'' = Some id_sys_log_route"
    using walk_segment [of "''sys''" "''/log/route''" t id_root] walk_segment [of "''log''" "''/route''" t id_sys]
      walk_segment [of "''route''" "[]" t id_sys_log] find by (simp add: walk_nodes.simps [of t _ "[]"])
qed

text \<open>A path below \<open>sys\<close> names a node of the static tree.\<close>

lemma resolve_sys:
  fixes ob :: "('w, 'd, 'h) kobj"
  assumes "kobj_init ob = Some ob1"
  shows "resolve_internal ob (Some (''/sys/'' @ p)) = Some (ob1, case walk_nodes (ko_nodes ob1) id_root (''sys/'' @ p) of None \<Rightarrow> no_node | Some n \<Rightarrow> make_resolved n)"
proof -
  have no: "resolve_proc_path sc (''sys/'' @ p) = no_node" "resolve_block_path bs (''sys/'' @ p) = no_node" "resolve_pci_path pt (''sys/'' @ p) = no_node"
    "resolve_net_device_path net (''sys/'' @ p) = no_node" "resolve_net_stack_path net (''sys/'' @ p) = (net, no_node)" "resolve_driver_path reg (''sys/'' @ p) = no_node"
    for sc bs pt net reg
    unfolding resolve_proc_path_def resolve_block_path_def resolve_pci_path_def resolve_net_device_path_def resolve_net_stack_path_def resolve_driver_path_def
      sv_starts_with_iff by simp_all
  show ?thesis unfolding resolve_internal_at [OF assms] by (simp add: resolve_at_def no [simplified] no_node_def [where 'w = 'w and 'd = 'd and 'h = 'h] Let_def)
qed

section \<open>An example\<close>

unbundle bit_operations_syntax

definition demo_world :: "(sectors, u8 list list, unit) kworld" where
  "demo_world = \<lparr>kw_km = example_heap, kw_sched = demo_ready, kw_cpu_count = 1, kw_fs = example_fs, kw_net = example_net, kw_sound = quiet_mixer,
     kw_pci = \<lparr>s_pci_devices = [], s_pci_count = 0\<rparr>, kw_hw = (), kw_log_route = 0, kw_power_state = 0\<rparr>"

definition demo_kobj :: "(sectors, u8 list list, unit) kobj" where
  "demo_kobj = \<lparr>ko_nodes = (\<lambda>n. knode_reset (plain_node n None [] TStruct)), ko_initialized = False,
     ko_sys = (demo_world, \<lparr>s_drivers = [], s_driver_count = 0, s_drivers_initialised = False\<rparr>)\<rparr>"

lemma demo_kobj_inv: "kobj_inv demo_kobj"
proof -
  have "quiet_mixer\<lparr>snd_km := example_heap\<rparr> = quiet_mixer" by (simp add: quiet_mixer_def)
  then show ?thesis using sound_boot_ok [OF demo_mixer_run(1)] by (simp add: kobj_inv_def demo_kobj_def sys_ok_def demo_world_def)
qed

lemma demo_resolve:
  obtains ob1 where "kobj_init demo_kobj = Some ob1" "registered all_nodes (ko_nodes ob1)" "ko_sys ob1 = ko_sys demo_kobj"
    "resolve_internal demo_kobj (Some ''/sys/power/state'') = Some (ob1, make_resolved id_sys_power_state)"
proof -
  obtain ob1 where "kobj_init demo_kobj = Some ob1" "registered all_nodes (ko_nodes ob1)" "ko_sys ob1 = ko_sys demo_kobj"
    using kobj_init_registered [of demo_kobj] by (auto simp: demo_kobj_def)
  then show ?thesis using that resolve_sys [of demo_kobj ob1 "''power/state''"] walk_settings(1) [of "ko_nodes ob1"] by simp
qed

lemma power_node:
  assumes "registered all_nodes (t :: ('w, 'd, 'h) ktree)"
  shows "sch_type (kn_schema (t id_sys_power_state)) = TEnum" "kn_set_fn (t id_sys_power_state) = Some set_sys_power_state" "sch_writable (kn_schema (t id_sys_power_state))"
proof -
  have "list_all (\<lambda>d. kn_schema (t (df_id d)) = definition_schema d \<and> kn_set_fn (t (df_id d)) = df_set d) (core_nodes :: ('w, 'd, 'h) node_definition list)"
    using assms by (auto simp: registered_def list_all_iff Let_def all_nodes_def)
  then show "sch_type (kn_schema (t id_sys_power_state)) = TEnum" "kn_set_fn (t id_sys_power_state) = Some set_sys_power_state" "sch_writable (kn_schema (t id_sys_power_state))"
    by (simp_all add: core_nodes_def plain_node_def)
qed

lemma demo_snapshot: "\<exists>t. snapshot_task demo_ready 1 = Some t"
proof -
  have "task_at demo_ready 0 = (new_task zero_task ''idle'' 1 False)\<lparr>t_entry := 0x1000, t_user_data := 0, t_rsp := (pf_stack_end demo_platform 0 AND NOT 0xF) - 200\<rparr>"
    by (simp add: demo_ready_fields(1) demo_idle_fields(1) demo_init_def sched_init_fields MAX_TASKS_def)
  then show ?thesis by (simp add: snapshot_task_def live_task_index_def demo_ready_fields(2) upt_conv_Cons new_task_def)
qed

lemma kquery_well_typed_witness:
  "kobj_inv demo_kobj \<and> (\<exists>ob' v info. kquery demo_kobj (Some ''/sys/power/state'') = Some (ob', Some (v, info)) \<and> kobj_inv ob' \<and> ni_type info = TEnum \<and> kval_tag v = TEnum)"
proof -
  obtain ob1 where ob1: "registered all_nodes (ko_nodes ob1)"
    "resolve_internal demo_kobj (Some ''/sys/power/state'') = Some (ob1, make_resolved id_sys_power_state)" by (rule demo_resolve)
  have "sch_type (kn_schema (ko_nodes ob1 id_sys_power_state)) = TEnum" by (rule power_node(1) [OF ob1(1)])
  moreover have "\<exists>f. kn_get_fn (ko_nodes ob1 id_sys_power_state) = Some f" using setting_callbacks(1) [OF ob1(1)] by blast
  ultimately have "\<exists>v info. map_option snd (kquery demo_kobj (Some ''/sys/power/state'')) = Some (Some (v, info)) \<and> ni_type info = TEnum"
    using setting_callbacks(1) [OF ob1(1)] ob1(2)
    by (simp add: kquery_def fill_node_info_def make_resolved_def no_node_def resolved_is_dynamic_leaf_def resolved_is_proc_leaf_def readable_def knode_read_def get_sys_power_state_def Let_def)
  then obtain ob' v info where "kquery demo_kobj (Some ''/sys/power/state'') = Some (ob', Some (v, info))" "ni_type info = TEnum" by (auto simp del: not_None_eq)
  moreover from this have "kobj_inv ob'" "kval_tag v = ni_type info" using kquery_well_typed [OF demo_kobj_inv, of "Some ''/sys/power/state''"] by auto
  ultimately show ?thesis using demo_kobj_inv by auto
qed

lemma kset_then_kget_witness:
  "kobj_inv demo_kobj \<and> (\<exists>ob'. kset demo_kobj (Some ''/sys/power/state'') (VEnum 1) = Some (ob', True) \<and> kget ob' (Some ''/sys/power/state'') = Some (ob', VEnum 1))"
proof -
  obtain ob1 where ob1: "registered all_nodes (ko_nodes ob1)"
    "resolve_internal demo_kobj (Some ''/sys/power/state'') = Some (ob1, make_resolved id_sys_power_state)" by (rule demo_resolve)
  have "\<exists>ob'. kset demo_kobj (Some ''/sys/power/state'') (VEnum 1) = Some (ob', True)"
    using power_node [OF ob1(1)] ob1(2)
    by (simp add: kset_def writable_def make_resolved_def no_node_def resolved_is_dynamic_leaf_def resolved_is_proc_leaf_def knode_write_def set_sys_power_state_def)
  then show ?thesis using kset_then_kget [OF demo_kobj_inv, of "Some ''/sys/power/state''" "VEnum 1"] demo_kobj_inv by auto
qed

lemma proc_entries_show_tasks_witness:
  "kobj_inv demo_kobj \<and> (\<exists>t ob'. snapshot_task demo_ready 1 = Some t \<and> kget demo_kobj (Some ''/proc/1/id'') = Some (ob', VU64 1))"
proof -
  have "demo_ready = kw_sched (fst (ko_sys demo_kobj))" by (simp add: demo_kobj_def demo_world_def)
  note T = proc_entries_show_tasks [OF demo_kobj_inv this]
  obtain t where t: "snapshot_task demo_ready 1 = Some t" using demo_snapshot by blast
  have "dec_u64 1 = ''1''" by code_simp
  then have "\<exists>ob'. kget demo_kobj (Some ''/proc/1/id'') = Some (ob', VU64 1)" using T t by force
  then show ?thesis using demo_kobj_inv t by blast
qed

end
