(* ===== verification/KRpcSpec.thy ===== *)
theory KRpcSpec
  imports KRpc KObjSpec
begin

text \<open>
  The JSON interface: a request written as an object is read back field by field, whatever the
  values hold, and a request to set the power state does what writing the node does.
\<close>

section \<open>Objects\<close>

fun json_escape :: "char \<Rightarrow> string" where
  "json_escape c =
     (if c = QUOTE then [BACKSLASH, QUOTE] else if c = BACKSLASH then [BACKSLASH, BACKSLASH] else if c = NEWLINE then [BACKSLASH, CHR ''n'']
      else if c = RETURN then [BACKSLASH, CHR ''r''] else if c = TAB then [BACKSLASH, CHR ''t''] else [c])"

definition json_text :: "string \<Rightarrow> string" where
  "json_text s = concat (map json_escape s)"

definition json_field :: "string \<Rightarrow> string \<Rightarrow> string" where
  "json_field k v = QUOTE # k @ QUOTE # CHR '':'' # QUOTE # json_text v @ [QUOTE]"

fun json_fields :: "(string \<times> string) list \<Rightarrow> string" where
  "json_fields [] = ''}''"
| "json_fields [(k, v)] = json_field k v @ ''}''"
| "json_fields ((k, v) # f # fs) = json_field k v @ CHR '','' # json_fields (f # fs)"

definition json_object :: "(string \<times> string) list \<Rightarrow> string" where
  "json_object fs = CHR ''{'' # json_fields fs"

definition key_ok :: "string \<Rightarrow> bool" where
  "key_ok k \<longleftrightarrow> k \<noteq> [] \<and> length k < 29 \<and> set k \<inter> {QUOTE, BACKSLASH, CHR '':'', CHR '','', CHR ''}'', NUL} = {}"

abbreviation json_pattern :: "string \<Rightarrow> string" where
  "json_pattern k \<equiv> QUOTE # k @ [QUOTE]"

abbreviation field_end :: "string \<Rightarrow> bool" where
  "field_end rest \<equiv> rest = [] \<or> hd rest = CHR '','' \<or> hd rest = CHR ''}''"

lemma json_text_simps [simp]: "json_text [] = []" "json_text (c # s) = json_escape c @ json_text s"
  by (simp_all add: json_text_def)

declare json_escape.simps [simp del]

section \<open>Where the pattern of a key can match\<close>

lemma value_at_other: "c \<noteq> QUOTE \<Longrightarrow> json_value_at (json_pattern k) cap (c # s) = None"
  by (simp add: json_value_at_def)

lemma value_at_match:
  assumes "json_value_at (json_pattern k) cap s \<noteq> None" obtains x where "s = json_pattern k @ x" "dropWhile is_json_space x \<noteq> []" "hd (dropWhile is_json_space x) = CHR '':''"
proof -
  have m: "take (length (json_pattern k)) s = json_pattern k" using assms by (auto simp: json_value_at_def split: if_splits)
  then have "s = json_pattern k @ drop (length (json_pattern k)) s" by (metis append_take_drop_id)
  then show ?thesis using assms m that by (auto simp: json_value_at_def Let_def split: if_splits)
qed

text \<open>A key that runs up to a quote of an escaped text ends with the text.\<close>

lemma key_in_text: "QUOTE \<notin> set k \<Longrightarrow> BACKSLASH \<notin> set k \<Longrightarrow> k @ QUOTE # x = json_text v @ QUOTE # rest \<Longrightarrow> x = rest"
proof (induction v arbitrary: k)
  case Nil
  then show ?case by (cases k) auto
next
  case (Cons c v)
  then obtain k' where "k = hd (json_escape c) # k'" by (cases k) (auto simp: json_escape.simps split: if_splits)
  then show ?case using Cons.prems Cons.IH [of k'] by (auto simp: json_escape.simps split: if_splits)
qed

lemma value_at_text:
  assumes "key_ok k" "field_end rest" shows "json_value_at (json_pattern k) cap (QUOTE # json_text v @ QUOTE # rest) = None"
proof (rule ccontr)
  assume "json_value_at (json_pattern k) cap (QUOTE # json_text v @ QUOTE # rest) \<noteq> None"
  then obtain x where x: "QUOTE # json_text v @ QUOTE # rest = json_pattern k @ x" "dropWhile is_json_space x \<noteq> []" "hd (dropWhile is_json_space x) = CHR '':''"
    by (rule value_at_match)
  have "x = rest" using key_in_text [of k x v rest] x(1) assms(1) by (auto simp: key_ok_def)
  then show False using x(2,3) assms(2) by (cases rest) (auto simp: is_json_space_def)
qed

lemma value_at_close:
  assumes "key_ok k" "s = [] \<or> hd s \<in> {CHR '':'', CHR '','', CHR ''}''}" shows "json_value_at (json_pattern k) cap (QUOTE # s) = None"
proof (rule ccontr)
  assume "json_value_at (json_pattern k) cap (QUOTE # s) \<noteq> None"
  then obtain x where "QUOTE # s = json_pattern k @ x" by (rule value_at_match)
  then show False using assms by (cases k) (auto simp: key_ok_def)
qed

lemma search_text:
  assumes "key_ok k" "field_end rest" shows "json_search (json_pattern k) cap (json_text v @ QUOTE # rest) = json_search (json_pattern k) cap rest"
proof (induction v)
  case Nil
  then show ?case using value_at_close [OF assms(1), of rest] assms(2) by auto
next
  case (Cons c v)
  then show ?case using value_at_text [OF assms, of cap v] by (auto simp: json_escape.simps value_at_other)
qed

lemma search_plain: "QUOTE \<notin> set s \<Longrightarrow> json_search (json_pattern k) cap (s @ t) = json_search (json_pattern k) cap t"
  by (induction s) (auto simp: value_at_other)

lemma same_key: "QUOTE \<notin> set a \<Longrightarrow> QUOTE \<notin> set b \<Longrightarrow> a @ QUOTE # x = b @ QUOTE # y \<Longrightarrow> a = b"
proof (induction a arbitrary: b)
  case Nil
  then show ?case by (cases b) auto
next
  case (Cons c a)
  then show ?case by (cases b) auto
qed

lemma search_other_field:
  assumes "key_ok k" "key_ok k'" "k' \<noteq> k" "field_end rest"
  shows "json_search (json_pattern k) cap (json_field k' v @ rest) = json_search (json_pattern k) cap rest"
proof -
  let ?t = "CHR '':'' # QUOTE # json_text v @ QUOTE # rest"
  have "json_value_at (json_pattern k) cap (QUOTE # k' @ QUOTE # ?t) = None"
  proof (rule ccontr)
    assume "json_value_at (json_pattern k) cap (QUOTE # k' @ QUOTE # ?t) \<noteq> None"
    then obtain x where "QUOTE # k' @ QUOTE # ?t = json_pattern k @ x" by (rule value_at_match)
    then have "k' @ QUOTE # ?t = k @ QUOTE # x" by simp
    moreover have "QUOTE \<notin> set k" "QUOTE \<notin> set k'" using assms(1,2) by (auto simp: key_ok_def)
    ultimately have "k' = k" using same_key by blast
    then show False using assms(3) by simp
  qed
  moreover have "json_search (json_pattern k) cap (QUOTE # ?t) = json_search (json_pattern k) cap rest"
    using value_at_close [OF assms(1), of ?t] value_at_text [OF assms(1,4), of cap v] search_text [OF assms(1,4), of cap v] by (simp add: value_at_other)
  moreover have "QUOTE \<notin> set k'" using assms(2) by (auto simp: key_ok_def)
  ultimately show ?thesis by (simp add: json_field_def search_plain)
qed

lemma unescape_text: "json_unescape n (json_text v @ QUOTE # rest) = take n v"
proof (induction v arbitrary: n)
  case Nil
  then show ?case by (cases n) auto
next
  case (Cons c v)
  then show ?case by (cases n) (auto simp: json_escape.simps split: list.splits)
qed

lemma search_field: "json_search (json_pattern k) cap (json_field k v @ rest) = Some (take (cap - 1) v)"
  by (simp add: json_field_def json_value_at_def is_json_space_def unescape_text)

lemma search_fields:
  "key_ok k \<Longrightarrow> \<forall>f \<in> set fs. key_ok (fst f) \<Longrightarrow> json_search (json_pattern k) cap (json_fields fs) = map_option (take (cap - 1)) (map_of fs k)"
proof (induction fs rule: json_fields.induct)
  case (2 k' v)
  then show ?case using search_field [of k cap v "''}''"] search_other_field [of k k' "''}''" cap v] by (auto simp: value_at_other)
next
  case (3 k' v f fs)
  let ?rest = "CHR '','' # json_fields (f # fs)"
  have "json_search (json_pattern k) cap ?rest = json_search (json_pattern k) cap (json_fields (f # fs))" by (simp add: value_at_other)
  then show ?case using 3 search_field [of k cap v ?rest] search_other_field [of k k' ?rest cap v] by auto
qed (simp add: value_at_other)

lemma fields_no_nul: "\<forall>f \<in> set fs. key_ok (fst f) \<and> NUL \<notin> set (snd f) \<Longrightarrow> NUL \<notin> set (json_fields fs)"
proof -
  have "NUL \<notin> set (json_text v)" if "NUL \<notin> set v" for v using that by (induction v) (auto simp: json_escape.simps)
  then show "\<forall>f \<in> set fs. key_ok (fst f) \<and> NUL \<notin> set (snd f) \<Longrightarrow> NUL \<notin> set (json_fields fs)"
    by (induction fs rule: json_fields.induct) (auto simp: json_field_def key_ok_def)
qed

lemma c_str_no_nul: "NUL \<notin> set s \<Longrightarrow> c_str s = s"
  unfolding c_str_def by (rule takeWhile_eq_all_conv [THEN iffD2]) auto

lemma extract_object:
  assumes "\<forall>f \<in> set fs. key_ok (fst f) \<and> NUL \<notin> set (snd f)" "key_ok k" "0 < cap"
  shows "json_extract_string_buffer (Some (json_object fs)) k cap = map_option (take (cap - 1)) (map_of fs k)"
proof -
  have "c_str (json_object fs) = json_object fs" using fields_no_nul [OF assms(1)] by (intro c_str_no_nul) (simp add: json_object_def)
  moreover have "json_search (json_pattern k) cap (json_object fs) = map_option (take (cap - 1)) (map_of fs k)"
    using search_fields [OF assms(2), of fs cap] assms(1) by (simp add: json_object_def value_at_other)
  ultimately show ?thesis using assms(2,3) by (simp add: json_extract_string_buffer_def key_ok_def)
qed

lemma extract_kstr:
  assumes "\<forall>f \<in> set fs. key_ok (fst f) \<and> NUL \<notin> set (snd f)" "key_ok k"
  shows "json_extract_string (Some (json_object fs)) k = map_option (take 63) (map_of fs k)"
  using extract_object [OF assms, of KSTR_MAX] by (cases "map_of fs k") (simp_all add: json_extract_string_def kstr_set_def KSTR_MAX_def)

lemma append_json_char_text: "text_is b s \<Longrightarrow> text_is (append_json_char c b) (s @ json_escape c)"
  using append_ch_text append_str_text by (auto simp: append_json_char_def json_escape.simps)

lemma fold_json_text: "text_is b s \<Longrightarrow> text_is (fold append_json_char cs b) (s @ json_text cs)"
proof (induction cs arbitrary: b s)
  case (Cons c cs)
  then show ?case using Cons.IH [OF append_json_char_text [OF Cons.prems, of c]] by simp
qed simp

lemma append_json_escaped_text: "text_is b s \<Longrightarrow> text_is (append_json_escaped b v) (s @ json_text (c_str v))"
  unfolding append_json_escaped_def by (rule fold_json_text)

text \<open>
  C38. Requests are read as they were written. From a JSON object with any values (quotes,
  backslashes and control characters escaped the way the kernel's own replies escape them),
  extracting a string by its key gives the value of the first field with that key, cut to the room
  of the buffer, and nothing when no field has the key; text inside other values is never taken for
  a key. Names and paths are cut to 63 characters.
\<close>

theorem json_extract_roundtrip:
  assumes "\<forall>f \<in> set fs. key_ok (fst f) \<and> NUL \<notin> set (snd f)" "key_ok k" "0 < cap" "text_is b t"
  shows "json_extract_string_buffer (Some (json_object fs)) k cap = map_option (take (cap - 1)) (map_of fs k) \<and>
    json_extract_string (Some (json_object fs)) k = map_option (take 63) (map_of fs k) \<and>
    text_is (append_json_escaped b v) (t @ json_text (c_str v))"
  using extract_object [OF assms(1-3)] extract_kstr [OF assms(1,2)] append_json_escaped_text [OF assms(4)] by blast

lemma json_extract_roundtrip_witness:
  "json_extract_string (Some (json_object [(''op'', ''get''), (''path'', ''a'' @ [QUOTE] @ ''path'' @ [QUOTE])])) ''path'' = Some (''a'' @ [QUOTE] @ ''path'' @ [QUOTE])"
proof -
  have "text_is (replicate 4 NUL, 0) []" by (simp add: text_is_def)
  then show ?thesis
    using json_extract_roundtrip [of "[(''op'', ''get''), (''path'', ''a'' @ [QUOTE] @ ''path'' @ [QUOTE])]" "''path''" 64 "(replicate 4 NUL, 0)" "[]" "[]"]
    by (simp add: key_ok_def)
qed

section \<open>Setting the power state\<close>

abbreviation power_request :: "string \<Rightarrow> string" where
  "power_request v \<equiv> json_object [(''op'', ''set''), (''path'', ''/sys/power/state''), (''value'', v)]"

lemma power_request_fields:
  assumes "NUL \<notin> set v"
  shows "json_extract_string (Some (power_request v)) ''op'' = Some ''set''" "json_extract_string (Some (power_request v)) ''path'' = Some ''/sys/power/state''"
    "json_extract_string (Some (power_request v)) ''value'' = Some (take 63 v)"
  using extract_kstr [of "[(''op'', ''set''), (''path'', ''/sys/power/state''), (''value'', v)]"] assms by (simp_all add: key_ok_def)

lemma power_labels:
  assumes "registered all_nodes (t :: ('w, 'd, 'h) ktree)"
  shows "take KENUM_MAX (sch_enum_labels (kn_schema (t id_sys_power_state))) = kPowerStateLabels"
proof -
  have "list_all (\<lambda>d. kn_schema (t (df_id d)) = definition_schema d) (core_nodes :: ('w, 'd, 'h) node_definition list)"
    using assms by (auto simp: registered_def list_all_iff Let_def all_nodes_def)
  then show ?thesis by (simp add: core_nodes_def plain_node_def KENUM_MAX_def labels_take)
qed

lemma reply_text:
  assumes "out \<noteq> []" obtains out' pos where "rpc_reply ob (out[0 := NUL]) msg = Some (ob, out', [])" "length out' = length out" "text_is (out', pos) msg"
proof -
  let ?b = "append_str (out[0 := NUL], 0) msg"
  have "text_is ?b msg" using append_str_text [OF text_is_start [of out], of msg] assms by simp
  then show ?thesis using that [of "fst ?b" "snd ?b"] text_lengths(2) [of "(out[0 := NUL], 0)" msg] by (simp add: rpc_reply_def)
qed

lemma kinfo_power:
  assumes "kobj_inv ob"
  obtains ob1 info where "kinfo ob (Some ''/sys/power/state'') = Some (ob1, Some info)" "ni_type info = TEnum" "ni_writable info" "ni_enum_labels info = kPowerStateLabels"
    "kobj_inv ob1" "ko_sys ob1 = ko_sys ob" "registered all_nodes (ko_nodes ob1)" "ko_initialized ob1"
proof -
  obtain ob1 where ob1: "kobj_init ob = Some ob1" "ko_initialized ob1" "registered all_nodes (ko_nodes ob1)" "ko_sys ob1 = ko_sys ob"
    using kobj_init_registered assms unfolding kobj_inv_def by blast
  have r: "resolve_internal ob (Some ''/sys/power/state'') = Some (ob1, make_resolved id_sys_power_state)"
    using resolve_sys [OF ob1(1), of "''power/state''"] walk_settings(1) [OF ob1(3)] by simp
  have inv: "kobj_inv ob1" using assms ob1 by (simp add: kobj_inv_def)
  show ?thesis
    using that [OF _ _ _ _ inv ob1(4,3,2)] r power_node [OF ob1(3)] power_labels [OF ob1(3)]
    by (simp add: kinfo_def fill_node_info_def make_resolved_def writable_def Let_def)
qed

lemma kset_power:
  assumes "kobj_inv ob" "ko_initialized ob" "registered all_nodes (ko_nodes ob)" "i \<le> 2"
  shows "kset ob (Some ''/sys/power/state'') (VEnum i) = Some (ob\<lparr>ko_sys := ((fst (ko_sys ob))\<lparr>kw_power_state := i\<rparr>, snd (ko_sys ob))\<rparr>, True)"
proof -
  have "kobj_init ob = Some ob" using assms(2) by (simp add: kobj_init_def)
  then have "resolve_internal ob (Some ''/sys/power/state'') = Some (ob, make_resolved id_sys_power_state)"
    using resolve_sys [of ob ob "''power/state''"] walk_settings(1) [OF assms(3)] by simp
  then show ?thesis using power_node [OF assms(3)] assms(4)
    by (simp add: kset_def make_resolved_def no_node_def resolved_is_dynamic_leaf_def resolved_is_proc_leaf_def writable_def knode_write_def set_sys_power_state_def not_less)
qed

text \<open>
  C39. A request to set the power state. Sent as a JSON object, it sets the power state to the label
  it names and answers that it did; a value that is no label is answered with an error and changes
  nothing. Both ways the tree keeps its invariant, nothing else of the kernel changes and the reply
  is the text, cut to the buffer and terminated.
\<close>

theorem rpc_sets_power_state:
  assumes "kobj_inv ob" "NUL \<notin> set v" "length v < KSTR_MAX" "out \<noteq> []"
  shows "\<exists>ob' out' pos. krpc ob (Some (power_request v)) out = Some (ob', out', []) \<and> kobj_inv ob' \<and> length out' = length out \<and>
    (if v \<in> set kPowerStateLabels
     then \<exists>i. kPowerStateLabels ! unat i = v \<and> ko_sys ob' = ((fst (ko_sys ob))\<lparr>kw_power_state := i\<rparr>, snd (ko_sys ob)) \<and>
       text_is (out', pos) ''{\"ok\":true,\"op\":\"set\"}''
     else ko_sys ob' = ko_sys ob \<and> text_is (out', pos) ''{\"ok\":false,\"error\":\"unknown enum value\"}'')"
proof -
  let ?out = "out[0 := NUL]"
  obtain ob1 info where i: "kinfo ob (Some ''/sys/power/state'') = Some (ob1, Some info)" "ni_type info = TEnum" "ni_writable info" "ni_enum_labels info = kPowerStateLabels"
    "kobj_inv ob1" "ko_sys ob1 = ko_sys ob" "registered all_nodes (ko_nodes ob1)" "ko_initialized ob1" by (rule kinfo_power [OF assms(1)])
  have tk: "take 63 v = v" using assms(3) by (simp add: KSTR_MAX_def)
  have eq: "kstr_eq v l \<longleftrightarrow> v = l" for l using c_str_no_nul [OF assms(2)] by (simp add: kstr_eq_def)
  have "c_str ''/sys/power/state'' = ''/sys/power/state''" by (rule c_str_no_nul) simp
  then have k: "krpc ob (Some (power_request v)) out = rpc_set ob (Some (power_request v)) ''/sys/power/state'' ?out"
    using power_request_fields [OF assms(2)] assms(4) by (simp add: krpc_def kstr_eq_def c_str_def)
  let ?find = "find (\<lambda>i. kstr_eq v (kPowerStateLabels ! i)) [0..<length kPowerStateLabels]"
  have set: "rpc_set ob (Some (power_request v)) ''/sys/power/state'' ?out =
    (case ?find of None \<Rightarrow> rpc_reply ob1 ?out ''{\"ok\":false,\"error\":\"unknown enum value\"}''
     | Some i \<Rightarrow> do { (ob, set_ok) \<leftarrow> kset ob1 (Some ''/sys/power/state'') (VEnum (word_of_nat i));
         if \<not> set_ok then rpc_reply ob ?out ''{\"ok\":false,\"error\":\"set failed\"}'' else rpc_reply ob ?out ''{\"ok\":true,\"op\":\"set\"}'' })"
    using i(1-4) power_request_fields(3) [OF assms(2)] tk by (simp add: rpc_set_def rpc_set_value_def split: option.split)
  show ?thesis
  proof (cases ?find)
    case None
    then have "v \<notin> set kPowerStateLabels" by (auto simp: find_None_iff eq in_set_conv_nth)
    moreover obtain out' pos where "rpc_reply ob1 ?out ''{\"ok\":false,\"error\":\"unknown enum value\"}'' = Some (ob1, out', [])" "length out' = length out"
      "text_is (out', pos) ''{\"ok\":false,\"error\":\"unknown enum value\"}''" using reply_text [OF assms(4)] by blast
    ultimately show ?thesis using k set None i(5,6) by auto
  next
    case (Some j)
    then have j: "j < 3" "v = kPowerStateLabels ! j" by (auto simp: find_Some_iff eq) (simp add: kPowerStateLabels_def)
    have "length kPowerStateLabels = 3" by (simp add: kPowerStateLabels_def)
    then have v: "v \<in> set kPowerStateLabels" using j nth_mem [of j kPowerStateLabels] by simp
    have u: "unat (word_of_nat j :: u32) = j" using j(1) by (simp add: unat_of_nat take_bit_nat_eq_self)
    then have le: "(word_of_nat j :: u32) \<le> 2" using j(1) by (simp add: word_le_nat_alt)
    let ?ob = "ob1\<lparr>ko_sys := ((fst (ko_sys ob1))\<lparr>kw_power_state := word_of_nat j\<rparr>, snd (ko_sys ob1))\<rparr>"
    have inv: "kobj_inv ?ob" using i(5) le by (simp add: kobj_inv_def sys_ok_def)
    obtain out' pos where "rpc_reply ?ob ?out ''{\"ok\":true,\"op\":\"set\"}'' = Some (?ob, out', [])" "length out' = length out"
      "text_is (out', pos) ''{\"ok\":true,\"op\":\"set\"}''" using reply_text [OF assms(4)] by blast
    then show ?thesis using k set Some kset_power [OF i(5,8,7) le] inv v j(2) u i(6)
      by (intro exI [of _ ?ob] exI [of _ out'] exI [of _ pos]) (auto intro!: exI [of _ "word_of_nat j"])
  qed
qed

lemma rpc_sets_power_state_witness:
  "\<exists>ob' out'. krpc demo_kobj (Some (power_request ''suspend'')) (replicate 64 NUL) = Some (ob', out', []) \<and> kw_power_state (fst (ko_sys ob')) = 1"
proof -
  have "kobj_inv demo_kobj" "NUL \<notin> set ''suspend''" "length ''suspend'' < KSTR_MAX" "replicate 64 NUL \<noteq> []" using demo_kobj_inv by (simp_all add: KSTR_MAX_def)
  note R = rpc_sets_power_state [OF this]
  have "''suspend'' \<in> set kPowerStateLabels" by (simp add: kPowerStateLabels_def)
  then obtain ob' out' i where r: "krpc demo_kobj (Some (power_request ''suspend'')) (replicate 64 NUL) = Some (ob', out', [])"
    "kPowerStateLabels ! unat i = ''suspend''" "kw_power_state (fst (ko_sys ob')) = i" "i \<le> 2"
    using R by (auto simp: kobj_inv_def sys_ok_def)
  have "unat i = 0 \<or> unat i = 1 \<or> unat i = 2" using r(4) by (auto simp: word_le_nat_alt)
  then have "unat i = 1" using r(2) by (auto simp: kPowerStateLabels_def)
  then have "i = 1" by (metis unsigned_1 unsigned_word_eqI)
  then show ?thesis using r by auto
qed

end
