(* ===== verification/Spec2Isabelle.thy ===== *)
theory Spec2Isabelle
  imports VirtMemSpec NetSpec SchedSpec ElfSpec PeSpec FsSpec InputSpec SoundSpec KRpcSpec
begin

text \<open>
  A verification development for vkernel, a small UEFI kernel for x86-64 written in C++. The
  kernel boots from UEFI, takes over the memory map, and runs its own page allocator, heap, page
  tables, scheduler, network stack and file systems. The theories translate the parts that carry
  state and decisions into executable definitions and prove what makes them correct.

  \<^bold>\<open>How the parts interact.\<close> The page allocator (src/core/memory.cpp, \<open>phys_allocator\<close>) hands out
  physical pages from the firmware's memory map. The kernel heap (\<open>kernel_heap\<close>, same file) is
  built on pages it takes from the page allocator and grows through it. The page-table manager
  (src/core/virtual_memory.cpp) takes pages for tables and for user memory. The network stack
  (src/net) takes its buffers from the heap; its receive task calls the ARP, IPv4 and ICMP
  handlers, which queue answers on a ring that the transmit task empties. The scheduler
  (src/core/scheduler.cpp) switches tasks on all CPUs, activates their address spaces and hands
  the contexts of finished processes to cleanup. The loaders (src/core/elf.cpp, src/core/pe.cpp)
  build images on pages or on the heap; the file systems (src/fs, src/core/fs.cpp) keep their
  buffers there, and so does the sound mixer (src/core/sound.cpp), which a task of its own drives.
  The driver registry (src/core/driver.cpp) activates sound, block, network and file-system drivers.
  The object tree (src/core/kobj) shows all of these as typed nodes under paths, and serves JSON
  requests that read, list and write nodes, list directories and load drivers.

  \<^bold>\<open>Conventions.\<close> Machine integers are words of their width, so sums wrap as in C++. A pointer is
  an index into the table it points to, or an address with 0 as null. State is a record passed and
  returned; a failing operation returns the value the code returns, and a loop that need not end is
  a \<open>partial_function\<close> in the option type, where \<open>None\<close> is not returning. \<open>None\<close> also stands for
  undefined behaviour (an index outside an array) where the code has no check. Each locked section
  is one step, since its spinlock also disables interrupts. Log output is left out everywhere.
  There is no fuel: loops are structural, have a measure, or are shown to return.

  \<^bold>\<open>Theories.\<close>
  \<^item> \<open>Prelude\<close>, \<open>Types\<close>: words read as numbers, chains of linked nodes, and the helpers of
    include/vkernel/types.h (alignment, status codes, strings).
  \<^item> \<open>Blocks\<close>: the abstract view of a list of adjacent blocks that both allocators implement.
  \<^item> \<open>PhysAlloc\<close> (definitions), \<open>PhysAllocInv\<close> (invariant), \<open>PhysAllocSpec\<close> (properties): regions in
    a fixed pool of nodes, initialisation from the memory map, first fit with splitting, release
    with merging. Blocks held at the same time are disjoint, allocation and release return, release
    undoes allocation, and failure means that no region fits.
  \<^item> \<open>MemUtil\<close>: memory::set, copy, compare and move on a byte store.
  \<^item> \<open>KHeap\<close>, \<open>KHeapInv\<close>, \<open>KHeapSpec\<close>: the intrusive block list, all allocation functions, coalescing,
    growth, and memory::init. Live payloads never overlap each other, a header or a free page.
  \<^item> \<open>VirtMem\<close>, \<open>VirtMemInv\<close>, \<open>VirtMemSpec\<close>: four-level tables in memory, mapping, unmapping, user
    pages and the user heap, address spaces. What is mapped translates, nothing else changes.
  \<^item> \<open>Bindings\<close>: interfaces for bounded tables of bindings and bounded queues, as locales.
  \<^item> \<open>NetWire\<close>, \<open>NetWireSpec\<close>: wire structures as byte lists, checksum; round trips.
  \<^item> \<open>ArpCache\<close>, \<open>Net\<close>, \<open>NetProto\<close> (definitions), \<open>NetRing\<close>, \<open>NetInv\<close>, \<open>NetRx\<close> (invariants), \<open>NetSpec\<close>
    (properties): device registry, transmit ring, ARP, IPv4, ICMP, receive and transmit tasks. The
    device drivers and the effect of sleeping are parameters. Every frame is handled without
    blocking and with at most one answer; built frames are accepted; the resolver returns.
  \<^item> \<open>Sched\<close> (definitions), \<open>SchedInv\<close>, \<open>SchedRun\<close>, \<open>SchedSwitch\<close>, \<open>SchedSpec\<close> (properties): task table,
    preemption, sleep, termination and start on all CPUs, and where processes meet it (exec and exit
    of src/core/process.cpp and src/core/kernel_api.cpp), as interleavings of atomic steps. No task
    runs on two CPUs, waiting is bounded, contexts are cleaned up once, a switch saves and restores
    the right frames and registers. The layout of stacks and the interrupt controllers are parameters.
  \<^item> \<open>Elf\<close> (definitions), \<open>ElfInv\<close>, \<open>ElfSpec\<close> (properties): the ELF loader of src/core/elf.cpp, from the
    checks of the headers to the relocations, on a byte store with the page allocator as the source
    of the image. What is loaded is what the file says, and malformed files change nothing.
  \<^item> \<open>Pe\<close> (definitions), \<open>PeInv\<close>, \<open>PeSpec\<close> (properties): the PE loader of src/core/pe.cpp, whose image is a
    block of the kernel heap. Nothing outside the image is written, errors give the image back, and
    a loaded image has its sections and its relocations.
  \<^item> \<open>Ring\<close>: ring buffers with one free slot, shared by the transmit ring and the mouse queue, with a
    locale for queues that drop their oldest element. \<open>Input\<close>, \<open>InputSpec\<close>: keyboard, mouse and serial
    input of src/core/input.cpp; the controllers are state machines behind their ports.
  \<^item> \<open>Sound\<close> (definitions), \<open>SoundInv\<close> (ownership of the buffers), \<open>SoundMix\<close> (the mixed window against a
    reference), \<open>SoundSpec\<close> (properties): the mixer and driver calls of src/core/sound.cpp. The
    functions of the driver are those of the table it registers.
  \<^item> \<open>Ramfs\<close>: the in-memory file table of src/fs/ramfs.cpp, whose copies live in blocks of the kernel
    heap: a file found is the file added, whatever the heap did in between.
  \<^item> \<open>BlockDev\<close>: the registry of block devices and the range-checked transfers of src/core/block.cpp.
    The operations of a device are arguments, with their contract as the predicate \<open>disk_ok\<close>.
  \<^item> \<open>FatName\<close> (entries, paths, names), \<open>FatVol\<close> (table, cache, clusters), \<open>FatDir\<close> (directories),
    \<open>FatFile\<close> (files, mounting): the definitions of src/fs/fat32.cpp. \<open>FatInv\<close>, \<open>FatTab\<close>, \<open>FatAlloc\<close>,
    \<open>FatWrite\<close>, \<open>FatRead\<close>, \<open>FatChain\<close>, \<open>FatRange\<close>, \<open>FatMount\<close>: the volume invariant, the FAT as a function, chains, and
    what each loop does to them. \<open>FatSpec\<close>: mounting takes the geometry from the boot sector, clusters are handed out once, a chain is released on every
    table, a write that does not fit changes nothing, and what is written is what is read.
  \<^item> \<open>Mounts\<close> (src/fs/mounts.cpp), \<open>Fs\<close>, \<open>FsStream\<close> (src/core/fs.cpp): partition tables, the mounted driver,
    and the table of open streams, whose buffers are blocks of the kernel heap. \<open>HeapFrame\<close>: what a
    client of the heap leaves alone. \<open>FsInv\<close>, \<open>FsRef\<close>, \<open>FsSpec\<close>: the invariant of the table, an abstract
    file and the proof that streams refine it, reads through the driver, and the end of a task.

  \<^item> \<open>Pci\<close>: configuration space and enumeration of src/core/pci.cpp; the two ports are parameters,
    and what is assumed of them is how configuration mechanism 1 answers reads. The table is what the
    bus has.
  \<^item> \<open>KWorld\<close>: the states of the components side by side, with the one heap they share. \<open>DriverReg\<close>: the
    driver registry on that state.
  \<^item> \<open>KText\<close> (text helpers, numbers), \<open>KIds\<close> (node ids), \<open>KTree\<close> (values, nodes, tables, callbacks), \<open>KPaths\<close>
    (dynamic subtrees), \<open>KObj\<close> (the interface): the definitions of src/core/kobj. \<open>KTreeInv\<close>: registration
    does not panic and gives the tree of the tables, and the tables are well typed. \<open>KObjInv\<close>, \<open>KObjVal\<close>:
    what a path resolves to and the type of what it reads as. \<open>KObjSpec\<close>: queries are well typed, a
    write is what the next read returns, process entries show the scheduler's tasks.
  \<^item> \<open>KRpc\<close>, \<open>KRpcSpec\<close>: the JSON requests of src/core/kobj/rpc.cpp; fields are read as they were written,
    and a request to set the power state does that.

  \<^bold>\<open>Interfaces.\<close> The locales of \<open>Blocks\<close>, \<open>Bindings\<close> and \<open>SchedSwitch\<close> state what a client relies on
  (a block list with allocation and release, a table of bindings, a bounded queue, a fair
  chooser); each is interpreted on the definitions of the component that provides it, and the
  properties over whole runs are consequences of the interpretations.

  \<^bold>\<open>Restrictions.\<close> Where the code relies on its callers, the properties say so: sizes for which
  rounding up does not wrap, an id counter that does not overflow, a task that does not sleep after
  another CPU has terminated it, a process that is not terminated between the cleanup of its context
  and its exit, a sleep that lets the tick counter advance, a boot sector whose volume lies on the
  device with a table for all its clusters, executables without relocations and with disjoint
  segments. The lemmas \<open>allocate_wraps_near_max\<close>, \<open>sleep_undoes_terminate\<close> and
  \<open>terminate_during_exit_cleans_twice\<close> show what the code does outside three of them, and
  \<open>aligned_block_links_to_itself\<close> an effect of aligned allocation that the invariant tolerates.

  \<^bold>\<open>Not modelled.\<close> Console, framebuffer, logging and debugging output only; boot, ACPI, the UEFI
  file loader and the device drivers talk to firmware and hardware that are not in the repository;
  descriptor tables and processor start-up are privileged instructions. Of processes and of the system
  call table, which wraps the components above, only exec and exit as the scheduler sees them are
  modelled. Printing and rebooting on request
  are effects a JSON request returns.
\<close>

end
